(* ===== verification/Pillar_Prelude.thy ===== *)
theory Pillar_Prelude
  imports Main "HOL-Library.Word"
begin

text \<open>
  Shared vocabulary of the development: bytes and byte slices, big-endian integers of a fixed
  width (Rust's \<open>to_be_bytes\<close> and \<open>from_be_bytes\<close>), fallible computations as sums, decimal
  rendering and parsing as Rust's \<open>Display\<close> and \<open>str::parse\<close> do it, ASCII case folding and
  prefix stripping, and the generic lemmas on them that every component uses.
\<close>

unbundle bit_operations_syntax

section \<open>Bytes, machine integers, results\<close>

type_synonym byte = "8 word"
type_synonym bytes = "byte list"
type_synonym u16 = "16 word"
type_synonym u32 = "32 word"
type_synonym u64 = "64 word"

named_theorems res_simps \<open>facts that open a fallible computation\<close>
named_theorems slice_simps \<open>facts on fixed offsets of a byte string\<close>

text \<open>\<open>Result::and_then\<close>, the \<open>?\<close> operator of the source.\<close>

fun and_then :: "'e + 'a \<Rightarrow> ('a \<Rightarrow> 'e + 'b) \<Rightarrow> 'e + 'b" where
  "and_then (Inl e) f = Inl e"
| "and_then (Inr x) f = f x"

fun map_err :: "('e \<Rightarrow> 'f) \<Rightarrow> 'e + 'a \<Rightarrow> 'f + 'a" where
  "map_err f (Inl e) = Inl (f e)"
| "map_err f (Inr x) = Inr x"

fun ok_or :: "'e \<Rightarrow> 'a option \<Rightarrow> 'e + 'a" where
  "ok_or e None = Inl e"
| "ok_or e (Some x) = Inr x"

definition is_ok :: "'e + 'a \<Rightarrow> bool" where
  "is_ok r = (case r of Inl _ \<Rightarrow> False | Inr _ \<Rightarrow> True)"

text \<open>A loop that stops at the first error, \<open>iter().map(f).collect::<Result<Vec<_>, _>>()\<close>.\<close>

fun map_ok :: "('a \<Rightarrow> 'b) \<Rightarrow> 'e + 'a \<Rightarrow> 'e + 'b" where
  "map_ok f (Inl e) = Inl e"
| "map_ok f (Inr x) = Inr (f x)"

fun map_res :: "('a \<Rightarrow> 'e + 'b) \<Rightarrow> 'a list \<Rightarrow> 'e + 'b list" where
  "map_res f [] = Inr []"
| "map_res f (x # xs) =
     and_then (f x) (\<lambda>y. and_then (map_res f xs) (\<lambda>ys. Inr (y # ys)))"

lemma and_then_eq_Inr [res_simps]:
  "and_then r f = Inr y \<longleftrightarrow> (\<exists>x. r = Inr x \<and> f x = Inr y)"
  by (cases r) auto

lemma and_then_eq_Inl [res_simps]:
  "and_then r f = Inl e \<longleftrightarrow> r = Inl e \<or> (\<exists>x. r = Inr x \<and> f x = Inl e)"
  by (cases r) auto

lemma map_err_eq_Inr [res_simps]: "map_err f r = Inr x \<longleftrightarrow> r = Inr x"
  by (cases r) auto

lemma and_then_assoc: "and_then (and_then r f) g = and_then r (\<lambda>x. and_then (f x) g)"
  by (cases r) auto

lemma map_ok_eq_Inr [res_simps]: "map_ok f r = Inr y \<longleftrightarrow> (\<exists>x. r = Inr x \<and> y = f x)"
  by (cases r) auto

lemma map_ok_eq_Inl [res_simps]: "map_ok f r = Inl e \<longleftrightarrow> r = Inl e"
  by (cases r) auto

lemma map_err_eq_Inl [res_simps]: "map_err f r = Inl e \<longleftrightarrow> (\<exists>d. r = Inl d \<and> e = f d)"
  by (cases r) auto

lemma ok_or_eq_Inr [res_simps]: "ok_or e x = Inr y \<longleftrightarrow> x = Some y"
  by (cases x) auto

lemma ok_or_eq_Inl [res_simps]: "ok_or e x = Inl d \<longleftrightarrow> x = None \<and> d = e"
  by (cases x) auto

lemma is_ok_simps [simp]: "is_ok (Inr x)" "\<not> is_ok (Inl e)"
  by (simp_all add: is_ok_def)

lemma is_ok_iff: "is_ok r \<longleftrightarrow> (\<exists>x. r = Inr x)"
  by (cases r) auto

lemma map_res_eq_Inr: "map_res f xs = Inr ys \<longleftrightarrow> list_all2 (\<lambda>x y. f x = Inr y) xs ys"
proof (induction xs arbitrary: ys)
  case Nil
  then show ?case by auto
next
  case (Cons x xs)
  show ?case by (cases ys) (auto simp: res_simps Cons.IH)
qed

lemma map_res_cong [fundef_cong]:
  "xs = ys \<Longrightarrow> (\<And>x. x \<in> set ys \<Longrightarrow> f x = g x) \<Longrightarrow> map_res f xs = map_res g ys"
  by (induction ys arbitrary: xs) auto

lemma map_res_member: "map_res f xs = Inr ys \<Longrightarrow> y \<in> set ys \<Longrightarrow> \<exists>x \<in> set xs. f x = Inr y"
  by (induction xs arbitrary: ys) (auto simp: res_simps)

lemma map_res_length: "map_res f xs = Inr ys \<Longrightarrow> length ys = length xs"
  by (auto simp: map_res_eq_Inr dest: list_all2_lengthD)

lemma map_res_Inr: "(\<And>x. x \<in> set xs \<Longrightarrow> f x = Inr (g x)) \<Longrightarrow> map_res f xs = Inr (map g xs)"
  by (induction xs) auto


section \<open>Slices\<close>

text \<open>\<open>&data[start..stop]\<close> on a range the caller has checked.\<close>

definition slice :: "nat \<Rightarrow> nat \<Rightarrow> 'a list \<Rightarrow> 'a list" where
  "slice start stop xs = take (stop - start) (drop start xs)"

lemma length_slice [simp]:
  "length (slice start stop xs) = min (stop - start) (length xs - start)"
  by (simp add: slice_def)

lemma slice_append_left [slice_simps]:
  "stop \<le> length xs \<Longrightarrow> slice start stop (xs @ ys) = slice start stop xs"
  by (simp add: slice_def)

lemma slice_append_right [slice_simps]:
  "length xs \<le> start \<Longrightarrow>
   slice start stop (xs @ ys) = slice (start - length xs) (stop - length xs) ys"
proof -
  assume a: "length xs \<le> start"
  then have "stop - length xs - (start - length xs) = stop - start" by simp
  with a show ?thesis by (simp add: slice_def)
qed

lemma slice_all [slice_simps]: "n = length xs \<Longrightarrow> slice 0 n xs = xs"
  by (simp add: slice_def)

lemma slice_join: "a \<le> b \<Longrightarrow> b \<le> c \<Longrightarrow> slice a b xs @ slice b c xs = slice a c xs"
proof -
  assume a: "a \<le> b" "b \<le> c"
  have "slice a b xs @ slice b c xs = take (b - a) (drop a xs) @ take (c - b) (drop (b - a) (drop a xs))"
    using a by (simp add: slice_def)
  also have "\<dots> = take ((b - a) + (c - b)) (drop a xs)"
    by (simp only: take_add)
  finally show ?thesis using a by (simp add: slice_def)
qed

lemma slice_drop_join: "a \<le> b \<Longrightarrow> slice a b xs @ drop b xs = drop a xs"
proof -
  assume "a \<le> b"
  then have "drop b xs = drop (b - a) (drop a xs)" by simp
  then show ?thesis by (simp only: slice_def append_take_drop_id)
qed

lemma hd_drop_join: "xs \<noteq> [] \<Longrightarrow> [xs ! 0] @ drop 1 xs = xs"
  by (cases xs) auto

lemma slice_drop: "b = length xs \<Longrightarrow> slice a b xs = drop a xs"
  by (simp add: slice_def)

lemma nth_slice: "i < stop - start \<Longrightarrow> stop \<le> length xs \<Longrightarrow> slice start stop xs ! i = xs ! (start + i)"
  by (simp add: slice_def)


section \<open>Big-endian integers\<close>

fun be_encode :: "nat \<Rightarrow> nat \<Rightarrow> bytes" where
  "be_encode 0 k = []"
| "be_encode (Suc n) k = be_encode n (k div 256) @ [word_of_nat k]"

definition be_decode :: "bytes \<Rightarrow> nat" where
  "be_decode bs = foldl (\<lambda>acc b. acc * 256 + unat b) 0 bs"

lemma length_be_encode [simp]: "length (be_encode n k) = n"
  by (induction n arbitrary: k) auto

lemma be_decode_Nil [simp]: "be_decode [] = 0"
  by (simp add: be_decode_def)

lemma be_decode_snoc [simp]: "be_decode (bs @ [b]) = be_decode bs * 256 + unat b"
  by (simp add: be_decode_def)

lemma unat_byte_less [simp]: "unat (b :: byte) < 256"
  using unsigned_less [of b] by simp

lemma be_decode_less: "be_decode bs < 256 ^ length bs"
proof (induction bs rule: rev_induct)
  case Nil
  then show ?case by simp
next
  case (snoc b bs)
  have "be_decode bs * 256 + unat b < (be_decode bs + 1) * 256" by simp
  also have "\<dots> \<le> 256 ^ length bs * 256"
    using snoc by (intro mult_le_mono1) simp
  finally show ?case by simp
qed

lemma be_decode_encode: "be_decode (be_encode n k) = k mod 256 ^ n"
proof (induction n arbitrary: k)
  case 0
  then show ?case by simp
next
  case (Suc n)
  have "k mod 256 ^ Suc n = k mod (256 * 256 ^ n)" by simp
  also have "\<dots> = 256 * (k div 256 mod 256 ^ n) + k mod 256"
    by (rule mod_mult2_eq)
  finally show ?case by (simp add: Suc unat_of_nat)
qed

lemma be_decode_encode_id: "k < 256 ^ n \<Longrightarrow> be_decode (be_encode n k) = k"
  by (simp add: be_decode_encode)

lemma be_encode_decode: "n = length bs \<Longrightarrow> be_encode n (be_decode bs) = bs"
proof (induction bs arbitrary: n rule: rev_induct)
  case Nil
  then show ?case by simp
next
  case (snoc b bs)
  have q: "(be_decode bs * 256 + unat b) div 256 = be_decode bs" by simp
  have r: "word_of_nat (be_decode bs * 256 + unat b) = b"
  proof -
    have "word_of_nat (be_decode bs * 256 + unat b) = (word_of_nat (unat b) :: byte)"
      unfolding word_of_nat_eq_iff by (simp add: take_bit_eq_mod)
    then show ?thesis by simp
  qed
  show ?case using snoc q r by simp
qed

lemma be_encode_inj: "k < 256 ^ n \<Longrightarrow> l < 256 ^ n \<Longrightarrow> be_encode n k = be_encode n l \<Longrightarrow> k = l"
  using be_decode_encode_id by metis

lemma be_encode_zero [simp]: "be_encode n 0 = replicate n 0"
  by (induction n) (auto simp: replicate_append_same)

lemma be_decode_Cons: "be_decode (b # bs) = unat b * 256 ^ length bs + be_decode bs"
proof (induction bs rule: rev_induct)
  case Nil
  have "be_decode ([] @ [b]) = unat b" unfolding be_decode_snoc by simp
  then show ?case by simp
next
  case (snoc c cs)
  have "be_decode ((b # cs) @ [c]) = be_decode (b # cs) * 256 + unat c"
    by (rule be_decode_snoc)
  then show ?case using snoc by (simp add: algebra_simps)
qed

lemma be_decode_append: "be_decode (as @ bs) = be_decode as * 256 ^ length bs + be_decode bs"
  by (induction as) (auto simp: be_decode_Cons algebra_simps power_add)

lemma be_decode_zeros [simp]: "be_decode (replicate n 0) = 0"
  by (induction n) (auto simp: be_decode_Cons)

text \<open>Rust's \<open>to_be_bytes\<close> / \<open>from_be_bytes\<close> on the unsigned widths the source uses.\<close>

definition u16_to_be :: "u16 \<Rightarrow> bytes" where "u16_to_be w = be_encode 2 (unat w)"
definition u32_to_be :: "u32 \<Rightarrow> bytes" where "u32_to_be w = be_encode 4 (unat w)"
definition u64_to_be :: "u64 \<Rightarrow> bytes" where "u64_to_be w = be_encode 8 (unat w)"
definition u16_from_be :: "bytes \<Rightarrow> u16" where "u16_from_be bs = word_of_nat (be_decode bs)"
definition u32_from_be :: "bytes \<Rightarrow> u32" where "u32_from_be bs = word_of_nat (be_decode bs)"
definition u64_from_be :: "bytes \<Rightarrow> u64" where "u64_from_be bs = word_of_nat (be_decode bs)"

lemma unat_be_bounds:
  "unat (a :: u16) < 256 ^ 2" "unat (b :: u32) < 256 ^ 4" "unat (c :: u64) < 256 ^ 8"
  using unsigned_less [of a, where ?'a = nat] unsigned_less [of b, where ?'a = nat]
    unsigned_less [of c, where ?'a = nat]
  by simp_all

lemma unat_of_small_nat:
  "n < 2 ^ 64 \<Longrightarrow> unat (word_of_nat n :: u64) = n"
  "n < 2 ^ 32 \<Longrightarrow> unat (word_of_nat n :: u32) = n"
  "n < 2 ^ 16 \<Longrightarrow> unat (word_of_nat n :: u16) = n"
  "n < 2 ^ 8 \<Longrightarrow> unat (word_of_nat n :: byte) = n"
  by (simp_all add: unat_of_nat)

text \<open>
  The contract a fixed-width integer encoding gives its clients; the clients (packet, ABI and
  cursor readers) only use these laws.
\<close>

locale fixed_width_codec =
  fixes enc :: "'v \<Rightarrow> bytes"
    and dec :: "bytes \<Rightarrow> 'v"
    and width :: nat
  assumes enc_length: "length (enc v) = width"
    and dec_enc: "dec (enc v) = v"
    and enc_dec: "length bs = width \<Longrightarrow> enc (dec bs) = bs"
begin

lemma enc_inject: "enc v = enc w \<longleftrightarrow> v = w"
  using dec_enc by metis

lemma prefix_inject: "enc v @ as = enc w @ bs \<longleftrightarrow> v = w \<and> as = bs"
  by (auto simp: append_eq_append_conv enc_length enc_inject)

lemma dec_slice: "n = width \<Longrightarrow> dec (slice 0 n (enc v @ rest)) = v"
  by (simp add: slice_def enc_length dec_enc)

lemma enc_dec_slice: "start + width \<le> length bs \<Longrightarrow> stop = start + width \<Longrightarrow>
    enc (dec (slice start stop bs)) = slice start stop bs"
  by (rule enc_dec) simp

end

interpretation u16_be: fixed_width_codec u16_to_be u16_from_be 2
proof (unfold_locales, goal_cases)
  case (1 v) show ?case by (simp add: u16_to_be_def)
next
  case (2 v)
  show ?case
    by (simp add: u16_to_be_def u16_from_be_def be_decode_encode_id [OF unat_be_bounds(1)])
next
  case (3 bs)
  then have "be_decode bs < 2 ^ 16" using be_decode_less [of bs] by simp
  with 3 show ?case by (simp add: u16_to_be_def u16_from_be_def unat_of_nat be_encode_decode)
qed

interpretation u32_be: fixed_width_codec u32_to_be u32_from_be 4
proof (unfold_locales, goal_cases)
  case (1 v) show ?case by (simp add: u32_to_be_def)
next
  case (2 v)
  show ?case
    by (simp add: u32_to_be_def u32_from_be_def be_decode_encode_id [OF unat_be_bounds(2)])
next
  case (3 bs)
  then have "be_decode bs < 2 ^ 32" using be_decode_less [of bs] by simp
  with 3 show ?case by (simp add: u32_to_be_def u32_from_be_def unat_of_nat be_encode_decode)
qed

interpretation u64_be: fixed_width_codec u64_to_be u64_from_be 8
proof (unfold_locales, goal_cases)
  case (1 v) show ?case by (simp add: u64_to_be_def)
next
  case (2 v)
  show ?case
    by (simp add: u64_to_be_def u64_from_be_def be_decode_encode_id [OF unat_be_bounds(3)])
next
  case (3 bs)
  then have "be_decode bs < 2 ^ 64" using be_decode_less [of bs] by simp
  with 3 show ?case by (simp add: u64_to_be_def u64_from_be_def unat_of_nat be_encode_decode)
qed

lemmas be_lengths [simp] = u16_be.enc_length u32_be.enc_length u64_be.enc_length
lemmas be_roundtrips [simp] = u16_be.dec_enc u32_be.dec_enc u64_be.dec_enc


section \<open>Text\<close>

definition digit_char :: "nat \<Rightarrow> char" where
  "digit_char d = char_of (48 + d)"

fun show_nat :: "nat \<Rightarrow> string" where
  "show_nat n = (if n < 10 then [digit_char n] else show_nat (n div 10) @ [digit_char (n mod 10)])"

declare show_nat.simps [simp del]

definition show_int :: "int \<Rightarrow> string" where
  "show_int i = (if i < 0 then ''-'' @ show_nat (nat (- i)) else show_nat (nat i))"

text \<open>\<open>char::to_digit(10)\<close>.\<close>

definition to_digit10 :: "char \<Rightarrow> nat option" where
  "to_digit10 c = (let n = of_char c :: nat in if 48 \<le> n \<and> n \<le> 57 then Some (n - 48) else None)"

text \<open>
  \<open>str::parse\<close> for an unsigned type with the given number of values: the digit loop multiplies,
  then reads the digit, then reports the overflow of the multiplication, then adds.
\<close>

fun parse_loop :: "nat \<Rightarrow> nat \<Rightarrow> string \<Rightarrow> string + nat" where
  "parse_loop limit acc [] = Inr acc"
| "parse_loop limit acc (c # cs) =
     (case to_digit10 c of
        None \<Rightarrow> Inl ''invalid digit found in string''
      | Some d \<Rightarrow>
          if limit \<le> acc * 10 + d then Inl ''number too large to fit in target type''
          else parse_loop limit (acc * 10 + d) cs)"

definition parse_unsigned :: "nat \<Rightarrow> string \<Rightarrow> string + nat" where
  "parse_unsigned limit s =
     (if s = [] then Inl ''cannot parse integer from empty string''
      else if s = ''+'' \<or> s = ''-'' then Inl ''invalid digit found in string''
      else parse_loop limit 0 (if hd s = CHR ''+'' then tl s else s))"

definition parse_u32 :: "string \<Rightarrow> string + nat" where
  "parse_u32 s = parse_unsigned (2 ^ 32) s"

lemma to_digit10_digit_char: "d < 10 \<Longrightarrow> to_digit10 (digit_char d) = Some d"
  by (simp add: to_digit10_def digit_char_def)

lemma show_nat_not_Nil [simp]: "show_nat n \<noteq> []"
  by (subst show_nat.simps) simp

lemma digit_char_neq: "d < 10 \<Longrightarrow> digit_char d \<noteq> CHR ''+''" "d < 10 \<Longrightarrow> digit_char d \<noteq> CHR ''-''"
proof -
  have *: "to_digit10 CHR ''+'' = None" "to_digit10 CHR ''-'' = None"
    by (simp_all add: to_digit10_def)
  show "d < 10 \<Longrightarrow> digit_char d \<noteq> CHR ''+''" "d < 10 \<Longrightarrow> digit_char d \<noteq> CHR ''-''"
    using to_digit10_digit_char [of d] * by auto
qed

lemma hd_show_nat: "hd (show_nat n) \<noteq> CHR ''+'' \<and> hd (show_nat n) \<noteq> CHR ''-''"
proof (induction n rule: show_nat.induct)
  case (1 n)
  show ?case
  proof (cases "n < 10")
    case True
    then show ?thesis by (simp add: show_nat.simps [of n] digit_char_neq)
  next
    case False
    with 1 show ?thesis by (simp add: show_nat.simps [of n])
  qed
qed

lemma parse_loop_append:
  "parse_loop limit acc (xs @ ys) = and_then (parse_loop limit acc xs) (\<lambda>a. parse_loop limit a ys)"
  by (induction xs arbitrary: acc) (auto split: option.splits)

lemma parse_loop_show_nat: "n < limit \<Longrightarrow> parse_loop limit 0 (show_nat n) = Inr n"
proof (induction n rule: show_nat.induct)
  case (1 n)
  show ?case
  proof (cases "n < 10")
    case True
    with "1.prems" show ?thesis
      by (simp add: show_nat.simps [of n] to_digit10_digit_char)
  next
    case False
    have "n div 10 < limit" using "1.prems" by (meson div_le_dividend le_less_trans)
    with False "1.IH" have "parse_loop limit 0 (show_nat (n div 10)) = Inr (n div 10)" by simp
    with False "1.prems" show ?thesis
      by (simp add: show_nat.simps [of n] parse_loop_append to_digit10_digit_char)
  qed
qed

lemma parse_show_nat: "n < limit \<Longrightarrow> parse_unsigned limit (show_nat n) = Inr n"
  using hd_show_nat [of n] parse_loop_show_nat [of n limit]
  by (auto simp: parse_unsigned_def)

lemma parse_loop_less: "acc < limit \<Longrightarrow> parse_loop limit acc s = Inr n \<Longrightarrow> n < limit"
  by (induction limit acc s rule: parse_loop.induct) (auto split: option.splits if_splits)

lemma parse_unsigned_less: "0 < limit \<Longrightarrow> parse_unsigned limit s = Inr n \<Longrightarrow> n < limit"
  by (auto simp: parse_unsigned_def parse_loop_less split: if_splits)

lemma parse_u32_show: "n < 2 ^ 32 \<Longrightarrow> parse_u32 (show_nat n) = Inr n"
  unfolding parse_u32_def by (rule parse_show_nat)

lemma parse_u32_less: "parse_u32 s = Inr n \<Longrightarrow> n < 2 ^ 32"
  unfolding parse_u32_def by (rule parse_unsigned_less) simp_all

text \<open>\<open>str::strip_prefix("0x").unwrap_or(value)\<close> and \<open>trim_start_matches("0x")\<close>.\<close>

fun strip_0x :: "string \<Rightarrow> string" where
  "strip_0x (a # b # s) = (if a = CHR ''0'' \<and> b = CHR ''x'' then s else a # b # s)"
| "strip_0x s = s"

fun trim_start_0x :: "string \<Rightarrow> string" where
  "trim_start_0x (a # b # s) =
     (if a = CHR ''0'' \<and> b = CHR ''x'' then trim_start_0x s else a # b # s)"
| "trim_start_0x s = s"

definition with_0x :: "string \<Rightarrow> string" where
  "with_0x s = ''0x'' @ s"

lemma strip_with_0x [simp]: "strip_0x (with_0x s) = s"
  by (simp add: with_0x_def)

lemma with_0x_inject [simp]: "with_0x s = with_0x t \<longleftrightarrow> s = t"
  by (simp add: with_0x_def)

text \<open>\<open>char::to_ascii_lowercase\<close> and \<open>char::to_ascii_uppercase\<close>.\<close>

definition ascii_lower :: "char \<Rightarrow> char" where
  "ascii_lower c = (let n = of_char c :: nat in if 65 \<le> n \<and> n \<le> 90 then char_of (n + 32) else c)"

definition ascii_upper :: "char \<Rightarrow> char" where
  "ascii_upper c = (let n = of_char c :: nat in if 97 \<le> n \<and> n \<le> 122 then char_of (n - 32) else c)"

lemma of_char_less_256: "(of_char c :: nat) < 256"
  by simp

lemma of_ascii_lower:
  "(of_char (ascii_lower c) :: nat) =
     (if 65 \<le> (of_char c :: nat) \<and> (of_char c :: nat) \<le> 90 then of_char c + 32 else of_char c)"
  by (auto simp: ascii_lower_def Let_def)

lemma of_ascii_upper:
  "(of_char (ascii_upper c) :: nat) =
     (if 97 \<le> (of_char c :: nat) \<and> (of_char c :: nat) \<le> 122 then of_char c - 32 else of_char c)"
  by (auto simp: ascii_upper_def Let_def)

lemma char_eq_iff: "c = d \<longleftrightarrow> (of_char c :: nat) = of_char d"
  by (metis char_of_char)

lemma ascii_lower_idem [simp]: "ascii_lower (ascii_lower c) = ascii_lower c"
  by (auto simp: char_eq_iff [of "ascii_lower (ascii_lower c)"] of_ascii_lower)

lemma ascii_lower_upper [simp]: "ascii_lower (ascii_upper c) = ascii_lower c"
  by (auto simp: char_eq_iff [of "ascii_lower (ascii_upper c)"] of_ascii_lower of_ascii_upper)

definition eq_ignore_ascii_case :: "string \<Rightarrow> string \<Rightarrow> bool" where
  "eq_ignore_ascii_case s t \<longleftrightarrow> map ascii_lower s = map ascii_lower t"

end
