(* ===== verification/Pillar_Types.thy ===== *)
theory Pillar_Types
  imports Pillar_Prelude
begin

text \<open>
  The data of \<^verbatim>\<open>pillar-core/src/lib.rs\<close> (message ids, sent events, signing contexts, errors) and of
  \<^verbatim>\<open>pillar-layerzero/src/types.rs\<close>, the JSON values they carry, and the third-party functions
  the source calls (\<open>hex\<close>, \<open>sha3\<close>, \<open>bs58\<close>, \<open>num_bigint\<close>), which are a record of parameters
  with their documented behaviour as the named hypothesis \<open>hex_ok\<close> and \<open>digest_ok\<close>.
\<close>

section \<open>Errors\<close>

datatype budget_error = Overloaded | WaitExpired | Deadline | UnknownLane | Closed

fun show_budget_error :: "budget_error \<Rightarrow> string" where
  "show_budget_error Overloaded = ''resource_overloaded''"
| "show_budget_error WaitExpired = ''admission_wait_expired''"
| "show_budget_error Deadline = ''request_deadline''"
| "show_budget_error UnknownLane = ''unconfigured_resource_lane''"
| "show_budget_error Closed = ''resource_draining''"

datatype app_core_error =
    BadRequest string
  | UnresolvableCommand string
  | Internal string
  | Admission budget_error

fun show_app_core_error :: "app_core_error \<Rightarrow> string" where
  "show_app_core_error (BadRequest s) = s"
| "show_app_core_error (UnresolvableCommand s) = s"
| "show_app_core_error (Internal s) = s"
| "show_app_core_error (Admission b) = show_budget_error b"

type_synonym 'a res = "app_core_error + 'a"

section \<open>JSON values and insertion-ordered maps\<close>

text \<open>
  The shape of \<open>serde_json::Value\<close>. A number is a non-negative integer below \<open>2^64\<close>, a negative
  integer, or a floating-point number, kept as its bit pattern.
\<close>

datatype json_number = PosInt u64 | NegInt int | Float u64

datatype json =
    JNull
  | JBool bool
  | JNumber json_number
  | JString string
  | JArray "json list"
  | JObject "(string \<times> json) list"

type_synonym index_map = "(string \<times> json) list"

fun im_insert :: "string \<Rightarrow> 'v \<Rightarrow> (string \<times> 'v) list \<Rightarrow> (string \<times> 'v) list" where
  "im_insert k v [] = [(k, v)]"
| "im_insert k v ((k', v') # m) = (if k' = k then (k, v) # m else (k', v') # im_insert k v m)"

abbreviation im_get :: "(string \<times> 'v) list \<Rightarrow> string \<Rightarrow> 'v option" where
  "im_get \<equiv> map_of"

lemma im_get_insert [simp]: "im_get (im_insert k v m) = (im_get m)(k \<mapsto> v)"
  by (induction m rule: im_insert.induct) (auto simp: fun_eq_iff)

lemma im_insert_keys: "fst ` set (im_insert k v m) = insert k (fst ` set m)"
  by (induction k v m rule: im_insert.induct) (simp_all add: insert_commute)

lemma im_insert_distinct: "distinct (map fst m) \<Longrightarrow> distinct (map fst (im_insert k v m))"
  by (induction k v m rule: im_insert.induct) (auto simp: im_insert_keys)

fun as_str :: "json \<Rightarrow> string option" where
  "as_str (JString s) = Some s"
| "as_str _ = None"

fun as_u64 :: "json \<Rightarrow> u64 option" where
  "as_u64 (JNumber (PosInt n)) = Some n"
| "as_u64 _ = None"

section \<open>Messages\<close>

record pathway_id =
  src_chain_name :: string
  dst_chain_name :: string
  pathway_extra :: index_map

record lz_message_id =
  msg_pathway_id :: pathway_id
  msg_nonce :: u64
  uln_send_version :: json

record read_block_pin =
  pin_chain_name :: string
  pin_block_number :: u64
  pin_block_hash :: string

text \<open>
  \<open>source_evidence\<close> is only carried from the resolver to the validator, so its type stays
  abstract: the tag of the source family and an opaque body.
\<close>

datatype source_evidence = EvmEvidence json | StarknetEvidence json | SolanaEvidence u64

record lz_sent_event =
  ev_lz_message_id :: lz_message_id
  ev_message :: string
  ev_tx_hash :: string
  ev_source_evidence :: "source_evidence option"
  ev_read_block_pins :: "read_block_pin list"
  ev_extra :: index_map

record time_marker =
  tm_block_confirmation :: int
  tm_is_block_number :: bool
  tm_chain_name :: string
  tm_block_number :: int
  tm_timestamp :: int

datatype signing_context =
    Message (ctx_expiration: int) (ctx_skip_v_id: "bool option")
      (ctx_dvn_address: "string option") (ctx_block_confirmation: int)
  | Read (ctx_expiration: int) (ctx_skip_v_id: "bool option")
      (ctx_dvn_address: "string option") (ctx_markers: "time_marker list")

record pillar_request_v2 =
  rq_src_tx_hash :: string
  rq_lz_message_id :: lz_message_id
  rq_signing_context :: signing_context
  rq_message_hash :: string

record hash_call_data_result =
  hash_call_data :: string
  hc_details :: json

section \<open>LayerZero constants\<close>

definition ULN_VERSION_V2 :: string where
  "ULN_VERSION_V2 = ''V2''"
definition ULN_VERSION_V300 :: string where
  "ULN_VERSION_V300 = ''V300''"
definition ULN_VERSION_V301 :: string where
  "ULN_VERSION_V301 = ''V301''"
definition ULN_VERSION_V302 :: string where
  "ULN_VERSION_V302 = ''V302''"
definition ULN_VERSION_READ_V1002 :: string where
  "ULN_VERSION_READ_V1002 = ''ReadV1002''"

lemmas uln_versions [simp] =
  ULN_VERSION_V2_def ULN_VERSION_V300_def ULN_VERSION_V301_def ULN_VERSION_V302_def
  ULN_VERSION_READ_V1002_def

definition LEGACY_ULN_V2_PACKET_TOPIC :: string where
  "LEGACY_ULN_V2_PACKET_TOPIC =
     ''0xe9bded5f24a4168e4f3bf44e00298c993b22376aad8c58c7dda9718a54cbea82''"
definition ENDPOINT_V2_PACKET_SENT_TOPIC :: string where
  "ENDPOINT_V2_PACKET_SENT_TOPIC =
     ''0x1ab700d4ced0c005b164c0f789fd09fcbb0156d4c2041b8a3bfbcd961cd1567f''"
definition ULN_301_PACKET_SENT_TOPIC :: string where
  "ULN_301_PACKET_SENT_TOPIC =
     ''0x3dc6f2ede34d1db05729bbb76e5efd17ec1bc83f98f665e7fba0596dca438b96''"

definition RECEIVE_ULN_302_VERIFY_SELECTOR :: bytes where
  "RECEIVE_ULN_302_VERIFY_SELECTOR = [0x02, 0x23, 0x53, 0x6e]"
definition READ_LIB_1002_VERIFY_SELECTOR :: bytes where
  "READ_LIB_1002_VERIFY_SELECTOR = [0xab, 0x75, 0x0e, 0x75]"

section \<open>Third-party functions\<close>

datatype from_hex_error = InvalidHexCharacter char nat | OddLength | InvalidStringLength

text \<open>
  The functions of other crates, as one record: \<open>hex\<close>, \<open>sha2\<close> and \<open>sha3\<close>, \<open>bs58\<close> (\<open>bs58_decode_onto32\<close> is
  \<open>decode(value).onto(&mut [0u8; 32])\<close>, its result the bytes it wrote), \<open>num-bigint\<close>,
  \<open>ed25519_dalek\<close> (\<open>ed25519_point\<close> is \<open>VerifyingKey::from_bytes(bytes).is_ok()\<close>) and the compact text of a
  \<open>serde_json\<close> value.
\<close>

record external =
  hex_encode :: "bytes \<Rightarrow> string"
  hex_decode :: "string \<Rightarrow> string + bytes"
  hex_decode_to_slice :: "string \<Rightarrow> from_hex_error + bytes"
  show_hex_error :: "from_hex_error \<Rightarrow> string"
  keccak256 :: "bytes \<Rightarrow> bytes"
  sha3_256 :: "bytes \<Rightarrow> bytes"
  bs58_decode :: "string \<Rightarrow> string + bytes"
  biguint_be_to_string :: "bytes \<Rightarrow> string"
  sha256 :: "bytes \<Rightarrow> bytes"
  bs58_decode_onto32 :: "string \<Rightarrow> string + bytes"
  bs58_encode :: "bytes \<Rightarrow> string"
  ed25519_point :: "bytes \<Rightarrow> bool"
  json_to_string :: "json \<Rightarrow> string"

text \<open>
  The documented behaviour of the \<open>hex\<close> crate the source relies on: encoding writes two
  lower-case digits per byte, decoding inverts it, and a decoded text has twice the length of its bytes.
\<close>

definition hex_ok :: "external \<Rightarrow> bool" where
  "hex_ok X \<longleftrightarrow>
     (\<forall>bs. hex_decode X (hex_encode X bs) = Inr bs) \<and>
     (\<forall>bs. length (hex_encode X bs) = 2 * length bs) \<and>
     (\<forall>s bs. hex_decode X s = Inr bs \<longrightarrow> length s = 2 * length bs) \<and>
     (\<forall>bs. set (hex_encode X bs) \<subseteq> set ''0123456789abcdef'')"

text \<open>
  The behaviour of \<open>decode_to_slice\<close>, for the streaming decoder: it reads pairs of digits from left
  to right and reports the first bad digit by its position, and \<open>decode\<close> gives the same answer with
  the error rendered.
\<close>

fun shift_hex_error :: "nat \<Rightarrow> from_hex_error \<Rightarrow> from_hex_error" where
  "shift_hex_error n (InvalidHexCharacter c i) = InvalidHexCharacter c (i + n)"
| "shift_hex_error n e = e"

definition hex_slice_ok :: "external \<Rightarrow> bool" where
  "hex_slice_ok X \<longleftrightarrow>
     (\<forall>s. even (length s) \<longrightarrow> hex_decode X s = map_err (show_hex_error X) (hex_decode_to_slice X s)) \<and>
     hex_decode_to_slice X [] = Inr [] \<and>
     (\<forall>a b. even (length a) \<and> even (length b) \<longrightarrow>
        hex_decode_to_slice X (a @ b) =
          and_then (hex_decode_to_slice X a) (\<lambda>x.
            map_err (shift_hex_error (length a)) (map_ok (\<lambda>y. x @ y) (hex_decode_to_slice X b))))"

text \<open>A 256-bit digest has 32 bytes.\<close>

definition digest_ok :: "external \<Rightarrow> bool" where
  "digest_ok X \<longleftrightarrow> (\<forall>bs. length (keccak256 X bs) = 32) \<and> (\<forall>bs. length (sha3_256 X bs) = 32) \<and>
     (\<forall>bs. length (sha256 X bs) = 32)"

lemma hex_okD:
  assumes "hex_ok X"
  shows "hex_decode X (hex_encode X bs) = Inr bs"
    and "length (hex_encode X bs) = 2 * length bs"
    and "hex_decode X s = Inr bs' \<Longrightarrow> length s = 2 * length bs'"
    and "set (hex_encode X bs) \<subseteq> set ''0123456789abcdef''"
  using assms unfolding hex_ok_def by blast+

lemma hex_slice_okD:
  assumes "hex_slice_ok X"
  shows "even (length s) \<Longrightarrow> hex_decode X s = map_err (show_hex_error X) (hex_decode_to_slice X s)"
    and "hex_decode_to_slice X [] = Inr []"
    and "even (length a) \<Longrightarrow> even (length b) \<Longrightarrow> hex_decode_to_slice X (a @ b) =
      and_then (hex_decode_to_slice X a) (\<lambda>x.
        map_err (shift_hex_error (length a)) (map_ok (\<lambda>y. x @ y) (hex_decode_to_slice X b)))"
  using assms unfolding hex_slice_ok_def by blast+

lemma hex_encode_inject: "hex_ok X \<Longrightarrow> hex_encode X as = hex_encode X bs \<longleftrightarrow> as = bs"
  by (metis hex_okD(1) sum.inject(2))

lemma digest_okD:
  assumes "digest_ok X"
  shows "length (keccak256 X bs) = 32" and "length (sha3_256 X bs) = 32" and "length (sha256 X bs) = 32"
  using assms by (auto simp: digest_ok_def)

text \<open>\<open>format!("0x{}", hex::encode(bytes))\<close>.\<close>

definition hex0x :: "external \<Rightarrow> bytes \<Rightarrow> string" where
  "hex0x X bs = with_0x (hex_encode X bs)"

lemma hex0x_inject: "hex_ok X \<Longrightarrow> hex0x X as = hex0x X bs \<longleftrightarrow> as = bs"
  by (simp add: hex0x_def hex_encode_inject)

subsection \<open>A concrete instance\<close>

text \<open>
  Concrete functions with that behaviour, for the examples that evaluate the model: a hexadecimal
  codec over lower-case digits that also reads upper case, and digests that pad or cut to 32 bytes.
\<close>

definition hex_digit :: "nat \<Rightarrow> char" where
  "hex_digit d = (if d < 10 then char_of (48 + d) else char_of (87 + d))"

definition hex_value :: "char \<Rightarrow> nat option" where
  "hex_value c =
     (let n = of_char c :: nat in
      if 48 \<le> n \<and> n \<le> 57 then Some (n - 48)
      else if 97 \<le> n \<and> n \<le> 102 then Some (n - 87)
      else if 65 \<le> n \<and> n \<le> 70 then Some (n - 55)
      else None)"

fun ref_hex_encode :: "bytes \<Rightarrow> string" where
  "ref_hex_encode [] = []"
| "ref_hex_encode (b # bs) =
     hex_digit (unat b div 16) # hex_digit (unat b mod 16) # ref_hex_encode bs"

fun ref_hex_slice :: "nat \<Rightarrow> string \<Rightarrow> from_hex_error + bytes" where
  "ref_hex_slice n [] = Inr []"
| "ref_hex_slice n [c] = Inl OddLength"
| "ref_hex_slice n (c # d # s) =
     (case hex_value c of None \<Rightarrow> Inl (InvalidHexCharacter c n)
      | Some h \<Rightarrow> (case hex_value d of None \<Rightarrow> Inl (InvalidHexCharacter d (Suc n))
      | Some l \<Rightarrow> and_then (ref_hex_slice (n + 2) s) (\<lambda>bs. Inr (word_of_nat (16 * h + l) # bs))))"

fun ref_show_hex_error :: "from_hex_error \<Rightarrow> string" where
  "ref_show_hex_error (InvalidHexCharacter c i) = ''Invalid character '' @ [c] @ '' at position '' @ show_nat i"
| "ref_show_hex_error OddLength = ''Odd number of digits''"
| "ref_show_hex_error InvalidStringLength = ''Invalid string length''"

definition ref_hex_decode :: "string \<Rightarrow> string + bytes" where
  "ref_hex_decode s = map_err ref_show_hex_error (ref_hex_slice 0 s)"

definition ref_external :: external where
  "ref_external =
     \<lparr> hex_encode = ref_hex_encode, hex_decode = ref_hex_decode,
       hex_decode_to_slice = ref_hex_slice 0, show_hex_error = ref_show_hex_error,
       keccak256 = (\<lambda>bs. take 32 (bs @ replicate 32 7)),
       sha3_256 = (\<lambda>bs. take 32 (bs @ replicate 32 9)),
       bs58_decode = (\<lambda>s. Inl ''unsupported''),
       biguint_be_to_string = (\<lambda>bs. show_nat (be_decode bs)),
       sha256 = (\<lambda>bs. take 32 (bs @ replicate 32 8)),
       bs58_decode_onto32 = (\<lambda>s. Inr (take 32 (map (\<lambda>c. word_of_nat (of_char c)) s))),
       bs58_encode = map (\<lambda>b. char_of (unat b)),
       ed25519_point = (\<lambda>bs. False),
       json_to_string = (\<lambda>v. []) \<rparr>"

lemma hex_value_digit: "d < 16 \<Longrightarrow> hex_value (hex_digit d) = Some d"
  by (auto simp: hex_value_def hex_digit_def Let_def)

lemma ref_hex_slice_encode: "ref_hex_slice n (ref_hex_encode bs) = Inr bs"
proof (induction bs arbitrary: n)
  case (Cons b bs)
  have "unat b div 16 < 16"
    using unat_byte_less [of b] by (simp add: less_mult_imp_div_less)
  moreover have "word_of_nat (16 * (unat b div 16) + unat b mod 16) = b"
    by (simp only: mult_div_mod_eq) simp
  ultimately show ?case
    using Cons by (simp add: hex_value_digit)
qed simp

lemma ref_hex_decode_encode: "ref_hex_decode (ref_hex_encode bs) = Inr bs"
  by (simp add: ref_hex_decode_def ref_hex_slice_encode)

lemma ref_hex_encode_length: "length (ref_hex_encode bs) = 2 * length bs"
  by (induction bs) auto

lemma hex_digit_set: "d < 16 \<Longrightarrow> hex_digit d \<in> set ''0123456789abcdef''"
proof -
  have "\<forall>d \<in> {..<16}. hex_digit d \<in> set ''0123456789abcdef''" by code_simp
  then show "d < 16 \<Longrightarrow> ?thesis" by blast
qed

lemma ref_hex_encode_set: "set (ref_hex_encode bs) \<subseteq> set ''0123456789abcdef''"
proof (induction bs)
  case (Cons b bs)
  have "unat b div 16 < 16" using unat_byte_less [of b] by (simp add: less_mult_imp_div_less)
  then have "hex_digit (unat b div 16) \<in> set ''0123456789abcdef''" "hex_digit (unat b mod 16) \<in> set ''0123456789abcdef''"
    by (simp_all only: hex_digit_set mod_less_divisor zero_less_numeral)
  with Cons show ?case by (simp only: ref_hex_encode.simps list.set insert_subset)
qed (simp only: ref_hex_encode.simps list.set empty_subsetI)

lemma ref_hex_slice_length: "ref_hex_slice n s = Inr bs \<Longrightarrow> length s = 2 * length bs"
  by (induction n s arbitrary: bs rule: ref_hex_slice.induct)
    (auto simp: res_simps split: option.splits)

lemma ref_hex_decode_length: "ref_hex_decode s = Inr bs \<Longrightarrow> length s = 2 * length bs"
  by (auto simp: ref_hex_decode_def res_simps intro: ref_hex_slice_length)

lemma shift_hex_error_add [simp]:
  "shift_hex_error m (shift_hex_error n e) = shift_hex_error (n + m) e" "shift_hex_error 0 e = e"
  by (cases e; simp)+

lemma ref_hex_slice_shift:
  "ref_hex_slice (m + n) s = map_err (shift_hex_error m) (ref_hex_slice n s)"
proof (induction n s rule: ref_hex_slice.induct)
  case (3 n c d s)
  then show ?case
    by (cases "ref_hex_slice (n + 2) s") (auto split: option.splits)
qed auto

lemma ref_hex_slice_append:
  "even (length a) \<Longrightarrow> ref_hex_slice n (a @ b) =
     and_then (ref_hex_slice n a) (\<lambda>x. map_ok (\<lambda>y. x @ y) (ref_hex_slice (n + length a) b))"
proof (induction n a rule: ref_hex_slice.induct)
  case (1 n)
  then show ?case by (cases "ref_hex_slice n b") auto
next
  case (3 n c d s)
  then show ?case
    by (cases "ref_hex_slice (n + 2) s"; cases "ref_hex_slice (n + (2 + length s)) b")
      (auto split: option.splits)
qed auto

lemma map_err_map_ok: "map_err f (map_ok g r) = map_ok g (map_err f r)"
  by (cases r) auto

lemma ref_external_hex_slice_ok: "hex_slice_ok ref_external"
proof -
  have "ref_hex_slice (length a) b = map_err (shift_hex_error (length a)) (ref_hex_slice 0 b)" for a :: string and b
    using ref_hex_slice_shift [of "length a" 0 b] by simp
  then have "ref_hex_slice 0 (a @ b) = and_then (ref_hex_slice 0 a) (\<lambda>x.
      map_err (shift_hex_error (length a)) (map_ok (\<lambda>y. x @ y) (ref_hex_slice 0 b)))"
    if "even (length a)" for a b
    using ref_hex_slice_append [OF that, of 0 b] by (simp add: map_err_map_ok)
  then show ?thesis
    by (simp add: hex_slice_ok_def ref_external_def ref_hex_decode_def)
qed

lemma ref_external_hex_ok: "hex_ok ref_external"
  unfolding hex_ok_def ref_external_def
  by (simp only: external.simps ref_hex_decode_encode ref_hex_encode_length ref_hex_encode_set)
    (simp add: ref_hex_decode_length)

lemma ref_external_digest_ok: "digest_ok ref_external"
  by (auto simp: digest_ok_def ref_external_def)

end
