(* ===== verification/Abi_Codec.thy ===== *)
theory Abi_Codec
  imports Pillar_Types
begin

text \<open>
  \<^verbatim>\<open>pillar-layerzero/src/abi/encode.rs\<close>, \<^verbatim>\<open>abi/decode.rs\<close> and \<^verbatim>\<open>abi.rs\<close>: hexadecimal
  decoding, Solidity ABI words, dynamic byte strings and arrays of them, the DVN call-data
  packing whose hash is signed, the read-only contract calls and the decoders of their results.
\<close>

section \<open>Encoding (abi/encode.rs)\<close>

definition usize_max :: nat where
  "usize_max = 2 ^ 64 - 1"

definition string_bytes :: "string \<Rightarrow> bytes" where
  "string_bytes s = map (\<lambda>c. word_of_nat (of_char c)) s"

definition decode_hex_bytes :: "external \<Rightarrow> string \<Rightarrow> bytes res" where
  "decode_hex_bytes X value =
     (let v = strip_0x value in
      if even (length v) then map_err Internal (hex_decode X v)
      else map_err Internal (hex_decode X (CHR ''0'' # v)))"

definition decode_hex_20 :: "external \<Rightarrow> string \<Rightarrow> bytes res" where
  "decode_hex_20 X value =
     and_then (decode_hex_bytes X value) (\<lambda>bs.
       if length bs \<noteq> 20 then Inl (Internal (''invalid address length: '' @ show_nat (length bs)))
       else Inr bs)"

definition solidity_uint256 :: "u64 \<Rightarrow> bytes" where
  "solidity_uint256 v = replicate 24 0 @ u64_to_be v"

definition solidity_address_word :: "external \<Rightarrow> string \<Rightarrow> bytes res" where
  "solidity_address_word X value =
     and_then (decode_hex_20 X value) (\<lambda>address. Inr (replicate 12 0 @ address))"

definition function_selector :: "external \<Rightarrow> string \<Rightarrow> bytes" where
  "function_selector X signature = take 4 (keccak256 X (string_bytes signature))"

definition decode_hex_32 :: "external \<Rightarrow> string \<Rightarrow> bytes res" where
  "decode_hex_32 X value =
     and_then (decode_hex_bytes X value) (\<lambda>bs.
       if length bs \<noteq> 32 then Inl (Internal (''invalid bytes32 length: '' @ show_nat (length bs)))
       else Inr bs)"

definition abi_pad :: "nat \<Rightarrow> nat" where
  "abi_pad n = (32 - n mod 32) mod 32"

definition dynamic_bytes_tail :: "bytes \<Rightarrow> bytes" where
  "dynamic_bytes_tail bs =
     solidity_uint256 (word_of_nat (length bs)) @ bs @ replicate (abi_pad (length bs)) 0"

definition solidity_dynamic_bytes :: "external \<Rightarrow> string \<Rightarrow> bytes res" where
  "solidity_dynamic_bytes X value =
     and_then (decode_hex_bytes X value) (\<lambda>bs. Inr (dynamic_bytes_tail bs))"

fun array_offsets :: "u64 \<Rightarrow> bytes list \<Rightarrow> bytes" where
  "array_offsets offset [] = []"
| "array_offsets offset (e # es) =
     solidity_uint256 offset @ array_offsets (offset + word_of_nat (length e)) es"

definition solidity_dynamic_bytes_array :: "external \<Rightarrow> string list \<Rightarrow> bytes res" where
  "solidity_dynamic_bytes_array X values =
     and_then (map_res (solidity_dynamic_bytes X) values) (\<lambda>elements.
       Inr (solidity_uint256 (word_of_nat (length elements))
            @ array_offsets (word_of_nat (length elements * 32)) elements
            @ concat elements))"

definition encode_verify_bytes_bytes32_u64 ::
    "external \<Rightarrow> bytes \<Rightarrow> string \<Rightarrow> string \<Rightarrow> u64 \<Rightarrow> string res" where
  "encode_verify_bytes_bytes32_u64 X selector bytes_value bytes32_value uint64_value =
     and_then (decode_hex_32 X bytes32_value) (\<lambda>b32.
     and_then (solidity_dynamic_bytes X bytes_value) (\<lambda>dyn.
       Inr (hex0x X (selector @ solidity_uint256 96 @ b32 @ solidity_uint256 uint64_value @ dyn))))"

definition encode_verify_bytes_bytes32_bytes32 ::
    "external \<Rightarrow> bytes \<Rightarrow> string \<Rightarrow> string \<Rightarrow> string \<Rightarrow> string res" where
  "encode_verify_bytes_bytes32_bytes32 X selector bytes_value bytes32_value second_bytes32_value =
     and_then (decode_hex_32 X bytes32_value) (\<lambda>b32.
     and_then (decode_hex_32 X second_bytes32_value) (\<lambda>c32.
     and_then (solidity_dynamic_bytes X bytes_value) (\<lambda>dyn.
       Inr (hex0x X (selector @ solidity_uint256 96 @ b32 @ c32 @ dyn)))))"

definition left_pad32 :: "bytes \<Rightarrow> bytes" where
  "left_pad32 bs = replicate (32 - length bs) 0 @ bs"

definition address_to_bytes32 :: "external \<Rightarrow> string \<Rightarrow> bytes res" where
  "address_to_bytes32 X value =
     and_then (decode_hex_bytes X value) (\<lambda>bs.
       if 32 < length bs then Inl (Internal (''invalid address length: '' @ show_nat (length bs)))
       else Inr (left_pad32 bs))"

definition native_address_to_bytes32 :: "external \<Rightarrow> string \<Rightarrow> bytes res" where
  "native_address_to_bytes32 X value =
     (case address_to_bytes32 X value of
        Inr bs \<Rightarrow> Inr bs
      | Inl _ \<Rightarrow>
          and_then (map_err Internal (bs58_decode X value)) (\<lambda>bs.
            if length bs \<noteq> 32
            then Inl (Internal (''invalid address length: '' @ show_nat (length bs)))
            else Inr bs))"


section \<open>Decoding (abi/decode.rs)\<close>

definition abi_word :: "bytes \<Rightarrow> nat \<Rightarrow> bytes res" where
  "abi_word data index =
     (if usize_max < index * 32 then Inl (Internal ''abi word index overflow'')
      else let start = index * 32; stop = start + 32 in
        if length data < stop then Inl (Internal ''abi word out of range'')
        else Inr (slice start stop data))"

definition abi_bool :: "bytes \<Rightarrow> nat \<Rightarrow> bool res" where
  "abi_bool data index =
     and_then (abi_word data index) (\<lambda>word.
       if \<exists>b \<in> set (take 31 word). b \<noteq> 0 then Inl (Internal ''invalid abi bool'')
       else if word ! 31 = 0 then Inr False
       else if word ! 31 = 1 then Inr True
       else Inl (Internal (''invalid abi bool value: '' @ show_nat (unat (word ! 31)))))"

definition abi_word_u64 :: "bytes \<Rightarrow> nat \<Rightarrow> u64 res" where
  "abi_word_u64 data index =
     and_then (abi_word data index) (\<lambda>word.
       if \<exists>b \<in> set (take 24 word). b \<noteq> 0 then Inl (Internal ''abi uint64 overflow'')
       else Inr (u64_from_be (slice 24 32 word)))"

definition abi_head_start :: "bytes \<Rightarrow> nat \<Rightarrow> nat \<Rightarrow> nat res" where
  "abi_head_start data index head_words =
     (if head_words \<le> index then Inl (Internal ''ABI head index out of range'')
      else if length data < head_words * 32 then Inl (Internal ''ABI data shorter than head'')
      else Inr (index * 32))"

definition abi_word_value :: "bytes \<Rightarrow> nat res" where
  "abi_word_value word =
     (if length word \<noteq> 32 then Inl (Internal ''ABI word must be 32 bytes'')
      else if \<exists>b \<in> set (take 16 word). b \<noteq> 0 then Inl (Internal ''ABI word exceeds u128'')
      else Inr (be_decode (drop 16 word)))"

definition abi_word_usize :: "bytes \<Rightarrow> nat \<Rightarrow> nat \<Rightarrow> nat res" where
  "abi_word_usize data index head_words =
     and_then (abi_head_start data index head_words) (\<lambda>start.
     and_then (abi_word_value (slice start (start + 32) data)) (\<lambda>value.
       if usize_max < value then Inl (Internal ''ABI word overflows usize'')
       else Inr value))"

definition abi_dynamic_bytes :: "bytes \<Rightarrow> nat \<Rightarrow> nat \<Rightarrow> bytes res" where
  "abi_dynamic_bytes data index head_words =
     and_then (abi_word_usize data index head_words) (\<lambda>offset.
       if usize_max < offset + 32 \<or> length data < offset + 32
       then Inl (Internal ''dynamic bytes offset out of range'')
       else let start = offset + 32 in
         and_then (abi_word_value (slice offset start data)) (\<lambda>len.
           if usize_max < len then Inl (Internal ''dynamic bytes length overflows usize'')
           else if usize_max < start + len \<or> length data < start + len
           then Inl (Internal ''dynamic bytes body out of range'')
           else Inr (slice start (start + len) data)))"

definition abi_address :: "external \<Rightarrow> bytes \<Rightarrow> nat \<Rightarrow> nat \<Rightarrow> string res" where
  "abi_address X data index head_words =
     and_then (abi_head_start data index head_words) (\<lambda>start.
       Inr (hex0x X (drop 12 (slice start (start + 32) data))))"


section \<open>Call data and results (abi.rs)\<close>

definition pack_dvn_call_data ::
    "external \<Rightarrow> string \<Rightarrow> string \<Rightarrow> u64 \<Rightarrow> string \<Rightarrow> bytes res" where
  "pack_dvn_call_data X target call_data expiration v_id =
     and_then
       (if v_id \<noteq> []
        then map_err Internal
               (and_then (parse_u32 v_id) (\<lambda>vid. Inr (u32_to_be (word_of_nat vid))))
        else Inr []) (\<lambda>vid_bytes.
     and_then (decode_hex_20 X target) (\<lambda>target_bytes.
     and_then (decode_hex_bytes X call_data) (\<lambda>call_bytes.
       Inr (vid_bytes @ target_bytes @ solidity_uint256 expiration @ call_bytes))))"

definition keccak256_hex :: "external \<Rightarrow> bytes \<Rightarrow> string" where
  "keccak256_hex X data = hex0x X (keccak256 X data)"

definition u64_from_i64 :: "int \<Rightarrow> string \<Rightarrow> u64 res" where
  "u64_from_i64 value name =
     (if value < 0 then Inl (Internal (name @ '' must be non-negative''))
      else Inr (word_of_int value))"

definition bytes32_hex_string :: "external \<Rightarrow> string \<Rightarrow> string res" where
  "bytes32_hex_string X value = and_then (address_to_bytes32 X value) (\<lambda>bs. Inr (hex_encode X bs))"

definition build_evm_dvn_call_data_result ::
    "external \<Rightarrow> string \<Rightarrow> string \<Rightarrow> u64 \<Rightarrow> string \<Rightarrow> json \<Rightarrow> hash_call_data_result res" where
  "build_evm_dvn_call_data_result X target_contract uln_call_data expiration v_id details =
     and_then (pack_dvn_call_data X target_contract uln_call_data expiration v_id) (\<lambda>dvn_call_data.
       case details of
         JObject obj \<Rightarrow>
           Inr \<lparr> hash_call_data = keccak256_hex X dvn_call_data,
                 hc_details = JObject
                   (im_insert ''dvnCallData''
                      (JObject [(''expiration'', JNumber (PosInt expiration)),
                                (''vid'', JString v_id),
                                (''targetContract'', JString target_contract),
                                (''ulnCallData'', JString uln_call_data)])
                      (im_insert ''dvnHashCallData''
                         (JObject [(''dvnCallData'', JString (hex0x X dvn_call_data))]) obj)) \<rparr>
       | _ \<Rightarrow> Inl (Internal ''details must be an object''))"

record evm_uln_proof =
  packet_header :: string
  payload_hash :: string

definition build_evm_hash_lookup_call_data ::
    "external \<Rightarrow> evm_uln_proof \<Rightarrow> string \<Rightarrow> string res" where
  "build_evm_hash_lookup_call_data X proof verifier_address =
     and_then (decode_hex_bytes X (packet_header proof)) (\<lambda>header.
     and_then (decode_hex_32 X (payload_hash proof)) (\<lambda>hash.
     and_then (solidity_address_word X verifier_address) (\<lambda>verifier.
       Inr (hex0x X (function_selector X ''hashLookup(bytes32,bytes32,address)''
                     @ keccak256 X header @ hash @ verifier)))))"

definition build_evm_verifiable_call_data :: "external \<Rightarrow> evm_uln_proof \<Rightarrow> string res" where
  "build_evm_verifiable_call_data X proof =
     and_then (decode_hex_32 X (payload_hash proof)) (\<lambda>hash.
     and_then (solidity_dynamic_bytes X (packet_header proof)) (\<lambda>header.
       Inr (hex0x X (function_selector X ''verifiable(bytes,bytes32)''
                     @ solidity_uint256 64 @ hash @ header))))"

text \<open>The calls whose arguments are an address and an endpoint id.\<close>

definition address_eid_call :: "external \<Rightarrow> string \<Rightarrow> string \<Rightarrow> u32 \<Rightarrow> string res" where
  "address_eid_call X signature address eid =
     and_then (solidity_address_word X address) (\<lambda>word.
       Inr (hex0x X (function_selector X signature @ word @ solidity_uint256 (ucast eid))))"

definition build_evm_get_read_lib_config_call_data :: "external \<Rightarrow> string \<Rightarrow> u32 \<Rightarrow> string res" where
  "build_evm_get_read_lib_config_call_data X oapp remote_eid =
     address_eid_call X ''getReadLibConfig(address,uint32)'' oapp remote_eid"

definition build_evm_get_uln_config_call_data :: "external \<Rightarrow> string \<Rightarrow> u32 \<Rightarrow> string res" where
  "build_evm_get_uln_config_call_data X oapp remote_eid =
     address_eid_call X ''getUlnConfig(address,uint32)'' oapp remote_eid"

definition evm_address_from_pathway_value :: "external \<Rightarrow> string \<Rightarrow> string res" where
  "evm_address_from_pathway_value X value =
     and_then (decode_hex_bytes X value) (\<lambda>bs.
       if length bs = 20 then Inr (hex0x X bs)
       else if length bs = 32 then
         (if \<exists>b \<in> set (take 12 bs). b \<noteq> 0
          then Inl (BadRequest (value @ '' is not an EVM address: the leading 12 bytes are not zero''))
          else Inr (hex0x X (drop 12 bs)))
       else Inl (BadRequest (value @ '' is not an EVM address: '' @ show_nat (length bs) @ '' bytes'')))"

definition build_evm_get_receive_library_call_data :: "external \<Rightarrow> string \<Rightarrow> u32 \<Rightarrow> string res" where
  "build_evm_get_receive_library_call_data X receiver src_eid =
     address_eid_call X ''getReceiveLibrary(address,uint32)'' receiver src_eid"

definition build_evm_is_valid_receive_library_call_data ::
    "external \<Rightarrow> string \<Rightarrow> u32 \<Rightarrow> string \<Rightarrow> string res" where
  "build_evm_is_valid_receive_library_call_data X receiver src_eid library =
     and_then (solidity_address_word X receiver) (\<lambda>r.
     and_then (solidity_address_word X library) (\<lambda>l.
       Inr (hex0x X (function_selector X ''isValidReceiveLibrary(address,uint32,address)''
                     @ r @ solidity_uint256 (ucast src_eid) @ l))))"

definition build_evm_v1_get_receive_library_address_call_data ::
    "external \<Rightarrow> string \<Rightarrow> string res" where
  "build_evm_v1_get_receive_library_address_call_data X receiver =
     and_then (solidity_address_word X receiver) (\<lambda>r.
       Inr (hex0x X (function_selector X ''getReceiveLibraryAddress(address)'' @ r)))"

definition u16_try_from :: "string \<Rightarrow> u64 \<Rightarrow> u64 res" where
  "u16_try_from name v =
     (if unat v < 2 ^ 16 then Inr v else Inl (Internal (name @ '' exceeds uint16'')))"

definition build_evm_uln_v2_get_app_config_call_data ::
    "external \<Rightarrow> u64 \<Rightarrow> string \<Rightarrow> string res" where
  "build_evm_uln_v2_get_app_config_call_data X src_eid receiver =
     and_then (u16_try_from ''srcEid'' src_eid) (\<lambda>eid.
     and_then (solidity_address_word X receiver) (\<lambda>r.
       Inr (hex0x X (function_selector X ''getAppConfig(uint16,address)''
                     @ solidity_uint256 eid @ r))))"

definition build_evm_uln_v2_inbound_proof_library_call_data ::
    "external \<Rightarrow> u64 \<Rightarrow> u64 \<Rightarrow> string res" where
  "build_evm_uln_v2_inbound_proof_library_call_data X src_eid proof_library_version =
     and_then (u16_try_from ''srcEid'' src_eid) (\<lambda>eid.
     and_then (u16_try_from ''inboundProofLibraryVersion'' proof_library_version) (\<lambda>version.
       Inr (hex0x X (function_selector X ''inboundProofLibrary(uint16,uint16)''
                     @ solidity_uint256 eid @ solidity_uint256 version))))"

definition build_evm_validation_library_get_utils_version_call_data :: "external \<Rightarrow> string" where
  "build_evm_validation_library_get_utils_version_call_data X =
     hex0x X (function_selector X ''getUtilsVersion()'')"

definition build_evm_validation_library_get_proof_type_call_data :: "external \<Rightarrow> string" where
  "build_evm_validation_library_get_proof_type_call_data X =
     hex0x X (function_selector X ''getProofType()'')"

definition build_evm_lz_map_call_data :: "external \<Rightarrow> string \<Rightarrow> string \<Rightarrow> string res" where
  "build_evm_lz_map_call_data X request response =
     and_then (solidity_dynamic_bytes X request) (\<lambda>rq.
     and_then (solidity_dynamic_bytes X response) (\<lambda>rs.
       Inr (hex0x X (function_selector X ''lzMap(bytes,bytes)''
                     @ solidity_uint256 64 @ solidity_uint256 (64 + word_of_nat (length rq))
                     @ rq @ rs))))"

definition build_evm_lz_reduce_call_data :: "external \<Rightarrow> string \<Rightarrow> string list \<Rightarrow> string res" where
  "build_evm_lz_reduce_call_data X cmd responses =
     and_then (solidity_dynamic_bytes X cmd) (\<lambda>c.
     and_then (solidity_dynamic_bytes_array X responses) (\<lambda>rs.
       Inr (hex0x X (function_selector X ''lzReduce(bytes,bytes[])''
                     @ solidity_uint256 64 @ solidity_uint256 (64 + word_of_nat (length c))
                     @ c @ rs))))"

definition decode_evm_bytes_result :: "external \<Rightarrow> string \<Rightarrow> string res" where
  "decode_evm_bytes_result X result =
     and_then (decode_hex_bytes X result) (\<lambda>bs.
     and_then (abi_dynamic_bytes bs 0 1) (\<lambda>body. Inr (hex0x X body)))"

definition decode_evm_uint64_result :: "external \<Rightarrow> string \<Rightarrow> u64 res" where
  "decode_evm_uint64_result X result =
     and_then (decode_hex_bytes X result) (\<lambda>bs. abi_word_u64 bs 0)"

definition decode_evm_address_result :: "external \<Rightarrow> string \<Rightarrow> string res" where
  "decode_evm_address_result X result =
     and_then (decode_hex_bytes X result) (\<lambda>bs. abi_address X bs 0 1)"

text \<open>
  EIP-55: the nibble at the position of a character decides its case. The digest is indexed by the
  position halved; an address text longer than 64 characters would index past it and panic, which
  is \<open>None\<close> here. A text is its UTF-8 bytes, so the position of a character is the number of bytes before it that
  begin a character; the bytes of a character beyond ASCII have no case.
\<close>

definition begins_char :: "char \<Rightarrow> bool" where
  "begins_char c \<longleftrightarrow> (of_char c :: nat) \<notin> {128..<192}"

definition char_count :: "string \<Rightarrow> nat" where
  "char_count s = length (filter begins_char s)"

definition evm_checksum_char :: "bytes \<Rightarrow> nat \<Rightarrow> char \<Rightarrow> char" where
  "evm_checksum_char hash index c =
     (let nibble = drop_bit (if even index then 4 else 0) (hash ! (index div 2)) AND 0x0f in
      if (8 :: byte) \<le> nibble then ascii_upper c else c)"

definition evm_checksum_address :: "external \<Rightarrow> string \<Rightarrow> string option" where
  "evm_checksum_address X address =
     (let lower = map ascii_lower (trim_start_0x address);
          hash = keccak256 X (string_bytes lower) in
      if 2 * length hash < char_count lower then None
      else Some (with_0x (map (\<lambda>(i, c). if begins_char c then evm_checksum_char hash (char_count (take i lower)) c else c)
                            (zip [0..<length lower] lower))))"

definition decode_evm_receive_library_result :: "external \<Rightarrow> string \<Rightarrow> (string \<times> bool) res" where
  "decode_evm_receive_library_result X result =
     and_then (decode_hex_bytes X result) (\<lambda>bs.
     and_then (abi_address X bs 0 2) (\<lambda>lib.
     and_then (abi_bool bs 1) (\<lambda>is_default. Inr (lib, is_default))))"

definition decode_evm_bool_result :: "external \<Rightarrow> string \<Rightarrow> bool res" where
  "decode_evm_bool_result X result =
     and_then (decode_hex_bytes X result) (\<lambda>bs. abi_bool bs 0)"

record evm_uln_v2_app_config =
  inbound_proof_library_version :: u64
  inbound_block_confirmations :: u64
  relayer :: string
  outbound_proof_type :: u64
  outbound_block_confirmations :: u64
  app_oracle :: string

definition decode_evm_uln_v2_app_config :: "external \<Rightarrow> string \<Rightarrow> evm_uln_v2_app_config res" where
  "decode_evm_uln_v2_app_config X result =
     and_then (decode_hex_bytes X result) (\<lambda>bs.
     and_then (abi_word_u64 bs 0) (\<lambda>w0.
     and_then (abi_word_u64 bs 1) (\<lambda>w1.
     and_then (abi_address X bs 2 6) (\<lambda>a2.
     and_then (abi_word_u64 bs 3) (\<lambda>w3.
     and_then (abi_word_u64 bs 4) (\<lambda>w4.
     and_then (abi_address X bs 5 6) (\<lambda>a5.
       Inr \<lparr> inbound_proof_library_version = w0, inbound_block_confirmations = w1, relayer = a2,
             outbound_proof_type = w3, outbound_block_confirmations = w4, app_oracle = a5 \<rparr>)))))))"

record evm_hash_lookup_result =
  submitted :: bool
  confirmations :: u64

definition decode_evm_hash_lookup_result :: "external \<Rightarrow> string \<Rightarrow> evm_hash_lookup_result res" where
  "decode_evm_hash_lookup_result X result =
     and_then (decode_hex_bytes X result) (\<lambda>bs.
     and_then (abi_bool bs 0) (\<lambda>s.
     and_then (abi_word_u64 bs 1) (\<lambda>c. Inr \<lparr> submitted = s, confirmations = c \<rparr>)))"

definition evm_hash_lookup_is_confirmed :: "u64 \<Rightarrow> evm_hash_lookup_result \<Rightarrow> bool" where
  "evm_hash_lookup_is_confirmed inbound_confirmations result \<longleftrightarrow>
     submitted result \<and> inbound_confirmations \<le> confirmations result"

datatype evm_verification_state =
  Verifying | Verifiable | Verified | NotInitializable | VerifiableButCapExceeded | Reorged

definition decode_evm_verification_state ::
    "external \<Rightarrow> string \<Rightarrow> string \<Rightarrow> evm_verification_state res" where
  "decode_evm_verification_state X uln_version result =
     and_then (decode_hex_bytes X result) (\<lambda>bs.
     and_then (abi_word_u64 bs 0) (\<lambda>state.
       if state = 0 then Inr Verifying
       else if state = 1 then Inr Verifiable
       else if state = 2 then Inr Verified
       else if state = 3 then Inr NotInitializable
       else if state = 4 \<and> uln_version = ULN_VERSION_READ_V1002 then Inr Reorged
       else if state = 4 then Inr VerifiableButCapExceeded
       else Inl (Internal (''Unknown delivery state: '' @ show_nat (unat state)))))"

definition decode_evm_uln_config_confirmations :: "external \<Rightarrow> string \<Rightarrow> u64 res" where
  "decode_evm_uln_config_confirmations X result =
     and_then (decode_hex_bytes X result) (\<lambda>bs.
       if 64 \<le> length bs
       then and_then (abi_word_u64 bs 0) (\<lambda>w. if w = 32 then abi_word_u64 bs 1 else abi_word_u64 bs 0)
       else abi_word_u64 bs 0)"


section \<open>Laws of the encoders and decoders\<close>

lemma decode_hex_bytes_hex0x [simp]:
  "hex_ok X \<Longrightarrow> decode_hex_bytes X (hex0x X bs) = Inr bs"
  by (simp add: decode_hex_bytes_def hex0x_def hex_okD)

lemma decode_hex_32_hex0x [simp]:
  "hex_ok X \<Longrightarrow> length bs = 32 \<Longrightarrow> decode_hex_32 X (hex0x X bs) = Inr bs"
  by (simp add: decode_hex_32_def)

lemma decode_hex_20_hex0x [simp]:
  "hex_ok X \<Longrightarrow> length bs = 20 \<Longrightarrow> decode_hex_20 X (hex0x X bs) = Inr bs"
  by (simp add: decode_hex_20_def)

lemma decode_hex_20_length: "decode_hex_20 X s = Inr bs \<Longrightarrow> length bs = 20"
  by (auto simp: decode_hex_20_def res_simps split: if_splits)

lemma decode_hex_32_length: "decode_hex_32 X s = Inr bs \<Longrightarrow> length bs = 32"
  by (auto simp: decode_hex_32_def res_simps split: if_splits)

lemma length_left_pad32: "length bs \<le> 32 \<Longrightarrow> length (left_pad32 bs) = 32"
  by (simp add: left_pad32_def)

lemma left_pad32_id: "length bs = 32 \<Longrightarrow> left_pad32 bs = bs"
  by (simp add: left_pad32_def)

lemma address_to_bytes32_length: "address_to_bytes32 X s = Inr bs \<Longrightarrow> length bs = 32"
  by (auto simp: address_to_bytes32_def res_simps length_left_pad32 split: if_splits)

lemma native_address_to_bytes32_length: "native_address_to_bytes32 X s = Inr bs \<Longrightarrow> length bs = 32"
  by (auto simp: native_address_to_bytes32_def res_simps address_to_bytes32_length
      split: if_splits sum.splits)

lemma native_address_hex0x:
  "hex_ok X \<Longrightarrow> length bs \<le> 32 \<Longrightarrow> native_address_to_bytes32 X (hex0x X bs) = Inr (left_pad32 bs)"
  by (simp add: native_address_to_bytes32_def address_to_bytes32_def)

lemma length_uint256 [simp]: "length (solidity_uint256 v) = 32"
  by (simp add: solidity_uint256_def)

lemma slice_uint256: "slice 24 32 (solidity_uint256 v) = u64_to_be v"
  by (simp add: solidity_uint256_def slice_def)

lemma abi_word_at:
  "length pre = 32 * i \<Longrightarrow> length w = 32 \<Longrightarrow> 32 * i \<le> usize_max \<Longrightarrow>
   abi_word (pre @ w @ rest) i = Inr w"
  by (simp add: abi_word_def slice_def Let_def mult.commute)

lemma abi_word_u64_at:
  "length pre = 32 * i \<Longrightarrow> 32 * i \<le> usize_max \<Longrightarrow>
   abi_word_u64 (pre @ solidity_uint256 v @ rest) i = Inr v"
  by (simp add: abi_word_u64_def abi_word_at slice_uint256) (simp add: solidity_uint256_def)

lemma abi_word_value_uint256 [simp]: "abi_word_value (solidity_uint256 v) = Inr (unat v)"
proof -
  have "drop 16 (solidity_uint256 v) = replicate 8 0 @ u64_to_be v"
    by (simp add: solidity_uint256_def)
  moreover have "be_decode (u64_to_be v) = unat v"
    unfolding u64_to_be_def by (rule be_decode_encode_id [OF unat_be_bounds(3)])
  ultimately show ?thesis
    by (simp add: abi_word_value_def be_decode_append) (simp add: solidity_uint256_def)
qed

lemma usize_max_bound: "n < 2 ^ 63 \<Longrightarrow> n + 32 \<le> usize_max"
  by (simp add: usize_max_def)

text \<open>
  A dynamic byte string is read back from any ABI block whose head holds its offset. The length
  bound is the one a Rust \<open>Vec<u8>\<close> has.
\<close>

lemma abi_dynamic_bytes_at:
  assumes head: "index < head_words" "head_words * 32 \<le> length data"
    and offset: "slice (index * 32) (index * 32 + 32) data = solidity_uint256 off"
    and body: "drop (unat off) data = dynamic_bytes_tail bs @ rest"
    and size: "length data < 2 ^ 63"
  shows "abi_dynamic_bytes data index head_words = Inr bs"
proof -
  let ?o = "unat off"
  have len: "length data - ?o = 32 + length bs + abi_pad (length bs) + length rest"
    using arg_cong [OF body, of length] by (simp add: dynamic_bytes_tail_def)
  then have o: "?o \<le> length data" and le: "?o + 32 + length bs \<le> length data" by linarith+
  have usize: "abi_word_usize data index head_words = Inr ?o"
    using head offset o size
    by (simp add: abi_word_usize_def abi_head_start_def usize_max_def)
  have small: "length bs < 2 ^ 64" using le size by simp
  have word: "slice ?o (?o + 32) data = solidity_uint256 (word_of_nat (length bs))"
    using body by (simp add: slice_def dynamic_bytes_tail_def)
  have len_value: "unat (word_of_nat (length bs) :: u64) = length bs"
    using small by (simp add: unat_of_nat)
  have content: "slice (?o + 32) (?o + 32 + length bs) data = bs"
  proof -
    have "drop (?o + 32) data = drop 32 (drop ?o data)" by (simp add: add.commute)
    also have "\<dots> = bs @ replicate (abi_pad (length bs)) 0 @ rest"
      using body by (simp add: dynamic_bytes_tail_def)
    finally show ?thesis by (simp add: slice_def)
  qed
  have "abi_word_value (slice ?o (?o + 32) data) = Inr (length bs)"
    by (simp only: word abi_word_value_uint256 len_value)
  with usize le size content show ?thesis
    by (simp add: abi_dynamic_bytes_def Let_def usize_max_def)
qed

lemma solidity_dynamic_bytes_eq:
  "solidity_dynamic_bytes X s = Inr d \<longleftrightarrow>
     (\<exists>bs. decode_hex_bytes X s = Inr bs \<and> d = dynamic_bytes_tail bs)"
  by (auto simp: solidity_dynamic_bytes_def res_simps)

lemma length_dynamic_bytes_tail: "length (dynamic_bytes_tail bs) = 32 + length bs + abi_pad (length bs)"
  by (simp add: dynamic_bytes_tail_def)

lemma abi_pad_less: "abi_pad n < 32"
  by (simp add: abi_pad_def)

lemma abi_pad_aligned: "32 dvd n + abi_pad n"
proof (cases "n mod 32 = 0")
  case True
  then show ?thesis by (simp add: abi_pad_def mod_0_imp_dvd)
next
  case False
  have r: "n mod 32 < 32" by simp
  have n: "n = 32 * (n div 32) + n mod 32" by simp
  have pad: "abi_pad n + n mod 32 = 32" using False r by (simp add: abi_pad_def)
  have "n + abi_pad n = 32 * (n div 32) + (abi_pad n + n mod 32)" using n by linarith
  also have "\<dots> = 32 * (n div 32 + 1)" by (simp add: pad)
  finally have "n + abi_pad n = 32 * (n div 32 + 1)" .
  then show ?thesis by simp
qed

lemma dynamic_bytes_tail_aligned: "32 dvd length (dynamic_bytes_tail bs)"
  using abi_pad_aligned [of "length bs"] by (simp add: length_dynamic_bytes_tail add.assoc)

lemma dynamic_bytes_tail_inject:
  assumes "length as < 2 ^ 63" "length bs < 2 ^ 63"
    and eq: "dynamic_bytes_tail as @ xs = dynamic_bytes_tail bs @ ys"
  shows "as = bs \<and> xs = ys"
proof -
  have n: "unat (word_of_nat (length as) :: u64) = length as"
    "unat (word_of_nat (length bs) :: u64) = length bs"
    using assms by (simp_all add: unat_of_nat)
  from eq have "solidity_uint256 (word_of_nat (length as)) = solidity_uint256 (word_of_nat (length bs))"
    and tl: "as @ replicate (abi_pad (length as)) 0 @ xs = bs @ replicate (abi_pad (length bs)) 0 @ ys"
    by (simp_all add: dynamic_bytes_tail_def)
  then have "Inr (length as) = (Inr (length bs) :: nat res)"
    by (metis abi_word_value_uint256 n)
  with tl show ?thesis by (simp add: append_eq_append_conv)
qed


subsection \<open>DVN call data\<close>

definition vid_bytes :: "string \<Rightarrow> bytes res" where
  "vid_bytes v_id =
     (if v_id \<noteq> []
      then map_err Internal
             (and_then (parse_u32 v_id) (\<lambda>vid. Inr (u32_to_be (word_of_nat vid))))
      else Inr [])"

lemma pack_dvn_call_data_eq_Inr:
  "pack_dvn_call_data X target call_data expiration v_id = Inr p \<longleftrightarrow>
     (\<exists>v t c. vid_bytes v_id = Inr v \<and> decode_hex_20 X target = Inr t \<and>
        decode_hex_bytes X call_data = Inr c \<and> p = v @ t @ solidity_uint256 expiration @ c)"
  unfolding pack_dvn_call_data_def vid_bytes_def [symmetric] by (auto simp: res_simps)

lemma vid_bytes_length: "vid_bytes v = Inr bs \<Longrightarrow> length bs = (if v = [] then 0 else 4)"
  by (auto simp: vid_bytes_def res_simps split: if_splits)

lemma vid_bytes_inject:
  assumes "vid_bytes v = Inr bs" "vid_bytes w = Inr bs"
  shows "parse_u32 v = parse_u32 w"
proof (cases "v = []")
  case True
  with assms vid_bytes_length [of v bs] vid_bytes_length [of w bs] show ?thesis
    by (simp split: if_splits)
next
  case False
  with assms vid_bytes_length [of v bs] vid_bytes_length [of w bs] have "w \<noteq> []"
    by (simp split: if_splits)
  with False assms obtain a b where ab: "parse_u32 v = Inr a"
    "parse_u32 w = Inr b" "u32_to_be (word_of_nat a) = u32_to_be (word_of_nat b)"
    by (auto simp: vid_bytes_def res_simps)
  then have "(word_of_nat a :: u32) = word_of_nat b" by (simp add: u32_be.enc_inject)
  moreover have "unat (word_of_nat a :: u32) = a" "unat (word_of_nat b :: u32) = b"
    using ab(1,2) by (auto dest!: parse_u32_less simp: unat_of_nat)
  ultimately have "a = b" by metis
  with ab show ?thesis by simp
qed

lemma uint256_inject [simp]: "solidity_uint256 a = solidity_uint256 b \<longleftrightarrow> a = b"
  by (simp add: solidity_uint256_def u64_be.enc_inject)

lemma pack_dvn_parts_inject:
  assumes p: "pack_dvn_call_data X t c e v = Inr p"
    and q: "pack_dvn_call_data X t' c' e' v' = Inr p"
    and vid: "v = [] \<longleftrightarrow> v' = []"
  obtains vb tb cb where "vid_bytes v = Inr vb" "vid_bytes v' = Inr vb"
    "decode_hex_20 X t = Inr tb" "decode_hex_20 X t' = Inr tb" "e = e'"
    "decode_hex_bytes X c = Inr cb" "decode_hex_bytes X c' = Inr cb"
proof -
  from p obtain vb tb cb where v: "vid_bytes v = Inr vb" and t: "decode_hex_20 X t = Inr tb"
    and c: "decode_hex_bytes X c = Inr cb" and pe: "p = vb @ tb @ solidity_uint256 e @ cb"
    by (auto simp: pack_dvn_call_data_eq_Inr)
  from q obtain vb' tb' cb' where v': "vid_bytes v' = Inr vb'" and t': "decode_hex_20 X t' = Inr tb'"
    and c': "decode_hex_bytes X c' = Inr cb'" and pe': "p = vb' @ tb' @ solidity_uint256 e' @ cb'"
    by (auto simp: pack_dvn_call_data_eq_Inr)
  have "length vb = length vb'" using v v' vid by (simp add: vid_bytes_length)
  moreover have "length tb = length tb'" using t t' by (simp add: decode_hex_20_length)
  ultimately have "vb = vb' \<and> tb = tb' \<and> e = e' \<and> cb = cb'"
    using pe pe' by (simp add: append_eq_append_conv)
  with v v' t t' c c' that show ?thesis by auto
qed

lemma pack_dvn_length:
  assumes "pack_dvn_call_data X t c e v = Inr p" and "decode_hex_bytes X c = Inr cb"
  shows "length p = (if v = [] then 0 else 4) + 20 + 32 + length cb"
  using assms
  by (auto simp: pack_dvn_call_data_eq_Inr solidity_uint256_def dest!: vid_bytes_length decode_hex_20_length)

text \<open>Two packings of equal length over call data of equal length both have a vId or both have none.\<close>

lemma pack_dvn_same_vid:
  assumes "pack_dvn_call_data X t c e v = Inr p" and "pack_dvn_call_data X t' c' e' v' = Inr p"
    and "map_ok length (decode_hex_bytes X c) = map_ok length (decode_hex_bytes X c')"
  shows "v = [] \<longleftrightarrow> v' = []"
proof -
  from assms(1,2) obtain cb cb' where "decode_hex_bytes X c = Inr cb" "decode_hex_bytes X c' = Inr cb'"
    by (auto simp: pack_dvn_call_data_eq_Inr)
  with pack_dvn_length [OF assms(1)] pack_dvn_length [OF assms(2)] assms(3) show ?thesis
    by (simp split: if_splits)
qed

text \<open>
  C9: packing the DVN call data is injective where its layout can be told apart. When two requests pack to
  the same bytes, and so to the same signed digest, and both carry a vId or neither does, or their call
  data has the same length, they agree on the vId's value, the target contract, the expiration and the
  ULN call data. The packing has no tag, so some such condition is needed.
\<close>

theorem pack_dvn_call_data_injective:
  assumes p: "pack_dvn_call_data X t c e v = Inr p"
    and q: "pack_dvn_call_data X t' c' e' v' = Inr p"
    and vid: "(v = [] \<longleftrightarrow> v' = []) \<or>
      map_ok length (decode_hex_bytes X c) = map_ok length (decode_hex_bytes X c')"
  shows "parse_u32 v = parse_u32 v' \<and>
    decode_hex_20 X t = decode_hex_20 X t' \<and> e = e' \<and>
    decode_hex_bytes X c = decode_hex_bytes X c'"
proof -
  have "v = [] \<longleftrightarrow> v' = []" using vid pack_dvn_same_vid [OF p q] by blast
  from pack_dvn_parts_inject [OF p q this] vid_bytes_inject [of v _ v'] show ?thesis by metis
qed

theorem pack_dvn_call_data_injective_witness:
  "decode_hex_bytes ref_external ''0x0a'' = decode_hex_bytes ref_external ''0xA''"
proof -
  let ?t = "hex0x ref_external (replicate 20 1)"
  have t: "decode_hex_20 ref_external ?t = Inr (replicate 20 1)"
    by (simp add: ref_external_hex_ok)
  have d: "decode_hex_bytes ref_external ''0x0a'' = Inr [10]"
    "decode_hex_bytes ref_external ''0xA'' = Inr [10]"
    by (simp_all add: decode_hex_bytes_def ref_external_def ref_hex_decode_def hex_value_def)
  have v: "vid_bytes ''7'' = Inr (u32_to_be 7)"
    by (simp add: vid_bytes_def parse_u32_def parse_unsigned_def to_digit10_def)
  have "pack_dvn_call_data ref_external ?t ''0x0a'' 5 ''7'' =
      Inr (u32_to_be 7 @ replicate 20 1 @ solidity_uint256 5 @ [10])"
    "pack_dvn_call_data ref_external ?t ''0xA'' 5 ''7'' =
      Inr (u32_to_be 7 @ replicate 20 1 @ solidity_uint256 5 @ [10])"
    using t d v by (simp_all only: pack_dvn_call_data_eq_Inr) auto
  from pack_dvn_call_data_injective [OF this] show ?thesis by simp
qed


subsection \<open>Verify call data\<close>

lemma encode_verify_u64_eq_Inr:
  "encode_verify_bytes_bytes32_u64 X sel hdr hash n = Inr s \<longleftrightarrow>
     (\<exists>hb b32. decode_hex_bytes X hdr = Inr hb \<and> decode_hex_32 X hash = Inr b32 \<and>
        s = hex0x X (sel @ solidity_uint256 96 @ b32 @ solidity_uint256 n @ dynamic_bytes_tail hb))"
  by (auto simp: encode_verify_bytes_bytes32_u64_def solidity_dynamic_bytes_eq res_simps)

text \<open>
  The block of three head words with a byte string behind it, as \<open>verify(bytes,bytes32,\<dots>)\<close> has it.
\<close>

lemma three_word_block:
  assumes "length b = 32" "length c = 32" "length hb < 2 ^ 62"
  shows "abi_dynamic_bytes (solidity_uint256 96 @ b @ c @ dynamic_bytes_tail hb) 0 3 = Inr hb"
    and "abi_word (solidity_uint256 96 @ b @ c @ dynamic_bytes_tail hb) 1 = Inr b"
    and "abi_word (solidity_uint256 96 @ b @ c @ dynamic_bytes_tail hb) 2 = Inr c"
proof -
  let ?data = "solidity_uint256 96 @ b @ c @ dynamic_bytes_tail hb"
  show "abi_dynamic_bytes ?data 0 3 = Inr hb"
  proof (rule abi_dynamic_bytes_at [where off = 96 and rest = "[]"])
    show "slice (0 * 32) (0 * 32 + 32) ?data = solidity_uint256 96"
      by (simp add: slice_def)
    show "drop (unat (96 :: u64)) ?data = dynamic_bytes_tail hb @ []"
      using assms by simp
    show "length ?data < 2 ^ 63"
      using assms abi_pad_less [of "length hb"] by (simp add: length_dynamic_bytes_tail)
  qed (use assms in \<open>simp_all add: length_dynamic_bytes_tail\<close>)
  show "abi_word ?data 1 = Inr b"
    using abi_word_at [of "solidity_uint256 96" 1 b "c @ dynamic_bytes_tail hb"] assms
    by (simp add: usize_max_def)
  show "abi_word ?data 2 = Inr c"
    using abi_word_at [of "solidity_uint256 96 @ b" 2 c "dynamic_bytes_tail hb"] assms
    by (simp add: usize_max_def)
qed

lemma abi_word_u64_of_word:
  "abi_word data i = Inr (solidity_uint256 v) \<Longrightarrow> abi_word_u64 data i = Inr v"
  by (simp add: abi_word_u64_def slice_uint256) (simp add: solidity_uint256_def)

text \<open>
  C32: the ULN verify call data round-trips. Whatever text the encoder returns decodes to the
  four-byte selector followed by an ABI block from which the destination contract reads back
  exactly the packet header, the payload hash and the confirmation count that were given.
\<close>

theorem verify_call_data_roundtrip:
  assumes X: "hex_ok X" and sel: "length sel = 4"
    and enc: "encode_verify_bytes_bytes32_u64 X sel hdr hash n = Inr s"
    and hdr: "decode_hex_bytes X hdr = Inr hb" and size: "length hb < 2 ^ 62"
  shows "\<exists>data. decode_hex_bytes X s = Inr (sel @ data) \<and>
    abi_dynamic_bytes data 0 3 = Inr hb \<and>
    abi_word data 1 = decode_hex_32 X hash \<and> abi_word_u64 data 2 = Inr n"
proof -
  from enc hdr obtain b32 where b: "decode_hex_32 X hash = Inr b32"
    and s: "s = hex0x X (sel @ solidity_uint256 96 @ b32 @ solidity_uint256 n @ dynamic_bytes_tail hb)"
    by (auto simp: encode_verify_u64_eq_Inr)
  have "length b32 = 32" using b by (rule decode_hex_32_length)
  from three_word_block [OF this length_uint256 size] X b show ?thesis
    unfolding s by (intro exI [of _ "solidity_uint256 96 @ b32 @ solidity_uint256 n @ dynamic_bytes_tail hb"])
      (simp add: abi_word_u64_of_word)
qed

theorem verify_call_data_roundtrip_witness:
  "\<exists>s data. encode_verify_bytes_bytes32_u64 ref_external [2, 35, 83, 110]
      (hex0x ref_external [1, 2, 3]) (hex0x ref_external (replicate 32 4)) 15 = Inr s \<and>
    decode_hex_bytes ref_external s = Inr ([2, 35, 83, 110] @ data) \<and>
    abi_dynamic_bytes data 0 3 = Inr [1, 2, 3] \<and>
    abi_word data 1 = Inr (replicate 32 4) \<and> abi_word_u64 data 2 = Inr 15"
proof -
  note X = ref_external_hex_ok
  obtain s where s: "encode_verify_bytes_bytes32_u64 ref_external [2, 35, 83, 110]
      (hex0x ref_external [1, 2, 3]) (hex0x ref_external (replicate 32 4)) 15 = Inr s"
    using X by (auto simp: encode_verify_u64_eq_Inr)
  from verify_call_data_roundtrip [OF X _ s decode_hex_bytes_hex0x [OF X]] X s
  show ?thesis by auto
qed

subsection \<open>Arrays of byte strings\<close>

fun offset_at :: "u64 \<Rightarrow> bytes list \<Rightarrow> nat \<Rightarrow> u64" where
  "offset_at off es 0 = off"
| "offset_at off [] (Suc i) = off"
| "offset_at off (e # es) (Suc i) = offset_at (off + word_of_nat (length e)) es i"

lemma length_array_offsets: "length (array_offsets off es) = 32 * length es"
  by (induction off es rule: array_offsets.induct) auto

lemma array_offsets_slice:
  "i < length es \<Longrightarrow>
   slice (i * 32) (i * 32 + 32) (array_offsets off es @ rest) = solidity_uint256 (offset_at off es i)"
proof (induction off es i rule: offset_at.induct)
  case (1 off es)
  then show ?case by (cases es) (auto simp: slice_def)
next
  case (3 off e es i)
  then show ?case by (simp add: slice_append_right add.commute)
qed simp

lemma offset_at_eq: "i \<le> length es \<Longrightarrow> offset_at off es i = off + word_of_nat (length (concat (take i es)))"
  by (induction off es i rule: offset_at.induct) auto

lemma drop_concat: "i < length es \<Longrightarrow>
    drop (length (concat (take i es))) (concat es) = es ! i @ concat (drop (Suc i) es)"
proof -
  assume i: "i < length es"
  have "concat es = concat (take i es) @ concat (drop i es)"
    by (metis append_take_drop_id concat_append)
  moreover have "concat (drop i es) = es ! i @ concat (drop (Suc i) es)"
    using i by (simp add: Cons_nth_drop_Suc [symmetric])
  ultimately show ?thesis by simp
qed

lemma concat_take_le: "length (concat (take i es)) \<le> length (concat es)"
  by (metis append_take_drop_id concat_append length_append le_add1)

text \<open>
  An array of byte strings built for \<open>lzReduce(bytes,bytes[])\<close> gives every element back. The
  encoding is its length word followed by a block whose \<open>i\<close>-th head word is the offset of the
  \<open>i\<close>-th element, and the ABI reader finds the element's bytes there.
\<close>

theorem bytes_array_roundtrip:
  assumes enc: "solidity_dynamic_bytes_array X values = Inr out"
    and i: "i < length values"
    and size: "length out < 2 ^ 62"
  shows "take 32 out = solidity_uint256 (word_of_nat (length values)) \<and>
    abi_dynamic_bytes (drop 32 out) i (length values) = decode_hex_bytes X (values ! i)"
proof -
  from enc obtain es where es: "map_res (solidity_dynamic_bytes X) values = Inr es"
    and out: "out = solidity_uint256 (word_of_nat (length es))
      @ array_offsets (word_of_nat (length es * 32)) es @ concat es"
    by (auto simp: solidity_dynamic_bytes_array_def res_simps)
  from es have len: "length es = length values" by (rule map_res_length)
  have "solidity_dynamic_bytes X (values ! i) = Inr (es ! i)"
    using es i by (simp add: map_res_eq_Inr list_all2_conv_all_nth)
  then obtain bs where bs: "decode_hex_bytes X (values ! i) = Inr bs"
    and tail: "es ! i = dynamic_bytes_tail bs"
    by (auto simp: solidity_dynamic_bytes_eq)
  let ?data = "array_offsets (word_of_nat (length es * 32)) es @ concat es"
  let ?off = "offset_at (word_of_nat (length es * 32)) es i"
  have lout: "length out = 32 + 32 * length es + length (concat es)"
    unfolding out by (simp only: length_append length_uint256 length_array_offsets)
  have le: "length (concat (take i es)) \<le> length (concat es)" by (rule concat_take_le)
  have bound: "length es * 32 + length (concat (take i es)) < 2 ^ 64"
    using lout size le power_strict_increasing [of 62 64 "2 :: nat"] by linarith
  have off: "?off = word_of_nat (length es * 32 + length (concat (take i es)))"
    using i len by (simp only: offset_at_eq less_imp_le of_nat_add)
  have "unat ?off = length es * 32 + length (concat (take i es))"
    unfolding off using bound by (rule unat_of_small_nat)
  then have body: "drop (unat ?off) ?data = dynamic_bytes_tail bs @ concat (drop (Suc i) es)"
    using drop_concat [of i es] i len tail by (simp add: length_array_offsets)
  have "abi_dynamic_bytes ?data i (length es) = Inr bs"
    by (rule abi_dynamic_bytes_at [OF _ _ array_offsets_slice body])
      (use i len lout size in \<open>simp_all add: length_array_offsets\<close>)
  with bs len show ?thesis unfolding out by simp
qed

theorem bytes_array_roundtrip_witness:
  "\<exists>out. solidity_dynamic_bytes_array ref_external
       [hex0x ref_external [1, 2], hex0x ref_external [5]] = Inr out \<and>
     abi_dynamic_bytes (drop 32 out) 1 2 = Inr [5]"
proof -
  note X = ref_external_hex_ok
  let ?vs = "[hex0x ref_external [1, 2], hex0x ref_external [5]]"
  obtain out where out: "solidity_dynamic_bytes_array ref_external ?vs = Inr out"
    and len: "length out < 2 ^ 62"
    using X by (simp add: solidity_dynamic_bytes_array_def solidity_dynamic_bytes_def
        length_dynamic_bytes_tail abi_pad_def)
  have "(1 :: nat) < length ?vs" by simp
  from bytes_array_roundtrip [OF out this len] X out show ?thesis by (simp add: numeral_2_eq_2)
qed

end
