(* ===== verification/Lz_Packet.thy ===== *)
theory Lz_Packet
  imports Abi_Codec
begin

text \<open>
  \<^verbatim>\<open>pillar-layerzero/src/packet.rs\<close> and \<^verbatim>\<open>packet/event.rs\<close>: the LayerZero V1 packet codec, the
  legacy ULN V2 and Aptos V1 payload layouts, the PacketSent log decoder, and the proof (packet
  header and payload hash) whose two fields are the chain-derived inputs of the signed call data.
\<close>

section \<open>Reading a sent event (packet/event.rs)\<close>

definition ev_pathway :: "lz_sent_event \<Rightarrow> pathway_id" where
  "ev_pathway ev = msg_pathway_id (ev_lz_message_id ev)"

definition optional_extra_string :: "lz_sent_event \<Rightarrow> string \<Rightarrow> string option" where
  "optional_extra_string ev key = Option.bind (im_get (ev_extra ev) key) as_str"

definition extra_string :: "lz_sent_event \<Rightarrow> string \<Rightarrow> string res" where
  "extra_string ev key =
     ok_or (Internal (''Missing sent_event.extra.'' @ key)) (optional_extra_string ev key)"

definition extra_u64 :: "lz_sent_event \<Rightarrow> string \<Rightarrow> u64 res" where
  "extra_u64 ev key =
     ok_or (Internal (''Missing lzMessageId.pathwayId.'' @ key))
       (Option.bind (im_get (pathway_extra (ev_pathway ev)) key) as_u64)"

definition extra_u32 :: "lz_sent_event \<Rightarrow> string \<Rightarrow> u32 res" where
  "extra_u32 ev key =
     and_then (extra_u64 ev key) (\<lambda>value.
       if unat value < 2 ^ 32 then Inr (ucast value)
       else Inl (Internal (''lzMessageId.pathwayId.'' @ key @ '' exceeds u32'')))"

definition pathway_extra_string :: "lz_sent_event \<Rightarrow> string \<Rightarrow> string res" where
  "pathway_extra_string ev key =
     ok_or (Internal (''Missing lzMessageId.pathwayId.'' @ key))
       (Option.bind (im_get (pathway_extra (ev_pathway ev)) key) as_str)"

definition uln_send_version_string :: "json \<Rightarrow> string res" where
  "uln_send_version_string value =
     ok_or (Internal ''ulnSendVersion must be a string'') (as_str value)"


section \<open>The packet codec\<close>

record lz_packet_v1 =
  pk_nonce :: u64
  pk_src_eid :: u32
  pk_sender :: string
  pk_dst_eid :: u32
  pk_receiver :: string
  pk_guid :: string
  pk_message :: string

definition encode_lz_packet_v1 :: "external \<Rightarrow> lz_packet_v1 \<Rightarrow> bytes res" where
  "encode_lz_packet_v1 X p =
     and_then (decode_hex_bytes X (pk_message p)) (\<lambda>message.
     and_then (native_address_to_bytes32 X (pk_sender p)) (\<lambda>sender.
     and_then (native_address_to_bytes32 X (pk_receiver p)) (\<lambda>receiver.
     and_then (decode_hex_32 X (pk_guid p)) (\<lambda>guid.
       Inr ([1] @ u64_to_be (pk_nonce p) @ u32_to_be (pk_src_eid p) @ sender
            @ u32_to_be (pk_dst_eid p) @ receiver @ guid @ message)))))"

definition decode_lz_packet_v1 :: "external \<Rightarrow> string \<Rightarrow> lz_packet_v1 res" where
  "decode_lz_packet_v1 X value =
     and_then (decode_hex_bytes X value) (\<lambda>bs.
       if length bs < 113
       then Inl (Internal (''invalid packet length: '' @ show_nat (length bs)))
       else if bs ! 0 \<noteq> 1
       then Inl (Internal (''unsupported packet version: '' @ show_nat (unat (bs ! 0))))
       else Inr \<lparr> pk_nonce = u64_from_be (slice 1 9 bs),
                  pk_src_eid = u32_from_be (slice 9 13 bs),
                  pk_sender = hex0x X (slice 13 45 bs),
                  pk_dst_eid = u32_from_be (slice 45 49 bs),
                  pk_receiver = hex0x X (slice 49 81 bs),
                  pk_guid = hex0x X (slice 81 113 bs),
                  pk_message = hex0x X (drop 113 bs) \<rparr>)"

definition is_lz_read_endpoint_id :: "u32 \<Rightarrow> bool" where
  "is_lz_read_endpoint_id endpoint_id \<longleftrightarrow> 4294967286 \<le> endpoint_id \<and> endpoint_id \<le> 4294967295"

definition compute_lz_packet_v1_proof :: "external \<Rightarrow> lz_packet_v1 \<Rightarrow> evm_uln_proof res" where
  "compute_lz_packet_v1_proof X packet =
     and_then (encode_lz_packet_v1 X packet) (\<lambda>encoded.
       Inr \<lparr> packet_header = hex0x X (take 81 encoded),
             payload_hash =
               (if is_lz_read_endpoint_id (pk_src_eid packet)
                then keccak256_hex X (drop 113 encoded)
                else keccak256_hex X (drop 81 encoded)) \<rparr>)"

definition packet_from_event :: "lz_sent_event \<Rightarrow> lz_packet_v1 res" where
  "packet_from_event ev =
     and_then (extra_u32 ev ''srcEid'') (\<lambda>src_eid.
     and_then (pathway_extra_string ev ''sender'') (\<lambda>sender.
     and_then (extra_u32 ev ''dstEid'') (\<lambda>dst_eid.
     and_then (pathway_extra_string ev ''receiver'') (\<lambda>receiver.
     and_then (extra_string ev ''guid'') (\<lambda>guid.
       Inr \<lparr> pk_nonce = msg_nonce (ev_lz_message_id ev), pk_src_eid = src_eid, pk_sender = sender,
             pk_dst_eid = dst_eid, pk_receiver = receiver, pk_guid = guid,
             pk_message = ev_message ev \<rparr>)))))"

definition compute_lz_packet_v1_proof_from_event :: "external \<Rightarrow> lz_sent_event \<Rightarrow> evm_uln_proof res" where
  "compute_lz_packet_v1_proof_from_event X ev =
     and_then (packet_from_event ev) (compute_lz_packet_v1_proof X)"

definition proof_from_event :: "external \<Rightarrow> lz_sent_event \<Rightarrow> evm_uln_proof res" where
  "proof_from_event X ev = compute_lz_packet_v1_proof_from_event X ev"


section \<open>Legacy payloads and feather proofs\<close>

definition build_evm_lz_v1_packet_payload_v2 ::
    "external \<Rightarrow> u64 \<Rightarrow> u64 \<Rightarrow> string \<Rightarrow> u64 \<Rightarrow> string \<Rightarrow> string \<Rightarrow> string res" where
  "build_evm_lz_v1_packet_payload_v2 X nonce src_eid sender dst_eid receiver message =
     and_then (u16_try_from ''srcEid'' src_eid) (\<lambda>src.
     and_then (u16_try_from ''dstEid'' dst_eid) (\<lambda>dst.
     and_then (decode_hex_20 X sender) (\<lambda>s.
     and_then (decode_hex_bytes X receiver) (\<lambda>r.
     and_then (decode_hex_bytes X message) (\<lambda>m.
       Inr (hex0x X (u64_to_be nonce @ u16_to_be (ucast src) @ s @ u16_to_be (ucast dst) @ r @ m)))))))"

definition build_evm_lz_v1_packet_payload_v2_from_event ::
    "external \<Rightarrow> lz_sent_event \<Rightarrow> string res" where
  "build_evm_lz_v1_packet_payload_v2_from_event X ev =
     and_then (extra_u64 ev ''srcEid'') (\<lambda>src_eid.
     and_then (pathway_extra_string ev ''sender'') (\<lambda>sender.
     and_then (extra_u64 ev ''dstEid'') (\<lambda>dst_eid.
     and_then (pathway_extra_string ev ''receiver'') (\<lambda>receiver.
       build_evm_lz_v1_packet_payload_v2 X (msg_nonce (ev_lz_message_id ev)) src_eid sender dst_eid
         receiver (ev_message ev)))))"

definition build_evm_feather_proof :: "external \<Rightarrow> string \<Rightarrow> string \<Rightarrow> string res" where
  "build_evm_feather_proof X packet_emit_address packet_payload =
     and_then (address_to_bytes32 X packet_emit_address) (\<lambda>emitter.
     and_then (decode_hex_bytes X packet_payload) (\<lambda>payload.
       Inr (hex0x X (emitter @ payload))))"

definition native_hash_by_chain_name :: "external \<Rightarrow> string \<Rightarrow> string \<Rightarrow> string res" where
  "native_hash_by_chain_name X data dst_chain =
     and_then (decode_hex_bytes X data) (\<lambda>bs.
       if dst_chain = ''aptos'' then Inr (hex_encode X (sha3_256 X bs))
       else Inr (keccak256_hex X bs))"

record uln_v2_hash_info =
  lookup_hash :: string
  block_data :: string

definition derive_evm_feather_hash_info ::
    "external \<Rightarrow> lz_sent_event \<Rightarrow> string \<Rightarrow> uln_v2_hash_info res" where
  "derive_evm_feather_hash_info X ev packet_emit_address =
     and_then (build_evm_lz_v1_packet_payload_v2_from_event X ev) (\<lambda>payload.
     and_then (build_evm_feather_proof X packet_emit_address payload) (\<lambda>proof.
     and_then (native_hash_by_chain_name X proof (dst_chain_name (ev_pathway ev))) (\<lambda>hash.
       Inr \<lparr> lookup_hash = hash, block_data = hash \<rparr>)))"

record aptos_v1_packet =
  ap_nonce :: u64
  ap_src_chain_id :: u16
  ap_src_address :: bytes
  ap_dst_chain_id :: u16
  ap_dst_address :: bytes
  ap_payload :: bytes

definition encode_aptos_v1_packet :: "aptos_v1_packet \<Rightarrow> bytes" where
  "encode_aptos_v1_packet p =
     u64_to_be (ap_nonce p) @ u16_to_be (ap_src_chain_id p) @ ap_src_address p
     @ u16_to_be (ap_dst_chain_id p) @ ap_dst_address p @ ap_payload p"

definition aptos_take :: "bytes \<Rightarrow> nat \<Rightarrow> nat \<Rightarrow> bytes res" where
  "aptos_take bs start len =
     (if start + len \<le> length bs then Inr (slice start (start + len) bs)
      else Inl (Internal (''Aptos V1 packet too short: '' @ show_nat (length bs) @ '' bytes'')))"

definition decode_aptos_v1_packet :: "bytes \<Rightarrow> (u16 \<Rightarrow> nat) \<Rightarrow> aptos_v1_packet res" where
  "decode_aptos_v1_packet bs dst_address_size =
     and_then (aptos_take bs 0 8) (\<lambda>nonce.
     and_then (aptos_take bs 8 2) (\<lambda>src.
     and_then (aptos_take bs 10 32) (\<lambda>src_address.
     and_then (aptos_take bs 42 2) (\<lambda>dst.
       let width = dst_address_size (u16_from_be dst) in
     and_then (aptos_take bs 44 width) (\<lambda>dst_address.
       Inr \<lparr> ap_nonce = u64_from_be nonce, ap_src_chain_id = u16_from_be src,
             ap_src_address = src_address, ap_dst_chain_id = u16_from_be dst,
             ap_dst_address = dst_address, ap_payload = drop (44 + width) bs \<rparr>)))))"

definition derive_aptos_feather_hash_info ::
    "external \<Rightarrow> lz_sent_event \<Rightarrow> string \<Rightarrow> uln_v2_hash_info res" where
  "derive_aptos_feather_hash_info X ev packet_emit_address =
     (let eid = (\<lambda>key. and_then (extra_u64 ev key) (\<lambda>v.
            if unat v < 2 ^ 16 then Inr (ucast v :: u16)
            else Inl (Internal (key @ '' is not an Aptos V1 chain id'')))) in
      and_then (eid ''srcEid'') (\<lambda>src_chain_id.
      and_then (and_then (pathway_extra_string ev ''sender'') (decode_hex_bytes X)) (\<lambda>src_address.
      and_then (eid ''dstEid'') (\<lambda>dst_chain_id.
      and_then (and_then (pathway_extra_string ev ''receiver'') (decode_hex_bytes X)) (\<lambda>dst_address.
      and_then (decode_hex_bytes X (ev_message ev)) (\<lambda>payload.
      and_then (build_evm_feather_proof X packet_emit_address
          (hex0x X (encode_aptos_v1_packet
             \<lparr> ap_nonce = msg_nonce (ev_lz_message_id ev), ap_src_chain_id = src_chain_id,
               ap_src_address = src_address, ap_dst_chain_id = dst_chain_id,
               ap_dst_address = dst_address, ap_payload = payload \<rparr>))) (\<lambda>proof.
      and_then (native_hash_by_chain_name X proof (dst_chain_name (ev_pathway ev))) (\<lambda>hash.
        Inr \<lparr> lookup_hash = hash, block_data = hash \<rparr>))))))))"

definition zero_guid :: string where
  "zero_guid = ''0x0000000000000000000000000000000000000000000000000000000000000000''"

definition decode_evm_legacy_packet_v2_payload ::
    "external \<Rightarrow> bytes \<Rightarrow> (u32 \<Rightarrow> nat) \<Rightarrow> lz_packet_v1 res" where
  "decode_evm_legacy_packet_v2_payload X payload dst_address_size =
     (if length payload < 32
      then Inl (Internal (''invalid legacy packet payload length: '' @ show_nat (length payload)))
      else
        let dst_eid = ucast (u16_from_be (slice 30 32 payload)) :: u32;
            receiver_end = 32 + dst_address_size dst_eid in
        if length payload < receiver_end
        then Inl (Internal (''invalid legacy packet payload length: '' @ show_nat (length payload)))
        else Inr \<lparr> pk_nonce = u64_from_be (slice 0 8 payload),
                   pk_src_eid = ucast (u16_from_be (slice 8 10 payload)),
                   pk_sender = hex0x X (slice 10 30 payload),
                   pk_dst_eid = dst_eid,
                   pk_receiver = hex0x X (slice 32 receiver_end payload),
                   pk_guid = zero_guid,
                   pk_message = hex0x X (drop receiver_end payload) \<rparr>)"


section \<open>PacketSent logs\<close>

datatype evm_packet_sent_kind = EndpointV2 string | SendUln301 | UltraLightNodeV2

record evm_packet_sent =
  ps_packet :: lz_packet_v1
  ps_options :: string
  ps_kind :: evm_packet_sent_kind

definition decode_evm_packet_sent_log ::
    "external \<Rightarrow> string list \<Rightarrow> string \<Rightarrow> (u32 \<Rightarrow> nat) \<Rightarrow> evm_packet_sent res" where
  "decode_evm_packet_sent_log X topics data dst_address_size =
     and_then (case topics of [] \<Rightarrow> Inl (Internal ''missing event topic'')
               | t # _ \<Rightarrow> Inr (map ascii_lower t)) (\<lambda>topic0.
     and_then (decode_hex_bytes X data) (\<lambda>bs.
       if topic0 = LEGACY_ULN_V2_PACKET_TOPIC then
         and_then (abi_dynamic_bytes bs 0 1) (\<lambda>payload.
         and_then (decode_evm_legacy_packet_v2_payload X payload dst_address_size) (\<lambda>packet.
           Inr \<lparr> ps_packet = packet, ps_options = ''0x'', ps_kind = UltraLightNodeV2 \<rparr>))
       else if topic0 = ENDPOINT_V2_PACKET_SENT_TOPIC then
         and_then (abi_dynamic_bytes bs 0 3) (\<lambda>payload.
         and_then (abi_dynamic_bytes bs 1 3) (\<lambda>options.
         and_then (abi_address X bs 2 3) (\<lambda>send_library.
         and_then (decode_lz_packet_v1 X (hex0x X payload)) (\<lambda>packet.
           Inr \<lparr> ps_packet = packet, ps_options = hex0x X options,
                 ps_kind = EndpointV2 send_library \<rparr>))))
       else if topic0 = ULN_301_PACKET_SENT_TOPIC then
         and_then (abi_dynamic_bytes bs 0 4) (\<lambda>payload.
         and_then (abi_dynamic_bytes bs 1 4) (\<lambda>options.
         and_then (decode_lz_packet_v1 X (hex0x X payload)) (\<lambda>packet.
           Inr \<lparr> ps_packet = packet, ps_options = hex0x X options, ps_kind = SendUln301 \<rparr>)))
       else Inl (Internal ''Unsupported PacketSent event topic'')))"


section \<open>Laws of the packet codec\<close>

lemma encode_lz_packet_v1_eq_Inr:
  "encode_lz_packet_v1 X p = Inr bs \<longleftrightarrow>
     (\<exists>message sender receiver guid. decode_hex_bytes X (pk_message p) = Inr message \<and>
        native_address_to_bytes32 X (pk_sender p) = Inr sender \<and>
        native_address_to_bytes32 X (pk_receiver p) = Inr receiver \<and>
        decode_hex_32 X (pk_guid p) = Inr guid \<and>
        bs = [1] @ u64_to_be (pk_nonce p) @ u32_to_be (pk_src_eid p) @ sender
             @ u32_to_be (pk_dst_eid p) @ receiver @ guid @ message)"
  by (auto simp: encode_lz_packet_v1_def res_simps)

text \<open>The fixed offsets of the layout.\<close>

lemma packet_layout:
  assumes "length nonce = 8" "length src = 4" "length sender = 32" "length dst = 4"
    "length receiver = 32" "length guid = 32"
    and bs: "bs = [v] @ nonce @ src @ sender @ dst @ receiver @ guid @ message"
  shows "bs ! 0 = v" "slice 1 9 bs = nonce" "slice 9 13 bs = src" "slice 13 45 bs = sender"
    "slice 45 49 bs = dst" "slice 49 81 bs = receiver" "slice 81 113 bs = guid"
    "drop 113 bs = message" "length bs = 113 + length message"
    "take 81 bs = [v] @ nonce @ src @ sender @ dst @ receiver" "drop 81 bs = guid @ message"
  unfolding bs slice_def using assms(1-6) by simp_all

lemma packet_split:
  assumes "113 \<le> length bs"
  shows "bs = [bs ! 0] @ slice 1 9 bs @ slice 9 13 bs @ slice 13 45 bs @ slice 45 49 bs
    @ slice 49 81 bs @ slice 81 113 bs @ drop 113 bs"
proof -
  have "bs \<noteq> []" using assms by auto
  moreover have "slice 1 9 bs @ slice 9 13 bs @ slice 13 45 bs @ slice 45 49 bs @ slice 49 81 bs
      @ slice 81 113 bs @ drop 113 bs = drop 1 bs"
    by (simp add: slice_drop_join)
  ultimately show ?thesis by (metis hd_drop_join)
qed

lemma packet_reencode:
  assumes X: "hex_ok X" and dec: "decode_lz_packet_v1 X value = Inr p"
  shows "encode_lz_packet_v1 X p = decode_hex_bytes X value"
proof -
  from dec obtain bs where bs: "decode_hex_bytes X value = Inr bs" and len: "113 \<le> length bs"
    and v: "bs ! 0 = 1"
    and p: "p = \<lparr> pk_nonce = u64_from_be (slice 1 9 bs), pk_src_eid = u32_from_be (slice 9 13 bs),
      pk_sender = hex0x X (slice 13 45 bs), pk_dst_eid = u32_from_be (slice 45 49 bs),
      pk_receiver = hex0x X (slice 49 81 bs), pk_guid = hex0x X (slice 81 113 bs),
      pk_message = hex0x X (drop 113 bs) \<rparr>"
    by (auto simp: decode_lz_packet_v1_def res_simps split: if_splits)
  have "encode_lz_packet_v1 X p = Inr ([1] @ slice 1 9 bs @ slice 9 13 bs @ slice 13 45 bs
      @ slice 45 49 bs @ slice 49 81 bs @ slice 81 113 bs @ drop 113 bs)"
    unfolding p encode_lz_packet_v1_def using X len
    by (simp add: native_address_hex0x left_pad32_id u64_be.enc_dec u32_be.enc_dec)
  also have "\<dots> = Inr bs" using packet_split [OF len] v by simp
  finally show ?thesis using bs by simp
qed

text \<open>
  C14: decoding a packet and encoding it again returns the bytes that were decoded: no field of a
  valid packet is lost or altered by the decoder.
\<close>

theorem packet_decode_encode:
  assumes X: "hex_ok X" and dec: "decode_lz_packet_v1 X value = Inr p"
  shows "encode_lz_packet_v1 X p = decode_hex_bytes X value"
  using assms by (rule packet_reencode)

theorem packet_decode_encode_witness:
  "\<exists>p. decode_lz_packet_v1 ref_external (hex0x ref_external (1 # replicate 112 3)) = Inr p \<and>
     encode_lz_packet_v1 ref_external p = Inr (1 # replicate 112 3)"
proof -
  note X = ref_external_hex_ok
  obtain p where "decode_lz_packet_v1 ref_external (hex0x ref_external (1 # replicate 112 3)) = Inr p"
    using X by (simp add: decode_lz_packet_v1_def)
  with packet_decode_encode [OF X this] X show ?thesis by simp
qed

text \<open>
  Every packet the encoder accepts is decoded again, with the same nonce and endpoint ids, the
  same sender, receiver and guid as 32-byte words, and the same message bytes; the decoded packet
  has the same encoding.
\<close>

lemma packet_encode_decode:
  assumes X: "hex_ok X" and enc: "encode_lz_packet_v1 X p = Inr bs"
  shows "\<exists>q. decode_lz_packet_v1 X (hex0x X bs) = Inr q \<and>
    pk_nonce q = pk_nonce p \<and> pk_src_eid q = pk_src_eid p \<and> pk_dst_eid q = pk_dst_eid p \<and>
    native_address_to_bytes32 X (pk_sender q) = native_address_to_bytes32 X (pk_sender p) \<and>
    native_address_to_bytes32 X (pk_receiver q) = native_address_to_bytes32 X (pk_receiver p) \<and>
    decode_hex_32 X (pk_guid q) = decode_hex_32 X (pk_guid p) \<and>
    decode_hex_bytes X (pk_message q) = decode_hex_bytes X (pk_message p) \<and>
    encode_lz_packet_v1 X q = Inr bs"
proof -
  from enc obtain m s r g where m: "decode_hex_bytes X (pk_message p) = Inr m"
    and s: "native_address_to_bytes32 X (pk_sender p) = Inr s"
    and r: "native_address_to_bytes32 X (pk_receiver p) = Inr r"
    and g: "decode_hex_32 X (pk_guid p) = Inr g"
    and bs: "bs = [1] @ u64_to_be (pk_nonce p) @ u32_to_be (pk_src_eid p) @ s
             @ u32_to_be (pk_dst_eid p) @ r @ g @ m"
    by (auto simp: encode_lz_packet_v1_eq_Inr)
  have len: "length s = 32" "length r = 32" "length g = 32"
    using s r g by (auto dest: native_address_to_bytes32_length decode_hex_32_length)
  note at = packet_layout [OF be_lengths(3) be_lengths(2) len(1) be_lengths(2) len(2) len(3) bs]
  let ?q = "\<lparr> pk_nonce = pk_nonce p, pk_src_eid = pk_src_eid p, pk_sender = hex0x X s,
    pk_dst_eid = pk_dst_eid p, pk_receiver = hex0x X r, pk_guid = hex0x X g,
    pk_message = hex0x X m \<rparr>"
  have q: "decode_lz_packet_v1 X (hex0x X bs) = Inr ?q"
    using X at by (simp add: decode_lz_packet_v1_def)
  have "encode_lz_packet_v1 X ?q = Inr bs"
    using packet_reencode [OF X q] X by simp
  with q X m s r g len show ?thesis
    by (intro exI [of _ ?q]) (simp add: native_address_hex0x left_pad32_id)
qed

theorem packet_encode_decode_witness:
  "\<exists>bs q. encode_lz_packet_v1 ref_external
      \<lparr> pk_nonce = 7, pk_src_eid = 30101, pk_sender = hex0x ref_external (replicate 20 1),
        pk_dst_eid = 30102, pk_receiver = hex0x ref_external (replicate 32 2),
        pk_guid = hex0x ref_external (replicate 32 3), pk_message = hex0x ref_external [4, 5] \<rparr>
      = Inr bs \<and>
    decode_lz_packet_v1 ref_external (hex0x ref_external bs) = Inr q \<and> pk_nonce q = 7 \<and>
    decode_hex_bytes ref_external (pk_message q) = Inr [4, 5]"
proof -
  note X = ref_external_hex_ok
  let ?p = "\<lparr> pk_nonce = 7, pk_src_eid = 30101, pk_sender = hex0x ref_external (replicate 20 1),
        pk_dst_eid = 30102, pk_receiver = hex0x ref_external (replicate 32 2),
        pk_guid = hex0x ref_external (replicate 32 3), pk_message = hex0x ref_external [4, 5] \<rparr>"
  obtain bs where bs: "encode_lz_packet_v1 ref_external ?p = Inr bs"
    using X by (simp add: encode_lz_packet_v1_def native_address_hex0x)
  from packet_encode_decode [OF X bs] X bs show ?thesis by auto
qed

subsection \<open>The signed proof\<close>

lemma compute_proof_Inr:
  assumes "compute_lz_packet_v1_proof X p = Inr pr"
  obtains message sender receiver guid where
    "decode_hex_bytes X (pk_message p) = Inr message"
    "native_address_to_bytes32 X (pk_sender p) = Inr sender"
    "native_address_to_bytes32 X (pk_receiver p) = Inr receiver"
    "decode_hex_32 X (pk_guid p) = Inr guid"
    "packet_header pr = hex0x X ([1] @ u64_to_be (pk_nonce p) @ u32_to_be (pk_src_eid p)
       @ sender @ u32_to_be (pk_dst_eid p) @ receiver)"
    "payload_hash pr = keccak256_hex X
       (if is_lz_read_endpoint_id (pk_src_eid p) then message else guid @ message)"
proof -
  from assms obtain bs where enc: "encode_lz_packet_v1 X p = Inr bs"
    and pr: "packet_header pr = hex0x X (take 81 bs)"
      "payload_hash pr = keccak256_hex X
         (if is_lz_read_endpoint_id (pk_src_eid p) then drop 113 bs else drop 81 bs)"
    by (auto simp: compute_lz_packet_v1_proof_def res_simps)
  from enc obtain m s r g where f: "decode_hex_bytes X (pk_message p) = Inr m"
      "native_address_to_bytes32 X (pk_sender p) = Inr s"
      "native_address_to_bytes32 X (pk_receiver p) = Inr r" "decode_hex_32 X (pk_guid p) = Inr g"
    and bs: "bs = [1] @ u64_to_be (pk_nonce p) @ u32_to_be (pk_src_eid p) @ s
             @ u32_to_be (pk_dst_eid p) @ r @ g @ m"
    by (auto simp only: encode_lz_packet_v1_eq_Inr)
  have len: "length s = 32" "length r = 32" "length g = 32"
    using f by (auto dest: native_address_to_bytes32_length decode_hex_32_length)
  note at = packet_layout(8,10,11)
    [OF be_lengths(3) be_lengths(2) len(1) be_lengths(2) len(2) len(3) bs]
  show ?thesis by (rule that [OF f]) (simp_all only: pr at)
qed

definition sample_packet :: "u32 \<Rightarrow> lz_packet_v1" where
  "sample_packet eid =
     \<lparr> pk_nonce = 9, pk_src_eid = eid, pk_sender = hex0x ref_external (replicate 20 1),
       pk_dst_eid = 30102, pk_receiver = hex0x ref_external (replicate 20 2),
       pk_guid = hex0x ref_external (replicate 32 3), pk_message = hex0x ref_external [4] \<rparr>"

text \<open>
  C31: the signed packet header determines the route. Two packets whose proofs carry the same header
  have the same nonce, source and destination endpoint ids, and the same sender and receiver words.
\<close>

theorem proof_header_binds_route:
  assumes X: "hex_ok X"
    and p: "compute_lz_packet_v1_proof X p = Inr a" and q: "compute_lz_packet_v1_proof X q = Inr b"
    and eq: "packet_header a = packet_header b"
  shows "pk_nonce p = pk_nonce q \<and> pk_src_eid p = pk_src_eid q \<and> pk_dst_eid p = pk_dst_eid q \<and>
    native_address_to_bytes32 X (pk_sender p) = native_address_to_bytes32 X (pk_sender q) \<and>
    native_address_to_bytes32 X (pk_receiver p) = native_address_to_bytes32 X (pk_receiver q)"
proof -
  from p obtain s r where s: "native_address_to_bytes32 X (pk_sender p) = Inr s"
    and r: "native_address_to_bytes32 X (pk_receiver p) = Inr r"
    and a: "packet_header a = hex0x X ([1] @ u64_to_be (pk_nonce p) @ u32_to_be (pk_src_eid p)
                 @ s @ u32_to_be (pk_dst_eid p) @ r)"
    by (rule compute_proof_Inr)
  from q obtain s' r' where s': "native_address_to_bytes32 X (pk_sender q) = Inr s'"
    and r': "native_address_to_bytes32 X (pk_receiver q) = Inr r'"
    and b: "packet_header b = hex0x X ([1] @ u64_to_be (pk_nonce q) @ u32_to_be (pk_src_eid q)
                 @ s' @ u32_to_be (pk_dst_eid q) @ r')"
    by (rule compute_proof_Inr)
  have "length s = length s'"
    using s s' by (auto dest!: native_address_to_bytes32_length)
  with eq have "pk_nonce p = pk_nonce q \<and> pk_src_eid p = pk_src_eid q \<and> s = s' \<and>
      pk_dst_eid p = pk_dst_eid q \<and> r = r'"
    unfolding a b hex0x_inject [OF X]
    by (simp add: u64_be.prefix_inject u32_be.prefix_inject append_eq_append_conv)
  with s s' r r' show ?thesis by simp
qed

theorem proof_header_binds_route_witness:
  "\<exists>a. compute_lz_packet_v1_proof ref_external (sample_packet 30101) = Inr a \<and>
    native_address_to_bytes32 ref_external (hex0x ref_external (replicate 20 2)) =
    native_address_to_bytes32 ref_external (hex0x ref_external (left_pad32 (replicate 20 2)))"
proof -
  note X = ref_external_hex_ok
  let ?p = "sample_packet 30101"
  let ?q = "?p \<lparr> pk_receiver := hex0x ref_external (left_pad32 (replicate 20 2)) \<rparr>"
  have "encode_lz_packet_v1 ref_external ?p = encode_lz_packet_v1 ref_external ?q"
    "is_ok (encode_lz_packet_v1 ref_external ?p)"
    using X by (simp_all add: sample_packet_def encode_lz_packet_v1_def native_address_hex0x left_pad32_def)
  then obtain a where a: "compute_lz_packet_v1_proof ref_external ?p = Inr a"
    "compute_lz_packet_v1_proof ref_external ?q = Inr a"
    by (auto simp: compute_lz_packet_v1_proof_def is_ok_iff)
  from proof_header_binds_route [OF X a refl] a show ?thesis by (auto simp: sample_packet_def)
qed

text \<open>
  The payload hash is the Keccak digest of the message alone when the source endpoint is one
  of the ten read channels \<open>4294967286\<close> to \<open>4294967295\<close>, and of the guid followed by the message
  for every other source.
\<close>

theorem proof_payload_hash:
  assumes enc: "encode_lz_packet_v1 X p = Inr bs"
    and g: "decode_hex_32 X (pk_guid p) = Inr guid"
    and m: "decode_hex_bytes X (pk_message p) = Inr message"
  shows "\<exists>pr. compute_lz_packet_v1_proof X p = Inr pr \<and>
    packet_header pr = hex0x X (take 81 bs) \<and> length (take 81 bs) = 81 \<and>
    payload_hash pr =
      (if unat (pk_src_eid p) \<in> {4294967286..4294967295} then keccak256_hex X message
       else keccak256_hex X (guid @ message))"
proof -
  from enc g m obtain s r where s: "native_address_to_bytes32 X (pk_sender p) = Inr s"
    and r: "native_address_to_bytes32 X (pk_receiver p) = Inr r"
    and bs: "bs = [1] @ u64_to_be (pk_nonce p) @ u32_to_be (pk_src_eid p) @ s
             @ u32_to_be (pk_dst_eid p) @ r @ guid @ message"
    by (auto simp: encode_lz_packet_v1_eq_Inr)
  have len: "length s = 32" "length r = 32" "length guid = 32"
    using s r g by (auto dest: native_address_to_bytes32_length decode_hex_32_length)
  have "is_lz_read_endpoint_id (pk_src_eid p) \<longleftrightarrow> unat (pk_src_eid p) \<in> {4294967286..4294967295}"
    by (simp add: is_lz_read_endpoint_id_def word_le_nat_alt)
  moreover note packet_layout(8,9,11)
      [OF be_lengths(3) be_lengths(2) len(1) be_lengths(2) len(2) len(3) bs]
  ultimately show ?thesis
    using enc by (simp add: compute_lz_packet_v1_proof_def)
qed

theorem proof_payload_hash_witness:
  "\<exists>pr. compute_lz_packet_v1_proof ref_external (sample_packet 4294967290) = Inr pr \<and>
    payload_hash pr = keccak256_hex ref_external [4]"
proof -
  note X = ref_external_hex_ok
  let ?p = "sample_packet 4294967290"
  obtain bs where bs: "encode_lz_packet_v1 ref_external ?p = Inr bs"
    using X by (simp add: sample_packet_def encode_lz_packet_v1_def native_address_hex0x)
  have "decode_hex_32 ref_external (pk_guid ?p) = Inr (replicate 32 3)"
    "decode_hex_bytes ref_external (pk_message ?p) = Inr [4]"
    "unat (pk_src_eid ?p) = 4294967290"
    using X by (simp_all add: sample_packet_def)
  with proof_payload_hash [OF bs this(1,2)] show ?thesis by auto
qed

subsection \<open>Legacy and Aptos payloads\<close>

text \<open>
  The Aptos V1 packet codec round-trips: a packet with a 32-byte source address and a
  destination address of the width its chain id has is decoded to itself.
\<close>

theorem aptos_packet_roundtrip:
  assumes "length (ap_src_address p) = 32"
    and "length (ap_dst_address p) = dst_address_size (ap_dst_chain_id p)"
  shows "decode_aptos_v1_packet (encode_aptos_v1_packet p) dst_address_size = Inr p"
  using assms
  by (simp add: decode_aptos_v1_packet_def encode_aptos_v1_packet_def aptos_take_def slice_def Let_def)

theorem aptos_packet_roundtrip_witness:
  "decode_aptos_v1_packet (encode_aptos_v1_packet
      \<lparr> ap_nonce = 3, ap_src_chain_id = 108, ap_src_address = replicate 32 1,
        ap_dst_chain_id = 101, ap_dst_address = replicate 20 2, ap_payload = [7, 8] \<rparr>) (\<lambda>_. 20) =
    Inr \<lparr> ap_nonce = 3, ap_src_chain_id = 108, ap_src_address = replicate 32 1,
        ap_dst_chain_id = 101, ap_dst_address = replicate 20 2, ap_payload = [7, 8] \<rparr>"
  by (rule aptos_packet_roundtrip) simp_all

lemma ucast_u16_roundtrip: "unat v < 2 ^ 16 \<Longrightarrow> unat (ucast (ucast (v :: u64) :: u16) :: u32) = unat v"
  by (simp add: unsigned_ucast_eq unsigned_take_bit_eq take_bit_nat_eq_self)

text \<open>
  The legacy ULN V2 payload round-trips: what the builder writes is decoded to the same nonce,
  endpoint ids, sender, receiver and message, whenever the receiver has the width of its chain.
\<close>

theorem legacy_payload_roundtrip:
  assumes X: "hex_ok X"
    and out: "build_evm_lz_v1_packet_payload_v2 X nonce src_eid sender dst_eid receiver message = Inr out"
    and r: "decode_hex_bytes X receiver = Inr rb" "dst_address_size (ucast dst_eid) = length rb"
  shows "\<exists>payload q. decode_hex_bytes X out = Inr payload \<and>
    decode_evm_legacy_packet_v2_payload X payload dst_address_size = Inr q \<and>
    pk_nonce q = nonce \<and> unat (pk_src_eid q) = unat src_eid \<and> unat (pk_dst_eid q) = unat dst_eid \<and>
    decode_hex_20 X (pk_sender q) = decode_hex_20 X sender \<and>
    decode_hex_bytes X (pk_receiver q) = Inr rb \<and>
    decode_hex_bytes X (pk_message q) = decode_hex_bytes X message"
proof -
  from out r obtain s m where s: "decode_hex_20 X sender = Inr s"
    and m: "decode_hex_bytes X message = Inr m"
    and eids: "unat src_eid < 2 ^ 16" "unat dst_eid < 2 ^ 16"
    and o: "out = hex0x X (u64_to_be nonce @ u16_to_be (ucast src_eid) @ s @ u16_to_be (ucast dst_eid) @ rb @ m)"
    by (auto simp: build_evm_lz_v1_packet_payload_v2_def u16_try_from_def res_simps split: if_splits)
  let ?pl = "u64_to_be nonce @ u16_to_be (ucast src_eid) @ s @ u16_to_be (ucast dst_eid) @ rb @ m"
  have ls: "length s = 20" using s by (rule decode_hex_20_length)
  have dst: "(ucast (ucast dst_eid :: u16) :: u32) = ucast dst_eid"
    using eids(2) by (simp add: word_unat_eq_iff ucast_u16_roundtrip unsigned_ucast_eq unsigned_take_bit_eq take_bit_nat_eq_self)
  have at: "slice 0 8 ?pl = u64_to_be nonce" "slice 8 10 ?pl = u16_to_be (ucast src_eid)"
    "slice 10 30 ?pl = s" "slice 30 32 ?pl = u16_to_be (ucast dst_eid)"
    "slice 32 (32 + length rb) ?pl = rb" "drop (32 + length rb) ?pl = m"
    "length ?pl = 32 + length rb + length m"
    using ls by (simp_all add: slice_def)
  let ?q = "\<lparr> pk_nonce = nonce, pk_src_eid = ucast (ucast src_eid :: u16), pk_sender = hex0x X s,
    pk_dst_eid = ucast dst_eid, pk_receiver = hex0x X rb, pk_guid = zero_guid, pk_message = hex0x X m \<rparr>"
  have "decode_evm_legacy_packet_v2_payload X ?pl dst_address_size = Inr ?q"
    unfolding decode_evm_legacy_packet_v2_payload_def Let_def at(4) u16_be.dec_enc dst r(2) at
    by simp
  moreover have "decode_hex_bytes X out = Inr ?pl" unfolding o using X by simp
  moreover have "unat (ucast (ucast src_eid :: u16) :: u32) = unat src_eid"
    "unat (ucast dst_eid :: u32) = unat dst_eid"
    using eids ucast_u16_roundtrip [of src_eid] ucast_u16_roundtrip [of dst_eid] by (simp_all only: dst)
  moreover have "decode_hex_20 X (hex0x X s) = Inr s" using X ls by simp
  ultimately show ?thesis
    using X s m by (intro exI [of _ ?pl] exI [of _ ?q]) (simp only: lz_packet_v1.simps simp_thms decode_hex_bytes_hex0x)
qed

theorem legacy_payload_roundtrip_witness:
  "\<exists>out payload q. build_evm_lz_v1_packet_payload_v2 ref_external 4 101 (hex0x ref_external (replicate 20 1))
      102 (hex0x ref_external (replicate 20 2)) (hex0x ref_external [9]) = Inr out \<and>
    decode_hex_bytes ref_external out = Inr payload \<and>
    decode_evm_legacy_packet_v2_payload ref_external payload (\<lambda>_. 20) = Inr q \<and> pk_nonce q = 4"
proof -
  note X = ref_external_hex_ok
  obtain out where out: "build_evm_lz_v1_packet_payload_v2 ref_external 4 101
      (hex0x ref_external (replicate 20 1)) 102 (hex0x ref_external (replicate 20 2))
      (hex0x ref_external [9]) = Inr out"
    using X by (simp add: build_evm_lz_v1_packet_payload_v2_def u16_try_from_def)
  have "decode_hex_bytes ref_external (hex0x ref_external (replicate 20 2)) = Inr (replicate 20 2)"
    using X by simp
  from legacy_payload_roundtrip [OF X out this, of "\<lambda>_. 20"] out show ?thesis by auto
qed

end
