(* ===== verification/Read_Command.thy ===== *)
theory Read_Command
  imports Lz_Packet
begin

text \<open>
  \<^verbatim>\<open>pillar-layerzero/src/read_v1002/command.rs\<close>: the cursor parser of a ReadV1002 command, and the
  time markers extracted from it. The cursor's contract to its clients (a read consumes exactly
  the bytes it returns) is the locale \<open>cursor_codec\<close>, interpreted for every integer width.
\<close>

section \<open>Data (types.rs)\<close>

datatype read_time_marker = Timestamp u64 | BlockNumber u64

record read_resolved_time_marker =
  rm_target_eid :: u32
  rm_marker :: read_time_marker
  rm_block_confirmation :: u16

record evm_read_request =
  rr_request :: string
  rr_target_eid :: u32
  rr_marker :: read_time_marker
  rr_block_confirmation :: u16
  rr_to :: string
  rr_calldata :: string

datatype evm_read_compute_setting = OnlyMap | OnlyReduce | MapReduce

record evm_read_compute =
  rc_target_eid :: u32
  rc_marker :: read_time_marker
  rc_block_confirmation :: u16
  rc_to :: string
  rc_setting :: evm_read_compute_setting

record evm_read_command =
  cmd_global_version :: u16
  cmd_app_command_label :: string
  cmd_requests :: "evm_read_request list"
  cmd_compute :: "evm_read_compute option"

section \<open>The cursor\<close>

record read_cursor =
  cur_bytes :: bytes
  cur_offset :: nat

definition malformed :: "string \<Rightarrow> app_core_error" where
  "malformed message = BadRequest message"

definition cursor_new :: "bytes \<Rightarrow> read_cursor" where
  "cursor_new bs = \<lparr> cur_bytes = bs, cur_offset = 0 \<rparr>"

definition cursor_remaining :: "read_cursor \<Rightarrow> nat" where
  "cursor_remaining c = length (cur_bytes c) - cur_offset c"

definition read_bytes :: "read_cursor \<Rightarrow> nat \<Rightarrow> (bytes \<times> read_cursor) res" where
  "read_bytes c len =
     (let stop = cur_offset c + len in
      if usize_max < stop then Inl (malformed ''read cursor overflow'')
      else if length (cur_bytes c) < stop then Inl (malformed ''read command ended unexpectedly'')
      else Inr (slice (cur_offset c) stop (cur_bytes c), c\<lparr>cur_offset := stop\<rparr>))"

definition read_u8 :: "read_cursor \<Rightarrow> (byte \<times> read_cursor) res" where
  "read_u8 c = and_then (read_bytes c 1) (\<lambda>(bs, c'). Inr (bs ! 0, c'))"

definition read_u16 :: "read_cursor \<Rightarrow> (u16 \<times> read_cursor) res" where
  "read_u16 c = and_then (read_bytes c 2) (\<lambda>(bs, c'). Inr (u16_from_be bs, c'))"

definition read_u32 :: "read_cursor \<Rightarrow> (u32 \<times> read_cursor) res" where
  "read_u32 c = and_then (read_bytes c 4) (\<lambda>(bs, c'). Inr (u32_from_be bs, c'))"

definition read_u64 :: "read_cursor \<Rightarrow> (u64 \<times> read_cursor) res" where
  "read_u64 c = and_then (read_bytes c 8) (\<lambda>(bs, c'). Inr (u64_from_be bs, c'))"

definition read_hex :: "external \<Rightarrow> read_cursor \<Rightarrow> nat \<Rightarrow> (string \<times> read_cursor) res" where
  "read_hex X c len = and_then (read_bytes c len) (\<lambda>(bs, c'). Inr (hex_encode X bs, c'))"

section \<open>The parser\<close>

definition MAX_READ_REQUESTS :: u16 where
  "MAX_READ_REQUESTS = 256"

definition decode_evm_read_base ::
    "external \<Rightarrow> read_cursor \<Rightarrow> ((u32 \<times> read_time_marker \<times> u16 \<times> string) \<times> read_cursor) res" where
  "decode_evm_read_base X c0 =
     and_then (read_u32 c0) (\<lambda>(target_eid, c1).
     and_then (read_u8 c1) (\<lambda>(flag, c2).
     and_then
       (if flag = 0 then and_then (read_u64 c2) (\<lambda>(t, c). Inr (Timestamp t, c))
        else if flag = 1 then and_then (read_u64 c2) (\<lambda>(n, c). Inr (BlockNumber n, c))
        else Inl (malformed (''Unsupported timestamp block flag: '' @ show_nat (unat flag))))
       (\<lambda>(marker, c3).
     and_then (read_u16 c3) (\<lambda>(block_confirmation, c4).
     and_then (read_hex X c4 20) (\<lambda>(to, c5).
       Inr ((target_eid, marker, block_confirmation, with_0x to), c5))))))"

definition decode_evm_read_request ::
    "external \<Rightarrow> read_cursor \<Rightarrow> (evm_read_request \<times> read_cursor) res" where
  "decode_evm_read_request X c0 =
     and_then (read_u8 c0) (\<lambda>(request_version, c1).
     if request_version \<noteq> 1
     then Inl (malformed (''Unsupported READ request version: '' @ show_nat (unat request_version)))
     else
     and_then (read_hex X c1 2) (\<lambda>(_, c2).
     and_then (read_u16 c2) (\<lambda>(resolver_type, c3).
     if resolver_type \<noteq> 1
     then Inl (malformed (''Unsupported resolver type: '' @ show_nat (unat resolver_type)))
     else
     and_then (read_u16 c3) (\<lambda>(request_size, c4).
     and_then (decode_evm_read_base X c4) (\<lambda>((target_eid, marker, block_confirmation, to), c5).
       let consumed = cur_offset c5 - cur_offset c4 in
       if unat request_size < consumed
       then Inl (malformed ''Read request size is shorter than EVM base'')
       else
     and_then (read_hex X c5 (unat request_size - consumed)) (\<lambda>(calldata, c6).
       Inr (\<lparr> rr_request = with_0x (hex_encode X (slice (cur_offset c0) (cur_offset c6) (cur_bytes c6))),
              rr_target_eid = target_eid, rr_marker = marker,
              rr_block_confirmation = block_confirmation, rr_to = to,
              rr_calldata = with_0x calldata \<rparr>, c6)))))))"

fun decode_evm_read_requests ::
    "external \<Rightarrow> nat \<Rightarrow> read_cursor \<Rightarrow> (evm_read_request list \<times> read_cursor) res" where
  "decode_evm_read_requests X 0 c = Inr ([], c)"
| "decode_evm_read_requests X (Suc n) c =
     and_then (decode_evm_read_request X c) (\<lambda>(r, c').
     and_then (decode_evm_read_requests X n c') (\<lambda>(rs, c''). Inr (r # rs, c'')))"

definition decode_evm_read_compute ::
    "external \<Rightarrow> read_cursor \<Rightarrow> (evm_read_compute \<times> read_cursor) res" where
  "decode_evm_read_compute X c0 =
     and_then (read_u8 c0) (\<lambda>(compute_version, c1).
     if compute_version \<noteq> 1
     then Inl (malformed (''Unsupported READ compute version: '' @ show_nat (unat compute_version)))
     else
     and_then (read_u16 c1) (\<lambda>(compute_type, c2).
     if compute_type \<noteq> 1
     then Inl (malformed (''Unsupported compute type: '' @ show_nat (unat compute_type)))
     else
     and_then (read_u8 c2) (\<lambda>(raw, c3).
     and_then
       (if raw = 0 then Inr OnlyMap else if raw = 1 then Inr OnlyReduce
        else if raw = 2 then Inr MapReduce
        else Inl (malformed (''Unsupported compute setting: '' @ show_nat (unat raw)))) (\<lambda>setting.
     and_then (decode_evm_read_base X c3) (\<lambda>((target_eid, marker, block_confirmation, to), c4).
       Inr (\<lparr> rc_target_eid = target_eid, rc_marker = marker,
              rc_block_confirmation = block_confirmation, rc_to = to, rc_setting = setting \<rparr>, c4))))))"

definition decode_evm_read_command :: "external \<Rightarrow> string \<Rightarrow> evm_read_command res" where
  "decode_evm_read_command X cmd =
     and_then (map_err (\<lambda>e. malformed (show_app_core_error e)) (decode_hex_bytes X cmd)) (\<lambda>bs.
     and_then (read_u16 (cursor_new bs)) (\<lambda>(global_version, c1).
     if global_version \<noteq> 1
     then Inl (malformed (''Unsupported READ command version: '' @ show_nat (unat global_version)))
     else
     and_then (read_hex X c1 2) (\<lambda>(app_command_label, c2).
     and_then (read_u16 c2) (\<lambda>(request_count, c3).
     if MAX_READ_REQUESTS < request_count
     then Inl (BadRequest (''read request count '' @ show_nat (unat request_count)
            @ '' exceeds limit '' @ show_nat (unat MAX_READ_REQUESTS)))
     else if request_count = 0
     then Inl (malformed ''READ command must contain at least one request'')
     else
     and_then (decode_evm_read_requests X (unat request_count) c3) (\<lambda>(requests, c4).
     and_then
       (if 0 < cursor_remaining c4
        then and_then (decode_evm_read_compute X c4) (\<lambda>(k, c). Inr (Some k, c))
        else Inr (None, c4)) (\<lambda>(compute, c5).
     if cursor_remaining c5 \<noteq> 0 then Inl (malformed ''Trailing bytes in read command'')
     else Inr \<lparr> cmd_global_version = global_version, cmd_app_command_label = app_command_label,
                cmd_requests = requests, cmd_compute = compute \<rparr>))))))"

section \<open>Time markers\<close>

definition push_unique_read_marker ::
    "read_resolved_time_marker list \<Rightarrow> read_resolved_time_marker \<Rightarrow> read_resolved_time_marker list" where
  "push_unique_read_marker markers marker =
     (if marker \<in> set markers then markers else markers @ [marker])"

definition request_marker :: "evm_read_request \<Rightarrow> read_resolved_time_marker" where
  "request_marker r =
     \<lparr> rm_target_eid = rr_target_eid r, rm_marker = rr_marker r,
       rm_block_confirmation = rr_block_confirmation r \<rparr>"

definition compute_marker :: "evm_read_compute \<Rightarrow> read_resolved_time_marker" where
  "compute_marker k =
     \<lparr> rm_target_eid = rc_target_eid k, rm_marker = rc_marker k,
       rm_block_confirmation = rc_block_confirmation k \<rparr>"

definition extract_evm_read_resolved_time_markers ::
    "external \<Rightarrow> string \<Rightarrow> read_resolved_time_marker list res" where
  "extract_evm_read_resolved_time_markers X cmd =
     and_then (decode_evm_read_command X cmd) (\<lambda>command.
       let from_requests = foldl (\<lambda>ms r. push_unique_read_marker ms (request_marker r)) []
                             (cmd_requests command);
           markers = (case cmd_compute command of None \<Rightarrow> from_requests
                      | Some k \<Rightarrow> push_unique_read_marker from_requests (compute_marker k)) in
       if \<exists>m \<in> set markers. rm_marker m = BlockNumber 0
       then Inl (malformed ''Malformed command: Block number cannot be zero!'')
       else Inr markers)"


section \<open>Laws of the cursor\<close>

definition cur_rest :: "read_cursor \<Rightarrow> bytes" where
  "cur_rest c = drop (cur_offset c) (cur_bytes c)"

definition cur_skip :: "nat \<Rightarrow> read_cursor \<Rightarrow> read_cursor" where
  "cur_skip n c = c\<lparr>cur_offset := cur_offset c + n\<rparr>"

definition cur_ok :: "read_cursor \<Rightarrow> bool" where
  "cur_ok c \<longleftrightarrow> cur_offset c \<le> length (cur_bytes c) \<and> length (cur_bytes c) < 2 ^ 63"

lemma cur_skip_simps [simp]:
  "cur_bytes (cur_skip n c) = cur_bytes c" "cur_offset (cur_skip n c) = cur_offset c + n"
  "cur_skip m (cur_skip n c) = cur_skip (n + m) c" "cur_skip 0 c = c"
  by (simp_all add: cur_skip_def add.assoc)

lemma cur_rest_skip: "cur_rest (cur_skip n c) = drop n (cur_rest c)"
  by (simp add: cur_rest_def add.commute)

lemma cur_remaining_rest: "cursor_remaining c = length (cur_rest c)"
  by (simp add: cursor_remaining_def cur_rest_def)

lemma cur_new_simps [simp]: "cur_rest (cursor_new bs) = bs" "length bs < 2 ^ 63 \<Longrightarrow> cur_ok (cursor_new bs)"
  by (simp_all add: cur_rest_def cursor_new_def cur_ok_def)

lemma cur_ok_skip: "cur_ok c \<Longrightarrow> n \<le> length (cur_rest c) \<Longrightarrow> cur_ok (cur_skip n c)"
  by (auto simp: cur_ok_def cur_rest_def)

text \<open>A successful read returns the next bytes and moves past exactly them.\<close>

lemma read_bytes_iff:
  assumes "cur_ok c"
  shows "read_bytes c n = Inr (b, c') \<longleftrightarrow>
    length b = n \<and> c' = cur_skip n c \<and> cur_rest c = b @ cur_rest c'"
proof -
  have le: "cur_offset c \<le> length (cur_bytes c)" "length (cur_bytes c) < 2 ^ 63"
    using assms by (auto simp: cur_ok_def)
  show ?thesis
  proof (cases "cur_offset c + n \<le> length (cur_bytes c)")
    case True
    then have small: "\<not> usize_max < cur_offset c + n"
      using le by (simp add: usize_max_def)
    have len: "length (slice (cur_offset c) (cur_offset c + n) (cur_bytes c)) = n"
      using True by simp
    have join: "cur_rest c = slice (cur_offset c) (cur_offset c + n) (cur_bytes c) @ cur_rest (cur_skip n c)"
      by (simp add: cur_rest_def slice_drop_join)
    show ?thesis
    proof
      assume "read_bytes c n = Inr (b, c')"
      with True small len join show "length b = n \<and> c' = cur_skip n c \<and> cur_rest c = b @ cur_rest c'"
        by (auto simp: read_bytes_def cur_skip_def Let_def)
    next
      assume a: "length b = n \<and> c' = cur_skip n c \<and> cur_rest c = b @ cur_rest c'"
      then have "b = slice (cur_offset c) (cur_offset c + n) (cur_bytes c)"
        using join len by (metis append_eq_append_conv)
      with a True small show "read_bytes c n = Inr (b, c')"
        by (simp add: read_bytes_def cur_skip_def Let_def)
    qed
  next
    case False
    then have "read_bytes c n \<noteq> Inr (b, c')"
      by (simp add: read_bytes_def Let_def)
    moreover have "\<not> (length b = n \<and> cur_rest c = b @ cur_rest (cur_skip n c))"
      using False le arg_cong [of "cur_rest c" "b @ cur_rest (cur_skip n c)" length]
      by (auto simp: cur_rest_def)
    ultimately show ?thesis by auto
  qed
qed

text \<open>
  The contract between the cursor and the parser: an integer reader built on \<open>read_bytes\<close> and a
  fixed-width encoding reads a value exactly when its encoding comes next.
\<close>

locale cursor_codec = fixed_width_codec enc dec width
  for enc :: "'v \<Rightarrow> bytes" and dec :: "bytes \<Rightarrow> 'v" and width :: nat +
  fixes rd :: "read_cursor \<Rightarrow> ('v \<times> read_cursor) res"
  assumes rd_def: "rd c = and_then (read_bytes c width) (\<lambda>(bs, c'). Inr (dec bs, c'))"
begin

lemma read_iff:
  assumes "cur_ok c"
  shows "rd c = Inr (v, c') \<longleftrightarrow> c' = cur_skip width c \<and> cur_rest c = enc v @ cur_rest c'"
proof
  assume "rd c = Inr (v, c')"
  then obtain bs where "read_bytes c width = Inr (bs, c')" and v: "v = dec bs"
    by (auto simp: rd_def res_simps)
  with assms have "length bs = width" "c' = cur_skip width c" "cur_rest c = bs @ cur_rest c'"
    by (auto simp: read_bytes_iff)
  then show "c' = cur_skip width c \<and> cur_rest c = enc v @ cur_rest c'"
    unfolding v by (simp add: enc_dec)
next
  assume "c' = cur_skip width c \<and> cur_rest c = enc v @ cur_rest c'"
  then have "read_bytes c width = Inr (enc v, c')"
    using assms by (simp add: read_bytes_iff enc_length)
  then show "rd c = Inr (v, c')" by (simp add: rd_def dec_enc)
qed

lemma read_ok: "cur_ok c \<Longrightarrow> rd c = Inr (v, c') \<Longrightarrow> cur_ok c'"
  using read_iff [of c v c'] cur_ok_skip [of c width] by (auto simp: enc_length)

end

interpretation cur_u8: cursor_codec "\<lambda>b. [b]" "\<lambda>bs. bs ! 0" 1 read_u8
proof (unfold_locales, goal_cases)
  case (3 bs)
  then show ?case by (cases bs) auto
qed (simp_all add: read_u8_def)

interpretation cur_u16: cursor_codec u16_to_be u16_from_be 2 read_u16
  by unfold_locales (simp add: read_u16_def)

interpretation cur_u32: cursor_codec u32_to_be u32_from_be 4 read_u32
  by unfold_locales (simp add: read_u32_def)

interpretation cur_u64: cursor_codec u64_to_be u64_from_be 8 read_u64
  by unfold_locales (simp add: read_u64_def)

lemma read_hex_iff:
  "cur_ok c \<Longrightarrow> read_hex X c n = Inr (t, c') \<longleftrightarrow>
    (\<exists>b. t = hex_encode X b \<and> length b = n \<and> c' = cur_skip n c \<and> cur_rest c = b @ cur_rest c')"
  by (auto simp: read_hex_def res_simps read_bytes_iff)

lemmas cur_read_iffs = cur_u8.read_iff cur_u16.read_iff cur_u32.read_iff cur_u64.read_iff read_hex_iff

section \<open>The wire format of a command\<close>

text \<open>The layout the parser accepts, as a specification.\<close>

fun marker_layout :: "read_time_marker \<Rightarrow> bytes" where
  "marker_layout (Timestamp t) = [0] @ u64_to_be t"
| "marker_layout (BlockNumber n) = [1] @ u64_to_be n"

definition base_layout :: "u32 \<Rightarrow> read_time_marker \<Rightarrow> u16 \<Rightarrow> bytes \<Rightarrow> bytes" where
  "base_layout eid marker confirmation to =
     u32_to_be eid @ marker_layout marker @ u16_to_be confirmation @ to"

lemma length_marker_layout [simp]: "length (marker_layout m) = 9"
  by (cases m) auto

lemma length_base_layout: "length to = 20 \<Longrightarrow> length (base_layout e m k to) = 35"
  by (simp add: base_layout_def)


record wire_request =
  wr_label :: bytes
  wr_eid :: u32
  wr_marker :: read_time_marker
  wr_confirmation :: u16
  wr_to :: bytes
  wr_calldata :: bytes

record wire_compute =
  wc_setting :: evm_read_compute_setting
  wc_eid :: u32
  wc_marker :: read_time_marker
  wc_confirmation :: u16
  wc_to :: bytes

record wire_command =
  wire_label :: bytes
  wire_requests :: "wire_request list"
  wire_compute_part :: "wire_compute option"

definition wire_request_ok :: "wire_request \<Rightarrow> bool" where
  "wire_request_ok w \<longleftrightarrow>
     length (wr_label w) = 2 \<and> length (wr_to w) = 20 \<and> 35 + length (wr_calldata w) < 2 ^ 16"

definition wire_request_bytes :: "wire_request \<Rightarrow> bytes" where
  "wire_request_bytes w =
     [1] @ wr_label w @ u16_to_be 1 @ u16_to_be (word_of_nat (35 + length (wr_calldata w)))
     @ base_layout (wr_eid w) (wr_marker w) (wr_confirmation w) (wr_to w) @ wr_calldata w"

definition wire_request_view :: "external \<Rightarrow> wire_request \<Rightarrow> evm_read_request" where
  "wire_request_view X w =
     \<lparr> rr_request = hex0x X (wire_request_bytes w), rr_target_eid = wr_eid w,
       rr_marker = wr_marker w, rr_block_confirmation = wr_confirmation w,
       rr_to = hex0x X (wr_to w), rr_calldata = hex0x X (wr_calldata w) \<rparr>"

fun setting_byte :: "evm_read_compute_setting \<Rightarrow> byte" where
  "setting_byte OnlyMap = 0"
| "setting_byte OnlyReduce = 1"
| "setting_byte MapReduce = 2"

definition wire_compute_bytes :: "wire_compute \<Rightarrow> bytes" where
  "wire_compute_bytes w =
     [1] @ u16_to_be 1 @ [setting_byte (wc_setting w)]
     @ base_layout (wc_eid w) (wc_marker w) (wc_confirmation w) (wc_to w)"

definition wire_compute_view :: "external \<Rightarrow> wire_compute \<Rightarrow> evm_read_compute" where
  "wire_compute_view X w =
     \<lparr> rc_target_eid = wc_eid w, rc_marker = wc_marker w, rc_block_confirmation = wc_confirmation w,
       rc_to = hex0x X (wc_to w), rc_setting = wc_setting w \<rparr>"

definition wire_ok :: "wire_command \<Rightarrow> bool" where
  "wire_ok w \<longleftrightarrow>
     length (wire_label w) = 2 \<and> 1 \<le> length (wire_requests w) \<and> length (wire_requests w) \<le> 256 \<and>
     (\<forall>r \<in> set (wire_requests w). wire_request_ok r) \<and>
     (case wire_compute_part w of None \<Rightarrow> True | Some k \<Rightarrow> length (wc_to k) = 20)"

definition compute_bytes :: "wire_compute option \<Rightarrow> bytes" where
  "compute_bytes k = (case k of None \<Rightarrow> [] | Some w \<Rightarrow> wire_compute_bytes w)"

definition wire_bytes :: "wire_command \<Rightarrow> bytes" where
  "wire_bytes w =
     u16_to_be 1 @ wire_label w @ u16_to_be (word_of_nat (length (wire_requests w)))
     @ concat (map wire_request_bytes (wire_requests w)) @ compute_bytes (wire_compute_part w)"

definition wire_view :: "external \<Rightarrow> wire_command \<Rightarrow> evm_read_command" where
  "wire_view X w =
     \<lparr> cmd_global_version = 1, cmd_app_command_label = hex_encode X (wire_label w),
       cmd_requests = map (wire_request_view X) (wire_requests w),
       cmd_compute = map_option (wire_compute_view X) (wire_compute_part w) \<rparr>"

subsection \<open>The base of a request\<close>

lemma base_sound:
  assumes "cur_ok c" and d: "decode_evm_read_base X c = Inr ((e, m, k, t), c')"
  obtains to where "t = hex0x X to" "length to = 20" "c' = cur_skip 35 c"
    "cur_rest c = base_layout e m k to @ cur_rest c'" "cur_ok c'"
proof -
  from d obtain c1 flag c2 c3 c4 h where r1: "read_u32 c = Inr (e, c1)" and r2: "read_u8 c1 = Inr (flag, c2)"
    and r3: "(flag = 0 \<and> (\<exists>v. m = Timestamp v \<and> read_u64 c2 = Inr (v, c3))) \<or>
             (flag = 1 \<and> (\<exists>v. m = BlockNumber v \<and> read_u64 c2 = Inr (v, c3)))"
    and r4: "read_u16 c3 = Inr (k, c4)" and r5: "read_hex X c4 20 = Inr (h, c')" and t: "t = with_0x h"
    by (auto simp: decode_evm_read_base_def res_simps split: if_splits)
  have ok1: "cur_ok c1" using assms(1) r1 by (rule cur_u32.read_ok)
  then have ok2: "cur_ok c2" using r2 by (rule cur_u8.read_ok)
  then have ok3: "cur_ok c3" using r3 by (auto intro: cur_u64.read_ok)
  then have ok4: "cur_ok c4" using r4 by (rule cur_u16.read_ok)
  from r5 obtain to where to: "h = hex_encode X to" "length to = 20" "c' = cur_skip 20 c4"
    "cur_rest c4 = to @ cur_rest c'"
    using ok4 by (auto simp: read_hex_iff)
  have "c1 = cur_skip 4 c" "cur_rest c = u32_to_be e @ cur_rest c1"
    using r1 assms(1) by (auto simp: cur_u32.read_iff)
  moreover have "c2 = cur_skip 1 c1" "cur_rest c1 = [flag] @ cur_rest c2"
    using r2 ok1 by (auto simp: cur_u8.read_iff)
  moreover have "c3 = cur_skip 8 c2" "[flag] @ cur_rest c2 = marker_layout m @ cur_rest c3"
    using r3 ok2 by (auto simp: cur_u64.read_iff)
  moreover have "c4 = cur_skip 2 c3" "cur_rest c3 = u16_to_be k @ cur_rest c4"
    using r4 ok3 by (auto simp: cur_u16.read_iff)
  moreover have "cur_ok c'" using ok4 to by (simp add: cur_ok_skip)
  ultimately show ?thesis
    using to t by (intro that [of to]) (simp_all add: base_layout_def hex0x_def)
qed

lemma base_complete:
  assumes ok: "cur_ok c" and r: "cur_rest c = base_layout e m k to @ rest" and to: "length to = 20"
  shows "decode_evm_read_base X c = Inr ((e, m, k, hex0x X to), cur_skip 35 c)"
proof -
  have oks: "cur_ok (cur_skip n c)" if "n \<le> 35" for n
    using cur_ok_skip [OF ok, of n] r to that by (simp add: length_base_layout)
  have "read_u32 c = Inr (e, cur_skip 4 c)"
    using ok r by (simp add: cur_u32.read_iff cur_rest_skip base_layout_def)
  moreover have "read_u16 (cur_skip 13 c) = Inr (k, cur_skip 15 c)"
    using oks [of 13] r by (simp add: cur_u16.read_iff cur_rest_skip base_layout_def)
  moreover have "read_hex X (cur_skip 15 c) 20 = Inr (hex_encode X to, cur_skip 35 c)"
    using oks [of 15] r to by (simp add: read_hex_iff cur_rest_skip base_layout_def)
  moreover have "read_u8 (cur_skip 4 c) = Inr (case m of Timestamp _ \<Rightarrow> 0 | BlockNumber _ \<Rightarrow> 1, cur_skip 5 c)"
    using oks [of 4] r by (cases m) (simp_all add: cur_u8.read_iff [simplified] cur_rest_skip base_layout_def)
  moreover have "read_u64 (cur_skip 5 c) = Inr (case m of Timestamp v \<Rightarrow> v | BlockNumber v \<Rightarrow> v, cur_skip 13 c)"
    using oks [of 5] r by (cases m) (simp_all add: cur_u64.read_iff cur_rest_skip base_layout_def)
  ultimately show ?thesis
    by (cases m) (simp_all add: decode_evm_read_base_def hex0x_def)
qed


subsection \<open>Requests\<close>

lemma length_wire_request_bytes:
  "wire_request_ok w \<Longrightarrow> length (wire_request_bytes w) = 42 + length (wr_calldata w)"
  by (simp add: wire_request_ok_def wire_request_bytes_def length_base_layout)

lemma request_complete:
  assumes ok: "cur_ok c" and w: "wire_request_ok w" and r: "cur_rest c = wire_request_bytes w @ rest"
  shows "decode_evm_read_request X c = Inr (wire_request_view X w, cur_skip (length (wire_request_bytes w)) c)"
proof -
  let ?n = "length (wr_calldata w)"
  have len: "length (wr_label w) = 2" "length (wr_to w) = 20" "35 + ?n < 2 ^ 16"
    using w by (auto simp: wire_request_ok_def)
  have oks: "cur_ok (cur_skip n c)" if "n \<le> 42 + ?n" for n
    using cur_ok_skip [OF ok, of n] r that by (simp add: length_wire_request_bytes [OF w])
  have "read_u8 c = Inr (1, cur_skip 1 c)"
    using ok r by (simp add: cur_u8.read_iff [simplified] cur_rest_skip wire_request_bytes_def)
  moreover have "read_hex X (cur_skip 1 c) 2 = Inr (hex_encode X (wr_label w), cur_skip 3 c)"
    using oks [of 1] r len by (simp add: read_hex_iff cur_rest_skip wire_request_bytes_def)
  moreover have "read_u16 (cur_skip 3 c) = Inr (1, cur_skip 5 c)"
    using oks [of 3] r len by (simp add: cur_u16.read_iff cur_rest_skip wire_request_bytes_def)
  moreover have "read_u16 (cur_skip 5 c) = Inr (word_of_nat (35 + ?n), cur_skip 7 c)"
    using oks [of 5] r len
    by (simp add: cur_u16.read_iff cur_rest_skip wire_request_bytes_def del: of_nat_add)
  moreover have "decode_evm_read_base X (cur_skip 7 c) =
      Inr ((wr_eid w, wr_marker w, wr_confirmation w, hex0x X (wr_to w)), cur_skip 42 c)"
    using base_complete [OF oks [of 7], of "wr_eid w" "wr_marker w" "wr_confirmation w" "wr_to w"
        "wr_calldata w @ rest" X] r len
    by (simp add: cur_rest_skip wire_request_bytes_def del: of_nat_add)
  moreover have "read_hex X (cur_skip 42 c) ?n = Inr (hex_encode X (wr_calldata w), cur_skip (42 + ?n) c)"
  proof -
    have "cur_rest (cur_skip 42 c) = wr_calldata w @ rest"
      using r len by (simp add: cur_rest_skip wire_request_bytes_def length_base_layout del: of_nat_add)
    then have "cur_rest (cur_skip 42 c) = wr_calldata w @ cur_rest (cur_skip ?n (cur_skip 42 c))"
      unfolding cur_rest_skip [of ?n] by simp
    with oks [of 42] show ?thesis by (auto simp: read_hex_iff)
  qed
  moreover have "unat (word_of_nat (35 + ?n) :: u16) = 35 + ?n"
    using len(3) by (rule unat_of_small_nat)
  moreover have "slice (cur_offset c) (cur_offset c + (42 + ?n)) (cur_bytes c) = wire_request_bytes w"
    using r length_wire_request_bytes [OF w] by (simp add: slice_def cur_rest_def [symmetric])
  ultimately show ?thesis
    by (simp add: decode_evm_read_request_def wire_request_view_def length_wire_request_bytes [OF w]
        hex0x_def del: of_nat_add)
qed

lemma request_sound:
  assumes ok: "cur_ok c" and d: "decode_evm_read_request X c = Inr (r, c')"
  obtains w where "wire_request_ok w" "r = wire_request_view X w"
    "c' = cur_skip (length (wire_request_bytes w)) c" "cur_rest c = wire_request_bytes w @ cur_rest c'"
proof -
  from d obtain c1 h c2 c3 size c4 e m k t c5 h' where
    r1: "read_u8 c = Inr (1, c1)" and r2: "read_hex X c1 2 = Inr (h, c2)"
    and r3: "read_u16 c2 = Inr (1, c3)" and r4: "read_u16 c3 = Inr (size, c4)"
    and r5: "decode_evm_read_base X c4 = Inr ((e, m, k, t), c5)"
    and ge: "cur_offset c5 - cur_offset c4 \<le> unat size"
    and r6: "read_hex X c5 (unat size - (cur_offset c5 - cur_offset c4)) = Inr (h', c')"
    by (auto simp: decode_evm_read_request_def res_simps Let_def not_less split: if_splits)
  have ok1: "cur_ok c1" using ok r1 by (rule cur_u8.read_ok)
  from r2 ok1 obtain label where label: "length label = 2" "c2 = cur_skip 2 c1" "cur_rest c1 = label @ cur_rest c2"
    by (auto simp: read_hex_iff)
  have ok2: "cur_ok c2" using ok1 label by (simp add: cur_ok_skip)
  then have ok3: "cur_ok c3" using r3 by (rule cur_u16.read_ok)
  then have ok4: "cur_ok c4" using r4 by (rule cur_u16.read_ok)
  from base_sound [OF ok4 r5] obtain to where to: "length to = 20" "c5 = cur_skip 35 c4"
    "cur_rest c4 = base_layout e m k to @ cur_rest c5" "cur_ok c5" by metis
  from r6 to obtain cd where cd: "length cd = unat size - 35" "c' = cur_skip (unat size - 35) c5"
    "cur_rest c5 = cd @ cur_rest c'"
    by (auto simp: read_hex_iff)
  define w where "w = \<lparr> wr_label = label, wr_eid = e, wr_marker = m, wr_confirmation = k,
    wr_to = to, wr_calldata = cd \<rparr>"
  have size: "35 + length cd = unat size" using ge cd to by simp
  then have wok: "wire_request_ok w"
    using label to unat_be_bounds(1) [of size] by (simp add: w_def wire_request_ok_def)
  have "word_of_nat (35 + length cd) = size" by (simp only: size) simp
  then have rest: "cur_rest c = wire_request_bytes w @ cur_rest c'"
    using r1 r3 r4 ok ok2 ok3 label to cd
    by (simp add: cur_u8.read_iff [simplified] cur_u16.read_iff w_def wire_request_bytes_def)
  moreover have "decode_evm_read_request X c =
      Inr (wire_request_view X w, cur_skip (length (wire_request_bytes w)) c)"
    by (rule request_complete [OF ok wok rest])
  ultimately show ?thesis using d wok by (intro that) simp_all
qed

lemma requests_iff:
  assumes "cur_ok c"
  shows "decode_evm_read_requests X n c = Inr (rs, c') \<longleftrightarrow>
    (\<exists>ws. length ws = n \<and> (\<forall>w \<in> set ws. wire_request_ok w) \<and> rs = map (wire_request_view X) ws \<and>
       c' = cur_skip (length (concat (map wire_request_bytes ws))) c \<and>
       cur_rest c = concat (map wire_request_bytes ws) @ cur_rest c')"
  using assms
proof (induction n arbitrary: c rs)
  case 0
  then show ?case by auto
next
  case (Suc n)
  have ok': "cur_ok (cur_skip (length (wire_request_bytes w)) c)"
    if "cur_rest c = wire_request_bytes w @ x" for w x
    using cur_ok_skip [OF Suc.prems] that by simp
  show ?case
  proof
    assume "decode_evm_read_requests X (Suc n) c = Inr (rs, c')"
    then obtain r c1 rs' where r: "decode_evm_read_request X c = Inr (r, c1)"
      and tl: "decode_evm_read_requests X n c1 = Inr (rs', c')" and rs: "rs = r # rs'"
      by (auto simp: res_simps)
    from request_sound [OF Suc.prems r] obtain w where w: "wire_request_ok w" "r = wire_request_view X w"
      "c1 = cur_skip (length (wire_request_bytes w)) c" "cur_rest c = wire_request_bytes w @ cur_rest c1" .
    from Suc.IH [OF ok' [OF w(4)], of rs'] tl w(3) obtain ws where "length ws = n"
      "\<forall>w \<in> set ws. wire_request_ok w" "rs' = map (wire_request_view X) ws"
      "c' = cur_skip (length (concat (map wire_request_bytes ws))) c1"
      "cur_rest c1 = concat (map wire_request_bytes ws) @ cur_rest c'" by auto
    with w rs show "\<exists>ws. length ws = Suc n \<and> (\<forall>w \<in> set ws. wire_request_ok w) \<and>
        rs = map (wire_request_view X) ws \<and>
        c' = cur_skip (length (concat (map wire_request_bytes ws))) c \<and>
        cur_rest c = concat (map wire_request_bytes ws) @ cur_rest c'"
      by (intro exI [of _ "w # ws"]) simp
  next
    assume "\<exists>ws. length ws = Suc n \<and> (\<forall>w \<in> set ws. wire_request_ok w) \<and>
        rs = map (wire_request_view X) ws \<and>
        c' = cur_skip (length (concat (map wire_request_bytes ws))) c \<and>
        cur_rest c = concat (map wire_request_bytes ws) @ cur_rest c'"
    then obtain w ws where ws: "length ws = n" "wire_request_ok w" "\<forall>w \<in> set ws. wire_request_ok w"
      "rs = wire_request_view X w # map (wire_request_view X) ws"
      "c' = cur_skip (length (wire_request_bytes w) + length (concat (map wire_request_bytes ws))) c"
      "cur_rest c = wire_request_bytes w @ concat (map wire_request_bytes ws) @ cur_rest c'"
      by (auto simp: length_Suc_conv)
    let ?c1 = "cur_skip (length (wire_request_bytes w)) c"
    have "decode_evm_read_request X c = Inr (wire_request_view X w, ?c1)"
      by (rule request_complete [OF Suc.prems ws(2,6)])
    moreover have "decode_evm_read_requests X n ?c1 = Inr (map (wire_request_view X) ws, c')"
    proof -
      have "cur_rest ?c1 = concat (map wire_request_bytes ws) @ cur_rest c'"
        unfolding cur_rest_skip [of "length (wire_request_bytes w)"] by (simp only: ws(6)) simp
      then have "\<exists>vs. length vs = n \<and> (\<forall>w \<in> set vs. wire_request_ok w) \<and>
          map (wire_request_view X) ws = map (wire_request_view X) vs \<and>
          c' = cur_skip (length (concat (map wire_request_bytes vs))) ?c1 \<and>
          cur_rest ?c1 = concat (map wire_request_bytes vs) @ cur_rest c'"
        using ws(1,3,5) by (intro exI [of _ ws]) simp
      then show ?thesis unfolding Suc.IH [OF ok' [OF ws(6)]] .
    qed
    ultimately show "decode_evm_read_requests X (Suc n) c = Inr (rs, c')"
      using ws by simp
  qed
qed


subsection \<open>The compute part and the whole command\<close>

lemma setting_of_byte:
  "(if raw = 0 then Inr OnlyMap else if raw = 1 then Inr OnlyReduce
    else if raw = 2 then Inr MapReduce else Inl e) = Inr s \<longleftrightarrow> raw = setting_byte s"
  by (cases s) auto

lemma length_wire_compute_bytes: "length (wc_to w) = 20 \<Longrightarrow> length (wire_compute_bytes w) = 39"
  by (simp add: wire_compute_bytes_def length_base_layout)

lemma compute_iff:
  assumes ok: "cur_ok c"
  shows "decode_evm_read_compute X c = Inr (k, c') \<longleftrightarrow>
    (\<exists>w. length (wc_to w) = 20 \<and> k = wire_compute_view X w \<and> c' = cur_skip 39 c \<and>
       cur_rest c = wire_compute_bytes w @ cur_rest c')" (is "?L \<longleftrightarrow> ?R")
proof
  assume ?L
  then obtain c1 c2 raw c3 s e m b t where
    r1: "read_u8 c = Inr (1, c1)" and r2: "read_u16 c1 = Inr (1, c2)"
    and r3: "read_u8 c2 = Inr (raw, c3)" and raw: "raw = setting_byte s"
    and r4: "decode_evm_read_base X c3 = Inr ((e, m, b, t), c')"
    and k: "k = \<lparr> rc_target_eid = e, rc_marker = m, rc_block_confirmation = b, rc_to = t, rc_setting = s \<rparr>"
    by (auto simp: decode_evm_read_compute_def res_simps setting_of_byte split: if_splits)
  have ok1: "cur_ok c1" using ok r1 by (rule cur_u8.read_ok)
  then have ok2: "cur_ok c2" using r2 by (rule cur_u16.read_ok)
  then have ok3: "cur_ok c3" using r3 by (rule cur_u8.read_ok)
  from base_sound [OF ok3 r4] obtain to where to: "t = hex0x X to" "length to = 20" "c' = cur_skip 35 c3"
    "cur_rest c3 = base_layout e m b to @ cur_rest c'" by metis
  let ?w = "\<lparr> wc_setting = s, wc_eid = e, wc_marker = m, wc_confirmation = b, wc_to = to \<rparr>"
  have "c1 = cur_skip 1 c" "cur_rest c = [1] @ cur_rest c1"
    using r1 ok by (auto simp: cur_u8.read_iff)
  moreover have "c2 = cur_skip 2 c1" "cur_rest c1 = u16_to_be 1 @ cur_rest c2"
    using r2 ok1 by (auto simp: cur_u16.read_iff)
  moreover have "c3 = cur_skip 1 c2" "cur_rest c2 = [setting_byte s] @ cur_rest c3"
    using r3 ok2 raw by (auto simp: cur_u8.read_iff)
  ultimately show ?R
    using to k by (intro exI [of _ ?w]) (simp add: wire_compute_view_def wire_compute_bytes_def)
next
  assume ?R
  then obtain w where w: "length (wc_to w) = 20" "k = wire_compute_view X w" "c' = cur_skip 39 c"
    and r: "cur_rest c = wire_compute_bytes w @ cur_rest c'" by auto
  have oks: "cur_ok (cur_skip n c)" if "n \<le> 39" for n
    using cur_ok_skip [OF ok, of n] r w that by (simp add: length_wire_compute_bytes)
  have rest: "cur_rest (cur_skip 1 c) = u16_to_be 1 @ cur_rest (cur_skip 3 c)"
    "cur_rest (cur_skip 3 c) = [setting_byte (wc_setting w)] @ cur_rest (cur_skip 4 c)"
    "cur_rest (cur_skip 4 c) = base_layout (wc_eid w) (wc_marker w) (wc_confirmation w) (wc_to w) @ cur_rest c'"
    unfolding cur_rest_skip [of _ c] by (subst r, simp add: wire_compute_bytes_def)+
  have "read_u8 c = Inr (1, cur_skip 1 c)"
    unfolding cur_u8.read_iff [OF ok] cur_rest_skip by (subst (1 2) r) (simp add: wire_compute_bytes_def)
  moreover have "read_u16 (cur_skip 1 c) = Inr (1, cur_skip 3 c)"
    using oks [of 1] rest by (simp add: cur_u16.read_iff)
  moreover have "read_u8 (cur_skip 3 c) = Inr (setting_byte (wc_setting w), cur_skip 4 c)"
    using oks [of 3] rest by (simp add: cur_u8.read_iff [simplified])
  moreover have "decode_evm_read_base X (cur_skip 4 c) =
      Inr ((wc_eid w, wc_marker w, wc_confirmation w, hex0x X (wc_to w)), c')"
    using base_complete [OF oks [of 4] rest(3) w(1), of X] w(3) by simp
  ultimately show ?L
    using w(2) by (cases "wc_setting w") (simp_all add: decode_evm_read_compute_def wire_compute_view_def)
qed


definition compute_tail ::
    "external \<Rightarrow> read_cursor \<Rightarrow> (evm_read_compute option \<times> read_cursor) res" where
  "compute_tail X c =
     (if 0 < cursor_remaining c
      then and_then (decode_evm_read_compute X c) (\<lambda>(k, c'). Inr (Some k, c'))
      else Inr (None, c))"

lemma compute_tail_iff:
  assumes ok: "cur_ok c"
  shows "(\<exists>c'. compute_tail X c = Inr (k, c') \<and> cursor_remaining c' = 0) \<longleftrightarrow>
    (\<exists>w. (case w of None \<Rightarrow> True | Some v \<Rightarrow> length (wc_to v) = 20) \<and>
       k = map_option (wire_compute_view X) w \<and> cur_rest c = compute_bytes w)" (is "?L \<longleftrightarrow> ?R")
proof (cases "0 < cursor_remaining c")
  case True
  then have ne: "cur_rest c \<noteq> []" by (auto simp: cur_remaining_rest)
  have "?L \<longleftrightarrow> (\<exists>v c'. length (wc_to v) = 20 \<and> k = Some (wire_compute_view X v) \<and>
      c' = cur_skip 39 c \<and> cur_rest c = wire_compute_bytes v @ cur_rest c' \<and> cur_rest c' = [])"
    using True by (auto simp: compute_tail_def res_simps compute_iff [OF ok] cur_remaining_rest)
  also have "\<dots> \<longleftrightarrow> (\<exists>v. length (wc_to v) = 20 \<and> k = Some (wire_compute_view X v) \<and>
      cur_rest c = wire_compute_bytes v)"
    by (auto simp: cur_rest_skip length_wire_compute_bytes)
  also have "\<dots> \<longleftrightarrow> ?R"
    using ne by (auto simp: compute_bytes_def split: option.splits)
  finally show ?thesis .
next
  case False
  then have "cur_rest c = []" by (simp add: cur_remaining_rest)
  moreover have "[] \<noteq> wire_compute_bytes v" for v by (simp add: wire_compute_bytes_def)
  ultimately show ?thesis
    using False by (auto simp: compute_tail_def compute_bytes_def cur_remaining_rest split: option.splits)
qed

lemma command_head_iff:
  assumes ok0: "cur_ok c0"
  shows "read_u16 c0 = Inr (1, c1) \<and> read_hex X c1 2 = Inr (h, c2) \<and> read_u16 c2 = Inr (count, c3) \<longleftrightarrow>
      c1 = cur_skip 2 c0 \<and> c2 = cur_skip 4 c0 \<and> c3 = cur_skip 6 c0 \<and>
      (\<exists>label. h = hex_encode X label \<and> length label = 2 \<and>
         cur_rest c0 = u16_to_be 1 @ label @ u16_to_be count @ cur_rest c3)" (is "?A \<longleftrightarrow> ?B")
proof
  assume a: ?A
  then have ok1: "cur_ok c1" using ok0 cur_u16.read_ok by blast
  with a have ok2: "cur_ok c2" by (auto simp: read_hex_iff cur_ok_skip)
  from a ok0 ok1 ok2 show ?B by (auto simp: cur_u16.read_iff read_hex_iff)
next
  assume b: ?B
  then obtain label where l: "h = hex_encode X label" "length label = 2"
    "cur_rest c0 = u16_to_be 1 @ label @ u16_to_be count @ cur_rest (cur_skip 6 c0)" by auto
  have "cur_ok (cur_skip 2 c0)" "cur_ok (cur_skip 4 c0)"
    using l(2,3) by (auto intro!: cur_ok_skip [OF ok0])
  moreover have "cur_rest (cur_skip 2 c0) = label @ u16_to_be count @ cur_rest (cur_skip 6 c0)"
    "cur_rest (cur_skip 4 c0) = u16_to_be count @ cur_rest (cur_skip 6 c0)"
    unfolding cur_rest_skip [of 2 c0] cur_rest_skip [of 4 c0] l(3) by (simp_all add: l(2))
  ultimately show ?A
    using b l ok0 by (auto simp: cur_u16.read_iff read_hex_iff)
qed

lemma decode_command_iff:
  assumes bs: "decode_hex_bytes X cmd = Inr bs" and size: "length bs < 2 ^ 63"
  shows "decode_evm_read_command X cmd = Inr c \<longleftrightarrow>
    (\<exists>label count rs k c4 c5. length label = 2 \<and>
       bs = u16_to_be 1 @ label @ u16_to_be count @ cur_rest (cur_skip 6 (cursor_new bs)) \<and>
       count \<le> 256 \<and> count \<noteq> 0 \<and>
       decode_evm_read_requests X (unat count) (cur_skip 6 (cursor_new bs)) = Inr (rs, c4) \<and>
       compute_tail X c4 = Inr (k, c5) \<and> cursor_remaining c5 = 0 \<and>
       c = \<lparr> cmd_global_version = 1, cmd_app_command_label = hex_encode X label,
             cmd_requests = rs, cmd_compute = k \<rparr>)" (is "?L \<longleftrightarrow> ?R")
proof -
  let ?c0 = "cursor_new bs"
  have ok0: "cur_ok ?c0" and rest0: "cur_rest ?c0 = bs" using size by simp_all
  have "?L \<longleftrightarrow> (\<exists>c1 h c2 count c3 rs k c4 c5.
      (read_u16 ?c0 = Inr (1, c1) \<and> read_hex X c1 2 = Inr (h, c2) \<and> read_u16 c2 = Inr (count, c3)) \<and>
      count \<le> 256 \<and> count \<noteq> 0 \<and> decode_evm_read_requests X (unat count) c3 = Inr (rs, c4) \<and>
      compute_tail X c4 = Inr (k, c5) \<and> cursor_remaining c5 = 0 \<and>
      c = \<lparr> cmd_global_version = 1, cmd_app_command_label = h, cmd_requests = rs, cmd_compute = k \<rparr>)"
    unfolding decode_evm_read_command_def compute_tail_def [symmetric] bs
  proof (rule iffI, goal_cases)
    case 1
    then show ?case by (auto simp: res_simps MAX_READ_REQUESTS_def not_less split: if_splits)
  next
    case 2
    then show ?case by (elim exE conjE) (simp add: MAX_READ_REQUESTS_def not_less)
  qed
  also have "\<dots> \<longleftrightarrow> ?R" unfolding command_head_iff [OF ok0] rest0 by blast
  finally show ?thesis .
qed

lemma decode_command_sound:
  assumes bs: "decode_hex_bytes X cmd = Inr bs" and size: "length bs < 2 ^ 63"
    and dec: "decode_evm_read_command X cmd = Inr c"
  shows "\<exists>w. wire_ok w \<and> bs = wire_bytes w \<and> c = wire_view X w"
proof -
  let ?c3 = "cur_skip 6 (cursor_new bs)"
  from dec obtain label count rs k c4 c5 where label: "length label = 2"
    and split: "bs = u16_to_be 1 @ label @ u16_to_be count @ cur_rest ?c3"
    and count: "count \<le> 256" "count \<noteq> 0"
    and rs: "decode_evm_read_requests X (unat count) ?c3 = Inr (rs, c4)"
    and k: "compute_tail X c4 = Inr (k, c5)" "cursor_remaining c5 = 0"
    and c: "c = \<lparr> cmd_global_version = 1, cmd_app_command_label = hex_encode X label,
             cmd_requests = rs, cmd_compute = k \<rparr>"
    unfolding decode_command_iff [OF bs size] by blast
  have ok3: "cur_ok ?c3"
    using size label arg_cong [OF split, of length] by (intro cur_ok_skip) simp_all
  from rs obtain ws where ws: "length ws = unat count" "\<forall>w \<in> set ws. wire_request_ok w"
    "rs = map (wire_request_view X) ws" "c4 = cur_skip (length (concat (map wire_request_bytes ws))) ?c3"
    "cur_rest ?c3 = concat (map wire_request_bytes ws) @ cur_rest c4"
    by (auto simp: requests_iff [OF ok3])
  have "cur_ok c4" using cur_ok_skip [OF ok3] ws(4,5) by simp
  from k compute_tail_iff [OF this, of X k] obtain v
    where v: "case v of None \<Rightarrow> True | Some v \<Rightarrow> length (wc_to v) = 20"
      "k = map_option (wire_compute_view X) v" "cur_rest c4 = compute_bytes v" by auto
  let ?w = "\<lparr> wire_label = label, wire_requests = ws, wire_compute_part = v \<rparr>"
  have "1 \<le> unat count" "unat count \<le> 256"
    using count by (auto simp: word_le_nat_alt Suc_le_eq unat_gt_0)
  then have "wire_ok ?w" using label ws v by (simp add: wire_ok_def)
  moreover have "bs = wire_bytes ?w"
    using split ws v by (simp add: wire_bytes_def)
  moreover have "c = wire_view X ?w" using c ws v by (simp add: wire_view_def)
  ultimately show ?thesis by blast
qed

lemma decode_command_complete:
  assumes bs: "decode_hex_bytes X cmd = Inr bs" and size: "length bs < 2 ^ 63"
    and w: "wire_ok w" "bs = wire_bytes w" "c = wire_view X w"
  shows "decode_evm_read_command X cmd = Inr c"
proof -
  let ?c3 = "cur_skip 6 (cursor_new bs)" and ?n = "length (wire_requests w)"
  let ?body = "concat (map wire_request_bytes (wire_requests w))"
  have label: "length (wire_label w) = 2" and n: "1 \<le> ?n" "?n \<le> 256"
    using w(1) by (auto simp: wire_ok_def)
  have cnt: "unat (word_of_nat ?n :: u16) = ?n" using n by (intro unat_of_small_nat) simp
  have rest3: "cur_rest ?c3 = ?body @ compute_bytes (wire_compute_part w)"
    using label w(2) by (simp add: cur_rest_skip wire_bytes_def)
  have ok3: "cur_ok ?c3"
    using size w(2) label by (intro cur_ok_skip) (simp_all add: wire_bytes_def)
  let ?c4 = "cur_skip (length ?body) ?c3"
  have rest4: "cur_rest ?c4 = compute_bytes (wire_compute_part w)"
    unfolding cur_rest_skip [of _ ?c3] rest3 by simp
  have ok4: "cur_ok ?c4" using cur_ok_skip [OF ok3, of "length ?body"] rest3 by simp
  have "decode_evm_read_requests X ?n ?c3 = Inr (map (wire_request_view X) (wire_requests w), ?c4)"
    using w(1) rest3 rest4 unfolding requests_iff [OF ok3]
    by (intro exI [of _ "wire_requests w"]) (simp add: wire_ok_def)
  moreover have "\<exists>c5. compute_tail X ?c4 =
      Inr (map_option (wire_compute_view X) (wire_compute_part w), c5) \<and> cursor_remaining c5 = 0"
    unfolding compute_tail_iff [OF ok4] using w(1) rest4 by (auto simp: wire_ok_def)
  moreover have "bs = u16_to_be 1 @ wire_label w @ u16_to_be (word_of_nat ?n) @ cur_rest ?c3"
    unfolding rest3 using w(2) by (simp add: wire_bytes_def)
  moreover have "(word_of_nat ?n :: u16) \<le> 256" "(word_of_nat ?n :: u16) \<noteq> 0"
    using n cnt by (auto simp: word_le_nat_alt) 
  ultimately show ?thesis
    unfolding decode_command_iff [OF bs size] using label cnt w(3) by (fastforce simp: wire_view_def)
qed

lemma decode_wire_bytes:
  assumes "hex_ok X" "wire_ok w" "length (wire_bytes w) < 2 ^ 63"
  shows "decode_evm_read_command X (hex0x X (wire_bytes w)) = Inr (wire_view X w)"
  by (rule decode_command_complete [OF decode_hex_bytes_hex0x [OF assms(1)] assms(3,2) refl refl])

text \<open>
  C15: the ReadV1002 parser accepts exactly the wire format. A byte string (of a size a Rust vector
  can have) decodes to a command if and only if it is the layout of a well-formed command with 1 to
  256 requests and an optional compute part, nothing left over; the decoded fields and the raw
  bytes of each request are then the ones of that layout.
\<close>

theorem read_command_accepts_exactly:
  assumes bs: "decode_hex_bytes X cmd = Inr bs" and size: "length bs < 2 ^ 63"
  shows "decode_evm_read_command X cmd = Inr c \<longleftrightarrow>
    (\<exists>w. wire_ok w \<and> bs = wire_bytes w \<and> c = wire_view X w)"
  using decode_command_sound [OF bs size] decode_command_complete [OF bs size] by blast

definition sample_wire :: wire_command where
  "sample_wire =
     \<lparr> wire_label = [0, 9],
       wire_requests =
         [\<lparr> wr_label = [0, 1], wr_eid = 30101, wr_marker = Timestamp 7, wr_confirmation = 15,
            wr_to = replicate 20 2, wr_calldata = [222, 173] \<rparr>,
          \<lparr> wr_label = [0, 2], wr_eid = 30101, wr_marker = Timestamp 7, wr_confirmation = 15,
            wr_to = replicate 20 4, wr_calldata = [] \<rparr>],
       wire_compute_part =
         Some \<lparr> wc_setting = MapReduce, wc_eid = 30102, wc_marker = BlockNumber 5,
                wc_confirmation = 20, wc_to = replicate 20 3 \<rparr> \<rparr>"

lemma sample_wire_ok: "wire_ok sample_wire"
  by (simp add: sample_wire_def wire_ok_def wire_request_ok_def)

lemma sample_wire_size: "length (wire_bytes sample_wire) < 2 ^ 63"
  by (simp add: sample_wire_def wire_bytes_def wire_request_bytes_def wire_compute_bytes_def
      compute_bytes_def base_layout_def)

theorem read_command_accepts_exactly_witness:
  "decode_evm_read_command ref_external (hex0x ref_external (wire_bytes sample_wire)) =
     Inr (wire_view ref_external sample_wire)"
  using read_command_accepts_exactly [OF decode_hex_bytes_hex0x [OF ref_external_hex_ok] sample_wire_size,
      of "wire_view ref_external sample_wire"] sample_wire_ok by blast

section \<open>Laws of the time markers\<close>

lemma push_unique_set: "set (push_unique_read_marker ms m) = insert m (set ms)"
  by (auto simp: push_unique_read_marker_def)

lemma push_unique_distinct: "distinct (push_unique_read_marker ms m) \<longleftrightarrow> distinct ms"
  by (auto simp: push_unique_read_marker_def)

lemma push_all_markers:
  "set (foldl (\<lambda>ms r. push_unique_read_marker ms (request_marker r)) ms rs) =
     set ms \<union> request_marker ` set rs"
  "distinct (foldl (\<lambda>ms r. push_unique_read_marker ms (request_marker r)) ms rs) \<longleftrightarrow> distinct ms"
  by (induction rs arbitrary: ms) (auto simp: push_unique_set push_unique_distinct)

text \<open>The markers a command mentions, read off the command itself.\<close>

definition command_markers :: "evm_read_command \<Rightarrow> read_resolved_time_marker set" where
  "command_markers c = request_marker ` set (cmd_requests c) \<union> compute_marker ` set_option (cmd_compute c)"

lemma extract_markers_iff:
  assumes "decode_evm_read_command X cmd = Inr c"
  shows "(\<exists>ms. extract_evm_read_resolved_time_markers X cmd =
      (if \<exists>m \<in> command_markers c. rm_marker m = BlockNumber 0
       then Inl (BadRequest ''Malformed command: Block number cannot be zero!'') else Inr ms) \<and>
      distinct ms \<and> set ms = command_markers c)"
proof (cases "cmd_compute c")
  case None
  show ?thesis
    using assms push_all_markers [of "[]" "cmd_requests c"]
    by (intro exI [of _ "foldl (\<lambda>ms r. push_unique_read_marker ms (request_marker r)) [] (cmd_requests c)"])
      (simp add: None extract_evm_read_resolved_time_markers_def command_markers_def malformed_def Let_def)
next
  case (Some k)
  show ?thesis
    using assms push_all_markers [of "[]" "cmd_requests c"]
    by (intro exI [of _ "push_unique_read_marker (foldl (\<lambda>ms r. push_unique_read_marker ms (request_marker r)) []
          (cmd_requests c)) (compute_marker k)"])
      (simp add: Some extract_evm_read_resolved_time_markers_def command_markers_def malformed_def Let_def
        push_unique_set push_unique_distinct)
qed

text \<open>
  The time markers to resolve are exactly the ones the command mentions, each once. For every
  command that decodes, extraction returns a duplicate-free list whose set is the set of the
  markers of the requests and of the compute part, unless one of them is block number zero, and
  then it is refused as malformed.
\<close>

theorem read_markers_exact:
  assumes "decode_evm_read_command X cmd = Inr c"
  shows "if BlockNumber 0 \<in> rm_marker ` command_markers c
    then extract_evm_read_resolved_time_markers X cmd =
      Inl (BadRequest ''Malformed command: Block number cannot be zero!'')
    else \<exists>ms. extract_evm_read_resolved_time_markers X cmd = Inr ms \<and> distinct ms \<and>
      set ms = command_markers c"
  using extract_markers_iff [OF assms] by (auto simp: image_iff split: if_splits)

theorem read_markers_exact_witness:
  "\<exists>ms. extract_evm_read_resolved_time_markers ref_external
      (hex0x ref_external (wire_bytes sample_wire)) = Inr ms \<and> distinct ms \<and> length ms = 2"
proof -
  let ?c = "wire_view ref_external sample_wire"
  have "decode_evm_read_command ref_external (hex0x ref_external (wire_bytes sample_wire)) = Inr ?c"
    using decode_wire_bytes [OF ref_external_hex_ok sample_wire_ok sample_wire_size] .
  from read_markers_exact [OF this]
  have "\<exists>ms. extract_evm_read_resolved_time_markers ref_external
      (hex0x ref_external (wire_bytes sample_wire)) = Inr ms \<and> distinct ms \<and>
      set ms = command_markers ?c"
    by (simp add: command_markers_def sample_wire_def wire_view_def wire_request_view_def
        wire_compute_view_def request_marker_def compute_marker_def)
  moreover have "card (command_markers ?c) = 2"
    by (simp add: command_markers_def sample_wire_def wire_view_def wire_request_view_def
        wire_compute_view_def request_marker_def compute_marker_def)
  ultimately show ?thesis by (metis distinct_card)
qed

end
