(* ===== verification/Evm_Builders.thy ===== *)
theory Evm_Builders
  imports Read_Command
begin

text \<open>
  \<^verbatim>\<open>pillar-layerzero/src/evm.rs\<close>, \<^verbatim>\<open>evm_v2.rs\<close>, \<^verbatim>\<open>evm_v3.rs\<close>, \<^verbatim>\<open>read_v1002.rs\<close> and
  \<^verbatim>\<open>abi/details.rs\<close>: the EVM payload builder, which chooses the receive contract, encodes the ULN
  call, packs it for the DVN and hashes the packing. That hash is what the wallets sign. The
  builder's contract (the digest is the hash of the packing of a plan) is the locale
  \<open>digest_builder\<close>.
\<close>

section \<open>Contracts and versions (evm.rs, types.rs)\<close>

record evm_receive_contracts =
  endpoint_v2 :: string
  endpoint_v1 :: "string option"
  uln_v2 :: string
  receive_uln_301 :: string
  receive_uln_301_view :: string
  receive_uln_302 :: string
  receive_uln_302_view :: string
  read_lib_1002 :: "string option"
  read_lib_1002_view :: "string option"
  send_uln_302 :: "string option"
  send_uln_301 :: "string option"
  simple_message_lib :: "string option"

type_synonym evm_uln_payload_builder = "string \<rightharpoonup> evm_receive_contracts"

definition RECEIVE_ULN_301_ADDRESS :: string where
  "RECEIVE_ULN_301_ADDRESS = ''ReceiveUln301''"
definition RECEIVE_ULN_302_ADDRESS :: string where
  "RECEIVE_ULN_302_ADDRESS = ''ReceiveUln302''"
definition READ_LIB_1002_ADDRESS :: string where
  "READ_LIB_1002_ADDRESS = ''ReadLib1002''"

definition evm_receive_version_from_dst_eid :: "u64 \<Rightarrow> string \<Rightarrow> string" where
  "evm_receive_version_from_dst_eid dst_eid send_version =
     (if send_version = ULN_VERSION_READ_V1002 then ULN_VERSION_READ_V1002
      else if dst_eid < 30000 then ULN_VERSION_V301
      else ULN_VERSION_V302)"

definition evm_receive_contract_for_uln_version :: "string \<Rightarrow> string res" where
  "evm_receive_contract_for_uln_version uln_version =
     (if uln_version = ULN_VERSION_V301 then Inr RECEIVE_ULN_301_ADDRESS
      else if uln_version = ULN_VERSION_V302 then Inr RECEIVE_ULN_302_ADDRESS
      else if uln_version = ULN_VERSION_READ_V1002 then Inr READ_LIB_1002_ADDRESS
      else Inl (Internal ''Unsupported UlnVersion''))"

definition library_matches :: "string \<Rightarrow> string \<Rightarrow> bool" where
  "library_matches address candidate \<longleftrightarrow>
     candidate \<noteq> [] \<and> eq_ignore_ascii_case (trim_start_0x candidate) address"

definition optional_matches :: "string \<Rightarrow> string option \<Rightarrow> bool" where
  "optional_matches address candidate =
     (case candidate of None \<Rightarrow> False | Some c \<Rightarrow> library_matches address c)"

definition evm_uln_version_from_receive_library ::
    "evm_receive_contracts \<Rightarrow> string \<Rightarrow> string option" where
  "evm_uln_version_from_receive_library contracts address =
     (let address = trim_start_0x address in
      if library_matches address (receive_uln_302 contracts) then Some ULN_VERSION_V302
      else if library_matches address (receive_uln_301 contracts) then Some ULN_VERSION_V301
      else if optional_matches address (read_lib_1002 contracts) then Some ULN_VERSION_READ_V1002
      else None)"

definition evm_uln_version_for_receive_routing ::
    "evm_receive_contracts \<Rightarrow> string \<Rightarrow> string option" where
  "evm_uln_version_for_receive_routing contracts address =
     (let address = trim_start_0x address in
      if optional_matches address (send_uln_302 contracts) then Some ULN_VERSION_V302
      else if optional_matches address (send_uln_301 contracts) then Some ULN_VERSION_V301
      else if optional_matches address (simple_message_lib contracts) then Some ULN_VERSION_V300
      else evm_uln_version_from_receive_library contracts address)"

section \<open>DVN call data (evm.rs)\<close>

definition no_receive_contracts :: "string \<Rightarrow> app_core_error" where
  "no_receive_contracts chain = Internal (''No EVM receive contracts for '' @ chain)"

definition receive_target :: "evm_receive_contracts \<Rightarrow> string \<Rightarrow> string \<Rightarrow> string res" where
  "receive_target contracts chain version =
     (if version = ULN_VERSION_V301 then
        if receive_uln_301 contracts = []
        then Inl (Internal (''No ReceiveUln301 contract for '' @ chain))
        else Inr (receive_uln_301 contracts)
      else if version = ULN_VERSION_V302 then Inr (receive_uln_302 contracts)
      else if version = ULN_VERSION_READ_V1002 then
        ok_or (Internal (''No ReadLib1002 receive contract for '' @ chain)) (read_lib_1002 contracts)
      else Inl (Internal ''Unsupported UlnVersion''))"

definition build_dvn_call_data ::
    "external \<Rightarrow> evm_uln_payload_builder \<Rightarrow> lz_sent_event \<Rightarrow> int \<Rightarrow> string \<Rightarrow> string \<Rightarrow> json
     \<Rightarrow> hash_call_data_result res" where
  "build_dvn_call_data X contracts_by_chain ev expiration v_id uln_call_data details =
     and_then (u64_from_i64 expiration ''expiration'') (\<lambda>expiration.
       let chain = dst_chain_name (ev_pathway ev) in
     and_then (ok_or (no_receive_contracts chain) (contracts_by_chain chain)) (\<lambda>contracts.
     and_then (extra_u64 ev ''dstEid'') (\<lambda>dst_eid.
     and_then (uln_send_version_string (uln_send_version (ev_lz_message_id ev))) (\<lambda>version.
     and_then (receive_target contracts chain (evm_receive_version_from_dst_eid dst_eid version)) (\<lambda>target.
       build_evm_dvn_call_data_result X target uln_call_data expiration v_id details)))))"

definition build_uln_v2_dvn_call_data ::
    "external \<Rightarrow> evm_uln_payload_builder \<Rightarrow> lz_sent_event \<Rightarrow> int \<Rightarrow> string \<Rightarrow> string \<Rightarrow> json
     \<Rightarrow> hash_call_data_result res" where
  "build_uln_v2_dvn_call_data X contracts_by_chain ev expiration v_id uln_call_data details =
     and_then (u64_from_i64 expiration ''expiration'') (\<lambda>expiration.
       let chain = dst_chain_name (ev_pathway ev) in
     and_then (ok_or (no_receive_contracts chain) (contracts_by_chain chain)) (\<lambda>contracts.
       build_evm_dvn_call_data_result X (uln_v2 contracts) uln_call_data expiration v_id details))"

definition uln_v2_contract_for_chain :: "evm_uln_payload_builder \<Rightarrow> string \<Rightarrow> string option" where
  "uln_v2_contract_for_chain contracts_by_chain chain =
     (case contracts_by_chain chain of
        None \<Rightarrow> None
      | Some contracts \<Rightarrow> if uln_v2 contracts = [] then None else Some (uln_v2 contracts))"

section \<open>Details (abi/details.rs)\<close>

text \<open>An \<open>i64\<close> as a JSON number.\<close>

definition json_i64 :: "int \<Rightarrow> json" where
  "json_i64 n = JNumber (if 0 \<le> n then PosInt (word_of_int n) else NegInt n)"

definition im_extend :: "(string \<times> 'v) list \<Rightarrow> (string \<times> 'v) list \<Rightarrow> (string \<times> 'v) list" where
  "im_extend m kvs = foldl (\<lambda>acc (k, v). im_insert k v acc) m kvs"

text \<open>The serialised message id: the extra members of the pathway are flattened into its object.\<close>

definition pathway_id_value :: "pathway_id \<Rightarrow> json" where
  "pathway_id_value p =
     JObject (im_extend [(''srcChainName'', JString (src_chain_name p)),
                         (''dstChainName'', JString (dst_chain_name p))] (pathway_extra p))"

definition lz_message_id_value :: "lz_message_id \<Rightarrow> json" where
  "lz_message_id_value m =
     JObject [(''pathwayId'', pathway_id_value (msg_pathway_id m)),
              (''nonce'', JNumber (PosInt (msg_nonce m))),
              (''ulnSendVersion'', uln_send_version m)]"

definition object_fields :: "json \<Rightarrow> (string \<times> json) list" where
  "object_fields v = (case v of JObject members \<Rightarrow> members | _ \<Rightarrow> [])"

definition event_proof_json :: "lz_sent_event \<Rightarrow> (string \<times> json) list" where
  "event_proof_json ev =
     [(''payload'', JString (ev_message ev)), (''lzMessageId'', lz_message_id_value (ev_lz_message_id ev))]"

definition proof_details :: "string \<Rightarrow> lz_sent_event \<Rightarrow> evm_uln_proof \<Rightarrow> json \<Rightarrow> (string \<times> json) list" where
  "proof_details method_name ev proof extra =
     [(''ulnCallData'', JObject (im_extend
         [(''methodName'', JString method_name),
          (''proof'', JObject [(''packetHeader'', JString (packet_header proof)),
                               (''payloadHash'', JString (payload_hash proof))])] (object_fields extra))),
      (''proof'', JObject (event_proof_json ev))]"

definition uln_v2_proof_details ::
    "string \<Rightarrow> lz_sent_event \<Rightarrow> uln_v2_hash_info \<Rightarrow> json \<Rightarrow> (string \<times> json) list" where
  "uln_v2_proof_details method_name ev info extra =
     [(''ulnCallData'', JObject (im_extend
         [(''methodName'', JString method_name),
          (''proof'', JObject [(''lookupHash'', JString (lookup_hash info)),
                               (''blockData'', JString (block_data info))])] (object_fields extra))),
      (''proof'', JObject (event_proof_json ev))]"

section \<open>ULN V2 (evm_v2.rs)\<close>

definition build_evm_uln_v2_verify_call_data ::
    "external \<Rightarrow> u64 \<Rightarrow> uln_v2_hash_info \<Rightarrow> int \<Rightarrow> string res" where
  "build_evm_uln_v2_verify_call_data X src_eid info block_confirmation =
     and_then (u64_from_i64 block_confirmation ''blockConfirmation'') (\<lambda>confirmations.
     and_then (decode_hex_32 X (lookup_hash info)) (\<lambda>lookup.
     and_then (decode_hex_32 X (block_data info)) (\<lambda>data.
       Inr (hex0x X (function_selector X ''updateHash(uint16,bytes32,uint256,bytes32)''
                     @ solidity_uint256 src_eid @ lookup @ solidity_uint256 confirmations @ data)))))"

definition build_uln_v2_verify_payload_from_hash_info ::
    "external \<Rightarrow> evm_uln_payload_builder \<Rightarrow> lz_sent_event \<Rightarrow> uln_v2_hash_info \<Rightarrow> int \<Rightarrow> int \<Rightarrow> string
     \<Rightarrow> hash_call_data_result res" where
  "build_uln_v2_verify_payload_from_hash_info X contracts ev info block_confirmation expiration v_id =
     and_then (extra_u64 ev ''srcEid'') (\<lambda>src_eid.
     and_then (build_evm_uln_v2_verify_call_data X src_eid info block_confirmation) (\<lambda>call_data.
       build_uln_v2_dvn_call_data X contracts ev expiration v_id call_data
         (JObject (uln_v2_proof_details ''updateHash'' ev info
            (JObject [(''blockConfirmation'', json_i64 block_confirmation)])))))"

section \<open>ULN V3 (evm_v3.rs)\<close>

definition build_evm_uln_v3_verify_call_data ::
    "external \<Rightarrow> evm_uln_proof \<Rightarrow> int \<Rightarrow> string res" where
  "build_evm_uln_v3_verify_call_data X proof block_confirmation =
     and_then (u64_from_i64 block_confirmation ''blockConfirmation'') (\<lambda>confirmations.
       encode_verify_bytes_bytes32_u64 X RECEIVE_ULN_302_VERIFY_SELECTOR
         (packet_header proof) (payload_hash proof) confirmations)"

definition build_uln_v3_verify_payload_from_proof ::
    "external \<Rightarrow> evm_uln_payload_builder \<Rightarrow> lz_sent_event \<Rightarrow> evm_uln_proof \<Rightarrow> int \<Rightarrow> int \<Rightarrow> string
     \<Rightarrow> hash_call_data_result res" where
  "build_uln_v3_verify_payload_from_proof X contracts ev proof block_confirmation expiration v_id =
     and_then (build_evm_uln_v3_verify_call_data X proof block_confirmation) (\<lambda>call_data.
       build_dvn_call_data X contracts ev expiration v_id call_data
         (JObject (proof_details ''verify'' ev proof
            (JObject [(''blockConfirmation'', json_i64 block_confirmation)]))))"

definition evm_build_uln_v3_verify_payload ::
    "external \<Rightarrow> evm_uln_payload_builder \<Rightarrow> lz_sent_event \<Rightarrow> int \<Rightarrow> int \<Rightarrow> string \<Rightarrow> string option
     \<Rightarrow> hash_call_data_result res" where
  "evm_build_uln_v3_verify_payload X contracts ev block_confirmation expiration v_id dvn_address =
     and_then (proof_from_event X ev) (\<lambda>proof.
       build_uln_v3_verify_payload_from_proof X contracts ev proof block_confirmation expiration v_id)"

section \<open>Read payloads (read_v1002.rs)\<close>

definition hex_error :: "external \<Rightarrow> from_hex_error \<Rightarrow> nat \<Rightarrow> app_core_error" where
  "hex_error X error offset = Internal (show_hex_error X (shift_hex_error offset error))"

text \<open>
  The streaming loop: \<open>hashed\<close> is what the hasher has absorbed, a digest of a sequence of updates being
  the digest of their concatenation.
\<close>

definition CHUNK_DIGITS :: nat where
  "CHUNK_DIGITS = 4096 * 2"

function hash_chunks :: "external \<Rightarrow> bytes \<Rightarrow> nat \<Rightarrow> string \<Rightarrow> bytes res" where
  "hash_chunks X hashed offset rest =
     (if rest = [] then Inr hashed
      else let n = min (length rest) CHUNK_DIGITS in
        and_then (map_err (\<lambda>e. hex_error X e offset) (hex_decode_to_slice X (take n rest))) (\<lambda>bs.
          hash_chunks X (hashed @ bs) (offset + n) (drop n rest)))"
  by pat_completeness auto
termination
  by (relation "measure (\<lambda>(X, hashed, offset, rest). length rest)") (auto simp: CHUNK_DIGITS_def)

declare hash_chunks.simps [simp del]

definition resolved_payload_hash :: "external \<Rightarrow> string \<Rightarrow> string \<Rightarrow> string res" where
  "resolved_payload_hash X guid resolved_payload =
     and_then (decode_hex_32 X guid) (\<lambda>g.
       let digits = strip_0x resolved_payload in
     and_then
       (if even (length digits) then hash_chunks X g 0 digits
        else and_then (map_err (\<lambda>e. hex_error X e 0) (hex_decode_to_slice X [CHR ''0'', hd digits])) (\<lambda>b.
          hash_chunks X (g @ b) 2 (tl digits))) (\<lambda>hashed.
       Inr (hex0x X (keccak256 X hashed))))"

definition build_evm_uln_read_v1_verify_call_data ::
    "external \<Rightarrow> evm_uln_proof \<Rightarrow> string \<Rightarrow> string res" where
  "build_evm_uln_read_v1_verify_call_data X proof resolved_hash =
     encode_verify_bytes_bytes32_bytes32 X READ_LIB_1002_VERIFY_SELECTOR
       (packet_header proof) (payload_hash proof) resolved_hash"

text \<open>\<open>details["proof"]["resolvedPayload"] = \<dots>\<close> on the object the details are.\<close>

definition set_proof_member :: "string \<Rightarrow> json \<Rightarrow> (string \<times> json) list \<Rightarrow> (string \<times> json) list" where
  "set_proof_member key v details =
     (case im_get details ''proof'' of
        Some (JObject members) \<Rightarrow> im_insert ''proof'' (JObject (im_insert key v members)) details
      | _ \<Rightarrow> details)"

definition build_uln_read_v1_verify_payload_from_proof ::
    "external \<Rightarrow> evm_uln_payload_builder \<Rightarrow> lz_sent_event \<Rightarrow> evm_uln_proof \<Rightarrow> string \<Rightarrow> int \<Rightarrow> string
     \<Rightarrow> hash_call_data_result res" where
  "build_uln_read_v1_verify_payload_from_proof X contracts ev proof resolved_payload expiration v_id =
     and_then (extra_string ev ''guid'') (\<lambda>guid.
     and_then (resolved_payload_hash X guid resolved_payload) (\<lambda>resolved_hash.
     and_then (build_evm_uln_read_v1_verify_call_data X proof resolved_hash) (\<lambda>call_data.
       build_dvn_call_data X contracts ev expiration v_id call_data
         (JObject (set_proof_member ''resolvedPayload'' (JString resolved_payload)
            (proof_details ''verify'' ev proof
              (JObject [(''resolvedPayloadHash'', JString resolved_hash)])))))))"

definition evm_build_uln_read_v1_verify_payload ::
    "external \<Rightarrow> evm_uln_payload_builder \<Rightarrow> lz_sent_event \<Rightarrow> string \<Rightarrow> int \<Rightarrow> string \<Rightarrow> string option
     \<Rightarrow> hash_call_data_result res" where
  "evm_build_uln_read_v1_verify_payload X contracts ev resolved_payload expiration v_id dvn_address =
     and_then (proof_from_event X ev) (\<lambda>proof.
       build_uln_read_v1_verify_payload_from_proof X contracts ev proof resolved_payload expiration v_id)"


section \<open>Laws\<close>

subsection \<open>The streaming hash\<close>

lemma hex_slice_split:
  assumes "hex_slice_ok X" "even (length s)" "even n"
  shows "hex_decode_to_slice X s =
    and_then (hex_decode_to_slice X (take n s)) (\<lambda>x.
      map_err (shift_hex_error n) (map_ok (\<lambda>y. x @ y) (hex_decode_to_slice X (drop n s))))"
proof (cases "n \<le> length s")
  case True
  have "hex_decode_to_slice X (take n s @ drop n s) =
    and_then (hex_decode_to_slice X (take n s)) (\<lambda>x.
      map_err (shift_hex_error (length (take n s))) (map_ok (\<lambda>y. x @ y) (hex_decode_to_slice X (drop n s))))"
    by (rule hex_slice_okD(3) [OF assms(1)]) (use assms True in simp_all)
  moreover have "length (take n s) = n" using True by simp
  ultimately show ?thesis by (simp only: append_take_drop_id)
next
  case False
  then show ?thesis
    using hex_slice_okD(2) [OF assms(1)] by (cases "hex_decode_to_slice X s") simp_all
qed

lemma hash_chunks_whole:
  assumes "hex_slice_ok X" "even (length rest)"
  shows "hash_chunks X hashed offset rest =
    map_err (\<lambda>e. hex_error X e offset) (map_ok (\<lambda>bs. hashed @ bs) (hex_decode_to_slice X rest))"
  using assms
proof (induction X hashed offset rest rule: hash_chunks.induct)
  case (1 X hashed offset rest)
  let ?n = "min (length rest) CHUNK_DIGITS"
  show ?case
  proof (cases "rest = []")
    case True
    with 1 show ?thesis by (simp add: hash_chunks.simps hex_slice_okD(2))
  next
    case False
    have n: "even ?n" using 1(3) by (simp add: min_def CHUNK_DIGITS_def)
    show ?thesis
      unfolding hash_chunks.simps [of X hashed offset rest] Let_def
        hex_slice_split [OF 1(2,3) n]
      using False 1(1) [OF False refl 1(2)] 1(3) n
      by (cases "hex_decode_to_slice X (take ?n rest)"; cases "hex_decode_to_slice X (drop ?n rest)")
        (simp_all add: hex_error_def add.commute)
  qed
qed

text \<open>
  C16: hashing the resolved read payload in 4096-byte chunks equals hashing it whole. For every guid
  and payload text, of even or odd length, the streaming routine returns the hash of the guid and
  the decoded payload, and when a digit is bad it fails with the same error, with the same
  position, as decoding the whole text would.
\<close>

theorem resolved_payload_hash_streaming:
  assumes "hex_slice_ok X"
  shows "resolved_payload_hash X guid payload =
    and_then (decode_hex_32 X guid) (\<lambda>g.
    and_then (decode_hex_bytes X payload) (\<lambda>bs. Inr (keccak256_hex X (g @ bs))))"
proof -
  let ?d = "strip_0x payload"
  have whole: "map_err Internal (hex_decode X s) =
      map_err (\<lambda>e. hex_error X e 0) (hex_decode_to_slice X s)" if "even (length s)" for s
    using hex_slice_okD(1) [OF assms that] by (cases "hex_decode_to_slice X s") (simp_all add: hex_error_def)
  show ?thesis
  proof (cases "even (length ?d)")
    case True
    then show ?thesis
      using assms whole [OF True]
      by (cases "decode_hex_32 X guid"; cases "hex_decode_to_slice X ?d")
        (simp_all add: resolved_payload_hash_def decode_hex_bytes_def hash_chunks_whole keccak256_hex_def Let_def)
  next
    case False
    then obtain c r where cr: "?d = c # r" by (cases ?d) auto
    with False have r: "even (length r)" by simp
    have ev: "even (length (CHR ''0'' # c # r))" using r by simp
    have split: "hex_decode_to_slice X (CHR ''0'' # c # r) =
        and_then (hex_decode_to_slice X [CHR ''0'', c]) (\<lambda>x.
          map_err (shift_hex_error 2) (map_ok (\<lambda>y. x @ y) (hex_decode_to_slice X r)))"
      using hex_slice_split [OF assms ev, of 2] by simp
    show ?thesis
      using False whole [OF ev]
      by (cases "decode_hex_32 X guid"; cases "hex_decode_to_slice X [CHR ''0'', c]";
          cases "hex_decode_to_slice X r")
        (simp_all add: resolved_payload_hash_def decode_hex_bytes_def hash_chunks_whole [OF assms r]
          keccak256_hex_def Let_def cr split hex_error_def)
  qed
qed

theorem resolved_payload_hash_streaming_witness:
  "resolved_payload_hash ref_external (hex0x ref_external (replicate 32 1)) ''0xabc'' =
     Inr (keccak256_hex ref_external (replicate 32 1 @ [10, 188]))"
proof -
  have "decode_hex_32 ref_external (hex0x ref_external (replicate 32 1)) = Inr (replicate 32 1)"
    by (simp add: ref_external_hex_ok)
  moreover have "decode_hex_bytes ref_external ''0xabc'' = Inr [10, 188]"
    by (simp add: decode_hex_bytes_def ref_external_def ref_hex_decode_def hex_value_def)
  ultimately show ?thesis
    by (simp add: resolved_payload_hash_streaming [OF ref_external_hex_slice_ok])
qed


subsection \<open>The contract of a digest builder\<close>

text \<open>
  What a payload builder decides before packing: target contract, call, expiration and vId. A
  digest builder is one whose answer is the packing of its plan, hashed, and which fails exactly
  when planning or packing does.
\<close>

record dvn_plan =
  plan_target :: string
  plan_call_data :: string
  plan_expiration :: u64
  plan_v_id :: string

definition pack_plan :: "external \<Rightarrow> dvn_plan \<Rightarrow> bytes res" where
  "pack_plan X p =
     pack_dvn_call_data X (plan_target p) (plan_call_data p) (plan_expiration p) (plan_v_id p)"

definition plan_result :: "external \<Rightarrow> dvn_plan \<Rightarrow> (string \<times> json) list \<Rightarrow> hash_call_data_result res" where
  "plan_result X p details =
     build_evm_dvn_call_data_result X (plan_target p) (plan_call_data p) (plan_expiration p)
       (plan_v_id p) (JObject details)"

lemma plan_result_eq_Inr:
  assumes "plan_result X p details = Inr out"
  shows "\<exists>b. pack_plan X p = Inr b \<and> hash_call_data out = keccak256_hex X b \<and>
    im_get (object_fields (hc_details out)) ''dvnHashCallData'' =
      Some (JObject [(''dvnCallData'', JString (hex0x X b))])"
  using assms
  by (auto simp: plan_result_def pack_plan_def build_evm_dvn_call_data_result_def res_simps object_fields_def)

lemma plan_result_is_ok: "is_ok (plan_result X p details) \<longleftrightarrow> is_ok (pack_plan X p)"
  by (cases "pack_plan X p")
    (simp_all add: plan_result_def pack_plan_def build_evm_dvn_call_data_result_def)

locale digest_builder =
  fixes X :: external
    and build :: "'r \<Rightarrow> hash_call_data_result res"
    and plan :: "'r \<Rightarrow> dvn_plan res"
    and details :: "'r \<Rightarrow> (string \<times> json) list"
  assumes build_plan: "build r = and_then (plan r) (\<lambda>p. plan_result X p (details r))"
begin

lemma builds_iff: "is_ok (build r) \<longleftrightarrow> (\<exists>p. plan r = Inr p \<and> is_ok (pack_plan X p))"
  by (cases "plan r") (simp_all add: build_plan plan_result_is_ok)

lemma digest:
  assumes "build r = Inr out"
  obtains p b where "plan r = Inr p" "pack_plan X p = Inr b" "hash_call_data out = keccak256_hex X b"
    "im_get (object_fields (hc_details out)) ''dvnHashCallData'' =
       Some (JObject [(''dvnCallData'', JString (hex0x X b))])"
  using assms plan_result_eq_Inr by (auto simp: build_plan res_simps dest!: plan_result_eq_Inr)

text \<open>Equal digests of two plans with or without a vId mean equal plans, short of a collision.\<close>

lemma equal_digests:
  assumes X: "hex_ok X" and r: "build r = Inr out" and r': "build r' = Inr out'"
    and hash: "hash_call_data out = hash_call_data out'"
    and collision: "\<And>p b p' b'. plan r = Inr p \<Longrightarrow> pack_plan X p = Inr b \<Longrightarrow> plan r' = Inr p' \<Longrightarrow>
      pack_plan X p' = Inr b' \<Longrightarrow> keccak256 X b = keccak256 X b' \<Longrightarrow> b = b'"
  obtains p p' b where "plan r = Inr p" "plan r' = Inr p'" "pack_plan X p = Inr b" "pack_plan X p' = Inr b"
proof -
  from digest [OF r] obtain p b where p: "plan r = Inr p" "pack_plan X p = Inr b"
    "hash_call_data out = keccak256_hex X b" by metis
  from digest [OF r'] obtain p' b' where p': "plan r' = Inr p'" "pack_plan X p' = Inr b'"
    "hash_call_data out' = keccak256_hex X b'" by metis
  have "keccak256 X b = keccak256 X b'"
    using hash p(3) p'(3) X by (simp add: keccak256_hex_def hex0x_inject)
  then have "b = b'" using collision p p' by blast
  with p p' that show ?thesis by blast
qed

end

subsection \<open>The EVM builders as digest builders\<close>

definition receive_plan ::
    "evm_uln_payload_builder \<Rightarrow> lz_sent_event \<Rightarrow> int \<Rightarrow> string \<Rightarrow> string \<Rightarrow> dvn_plan res" where
  "receive_plan contracts_by_chain ev expiration v_id uln_call_data =
     and_then (u64_from_i64 expiration ''expiration'') (\<lambda>expiration.
       let chain = dst_chain_name (ev_pathway ev) in
     and_then (ok_or (no_receive_contracts chain) (contracts_by_chain chain)) (\<lambda>contracts.
     and_then (extra_u64 ev ''dstEid'') (\<lambda>dst_eid.
     and_then (uln_send_version_string (uln_send_version (ev_lz_message_id ev))) (\<lambda>version.
     and_then (receive_target contracts chain (evm_receive_version_from_dst_eid dst_eid version)) (\<lambda>target.
       Inr \<lparr> plan_target = target, plan_call_data = uln_call_data,
             plan_expiration = expiration, plan_v_id = v_id \<rparr>)))))"

lemma build_dvn_call_data_plan:
  "build_dvn_call_data X contracts ev expiration v_id uln_call_data (JObject d) =
     and_then (receive_plan contracts ev expiration v_id uln_call_data) (\<lambda>p. plan_result X p d)"
  by (simp add: build_dvn_call_data_def receive_plan_def plan_result_def Let_def and_then_assoc)

definition evm_v3_plan ::
    "external \<Rightarrow> evm_uln_payload_builder \<Rightarrow> lz_sent_event \<times> int \<times> int \<times> string \<times> string option
     \<Rightarrow> dvn_plan res" where
  "evm_v3_plan X contracts =
     (\<lambda>(ev, block_confirmation, expiration, v_id, _).
       and_then (proof_from_event X ev) (\<lambda>proof.
       and_then (build_evm_uln_v3_verify_call_data X proof block_confirmation) (\<lambda>call_data.
         receive_plan contracts ev expiration v_id call_data)))"

definition evm_v3_details ::
    "external \<Rightarrow> lz_sent_event \<times> int \<times> int \<times> string \<times> string option \<Rightarrow> (string \<times> json) list" where
  "evm_v3_details X =
     (\<lambda>(ev, block_confirmation, _).
       case proof_from_event X ev of
         Inr proof \<Rightarrow> proof_details ''verify'' ev proof
            (JObject [(''blockConfirmation'', json_i64 block_confirmation)])
       | Inl _ \<Rightarrow> [])"

interpretation evm_v3: digest_builder X
  "\<lambda>(ev, bc, exp, v_id, dvn). evm_build_uln_v3_verify_payload X contracts ev bc exp v_id dvn"
  "evm_v3_plan X contracts" "evm_v3_details X" for X contracts
proof (unfold_locales, goal_cases)
  case (1 r)
  then show ?case
    by (cases r; cases "proof_from_event X (fst r)")
      (auto simp: evm_build_uln_v3_verify_payload_def build_uln_v3_verify_payload_from_proof_def
        evm_v3_plan_def evm_v3_details_def build_dvn_call_data_plan and_then_assoc)
qed


definition evm_v2_plan ::
    "external \<Rightarrow> evm_uln_payload_builder \<Rightarrow> lz_sent_event \<times> uln_v2_hash_info \<times> int \<times> int \<times> string
     \<Rightarrow> dvn_plan res" where
  "evm_v2_plan X contracts_by_chain =
     (\<lambda>(ev, info, block_confirmation, expiration, v_id).
       and_then (extra_u64 ev ''srcEid'') (\<lambda>src_eid.
       and_then (build_evm_uln_v2_verify_call_data X src_eid info block_confirmation) (\<lambda>call_data.
       and_then (u64_from_i64 expiration ''expiration'') (\<lambda>expiration.
         let chain = dst_chain_name (ev_pathway ev) in
       and_then (ok_or (no_receive_contracts chain) (contracts_by_chain chain)) (\<lambda>contracts.
         Inr \<lparr> plan_target = uln_v2 contracts, plan_call_data = call_data,
               plan_expiration = expiration, plan_v_id = v_id \<rparr>)))))"

definition evm_v2_details ::
    "lz_sent_event \<times> uln_v2_hash_info \<times> int \<times> int \<times> string \<Rightarrow> (string \<times> json) list" where
  "evm_v2_details =
     (\<lambda>(ev, info, block_confirmation, _).
       uln_v2_proof_details ''updateHash'' ev info
         (JObject [(''blockConfirmation'', json_i64 block_confirmation)]))"

interpretation evm_v2: digest_builder X
  "\<lambda>(ev, info, bc, exp, v_id). build_uln_v2_verify_payload_from_hash_info X contracts ev info bc exp v_id"
  "evm_v2_plan X contracts" evm_v2_details for X contracts
proof (unfold_locales, goal_cases)
  case (1 r)
  then show ?case
    by (cases r) (simp add: build_uln_v2_verify_payload_from_hash_info_def build_uln_v2_dvn_call_data_def
        evm_v2_plan_def evm_v2_details_def plan_result_def and_then_assoc Let_def)
qed

definition evm_read_plan ::
    "external \<Rightarrow> evm_uln_payload_builder \<Rightarrow> lz_sent_event \<times> string \<times> int \<times> string \<times> string option
     \<Rightarrow> dvn_plan res" where
  "evm_read_plan X contracts =
     (\<lambda>(ev, resolved_payload, expiration, v_id, _).
       and_then (proof_from_event X ev) (\<lambda>proof.
       and_then (extra_string ev ''guid'') (\<lambda>guid.
       and_then (resolved_payload_hash X guid resolved_payload) (\<lambda>resolved_hash.
       and_then (build_evm_uln_read_v1_verify_call_data X proof resolved_hash) (\<lambda>call_data.
         receive_plan contracts ev expiration v_id call_data)))))"

definition evm_read_details ::
    "external \<Rightarrow> lz_sent_event \<times> string \<times> int \<times> string \<times> string option \<Rightarrow> (string \<times> json) list" where
  "evm_read_details X =
     (\<lambda>(ev, resolved_payload, _).
       case and_then (proof_from_event X ev) (\<lambda>proof.
            and_then (extra_string ev ''guid'') (\<lambda>guid.
            and_then (resolved_payload_hash X guid resolved_payload) (\<lambda>h. Inr (proof, h)))) of
         Inr (proof, h) \<Rightarrow> set_proof_member ''resolvedPayload'' (JString resolved_payload)
            (proof_details ''verify'' ev proof (JObject [(''resolvedPayloadHash'', JString h)]))
       | Inl _ \<Rightarrow> [])"

interpretation evm_read: digest_builder X
  "\<lambda>(ev, payload, exp, v_id, dvn). evm_build_uln_read_v1_verify_payload X contracts ev payload exp v_id dvn"
  "evm_read_plan X contracts" "evm_read_details X" for X contracts
proof (unfold_locales, goal_cases)
  case (1 r)
  obtain ev payload e v dvn where r: "r = (ev, payload, e, v, dvn)" by (cases r) auto
  show ?case
  proof (cases "and_then (proof_from_event X ev) (\<lambda>proof. and_then (extra_string ev ''guid'') (\<lambda>guid.
      and_then (resolved_payload_hash X guid payload) (\<lambda>h. Inr (proof, h))))")
    case (Inl a)
    then show ?thesis
      by (auto simp: r evm_build_uln_read_v1_verify_payload_def build_uln_read_v1_verify_payload_from_proof_def
          evm_read_plan_def res_simps)
  next
    case (Inr b)
    then show ?thesis
      by (auto simp: r evm_build_uln_read_v1_verify_payload_def build_uln_read_v1_verify_payload_from_proof_def
          evm_read_plan_def evm_read_details_def build_dvn_call_data_plan and_then_assoc res_simps)
  qed
qed

subsection \<open>What a V3 digest commits to\<close>

lemma u64_from_i64_inject:
  assumes "u64_from_i64 a n = Inr x" "u64_from_i64 b n = Inr x" "a < 2 ^ 63" "b < 2 ^ 63"
  shows "a = b"
proof -
  have "uint (word_of_int i :: u64) = i" if "0 \<le> i" "i < 2 ^ 63" for i
    using that by (simp add: uint_word_of_int)
  then show ?thesis
    using assms by (metis (no_types, lifting) Inl_Inr_False linorder_not_less sum.inject(2) u64_from_i64_def)
qed

lemma verify_call_inject:
  assumes X: "hex_ok X" and e: "encode_verify_bytes_bytes32_u64 X sel h p n = Inr s"
    and e': "encode_verify_bytes_bytes32_u64 X sel h' p' n' = Inr s'"
    and s: "decode_hex_bytes X s = decode_hex_bytes X s'"
    and size: "decode_hex_bytes X h = Inr hb" "length hb < 2 ^ 63"
      "decode_hex_bytes X h' = Inr hb'" "length hb' < 2 ^ 63"
  shows "hb = hb' \<and> decode_hex_32 X p = decode_hex_32 X p' \<and> n = n'"
proof -
  from e size obtain b where b: "decode_hex_32 X p = Inr b"
    "s = hex0x X (sel @ solidity_uint256 96 @ b @ solidity_uint256 n @ dynamic_bytes_tail hb)"
    by (auto simp: encode_verify_u64_eq_Inr)
  from e' size obtain b' where b': "decode_hex_32 X p' = Inr b'"
    "s' = hex0x X (sel @ solidity_uint256 96 @ b' @ solidity_uint256 n' @ dynamic_bytes_tail hb')"
    by (auto simp: encode_verify_u64_eq_Inr)
  have "length b = length b'" using b b' by (auto dest!: decode_hex_32_length)
  with s b b' X have "b = b' \<and> n = n' \<and> dynamic_bytes_tail hb = dynamic_bytes_tail hb'" by simp
  with b b' dynamic_bytes_tail_inject [of hb hb' "[]" "[]"] size show ?thesis by simp
qed

lemma verify_call_length:
  assumes "hex_ok X" and "encode_verify_bytes_bytes32_u64 X sel hdr p n = Inr c" and "hdr = hex0x X h"
  shows "map_ok length (decode_hex_bytes X c) = Inr (length sel + 96 + length (dynamic_bytes_tail h))"
  using assms by (auto simp: encode_verify_u64_eq_Inr solidity_uint256_def dest!: decode_hex_32_length)

lemma proof_from_event_shape:
  assumes X: "hex_ok X" and dig: "digest_ok X" and "proof_from_event X ev = Inr pr"
  obtains h k where "packet_header pr = hex0x X h" "length h = 81" "payload_hash pr = hex0x X k" "length k = 32"
proof -
  from assms(3) obtain p where p: "compute_lz_packet_v1_proof X p = Inr pr"
    by (auto simp: proof_from_event_def compute_lz_packet_v1_proof_from_event_def res_simps)
  from p obtain message sender receiver guid where
    "native_address_to_bytes32 X (pk_sender p) = Inr sender"
    "native_address_to_bytes32 X (pk_receiver p) = Inr receiver"
    "packet_header pr = hex0x X ([1] @ u64_to_be (pk_nonce p) @ u32_to_be (pk_src_eid p)
       @ sender @ u32_to_be (pk_dst_eid p) @ receiver)"
    "payload_hash pr = keccak256_hex X
       (if is_lz_read_endpoint_id (pk_src_eid p) then message else guid @ message)"
    by (rule compute_proof_Inr)
  then show ?thesis
    using that dig by (auto simp: keccak256_hex_def digest_okD dest!: native_address_to_bytes32_length)
qed

lemma evm_v3_plan_eq_Inr:
  "evm_v3_plan X contracts (ev, bc, e, v, dvn) = Inr p \<longleftrightarrow>
     (\<exists>pr n x c cs eid ver t. proof_from_event X ev = Inr pr \<and> u64_from_i64 bc ''blockConfirmation'' = Inr n \<and>
        encode_verify_bytes_bytes32_u64 X RECEIVE_ULN_302_VERIFY_SELECTOR (packet_header pr) (payload_hash pr) n = Inr c \<and>
        u64_from_i64 e ''expiration'' = Inr x \<and> contracts (dst_chain_name (ev_pathway ev)) = Some cs \<and>
        extra_u64 ev ''dstEid'' = Inr eid \<and> as_str (uln_send_version (ev_lz_message_id ev)) = Some ver \<and>
        receive_target cs (dst_chain_name (ev_pathway ev)) (evm_receive_version_from_dst_eid eid ver) = Inr t \<and>
        p = \<lparr> plan_target = t, plan_call_data = c, plan_expiration = x, plan_v_id = v \<rparr>)"
  by (auto simp: evm_v3_plan_def receive_plan_def build_evm_uln_v3_verify_call_data_def res_simps
      uln_send_version_string_def Let_def)

text \<open>The packing whose digest a V3 build returns.\<close>

definition evm_v3_packing ::
    "external \<Rightarrow> evm_uln_payload_builder \<Rightarrow> lz_sent_event \<times> int \<times> int \<times> string \<times> string option \<Rightarrow> bytes res" where
  "evm_v3_packing X contracts r = and_then (evm_v3_plan X contracts r) (pack_plan X)"

definition no_collision :: "external \<Rightarrow> bytes res \<Rightarrow> bytes res \<Rightarrow> bool" where
  "no_collision X r r' \<longleftrightarrow> (\<forall>b b'. r = Inr b \<longrightarrow> r' = Inr b' \<longrightarrow> keccak256 X b = keccak256 X b' \<longrightarrow> b = b')"

lemma evm_v3_equal_packings:
  assumes X: "hex_ok X"
    and r: "evm_build_uln_v3_verify_payload X contracts ev bc e v dvn = Inr out"
    and r': "evm_build_uln_v3_verify_payload X contracts ev' bc' e' v' dvn' = Inr out'"
    and hash: "hash_call_data out = hash_call_data out'"
    and nc: "no_collision X (evm_v3_packing X contracts (ev, bc, e, v, dvn))
      (evm_v3_packing X contracts (ev', bc', e', v', dvn'))"
  obtains p p' bytes where "evm_v3_plan X contracts (ev, bc, e, v, dvn) = Inr p"
    "evm_v3_plan X contracts (ev', bc', e', v', dvn') = Inr p'"
    "pack_plan X p = Inr bytes" "pack_plan X p' = Inr bytes"
proof (rule evm_v3.equal_digests [where r = "(ev, bc, e, v, dvn)" and r' = "(ev', bc', e', v', dvn')", OF X _ _ hash])
  fix p b p' b'
  assume "evm_v3_plan X contracts (ev, bc, e, v, dvn) = Inr p" "pack_plan X p = Inr b"
    "evm_v3_plan X contracts (ev', bc', e', v', dvn') = Inr p'"
    "pack_plan X p' = Inr b'" "keccak256 X b = keccak256 X b'"
  with nc show "b = b'" by (auto simp: no_collision_def evm_v3_packing_def)
qed (use r r' in simp, use r r' in simp, rule that)

text \<open>
  C4: a V3 digest commits to everything the signature must bind. If two V3 verify payloads for EVM
  destinations have the same digest, and Keccak does not collide on their two packings, they
  attest the same packet header and payload hash, the same number of confirmations and
  the same expiration, for the same receive contract, and both carry the same vId or neither carries one.
\<close>

theorem evm_v3_digest_binds:
  assumes X: "hex_ok X" "digest_ok X"
    and b: "evm_build_uln_v3_verify_payload X contracts ev bc e v dvn = Inr out"
    and b': "evm_build_uln_v3_verify_payload X contracts ev' bc' e' v' dvn' = Inr out'"
    and hash: "hash_call_data out = hash_call_data out'"
    and i64: "bc < 2 ^ 63" "bc' < 2 ^ 63" "e < 2 ^ 63" "e' < 2 ^ 63"
    and nc: "no_collision X (evm_v3_packing X contracts (ev, bc, e, v, dvn))
      (evm_v3_packing X contracts (ev', bc', e', v', dvn'))"
  shows "proof_from_event X ev = proof_from_event X ev' \<and> bc = bc' \<and> e = e' \<and>
    (v = [] \<longleftrightarrow> v' = []) \<and> parse_u32 v = parse_u32 v' \<and>
    (\<exists>p p'. evm_v3_plan X contracts (ev, bc, e, v, dvn) = Inr p \<and>
       evm_v3_plan X contracts (ev', bc', e', v', dvn') = Inr p' \<and>
       decode_hex_20 X (plan_target p) = decode_hex_20 X (plan_target p'))"
proof -
  obtain p p' bytes where p: "evm_v3_plan X contracts (ev, bc, e, v, dvn) = Inr p" "pack_plan X p = Inr bytes"
    and p': "evm_v3_plan X contracts (ev', bc', e', v', dvn') = Inr p'" "pack_plan X p' = Inr bytes"
    using evm_v3_equal_packings [OF X(1) b b' hash nc] by blast
  from p(1) obtain pr n where q: "proof_from_event X ev = Inr pr" "u64_from_i64 bc ''blockConfirmation'' = Inr n"
    "encode_verify_bytes_bytes32_u64 X RECEIVE_ULN_302_VERIFY_SELECTOR (packet_header pr) (payload_hash pr) n =
       Inr (plan_call_data p)" "u64_from_i64 e ''expiration'' = Inr (plan_expiration p)" "plan_v_id p = v"
    by (auto simp: evm_v3_plan_eq_Inr)
  from p'(1) obtain pr' n' where q': "proof_from_event X ev' = Inr pr'" "u64_from_i64 bc' ''blockConfirmation'' = Inr n'"
    "encode_verify_bytes_bytes32_u64 X RECEIVE_ULN_302_VERIFY_SELECTOR (packet_header pr') (payload_hash pr') n' =
       Inr (plan_call_data p')" "u64_from_i64 e' ''expiration'' = Inr (plan_expiration p')" "plan_v_id p' = v'"
    by (auto simp: evm_v3_plan_eq_Inr)
  from proof_from_event_shape [OF X q(1)] obtain h k where hk: "packet_header pr = hex0x X h" "length h = 81"
    "payload_hash pr = hex0x X k" "length k = 32" by metis
  from proof_from_event_shape [OF X q'(1)] obtain h' k' where hk': "packet_header pr' = hex0x X h'" "length h' = 81"
    "payload_hash pr' = hex0x X k'" "length k' = 32" by metis
  have "map_ok length (decode_hex_bytes X (plan_call_data p)) = map_ok length (decode_hex_bytes X (plan_call_data p'))"
    using verify_call_length [OF X(1) q(3) hk(1)] verify_call_length [OF X(1) q'(3) hk'(1)] hk(2) hk'(2)
    by (simp add: length_dynamic_bytes_tail)
  with pack_dvn_same_vid [OF p(2) [unfolded pack_plan_def] p'(2) [unfolded pack_plan_def]] q(5) q'(5)
  have vid: "v = [] \<longleftrightarrow> v' = []" by simp
  from pack_dvn_parts_inject [OF p(2) [unfolded pack_plan_def] p'(2) [unfolded pack_plan_def]] vid q(5) q'(5)
  obtain vb where vb: "vid_bytes v = Inr vb" "vid_bytes v' = Inr vb" and x: "plan_expiration p = plan_expiration p'"
    and t: "decode_hex_20 X (plan_target p) = decode_hex_20 X (plan_target p')"
    and c: "decode_hex_bytes X (plan_call_data p) = decode_hex_bytes X (plan_call_data p')" by metis
  have "h = h' \<and> decode_hex_32 X (payload_hash pr) = decode_hex_32 X (payload_hash pr') \<and> n = n'"
    by (rule verify_call_inject [OF X(1) q(3) q'(3) c]) (use X hk hk' in simp_all)
  then have "pr = pr'" "n = n'" using X hk hk' by (auto intro: evm_uln_proof.equality)
  moreover have "bc = bc'" using q(2) q'(2) i64 \<open>n = n'\<close> by (auto intro: u64_from_i64_inject)
  moreover have "e = e'" using q(4) q'(4) i64 x by (auto intro: u64_from_i64_inject)
  ultimately show ?thesis using q(1) q'(1) p(1) p'(1) t vid vid_bytes_inject [OF vb] by simp
qed


definition sample_event :: lz_sent_event where
  "sample_event =
     \<lparr> ev_lz_message_id =
         \<lparr> msg_pathway_id =
             \<lparr> src_chain_name = ''ethereum'', dst_chain_name = ''bsc'',
               pathway_extra = [(''srcEid'', JNumber (PosInt 30101)), (''dstEid'', JNumber (PosInt 30102)),
                 (''sender'', JString (hex0x ref_external (replicate 20 1))),
                 (''receiver'', JString (hex0x ref_external (replicate 20 2)))] \<rparr>,
           msg_nonce = 9, uln_send_version = JString ULN_VERSION_V302 \<rparr>,
       ev_message = hex0x ref_external [4], ev_tx_hash = hex0x ref_external (replicate 32 5),
       ev_source_evidence = None, ev_read_block_pins = [],
       ev_extra = [(''guid'', JString (hex0x ref_external (replicate 32 3)))] \<rparr>"

definition sample_contracts :: evm_receive_contracts where
  "sample_contracts =
     \<lparr> endpoint_v2 = hex0x ref_external (replicate 20 10), endpoint_v1 = None,
       uln_v2 = hex0x ref_external (replicate 20 11),
       receive_uln_301 = hex0x ref_external (replicate 20 12), receive_uln_301_view = [],
       receive_uln_302 = hex0x ref_external (replicate 20 13), receive_uln_302_view = [],
       read_lib_1002 = None, read_lib_1002_view = None,
       send_uln_302 = None, send_uln_301 = None, simple_message_lib = None \<rparr>"

definition sample_builder :: evm_uln_payload_builder where
  "sample_builder = [''bsc'' \<mapsto> sample_contracts]"

lemma sample_packet_from_event: "packet_from_event sample_event = Inr (sample_packet 30101)"
  by (simp add: packet_from_event_def sample_event_def sample_packet_def extra_u32_def extra_u64_def
      extra_string_def optional_extra_string_def pathway_extra_string_def ev_pathway_def)

lemma sample_proof: "\<exists>pr. proof_from_event ref_external sample_event = Inr pr"
  using ref_external_hex_ok
  by (simp add: proof_from_event_def compute_lz_packet_v1_proof_from_event_def sample_packet_from_event
      compute_lz_packet_v1_proof_def encode_lz_packet_v1_def sample_packet_def native_address_hex0x)

lemma sample_v3_plan:
  "\<exists>c. evm_v3_plan ref_external sample_builder (sample_event, 15, 1000, ''7'', dvn) =
     Inr \<lparr> plan_target = hex0x ref_external (replicate 20 13), plan_call_data = hex0x ref_external c,
           plan_expiration = 1000, plan_v_id = ''7'' \<rparr>"
proof -
  obtain pr where pr: "proof_from_event ref_external sample_event = Inr pr" using sample_proof by blast
  from proof_from_event_shape [OF ref_external_hex_ok ref_external_digest_ok pr]
  obtain h k where hk: "packet_header pr = hex0x ref_external h" "payload_hash pr = hex0x ref_external k" "length k = 32"
    by metis
  obtain c where "encode_verify_bytes_bytes32_u64 ref_external RECEIVE_ULN_302_VERIFY_SELECTOR
      (packet_header pr) (payload_hash pr) 15 = Inr (hex0x ref_external c)"
    unfolding encode_verify_u64_eq_Inr using hk ref_external_hex_ok by auto
  with pr show ?thesis
    by (intro exI [of _ c])
      (auto simp: evm_v3_plan_eq_Inr u64_from_i64_def sample_builder_def sample_event_def sample_contracts_def
        ev_pathway_def extra_u64_def receive_target_def evm_receive_version_from_dst_eid_def)
qed

lemma sample_v3_build:
  "\<exists>out. evm_build_uln_v3_verify_payload ref_external sample_builder sample_event 15 1000 ''7'' dvn = Inr out"
proof -
  obtain c where p: "evm_v3_plan ref_external sample_builder (sample_event, 15, 1000, ''7'', dvn) =
     Inr \<lparr> plan_target = hex0x ref_external (replicate 20 13), plan_call_data = hex0x ref_external c,
           plan_expiration = 1000, plan_v_id = ''7'' \<rparr>" using sample_v3_plan by blast
  have "vid_bytes ''7'' = Inr (u32_to_be 7)"
    by (simp add: vid_bytes_def parse_u32_def parse_unsigned_def to_digit10_def)
  with p have "is_ok (evm_build_uln_v3_verify_payload ref_external sample_builder sample_event 15 1000 ''7'' dvn)"
    using evm_v3.builds_iff [of ref_external sample_builder "(sample_event, 15, 1000, ''7'', dvn)"] ref_external_hex_ok
    by (simp add: is_ok_iff pack_plan_def pack_dvn_call_data_eq_Inr)
  then show ?thesis by (simp add: is_ok_iff)
qed

theorem evm_v3_digest_binds_witness:
  "\<exists>out p. evm_build_uln_v3_verify_payload ref_external sample_builder sample_event 15 1000 ''7'' None = Inr out \<and>
     evm_v3_plan ref_external sample_builder (sample_event, 15, 1000, ''7'', Some ''0xdvn'') = Inr p"
proof -
  obtain out out' where o:
    "evm_build_uln_v3_verify_payload ref_external sample_builder sample_event 15 1000 ''7'' None = Inr out"
    "evm_build_uln_v3_verify_payload ref_external sample_builder sample_event 15 1000 ''7'' (Some ''0xdvn'') = Inr out'"
    using sample_v3_build by blast
  then have "hash_call_data out = hash_call_data out'"
    by (simp add: evm_build_uln_v3_verify_payload_def)
  moreover have "no_collision ref_external (evm_v3_packing ref_external sample_builder (sample_event, 15, 1000, ''7'', None))
      (evm_v3_packing ref_external sample_builder (sample_event, 15, 1000, ''7'', Some ''0xdvn''))"
    by (auto simp: no_collision_def evm_v3_packing_def evm_v3_plan_def)
  ultimately show ?thesis
    using evm_v3_digest_binds [OF ref_external_hex_ok ref_external_digest_ok o] o by fastforce
qed


subsection \<open>Receive libraries\<close>

lemma eq_ignore_ascii_case_sym: "eq_ignore_ascii_case s t \<longleftrightarrow> eq_ignore_ascii_case t s"
  by (auto simp: eq_ignore_ascii_case_def)

lemma library_matches_cong:
  "eq_ignore_ascii_case a b \<Longrightarrow> library_matches a c \<longleftrightarrow> library_matches b c"
  by (auto simp: library_matches_def eq_ignore_ascii_case_def)

lemma receive_targets:
  "(\<exists>version target. receive_target contracts chain version = Inr target \<and> P target) \<longleftrightarrow>
     receive_uln_301 contracts \<noteq> [] \<and> P (receive_uln_301 contracts) \<or> P (receive_uln_302 contracts) \<or>
     (\<exists>c. read_lib_1002 contracts = Some c \<and> P c)" (is "?L \<longleftrightarrow> ?R")
proof
  assume ?L
  then show ?R by (auto simp: receive_target_def res_simps split: if_splits)
next
  assume ?R
  then show ?L
  proof (elim disjE exE conjE)
    assume "receive_uln_301 contracts \<noteq> []" "P (receive_uln_301 contracts)"
    then show ?L by (intro exI [of _ ULN_VERSION_V301] exI [of _ "receive_uln_301 contracts"]) (simp add: receive_target_def)
  next
    assume "P (receive_uln_302 contracts)"
    then show ?L by (intro exI [of _ ULN_VERSION_V302] exI [of _ "receive_uln_302 contracts"]) (simp add: receive_target_def)
  next
    fix c
    assume "read_lib_1002 contracts = Some c" "P c"
    then show ?L by (intro exI [of _ ULN_VERSION_READ_V1002] exI [of _ "c"]) (simp add: receive_target_def)
  qed
qed

text \<open>
  The version a receive library is recognised as is the version whose signed call targets that
  very library. When the lookup of an address answers a version, the contract the builder would
  target for that version is configured and is that address, up to letter case and the \<open>0x\<close>
  prefix; and the lookup answers nothing only for an address that no version targets.
\<close>

theorem receive_library_version_targets:
  "case evm_uln_version_from_receive_library contracts address of
     Some version \<Rightarrow> \<exists>target. receive_target contracts chain version = Inr target \<and>
       library_matches (trim_start_0x address) target
   | None \<Rightarrow> \<nexists>version target. receive_target contracts chain version = Inr target \<and>
       library_matches (trim_start_0x address) target"
proof (cases "evm_uln_version_from_receive_library contracts address")
  case None
  show ?thesis
    unfolding None option.case receive_targets using None
    by (auto simp: evm_uln_version_from_receive_library_def optional_matches_def Let_def split: if_splits)
next
  case (Some version)
  then show ?thesis
    by (auto simp: evm_uln_version_from_receive_library_def receive_target_def optional_matches_def
        library_matches_def Let_def split: if_splits option.splits)
qed

end
