(* ===== verification/Builder_Router.thy ===== *)
theory Builder_Router
  imports Evm_Builders
begin

text \<open>
  \<^verbatim>\<open>pillar-layerzero/src/router.rs\<close>, \<^verbatim>\<open>builders.rs\<close> and
  \<^verbatim>\<open>pillar-runtime/src/layerzero_runtime/unavailable_builder.rs\<close>: dispatch of a verify payload to the
  destination chain's builder, and the four hash builders the workflow looks up by ULN version. A
  trait object is the function its method is.
\<close>

section \<open>The builder traits (types.rs)\<close>

type_synonym uln_v2_payload_builder =
  "lz_sent_event \<Rightarrow> int \<Rightarrow> int \<Rightarrow> string \<Rightarrow> hash_call_data_result res"

type_synonym uln_v3_payload_builder =
  "lz_sent_event \<Rightarrow> int \<Rightarrow> int \<Rightarrow> string \<Rightarrow> string option \<Rightarrow> hash_call_data_result res"

type_synonym uln_read_v1_payload_builder =
  "lz_sent_event \<Rightarrow> string \<Rightarrow> int \<Rightarrow> string \<Rightarrow> string option \<Rightarrow> hash_call_data_result res"

type_synonym read_payload_resolver = "lz_sent_event \<Rightarrow> signing_context \<Rightarrow> string res"

type_synonym hash_call_data_builder =
  "lz_sent_event \<Rightarrow> signing_context \<Rightarrow> hash_call_data_result res"

section \<open>The router (router.rs)\<close>

record destination_router =
  default_v2 :: uln_v2_payload_builder
  default_v3 :: uln_v3_payload_builder
  default_read :: uln_read_v1_payload_builder
  v2_by_dst_chain :: "string \<rightharpoonup> uln_v2_payload_builder"
  v3_by_dst_chain :: "string \<rightharpoonup> uln_v3_payload_builder"
  read_by_dst_chain :: "string \<rightharpoonup> uln_read_v1_payload_builder"
  unsupported_non_evm_destinations :: "string set"

definition router_new ::
    "uln_v2_payload_builder \<Rightarrow> uln_v3_payload_builder \<Rightarrow> uln_read_v1_payload_builder \<Rightarrow> destination_router" where
  "router_new v2 v3 read =
     \<lparr> default_v2 = v2, default_v3 = v3, default_read = read,
       v2_by_dst_chain = Map.empty, v3_by_dst_chain = Map.empty, read_by_dst_chain = Map.empty,
       unsupported_non_evm_destinations = {} \<rparr>"

definition with_unsupported_non_evm_destinations ::
    "destination_router \<Rightarrow> string list \<Rightarrow> destination_router" where
  "with_unsupported_non_evm_destinations r chain_names =
     r\<lparr>unsupported_non_evm_destinations := unsupported_non_evm_destinations r \<union> set chain_names\<rparr>"

definition with_chain_builder ::
    "destination_router \<Rightarrow> string \<Rightarrow> uln_v2_payload_builder \<Rightarrow> uln_v3_payload_builder
     \<Rightarrow> uln_read_v1_payload_builder \<Rightarrow> destination_router" where
  "with_chain_builder r chain_name v2 v3 read =
     r\<lparr>v2_by_dst_chain := (v2_by_dst_chain r)(chain_name \<mapsto> v2),
       v3_by_dst_chain := (v3_by_dst_chain r)(chain_name \<mapsto> v3),
       read_by_dst_chain := (read_by_dst_chain r)(chain_name \<mapsto> read)\<rparr>"

definition event_dst :: "lz_sent_event \<Rightarrow> string" where
  "event_dst ev = dst_chain_name (ev_pathway ev)"

definition unsupported_non_evm_destination_error ::
    "destination_router \<Rightarrow> lz_sent_event \<Rightarrow> unit res" where
  "unsupported_non_evm_destination_error r ev =
     (if event_dst ev \<in> unsupported_non_evm_destinations r
      then Inl (Internal (''Unsupported LayerZero destination chain type for '' @ event_dst ev))
      else Inr ())"

definition unwrap_or :: "'a \<Rightarrow> 'a option \<Rightarrow> 'a" where
  "unwrap_or d x = (case x of None \<Rightarrow> d | Some y \<Rightarrow> y)"

definition router_build_uln_v2 :: "destination_router \<Rightarrow> uln_v2_payload_builder" where
  "router_build_uln_v2 r ev block_confirmation expiration v_id =
     and_then (unsupported_non_evm_destination_error r ev) (\<lambda>_.
       unwrap_or (default_v2 r) (v2_by_dst_chain r (event_dst ev)) ev block_confirmation expiration v_id)"

definition router_build_uln_v3 :: "destination_router \<Rightarrow> uln_v3_payload_builder" where
  "router_build_uln_v3 r ev block_confirmation expiration v_id dvn_address =
     and_then (unsupported_non_evm_destination_error r ev) (\<lambda>_.
       unwrap_or (default_v3 r) (v3_by_dst_chain r (event_dst ev)) ev block_confirmation expiration v_id dvn_address)"

definition router_build_uln_read_v1 :: "destination_router \<Rightarrow> uln_read_v1_payload_builder" where
  "router_build_uln_read_v1 r ev resolved_payload expiration v_id dvn_address =
     and_then (unsupported_non_evm_destination_error r ev) (\<lambda>_.
       unwrap_or (default_read r) (read_by_dst_chain r (event_dst ev)) ev resolved_payload expiration v_id dvn_address)"

section \<open>Refused destinations (unavailable_builder.rs)\<close>

definition unavailable_v2 :: "string \<Rightarrow> uln_v2_payload_builder" where
  "unavailable_v2 reason ev block_confirmation expiration v_id = Inl (Internal reason)"

definition unavailable_v3 :: "string \<Rightarrow> uln_v3_payload_builder" where
  "unavailable_v3 reason ev block_confirmation expiration v_id dvn_address = Inl (Internal reason)"

definition unavailable_read :: "string \<Rightarrow> uln_read_v1_payload_builder" where
  "unavailable_read reason ev resolved_payload expiration v_id dvn_address = Inl (Internal reason)"

section \<open>Hash builders (builders.rs)\<close>

definition get_v_id :: "bool option \<Rightarrow> lz_sent_event \<Rightarrow> (string \<rightharpoonup> string) \<Rightarrow> string res" where
  "get_v_id skip_v_id ev v_id_by_chain_name =
     (if skip_v_id = Some True then Inr []
      else ok_or (Internal (''No vId configured for chain '' @ event_dst ev))
             (v_id_by_chain_name (event_dst ev)))"

definition uln_v2_hash_builder ::
    "uln_v2_payload_builder \<Rightarrow> (string \<rightharpoonup> string) \<Rightarrow> hash_call_data_builder" where
  "uln_v2_hash_builder payload_builder v_ids ev ctx =
     (case ctx of
        Message expiration skip_v_id dvn_address block_confirmation \<Rightarrow>
          and_then (get_v_id skip_v_id ev v_ids) (\<lambda>v_id.
            payload_builder ev block_confirmation expiration v_id)
      | Read _ _ _ _ \<Rightarrow> Inl (Internal ''Invalid protocol type for ULN V2''))"

definition uln_v3_hash_builder ::
    "uln_v3_payload_builder \<Rightarrow> (string \<rightharpoonup> string) \<Rightarrow> hash_call_data_builder" where
  "uln_v3_hash_builder payload_builder v_ids ev ctx =
     (case ctx of
        Message expiration skip_v_id dvn_address block_confirmation \<Rightarrow>
          and_then (get_v_id skip_v_id ev v_ids) (\<lambda>v_id.
            payload_builder ev block_confirmation expiration v_id dvn_address)
      | Read _ _ _ _ \<Rightarrow> Inl (Internal ''Invalid protocol type for ULN V3''))"

definition uln_read_v1_hash_builder ::
    "uln_read_v1_payload_builder \<Rightarrow> read_payload_resolver \<Rightarrow> (string \<rightharpoonup> string) \<Rightarrow> hash_call_data_builder" where
  "uln_read_v1_hash_builder payload_builder read_resolver v_ids ev ctx =
     (case ctx of
        Read expiration skip_v_id dvn_address markers \<Rightarrow>
          and_then (read_resolver ev ctx) (\<lambda>resolved_payload.
          and_then (get_v_id skip_v_id ev v_ids) (\<lambda>v_id.
            payload_builder ev resolved_payload expiration v_id dvn_address))
      | Message _ _ _ _ \<Rightarrow> Inl (Internal ''Invalid protocol type for ULN V3''))"

definition build_hash_call_data_builders ::
    "uln_v2_payload_builder \<Rightarrow> uln_v3_payload_builder \<Rightarrow> uln_read_v1_payload_builder
     \<Rightarrow> read_payload_resolver \<Rightarrow> (string \<rightharpoonup> string) \<Rightarrow> (string \<rightharpoonup> hash_call_data_builder)" where
  "build_hash_call_data_builders v2 v3 read read_resolver v_ids =
     [ULN_VERSION_V2 \<mapsto> uln_v2_hash_builder v2 v_ids,
      ULN_VERSION_V301 \<mapsto> uln_v3_hash_builder v3 v_ids,
      ULN_VERSION_V302 \<mapsto> uln_v3_hash_builder v3 v_ids,
      ULN_VERSION_READ_V1002 \<mapsto> uln_read_v1_hash_builder read read_resolver v_ids]"

section \<open>Laws of the router\<close>

text \<open>The routers assembly can reach, by the builder methods.\<close>

inductive assembled :: "destination_router \<Rightarrow> bool" where
  new: "assembled (router_new v2 v3 read)"
| unsupported: "assembled r \<Longrightarrow> assembled (with_unsupported_non_evm_destinations r names)"
| chain: "assembled r \<Longrightarrow> assembled (with_chain_builder r c v2 v3 read)"

definition router_inv :: "destination_router \<Rightarrow> bool" where
  "router_inv r \<longleftrightarrow>
     dom (v2_by_dst_chain r) = dom (v3_by_dst_chain r) \<and> dom (v3_by_dst_chain r) = dom (read_by_dst_chain r)"

lemma assembled_inv: "assembled r \<Longrightarrow> router_inv r"
  by (induction rule: assembled.induct)
    (auto simp: router_inv_def router_new_def with_unsupported_non_evm_destinations_def with_chain_builder_def)

text \<open>The abstract routing decision for a destination.\<close>

datatype route =
    Refused
  | Registered uln_v2_payload_builder uln_v3_payload_builder uln_read_v1_payload_builder
  | Default

definition route_of :: "destination_router \<Rightarrow> string \<Rightarrow> route" where
  "route_of r c =
     (if c \<in> unsupported_non_evm_destinations r then Refused
      else case (v2_by_dst_chain r c, v3_by_dst_chain r c, read_by_dst_chain r c) of
        (Some a, Some b, Some d) \<Rightarrow> Registered a b d
      | _ \<Rightarrow> Default)"

lemma route_of_ops:
  "route_of (router_new v2 v3 read) c = Default"
  "route_of (with_unsupported_non_evm_destinations r names) c = (if c \<in> set names then Refused else route_of r c)"
  "route_of (with_chain_builder r c' v2 v3 read) c =
     (if c = c' \<and> c \<notin> unsupported_non_evm_destinations r then Registered v2 v3 read else route_of r c)"
  by (auto simp: route_of_def router_new_def with_unsupported_non_evm_destinations_def with_chain_builder_def)

text \<open>
  C33: an assembled router implements one routing decision per destination for all three payload
  kinds. A refused destination fails for every kind; a registered one is served by the builders
  registered for it, never by the EVM defaults; only an unregistered one reaches the defaults.
\<close>

theorem router_implements_route:
  assumes "assembled r"
  shows "router_build_uln_v2 r ev bc e v = (case route_of r (event_dst ev) of
      Refused \<Rightarrow> Inl (Internal (''Unsupported LayerZero destination chain type for '' @ event_dst ev))
    | Registered a b d \<Rightarrow> a ev bc e v | Default \<Rightarrow> default_v2 r ev bc e v) \<and>
    router_build_uln_v3 r ev bc e v dvn = (case route_of r (event_dst ev) of
      Refused \<Rightarrow> Inl (Internal (''Unsupported LayerZero destination chain type for '' @ event_dst ev))
    | Registered a b d \<Rightarrow> b ev bc e v dvn | Default \<Rightarrow> default_v3 r ev bc e v dvn) \<and>
    router_build_uln_read_v1 r ev p e v dvn = (case route_of r (event_dst ev) of
      Refused \<Rightarrow> Inl (Internal (''Unsupported LayerZero destination chain type for '' @ event_dst ev))
    | Registered a b d \<Rightarrow> d ev p e v dvn | Default \<Rightarrow> default_read r ev p e v dvn)"
proof -
  let ?c = "event_dst ev"
  have "v2_by_dst_chain r ?c = None \<longleftrightarrow> v3_by_dst_chain r ?c = None"
    "v3_by_dst_chain r ?c = None \<longleftrightarrow> read_by_dst_chain r ?c = None"
    using assembled_inv [OF assms] unfolding router_inv_def by (metis domIff)+
  then show ?thesis
    by (cases "v2_by_dst_chain r ?c"; cases "v3_by_dst_chain r ?c"; cases "read_by_dst_chain r ?c")
      (simp_all add: router_build_uln_v2_def router_build_uln_v3_def router_build_uln_read_v1_def
        unsupported_non_evm_destination_error_def route_of_def unwrap_or_def)
qed

theorem router_implements_route_witness:
  "router_build_uln_v3
     (with_chain_builder (router_new (unavailable_v2 ''d'') (evm_build_uln_v3_verify_payload ref_external sample_builder)
        (unavailable_read ''d'')) ''bsc'' (unavailable_v2 ''no bsc'') (unavailable_v3 ''no bsc'') (unavailable_read ''no bsc''))
     sample_event 15 1000 ''7'' None = Inl (Internal ''no bsc'')"
proof -
  have dst: "event_dst sample_event = ''bsc''"
    by (simp add: event_dst_def ev_pathway_def sample_event_def)
  show ?thesis
    by (subst router_implements_route [OF assembled.chain [OF assembled.new], THEN conjunct2, THEN conjunct1])
      (simp add: dst route_of_ops router_new_def unavailable_v3_def)
qed

section \<open>Laws of the hash builders\<close>

lemma hash_builders_lookup:
  "build_hash_call_data_builders v2 v3 read rr v_ids version =
     (if version = ULN_VERSION_V2 then Some (uln_v2_hash_builder v2 v_ids)
      else if version = ULN_VERSION_V301 \<or> version = ULN_VERSION_V302 then Some (uln_v3_hash_builder v3 v_ids)
      else if version = ULN_VERSION_READ_V1002 then Some (uln_read_v1_hash_builder read rr v_ids)
      else None)"
  by (auto simp: build_hash_call_data_builders_def)

lemma get_v_id_eq_Inr:
  "get_v_id skip ev v_ids = Inr v \<longleftrightarrow>
     (if skip = Some True then v = [] else v_ids (event_dst ev) = Some v)"
  by (auto simp: get_v_id_def res_simps)

text \<open>
  Every payload a hash builder returns carries the vId configured for the packet's destination,
  or none at all, and that only when the request asked to skip it; a V2 or V3 builder answers
  only MESSAGE requests and the read builder only READ requests, with the payload it resolved.
\<close>

theorem hash_builders_v_id_policy:
  assumes "build_hash_call_data_builders v2 v3 read rr v_ids version = Some builder"
    and "builder ev ctx = Inr out"
  shows "\<exists>v. (if ctx_skip_v_id ctx = Some True then v = [] else v_ids (event_dst ev) = Some v) \<and>
    (case ctx of
       Message e s dvn bc \<Rightarrow>
         version = ''V2'' \<and> v2 ev bc e v = Inr out \<or>
         version \<in> {''V301'', ''V302''} \<and> v3 ev bc e v dvn = Inr out
     | Read e s dvn ms \<Rightarrow>
         version = ''ReadV1002'' \<and> (\<exists>p. rr ev ctx = Inr p \<and> read ev p e v dvn = Inr out))"
proof (cases ctx)
  case (Message e s dvn bc)
  with assms obtain v where "get_v_id s ev v_ids = Inr v"
    "version = ''V2'' \<and> v2 ev bc e v = Inr out \<or> version \<in> {''V301'', ''V302''} \<and> v3 ev bc e v dvn = Inr out"
    by (auto simp: hash_builders_lookup uln_v2_hash_builder_def uln_v3_hash_builder_def
        uln_read_v1_hash_builder_def res_simps split: if_splits)
  with Message show ?thesis by (intro exI [of _ v]) (simp add: get_v_id_eq_Inr)
next
  case (Read e s dvn ms)
  with assms obtain p v where "get_v_id s ev v_ids = Inr v" "version = ''ReadV1002''"
    "rr ev ctx = Inr p" "read ev p e v dvn = Inr out"
    by (auto simp: hash_builders_lookup uln_v2_hash_builder_def uln_v3_hash_builder_def
        uln_read_v1_hash_builder_def res_simps split: if_splits)
  with Read show ?thesis by (intro exI [of _ v]) (simp add: get_v_id_eq_Inr)
qed

theorem hash_builders_v_id_policy_witness:
  "\<exists>out. uln_v3_hash_builder (evm_build_uln_v3_verify_payload ref_external sample_builder) [''bsc'' \<mapsto> ''7'']
      sample_event (Message 1000 None None 15) = Inr out \<and>
    evm_build_uln_v3_verify_payload ref_external sample_builder sample_event 15 1000 ''7'' None = Inr out"
proof -
  have dst: "event_dst sample_event = ''bsc''"
    by (simp add: event_dst_def ev_pathway_def sample_event_def)
  obtain out where out:
    "evm_build_uln_v3_verify_payload ref_external sample_builder sample_event 15 1000 ''7'' None = Inr out"
    using sample_v3_build by blast
  let ?v3 = "evm_build_uln_v3_verify_payload ref_external sample_builder"
  let ?bs = "build_hash_call_data_builders (unavailable_v2 []) ?v3 (unavailable_read []) (\<lambda>_ _. Inr []) [''bsc'' \<mapsto> ''7'']"
  have b: "?bs ''V302'' = Some (uln_v3_hash_builder ?v3 [''bsc'' \<mapsto> ''7''])" by (simp add: hash_builders_lookup)
  have o: "uln_v3_hash_builder ?v3 [''bsc'' \<mapsto> ''7''] sample_event (Message 1000 None None 15) = Inr out"
    using out by (simp add: uln_v3_hash_builder_def get_v_id_def dst)
  from hash_builders_v_id_policy [OF b o] o out show ?thesis by (auto simp: dst)
qed

end
