(* ===== verification/Js_Render.thy ===== *)
theory Js_Render
  imports Pillar_Types "HOL-Library.List_Lexorder" "HOL-Library.Char_ord"
begin

text \<open>
  The rendering functions of \<^verbatim>\<open>pillar-core/src/lib.rs\<close>: JSON values as JavaScript prints them, and the
  pathway texts that error messages echo. A double is its bit pattern; the conversion of a JSON
  number to a double and the shortest decimal digits of one (Rust's \<open>{:e}\<close>) are parameters, as is
  the JSON printer of \<open>serde_json\<close>.
\<close>

record js_env =
  number_as_f64 :: "json_number \<Rightarrow> u64"
  lower_exp :: "u64 \<Rightarrow> string \<times> int"
  serde_string :: "json \<Rightarrow> string"

section \<open>Numbers\<close>

definition f64_exponent_bits :: "u64 \<Rightarrow> nat" where
  "f64_exponent_bits b = unat b div 2 ^ 52 mod 2 ^ 11"

definition f64_fraction_bits :: "u64 \<Rightarrow> nat" where
  "f64_fraction_bits b = unat b mod 2 ^ 52"

definition f64_is_nan :: "u64 \<Rightarrow> bool" where
  "f64_is_nan b \<longleftrightarrow> f64_exponent_bits b = 2047 \<and> f64_fraction_bits b \<noteq> 0"

definition f64_is_infinite :: "u64 \<Rightarrow> bool" where
  "f64_is_infinite b \<longleftrightarrow> f64_exponent_bits b = 2047 \<and> f64_fraction_bits b = 0"

definition f64_is_zero :: "u64 \<Rightarrow> bool" where
  "f64_is_zero b \<longleftrightarrow> f64_exponent_bits b = 0 \<and> f64_fraction_bits b = 0"

definition f64_abs :: "u64 \<Rightarrow> u64" where
  "f64_abs b = word_of_nat (unat b mod 2 ^ 63)"

definition f64_negative :: "u64 \<Rightarrow> bool" where
  "f64_negative b \<longleftrightarrow> 2 ^ 63 \<le> unat b \<and> \<not> f64_is_zero b \<and> \<not> f64_is_nan b"

definition show_digits :: "string \<Rightarrow> int \<Rightarrow> string" where
  "show_digits digits n =
     (let k = int (length digits) in
      if k \<le> n \<and> n \<le> 21 then digits @ replicate (nat (n - k)) CHR ''0''
      else if 0 < n \<and> n \<le> 21 then take (nat n) digits @ ''.'' @ drop (nat n) digits
      else if -6 < n \<and> n \<le> 0 then ''0.'' @ replicate (nat (- n)) CHR ''0'' @ digits
      else take 1 digits @ (if k = 1 then [] else ''.'' @ drop 1 digits)
           @ ''e'' @ (if n - 1 < 0 then ''-'' else ''+'') @ show_nat (nat \<bar>n - 1\<bar>))"

definition js_number_f64 :: "js_env \<Rightarrow> u64 \<Rightarrow> string" where
  "js_number_f64 J float =
     (if f64_is_nan float then ''NaN''
      else if f64_is_infinite float then (if f64_negative float then ''-Infinity'' else ''Infinity'')
      else if f64_is_zero float then ''0''
      else let (digits, exponent) = lower_exp J (f64_abs float) in
        (if f64_negative float then ''-'' else []) @ show_digits digits (exponent + 1))"

definition js_number :: "js_env \<Rightarrow> json_number \<Rightarrow> string" where
  "js_number J number = js_number_f64 J (number_as_f64 J number)"

section \<open>Values\<close>

fun join_with :: "string \<Rightarrow> string list \<Rightarrow> string" where
  "join_with sep [] = []"
| "join_with sep [s] = s"
| "join_with sep (s # t # ss) = s @ sep @ join_with sep (t # ss)"

definition quoted :: "js_env \<Rightarrow> string \<Rightarrow> string" where
  "quoted J s = serde_string J (JString s)"

text \<open>An object is printed in key order, the order of the map that holds it.\<close>

fun js_json :: "js_env \<Rightarrow> json \<Rightarrow> string" where
  "js_json J (JNumber n) = js_number J n"
| "js_json J (JArray items) = ''['' @ join_with '','' (map (js_json J) items) @ '']''"
| "js_json J (JObject members) =
     ''{'' @ join_with '',''
       (map snd (sort_key fst (map (\<lambda>(key, item). (key, quoted J key @ '':'' @ js_json J item)) members))) @ ''}''"
| "js_json J v = serde_string J v"

fun js_string :: "js_env \<Rightarrow> json \<Rightarrow> string res" where
  "js_string J JNull = Inr ''null''"
| "js_string J (JBool b) = Inr (if b then ''true'' else ''false'')"
| "js_string J (JNumber n) = Inr (js_number J n)"
| "js_string J (JString s) = Inr s"
| "js_string J (JArray items) =
     and_then (map_res (\<lambda>item. if item = JNull then Inr [] else js_string J item) items) (\<lambda>ss.
       Inr (join_with '','' ss))"
| "js_string J (JObject members) =
     (if ''toString'' \<in> fst ` set members
      then Inl (Internal ''Cannot convert object to primitive value'')
      else Inr ''[object Object]'')"

definition js_string_of :: "js_env \<Rightarrow> json option \<Rightarrow> string res" where
  "js_string_of J v = (case v of None \<Rightarrow> Inr ''undefined'' | Some v \<Rightarrow> js_string J v)"

definition type_error_reading_to_string :: "json option \<Rightarrow> app_core_error" where
  "type_error_reading_to_string v =
     Internal (''Cannot read properties of '' @ (if v \<noteq> None then ''null'' else ''undefined'')
               @ '' (reading 'toString')'')"

section \<open>Pathways\<close>

definition key_text :: "string \<Rightarrow> string" where
  "key_text key = [CHR 0x22] @ key @ [CHR 0x22, CHR '':'']"

definition pathway_json :: "js_env \<Rightarrow> pathway_id \<Rightarrow> string" where
  "pathway_json J p =
     (case (im_get (pathway_extra p) ''srcEid'', im_get (pathway_extra p) ''dstEid'',
            im_get (pathway_extra p) ''sender'', im_get (pathway_extra p) ''receiver'') of
        (Some src_eid, Some dst_eid, Some sender, Some receiver) \<Rightarrow>
          ''{'' @ key_text ''srcEid'' @ js_json J src_eid
          @ '','' @ key_text ''dstEid'' @ js_json J dst_eid
          @ '','' @ key_text ''sender'' @ js_json J sender
          @ '','' @ key_text ''receiver'' @ js_json J receiver
          @ '','' @ key_text ''srcChainName'' @ quoted J (src_chain_name p)
          @ '','' @ key_text ''dstChainName'' @ quoted J (dst_chain_name p) @ ''}''
      | _ \<Rightarrow>
          ''{'' @ join_with '','' (map (\<lambda>(k, v). quoted J k @ '':'' @ serde_string J v)
             ((''srcChainName'', JString (src_chain_name p)) # (''dstChainName'', JString (dst_chain_name p))
              # pathway_extra p)) @ ''}'')"

definition legacy_pathway_json :: "js_env \<Rightarrow> pathway_id \<Rightarrow> string" where
  "legacy_pathway_json J p =
     (let member = (\<lambda>key. case im_get (pathway_extra p) key of None \<Rightarrow> JNull | Some v \<Rightarrow> v);
          optional = (\<lambda>key. case im_get (pathway_extra p) key of
             None \<Rightarrow> [] | Some v \<Rightarrow> [key_text key @ js_json J v]) in
      ''{'' @ join_with '',''
        ([key_text ''srcEid'' @ js_json J (member ''srcEid''),
          key_text ''dstEid'' @ js_json J (member ''dstEid''),
          key_text ''srcChainName'' @ quoted J (src_chain_name p),
          key_text ''dstChainName'' @ quoted J (dst_chain_name p)]
         @ optional ''sender'' @ optional ''receiver'') @ ''}'')"

end
