(* ===== verification/Sign_Workflow.thy ===== *)
theory Sign_Workflow
  imports Builder_Router Js_Render
begin

text \<open>
  The signing workflow of \<^verbatim>\<open>pillar-core/src/lib.rs\<close>: the checks on a request, the resolution of the sent
  event, its validation, the hash that is built and the wallets that sign it, in the order of the
  code. What the collaborators of \<open>PillarApp\<close> (resolver, validator, builders, signers, audit) answer
  is a field of the \<open>pillar_app\<close> record; every call to one of them and every stage observation is an
  entry of the trace a run returns, so that statements can speak about what was called before what.
\<close>

section \<open>Requests, events and errors\<close>

subsection \<open>Shape of a transaction id\<close>

definition is_ascii_alphanumeric :: "char \<Rightarrow> bool" where
  "is_ascii_alphanumeric c \<longleftrightarrow>
     (let n = of_char c :: nat in 48 \<le> n \<and> n \<le> 57 \<or> 65 \<le> n \<and> n \<le> 90 \<or> 97 \<le> n \<and> n \<le> 122)"

definition is_transaction_id_shaped :: "string \<Rightarrow> bool" where
  "is_transaction_id_shaped value =
     (let body = strip_0x value in
      body \<noteq> [] \<and> length body \<le> 128 \<and>
      list_all (\<lambda>c. is_ascii_alphanumeric c \<or> c = CHR ''_'' \<or> c = CHR ''-'') body)"

definition SRC_TX_HASH_SHAPE_ERROR :: string where
  "SRC_TX_HASH_SHAPE_ERROR =
     ''srcTxHash: expected 1-128 characters of [0-9a-zA-Z_-] with an optional 0x prefix''"

subsection \<open>Message hash\<close>

definition hash_sent_event_message_for_pillar :: "external \<Rightarrow> lz_sent_event \<Rightarrow> string res" where
  "hash_sent_event_message_for_pillar X ev =
     (if ev_message ev = [] then Inr []
      else and_then (map_err Internal (hex_decode X (strip_0x (ev_message ev)))) (\<lambda>bs.
        Inr (hex0x X (keccak256 X bs))))"

text \<open>
  Lower-casing is modelled on ASCII: the computed side is \<open>0x\<close> and hexadecimal digits, and no other
  character has one of those as its lower case.
\<close>

definition validate_message_hash_for_pillar ::
    "external \<Rightarrow> pillar_request_v2 \<Rightarrow> lz_sent_event \<Rightarrow> unit res" where
  "validate_message_hash_for_pillar X rq ev =
     and_then (hash_sent_event_message_for_pillar X ev) (\<lambda>h.
       if \<not> eq_ignore_ascii_case (rq_message_hash rq) h
       then Inl (BadRequest (''Message hash mismatch, expected: '' @ rq_message_hash rq @ '', got: '' @ h))
       else Inr ())"

subsection \<open>Expiration\<close>

definition i64_checked_add :: "int \<Rightarrow> int \<Rightarrow> int option" where
  "i64_checked_add a b = (if - (2 ^ 63) \<le> a + b \<and> a + b < 2 ^ 63 then Some (a + b) else None)"

definition EXPIRED_TIMESTAMP_ERROR_PREFIX :: string where
  "EXPIRED_TIMESTAMP_ERROR_PREFIX = ''Expiration has already passed''"

definition validate_expiration_bounds :: "int \<Rightarrow> int \<Rightarrow> int \<Rightarrow> int \<Rightarrow> unit res" where
  "validate_expiration_bounds expiration now maximum_expiration grace =
     and_then (ok_or (BadRequest (''expiration is outside supported range: expiration='' @ show_int expiration))
       (i64_checked_add expiration grace)) (\<lambda>effective.
     if effective < now
     then Inl (BadRequest (EXPIRED_TIMESTAMP_ERROR_PREFIX @ '': expiration='' @ show_int expiration
                 @ '', currentTimestamp='' @ show_int now))
     else
     and_then (ok_or (Internal ''Expiration validation range overflow'')
       (i64_checked_add now maximum_expiration)) (\<lambda>max_allowed.
     if max_allowed < expiration
     then Inl (BadRequest (''expiration is too far in the future: expiration='' @ show_int expiration
                 @ '', maxAllowed='' @ show_int max_allowed))
     else Inr ()))"

subsection \<open>Rebuilding a ULN V2 send for a V3 receive library\<close>

definition hex_address_to_bytes32 :: "external \<Rightarrow> string \<Rightarrow> bytes res" where
  "hex_address_to_bytes32 X address =
     and_then (map_err (\<lambda>e. Internal (''address '' @ address @ '': '' @ e)) (hex_decode X (strip_0x address))) (\<lambda>bs.
       if 32 < length bs then Inl (Internal (''address '' @ address @ '' is longer than 32 bytes''))
       else Inr (left_pad32 bs))"

definition calculate_guid ::
    "external \<Rightarrow> u64 \<Rightarrow> u32 \<Rightarrow> string \<Rightarrow> u32 \<Rightarrow> string \<Rightarrow> string res" where
  "calculate_guid X nonce src_eid sender dst_eid receiver =
     and_then (hex_address_to_bytes32 X sender) (\<lambda>s.
     and_then (hex_address_to_bytes32 X receiver) (\<lambda>r.
       Inr (hex0x X (keccak256 X (u64_to_be nonce @ u32_to_be src_eid @ s @ u32_to_be dst_eid @ r)))))"

definition hydrate_eid :: "lz_sent_event \<Rightarrow> string \<Rightarrow> u32 res" where
  "hydrate_eid ev key =
     ok_or (Internal (''lzMessageId.pathwayId.'' @ key @ '' is not a uint32''))
       (Option.bind (Option.bind (im_get (pathway_extra (ev_pathway ev)) key) as_u64)
          (\<lambda>eid. if unat eid < 2 ^ 32 then Some (ucast eid) else None))"

definition hydrate_options :: "string option \<Rightarrow> json" where
  "hydrate_options gas =
     JObject [(''lzReceive'', JObject [(''gas'', JString (unwrap_or ''200000'' gas)), (''value'', JString ''0'')]),
              (''ordered'', JBool True)]"

definition hydrate_uln_v2_sent_event ::
    "external \<Rightarrow> js_env \<Rightarrow> lz_sent_event \<Rightarrow> string option \<Rightarrow> lz_sent_event res" where
  "hydrate_uln_v2_sent_event X J ev gas =
     (if uln_send_version (ev_lz_message_id ev) \<noteq> JString ''V2''
      then Inl (Internal (''only a ULN V2-sent event can be rebuilt for a V3 receive library, got ''
             @ serde_string J (uln_send_version (ev_lz_message_id ev))))
      else if im_get (ev_extra ev) ''guid'' \<noteq> None
      then Inl (Internal ''a ULN V2-sent event must not already carry a guid'')
      else
      and_then (hydrate_eid ev ''srcEid'') (\<lambda>src_eid.
      and_then (pathway_extra_string ev ''sender'') (\<lambda>sender.
      and_then (hydrate_eid ev ''dstEid'') (\<lambda>dst_eid.
      and_then (pathway_extra_string ev ''receiver'') (\<lambda>receiver.
      and_then (calculate_guid X (msg_nonce (ev_lz_message_id ev)) src_eid sender dst_eid receiver) (\<lambda>guid.
        let extra = im_insert ''payload'' (JString (guid @ strip_0x (ev_message ev)))
              (im_insert ''options'' (hydrate_options gas)
                (im_insert ''guid'' (JString guid) (ev_extra ev))) in
        Inr (ev\<lparr>ev_extra :=
          (case im_get (ev_extra ev) ''packetEmitAddress'' of
             None \<Rightarrow> extra | Some emitter \<Rightarrow> im_insert ''sendLibrary'' emitter extra)\<rparr>)))))))"

subsection \<open>Resolver errors\<close>

fun str_contains :: "string \<Rightarrow> string \<Rightarrow> bool" where
  "str_contains [] needle \<longleftrightarrow> needle = []"
| "str_contains (c # s) needle \<longleftrightarrow> take (length needle) (c # s) = needle \<or> str_contains s needle"

definition PACKET_IDENTITY_MISMATCH_ERROR_SUFFIX :: string where
  "PACKET_IDENTITY_MISMATCH_ERROR_SUFFIX = ''does not match the requested pathway identity''"

definition map_sent_event_error ::
    "js_env \<Rightarrow> app_core_error \<Rightarrow> string \<Rightarrow> lz_message_id \<Rightarrow> app_core_error" where
  "map_sent_event_error J error src_tx_hash m =
     (let message = show_app_core_error error;
          identity_mismatch = (case error of
             BadRequest t \<Rightarrow> str_contains t PACKET_IDENTITY_MISMATCH_ERROR_SUFFIX | _ \<Rightarrow> False) in
      if str_contains message ''NotFoundError'' \<or>
         str_contains message ''Transaction receipt not found for '' \<or>
         str_contains message ''Transaction not found for ''
      then BadRequest (''srcTxHash '' @ src_tx_hash @ '' not found on pathway '' @ pathway_json J (msg_pathway_id m))
      else if str_contains message ''cannot find packet event'' \<or>
         str_contains message ''LZMessage not found'' \<or>
         str_contains message ''Packet does not match lzMessageId'' \<or> identity_mismatch
      then BadRequest (''cannot find packet event for srcTxHash '' @ src_tx_hash @ '' on pathway ''
             @ pathway_json J (msg_pathway_id m))
      else error)"

section \<open>The application\<close>

record signature =
  sig_signature :: string
  sig_address :: string

record debug_info =
  dbg_dvn_hash_call_data :: string
  dbg_details :: json

record pillar_api_response =
  resp_signatures :: "signature list"
  resp_payload :: string
  resp_debug_info :: "debug_info option"

record uln_v2_refreshed_event =
  refreshed_sent_event :: lz_sent_event
  refreshed_lz_receive_gas :: "string option"

datatype sign_stage_status = Success | Failure

datatype action =
    AskReceiveVersion lz_message_id
  | ResolveEvent string lz_message_id
  | RefreshEvent lz_sent_event
  | CheckMessageHash pillar_request_v2 lz_sent_event
  | CheckReadiness lz_sent_event signing_context
  | CheckExpiration string int
  | CheckPayloadSigned lz_sent_event "string option" string "string option"
  | CheckExtraContext lz_sent_event signing_context
  | BuildHash lz_sent_event signing_context
  | PrepareAudit pillar_request_v2 lz_sent_event string
  | Sign string string string
  | Observe string string string sign_stage_status

text \<open>
  The collaborators. \<open>pillar_sign\<close> is the wallet's signer under the audit scope of \<open>sign_wallet\<close>.
\<close>

record pillar_app =
  available_chain_names :: "string list"
  wallets_by_chain_name :: "string \<rightharpoonup> string list"
  hash_call_data_builders :: "string \<rightharpoonup> hash_call_data_builder"
  get_lz_sent_event :: "string \<Rightarrow> lz_message_id \<Rightarrow> lz_sent_event res"
  refresh_uln_v2_sent_event :: "lz_sent_event \<Rightarrow> uln_v2_refreshed_event option res"
  validate_message_hash :: "pillar_request_v2 \<Rightarrow> lz_sent_event \<Rightarrow> unit res"
  validate_readiness :: "lz_sent_event \<Rightarrow> signing_context \<Rightarrow> read_block_pin list res"
  validate_expiration :: "string \<Rightarrow> int \<Rightarrow> unit res"
  validate_payload_signed :: "lz_sent_event \<Rightarrow> string option \<Rightarrow> string \<Rightarrow> string option \<Rightarrow> u64 option res"
  validate_extra_context :: "lz_sent_event \<Rightarrow> signing_context \<Rightarrow> unit res"
  uln_receive_version :: "lz_message_id \<Rightarrow> string res"
  audit_prepare :: "pillar_request_v2 \<Rightarrow> lz_sent_event \<Rightarrow> string \<Rightarrow> unit res"
  pillar_sign :: "string \<Rightarrow> string \<Rightarrow> string \<Rightarrow> signature res"
  debug_mode :: bool

text \<open>A run: the calls made, in order, and the outcome.\<close>

type_synonym 'a run = "action list \<times> 'a res"

fun run_bind :: "'a run \<Rightarrow> ('a \<Rightarrow> 'b run) \<Rightarrow> 'b run" where
  "run_bind (t, Inl e) f = (t, Inl e)"
| "run_bind (t, Inr x) f = (case f x of (t', r) \<Rightarrow> (t @ t', r))"

definition call :: "action \<Rightarrow> 'a res \<Rightarrow> 'a run" where
  "call a r = ([a], r)"

definition pure_run :: "'a res \<Rightarrow> 'a run" where
  "pure_run r = ([], r)"

definition status_of :: "'a res \<Rightarrow> sign_stage_status" where
  "status_of r = (if is_ok r then Success else Failure)"

text \<open>A stage: its calls, then the observation of its outcome.\<close>

fun observed :: "string \<Rightarrow> string \<Rightarrow> string \<Rightarrow> 'a run \<Rightarrow> 'a run" where
  "observed stage src dst (t, r) = (t @ [Observe stage src dst (status_of r)], r)"

section \<open>The workflow\<close>

subsection \<open>Checks on the request\<close>

definition MAX_READ_MARKERS :: nat where
  "MAX_READ_MARKERS = 256 + 1"

definition rq_pathway :: "pillar_request_v2 \<Rightarrow> pathway_id" where
  "rq_pathway rq = msg_pathway_id (rq_lz_message_id rq)"

definition rq_version :: "pillar_request_v2 \<Rightarrow> json" where
  "rq_version rq = uln_send_version (rq_lz_message_id rq)"

definition check_chain_name_availability :: "pillar_app \<Rightarrow> string \<Rightarrow> unit res" where
  "check_chain_name_availability app chain_name =
     (if chain_name \<notin> set (available_chain_names app)
      then Inl (Internal (''Unsupported dst chain '' @ chain_name @ ''. Available chains : ''
             @ join_with '', '' (available_chain_names app) @ '' ''))
      else Inr ())"

definition is_read_context :: "signing_context \<Rightarrow> bool" where
  "is_read_context ctx = (case ctx of Read _ _ _ _ \<Rightarrow> True | Message _ _ _ _ \<Rightarrow> False)"

definition check_protocol :: "js_env \<Rightarrow> pillar_request_v2 \<Rightarrow> unit res" where
  "check_protocol J rq =
     (let requested_read = (rq_version rq = JString ''ReadV1002'') in
      if requested_read \<noteq> is_read_context (rq_signing_context rq)
      then Inl (BadRequest
        (if requested_read then ''Invalid protocol type for ReadV1002 on pathway '' @ pathway_json J (rq_pathway rq)
         else ''READ signing context requires ReadV1002 on pathway '' @ pathway_json J (rq_pathway rq)))
      else Inr ())"

definition check_context_bounds :: "signing_context \<Rightarrow> unit res" where
  "check_context_bounds ctx =
     (case ctx of
        Read _ _ _ markers \<Rightarrow>
          if MAX_READ_MARKERS < length markers
          then Inl (BadRequest (''resolvedTimestampTimeMarkers count exceeds maximum '' @ show_nat MAX_READ_MARKERS))
          else Inr ()
      | Message _ _ _ block_confirmation \<Rightarrow>
          if block_confirmation < 0 then Inl (BadRequest ''blockConfirmation cannot be negative'')
          else Inr ())"

definition check_request :: "pillar_app \<Rightarrow> js_env \<Rightarrow> pillar_request_v2 \<Rightarrow> unit res" where
  "check_request app J rq =
     and_then (check_chain_name_availability app (src_chain_name (rq_pathway rq))) (\<lambda>_.
     and_then (check_chain_name_availability app (dst_chain_name (rq_pathway rq))) (\<lambda>_.
     and_then (check_protocol J rq) (\<lambda>_. check_context_bounds (rq_signing_context rq))))"

subsection \<open>Routing and the hash builder\<close>

definition route_receive_version :: "pillar_app \<Rightarrow> pillar_request_v2 \<Rightarrow> (string option \<times> string option) run" where
  "route_receive_version app rq =
     (if rq_version rq = JString ''V2'' then
        (case uln_receive_version app (rq_lz_message_id rq) of
           Inr version \<Rightarrow>
             call (AskReceiveVersion (rq_lz_message_id rq))
               (Inr (Some version, if version = ''V301'' \<or> version = ''V302'' then Some version else None))
         | Inl error \<Rightarrow>
             ([AskReceiveVersion (rq_lz_message_id rq),
               Observe ''get_sent_event'' (src_chain_name (rq_pathway rq)) (dst_chain_name (rq_pathway rq)) Failure],
              Inl error))
      else pure_run (Inr (None, None)))"

definition select_builder ::
    "pillar_app \<Rightarrow> js_env \<Rightarrow> pillar_request_v2 \<Rightarrow> string option \<Rightarrow> hash_call_data_builder res" where
  "select_builder app J rq routed_version =
     ok_or (BadRequest (''Unsupported hash call data builder version: '' @
         (case routed_version of
            Some version \<Rightarrow> version
          | None \<Rightarrow> (case js_string J (rq_version rq) of Inr s \<Rightarrow> s | Inl _ \<Rightarrow> ''undefined''))))
       (case routed_version of
          Some version \<Rightarrow> hash_call_data_builders app version
        | None \<Rightarrow> Option.bind (as_str (rq_version rq)) (hash_call_data_builders app))"

definition check_skip_v_id :: "pillar_request_v2 \<Rightarrow> string option \<Rightarrow> unit res" where
  "check_skip_v_id rq routed_version =
     (if ctx_skip_v_id (rq_signing_context rq) = Some True \<and>
         (routed_version \<noteq> None \<or> rq_version rq \<noteq> JString ''V2'' \<or>
          dst_chain_name (rq_pathway rq) \<noteq> ''aptos'')
      then Inl (BadRequest ''skipVId is not supported for v2 requests'')
      else Inr ())"

definition check_src_tx_hash :: "pillar_request_v2 \<Rightarrow> unit res" where
  "check_src_tx_hash rq =
     (if is_transaction_id_shaped (rq_src_tx_hash rq) then Inr () else Inl (BadRequest SRC_TX_HASH_SHAPE_ERROR))"

subsection \<open>Resolution\<close>

definition version_text :: "json \<Rightarrow> string" where
  "version_text v = unwrap_or [] (as_str v)"

definition check_resolved_event :: "pillar_request_v2 \<Rightarrow> lz_sent_event \<Rightarrow> unit res" where
  "check_resolved_event rq ev =
     (let resolved = dst_chain_name (ev_pathway ev); requested = dst_chain_name (rq_pathway rq);
          requested_version = version_text (rq_version rq);
          resolved_version = version_text (uln_send_version (ev_lz_message_id ev)) in
      if resolved \<noteq> requested
      then Inl (Internal (''resolved PacketSent destination '' @ resolved
             @ '' does not match requested destination '' @ requested))
      else if resolved_version \<noteq> requested_version
      then Inl (BadRequest (''resolved PacketSent ULN version '' @ resolved_version
             @ '' does not match requested ULN version '' @ requested_version))
      else Inr ())"

definition refresh_routed_event ::
    "external \<Rightarrow> pillar_app \<Rightarrow> js_env \<Rightarrow> pillar_request_v2 \<Rightarrow> lz_sent_event \<Rightarrow> lz_sent_event run" where
  "refresh_routed_event X app J rq ev =
     run_bind (call (RefreshEvent ev)
       (map_err (\<lambda>e. map_sent_event_error J e (rq_src_tx_hash rq) (rq_lz_message_id rq))
          (refresh_uln_v2_sent_event app ev))) (\<lambda>refreshed.
     pure_run
       (and_then (ok_or (BadRequest (''Could not refresh V1 sent event for srcTxHash '' @ rq_src_tx_hash rq
            @ '' on pathway '' @ pathway_json J (rq_pathway rq) @ '' (possible reorg)'')) refreshed) (\<lambda>r.
          hydrate_uln_v2_sent_event X J (refreshed_sent_event r) (refreshed_lz_receive_gas r))))"

definition resolve_sent_event ::
    "external \<Rightarrow> pillar_app \<Rightarrow> js_env \<Rightarrow> pillar_request_v2 \<Rightarrow> string option \<Rightarrow> lz_sent_event run" where
  "resolve_sent_event X app J rq routed_version =
     run_bind (call (ResolveEvent (rq_src_tx_hash rq) (rq_lz_message_id rq))
       (map_err (\<lambda>e. map_sent_event_error J e (rq_src_tx_hash rq) (rq_lz_message_id rq))
          (get_lz_sent_event app (rq_src_tx_hash rq) (rq_lz_message_id rq)))) (\<lambda>ev.
     run_bind (pure_run (check_resolved_event rq ev)) (\<lambda>_.
       if routed_version \<noteq> None then refresh_routed_event X app J rq ev
       else pure_run (Inr ev)))"


subsection \<open>Validation\<close>

text \<open>
  The three checks that race: \<open>join_order\<close> is the order in which they complete, whatever the scheduler's
  hint is. The first to fail is the answer and the others are dropped.
\<close>

datatype join_branch = Readiness | Expiration | PayloadSigned

record schedule =
  completion_hint :: "join_branch list"
  sign_ahead :: nat

definition join_order :: "schedule \<Rightarrow> join_branch list" where
  "join_order sch = remdups (completion_hint sch @ [Readiness, Expiration, PayloadSigned])"

definition verifier_address :: "signing_context \<Rightarrow> string option" where
  "verifier_address ctx =
     (case ctx_dvn_address ctx of None \<Rightarrow> None | Some a \<Rightarrow> if a = [] then None else Some a)"

definition payload_signed_answer ::
    "pillar_app \<Rightarrow> pillar_request_v2 \<Rightarrow> lz_sent_event \<Rightarrow> string option \<Rightarrow> u64 option res" where
  "payload_signed_answer app rq ev receive_version =
     validate_payload_signed app ev (verifier_address (rq_signing_context rq))
       (dst_chain_name (rq_pathway rq)) receive_version"

fun branch_call ::
    "pillar_app \<Rightarrow> pillar_request_v2 \<Rightarrow> lz_sent_event \<Rightarrow> string option \<Rightarrow> join_branch \<Rightarrow> unit run" where
  "branch_call app rq ev receive_version Readiness =
     call (CheckReadiness ev (rq_signing_context rq))
       (map_ok (\<lambda>_. ()) (validate_readiness app ev (rq_signing_context rq)))"
| "branch_call app rq ev receive_version Expiration =
     call (CheckExpiration (dst_chain_name (rq_pathway rq)) (ctx_expiration (rq_signing_context rq)))
       (validate_expiration app (dst_chain_name (rq_pathway rq)) (ctx_expiration (rq_signing_context rq)))"
| "branch_call app rq ev receive_version PayloadSigned =
     call (CheckPayloadSigned ev (verifier_address (rq_signing_context rq)) (dst_chain_name (rq_pathway rq)) receive_version)
       (map_ok (\<lambda>_. ()) (payload_signed_answer app rq ev receive_version))"

fun run_branches :: "('b \<Rightarrow> unit run) \<Rightarrow> 'b list \<Rightarrow> unit run" where
  "run_branches f [] = pure_run (Inr ())"
| "run_branches f (b # bs) = run_bind (f b) (\<lambda>_. run_branches f bs)"

definition try_join_checks ::
    "pillar_app \<Rightarrow> schedule \<Rightarrow> pillar_request_v2 \<Rightarrow> lz_sent_event \<Rightarrow> string option
     \<Rightarrow> (read_block_pin list \<times> u64 option) run" where
  "try_join_checks app sch rq ev receive_version =
     run_bind (run_branches (branch_call app rq ev receive_version) (join_order sch)) (\<lambda>_.
     pure_run
       (and_then (validate_readiness app ev (rq_signing_context rq)) (\<lambda>pins.
        and_then (payload_signed_answer app rq ev receive_version) (\<lambda>required. Inr (pins, required)))))"

definition check_required_confirmations :: "signing_context \<Rightarrow> u64 option \<Rightarrow> unit res" where
  "check_required_confirmations ctx required =
     (case (ctx, required) of
        (Message _ _ _ block_confirmation, Some req) \<Rightarrow>
          if block_confirmation < 0 \<or> nat block_confirmation < unat req
          then Inl (BadRequest (''blockConfirmation '' @ show_int block_confirmation @ '' is below the ''
                 @ show_nat (unat req) @ '' confirmations the destination receive config requires''))
          else Inr ()
      | _ \<Rightarrow> Inr ())"

definition validate_request ::
    "pillar_app \<Rightarrow> schedule \<Rightarrow> pillar_request_v2 \<Rightarrow> lz_sent_event \<Rightarrow> string option \<Rightarrow> read_block_pin list run" where
  "validate_request app sch rq ev receive_version =
     run_bind (call (CheckMessageHash rq ev) (validate_message_hash app rq ev)) (\<lambda>_.
     run_bind (try_join_checks app sch rq ev receive_version) (\<lambda>(pins, required).
     run_bind (pure_run (check_required_confirmations (rq_signing_context rq) required)) (\<lambda>_.
     run_bind (call (CheckExtraContext ev (rq_signing_context rq))
                 (validate_extra_context app ev (rq_signing_context rq))) (\<lambda>_.
       pure_run (Inr pins)))))"

subsection \<open>Signing\<close>

definition MAX_CONCURRENT_WALLET_SIGNS :: nat where
  "MAX_CONCURRENT_WALLET_SIGNS = 8"

text \<open>
  Wallets are started in order, at most eight at a time, and their answers are taken in order: the
  first failure in that order is the answer. By then up to seven later wallets may have been started;
  \<open>sign_ahead\<close> says how many were.
\<close>

definition started_wallets :: "schedule \<Rightarrow> (string \<Rightarrow> signature res) \<Rightarrow> string list \<Rightarrow> string list" where
  "started_wallets sch sign wallets =
     take (length (takeWhile (\<lambda>w. is_ok (sign w)) wallets) + 1
           + min (sign_ahead sch) (MAX_CONCURRENT_WALLET_SIGNS - 1)) wallets"

definition sign_with_wallets ::
    "pillar_app \<Rightarrow> schedule \<Rightarrow> string \<Rightarrow> string \<Rightarrow> signature list run" where
  "sign_with_wallets app sch dst digest =
     run_bind (pure_run (ok_or (Internal (''No wallets configured for chain '' @ dst))
                           (wallets_by_chain_name app dst))) (\<lambda>wallets.
       let sign = (\<lambda>w. pillar_sign app dst w digest) in
       (map (\<lambda>w. Sign dst w digest) (started_wallets sch sign wallets), map_res sign wallets))"

subsection \<open>The response\<close>

definition json_member :: "json \<Rightarrow> string \<Rightarrow> json option" where
  "json_member v key = (case v of JObject members \<Rightarrow> im_get members key | _ \<Rightarrow> None)"

definition proof_pointer :: "json \<Rightarrow> string \<Rightarrow> json option" where
  "proof_pointer details key = Option.bind (json_member details ''proof'') (\<lambda>p. json_member p key)"

definition payload_key :: "lz_sent_event \<Rightarrow> json \<Rightarrow> string" where
  "payload_key ev details =
     (let resolved = proof_pointer details ''resolvedPayload'' in
      if as_str (uln_send_version (ev_lz_message_id ev)) = Some ''ReadV1002'' then
        (case Option.bind resolved as_str of
           Some r \<Rightarrow> if r \<noteq> [] then ''resolvedPayload'' else ''payload''
         | None \<Rightarrow> ''payload'')
      else if resolved \<noteq> None then ''resolvedPayload''
      else ''payload'')"

definition make_response ::
    "pillar_app \<Rightarrow> lz_sent_event \<Rightarrow> hash_call_data_result \<Rightarrow> signature list \<Rightarrow> pillar_api_response" where
  "make_response app ev built signatures =
     \<lparr> resp_signatures = signatures,
       resp_payload = unwrap_or [] (Option.bind (proof_pointer (hc_details built) (payload_key ev (hc_details built))) as_str),
       resp_debug_info =
         (if debug_mode app
          then Some \<lparr> dbg_dvn_hash_call_data = hash_call_data built, dbg_details = hc_details built \<rparr>
          else None) \<rparr>"

subsection \<open>The whole request\<close>

definition build_and_sign ::
    "pillar_app \<Rightarrow> schedule \<Rightarrow> pillar_request_v2 \<Rightarrow> hash_call_data_builder \<Rightarrow> lz_sent_event \<Rightarrow> pillar_api_response run" where
  "build_and_sign app sch rq builder ev =
     (let src = src_chain_name (rq_pathway rq); dst = dst_chain_name (rq_pathway rq) in
      run_bind (observed ''build_hash_call_data'' src dst
        (call (BuildHash ev (rq_signing_context rq)) (builder ev (rq_signing_context rq)))) (\<lambda>built.
      run_bind (call (PrepareAudit rq ev (hash_call_data built)) (audit_prepare app rq ev (hash_call_data built))) (\<lambda>_.
      run_bind (observed ''sign'' src dst (sign_with_wallets app sch dst (hash_call_data built))) (\<lambda>signatures.
        pure_run (Inr (make_response app ev built signatures))))))"

definition sign_request_v2_inner ::
    "external \<Rightarrow> pillar_app \<Rightarrow> js_env \<Rightarrow> schedule \<Rightarrow> pillar_request_v2 \<Rightarrow> pillar_api_response run" where
  "sign_request_v2_inner X app J sch rq =
     (let src = src_chain_name (rq_pathway rq); dst = dst_chain_name (rq_pathway rq) in
      run_bind (pure_run (check_request app J rq)) (\<lambda>_.
      run_bind (route_receive_version app rq) (\<lambda>(receive_version, routed_version).
      run_bind (pure_run (select_builder app J rq routed_version)) (\<lambda>builder.
      run_bind (pure_run (check_skip_v_id rq routed_version)) (\<lambda>_.
      run_bind (pure_run (check_src_tx_hash rq)) (\<lambda>_.
      run_bind (observed ''get_sent_event'' src dst (resolve_sent_event X app J rq routed_version)) (\<lambda>ev.
      run_bind (observed ''validate'' src dst (validate_request app sch rq ev receive_version)) (\<lambda>pins.
        build_and_sign app sch rq builder (ev\<lparr>ev_read_block_pins := pins\<rparr>)))))))))"

text \<open>
  The admission around it: with an execution context that has resources, the run first needs a permit
  of the source chain's lane; \<open>admission\<close> is that acquisition's answer.
\<close>

definition sign_request_v2 ::
    "external \<Rightarrow> pillar_app \<Rightarrow> js_env \<Rightarrow> schedule \<Rightarrow> (string \<Rightarrow> budget_error + unit) option
     \<Rightarrow> pillar_request_v2 \<Rightarrow> pillar_api_response run" where
  "sign_request_v2 X app J sch admission rq =
     run_bind (pure_run (check_chain_name_availability app (src_chain_name (rq_pathway rq)))) (\<lambda>_.
     run_bind (pure_run (check_chain_name_availability app (dst_chain_name (rq_pathway rq)))) (\<lambda>_.
       case admission of
         None \<Rightarrow> sign_request_v2_inner X app J sch rq
       | Some acquire \<Rightarrow>
           run_bind (pure_run (map_err Admission (acquire (src_chain_name (rq_pathway rq))))) (\<lambda>_.
             sign_request_v2_inner X app J sch rq)))"


section \<open>Laws of runs\<close>

named_theorems run_simps

lemma run_bind_ok [run_simps]:
  "snd (run_bind m f) = Inr y \<longleftrightarrow> (\<exists>x. snd m = Inr x \<and> snd (f x) = Inr y)"
  by (cases m; cases "snd m") (auto split: prod.splits)

lemma run_bind_trace [run_simps]:
  "a \<in> set (fst (run_bind m f)) \<longleftrightarrow> a \<in> set (fst m) \<or> (\<exists>x. snd m = Inr x \<and> a \<in> set (fst (f x)))"
  by (cases m; cases "snd m") (auto split: prod.splits)

lemma run_bind_fst:
  "fst (run_bind m f) = fst m @ (case snd m of Inl _ \<Rightarrow> [] | Inr x \<Rightarrow> fst (f x))"
  by (cases m; cases "snd m") (auto split: prod.splits)

lemma call_simps [run_simps]: "snd (call a r) = r" "fst (call a r) = [a]"
  by (simp_all add: call_def)

lemma pure_run_simps [run_simps]: "snd (pure_run r) = r" "fst (pure_run r) = []"
  by (simp_all add: pure_run_def)

lemma observed_ok [run_simps]: "snd (observed stage src dst m) = snd m"
  by (cases m) simp

lemma observed_trace [run_simps]:
  "fst (observed stage src dst m) = fst m @ [Observe stage src dst (status_of (snd m))]"
  by (cases m) simp

lemma run_branches_ok: "snd (run_branches f bs) = Inr u \<longleftrightarrow> (\<forall>b \<in> set bs. snd (f b) = Inr ())"
  by (induction bs) (auto simp: run_simps)

lemma run_branches_trace:
  "a \<in> set (fst (run_branches f bs)) \<Longrightarrow> \<exists>b \<in> set bs. a \<in> set (fst (f b))"
  by (induction bs) (auto simp: run_simps)

lemma join_order_all: "set (join_order sch) = UNIV"
proof -
  have "b \<in> {Readiness, Expiration, PayloadSigned}" for b by (cases b) auto
  then show ?thesis by (auto simp: join_order_def)
qed

lemma all_branches: "(\<forall>b. P b) \<longleftrightarrow> P Readiness \<and> P Expiration \<and> P PayloadSigned"
  by (metis join_branch.exhaust)

lemma try_join_checks_ok:
  "snd (try_join_checks app sch rq ev rv) = Inr (pins, required) \<longleftrightarrow>
     validate_readiness app ev (rq_signing_context rq) = Inr pins \<and>
     validate_expiration app (dst_chain_name (rq_pathway rq)) (ctx_expiration (rq_signing_context rq)) = Inr () \<and>
     payload_signed_answer app rq ev rv = Inr required"
  by (auto simp: try_join_checks_def run_simps run_branches_ok join_order_all all_branches res_simps)

lemma validate_request_ok:
  "snd (validate_request app sch rq ev rv) = Inr pins \<longleftrightarrow>
     validate_message_hash app rq ev = Inr () \<and>
     validate_readiness app ev (rq_signing_context rq) = Inr pins \<and>
     validate_expiration app (dst_chain_name (rq_pathway rq)) (ctx_expiration (rq_signing_context rq)) = Inr () \<and>
     (\<exists>required. payload_signed_answer app rq ev rv = Inr required \<and>
        check_required_confirmations (rq_signing_context rq) required = Inr ()) \<and>
     validate_extra_context app ev (rq_signing_context rq) = Inr ()"
  by (auto simp: validate_request_def run_simps try_join_checks_ok)

subsection \<open>What a run reaches the wallets with\<close>

text \<open>
  Everything that was checked about a request, the event it resolved to and the blocks it was pinned
  to: \<open>rv\<close> is the receive version the validator answered, \<open>routed\<close> the version it is rebuilt for.
\<close>

definition cleared ::
    "external \<Rightarrow> pillar_app \<Rightarrow> js_env \<Rightarrow> pillar_request_v2 \<Rightarrow> string option \<Rightarrow> string option \<Rightarrow> lz_sent_event
     \<Rightarrow> read_block_pin list \<Rightarrow> bool" where
  "cleared X app J rq rv routed ev pins \<longleftrightarrow>
     check_request app J rq = Inr () \<and> snd (route_receive_version app rq) = Inr (rv, routed) \<and>
     check_skip_v_id rq routed = Inr () \<and> is_transaction_id_shaped (rq_src_tx_hash rq) \<and>
     snd (resolve_sent_event X app J rq routed) = Inr ev \<and>
     validate_message_hash app rq ev = Inr () \<and>
     validate_readiness app ev (rq_signing_context rq) = Inr pins \<and>
     validate_expiration app (dst_chain_name (rq_pathway rq)) (ctx_expiration (rq_signing_context rq)) = Inr () \<and>
     (\<exists>required. payload_signed_answer app rq ev rv = Inr required \<and>
        check_required_confirmations (rq_signing_context rq) required = Inr ()) \<and>
     validate_extra_context app ev (rq_signing_context rq) = Inr ()"

lemma no_sign_in_route: "Sign c w d \<notin> set (fst (route_receive_version app rq))"
  by (auto simp: route_receive_version_def run_simps split: sum.splits)

lemma no_sign_in_resolve: "Sign c w d \<notin> set (fst (resolve_sent_event X app J rq routed))"
  by (auto simp: resolve_sent_event_def refresh_routed_event_def run_simps)

lemma no_sign_in_branch: "Sign c w d \<notin> set (fst (branch_call app rq ev rv b))"
  by (cases b) (auto simp: run_simps)

lemma no_sign_in_validate: "Sign c w d \<notin> set (fst (validate_request app sch rq ev rv))"
  using run_branches_trace [of "Sign c w d" "branch_call app rq ev rv"]
  by (auto simp: validate_request_def try_join_checks_def run_simps no_sign_in_branch)

lemmas no_early_sign = no_sign_in_route no_sign_in_resolve no_sign_in_validate

lemma check_src_tx_hash_ok: "check_src_tx_hash rq = Inr u \<longleftrightarrow> is_transaction_id_shaped (rq_src_tx_hash rq)"
  by (simp add: check_src_tx_hash_def)

lemma inner_reaches:
  "snd (sign_request_v2_inner X app J sch rq) = Inr resp \<longleftrightarrow>
     (\<exists>rv routed builder ev pins. cleared X app J rq rv routed ev pins \<and>
        select_builder app J rq routed = Inr builder \<and>
        snd (build_and_sign app sch rq builder (ev\<lparr>ev_read_block_pins := pins\<rparr>)) = Inr resp)"
  unfolding sign_request_v2_inner_def cleared_def Let_def
  by (simp add: run_simps split_paired_Ex validate_request_ok check_src_tx_hash_ok) blast

lemma inner_signs:
  "Sign c w d \<in> set (fst (sign_request_v2_inner X app J sch rq)) \<longleftrightarrow>
     (\<exists>rv routed builder ev pins. cleared X app J rq rv routed ev pins \<and>
        select_builder app J rq routed = Inr builder \<and>
        Sign c w d \<in> set (fst (build_and_sign app sch rq builder (ev\<lparr>ev_read_block_pins := pins\<rparr>))))"
  unfolding sign_request_v2_inner_def cleared_def Let_def
  by (simp add: run_simps split_paired_Ex validate_request_ok check_src_tx_hash_ok no_early_sign) blast

lemma map_res_ok: "map_res f xs = Inr ys \<Longrightarrow> x \<in> set xs \<Longrightarrow> is_ok (f x)"
  by (induction xs arbitrary: ys) (auto simp: res_simps)

lemma started_wallets_subset: "set (started_wallets sch sign ws) \<subseteq> set ws"
  by (simp add: started_wallets_def set_take_subset)

lemma started_wallets_all:
  assumes "map_res sign ws = Inr ss"
  shows "started_wallets sch sign ws = ws"
proof -
  have "takeWhile (\<lambda>w. is_ok (sign w)) ws = ws"
    using map_res_ok [OF assms] by (simp add: takeWhile_eq_all_conv)
  then show ?thesis unfolding started_wallets_def by (simp only:) simp
qed

lemma build_and_sign_signs:
  "Sign c w d \<in> set (fst (build_and_sign app sch rq builder ev)) \<longleftrightarrow>
     c = dst_chain_name (rq_pathway rq) \<and>
     (\<exists>built wallets. builder ev (rq_signing_context rq) = Inr built \<and> d = hash_call_data built \<and>
        audit_prepare app rq ev d = Inr () \<and> wallets_by_chain_name app c = Some wallets \<and>
        w \<in> set (started_wallets sch (\<lambda>w. pillar_sign app c w d) wallets))"
  by (auto simp: build_and_sign_def sign_with_wallets_def run_simps res_simps Let_def)

lemma build_and_sign_ok:
  "snd (build_and_sign app sch rq builder ev) = Inr resp \<longleftrightarrow>
     (\<exists>built wallets ss. builder ev (rq_signing_context rq) = Inr built \<and>
        audit_prepare app rq ev (hash_call_data built) = Inr () \<and>
        wallets_by_chain_name app (dst_chain_name (rq_pathway rq)) = Some wallets \<and>
        map_res (\<lambda>w. pillar_sign app (dst_chain_name (rq_pathway rq)) w (hash_call_data built)) wallets = Inr ss \<and>
        resp = make_response app ev built ss)"
  by (auto simp: build_and_sign_def sign_with_wallets_def run_simps res_simps Let_def)

lemma outer_trace:
  "a \<in> set (fst (sign_request_v2 X app J sch adm rq)) \<Longrightarrow>
     a \<in> set (fst (sign_request_v2_inner X app J sch rq))"
  by (auto simp: sign_request_v2_def run_simps split: option.splits)

lemma outer_ok:
  "snd (sign_request_v2 X app J sch adm rq) = Inr resp \<Longrightarrow>
     snd (sign_request_v2_inner X app J sch rq) = Inr resp"
  by (auto simp: sign_request_v2_def run_simps split: option.splits)

text \<open>
  C2: a wallet is asked to sign only what every check cleared. Whenever a run asks a wallet for a
  signature, it is a wallet configured for the requested destination, the source transaction id is
  well formed, and the digest is the one the selected builder computed from the event that was
  resolved, whose message hash, readiness, expiration, signing state on the destination,
  confirmations and extra context the validator all accepted, with the read blocks it was pinned to.
\<close>

theorem sign_only_cleared:
  assumes "Sign chain wallet digest \<in> set (fst (sign_request_v2 X app J sch adm rq))"
  shows "\<exists>rv routed builder ev pins built wallets.
    cleared X app J rq rv routed ev pins \<and> select_builder app J rq routed = Inr builder \<and>
    builder (ev\<lparr>ev_read_block_pins := pins\<rparr>) (rq_signing_context rq) = Inr built \<and>
    digest = hash_call_data built \<and> chain = dst_chain_name (rq_pathway rq) \<and>
    wallets_by_chain_name app chain = Some wallets \<and> wallet \<in> set wallets"
  using outer_trace [OF assms] started_wallets_subset
  by (fastforce simp: inner_signs build_and_sign_signs)

text \<open>
  C11: a successful response carries one signature of the built digest per wallet of the destination,
  in the wallets' order, and success does not depend on how the racing checks and the wallet
  calls were scheduled.
\<close>

theorem signed_response_complete:
  assumes ok: "snd (sign_request_v2 X app J sch adm rq) = Inr resp"
  shows "\<exists>rv routed builder ev pins built wallets.
    cleared X app J rq rv routed ev pins \<and> select_builder app J rq routed = Inr builder \<and>
    builder (ev\<lparr>ev_read_block_pins := pins\<rparr>) (rq_signing_context rq) = Inr built \<and>
    wallets_by_chain_name app (dst_chain_name (rq_pathway rq)) = Some wallets \<and>
    list_all2 (\<lambda>w s. pillar_sign app (dst_chain_name (rq_pathway rq)) w (hash_call_data built) = Inr s)
      wallets (resp_signatures resp) \<and>
    snd (sign_request_v2 X app J sch' adm rq) = Inr resp"
proof -
  from outer_ok [OF ok] obtain rv routed builder ev pins where c: "cleared X app J rq rv routed ev pins"
    "select_builder app J rq routed = Inr builder"
    and b: "snd (build_and_sign app sch rq builder (ev\<lparr>ev_read_block_pins := pins\<rparr>)) = Inr resp"
    by (auto simp: inner_reaches)
  from b obtain built wallets ss where d: "builder (ev\<lparr>ev_read_block_pins := pins\<rparr>) (rq_signing_context rq) = Inr built"
    "wallets_by_chain_name app (dst_chain_name (rq_pathway rq)) = Some wallets"
    "map_res (\<lambda>w. pillar_sign app (dst_chain_name (rq_pathway rq)) w (hash_call_data built)) wallets = Inr ss"
    "resp = make_response app (ev\<lparr>ev_read_block_pins := pins\<rparr>) built ss"
    by (auto simp: build_and_sign_ok)
  have "snd (build_and_sign app sch' rq builder (ev\<lparr>ev_read_block_pins := pins\<rparr>)) = Inr resp"
    using b by (simp add: build_and_sign_ok)
  with c have "snd (sign_request_v2_inner X app J sch' rq) = Inr resp" unfolding inner_reaches by blast
  with ok have "snd (sign_request_v2 X app J sch' adm rq) = Inr resp"
    by (auto simp: sign_request_v2_def run_simps split: option.splits)
  with c d show ?thesis by (fastforce simp: make_response_def map_res_eq_Inr)
qed


subsection \<open>Stage observations\<close>

definition observations :: "action list \<Rightarrow> (string \<times> sign_stage_status) list" where
  "observations t = concat (map (\<lambda>a. case a of Observe stage src dst status \<Rightarrow> [(stage, status)] | _ \<Rightarrow> []) t)"

definition succeeded :: "string list \<Rightarrow> (string \<times> sign_stage_status) list" where
  "succeeded stages = map (\<lambda>s. (s, Success)) stages"

text \<open>What a failed run may have observed of a sequence of stages: some, the last of them maybe failed.\<close>

definition fails_within :: "string list \<Rightarrow> (string \<times> sign_stage_status) list \<Rightarrow> bool" where
  "fails_within stages obs \<longleftrightarrow>
     (\<exists>k \<le> length stages. obs = succeeded (take k stages)) \<or>
     (\<exists>k < length stages. obs = succeeded (take k stages) @ [(stages ! k, Failure)])"

lemma fails_within_append: "fails_within ts obs \<Longrightarrow> fails_within (ss @ ts) (succeeded ss @ obs)"
  unfolding fails_within_def
proof (elim disjE exE conjE)
  fix k assume "k \<le> length ts" "obs = succeeded (take k ts)"
  then show "(\<exists>k \<le> length (ss @ ts). succeeded ss @ obs = succeeded (take k (ss @ ts))) \<or>
      (\<exists>k < length (ss @ ts). succeeded ss @ obs = succeeded (take k (ss @ ts)) @ [((ss @ ts) ! k, Failure)])"
    by (intro disjI1 exI [of _ "length ss + k"]) (simp add: succeeded_def)
next
  fix k assume "k < length ts" "obs = succeeded (take k ts) @ [(ts ! k, Failure)]"
  then show "(\<exists>k \<le> length (ss @ ts). succeeded ss @ obs = succeeded (take k (ss @ ts))) \<or>
      (\<exists>k < length (ss @ ts). succeeded ss @ obs = succeeded (take k (ss @ ts)) @ [((ss @ ts) ! k, Failure)])"
    by (intro disjI2 exI [of _ "length ss + k"]) (simp add: succeeded_def nth_append)
qed

definition observes :: "string list \<Rightarrow> string list \<Rightarrow> 'a run \<Rightarrow> bool" where
  "observes finished stages m =
     (case snd m of
        Inr _ \<Rightarrow> observations (fst m) = succeeded finished
      | Inl _ \<Rightarrow> fails_within stages (observations (fst m)))"

lemma observations_append: "observations (s @ t) = observations s @ observations t"
  by (simp add: observations_def)

lemma observations_one: "observations [Observe stage src dst status] = [(stage, status)]"
  by (simp add: observations_def)

lemma observes_bind:
  assumes "observes d (d @ rest) m" and "\<And>x. observes d' rest (f x)"
  shows "observes (d @ d') (d @ rest) (run_bind m f)"
proof -
  obtain t r where m: "m = (t, r)" by (cases m)
  show ?thesis
  proof (cases r)
    case (Inl e)
    with assms(1) m show ?thesis by (simp add: observes_def)
  next
    case (Inr x)
    obtain t' r' where f: "f x = (t', r')" by (cases "f x")
    with assms(2) [of x] have "observes d' rest (t', r')" by simp
    moreover have "observations t = succeeded d" using assms(1) m Inr by (simp add: observes_def)
    ultimately show ?thesis
      by (cases r') (simp_all add: m Inr f observes_def observations_append fails_within_append,
          simp add: succeeded_def)
  qed
qed

lemma fails_within_start: "fails_within stages []" "fails_within (s # stages) [(s, Failure)]"
  by (auto simp: fails_within_def succeeded_def)

lemma observes_silent: "observations (fst m) = [] \<Longrightarrow> observes [] stages m"
  by (cases "snd m") (simp_all add: observes_def fails_within_start succeeded_def)

lemma observes_observed:
  "observations (fst m) = [] \<Longrightarrow> observes [s] (s # stages) (observed s src dst m)"
  by (cases "snd m")
    (simp_all add: observes_def run_simps observations_append observations_one fails_within_start
      succeeded_def status_of_def)

lemma observes_bind0:
  "observes [] stages m \<Longrightarrow> (\<And>x. observes d stages (f x)) \<Longrightarrow> observes d stages (run_bind m f)"
  using observes_bind [of "[]" stages m d f] by simp

lemma observes_bind1:
  "observes [s] (s # stages) m \<Longrightarrow> (\<And>x. observes d stages (f x)) \<Longrightarrow> observes (s # d) (s # stages) (run_bind m f)"
  using observes_bind [of "[s]" stages m d f] by simp


definition silent :: "'a run \<Rightarrow> bool" where
  "silent m \<longleftrightarrow> observations (fst m) = []"

lemma silent_bind: "silent m \<Longrightarrow> (\<And>x. silent (f x)) \<Longrightarrow> silent (run_bind m f)"
  by (cases m; cases "snd m") (auto simp: silent_def observations_append split: prod.splits, metis fst_conv)

lemma silent_pure: "silent (pure_run r)"
  by (simp add: silent_def run_simps observations_def)

lemma silent_branches: "(\<And>b. silent (f b)) \<Longrightarrow> silent (run_branches f bs)"
  by (induction bs) (auto intro: silent_bind silent_pure)

lemma silent_branch: "silent (branch_call app rq ev rv b)"
  by (cases b) (simp_all add: silent_def run_simps observations_def)

lemma silent_resolve: "silent (resolve_sent_event X app J rq routed)"
  unfolding resolve_sent_event_def refresh_routed_event_def
  by (intro silent_bind) (simp_all add: silent_def run_simps observations_def run_bind_fst)


lemma silent_validate: "silent (validate_request app sch rq ev rv)"
  unfolding validate_request_def try_join_checks_def
  by (intro silent_bind silent_branches silent_branch silent_pure)
    (simp_all add: silent_def run_simps observations_def run_bind_fst split: prod.splits sum.splits)

lemma silent_sign: "silent (sign_with_wallets app sch dst digest)"
  unfolding sign_with_wallets_def
  by (intro silent_bind silent_pure) (simp add: silent_def observations_def Let_def)

lemmas silents = silent_resolve silent_validate silent_sign

lemma build_and_sign_observes:
  "observes [''build_hash_call_data'', ''sign''] [''build_hash_call_data'', ''sign'']
     (build_and_sign app sch rq builder ev)"
  unfolding build_and_sign_def Let_def
  by (intro observes_bind1 observes_bind0 observes_observed observes_silent)
    (simp_all add: run_simps silent_sign [unfolded silent_def], simp_all add: observations_def)

definition stages :: "string list" where
  "stages = [''get_sent_event'', ''validate'', ''build_hash_call_data'', ''sign'']"

lemma route_observes: "observes [] stages (route_receive_version app rq)"
  by (simp add: route_receive_version_def observes_def call_def pure_run_def stages_def succeeded_def
      observations_def fails_within_start split: sum.splits)

lemma observes_bind0_pair:
  "observes [] stages m \<Longrightarrow> (\<And>a b. observes d stages (f a b)) \<Longrightarrow>
     observes d stages (run_bind m (\<lambda>(a, b). f a b))"
  by (rule observes_bind0) auto

lemma inner_observes: "observes stages stages (sign_request_v2_inner X app J sch rq)"
proof -
  have tail: "observes stages stages
      (run_bind (observed ''get_sent_event'' src dst (resolve_sent_event X app J rq routed)) (\<lambda>ev.
       run_bind (observed ''validate'' src dst (validate_request app sch rq ev rv)) (\<lambda>pins.
         build_and_sign app sch rq builder (ev\<lparr>ev_read_block_pins := pins\<rparr>))))" for src dst routed rv builder
    unfolding stages_def
    by (intro observes_bind1 observes_observed build_and_sign_observes silents [unfolded silent_def])
  show ?thesis
    unfolding sign_request_v2_inner_def Let_def
    by (intro observes_bind0_pair observes_bind0 tail route_observes)
      (simp_all add: observes_silent run_simps observations_def)
qed

text \<open>
  The stage observer sees the four stages in order. A successful run reports each of them once, as
  a success; a failed one reports an initial part of them, all successes but the last, which may
  be the failure.
\<close>

theorem stage_observations:
  "case sign_request_v2 X app J sch adm rq of
     (trace, Inr _) \<Rightarrow> observations trace =
       [(''get_sent_event'', Success), (''validate'', Success), (''build_hash_call_data'', Success), (''sign'', Success)]
   | (trace, Inl _) \<Rightarrow> fails_within [''get_sent_event'', ''validate'', ''build_hash_call_data'', ''sign''] (observations trace)"
proof -
  have "observes stages stages (sign_request_v2 X app J sch adm rq)"
    unfolding sign_request_v2_def
    by (intro observes_bind0)
      (auto simp: observes_silent run_simps observations_def inner_observes intro!: observes_bind0
        split: option.splits)
  then show ?thesis
    by (auto simp: observes_def stages_def succeeded_def split: prod.splits sum.splits)
qed


subsection \<open>Requests without a vId\<close>

text \<open>
  A signature over a payload without a vId is only ever asked for an Aptos destination. If a run
  whose request skips the vId reaches a wallet, the destination is Aptos, the send is a ULN V2
  one, and it was not rerouted to a V3 receive library.
\<close>

theorem skip_v_id_only_aptos:
  assumes "Sign chain wallet digest \<in> set (fst (sign_request_v2 X app J sch adm rq))"
    and "ctx_skip_v_id (rq_signing_context rq) = Some True"
  shows "chain = ''aptos'' \<and> rq_version rq = JString ''V2'' \<and>
    snd (route_receive_version app rq) \<in> {Inr (Some v, None) | v. v \<noteq> ''V301'' \<and> v \<noteq> ''V302''}"
proof -
  from outer_trace [OF assms(1)] obtain rv routed ev pins where "cleared X app J rq rv routed ev pins"
    "chain = dst_chain_name (rq_pathway rq)" by (auto simp: inner_signs build_and_sign_signs)
  then show ?thesis
    using assms(2)
    by (auto simp: cleared_def check_skip_v_id_def route_receive_version_def run_simps split: if_splits sum.splits)
qed

subsection \<open>Message hash\<close>

text \<open>
  The message hash check accepts exactly the Keccak digest of the decoded message, in either letter
  case; an empty message is matched by an empty hash only, and undecodable text by none.
\<close>

lemma message_hash_exact:
  "validate_message_hash_for_pillar X rq ev = Inr () \<longleftrightarrow>
     (if ev_message ev = [] then rq_message_hash rq = []
      else \<exists>bs. hex_decode X (strip_0x (ev_message ev)) = Inr bs \<and>
        eq_ignore_ascii_case (rq_message_hash rq) (keccak256_hex X bs))"
  by (auto simp: validate_message_hash_for_pillar_def hash_sent_event_message_for_pillar_def res_simps
      keccak256_hex_def eq_ignore_ascii_case_def split: if_splits)

subsection \<open>Rebuilt events\<close>

lemma hex_address_native:
  assumes "hex_ok X" "hex_address_to_bytes32 X a = Inr b"
  shows "native_address_to_bytes32 X a = Inr b"
proof -
  from assms(2) obtain bs where bs: "hex_decode X (strip_0x a) = Inr bs" "length bs \<le> 32" "b = left_pad32 bs"
    by (auto simp: hex_address_to_bytes32_def res_simps split: if_splits)
  then have "even (length (strip_0x a))" using hex_okD(3) [OF assms(1) bs(1)] by simp
  with bs show ?thesis
    by (simp add: native_address_to_bytes32_def address_to_bytes32_def decode_hex_bytes_def)
qed

lemma hydrate_eq_Inr:
  assumes "hydrate_uln_v2_sent_event X J ev gas = Inr ev'"
  obtains src dst sender receiver s r guid where
    "extra_u32 ev ''srcEid'' = Inr src" "extra_u32 ev ''dstEid'' = Inr dst"
    "pathway_extra_string ev ''sender'' = Inr sender" "pathway_extra_string ev ''receiver'' = Inr receiver"
    "hex_address_to_bytes32 X sender = Inr s" "hex_address_to_bytes32 X receiver = Inr r"
    "guid = hex0x X (keccak256 X (u64_to_be (msg_nonce (ev_lz_message_id ev)) @ u32_to_be src @ s @ u32_to_be dst @ r))"
    "optional_extra_string ev' ''guid'' = Some guid"
    "optional_extra_string ev' ''payload'' = Some (guid @ strip_0x (ev_message ev))"
    "ev_lz_message_id ev' = ev_lz_message_id ev" "ev_message ev' = ev_message ev"
proof -
  have eid: "hydrate_eid ev k = Inr e \<Longrightarrow> extra_u32 ev k = Inr e" for k e
    by (auto simp: hydrate_eid_def extra_u32_def extra_u64_def res_simps bind_eq_Some_conv split: if_splits)
  from assms obtain src dst sender receiver guid where g: "hydrate_eid ev ''srcEid'' = Inr src"
    "hydrate_eid ev ''dstEid'' = Inr dst"
    "pathway_extra_string ev ''sender'' = Inr sender" "pathway_extra_string ev ''receiver'' = Inr receiver"
    "calculate_guid X (msg_nonce (ev_lz_message_id ev)) src sender dst receiver = Inr guid"
    and e: "optional_extra_string ev' ''guid'' = Some guid"
    "optional_extra_string ev' ''payload'' = Some (guid @ strip_0x (ev_message ev))"
    "ev_lz_message_id ev' = ev_lz_message_id ev" "ev_message ev' = ev_message ev"
    by (auto simp: hydrate_uln_v2_sent_event_def res_simps Let_def optional_extra_string_def
        split: if_splits option.splits)
  from g(5) obtain s r where "hex_address_to_bytes32 X sender = Inr s" "hex_address_to_bytes32 X receiver = Inr r"
    "guid = hex0x X (keccak256 X (u64_to_be (msg_nonce (ev_lz_message_id ev)) @ u32_to_be src @ s @ u32_to_be dst @ r))"
    by (auto simp: calculate_guid_def res_simps)
  with g e eid that show ?thesis by blast
qed

text \<open>
  An event rebuilt for a V3 receive library carries the guid of its own packet header. When a ULN
  V2 send with a decodable message is rebuilt, its proof can be computed, the message and the
  message id are unchanged, and the guid is the Keccak digest of the header after its version byte.
\<close>

theorem hydrated_guid_matches_header:
  assumes X: "hex_ok X" "digest_ok X" and h: "hydrate_uln_v2_sent_event X J ev gas = Inr ev'"
    and m: "decode_hex_bytes X (ev_message ev) = Inr message"
  shows "\<exists>route pr. proof_from_event X ev' = Inr pr \<and> packet_header pr = hex0x X (1 # route) \<and>
    extra_string ev' ''guid'' = Inr (hex0x X (keccak256 X route)) \<and>
    ev_message ev' = ev_message ev \<and> ev_lz_message_id ev' = ev_lz_message_id ev"
proof -
  from h obtain src dst sender receiver s r guid where e:
    "extra_u32 ev ''srcEid'' = Inr src" "extra_u32 ev ''dstEid'' = Inr dst"
    "pathway_extra_string ev ''sender'' = Inr sender" "pathway_extra_string ev ''receiver'' = Inr receiver"
    "hex_address_to_bytes32 X sender = Inr s" "hex_address_to_bytes32 X receiver = Inr r"
    "guid = hex0x X (keccak256 X (u64_to_be (msg_nonce (ev_lz_message_id ev)) @ u32_to_be src @ s @ u32_to_be dst @ r))"
    "optional_extra_string ev' ''guid'' = Some guid"
    "ev_lz_message_id ev' = ev_lz_message_id ev" "ev_message ev' = ev_message ev"
    by (rule hydrate_eq_Inr)
  let ?p = "\<lparr> pk_nonce = msg_nonce (ev_lz_message_id ev), pk_src_eid = src, pk_sender = sender,
              pk_dst_eid = dst, pk_receiver = receiver, pk_guid = guid, pk_message = ev_message ev \<rparr>"
  have p: "packet_from_event ev' = Inr ?p"
    using e by (simp add: packet_from_event_def extra_u32_def extra_u64_def pathway_extra_string_def
        ev_pathway_def extra_string_def)
  have "is_ok (encode_lz_packet_v1 X ?p)"
    using X m e hex_address_native by (simp add: encode_lz_packet_v1_def digest_okD)
  then obtain pr where pr: "compute_lz_packet_v1_proof X ?p = Inr pr"
    by (auto simp: compute_lz_packet_v1_proof_def is_ok_iff)
  from pr obtain s' r' where s': "native_address_to_bytes32 X sender = Inr s'"
    "native_address_to_bytes32 X receiver = Inr r'"
    and "packet_header pr = hex0x X ([1] @ u64_to_be (msg_nonce (ev_lz_message_id ev)) @ u32_to_be src
       @ s' @ u32_to_be dst @ r')"
    by (rule compute_proof_Inr) simp
  moreover have "s' = s" "r' = r" using s' e hex_address_native [OF X(1)] by auto
  ultimately show ?thesis
    using p pr e
    by (intro exI [of _ "u64_to_be (msg_nonce (ev_lz_message_id ev)) @ u32_to_be src @ s @ u32_to_be dst @ r"] exI [of _ pr])
      (simp add: proof_from_event_def compute_lz_packet_v1_proof_from_event_def extra_string_def)
qed


section \<open>A concrete run\<close>

definition sample_js :: js_env where
  "sample_js = \<lparr> number_as_f64 = (\<lambda>_. 0), lower_exp = (\<lambda>_. (''1'', 0)), serde_string = (\<lambda>_. ''x'') \<rparr>"

definition sample_v3 :: uln_v3_payload_builder where
  "sample_v3 = evm_build_uln_v3_verify_payload ref_external sample_builder"

definition accepting_app :: "lz_sent_event \<Rightarrow> (string \<rightharpoonup> hash_call_data_builder) \<Rightarrow> pillar_app" where
  "accepting_app ev builders =
     \<lparr> available_chain_names = [''ethereum'', ''bsc'', ''aptos''],
       wallets_by_chain_name = (\<lambda>_. Some [''w1'', ''w2'']),
       hash_call_data_builders = builders,
       get_lz_sent_event = (\<lambda>_ _. Inr ev), refresh_uln_v2_sent_event = (\<lambda>_. Inr None),
       validate_message_hash = validate_message_hash_for_pillar ref_external,
       validate_readiness = (\<lambda>_ _. Inr []), validate_expiration = (\<lambda>_ _. Inr ()),
       validate_payload_signed = (\<lambda>_ _ _ _. Inr (Some 15)), validate_extra_context = (\<lambda>_ _. Inr ()),
       uln_receive_version = (\<lambda>_. Inr ''V2''), audit_prepare = (\<lambda>_ _ _. Inr ()),
       pillar_sign = (\<lambda>chain wallet digest. Inr \<lparr> sig_signature = wallet @ digest, sig_address = wallet \<rparr>),
       debug_mode = False \<rparr>"

definition sample_app :: pillar_app where
  "sample_app = accepting_app sample_event
     (build_hash_call_data_builders (unavailable_v2 []) sample_v3 (unavailable_read []) (\<lambda>_ _. Inr []) [''bsc'' \<mapsto> ''7''])"

definition sample_request :: pillar_request_v2 where
  "sample_request =
     \<lparr> rq_src_tx_hash = ''0xabc'', rq_lz_message_id = ev_lz_message_id sample_event,
       rq_signing_context = Message 1000 None None 15,
       rq_message_hash = keccak256_hex ref_external [4] \<rparr>"

definition sample_schedule :: schedule where
  "sample_schedule = \<lparr> completion_hint = [PayloadSigned], sign_ahead = 3 \<rparr>"

lemma sample_hash:
  assumes "ev_message ev = hex0x ref_external [4]" "rq_message_hash rq = keccak256_hex ref_external [4]"
  shows "validate_message_hash_for_pillar ref_external rq ev = Inr ()"
proof -
  have "hex_decode ref_external (strip_0x (hex0x ref_external [4])) = Inr [4]"
    using hex_okD(1) [OF ref_external_hex_ok, of "[4]"] by (simp add: hex0x_def with_0x_def)
  then show ?thesis
    using assms by (simp add: validate_message_hash_for_pillar_def hash_sent_event_message_for_pillar_def
        keccak256_hex_def eq_ignore_ascii_case_def hex0x_def with_0x_def)
qed

lemma sample_pathway: "dst_chain_name (rq_pathway sample_request) = ''bsc''"
  "src_chain_name (rq_pathway sample_request) = ''ethereum''" "rq_version sample_request = JString ''V302''"
  "rq_signing_context sample_request = Message 1000 None None 15" "rq_src_tx_hash sample_request = ''0xabc''"
  by (simp_all add: sample_request_def sample_event_def rq_pathway_def rq_version_def)

lemma sample_tx_shaped: "is_transaction_id_shaped ''0xabc''"
  by (simp add: is_transaction_id_shaped_def is_ascii_alphanumeric_def)

lemma sample_cleared: "cleared ref_external sample_app sample_js sample_request None None sample_event []"
proof -
  have "check_resolved_event sample_request sample_event = Inr ()"
    by (simp add: check_resolved_event_def sample_request_def sample_event_def rq_pathway_def rq_version_def ev_pathway_def)
  moreover have "validate_message_hash_for_pillar ref_external sample_request sample_event = Inr ()"
    by (rule sample_hash) (simp_all add: sample_event_def sample_request_def)
  ultimately show ?thesis
    by (simp add: cleared_def sample_pathway sample_tx_shaped check_request_def check_chain_name_availability_def
        check_protocol_def is_read_context_def check_context_bounds_def route_receive_version_def run_simps
        check_skip_v_id_def resolve_sent_event_def payload_signed_answer_def check_required_confirmations_def
        sample_app_def accepting_app_def)
qed

lemma sample_builder_selected:
  "select_builder sample_app sample_js sample_request None = Inr (uln_v3_hash_builder sample_v3 [''bsc'' \<mapsto> ''7''])"
  by (simp add: select_builder_def sample_pathway sample_app_def accepting_app_def hash_builders_lookup)

lemma sample_built:
  "\<exists>built. uln_v3_hash_builder sample_v3 [''bsc'' \<mapsto> ''7''] (sample_event\<lparr>ev_read_block_pins := []\<rparr>)
     (rq_signing_context sample_request) = Inr built"
proof -
  have "sample_event\<lparr>ev_read_block_pins := []\<rparr> = sample_event" by (simp add: sample_event_def)
  moreover have "event_dst sample_event = ''bsc''" by (simp add: event_dst_def ev_pathway_def sample_event_def)
  ultimately show ?thesis
    using sample_v3_build [of None] by (simp add: sample_pathway uln_v3_hash_builder_def get_v_id_def sample_v3_def)
qed

lemma sample_inner_response:
  "\<exists>resp. snd (sign_request_v2_inner ref_external sample_app sample_js sch sample_request) = Inr resp"
proof -
  obtain built where "uln_v3_hash_builder sample_v3 [''bsc'' \<mapsto> ''7''] (sample_event\<lparr>ev_read_block_pins := []\<rparr>)
     (rq_signing_context sample_request) = Inr built" using sample_built by blast
  then have "\<exists>resp. snd (build_and_sign sample_app sch sample_request (uln_v3_hash_builder sample_v3 [''bsc'' \<mapsto> ''7''])
      (sample_event\<lparr>ev_read_block_pins := []\<rparr>)) = Inr resp"
    by (simp add: build_and_sign_ok sample_pathway) (simp add: sample_app_def accepting_app_def)
  then show ?thesis
    unfolding inner_reaches using sample_cleared sample_builder_selected by blast
qed

lemma sample_response:
  "\<exists>resp. snd (sign_request_v2 ref_external sample_app sample_js sch None sample_request) = Inr resp"
  using sample_inner_response [of sch]
  by (simp add: sign_request_v2_def run_simps sample_pathway check_chain_name_availability_def)
    (simp add: sample_app_def accepting_app_def)

lemma sample_signs:
  "\<exists>d. Sign ''bsc'' ''w1'' d \<in> set (fst (sign_request_v2 ref_external sample_app sample_js sch None sample_request))"
proof -
  obtain built where b: "uln_v3_hash_builder sample_v3 [''bsc'' \<mapsto> ''7''] (sample_event\<lparr>ev_read_block_pins := []\<rparr>)
     (rq_signing_context sample_request) = Inr built" using sample_built by blast
  then have "Sign ''bsc'' ''w1'' (hash_call_data built) \<in> set (fst (build_and_sign sample_app sch sample_request
      (uln_v3_hash_builder sample_v3 [''bsc'' \<mapsto> ''7'']) (sample_event\<lparr>ev_read_block_pins := []\<rparr>)))"
    by (simp add: build_and_sign_signs sample_pathway)
      (simp add: sample_app_def accepting_app_def started_wallets_def)
  then have "Sign ''bsc'' ''w1'' (hash_call_data built) \<in>
      set (fst (sign_request_v2_inner ref_external sample_app sample_js sch sample_request))"
    unfolding inner_signs using sample_cleared sample_builder_selected by blast
  then show ?thesis
    by (intro exI [of _ "hash_call_data built"])
      (simp add: sign_request_v2_def run_simps sample_pathway check_chain_name_availability_def,
       simp add: sample_app_def accepting_app_def)
qed

theorem sign_only_cleared_witness:
  "\<exists>d rv routed ev pins. Sign ''bsc'' ''w1'' d \<in>
      set (fst (sign_request_v2 ref_external sample_app sample_js sample_schedule None sample_request)) \<and>
    cleared ref_external sample_app sample_js sample_request rv routed ev pins"
  using sample_signs [of sample_schedule] sign_only_cleared by blast

theorem signed_response_complete_witness:
  "\<exists>resp. snd (sign_request_v2 ref_external sample_app sample_js sample_schedule None sample_request) = Inr resp \<and>
    length (resp_signatures resp) = 2"
proof -
  obtain resp where r: "snd (sign_request_v2 ref_external sample_app sample_js sample_schedule None sample_request) = Inr resp"
    using sample_response by blast
  have "wallets_by_chain_name sample_app (dst_chain_name (rq_pathway sample_request)) = Some [''w1'', ''w2'']"
    by (simp add: sample_app_def accepting_app_def)
  with signed_response_complete [OF r, of sample_schedule] r show ?thesis
    by (auto dest!: list_all2_lengthD)
qed


text \<open>A ULN V2 send to Aptos that skips the vId, and one to be rebuilt.\<close>

definition aptos_event :: lz_sent_event where
  "aptos_event = sample_event
     \<lparr> ev_lz_message_id :=
         \<lparr> msg_pathway_id =
             \<lparr> src_chain_name = ''ethereum'', dst_chain_name = ''aptos'',
               pathway_extra = pathway_extra (ev_pathway sample_event) \<rparr>,
           msg_nonce = 9, uln_send_version = JString ''V2'' \<rparr>,
       ev_extra := [] \<rparr>"

definition aptos_app :: pillar_app where
  "aptos_app = accepting_app aptos_event
     [''V2'' \<mapsto> uln_v2_hash_builder (\<lambda>_ _ _ _. Inr \<lparr> hash_call_data = ''0x00'', hc_details = JNull \<rparr>) Map.empty]"

definition aptos_request :: pillar_request_v2 where
  "aptos_request = sample_request
     \<lparr> rq_lz_message_id := ev_lz_message_id aptos_event, rq_signing_context := Message 1000 (Some True) None 15 \<rparr>"

lemma aptos_pathway: "dst_chain_name (rq_pathway aptos_request) = ''aptos''"
  "src_chain_name (rq_pathway aptos_request) = ''ethereum''" "rq_version aptos_request = JString ''V2''"
  "rq_signing_context aptos_request = Message 1000 (Some True) None 15" "rq_src_tx_hash aptos_request = ''0xabc''"
  "rq_message_hash aptos_request = rq_message_hash sample_request"
  by (simp_all add: aptos_request_def aptos_event_def sample_request_def rq_pathway_def rq_version_def)

lemma aptos_cleared: "cleared ref_external aptos_app sample_js aptos_request (Some ''V2'') None aptos_event []"
proof -
  have "check_resolved_event aptos_request aptos_event = Inr ()"
    by (simp add: check_resolved_event_def aptos_request_def aptos_event_def rq_pathway_def rq_version_def ev_pathway_def)
  moreover have "validate_message_hash_for_pillar ref_external aptos_request aptos_event = Inr ()"
    by (rule sample_hash) (simp_all add: aptos_event_def sample_event_def aptos_request_def sample_request_def)
  ultimately show ?thesis
    by (simp add: cleared_def aptos_pathway sample_tx_shaped check_request_def check_chain_name_availability_def
        check_protocol_def is_read_context_def check_context_bounds_def route_receive_version_def run_simps
        check_skip_v_id_def resolve_sent_event_def payload_signed_answer_def check_required_confirmations_def
        aptos_app_def accepting_app_def)
qed

lemma aptos_signs:
  "Sign ''aptos'' ''w1'' ''0x00'' \<in> set (fst (sign_request_v2 ref_external aptos_app sample_js sch None aptos_request))"
proof -
  let ?b = "uln_v2_hash_builder (\<lambda>_ _ _ _. Inr \<lparr> hash_call_data = ''0x00'', hc_details = JNull \<rparr>) Map.empty"
  have "select_builder aptos_app sample_js aptos_request None = Inr ?b"
    by (simp add: select_builder_def aptos_pathway aptos_app_def accepting_app_def)
  moreover have "Sign ''aptos'' ''w1'' ''0x00'' \<in>
      set (fst (build_and_sign aptos_app sch aptos_request ?b (aptos_event\<lparr>ev_read_block_pins := []\<rparr>)))"
    by (simp add: build_and_sign_signs aptos_pathway uln_v2_hash_builder_def get_v_id_def)
      (simp add: aptos_app_def accepting_app_def started_wallets_def)
  ultimately have "Sign ''aptos'' ''w1'' ''0x00'' \<in>
      set (fst (sign_request_v2_inner ref_external aptos_app sample_js sch aptos_request))"
    unfolding inner_signs using aptos_cleared by blast
  then show ?thesis
    by (simp add: sign_request_v2_def run_simps aptos_pathway check_chain_name_availability_def)
      (simp add: aptos_app_def accepting_app_def)
qed

theorem skip_v_id_only_aptos_witness:
  "ctx_skip_v_id (rq_signing_context aptos_request) = Some True \<and> rq_version aptos_request = JString ''V2''"
proof -
  have "ctx_skip_v_id (rq_signing_context aptos_request) = Some True" by (simp add: aptos_pathway)
  with skip_v_id_only_aptos [OF aptos_signs this] show ?thesis by simp
qed

theorem hydrated_guid_matches_header_witness:
  "\<exists>ev' pr. hydrate_uln_v2_sent_event ref_external sample_js aptos_event None = Inr ev' \<and>
    proof_from_event ref_external ev' = Inr pr"
proof -
  have "hex_address_to_bytes32 ref_external (hex0x ref_external bs) = Inr (left_pad32 bs)" if "length bs = 20" for bs
    using hex_okD(1) [OF ref_external_hex_ok, of bs] that by (simp add: hex_address_to_bytes32_def hex0x_def with_0x_def)
  then obtain ev' where h: "hydrate_uln_v2_sent_event ref_external sample_js aptos_event None = Inr ev'"
    by (simp add: hydrate_uln_v2_sent_event_def aptos_event_def sample_event_def hydrate_eid_def
        pathway_extra_string_def ev_pathway_def calculate_guid_def Let_def)
  have "decode_hex_bytes ref_external (ev_message aptos_event) = Inr [4]"
    using ref_external_hex_ok by (simp add: aptos_event_def sample_event_def)
  from hydrated_guid_matches_header [OF ref_external_hex_ok ref_external_digest_ok h this] h show ?thesis by blast
qed

end
