(* ===== verification/Adapter_Params.thy ===== *)
theory Adapter_Params
  imports Abi_Codec
begin

text \<open>
  \<^verbatim>\<open>pillar-layerzero/src/adapter_params.rs\<close>: the adapter parameters of a ULN V2 send, of which only the
  gas reaches the hydrated event.
\<close>

section \<open>Definitions\<close>

definition ULN_V2_RELAYER_PARAMS_TOPIC :: string where
  "ULN_V2_RELAYER_PARAMS_TOPIC =
     ''0xb0c632f55f1e1b3b2c3d82f41ee4716bb4c00f0f5d84cdafc141581bb8757a4f''"

definition ULN_V2_PACKET_TOPIC :: string where
  "ULN_V2_PACKET_TOPIC =
     ''0xe9bded5f24a4168e4f3bf44e00298c993b22376aad8c58c7dda9718a54cbea82''"

definition DEFAULT_ADAPTER_PARAMS_SELECTOR :: string where
  "DEFAULT_ADAPTER_PARAMS_SELECTOR = ''2a819bbf''"

definition decode_uln_v2_relayer_params_log :: "bytes \<Rightarrow> (bytes \<times> u16) res" where
  "decode_uln_v2_relayer_params_log data =
     and_then (abi_dynamic_bytes data 0 2) (\<lambda>adapter_params.
     and_then (abi_word data 1) (\<lambda>word.
       Inr (adapter_params, u16_from_be [word ! 30, word ! 31])))"

text \<open>Rust's \<open>{:0wx}\<close>: lower-case hexadecimal digits, padded with zeros to the width.\<close>

fun show_hex :: "nat \<Rightarrow> string" where
  "show_hex n = (if n < 16 then [hex_digit n] else show_hex (n div 16) @ [hex_digit (n mod 16)])"

declare show_hex.simps [simp del]

definition hex_padded :: "nat \<Rightarrow> nat \<Rightarrow> string" where
  "hex_padded w n = replicate (w - length (show_hex n)) CHR ''0'' @ show_hex n"

definition encode_uln_v2_default_adapter_params_call :: "u16 \<Rightarrow> u16 \<Rightarrow> string" where
  "encode_uln_v2_default_adapter_params_call dst_eid proof_type =
     ''0x'' @ DEFAULT_ADAPTER_PARAMS_SELECTOR @ hex_padded 64 (unat dst_eid) @ hex_padded 64 (unat proof_type)"

definition decode_abi_bytes_return :: "bytes \<Rightarrow> bytes res" where
  "decode_abi_bytes_return data = abi_dynamic_bytes data 0 1"

definition evm_adapter_params_gas :: "external \<Rightarrow> bytes \<Rightarrow> string option" where
  "evm_adapter_params_gas X raw =
     (if length raw < 3 then None
      else Some (biguint_be_to_string X (slice 2 (min (length raw) 34) raw)))"

record aptos_adapter_params =
  aap_kind :: u16
  aap_gas :: u64
  aap_airdrop_amount :: u64
  aap_airdrop_address :: bytes

definition invalid_adapter_params :: app_core_error where
  "invalid_adapter_params = Internal ''invalid adapter params''"

definition u64_at :: "bytes \<Rightarrow> nat \<Rightarrow> u64" where
  "u64_at raw start = u64_from_be (slice start (start + 8) raw)"

definition decode_aptos_adapter_params :: "bytes \<Rightarrow> aptos_adapter_params res" where
  "decode_aptos_adapter_params raw =
     (case raw of
        high # low # _ \<Rightarrow>
          let kind = ucast high * 256 + ucast low :: u16;
              valid = (if kind = 1 then length raw = 10
                       else if kind = 2 then 18 < length raw else False) in
          if \<not> valid then Inl invalid_adapter_params
          else Inr \<lparr> aap_kind = kind, aap_gas = u64_at raw 2,
                     aap_airdrop_amount = (if kind = 2 then u64_at raw 10 else 0),
                     aap_airdrop_address = (if kind = 2 then drop 18 raw else []) \<rparr>
      | _ \<Rightarrow> Inl invalid_adapter_params)"

definition aptos_adapter_params_gas :: "bytes \<Rightarrow> string res" where
  "aptos_adapter_params_gas raw =
     and_then (decode_aptos_adapter_params raw) (\<lambda>p. Inr (show_nat (unat (aap_gas p))))"

fun node_buffer_from_hex :: "string \<Rightarrow> bytes" where
  "node_buffer_from_hex (high # low # rest) =
     (case (hex_value high, hex_value low) of
        (Some h, Some l) \<Rightarrow> word_of_nat (h * 16 + l) # node_buffer_from_hex rest
      | _ \<Rightarrow> [])"
| "node_buffer_from_hex _ = []"

section \<open>Laws\<close>

lemma u16_head:
  "(ucast (h :: byte) * 256 + ucast (l :: byte) :: u16) = u16_from_be [h, l]"
  by (simp add: u16_from_be_def be_decode_def)

lemma u16_be_split: "2 \<le> length raw \<Longrightarrow> \<exists>h l rest. raw = h # l # rest"
  by (cases raw rule: remdups_adj.cases) auto

lemma aptos_params_layout:
  assumes "raw = u16_to_be k @ rest"
  shows "decode_aptos_adapter_params raw =
    (if k = 1 \<and> length rest = 8 then
       Inr \<lparr> aap_kind = 1, aap_gas = u64_from_be rest, aap_airdrop_amount = 0, aap_airdrop_address = [] \<rparr>
     else if k = 2 \<and> 16 < length rest then
       Inr \<lparr> aap_kind = 2, aap_gas = u64_from_be (take 8 rest),
             aap_airdrop_amount = u64_from_be (take 8 (drop 8 rest)), aap_airdrop_address = drop 16 rest \<rparr>
     else Inl invalid_adapter_params)"
proof -
  have "length (u16_to_be k) = 2" by simp
  then obtain h l where hl: "u16_to_be k = [h, l]"
    by (metis (no_types, opaque_lifting) Suc_length_conv length_0_conv numeral_2_eq_2)
  then have "(ucast h * 256 + ucast l :: u16) = k"
    using u16_be.dec_enc [of k] by (simp add: u16_head)
  then show ?thesis
    unfolding assms hl by (simp add: decode_aptos_adapter_params_def u64_at_def slice_def)
qed

lemma aptos_params_head:
  assumes "decode_aptos_adapter_params raw = Inr p"
  shows "\<exists>k rest. raw = u16_to_be k @ rest"
proof -
  from assms obtain h l rest where "raw = [h, l] @ rest"
    by (auto simp: decode_aptos_adapter_params_def split: list.splits)
  moreover have "[h, l] = u16_to_be (u16_from_be [h, l])" by (simp add: u16_be.enc_dec)
  ultimately show ?thesis by metis
qed

text \<open>
  The Aptos adapter parameters accept exactly two layouts, and read the fields they carry: type 1
  is the 2-byte type and the gas, type 2 has also the native amount and a non-empty receiver.
\<close>

lemma aptos_adapter_params_exact:
  "decode_aptos_adapter_params raw = Inr p \<longleftrightarrow>
     (\<exists>gas. raw = u16_to_be 1 @ u64_to_be gas \<and>
        p = \<lparr> aap_kind = 1, aap_gas = gas, aap_airdrop_amount = 0, aap_airdrop_address = [] \<rparr>) \<or>
     (\<exists>gas amount address. raw = u16_to_be 2 @ u64_to_be gas @ u64_to_be amount @ address \<and> address \<noteq> [] \<and>
        p = \<lparr> aap_kind = 2, aap_gas = gas, aap_airdrop_amount = amount, aap_airdrop_address = address \<rparr>)"
    (is "?L \<longleftrightarrow> ?R")
proof
  assume l: ?L
  from aptos_params_head [OF l] obtain k rest where raw: "raw = u16_to_be k @ rest" by blast
  consider "k = 1" "length rest = 8" | "k = 2" "16 < length rest"
    using l aptos_params_layout [OF raw] by (auto split: if_splits)
  then show ?R
  proof cases
    case 1
    then have "rest = u64_to_be (u64_from_be rest)" by (simp add: u64_be.enc_dec)
    with 1 l raw aptos_params_layout [OF raw] show ?thesis by auto
  next
    case 2
    then have "rest = u64_to_be (u64_from_be (take 8 rest)) @ u64_to_be (u64_from_be (take 8 (drop 8 rest)))
        @ drop 16 rest"
      by (simp add: u64_be.enc_dec) (metis append_take_drop_id drop_drop numeral_Bit0)
    moreover have "drop 16 rest \<noteq> []" using 2 by simp
    ultimately show ?thesis
      using 2 l raw aptos_params_layout [OF raw] by (intro disjI2) auto
  qed
next
  assume ?R
  then show ?L
  proof (elim disjE exE conjE, goal_cases)
    case (1 gas)
    then show ?case using aptos_params_layout [OF 1(1)] by (simp add: u64_be.dec_enc)
  next
    case (2 gas amount address)
    then have "16 < length (u64_to_be gas @ u64_to_be amount @ address)" by simp
    then show ?case using aptos_params_layout [OF 2(1)] 2 by (simp add: u64_be.dec_enc)
  qed
qed

text \<open>Node's lenient reader inverts a hexadecimal encoding and stops at the first bad pair.\<close>

lemma node_buffer_encoded: "node_buffer_from_hex (ref_hex_encode bs @ rest) = bs @ node_buffer_from_hex rest"
proof (induction bs)
  case (Cons b bs)
  have "unat b div 16 < 16"
    using unat_byte_less [of b] by (simp add: less_mult_imp_div_less)
  moreover have "word_of_nat (unat b div 16 * 16 + unat b mod 16) = b"
    by (simp only: div_mult_mod_eq) simp
  ultimately show ?case
    using Cons by (simp add: hex_value_digit)
qed simp

lemma node_buffer_bad_pair:
  "hex_value h = None \<or> hex_value l = None \<Longrightarrow>
     node_buffer_from_hex (ref_hex_encode bs @ h # l # rest) = bs"
  by (auto simp: node_buffer_encoded split: option.splits)

end
