(* ===== verification/Fair_Budget.thy ===== *)
theory Fair_Budget
  imports Pillar_Types
begin

text \<open>
  \<^verbatim>\<open>pillar-core/src/execution.rs\<close>: the fair admission budget. Lanes share a number of active permits; a
  lane, a resource and a lane on a resource have caps of their own; waiters queue per lane and
  are granted round robin. Every operation runs under one lock, so an operation is one step of
  the state. A waiter shared by a queue and its registration is an entry of a store, named by
  its index; its entry keeps the lane that its registration holds. Waking is not modelled: a
  registration that polls sees its waiter's state.
\<close>

section \<open>State\<close>

record budget_limits =
  lim_active :: nat
  lim_per_lane :: nat
  lim_waiting :: nat
  lim_per_lane_waiting :: nat
  lim_wait :: nat

datatype outcome =
    OutSuccess | OutError | OutCancelled | OutTimedOut | OutOverloaded | OutWaitExpired
  | OutShutdown | OutPanic | OutUnknown

fun outcome_index :: "outcome \<Rightarrow> nat" where
  "outcome_index OutSuccess = 0"
| "outcome_index OutError = 1"
| "outcome_index OutCancelled = 2"
| "outcome_index OutTimedOut = 3"
| "outcome_index OutOverloaded = 4"
| "outcome_index OutWaitExpired = 5"
| "outcome_index OutShutdown = 6"
| "outcome_index OutPanic = 7"
| "outcome_index OutUnknown = 8"

fun outcome_str :: "outcome \<Rightarrow> string" where
  "outcome_str OutSuccess = ''success''"
| "outcome_str OutError = ''error''"
| "outcome_str OutCancelled = ''cancelled''"
| "outcome_str OutTimedOut = ''timed_out''"
| "outcome_str OutOverloaded = ''overloaded''"
| "outcome_str OutWaitExpired = ''wait_expired''"
| "outcome_str OutShutdown = ''shutdown''"
| "outcome_str OutPanic = ''panic''"
| "outcome_str OutUnknown = ''outcome_unknown''"

definition default_lane_resource_limit :: "nat \<Rightarrow> nat \<Rightarrow> nat" where
  "default_lane_resource_limit resource_limit per_lane =
     (if resource_limit \<le> 1 then 1 else max (min (resource_limit - 1) per_lane) 1)"

text \<open>The atomic state of a waiter: 0 waiting, 1 granted, 2 dropped, 3 closed.\<close>

record waiter =
  w_state :: nat
  w_resource :: "string option"
  w_lane :: nat

record lane =
  lane_active :: nat
  lane_limit :: nat
  lane_queue :: "nat list"

record shared =
  names :: "string list"
  limits :: budget_limits
  resource_limit :: nat
  lane_resource_limit :: "nat option"

record budget_state =
  st_active :: nat
  st_waiting :: nat
  st_next :: nat
  st_closed :: bool
  st_lanes :: "lane list"
  st_resource_active :: "string \<rightharpoonup> nat"
  st_lane_resource_active :: "(string \<rightharpoonup> nat) list"
  st_waiters :: "waiter list"
  st_outcomes :: "nat list list"
  st_started :: "nat list"
  st_skipped :: nat

section \<open>Construction\<close>

definition initial_state :: "nat \<Rightarrow> budget_limits \<Rightarrow> budget_state" where
  "initial_state n lims =
     \<lparr> st_active = 0, st_waiting = 0, st_next = 0, st_closed = False,
       st_lanes = replicate n \<lparr> lane_active = 0, lane_limit = lim_per_lane lims, lane_queue = [] \<rparr>,
       st_resource_active = Map.empty, st_lane_resource_active = replicate n Map.empty,
       st_waiters = [], st_outcomes = replicate n (replicate 9 0), st_started = replicate n 0, st_skipped = 0 \<rparr>"

definition budget_build ::
    "string list \<Rightarrow> budget_limits \<Rightarrow> nat \<Rightarrow> nat option \<Rightarrow> string + shared \<times> budget_state" where
  "budget_build ns lims res lane_res =
     (if [] \<in> set ns \<or> \<not> distinct ns then Inl ''resource lanes must be unique and nonempty''
      else if ns = [] \<or> lim_active lims = 0 \<or> lim_per_lane lims = 0 \<or> lim_active lims < lim_per_lane lims \<or>
              res = 0 \<or> lim_wait lims = 0 \<or> (1 < length ns \<and> lim_active lims \<le> lim_per_lane lims)
      then Inl ''resource limits must reserve headroom for another lane''
      else Inr (\<lparr> names = ns, limits = lims, resource_limit = res, lane_resource_limit = lane_res \<rparr>,
                initial_state (length ns) lims))"

definition budget_new :: "string list \<Rightarrow> budget_limits \<Rightarrow> string + shared \<times> budget_state" where
  "budget_new ns lims = budget_build ns lims (lim_per_lane lims) None"

definition with_resource_limit ::
    "string list \<Rightarrow> budget_limits \<Rightarrow> nat \<Rightarrow> string + shared \<times> budget_state" where
  "with_resource_limit ns lims res = budget_build ns lims res None"

definition with_lane_resource_limit ::
    "string list \<Rightarrow> budget_limits \<Rightarrow> nat \<Rightarrow> nat \<Rightarrow> string + shared \<times> budget_state" where
  "with_lane_resource_limit ns lims res lane_res =
     (if lane_res = 0 \<or> res < lane_res \<or> (1 < res \<and> res \<le> lane_res)
      then Inl ''lane resource limit must leave headroom within the resource limit''
      else budget_build ns lims res (Some lane_res))"

section \<open>Granting\<close>

fun find_index :: "('a \<Rightarrow> bool) \<Rightarrow> 'a list \<Rightarrow> nat option" where
  "find_index P [] = None"
| "find_index P (x # xs) = (if P x then Some 0 else map_option Suc (find_index P xs))"

definition lane_position :: "shared \<Rightarrow> string \<Rightarrow> nat option" where
  "lane_position cfg name = find_index (\<lambda>n. n = name) (names cfg)"

definition count_of :: "(string \<rightharpoonup> nat) \<Rightarrow> string \<Rightarrow> nat" where
  "count_of m key = (case m key of None \<Rightarrow> 0 | Some n \<Rightarrow> n)"

definition count_incr :: "(string \<rightharpoonup> nat) \<Rightarrow> string \<Rightarrow> (string \<rightharpoonup> nat)" where
  "count_incr m key = m(key \<mapsto> count_of m key + 1)"

definition count_decr :: "(string \<rightharpoonup> nat) \<Rightarrow> string \<Rightarrow> (string \<rightharpoonup> nat)" where
  "count_decr m key =
     (case m key of None \<Rightarrow> m | Some n \<Rightarrow> if n - 1 = 0 then m(key := None) else m(key \<mapsto> n - 1))"

definition can_grant :: "shared \<Rightarrow> budget_state \<Rightarrow> nat \<Rightarrow> string option \<Rightarrow> bool" where
  "can_grant cfg s i resource \<longleftrightarrow>
     st_active s < lim_active (limits cfg) \<and>
     lane_active (st_lanes s ! i) < lane_limit (st_lanes s ! i) \<and>
     (case resource of
        None \<Rightarrow> True
      | Some key \<Rightarrow>
          count_of (st_resource_active s) key < resource_limit cfg \<and>
          (case lane_resource_limit cfg of
             None \<Rightarrow> True
           | Some lim \<Rightarrow> count_of (st_lane_resource_active s ! i) key < lim))"

definition set_waiter :: "nat \<Rightarrow> nat \<Rightarrow> budget_state \<Rightarrow> budget_state" where
  "set_waiter wid v s = s\<lparr>st_waiters := (st_waiters s)[wid := (st_waiters s ! wid)\<lparr>w_state := v\<rparr>]\<rparr>"

definition set_lane :: "nat \<Rightarrow> lane \<Rightarrow> budget_state \<Rightarrow> budget_state" where
  "set_lane i l s = s\<lparr>st_lanes := (st_lanes s)[i := l]\<rparr>"

definition grant :: "shared \<Rightarrow> budget_state \<Rightarrow> nat \<Rightarrow> nat \<Rightarrow> budget_state" where
  "grant cfg s i wid =
     (let l = st_lanes s ! i;
          s1 = set_lane i (l\<lparr>lane_active := lane_active l + 1\<rparr>) (s\<lparr>st_active := st_active s + 1\<rparr>);
          s2 = (case w_resource (st_waiters s ! wid) of
                  None \<Rightarrow> s1
                | Some key \<Rightarrow>
                    s1\<lparr>st_resource_active := count_incr (st_resource_active s) key,
                       st_lane_resource_active :=
                         (if lane_resource_limit cfg \<noteq> None
                          then (st_lane_resource_active s)[i := count_incr (st_lane_resource_active s ! i) key]
                          else st_lane_resource_active s)\<rparr>) in
      set_waiter wid 1 s2)"

fun first_some :: "('a \<Rightarrow> 'b option) \<Rightarrow> 'a list \<Rightarrow> 'b option" where
  "first_some f [] = None"
| "first_some f (x # xs) = (case f x of Some y \<Rightarrow> Some y | None \<Rightarrow> first_some f xs)"

text \<open>The scan of the lanes from the next one, for the first waiter of a lane that can be granted.\<close>

definition select_waiter :: "shared \<Rightarrow> budget_state \<Rightarrow> (nat \<times> nat) option" where
  "select_waiter cfg s =
     first_some (\<lambda>offset.
         let i = (st_next s + offset) mod length (st_lanes s) in
         map_option (\<lambda>pos. (i, pos))
           (find_index (\<lambda>wid. can_grant cfg s i (w_resource (st_waiters s ! wid))) (lane_queue (st_lanes s ! i))))
       [0..<length (st_lanes s)]"

definition remove_at :: "nat \<Rightarrow> 'a list \<Rightarrow> 'a list" where
  "remove_at pos xs = take pos xs @ drop (Suc pos) xs"

definition grant_queued :: "shared \<Rightarrow> budget_state \<Rightarrow> nat \<Rightarrow> nat \<Rightarrow> budget_state" where
  "grant_queued cfg s i pos =
     (let l = st_lanes s ! i;
          wid = lane_queue l ! pos;
          s1 = set_lane i (l\<lparr>lane_queue := remove_at pos (lane_queue l)\<rparr>) (s\<lparr>st_waiting := st_waiting s - 1\<rparr>) in
      (grant cfg s1 i wid)\<lparr>st_next := (i + 1) mod length (st_lanes s)\<rparr>)"

lemma grant_active [simp]: "st_active (grant cfg s i wid) = st_active s + 1"
  by (simp add: grant_def set_waiter_def set_lane_def Let_def split: option.splits)

lemma grant_queued_active [simp]: "st_active (grant_queued cfg s i pos) = st_active s + 1"
  by (simp add: grant_queued_def set_lane_def Let_def)

function dispatch_loop :: "shared \<Rightarrow> budget_state \<Rightarrow> budget_state" where
  "dispatch_loop cfg s =
     (if st_active s < lim_active (limits cfg) then
        (case select_waiter cfg s of
           None \<Rightarrow> s
         | Some (i, pos) \<Rightarrow> dispatch_loop cfg (grant_queued cfg s i pos))
      else s)"
  by pat_completeness auto
termination
  by (relation "measure (\<lambda>(cfg, s). lim_active (limits cfg) - st_active s)") auto

declare dispatch_loop.simps [simp del]

definition dispatch :: "shared \<Rightarrow> budget_state \<Rightarrow> budget_state" where
  "dispatch cfg s = (if st_closed s then s else dispatch_loop cfg s)"

section \<open>Operations\<close>

definition count_outcome :: "nat \<Rightarrow> outcome \<Rightarrow> budget_state \<Rightarrow> budget_state" where
  "count_outcome i out s =
     s\<lparr>st_outcomes := (st_outcomes s)
        [i := (st_outcomes s ! i)[outcome_index out := st_outcomes s ! i ! outcome_index out + 1]]\<rparr>"

definition count_started :: "nat \<Rightarrow> budget_state \<Rightarrow> budget_state" where
  "count_started i s = s\<lparr>st_started := (st_started s)[i := st_started s ! i + 1]\<rparr>"

definition new_waiter :: "nat \<Rightarrow> string option \<Rightarrow> budget_state \<Rightarrow> budget_state" where
  "new_waiter i resource s =
     s\<lparr>st_waiters := st_waiters s @ [\<lparr> w_state = 0, w_resource = resource, w_lane = i \<rparr>]\<rparr>"

definition cap_lane :: "shared \<Rightarrow> budget_state \<Rightarrow> string \<Rightarrow> nat \<Rightarrow> string + budget_state" where
  "cap_lane cfg s lane limit =
     (case lane_position cfg lane of
        None \<Rightarrow> Inl ''unconfigured resource lane''
      | Some i \<Rightarrow>
          if limit = 0 \<or> lim_per_lane (limits cfg) < limit \<or> (\<exists>c \<in> set (st_started s). c \<noteq> 0)
          then Inl ''lane cap must be set before resource use''
          else Inr (set_lane i ((st_lanes s ! i)\<lparr>lane_limit := limit\<rparr>) s))"

definition lane_capacity :: "shared \<Rightarrow> budget_state \<Rightarrow> string \<Rightarrow> nat option" where
  "lane_capacity cfg s lane = map_option (\<lambda>i. lane_limit (st_lanes s ! i)) (lane_position cfg lane)"

definition admission_deadline :: "shared \<Rightarrow> nat option \<Rightarrow> nat \<Rightarrow> nat" where
  "admission_deadline cfg ctx_deadline now =
     (case ctx_deadline of
        None \<Rightarrow> now + lim_wait (limits cfg)
      | Some d \<Rightarrow> min d (now + lim_wait (limits cfg)))"

definition enqueue :: "nat \<Rightarrow> nat \<Rightarrow> budget_state \<Rightarrow> budget_state" where
  "enqueue i wid s =
     set_lane i ((st_lanes s ! i)\<lparr>lane_queue := lane_queue (st_lanes s ! i) @ [wid]\<rparr>)
       (s\<lparr>st_waiting := st_waiting s + 1\<rparr>)"

text \<open>
  The locked part of \<open>acquire_for\<close>: an error, or the waiter of the registration it then polls. \<open>late\<close> says
  that the deadline has passed when the lock is held.
\<close>

definition acquire_locked ::
    "shared \<Rightarrow> budget_state \<Rightarrow> nat \<Rightarrow> string option \<Rightarrow> bool \<Rightarrow> (budget_error + nat) \<times> budget_state" where
  "acquire_locked cfg s i resource late =
     (let s1 = count_started i s in
      if st_closed s1 then (Inl Closed, count_outcome i OutShutdown s1)
      else if late then (Inl Deadline, count_outcome i OutTimedOut s1)
      else let s2 = dispatch cfg s1; q = lane_queue (st_lanes s2 ! i); wid = length (st_waiters s2) in
        if can_grant cfg s2 i resource then (Inr wid, grant cfg (new_waiter i resource s2) i wid)
        else if lim_per_lane_waiting (limits cfg) \<le> length q \<or>
                (lim_waiting (limits cfg) \<le> st_waiting s2 \<and> (lim_waiting (limits cfg) = 0 \<or> q \<noteq> []))
        then (Inl Overloaded, count_outcome i OutOverloaded s2)
        else (Inr wid, dispatch cfg (enqueue i wid (new_waiter i resource s2))))"

text \<open>
  \<open>acquire_for\<close> up to the registration it polls. \<open>now\<close> is read before the lock is taken and \<open>locked_at\<close>
  while it is held.
\<close>

definition acquire_for ::
    "shared \<Rightarrow> budget_state \<Rightarrow> string \<Rightarrow> string option \<Rightarrow> nat option \<Rightarrow> nat \<Rightarrow> nat \<Rightarrow> (budget_error + nat) \<times> budget_state" where
  "acquire_for cfg s lane resource ctx_deadline now locked_at =
     (case lane_position cfg lane of
        None \<Rightarrow> (Inl UnknownLane, s)
      | Some i \<Rightarrow> acquire_locked cfg s i resource (admission_deadline cfg ctx_deadline now \<le> locked_at))"

datatype poll = Granted | Failed budget_error outcome | Pending

definition expired_poll :: "nat option \<Rightarrow> nat \<Rightarrow> poll" where
  "expired_poll ctx_deadline now =
     (if (case ctx_deadline of None \<Rightarrow> False | Some at \<Rightarrow> at \<le> now)
      then Failed Deadline OutTimedOut else Failed WaitExpired OutWaitExpired)"

text \<open>The head of the waiting loop: the checks of one turn, which reads the clock and the waiter once. \<open>Pending\<close> goes on to the await.\<close>

definition acquire_poll :: "budget_state \<Rightarrow> nat \<Rightarrow> nat option \<Rightarrow> nat \<Rightarrow> nat \<Rightarrow> poll" where
  "acquire_poll s wid ctx_deadline deadline now =
     (if w_state (st_waiters s ! wid) = 1 \<and> now < deadline then Granted
      else if deadline \<le> now then expired_poll ctx_deadline now
      else if w_state (st_waiters s ! wid) = 3 then Failed Closed OutShutdown
      else Pending)"

text \<open>
  The await, \<open>timeout_at(deadline, wake.notified())\<close>, is the timer of another crate and an argument of the loop: from the time of
  the call, the deadline and the time of the notification, if there is one, it says whether the notification came
  first and when the task runs again.

  The steps of the budget while a registration waits are the states they lead to, with their times. A step that sets
  the waiter to 1 or 3 notifies it, and the notification is kept until it is consumed.
\<close>

type_synonym timer = "nat \<Rightarrow> nat \<Rightarrow> nat option \<Rightarrow> bool \<times> nat"

type_synonym timed_steps = "(budget_state \<times> nat) list"

definition wake_at :: "nat \<Rightarrow> timed_steps \<Rightarrow> nat option" where
  "wake_at wid steps = map_option snd (List.find (\<lambda>(s, _). w_state (st_waiters s ! wid) \<in> {1, 3}) steps)"

definition seen_at :: "nat \<Rightarrow> budget_state \<Rightarrow> timed_steps \<Rightarrow> budget_state" where
  "seen_at at s steps = last (s # map fst (filter (\<lambda>(_, t). t \<le> at) steps))"

definition steps_after :: "nat \<Rightarrow> timed_steps \<Rightarrow> timed_steps" where
  "steps_after at steps = filter (\<lambda>(_, t). at < t) steps"

text \<open>
  The waiting loop, from the registration at \<open>now\<close>: the answer, its time and the state it was read from. \<open>None\<close> is a loop
  that never ends.
\<close>

partial_function (option) acquire_wait ::
    "timer \<Rightarrow> nat \<Rightarrow> nat option \<Rightarrow> nat \<Rightarrow> budget_state \<Rightarrow> nat \<Rightarrow> timed_steps \<Rightarrow> (poll \<times> nat \<times> budget_state) option" where
  "acquire_wait timeout_at wid ctx_deadline deadline s now steps =
     (if acquire_poll s wid ctx_deadline deadline now \<noteq> Pending then Some (acquire_poll s wid ctx_deadline deadline now, now, s)
      else
        let (notified, at) = timeout_at now deadline (wake_at wid steps) in
        if notified then acquire_wait timeout_at wid ctx_deadline deadline (seen_at at s steps) at (steps_after at steps)
        else Some (expired_poll ctx_deadline at, at, seen_at at s steps))"

section \<open>Request contexts\<close>

text \<open>The cause is 0 at first, 1 after a timeout and 2 after a shutdown. \<open>panicking\<close> is the state of the thread.\<close>

record request_context =
  ctx_deadline :: "nat option"
  ctx_source_chain :: "string option"
  ctx_cause :: nat

definition context_new :: "nat \<Rightarrow> nat \<Rightarrow> request_context" where
  "context_new now timeout = \<lparr> ctx_deadline = Some (now + timeout), ctx_source_chain = None, ctx_cause = 0 \<rparr>"

definition context_background :: request_context where
  "context_background = \<lparr> ctx_deadline = None, ctx_source_chain = Some ''background'', ctx_cause = 0 \<rparr>"

definition context_timeout :: "request_context \<Rightarrow> request_context" where
  "context_timeout ctx = ctx\<lparr>ctx_cause := 1\<rparr>"

definition context_shutdown :: "request_context \<Rightarrow> request_context" where
  "context_shutdown ctx = ctx\<lparr>ctx_cause := 2\<rparr>"

definition dropped_outcome :: "bool \<Rightarrow> nat \<Rightarrow> request_context \<Rightarrow> outcome" where
  "dropped_outcome panicking now ctx =
     (if panicking then OutPanic
      else if ctx_cause ctx = 2 then OutShutdown
      else if ctx_cause ctx = 1 \<or> (case ctx_deadline ctx of None \<Rightarrow> False | Some at \<Rightarrow> at \<le> now) then OutTimedOut
      else OutCancelled)"

definition drop_outcome :: "bool \<Rightarrow> nat \<Rightarrow> request_context option \<Rightarrow> outcome" where
  "drop_outcome panicking now current =
     (case current of
        None \<Rightarrow> if panicking then OutPanic else OutCancelled
      | Some ctx \<Rightarrow> dropped_outcome panicking now ctx)"

text \<open>The outcome a registration is counted under when it is dropped.\<close>

definition registration_outcome ::
    "outcome option \<Rightarrow> request_context option \<Rightarrow> request_context option \<Rightarrow> bool \<Rightarrow> nat \<Rightarrow> outcome" where
  "registration_outcome finished context current panicking now =
     (case finished of
        Some out \<Rightarrow> out
      | None \<Rightarrow>
          (case context of
             None \<Rightarrow> drop_outcome panicking now current
           | Some ctx \<Rightarrow> dropped_outcome panicking now ctx))"

text \<open>
  \<open>future\<close> is what the future gives when it is ready before the timer of the deadline fires. A deadline that
  has passed before the future is first polled is an error.
\<close>

definition within_deadline :: "nat option \<Rightarrow> nat \<Rightarrow> nat \<Rightarrow> nat \<Rightarrow> 'a option \<Rightarrow> budget_error + 'a" where
  "within_deadline request_deadline now checked_at maximum future =
     (let deadline = (case request_deadline of None \<Rightarrow> now + maximum | Some at \<Rightarrow> min at (now + maximum)) in
      if deadline \<le> checked_at then Inl Deadline
      else case future of None \<Rightarrow> Inl Deadline | Some v \<Rightarrow> Inr v)"

definition try_acquire_for ::
    "shared \<Rightarrow> budget_state \<Rightarrow> nat \<Rightarrow> string option \<Rightarrow> bool \<Rightarrow> nat option \<times> budget_state" where
  "try_acquire_for cfg s i resource late =
     (let s1 = dispatch cfg s in
      if st_closed s1 \<or> \<not> can_grant cfg s1 i resource \<or> late
      then (None, s1\<lparr>st_skipped := st_skipped s1 + 1\<rparr>)
      else let wid = length (st_waiters s1) in
        (Some wid, grant cfg (new_waiter i resource (count_started i s1)) i wid))"

definition release :: "shared \<Rightarrow> budget_state \<Rightarrow> nat \<Rightarrow> nat \<Rightarrow> budget_state" where
  "release cfg s i wid =
     (let l = st_lanes s ! i;
          s1 = set_lane i (l\<lparr>lane_active := lane_active l - 1\<rparr>) (s\<lparr>st_active := st_active s - 1\<rparr>) in
      case w_resource (st_waiters s ! wid) of
        None \<Rightarrow> s1
      | Some key \<Rightarrow>
          s1\<lparr>st_resource_active := count_decr (st_resource_active s) key,
             st_lane_resource_active :=
               (if lane_resource_limit cfg \<noteq> None
                then (st_lane_resource_active s)[i := count_decr (st_lane_resource_active s ! i) key]
                else st_lane_resource_active s)\<rparr>)"

definition unqueue :: "budget_state \<Rightarrow> nat \<Rightarrow> nat \<Rightarrow> budget_state" where
  "unqueue s i wid =
     set_lane i ((st_lanes s ! i)\<lparr>lane_queue := filter (\<lambda>w. w \<noteq> wid) (lane_queue (st_lanes s ! i))\<rparr>)
       (s\<lparr>st_waiting := st_waiting s - 1\<rparr>)"

text \<open>Dropping a registration; \<open>out\<close> is its outcome, or the one its context gives a dropped one.\<close>

definition drop_registration :: "shared \<Rightarrow> budget_state \<Rightarrow> nat \<Rightarrow> outcome \<Rightarrow> budget_state" where
  "drop_registration cfg s wid out =
     (let i = w_lane (st_waiters s ! wid);
          previous = w_state (st_waiters s ! wid);
          s1 = set_waiter wid 2 s;
          s2 = (if previous = 0 then unqueue s1 i wid else if previous = 1 then release cfg s1 i wid else s1);
          s3 = (if previous \<noteq> 3 then count_outcome i out s2 else s2) in
      dispatch cfg s3)"

definition close_waiters :: "nat list \<Rightarrow> nat \<Rightarrow> budget_state \<Rightarrow> budget_state" where
  "close_waiters ids i s = fold (\<lambda>wid s. count_outcome i OutShutdown (set_waiter wid 3 s)) ids s"

definition close_lane :: "nat \<Rightarrow> budget_state \<Rightarrow> budget_state" where
  "close_lane i s =
     close_waiters (lane_queue (st_lanes s ! i)) i (set_lane i ((st_lanes s ! i)\<lparr>lane_queue := []\<rparr>) s)"

definition budget_close :: "budget_state \<Rightarrow> budget_state" where
  "budget_close s =
     (fold close_lane [0..<length (st_lanes s)] (s\<lparr>st_closed := True\<rparr>))\<lparr>st_waiting := 0\<rparr>"

definition budget_totals :: "budget_state \<Rightarrow> nat \<times> nat \<times> nat \<times> nat list \<times> nat" where
  "budget_totals s =
     (st_active s, st_waiting s, sum_list (st_started s),
      map (\<lambda>j. sum_list (map (\<lambda>row. row ! j) (st_outcomes s))) [0..<9], st_skipped s)"

definition budget_snapshot :: "shared \<Rightarrow> budget_state \<Rightarrow> (string \<times> nat \<times> nat \<times> nat \<times> nat list) list" where
  "budget_snapshot cfg s =
     map (\<lambda>i. (names cfg ! i, lane_active (st_lanes s ! i), length (lane_queue (st_lanes s ! i)),
               st_started s ! i, st_outcomes s ! i)) [0..<length (names cfg)]"


section \<open>Fields\<close>

named_theorems budget_simps

lemma set_waiter_fields [budget_simps]:
  "st_waiters (set_waiter wid v s) = (st_waiters s)[wid := (st_waiters s ! wid)\<lparr>w_state := v\<rparr>]"
  "st_active (set_waiter wid v s) = st_active s" "st_waiting (set_waiter wid v s) = st_waiting s"
  "st_next (set_waiter wid v s) = st_next s" "st_closed (set_waiter wid v s) = st_closed s"
  "st_lanes (set_waiter wid v s) = st_lanes s" "st_resource_active (set_waiter wid v s) = st_resource_active s"
  "st_lane_resource_active (set_waiter wid v s) = st_lane_resource_active s"
  "st_outcomes (set_waiter wid v s) = st_outcomes s" "st_started (set_waiter wid v s) = st_started s"
  by (simp_all add: set_waiter_def)

lemma set_lane_fields [budget_simps]:
  "st_lanes (set_lane i l s) = (st_lanes s)[i := l]" "st_waiters (set_lane i l s) = st_waiters s"
  "st_active (set_lane i l s) = st_active s" "st_waiting (set_lane i l s) = st_waiting s"
  "st_next (set_lane i l s) = st_next s" "st_closed (set_lane i l s) = st_closed s"
  "st_resource_active (set_lane i l s) = st_resource_active s"
  "st_lane_resource_active (set_lane i l s) = st_lane_resource_active s"
  "st_outcomes (set_lane i l s) = st_outcomes s" "st_started (set_lane i l s) = st_started s"
  by (simp_all add: set_lane_def)

lemma grant_fields [budget_simps]:
  "st_waiters (grant cfg s i wid) = (st_waiters s)[wid := (st_waiters s ! wid)\<lparr>w_state := 1\<rparr>]"
  "st_lanes (grant cfg s i wid) =
     (st_lanes s)[i := (st_lanes s ! i)\<lparr>lane_active := lane_active (st_lanes s ! i) + 1\<rparr>]"
  "st_resource_active (grant cfg s i wid) =
     (case w_resource (st_waiters s ! wid) of None \<Rightarrow> st_resource_active s
      | Some key \<Rightarrow> count_incr (st_resource_active s) key)"
  "st_lane_resource_active (grant cfg s i wid) =
     (case w_resource (st_waiters s ! wid) of None \<Rightarrow> st_lane_resource_active s
      | Some key \<Rightarrow> if lane_resource_limit cfg = None then st_lane_resource_active s
          else (st_lane_resource_active s)[i := count_incr (st_lane_resource_active s ! i) key])"
  "st_waiting (grant cfg s i wid) = st_waiting s" "st_next (grant cfg s i wid) = st_next s"
  "st_closed (grant cfg s i wid) = st_closed s"
  "st_outcomes (grant cfg s i wid) = st_outcomes s" "st_started (grant cfg s i wid) = st_started s"
  by (simp_all add: grant_def set_waiter_def set_lane_def Let_def split: option.splits)

lemma release_fields [budget_simps]:
  "st_waiters (release cfg s i wid) = st_waiters s"
  "st_lanes (release cfg s i wid) =
     (st_lanes s)[i := (st_lanes s ! i)\<lparr>lane_active := lane_active (st_lanes s ! i) - 1\<rparr>]"
  "st_resource_active (release cfg s i wid) =
     (case w_resource (st_waiters s ! wid) of None \<Rightarrow> st_resource_active s
      | Some key \<Rightarrow> count_decr (st_resource_active s) key)"
  "st_lane_resource_active (release cfg s i wid) =
     (case w_resource (st_waiters s ! wid) of None \<Rightarrow> st_lane_resource_active s
      | Some key \<Rightarrow> if lane_resource_limit cfg = None then st_lane_resource_active s
          else (st_lane_resource_active s)[i := count_decr (st_lane_resource_active s ! i) key])"
  "st_active (release cfg s i wid) = st_active s - 1"
  "st_waiting (release cfg s i wid) = st_waiting s" "st_next (release cfg s i wid) = st_next s"
  "st_closed (release cfg s i wid) = st_closed s"
  "st_outcomes (release cfg s i wid) = st_outcomes s" "st_started (release cfg s i wid) = st_started s"
  by (simp_all add: release_def set_lane_def Let_def split: option.splits)

section \<open>The invariant\<close>

definition cnt :: "('a \<Rightarrow> bool) \<Rightarrow> 'a list \<Rightarrow> nat" where
  "cnt P xs = length (filter P xs)"

lemma cnt_simps [simp]: "cnt P [] = 0" "cnt P (xs @ [x]) = cnt P xs + (if P x then 1 else 0)"
  by (simp_all add: cnt_def)

lemma cnt_update:
  "i < length xs \<Longrightarrow> cnt P (xs[i := y]) + (if P (xs ! i) then 1 else 0) = cnt P xs + (if P y then 1 else 0)"
proof (induction xs arbitrary: i)
  case (Cons x xs)
  then show ?case by (cases i) (auto simp: cnt_def split: if_splits)
qed simp

lemma cnt_pos: "i < length xs \<Longrightarrow> P (xs ! i) \<Longrightarrow> 0 < cnt P xs"
  unfolding cnt_def by (simp add: filter_empty_conv) (use nth_mem in blast)

lemma count_of_simps [simp]:
  "count_of (count_incr m key) k = count_of m k + (if k = key then 1 else 0)"
  "count_of (count_decr m key) k = count_of m k - (if k = key then 1 else 0)"
  by (auto simp: count_of_def count_incr_def count_decr_def split: option.splits)

abbreviation lanes_of :: "budget_state \<Rightarrow> nat" where
  "lanes_of s \<equiv> length (st_lanes s)"

definition shaped :: "shared \<Rightarrow> budget_state \<Rightarrow> bool" where
  "shaped cfg s \<longleftrightarrow>
     names cfg \<noteq> [] \<and> lanes_of s = length (names cfg) \<and> length (st_lane_resource_active s) = lanes_of s \<and>
     length (st_started s) = lanes_of s \<and> length (st_outcomes s) = lanes_of s \<and>
     (\<forall>row \<in> set (st_outcomes s). length row = 9) \<and> st_next s < lanes_of s \<and>
     (\<forall>w \<in> set (st_waiters s). w_lane w < lanes_of s)"

text \<open>The counters of active permits are the numbers of granted waiters.\<close>

definition accounted :: "shared \<Rightarrow> budget_state \<Rightarrow> bool" where
  "accounted cfg s \<longleftrightarrow>
     st_active s = cnt (\<lambda>w. w_state w = 1) (st_waiters s) \<and>
     (\<forall>i < lanes_of s. lane_active (st_lanes s ! i) = cnt (\<lambda>w. w_state w = 1 \<and> w_lane w = i) (st_waiters s)) \<and>
     (\<forall>key. count_of (st_resource_active s) key = cnt (\<lambda>w. w_state w = 1 \<and> w_resource w = Some key) (st_waiters s)) \<and>
     (lane_resource_limit cfg \<noteq> None \<longrightarrow> (\<forall>i < lanes_of s. \<forall>key.
        count_of (st_lane_resource_active s ! i) key =
          cnt (\<lambda>w. w_state w = 1 \<and> w_lane w = i \<and> w_resource w = Some key) (st_waiters s)))"

text \<open>
  The queues hold the waiting waiters, each once and in its lane, but for the ones in \<open>out\<close>, which an
  operation has in hand.
\<close>

definition queued :: "nat set \<Rightarrow> budget_state \<Rightarrow> bool" where
  "queued out s \<longleftrightarrow>
     st_waiting s = sum_list (map (\<lambda>l. length (lane_queue l)) (st_lanes s)) \<and>
     (\<forall>i < lanes_of s. distinct (lane_queue (st_lanes s ! i)) \<and>
        set (lane_queue (st_lanes s ! i)) =
          {w. w < length (st_waiters s) \<and> w_state (st_waiters s ! w) = 0 \<and> w_lane (st_waiters s ! w) = i} - out) \<and>
     (st_closed s \<longrightarrow> (\<forall>i < lanes_of s. lane_queue (st_lanes s ! i) = []))"

definition within :: "shared \<Rightarrow> budget_state \<Rightarrow> bool" where
  "within cfg s \<longleftrightarrow>
     st_active s \<le> lim_active (limits cfg) \<and>
     (\<forall>i < lanes_of s. lane_active (st_lanes s ! i) \<le> lane_limit (st_lanes s ! i) \<and>
        lane_limit (st_lanes s ! i) \<le> lim_per_lane (limits cfg)) \<and>
     (\<forall>key. count_of (st_resource_active s) key \<le> resource_limit cfg) \<and>
     (\<forall>lim. lane_resource_limit cfg = Some lim \<longrightarrow>
        (\<forall>i < lanes_of s. \<forall>key. count_of (st_lane_resource_active s ! i) key \<le> lim))"

text \<open>
  Every started acquisition is still live or has been counted under one outcome; \<open>d\<close> is the number an
  operation still has to settle.
\<close>

definition conserved :: "(nat \<Rightarrow> nat) \<Rightarrow> budget_state \<Rightarrow> bool" where
  "conserved d s \<longleftrightarrow>
     (\<forall>i < lanes_of s. st_started s ! i =
        sum_list (st_outcomes s ! i) + cnt (\<lambda>w. w_state w < 2 \<and> w_lane w = i) (st_waiters s) + d i)"

definition budget_inv :: "shared \<Rightarrow> (nat \<Rightarrow> nat) \<Rightarrow> nat set \<Rightarrow> budget_state \<Rightarrow> bool" where
  "budget_inv cfg d out s \<longleftrightarrow>
     shaped cfg s \<and> accounted cfg s \<and> queued out s \<and> within cfg s \<and> conserved d s"

subsection \<open>Granting\<close>

lemma shaped_lane: "shaped cfg s \<Longrightarrow> w < length (st_waiters s) \<Longrightarrow> w_lane (st_waiters s ! w) < lanes_of s"
  unfolding shaped_def by (metis nth_mem)

lemma grant_shaped:
  assumes "shaped cfg s" "wid < length (st_waiters s)"
  shows "shaped cfg (grant cfg s i wid)"
proof -
  have "w_lane w < lanes_of s" if "w \<in> set ((st_waiters s)[wid := (st_waiters s ! wid)\<lparr>w_state := v\<rparr>])" for w v
    using that assms set_update_subset_insert by (fastforce simp: shaped_def)
  with assms show ?thesis by (simp add: shaped_def budget_simps split: option.splits)
qed

lemma cnt_state:
  assumes "wid < length ws" "P = (\<lambda>w. w_state w = 1 \<and> Q w)" "\<And>w v. Q (w\<lparr>w_state := v\<rparr>) = Q w"
  shows "w_state (ws ! wid) \<noteq> 1 \<Longrightarrow> cnt P (ws[wid := (ws ! wid)\<lparr>w_state := 1\<rparr>]) = cnt P ws + (if Q (ws ! wid) then 1 else 0)"
    and "w_state (ws ! wid) = 1 \<Longrightarrow> v \<noteq> 1 \<Longrightarrow> cnt P (ws[wid := (ws ! wid)\<lparr>w_state := v\<rparr>]) = cnt P ws - (if Q (ws ! wid) then 1 else 0)"
    and "w_state (ws ! wid) \<noteq> 1 \<Longrightarrow> v \<noteq> 1 \<Longrightarrow> cnt P (ws[wid := (ws ! wid)\<lparr>w_state := v\<rparr>]) = cnt P ws"
  using cnt_update [OF assms(1), of P "(ws ! wid)\<lparr>w_state := 1\<rparr>"] cnt_update [OF assms(1), of P "(ws ! wid)\<lparr>w_state := v\<rparr>"] assms(2,3)
  by (auto split: if_splits)

lemma grant_accounted:
  assumes acc: "accounted cfg s" and sh: "shaped cfg s" and w: "wid < length (st_waiters s)"
    "w_state (st_waiters s ! wid) = 0" "w_lane (st_waiters s ! wid) = i"
  shows "accounted cfg (grant cfg s i wid)"
proof -
  let ?ws = "(st_waiters s)[wid := (st_waiters s ! wid)\<lparr>w_state := 1\<rparr>]"
  note c = cnt_state(1) [OF w(1) refl]
  have a: "cnt (\<lambda>w. w_state w = 1) ?ws = cnt (\<lambda>w. w_state w = 1) (st_waiters s) + 1"
    using c [of "\<lambda>_. True"] w by simp
  have b: "cnt (\<lambda>w. w_state w = 1 \<and> w_lane w = j) ?ws =
      cnt (\<lambda>w. w_state w = 1 \<and> w_lane w = j) (st_waiters s) + (if j = i then 1 else 0)" for j
    using c [of "\<lambda>w. w_lane w = j"] w by auto
  have r: "cnt (\<lambda>w. w_state w = 1 \<and> w_resource w = Some k) ?ws =
      cnt (\<lambda>w. w_state w = 1 \<and> w_resource w = Some k) (st_waiters s) +
      (if w_resource (st_waiters s ! wid) = Some k then 1 else 0)" for k
    using c [of "\<lambda>w. w_resource w = Some k"] w by auto
  have l: "cnt (\<lambda>w. w_state w = 1 \<and> w_lane w = j \<and> w_resource w = Some k) ?ws =
      cnt (\<lambda>w. w_state w = 1 \<and> w_lane w = j \<and> w_resource w = Some k) (st_waiters s) +
      (if j = i \<and> w_resource (st_waiters s ! wid) = Some k then 1 else 0)" for j k
    using c [of "\<lambda>w. w_lane w = j \<and> w_resource w = Some k"] w by auto
  show ?thesis
    using acc sh shaped_lane [OF sh w(1)] w(3) unfolding accounted_def budget_simps a b r l
    by (auto simp: nth_list_update shaped_def split: option.splits)
qed


lemma can_grantD:
  assumes "can_grant cfg s i r"
  shows "st_active s < lim_active (limits cfg)" "lane_active (st_lanes s ! i) < lane_limit (st_lanes s ! i)"
    "r = Some key \<Longrightarrow> count_of (st_resource_active s) key < resource_limit cfg"
    "r = Some key \<Longrightarrow> lane_resource_limit cfg = Some lim \<Longrightarrow> count_of (st_lane_resource_active s ! i) key < lim"
  using assms by (auto simp: can_grant_def)

lemma grant_within:
  assumes "within cfg s" "can_grant cfg s i (w_resource (st_waiters s ! wid))" "i < lanes_of s"
    "length (st_lane_resource_active s) = lanes_of s"
  shows "within cfg (grant cfg s i wid)"
  using assms can_grantD [OF assms(2)]
  by (auto simp: within_def budget_simps nth_list_update Suc_le_eq split: option.splits)

lemma queue_lengths_same:
  assumes "i < length ls" "lane_queue l = lane_queue (ls ! i)"
  shows "map (\<lambda>l. length (lane_queue l)) (ls[i := l]) = map (\<lambda>l. length (lane_queue l)) ls"
  using assms by (simp add: map_update list_update_same_conv)

lemma grant_queue:
  assumes q: "queued out s" and i: "i < lanes_of s" and w: "wid < length (st_waiters s)" "wid \<in> out"
    "w_state (st_waiters s ! wid) = 0"
  shows "queued (out - {wid}) (grant cfg s i wid)"
proof -
  have "{v. v < length (st_waiters s) \<and> w_state ((st_waiters s)[wid := (st_waiters s ! wid)\<lparr>w_state := 1\<rparr>] ! v) = 0 \<and>
        w_lane ((st_waiters s)[wid := (st_waiters s ! wid)\<lparr>w_state := 1\<rparr>] ! v) = j} - (out - {wid}) =
      {v. v < length (st_waiters s) \<and> w_state (st_waiters s ! v) = 0 \<and> w_lane (st_waiters s ! v) = j} - out" for j
    using w by (auto simp: nth_list_update)
  then show ?thesis
    using q i unfolding queued_def budget_simps
    by (auto simp: queue_lengths_same nth_list_update)
qed

lemma live_same:
  assumes "wid < length ws" "w_state (ws ! wid) < 2" "v < 2"
  shows "cnt (\<lambda>w. w_state w < 2 \<and> w_lane w = j) (ws[wid := (ws ! wid)\<lparr>w_state := v\<rparr>]) =
    cnt (\<lambda>w. w_state w < 2 \<and> w_lane w = j) ws"
  using cnt_update [OF assms(1), of "\<lambda>w. w_state w < 2 \<and> w_lane w = j" "(ws ! wid)\<lparr>w_state := v\<rparr>"] assms
  by auto

lemma live_gone:
  assumes "wid < length ws" "w_state (ws ! wid) < 2" "2 \<le> v"
  shows "cnt (\<lambda>w. w_state w < 2 \<and> w_lane w = j) (ws[wid := (ws ! wid)\<lparr>w_state := v\<rparr>]) +
      (if w_lane (ws ! wid) = j then 1 else 0) =
    cnt (\<lambda>w. w_state w < 2 \<and> w_lane w = j) ws"
  using cnt_update [OF assms(1), of "\<lambda>w. w_state w < 2 \<and> w_lane w = j" "(ws ! wid)\<lparr>w_state := v\<rparr>"] assms
  by auto

lemma grant_inv:
  assumes inv: "budget_inv cfg d out s" and w: "wid < length (st_waiters s)" "wid \<in> out"
    "w_state (st_waiters s ! wid) = 0" "w_lane (st_waiters s ! wid) = i"
    and can: "can_grant cfg s i (w_resource (st_waiters s ! wid))"
  shows "budget_inv cfg d (out - {wid}) (grant cfg s i wid)"
proof -
  have sh: "shaped cfg s" using inv by (simp add: budget_inv_def)
  have i: "i < lanes_of s" using shaped_lane [OF sh w(1)] w(4) by simp
  have "conserved d (grant cfg s i wid)"
    using inv w(1,3) by (simp add: budget_inv_def conserved_def budget_simps live_same)
  moreover have "length (st_lane_resource_active s) = lanes_of s" using sh by (simp add: shaped_def)
  ultimately show ?thesis
    using inv grant_shaped [OF sh w(1)] grant_accounted [OF _ sh w(1,3,4)] grant_queue [OF _ i w(1,2,3)]
      grant_within [OF _ can i]
    by (simp add: budget_inv_def)
qed

subsection \<open>Dispatch\<close>

text \<open>Changing a queue and the number of waiters touches nothing but the queues.\<close>

definition put_queue :: "nat \<Rightarrow> nat list \<Rightarrow> nat \<Rightarrow> budget_state \<Rightarrow> budget_state" where
  "put_queue i q k s = set_lane i ((st_lanes s ! i)\<lparr>lane_queue := q\<rparr>) (s\<lparr>st_waiting := k\<rparr>)"

lemma put_queue_keeps:
  assumes "i < lanes_of s"
  shows "shaped cfg (put_queue i q k s) = shaped cfg s" "accounted cfg (put_queue i q k s) = accounted cfg s"
    "within cfg (put_queue i q k s) = within cfg s" "conserved d (put_queue i q k s) = conserved d s"
proof -
  have "lane_active ((st_lanes s)[i := (st_lanes s ! i)\<lparr>lane_queue := q\<rparr>] ! j) = lane_active (st_lanes s ! j)"
    "lane_limit ((st_lanes s)[i := (st_lanes s ! i)\<lparr>lane_queue := q\<rparr>] ! j) = lane_limit (st_lanes s ! j)" for j
    using assms by (simp_all add: nth_list_update)
  then show "shaped cfg (put_queue i q k s) = shaped cfg s" "accounted cfg (put_queue i q k s) = accounted cfg s"
    "within cfg (put_queue i q k s) = within cfg s" "conserved d (put_queue i q k s) = conserved d s"
    by (simp_all add: put_queue_def set_lane_def shaped_def accounted_def within_def conserved_def)
qed

lemma remove_at_props:
  assumes "pos < length xs"
  shows "length (remove_at pos xs) = length xs - 1"
    and "distinct xs \<Longrightarrow> distinct (remove_at pos xs) \<and> set (remove_at pos xs) = set xs - {xs ! pos}"
proof -
  have xs: "xs = take pos xs @ xs ! pos # drop (Suc pos) xs" using assms by (rule id_take_nth_drop)
  show "length (remove_at pos xs) = length xs - 1" using assms by (simp add: remove_at_def)
  show "distinct (remove_at pos xs) \<and> set (remove_at pos xs) = set xs - {xs ! pos}" if "distinct xs"
  proof -
    have "distinct (take pos xs @ xs ! pos # drop (Suc pos) xs)" using xs that by metis
    moreover have "set xs = set (take pos xs @ xs ! pos # drop (Suc pos) xs)" using xs by metis
    ultimately show ?thesis by (auto simp: remove_at_def)
  qed
qed

definition dequeue :: "nat \<Rightarrow> nat \<Rightarrow> budget_state \<Rightarrow> budget_state" where
  "dequeue i pos s =
     set_lane i ((st_lanes s ! i)\<lparr>lane_queue := remove_at pos (lane_queue (st_lanes s ! i))\<rparr>)
       (s\<lparr>st_waiting := st_waiting s - 1\<rparr>)"

lemma grant_queued_eq:
  "grant_queued cfg s i pos =
     (grant cfg (dequeue i pos s) i (lane_queue (st_lanes s ! i) ! pos))\<lparr>st_next := (i + 1) mod lanes_of s\<rparr>"
  by (simp add: grant_queued_def dequeue_def Let_def)

lemma sum_list_shrink:
  assumes "i < length ls" "length (lane_queue l) = length (lane_queue (ls ! i)) - 1" "lane_queue (ls ! i) \<noteq> []"
  shows "sum_list (map (\<lambda>l. length (lane_queue l)) (ls[i := l])) = sum_list (map (\<lambda>l. length (lane_queue l)) ls) - 1"
proof -
  have "0 < length (lane_queue (ls ! i))" using assms(3) by simp
  moreover have "length (lane_queue (ls ! i)) \<le> sum_list (map (\<lambda>l. length (lane_queue l)) ls)"
    using assms(1) elem_le_sum_list [of i "map (\<lambda>l. length (lane_queue l)) ls"] by simp
  moreover have "sum_list (map (\<lambda>l. length (lane_queue l)) (ls[i := l])) =
      sum_list (map (\<lambda>l. length (lane_queue l)) ls) + length (lane_queue l) - length (lane_queue (ls ! i))"
    using assms(1) by (simp add: map_update sum_list_update)
  ultimately show ?thesis using assms(2) by linarith
qed

lemma remove_at_Nil [simp]: "remove_at pos [] = []"
  by (simp add: remove_at_def)

lemma dequeue_inv:
  assumes inv: "budget_inv cfg d {} s" and i: "i < lanes_of s" and pos: "pos < length (lane_queue (st_lanes s ! i))"
  shows "budget_inv cfg d {lane_queue (st_lanes s ! i) ! pos} (dequeue i pos s)"
proof -
  let ?q = "lane_queue (st_lanes s ! i)"
  have q: "queued {} s" using inv by (simp add: budget_inv_def)
  have "?q \<noteq> []" using pos by auto
  then have sum: "sum_list (map (\<lambda>l. length (lane_queue l)) (st_lanes (dequeue i pos s))) =
      sum_list (map (\<lambda>l. length (lane_queue l)) (st_lanes s)) - 1"
    using i remove_at_props(1) [OF pos] by (simp add: dequeue_def budget_simps sum_list_shrink)
  have "?q ! pos \<in> set ?q" using pos by simp
  then have lane: "w_lane (st_waiters s ! (?q ! pos)) = i" using q i by (auto simp: queued_def)
  have "queued {?q ! pos} (dequeue i pos s)"
    using q i sum remove_at_props(2) [OF pos] lane unfolding queued_def
    by (auto simp: dequeue_def budget_simps nth_list_update)
  then show ?thesis
    using inv put_queue_keeps [OF i, where q = "remove_at pos ?q" and k = "st_waiting s - 1"]
    by (simp add: budget_inv_def dequeue_def put_queue_def)
qed


lemma find_index_Some:
  "find_index P xs = Some k \<longleftrightarrow> k < length xs \<and> P (xs ! k) \<and> (\<forall>j < k. \<not> P (xs ! j))"
proof (induction xs arbitrary: k)
  case (Cons x xs)
  show ?case
  proof (cases k)
    case 0
    then show ?thesis by auto
  next
    case (Suc n)
    then show ?thesis using Cons [of n] by (auto simp: less_Suc_eq_0_disj)
  qed
qed simp

lemma find_index_None: "find_index P xs = None \<longleftrightarrow> (\<forall>x \<in> set xs. \<not> P x)"
  by (induction xs) auto

lemma first_some_Some:
  "first_some f xs = Some y \<longleftrightarrow> (\<exists>k < length xs. f (xs ! k) = Some y \<and> (\<forall>j < k. f (xs ! j) = None))"
proof (induction xs)
  case (Cons x xs)
  then show ?case by (cases "f x") (simp_all add: Ex_less_Suc2 All_less_Suc2)
qed simp

lemma first_some_None: "first_some f xs = None \<longleftrightarrow> (\<forall>x \<in> set xs. f x = None)"
  by (induction xs) (auto split: option.splits)

definition grantable :: "shared \<Rightarrow> budget_state \<Rightarrow> nat \<Rightarrow> nat \<Rightarrow> bool" where
  "grantable cfg s i wid \<longleftrightarrow> can_grant cfg s i (w_resource (st_waiters s ! wid))"

text \<open>
  Round robin: the selected waiter is the first grantable one of its lane, and no lane between the next
  one and its own, in cyclic order, has a grantable waiter.
\<close>

lemma select_waiter_Some:
  assumes "select_waiter cfg s = Some (i, pos)"
  shows "\<exists>k < lanes_of s. i = (st_next s + k) mod lanes_of s \<and> pos < length (lane_queue (st_lanes s ! i)) \<and>
    grantable cfg s i (lane_queue (st_lanes s ! i) ! pos) \<and>
    (\<forall>p < pos. \<not> grantable cfg s i (lane_queue (st_lanes s ! i) ! p)) \<and>
    (\<forall>j < k. \<forall>w \<in> set (lane_queue (st_lanes s ! ((st_next s + j) mod lanes_of s))).
       \<not> grantable cfg s ((st_next s + j) mod lanes_of s) w)"
  using assms unfolding select_waiter_def
  by (auto simp: first_some_Some find_index_Some find_index_None grantable_def Let_def)

lemma cyclic_offset: "i < n \<Longrightarrow> m < n \<Longrightarrow> \<exists>k < n. (m + k) mod n = (i :: nat)"
  by (intro exI [of _ "(i + n - m) mod n"]) (simp add: mod_add_right_eq)

lemma select_waiter_None:
  assumes "select_waiter cfg s = None" "st_next s < lanes_of s" "i < lanes_of s"
    "w \<in> set (lane_queue (st_lanes s ! i))"
  shows "\<not> grantable cfg s i w"
proof -
  obtain k where "k < lanes_of s" "(st_next s + k) mod lanes_of s = i" using cyclic_offset [OF assms(3,2)] by blast
  then show ?thesis
    using assms(1,4) unfolding select_waiter_def
    by (auto simp: first_some_None find_index_None grantable_def Let_def)
qed

lemma next_inv: "budget_inv cfg d out s \<Longrightarrow> k < lanes_of s \<Longrightarrow> budget_inv cfg d out (s\<lparr>st_next := k\<rparr>)"
proof -
  have "accounted cfg (s\<lparr>st_next := k\<rparr>) = accounted cfg s" "queued out (s\<lparr>st_next := k\<rparr>) = queued out s"
    "within cfg (s\<lparr>st_next := k\<rparr>) = within cfg s" "conserved d (s\<lparr>st_next := k\<rparr>) = conserved d s"
    by (simp_all add: accounted_def queued_def within_def conserved_def)
  moreover assume "budget_inv cfg d out s" "k < lanes_of s"
  ultimately show ?thesis by (auto simp: budget_inv_def shaped_def)
qed

lemma grant_queued_inv:
  assumes inv: "budget_inv cfg d {} s" and sel: "select_waiter cfg s = Some (i, pos)"
  shows "budget_inv cfg d {} (grant_queued cfg s i pos)"
proof -
  let ?w = "lane_queue (st_lanes s ! i) ! pos" and ?s = "dequeue i pos s"
  have n: "0 < lanes_of s" using inv by (auto simp: budget_inv_def shaped_def)
  from select_waiter_Some [OF sel] n have i: "i < lanes_of s" and pos: "pos < length (lane_queue (st_lanes s ! i))"
    and can: "can_grant cfg s i (w_resource (st_waiters s ! ?w))" by (auto simp: grantable_def)
  have "?w \<in> set (lane_queue (st_lanes s ! i))" using pos by simp
  then have w: "?w < length (st_waiters s)" "w_state (st_waiters s ! ?w) = 0" "w_lane (st_waiters s ! ?w) = i"
    using inv i by (auto simp: budget_inv_def queued_def)
  have f: "st_waiters ?s = st_waiters s" "lanes_of ?s = lanes_of s" by (simp_all add: dequeue_def budget_simps)
  have "can_grant cfg ?s i r = can_grant cfg s i r" for r
    using i by (cases r; cases "lane_resource_limit cfg") (simp_all add: can_grant_def dequeue_def budget_simps)
  with grant_inv [OF dequeue_inv [OF inv i pos], of ?w i] w f can
  have "budget_inv cfg d {} (grant cfg ?s i ?w)" by simp
  then show ?thesis
    unfolding grant_queued_eq by (rule next_inv) (use n f in \<open>simp add: budget_simps\<close>)
qed


lemma dispatch_loop_induct [consumes 0, case_names step]:
  assumes "\<And>s. (\<And>i pos. st_active s < lim_active (limits cfg) \<Longrightarrow> select_waiter cfg s = Some (i, pos) \<Longrightarrow>
    P (grant_queued cfg s i pos)) \<Longrightarrow> P s"
  shows "P s"
  using assms by (induction cfg s rule: dispatch_loop.induct) blast

lemma dispatch_inv:
  assumes "budget_inv cfg d {} s"
  shows "budget_inv cfg d {} (dispatch cfg s)"
proof -
  have "budget_inv cfg d {} s \<longrightarrow> budget_inv cfg d {} (dispatch_loop cfg s)"
  proof (induction s rule: dispatch_loop_induct [where cfg = cfg])
    case (step s)
    then show ?case
      by (subst dispatch_loop.simps) (auto split: option.splits intro: grant_queued_inv)
  qed
  with assms show ?thesis by (simp add: dispatch_def)
qed

text \<open>No waiter that could be granted is left waiting.\<close>

definition settled :: "shared \<Rightarrow> budget_state \<Rightarrow> bool" where
  "settled cfg s \<longleftrightarrow>
     st_closed s \<or> (\<forall>i < lanes_of s. \<forall>w \<in> set (lane_queue (st_lanes s ! i)). \<not> grantable cfg s i w)"

lemma dispatch_settled:
  assumes "budget_inv cfg d {} s"
  shows "settled cfg (dispatch cfg s)"
proof -
  have "budget_inv cfg d {} s \<longrightarrow> settled cfg (dispatch_loop cfg s)"
  proof (induction s rule: dispatch_loop_induct [where cfg = cfg])
    case (step s)
    have "settled cfg s" if "budget_inv cfg d {} s" "select_waiter cfg s = None"
      using that by (auto simp: settled_def budget_inv_def shaped_def dest: select_waiter_None)
    moreover have "settled cfg s" if "\<not> st_active s < lim_active (limits cfg)"
      using that by (simp add: settled_def grantable_def can_grant_def)
    ultimately show ?case
      using step by (subst dispatch_loop.simps) (auto split: option.splits intro: grant_queued_inv)
  qed
  with assms show ?thesis by (simp add: dispatch_def settled_def)
qed

lemma dispatch_fields:
  "st_closed (dispatch cfg s) = st_closed s" "lanes_of (dispatch cfg s) = lanes_of s"
  "length (st_waiters (dispatch cfg s)) = length (st_waiters s)"
proof -
  have "st_closed (dispatch_loop cfg s) = st_closed s \<and> lanes_of (dispatch_loop cfg s) = lanes_of s \<and>
      length (st_waiters (dispatch_loop cfg s)) = length (st_waiters s)"
  proof (induction s rule: dispatch_loop_induct [where cfg = cfg])
    case (step s)
    then show ?case
      by (subst (1 2 3) dispatch_loop.simps)
        (auto simp: grant_queued_eq dequeue_def budget_simps split: option.splits)
  qed
  then show "st_closed (dispatch cfg s) = st_closed s" "lanes_of (dispatch cfg s) = lanes_of s"
    "length (st_waiters (dispatch cfg s)) = length (st_waiters s)" by (simp_all add: dispatch_def)
qed

subsection \<open>Acquisition\<close>

lemma count_started_fields [budget_simps]:
  "st_lanes (count_started i s) = st_lanes s" "st_waiters (count_started i s) = st_waiters s"
  "st_closed (count_started i s) = st_closed s"
  by (simp_all add: count_started_def)

lemma count_started_inv:
  assumes "budget_inv cfg d out s" "i < lanes_of s"
  shows "budget_inv cfg (d(i := d i + 1)) out (count_started i s)"
proof -
  have "accounted cfg (count_started i s) = accounted cfg s" "queued out (count_started i s) = queued out s"
    "within cfg (count_started i s) = within cfg s" "shaped cfg (count_started i s) = shaped cfg s"
    by (simp_all add: accounted_def queued_def within_def shaped_def count_started_def)
  moreover have "conserved (d(i := d i + 1)) (count_started i s)"
    using assms by (auto simp: budget_inv_def shaped_def conserved_def count_started_def nth_list_update)
  ultimately show ?thesis using assms by (simp add: budget_inv_def)
qed

lemma outcome_index_less: "outcome_index oc < 9"
  by (cases oc) auto

lemma count_outcome_fields [budget_simps]:
  "st_lanes (count_outcome i out s) = st_lanes s" "st_waiters (count_outcome i out s) = st_waiters s"
  "st_closed (count_outcome i out s) = st_closed s" "st_active (count_outcome i out s) = st_active s"
  "st_waiting (count_outcome i out s) = st_waiting s" "st_next (count_outcome i out s) = st_next s"
  "st_resource_active (count_outcome i out s) = st_resource_active s"
  "st_lane_resource_active (count_outcome i out s) = st_lane_resource_active s"
  "st_started (count_outcome i out s) = st_started s"
  by (simp_all add: count_outcome_def)

lemma count_outcome_sum:
  assumes "shaped cfg s" "i < lanes_of s"
  shows "shaped cfg (count_outcome i out s)"
    and "sum_list (st_outcomes (count_outcome i out s) ! j) = sum_list (st_outcomes s ! j) + (if j = i then 1 else 0)"
proof -
  have row: "length (st_outcomes s ! i) = 9" and len: "i < length (st_outcomes s)"
    using assms by (auto simp: shaped_def)
  show "shaped cfg (count_outcome i out s)"
    using assms row by (auto simp: shaped_def count_outcome_def dest!: set_update_subset_insert [THEN subsetD])
  show "sum_list (st_outcomes (count_outcome i out s) ! j) = sum_list (st_outcomes s ! j) + (if j = i then 1 else 0)"
    using row len outcome_index_less [of out]
      elem_le_sum_list [of "outcome_index out" "st_outcomes s ! i"]
    by (auto simp: count_outcome_def nth_list_update sum_list_update)
qed

lemma count_outcome_inv:
  assumes "budget_inv cfg d out s" "i < lanes_of s" "0 < d i"
  shows "budget_inv cfg (d(i := d i - 1)) out (count_outcome i oc s)"
proof -
  have "accounted cfg (count_outcome i oc s) = accounted cfg s" "queued out (count_outcome i oc s) = queued out s"
    "within cfg (count_outcome i oc s) = within cfg s"
    by (simp_all add: accounted_def queued_def within_def budget_simps)
  moreover have sh: "shaped cfg s" using assms by (simp add: budget_inv_def)
  moreover have "conserved (d(i := d i - 1)) (count_outcome i oc s)"
    using assms count_outcome_sum(2) [OF sh assms(2)]
    by (auto simp: budget_inv_def conserved_def budget_simps)
  ultimately show ?thesis using assms count_outcome_sum(1) [OF sh assms(2)] by (simp add: budget_inv_def)
qed

lemma new_waiter_fields [budget_simps]:
  "st_waiters (new_waiter i r s) = st_waiters s @ [\<lparr> w_state = 0, w_resource = r, w_lane = i \<rparr>]"
  "st_lanes (new_waiter i r s) = st_lanes s" "st_closed (new_waiter i r s) = st_closed s"
  by (simp_all add: new_waiter_def)

lemma new_waiter_inv:
  assumes inv: "budget_inv cfg d {} s" and i: "i < lanes_of s" "0 < d i"
  shows "budget_inv cfg (d(i := d i - 1)) {length (st_waiters s)} (new_waiter i r s)"
proof -
  let ?s = "new_waiter i r s"
  have "{w. w < Suc (length (st_waiters s)) \<and> w_state (st_waiters ?s ! w) = 0 \<and> w_lane (st_waiters ?s ! w) = j} -
      {length (st_waiters s)} =
      {w. w < length (st_waiters s) \<and> w_state (st_waiters s ! w) = 0 \<and> w_lane (st_waiters s ! w) = j}" for j
    by (auto simp: budget_simps nth_append)
  then have "queued {length (st_waiters s)} ?s"
    using inv by (simp add: budget_inv_def queued_def new_waiter_def)
  moreover have "shaped cfg ?s \<and> accounted cfg ?s \<and> within cfg ?s"
    using inv i by (auto simp: budget_inv_def shaped_def accounted_def within_def new_waiter_def)
  moreover have "conserved (d(i := d i - 1)) ?s"
    using inv i by (auto simp: budget_inv_def conserved_def new_waiter_def)
  ultimately show ?thesis by (simp add: budget_inv_def)
qed

lemma enqueue_inv:
  assumes inv: "budget_inv cfg d {wid} s" and w: "wid < length (st_waiters s)"
    "w_state (st_waiters s ! wid) = 0" "w_lane (st_waiters s ! wid) = i" and opn: "\<not> st_closed s"
  shows "budget_inv cfg d {} (enqueue i wid s)"
proof -
  have q: "queued {wid} s" and sh: "shaped cfg s" using inv by (simp_all add: budget_inv_def)
  have i: "i < lanes_of s" using shaped_lane [OF sh w(1)] w(3) by simp
  have "queued {} (enqueue i wid s)"
    using q i w opn unfolding queued_def
    by (auto simp: enqueue_def budget_simps nth_list_update map_update sum_list_update)
  then show ?thesis
    using inv put_queue_keeps [OF i, where q = "lane_queue (st_lanes s ! i) @ [wid]" and k = "st_waiting s + 1"]
    by (simp add: budget_inv_def enqueue_def put_queue_def)
qed


subsection \<open>Dropping a registration\<close>

lemma set_waiter_shaped:
  assumes "shaped cfg s" "wid < length (st_waiters s)"
  shows "shaped cfg (set_waiter wid v s)"
proof -
  have "w_lane w < lanes_of s" if "w \<in> set ((st_waiters s)[wid := (st_waiters s ! wid)\<lparr>w_state := v\<rparr>])" for w
    using that assms set_update_subset_insert by (fastforce simp: shaped_def)
  with assms show ?thesis by (simp add: shaped_def budget_simps)
qed

lemma set_waiter_waiting_accounted:
  assumes "accounted cfg s" "wid < length (st_waiters s)" "w_state (st_waiters s ! wid) \<noteq> 1" "v \<noteq> 1"
  shows "accounted cfg (set_waiter wid v s)"
proof -
  let ?ws = "(st_waiters s)[wid := (st_waiters s ! wid)\<lparr>w_state := v\<rparr>]"
  note c = cnt_state(3) [OF assms(2) refl]
  have "cnt (\<lambda>w. w_state w = 1) ?ws = cnt (\<lambda>w. w_state w = 1) (st_waiters s)"
    using c [of "\<lambda>_. True"] assms by simp
  moreover have "cnt (\<lambda>w. w_state w = 1 \<and> w_lane w = j) ?ws = cnt (\<lambda>w. w_state w = 1 \<and> w_lane w = j) (st_waiters s)" for j
    using c [of "\<lambda>w. w_lane w = j"] assms by simp
  moreover have "cnt (\<lambda>w. w_state w = 1 \<and> w_resource w = Some k) ?ws =
      cnt (\<lambda>w. w_state w = 1 \<and> w_resource w = Some k) (st_waiters s)" for k
    using c [of "\<lambda>w. w_resource w = Some k"] assms by simp
  moreover have "cnt (\<lambda>w. w_state w = 1 \<and> w_lane w = j \<and> w_resource w = Some k) ?ws =
      cnt (\<lambda>w. w_state w = 1 \<and> w_lane w = j \<and> w_resource w = Some k) (st_waiters s)" for j k
    using c [of "\<lambda>w. w_lane w = j \<and> w_resource w = Some k"] assms by simp
  ultimately show ?thesis
    using assms(1) unfolding accounted_def budget_simps by simp
qed

lemma set_waiter_gone_conserved:
  assumes "conserved d s" "wid < length (st_waiters s)" "w_state (st_waiters s ! wid) < 2" "2 \<le> v"
    "w_lane (st_waiters s ! wid) = i"
  shows "conserved (d(i := d i + 1)) (set_waiter wid v s)"
proof -
  have c: "cnt (\<lambda>w. w_state w < 2 \<and> w_lane w = j) (st_waiters s) =
      cnt (\<lambda>w. w_state w < 2 \<and> w_lane w = j) (st_waiters (set_waiter wid v s)) + (if j = i then 1 else 0)" for j
    using live_gone [OF assms(2,3,4), of j] assms(5) by (auto simp: budget_simps split: if_splits)
  show ?thesis
    using assms(1) unfolding conserved_def set_waiter_fields(6,9,10)
  proof (intro allI impI, elim allE impE)
    fix j
    assume "st_started s ! j = sum_list (st_outcomes s ! j) + cnt (\<lambda>w. w_state w < 2 \<and> w_lane w = j) (st_waiters s) + d j"
    then show "st_started s ! j = sum_list (st_outcomes s ! j) +
        cnt (\<lambda>w. w_state w < 2 \<and> w_lane w = j) (st_waiters (set_waiter wid v s)) + (d(i := d i + 1)) j"
      unfolding c by simp
  qed
qed


lemma filter_neq_length: "distinct xs \<Longrightarrow> x \<in> set xs \<Longrightarrow> length (filter (\<lambda>y. y \<noteq> x) xs) = length xs - 1"
proof -
  assume d: "distinct xs" and x: "x \<in> set xs"
  have "length (filter (\<lambda>y. y \<noteq> x) xs) = card (set xs - {x})"
    using distinct_card [OF distinct_filter [OF d], of "\<lambda>y. y \<noteq> x"] by (simp add: set_diff_eq)
  with d x show ?thesis by (simp add: distinct_card)
qed

lemma unqueue_inv:
  assumes inv: "budget_inv cfg d {} s" and w: "wid < length (st_waiters s)"
    "w_state (st_waiters s ! wid) = 0" "w_lane (st_waiters s ! wid) = i"
  shows "budget_inv cfg (d(i := d i + 1)) {} (unqueue (set_waiter wid 2 s) i wid)"
proof -
  let ?s = "set_waiter wid 2 s" and ?q = "lane_queue (st_lanes s ! i)"
  have q: "queued {} s" and sh: "shaped cfg s" using inv by (simp_all add: budget_inv_def)
  have i: "i < lanes_of s" using shaped_lane [OF sh w(1)] w(3) by simp
  have mem: "wid \<in> set ?q" "distinct ?q" using q i w by (auto simp: queued_def)
  then have "?q \<noteq> []" by auto
  then have sum: "sum_list (map (\<lambda>l. length (lane_queue l)) (st_lanes (unqueue ?s i wid))) =
      sum_list (map (\<lambda>l. length (lane_queue l)) (st_lanes s)) - 1"
    using i filter_neq_length [OF mem(2,1)] by (simp add: unqueue_def budget_simps sum_list_shrink)
  have set: "{v. v < length (st_waiters s) \<and> w_state (st_waiters ?s ! v) = 0 \<and> w_lane (st_waiters ?s ! v) = j} =
      {v. v < length (st_waiters s) \<and> w_state (st_waiters s ! v) = 0 \<and> w_lane (st_waiters s ! v) = j} -
      (if j = i then {wid} else {})" for j
    using w by (auto simp: budget_simps nth_list_update)
  have "queued {} (unqueue ?s i wid)"
    using q i sum mem set unfolding queued_def
    by (auto simp: unqueue_def budget_simps nth_list_update)
  moreover have "shaped cfg ?s" "accounted cfg ?s" "conserved (d(i := d i + 1)) ?s"
    using inv w set_waiter_shaped set_waiter_waiting_accounted set_waiter_gone_conserved by (auto simp: budget_inv_def)
  moreover have "within cfg ?s" using inv by (simp add: budget_inv_def within_def budget_simps)
  moreover have "i < lanes_of ?s" using i by (simp add: budget_simps)
  ultimately show ?thesis
    using put_queue_keeps [of i ?s, where q = "filter (\<lambda>w. w \<noteq> wid) (lane_queue (st_lanes ?s ! i))" and k = "st_waiting ?s - 1"]
    by (simp add: budget_inv_def unqueue_def put_queue_def)
qed

lemma release_accounted:
  assumes acc: "accounted cfg s" and sh: "shaped cfg s" and w: "wid < length (st_waiters s)"
    "w_state (st_waiters s ! wid) = 1" "w_lane (st_waiters s ! wid) = i"
  shows "accounted cfg (release cfg (set_waiter wid 2 s) i wid)"
proof -
  let ?ws = "(st_waiters s)[wid := (st_waiters s ! wid)\<lparr>w_state := 2\<rparr>]"
  note c = cnt_state(2) [OF w(1) refl]
  have a: "cnt (\<lambda>w. w_state w = 1) ?ws = cnt (\<lambda>w. w_state w = 1) (st_waiters s) - 1"
    using c [of "\<lambda>_. True"] w by simp
  have b: "cnt (\<lambda>w. w_state w = 1 \<and> w_lane w = j) ?ws =
      cnt (\<lambda>w. w_state w = 1 \<and> w_lane w = j) (st_waiters s) - (if j = i then 1 else 0)" for j
    using c [of "\<lambda>w. w_lane w = j"] w by auto
  have r: "cnt (\<lambda>w. w_state w = 1 \<and> w_resource w = Some k) ?ws =
      cnt (\<lambda>w. w_state w = 1 \<and> w_resource w = Some k) (st_waiters s) -
      (if w_resource (st_waiters s ! wid) = Some k then 1 else 0)" for k
    using c [of "\<lambda>w. w_resource w = Some k"] w by auto
  have l: "cnt (\<lambda>w. w_state w = 1 \<and> w_lane w = j \<and> w_resource w = Some k) ?ws =
      cnt (\<lambda>w. w_state w = 1 \<and> w_lane w = j \<and> w_resource w = Some k) (st_waiters s) -
      (if j = i \<and> w_resource (st_waiters s ! wid) = Some k then 1 else 0)" for j k
    using c [of "\<lambda>w. w_lane w = j \<and> w_resource w = Some k"] w by auto
  have res: "w_resource (?ws ! wid) = w_resource (st_waiters s ! wid)" using w by simp
  show ?thesis
    using acc sh shaped_lane [OF sh w(1)] w(3) unfolding accounted_def budget_simps a b r l res
    by (auto simp: nth_list_update shaped_def split: option.splits)
qed

lemma release_inv:
  assumes inv: "budget_inv cfg d {} s" and w: "wid < length (st_waiters s)"
    "w_state (st_waiters s ! wid) = 1" "w_lane (st_waiters s ! wid) = i"
  shows "budget_inv cfg (d(i := d i + 1)) {} (release cfg (set_waiter wid 2 s) i wid)"
proof -
  let ?s = "set_waiter wid 2 s"
  have q: "queued {} s" and sh: "shaped cfg s" using inv by (simp_all add: budget_inv_def)
  have i: "i < lanes_of s" using shaped_lane [OF sh w(1)] w(3) by simp
  have set: "{v. v < length (st_waiters s) \<and> w_state (st_waiters ?s ! v) = 0 \<and> w_lane (st_waiters ?s ! v) = j} =
      {v. v < length (st_waiters s) \<and> w_state (st_waiters s ! v) = 0 \<and> w_lane (st_waiters s ! v) = j}" for j
    using w by (auto simp: budget_simps nth_list_update)
  have "queued {} (release cfg ?s i wid)"
    using q i set unfolding queued_def release_fields
    by (auto simp: budget_simps queue_lengths_same nth_list_update)
  moreover have "conserved (d(i := d i + 1)) (release cfg ?s i wid)"
    using set_waiter_gone_conserved [OF _ w(1) _ _ w(3)] inv w by (simp add: budget_inv_def conserved_def release_fields)
  moreover have "shaped cfg (release cfg ?s i wid)"
    using set_waiter_shaped [OF sh w(1), of 2] by (auto simp: shaped_def release_fields split: option.splits)
  moreover have "within cfg (release cfg ?s i wid)"
    using inv i sh unfolding budget_inv_def within_def release_fields
    by (auto simp: budget_simps nth_list_update shaped_def le_diff_conv trans_le_add1 split: option.splits)
  ultimately show ?thesis
    using release_accounted [OF _ sh w] inv by (simp add: budget_inv_def)
qed


lemma closed_drop_inv:
  assumes inv: "budget_inv cfg d {} s" and w: "wid < length (st_waiters s)" "2 \<le> w_state (st_waiters s ! wid)"
  shows "budget_inv cfg d {} (set_waiter wid 2 s)"
proof -
  let ?s = "set_waiter wid 2 s"
  have "{v. v < length (st_waiters s) \<and> w_state (st_waiters ?s ! v) = 0 \<and> w_lane (st_waiters ?s ! v) = j} =
      {v. v < length (st_waiters s) \<and> w_state (st_waiters s ! v) = 0 \<and> w_lane (st_waiters s ! v) = j}" for j
    using w by (auto simp: budget_simps nth_list_update)
  then have "queued {} ?s" using inv by (simp add: budget_inv_def queued_def budget_simps)
  moreover have "cnt (\<lambda>w. w_state w < 2 \<and> w_lane w = j) (st_waiters ?s) = cnt (\<lambda>w. w_state w < 2 \<and> w_lane w = j) (st_waiters s)" for j
    using cnt_update [OF w(1), of "\<lambda>w. w_state w < 2 \<and> w_lane w = j" "(st_waiters s ! wid)\<lparr>w_state := 2\<rparr>"] w(2)
    by (simp add: budget_simps)
  then have "conserved d ?s" using inv by (simp add: budget_inv_def conserved_def budget_simps)
  moreover have "within cfg ?s" using inv by (simp add: budget_inv_def within_def budget_simps)
  ultimately show ?thesis
    using inv w set_waiter_shaped set_waiter_waiting_accounted by (auto simp: budget_inv_def)
qed

lemma zero_upd [simp]: "(\<lambda>_. 0 :: nat)(i := 0) = (\<lambda>_. 0)"
  by auto

lemma drop_mid:
  assumes inv: "budget_inv cfg (\<lambda>_. 0) {} s" and w: "wid < length (st_waiters s)"
    and live: "w_state (st_waiters s ! wid) \<in> {0, 1, 3}"
  shows "\<exists>t. budget_inv cfg (\<lambda>_. 0) {} t \<and> drop_registration cfg s wid oc = dispatch cfg t \<and> st_waiters t = st_waiters (set_waiter wid 2 s)"
proof -
  let ?i = "w_lane (st_waiters s ! wid)" and ?p = "w_state (st_waiters s ! wid)"
  have i: "?i < lanes_of s" using inv w by (auto simp: budget_inv_def intro: shaped_lane)
  have counted: "budget_inv cfg (\<lambda>_. 0) {} (count_outcome ?i oc t)"
    if "budget_inv cfg ((\<lambda>_. 0)(?i := 0 + 1)) {} t" "lanes_of t = lanes_of s" for t
    using count_outcome_inv [OF that(1), of ?i oc] i that(2) by simp
  consider "?p = 0" | "?p = 1" | "?p = 3" using live by auto
  then show ?thesis
  proof cases
    case 1
    have "budget_inv cfg (\<lambda>_. 0) {} (count_outcome ?i oc (unqueue (set_waiter wid 2 s) ?i wid))"
      by (rule counted [OF unqueue_inv [OF inv w 1 refl]]) (simp add: unqueue_def budget_simps)
    with 1 show ?thesis unfolding drop_registration_def Let_def
      by (intro exI [of _ "count_outcome ?i oc (unqueue (set_waiter wid 2 s) ?i wid)"]) (simp add: unqueue_def budget_simps)
  next
    case 2
    have "budget_inv cfg (\<lambda>_. 0) {} (count_outcome ?i oc (release cfg (set_waiter wid 2 s) ?i wid))"
      by (rule counted [OF release_inv [OF inv w 2 refl]]) (simp add: budget_simps)
    with 2 show ?thesis unfolding drop_registration_def Let_def
      by (intro exI [of _ "count_outcome ?i oc (release cfg (set_waiter wid 2 s) ?i wid)"]) (simp add: budget_simps)
  next
    case 3
    then have "budget_inv cfg (\<lambda>_. 0) {} (set_waiter wid 2 s)" by (intro closed_drop_inv [OF inv w]) simp
    with 3 show ?thesis unfolding drop_registration_def Let_def by auto
  qed
qed

lemma drop_registration_inv:
  assumes "budget_inv cfg (\<lambda>_. 0) {} s" "wid < length (st_waiters s)" "w_state (st_waiters s ! wid) \<in> {0, 1, 3}"
  shows "budget_inv cfg (\<lambda>_. 0) {} (drop_registration cfg s wid oc) \<and> settled cfg (drop_registration cfg s wid oc)"
  using drop_mid [OF assms, of oc] dispatch_inv dispatch_settled by metis

subsection \<open>Closing\<close>

lemma close_one_inv:
  assumes inv: "budget_inv cfg (\<lambda>_. 0) out s" and w: "wid \<in> out" "wid < length (st_waiters s)"
    "w_state (st_waiters s ! wid) = 0" "w_lane (st_waiters s ! wid) = i"
  shows "budget_inv cfg (\<lambda>_. 0) (out - {wid}) (count_outcome i OutShutdown (set_waiter wid 3 s))"
proof -
  let ?s = "set_waiter wid 3 s"
  have i: "i < lanes_of s" using inv w by (auto simp: budget_inv_def intro: shaped_lane)
  have "{v. v < length (st_waiters s) \<and> w_state (st_waiters ?s ! v) = 0 \<and> w_lane (st_waiters ?s ! v) = j} - (out - {wid}) =
      {v. v < length (st_waiters s) \<and> w_state (st_waiters s ! v) = 0 \<and> w_lane (st_waiters s ! v) = j} - out" for j
    using w by (auto simp: budget_simps nth_list_update)
  then have "queued (out - {wid}) ?s" using inv by (simp add: budget_inv_def queued_def budget_simps)
  moreover have "within cfg ?s" using inv by (simp add: budget_inv_def within_def budget_simps)
  moreover have "conserved ((\<lambda>_. 0)(i := 0 + 1)) ?s"
    using inv w by (intro set_waiter_gone_conserved) (simp_all add: budget_inv_def)
  ultimately have "budget_inv cfg ((\<lambda>_. 0)(i := 0 + 1)) (out - {wid}) ?s"
    using inv w set_waiter_shaped set_waiter_waiting_accounted by (auto simp: budget_inv_def)
  from count_outcome_inv [OF this, of i OutShutdown] i show ?thesis by (simp add: budget_simps)
qed

lemma close_waiters_inv:
  assumes "budget_inv cfg (\<lambda>_. 0) (set ids) s" "distinct ids"
    "\<forall>w \<in> set ids. w < length (st_waiters s) \<and> w_state (st_waiters s ! w) = 0 \<and> w_lane (st_waiters s ! w) = i"
  shows "budget_inv cfg (\<lambda>_. 0) {} (close_waiters ids i s)"
  using assms
proof (induction ids arbitrary: s)
  case (Cons w ids)
  let ?s = "count_outcome i OutShutdown (set_waiter w 3 s)"
  have "budget_inv cfg (\<lambda>_. 0) (set (w # ids) - {w}) ?s"
    by (rule close_one_inv) (use Cons.prems in auto)
  moreover have "set (w # ids) - {w} = set ids" using Cons.prems(2) by auto
  moreover have "\<forall>v \<in> set ids. v < length (st_waiters ?s) \<and> w_state (st_waiters ?s ! v) = 0 \<and> w_lane (st_waiters ?s ! v) = i"
    using Cons.prems by (auto simp: budget_simps nth_list_update)
  ultimately have "budget_inv cfg (\<lambda>_. 0) {} (close_waiters ids i ?s)"
    using Cons.IH [of ?s] Cons.prems(2) by simp
  then show ?case by (simp add: close_waiters_def)
qed (simp add: close_waiters_def)

lemma close_waiters_fields:
  "st_lanes (close_waiters ids i s) = st_lanes s" "st_waiting (close_waiters ids i s) = st_waiting s"
  "st_closed (close_waiters ids i s) = st_closed s"
  "close_waiters ids i (s\<lparr>st_waiting := k\<rparr>) = (close_waiters ids i s)\<lparr>st_waiting := k\<rparr>"
  "close_waiters ids i (s\<lparr>st_closed := c\<rparr>) = (close_waiters ids i s)\<lparr>st_closed := c\<rparr>"
proof -
  show "st_lanes (close_waiters ids i s) = st_lanes s" "st_waiting (close_waiters ids i s) = st_waiting s"
    "st_closed (close_waiters ids i s) = st_closed s"
    unfolding close_waiters_def by (induction ids arbitrary: s) (simp_all add: budget_simps)
  have "count_outcome i OutShutdown (set_waiter w 3 (s\<lparr>st_waiting := k\<rparr>)) =
      (count_outcome i OutShutdown (set_waiter w 3 s))\<lparr>st_waiting := k\<rparr>"
    "count_outcome i OutShutdown (set_waiter w 3 (s\<lparr>st_closed := c\<rparr>)) =
      (count_outcome i OutShutdown (set_waiter w 3 s))\<lparr>st_closed := c\<rparr>" for w s
    by (simp_all add: count_outcome_def set_waiter_def)
  then show "close_waiters ids i (s\<lparr>st_waiting := k\<rparr>) = (close_waiters ids i s)\<lparr>st_waiting := k\<rparr>"
    "close_waiters ids i (s\<lparr>st_closed := c\<rparr>) = (close_waiters ids i s)\<lparr>st_closed := c\<rparr>"
    unfolding close_waiters_def by (induction ids arbitrary: s) simp_all
qed


text \<open>Closing a lane, with the number of waiters kept up to date.\<close>

definition drain_lane :: "nat \<Rightarrow> budget_state \<Rightarrow> budget_state" where
  "drain_lane i s =
     close_waiters (lane_queue (st_lanes s ! i)) i
       (put_queue i [] (st_waiting s - length (lane_queue (st_lanes s ! i))) s)"

lemma drain_lane_inv:
  assumes inv: "budget_inv cfg (\<lambda>_. 0) {} s" and i: "i < lanes_of s"
  shows "budget_inv cfg (\<lambda>_. 0) {} (drain_lane i s)"
proof -
  let ?q = "lane_queue (st_lanes s ! i)" and ?s = "put_queue i [] (st_waiting s - length (lane_queue (st_lanes s ! i))) s"
  have q: "queued {} s" using inv by (simp add: budget_inv_def)
  have "length ?q \<le> sum_list (map (\<lambda>l. length (lane_queue l)) (st_lanes s))"
    using i elem_le_sum_list [of i "map (\<lambda>l. length (lane_queue l)) (st_lanes s)"] by simp
  moreover have mem: "set ?q = {w. w < length (st_waiters s) \<and> w_state (st_waiters s ! w) = 0 \<and> w_lane (st_waiters s ! w) = i}"
    "distinct ?q" using q i by (auto simp: queued_def)
  ultimately have "queued (set ?q) ?s"
    using q i unfolding queued_def
    by (auto simp: put_queue_def budget_simps nth_list_update map_update sum_list_update)
  then have "budget_inv cfg (\<lambda>_. 0) (set ?q) ?s"
    using inv put_queue_keeps [OF i, where q = "[]"] by (simp add: budget_inv_def)
  then show ?thesis
    unfolding drain_lane_def by (rule close_waiters_inv) (use mem in \<open>auto simp: put_queue_def budget_simps\<close>)
qed

lemma drain_lane_lanes:
  "st_lanes (drain_lane i s) = (st_lanes s)[i := (st_lanes s ! i)\<lparr>lane_queue := []\<rparr>]"
  by (simp add: drain_lane_def close_waiters_fields put_queue_def budget_simps)

lemma drain_lanes:
  assumes "budget_inv cfg (\<lambda>_. 0) {} s" "k \<le> lanes_of s"
  shows "budget_inv cfg (\<lambda>_. 0) {} (fold drain_lane [0..<k] s) \<and> lanes_of (fold drain_lane [0..<k] s) = lanes_of s \<and>
    (\<forall>i < k. lane_queue (st_lanes (fold drain_lane [0..<k] s) ! i) = [])"
  using assms(2)
proof (induction k)
  case (Suc k)
  then show ?case
    using drain_lane_inv by (auto simp: drain_lane_lanes nth_list_update less_Suc_eq)
qed (simp add: assms)

lemma close_lane_drain:
  "close_lane i (s\<lparr>st_waiting := k, st_closed := c\<rparr>) = (drain_lane i s)\<lparr>st_waiting := k, st_closed := c\<rparr>"
proof -
  have "set_lane i l (s\<lparr>st_waiting := k, st_closed := c\<rparr>) = (set_lane i l s)\<lparr>st_waiting := k\<rparr>\<lparr>st_closed := c\<rparr>"
    "set_lane i l (s\<lparr>st_waiting := m\<rparr>) = (set_lane i l s)\<lparr>st_waiting := m\<rparr>" for l m
    by (simp_all add: set_lane_def)
  then show ?thesis
    by (simp add: close_lane_def drain_lane_def put_queue_def close_waiters_fields(4,5))
qed

lemma close_lanes_drain:
  "fold close_lane js (s\<lparr>st_waiting := k, st_closed := c\<rparr>) = (fold drain_lane js s)\<lparr>st_waiting := k, st_closed := c\<rparr>"
  by (induction js arbitrary: s) (simp_all add: close_lane_drain)

lemma budget_close_eq:
  "budget_close s = (fold drain_lane [0..<lanes_of s] s)\<lparr>st_waiting := 0, st_closed := True\<rparr>"
proof -
  have "s\<lparr>st_closed := True\<rparr> = s\<lparr>st_waiting := st_waiting s, st_closed := True\<rparr>" by simp
  then show ?thesis unfolding budget_close_def by (simp only: close_lanes_drain) simp
qed

lemma closed_update_keeps:
  "shaped cfg (t\<lparr>st_waiting := k, st_closed := c\<rparr>) = shaped cfg t"
  "accounted cfg (t\<lparr>st_waiting := k, st_closed := c\<rparr>) = accounted cfg t"
  "within cfg (t\<lparr>st_waiting := k, st_closed := c\<rparr>) = within cfg t"
  "conserved d (t\<lparr>st_waiting := k, st_closed := c\<rparr>) = conserved d t"
  by (simp_all add: shaped_def accounted_def within_def conserved_def)

lemma close_inv:
  assumes inv: "budget_inv cfg (\<lambda>_. 0) {} s"
  shows "budget_inv cfg (\<lambda>_. 0) {} (budget_close s) \<and> settled cfg (budget_close s)"
proof -
  let ?t = "fold drain_lane [0..<lanes_of s] s"
  have t: "budget_inv cfg (\<lambda>_. 0) {} ?t" "lanes_of ?t = lanes_of s"
    "\<forall>i < lanes_of ?t. lane_queue (st_lanes ?t ! i) = []"
    using drain_lanes [OF inv order_refl] by auto
  have "l \<in> set (st_lanes ?t) \<Longrightarrow> lane_queue l = []" for l using t(3) by (auto simp: in_set_conv_nth)
  then have "sum_list (map (\<lambda>l. length (lane_queue l)) (st_lanes ?t)) = 0" by simp
  then have "queued {} (?t\<lparr>st_waiting := 0, st_closed := True\<rparr>)"
    using t by (simp add: budget_inv_def queued_def)
  then show ?thesis
    using t(1) unfolding budget_close_eq
    by (simp add: budget_inv_def settled_def closed_update_keeps)
qed


section \<open>Steps and reachable states\<close>

text \<open>A registration is dropped once, so the waiter of one that is being dropped is not in state 2.\<close>

inductive budget_step :: "shared \<Rightarrow> budget_state \<Rightarrow> budget_state \<Rightarrow> bool" for cfg where
  acquire: "acquire_for cfg s lane resource at now locked_at = (answer, s') \<Longrightarrow> budget_step cfg s s'"
| try_acquire: "lane_position cfg lane = Some i \<Longrightarrow> try_acquire_for cfg s i resource late = (permit, s') \<Longrightarrow> budget_step cfg s s'"
| drop: "wid < length (st_waiters s) \<Longrightarrow> w_state (st_waiters s ! wid) \<in> {0, 1, 3} \<Longrightarrow>
    budget_step cfg s (drop_registration cfg s wid oc)"
| close: "budget_step cfg s (budget_close s)"
| cap: "cap_lane cfg s lane limit = Inr s' \<Longrightarrow> budget_step cfg s s'"

inductive reachable :: "shared \<Rightarrow> budget_state \<Rightarrow> bool" where
  build: "budget_build ns lims res lane_res = Inr (cfg, s) \<Longrightarrow> reachable cfg s"
| step: "reachable cfg s \<Longrightarrow> budget_step cfg s s' \<Longrightarrow> reachable cfg s'"

lemma cnt_False: "(\<And>x. x \<in> set xs \<Longrightarrow> \<not> P x) \<Longrightarrow> cnt P xs = 0"
  by (auto simp: cnt_def filter_empty_conv)

lemma build_inv:
  assumes "budget_build ns lims res lane_res = Inr (cfg, s)"
  shows "budget_inv cfg (\<lambda>_. 0) {} s \<and> settled cfg s"
proof -
  have cfg: "cfg = \<lparr> names = ns, limits = lims, resource_limit = res, lane_resource_limit = lane_res \<rparr>"
    "s = initial_state (length ns) lims" "ns \<noteq> []" using assms by (auto simp: budget_build_def split: if_splits)
  have "count_of Map.empty key = 0" for key by (simp add: count_of_def)
  then have "shaped cfg s" "accounted cfg s" "within cfg s" "conserved (\<lambda>_. 0) s" "queued {} s" "settled cfg s"
    using cfg by (simp_all add: shaped_def accounted_def within_def conserved_def queued_def settled_def
        initial_state_def sum_list_replicate map_replicate_const)
  then show ?thesis by (simp add: budget_inv_def)
qed

lemma can_grant_grant:
  assumes "shaped cfg s" "i < lanes_of s" "can_grant cfg (grant cfg s i wid) j r"
  shows "can_grant cfg s j r"
  using assms
  by (cases "w_resource (st_waiters s ! wid)"; cases r; cases "lane_resource_limit cfg")
    (auto simp: can_grant_def budget_simps nth_list_update shaped_def split: if_splits)

lemma grant_settled:
  assumes set: "settled cfg s" and sh: "shaped cfg s" and i: "i < lanes_of s"
  shows "settled cfg (grant cfg s i wid)"
proof -
  have "w_resource (st_waiters (grant cfg s i wid) ! w) = w_resource (st_waiters s ! w)" for w
    by (cases "w = wid"; cases "wid < length (st_waiters s)") (simp_all add: budget_simps list_update_beyond)
  then have "grantable cfg s j w" if "grantable cfg (grant cfg s i wid) j w" for j w
    using that can_grant_grant [OF sh i] by (simp add: grantable_def)
  then show ?thesis
    using set i unfolding settled_def by (auto simp: budget_simps nth_list_update)
qed

lemma new_waiter_settled:
  assumes "settled cfg s" "queued {} s"
  shows "settled cfg (new_waiter i r s)"
proof -
  have can: "can_grant cfg (new_waiter i r s) j r' = can_grant cfg s j r'" for j r'
    by (cases r'; cases "lane_resource_limit cfg") (simp_all add: can_grant_def new_waiter_def)
  have "grantable cfg (new_waiter i r s) j w = grantable cfg s j w"
    if "j < lanes_of s" "w \<in> set (lane_queue (st_lanes s ! j))" for j w
  proof -
    have "w < length (st_waiters s)" using assms(2) that by (auto simp: queued_def)
    then show ?thesis by (simp add: grantable_def can) (simp add: new_waiter_def nth_append)
  qed
  then show ?thesis using assms(1) by (auto simp: settled_def budget_simps)
qed


lemma counters_settled:
  "settled cfg (count_outcome i oc s) = settled cfg s" "settled cfg (count_started i s) = settled cfg s"
  "settled cfg (s\<lparr>st_skipped := k\<rparr>) = settled cfg s"
proof -
  have "can_grant cfg (count_outcome i oc s) j r = can_grant cfg s j r"
    "can_grant cfg (count_started i s) j r = can_grant cfg s j r"
    "can_grant cfg (s\<lparr>st_skipped := k\<rparr>) j r = can_grant cfg s j r" for j r
    by (cases r; cases "lane_resource_limit cfg"; simp add: can_grant_def count_outcome_def count_started_def)+
  then show "settled cfg (count_outcome i oc s) = settled cfg s" "settled cfg (count_started i s) = settled cfg s"
    "settled cfg (s\<lparr>st_skipped := k\<rparr>) = settled cfg s"
    by (simp_all add: settled_def grantable_def budget_simps)
qed

lemma skipped_inv: "budget_inv cfg d out (s\<lparr>st_skipped := k\<rparr>) = budget_inv cfg d out s"
  by (simp add: budget_inv_def shaped_def accounted_def queued_def within_def conserved_def)

abbreviation good :: "shared \<Rightarrow> budget_state \<Rightarrow> bool" where
  "good cfg s \<equiv> budget_inv cfg (\<lambda>_. 0) {} s \<and> settled cfg s"

lemma grant_new:
  assumes inv: "budget_inv cfg ((\<lambda>_. 0)(i := 0 + 1)) {} s" and set: "settled cfg s" and i: "i < lanes_of s"
    and can: "can_grant cfg s i r"
  shows "good cfg (grant cfg (new_waiter i r s) i (length (st_waiters s)))"
proof -
  let ?s = "new_waiter i r s" and ?w = "length (st_waiters s)"
  have n: "budget_inv cfg (\<lambda>_. 0) {?w} ?s" using new_waiter_inv [OF inv i, of r] by simp
  have "can_grant cfg ?s i r" using can by (cases r; cases "lane_resource_limit cfg") (simp_all add: can_grant_def new_waiter_def)
  then have "budget_inv cfg (\<lambda>_. 0) ({?w} - {?w}) (grant cfg ?s i ?w)"
    by (intro grant_inv [OF n]) (simp_all add: budget_simps)
  moreover have "settled cfg (grant cfg ?s i ?w)"
    using n new_waiter_settled [OF set] inv i
    by (intro grant_settled) (auto simp: budget_inv_def budget_simps)
  ultimately show ?thesis by simp
qed

lemma lane_position_less: "lane_position cfg lane = Some i \<Longrightarrow> i < length (names cfg)"
  by (simp add: lane_position_def find_index_Some)

lemma acquire_good:
  assumes g: "good cfg s" and i: "i < lanes_of s"
  shows "good cfg (snd (acquire_locked cfg s i r late))"
proof -
  let ?s = "count_started i s" and ?d = "(\<lambda>_. 0 :: nat)(i := 0 + 1)"
  have s1: "budget_inv cfg ?d {} ?s" "settled cfg ?s"
    using count_started_inv [of cfg "\<lambda>_. 0" "{}" s i] g i by (simp_all add: counters_settled)
  let ?t = "dispatch cfg ?s"
  have t: "budget_inv cfg ?d {} ?t" "settled cfg ?t" "i < lanes_of ?t" "i < lanes_of ?s"
    using dispatch_inv [OF s1(1)] dispatch_settled [OF s1(1)] i by (simp_all add: dispatch_fields budget_simps)
  have counted: "good cfg (count_outcome i oc u)" if "budget_inv cfg ?d {} u" "settled cfg u" "i < lanes_of u" for u oc
    using count_outcome_inv [OF that(1,3), of oc] that(2) by (simp add: counters_settled)
  have new: "budget_inv cfg (\<lambda>_. 0) {length (st_waiters ?t)} (new_waiter i r ?t)"
    using new_waiter_inv [OF t(1,3), of r] by simp
  have "good cfg (dispatch cfg (enqueue i (length (st_waiters ?t)) (new_waiter i r ?t)))" if "\<not> st_closed ?t"
  proof -
    have "budget_inv cfg (\<lambda>_. 0) {} (enqueue i (length (st_waiters ?t)) (new_waiter i r ?t))"
      by (rule enqueue_inv [OF new]) (use that in \<open>simp_all add: budget_simps\<close>)
    then show ?thesis using dispatch_inv dispatch_settled by blast
  qed
  then show ?thesis
    using counted [OF s1 t(4)] counted [OF t(1,2,3)] grant_new [OF t(1,2,3)]
    by (simp add: acquire_locked_def Let_def dispatch_fields budget_simps)
qed

lemma try_acquire_good:
  assumes g: "good cfg s" and i: "i < lanes_of s"
  shows "good cfg (snd (try_acquire_for cfg s i r late))"
proof -
  let ?t = "dispatch cfg s"
  have t: "good cfg ?t" "i < lanes_of ?t"
    using g i dispatch_inv dispatch_settled by (auto simp: dispatch_fields)
  have u: "budget_inv cfg ((\<lambda>_. 0)(i := 0 + 1)) {} (count_started i ?t)" "settled cfg (count_started i ?t)"
    "i < lanes_of (count_started i ?t)"
    using count_started_inv [of cfg "\<lambda>_. 0" "{}" ?t i] t by (simp_all add: counters_settled budget_simps)
  have can: "can_grant cfg (count_started i ?t) i r = can_grant cfg ?t i r"
    by (cases r; cases "lane_resource_limit cfg") (simp_all add: can_grant_def count_started_def)
  show ?thesis
    using t grant_new [OF u, of r]
    by (simp add: try_acquire_for_def Let_def can skipped_inv counters_settled budget_simps)
qed


lemma no_live_without_start:
  assumes inv: "budget_inv cfg (\<lambda>_. 0) {} s" and i: "i < lanes_of s" and z: "st_started s ! i = 0"
  shows "lane_active (st_lanes s ! i) = 0" "lane_queue (st_lanes s ! i) = []"
proof -
  have zero: "cnt (\<lambda>w. w_state w < 2 \<and> w_lane w = i) (st_waiters s) = 0"
    using inv i z by (simp add: budget_inv_def conserved_def)
  then have none: "\<not> (w_state w < 2 \<and> w_lane w = i)" if "w \<in> set (st_waiters s)" for w
    using that by (auto simp: cnt_def filter_empty_conv)
  then have "cnt (\<lambda>w. w_state w = 1 \<and> w_lane w = i) (st_waiters s) = 0" by (intro cnt_False) fastforce
  then show "lane_active (st_lanes s ! i) = 0" using inv i by (simp add: budget_inv_def accounted_def)
  have "set (lane_queue (st_lanes s ! i)) =
      {w. w < length (st_waiters s) \<and> w_state (st_waiters s ! w) = 0 \<and> w_lane (st_waiters s ! w) = i}"
    using inv i by (simp add: budget_inv_def queued_def)
  also have "\<dots> = {}" using none nth_mem by fastforce
  finally show "lane_queue (st_lanes s ! i) = []" by simp
qed

lemma cap_good:
  assumes g: "good cfg s" and c: "cap_lane cfg s lane lim = Inr s'"
  shows "good cfg s'"
proof -
  from c obtain i where p: "lane_position cfg lane = Some i" and lim: "lim \<le> lim_per_lane (limits cfg)"
    and st: "\<forall>c \<in> set (st_started s). c = 0" and s': "s' = set_lane i ((st_lanes s ! i)\<lparr>lane_limit := lim\<rparr>) s"
    by (auto simp: cap_lane_def split: option.splits if_splits)
  have n: "lanes_of s = length (names cfg)" "length (st_started s) = lanes_of s" "length (st_lane_resource_active s) = lanes_of s"
    using g by (auto simp: budget_inv_def shaped_def)
  then have i: "i < lanes_of s" using lane_position_less [OF p] by simp
  have z: "st_started s ! j = 0" if "j < lanes_of s" for j using st n that by simp
  have q: "lane_queue (st_lanes s ! j) = []" if "j < lanes_of s" for j
    using no_live_without_start(2) [OF conjunct1 [OF g] that z [OF that]] .
  have "shaped cfg s'" "accounted cfg s'" "conserved (\<lambda>_. 0) s'" "queued {} s'"
    using g i unfolding s' by (auto simp: budget_inv_def shaped_def accounted_def conserved_def queued_def
        budget_simps nth_list_update queue_lengths_same)
  moreover have "within cfg s'"
    using g i lim no_live_without_start(1) [OF conjunct1 [OF g] i z [OF i]] unfolding s'
    by (auto simp: budget_inv_def within_def budget_simps nth_list_update)
  moreover have "settled cfg s'" using q i unfolding s' by (auto simp: settled_def budget_simps nth_list_update)
  ultimately show ?thesis by (simp add: budget_inv_def)
qed

lemma step_good:
  assumes "budget_step cfg s s'" "good cfg s"
  shows "good cfg s'"
  using assms
proof cases
  case (acquire lane resource at now locked_at answer)
  show ?thesis
  proof (cases "lane_position cfg lane")
    case None
    then show ?thesis using acquire assms(2) by (simp add: acquire_for_def)
  next
    case (Some i)
    then have "i < lanes_of s" using lane_position_less assms(2) by (auto simp: budget_inv_def shaped_def)
    from acquire_good [OF assms(2) this, of resource "admission_deadline cfg at now \<le> locked_at"] acquire Some
    show ?thesis by (simp add: acquire_for_def)
  qed
next
  case (try_acquire lane i resource late permit)
  then have "i < lanes_of s" using lane_position_less assms(2) by (auto simp: budget_inv_def shaped_def)
  with try_acquire_good [OF assms(2) this, of resource late] try_acquire show ?thesis by simp
next
  case (drop wid oc)
  then show ?thesis using drop_registration_inv assms(2) by blast
next
  case close
  then show ?thesis using close_inv assms(2) by blast
next
  case (cap lane limit)
  then show ?thesis using cap_good assms(2) by blast
qed

lemma reachable_good: "reachable cfg s \<Longrightarrow> good cfg s"
proof (induction rule: reachable.induct)
  case (build ns lims res lane_res cfg s)
  then show ?case by (rule build_inv)
next
  case (step cfg s s')
  then show ?case using step_good by blast
qed

definition headroom :: "shared \<Rightarrow> bool" where
  "headroom cfg \<longleftrightarrow> 1 < length (names cfg) \<longrightarrow> lim_per_lane (limits cfg) < lim_active (limits cfg)"

lemma reachable_headroom: "reachable cfg s \<Longrightarrow> headroom cfg"
  by (induction rule: reachable.induct) (auto simp: headroom_def budget_build_def split: if_splits)

section \<open>A sample budget\<close>

text \<open>Two lanes and two permits, one of them per lane: the first lane holds one permit and waits for another.\<close>

definition sample_limits :: budget_limits where
  "sample_limits = \<lparr> lim_active = 2, lim_per_lane = 1, lim_waiting = 4, lim_per_lane_waiting = 2, lim_wait = 10 \<rparr>"

definition sample_shared :: shared where
  "sample_shared = \<lparr> names = [''rpc'', ''sign''], limits = sample_limits, resource_limit = 2, lane_resource_limit = Some 1 \<rparr>"

definition sample_busy :: budget_state where
  "sample_busy = snd (acquire_for sample_shared (initial_state 2 sample_limits) ''rpc'' (Some ''node'') None 0 0)"

definition sample_waiting :: budget_state where
  "sample_waiting = snd (acquire_for sample_shared sample_busy ''rpc'' None None 0 0)"

lemmas sample_budget_simps = sample_shared_def sample_limits_def select_waiter_def can_grant_def
  acquire_for_def lane_position_def admission_deadline_def acquire_locked_def dispatch_def dispatch_loop.simps grant_def set_waiter_def set_lane_def new_waiter_def
  count_started_def enqueue_def count_of_def count_incr_def upt_rec numeral_2_eq_2 Let_def

lemma sample_busy_eq:
  "sample_busy =
     \<lparr> st_active = 1, st_waiting = 0, st_next = 0, st_closed = False,
       st_lanes = [\<lparr> lane_active = 1, lane_limit = 1, lane_queue = [] \<rparr>, \<lparr> lane_active = 0, lane_limit = 1, lane_queue = [] \<rparr>],
       st_resource_active = [''node'' \<mapsto> 1], st_lane_resource_active = [[''node'' \<mapsto> 1], Map.empty],
       st_waiters = [\<lparr> w_state = 1, w_resource = Some ''node'', w_lane = 0 \<rparr>],
       st_outcomes = [replicate 9 0, replicate 9 0], st_started = [1, 0], st_skipped = 0 \<rparr>"
  by (simp add: sample_busy_def initial_state_def sample_budget_simps)

lemma sample_waiting_eq:
  "sample_waiting =
     sample_busy\<lparr> st_waiting := 1, st_started := [2, 0],
       st_lanes := [\<lparr> lane_active = 1, lane_limit = 1, lane_queue = [1] \<rparr>, \<lparr> lane_active = 0, lane_limit = 1, lane_queue = [] \<rparr>],
       st_waiters := st_waiters sample_busy @ [\<lparr> w_state = 0, w_resource = None, w_lane = 0 \<rparr>] \<rparr>"
  by (simp add: sample_waiting_def sample_busy_eq sample_budget_simps)

lemma sample_reachable: "reachable sample_shared sample_waiting"
proof -
  have "budget_build [''rpc'', ''sign''] sample_limits 2 (Some 1) = Inr (sample_shared, initial_state 2 sample_limits)"
    by (simp add: budget_build_def sample_shared_def sample_limits_def numeral_2_eq_2)
  then have "reachable sample_shared (initial_state 2 sample_limits)" by (rule reachable.build)
  then have "reachable sample_shared sample_busy"
    unfolding sample_busy_def by (rule reachable.step) (auto intro: budget_step.acquire prod.collapse [symmetric])
  then show ?thesis
    unfolding sample_waiting_def by (rule reachable.step) (auto intro: budget_step.acquire prod.collapse [symmetric])
qed

section \<open>Waiting\<close>

text \<open>A step changes the state of a waiter that is no longer waiting only by dropping it.\<close>

definition keeps_states :: "budget_state \<Rightarrow> budget_state \<Rightarrow> bool" where
  "keeps_states s s' \<longleftrightarrow> (\<forall>w < length (st_waiters s). w < length (st_waiters s') \<and>
     (w_state (st_waiters s ! w) \<noteq> 0 \<longrightarrow> w_state (st_waiters s' ! w) = w_state (st_waiters s ! w)))"

lemma keeps_trans: "keeps_states s t \<Longrightarrow> keeps_states t u \<Longrightarrow> keeps_states s u"
  by (auto simp: keeps_states_def)

lemma keeps_same: "st_waiters s' = st_waiters s \<Longrightarrow> keeps_states s s'"
  by (simp add: keeps_states_def)

lemma keeps_new: "keeps_states s (new_waiter i r s)"
  by (simp add: keeps_states_def budget_simps nth_append)

lemma keeps_waiting:
  assumes "w < length (st_waiters s) \<Longrightarrow> w_state (st_waiters s ! w) = 0" "st_waiters s' = (st_waiters s)[w := x]"
  shows "keeps_states s s'"
proof (cases "w < length (st_waiters s)")
  case True
  with assms show ?thesis by (auto simp: keeps_states_def nth_list_update)
next
  case False
  with assms(2) show ?thesis by (simp add: keeps_states_def list_update_beyond)
qed

lemma grant_queued_keeps:
  assumes inv: "budget_inv cfg d {} s" and sel: "select_waiter cfg s = Some (i, pos)"
  shows "keeps_states s (grant_queued cfg s i pos)"
proof (rule keeps_waiting [where w = "lane_queue (st_lanes s ! i) ! pos"])
  have n: "0 < lanes_of s" using inv by (auto simp: budget_inv_def shaped_def)
  from select_waiter_Some [OF sel] n have i: "i < lanes_of s" and "pos < length (lane_queue (st_lanes s ! i))" by auto
  then have "lane_queue (st_lanes s ! i) ! pos \<in> set (lane_queue (st_lanes s ! i))" by simp
  then show "w_state (st_waiters s ! (lane_queue (st_lanes s ! i) ! pos)) = 0" using inv i by (auto simp: budget_inv_def queued_def)
qed (simp add: grant_queued_eq dequeue_def budget_simps)

lemma dispatch_keeps:
  assumes "budget_inv cfg d {} s"
  shows "keeps_states s (dispatch cfg s)"
proof -
  have "budget_inv cfg d {} s \<longrightarrow> keeps_states s (dispatch_loop cfg s)"
  proof (induction s rule: dispatch_loop_induct [where cfg = cfg])
    case (step s)
    then show ?case
      by (subst dispatch_loop.simps) (auto split: option.splits intro: keeps_same grant_queued_inv keeps_trans [OF grant_queued_keeps])
  qed
  with assms show ?thesis by (simp add: dispatch_def keeps_same)
qed

lemma acquire_keeps:
  assumes g: "good cfg s" and i: "i < lanes_of s"
  shows "keeps_states s (snd (acquire_locked cfg s i r late))"
proof -
  let ?s = "count_started i s" and ?d = "(\<lambda>_. 0 :: nat)(i := 0 + 1)"
  have s1: "budget_inv cfg ?d {} ?s" using count_started_inv [of cfg "\<lambda>_. 0" "{}" s i] g i by simp
  let ?t = "dispatch cfg ?s"
  have t: "budget_inv cfg ?d {} ?t" "i < lanes_of ?t" using dispatch_inv [OF s1] i by (simp_all add: dispatch_fields budget_simps)
  have k: "keeps_states s ?t" using keeps_trans [OF keeps_same dispatch_keeps [OF s1]] by (simp add: budget_simps)
  note new = keeps_trans [OF k keeps_new [of ?t i r]]
  let ?n = "new_waiter i r ?t" and ?w = "length (st_waiters ?t)"
  have granted: "keeps_states s (grant cfg ?n i ?w)"
    by (rule keeps_trans [OF new]) (rule keeps_waiting [of ?w], auto simp: budget_simps)
  have queued: "keeps_states s (dispatch cfg (enqueue i ?w ?n))" if "\<not> st_closed ?t"
  proof -
    have "budget_inv cfg (\<lambda>_. 0) {} (enqueue i ?w ?n)"
      by (rule enqueue_inv) (use new_waiter_inv [OF t, of r] t(2) that in \<open>simp_all add: budget_simps\<close>)
    then have "keeps_states (enqueue i ?w ?n) (dispatch cfg (enqueue i ?w ?n))" by (rule dispatch_keeps)
    moreover have "keeps_states s (enqueue i ?w ?n)" by (rule keeps_trans [OF new keeps_same]) (simp add: enqueue_def budget_simps)
    ultimately show ?thesis by (rule keeps_trans [rotated])
  qed
  have "keeps_states s (count_outcome i oc ?s)" "keeps_states s (count_outcome i oc ?t)" for oc
    using keeps_trans [OF k keeps_same] by (auto simp: budget_simps intro: keeps_same)
  with granted queued show ?thesis by (simp add: acquire_locked_def Let_def dispatch_fields budget_simps)
qed

lemma drain_keeps:
  assumes "budget_inv cfg (\<lambda>_. 0) {} s" "i < lanes_of s"
  shows "keeps_states s (drain_lane i s)"
proof -
  have "keeps_states t (close_waiters ids i t)" if "\<forall>w \<in> set ids. w_state (st_waiters t ! w) = 0" "distinct ids" for ids t
    using that
  proof (induction ids arbitrary: t)
    case (Cons w ids)
    let ?t = "count_outcome i OutShutdown (set_waiter w 3 t)"
    have "\<forall>v \<in> set ids. w_state (st_waiters ?t ! v) = 0" using Cons.prems by (auto simp: budget_simps) (metis nth_list_update_neq)
    from Cons.IH [OF this] Cons.prems(2) have "keeps_states ?t (close_waiters ids i ?t)" by simp
    moreover have "keeps_states t ?t" by (rule keeps_waiting [of w]) (use Cons.prems(1) in \<open>simp_all add: budget_simps\<close>)
    ultimately show ?case by (simp add: close_waiters_def keeps_trans)
  qed (simp add: close_waiters_def keeps_same)
  note closed = this
  have q: "\<forall>w \<in> set (lane_queue (st_lanes s ! i)). w_state (st_waiters s ! w) = 0" "distinct (lane_queue (st_lanes s ! i))"
    using assms by (auto simp: budget_inv_def queued_def)
  show ?thesis
    unfolding drain_lane_def
    by (rule keeps_trans [OF keeps_same closed]) (use q in \<open>simp_all add: put_queue_def budget_simps\<close>)
qed

lemma close_keeps:
  assumes inv: "budget_inv cfg (\<lambda>_. 0) {} s"
  shows "keeps_states s (budget_close s)"
proof -
  have "k \<le> lanes_of s \<Longrightarrow> keeps_states s (fold drain_lane [0..<k] s)" for k
  proof (induction k)
    case (Suc k)
    have "keeps_states (fold drain_lane [0..<k] s) (drain_lane k (fold drain_lane [0..<k] s))"
      using drain_lanes [OF inv, of k] Suc.prems by (intro drain_keeps) auto
    with Suc show ?case by (auto intro: keeps_trans)
  qed (simp add: keeps_same)
  note this [OF order_refl]
  then show ?thesis unfolding budget_close_eq by (rule keeps_trans) (rule keeps_same, simp)
qed

lemma step_keeps:
  assumes step: "budget_step cfg s s'" and g: "good cfg s" and w: "w < length (st_waiters s)" and held: "w_state (st_waiters s' ! w) \<noteq> 2"
  shows "w < length (st_waiters s') \<and> (w_state (st_waiters s ! w) \<noteq> 0 \<longrightarrow> w_state (st_waiters s' ! w) = w_state (st_waiters s ! w))"
  using step
proof cases
  case (acquire lane resource at now locked_at answer)
  have "keeps_states s s'"
  proof (cases "lane_position cfg lane")
    case None
    with acquire show ?thesis by (simp add: acquire_for_def keeps_same)
  next
    case (Some i)
    then have "i < lanes_of s" using lane_position_less g by (auto simp: budget_inv_def shaped_def)
    from acquire_keeps [OF g this, of resource "admission_deadline cfg at now \<le> locked_at"] acquire Some show ?thesis by (simp add: acquire_for_def)
  qed
  with w show ?thesis by (simp add: keeps_states_def)
next
  case (try_acquire lane i resource late permit)
  have t: "keeps_states s (dispatch cfg s)" using dispatch_keeps g by blast
  let ?n = "new_waiter i resource (count_started i (dispatch cfg s))" and ?w = "length (st_waiters (dispatch cfg s))"
  have "keeps_states s ?n" by (intro keeps_trans [OF t] keeps_trans [OF keeps_same keeps_new]) (simp add: budget_simps)
  then have "keeps_states s (grant cfg ?n i ?w)" by (rule keeps_trans) (rule keeps_waiting [of ?w], auto simp: budget_simps)
  moreover have "keeps_states s ((dispatch cfg s)\<lparr>st_skipped := k\<rparr>)" for k by (rule keeps_trans [OF t keeps_same]) simp
  ultimately have "keeps_states s s'" using try_acquire by (auto simp: try_acquire_for_def Let_def split: if_splits)
  with w show ?thesis by (simp add: keeps_states_def)
next
  case (drop wid oc)
  from drop_mid [OF conjunct1 [OF g] drop(2,3), of oc] obtain t where t: "budget_inv cfg (\<lambda>_. 0) {} t" "s' = dispatch cfg t"
    "st_waiters t = st_waiters (set_waiter wid 2 s)" using drop(1) by blast
  have k: "w < length (st_waiters s') \<and> (w_state (st_waiters t ! w) \<noteq> 0 \<longrightarrow> w_state (st_waiters s' ! w) = w_state (st_waiters t ! w))"
    using dispatch_keeps [OF t(1)] w unfolding t(2) by (auto simp: keeps_states_def t(3) budget_simps)
  with held have "w \<noteq> wid" using drop(2) by (auto simp: t(3) budget_simps)
  with k show ?thesis by (simp add: t(3) budget_simps)
next
  case close
  with close_keeps g w show ?thesis by (auto simp: keeps_states_def)
next
  case (cap lane limit)
  then have "st_waiters s' = st_waiters s" by (auto simp: cap_lane_def budget_simps split: option.splits if_splits)
  with w show ?thesis by simp
qed

text \<open>Steps of the budget in the order of time, while a registration is held, so that its waiter is not dropped.\<close>

fun held_run :: "shared \<Rightarrow> nat \<Rightarrow> budget_state \<Rightarrow> nat \<Rightarrow> timed_steps \<Rightarrow> bool" where
  "held_run cfg wid s now [] \<longleftrightarrow> True"
| "held_run cfg wid s now ((s', t) # steps) \<longleftrightarrow>
     budget_step cfg s s' \<and> w_state (st_waiters s' ! wid) \<noteq> 2 \<and> now \<le> t \<and> held_run cfg wid s' t steps"

lemma held_times: "held_run cfg wid s now steps \<Longrightarrow> (s', t) \<in> set steps \<Longrightarrow> now \<le> t"
  by (induction cfg wid s now steps rule: held_run.induct) auto

text \<open>Once notified, the waiter is still granted or closed in every later state.\<close>

lemma held_kept:
  "held_run cfg wid s now steps \<Longrightarrow> good cfg s \<Longrightarrow> wid < length (st_waiters s) \<Longrightarrow> w_state (st_waiters s ! wid) \<in> {1, 3} \<Longrightarrow>
   (s', t) \<in> set steps \<Longrightarrow> w_state (st_waiters s' ! wid) \<in> {1, 3}"
proof (induction cfg wid s now steps rule: held_run.induct)
  case (2 cfg wid s now u r steps)
  have "w_state (st_waiters u ! wid) \<in> {1, 3}" "wid < length (st_waiters u)" "good cfg u"
    using step_keeps [of cfg s u wid] step_good [of cfg s u] 2 by auto
  with 2 show ?case by auto
qed simp

text \<open>The state seen when the task runs again is the one after the notification, if that came.\<close>

lemma seen_cases: "seen_at at s steps = s \<and> filter (\<lambda>(_, t). t \<le> at) steps = [] \<or> (\<exists>t \<le> at. (seen_at at s steps, t) \<in> set steps)"
proof (cases "filter (\<lambda>(_, t). t \<le> at) steps" rule: rev_cases)
  case (snoc ys y)
  then have y: "y \<in> set (filter (\<lambda>(_, t). t \<le> at) steps)" by (simp only: set_append) simp
  have "seen_at at s steps = fst y" using snoc by (simp add: seen_at_def)
  with y show ?thesis by (intro disjI2 exI [of _ "snd y"]) (auto simp only: set_filter mem_Collect_eq prod.case_eq_if prod.collapse)
qed (simp add: seen_at_def)

lemma wake_at_first:
  assumes "held_run cfg wid s now steps" "(s', t) \<in> set steps" "w_state (st_waiters s' ! wid) \<in> {1, 3}"
  shows "\<exists>w \<le> t. wake_at wid steps = Some w"
  using assms
proof (induction cfg wid s now steps rule: held_run.induct)
  case (2 cfg wid s now u r steps)
  then show ?case using held_times [of cfg wid u r steps s' t] by (auto simp: wake_at_def)
qed simp

lemma seen_woken:
  assumes "held_run cfg wid s now steps" "good cfg s" "wid < length (st_waiters s)" "wake_at wid steps = Some w" "w \<le> at"
  shows "w_state (st_waiters (seen_at at s steps) ! wid) \<in> {1, 3}"
  using assms
proof (induction cfg wid s now steps rule: held_run.induct)
  case (2 cfg wid s now u r steps)
  have u: "good cfg u" "wid < length (st_waiters u)" using step_keeps [of cfg s u wid] step_good [of cfg s u] 2 by auto
  show ?case
  proof (cases "w_state (st_waiters u ! wid) \<in> {1, 3}")
    case True
    then have "r \<le> at" using 2(5,6) by (simp add: wake_at_def)
    then have "seen_at at s ((u, r) # steps) = seen_at at u steps" by (simp add: seen_at_def)
    moreover have "w_state (st_waiters (seen_at at u steps) ! wid) \<in> {1, 3}"
      using seen_cases [of at u steps] held_kept [OF _ u True] True 2(2) by auto
    ultimately show ?thesis by simp
  next
    case False
    then have w: "wake_at wid steps = Some w" using 2(5) by (simp add: wake_at_def)
    then obtain x where "List.find (\<lambda>(s, _). w_state (st_waiters s ! wid) \<in> {1, 3}) steps = Some (x, w)" by (auto simp: wake_at_def)
    then have "(x, w) \<in> set steps" unfolding find_Some_iff by (metis nth_mem)
    then have "r \<le> at" using held_times [of cfg wid u r steps x w] 2(2,6) by auto
    then have "seen_at at s ((u, r) # steps) = seen_at at u steps" by (simp add: seen_at_def)
    with 2(1) [OF _ u w 2(6)] 2(2) show ?thesis by simp
  qed
qed (simp add: wake_at_def)

text \<open>
  The documented behaviour of the timer: it answers with the notification, if that came, or with the deadline, when that
  has passed, and the task runs again at most \<open>lag\<close> after the first of the two.
\<close>

definition timer_ok :: "nat \<Rightarrow> timer \<Rightarrow> bool" where
  "timer_ok lag timeout_at \<longleftrightarrow> (\<forall>now deadline wake. case timeout_at now deadline wake of (notified, at) \<Rightarrow>
     now \<le> at \<and> at \<le> max now (case wake of None \<Rightarrow> deadline | Some w \<Rightarrow> min w deadline) + lag \<and>
     (if notified then \<exists>w. wake = Some w \<and> w \<le> at else deadline \<le> at))"

lemma acquire_poll_cases:
  "acquire_poll s wid ctx deadline now =
     (if deadline \<le> now then expired_poll ctx now
      else if w_state (st_waiters s ! wid) = 1 then Granted
      else if w_state (st_waiters s ! wid) = 3 then Failed Closed OutShutdown else Pending)"
  "expired_poll ctx now \<noteq> Pending" "expired_poll ctx now \<noteq> Granted" "expired_poll ctx now \<noteq> Failed Closed OutShutdown"
  by (auto simp: acquire_poll_def expired_poll_def)

lemma poll_answers:
  "acquire_poll s wid ctx deadline at = Granted \<longleftrightarrow> at < deadline \<and> w_state (st_waiters s ! wid) = 1"
  "acquire_poll s wid ctx deadline at = Failed Closed OutShutdown \<longleftrightarrow> at < deadline \<and> w_state (st_waiters s ! wid) = 3"
  "acquire_poll s wid ctx deadline at = expired_poll ctx at \<longleftrightarrow> deadline \<le> at"
  by (simp_all add: acquire_poll_def expired_poll_def)

text \<open>The loop takes at most two turns.\<close>

lemma acquire_wait_result:
  assumes T: "timer_ok lag T" and run: "held_run cfg wid s now steps" and g: "good cfg s" and w: "wid < length (st_waiters s)"
  obtains at seen where "acquire_wait T wid ctx deadline s now steps = Some (acquire_poll seen wid ctx deadline at, at, seen)"
    "acquire_poll seen wid ctx deadline at \<noteq> Pending" "seen \<in> insert s (fst ` set steps)" "at \<le> max now deadline + lag"
    "\<forall>(s', t) \<in> set steps. w_state (st_waiters s' ! wid) \<in> {1, 3} \<longrightarrow> at \<le> max now t + lag"
proof (cases "acquire_poll s wid ctx deadline now = Pending")
  case False
  then have "acquire_wait T wid ctx deadline s now steps = Some (acquire_poll s wid ctx deadline now, now, s)"
    by (subst acquire_wait.simps) simp
  moreover have "\<forall>(s', t) \<in> set steps. w_state (st_waiters s' ! wid) \<in> {1, 3} \<longrightarrow> now \<le> max now t + lag" by auto
  ultimately show thesis using that [of s now] False by simp
next
  case True
  obtain notified at where await: "T now deadline (wake_at wid steps) = (notified, at)" by fastforce
  let ?seen = "seen_at at s steps"
  have law: "at \<le> max now (case wake_at wid steps of None \<Rightarrow> deadline | Some w \<Rightarrow> min w deadline) + lag"
    "if notified then \<exists>w. wake_at wid steps = Some w \<and> w \<le> at else deadline \<le> at"
    using T [unfolded timer_ok_def, rule_format, of now deadline "wake_at wid steps"] await by auto
  have seen: "?seen \<in> insert s (fst ` set steps)" using seen_cases [of at s steps] by force
  have late: "at \<le> max now deadline + lag" using law(1) by (auto split: option.splits)
  have "at \<le> max now t + lag" if "(s', t) \<in> set steps" "w_state (st_waiters s' ! wid) \<in> {1, 3}" for s' t
    using wake_at_first [OF run that] law(1) by auto
  then have prompt: "\<forall>(s', t) \<in> set steps. w_state (st_waiters s' ! wid) \<in> {1, 3} \<longrightarrow> at \<le> max now t + lag" by blast
  have loop: "acquire_wait T wid ctx deadline s now steps =
      (if notified then acquire_wait T wid ctx deadline ?seen at (steps_after at steps) else Some (expired_poll ctx at, at, ?seen))"
    using True await by (subst acquire_wait.simps) simp
  have "acquire_poll ?seen wid ctx deadline at \<noteq> Pending \<and> acquire_wait T wid ctx deadline s now steps = Some (acquire_poll ?seen wid ctx deadline at, at, ?seen)"
  proof (cases notified)
    case True
    with law(2) obtain v where v: "wake_at wid steps = Some v" "v \<le> at" by auto
    have "w_state (st_waiters ?seen ! wid) \<in> {1, 3}" by (rule seen_woken [OF run g w v])
    then have "acquire_poll ?seen wid ctx deadline at \<noteq> Pending" by (auto simp: acquire_poll_cases)
    then have "acquire_wait T wid ctx deadline ?seen at (steps_after at steps) = Some (acquire_poll ?seen wid ctx deadline at, at, ?seen)"
      by (subst acquire_wait.simps) simp
    with loop True \<open>acquire_poll ?seen wid ctx deadline at \<noteq> Pending\<close> show ?thesis by simp
  next
    case False
    with law(2) loop show ?thesis by (simp add: acquire_poll_cases)
  qed
  with that seen late prompt show thesis by blast
qed

section \<open>Properties\<close>

text \<open>
  C10: the caps hold in every reachable state: the active permits, the active permits of a lane, of a
  resource, and of a lane on a resource never exceed their limits, and when there is more than
  one lane no lane ever holds all the permits.
\<close>

theorem budget_caps_hold:
  assumes "reachable cfg s"
  shows "st_active s \<le> lim_active (limits cfg) \<and>
    (\<forall>i < length (names cfg). lane_active (st_lanes s ! i) \<le> lane_limit (st_lanes s ! i) \<and>
       lane_limit (st_lanes s ! i) \<le> lim_per_lane (limits cfg) \<and>
       (1 < length (names cfg) \<longrightarrow> lane_active (st_lanes s ! i) < lim_active (limits cfg))) \<and>
    (\<forall>key. count_of (st_resource_active s) key \<le> resource_limit cfg) \<and>
    (\<forall>lim i key. lane_resource_limit cfg = Some lim \<longrightarrow> i < length (names cfg) \<longrightarrow>
       count_of (st_lane_resource_active s ! i) key \<le> lim)"
  using reachable_good [OF assms] reachable_headroom [OF assms]
  by (fastforce simp: budget_inv_def within_def shaped_def headroom_def)

lemma budget_caps_hold_witness:
  "st_active sample_waiting \<le> 2 \<and> lane_active (st_lanes sample_waiting ! 0) < 2"
  using budget_caps_hold [OF sample_reachable] by (simp add: sample_shared_def sample_limits_def)

text \<open>
  The counters are exact in every reachable state. The active counts are the numbers of granted
  registrations, overall, by lane and by resource; the number of waiters is the total length of the
  queues; and every queue holds the waiting registrations of its lane, each once.
\<close>

lemma budget_counts_exact:
  assumes "reachable cfg s"
  shows "st_active s = cnt (\<lambda>w. w_state w = 1) (st_waiters s) \<and>
    (\<forall>i < length (names cfg). lane_active (st_lanes s ! i) = cnt (\<lambda>w. w_state w = 1 \<and> w_lane w = i) (st_waiters s)) \<and>
    (\<forall>key. count_of (st_resource_active s) key = cnt (\<lambda>w. w_state w = 1 \<and> w_resource w = Some key) (st_waiters s)) \<and>
    st_waiting s = sum_list (map (\<lambda>l. length (lane_queue l)) (st_lanes s)) \<and>
    (\<forall>i < length (names cfg). distinct (lane_queue (st_lanes s ! i)) \<and> set (lane_queue (st_lanes s ! i)) =
       {w. w < length (st_waiters s) \<and> w_state (st_waiters s ! w) = 0 \<and> w_lane (st_waiters s ! w) = i})"
  using reachable_good [OF assms] by (simp add: budget_inv_def accounted_def queued_def shaped_def)

lemma budget_counts_exact_witness:
  "st_active sample_waiting = cnt (\<lambda>w. w_state w = 1) (st_waiters sample_waiting) \<and>
   st_waiting sample_waiting = sum_list (map (\<lambda>l. length (lane_queue l)) (st_lanes sample_waiting))"
  using budget_counts_exact [OF sample_reachable] by blast

text \<open>
  C17: the budget is work-conserving. In every reachable state that is not closed, no waiting
  registration could be granted: each one is held back by the overall, lane or resource cap.
\<close>

theorem budget_work_conserving:
  assumes "reachable cfg s" "\<not> st_closed s" "i < length (names cfg)" "w \<in> set (lane_queue (st_lanes s ! i))"
  shows "\<not> can_grant cfg s i (w_resource (st_waiters s ! w))"
  using reachable_good [OF assms(1)] assms(2-4)
  by (auto simp: settled_def grantable_def budget_inv_def shaped_def)

lemma budget_work_conserving_witness:
  "1 \<in> set (lane_queue (st_lanes sample_waiting ! 0)) \<and>
   \<not> can_grant sample_shared sample_waiting 0 (w_resource (st_waiters sample_waiting ! 1))"
  using budget_work_conserving [OF sample_reachable, of 0 1]
  by (simp add: sample_waiting_eq sample_busy_eq sample_shared_def)

text \<open>
  C30: every started acquisition is counted under exactly one outcome or is still live. In every
  reachable state, the acquisitions a lane started are its outcomes plus its registrations that
  are waiting or granted.
\<close>

theorem budget_outcomes_conserved:
  assumes "reachable cfg s" "i < length (names cfg)"
  shows "st_started s ! i =
    sum_list (st_outcomes s ! i) + cnt (\<lambda>w. w_state w < 2 \<and> w_lane w = i) (st_waiters s)"
  using reachable_good [OF assms(1)] assms(2) by (simp add: budget_inv_def conserved_def shaped_def)

lemma budget_outcomes_conserved_witness:
  "(2 :: nat) = sum_list (st_outcomes sample_waiting ! 0) + cnt (\<lambda>w. w_state w < 2 \<and> w_lane w = 0) (st_waiters sample_waiting)"
  using budget_outcomes_conserved [OF sample_reachable, of 0]
  by (simp add: sample_waiting_eq sample_shared_def)

text \<open>
  Dropping a registration never takes a counter below zero. In a reachable state, a waiting
  registration is in its lane's queue and counted as a waiter, and a granted one is counted in the
  active permits, in its lane and in its resource.
\<close>

theorem drop_never_underflows:
  assumes "reachable cfg s" "wid < length (st_waiters s)"
  shows "(w_state (st_waiters s ! wid) = 0 \<longrightarrow>
        0 < st_waiting s \<and> wid \<in> set (lane_queue (st_lanes s ! w_lane (st_waiters s ! wid)))) \<and>
    (w_state (st_waiters s ! wid) = 1 \<longrightarrow> 0 < st_active s \<and> 0 < lane_active (st_lanes s ! w_lane (st_waiters s ! wid)) \<and>
        (\<forall>key. w_resource (st_waiters s ! wid) = Some key \<longrightarrow> 0 < count_of (st_resource_active s) key))"
proof -
  let ?w = "st_waiters s ! wid"
  have inv: "budget_inv cfg (\<lambda>_. 0) {} s" using reachable_good [OF assms(1)] by simp
  then have l: "w_lane ?w < lanes_of s" using assms(2) by (auto simp: budget_inv_def intro: shaped_lane)
  show ?thesis
  proof (cases "w_state ?w")
    case 0
    then have mem: "wid \<in> set (lane_queue (st_lanes s ! w_lane ?w))"
      using inv l assms(2) by (auto simp: budget_inv_def queued_def)
    then have "0 < length (lane_queue (st_lanes s ! w_lane ?w))" by (auto simp: length_pos_if_in_set)
    moreover have "length (lane_queue (st_lanes s ! w_lane ?w)) \<le> st_waiting s"
      using inv l elem_le_sum_list [of "w_lane ?w" "map (\<lambda>l. length (lane_queue l)) (st_lanes s)"]
      by (simp add: budget_inv_def queued_def)
    ultimately have "0 < st_waiting s" by linarith
    with 0 mem show ?thesis by simp
  next
    case (Suc k)
    have "0 < cnt P (st_waiters s)" if "P ?w" for P using cnt_pos [OF assms(2), of P] that by blast
    with Suc inv l show ?thesis by (simp add: budget_inv_def accounted_def)
  qed
qed

lemma drop_never_underflows_witness:
  "w_state (st_waiters sample_waiting ! 1) = 0 \<and> 0 < st_waiting sample_waiting \<and>
   w_state (st_waiters sample_waiting ! 0) = 1 \<and> 0 < st_active sample_waiting"
  using drop_never_underflows [OF sample_reachable, of 0] drop_never_underflows [OF sample_reachable, of 1]
  by (simp add: sample_waiting_eq sample_busy_eq)

text \<open>
  Dispatch is round robin. The waiter it grants next is the first grantable one of its lane, and
  every lane between the one whose turn it is and that lane, in cyclic order, has no waiter that
  could be granted; the turn then passes to the lane after it.
\<close>

theorem dispatch_round_robin:
  assumes "select_waiter cfg s = Some (i, pos)"
  shows "\<exists>k < length (st_lanes s). i = (st_next s + k) mod length (st_lanes s) \<and>
    can_grant cfg s i (w_resource (st_waiters s ! (lane_queue (st_lanes s ! i) ! pos))) \<and>
    (\<forall>p < pos. \<not> can_grant cfg s i (w_resource (st_waiters s ! (lane_queue (st_lanes s ! i) ! p)))) \<and>
    (\<forall>j < k. \<forall>w \<in> set (lane_queue (st_lanes s ! ((st_next s + j) mod length (st_lanes s)))).
       \<not> can_grant cfg s ((st_next s + j) mod length (st_lanes s)) (w_resource (st_waiters s ! w))) \<and>
    st_next (grant_queued cfg s i pos) = (i + 1) mod length (st_lanes s)"
  using select_waiter_Some [OF assms] by (auto simp: grantable_def grant_queued_eq)

lemma dispatch_round_robin_witness:
  "\<exists>s. select_waiter sample_shared s = Some (0, 0) \<and> st_next (grant_queued sample_shared s 0 0) = 1"
proof -
  let ?s = "release sample_shared (set_waiter 0 2 sample_waiting) 0 0"
  have "select_waiter sample_shared ?s = Some (0, 0)" "length (st_lanes ?s) = 2"
    by (simp_all add: sample_waiting_eq sample_busy_eq release_def count_decr_def sample_budget_simps)
  then show ?thesis using dispatch_round_robin [of sample_shared ?s 0 0] by auto
qed


text \<open>A lane that is full until time 3, then for ever.\<close>

definition sample_timer :: timer where
  "sample_timer now deadline wake =
     (case wake of Some w \<Rightarrow> if w \<le> deadline then (True, max now w) else (False, max now deadline) | None \<Rightarrow> (False, max now deadline))"

definition sample_freed :: timed_steps where
  "sample_freed = [(drop_registration sample_shared sample_waiting 0 OutSuccess, 3)]"


end
