(* ===== verification/Quorum_Strategy.thy ===== *)
theory Quorum_Strategy
  imports Pillar_Types "HOL-Library.AList" "HOL-Library.List_Lexorder" "HOL-Library.Char_ord" "HOL-Library.Multiset"
begin

text \<open>
  \<^verbatim>\<open>pillar-config/src/provider_validation.rs\<close>: provider categories and entities, quorum strategies, and
  whether the entities of some providers satisfy a strategy. A \<open>BTreeMap\<close> is an association list
  in key order and a \<open>BTreeSet\<close> a sorted list without duplicates; a map that is only looked up and
  inserted into is an association list updated in place. A slot of a category is filled by augmenting
  paths; the main result is that this search decides whether an assignment exists.
\<close>

section \<open>Configuration\<close>

definition PROVIDER_CATEGORY_INTERNAL :: string where
  "PROVIDER_CATEGORY_INTERNAL = ''internal''"

definition PROVIDER_CATEGORY_DEDICATED_EXTERNAL :: string where
  "PROVIDER_CATEGORY_DEDICATED_EXTERNAL = ''dedicated_external''"

definition PROVIDER_CATEGORY_SHARED_EXTERNAL :: string where
  "PROVIDER_CATEGORY_SHARED_EXTERNAL = ''shared_external''"

definition PROVIDER_CATEGORY_ANY :: string where
  "PROVIDER_CATEGORY_ANY = ''any''"

definition PROVIDER_CATEGORIES :: "string list" where
  "PROVIDER_CATEGORIES =
     [PROVIDER_CATEGORY_INTERNAL, PROVIDER_CATEGORY_DEDICATED_EXTERNAL, PROVIDER_CATEGORY_SHARED_EXTERNAL]"

datatype quorum = QCount u64 | QMax

type_synonym category_requirement = "(string \<times> quorum) list"

record quorum_strategy =
  all_of :: "category_requirement list"
  one_of :: "category_requirement list"

text \<open>The distinct entities of each category.\<close>

type_synonym entity_counts = "(string \<times> string list) list"

definition entities_of :: "entity_counts \<Rightarrow> string \<Rightarrow> string list" where
  "entities_of counts category = (case map_of counts category of None \<Rightarrow> [] | Some es \<Rightarrow> es)"

definition pool_size :: "entity_counts \<Rightarrow> nat" where
  "pool_size counts = length (remdups (concat (map snd counts)))"

section \<open>Assigning entities to slots\<close>

type_synonym owners = "(string \<times> string) list"

text \<open>For a category that was reached: the category that reaches for one of its entities, and the entity.\<close>

type_synonym via = "(string \<times> string \<times> string) list"

fun scan_candidates ::
    "owners \<Rightarrow> string \<Rightarrow> string list \<Rightarrow> via \<Rightarrow> string list \<Rightarrow> string set
     \<Rightarrow> string option \<times> via \<times> string list \<times> string set" where
  "scan_candidates owner category [] via queue seen = (None, via, queue, seen)"
| "scan_candidates owner category (entity # entities) via queue seen =
     (case map_of owner entity of
        None \<Rightarrow> (Some entity, via, queue, seen)
      | Some holder \<Rightarrow>
          if holder \<notin> seen
          then scan_candidates owner category entities
                 ((holder, category, entity) # via) (queue @ [holder]) (insert holder seen)
          else scan_candidates owner category entities via queue seen)"

text \<open>
  The entities are handed over along the path back to the start. A category that is not in \<open>via\<close> would
  be a panic and a path longer than \<open>via\<close> a loop that does not end: both are None.
\<close>

fun unwind :: "nat \<Rightarrow> via \<Rightarrow> string \<Rightarrow> string \<Rightarrow> owners \<Rightarrow> owners option" where
  "unwind fuel via start at owner =
     (if at = start then Some owner
      else case fuel of
        0 \<Rightarrow> None
      | Suc n \<Rightarrow>
          (case map_of via at of
             None \<Rightarrow> None
           | Some (previous, taken) \<Rightarrow> unwind n via start previous (AList.update taken previous owner)))"

declare unwind.simps [simp del]

lemma scan_measure:
  assumes "scan_candidates owner c es via queue seen = (r, via', queue', seen')"
  shows "2 * card (snd ` set owner - seen') + length queue' \<le> 2 * card (snd ` set owner - seen) + length queue"
  using assms
proof (induction owner c es via queue seen rule: scan_candidates.induct)
  case (2 owner c e es via queue seen)
  show ?case
  proof (cases "map_of owner e")
    case (Some h)
    then have h: "h \<in> snd ` set owner" by (force dest: map_of_SomeD)
    show ?thesis
    proof (cases "h \<in> seen")
      case False
      have "card (snd ` set owner - insert h seen) < card (snd ` set owner - seen)"
        using h False by (intro psubset_card_mono) auto
      with 2 Some False show ?thesis by force
    qed (use 2 Some in simp)
  qed (use 2 in auto)
qed simp

function augment_loop ::
    "entity_counts \<Rightarrow> owners \<Rightarrow> string \<Rightarrow> via \<Rightarrow> string list \<Rightarrow> string set \<Rightarrow> (bool \<times> owners) option" where
  "augment_loop counts owner start via [] seen = Some (False, owner)"
| "augment_loop counts owner start via (category # queue) seen =
     (case scan_candidates owner category (entities_of counts category) via queue seen of
        (Some entity, via', queue', seen') \<Rightarrow>
          map_option (Pair True) (unwind (length via') via' start category (AList.update entity category owner))
      | (None, via', queue', seen') \<Rightarrow> augment_loop counts owner start via' queue' seen')"
  by pat_completeness auto
termination
  by (relation "measure (\<lambda>(counts, owner, start, via, queue, seen). 2 * card (snd ` set owner - seen) + length queue)")
    (auto dest!: sym [of _ "scan_candidates _ _ _ _ _ _"] scan_measure)

definition augment :: "entity_counts \<Rightarrow> owners \<Rightarrow> string \<Rightarrow> (bool \<times> owners) option" where
  "augment counts owner start = augment_loop counts owner start [] [start] {start}"

function skip_owned :: "owners \<Rightarrow> string list \<Rightarrow> nat \<Rightarrow> nat" where
  "skip_owned owner list prefix =
     (if prefix < length list \<and> map_of owner (list ! prefix) \<noteq> None
      then skip_owned owner list (prefix + 1) else prefix)"
  by pat_completeness auto
termination
  by (relation "measure (\<lambda>(owner, list, prefix). length list - prefix)") auto

declare skip_owned.simps [simp del]

fun assign_slots :: "entity_counts \<Rightarrow> owners \<Rightarrow> (string \<Rightarrow> nat) \<Rightarrow> string list \<Rightarrow> bool option" where
  "assign_slots counts owner owned_prefix [] = Some True"
| "assign_slots counts owner owned_prefix (category # categories) =
     (case map_of counts category of
        None \<Rightarrow> Some False
      | Some list \<Rightarrow>
          let prefix = skip_owned owner list (owned_prefix category);
              owned_prefix' = owned_prefix(category := prefix) in
          if prefix < length list
          then assign_slots counts (AList.update (list ! prefix) category owner) owned_prefix' categories
          else case augment counts owner category of
            None \<Rightarrow> None
          | Some (False, _) \<Rightarrow> Some False
          | Some (True, owner') \<Rightarrow> assign_slots counts owner' owned_prefix' categories)"

definition assign_entities :: "entity_counts \<Rightarrow> string list \<Rightarrow> bool" where
  "assign_entities counts categories = (assign_slots counts [] (\<lambda>_. 0) categories = Some True)"

section \<open>The assignment search is exact\<close>

text \<open>What the search decides: every slot can hold an entity of its category, no entity twice.\<close>

definition covers :: "entity_counts \<Rightarrow> string list \<Rightarrow> bool" where
  "covers counts slots \<longleftrightarrow>
     (\<exists>xs. distinct xs \<and> list_all2 (\<lambda>c e. e \<in> set (entities_of counts c)) slots xs)"

definition owned_by :: "owners \<Rightarrow> string \<Rightarrow> string set" where
  "owned_by owner c = {e. map_of owner e = Some c}"

definition valid_owners :: "entity_counts \<Rightarrow> owners \<Rightarrow> bool" where
  "valid_owners counts owner \<longleftrightarrow> (\<forall>e c. map_of owner e = Some c \<longrightarrow> e \<in> set (entities_of counts c))"

text \<open>After the slots \<open>filled\<close>, every category owns as many entities as it has slots there.\<close>

definition balanced :: "entity_counts \<Rightarrow> owners \<Rightarrow> string list \<Rightarrow> bool" where
  "balanced counts owner filled \<longleftrightarrow>
     valid_owners counts owner \<and> (\<forall>c. card (owned_by owner c) = count_list filled c)"

lemma finite_owned_by [simp]: "finite (owned_by owner c)"
  by (rule finite_subset [of _ "fst ` set owner"]) (auto simp: owned_by_def dest: map_of_SomeD intro: rev_image_eqI)

lemma owned_by_update:
  "owned_by (AList.update e c owner) k = (if k = c then insert e (owned_by owner k) else owned_by owner k - {e})"
  by (auto simp: owned_by_def update_conv' split: if_splits)

lemma valid_update:
  "valid_owners counts owner \<Longrightarrow> e \<in> set (entities_of counts c) \<Longrightarrow> valid_owners counts (AList.update e c owner)"
  by (auto simp: valid_owners_def update_conv' split: if_splits)

lemma card_give_free:
  "map_of owner e = None \<Longrightarrow>
   card (owned_by (AList.update e c owner) k) = card (owned_by owner k) + (if k = c then 1 else 0)"
proof -
  assume "map_of owner e = None"
  then have "e \<notin> owned_by owner k" for k by (simp add: owned_by_def)
  then show ?thesis by (subst owned_by_update) (simp add: card_insert_if)
qed

lemma card_hand_over:
  assumes "map_of owner e = Some h" "h \<noteq> c"
  shows "card (owned_by (AList.update e c owner) k) + (if k = h then 1 else 0) =
    card (owned_by owner k) + (if k = c then 1 else 0)"
proof -
  have e: "e \<in> owned_by owner h" "k \<noteq> h \<Longrightarrow> e \<notin> owned_by owner k" using assms(1) by (auto simp: owned_by_def)
  show ?thesis
  proof (cases "k = h")
    case True
    then have "0 < card (owned_by owner k)" using e by (auto simp: card_gt_0_iff)
    then show ?thesis using True e assms(2) by (subst owned_by_update) simp
  qed (use e assms(2) in \<open>subst owned_by_update, auto simp: card_insert_if\<close>)
qed

subsection \<open>Paths\<close>

text \<open>
  Every category of \<open>via\<close> is reached once, after the category that reaches it, through an entity that it
  owns and that the reaching category could hold.
\<close>

fun path_ok :: "entity_counts \<Rightarrow> owners \<Rightarrow> string \<Rightarrow> via \<Rightarrow> bool" where
  "path_ok counts owner start [] \<longleftrightarrow> True"
| "path_ok counts owner start ((h, c, e) # via) \<longleftrightarrow>
     path_ok counts owner start via \<and> c \<in> insert start (fst ` set via) \<and> h \<notin> insert start (fst ` set via) \<and>
     e \<in> set (entities_of counts c) \<and> map_of owner e = Some h"

lemma path_ok_entry:
  "path_ok counts owner start via \<Longrightarrow> (h, c, e) \<in> set via \<Longrightarrow>
   map_of owner e = Some h \<and> e \<in> set (entities_of counts c) \<and> h \<noteq> start"
  by (induction via) auto

lemma path_ok_previous:
  assumes "path_ok counts owner start via" "map_of via at = Some (c, e)"
  shows "c \<in> insert start (fst ` set via)"
  using assms by (induction via) (auto split: if_splits)

lemma unwind_older:
  assumes "path_ok counts owner start via" "h \<notin> insert start (fst ` set via)" "at \<in> insert start (fst ` set via)"
  shows "unwind n ((h, x) # via) start at ow = unwind n via start at ow"
  using assms(3)
proof (induction n arbitrary: at ow)
  case (Suc n)
  show ?case
  proof (cases "at = start")
    case False
    then obtain c e where via: "map_of via at = Some (c, e)" using Suc.prems
      by (metis image_iff insert_iff map_of_eq_None_iff not_None_eq old.prod.exhaust)
    have "unwind n ((h, x) # via) start c (AList.update e c ow) = unwind n via start c (AList.update e c ow)"
      by (rule Suc.IH [OF path_ok_previous [OF assms(1) via]])
    moreover have "at \<noteq> h" using False assms(2) Suc.prems by auto
    ultimately show ?thesis using via False by (simp add: unwind.simps [of "Suc n"])
  qed (simp add: unwind.simps)
qed (use assms(2) in \<open>auto simp: unwind.simps\<close>)

lemma unwind_moves:
  assumes "path_ok counts owner start via" "at \<in> insert start (fst ` set via)" "length via \<le> n"
    and "valid_owners counts ow" "\<And>h c e. (h, c, e) \<in> set via \<Longrightarrow> map_of ow e = Some h"
  shows "\<exists>ow'. unwind n via start at ow = Some ow' \<and> valid_owners counts ow' \<and>
    (\<forall>k. card (owned_by ow' k) + (if k = at then 1 else 0) = card (owned_by ow k) + (if k = start then 1 else 0))"
  using assms
proof (induction via arbitrary: at ow n)
  case Nil
  then show ?case by (simp add: unwind.simps)
next
  case (Cons v via)
  obtain h c e where v: "v = (h, c, e)" by (metis surj_pair)
  from Cons.prems(1) have ok: "path_ok counts owner start via" "c \<in> insert start (fst ` set via)"
    "h \<notin> insert start (fst ` set via)" "e \<in> set (entities_of counts c)" "map_of owner e = Some h"
    by (simp_all add: v)
  show ?case
  proof (cases "at = h")
    case False
    then have at: "at \<in> insert start (fst ` set via)" using Cons.prems(2) v by auto
    have "\<exists>ow'. unwind n via start at ow = Some ow' \<and> valid_owners counts ow' \<and>
        (\<forall>k. card (owned_by ow' k) + (if k = at then 1 else 0) = card (owned_by ow k) + (if k = start then 1 else 0))"
      using Cons.prems by (intro Cons.IH [OF ok(1) at]) (auto simp: v)
    then show ?thesis using unwind_older [OF ok(1,3) at] by (simp add: v)
  next
    case True
    obtain m where n: "n = Suc m" "length via \<le> m" using Cons.prems(3) by (cases n) auto
    let ?ow = "AList.update e c ow"
    have e: "map_of ow e = Some h" using Cons.prems(5) [of h c e] by (simp add: v)
    have hc: "h \<noteq> c" "h \<noteq> start" using ok by auto
    have keep: "map_of ?ow e' = Some h'" if m': "(h', c', e') \<in> set via" for h' c' e'
    proof -
      have "h' \<noteq> h" using m' ok(3) by force
      then have "e' \<noteq> e" using path_ok_entry [OF ok(1) m'] ok(5) by auto
      then show ?thesis using Cons.prems(5) [of h' c' e'] m' by (simp add: update_conv')
    qed
    obtain ow' where ow': "unwind m via start c ?ow = Some ow'" "valid_owners counts ow'"
      "\<forall>k. card (owned_by ow' k) + (if k = c then 1 else 0) = card (owned_by ?ow k) + (if k = start then 1 else 0)"
      using Cons.IH [OF ok(1,2) n(2) valid_update [OF Cons.prems(4) ok(4)]] keep by blast
    have "unwind n (v # via) start at ow = Some ow'"
      using ow'(1) unwind_older [OF ok(1,3,2), of m "(c, e)" ?ow] hc True v n(1)
      by (simp add: unwind.simps [of "Suc m"])
    moreover have "card (owned_by ow' k) + (if k = at then 1 else 0) = card (owned_by ow k) + (if k = start then 1 else 0)" for k
      using ow'(3) [rule_format, of k] card_hand_over [OF e hc(1), of k] True by (auto split: if_splits)
    ultimately show ?thesis using ow'(2) by blast
  qed
qed

subsection \<open>The search\<close>

lemma scan_keeps:
  assumes "scan_candidates owner c es via queue seen = (r, via', queue', seen')"
    and "path_ok counts owner start via" "seen = insert start (fst ` set via)" "c \<in> seen"
    and "set es \<subseteq> set (entities_of counts c)"
  shows "path_ok counts owner start via' \<and> seen' = insert start (fst ` set via') \<and> seen \<subseteq> seen' \<and>
    set queue' = set queue \<union> (seen' - seen) \<and>
    (case r of Some e \<Rightarrow> e \<in> set es \<and> map_of owner e = None
     | None \<Rightarrow> \<forall>e \<in> set es. \<exists>h \<in> seen'. map_of owner e = Some h)"
  using assms
proof (induction owner c es via queue seen rule: scan_candidates.induct)
  case (2 owner c e es via queue seen)
  show ?case
  proof (cases "map_of owner e")
    case None
    with "2.prems"(1) have "r = Some e" "via' = via" "queue' = queue" "seen' = seen" by simp_all
    with None "2.prems"(2,3) show ?thesis by simp
  next
    case (Some h)
    have es: "set es \<subseteq> set (entities_of counts c)" "e \<in> set (entities_of counts c)" using "2.prems"(5) by simp_all
    show ?thesis
    proof (cases "h \<in> seen")
      case True
      with "2.prems"(1) Some have "scan_candidates owner c es via queue seen = (r, via', queue', seen')" by simp
      note IH = "2.IH"(2) [OF Some _ this "2.prems"(2,3,4) es(1)]
      show ?thesis using IH Some True by (cases r) auto
    next
      case False
      with "2.prems"(1) Some have
        step: "scan_candidates owner c es ((h, c, e) # via) (queue @ [h]) (insert h seen) = (r, via', queue', seen')" by simp
      have path: "path_ok counts owner start ((h, c, e) # via)" using "2.prems"(2,3,4) es(2) Some False by simp
      have seen: "insert h seen = insert start (fst ` set ((h, c, e) # via))" using "2.prems"(3) by (simp add: insert_commute)
      have c: "c \<in> insert h seen" using "2.prems"(4) by simp
      note IH = "2.IH"(1) [OF Some False step path seen c es(1)]
      then have "set queue' = set queue \<union> (seen' - seen)" using False by auto
      with IH Some show ?thesis by (cases r) auto
    qed
  qed
qed auto

definition search_ok :: "entity_counts \<Rightarrow> owners \<Rightarrow> string \<Rightarrow> via \<Rightarrow> string list \<Rightarrow> string set \<Rightarrow> bool" where
  "search_ok counts owner start via queue seen \<longleftrightarrow>
     path_ok counts owner start via \<and> seen = insert start (fst ` set via) \<and> set queue \<subseteq> seen \<and>
     (\<forall>c \<in> seen - set queue. \<forall>e \<in> set (entities_of counts c). \<exists>h \<in> seen. map_of owner e = Some h)"

text \<open>A set of categories that already own every entity they could hold.\<close>

definition saturated :: "entity_counts \<Rightarrow> owners \<Rightarrow> string set \<Rightarrow> bool" where
  "saturated counts owner S \<longleftrightarrow>
     finite S \<and> (\<forall>c \<in> S. \<forall>e \<in> set (entities_of counts c). \<exists>h \<in> S. map_of owner e = Some h)"

lemma search_step:
  assumes ok: "search_ok counts owner start via (c # queue) seen"
    and scan: "scan_candidates owner c (entities_of counts c) via queue seen = (None, via', queue', seen')"
  shows "search_ok counts owner start via' queue' seen'"
proof -
  have c: "c \<in> seen" "set queue \<subseteq> seen" using ok by (auto simp: search_ok_def)
  have k: "path_ok counts owner start via'" "seen' = insert start (fst ` set via')" "seen \<subseteq> seen'"
    "set queue' = set queue \<union> (seen' - seen)" "\<forall>e \<in> set (entities_of counts c). \<exists>h \<in> seen'. map_of owner e = Some h"
    using scan_keeps [OF scan, of counts start] ok c by (auto simp: search_ok_def)
  have "\<exists>h \<in> seen'. map_of owner e = Some h" if "d \<in> seen' - set queue'" "e \<in> set (entities_of counts d)" for d e
  proof (cases "d = c")
    case False
    with that k(4) have "d \<in> seen - set (c # queue)" by auto
    moreover have "\<forall>c \<in> seen - set (c # queue). \<forall>e \<in> set (entities_of counts c). \<exists>h \<in> seen. map_of owner e = Some h"
      using ok unfolding search_ok_def by blast
    ultimately show ?thesis using that(2) k(3) by blast
  qed (use that k(5) in blast)
  moreover have "set queue' \<subseteq> seen'" using k(3,4) c(2) by blast
  ultimately show ?thesis unfolding search_ok_def using k(1,2) by blast
qed

lemma path_finds:
  assumes ok: "search_ok counts owner start via (c # queue) seen" and b: "balanced counts owner filled"
    and scan: "scan_candidates owner c (entities_of counts c) via queue seen = (Some e, via', queue', seen')"
  shows "\<exists>ow'. unwind (length via') via' start c (AList.update e c owner) = Some ow' \<and> balanced counts ow' (filled @ [start])"
proof -
  have c: "c \<in> seen" using ok by (auto simp: search_ok_def)
  have k: "path_ok counts owner start via'" "seen' = insert start (fst ` set via')" "seen \<subseteq> seen'"
    "e \<in> set (entities_of counts c)" "map_of owner e = None"
    using scan_keeps [OF scan, of counts start] ok c by (auto simp: search_ok_def)
  have keep: "map_of (AList.update e c owner) x = Some h" if "(h, d, x) \<in> set via'" for h d x
    using path_ok_entry [OF k(1) that] k(5) by (auto simp: update_conv')
  have at: "c \<in> insert start (fst ` set via')" using c k(2,3) by auto
  have v: "valid_owners counts (AList.update e c owner)" using b k(4) valid_update by (auto simp: balanced_def)
  obtain ow' where ow': "unwind (length via') via' start c (AList.update e c owner) = Some ow'" "valid_owners counts ow'"
    "\<forall>k. card (owned_by ow' k) + (if k = c then 1 else 0) =
       card (owned_by (AList.update e c owner) k) + (if k = start then 1 else 0)"
    using unwind_moves [OF k(1) at order_refl v] keep by blast
  have "card (owned_by ow' j) = count_list (filled @ [start]) j" for j
    using ow'(3) [rule_format, of j] card_give_free [OF k(5), of c j] b by (auto simp: balanced_def split: if_splits)
  with ow' show ?thesis by (auto simp: balanced_def)
qed

lemma augment_loop_exact:
  assumes "search_ok counts owner start via queue seen" "balanced counts owner filled"
  shows "(\<exists>ow'. augment_loop counts owner start via queue seen = Some (True, ow') \<and> balanced counts ow' (filled @ [start])) \<or>
    (augment_loop counts owner start via queue seen = Some (False, owner) \<and> (\<exists>S. start \<in> S \<and> saturated counts owner S))"
  using assms
proof (induction counts owner start via queue seen rule: augment_loop.induct)
  case (1 counts owner start via seen)
  then have "start \<in> seen" "saturated counts owner seen" by (auto simp: search_ok_def saturated_def)
  then show ?case by auto
next
  case (2 counts owner start via c queue seen)
  obtain r via' queue' seen' where
    scan: "scan_candidates owner c (entities_of counts c) via queue seen = (r, via', queue', seen')"
    by (metis prod_cases4)
  show ?case
  proof (cases r)
    case None
    with search_step [OF "2.prems"(1)] scan have "search_ok counts owner start via' queue' seen'" by simp
    with "2.IH" [OF scan [symmetric] None refl refl] "2.prems"(2) scan None show ?thesis by simp
  next
    case (Some e)
    with path_finds [OF "2.prems"] scan show ?thesis by auto
  qed
qed

lemma augment_exact:
  assumes "balanced counts owner filled"
  shows "(\<exists>ow'. augment counts owner start = Some (True, ow') \<and> balanced counts ow' (filled @ [start])) \<or>
    (augment counts owner start = Some (False, owner) \<and> (\<exists>S. start \<in> S \<and> saturated counts owner S))"
  unfolding augment_def by (rule augment_loop_exact [OF _ assms]) (simp add: search_ok_def)

subsection \<open>Exactness\<close>

lemma sum_count_list_filter:
  "finite S \<Longrightarrow> (\<Sum>c \<in> S. count_list xs c) = length (filter (\<lambda>c. c \<in> S) xs)"
proof (induction xs)
  case (Cons a xs)
  have "(\<Sum>c \<in> S. count_list (a # xs) c) = (\<Sum>c \<in> S. count_list xs c + (if a = c then 1 else 0))"
    by (rule sum.cong) auto
  also have "\<dots> = (\<Sum>c \<in> S. count_list xs c) + (if a \<in> S then 1 else 0)"
    using Cons.prems by (simp add: sum.distrib)
  finally show ?case using Cons by simp
qed simp

lemma card_owned_in:
  assumes "balanced counts owner filled" "finite S"
  shows "card {e. \<exists>h \<in> S. map_of owner e = Some h} = length (filter (\<lambda>c. c \<in> S) filled)"
proof -
  have "{e. \<exists>h \<in> S. map_of owner e = Some h} = (\<Union>c \<in> S. owned_by owner c)" by (auto simp: owned_by_def)
  also have "card \<dots> = (\<Sum>c \<in> S. card (owned_by owner c))"
    using assms(2) by (intro card_UN_disjoint) (simp_all, auto simp: owned_by_def)
  also have "\<dots> = (\<Sum>c \<in> S. count_list filled c)" using assms(1) by (simp add: balanced_def)
  finally show ?thesis using sum_count_list_filter [OF assms(2)] by simp
qed

text \<open>The entities given to the slots of some categories are distinct entities of those categories.\<close>

lemma slots_within:
  assumes "list_all2 (\<lambda>c e. e \<in> f c) slots xs" "distinct xs" "finite N" "\<And>c. c \<in> S \<Longrightarrow> f c \<subseteq> N"
  shows "length (filter (\<lambda>c. c \<in> S) slots) \<le> card N"
proof -
  let ?zs = "filter (\<lambda>p. fst p \<in> S) (zip slots xs)"
  have len: "length slots = length xs" using assms(1) by (rule list_all2_lengthD)
  have "distinct (map snd (zip slots xs))" using assms(2) len by simp
  then have "distinct (map snd ?zs)" by (rule distinct_map_filter)
  moreover have "set (map snd ?zs) \<subseteq> N" using assms(1,4) by (fastforce simp: list_all2_iff)
  ultimately have "length (map snd ?zs) \<le> card N" using assms(3) card_mono distinct_card by metis
  moreover have "filter (\<lambda>c. c \<in> S) (map fst (zip slots xs)) = map fst ?zs"
    by (simp add: filter_map comp_def)
  then have "length (filter (\<lambda>c. c \<in> S) slots) = length ?zs" using len by (metis length_map map_fst_zip)
  ultimately show ?thesis by simp
qed

lemma saturated_blocks:
  assumes b: "balanced counts owner filled" and S: "start \<in> S" "saturated counts owner S"
  shows "\<not> covers counts (filled @ start # rest)"
proof
  let ?N = "{e. \<exists>h \<in> S. map_of owner e = Some h}"
  assume "covers counts (filled @ start # rest)"
  then obtain xs where xs: "distinct xs"
    "list_all2 (\<lambda>c e. e \<in> set (entities_of counts c)) (filled @ start # rest) xs" by (auto simp: covers_def)
  have "?N = (\<Union>c \<in> S. owned_by owner c)" by (auto simp: owned_by_def)
  then have fin: "finite ?N" using S(2) by (simp add: saturated_def)
  have "length (filter (\<lambda>c. c \<in> S) (filled @ start # rest)) \<le> card ?N"
    using S(2) by (intro slots_within [OF xs(2,1) fin]) (auto simp: saturated_def)
  also have "\<dots> = length (filter (\<lambda>c. c \<in> S) filled)" using card_owned_in [OF b] S(2) by (simp add: saturated_def)
  finally show False using S(1) by simp
qed

lemma owners_give_assignment:
  assumes "finite (dom m)" "\<And>c. card {e. m e = Some c} = count_list slots c"
  shows "\<exists>xs. distinct xs \<and> list_all2 (\<lambda>c e. m e = Some c) slots xs"
  using assms
proof (induction slots arbitrary: m)
  case (Cons c slots)
  have fin: "finite {e. m e = Some d}" for d by (rule finite_subset [OF _ Cons.prems(1)]) auto
  have "card {e. m e = Some c} \<noteq> 0" using Cons.prems(2) [of c] by simp
  then obtain e where e: "m e = Some c" by (metis (mono_tags, lifting) Collect_empty_eq card.empty)
  let ?m = "m(e := None)"
  have "{x. ?m x = Some d} = {x. m x = Some d} - (if d = c then {e} else {})" for d using e by auto
  then have "card {x. ?m x = Some d} = card ({x. m x = Some d} - (if d = c then {e} else {}))" for d by metis
  then have "card {x. ?m x = Some d} = count_list slots d" for d
    using Cons.prems(2) [of d] e fin by (cases "d = c") simp_all
  moreover have "finite (dom ?m)" using Cons.prems(1) by simp
  ultimately obtain xs where xs: "distinct xs" "list_all2 (\<lambda>c e. ?m e = Some c) slots xs"
    using Cons.IH by blast
  have "e \<notin> set xs" using xs(2) by (fastforce simp: list_all2_conv_all_nth in_set_conv_nth)
  moreover have "list_all2 (\<lambda>c e. m e = Some c) slots xs"
    using xs(2) by (rule list_all2_mono) (auto split: if_splits)
  ultimately show ?case using xs(1) e by (intro exI [of _ "e # xs"]) simp
qed simp

lemma balanced_covers:
  assumes "balanced counts owner filled"
  shows "covers counts filled"
proof -
  obtain xs where "distinct xs" "list_all2 (\<lambda>c e. map_of owner e = Some c) filled xs"
    using owners_give_assignment [of "map_of owner" filled] assms finite_dom_map_of
    by (auto simp: balanced_def owned_by_def)
  moreover have "e \<in> set (entities_of counts c)" if "map_of owner e = Some c" for c e
    using assms that by (auto simp: balanced_def valid_owners_def)
  ultimately show ?thesis unfolding covers_def by (meson list_all2_mono)
qed

lemma skip_owned_stops:
  "skip_owned owner list p < length list \<Longrightarrow> map_of owner (list ! skip_owned owner list p) = None"
proof (induction owner list p rule: skip_owned.induct)
  case (1 owner list p)
  then show ?case by (subst skip_owned.simps, subst (asm) skip_owned.simps) (auto split: if_splits)
qed

lemma assign_slots_exact:
  assumes "balanced counts owner filled"
  shows "assign_slots counts owner prefix slots = Some (covers counts (filled @ slots))"
  using assms
proof (induction slots arbitrary: owner filled prefix)
  case Nil
  then show ?case using balanced_covers by simp
next
  case (Cons c slots)
  note IH = Cons.IH [of _ "filled @ [c]", simplified]
  show ?case
  proof (cases "map_of counts c")
    case None
    then have "saturated counts owner {c}" by (simp add: saturated_def entities_of_def)
    then show ?thesis using saturated_blocks [OF Cons.prems, of c "{c}"] None by simp
  next
    case (Some es)
    let ?p = "skip_owned owner es (prefix c)"
    show ?thesis
    proof (cases "?p < length es")
      case True
      then have free: "map_of owner (es ! ?p) = None" "es ! ?p \<in> set (entities_of counts c)"
        using skip_owned_stops Some by (auto simp: entities_of_def)
      then have "balanced counts (AList.update (es ! ?p) c owner) (filled @ [c])"
        using Cons.prems valid_update card_give_free by (simp add: balanced_def)
      then show ?thesis using IH Some True by (simp add: Let_def)
    next
      case False
      from augment_exact [OF Cons.prems, of c] show ?thesis
        using IH Some False saturated_blocks [OF Cons.prems] by (auto simp: Let_def)
    qed
  qed
qed

lemma assign_slots_covers: "assign_slots counts [] (\<lambda>_. 0) slots = Some (covers counts slots)"
  using assign_slots_exact [of counts "[]" "[]"] by (simp add: balanced_def valid_owners_def owned_by_def)

lemma assign_entities_covers: "assign_entities counts slots = covers counts slots"
  by (simp add: assign_entities_def assign_slots_covers)

section \<open>Strategies\<close>

definition USIZE_MAX :: nat where
  "USIZE_MAX = 2 ^ 64 - 1"

definition saturating_add :: "nat \<Rightarrow> nat \<Rightarrow> nat" where
  "saturating_add a b = min USIZE_MAX (a + b)"

fun collect_slots :: "nat \<Rightarrow> category_requirement \<Rightarrow> string list \<Rightarrow> nat \<Rightarrow> (string list \<times> nat) option" where
  "collect_slots pool [] categories any_quorum = Some (categories, any_quorum)"
| "collect_slots pool ((category, QMax) # rest) categories any_quorum = None"
| "collect_slots pool ((category, QCount n) # rest) categories any_quorum =
     (if category = PROVIDER_CATEGORY_ANY
      then collect_slots pool rest categories (saturating_add any_quorum (unat n))
      else if pool - length categories < unat n then None
      else collect_slots pool rest (categories @ replicate (unat n) category) any_quorum)"

definition check_requirement_set ::
    "entity_counts \<Rightarrow> category_requirement list \<Rightarrow> category_requirement \<Rightarrow> bool" where
  "check_requirement_set counts all one =
     (case collect_slots (pool_size counts) (concat (all @ [one])) [] 0 of
        None \<Rightarrow> False
      | Some (categories, any_quorum) \<Rightarrow>
          max any_quorum (length categories) \<le> pool_size counts \<and> assign_entities counts categories)"

definition is_strategy_satisfiable :: "entity_counts \<Rightarrow> quorum_strategy \<Rightarrow> bool" where
  "is_strategy_satisfiable counts strategy =
     (if one_of strategy = [] then check_requirement_set counts (all_of strategy) []
      else list_ex (check_requirement_set counts (all_of strategy)) (one_of strategy))"

record provider_voter =
  v_category :: string
  v_entity :: string

text \<open>\<open>entry(category).or_default().insert(entity)\<close>.\<close>

definition insert_entity :: "string \<Rightarrow> string \<Rightarrow> entity_counts \<Rightarrow> entity_counts" where
  "insert_entity category entity counts =
     AList.update category (insort_insert entity (entities_of counts category)) counts"

definition voter_entities :: "provider_voter list \<Rightarrow> entity_counts" where
  "voter_entities voters = fold (\<lambda>v. insert_entity (v_category v) (v_entity v)) voters []"

subsection \<open>What a strategy requires\<close>

fun requirement_slots :: "category_requirement \<Rightarrow> string list" where
  "requirement_slots [] = []"
| "requirement_slots ((category, QMax) # rest) = requirement_slots rest"
| "requirement_slots ((category, QCount n) # rest) =
     (if category = PROVIDER_CATEGORY_ANY then [] else replicate (unat n) category) @ requirement_slots rest"

fun any_total :: "category_requirement \<Rightarrow> nat" where
  "any_total [] = 0"
| "any_total ((category, QMax) # rest) = any_total rest"
| "any_total ((category, QCount n) # rest) =
     (if category = PROVIDER_CATEGORY_ANY then unat n else 0) + any_total rest"

definition resolved :: "category_requirement \<Rightarrow> bool" where
  "resolved req \<longleftrightarrow> (\<forall>q \<in> snd ` set req. q \<noteq> QMax)"

text \<open>
  A set of votes, each an entity of a category, meets a requirement when its named slots can hold
  distinct entities of their categories and enough distinct entities voted for \<open>any\<close>.
\<close>

definition requirement_met :: "(string \<times> string) set \<Rightarrow> category_requirement \<Rightarrow> bool" where
  "requirement_met votes req \<longleftrightarrow>
     resolved req \<and> min USIZE_MAX (any_total req) \<le> card (snd ` votes) \<and>
     (\<exists>xs. distinct xs \<and> list_all2 (\<lambda>c e. (c, e) \<in> votes) (requirement_slots req) xs)"

definition strategy_met :: "(string \<times> string) set \<Rightarrow> quorum_strategy \<Rightarrow> bool" where
  "strategy_met votes strategy \<longleftrightarrow>
     (\<exists>alt \<in> set (if one_of strategy = [] then [[]] else one_of strategy).
        requirement_met votes (concat (all_of strategy) @ alt))"

definition votes_of :: "entity_counts \<Rightarrow> (string \<times> string) set" where
  "votes_of counts = {(c, e). e \<in> set (entities_of counts c)}"

lemma pool_size_votes:
  assumes "distinct (map fst counts)"
  shows "pool_size counts = card (snd ` votes_of counts)" "finite (votes_of counts)"
proof -
  have mem: "e \<in> set (entities_of counts c) \<longleftrightarrow> (\<exists>es. (c, es) \<in> set counts \<and> e \<in> set es)" for c e
    using assms by (auto simp: entities_of_def split: option.splits dest: map_of_SomeD)
  have "snd ` votes_of counts = set (concat (map snd counts))" by (force simp: votes_of_def mem)
  then show "pool_size counts = card (snd ` votes_of counts)" by (simp add: pool_size_def length_remdups_card_conv)
  have "votes_of counts \<subseteq> (\<lambda>(p, e). (fst p, e)) ` (set counts \<times> set (concat (map snd counts)))"
    by (force simp: votes_of_def mem)
  then show "finite (votes_of counts)" by (rule finite_subset) simp
qed

lemma covers_votes: "covers counts slots \<longleftrightarrow> (\<exists>xs. distinct xs \<and> list_all2 (\<lambda>c e. (c, e) \<in> votes_of counts) slots xs)"
  by (simp add: covers_def votes_of_def)

lemma assignment_length:
  assumes "list_all2 (\<lambda>c e. (c, e) \<in> V) slots xs" "distinct xs" "finite V"
  shows "length slots \<le> card (snd ` V)"
proof -
  have "set xs \<subseteq> snd ` V" using assms(1) by (force simp: list_all2_conv_all_nth in_set_conv_nth)
  then have "length xs \<le> card (snd ` V)" using assms(2,3) by (metis card_mono distinct_card finite_imageI)
  then show ?thesis using list_all2_lengthD [OF assms(1)] by simp
qed

lemma collect_slots_Some:
  "collect_slots pool req cats any_q = Some (cats', any') \<Longrightarrow> any_q \<le> USIZE_MAX \<Longrightarrow>
   resolved req \<and> cats' = cats @ requirement_slots req \<and> any' = min USIZE_MAX (any_q + any_total req)"
proof (induction pool req cats any_q rule: collect_slots.induct)
  case (3 pool c n rest cats any_q)
  then show ?case by (auto simp: resolved_def saturating_add_def split: if_splits)
qed (auto simp: resolved_def)

lemma collect_slots_None:
  "collect_slots pool req cats any_q = None \<Longrightarrow> resolved req \<Longrightarrow> pool < length (cats @ requirement_slots req)"
proof (induction pool req cats any_q rule: collect_slots.induct)
  case (3 pool c n rest cats any_q)
  then show ?case by (auto simp: resolved_def split: if_splits)
qed (auto simp: resolved_def)

lemma check_requirement_set_exact:
  assumes "distinct (map fst counts)"
  shows "check_requirement_set counts all one = requirement_met (votes_of counts) (concat all @ one)"
proof (cases "collect_slots (pool_size counts) (concat (all @ [one])) [] 0")
  case None
  have "\<not> requirement_met (votes_of counts) (concat all @ one)"
  proof
    assume "requirement_met (votes_of counts) (concat all @ one)"
    then obtain xs where "distinct xs" "resolved (concat all @ one)"
      "list_all2 (\<lambda>c e. (c, e) \<in> votes_of counts) (requirement_slots (concat all @ one)) xs"
      by (auto simp: requirement_met_def)
    moreover from this have "length (requirement_slots (concat all @ one)) \<le> pool_size counts"
      using assignment_length pool_size_votes [OF assms] by simp
    ultimately show False using collect_slots_None [OF None] by simp
  qed
  with None show ?thesis by (simp add: check_requirement_set_def)
next
  case (Some r)
  obtain cats any_q where r: "r = (cats, any_q)" by (cases r)
  let ?V = "votes_of counts" and ?req = "concat all @ one"
  have s: "resolved ?req" "cats = requirement_slots ?req" "any_q = min USIZE_MAX (any_total ?req)"
    using collect_slots_Some [OF Some [unfolded r]] by simp_all
  have short: "length cats \<le> pool_size counts" if "covers counts cats"
    using that assignment_length pool_size_votes [OF assms] by (auto simp: covers_votes)
  have "check_requirement_set counts all one \<longleftrightarrow> any_q \<le> pool_size counts \<and> covers counts cats"
    unfolding check_requirement_set_def Some r option.case prod.case assign_entities_covers using short by auto
  also have "\<dots> \<longleftrightarrow> requirement_met ?V ?req"
    unfolding requirement_met_def covers_votes pool_size_votes(1) [OF assms] s(2,3) using s(1) by simp
  finally show ?thesis .
qed

lemma satisfiable_exact:
  assumes "distinct (map fst counts)"
  shows "is_strategy_satisfiable counts strategy = strategy_met (votes_of counts) strategy"
  using check_requirement_set_exact [OF assms, of "all_of strategy"]
  by (auto simp: is_strategy_satisfiable_def strategy_met_def list_ex_iff)

lemma strategy_met_mono:
  assumes "V \<subseteq> W" "finite W" "strategy_met V strategy"
  shows "strategy_met W strategy"
proof -
  have "card (snd ` V) \<le> card (snd ` W)" using assms(1,2) by (intro card_mono) auto
  moreover have "list_all2 (\<lambda>c e. (c, e) \<in> W) slots xs" if "list_all2 (\<lambda>c e. (c, e) \<in> V) slots xs" for slots xs
    using that by (rule list_all2_mono) (use assms(1) in blast)
  ultimately have "requirement_met W req" if "requirement_met V req" for req
    using that unfolding requirement_met_def by (meson order_trans)
  then show ?thesis using assms(3) unfolding strategy_met_def by blast
qed

subsection \<open>Votes of providers\<close>

lemma insert_entity_votes:
  "votes_of (insert_entity c e counts) = insert (c, e) (votes_of counts)"
  by (auto simp: votes_of_def entities_of_def insert_entity_def update_conv' set_insort_insert split: if_splits option.splits)

lemma voter_entities_votes: "votes_of (voter_entities voters) = (\<lambda>v. (v_category v, v_entity v)) ` set voters"
proof -
  have "votes_of (fold (\<lambda>v. insert_entity (v_category v) (v_entity v)) voters counts) =
      (\<lambda>v. (v_category v, v_entity v)) ` set voters \<union> votes_of counts" for counts
    by (induction voters arbitrary: counts) (auto simp: insert_entity_votes)
  then show ?thesis by (auto simp: voter_entities_def votes_of_def entities_of_def)
qed

lemma voter_entities_distinct: "distinct (map fst (voter_entities voters))"
proof -
  have "distinct (map fst counts) \<Longrightarrow> distinct (map fst (fold (\<lambda>v. insert_entity (v_category v) (v_entity v)) voters counts))" for counts
    by (induction voters arbitrary: counts) (auto simp: insert_entity_def distinct_update)
  then show ?thesis by (simp add: voter_entities_def)
qed

lemma voters_satisfy:
  "is_strategy_satisfiable (voter_entities voters) strategy \<longleftrightarrow>
   strategy_met ((\<lambda>v. (v_category v, v_entity v)) ` set voters) strategy"
  using satisfiable_exact [OF voter_entities_distinct] voter_entities_votes by simp

section \<open>Properties\<close>

text \<open>
  C8: filling category slots by augmenting paths is exact. The search always ends, never looks up
  a category it has not reached, and answers true exactly when distinct entities can be given to all
  slots, each of the category of its slot.
\<close>

theorem entity_assignment_exact:
  "assign_slots counts [] (\<lambda>_. 0) categories =
     Some (\<exists>xs. distinct xs \<and> list_all2 (\<lambda>c e. e \<in> set (entities_of counts c)) categories xs)"
  using assign_slots_covers by (simp add: covers_def)

text \<open>
  A set of voting providers satisfies a strategy exactly when, for some alternative of it, its
  named slots can be filled by distinct entities of their categories and enough distinct entities
  voted in all. URIs of one entity in one category are one vote, and an unresolved \<open>max\<close> is never met.
\<close>

theorem strategy_counts_entities:
  "is_strategy_satisfiable (voter_entities voters) strategy \<longleftrightarrow>
     strategy_met ((\<lambda>v. (v_category v, v_entity v)) ` set voters) strategy"
  by (rule voters_satisfy)

end
