(* ===== verification/Provider_Quorum.thy ===== *)
theory Provider_Quorum
  imports Quorum_Strategy "HOL-Library.Product_Lexorder"
begin

text \<open>
  \<^verbatim>\<open>pillar-runtime/src/provider_health/quorum.rs\<close> and the pool it votes over: the rule that agreeing providers
  must meet, the accumulator of their answers, the loop that resolves a quorum as answers arrive, and
  the memory budget of retained JSON answers. Answers arrive in an order that is not fixed, so the loop
  is a function of the list of answers in order of arrival.
\<close>

section \<open>Provider pools\<close>

datatype provider_uri = Uri string | UriWithHeaders string "(string \<times> string) list"

record provider_config =
  pc_uris :: "provider_uri list"
  pc_voters :: "provider_voter list"
  pc_strategy :: quorum_strategy
  pc_sequencer :: "provider_uri list"

fun join :: "string \<Rightarrow> string list \<Rightarrow> string" where
  "join sep [] = []"
| "join sep [x] = x"
| "join sep (x # y # ys) = x @ sep @ join sep (y # ys)"

fun show_quorum :: "quorum \<Rightarrow> string" where
  "show_quorum (QCount n) = show_nat (unat n)"
| "show_quorum QMax = ''\"max\"''"

definition render_requirements :: "(string \<Rightarrow> string) \<Rightarrow> category_requirement list \<Rightarrow> string" where
  "render_requirements key reqs =
     ''['' @ join '','' (map (\<lambda>req.
        ''{'' @ join '','' (map (\<lambda>(category, q). ''\"'' @ key category @ ''\":'' @ show_quorum q) req) @ ''}'') reqs) @ '']''"

definition render_strategy :: "(string \<Rightarrow> string) \<Rightarrow> quorum_strategy \<Rightarrow> string" where
  "render_strategy key strategy =
     ''{\"allOf\":'' @ render_requirements key (all_of strategy) @ '',\"oneOf\":'' @
     render_requirements key (one_of strategy) @ ''}''"

definition canonical_strategy_key :: "quorum_strategy \<Rightarrow> string" where
  "canonical_strategy_key strategy = render_strategy (\<lambda>key. key) strategy"

definition category_label :: "string \<Rightarrow> string" where
  "category_label category =
     (if category \<in> set (PROVIDER_CATEGORIES @ [PROVIDER_CATEGORY_ANY]) then category else ''<unlisted category>'')"

definition strategy_diagnostic :: "quorum_strategy \<Rightarrow> string" where
  "strategy_diagnostic strategy = render_strategy category_label strategy"

definition validate_config :: "provider_config \<Rightarrow> string + unit" where
  "validate_config config =
     (if pc_uris config = [] then Inl ''no provider URI''
      else if length (pc_voters config) \<noteq> length (pc_uris config)
      then Inl (show_nat (length (pc_voters config)) @ '' voters for '' @ show_nat (length (pc_uris config)) @ '' provider URIs'')
      else if \<not> list_all (\<lambda>req. list_all (\<lambda>(_, q). q \<noteq> QMax) req) (all_of (pc_strategy config) @ one_of (pc_strategy config))
      then Inl ''strategy still contains an unresolved \"max\"''
      else if is_strategy_satisfiable [] (pc_strategy config)
      then Inl (''strategy '' @ strategy_diagnostic (pc_strategy config) @ '' requires no provider agreement'')
      else if \<not> is_strategy_satisfiable (voter_entities (pc_voters config)) (pc_strategy config)
      then Inl (''strategy '' @ strategy_diagnostic (pc_strategy config) @ '' is not satisfiable by the configured entities'')
      else Inr ())"

definition config_new :: "provider_uri list \<Rightarrow> provider_voter list \<Rightarrow> quorum_strategy \<Rightarrow> string + provider_config" where
  "config_new uris voters strategy =
     (let config = \<lparr> pc_uris = uris, pc_voters = voters, pc_strategy = strategy, pc_sequencer = [] \<rparr> in
      and_then (validate_config config) (\<lambda>_. Inr config))"

definition with_sequencer :: "provider_config \<Rightarrow> provider_uri list \<Rightarrow> provider_config" where
  "with_sequencer config sequencer = config\<lparr>pc_sequencer := sequencer\<rparr>"

definition single_entity_trust_root :: "provider_config \<Rightarrow> bool" where
  "single_entity_trust_root config =
     list_ex (\<lambda>voter. is_strategy_satisfiable (voter_entities [voter]) (pc_strategy config)) (pc_voters config)"

definition required_provider_quorum :: "provider_config \<Rightarrow> string \<Rightarrow> provider_config res" where
  "required_provider_quorum config chain_name =
     map_err (\<lambda>error. Internal (''Provider pool for chain '' @ chain_name @ '': '' @ error))
       (and_then (validate_config config) (\<lambda>_. Inr config))"

definition is_met_by :: "provider_config \<Rightarrow> nat list \<Rightarrow> bool" where
  "is_met_by config indices =
     is_strategy_satisfiable
       (voter_entities (map (\<lambda>i. pc_voters config ! i) (filter (\<lambda>i. i < length (pc_voters config)) indices)))
       (pc_strategy config)"

section \<open>The accumulator\<close>

datatype rpc_error = RpcAdmission budget_error | RpcRemote string | RpcConfiguration string | RpcUnavailable

fun rpc_to_app_error :: "rpc_error \<Rightarrow> app_core_error" where
  "rpc_to_app_error (RpcAdmission e) = Admission e"
| "rpc_to_app_error (RpcRemote e) = Internal e"
| "rpc_to_app_error (RpcConfiguration e) = Internal e"
| "rpc_to_app_error RpcUnavailable = Internal ''provider response unavailable''"

text \<open>A candidate's indices are sorted; its lease is the memory it holds of the JSON budget.\<close>

record 'v candidate =
  cand_indices :: "nat list"
  cand_value :: 'v
  cand_lease :: "nat option"

record 'v accumulator =
  acc_pending :: "nat list"
  acc_errors :: nat
  acc_deferred :: "budget_error option"
  acc_voters :: "(string \<times> 'v candidate) list"

definition acc_new :: "nat list \<Rightarrow> 'v accumulator" where
  "acc_new dispatched =
     \<lparr> acc_pending = sort (remdups dispatched), acc_errors = 0, acc_deferred = None, acc_voters = [] \<rparr>"

definition add_vote :: "nat \<Rightarrow> 'v \<Rightarrow> 'v candidate option \<Rightarrow> 'v candidate" where
  "add_vote index v old =
     (case old of
        None \<Rightarrow> \<lparr> cand_indices = [index], cand_value = v, cand_lease = None \<rparr>
      | Some c \<Rightarrow> c\<lparr>cand_value := (if cand_indices c \<noteq> [] \<and> index < hd (cand_indices c) then v else cand_value c),
                   cand_indices := insort_insert index (cand_indices c)\<rparr>)"

definition acc_record :: "nat \<Rightarrow> (string \<times> 'v) option \<Rightarrow> 'v accumulator \<Rightarrow> 'v accumulator" where
  "acc_record index observation acc =
     (let acc1 = acc\<lparr>acc_pending := remove1 index (acc_pending acc)\<rparr> in
      case observation of
        Some (fingerprint, v) \<Rightarrow>
          acc1\<lparr>acc_voters := AList.update fingerprint (add_vote index v (map_of (acc_voters acc) fingerprint)) (acc_voters acc)\<rparr>
      | None \<Rightarrow> acc1\<lparr>acc_errors := acc_errors acc + 1\<rparr>)"

definition successful_voter_count :: "'v accumulator \<Rightarrow> nat" where
  "successful_voter_count acc = sum_list (map (\<lambda>(_, c). length (cand_indices c)) (acc_voters acc))"

type_synonym 'v observation = "rpc_error + (string \<times> 'v) option"

definition record_result :: "nat \<Rightarrow> 'v observation \<Rightarrow> 'v accumulator \<Rightarrow> 'v accumulator res" where
  "record_result index observation acc =
     (case observation of
        Inr obs \<Rightarrow> Inr (acc_record index obs acc)
      | Inl (RpcAdmission e) \<Rightarrow>
          Inr (acc\<lparr>acc_pending := remove1 index (acc_pending acc),
                  acc_deferred := (case acc_deferred acc of None \<Rightarrow> Some e | Some d \<Rightarrow> Some d)\<rparr>)
      | Inl (RpcConfiguration e) \<Rightarrow> Inl (rpc_to_app_error (RpcConfiguration e))
      | Inl _ \<Rightarrow> Inr (acc_record index None acc))"

definition can_reach_quorum :: "provider_config \<Rightarrow> 'v accumulator \<Rightarrow> bool" where
  "can_reach_quorum config acc \<longleftrightarrow>
     is_met_by config (acc_pending acc) \<or>
     list_ex (\<lambda>(_, c). is_met_by config (cand_indices c @ acc_pending acc)) (acc_voters acc)"

definition candidates :: "provider_config \<Rightarrow> 'v accumulator \<Rightarrow> (string \<times> 'v candidate) list" where
  "candidates config acc = filter (\<lambda>(_, c). is_met_by config (cand_indices c)) (acc_voters acc)"

definition unambiguous_result :: "provider_config \<Rightarrow> 'v accumulator \<Rightarrow> 'v option" where
  "unambiguous_result config acc =
     (case candidates config acc of
        [(fingerprint, c)] \<Rightarrow>
          if is_met_by config (acc_pending acc) \<or>
             list_ex (\<lambda>(fp, vote). fp \<noteq> fingerprint \<and> is_met_by config (cand_indices vote @ acc_pending acc)) (acc_voters acc)
          then None else Some (cand_value c)
      | _ \<Rightarrow> None)"

definition incomplete :: "string \<Rightarrow> 'v accumulator \<Rightarrow> app_core_error" where
  "incomplete context acc =
     Internal (''No '' @ context @ '' quorum: response set is ambiguous or incomplete; '' @
       show_nat (length (acc_voters acc)) @ '' distinct successful responses, '' @ show_nat (acc_errors acc) @ '' errors'')"

definition acc_finish :: "provider_config \<Rightarrow> string \<Rightarrow> 'v accumulator \<Rightarrow> 'v res" where
  "acc_finish config context acc =
     (case candidates config acc of
        [(_, c)] \<Rightarrow> Inr (cand_value c)
      | cs \<Rightarrow>
          if cs = [] \<and> length (acc_voters acc) \<le> 1
          then (case acc_deferred acc of Some e \<Rightarrow> Inl (Admission e) | None \<Rightarrow> Inl (incomplete context acc))
          else Inl (incomplete context acc))"

section \<open>Resolution\<close>

text \<open>The loop ends with an answer, or with the accumulator that \<open>finish\<close> then reads.\<close>

fun resolve_loop ::
    "provider_config \<Rightarrow> 'v accumulator \<Rightarrow> (nat \<times> 'v observation) list \<Rightarrow> ('v + 'v accumulator) res" where
  "resolve_loop config acc [] = Inr (Inr acc)"
| "resolve_loop config acc ((index, observation) # responses) =
     and_then (record_result index observation acc) (\<lambda>acc.
       case unambiguous_result config acc of
         Some v \<Rightarrow> Inr (Inl v)
       | None \<Rightarrow> if can_reach_quorum config acc then resolve_loop config acc responses else Inr (Inr acc))"

definition resolve_provider_quorum_for_indices ::
    "provider_config \<Rightarrow> nat list \<Rightarrow> (nat \<times> 'v observation) list \<Rightarrow> string \<Rightarrow> 'v res" where
  "resolve_provider_quorum_for_indices config indices responses context =
     and_then (resolve_loop config (acc_new indices) responses) (\<lambda>r.
       case r of Inl v \<Rightarrow> Inr v | Inr acc \<Rightarrow> acc_finish config context acc)"

definition resolve_provider_quorum ::
    "provider_config \<Rightarrow> nat \<Rightarrow> (nat \<times> 'v observation) list \<Rightarrow> string \<Rightarrow> 'v res" where
  "resolve_provider_quorum config providers responses context =
     resolve_provider_quorum_for_indices config [0..<providers] responses context"

datatype quorum_resolution_failure = ZeroSuccessfulResponses | OtherFailure app_core_error

definition resolve_provider_quorum_with_zero_signal ::
    "provider_config \<Rightarrow> nat \<Rightarrow> (nat \<times> 'v observation) list \<Rightarrow> string \<Rightarrow> quorum_resolution_failure + 'v" where
  "resolve_provider_quorum_with_zero_signal config providers responses context =
     and_then (map_err OtherFailure (resolve_loop config (acc_new [0..<providers]) responses)) (\<lambda>r.
       case r of
         Inl v \<Rightarrow> Inr v
       | Inr acc \<Rightarrow>
           map_err (\<lambda>error.
             if successful_voter_count acc = 0 \<and> (case error of Admission _ \<Rightarrow> False | _ \<Rightarrow> True)
             then ZeroSuccessfulResponses else OtherFailure error)
             (acc_finish config context acc))"

section \<open>The JSON budget\<close>

text \<open>
  Accumulators of JSON answers share one counter of retained bytes. \<open>used\<close> is that counter and \<open>estimate\<close> what
  \<open>estimate_json_retained_bytes\<close> answers for the value, which depends on the capacity of its allocations.
  Each compare-and-exchange loop is one atomic step.
\<close>

definition json_reserve :: "nat \<Rightarrow> nat \<Rightarrow> nat \<Rightarrow> nat option" where
  "json_reserve limit used bytes =
     (if USIZE_MAX < used + bytes \<or> limit < used + bytes then None else Some (used + bytes))"

definition json_grow :: "nat \<Rightarrow> nat \<Rightarrow> nat \<Rightarrow> nat \<Rightarrow> (nat \<times> nat) option" where
  "json_grow limit used lease bytes =
     (if bytes \<le> lease then Some (used, lease)
      else if USIZE_MAX < used + (bytes - lease) \<or> limit < used + (bytes - lease) then None
      else Some (used + (bytes - lease), bytes))"

definition set_lease :: "string \<Rightarrow> nat \<Rightarrow> 'v accumulator \<Rightarrow> 'v accumulator" where
  "set_lease fp lease acc =
     (case map_of (acc_voters acc) fp of
        None \<Rightarrow> acc
      | Some c \<Rightarrow> acc\<lparr>acc_voters := AList.update fp (c\<lparr>cand_lease := Some lease\<rparr>) (acc_voters acc)\<rparr>)"

definition lease_of :: "string \<Rightarrow> 'v accumulator \<Rightarrow> nat option" where
  "lease_of fp acc = Option.bind (map_of (acc_voters acc) fp) cand_lease"

definition defer_vote :: "nat \<Rightarrow> 'v accumulator \<Rightarrow> 'v accumulator" where
  "defer_vote index acc =
     acc\<lparr>acc_pending := remove1 index (acc_pending acc),
         acc_deferred := (case acc_deferred acc of None \<Rightarrow> Some Overloaded | Some d \<Rightarrow> Some d)\<rparr>"

definition record_json_result_with_budget ::
    "nat \<Rightarrow> nat \<Rightarrow> nat \<Rightarrow> string \<Rightarrow> 'v \<Rightarrow> nat option \<Rightarrow> 'v accumulator \<Rightarrow> bool \<times> nat \<times> 'v accumulator" where
  "record_json_result_with_budget limit used index fp v estimate acc =
     (let replacing = (case map_of (acc_voters acc) fp of
                         None \<Rightarrow> True
                       | Some c \<Rightarrow> cand_indices c = [] \<or> index < hd (cand_indices c)) in
      case estimate of
        None \<Rightarrow> (False, used, acc_record index None acc)
      | Some bytes \<Rightarrow>
          if \<not> replacing then (True, used, acc_record index (Some (fp, v)) acc)
          else case lease_of fp acc of
            Some lease \<Rightarrow>
              (case json_grow limit used lease bytes of
                 Some (used', lease') \<Rightarrow> (True, used', acc_record index (Some (fp, v)) (set_lease fp lease' acc))
               | None \<Rightarrow> (False, used, defer_vote index acc))
          | None \<Rightarrow>
              (case json_reserve limit used bytes of
                 None \<Rightarrow> (False, used, defer_vote index acc)
               | Some used' \<Rightarrow> (True, used', set_lease fp bytes (acc_record index (Some (fp, v)) acc))))"

definition leases :: "'v accumulator \<Rightarrow> nat" where
  "leases acc = sum_list (map (\<lambda>(_, c). case cand_lease c of None \<Rightarrow> 0 | Some n \<Rightarrow> n) (acc_voters acc))"

text \<open>Dropping an accumulator drops the leases of its candidates.\<close>

definition drop_accumulator :: "nat \<Rightarrow> 'v accumulator \<Rightarrow> nat" where
  "drop_accumulator used acc = used - leases acc"

section \<open>The rule\<close>

definition vote_pair :: "provider_voter \<Rightarrow> string \<times> string" where
  "vote_pair v = (v_category v, v_entity v)"

text \<open>The votes of a set of providers meet the strategy.\<close>

definition met :: "provider_config \<Rightarrow> nat set \<Rightarrow> bool" where
  "met config I \<longleftrightarrow>
     strategy_met ((\<lambda>i. vote_pair (pc_voters config ! i)) ` {i \<in> I. i < length (pc_voters config)}) (pc_strategy config)"

lemma is_met_by_met: "is_met_by config indices = met config (set indices)"
proof -
  have "(\<lambda>v. (v_category v, v_entity v)) ` set (map (\<lambda>i. pc_voters config ! i) (filter (\<lambda>i. i < length (pc_voters config)) indices)) =
      (\<lambda>i. vote_pair (pc_voters config ! i)) ` {i \<in> set indices. i < length (pc_voters config)}"
    by (auto simp: vote_pair_def)
  then show ?thesis unfolding is_met_by_def met_def voters_satisfy by (rule arg_cong)
qed

lemma met_mono: "I \<subseteq> J \<Longrightarrow> met config I \<Longrightarrow> met config J"
  unfolding met_def by (rule strategy_met_mono) auto

text \<open>
  What resolving a quorum relies on: further votes never undo a quorum. \<open>R\<close> gives the voters each
  fingerprint has so far, \<open>R'\<close> those it has in the end, and only pending voters are added.
\<close>

locale vote_rule =
  fixes rule :: "nat set \<Rightarrow> bool"
  assumes rule_mono: "I \<subseteq> J \<Longrightarrow> rule I \<Longrightarrow> rule J"
begin

definition winners :: "(string \<Rightarrow> nat set) \<Rightarrow> string set" where
  "winners R = {fp. R fp \<noteq> {} \<and> rule (R fp)}"

lemma winners_final:
  assumes more: "\<And>fp. R fp \<subseteq> R' fp" "\<And>fp. R' fp \<subseteq> R fp \<union> P"
    and fp: "fp \<in> winners R" and none: "\<not> rule P"
    and others: "\<And>fp'. R fp' \<noteq> {} \<Longrightarrow> fp' \<noteq> fp \<Longrightarrow> \<not> rule (R fp' \<union> P)"
  shows "winners R' = {fp}"
proof -
  have "fp' = fp" if "fp' \<in> winners R'" for fp'
  proof (rule ccontr)
    assume ne: "fp' \<noteq> fp"
    have r: "rule (R fp' \<union> P)" using that rule_mono [OF more(2)] by (simp add: winners_def)
    with none have "R fp' \<noteq> {}" by auto
    from others [OF this ne] r show False by blast
  qed
  moreover have "fp \<in> winners R'"
    using fp more(1) [of fp] rule_mono [OF more(1), of fp] by (auto simp: winners_def)
  ultimately show ?thesis by blast
qed

lemma winners_none:
  assumes more: "\<And>fp. R' fp \<subseteq> R fp \<union> P"
    and none: "\<not> rule P" and others: "\<And>fp. R fp \<noteq> {} \<Longrightarrow> \<not> rule (R fp \<union> P)"
  shows "winners R' = {}"
proof -
  have "\<not> rule (R fp \<union> P)" for fp using none others by (cases "R fp = {}") simp_all
  then have "\<not> rule (R' fp)" for fp using rule_mono [OF more] by blast
  then show ?thesis by (simp add: winners_def)
qed

end

interpretation voting: vote_rule "met config" for config
  by unfold_locales (rule met_mono)

section \<open>What the accumulator holds\<close>

text \<open>The providers that reported a fingerprint.\<close>

definition reporters :: "(nat \<times> 'v observation) list \<Rightarrow> string \<Rightarrow> nat set" where
  "reporters responses fp = {i. \<exists>v. (i, Inr (Some (fp, v))) \<in> set responses}"

definition reported :: "(nat \<times> 'v observation) list \<Rightarrow> string \<Rightarrow> 'v \<Rightarrow> bool" where
  "reported responses fp v \<longleftrightarrow> (\<exists>i. (i, Inr (Some (fp, v))) \<in> set responses)"

definition holds_votes :: "(nat \<times> 'v observation) list \<Rightarrow> string \<Rightarrow> 'v candidate option \<Rightarrow> bool" where
  "holds_votes past fp c \<longleftrightarrow>
     (case c of
        None \<Rightarrow> reporters past fp = {}
      | Some c \<Rightarrow> set (cand_indices c) = reporters past fp \<and> reported past fp (cand_value c))"

definition acc_after :: "nat list \<Rightarrow> (nat \<times> 'v observation) list \<Rightarrow> 'v accumulator \<Rightarrow> bool" where
  "acc_after dispatched past acc \<longleftrightarrow>
     set (acc_pending acc) = set dispatched - fst ` set past \<and> distinct (acc_pending acc) \<and>
     distinct (map fst (acc_voters acc)) \<and> (\<forall>fp. holds_votes past fp (map_of (acc_voters acc) fp))"

lemma reporters_append [simp]:
  "reporters (xs @ ys) fp = reporters xs fp \<union> reporters ys fp"
  by (auto simp: reporters_def)

lemma reporters_one:
  "reporters [(i, obs)] fp = (case obs of Inr (Some (fp', _)) \<Rightarrow> if fp' = fp then {i} else {} | _ \<Rightarrow> {})"
  by (auto simp: reporters_def split: sum.splits option.splits)

lemma reported_reporters: "reported past fp v \<Longrightarrow> reporters past fp \<noteq> {}"
  by (auto simp: reported_def reporters_def)

lemma reported_append [simp]: "reported (xs @ ys) fp v \<longleftrightarrow> reported xs fp v \<or> reported ys fp v"
  by (auto simp: reported_def)

lemma reported_one [simp]: "reported [(i, obs)] fp v \<longleftrightarrow> obs = Inr (Some (fp, v))"
  by (auto simp: reported_def)

lemma holds_votes_other:
  assumes "holds_votes past fp c" "reporters [(i, obs)] fp = {}"
  shows "holds_votes (past @ [(i, obs)]) fp c"
  using assms by (auto simp: holds_votes_def split: option.splits)

lemma add_vote_holds:
  assumes "holds_votes past fp c"
  shows "holds_votes (past @ [(i, Inr (Some (fp, v)))]) fp (Some (add_vote i v c))"
  using assms by (cases c) (auto simp: holds_votes_def add_vote_def reporters_one set_insort_insert)

lemma acc_after_new: "acc_after dispatched [] (acc_new dispatched)"
  by (simp add: acc_after_def acc_new_def holds_votes_def reporters_def)

lemma record_result_after:
  assumes after: "acc_after dispatched past acc" and r: "record_result i obs acc = Inr acc'"
  shows "acc_after dispatched (past @ [(i, obs)]) acc'"
proof -
  have pending: "set (remove1 i (acc_pending acc)) = set dispatched - fst ` set (past @ [(i, obs)])"
    "distinct (remove1 i (acc_pending acc))" using after by (auto simp: acc_after_def)
  show ?thesis
  proof (cases "\<exists>fp v. obs = Inr (Some (fp, v))")
    case True
    then obtain fp v where obs: "obs = Inr (Some (fp, v))" by blast
    let ?c = "add_vote i v (map_of (acc_voters acc) fp)"
    have acc': "acc_pending acc' = remove1 i (acc_pending acc)" "acc_voters acc' = AList.update fp ?c (acc_voters acc)"
      using r by (auto simp: record_result_def obs acc_record_def Let_def)
    have "holds_votes (past @ [(i, obs)]) fp' (map_of (acc_voters acc') fp')" for fp'
    proof (cases "fp' = fp")
      case True
      then show ?thesis using after add_vote_holds [of past fp "map_of (acc_voters acc) fp" i v]
        by (simp add: acc'(2) update_conv' obs acc_after_def)
    next
      case False
      then show ?thesis using after holds_votes_other [of past fp' "map_of (acc_voters acc) fp'" i obs]
        by (simp add: acc'(2) update_conv' obs acc_after_def reporters_one)
    qed
    then show ?thesis using after pending by (simp add: acc_after_def acc' distinct_update)
  next
    case False
    then have none: "reporters [(i, obs)] fp = {}" for fp by (auto simp: reporters_def)
    have "acc_pending acc' = remove1 i (acc_pending acc)" "acc_voters acc' = acc_voters acc"
      using r False by (auto simp: record_result_def acc_record_def Let_def split: sum.splits option.splits rpc_error.splits)
    moreover have "holds_votes (past @ [(i, obs)]) fp (map_of (acc_voters acc) fp)" for fp
      using after none by (intro holds_votes_other) (simp_all add: acc_after_def)
    ultimately show ?thesis using after pending by (simp add: acc_after_def)
  qed
qed

section \<open>Agreement\<close>

text \<open>The fingerprints that a quorum of providers reported, whatever the order of their answers.\<close>

definition agreed :: "provider_config \<Rightarrow> (nat \<times> 'v observation) list \<Rightarrow> string set" where
  "agreed config responses = {fp. reporters responses fp \<noteq> {} \<and> met config (reporters responses fp)}"

lemma acc_entry:
  assumes "acc_after dispatched past acc" "(fp, c) \<in> set (acc_voters acc)"
  shows "set (cand_indices c) = reporters past fp" "reported past fp (cand_value c)"
proof -
  have "map_of (acc_voters acc) fp = Some c" using assms by (auto simp: acc_after_def)
  moreover have "holds_votes past fp (map_of (acc_voters acc) fp)" using assms(1) by (simp add: acc_after_def)
  ultimately show "set (cand_indices c) = reporters past fp" "reported past fp (cand_value c)"
    by (simp_all add: holds_votes_def)
qed

lemma acc_entry_exists:
  assumes "acc_after dispatched past acc" "reporters past fp \<noteq> {}"
  shows "\<exists>c. (fp, c) \<in> set (acc_voters acc)"
proof (cases "map_of (acc_voters acc) fp")
  case None
  moreover have "holds_votes past fp (map_of (acc_voters acc) fp)" using assms(1) by (simp add: acc_after_def)
  ultimately show ?thesis using assms(2) by (simp add: holds_votes_def)
qed (auto dest: map_of_SomeD)

lemma candidates_agreed:
  assumes after: "acc_after dispatched past acc"
  shows "fst ` set (candidates config acc) = agreed config past" "distinct (map fst (candidates config acc))"
proof -
  have "fp \<in> agreed config past" if "(fp, c) \<in> set (candidates config acc)" for fp c
  proof -
    have m: "(fp, c) \<in> set (acc_voters acc)" "is_met_by config (cand_indices c)"
      using that by (auto simp: candidates_def)
    with acc_entry(1) [OF after m(1)] reported_reporters [OF acc_entry(2) [OF after m(1)]]
    show ?thesis by (simp add: agreed_def is_met_by_met)
  qed
  moreover have "\<exists>c. (fp, c) \<in> set (candidates config acc)" if fp: "fp \<in> agreed config past" for fp
  proof -
    obtain c where c: "(fp, c) \<in> set (acc_voters acc)"
      using fp acc_entry_exists [OF after, of fp] by (auto simp: agreed_def)
    with acc_entry(1) [OF after c] fp show ?thesis by (auto simp: agreed_def candidates_def is_met_by_met)
  qed
  ultimately show "fst ` set (candidates config acc) = agreed config past" by force
  show "distinct (map fst (candidates config acc))"
    using after by (auto simp: candidates_def acc_after_def intro: distinct_map_filter)
qed

lemma candidates_single:
  assumes "acc_after dispatched past acc"
  shows "candidates config acc = [(fp, c)] \<Longrightarrow>
      agreed config past = {fp} \<and> reported past fp (cand_value c) \<and> (fp, c) \<in> set (acc_voters acc)"
    "agreed config past = {fp} \<Longrightarrow> \<exists>c. candidates config acc = [(fp, c)]"
proof -
  note c = candidates_agreed [OF assms, of config]
  show "agreed config past = {fp} \<and> reported past fp (cand_value c) \<and> (fp, c) \<in> set (acc_voters acc)"
    if s: "candidates config acc = [(fp, c)]"
  proof -
    have "(fp, c) \<in> set (candidates config acc)" using s by simp
    then have "(fp, c) \<in> set (acc_voters acc)" by (auto simp: candidates_def)
    with acc_entry(2) [OF assms this] c(1) s show ?thesis by simp
  qed
  show "\<exists>c. candidates config acc = [(fp, c)]" if a: "agreed config past = {fp}"
  proof -
    have "length (map fst (candidates config acc)) = card (set (map fst (candidates config acc)))"
      using c(2) by (simp only: distinct_card)
    then have "length (candidates config acc) = 1" using c(1) a by simp
    then obtain p where p: "candidates config acc = [p]" by (auto simp: length_Suc_conv)
    with c(1) a show ?thesis by (cases p) auto
  qed
qed

text \<open>A later answer reaches only the pending providers, so it can only extend a fingerprint's reporters by them.\<close>

lemma future_reporters:
  assumes "acc_after dispatched past acc" "fst ` set rest \<subseteq> set (acc_pending acc)"
  shows "reporters past fp \<subseteq> reporters (past @ rest) fp"
    "reporters (past @ rest) fp \<subseteq> reporters past fp \<union> set (acc_pending acc)"
  using assms(2) by (auto simp: reporters_def)

lemma agreed_winners: "agreed config responses = voting.winners config (reporters responses)"
  by (simp add: agreed_def voting.winners_def)

lemma unambiguous_is_final:
  assumes after: "acc_after dispatched past acc" and rest: "fst ` set rest \<subseteq> set (acc_pending acc)"
    and u: "unambiguous_result config acc = Some v"
  shows "\<exists>fp. agreed config (past @ rest) = {fp} \<and> reported past fp v"
proof -
  obtain fp c where cands: "candidates config acc = [(fp, c)]" and v: "v = cand_value c"
    and pend: "\<not> met config (set (acc_pending acc))"
    and others: "\<And>fp' c'. (fp', c') \<in> set (acc_voters acc) \<Longrightarrow> fp' \<noteq> fp \<Longrightarrow>
        \<not> met config (set (cand_indices c') \<union> set (acc_pending acc))"
    using u unfolding unambiguous_result_def
    by (auto split: list.splits prod.splits if_splits simp: list_ex_iff is_met_by_met)
  note s = candidates_single(1) [OF after cands]
  have "\<not> met config (reporters past fp' \<union> set (acc_pending acc))" if "reporters past fp' \<noteq> {}" "fp' \<noteq> fp" for fp'
  proof -
    from acc_entry_exists [OF after that(1)] obtain c' where c': "(fp', c') \<in> set (acc_voters acc)" by blast
    from others [OF c' that(2)] show ?thesis by (simp add: acc_entry(1) [OF after c'])
  qed
  moreover have "fp \<in> voting.winners config (reporters past)" using s by (simp add: agreed_winners)
  ultimately have "agreed config (past @ rest) = {fp}"
    unfolding agreed_winners using pend by (intro voting.winners_final [OF future_reporters [OF after rest]])
  with s v show ?thesis by blast
qed

lemma unreachable_is_final:
  assumes after: "acc_after dispatched past acc" and rest: "fst ` set rest \<subseteq> set (acc_pending acc)"
    and c: "\<not> can_reach_quorum config acc"
  shows "agreed config (past @ rest) = {}" "agreed config past = {}"
proof -
  have pend: "\<not> met config (set (acc_pending acc))" using c by (simp add: can_reach_quorum_def is_met_by_met)
  have others: "\<not> met config (reporters past fp \<union> set (acc_pending acc))" if "reporters past fp \<noteq> {}" for fp
  proof -
    from acc_entry_exists [OF after that] obtain c' where c': "(fp, c') \<in> set (acc_voters acc)" by blast
    with c show ?thesis
      by (auto simp: can_reach_quorum_def list_ex_iff is_met_by_met acc_entry(1) [OF after c', symmetric])
  qed
  show "agreed config (past @ rest) = {}"
    unfolding agreed_winners by (rule voting.winners_none [OF future_reporters(2) [OF after rest] pend others])
  show "agreed config past = {}"
    unfolding agreed_winners by (rule voting.winners_none [OF Un_upper1 pend others])
qed

lemma finish_exact:
  assumes after: "acc_after dispatched past acc"
  shows "case acc_finish config context acc of
      Inr v \<Rightarrow> \<exists>fp. agreed config past = {fp} \<and> reported past fp v
    | Inl _ \<Rightarrow> \<nexists>fp. agreed config past = {fp}"
proof (cases "\<exists>fp. agreed config past = {fp}")
  case True
  then obtain fp c where c: "candidates config acc = [(fp, c)]" using candidates_single(2) [OF after] by metis
  with candidates_single(1) [OF after c] show ?thesis by (auto simp: acc_finish_def)
next
  case False
  then have "candidates config acc \<noteq> [(fp, c)]" for fp c using candidates_single(1) [OF after] by blast
  then have "\<exists>e. acc_finish config context acc = Inl e"
    by (auto simp: acc_finish_def split: list.splits option.splits)
  with False show ?thesis by auto
qed

lemma record_result_ok:
  assumes "\<And>e. obs \<noteq> Inl (RpcConfiguration e)"
  shows "\<exists>acc'. record_result i obs acc = Inr acc'"
proof (cases obs)
  case (Inl a)
  with assms show ?thesis by (cases a) (auto simp: record_result_def)
qed (simp add: record_result_def)

text \<open>The loop, from any point: \<open>past\<close> has been recorded and \<open>rest\<close> is to come.\<close>

text \<open>
  The loop ends with an answer of the rule, or with a configuration error among the answers, whichever it
  meets first.
\<close>

lemma resolve_loop_exact:
  assumes "acc_after dispatched past acc" "distinct (map fst rest)" "fst ` set rest \<subseteq> set (acc_pending acc)"
  shows "(\<exists>r. resolve_loop config acc rest = Inr r \<and>
    (case r of
       Inl v \<Rightarrow> \<exists>fp. agreed config (past @ rest) = {fp} \<and> reported (past @ rest) fp v
     | Inr acc' \<Rightarrow> \<exists>past'. acc_after dispatched past' acc' \<and> set past' \<subseteq> set (past @ rest) \<and>
         (past' = past @ rest \<or> agreed config past' = {} \<and> agreed config (past @ rest) = {}))) \<or>
    (\<exists>i c. (i, Inl (RpcConfiguration c)) \<in> set rest \<and> resolve_loop config acc rest = Inl (Internal c))"
  using assms
proof (induction rest arbitrary: past acc)
  case Nil
  then show ?case by auto
next
  case (Cons response rest)
  obtain i obs where response: "response = (i, obs)" by (cases response)
  show ?case
  proof (cases "\<exists>c. obs = Inl (RpcConfiguration c)")
    case True
    then show ?thesis by (auto simp: response record_result_def)
  next
    case False
    then obtain acc' where rec: "record_result i obs acc = Inr acc'" using record_result_ok by blast
    let ?past = "past @ [(i, obs)]"
    note after = record_result_after [OF Cons.prems(1) rec]
    have rest: "fst ` set rest \<subseteq> set (acc_pending acc')"
      using Cons.prems(1-3) after response by (auto simp: acc_after_def)
    show ?thesis
    proof (cases "unambiguous_result config acc'")
      case (Some v)
      then show ?thesis using unambiguous_is_final [OF after rest Some] rec response
        by (intro disjI1) (auto simp: reported_def)
    next
      case None
      show ?thesis
      proof (cases "can_reach_quorum config acc'")
        case True
        have "distinct (map fst rest)" using Cons.prems(2) by simp
        note IH = Cons.IH [OF after this rest]
        have "past @ response # rest = ?past @ rest" by (simp add: response)
        moreover have "resolve_loop config acc (response # rest) = resolve_loop config acc' rest"
          using None True rec by (simp add: response)
        ultimately show ?thesis using IH by (simp only: list.set(2) insert_iff) blast
      next
        case False
        then show ?thesis using unreachable_is_final [OF after rest False] after None rec response
          by (intro disjI1 exI [of _ "Inr acc'"]) (auto intro!: exI [of _ ?past])
      qed
    qed
  qed
qed

section \<open>Sample pool\<close>

definition sample_voter :: "string \<Rightarrow> string \<Rightarrow> provider_voter" where
  "sample_voter category entity = \<lparr> v_category = category, v_entity = entity \<rparr>"

text \<open>Two URIs of one entity and one of another; two entities must agree, one of them internal.\<close>

definition sample_pool :: provider_config where
  "sample_pool =
     \<lparr> pc_uris = [Uri ''u0'', Uri ''u1'', Uri ''u2''],
       pc_voters = [sample_voter ''internal'' ''a'', sample_voter ''internal'' ''a'', sample_voter ''shared_external'' ''b''],
       pc_strategy = \<lparr> all_of = [[(''any'', QCount 2), (''internal'', QCount 1)]], one_of = [] \<rparr>, pc_sequencer = [] \<rparr>"

definition sample_answers :: "(nat \<times> nat observation) list" where
  "sample_answers = [(1, Inr (Some (''0x1'', 7))), (0, Inl RpcUnavailable), (2, Inr (Some (''0x1'', 7)))]"

lemma one_slot: "(\<exists>xs. distinct xs \<and> list_all2 P [c] xs) \<longleftrightarrow> (\<exists>e. P c e)"
proof
  assume "\<exists>e. P c e"
  then obtain e where "P c e" by blast
  then show "\<exists>xs. distinct xs \<and> list_all2 P [c] xs" by (intro exI [of _ "[e]"]) simp
qed (auto simp: list_all2_Cons1)

lemma sample_strategy_met:
  "strategy_met votes (pc_strategy sample_pool) \<longleftrightarrow> 2 \<le> card (snd ` votes) \<and> (\<exists>e. (''internal'', e) \<in> votes)"
proof -
  have "min USIZE_MAX 2 = 2" by (simp add: USIZE_MAX_def)
  then show ?thesis
    by (simp add: strategy_met_def sample_pool_def requirement_met_def resolved_def PROVIDER_CATEGORY_ANY_def one_slot)
qed

lemma sample_met: "met sample_pool I \<longleftrightarrow> (0 \<in> I \<or> 1 \<in> I) \<and> 2 \<in> I"
proof -
  have pool: "length (pc_voters sample_pool) = 3" by (simp add: sample_pool_def)
  have pair: "vote_pair (pc_voters sample_pool ! 0) = (''internal'', ''a'')" "vote_pair (pc_voters sample_pool ! Suc 0) = (''internal'', ''a'')"
    "vote_pair (pc_voters sample_pool ! 2) = (''shared_external'', ''b'')"
    by (simp_all add: sample_pool_def sample_voter_def vote_pair_def)
  have "i < 3 \<longleftrightarrow> i \<in> {0, Suc 0, 2}" for i :: nat by auto
  then have dom: "{i \<in> I. i < length (pc_voters sample_pool)} = I \<inter> {0, Suc 0, 2}" unfolding pool by blast
  show ?thesis
    unfolding met_def sample_strategy_met dom
    by (cases "0 \<in> I"; cases "Suc 0 \<in> I"; cases "2 \<in> I") (simp_all add: pair)
qed

lemma sample_answer_checks:
  "resolve_provider_quorum_for_indices sample_pool [0, 1, 2] sample_answers ''block'' = Inr 7"
  "validate_config sample_pool = Inr ()"
proof -
  show "resolve_provider_quorum_for_indices sample_pool [0, 1, 2] sample_answers ''block'' = Inr 7"
    by (simp add: resolve_provider_quorum_for_indices_def sample_answers_def acc_new_def record_result_def acc_record_def
        unambiguous_result_def candidates_def can_reach_quorum_def is_met_by_met sample_met add_vote_def insort_insert_key_def Let_def)
  have "is_strategy_satisfiable [] (pc_strategy sample_pool) = False"
    using voters_satisfy [of "[]"] by (simp add: voter_entities_def sample_strategy_met)
  moreover have "is_strategy_satisfiable (voter_entities (pc_voters sample_pool)) (pc_strategy sample_pool)"
    unfolding voters_satisfy sample_strategy_met by (simp add: sample_pool_def sample_voter_def)
  ultimately show "validate_config sample_pool = Inr ()"
    by (simp add: validate_config_def) (simp add: sample_pool_def)
qed

section \<open>Properties\<close>

lemma resolution_exact:
  assumes "distinct (map fst responses)" "set indices = fst ` set responses"
  shows "case resolve_provider_quorum_for_indices config indices responses context of
      Inr v \<Rightarrow> \<exists>fp. agreed config responses = {fp} \<and> reported responses fp v
    | Inl e \<Rightarrow> (\<nexists>fp. agreed config responses = {fp}) \<or>
        (\<exists>i c. (i, Inl (RpcConfiguration c)) \<in> set responses \<and> e = Internal c)"
proof -
  have "fst ` set responses \<subseteq> set (acc_pending (acc_new indices :: 'a accumulator))"
    using assms(2) by (simp add: acc_new_def)
  from resolve_loop_exact [OF acc_after_new assms(1) this, of config, unfolded append_Nil]
  show ?thesis
  proof (elim disjE exE conjE, goal_cases)
    case (1 r)
    show ?thesis
    proof (cases r)
      case (Inl v)
      with 1 show ?thesis by (simp add: resolve_provider_quorum_for_indices_def)
    next
      case (Inr acc)
      with 1 obtain past where past: "acc_after indices past acc"
        "past = responses \<or> agreed config past = {} \<and> agreed config responses = {}" by auto
      from finish_exact [OF past(1), of config "context"] past(2) show ?thesis
        by (auto simp: resolve_provider_quorum_for_indices_def 1(1) Inr split: sum.splits)
    qed
  next
    case (2 i c)
    then show ?thesis by (auto simp: resolve_provider_quorum_for_indices_def)
  qed
qed



section \<open>The JSON budget is kept\<close>

lemma sum_list_update_key:
  assumes "distinct (map fst al)"
  shows "sum_list (map (\<lambda>(_, c). f c) (AList.update k c al)) + (case map_of al k of None \<Rightarrow> 0 | Some d \<Rightarrow> f d) =
    sum_list (map (\<lambda>(_, c). f c) al) + (f c :: nat)"
  using assms
proof (induction al)
  case (Cons p al)
  obtain k' d where p: "p = (k', d)" by (cases p)
  show ?case
  proof (cases "k' = k")
    case False
    then show ?thesis using Cons p by (auto split: option.splits)
  qed (simp add: p)
qed simp

definition lease_bytes :: "'v candidate \<Rightarrow> nat" where
  "lease_bytes c = (case cand_lease c of None \<Rightarrow> 0 | Some n \<Rightarrow> n)"

lemma leases_alt: "leases acc = sum_list (map (\<lambda>(_, c). lease_bytes c) (acc_voters acc))"
  by (simp add: leases_def lease_bytes_def)

lemma lease_bytes_add_vote: "lease_bytes (add_vote i v c) = (case c of None \<Rightarrow> 0 | Some d \<Rightarrow> lease_bytes d)"
  by (simp add: add_vote_def lease_bytes_def split: option.splits)

lemma acc_record_leases:
  assumes "distinct (map fst (acc_voters acc))"
  shows "leases (acc_record i obs acc) = leases acc" "distinct (map fst (acc_voters (acc_record i obs acc)))"
proof -
  show "leases (acc_record i obs acc) = leases acc"
  proof (cases obs)
    case (Some p)
    obtain fp v where p: "p = (fp, v)" by (cases p)
    have "leases (acc_record i obs acc) + (case map_of (acc_voters acc) fp of None \<Rightarrow> 0 | Some d \<Rightarrow> lease_bytes d) =
        leases acc + lease_bytes (add_vote i v (map_of (acc_voters acc) fp))"
      using sum_list_update_key [OF assms, of lease_bytes fp "add_vote i v (map_of (acc_voters acc) fp)"]
      by (simp add: leases_alt acc_record_def Some p Let_def)
    then show ?thesis by (simp add: lease_bytes_add_vote split: option.splits)
  qed (simp add: acc_record_def leases_alt Let_def)
  show "distinct (map fst (acc_voters (acc_record i obs acc)))"
    using assms by (auto simp: acc_record_def Let_def distinct_update split: option.splits)
qed

lemma set_lease_leases:
  assumes "distinct (map fst (acc_voters acc))" "map_of (acc_voters acc) fp = Some c"
  shows "leases (set_lease fp n acc) + lease_bytes c = leases acc + n"
    "distinct (map fst (acc_voters (set_lease fp n acc)))"
proof -
  show "leases (set_lease fp n acc) + lease_bytes c = leases acc + n"
    using sum_list_update_key [OF assms(1), of lease_bytes fp "c\<lparr>cand_lease := Some n\<rparr>"] assms(2)
    by (simp add: leases_alt set_lease_def lease_bytes_def)
  show "distinct (map fst (acc_voters (set_lease fp n acc)))"
    using assms by (simp add: set_lease_def distinct_update)
qed

lemma defer_vote_leases: "leases (defer_vote i acc) = leases acc"
  by (simp add: defer_vote_def leases_alt)

lemma recorded_entry:
  "\<exists>c. map_of (acc_voters (acc_record i (Some (fp, v)) acc)) fp = Some c \<and> cand_lease c = lease_of fp acc"
  by (auto simp: acc_record_def Let_def update_conv' add_vote_def lease_of_def split: option.splits)

text \<open>
  The memory budget of JSON answers is never exceeded and never leaks. Recording an answer keeps
  the counter within its limit and changes it by exactly what it changes the leases that the
  accumulator holds, so dropping the accumulator gives back all that its answers took.
\<close>

theorem json_budget_kept:
  assumes "distinct (map fst (acc_voters acc))" "used \<le> limit" "leases acc \<le> used"
    and r: "record_json_result_with_budget limit used i fp v estimate acc = (kept, used', acc')"
  shows "used' \<le> limit \<and> drop_accumulator used' acc' = drop_accumulator used acc \<and> leases acc' \<le> used'"
proof -
  note rec = acc_record_leases [OF assms(1)]
  have "used' \<le> limit \<and> used' + leases acc = used + leases acc'"
  proof (cases "lease_of fp acc")
    case None
    obtain c where c: "map_of (acc_voters (acc_record i (Some (fp, v)) acc)) fp = Some c" "cand_lease c = None"
      using recorded_entry None by metis
    have "leases (set_lease fp n (acc_record i (Some (fp, v)) acc)) = leases acc + n" for n
      using set_lease_leases(1) [OF rec(2) c(1), of n] rec(1) c(2) by (simp add: lease_bytes_def)
    with r None rec(1) assms(2) defer_vote_leases [of i acc] show ?thesis
      by (auto simp: record_json_result_with_budget_def json_reserve_def Let_def split: option.splits if_splits)
  next
    case (Some lease)
    then obtain c where c: "map_of (acc_voters acc) fp = Some c" "cand_lease c = Some lease"
      by (auto simp: lease_of_def split: bind_splits)
    have "leases (acc_record i (Some (fp, v)) (set_lease fp n acc)) + lease = leases acc + n" for n
      using set_lease_leases(1) [OF assms(1) c(1), of n] c(2)
        acc_record_leases(1) [OF set_lease_leases(2) [OF assms(1) c(1), of n], of i "Some (fp, v)"]
      by (simp add: lease_bytes_def)
    then have grow: "leases (acc_record i (Some (fp, v)) (set_lease fp n acc)) = leases acc + n - lease" for n
      by (metis add_diff_cancel_right')
    have "lease \<le> leases acc"
      using c assms(1) member_le_sum_list [of "lease_bytes c" "map (\<lambda>(_, c). lease_bytes c) (acc_voters acc)"]
      by (force simp: leases_alt lease_bytes_def dest!: map_of_SomeD)
    with r Some rec(1) assms(2) defer_vote_leases [of i acc] grow show ?thesis
      by (auto simp: record_json_result_with_budget_def json_grow_def Let_def split: option.splits if_splits)
  qed
  then show ?thesis using assms(3) unfolding drop_accumulator_def by auto
qed

theorem json_budget_kept_witness:
  "drop_accumulator 60 (snd (snd (record_json_result_with_budget 100 10 0 ''0x1'' (7 :: nat) (Some 50) (acc_new [0])))) = 10"
proof -
  have "record_json_result_with_budget 100 10 0 ''0x1'' (7 :: nat) (Some 50) (acc_new [0]) =
      (True, 60, snd (snd (record_json_result_with_budget 100 10 0 ''0x1'' (7 :: nat) (Some 50) (acc_new [0]))))"
    by (simp add: record_json_result_with_budget_def acc_new_def lease_of_def json_reserve_def USIZE_MAX_def Let_def)
  from json_budget_kept [OF _ _ _ this] show ?thesis by (simp add: acc_new_def leases_def drop_accumulator_def)
qed

end
