(* ===== verification/Provider_Dispatch.thy ===== *)
theory Provider_Dispatch
  imports Provider_Quorum
begin

text \<open>
  How a quorum call is dispatched: the ranks of providers (\<^verbatim>\<open>provider_health/rank.rs\<close>), the order that puts
  a minimal quorum first (\<^verbatim>\<open>provider_validation.rs\<close>) and the staggered plan (\<^verbatim>\<open>quorum.rs\<close>). Sorting by a key is
  stable in the source and here. Times are in nanoseconds.
\<close>

section \<open>Ranks\<close>

datatype provider_rank = Normal | HighLatency | Unhealthy

fun rank_index :: "provider_rank \<Rightarrow> nat" where
  "rank_index Normal = 0"
| "rank_index HighLatency = 1"
| "rank_index Unhealthy = 2"

definition HIGH_LATENCY_THRESHOLD_MS :: nat where
  "HIGH_LATENCY_THRESHOLD_MS = 1000"

definition STALE_OBSERVATION_TTL :: nat where
  "STALE_OBSERVATION_TTL = 5 * 60 * 1000000000"

text \<open>The rank and the time of the observation, by chain and provider key.\<close>

type_synonym rank_tracker = "string \<times> string \<rightharpoonup> provider_rank \<times> nat"

definition rank_of :: "rank_tracker \<Rightarrow> nat \<Rightarrow> string \<Rightarrow> string \<Rightarrow> provider_rank" where
  "rank_of tracker now chain_name url =
     (case tracker (chain_name, url) of
        Some (rank, observed_at) \<Rightarrow> if now - observed_at \<le> STALE_OBSERVATION_TTL then rank else Normal
      | None \<Rightarrow> Normal)"

definition rank_record :: "nat \<Rightarrow> string \<Rightarrow> string \<Rightarrow> bool \<Rightarrow> nat option \<Rightarrow> rank_tracker \<Rightarrow> rank_tracker" where
  "rank_record now chain_name url healthy latency_ms tracker =
     tracker((chain_name, url) \<mapsto>
       (if \<not> healthy then Unhealthy
        else if (case latency_ms of None \<Rightarrow> False | Some latency \<Rightarrow> HIGH_LATENCY_THRESHOLD_MS < latency) then HighLatency
        else Normal, now))"

record provider_health_entry =
  he_rank_key :: string
  he_observed :: bool
  he_diagnostic :: bool
  he_timed_out :: bool
  he_healthy :: bool
  he_latency_ms :: "nat option"

definition seed_entry :: "nat \<Rightarrow> string \<Rightarrow> provider_health_entry \<Rightarrow> rank_tracker \<Rightarrow> rank_tracker" where
  "seed_entry now chain_name entry tracker =
     (if \<not> he_observed entry \<or> he_diagnostic entry then tracker
      else if he_timed_out entry
      then rank_record now chain_name (he_rank_key entry) True (Some (HIGH_LATENCY_THRESHOLD_MS + 1)) tracker
      else rank_record now chain_name (he_rank_key entry) (he_healthy entry) (he_latency_ms entry) tracker)"

definition seed_from_report ::
    "nat \<Rightarrow> (string \<times> provider_health_entry list) list \<Rightarrow> rank_tracker \<Rightarrow> rank_tracker" where
  "seed_from_report now report tracker =
     fold (\<lambda>(chain_name, entries). fold (seed_entry now chain_name) entries) report tracker"

section \<open>Ordering for a quorum\<close>

record orderable_provider =
  op_category :: string
  op_entity :: string
  op_id :: nat
  op_rank :: int

definition op_vote :: "orderable_provider \<Rightarrow> provider_voter" where
  "op_vote p = \<lparr> v_category = op_category p, v_entity = op_entity p \<rparr>"

text \<open>Entities in the order in which they are first seen.\<close>

definition first_seen :: "'a list \<Rightarrow> 'a list" where
  "first_seen xs = fold (\<lambda>x order. if x \<in> set order then order else order @ [x]) xs []"

text \<open>One provider of each entity per round, until none is left.\<close>

function round_robin :: "'a list list \<Rightarrow> 'a list" where
  "round_robin buckets =
     (if list_all (\<lambda>b. b = []) buckets then []
      else map hd (filter (\<lambda>b. b \<noteq> []) buckets) @ round_robin (map tl buckets))"
  by pat_completeness auto
termination
proof (relation "measure (\<lambda>buckets. sum_list (map length buckets))")
  fix buckets :: "'a list list"
  assume "\<not> list_all (\<lambda>b. b = []) buckets"
  then obtain b where b: "b \<in> set buckets" "b \<noteq> []" by (auto simp: list_all_iff)
  have "sum_list (map length (map tl buckets)) < sum_list (map length buckets)"
    using b
  proof (induction buckets)
    case (Cons x xs)
    have "sum_list (map length (map tl xs)) \<le> sum_list (map length xs)"
      by (induction xs) (auto simp: le_diff_conv add_increasing add_mono)
    with Cons show ?case by (cases "x = []") (auto simp: neq_Nil_conv)
  qed simp
  then show "(map tl buckets, buckets) \<in> measure (\<lambda>buckets. sum_list (map length buckets))" by simp
qed simp

declare round_robin.simps [simp del]

definition order_category :: "orderable_provider list \<Rightarrow> string \<Rightarrow> orderable_provider list" where
  "order_category providers category =
     (let members = filter (\<lambda>p. op_category p = category) providers;
          bucket = (\<lambda>entity. filter (\<lambda>p. op_entity p = entity) members);
          order = sort_key (\<lambda>entity. case bucket entity of [] \<Rightarrow> 0 | p # _ \<Rightarrow> op_rank p)
                    (first_seen (map op_entity members)) in
      round_robin (map bucket order))"

definition category_key :: "orderable_provider list \<Rightarrow> quorum_strategy \<Rightarrow> string \<Rightarrow> nat \<times> int \<times> nat" where
  "category_key providers strategy category =
     (let required = concat (map (map fst) (all_of strategy));
          ranks = map op_rank (filter (\<lambda>p. op_category p = category) providers) in
      (if PROVIDER_CATEGORY_ANY \<in> set required \<or> category \<in> set required then 0 else 1,
       if ranks = [] then 0 else Min (set ranks),
       length (takeWhile (\<lambda>c. c \<noteq> category) PROVIDER_CATEGORIES)))"

definition order_by_category :: "orderable_provider list \<Rightarrow> quorum_strategy \<Rightarrow> orderable_provider list" where
  "order_by_category providers strategy =
     concat (map (order_category providers)
       (sort_key (category_key providers strategy)
          (filter (\<lambda>c. list_ex (\<lambda>p. op_category p = c) providers) PROVIDER_CATEGORIES)))"

definition remove_entity :: "string \<Rightarrow> string \<Rightarrow> entity_counts \<Rightarrow> entity_counts" where
  "remove_entity category entity entities =
     AList.update category (remove1 entity (entities_of entities category)) entities"

text \<open>The loop from the back; \<open>providers\<close> is what is left of the reversed list.\<close>

fun select_back ::
    "quorum_strategy \<Rightarrow> orderable_provider list \<Rightarrow> (string \<times> string \<Rightarrow> nat) \<Rightarrow> entity_counts \<Rightarrow> bool list" where
  "select_back candidate [] counts entities = []"
| "select_back candidate (p # providers) counts entities =
     (let key = (op_category p, op_entity p);
          counts1 = counts(key := counts key - 1);
          entities1 = (if counts1 key = 0 then remove_entity (op_category p) (op_entity p) entities else entities) in
      if is_strategy_satisfiable entities1 candidate
      then select_back candidate providers counts1 entities1 @ [False]
      else select_back candidate providers (counts1(key := counts1 key + 1))
             (insert_entity (op_category p) (op_entity p) entities1) @ [True])"

definition minimal_satisfying_selection ::
    "orderable_provider list \<Rightarrow> quorum_strategy \<Rightarrow> bool list option" where
  "minimal_satisfying_selection output candidate =
     (let counts = (\<lambda>key. length (filter (\<lambda>p. (op_category p, op_entity p) = key) output));
          entities = voter_entities (map op_vote output) in
      if \<not> is_strategy_satisfiable entities candidate then None
      else Some (select_back candidate (rev output) counts entities))"

definition selected_first :: "'a list \<Rightarrow> bool list \<Rightarrow> 'a list" where
  "selected_first output selected =
     map fst (filter snd (zip output selected)) @ map fst (filter (\<lambda>p. \<not> snd p) (zip output selected))"

definition I64_MAX :: int where "I64_MAX = 2 ^ 63 - 1"
definition I64_MIN :: int where "I64_MIN = - (2 ^ 63)"

definition i64_saturating_add :: "int \<Rightarrow> int \<Rightarrow> int" where
  "i64_saturating_add a b = max I64_MIN (min I64_MAX (a + b))"

definition selection_cost :: "orderable_provider list \<Rightarrow> bool list \<Rightarrow> nat \<times> int" where
  "selection_cost output selected =
     (length (filter id selected),
      fold (\<lambda>(p, _) total. i64_saturating_add total (op_rank p)) (filter snd (zip output selected)) 0)"

definition best_alternative ::
    "orderable_provider list \<Rightarrow> quorum_strategy \<Rightarrow> ((nat \<times> int) \<times> bool list) option" where
  "best_alternative output strategy =
     fold (\<lambda>alternative best.
         case minimal_satisfying_selection output \<lparr> all_of = all_of strategy, one_of = [alternative] \<rparr> of
           None \<Rightarrow> best
         | Some selected \<Rightarrow>
             (case best of
                Some (cost, _) \<Rightarrow>
                  if selection_cost output selected < cost then Some (selection_cost output selected, selected) else best
              | None \<Rightarrow> Some (selection_cost output selected, selected)))
       (one_of strategy) None"

definition order_providers_for_quorum :: "orderable_provider list \<Rightarrow> quorum_strategy \<Rightarrow> orderable_provider list" where
  "order_providers_for_quorum providers strategy =
     (let output = order_by_category providers strategy in
      if one_of strategy = [] then output
      else case best_alternative output strategy of
        Some (_, selected) \<Rightarrow> selected_first output selected
      | None \<Rightarrow> output)"

definition prioritize_minimal_quorum :: "orderable_provider list \<Rightarrow> quorum_strategy \<Rightarrow> orderable_provider list" where
  "prioritize_minimal_quorum ordered strategy =
     (if one_of strategy \<noteq> [] then ordered
      else case minimal_satisfying_selection ordered strategy of
        Some selected \<Rightarrow> selected_first ordered selected
      | None \<Rightarrow> ordered)"

fun min_providers_loop :: "quorum_strategy \<Rightarrow> nat \<Rightarrow> entity_counts \<Rightarrow> orderable_provider list \<Rightarrow> nat" where
  "min_providers_loop strategy index votes [] = index"
| "min_providers_loop strategy index votes (p # providers) =
     (let votes1 = insert_entity (op_category p) (op_entity p) votes in
      if is_strategy_satisfiable votes1 strategy then index + 1
      else min_providers_loop strategy (index + 1) votes1 providers)"

definition min_providers_for_strategy :: "orderable_provider list \<Rightarrow> quorum_strategy \<Rightarrow> nat" where
  "min_providers_for_strategy providers strategy = min_providers_loop strategy 0 [] providers"

section \<open>The plan\<close>

definition DEFAULT_STALL_TIMEOUT :: nat where
  "DEFAULT_STALL_TIMEOUT = 2000 * 1000000"

fun checked_total :: "nat \<Rightarrow> quorum list \<Rightarrow> nat option" where
  "checked_total n0 [] = Some n0"
| "checked_total n0 (QMax # qs) = None"
| "checked_total n0 (QCount n # qs) = (if 2 ^ 64 \<le> n0 + unat n then None else checked_total (n0 + unat n) qs)"

definition is_trivial_strategy :: "quorum_strategy \<Rightarrow> bool" where
  "is_trivial_strategy strategy =
     (one_of strategy = [] \<and>
      (case checked_total 0 (map snd (concat (all_of strategy))) of None \<Rightarrow> False | Some n \<Rightarrow> n \<le> 1))"

definition ranks_only :: "quorum_strategy \<Rightarrow> bool" where
  "ranks_only strategy =
     (is_trivial_strategy strategy \<and>
      list_all (\<lambda>req. list_all (\<lambda>(key, _). key = PROVIDER_CATEGORY_ANY) req) (all_of strategy))"

record dispatch_entry =
  de_index :: nat
  de_uri :: provider_uri
  de_delay :: nat

definition orderable :: "provider_config \<Rightarrow> nat \<times> provider_rank \<Rightarrow> orderable_provider" where
  "orderable config p =
     \<lparr> op_category = v_category (pc_voters config ! fst p), op_entity = v_entity (pc_voters config ! fst p),
       op_id = fst p, op_rank = int (rank_index (snd p)) \<rparr>"

definition order_healthy :: "provider_config \<Rightarrow> (nat \<times> provider_rank) list \<Rightarrow> orderable_provider list" where
  "order_healthy config healthy =
     (if ranks_only (pc_strategy config) then map (orderable config) healthy
      else prioritize_minimal_quorum
             (order_providers_for_quorum (map (orderable config) healthy) (pc_strategy config)) (pc_strategy config))"

definition entry_delay :: "nat \<Rightarrow> nat option \<Rightarrow> nat \<Rightarrow> nat" where
  "entry_delay first_wave cap position =
     (let delay = DEFAULT_STALL_TIMEOUT * (position + 1 - first_wave) in
      case cap of None \<Rightarrow> delay | Some cap \<Rightarrow> min delay cap)"

definition plan_dispatch_for_keys ::
    "rank_tracker \<Rightarrow> nat \<Rightarrow> nat option \<Rightarrow> string \<Rightarrow> provider_config \<Rightarrow> (nat \<times> string) list \<Rightarrow> dispatch_entry list res" where
  "plan_dispatch_for_keys tracker now deadline chain_name config keyed =
     (let ranked = sort_key (\<lambda>(_, rank). rank_index rank)
                     (map (\<lambda>(index, key). (index, rank_of tracker now chain_name key)) keyed);
          healthy = filter (\<lambda>(_, rank). rank \<noteq> Unhealthy) ranked;
          unhealthy = filter (\<lambda>(_, rank). rank = Unhealthy) ranked in
      if \<not> is_met_by config (map fst healthy)
      then Inl (Internal (''Not enough healthy providers to meet quorum '' @ canonical_strategy_key (pc_strategy config) @
             '' for chain '' @ chain_name @ '' ('' @ show_nat (length healthy) @ '' healthy of '' @
             show_nat (length (pc_uris config)) @ '' configured)''))
      else
        let ordered = order_healthy config healthy;
            first_wave = max 1 (min_providers_for_strategy ordered (pc_strategy config));
            order = map op_id ordered @ map fst unhealthy;
            cap = map_option (\<lambda>at. (at - now) div 4) deadline in
        Inr (map (\<lambda>(position, index).
               \<lparr> de_index = index, de_uri = pc_uris config ! index, de_delay = entry_delay first_wave cap position \<rparr>)
             (enumerate 0 order)))"

section \<open>Orderings are permutations\<close>

lemma first_seen_props: "distinct (first_seen xs)" "set (first_seen xs) = set xs"
proof -
  have "distinct order \<Longrightarrow>
      distinct (fold (\<lambda>x order. if x \<in> set order then order else order @ [x]) xs order) \<and>
      set (fold (\<lambda>x order. if x \<in> set order then order else order @ [x]) xs order) = set xs \<union> set order" for order
    by (induction xs arbitrary: order) auto
  then show "distinct (first_seen xs)" "set (first_seen xs) = set xs" by (simp_all add: first_seen_def)
qed

lemma mset_heads_tails:
  "mset (map hd (filter (\<lambda>b. b \<noteq> []) bs)) + mset (concat (map tl bs)) = mset (concat bs)"
proof (induction bs)
  case (Cons b bs)
  then show ?case by (cases b) auto
qed simp

lemma mset_round_robin: "mset (round_robin bs) = mset (concat bs)"
proof (induction bs rule: round_robin.induct)
  case (1 bs)
  show ?case
  proof (cases "list_all (\<lambda>b. b = []) bs")
    case True
    then have "concat bs = []" by (auto simp: list_all_iff)
    with True show ?thesis by (simp add: round_robin.simps)
  next
    case False
    then show ?thesis using 1 mset_heads_tails [of bs] by (subst round_robin.simps) simp
  qed
qed

text \<open>Splitting a list by a key and joining the parts keeps every element.\<close>

lemma mset_split_by:
  "distinct ks \<Longrightarrow> mset (concat (map (\<lambda>k. filter (\<lambda>x. f x = k) xs) ks)) = mset (filter (\<lambda>x. f x \<in> set ks) xs)"
proof (induction ks)
  case (Cons k ks)
  have "filter_mset (\<lambda>x. f x = k) (mset xs) + filter_mset (\<lambda>x. f x \<in> set ks) (mset xs) =
      filter_mset (\<lambda>x. f x = k \<or> f x \<in> set ks) (mset xs)"
    using Cons.prems by (intro multiset_eqI) auto
  with Cons show ?case by simp
qed simp

lemma mset_order_category:
  "mset (order_category providers c) = mset (filter (\<lambda>p. op_category p = c) providers)"
proof -
  let ?ms = "filter (\<lambda>p. op_category p = c) providers"
  let ?bucket = "\<lambda>entity. filter (\<lambda>p. op_entity p = entity) ?ms"
  let ?order = "sort_key (\<lambda>entity. case ?bucket entity of [] \<Rightarrow> 0 | p # _ \<Rightarrow> op_rank p) (first_seen (map op_entity ?ms))"
  have o: "distinct ?order" "set ?order = op_entity ` set ?ms" using first_seen_props [of "map op_entity ?ms"] by auto
  have "filter (\<lambda>p. op_entity p \<in> set ?order) ?ms = ?ms" by (rule filter_True) (use o(2) in auto)
  then show ?thesis
    unfolding order_category_def Let_def using mset_split_by [OF o(1), of op_entity ?ms] by (simp only: mset_round_robin)
qed

definition known_category :: "orderable_provider \<Rightarrow> bool" where
  "known_category p \<longleftrightarrow> op_category p \<in> set PROVIDER_CATEGORIES"

lemma distinct_categories [simp]: "distinct PROVIDER_CATEGORIES"
  by (simp add: PROVIDER_CATEGORIES_def PROVIDER_CATEGORY_INTERNAL_def PROVIDER_CATEGORY_DEDICATED_EXTERNAL_def
      PROVIDER_CATEGORY_SHARED_EXTERNAL_def)

lemma mset_order_by_category:
  assumes "list_all known_category providers"
  shows "mset (order_by_category providers strategy) = mset providers"
proof -
  let ?cs = "sort_key (category_key providers strategy)
      (filter (\<lambda>c. list_ex (\<lambda>p. op_category p = c) providers) PROVIDER_CATEGORIES)"
  have cs: "distinct ?cs" by simp
  have "filter (\<lambda>p. op_category p \<in> set ?cs) providers = providers"
    using assms by (intro filter_True) (auto simp: list_all_iff list_ex_iff known_category_def)
  moreover have "mset (concat (map (order_category providers) cs)) =
      mset (concat (map (\<lambda>k. filter (\<lambda>p. op_category p = k) providers) cs))" for cs
    by (induction cs) (simp_all add: mset_order_category)
  ultimately show ?thesis
    unfolding order_by_category_def using mset_split_by [OF cs, of op_category providers] by (simp only:)
qed

lemma mset_selected_first:
  "length selected = length output \<Longrightarrow> mset (selected_first output selected) = mset output"
proof -
  assume "length selected = length output"
  then have "mset (map fst (zip output selected)) = mset output" by simp
  moreover have "mset (map fst (filter P zs)) + mset (map fst (filter (\<lambda>p. \<not> P p) zs)) = mset (map fst zs)" for P zs
    by (induction zs) auto
  ultimately show ?thesis unfolding selected_first_def mset_append by metis
qed

lemma length_select_back: "length (select_back candidate ps counts entities) = length ps"
  by (induction ps arbitrary: counts entities) (simp_all add: Let_def)

lemma length_selection:
  "minimal_satisfying_selection output candidate = Some selected \<Longrightarrow> length selected = length output"
  by (auto simp: minimal_satisfying_selection_def Let_def length_select_back split: if_splits)

lemma best_alternative_length:
  assumes "best_alternative output strategy = Some (cost, selected)"
  shows "length selected = length output"
proof -
  let ?step = "\<lambda>alternative best.
         case minimal_satisfying_selection output \<lparr> all_of = all_of strategy, one_of = [alternative] \<rparr> of
           None \<Rightarrow> best
         | Some selected \<Rightarrow>
             (case best of
                Some (cost, _) \<Rightarrow>
                  if selection_cost output selected < cost then Some (selection_cost output selected, selected) else best
              | None \<Rightarrow> Some (selection_cost output selected, selected))"
  have step: "pred_option (\<lambda>(_, sel). length sel = length output) (?step alt best)"
    if "pred_option (\<lambda>(_, sel). length sel = length output) best" for alt best
    using that by (auto dest: length_selection split: option.splits if_splits)
  have "pred_option (\<lambda>(_, sel). length sel = length output) (fold ?step alts best)"
    if "pred_option (\<lambda>(_, sel). length sel = length output) best" for alts best
    using that
  proof (induction alts arbitrary: best)
    case (Cons alt alts)
    show ?case unfolding fold.simps o_apply by (rule Cons.IH) (rule step [OF Cons.prems])
  qed simp
  from this [of None "one_of strategy"] assms show ?thesis by (simp add: best_alternative_def)
qed

lemma mset_order_providers:
  assumes "list_all known_category providers"
  shows "mset (order_providers_for_quorum providers strategy) = mset providers"
proof -
  note o = mset_order_by_category [OF assms, of strategy]
  show ?thesis
    using o by (auto simp: order_providers_for_quorum_def Let_def mset_selected_first
        dest: best_alternative_length split: option.splits)
qed

lemma mset_prioritize: "mset (prioritize_minimal_quorum ordered strategy) = mset ordered"
  by (auto simp: prioritize_minimal_quorum_def mset_selected_first dest: length_selection split: option.splits)

section \<open>The first wave\<close>

definition op_pair :: "orderable_provider \<Rightarrow> string \<times> string" where
  "op_pair p = (op_category p, op_entity p)"

lemma insert_entity_distinct:
  "distinct (map fst counts) \<Longrightarrow> distinct (map fst (insert_entity c e counts))"
  by (simp add: insert_entity_def distinct_update)

lemma min_providers_loop_meets:
  assumes "distinct (map fst votes)" "strategy_met (votes_of votes \<union> op_pair ` set ps) strategy"
  shows "\<exists>k \<le> length ps. min_providers_loop strategy index votes ps = index + k \<and>
    strategy_met (votes_of votes \<union> op_pair ` set (take k ps)) strategy"
  using assms
proof (induction ps arbitrary: index votes)
  case Nil
  then show ?case by simp
next
  case (Cons p ps)
  let ?votes = "insert_entity (op_category p) (op_entity p) votes"
  have d: "distinct (map fst ?votes)" by (rule insert_entity_distinct [OF Cons.prems(1)])
  have v: "votes_of ?votes = insert (op_pair p) (votes_of votes)" by (simp add: insert_entity_votes op_pair_def)
  show ?case
  proof (cases "is_strategy_satisfiable ?votes strategy")
    case True
    then have "strategy_met (votes_of votes \<union> op_pair ` set (take 1 (p # ps))) strategy"
      using satisfiable_exact [OF d, of strategy] v by simp
    moreover have "min_providers_loop strategy index votes (p # ps) = index + 1" using True by (simp add: Let_def)
    ultimately show ?thesis by (intro exI [of _ 1]) simp
  next
    case False
    have "strategy_met (votes_of ?votes \<union> op_pair ` set ps) strategy" using Cons.prems(2) v by simp
    from Cons.IH [OF d this, of "index + 1"] obtain k where k: "k \<le> length ps"
      "min_providers_loop strategy (index + 1) ?votes ps = index + 1 + k"
      "strategy_met (votes_of ?votes \<union> op_pair ` set (take k ps)) strategy" by blast
    have "strategy_met (votes_of votes \<union> op_pair ` set (take (Suc k) (p # ps))) strategy" using k(3) v by simp
    with k(1,2) False show ?thesis by (intro exI [of _ "Suc k"]) (simp add: Let_def)
  qed
qed

lemma min_providers_meets:
  assumes "strategy_met (op_pair ` set ps) strategy"
  shows "strategy_met (op_pair ` set (take (min_providers_for_strategy ps strategy) ps)) strategy"
  using min_providers_loop_meets [of "[]" ps strategy 0] assms
  by (auto simp: min_providers_for_strategy_def votes_of_def entities_of_def)

section \<open>Properties of a plan\<close>

definition rank_unhealthy :: "rank_tracker \<Rightarrow> nat \<Rightarrow> string \<Rightarrow> (nat \<times> string) list \<Rightarrow> nat \<Rightarrow> bool" where
  "rank_unhealthy tracker now chain_name keyed index \<longleftrightarrow>
     (\<exists>key. (index, key) \<in> set keyed \<and> rank_of tracker now chain_name key = Unhealthy)"

definition votable :: "provider_config \<Rightarrow> nat \<Rightarrow> bool" where
  "votable config index \<longleftrightarrow>
     index < length (pc_voters config) \<and> v_category (pc_voters config ! index) \<in> set PROVIDER_CATEGORIES"

lemma mset_order_healthy:
  assumes "list_all (votable config) (map fst healthy)"
  shows "mset (order_healthy config healthy) = mset (map (orderable config) healthy)"
proof -
  have "list_all known_category (map (orderable config) healthy)"
    using assms by (auto simp: list_all_iff known_category_def orderable_def votable_def)
  then show ?thesis by (simp add: order_healthy_def mset_prioritize mset_order_providers)
qed

lemma ordered_votes:
  assumes "list_all (votable config) (map fst healthy)" "set ps \<subseteq> set (order_healthy config healthy)"
  shows "op_pair ` set ps = (\<lambda>i. vote_pair (pc_voters config ! i)) ` {i \<in> op_id ` set ps. i < length (pc_voters config)}"
proof -
  have o: "set (order_healthy config healthy) = orderable config ` set healthy"
    using mset_eq_setD [OF mset_order_healthy [OF assms(1)]] by simp
  have p: "op_pair p = vote_pair (pc_voters config ! op_id p)" "op_id p < length (pc_voters config)" if "p \<in> set ps" for p
  proof -
    have "p \<in> orderable config ` set healthy" using subsetD [OF assms(2) that] unfolding o .
    then obtain h where h: "h \<in> set healthy" "p = orderable config h" by (elim imageE)
    then have "votable config (fst h)" using assms(1) by (simp add: list_all_iff)
    then have "fst h < length (pc_voters config)" by (simp add: votable_def)
    with h show "op_pair p = vote_pair (pc_voters config ! op_id p)" "op_id p < length (pc_voters config)"
      by (simp_all add: orderable_def op_pair_def vote_pair_def)
  qed
  have "{i \<in> op_id ` set ps. i < length (pc_voters config)} = op_id ` set ps" using p(2) by blast
  moreover have "op_pair ` set ps = (\<lambda>p. vote_pair (pc_voters config ! op_id p)) ` set ps"
    by (rule image_cong [OF refl p(1)])
  ultimately show ?thesis by (simp add: image_image)
qed

lemma first_wave_meets:
  assumes "list_all (votable config) (map fst healthy)" "is_met_by config (map fst healthy)"
  shows "met config (op_id ` set (take (min_providers_for_strategy (order_healthy config healthy) (pc_strategy config))
      (order_healthy config healthy)))"
proof -
  let ?o = "order_healthy config healthy"
  have "op_id ` set ?o = op_id ` orderable config ` set healthy"
    using mset_eq_setD [OF mset_order_healthy [OF assms(1)]] by simp
  also have "\<dots> = set (map fst healthy)" by (simp add: image_image orderable_def)
  finally have "op_id ` set ?o = set (map fst healthy)" .
  then have "strategy_met (op_pair ` set ?o) (pc_strategy config)"
    using assms(2) unfolding is_met_by_met met_def ordered_votes [OF assms(1) order_refl] by simp
  from min_providers_meets [OF this] show ?thesis
    unfolding met_def using ordered_votes [OF assms(1) set_take_subset] by simp
qed

lemma entry_delay_first: "position < wave \<Longrightarrow> entry_delay wave cap position = 0"
  by (simp add: entry_delay_def split: option.splits)

lemma undelayed_indices:
  assumes "entries = map (\<lambda>(position, index).
        \<lparr> de_index = index, de_uri = uri index, de_delay = entry_delay wave cap position \<rparr>) (enumerate 0 order)"
  shows "set (take wave order) \<subseteq> de_index ` {e \<in> set entries. de_delay e = 0}"
proof
  fix i
  assume "i \<in> set (take wave order)"
  then obtain k where k: "k < wave" "k < length order" "order ! k = i" by (auto simp: in_set_conv_nth)
  let ?e = "\<lparr> de_index = i, de_uri = uri i, de_delay = entry_delay wave cap k \<rparr>"
  have "(k, i) \<in> set (enumerate 0 order)" using k by (auto simp: in_set_enumerate_eq)
  then have "?e \<in> set entries" unfolding assms set_map by (rule rev_image_eqI) simp
  moreover have "de_delay ?e = 0" using entry_delay_first [OF k(1)] by simp
  ultimately show "i \<in> de_index ` {e \<in> set entries. de_delay e = 0}" by (intro image_eqI [of _ _ ?e]) auto
qed

lemma ranks_split:
  assumes "distinct (map fst keyed)"
    and "set ranked = (\<lambda>(index, key). (index, rank_of tracker now chain_name key)) ` set keyed" "(i, rank) \<in> set ranked"
  shows "rank_unhealthy tracker now chain_name keyed i \<longleftrightarrow> rank = Unhealthy"
proof -
  obtain key where key: "(i, key) \<in> set keyed" "rank = rank_of tracker now chain_name key"
    using assms(3) unfolding assms(2) by (elim imageE) (simp split: prod.splits)
  have "key' = key" if "(i, key') \<in> set keyed" for key' by (rule eq_key_imp_eq_value [OF assms(1) that key(1)])
  with key(1) have "rank_unhealthy tracker now chain_name keyed i \<longleftrightarrow> rank_of tracker now chain_name key = Unhealthy"
    unfolding rank_unhealthy_def by blast
  with key(2) show ?thesis by simp
qed

lemma plan_complete:
  assumes plan: "plan_dispatch_for_keys tracker now deadline chain_name config keyed = Inr entries"
    and keyed: "distinct (map fst keyed)" "list_all (votable config) (map fst keyed)"
  shows "mset (map de_index entries) = mset (map fst keyed) \<and>
    met config (de_index ` {e \<in> set entries. de_delay e = 0}) \<and>
    (\<exists>front back. map de_index entries = front @ back \<and>
       list_all (\<lambda>i. \<not> rank_unhealthy tracker now chain_name keyed i) front \<and>
       list_all (rank_unhealthy tracker now chain_name keyed) back)"
proof -
  define ranked where "ranked = sort_key (\<lambda>(_, rank). rank_index rank)
      (map (\<lambda>(index, key). (index, rank_of tracker now chain_name key)) keyed)"
  define healthy where "healthy = filter (\<lambda>(_, rank). rank \<noteq> Unhealthy) ranked"
  define unhealthy where "unhealthy = filter (\<lambda>(_, rank). rank = Unhealthy) ranked"
  define ordered where "ordered = order_healthy config healthy"
  define wave where "wave = max 1 (min_providers_for_strategy ordered (pc_strategy config))"
  define cap where "cap = map_option (\<lambda>at. (at - now) div 4) deadline"
  have met: "is_met_by config (map fst healthy)"
    and entries: "entries = map (\<lambda>(position, index).
        \<lparr> de_index = index, de_uri = pc_uris config ! index, de_delay = entry_delay wave cap position \<rparr>)
      (enumerate 0 (map op_id ordered @ map fst unhealthy))"
    using plan unfolding plan_dispatch_for_keys_def Let_def ranked_def [symmetric] healthy_def [symmetric]
      unhealthy_def [symmetric] ordered_def [symmetric] wave_def [symmetric] cap_def [symmetric]
    by (auto split: if_splits)
  have ranked_set: "set ranked = (\<lambda>(index, key). (index, rank_of tracker now chain_name key)) ` set keyed"
    and ranked_mset: "mset (map fst ranked) = mset (map fst keyed)"
    unfolding ranked_def by (simp_all add: image_mset.compositionality comp_def case_prod_beta mset_map)
  have votable: "list_all (votable config) (map fst healthy)"
    using keyed(2) ranked_set by (force simp: list_all_iff healthy_def)
  have ids: "mset (map op_id ordered) = mset (map fst healthy)"
    using mset_order_healthy [OF votable] by (simp add: ordered_def mset_map image_mset.compositionality comp_def orderable_def)
  have order: "map de_index entries = map op_id ordered @ map fst unhealthy"
    unfolding entries by (simp add: comp_def case_prod_beta)
  have "mset (map fst healthy) + mset (map fst unhealthy) = mset (map fst ranked)"
    unfolding healthy_def unhealthy_def by (induction ranked) auto
  then have all: "mset (map de_index entries) = mset (map fst keyed)"
    unfolding order mset_append ids using ranked_mset by simp
  have "take (min_providers_for_strategy ordered (pc_strategy config)) ordered = take (min_providers_for_strategy ordered (pc_strategy config)) (take wave ordered)"
    by (simp add: wave_def min_def)
  then have "op_id ` set (take (min_providers_for_strategy ordered (pc_strategy config)) ordered) \<subseteq> op_id ` set (take wave ordered)"
    by (metis image_mono set_take_subset)
  also have "\<dots> \<subseteq> set (take wave (map op_id ordered @ map fst unhealthy))" by (auto simp: take_map)
  also have "\<dots> \<subseteq> de_index ` {e \<in> set entries. de_delay e = 0}" by (rule undelayed_indices [OF entries])
  finally have wave_met: "met config (de_index ` {e \<in> set entries. de_delay e = 0})"
    using first_wave_meets [OF votable met] met_mono unfolding ordered_def by blast
  have "op_id ` set ordered = fst ` set healthy" using mset_eq_setD [OF ids] by simp
  then have front: "list_all (\<lambda>i. \<not> rank_unhealthy tracker now chain_name keyed i) (map op_id ordered)"
    using ranks_split [OF keyed(1) ranked_set] by (auto simp: list_all_iff healthy_def)
  have late: "list_all (rank_unhealthy tracker now chain_name keyed) (map fst unhealthy)"
    using ranks_split [OF keyed(1) ranked_set] by (auto simp: list_all_iff unhealthy_def)
  show ?thesis using all wave_met order front late by blast
qed

text \<open>
  C18: a dispatch plan asks every provider and its first wave can answer. When every provider of a
  call votes in a known category, a plan lists each provider exactly once, the healthy ones before the
  unhealthy ones, and the votes of the providers that are asked without delay meet the
  strategy.
\<close>

theorem dispatch_plan_complete:
  assumes plan: "plan_dispatch_for_keys tracker now deadline chain_name config keyed = Inr entries"
    and keyed: "distinct (map fst keyed)" "list_all (votable config) (map fst keyed)"
  shows "mset (map de_index entries) = mset (map fst keyed) \<and>
    met config (de_index ` {e \<in> set entries. de_delay e = 0}) \<and>
    (\<exists>front back. map de_index entries = front @ back \<and>
       list_all (\<lambda>i. \<not> rank_unhealthy tracker now chain_name keyed i) front \<and>
       list_all (rank_unhealthy tracker now chain_name keyed) back)"
  using plan_complete [OF assms] .

definition sample_keyed :: "(nat \<times> string) list" where
  "sample_keyed = [(0, ''u0''), (1, ''u1''), (2, ''u2'')]"

lemma sample_plan: "\<exists>entries. plan_dispatch_for_keys Map.empty 0 None ''eth'' sample_pool sample_keyed = Inr entries"
proof -
  have "is_met_by sample_pool [0, 1, 2]" by (simp add: is_met_by_met sample_met)
  then show ?thesis by (simp add: plan_dispatch_for_keys_def sample_keyed_def rank_of_def Let_def)
qed

theorem dispatch_plan_complete_witness:
  "\<exists>entries. plan_dispatch_for_keys Map.empty 0 None ''eth'' sample_pool sample_keyed = Inr entries \<and>
     mset (map de_index entries) = {#0, 1, 2#}"
proof -
  obtain entries where e: "plan_dispatch_for_keys Map.empty 0 None ''eth'' sample_pool sample_keyed = Inr entries"
    using sample_plan by blast
  have "distinct (map fst sample_keyed)" "list_all (votable sample_pool) (map fst sample_keyed)"
    by (simp_all add: sample_keyed_def votable_def sample_pool_def sample_voter_def PROVIDER_CATEGORIES_def
        PROVIDER_CATEGORY_INTERNAL_def PROVIDER_CATEGORY_SHARED_EXTERNAL_def)
  from dispatch_plan_complete [OF e this] e show ?thesis by (simp add: sample_keyed_def)
qed

end
