(* ===== verification/Provider_Files.thy ===== *)
theory Provider_Files
  imports Provider_Dispatch
begin

text \<open>
  \<^verbatim>\<open>pillar-config/src/provider_validation.rs\<close>: the providers and strategy files, validated as a pair and turned
  into the pools that quorum calls dispatch over. The files are taken as parsed. A \<open>BTreeMap\<close> is
  the association list sorted by key, so that errors come in its order. The table of chain names is a
  parameter: it only decides which names a diagnostic shows.
\<close>

section \<open>Entries and strategies\<close>

record provider_entry_v2 =
  pe_uri :: string
  pe_category :: string
  pe_entity :: string
  pe_headers :: "(string \<times> string) list"

type_synonym provider_config_v2 = "(string \<times> provider_entry_v2 list) list"

record providers_file_v2 =
  pf_entities :: "string list"
  pf_chains :: "(string \<times> provider_config_v2) list"

record quorum_strategy_file =
  sf_default :: "quorum_strategy option"
  sf_chains :: "(string \<times> (string \<times> quorum_strategy) list) list"

datatype config_error = ProviderValidation string | ConfigJson string | MissingChainNames string

definition btree :: "(string \<times> 'a) list \<Rightarrow> (string \<times> 'a) list" where
  "btree m = sort_key fst m"

definition RPC_ENDPOINT_TYPE :: string where "RPC_ENDPOINT_TYPE = ''rpc''"
definition SEQUENCER_ENDPOINT_TYPE :: string where "SEQUENCER_ENDPOINT_TYPE = ''sequencer''"

definition chain_label :: "(string \<Rightarrow> bool) \<Rightarrow> string \<Rightarrow> string" where
  "chain_label known chain = (if known chain then chain else ''<unlisted chain>'')"

definition endpoint_label :: "string \<Rightarrow> string" where
  "endpoint_label endpoint =
     (if endpoint \<in> {RPC_ENDPOINT_TYPE, SEQUENCER_ENDPOINT_TYPE} then endpoint else ''<unlisted endpoint type>'')"

definition validate_provider_entry :: "provider_entry_v2 \<Rightarrow> string list \<Rightarrow> string list" where
  "validate_provider_entry entry known_entities =
     (if pe_uri entry = [] then [''entry is missing required \"uri\"''] else []) @
     (if pe_category entry = [] then [''entry is missing required \"category\"'']
      else if pe_category entry \<notin> set PROVIDER_CATEGORIES
      then [''has an unknown category - must be one of: '' @ join '', '' PROVIDER_CATEGORIES] else []) @
     (if pe_entity entry = [] then [''entry is missing required \"entity\"'']
      else if pe_entity entry \<notin> set known_entities
      then [''has an entity which is not in the registered entities list - add it to entities[] first''] else [])"

definition validation_result :: "string \<Rightarrow> string list \<Rightarrow> config_error + unit" where
  "validation_result prefix errors =
     (if errors = [] then Inr ()
      else Inl (ProviderValidation (prefix @ '':'' @ [CHR 0x0A] @ join [CHR 0x0A] (map (\<lambda>e. ''  - '' @ e) errors))))"

definition entry_errors ::
    "(string \<Rightarrow> bool) \<Rightarrow> string list \<Rightarrow> string \<Rightarrow> string \<Rightarrow> provider_entry_v2 list \<Rightarrow> string list" where
  "entry_errors known entities chain endpoint entries =
     concat (map (\<lambda>(index, entry).
       map (\<lambda>e. ''chain \"'' @ chain_label known chain @ ''\" '' @ endpoint_label endpoint @ ''['' @ show_nat index @ ''] '' @ e)
         (validate_provider_entry entry entities)) (enumerate 0 entries))"

definition validate_provider_config ::
    "(string \<Rightarrow> bool) \<Rightarrow> providers_file_v2 \<Rightarrow> string list \<Rightarrow> config_error + unit" where
  "validate_provider_config known file entities =
     validation_result ''providers-v2.json validation failed''
       (concat (map (\<lambda>(chain, endpoints).
          concat (map (\<lambda>(endpoint, entries). entry_errors known entities chain endpoint entries) (btree endpoints)))
          (btree (pf_chains file))))"

definition entities_per_category :: "provider_entry_v2 list \<Rightarrow> entity_counts" where
  "entities_per_category entries =
     fold (\<lambda>entry out.
         if map_of out (pe_category entry) \<noteq> None then insert_entity (pe_category entry) (pe_entity entry) out else out)
       entries (map (\<lambda>c. (c, [])) PROVIDER_CATEGORIES)"

definition resolve_quorum :: "entity_counts \<Rightarrow> u64 option \<Rightarrow> string \<times> quorum \<Rightarrow> string + string \<times> quorum" where
  "resolve_quorum counts minimum req =
     (case req of
        (category, QCount n) \<Rightarrow> Inr (category, QCount n)
      | (category, QMax) \<Rightarrow>
          let actual = word_of_nat (if category = PROVIDER_CATEGORY_ANY then pool_size counts
                                    else length (entities_of counts category)) in
          if (case minimum of None \<Rightarrow> False | Some floor \<Rightarrow> actual < floor)
          then Inl (''RestrictionViolationError: category='' @ category_label category @ '', resolved='' @
                 show_nat (unat actual) @ '', minimumMaxEntities='' @ show_nat (unat (the minimum)))
          else Inr (category, QCount actual))"

definition resolve_max :: "quorum_strategy \<Rightarrow> entity_counts \<Rightarrow> u64 option \<Rightarrow> string + quorum_strategy" where
  "resolve_max strategy counts minimum =
     and_then (map_res (map_res (resolve_quorum counts minimum)) (all_of strategy)) (\<lambda>all.
     and_then (map_res (map_res (resolve_quorum counts minimum)) (one_of strategy)) (\<lambda>one.
       Inr \<lparr> all_of = all, one_of = one \<rparr>))"

definition strategy_for :: "quorum_strategy_file \<Rightarrow> string \<Rightarrow> string \<Rightarrow> quorum_strategy option" where
  "strategy_for file chain endpoint =
     (case Option.bind (map_of (sf_chains file) chain) (\<lambda>m. map_of m endpoint) of
        Some strategy \<Rightarrow> Some strategy
      | None \<Rightarrow> sf_default file)"

definition category_errors :: "string \<Rightarrow> quorum_strategy \<Rightarrow> string list" where
  "category_errors source strategy =
     concat (map (\<lambda>req. concat (map (\<lambda>(category, _).
       if category \<notin> set PROVIDER_CATEGORIES \<and> category \<noteq> PROVIDER_CATEGORY_ANY
       then [source @ '': unlisted category '' @ category_label category] else []) req))
       (all_of strategy @ one_of strategy))"

definition pool_errors ::
    "(string \<Rightarrow> bool) \<Rightarrow> quorum_strategy \<Rightarrow> u64 option \<Rightarrow> string \<Rightarrow> string \<Rightarrow> provider_entry_v2 list \<Rightarrow> string list" where
  "pool_errors known raw minimum chain endpoint entries =
     (let counts = entities_per_category entries;
          prefix = ''Chain \"'' @ chain_label known chain @ ''\" '' @ endpoint_label endpoint @ '': '' in
      case resolve_max raw counts minimum of
        Inl e \<Rightarrow> [prefix @ e @ ''.'']
      | Inr strategy \<Rightarrow>
          if is_strategy_satisfiable counts strategy then []
          else [prefix @ ''strategy not satisfiable. Strategy: '' @ strategy_diagnostic strategy @ ''.''])"

definition check_strategy_config_with_restrictions ::
    "(string \<Rightarrow> bool) \<Rightarrow> providers_file_v2 \<Rightarrow> quorum_strategy_file \<Rightarrow> u64 option \<Rightarrow> config_error + unit" where
  "check_strategy_config_with_restrictions known file strategy_file minimum =
     (case sf_default strategy_file of
        None \<Rightarrow> Inl (ProviderValidation ''quorum-strategy.json: missing required \"default\" strategy'')
      | Some fallback \<Rightarrow>
          let errors = category_errors ''default'' fallback @
                concat (map (\<lambda>(_, endpoints). concat (map (\<lambda>(_, strategy). category_errors ''chain override'' strategy) (btree endpoints)))
                  (btree (sf_chains strategy_file))) in
          if errors \<noteq> [] then validation_result ''Strategy config validation failed'' errors
          else validation_result ''Strategy config validation failed''
            (concat (map (\<lambda>(chain, endpoints).
               concat (map (\<lambda>(endpoint, entries).
                 pool_errors known (case strategy_for strategy_file chain endpoint of Some s \<Rightarrow> s | None \<Rightarrow> fallback)
                   minimum chain endpoint entries) (btree endpoints)))
               (btree (pf_chains file)))))"

definition check_strategy_config :: "(string \<Rightarrow> bool) \<Rightarrow> providers_file_v2 \<Rightarrow> quorum_strategy_file \<Rightarrow> config_error + unit" where
  "check_strategy_config known file strategy_file = check_strategy_config_with_restrictions known file strategy_file None"

section \<open>Resolved strategies and pools\<close>

definition resolve_endpoints ::
    "(string \<Rightarrow> bool) \<Rightarrow> quorum_strategy_file \<Rightarrow> u64 option \<Rightarrow> string \<Rightarrow> provider_config_v2
     \<Rightarrow> string + (string \<times> quorum_strategy) list" where
  "resolve_endpoints known raw minimum chain endpoints =
     map_ok concat (map_res (\<lambda>(endpoint, entries).
       case strategy_for raw chain endpoint of
         None \<Rightarrow> Inr []
       | Some strategy \<Rightarrow>
           map_ok (\<lambda>full. [(endpoint, full)])
             (map_err (\<lambda>e. chain_label known chain @ ''.'' @ endpoint_label endpoint @ '': '' @ e)
               (resolve_max strategy (entities_per_category entries) minimum))) (btree endpoints))"

definition precompute_resolved_strategy ::
    "(string \<Rightarrow> bool) \<Rightarrow> providers_file_v2 \<Rightarrow> quorum_strategy_file \<Rightarrow> u64 option \<Rightarrow> string + quorum_strategy_file" where
  "precompute_resolved_strategy known file raw minimum =
     and_then (case sf_default raw of None \<Rightarrow> Inr None | Some s \<Rightarrow> map_ok Some (resolve_max s [] None)) (\<lambda>fallback.
     and_then (map_res (\<lambda>(chain, endpoints). map_ok (Pair chain) (resolve_endpoints known raw minimum chain endpoints))
                 (btree (pf_chains file))) (\<lambda>chains.
       Inr \<lparr> sf_default = fallback, sf_chains = chains \<rparr>))"

definition provider_uri_of :: "provider_entry_v2 \<Rightarrow> provider_uri" where
  "provider_uri_of entry =
     (if pe_headers entry = [] then Uri (pe_uri entry) else UriWithHeaders (pe_uri entry) (pe_headers entry))"

text \<open>The pool of one chain; a chain with no \<open>rpc\<close> endpoint has none.\<close>

definition chain_pool ::
    "(string \<Rightarrow> bool) \<Rightarrow> quorum_strategy_file \<Rightarrow> string \<times> provider_config_v2 \<Rightarrow> config_error + (string \<times> provider_config) list" where
  "chain_pool known strategies p =
     (case p of (chain, endpoints) \<Rightarrow>
        (case map_of endpoints RPC_ENDPOINT_TYPE of
           None \<Rightarrow> Inr []
         | Some entries \<Rightarrow>
             let label = ''Chain \"'' @ chain_label known chain @ ''\" '' @ RPC_ENDPOINT_TYPE @ '': '' in
             and_then (ok_or (ProviderValidation (label @ ''no resolved strategy''))
                         (Option.bind (map_of (sf_chains strategies) chain) (\<lambda>m. map_of m RPC_ENDPOINT_TYPE))) (\<lambda>strategy.
             map_ok (\<lambda>config.
                 [(chain, with_sequencer config
                    (case map_of endpoints SEQUENCER_ENDPOINT_TYPE of None \<Rightarrow> [] | Some es \<Rightarrow> map provider_uri_of es))])
               (map_err (\<lambda>e. ProviderValidation (label @ e))
                 (config_new (map provider_uri_of entries)
                   (map (\<lambda>e. \<lparr> v_category = pe_category e, v_entity = pe_entity e \<rparr>) entries) strategy)))))"

definition PROVIDERS_BINDING_KEY :: string where "PROVIDERS_BINDING_KEY = ''_providersSha256''"

text \<open>\<open>digest\<close> is the hex SHA-256 of the providers file and \<open>bound_to\<close> what the strategy file says it is for.\<close>

definition is_ascii_hexdigit :: "char \<Rightarrow> bool" where
  "is_ascii_hexdigit c \<longleftrightarrow> (let n = of_char c :: nat in 48 \<le> n \<and> n \<le> 57 \<or> 65 \<le> n \<and> n \<le> 70 \<or> 97 \<le> n \<and> n \<le> 102)"

definition check_providers_binding :: "string \<Rightarrow> json option \<Rightarrow> config_error + unit" where
  "check_providers_binding digest bound_to =
     (case bound_to of
        None \<Rightarrow> Inr ()
      | Some v \<Rightarrow>
          and_then (case as_str v of
                      Some t \<Rightarrow>
                        if length t = 64 \<and> list_all is_ascii_hexdigit t then Inr t
                        else Inl (ProviderValidation (''quorum-strategy.json: `'' @ PROVIDERS_BINDING_KEY @
                               ''` must be the SHA-256 of providers-v2.json as 64 hex digits''))
                    | None \<Rightarrow> Inl (ProviderValidation (''quorum-strategy.json: `'' @ PROVIDERS_BINDING_KEY @
                               ''` must be the SHA-256 of providers-v2.json as 64 hex digits''))) (\<lambda>expected.
            if eq_ignore_ascii_case digest expected then Inr ()
            else Inl (ProviderValidation (''quorum-strategy.json: `'' @ PROVIDERS_BINDING_KEY @
                   ''` does not match providers-v2.json; the two files are from different rollouts''))))"

definition provider_configs_from_v2 ::
    "(string \<Rightarrow> bool) \<Rightarrow> providers_file_v2 \<Rightarrow> string \<Rightarrow> quorum_strategy_file \<Rightarrow> u64 option \<Rightarrow> json option
     \<Rightarrow> config_error + (string \<times> provider_config) list" where
  "provider_configs_from_v2 known providers digest strategy minimum bound_to =
     and_then (check_providers_binding digest bound_to) (\<lambda>_.
     and_then (validate_provider_config known providers (pf_entities providers)) (\<lambda>_.
     and_then (check_strategy_config_with_restrictions known providers strategy minimum) (\<lambda>_.
     and_then (map_err ProviderValidation (precompute_resolved_strategy known providers strategy minimum)) (\<lambda>strategies.
       map_ok concat (map_res (chain_pool known strategies) (pf_chains providers))))))"

section \<open>Loaded pools\<close>

lemma validation_result_ok: "validation_result prefix errors = Inr u \<longleftrightarrow> errors = []"
  by (simp add: validation_result_def)

lemma set_btree [simp]: "set (btree m) = set m"
  by (simp add: btree_def)

lemma valid_entry_category:
  "validate_provider_entry entry entities = [] \<Longrightarrow> pe_category entry \<in> set PROVIDER_CATEGORIES"
  by (auto simp: validate_provider_entry_def split: if_splits)

lemma entry_errors_none:
  assumes "entry_errors known entities chain endpoint entries = []" "entry \<in> set entries"
  shows "validate_provider_entry entry entities = []"
proof -
  obtain k where "k < length entries" "entries ! k = entry" using assms(2) by (auto simp: in_set_conv_nth)
  then have "(k, entry) \<in> set (enumerate 0 entries)" by (simp add: in_set_enumerate_eq)
  with assms(1) show ?thesis by (fastforce simp: entry_errors_def concat_eq_Nil_conv)
qed

lemma valid_file_categories:
  assumes "validate_provider_config known file entities = Inr u" "(chain, endpoints) \<in> set (pf_chains file)"
    "(endpoint, entries) \<in> set endpoints" "entry \<in> set entries"
  shows "pe_category entry \<in> set PROVIDER_CATEGORIES"
proof -
  have "entry_errors known entities chain endpoint entries = []"
    using assms(1-3) by (fastforce simp: validate_provider_config_def validation_result_ok concat_eq_Nil_conv)
  from valid_entry_category [OF entry_errors_none [OF this assms(4)]] show ?thesis .
qed

lemma chain_pool_entry:
  assumes "chain_pool known strategies (c, endpoints) = Inr pools" "(chain, config) \<in> set pools"
  obtains entries strategy base sequencer where "map_of endpoints RPC_ENDPOINT_TYPE = Some entries"
    "config_new (map provider_uri_of entries) (map (\<lambda>e. \<lparr> v_category = pe_category e, v_entity = pe_entity e \<rparr>) entries)
       strategy = Inr base"
    "config = with_sequencer base sequencer"
  using assms that
  by (auto simp: chain_pool_def Let_def res_simps with_sequencer_def split: option.splits)

lemma config_new_valid:
  assumes "config_new uris voters strategy = Inr base"
  shows "validate_config base = Inr ()" "pc_voters base = voters" "pc_uris base = uris"
  using assms by (auto simp: config_new_def Let_def res_simps)

lemma with_sequencer_valid:
  "validate_config (with_sequencer config sequencer) = validate_config config"
  "pc_voters (with_sequencer config sequencer) = pc_voters config"
  "pc_uris (with_sequencer config sequencer) = pc_uris config"
  by (simp_all add: validate_config_def with_sequencer_def)

lemma valid_config_rule:
  assumes "validate_config config = Inr ()"
  shows "\<not> met config {}" "met config {0..<length (pc_uris config)}" "length (pc_voters config) = length (pc_uris config)"
proof -
  have v: "\<not> is_strategy_satisfiable [] (pc_strategy config)"
    "is_strategy_satisfiable (voter_entities (pc_voters config)) (pc_strategy config)"
    and len: "length (pc_voters config) = length (pc_uris config)"
    using assms by (auto simp: validate_config_def split: if_splits)
  show "length (pc_voters config) = length (pc_uris config)" by (rule len)
  show "\<not> met config {}" using v(1) voters_satisfy [of "[]" "pc_strategy config"] by (simp add: met_def voter_entities_def)
  have "(\<lambda>i. vote_pair (pc_voters config ! i)) ` {i \<in> {0..<length (pc_uris config)}. i < length (pc_voters config)} =
      (\<lambda>v. (v_category v, v_entity v)) ` set (pc_voters config)"
    using len by (auto simp: vote_pair_def set_conv_nth)
  then show "met config {0..<length (pc_uris config)}" using v(2) unfolding met_def voters_satisfy by (simp only:)
qed

lemma loaded_pool:
  assumes loaded: "provider_configs_from_v2 known providers digest strategy minimum bound_to = Inr configs"
    and config: "(chain, config) \<in> set configs"
  shows "validate_config config = Inr () \<and> \<not> met config {} \<and> met config {0..<length (pc_uris config)} \<and>
    list_all (votable config) [0..<length (pc_uris config)] \<and> required_provider_quorum config chain = Inr config"
proof -
  from loaded obtain strategies pools where v: "validate_provider_config known providers (pf_entities providers) = Inr ()"
    and pools: "map_res (chain_pool known strategies) (pf_chains providers) = Inr pools" "configs = concat pools"
    by (auto simp: provider_configs_from_v2_def res_simps)
  from config pools(2) obtain pool where pool: "pool \<in> set pools" "(chain, config) \<in> set pool" by auto
  from map_res_member [OF pools(1) pool(1)] obtain c endpoints where p: "(c, endpoints) \<in> set (pf_chains providers)"
    "chain_pool known strategies (c, endpoints) = Inr pool" "(chain, config) \<in> set pool" using pool(2) by auto
  from chain_pool_entry [OF p(2,3)] obtain entries strategy base sequencer where e: "map_of endpoints RPC_ENDPOINT_TYPE = Some entries"
    "config_new (map provider_uri_of entries) (map (\<lambda>e. \<lparr> v_category = pe_category e, v_entity = pe_entity e \<rparr>) entries)
       strategy = Inr base" "config = with_sequencer base sequencer" by metis
  have valid: "validate_config config = Inr ()"
    "pc_voters config = map (\<lambda>e. \<lparr> v_category = pe_category e, v_entity = pe_entity e \<rparr>) entries"
    using config_new_valid [OF e(2)] by (simp_all add: e(3) with_sequencer_valid)
  note rule = valid_config_rule [OF valid(1)]
  have "pe_category entry \<in> set PROVIDER_CATEGORIES" if "entry \<in> set entries" for entry
    by (rule valid_file_categories [OF v p(1) map_of_SomeD [OF e(1)] that])
  then have "votable config i" if "i < length (pc_uris config)" for i
    using that valid(2) rule(3) by (simp add: votable_def)
  then show ?thesis using valid(1) rule by (simp add: list_all_iff required_provider_quorum_def)
qed

text \<open>
  C36: every pool that is loaded from a pair of files can be voted over. Its strategy has no unresolved
  \<open>max\<close>, is not met by no votes at all, and is met when all of its providers agree; every provider
  has a voter, in a known category.
\<close>

theorem loaded_pools_valid:
  assumes loaded: "provider_configs_from_v2 known providers digest strategy minimum bound_to = Inr configs"
    and config: "(chain, config) \<in> set configs"
  shows "validate_config config = Inr () \<and> \<not> met config {} \<and> met config {0..<length (pc_uris config)} \<and>
    list_all (votable config) [0..<length (pc_uris config)] \<and> required_provider_quorum config chain = Inr config"
  using loaded_pool [OF assms] .

section \<open>A sample pair of files\<close>

definition sample_file :: providers_file_v2 where
  "sample_file =
     \<lparr> pf_entities = [''a'', ''b''],
       pf_chains = [(''eth'', [(''rpc'',
         [\<lparr> pe_uri = ''u0'', pe_category = ''internal'', pe_entity = ''a'', pe_headers = [] \<rparr>])])] \<rparr>"

definition sample_strategy_file :: quorum_strategy_file where
  "sample_strategy_file = \<lparr> sf_default = Some \<lparr> all_of = [[(''internal'', QMax)]], one_of = [] \<rparr>, sf_chains = [] \<rparr>"

definition sample_resolved :: quorum_strategy where
  "sample_resolved = \<lparr> all_of = [[(''internal'', QCount 1)]], one_of = [] \<rparr>"

lemma sample_resolved_met: "strategy_met votes sample_resolved \<longleftrightarrow> (\<exists>e. (''internal'', e) \<in> votes)"
  by (simp add: strategy_met_def sample_resolved_def requirement_met_def resolved_def PROVIDER_CATEGORY_ANY_def one_slot)

lemmas category_defs = PROVIDER_CATEGORIES_def PROVIDER_CATEGORY_INTERNAL_def PROVIDER_CATEGORY_DEDICATED_EXTERNAL_def
  PROVIDER_CATEGORY_SHARED_EXTERNAL_def PROVIDER_CATEGORY_ANY_def

lemma sample_entities:
  "entities_per_category [\<lparr> pe_uri = ''u0'', pe_category = ''internal'', pe_entity = ''a'', pe_headers = [] \<rparr>] =
     [(''internal'', [''a'']), (''dedicated_external'', []), (''shared_external'', [])]"
  by (simp add: entities_per_category_def insert_entity_def entities_of_def category_defs insort_insert_key_def)

lemma sample_load:
  "\<exists>config. provider_configs_from_v2 (\<lambda>_. True) sample_file digest sample_strategy_file (Some 1) None = Inr [(''eth'', config)] \<and>
     pc_uris config = [Uri ''u0'']"
proof -
  let ?counts = "[(''internal'', [''a'']), (''dedicated_external'', []), (''shared_external'', [])]"
  have res: "resolve_max \<lparr> all_of = [[(''internal'', QMax)]], one_of = [] \<rparr> ?counts m = Inr sample_resolved"
    if "m \<in> {None, Some 1}" for m
    using that by (auto simp: resolve_max_def resolve_quorum_def sample_resolved_def category_defs entities_of_def)
  have def: "is_ok (resolve_max \<lparr> all_of = [[(''internal'', QMax)]], one_of = [] \<rparr> [] None)"
    by (simp add: resolve_max_def resolve_quorum_def category_defs)
  have sat: "is_strategy_satisfiable ?counts sample_resolved"
    using satisfiable_exact [of ?counts sample_resolved] by (simp add: sample_resolved_met votes_of_def entities_of_def)
  let ?v = "\<lparr> v_category = ''internal'', v_entity = ''a'' \<rparr>"
  have voters: "is_strategy_satisfiable (voter_entities [?v]) sample_resolved" "\<not> is_strategy_satisfiable [] sample_resolved"
    using voters_satisfy [of "[?v]"] voters_satisfy [of "[]"] by (simp_all add: sample_resolved_met voter_entities_def)
  have "\<exists>c. config_new [Uri ''u0''] [?v] sample_resolved = Inr c"
    using voters by (simp add: config_new_def validate_config_def Let_def) (simp add: sample_resolved_def)
  then obtain c where c: "config_new [Uri ''u0''] [?v] sample_resolved = Inr c" ..
  have "validate_provider_config (\<lambda>_. True) sample_file [''a'', ''b''] = Inr ()"
    by (simp add: validate_provider_config_def validation_result_ok sample_file_def entry_errors_def
        validate_provider_entry_def category_defs btree_def)
  moreover have "check_strategy_config_with_restrictions (\<lambda>_. True) sample_file sample_strategy_file (Some 1) = Inr ()"
    using res [of "Some 1"] sat
    by (simp add: check_strategy_config_with_restrictions_def sample_strategy_file_def sample_file_def category_errors_def
        category_defs btree_def validation_result_ok strategy_for_def pool_errors_def sample_entities Let_def)
  moreover have "\<exists>d. precompute_resolved_strategy (\<lambda>_. True) sample_file sample_strategy_file (Some 1) =
      Inr \<lparr> sf_default = d, sf_chains = [(''eth'', [(''rpc'', sample_resolved)])] \<rparr>"
    using res [of "Some 1"] def
    by (auto simp: precompute_resolved_strategy_def sample_strategy_file_def sample_file_def btree_def resolve_endpoints_def
        strategy_for_def sample_entities is_ok_iff)
  ultimately show ?thesis
    using c config_new_valid(3) [OF c] by (auto simp: with_sequencer_valid provider_configs_from_v2_def check_providers_binding_def sample_file_def chain_pool_def
        RPC_ENDPOINT_TYPE_def SEQUENCER_ENDPOINT_TYPE_def provider_uri_of_def Let_def)
qed

theorem loaded_pools_valid_witness:
  "\<exists>config. provider_configs_from_v2 (\<lambda>_. True) sample_file [] sample_strategy_file (Some 1) None = Inr [(''eth'', config)] \<and>
     \<not> met config {} \<and> met config {0..<length (pc_uris config)}"
proof -
  obtain config where c: "provider_configs_from_v2 (\<lambda>_. True) sample_file [] sample_strategy_file (Some 1) None = Inr [(''eth'', config)]"
    using sample_load by blast
  from loaded_pools_valid [OF c, of "''eth''" config] c show ?thesis by simp
qed

end
