(* ===== verification/Provider_Snapshot.thy ===== *)
theory Provider_Snapshot
  imports Provider_Files
begin

text \<open>
  The provider configuration now serving: \<^verbatim>\<open>pillar-runtime/src/provider_snapshot.rs\<close>, the refresh that
  replaces it (\<^verbatim>\<open>config_loader.rs\<close>), the admission gate of \<^verbatim>\<open>server_app/mod.rs\<close> and the roster check of
  \<^verbatim>\<open>pillar-config\<close>. A handle is a slot with the serving snapshot; a request pins the snapshot it started
  with. The refresh loop is the sequence of its load results. A generation counts accepted changes, one a
  minute at most, and is a natural number: its 64 bits do not overflow in the life of a process.
\<close>

section \<open>Configurations restricted to a roster\<close>

type_synonym provider_configs = "(string \<times> provider_config) list"

definition check_for_missing_chain_names :: "provider_configs \<Rightarrow> string list option \<Rightarrow> config_error + unit" where
  "check_for_missing_chain_names config required_chain_names =
     (let missing = filter (\<lambda>chain_name. im_get config chain_name = None)
                      (case required_chain_names of None \<Rightarrow> [] | Some names \<Rightarrow> names) in
      if missing = [] then Inr () else Inl (MissingChainNames (join '','' missing)))"

definition static_provider_config_new :: "provider_configs \<Rightarrow> string list option \<Rightarrow> config_error + provider_configs" where
  "static_provider_config_new config required_chain_names =
     and_then (check_for_missing_chain_names config required_chain_names) (\<lambda>_.
       Inr (case required_chain_names of
              None \<Rightarrow> config
            | Some names \<Rightarrow> filter (\<lambda>(chain_name, _). chain_name \<in> set names) config))"

definition filtered_available_chain_names :: "provider_configs \<Rightarrow> string list option \<Rightarrow> string list" where
  "filtered_available_chain_names config requested =
     filter (\<lambda>name. case requested of None \<Rightarrow> True | Some names \<Rightarrow> name \<in> set names) (map fst config)"

text \<open>The warning about requested names that selected nothing is a log line.\<close>

definition validate_operational_chains :: "provider_configs \<Rightarrow> string list \<Rightarrow> string + unit" where
  "validate_operational_chains config available_chain_names =
     (if available_chain_names = []
      then Inl (''no operational chains remain: LAYERZERO_AVAILABLE_CHAIN_NAMES selected '' @
             ''nothing present in the provider configuration'')
      else
        let errors = List.map_filter (\<lambda>chain_name.
              case im_get config chain_name of
                None \<Rightarrow> None
              | Some c \<Rightarrow> (case required_provider_quorum c chain_name of
                             Inl error \<Rightarrow> Some (show_app_core_error error) | Inr _ \<Rightarrow> None)) available_chain_names in
        if errors = [] then Inr () else Inl (join ''; '' errors))"

section \<open>Snapshots and the handle\<close>

record runtime_provider_snapshot =
  sn_generation :: nat
  sn_provider_configs :: provider_configs
  sn_available_chain_names :: "string list"

text \<open>The slot number is the address of the shared cell, which identifies the handle a pin came from.\<close>

record snapshot_handle =
  sh_slot :: nat
  sh_current :: runtime_provider_snapshot
  sh_startup_chain_names :: "string list"

type_synonym snapshot_pin = "(nat \<times> runtime_provider_snapshot) option"

record provider_candidate =
  ca_provider_configs :: provider_configs
  ca_available_chain_names :: "string list"

definition snapshot_handle_new :: "nat \<Rightarrow> provider_configs \<Rightarrow> string list \<Rightarrow> snapshot_handle" where
  "snapshot_handle_new slot configs names =
     \<lparr> sh_slot = slot,
       sh_current = \<lparr> sn_generation = 0, sn_provider_configs = configs, sn_available_chain_names = names \<rparr>,
       sh_startup_chain_names = names \<rparr>"

definition snapshot_handle_from_getter :: "nat \<Rightarrow> provider_configs \<Rightarrow> snapshot_handle" where
  "snapshot_handle_from_getter slot configs = snapshot_handle_new slot configs (map fst configs)"

definition pinned_for :: "snapshot_handle \<Rightarrow> snapshot_pin \<Rightarrow> runtime_provider_snapshot option" where
  "pinned_for handle pin =
     (case pin of
        Some (slot, snapshot) \<Rightarrow> if slot = sh_slot handle then Some snapshot else None
      | None \<Rightarrow> None)"

definition load_snapshot :: "snapshot_pin \<Rightarrow> snapshot_handle \<Rightarrow> runtime_provider_snapshot" where
  "load_snapshot pin handle = (case pinned_for handle pin of Some snapshot \<Rightarrow> snapshot | None \<Rightarrow> sh_current handle)"

definition pin_for_request :: "snapshot_handle \<Rightarrow> snapshot_pin" where
  "pin_for_request handle = Some (sh_slot handle, sh_current handle)"

text \<open>The pin of the task a refresh is moved to.\<close>

definition carry_pin :: "snapshot_handle \<Rightarrow> snapshot_pin \<Rightarrow> snapshot_pin" where
  "carry_pin handle pin = map_option (\<lambda>snapshot. (sh_slot handle, snapshot)) (pinned_for handle pin)"

definition handle_generation :: "snapshot_pin \<Rightarrow> snapshot_handle \<Rightarrow> nat" where
  "handle_generation pin handle = sn_generation (load_snapshot pin handle)"

definition available_contains :: "snapshot_pin \<Rightarrow> snapshot_handle \<Rightarrow> string \<Rightarrow> bool" where
  "available_contains pin handle chain_name = (chain_name \<in> set (sn_available_chain_names (load_snapshot pin handle)))"

definition snapshot_provider_config :: "runtime_provider_snapshot \<Rightarrow> string \<Rightarrow> provider_config res" where
  "snapshot_provider_config snapshot chain_name =
     ok_or (Internal (''No provider config for chain '' @ chain_name)) (im_get (sn_provider_configs snapshot) chain_name)"

text \<open>
  The dispatch of a chain: its configuration, the quorum rule and the plan over all its providers. The ranking
  key of a provider is computed from its parsed URL; the URL parser is another crate.
\<close>

record chain_dispatch =
  cd_config :: provider_config
  cd_quorum :: provider_config
  cd_plan :: "dispatch_entry list"

definition plan_dispatch ::
    "(string \<Rightarrow> provider_uri \<Rightarrow> string) \<Rightarrow> rank_tracker \<Rightarrow> nat \<Rightarrow> nat option \<Rightarrow> string \<Rightarrow> provider_config \<Rightarrow> dispatch_entry list res" where
  "plan_dispatch rank_key tracker now deadline chain_name config =
     plan_dispatch_for_keys tracker now deadline chain_name config
       (map (\<lambda>index. (index, rank_key chain_name (pc_uris config ! index))) [0..<length (pc_uris config)])"

definition snapshot_dispatch ::
    "(string \<Rightarrow> provider_uri \<Rightarrow> string) \<Rightarrow> rank_tracker \<Rightarrow> nat \<Rightarrow> nat option \<Rightarrow> runtime_provider_snapshot \<Rightarrow> string \<Rightarrow> chain_dispatch res" where
  "snapshot_dispatch rank_key tracker now deadline snapshot chain_name =
     and_then (snapshot_provider_config snapshot chain_name) (\<lambda>config.
     and_then (required_provider_quorum config chain_name) (\<lambda>rule.
     and_then (plan_dispatch rank_key tracker now deadline chain_name rule) (\<lambda>plan.
       Inr \<lparr> cd_config = config, cd_quorum = rule, cd_plan = plan \<rparr>)))"

definition snapshot_candidate :: "snapshot_handle \<Rightarrow> provider_configs \<Rightarrow> provider_candidate" where
  "snapshot_candidate handle configs =
     (let kept = filter (\<lambda>(chain_name, _). chain_name \<in> set (sh_startup_chain_names handle)) configs in
      \<lparr> ca_provider_configs = kept,
        ca_available_chain_names =
          filter (\<lambda>chain_name. im_get kept chain_name \<noteq> None) (sh_startup_chain_names handle) \<rparr>)"

text \<open>Equality of two \<open>IndexMap\<close>s does not depend on the order of their entries.\<close>

definition index_map_eq :: "(string \<times> 'a) list \<Rightarrow> (string \<times> 'a) list \<Rightarrow> bool" where
  "index_map_eq a b \<longleftrightarrow> length a = length b \<and> list_all (\<lambda>(k, v). im_get b k = Some v) a"

definition publish_candidate :: "snapshot_handle \<Rightarrow> provider_candidate \<Rightarrow> runtime_provider_snapshot \<times> snapshot_handle" where
  "publish_candidate handle candidate =
     (let current = sh_current handle in
      if index_map_eq (sn_provider_configs current) (ca_provider_configs candidate) \<and>
         sn_available_chain_names current = ca_available_chain_names candidate
      then (current, handle)
      else
        let next = \<lparr> sn_generation = sn_generation current + 1, sn_provider_configs = ca_provider_configs candidate,
                     sn_available_chain_names = ca_available_chain_names candidate \<rparr> in
        (next, handle\<lparr>sh_current := next\<rparr>))"

section \<open>The refresh\<close>

definition accept_refreshed_snapshot :: "provider_candidate \<Rightarrow> string + unit" where
  "accept_refreshed_snapshot candidate =
     validate_operational_chains (ca_provider_configs candidate) (ca_available_chain_names candidate)"

text \<open>What a refresh records: its label, the number of weakened chains and the chains warned about.\<close>

record refresh_record =
  rr_result :: string
  rr_single_entity_chains :: "nat option"
  rr_warned :: "string list"

definition weakened_chains :: "provider_configs \<Rightarrow> string list \<Rightarrow> string list" where
  "weakened_chains configs names =
     filter (\<lambda>chain. case im_get configs chain of Some config \<Rightarrow> single_entity_trust_root config | None \<Rightarrow> False) names"

definition apply_refreshed_snapshot ::
    "snapshot_handle \<Rightarrow> string + provider_configs \<Rightarrow> refresh_record \<times> snapshot_handle" where
  "apply_refreshed_snapshot handle result =
     (case result of
        Inr configs \<Rightarrow>
          (let candidate = snapshot_candidate handle configs in
           case accept_refreshed_snapshot candidate of
             Inr _ \<Rightarrow>
               (let previous = load_snapshot None handle;
                    weakened = weakened_chains (ca_provider_configs candidate) (ca_available_chain_names candidate);
                    before = weakened_chains (sn_provider_configs previous) (sn_available_chain_names previous) in
                (\<lparr> rr_result = ''ok'', rr_single_entity_chains = Some (length weakened),
                   rr_warned = (if weakened \<noteq> before then weakened else []) \<rparr>,
                 snd (publish_candidate handle candidate)))
           | Inl _ \<Rightarrow> (\<lparr> rr_result = ''rejected'', rr_single_entity_chains = None, rr_warned = [] \<rparr>, handle))
      | Inl _ \<Rightarrow> (\<lparr> rr_result = ''error'', rr_single_entity_chains = None, rr_warned = [] \<rparr>, handle))"

fun show_config_error :: "config_error \<Rightarrow> string" where
  "show_config_error (ProviderValidation s) = s"
| "show_config_error (ConfigJson s) = s"
| "show_config_error (MissingChainNames names) = ''missing config for required chainNames: ['' @ names @ '']''"

text \<open>
  One iteration of the refresh loop: the two files are fetched, with a timeout, parsed and resolved, which gives
  \<open>fetched\<close>; the result is restricted to the required chains and applied.
\<close>

definition load_remote_snapshot :: "string + provider_configs \<Rightarrow> string list option \<Rightarrow> string + provider_configs" where
  "load_remote_snapshot fetched required_chain_names =
     and_then fetched (\<lambda>configs. map_err show_config_error (static_provider_config_new configs required_chain_names))"

definition refresh_once :: "string list option \<Rightarrow> snapshot_handle \<Rightarrow> string + provider_configs \<Rightarrow> snapshot_handle" where
  "refresh_once required handle fetched = snd (apply_refreshed_snapshot handle (load_remote_snapshot fetched required))"

fun refresh_loop :: "string list option \<Rightarrow> snapshot_handle \<Rightarrow> (string + provider_configs) list \<Rightarrow> snapshot_handle" where
  "refresh_loop required handle [] = handle"
| "refresh_loop required handle (fetched # rest) = refresh_loop required (refresh_once required handle fetched) rest"

definition serving_provider_snapshot :: "nat \<Rightarrow> provider_configs \<Rightarrow> string list \<Rightarrow> string + snapshot_handle" where
  "serving_provider_snapshot slot configs available_chain_names =
     and_then (validate_operational_chains configs available_chain_names) (\<lambda>_.
       Inr (snapshot_handle_new slot configs available_chain_names))"

text \<open>A probe seeds the ranks only if the configuration it probed is still serving.\<close>

definition seed_provider_rank_if_current ::
    "snapshot_pin \<Rightarrow> snapshot_handle \<Rightarrow> nat \<Rightarrow> nat \<Rightarrow> (string \<times> provider_health_entry list) list \<Rightarrow> rank_tracker \<Rightarrow> rank_tracker" where
  "seed_provider_rank_if_current pin handle probed_generation now report tracker =
     (if handle_generation pin handle \<noteq> probed_generation then tracker else seed_from_report now report tracker)"

section \<open>A slot with a generation\<close>

text \<open>
  What a reader of a published slot relies on: the generation never decreases, and a generation that has not
  moved stands for the same content.
\<close>

locale generation_slot =
  fixes gen :: "'h \<Rightarrow> nat" and content :: "'h \<Rightarrow> 'c" and moves :: "'h \<Rightarrow> 'h \<Rightarrow> bool"
  assumes grows: "moves h h' \<Longrightarrow> gen h \<le> gen h'"
    and unmoved: "moves h h' \<Longrightarrow> gen h' = gen h \<Longrightarrow> content h' = content h"
begin

lemma later_grows: "moves\<^sup>*\<^sup>* h h' \<Longrightarrow> gen h \<le> gen h'"
  by (induction rule: rtranclp_induct) (auto dest: grows)

lemma same_generation:
  assumes "moves\<^sup>*\<^sup>* h h'" "gen h' = gen h"
  shows "content h' = content h"
  using assms
proof (induction rule: rtranclp_induct)
  case base
  show ?case ..
next
  case (step y z)
  have "gen h \<le> gen y" "gen y \<le> gen z" using step.hyps later_grows grows by blast+
  with step show ?case using unmoved [of y z] by simp
qed

lemma between:
  assumes "moves\<^sup>*\<^sup>* h m" "moves\<^sup>*\<^sup>* m h'" "gen h' = gen h"
  shows "gen m = gen h" "content m = content h"
proof -
  show "gen m = gen h" using later_grows [OF assms(1)] later_grows [OF assms(2)] assms(3) by simp
  then show "content m = content h" by (rule same_generation [OF assms(1)])
qed

end

definition refreshes :: "snapshot_handle \<Rightarrow> snapshot_handle \<Rightarrow> bool" where
  "refreshes h h' \<longleftrightarrow> (\<exists>result. h' = snd (apply_refreshed_snapshot h result))"

lemma refreshed_cases:
  obtains (kept) "snd (apply_refreshed_snapshot h result) = h"
  | (published) configs where "result = Inr configs" "accept_refreshed_snapshot (snapshot_candidate h configs) = Inr ()"
      "snd (apply_refreshed_snapshot h result) =
         h\<lparr>sh_current := \<lparr> sn_generation = sn_generation (sh_current h) + 1,
            sn_provider_configs = ca_provider_configs (snapshot_candidate h configs),
            sn_available_chain_names = ca_available_chain_names (snapshot_candidate h configs) \<rparr>\<rparr>"
proof (cases "\<exists>configs. result = Inr configs \<and> accept_refreshed_snapshot (snapshot_candidate h configs) = Inr ()")
  case True
  then obtain configs where c: "result = Inr configs" "accept_refreshed_snapshot (snapshot_candidate h configs) = Inr ()"
    by blast
  then have "snd (apply_refreshed_snapshot h result) = snd (publish_candidate h (snapshot_candidate h configs))"
    by (simp add: apply_refreshed_snapshot_def Let_def)
  then show ?thesis
    using c that by (auto simp: publish_candidate_def Let_def split: if_splits)
next
  case False
  then show ?thesis
    using that(1) by (auto simp: apply_refreshed_snapshot_def Let_def split: sum.splits)
qed

interpretation slot: generation_slot "\<lambda>h. sn_generation (sh_current h)" sh_current refreshes
proof
  fix h h' assume "refreshes h h'"
  then obtain result where h': "h' = snd (apply_refreshed_snapshot h result)" by (auto simp: refreshes_def)
  show "sn_generation (sh_current h) \<le> sn_generation (sh_current h')"
    unfolding h' by (rule refreshed_cases [of h result]) simp_all
  assume g: "sn_generation (sh_current h') = sn_generation (sh_current h)"
  show "sh_current h' = sh_current h"
    by (rule refreshed_cases [of h result]) (use g in \<open>simp_all add: h'\<close>)
qed

lemma refresh_once_refreshes: "refreshes h (refresh_once required h fetched)"
  by (auto simp: refreshes_def refresh_once_def)

lemma refresh_loop_append:
  "refresh_loop required h (xs @ ys) = refresh_loop required (refresh_loop required h xs) ys"
  by (induction required h xs rule: refresh_loop.induct) simp_all

lemma refresh_loop_refreshes: "refreshes\<^sup>*\<^sup>* h (refresh_loop required h results)"
  by (induction required h results rule: refresh_loop.induct)
    (auto intro: converse_rtranclp_into_rtranclp refresh_once_refreshes)

lemma refreshes_fixed: "refreshes h h' \<Longrightarrow> sh_slot h' = sh_slot h \<and> sh_startup_chain_names h' = sh_startup_chain_names h"
proof -
  assume "refreshes h h'"
  then obtain result where h': "h' = snd (apply_refreshed_snapshot h result)" by (auto simp: refreshes_def)
  show ?thesis unfolding h' by (rule refreshed_cases [of h result]) simp_all
qed

section \<open>The roster\<close>

definition operational :: "provider_configs \<Rightarrow> string list \<Rightarrow> bool" where
  "operational configs names \<longleftrightarrow> names \<noteq> [] \<and>
     (\<forall>chain \<in> set names. \<exists>config. im_get configs chain = Some config \<and> validate_config config = Inr ())"

lemma map_filter_empty: "List.map_filter f xs = [] \<longleftrightarrow> (\<forall>x \<in> set xs. f x = None)"
  by (auto simp: List.map_filter_def filter_empty_conv)

lemma validated_operational:
  assumes "validate_operational_chains configs names = Inr u" "\<forall>chain \<in> set names. im_get configs chain \<noteq> None"
  shows "operational configs names"
  unfolding operational_def
proof (intro conjI ballI)
  show "names \<noteq> []" using assms(1) by (auto simp: validate_operational_chains_def)
  fix chain assume chain: "chain \<in> set names"
  with assms(2) obtain config where c: "im_get configs chain = Some config" by blast
  have "is_ok (required_provider_quorum config chain)"
    using assms(1) chain c
    by (auto simp: validate_operational_chains_def Let_def map_filter_empty is_ok_iff split: if_splits sum.splits)
  then have "validate_config config = Inr ()" by (auto simp: required_provider_quorum_def is_ok_iff res_simps)
  with c show "\<exists>config. im_get configs chain = Some config \<and> validate_config config = Inr ()" by blast
qed

text \<open>What holds of the serving snapshot after any number of refreshes.\<close>

definition roster_inv :: "snapshot_handle \<Rightarrow> bool" where
  "roster_inv h \<longleftrightarrow>
     (let s = sh_current h in
      fst ` set (sn_provider_configs s) = set (sn_available_chain_names s) \<and>
      sn_available_chain_names s =
        filter (\<lambda>chain. im_get (sn_provider_configs s) chain \<noteq> None) (sh_startup_chain_names h) \<and>
      operational (sn_provider_configs s) (sn_available_chain_names s))"

lemma im_get_keys: "im_get m k \<noteq> None \<longleftrightarrow> k \<in> fst ` set m"
  by (induction m) auto

lemma im_get_filter: "im_get (filter (\<lambda>(k, _). k \<in> S) m) c = (if c \<in> S then im_get m c else None)"
  by (induction m) auto

lemma candidate_keys:
  "fst ` set (ca_provider_configs (snapshot_candidate h configs)) = set (ca_available_chain_names (snapshot_candidate h configs))"
  "ca_available_chain_names (snapshot_candidate h configs) =
     filter (\<lambda>chain. im_get (ca_provider_configs (snapshot_candidate h configs)) chain \<noteq> None) (sh_startup_chain_names h)"
  unfolding snapshot_candidate_def Let_def im_get_keys by (force simp: image_iff)+

lemma refresh_roster:
  assumes "roster_inv h" "refreshes h h'"
  shows "roster_inv h'"
proof -
  obtain result where h': "h' = snd (apply_refreshed_snapshot h result)" using assms(2) by (auto simp: refreshes_def)
  show ?thesis
  proof (cases rule: refreshed_cases [of h result, case_names kept published])
    case kept
    with assms(1) show ?thesis by (simp add: h')
  next
    case (published configs)
    let ?c = "snapshot_candidate h configs"
    have "\<forall>chain \<in> set (ca_available_chain_names ?c). im_get (ca_provider_configs ?c) chain \<noteq> None"
      unfolding im_get_keys candidate_keys(1) by blast
    with published(2) have "operational (ca_provider_configs ?c) (ca_available_chain_names ?c)"
      unfolding accept_refreshed_snapshot_def by (rule validated_operational)
    then show ?thesis
      unfolding h' published(3) roster_inv_def Let_def using candidate_keys [of h configs] by simp
  qed
qed

lemma loop_roster: "roster_inv h \<Longrightarrow> roster_inv (refresh_loop required h results)"
  by (induction required h results rule: refresh_loop.induct) (auto intro: refresh_roster refresh_once_refreshes)

lemma static_config_keys:
  assumes "static_provider_config_new raw required = Inr configs"
  shows "filtered_available_chain_names configs required = map fst configs"
    "required = Some names \<Longrightarrow> fst ` set configs = set names"
proof -
  show "filtered_available_chain_names configs required = map fst configs"
    using assms by (cases required)
      (auto simp: static_provider_config_new_def filtered_available_chain_names_def res_simps filter_id_conv)
  assume r: "required = Some names"
  then have "\<forall>c \<in> set names. im_get raw c \<noteq> None" "configs = filter (\<lambda>(c, _). c \<in> set names) raw"
    using assms by (auto simp: static_provider_config_new_def check_for_missing_chain_names_def Let_def
        filter_empty_conv res_simps split: if_splits)
  then show "fst ` set configs = set names" unfolding im_get_keys by (force simp: image_iff)
qed

lemma startup_roster:
  assumes "static_provider_config_new raw required = Inr configs"
    "serving_provider_snapshot slot configs (filtered_available_chain_names configs required) = Inr h"
  shows "roster_inv h" "sh_startup_chain_names h = map fst configs" "sh_current h =
    \<lparr> sn_generation = 0, sn_provider_configs = configs, sn_available_chain_names = map fst configs \<rparr>"
proof -
  note keys = static_config_keys(1) [OF assms(1)]
  have v: "validate_operational_chains configs (map fst configs) = Inr ()"
    and h: "h = snapshot_handle_new slot configs (map fst configs)"
    using assms(2) by (auto simp: serving_provider_snapshot_def keys res_simps)
  have present: "\<forall>chain \<in> set (map fst configs). im_get configs chain \<noteq> None" unfolding im_get_keys by simp
  then have id: "filter (\<lambda>chain. im_get configs chain \<noteq> None) (map fst configs) = map fst configs"
    by (simp only: filter_id_conv)
  show "roster_inv h"
    using validated_operational [OF v present] id by (simp add: h roster_inv_def snapshot_handle_new_def Let_def)
  show "sh_startup_chain_names h = map fst configs" "sh_current h =
    \<lparr> sn_generation = 0, sn_provider_configs = configs, sn_available_chain_names = map fst configs \<rparr>"
    by (simp_all add: h snapshot_handle_new_def)
qed


lemma required_refresh:
  assumes "roster_inv h" "static_provider_config_new raw (Some names) = Inr configs" "set (sh_startup_chain_names h) \<subseteq> set names"
  shows "ca_available_chain_names (snapshot_candidate h configs) = sh_startup_chain_names h"
proof -
  have "\<forall>c \<in> set (sh_startup_chain_names h). im_get configs c \<noteq> None"
    unfolding im_get_keys static_config_keys(2) [OF assms(2) refl] using assms(3) by blast
  then show ?thesis
    by (simp add: snapshot_candidate_def Let_def im_get_filter filter_id_conv)
qed

lemma required_loop:
  assumes "roster_inv h" "sn_available_chain_names (sh_current h) = sh_startup_chain_names h"
    "set (sh_startup_chain_names h) \<subseteq> set names"
  shows "sn_available_chain_names (sh_current (refresh_loop (Some names) h results)) = sh_startup_chain_names h"
  using assms
proof (induction results arbitrary: h)
  case Nil
  then show ?case by simp
next
  case (Cons fetched results)
  let ?h = "refresh_once (Some names) h fetched"
  note fixed = refreshes_fixed [OF refresh_once_refreshes [of h "Some names" fetched]]
  have "sn_available_chain_names (sh_current ?h) = sh_startup_chain_names h"
    unfolding refresh_once_def
    by (rule refreshed_cases [of h "load_remote_snapshot fetched (Some names)"])
      (use Cons.prems in \<open>auto simp: load_remote_snapshot_def res_simps required_refresh\<close>)
  then show ?case
    using Cons.IH [of ?h] Cons.prems fixed refresh_roster [OF Cons.prems(1) refresh_once_refreshes] by simp
qed

lemma loop_startup: "sh_startup_chain_names (refresh_loop required h results) = sh_startup_chain_names h"
  by (induction required h results rule: refresh_loop.induct) (simp_all add: refreshes_fixed [OF refresh_once_refreshes])

lemma unranked_dispatch:
  assumes "im_get (sn_provider_configs s) chain = Some config" "validate_config config = Inr ()"
  shows "\<exists>plan. snapshot_dispatch rank_key Map.empty now deadline s chain =
    Inr \<lparr> cd_config = config, cd_quorum = config, cd_plan = plan \<rparr>"
proof -
  let ?n = "length (pc_uris config)"
  let ?keyed = "map (\<lambda>index. (index, rank_key chain (pc_uris config ! index))) [0..<?n]"
  let ?ranked = "sort_key (\<lambda>(_, rank). rank_index rank) (map (\<lambda>(index, key). (index, rank_of Map.empty now chain key)) ?keyed)"
  have ranks: "\<forall>p \<in> set ?ranked. snd p = Normal" by (auto simp: rank_of_def)
  then have "filter (\<lambda>(_, rank). rank \<noteq> Unhealthy) ?ranked = ?ranked" by (intro filter_True) fastforce
  moreover have "set (map fst ?ranked) = {0..<?n}" by (force simp: image_iff)
  then have "is_met_by config (map fst ?ranked)"
    using valid_config_rule(2) [OF assms(2)] by (simp only: is_met_by_met)
  ultimately have "\<exists>plan. plan_dispatch rank_key Map.empty now deadline chain config = Inr plan"
    by (simp add: plan_dispatch_def plan_dispatch_for_keys_def Let_def del: filter_sort set_sort)
  with assms show ?thesis
    by (auto simp: snapshot_dispatch_def snapshot_provider_config_def required_provider_quorum_def res_simps)
qed

section \<open>Properties\<close>

text \<open>
  C12: a refresh cannot take the process outside what it was assembled for. Start from a validated
  configuration and let the refresh loop see any sequence of load results. The serving snapshot then configures
  exactly the chains it advertises, which are startup chains in startup order and at least one; every one
  of them has a valid pool, and an unranked dispatch of it succeeds with a quorum rule and a plan of one
  configuration. If a roster is required, the advertised chains never change.
\<close>

theorem refreshes_keep_roster:
  assumes loaded: "static_provider_config_new raw required = Inr configs"
    and started: "serving_provider_snapshot slot configs (filtered_available_chain_names configs required) = Inr h"
  shows "case sh_current (refresh_loop required h results) of s \<Rightarrow>
    fst ` set (sn_provider_configs s) = set (sn_available_chain_names s) \<and>
    sn_available_chain_names s = filter (\<lambda>c. c \<in> set (sn_available_chain_names s)) (map fst configs) \<and>
    sn_available_chain_names s \<noteq> [] \<and>
    (\<forall>chain \<in> set (sn_available_chain_names s). \<exists>config plan. im_get (sn_provider_configs s) chain = Some config \<and>
       validate_config config = Inr () \<and>
       snapshot_dispatch rank_key Map.empty now deadline s chain =
         Inr \<lparr> cd_config = config, cd_quorum = config, cd_plan = plan \<rparr>) \<and>
    (required \<noteq> None \<longrightarrow> sn_available_chain_names s = map fst configs)"
proof -
  note start = startup_roster [OF assms]
  let ?h = "refresh_loop required h results"
  have inv: "roster_inv ?h" by (rule loop_roster [OF start(1)])
  let ?s = "sh_current ?h"
  have keys: "fst ` set (sn_provider_configs ?s) = set (sn_available_chain_names ?s)"
    and names: "sn_available_chain_names ?s = filter (\<lambda>c. im_get (sn_provider_configs ?s) c \<noteq> None) (map fst configs)"
    and op: "operational (sn_provider_configs ?s) (sn_available_chain_names ?s)"
    using inv unfolding roster_inv_def Let_def loop_startup start(2) by blast+
  have "sn_available_chain_names ?s = filter (\<lambda>c. c \<in> set (sn_available_chain_names ?s)) (map fst configs)"
    using names unfolding im_get_keys keys .
  moreover have "sn_available_chain_names ?s = map fst configs" if "required = Some names" for names
  proof -
    have "set (sh_startup_chain_names h) \<subseteq> set names" using static_config_keys(2) [OF loaded that] start(2) by simp
    then show ?thesis using required_loop [of h names results] start that by simp
  qed
  ultimately show ?thesis
    using keys op unranked_dispatch unfolding operational_def by (metis option.exhaust)
qed


theorem refreshes_keep_roster_witness:
  "\<exists>config h. serving_provider_snapshot 0 [(''eth'', config)] [''eth''] = Inr h \<and>
     sn_available_chain_names (sh_current (refresh_loop (Some [''eth'']) h [Inl ''timeout'', Inr []])) = [''eth'']"
proof -
  obtain config where c: "provider_configs_from_v2 (\<lambda>_. True) sample_file [] sample_strategy_file (Some 1) None = Inr [(''eth'', config)]"
    using sample_load by blast
  have "required_provider_quorum config ''eth'' = Inr config" using loaded_pool [OF c, of "''eth''" config] by simp
  then have v: "validate_operational_chains [(''eth'', config)] [''eth''] = Inr ()"
    by (simp add: validate_operational_chains_def List.map_filter_def)
  have l: "static_provider_config_new [(''eth'', config)] (Some [''eth'']) = Inr [(''eth'', config)]"
    by (simp add: static_provider_config_new_def check_for_missing_chain_names_def)
  have f: "filtered_available_chain_names [(''eth'', config)] (Some [''eth'']) = [''eth'']"
    by (simp add: filtered_available_chain_names_def)
  let ?h = "snapshot_handle_new 0 [(''eth'', config)] [''eth'']"
  have s: "serving_provider_snapshot 0 [(''eth'', config)] (filtered_available_chain_names [(''eth'', config)] (Some [''eth''])) =
      Inr ?h" by (simp add: serving_provider_snapshot_def f v)
  have "sn_available_chain_names (sh_current (refresh_loop (Some [''eth'']) ?h [Inl ''timeout'', Inr []])) = [''eth'']"
    using refreshes_keep_roster [OF l s, of "[Inl ''timeout'', Inr []]"] by (simp del: refresh_loop.simps)
  with s show ?thesis unfolding f by blast
qed

end
