(* ===== verification/Health_Cache.thy ===== *)
theory Health_Cache
  imports Provider_Snapshot
begin

text \<open>
  The cache of provider health, \<^verbatim>\<open>pillar-core/src/provider_health_cache.rs\<close>, over the provider snapshot handle
  it is instantiated with (\<^verbatim>\<open>provider_health/source.rs\<close>), and the readiness verdict computed from it
  (\<^verbatim>\<open>server_app/server_trait.rs\<close>). Readers and the refresh task run on several threads: a step is one read
  or write of shared state (the clock, the configuration, the cached value, the refresh lock), and steps
  of readers, the task, configuration refreshes, clock changes in either direction, failing tasks and readers
  that go away interleave freely. The refresh lock is held by at most one task and is free when there is none.
\<close>

section \<open>Values and ages\<close>

type_synonym provider_health_snapshot = "(string \<times> bool) list"

definition PROVIDER_HEALTH_CACHE_TTL_MS :: nat where
  "PROVIDER_HEALTH_CACHE_TTL_MS = 15000"

definition PROBE_GENERATION_ATTEMPTS :: nat where
  "PROBE_GENERATION_ATTEMPTS = 3"

definition PROVIDER_HEALTH_CACHE_STALE_ALLOWANCE_MS :: nat where
  "PROVIDER_HEALTH_CACHE_STALE_ALLOWANCE_MS = 105000"

definition PROVIDER_HEALTH_CACHE_STALE_MS :: nat where
  "PROVIDER_HEALTH_CACHE_STALE_MS = PROVIDER_HEALTH_CACHE_TTL_MS + PROVIDER_HEALTH_CACHE_STALE_ALLOWANCE_MS"

definition U64_MAX :: nat where
  "U64_MAX = 2 ^ 64 - 1"

text \<open>A clock that stepped backwards has no known age.\<close>

definition elapsed_ms :: "nat \<Rightarrow> nat \<Rightarrow> nat" where
  "elapsed_ms now earlier = (if earlier \<le> now then now - earlier else U64_MAX)"

record cached_health =
  ch_value :: provider_health_snapshot
  ch_checked_at :: nat
  ch_generation :: nat

definition fresh_enough_for :: "cached_health option \<Rightarrow> nat \<Rightarrow> cached_health option" where
  "fresh_enough_for state generation =
     (case state of Some cached \<Rightarrow> if ch_generation cached = generation then Some cached else None | None \<Rightarrow> None)"

text \<open>
  An answer is the value that is returned; the record also keeps the configuration it is labelled with, when it
  was checked and the clock reading that accepted its age, which the code has in local variables.
\<close>

record health_answer =
  an_value :: provider_health_snapshot
  an_generation :: nat
  an_checked_at :: nat
  an_read_at :: nat

definition answer_cached :: "nat \<Rightarrow> cached_health \<Rightarrow> health_answer" where
  "answer_cached now cached =
     \<lparr> an_value = ch_value cached, an_generation = ch_generation cached, an_checked_at = ch_checked_at cached, an_read_at = now \<rparr>"

type_synonym health_result = "string + health_answer"

section \<open>States\<close>

text \<open>
  The places of \<open>refresh_with_guard\<close>, with its local variables: the attempts left, the generation read
  before the probe, the generation of the snapshot the probe loaded, the outcome of the probe.
\<close>

datatype refresh_pc =
    Begin nat
  | FreshLookup nat nat
  | FreshCheck nat nat "cached_health option"
  | ProbeLoad nat nat
  | Probing nat nat nat
  | Compare nat nat "string + provider_health_snapshot"
  | PublishStamp nat provider_health_snapshot
  | PublishStore nat provider_health_snapshot nat
  | CoverLookup nat string
  | CoverCheck string "cached_health option"
  | Finish health_result

text \<open>The places of \<open>read\<close>.\<close>

datatype reader_pc =
    ReadClock
  | ReadState nat
  | ReadFilter nat "cached_health option"
  | ReadDecide nat "cached_health option"
  | ReadLock
  | ReadAwait
  | ReadDone health_result

text \<open>
  A task runs under the pin it was given and may have a reader waiting for it. \<open>tk_from\<close> and \<open>rd_from\<close> record
  the generation seen when the task was spawned and when the read began.
\<close>

record refresh_task =
  tk_pin :: snapshot_pin
  tk_pc :: refresh_pc
  tk_reader :: "nat option"
  tk_from :: nat

record cache_reader =
  rd_pin :: snapshot_pin
  rd_pc :: reader_pc
  rd_from :: nat

text \<open>\<open>hw_observed\<close> lists the reports that probes returned, with the generation of the snapshot they probed.\<close>

record health_world =
  hw_handle :: snapshot_handle
  hw_clock :: nat
  hw_state :: "cached_health option"
  hw_task :: "refresh_task option"
  hw_readers :: "nat \<rightharpoonup> cache_reader"
  hw_observed :: "(provider_health_snapshot \<times> nat) list"
  hw_warmed :: "(provider_health_snapshot \<times> nat) list"

definition configuration_generation :: "snapshot_pin \<Rightarrow> health_world \<Rightarrow> nat" where
  "configuration_generation pin w = handle_generation pin (hw_handle w)"

section \<open>Operations\<close>

definition cache_new :: "snapshot_handle \<Rightarrow> nat \<Rightarrow> health_world" where
  "cache_new handle clock =
     \<lparr> hw_handle = handle, hw_clock = clock, hw_state = None, hw_task = None, hw_readers = Map.empty,
       hw_observed = [], hw_warmed = [] \<rparr>"

text \<open>\<open>warm\<close> reads the clock, then waits for the lock of the state and stores; \<open>now\<close> is the clock as it was read.\<close>

definition warm :: "provider_health_snapshot \<Rightarrow> nat \<Rightarrow> nat \<Rightarrow> health_world \<Rightarrow> health_world" where
  "warm report generation now w =
     w\<lparr>hw_state := Some \<lparr> ch_value = report, ch_checked_at = now, ch_generation = generation \<rparr>,
       hw_warmed := (report, generation) # hw_warmed w\<rparr>"

definition spawn_refresh :: "snapshot_pin \<Rightarrow> nat option \<Rightarrow> health_world \<Rightarrow> health_world" where
  "spawn_refresh pin reader w =
     w\<lparr>hw_task := Some \<lparr> tk_pin = pin, tk_pc = Begin PROBE_GENERATION_ATTEMPTS, tk_reader = reader,
                        tk_from = configuration_generation pin w \<rparr>\<rparr>"

definition set_reader :: "nat \<Rightarrow> reader_pc \<Rightarrow> health_world \<Rightarrow> health_world" where
  "set_reader i pc w = w\<lparr>hw_readers := (hw_readers w)(i := map_option (rd_pc_update (\<lambda>_. pc)) (hw_readers w i))\<rparr>"

text \<open>
  One step of \<open>read\<close>. A stale value is returned at once, and starts a refresh without the caller's pin if the
  lock is free; a caller without a usable value waits for the lock and then for its own refresh, which runs
  under the caller's pin.
\<close>

definition read_step :: "nat \<Rightarrow> cache_reader \<Rightarrow> health_world \<Rightarrow> health_world option" where
  "read_step i rd w =
     (case rd_pc rd of
        ReadClock \<Rightarrow> Some (set_reader i (ReadState (hw_clock w)) w)
      | ReadState now \<Rightarrow> Some (set_reader i (ReadFilter now (hw_state w)) w)
      | ReadFilter now cached \<Rightarrow>
          Some (set_reader i (ReadDecide now (fresh_enough_for cached (configuration_generation (rd_pin rd) w))) w)
      | ReadDecide now None \<Rightarrow> Some (set_reader i ReadLock w)
      | ReadDecide now (Some cached) \<Rightarrow>
          (let age = elapsed_ms now (ch_checked_at cached) in
           if age \<le> PROVIDER_HEALTH_CACHE_TTL_MS then Some (set_reader i (ReadDone (Inr (answer_cached now cached))) w)
           else if age \<le> PROVIDER_HEALTH_CACHE_STALE_MS
           then Some (set_reader i (ReadDone (Inr (answer_cached now cached)))
                  (if hw_task w = None then spawn_refresh None None w else w))
           else Some (set_reader i ReadLock w))
      | ReadLock \<Rightarrow>
          if hw_task w = None
          then Some (set_reader i ReadAwait (spawn_refresh (carry_pin (hw_handle w) (rd_pin rd)) (Some i) w))
          else None
      | ReadAwait \<Rightarrow> None
      | ReadDone _ \<Rightarrow> None)"

definition replaced_under_every_probe :: string where
  "replaced_under_every_probe =
     ''provider health could not be observed: the provider configuration was replaced under every probe''"

definition goto :: "refresh_task \<Rightarrow> refresh_pc \<Rightarrow> health_world \<Rightarrow> health_world" where
  "goto t pc w = w\<lparr>hw_task := Some (t\<lparr>tk_pc := pc\<rparr>)\<rparr>"

text \<open>The end of the task releases the lock; a reader that still waits for it is given its result.\<close>

definition finish_task :: "refresh_task \<Rightarrow> health_result \<Rightarrow> health_world \<Rightarrow> health_world" where
  "finish_task t result w =
     (let released = w\<lparr>hw_task := None\<rparr> in
      case tk_reader t of
        None \<Rightarrow> released
      | Some i \<Rightarrow> (case hw_readers w i of
                     Some rd \<Rightarrow> if rd_pc rd = ReadAwait then set_reader i (ReadDone result) released else released
                   | None \<Rightarrow> released))"

text \<open>One step of \<open>refresh_with_guard\<close>; \<open>probe\<close> is what the probe returns when it is the one that ends.\<close>

definition refresh_step :: "string + provider_health_snapshot \<Rightarrow> refresh_task \<Rightarrow> health_world \<Rightarrow> health_world" where
  "refresh_step probe t w =
     (case tk_pc t of
        Begin n \<Rightarrow>
          (case n of
             0 \<Rightarrow> goto t (Finish (Inl replaced_under_every_probe)) w
           | Suc left \<Rightarrow> goto t (FreshLookup left (configuration_generation (tk_pin t) w)) w)
      | FreshLookup n g \<Rightarrow> goto t (FreshCheck n g (fresh_enough_for (hw_state w) g)) w
      | FreshCheck n g cached \<Rightarrow>
          (case cached of
             Some c \<Rightarrow> if elapsed_ms (hw_clock w) (ch_checked_at c) \<le> PROVIDER_HEALTH_CACHE_TTL_MS
                       then goto t (Finish (Inr (answer_cached (hw_clock w) c))) w
                       else goto t (ProbeLoad n g) w
           | None \<Rightarrow> goto t (ProbeLoad n g) w)
      | ProbeLoad n g \<Rightarrow> goto t (Probing n g (configuration_generation (tk_pin t) w)) w
      | Probing n g s \<Rightarrow>
          (goto t (Compare n g probe) w)\<lparr>hw_observed :=
             (case probe of Inr report \<Rightarrow> (report, s) # hw_observed w | Inl _ \<Rightarrow> hw_observed w)\<rparr>
      | Compare n g outcome \<Rightarrow>
          if configuration_generation (tk_pin t) w \<noteq> g then goto t (Begin n) w
          else (case outcome of
                  Inr report \<Rightarrow> goto t (PublishStamp g report) w
                | Inl e \<Rightarrow> goto t (CoverLookup g e) w)
      | PublishStamp g report \<Rightarrow> goto t (PublishStore g report (hw_clock w)) w
      | PublishStore g report at \<Rightarrow>
          (goto t (Finish (Inr \<lparr> an_value = report, an_generation = g, an_checked_at = at, an_read_at = at \<rparr>)) w)
            \<lparr>hw_state := Some \<lparr> ch_value = report, ch_checked_at = at, ch_generation = g \<rparr>\<rparr>
      | CoverLookup g e \<Rightarrow> goto t (CoverCheck e (fresh_enough_for (hw_state w) g)) w
      | CoverCheck e cached \<Rightarrow>
          (case cached of
             Some c \<Rightarrow> if elapsed_ms (hw_clock w) (ch_checked_at c) \<le> PROVIDER_HEALTH_CACHE_STALE_MS
                       then goto t (Finish (Inr (answer_cached (hw_clock w) c))) w
                       else goto t (Finish (Inl e)) w
           | None \<Rightarrow> goto t (Finish (Inl e)) w)
      | Finish result \<Rightarrow> finish_task t result w)"

section \<open>Steps and reachable states\<close>

datatype health_action =
    Configure
  | Clock nat
  | Warm provider_health_snapshot nat
  | Enter nat snapshot_pin
  | Leave nat
  | Read nat
  | Refresh "string + provider_health_snapshot"
  | Abort string

text \<open>
  A read is entered with no pin or with a pin taken at that time; a caller that pinned earlier is one that is
  slow to take its first step. The clock that \<open>warm\<close> stores may have been read at any earlier time. A task that is aborted or panics releases the lock.
\<close>

inductive health_step :: "health_action \<Rightarrow> health_world \<Rightarrow> health_world \<Rightarrow> bool" where
  configure: "refreshes (hw_handle w) h \<Longrightarrow> health_step Configure w (w\<lparr>hw_handle := h\<rparr>)"
| clock: "health_step (Clock now) w (w\<lparr>hw_clock := now\<rparr>)"
| warm: "g \<le> configuration_generation None w \<Longrightarrow> health_step (Warm report g) w (warm report g now w)"
| enter: "hw_readers w i = None \<Longrightarrow> pin = None \<or> pin = pin_for_request (hw_handle w) \<Longrightarrow>
    health_step (Enter i pin) w (w\<lparr>hw_readers := (hw_readers w)(i \<mapsto>
      \<lparr> rd_pin = pin, rd_pc = ReadClock, rd_from = configuration_generation pin w \<rparr>)\<rparr>)"
| leave: "health_step (Leave i) w (w\<lparr>hw_readers := (hw_readers w)(i := None)\<rparr>)"
| read: "hw_readers w i = Some rd \<Longrightarrow> read_step i rd w = Some w' \<Longrightarrow> health_step (Read i) w w'"
| refresh: "hw_task w = Some t \<Longrightarrow> health_step (Refresh probe) w (refresh_step probe t w)"
| abort: "hw_task w = Some t \<Longrightarrow> health_step (Abort message) w
    (finish_task t (Inl (''provider health refresh task failed: '' @ message)) w)"

inductive cache_reachable :: "health_world \<Rightarrow> bool" where
  start: "cache_reachable (cache_new handle clock)"
| step: "cache_reachable w \<Longrightarrow> health_step a w w' \<Longrightarrow> cache_reachable w'"

inductive_simps health_step_simps:
  "health_step Configure w w'" "health_step (Clock n) w w'" "health_step (Warm r g) w w'"
  "health_step (Enter i p) w w'" "health_step (Leave i) w w'" "health_step (Read i) w w'"
  "health_step (Refresh p) w w'" "health_step (Abort m) w w'"

section \<open>The invariant\<close>

definition described :: "health_world \<Rightarrow> provider_health_snapshot \<Rightarrow> nat \<Rightarrow> bool" where
  "described w report g \<longleftrightarrow> (report, g) \<in> set (hw_observed w) \<union> set (hw_warmed w)"

abbreviation cached_ok :: "health_world \<Rightarrow> cached_health \<Rightarrow> bool" where
  "cached_ok w c \<equiv> described w (ch_value c) (ch_generation c)"

text \<open>A generation seen under a pin since a moment at which it was \<open>from\<close>.\<close>

definition in_span :: "health_world \<Rightarrow> nat \<Rightarrow> snapshot_pin \<Rightarrow> nat \<Rightarrow> bool" where
  "in_span w from pin g \<longleftrightarrow> from \<le> g \<and> g \<le> configuration_generation pin w"

definition answer_ok :: "health_world \<Rightarrow> nat \<Rightarrow> snapshot_pin \<Rightarrow> health_answer \<Rightarrow> bool" where
  "answer_ok w from pin a \<longleftrightarrow> described w (an_value a) (an_generation a) \<and> in_span w from pin (an_generation a) \<and>
     elapsed_ms (an_read_at a) (an_checked_at a) \<le> PROVIDER_HEALTH_CACHE_STALE_MS"

definition result_ok :: "health_world \<Rightarrow> nat \<Rightarrow> snapshot_pin \<Rightarrow> health_result \<Rightarrow> bool" where
  "result_ok w from pin r \<longleftrightarrow> (\<forall>a. r = Inr a \<longrightarrow> answer_ok w from pin a)"

fun refresh_pc_ok :: "health_world \<Rightarrow> nat \<Rightarrow> snapshot_pin \<Rightarrow> refresh_pc \<Rightarrow> bool" where
  "refresh_pc_ok w from pin (Begin n) \<longleftrightarrow> n \<le> PROBE_GENERATION_ATTEMPTS"
| "refresh_pc_ok w from pin (FreshLookup n g) \<longleftrightarrow> n < PROBE_GENERATION_ATTEMPTS \<and> in_span w from pin g"
| "refresh_pc_ok w from pin (FreshCheck n g cached) \<longleftrightarrow> n < PROBE_GENERATION_ATTEMPTS \<and> in_span w from pin g \<and>
     (\<forall>c. cached = Some c \<longrightarrow> cached_ok w c \<and> ch_generation c = g)"
| "refresh_pc_ok w from pin (ProbeLoad n g) \<longleftrightarrow> n < PROBE_GENERATION_ATTEMPTS \<and> in_span w from pin g"
| "refresh_pc_ok w from pin (Probing n g s) \<longleftrightarrow> n < PROBE_GENERATION_ATTEMPTS \<and> in_span w from pin g \<and> in_span w g pin s"
| "refresh_pc_ok w from pin (Compare n g outcome) \<longleftrightarrow> n < PROBE_GENERATION_ATTEMPTS \<and> in_span w from pin g \<and>
     (\<forall>report. outcome = Inr report \<longrightarrow> (\<exists>s. (report, s) \<in> set (hw_observed w) \<and> in_span w g pin s))"
| "refresh_pc_ok w from pin (PublishStamp g report) \<longleftrightarrow> in_span w from pin g \<and> described w report g"
| "refresh_pc_ok w from pin (PublishStore g report at) \<longleftrightarrow> in_span w from pin g \<and> described w report g"
| "refresh_pc_ok w from pin (CoverLookup g e) \<longleftrightarrow> in_span w from pin g"
| "refresh_pc_ok w from pin (CoverCheck e cached) \<longleftrightarrow>
     (\<forall>c. cached = Some c \<longrightarrow> cached_ok w c \<and> in_span w from pin (ch_generation c))"
| "refresh_pc_ok w from pin (Finish r) \<longleftrightarrow> result_ok w from pin r"

definition task_ok :: "health_world \<Rightarrow> refresh_task \<Rightarrow> bool" where
  "task_ok w t \<longleftrightarrow> in_span w (tk_from t) (tk_pin t) (tk_from t) \<and> refresh_pc_ok w (tk_from t) (tk_pin t) (tk_pc t)"

fun reader_pc_ok :: "health_world \<Rightarrow> nat \<Rightarrow> snapshot_pin \<Rightarrow> reader_pc \<Rightarrow> bool" where
  "reader_pc_ok w from pin (ReadFilter now cached) \<longleftrightarrow> (\<forall>c. cached = Some c \<longrightarrow> cached_ok w c)"
| "reader_pc_ok w from pin (ReadDecide now cached) \<longleftrightarrow>
     (\<forall>c. cached = Some c \<longrightarrow> cached_ok w c \<and> in_span w from pin (ch_generation c))"
| "reader_pc_ok w from pin (ReadDone r) \<longleftrightarrow> result_ok w from pin r"
| "reader_pc_ok w from pin _ \<longleftrightarrow> True"

definition waits_for :: "health_world \<Rightarrow> nat \<Rightarrow> cache_reader \<Rightarrow> refresh_task \<Rightarrow> bool" where
  "waits_for w i rd t \<longleftrightarrow> tk_reader t = Some i \<and> rd_from rd \<le> tk_from t \<and>
     pinned_for (hw_handle w) (tk_pin t) = pinned_for (hw_handle w) (rd_pin rd)"

definition reader_ok :: "health_world \<Rightarrow> nat \<Rightarrow> cache_reader \<Rightarrow> bool" where
  "reader_ok w i rd \<longleftrightarrow> in_span w (rd_from rd) (rd_pin rd) (rd_from rd) \<and> reader_pc_ok w (rd_from rd) (rd_pin rd) (rd_pc rd) \<and>
     (rd_pc rd = ReadAwait \<longrightarrow> (\<exists>t. hw_task w = Some t \<and> waits_for w i rd t))"

definition cache_inv :: "health_world \<Rightarrow> bool" where
  "cache_inv w \<longleftrightarrow> (\<forall>c. hw_state w = Some c \<longrightarrow> cached_ok w c) \<and> (\<forall>t. hw_task w = Some t \<longrightarrow> task_ok w t) \<and>
     (\<forall>i rd. hw_readers w i = Some rd \<longrightarrow> reader_ok w i rd)"

text \<open>What a step never undoes: reports stay recorded and the configuration only moves forward.\<close>

definition advances :: "health_world \<Rightarrow> health_world \<Rightarrow> bool" where
  "advances w w' \<longleftrightarrow> set (hw_observed w) \<subseteq> set (hw_observed w') \<and> set (hw_warmed w) \<subseteq> set (hw_warmed w') \<and>
     refreshes\<^sup>*\<^sup>* (hw_handle w) (hw_handle w')"

lemma advances_refl [simp]: "advances w w"
  by (simp add: advances_def)

lemma later_slot: "refreshes\<^sup>*\<^sup>* h h' \<Longrightarrow> sh_slot h' = sh_slot h"
  by (induction rule: rtranclp_induct) (auto dest: refreshes_fixed)

lemma later_pinned: "refreshes\<^sup>*\<^sup>* h h' \<Longrightarrow> pinned_for h' pin = pinned_for h pin"
  using later_slot [of h h'] by (cases pin) (auto simp: pinned_for_def)

lemma later_generation: "refreshes\<^sup>*\<^sup>* h h' \<Longrightarrow> handle_generation pin h \<le> handle_generation pin h'"
  using slot.later_grows [of h h']
  by (auto simp: handle_generation_def load_snapshot_def later_pinned split: option.splits)

lemma advances_described: "advances w w' \<Longrightarrow> described w report g \<Longrightarrow> described w' report g"
  by (auto simp: advances_def described_def)

lemma advances_span: "advances w w' \<Longrightarrow> in_span w from pin g \<Longrightarrow> in_span w' from pin g"
  using later_generation [of "hw_handle w" "hw_handle w'" pin]
  by (auto simp: advances_def in_span_def configuration_generation_def)

lemma advances_result: "advances w w' \<Longrightarrow> result_ok w from pin r \<Longrightarrow> result_ok w' from pin r"
  by (auto simp: result_ok_def answer_ok_def intro: advances_described advances_span)

lemma advances_refresh_pc:
  assumes "advances w w'" "refresh_pc_ok w from pin pc"
  shows "refresh_pc_ok w' from pin pc"
proof (cases pc)
  case (Compare n g outcome)
  have "set (hw_observed w) \<subseteq> set (hw_observed w')" using assms(1) by (simp add: advances_def)
  with assms Compare show ?thesis by (auto intro: advances_span) (blast intro: advances_span)
qed (use assms in \<open>auto intro: advances_described advances_span advances_result\<close>)

lemma advances_reader_pc: "advances w w' \<Longrightarrow> reader_pc_ok w from pin pc \<Longrightarrow> reader_pc_ok w' from pin pc"
  by (cases pc) (auto intro: advances_described advances_span advances_result)

lemma advances_task: "advances w w' \<Longrightarrow> task_ok w t \<Longrightarrow> task_ok w' t"
  by (auto simp: task_ok_def intro: advances_span advances_refresh_pc)

lemma advances_waits: "advances w w' \<Longrightarrow> waits_for w' i rd t \<longleftrightarrow> waits_for w i rd t"
  by (auto simp: advances_def waits_for_def later_pinned)

lemma advances_reader:
  assumes "advances w w'" "reader_ok w i rd" "\<And>t. hw_task w = Some t \<Longrightarrow> rd_pc rd = ReadAwait \<Longrightarrow> waits_for w i rd t \<Longrightarrow>
      \<exists>t'. hw_task w' = Some t' \<and> waits_for w' i rd t'"
  shows "reader_ok w' i rd"
  using assms unfolding reader_ok_def by (blast intro: advances_span advances_reader_pc)

section \<open>Preservation\<close>

lemma inv_reader_moves:
  assumes inv: "cache_inv w" and adv: "advances w w'" and state: "\<forall>c. hw_state w' = Some c \<longrightarrow> cached_ok w' c"
    and task: "\<forall>t. hw_task w' = Some t \<longrightarrow> task_ok w' t" "hw_task w \<noteq> None \<longrightarrow> hw_task w' = hw_task w"
    and readers: "\<forall>j rd. hw_readers w' j = Some rd \<longrightarrow> reader_ok w' j rd \<or> hw_readers w j = Some rd"
  shows "cache_inv w'"
  unfolding cache_inv_def
proof (intro conjI allI impI)
  fix j rd assume rd: "hw_readers w' j = Some rd"
  show "reader_ok w' j rd"
  proof (cases "hw_readers w j = Some rd")
    case True
    then have "reader_ok w j rd" using inv by (simp add: cache_inv_def)
    then show ?thesis
      by (rule advances_reader [OF adv]) (use task(2) advances_waits [OF adv] in auto)
  qed (use readers rd in blast)
qed (use state task in auto)

lemma inv_task_moves:
  assumes inv: "cache_inv w" and t: "hw_task w = Some t" and adv: "advances w w'"
    and moved: "hw_task w' = Some (t\<lparr>tk_pc := pc\<rparr>)" "hw_readers w' = hw_readers w"
    and pc: "refresh_pc_ok w' (tk_from t) (tk_pin t) pc" and state: "\<forall>c. hw_state w' = Some c \<longrightarrow> cached_ok w' c"
  shows "cache_inv w'"
  unfolding cache_inv_def
proof (intro conjI allI impI)
  have "task_ok w t" using inv t by (simp add: cache_inv_def)
  then have "task_ok w' (t\<lparr>tk_pc := pc\<rparr>)" using pc advances_span [OF adv] by (simp add: task_ok_def)
  then show "task_ok w' t'" if "hw_task w' = Some t'" for t' using that moved(1) by simp
  fix j rd assume "hw_readers w' j = Some rd"
  then have "reader_ok w j rd" using inv moved(2) by (simp add: cache_inv_def)
  then show "reader_ok w' j rd"
    by (rule advances_reader [OF adv]) (use t moved(1) advances_waits [OF adv] in \<open>auto simp: waits_for_def\<close>)
qed (use state in auto)

lemma goto_sel [simp]:
  "hw_task (goto t pc w) = Some (t\<lparr>tk_pc := pc\<rparr>)" "hw_readers (goto t pc w) = hw_readers w"
  "hw_state (goto t pc w) = hw_state w" "hw_handle (goto t pc w) = hw_handle w" "hw_clock (goto t pc w) = hw_clock w"
  "hw_observed (goto t pc w) = hw_observed w" "hw_warmed (goto t pc w) = hw_warmed w"
  by (simp_all add: goto_def)

lemma inv_goto:
  assumes "cache_inv w" "hw_task w = Some t" "refresh_pc_ok w (tk_from t) (tk_pin t) pc"
  shows "cache_inv (goto t pc w)"
proof (rule inv_task_moves [OF assms(1,2)])
  show adv: "advances w (goto t pc w)" by (simp add: advances_def)
  show "refresh_pc_ok (goto t pc w) (tk_from t) (tk_pin t) pc" by (rule advances_refresh_pc [OF adv assms(3)])
  show "\<forall>c. hw_state (goto t pc w) = Some c \<longrightarrow> cached_ok (goto t pc w) c"
    using assms(1) advances_described [OF adv] by (auto simp: cache_inv_def)
qed simp_all

lemma fresh_enough_for_eq [simp]:
  "fresh_enough_for state g = Some c \<longleftrightarrow> state = Some c \<and> ch_generation c = g"
  by (auto simp: fresh_enough_for_def split: option.splits if_splits)

lemma inv_probed:
  assumes "cache_inv w" "hw_task w = Some t" "tk_pc t = Probing n g s"
  shows "cache_inv (refresh_step probe t w)"
proof (rule inv_task_moves [OF assms(1,2), of _ "Compare n g probe"])
  let ?w = "refresh_step probe t w"
  have task: "task_ok w t" using assms(1,2) by (simp add: cache_inv_def)
  show adv: "advances w ?w"
    using assms(3) by (auto simp: refresh_step_def advances_def split: sum.splits)
  show "refresh_pc_ok ?w (tk_from t) (tk_pin t) (Compare n g probe)"
    using task assms(3) advances_span [OF adv]
    by (auto simp: task_ok_def refresh_step_def split: sum.splits)
  show "\<forall>c. hw_state ?w = Some c \<longrightarrow> cached_ok ?w c"
    using assms(1,3) advances_described [OF adv] by (auto simp: cache_inv_def refresh_step_def)
qed (use assms(3) in \<open>simp_all add: refresh_step_def\<close>)

lemma inv_stored:
  assumes "cache_inv w" "hw_task w = Some t" "tk_pc t = PublishStore g report at"
  shows "cache_inv (refresh_step probe t w)"
proof (rule inv_task_moves [OF assms(1,2)])
  let ?w = "refresh_step probe t w"
  have task: "task_ok w t" using assms(1,2) by (simp add: cache_inv_def)
  then have ok: "in_span w (tk_from t) (tk_pin t) g" "described w report g" using assms(3) by (simp_all add: task_ok_def)
  show adv: "advances w ?w" using assms(3) by (simp add: refresh_step_def advances_def)
  show "refresh_pc_ok ?w (tk_from t) (tk_pin t)
      (Finish (Inr \<lparr> an_value = report, an_generation = g, an_checked_at = at, an_read_at = at \<rparr>))"
    using advances_span [OF adv ok(1)] advances_described [OF adv ok(2)]
    by (simp add: result_ok_def answer_ok_def elapsed_ms_def)
  show "\<forall>c. hw_state ?w = Some c \<longrightarrow> cached_ok ?w c"
    using assms(3) advances_described [OF adv ok(2)] by (simp add: refresh_step_def)
qed (use assms(3) in \<open>simp_all add: refresh_step_def\<close>)

lemma inv_finish:
  assumes "cache_inv w" "hw_task w = Some t" "result_ok w (tk_from t) (tk_pin t) r"
  shows "cache_inv (finish_task t r w)"
proof -
  let ?w = "finish_task t r w"
  have w: "hw_task ?w = None" "hw_state ?w = hw_state w" "hw_handle ?w = hw_handle w" "hw_observed ?w = hw_observed w"
    "hw_warmed ?w = hw_warmed w"
    by (auto simp: finish_task_def set_reader_def Let_def split: option.splits)
  have readers: "hw_readers ?w j = (if tk_reader t = Some j \<and> map_option rd_pc (hw_readers w j) = Some ReadAwait
      then map_option (rd_pc_update (\<lambda>_. ReadDone r)) (hw_readers w j) else hw_readers w j)" for j
    by (auto simp: finish_task_def set_reader_def Let_def split: option.splits)
  have adv: "advances w ?w" by (simp add: advances_def w)
  show ?thesis
    unfolding cache_inv_def
  proof (intro conjI allI impI)
    fix j rd' assume rd': "hw_readers ?w j = Some rd'"
    then obtain rd where rd: "hw_readers w j = Some rd" unfolding readers by (auto split: if_splits)
    then have ok: "reader_ok w j rd" using assms(1) by (simp add: cache_inv_def)
    show "reader_ok ?w j rd'"
    proof (cases "rd_pc rd = ReadAwait")
      case True
      with ok assms(2) have wf: "waits_for w j rd t" by (simp add: reader_ok_def)
      with True rd rd' have rd'_eq: "rd' = rd\<lparr>rd_pc := ReadDone r\<rparr>" by (simp add: readers waits_for_def)
      have "configuration_generation (tk_pin t) w = configuration_generation (rd_pin rd) w"
        using wf by (simp add: waits_for_def configuration_generation_def handle_generation_def load_snapshot_def)
      with assms(3) wf have "result_ok w (rd_from rd) (rd_pin rd) r"
        by (auto simp: result_ok_def answer_ok_def in_span_def waits_for_def)
      with ok show ?thesis
        unfolding rd'_eq reader_ok_def using advances_span [OF adv] advances_result [OF adv] by simp
    next
      case False
      with rd rd' have "rd' = rd" by (simp add: readers)
      with False ok show ?thesis by (auto intro: advances_reader [OF adv])
    qed
  qed (use assms(1) w advances_described [OF adv] in \<open>auto simp: cache_inv_def\<close>)
qed

lemma inv_refresh:
  assumes "cache_inv w" "hw_task w = Some t"
  shows "cache_inv (refresh_step probe t w)"
proof -
  have task: "in_span w (tk_from t) (tk_pin t) (tk_from t)" "refresh_pc_ok w (tk_from t) (tk_pin t) (tk_pc t)"
    and state: "\<And>c. hw_state w = Some c \<Longrightarrow> cached_ok w c"
    using assms by (auto simp: cache_inv_def task_ok_def)
  note go = inv_goto [OF assms]
  show ?thesis
  proof (cases "tk_pc t")
    case (Begin n)
    then show ?thesis
      using task by (cases n) (auto simp: refresh_step_def result_ok_def in_span_def intro!: go)
  next
    case (FreshLookup n g)
    then show ?thesis using task state by (auto simp: refresh_step_def intro!: go)
  next
    case (FreshCheck n g cached)
    then show ?thesis
      using task by (cases cached) (auto simp: refresh_step_def result_ok_def answer_ok_def answer_cached_def
          PROVIDER_HEALTH_CACHE_STALE_MS_def intro!: go)
  next
    case (ProbeLoad n g)
    then show ?thesis using task by (auto simp: refresh_step_def in_span_def intro!: go)
  next
    case (Probing n g s)
    then show ?thesis by (rule inv_probed [OF assms])
  next
    case (Compare n g outcome)
    show ?thesis
    proof (cases "configuration_generation (tk_pin t) w = g")
      case True
      with Compare show ?thesis
        using task by (cases outcome) (auto simp: refresh_step_def in_span_def described_def intro!: go)
    next
      case False
      with Compare show ?thesis using task by (auto simp: refresh_step_def intro!: go)
    qed
  next
    case (PublishStamp g report)
    then show ?thesis using task by (auto simp: refresh_step_def intro!: go)
  next
    case (PublishStore g report at)
    then show ?thesis by (rule inv_stored [OF assms])
  next
    case (CoverLookup g e)
    then show ?thesis using task state by (auto simp: refresh_step_def intro!: go)
  next
    case (CoverCheck e cached)
    then show ?thesis
      using task by (cases cached) (auto simp: refresh_step_def result_ok_def answer_ok_def answer_cached_def intro!: go)
  next
    case (Finish r)
    then show ?thesis using task inv_finish [OF assms] by (simp add: refresh_step_def)
  qed
qed

text \<open>A reader that moves on without touching the task, and one that starts a task while the lock is free.\<close>

lemma set_reader_sel [simp]:
  "hw_task (set_reader i pc w) = hw_task w" "hw_state (set_reader i pc w) = hw_state w"
  "hw_handle (set_reader i pc w) = hw_handle w" "hw_clock (set_reader i pc w) = hw_clock w"
  "hw_observed (set_reader i pc w) = hw_observed w" "hw_warmed (set_reader i pc w) = hw_warmed w"
  by (simp_all add: set_reader_def)

lemma spawn_refresh_sel [simp]:
  "hw_readers (spawn_refresh pin r w) = hw_readers w" "hw_state (spawn_refresh pin r w) = hw_state w"
  "hw_handle (spawn_refresh pin r w) = hw_handle w" "hw_observed (spawn_refresh pin r w) = hw_observed w"
  "hw_warmed (spawn_refresh pin r w) = hw_warmed w"
  by (simp_all add: spawn_refresh_def)

lemma inv_set_reader:
  assumes "cache_inv w" "hw_readers w i = Some rd" "pc \<noteq> ReadAwait" "reader_pc_ok w (rd_from rd) (rd_pin rd) pc"
  shows "cache_inv (set_reader i pc w)"
proof (rule inv_reader_moves [OF assms(1)])
  let ?w = "set_reader i pc w"
  show adv: "advances w ?w" by (simp add: advances_def)
  have rd: "in_span w (rd_from rd) (rd_pin rd) (rd_from rd)" using assms(1,2) by (simp add: cache_inv_def reader_ok_def)
  then have new: "reader_ok ?w i (rd\<lparr>rd_pc := pc\<rparr>)"
    using assms(3,4) advances_span [OF adv] advances_reader_pc [OF adv] by (simp add: reader_ok_def)
  show "\<forall>j rd'. hw_readers ?w j = Some rd' \<longrightarrow> reader_ok ?w j rd' \<or> hw_readers w j = Some rd'"
    using new assms(2) by (auto simp: set_reader_def)
  show "\<forall>c. hw_state ?w = Some c \<longrightarrow> cached_ok ?w c"
    using assms(1) advances_described [OF adv] by (auto simp: cache_inv_def)
  show "\<forall>t. hw_task ?w = Some t \<longrightarrow> task_ok ?w t"
    using assms(1) advances_task [OF adv] by (auto simp: cache_inv_def)
qed simp

lemma inv_spawn:
  assumes "cache_inv w" "hw_task w = None"
  shows "cache_inv (spawn_refresh pin r w)"
proof (rule inv_reader_moves [OF assms(1)])
  let ?w = "spawn_refresh pin r w"
  show adv: "advances w ?w" by (simp add: advances_def)
  show "\<forall>c. hw_state ?w = Some c \<longrightarrow> cached_ok ?w c"
    using assms(1) advances_described [OF adv] by (auto simp: cache_inv_def)
  show "\<forall>t. hw_task ?w = Some t \<longrightarrow> task_ok ?w t"
    by (simp add: spawn_refresh_def task_ok_def in_span_def configuration_generation_def)
qed (use assms(2) in simp_all)

lemma inv_await:
  assumes "cache_inv w" "hw_task w = None" "hw_readers w i = Some rd"
  shows "cache_inv (set_reader i ReadAwait (spawn_refresh (carry_pin (hw_handle w) (rd_pin rd)) (Some i) w))"
    (is "cache_inv ?w")
proof -
  let ?s = "spawn_refresh (carry_pin (hw_handle w) (rd_pin rd)) (Some i) w"
  have inv: "cache_inv ?s" by (rule inv_spawn [OF assms(1,2)])
  have begun: "in_span w (rd_from rd) (rd_pin rd) (rd_from rd)" using assms(1,3) by (simp add: cache_inv_def reader_ok_def)
  have pin: "pinned_for (hw_handle w) (carry_pin (hw_handle w) (rd_pin rd)) = pinned_for (hw_handle w) (rd_pin rd)"
    by (cases "pinned_for (hw_handle w) (rd_pin rd)") (simp_all add: carry_pin_def pinned_for_def)
  then have gen: "configuration_generation (carry_pin (hw_handle w) (rd_pin rd)) w = configuration_generation (rd_pin rd) w"
    by (simp add: configuration_generation_def handle_generation_def load_snapshot_def)
  show ?thesis
  proof (rule inv_reader_moves [OF inv])
    show adv: "advances ?s ?w" by (simp add: advances_def)
    have "reader_ok ?w i (rd\<lparr>rd_pc := ReadAwait\<rparr>)"
      using begun pin gen
      by (simp add: reader_ok_def waits_for_def spawn_refresh_def in_span_def configuration_generation_def)
    then show "\<forall>j rd'. hw_readers ?w j = Some rd' \<longrightarrow> reader_ok ?w j rd' \<or> hw_readers ?s j = Some rd'"
      using assms(3) by (auto simp: set_reader_def)
    show "\<forall>c. hw_state ?w = Some c \<longrightarrow> cached_ok ?w c"
      using inv advances_described [OF adv] by (auto simp: cache_inv_def)
    show "\<forall>t. hw_task ?w = Some t \<longrightarrow> task_ok ?w t"
      using inv advances_task [OF adv] by (auto simp: cache_inv_def)
  qed simp
qed

lemma inv_read:
  assumes inv: "cache_inv w" and rd: "hw_readers w i = Some rd" and moved: "read_step i rd w = Some w'"
  shows "cache_inv w'"
proof -
  have ok: "reader_pc_ok w (rd_from rd) (rd_pin rd) (rd_pc rd)" "in_span w (rd_from rd) (rd_pin rd) (rd_from rd)"
    and state: "\<And>c. hw_state w = Some c \<Longrightarrow> cached_ok w c"
    using inv rd by (auto simp: cache_inv_def reader_ok_def)
  note go = inv_set_reader [OF inv rd]
  show ?thesis
  proof (cases "rd_pc rd")
    case (ReadDecide now cached)
    show ?thesis
    proof (cases cached)
      case None
      with ReadDecide moved show ?thesis by (auto simp: read_step_def intro!: go)
    next
      case (Some c)
      let ?done = "ReadDone (Inr (answer_cached now c))"
      have answer: "reader_pc_ok w (rd_from rd) (rd_pin rd) ?done" if "elapsed_ms now (ch_checked_at c) \<le> PROVIDER_HEALTH_CACHE_STALE_MS"
        using ok that ReadDecide Some by (simp add: result_ok_def answer_ok_def answer_cached_def)
      let ?b = "if hw_task w = None then spawn_refresh None None w else w"
      have b: "cache_inv ?b" using inv_spawn [OF inv] inv by simp
      have adv: "advances w ?b" by (simp add: advances_def)
      have "cache_inv (set_reader i ?done ?b)" if "elapsed_ms now (ch_checked_at c) \<le> PROVIDER_HEALTH_CACHE_STALE_MS"
        by (rule inv_set_reader [OF b, of i rd]) (use rd advances_reader_pc [OF adv answer [OF that]] in simp_all)
      then show ?thesis
        using moved ReadDecide Some answer
        by (auto simp: read_step_def Let_def PROVIDER_HEALTH_CACHE_STALE_MS_def intro!: go split: if_splits)
    qed
  next
    case ReadLock
    with moved show ?thesis using inv_await [OF inv _ rd] by (auto simp: read_step_def split: if_splits)
  qed (use moved ok state in \<open>auto simp: read_step_def in_span_def intro!: go\<close>)
qed

lemma inv_unmoved:
  assumes "cache_inv w" "advances w w'" "hw_state w' = hw_state w" "hw_task w' = hw_task w"
    "\<forall>j rd. hw_readers w' j = Some rd \<longrightarrow> reader_ok w' j rd \<or> hw_readers w j = Some rd"
  shows "cache_inv w'"
  by (rule inv_reader_moves [OF assms(1,2)])
    (use assms advances_described advances_task in \<open>auto simp: cache_inv_def\<close>)

lemma step_inv:
  assumes "health_step a w w'" "cache_inv w"
  shows "cache_inv w'"
  using assms
proof cases
  case (configure h)
  with assms(2) show ?thesis by (intro inv_unmoved [OF assms(2)]) (auto simp: advances_def)
next
  case (warm g report now)
  have adv: "advances w w'" using warm by (auto simp: advances_def warm_def)
  show ?thesis
    by (rule inv_reader_moves [OF assms(2) adv])
      (use warm assms(2) advances_task [OF adv] in \<open>auto simp: cache_inv_def warm_def described_def\<close>)
next
  case (enter i pin)
  then show ?thesis
    by (intro inv_unmoved [OF assms(2)]) (auto simp: advances_def reader_ok_def in_span_def configuration_generation_def)
next
  case (read i rd)
  then show ?thesis using inv_read [OF assms(2)] by simp
next
  case (refresh t probe)
  then show ?thesis using inv_refresh [OF assms(2)] by simp
next
  case (abort t message)
  then show ?thesis using inv_finish [OF assms(2)] by (simp add: result_ok_def)
qed (auto simp: advances_def intro: inv_unmoved [OF assms(2)] split: if_splits)

lemma reachable_inv: "cache_reachable w \<Longrightarrow> cache_inv w"
proof (induction rule: cache_reachable.induct)
  case (start handle clock)
  show ?case by (simp add: cache_new_def cache_inv_def)
qed (rule step_inv)

section \<open>Pinned readers and readiness\<close>

text \<open>The pin of a reader and the generation it began with do not change.\<close>

lemma readers_kept:
  assumes "health_step a w w'" "hw_readers w' i = Some rd'"
  shows "(\<exists>rd. hw_readers w i = Some rd \<and> rd_pin rd' = rd_pin rd \<and> rd_from rd' = rd_from rd) \<or>
    rd_from rd' = configuration_generation (rd_pin rd') w"
  using assms
proof cases
  case (read j rd)
  then show ?thesis
    using assms(2) by (cases "i = j")
      (auto simp: read_step_def set_reader_def spawn_refresh_def Let_def split: reader_pc.splits option.splits if_splits)
next
  case (refresh t probe)
  have "hw_readers (finish_task t r w) i = Some rd' \<Longrightarrow>
      \<exists>rd. hw_readers w i = Some rd \<and> rd_pin rd' = rd_pin rd \<and> rd_from rd' = rd_from rd" for r
    by (auto simp: finish_task_def set_reader_def Let_def split: option.splits if_splits)
  with refresh assms(2) show ?thesis
    by (auto simp: refresh_step_def split: refresh_pc.splits option.splits if_splits sum.splits nat.splits)
next
  case (abort t message)
  with assms(2) show ?thesis
    by (auto simp: finish_task_def set_reader_def Let_def split: option.splits if_splits)
qed (use assms(2) in \<open>auto simp: warm_def split: if_splits\<close>)

lemma step_advances:
  assumes "health_step a w w'"
  shows "advances w w'"
  using assms
proof cases
  case (read i rd)
  then show ?thesis
    by (auto simp: read_step_def advances_def Let_def split: reader_pc.splits option.splits if_splits)
next
  case (refresh t probe)
  have "advances w (finish_task t r w)" for r
    by (auto simp: finish_task_def advances_def set_reader_def Let_def split: option.splits)
  with refresh show ?thesis
    by (auto simp: refresh_step_def advances_def split: refresh_pc.splits option.splits if_splits sum.splits nat.splits)
next
  case (abort t message)
  then show ?thesis by (auto simp: finish_task_def advances_def set_reader_def Let_def split: option.splits)
qed (auto simp: advances_def warm_def)

lemma pinned_from:
  assumes "cache_reachable w" "hw_readers w i = Some rd" "pinned_for (hw_handle w) (rd_pin rd) = Some s"
  shows "rd_from rd = sn_generation s"
  using assms
proof (induction arbitrary: rd rule: cache_reachable.induct)
  case (start handle clock)
  then show ?case by (simp add: cache_new_def)
next
  case (step w a w')
  have "refreshes\<^sup>*\<^sup>* (hw_handle w) (hw_handle w')" using step_advances [OF step.hyps(2)] by (simp add: advances_def)
  note pin = later_pinned [OF this, of "rd_pin rd"]
  from readers_kept [OF step.hyps(2) step.prems(1)] show ?case
    using step.IH step.prems(2) pin
    by (auto simp: configuration_generation_def handle_generation_def load_snapshot_def)
qed

text \<open>
  \<open>readiness\<close>: the request pins a generation, reads the cache and looks for a healthy chain of the pinned roster.
  Whether the controls are healthy is asked afterwards.
\<close>

definition readiness :: "snapshot_pin \<Rightarrow> snapshot_handle \<Rightarrow> health_result \<Rightarrow> bool \<Rightarrow> bool" where
  "readiness pin handle health controls_healthy =
     ((case health of
         Inr a \<Rightarrow> list_ex (\<lambda>chain. case im_get (an_value a) chain of Some healthy \<Rightarrow> healthy | None \<Rightarrow> False)
                    (sn_available_chain_names (load_snapshot pin handle))
       | Inl _ \<Rightarrow> False) \<and> controls_healthy)"

section \<open>Termination\<close>

fun refresh_left :: "refresh_pc \<Rightarrow> nat" where
  "refresh_left (Begin n) = 6 * n + 3"
| "refresh_left (FreshLookup n g) = 6 * n + 8"
| "refresh_left (FreshCheck n g cached) = 6 * n + 7"
| "refresh_left (ProbeLoad n g) = 6 * n + 6"
| "refresh_left (Probing n g s) = 6 * n + 5"
| "refresh_left (Compare n g outcome) = 6 * n + 4"
| "refresh_left (PublishStamp g report) = 3"
| "refresh_left (PublishStore g report at) = 2"
| "refresh_left (CoverLookup g e) = 3"
| "refresh_left (CoverCheck e cached) = 2"
| "refresh_left (Finish r) = 1"

lemma refresh_step_progress:
  "case hw_task (refresh_step probe t w) of
     None \<Rightarrow> \<exists>r. tk_pc t = Finish r
   | Some t' \<Rightarrow> tk_reader t' = tk_reader t \<and> refresh_left (tk_pc t') < refresh_left (tk_pc t)"
proof (cases "tk_pc t")
  case (Finish r)
  then show ?thesis
    by (auto simp: refresh_step_def finish_task_def Let_def split: option.splits)
qed (auto simp: refresh_step_def split: option.splits sum.splits nat.splits)

lemma refresh_left_bound: "refresh_pc_ok w from pin pc \<Longrightarrow> refresh_left pc \<le> 21"
  by (cases pc) (auto simp: PROBE_GENERATION_ATTEMPTS_def)

section \<open>Sample runs\<close>

fun run_reads :: "nat \<Rightarrow> nat \<Rightarrow> health_world \<Rightarrow> health_world" where
  "run_reads 0 i w = w"
| "run_reads (Suc n) i w =
     (case hw_readers w i of
        None \<Rightarrow> w
      | Some rd \<Rightarrow> (case read_step i rd w of None \<Rightarrow> w | Some w' \<Rightarrow> run_reads n i w'))"

lemma run_reads_reachable: "cache_reachable w \<Longrightarrow> cache_reachable (run_reads n i w)"
proof (induction n arbitrary: w)
  case (Suc n)
  then show ?case by (auto split: option.splits intro: Suc.IH cache_reachable.step health_step.read)
qed simp

definition sample_snapshot :: runtime_provider_snapshot where
  "sample_snapshot = \<lparr> sn_generation = 0, sn_provider_configs = [], sn_available_chain_names = [''eth''] \<rparr>"

definition sample_entered :: "(provider_health_snapshot \<times> nat) option \<Rightarrow> health_world" where
  "sample_entered warmed =
     (let start = cache_new (snapshot_handle_new 0 [] [''eth'']) 5;
          seeded = (case warmed of None \<Rightarrow> start | Some (report, g) \<Rightarrow> warm report g 5 start) in
      seeded\<lparr>hw_readers := [0 \<mapsto> \<lparr> rd_pin = Some (0, sample_snapshot), rd_pc = ReadClock, rd_from = 0 \<rparr>]\<rparr>)"

lemmas sample_defs = sample_entered_def sample_snapshot_def cache_new_def snapshot_handle_new_def warm_def Let_def
  configuration_generation_def handle_generation_def load_snapshot_def pinned_for_def

lemma sample_entered_reachable:
  assumes "warmed \<in> {None, Some (report, 0)}"
  shows "cache_reachable (sample_entered warmed)"
proof -
  let ?start = "cache_new (snapshot_handle_new 0 [] [''eth'']) 5"
  let ?w = "case warmed of None \<Rightarrow> ?start | Some (report, g) \<Rightarrow> warm report g 5 ?start"
  have w: "cache_reachable ?w"
    using assms cache_reachable.start [of "snapshot_handle_new 0 [] [''eth'']" 5]
      cache_reachable.step [OF cache_reachable.start health_step.warm [of 0]] by auto
  have fields: "hw_readers ?w = Map.empty" "hw_handle ?w = snapshot_handle_new 0 [] [''eth'']"
    using assms by (auto simp: cache_new_def warm_def)
  have pin: "pin_for_request (hw_handle ?w) = Some (0, sample_snapshot)"
    by (simp add: fields pin_for_request_def snapshot_handle_new_def sample_snapshot_def)
  have "health_step (Enter 0 (Some (0, sample_snapshot))) ?w (?w\<lparr>hw_readers := (hw_readers ?w)(0 \<mapsto>
      \<lparr> rd_pin = Some (0, sample_snapshot), rd_pc = ReadClock,
        rd_from = configuration_generation (Some (0, sample_snapshot)) ?w \<rparr>)\<rparr>)"
    by (rule health_step.enter) (simp_all add: fields pin [unfolded fields])
  note entered = cache_reachable.step [OF w this]
  have "configuration_generation (Some (0, sample_snapshot)) ?w = 0"
    by (simp add: fields configuration_generation_def handle_generation_def load_snapshot_def pinned_for_def
        snapshot_handle_new_def sample_snapshot_def)
  with entered show ?thesis by (simp add: sample_entered_def Let_def fields)
qed

definition sample_answered :: health_world where
  "sample_answered = run_reads (Suc (Suc (Suc (Suc 0)))) 0 (sample_entered (Some ([(''eth'', True)], 0)))"

lemma sample_answered_reachable: "cache_reachable sample_answered"
  unfolding sample_answered_def
  by (rule run_reads_reachable, rule sample_entered_reachable [of _ "[(''eth'', True)]"]) simp

lemma sample_answer:
  "hw_readers sample_answered 0 =
     Some \<lparr> rd_pin = Some (0, sample_snapshot), rd_pc = ReadDone (Inr \<lparr> an_value = [(''eth'', True)], an_generation = 0,
       an_checked_at = 5, an_read_at = 5 \<rparr>), rd_from = 0 \<rparr>"
  "hw_handle sample_answered = snapshot_handle_new 0 [] [''eth'']"
  by (simp_all add: sample_answered_def sample_defs read_step_def set_reader_def fresh_enough_for_def elapsed_ms_def
      answer_cached_def PROVIDER_HEALTH_CACHE_TTL_MS_def)

section \<open>Properties\<close>

text \<open>
  C7: what a reader of the health cache is told describes the configuration it found, or a newer one that
  served before the answer. Whatever the interleaving of readers, the refresh task, configuration refreshes,
  clock changes and aborted tasks, a value that is returned was observed by a probe of the generation it
  is served for (or the startup report was labelled with it); that generation is not older than the one the reader
  saw on entry, is exactly the pinned one for a pinned reader, and the age that was accepted is
  at most two minutes.
\<close>

theorem health_answers_current:
  assumes "cache_reachable w" "hw_readers w i = Some rd" "rd_pc rd = ReadDone (Inr a)"
  shows "described w (an_value a) (an_generation a) \<and> rd_from rd \<le> an_generation a \<and>
    an_generation a \<le> configuration_generation (rd_pin rd) w \<and>
    elapsed_ms (an_read_at a) (an_checked_at a) \<le> 120000 \<and>
    (case pinned_for (hw_handle w) (rd_pin rd) of Some s \<Rightarrow> an_generation a = sn_generation s | None \<Rightarrow> True)"
proof -
  have "reader_ok w i rd" using reachable_inv [OF assms(1)] assms(2) by (simp add: cache_inv_def)
  then have ok: "answer_ok w (rd_from rd) (rd_pin rd) a" using assms(3) by (simp add: reader_ok_def result_ok_def)
  moreover have "an_generation a = sn_generation s" if "pinned_for (hw_handle w) (rd_pin rd) = Some s" for s
    using pinned_from [OF assms(1,2) that] ok that
    by (simp add: answer_ok_def in_span_def configuration_generation_def handle_generation_def load_snapshot_def)
  ultimately show ?thesis
    by (auto simp: answer_ok_def in_span_def PROVIDER_HEALTH_CACHE_STALE_MS_def PROVIDER_HEALTH_CACHE_TTL_MS_def
        PROVIDER_HEALTH_CACHE_STALE_ALLOWANCE_MS_def split: option.splits)
qed

theorem health_answers_current_witness:
  "described sample_answered [(''eth'', True)] 0 \<and> elapsed_ms 5 5 \<le> 120000"
  using health_answers_current [OF sample_answered_reachable sample_answer(1)] by auto

text \<open>
  C38: readiness never mixes two configurations. When a readiness request that pinned a snapshot reports ready, some
  chain on the roster of that snapshot is healthy in a report that was observed of, or warmed for, the same
  generation.
\<close>

theorem readiness_one_generation:
  assumes "cache_reachable w" "hw_readers w i = Some rd" "rd_pc rd = ReadDone result"
    and pin: "rd_pin rd = Some (sh_slot (hw_handle w), s)"
    and ready: "readiness (rd_pin rd) (hw_handle w) result controls"
  shows "\<exists>chain report. chain \<in> set (sn_available_chain_names s) \<and> im_get report chain = Some True \<and>
    described w report (sn_generation s)"
proof -
  from ready obtain a where a: "result = Inr a" by (auto simp: readiness_def split: sum.splits)
  have "reader_ok w i rd" using reachable_inv [OF assms(1)] assms(2) by (simp add: cache_inv_def)
  then have ok: "answer_ok w (rd_from rd) (rd_pin rd) a" using assms(3) a by (simp add: reader_ok_def result_ok_def)
  have s: "pinned_for (hw_handle w) (rd_pin rd) = Some s" by (simp add: pin pinned_for_def)
  have "an_generation a = sn_generation s"
    using pinned_from [OF assms(1,2) s] ok s
    by (simp add: answer_ok_def in_span_def configuration_generation_def handle_generation_def load_snapshot_def)
  with ok have report: "described w (an_value a) (sn_generation s)" by (simp add: answer_ok_def)
  from ready obtain chain where "chain \<in> set (sn_available_chain_names s)" "im_get (an_value a) chain = Some True"
    by (auto simp: readiness_def a load_snapshot_def s list_ex_iff split: option.splits)
  with report show ?thesis by blast
qed

theorem readiness_one_generation_witness:
  "\<exists>chain report. chain \<in> set [''eth''] \<and> im_get report chain = Some True \<and> described sample_answered report 0"
proof -
  have "readiness (Some (0, sample_snapshot)) (hw_handle sample_answered)
      (Inr \<lparr> an_value = [(''eth'', True)], an_generation = 0, an_checked_at = 5, an_read_at = 5 \<rparr>) True"
    by (simp add: sample_answer(2) readiness_def load_snapshot_def pinned_for_def snapshot_handle_new_def sample_snapshot_def)
  then have "\<exists>chain report. chain \<in> set (sn_available_chain_names sample_snapshot) \<and> im_get report chain = Some True \<and>
      described sample_answered report (sn_generation sample_snapshot)"
    by (intro readiness_one_generation [OF sample_answered_reachable sample_answer(1)])
      (simp_all add: sample_answer(2) snapshot_handle_new_def)
  then show ?thesis by (simp add: sample_snapshot_def)
qed

text \<open>
  C39: a refresh ends and no reader is stuck. In every reachable state the running refresh ends within
  twenty-one of its own steps, whatever the probes return and however often the configuration is replaced
  under it, and no step of anything but the task itself, or an abort, changes it; and a reader that is not answered
  can take a step unless the lock is held by a running refresh.
\<close>

theorem health_refresh_ends:
  assumes "cache_reachable w"
  shows "case hw_task w of
      Some t \<Rightarrow> refresh_left (tk_pc t) \<le> 21 \<and>
        (\<forall>probe. case hw_task (refresh_step probe t w) of
            None \<Rightarrow> \<exists>r. tk_pc t = Finish r
          | Some t' \<Rightarrow> tk_reader t' = tk_reader t \<and> refresh_left (tk_pc t') < refresh_left (tk_pc t)) \<and>
        (\<forall>a w'. health_step a w w' \<longrightarrow> hw_task w' = hw_task w \<or> (\<exists>p. a = Refresh p) \<or> (\<exists>m. a = Abort m))
    | None \<Rightarrow> \<forall>i rd. hw_readers w i = Some rd \<longrightarrow> (\<exists>r. rd_pc rd = ReadDone r) \<or> read_step i rd w \<noteq> None"
proof (cases "hw_task w")
  case None
  have "read_step i rd w \<noteq> None" if "hw_readers w i = Some rd" "\<nexists>r. rd_pc rd = ReadDone r" for i rd
  proof -
    have "reader_ok w i rd" using reachable_inv [OF assms] that(1) by (simp add: cache_inv_def)
    with None that(2) show ?thesis
      by (cases "rd_pc rd") (auto simp: reader_ok_def read_step_def Let_def split: option.splits)
  qed
  then have "\<forall>i rd. hw_readers w i = Some rd \<longrightarrow> (\<exists>r. rd_pc rd = ReadDone r) \<or> read_step i rd w \<noteq> None" by blast
  with None show ?thesis by simp
next
  case (Some t)
  have "task_ok w t" using reachable_inv [OF assms] Some by (simp add: cache_inv_def)
  then have "refresh_left (tk_pc t) \<le> 21" unfolding task_ok_def by (blast intro: refresh_left_bound)
  moreover have "hw_task w' = hw_task w \<or> (\<exists>p. a = Refresh p) \<or> (\<exists>m. a = Abort m)" if "health_step a w w'" for a w'
    using that Some
    by cases (auto simp: warm_def read_step_def Let_def split: reader_pc.splits option.splits if_splits)
  ultimately show ?thesis using Some refresh_step_progress by simp
qed


theorem health_refresh_ends_witness:
  "\<exists>w t. cache_reachable w \<and> hw_task w = Some t \<and> tk_pc t = Begin 3 \<and>
     (\<forall>probe. \<exists>t'. hw_task (refresh_step probe t w) = Some t' \<and> refresh_left (tk_pc t') < 21)"
proof -
  let ?w = "run_reads (Suc (Suc (Suc (Suc (Suc 0))))) 0 (sample_entered None)"
  have w: "cache_reachable ?w" by (rule run_reads_reachable [OF sample_entered_reachable]) simp
  have t: "\<exists>t. hw_task ?w = Some t \<and> tk_pc t = Begin 3"
    by (simp add: sample_defs read_step_def set_reader_def fresh_enough_for_def spawn_refresh_def
        PROBE_GENERATION_ATTEMPTS_def)
  then obtain t where t: "hw_task ?w = Some t" "tk_pc t = Begin 3" by blast
  from health_refresh_ends [OF w] have "\<forall>probe. case hw_task (refresh_step probe t ?w) of
            None \<Rightarrow> \<exists>r. tk_pc t = Finish r
          | Some t' \<Rightarrow> tk_reader t' = tk_reader t \<and> refresh_left (tk_pc t') < refresh_left (tk_pc t)"
    unfolding t(1) by simp
  then have "\<exists>t'. hw_task (refresh_step probe t ?w) = Some t' \<and> refresh_left (tk_pc t') < 21" for probe
    using t(2) by (cases "hw_task (refresh_step probe t ?w)") (force dest: spec [of _ probe])+
  with w t show ?thesis by blast
qed

end
