(* ===== verification/Health_Source.thy ===== *)
theory Health_Source
  imports Health_Cache
begin

text \<open>
  The source of health reports, \<^verbatim>\<open>pillar-runtime/src/provider_health/source.rs\<close>: the verdict on a chain from
  the entries of one probe round and the last full observation, the table of observations and the retained
  report. Rounds overlap and end in any order; each of the two tables is changed under its own lock, so the
  source is a function of the sequence of completions.
\<close>

section \<open>Verdicts\<close>

record chain_observation =
  co_generation :: nat
  co_at :: nat
  co_healthy :: bool
  co_config :: provider_config

text \<open>A round of one chain: what was probed, when it began and the entries of its providers.\<close>

record chain_round =
  cr_chain :: string
  cr_config :: provider_config
  cr_generation :: nat
  cr_checked_at :: nat
  cr_entries :: "provider_health_entry list"

definition primary_entries :: "provider_health_entry list \<Rightarrow> provider_health_entry list" where
  "primary_entries entries = filter (\<lambda>entry. \<not> he_diagnostic entry) entries"

definition fully_observed :: "provider_health_entry list \<Rightarrow> bool" where
  "fully_observed entries \<longleftrightarrow> primary_entries entries \<noteq> [] \<and> list_all he_observed (primary_entries entries)"

definition measured_healthy :: "provider_health_entry list \<Rightarrow> bool" where
  "measured_healthy entries \<longleftrightarrow> primary_entries entries \<noteq> [] \<and>
     list_all he_healthy (filter he_observed (primary_entries entries))"

type_synonym health_observations = "string \<rightharpoonup> chain_observation"

definition chain_healthy :: "health_observations \<Rightarrow> chain_round \<Rightarrow> bool" where
  "chain_healthy observations r \<longleftrightarrow> measured_healthy (cr_entries r) \<and>
     (fully_observed (cr_entries r) \<or>
      (case observations (cr_chain r) of
         Some previous \<Rightarrow> co_config previous = cr_config r \<and> co_healthy previous \<and>
           elapsed_ms (cr_checked_at r) (co_at previous) \<le> PROVIDER_HEALTH_CACHE_STALE_MS
       | None \<Rightarrow> False))"

definition newer_observation :: "chain_observation option \<Rightarrow> chain_round \<Rightarrow> bool" where
  "newer_observation previous r \<longleftrightarrow>
     (case previous of
        None \<Rightarrow> True
      | Some p \<Rightarrow> if co_config p = cr_config r then co_at p \<le> cr_checked_at r else co_generation p < cr_generation r)"

definition observe_chain :: "chain_round \<Rightarrow> health_observations \<Rightarrow> bool \<times> health_observations" where
  "observe_chain r observations =
     (let healthy = chain_healthy observations r in
      (healthy,
       if fully_observed (cr_entries r) \<and> newer_observation (observations (cr_chain r)) r
       then observations(cr_chain r \<mapsto>
              \<lparr> co_generation = cr_generation r, co_at = cr_checked_at r, co_healthy = healthy, co_config = cr_config r \<rparr>)
       else observations))"

fun observe_rounds :: "chain_round list \<Rightarrow> health_observations \<Rightarrow> health_observations" where
  "observe_rounds [] observations = observations"
| "observe_rounds (r # rounds) observations = observe_rounds rounds (snd (observe_chain r observations))"

section \<open>Reports\<close>

record chain_health_report =
  hr_healthy :: bool
  hr_checked_at :: nat
  hr_providers :: "provider_health_entry list"

type_synonym provider_health_report = "(string \<times> chain_health_report) list"

definition provider_health_snapshot_from_report :: "provider_health_report \<Rightarrow> provider_health_snapshot" where
  "provider_health_snapshot_from_report report =
     map (\<lambda>(chain_name, chain_report). (chain_name, hr_providers chain_report = [] \<or> hr_healthy chain_report)) report"

record retained_health_report =
  rh_generation :: nat
  rh_started_at :: nat
  rh_completed_at :: nat
  rh_report :: provider_health_report

definition retain_report :: "retained_health_report \<Rightarrow> retained_health_report option \<Rightarrow> retained_health_report option" where
  "retain_report completed retained =
     (if (case retained of
            None \<Rightarrow> True
          | Some r \<Rightarrow> (rh_generation r, rh_started_at r) \<le> (rh_generation completed, rh_started_at completed))
      then Some completed else retained)"

definition retained_report :: "nat \<Rightarrow> nat \<Rightarrow> retained_health_report option \<Rightarrow> provider_health_report option" where
  "retained_report generation now retained =
     (case retained of
        None \<Rightarrow> None
      | Some r \<Rightarrow> if rh_generation r = generation \<and> elapsed_ms now (rh_completed_at r) \<le> PROVIDER_HEALTH_CACHE_STALE_MS
                  then Some (rh_report r) else None)"

text \<open>
  \<open>get_provider_health_report\<close>: the generation is read first, then the cache, then the retained report of that
  generation.
\<close>

definition get_provider_health_report ::
    "nat \<Rightarrow> health_result \<Rightarrow> nat \<Rightarrow> retained_health_report option \<Rightarrow> string + provider_health_report" where
  "get_provider_health_report generation cache_read now retained =
     and_then cache_read (\<lambda>_.
       ok_or ''provider health report is unavailable for the current provider generation''
         (retained_report generation now retained))"

section \<open>What the tables hold\<close>

text \<open>The full, healthy rounds of a configuration among those that completed.\<close>

definition healthy_round :: "chain_round list \<Rightarrow> string \<Rightarrow> provider_config \<Rightarrow> nat \<Rightarrow> bool" where
  "healthy_round rounds chain config at \<longleftrightarrow>
     (\<exists>r \<in> set rounds. cr_chain r = chain \<and> cr_config r = config \<and> cr_checked_at r = at \<and> fully_observed (cr_entries r) \<and>
        list_all he_healthy (primary_entries (cr_entries r)))"

lemma full_measured:
  "fully_observed entries \<Longrightarrow> measured_healthy entries \<longleftrightarrow> list_all he_healthy (primary_entries entries)"
  by (auto simp: fully_observed_def measured_healthy_def list_all_iff)

definition observations_ok :: "chain_round list \<Rightarrow> health_observations \<Rightarrow> bool" where
  "observations_ok rounds observations \<longleftrightarrow>
     (\<forall>chain p. observations chain = Some p \<and> co_healthy p \<longrightarrow> healthy_round rounds chain (co_config p) (co_at p))"

lemma healthy_round_mono: "healthy_round rounds chain config at \<Longrightarrow> set rounds \<subseteq> set others \<Longrightarrow> healthy_round others chain config at"
  by (auto simp: healthy_round_def)

lemma observe_chain_ok:
  assumes "observations_ok rounds observations"
  shows "observations_ok (rounds @ [r]) (snd (observe_chain r observations))"
proof -
  have new: "healthy_round (rounds @ [r]) (cr_chain r) (cr_config r) (cr_checked_at r)"
    if "fully_observed (cr_entries r)" "chain_healthy observations r"
    using that full_measured [OF that(1)] by (auto simp: healthy_round_def chain_healthy_def)
  show ?thesis
    unfolding observations_ok_def
  proof (intro allI impI)
    fix chain p assume p: "snd (observe_chain r observations) chain = Some p \<and> co_healthy p"
    show "healthy_round (rounds @ [r]) chain (co_config p) (co_at p)"
    proof (cases "observations chain = Some p")
      case True
      with assms p have "healthy_round rounds chain (co_config p) (co_at p)" by (simp add: observations_ok_def)
      then show ?thesis by (rule healthy_round_mono) auto
    next
      case False
      with p new show ?thesis by (auto simp: observe_chain_def Let_def split: if_splits)
    qed
  qed
qed

lemma observe_rounds_append: "observe_rounds (xs @ ys) obs = observe_rounds ys (observe_rounds xs obs)"
  by (induction xs arbitrary: obs) simp_all

lemma observe_rounds_ok: "observations_ok rounds (observe_rounds rounds Map.empty)"
proof (induction rounds rule: rev_induct)
  case Nil
  then show ?case by (simp add: observations_ok_def)
next
  case (snoc r rounds)
  then show ?case using observe_chain_ok by (simp add: observe_rounds_append)
qed

text \<open>The retained report is the newest by generation and start, whatever the order of completion.\<close>

abbreviation report_order :: "retained_health_report \<Rightarrow> nat \<times> nat" where
  "report_order r \<equiv> (rh_generation r, rh_started_at r)"

lemma retain_fold:
  assumes "fold retain_report completed None = Some r"
  shows "r \<in> set completed \<and> (\<forall>c \<in> set completed. report_order c \<le> report_order r)"
  using assms
proof (induction completed arbitrary: r rule: rev_induct)
  case (snoc c completed)
  show ?case
  proof (cases "fold retain_report completed None")
    case None
    then have "completed = []"
      by (cases completed rule: rev_cases) (auto simp: retain_report_def split: option.splits if_splits)
    with snoc.prems show ?thesis by (simp add: retain_report_def)
  next
    case (Some q)
    with snoc.prems have "retain_report c (Some q) = Some r" by simp
    then have "r = c \<and> report_order q \<le> report_order c \<or> r = q \<and> report_order c \<le> report_order q"
      by (auto simp only: retain_report_def option.case option.inject linear split: if_splits)
    with snoc.IH [OF Some] show ?thesis by (auto simp del: less_eq_prod_simp)
  qed
qed simp

section \<open>Properties\<close>

text \<open>
  C40: a healthy verdict has a full observation behind it. Whatever the order in which overlapping rounds end, a chain
  is reported healthy only if every provider that answered in this round is healthy and there is a round
  of the same provider configuration, this one or one that began at most two minutes before it, in which every
  provider answered and was healthy.
\<close>

theorem healthy_verdict_supported:
  assumes "fst (observe_chain r (observe_rounds rounds Map.empty))"
  shows "list_all he_healthy (filter he_observed (primary_entries (cr_entries r))) \<and>
    (\<exists>at. healthy_round (r # rounds) (cr_chain r) (cr_config r) at \<and> elapsed_ms (cr_checked_at r) at \<le> 120000)"
proof -
  let ?obs = "observe_rounds rounds Map.empty"
  have h: "chain_healthy ?obs r" using assms by (simp add: observe_chain_def Let_def)
  have stale: "PROVIDER_HEALTH_CACHE_STALE_MS = 120000"
    by (simp add: PROVIDER_HEALTH_CACHE_STALE_MS_def PROVIDER_HEALTH_CACHE_TTL_MS_def PROVIDER_HEALTH_CACHE_STALE_ALLOWANCE_MS_def)
  have "\<exists>at. healthy_round (r # rounds) (cr_chain r) (cr_config r) at \<and> elapsed_ms (cr_checked_at r) at \<le> 120000"
  proof (cases "fully_observed (cr_entries r)")
    case True
    with h have "healthy_round (r # rounds) (cr_chain r) (cr_config r) (cr_checked_at r)"
      using full_measured [OF True] by (auto simp: healthy_round_def chain_healthy_def)
    then show ?thesis by (auto simp: elapsed_ms_def)
  next
    case False
    with h obtain p where p: "?obs (cr_chain r) = Some p" "co_config p = cr_config r" "co_healthy p"
      "elapsed_ms (cr_checked_at r) (co_at p) \<le> 120000"
      by (auto simp: chain_healthy_def stale split: option.splits)
    then have "healthy_round rounds (cr_chain r) (cr_config r) (co_at p)"
      using observe_rounds_ok [of rounds, unfolded observations_ok_def] by metis
    then have "healthy_round (r # rounds) (cr_chain r) (cr_config r) (co_at p)" by (rule healthy_round_mono) auto
    with p(4) show ?thesis by blast
  qed
  with h show ?thesis by (simp add: chain_healthy_def measured_healthy_def)
qed

definition sample_entry :: "bool \<Rightarrow> provider_health_entry" where
  "sample_entry observed = \<lparr> he_rank_key = ''u0'', he_observed = observed, he_diagnostic = False, he_timed_out = \<not> observed,
     he_healthy = observed, he_latency_ms = None \<rparr>"

definition sample_round :: "nat \<Rightarrow> bool \<Rightarrow> chain_round" where
  "sample_round at observed =
     \<lparr> cr_chain = ''eth'',
       cr_config = \<lparr> pc_uris = [Uri ''u0''], pc_voters = [], pc_strategy = \<lparr> all_of = [], one_of = [] \<rparr>, pc_sequencer = [] \<rparr>,
       cr_generation = 0, cr_checked_at = at, cr_entries = [sample_entry observed] \<rparr>"

theorem healthy_verdict_supported_witness:
  "\<exists>at. healthy_round [sample_round 90000 False, sample_round 0 True] ''eth'' (cr_config (sample_round 0 True)) at \<and>
     elapsed_ms 90000 at \<le> 120000"
proof -
  have "fst (observe_chain (sample_round 90000 False) (observe_rounds [sample_round 0 True] Map.empty))"
    by (simp add: observe_chain_def sample_round_def sample_entry_def chain_healthy_def measured_healthy_def
        fully_observed_def primary_entries_def newer_observation_def elapsed_ms_def Let_def
        PROVIDER_HEALTH_CACHE_STALE_MS_def PROVIDER_HEALTH_CACHE_TTL_MS_def PROVIDER_HEALTH_CACHE_STALE_ALLOWANCE_MS_def)
  from healthy_verdict_supported [OF this] show ?thesis by (simp add: sample_round_def)
qed

end
