(* ===== verification/Digest_Preimage.thy ===== *)
theory Digest_Preimage
  imports Builder_Router
begin

text \<open>
  What the payload builders of the non-EVM destinations share: little-endian integers, ULEB128
  lengths, the details object, and the contract of a builder whose digest is the Keccak hash of a
  preimage (the locale \<open>preimage_builder\<close>), from which equal digests give equal preimages.
\<close>

section \<open>Little-endian integers\<close>

text \<open>Rust's \<open>to_le_bytes\<close> / \<open>from_le_bytes\<close>.\<close>

definition u16_to_le :: "u16 \<Rightarrow> bytes" where "u16_to_le w = rev (u16_to_be w)"
definition u32_to_le :: "u32 \<Rightarrow> bytes" where "u32_to_le w = rev (u32_to_be w)"
definition u64_to_le :: "u64 \<Rightarrow> bytes" where "u64_to_le w = rev (u64_to_be w)"
definition u16_from_le :: "bytes \<Rightarrow> u16" where "u16_from_le bs = u16_from_be (rev bs)"
definition u32_from_le :: "bytes \<Rightarrow> u32" where "u32_from_le bs = u32_from_be (rev bs)"
definition u64_from_le :: "bytes \<Rightarrow> u64" where "u64_from_le bs = u64_from_be (rev bs)"

interpretation u16_le: fixed_width_codec u16_to_le u16_from_le 2
  by unfold_locales (simp_all add: u16_to_le_def u16_from_le_def u16_be.enc_dec)

interpretation u32_le: fixed_width_codec u32_to_le u32_from_le 4
  by unfold_locales (simp_all add: u32_to_le_def u32_from_le_def u32_be.enc_dec)

interpretation u64_le: fixed_width_codec u64_to_le u64_from_le 8
  by unfold_locales (simp_all add: u64_to_le_def u64_from_le_def u64_be.enc_dec)

lemmas le_lengths [simp] = u16_le.enc_length u32_le.enc_length u64_le.enc_length
lemmas le_roundtrips [simp] = u16_le.dec_enc u32_le.dec_enc u64_le.dec_enc

text \<open>\<open>i64::to_le_bytes\<close>: the two's complement of the number.\<close>

definition i64_to_le :: "int \<Rightarrow> bytes" where
  "i64_to_le i = u64_to_le (word_of_int i)"

lemma length_i64_to_le [simp]: "length (i64_to_le i) = 8"
  by (simp add: i64_to_le_def)

lemma i64_to_le_inject:
  assumes "i64_to_le i = i64_to_le j" "- (2 ^ 63) \<le> i" "i < 2 ^ 63" "- (2 ^ 63) \<le> j" "j < 2 ^ 63"
  shows "i = j"
proof -
  from assms(1) have "(word_of_int i :: u64) = word_of_int j" by (simp add: i64_to_le_def u64_le.enc_inject)
  then have "sint (word_of_int i :: u64) = sint (word_of_int j :: u64)" by simp
  moreover have "sint (word_of_int k :: u64) = k" if "- (2 ^ 63) \<le> k" "k < 2 ^ 63" for k
    using that by (simp add: sint_sbintrunc' signed_take_bit_int_eq_self)
  ultimately show ?thesis using assms by simp
qed

section \<open>ULEB128\<close>

lemma unat_drop_bit7: "unat (drop_bit 7 v :: u64) = unat v div 128"
  by (subst unsigned_drop_bit_eq) (simp add: drop_bit_eq_div take_bit_nat_eq_self unsigned_less [of v, where ?'a = nat, simplified])

lemma drop_bit7_less: "drop_bit 7 v \<noteq> 0 \<Longrightarrow> unat (drop_bit 7 v :: u64) < unat v"
proof -
  assume "drop_bit 7 v \<noteq> 0"
  then have "unat v div 128 \<noteq> 0" using unat_drop_bit7 [of v] by (metis unat_eq_zero)
  then show ?thesis unfolding unat_drop_bit7 by (intro div_less_dividend) auto
qed

text \<open>\<open>uleb128\<close> of \<^verbatim>\<open>aptos/hash.rs\<close>: the low seven bits of a group, the high bit set while more follow.\<close>

function uleb128 :: "u64 \<Rightarrow> bytes" where
  "uleb128 v =
     (let byte = ucast (v AND 0x7f); rest = drop_bit 7 v in
      if rest \<noteq> 0 then (byte OR 0x80) # uleb128 rest else [byte])"
  by pat_completeness auto
termination
  by (relation "measure unat") (auto simp: drop_bit7_less)

declare uleb128.simps [simp del]

text \<open>\<open>write_uleb128\<close> of \<^verbatim>\<open>sui_bcs.rs\<close>, which appends to its buffer.\<close>

function write_uleb128 :: "bytes \<Rightarrow> u64 \<Rightarrow> bytes" where
  "write_uleb128 out v =
     (let byte = ucast (v AND 0x7f); rest = drop_bit 7 v in
      if rest = 0 then out @ [byte] else write_uleb128 (out @ [byte OR 0x80]) rest)"
  by pat_completeness auto
termination
  by (relation "measure (\<lambda>(out, v). unat v)") (auto simp: drop_bit7_less)

declare write_uleb128.simps [simp del]

lemma write_uleb128_eq: "write_uleb128 out v = out @ uleb128 v"
proof (induction out v rule: write_uleb128.induct)
  case (1 out v)
  show ?case
  proof (cases "drop_bit 7 v = 0")
    case True
    then show ?thesis by (simp add: write_uleb128.simps [of out v] uleb128.simps [of v] Let_def)
  next
    case False
    with 1 [OF refl refl] show ?thesis
      by (simp add: write_uleb128.simps [of out v] uleb128.simps [of v] Let_def)
  qed
qed

lemma bit_group:
  "bit (127 :: int) n \<longleftrightarrow> n < 7" "bit (128 :: int) n \<longleftrightarrow> n = 7"
  "bit (127 :: nat) n \<longleftrightarrow> n < 7" "bit (128 :: nat) n \<longleftrightarrow> n = 7"
proof -
  have "(127 :: int) = mask 7" "(128 :: int) = 2 ^ 7" "(127 :: nat) = mask 7" "(128 :: nat) = 2 ^ 7"
    by (simp_all add: mask_eq_exp_minus_1)
  then show "bit (127 :: int) n \<longleftrightarrow> n < 7" "bit (128 :: int) n \<longleftrightarrow> n = 7"
    "bit (127 :: nat) n \<longleftrightarrow> n < 7" "bit (128 :: nat) n \<longleftrightarrow> n = 7"
    by (auto simp only: bit_mask_iff bit_exp_iff possible_bit_int possible_bit_nat)
qed

lemma byte_more_bit:
  "(ucast (v AND 0x7f :: u64) :: byte) AND 0x80 = 0"
  "(ucast (v AND 0x7f :: u64) OR 0x80 :: byte) AND 0x80 = 0x80"
  "(ucast (v AND 0x7f :: u64) :: byte) AND 0x7f = ucast (v AND 0x7f)"
  "(ucast (v AND 0x7f :: u64) OR 0x80 :: byte) AND 0x7f = ucast (v AND 0x7f)"
  by (rule bit_word_eqI, auto simp: bit_simps bit_group)+

lemma uleb128_split: "unat (v :: u64) = unat (ucast (v AND 0x7f) :: byte) + 128 * unat (drop_bit 7 v)"
proof -
  have "(127 :: u64) = mask 7" by (simp add: mask_eq_exp_minus_1)
  then have "v AND 0x7f = take_bit 7 v" by (simp only: take_bit_eq_mask)
  then have "unat (ucast (v AND 0x7f) :: byte) = unat v mod 128"
    by (simp only: unsigned_ucast_eq unsigned_take_bit_eq) (simp add: take_bit_eq_mod mod_mod_cancel)
  then show ?thesis by (simp add: unat_drop_bit7)
qed

section \<open>Prefix codes\<close>

text \<open>
  The contract of an encoding that can be followed by anything: on the values it is meant for, the
  value and what follows are determined by the bytes.
\<close>

locale prefix_code =
  fixes enc :: "'a \<Rightarrow> bytes" and ok :: "'a \<Rightarrow> bool"
  assumes prefix_eq: "ok a \<Longrightarrow> ok b \<Longrightarrow> enc a @ xs = enc b @ ys \<Longrightarrow> a = b \<and> xs = ys"
begin

lemma inject: "ok a \<Longrightarrow> ok b \<Longrightarrow> enc a = enc b \<Longrightarrow> a = b"
  using prefix_eq [of a b "[]" "[]"] by simp

lemma concat_prefix:
  assumes "length as = length bs" "list_all ok as" "list_all ok bs"
    "concat (map enc as) @ xs = concat (map enc bs) @ ys"
  shows "as = bs \<and> xs = ys"
  using assms
proof (induction as bs rule: list_induct2)
  case (Cons a as b bs)
  from Cons.prems have "a = b \<and> concat (map enc as) @ xs = concat (map enc bs) @ ys"
    by (intro prefix_eq) auto
  with Cons show ?case by simp
qed simp

end

lemma uleb128_prefix: "uleb128 v @ xs = uleb128 w @ ys \<Longrightarrow> v = w \<and> xs = ys"
proof (induction v arbitrary: w rule: uleb128.induct)
  case (1 v)
  define b where "b = (ucast (v AND 0x7f) :: byte)"
  define c where "c = (ucast (w AND 0x7f) :: byte)"
  let ?v = "drop_bit 7 v" and ?w = "drop_bit 7 w"
  have e: "uleb128 v = (if ?v \<noteq> 0 then (b OR 0x80) # uleb128 ?v else [b])"
    "uleb128 w = (if ?w \<noteq> 0 then (c OR 0x80) # uleb128 ?w else [c])"
    by (simp_all add: uleb128.simps [of v] uleb128.simps [of w] b_def c_def Let_def)
  have m: "b AND 0x80 = 0" "(b OR 0x80) AND 0x80 = 0x80" "b AND 0x7f = b" "(b OR 0x80) AND 0x7f = b"
    "c AND 0x80 = 0" "(c OR 0x80) AND 0x80 = 0x80" "c AND 0x7f = c" "(c OR 0x80) AND 0x7f = c"
    unfolding b_def c_def by (rule byte_more_bit)+
  have hd: "(if ?v \<noteq> 0 then b OR 0x80 else b) = (if ?w \<noteq> 0 then c OR 0x80 else c)"
    and tl: "(if ?v \<noteq> 0 then uleb128 ?v else []) @ xs = (if ?w \<noteq> 0 then uleb128 ?w else []) @ ys"
    using 1(2) unfolding e by (auto split: if_splits)
  have more: "?v = 0 \<longleftrightarrow> ?w = 0" using arg_cong [OF hd, of "\<lambda>x. x AND 0x80"] m by (auto split: if_splits)
  have low: "b = c" using arg_cong [OF hd, of "\<lambda>x. x AND 0x7f"] m by (auto split: if_splits)
  have "?v = ?w \<and> xs = ys"
  proof (cases "?v = 0")
    case True
    then show ?thesis using more tl by simp
  next
    case False
    then show ?thesis using more tl 1(1) [OF refl refl, of ?w] by simp
  qed
  moreover have "unat v = unat w"
    using low calculation uleb128_split [of v] uleb128_split [of w] unfolding b_def c_def by simp
  ultimately show ?case by (simp add: word_unat_eq_iff)
qed

interpretation uleb: prefix_code uleb128 "\<lambda>_. True"
  by unfold_locales (rule uleb128_prefix)

text \<open>A counted sequence, the count in ULEB128.\<close>

definition uleb_seq :: "('a \<Rightarrow> bytes) \<Rightarrow> 'a list \<Rightarrow> bytes" where
  "uleb_seq enc xs = uleb128 (word_of_nat (length xs)) @ concat (map enc xs)"

text \<open>What a \<open>Vec\<close> can hold.\<close>

definition vec_sized :: "'a list \<Rightarrow> bool" where
  "vec_sized xs \<longleftrightarrow> length xs < 2 ^ 63"

context prefix_code
begin

lemma uleb_seq_prefix:
  assumes "vec_sized as \<and> list_all ok as" "vec_sized bs \<and> list_all ok bs"
    and eq: "uleb_seq enc as @ xs = uleb_seq enc bs @ ys"
  shows "as = bs \<and> xs = ys"
proof -
  from eq have "uleb128 (word_of_nat (length as)) @ (concat (map enc as) @ xs) =
      uleb128 (word_of_nat (length bs)) @ (concat (map enc bs) @ ys)" by (simp add: uleb_seq_def)
  from uleb128_prefix [OF this] have n: "(word_of_nat (length as) :: u64) = word_of_nat (length bs)"
    and c: "concat (map enc as) @ xs = concat (map enc bs) @ ys" by simp_all
  have "length as < 2 ^ 64" "length bs < 2 ^ 64" using assms by (simp_all add: vec_sized_def)
  then have "length as = length bs" using n by (metis unat_of_small_nat(1))
  then show ?thesis using assms c by (intro concat_prefix) auto
qed

end

section \<open>Builders that hash a preimage\<close>

locale preimage_builder =
  fixes X :: external
    and build :: "'r \<Rightarrow> hash_call_data_result res"
    and preimage :: "'r \<Rightarrow> bytes res"
    and render :: "bytes \<Rightarrow> string"
  assumes build_digest: "map_ok hash_call_data (build r) = map_ok (\<lambda>b. render (keccak256 X b)) (preimage r)"
    and render_inject: "hex_ok X \<Longrightarrow> render a = render b \<longleftrightarrow> a = b"
begin

lemma builds_iff: "is_ok (build r) \<longleftrightarrow> is_ok (preimage r)"
  using build_digest [of r] by (cases "build r"; cases "preimage r") auto

lemma preimage_of:
  assumes "build r = Inr out"
  obtains b where "preimage r = Inr b" "hash_call_data out = render (keccak256 X b)"
  using build_digest [of r] assms by (cases "preimage r") auto

lemma equal_preimages:
  assumes "hex_ok X" "build r = Inr out" "build r' = Inr out'" "hash_call_data out = hash_call_data out'"
    "no_collision X (preimage r) (preimage r')"
  obtains b where "preimage r = Inr b" "preimage r' = Inr b"
  using assms preimage_of [OF assms(2)] preimage_of [OF assms(3)]
  by (metis no_collision_def render_inject)

end

section \<open>Rendering\<close>

text \<open>\<open>keccak256_hex_unprefixed\<close> of \<^verbatim>\<open>aptos/hash.rs\<close> and \<open>keccak0x\<close> of \<^verbatim>\<open>other_non_evm.rs\<close>.\<close>

definition keccak256_hex_unprefixed :: "external \<Rightarrow> bytes \<Rightarrow> string" where
  "keccak256_hex_unprefixed X data = hex_encode X (keccak256 X data)"

definition keccak0x :: "external \<Rightarrow> bytes \<Rightarrow> string" where
  "keccak0x X data = with_0x (hex_encode X (keccak256 X data))"

lemma keccak0x_eq: "keccak0x X data = hex0x X (keccak256 X data)"
  by (simp add: keccak0x_def hex0x_def)

text \<open>The \<open>serde_json::json!\<close> literal the builders return beside the digest, with the members that differ.\<close>

definition builder_details ::
    "string \<Rightarrow> json \<Rightarrow> string \<Rightarrow> string \<Rightarrow> string \<Rightarrow> string \<Rightarrow> (string \<times> json) list \<Rightarrow> json \<Rightarrow> lz_sent_event \<Rightarrow> json" where
  "builder_details dvn_call_data expiration v_id target uln_call_data method_name proof block_confirmation ev =
     JObject
       [(''dvnHashCallData'', JObject [(''dvnCallData'', JString dvn_call_data)]),
        (''dvnCallData'', JObject [(''expiration'', expiration), (''vid'', JString v_id),
           (''targetContract'', JString target), (''ulnCallData'', JString uln_call_data)]),
        (''ulnCallData'', JObject [(''methodName'', JString method_name), (''proof'', JObject proof),
           (''blockConfirmation'', block_confirmation)]),
        (''proof'', JObject (event_proof_json ev))]"

definition proof_members :: "evm_uln_proof \<Rightarrow> (string \<times> json) list" where
  "proof_members proof =
     [(''packetHeader'', JString (packet_header proof)), (''payloadHash'', JString (payload_hash proof))]"

definition parse_vid :: "string \<Rightarrow> u32 res" where
  "parse_vid v_id = map_ok word_of_nat (map_err Internal (parse_u32 v_id))"

lemma parse_vid_eq_Inr: "parse_vid v = Inr w \<longleftrightarrow> (\<exists>n. parse_u32 v = Inr n \<and> w = word_of_nat n)"
  by (auto simp: parse_vid_def res_simps)

lemma parse_vid_inject:
  assumes "parse_vid v = Inr w" "parse_vid v' = Inr w"
  shows "parse_u32 v = parse_u32 v'"
proof -
  from assms obtain n n' where "parse_u32 v = Inr n" "parse_u32 v' = Inr n'"
    "(word_of_nat n :: u32) = word_of_nat n'" by (auto simp: parse_vid_eq_Inr)
  then show ?thesis using parse_u32_less unat_of_small_nat(2) by metis
qed

end
