(* ===== verification/Sui_Bcs.thy ===== *)
theory Sui_Bcs
  imports Digest_Preimage
begin

text \<open>
  \<^verbatim>\<open>pillar-layerzero/src/sui_bcs.rs\<close>: the BCS encoding of the transaction a read-only Sui or IOTA call
  sends, and the decoders of the values it returns. An array \<open>[u8; 32]\<close> is a byte string of that length.
\<close>

section \<open>Transactions\<close>

definition SUI_DEV_INSPECT_MOCK_SENDER :: string where
  "SUI_DEV_INSPECT_MOCK_SENDER = ''0x1234567890123456789012345678901234567890123456789012345678901234''"

record sui_shared_object =
  object_id :: bytes
  initial_shared_version :: u64
  mutable :: bool

datatype sui_call_arg = Pure bytes | Shared sui_shared_object

datatype sui_argument = Input u16 | Result u16

record sui_move_call =
  mc_package :: bytes
  mc_module :: string
  mc_function :: string
  mc_arguments :: "sui_argument list"

definition write_string :: "bytes \<Rightarrow> string \<Rightarrow> bytes" where
  "write_string out v = write_uleb128 out (word_of_nat (length v)) @ string_bytes v"

definition byte_of_bool :: "bool \<Rightarrow> byte" where
  "byte_of_bool b = (if b then 1 else 0)"

fun write_call_arg :: "bytes \<Rightarrow> sui_call_arg \<Rightarrow> bytes" where
  "write_call_arg out (Pure bs) = write_uleb128 (write_uleb128 out 0) (word_of_nat (length bs)) @ bs"
| "write_call_arg out (Shared object) =
     write_uleb128 (write_uleb128 out 1) 1 @ object_id object
     @ u64_to_le (initial_shared_version object) @ [byte_of_bool (mutable object)]"

fun write_argument :: "bytes \<Rightarrow> sui_argument \<Rightarrow> bytes" where
  "write_argument out (Input index) = write_uleb128 out 1 @ u16_to_le index"
| "write_argument out (Result index) = write_uleb128 out 2 @ u16_to_le index"

definition write_command :: "bytes \<Rightarrow> sui_move_call \<Rightarrow> bytes" where
  "write_command out command =
     (let out = write_uleb128 out 0 @ mc_package command;
          out = write_string out (mc_module command);
          out = write_string out (mc_function command);
          out = write_uleb128 out 0;
          out = write_uleb128 out (word_of_nat (length (mc_arguments command))) in
      foldl write_argument out (mc_arguments command))"

definition encode_sui_transaction_kind :: "sui_call_arg list \<Rightarrow> sui_move_call list \<Rightarrow> bytes" where
  "encode_sui_transaction_kind inputs commands =
     (let out = write_uleb128 [] 0;
          out = write_uleb128 out (word_of_nat (length inputs));
          out = foldl write_call_arg out inputs;
          out = write_uleb128 out (word_of_nat (length commands)) in
      foldl write_command out commands)"

definition sui_pure_address :: "bytes \<Rightarrow> bytes" where
  "sui_pure_address address = address"

definition sui_pure_u32 :: "u32 \<Rightarrow> bytes" where
  "sui_pure_u32 v = u32_to_le v"

definition sui_pure_bytes :: "bytes \<Rightarrow> bytes" where
  "sui_pure_bytes bs = write_uleb128 [] (word_of_nat (length bs)) @ bs"

definition sui_address_from_hex :: "external \<Rightarrow> string \<Rightarrow> bytes res" where
  "sui_address_from_hex X v =
     (let body = strip_0x v in
      if body = [] \<or> 64 < length body then Inl (Internal (''invalid Sui address '' @ v))
      else map_err (\<lambda>error. Internal (''invalid Sui address '' @ v @ '': '' @ error))
             (hex_decode X (replicate (64 - length body) CHR ''0'' @ body)))"

section \<open>Values\<close>

record sui_uln_config =
  sui_confirmations :: u64
  required_dvns :: "bytes list"
  optional_dvns :: "bytes list"
  optional_dvn_threshold :: byte

record reader =
  rd_bytes :: bytes
  rd_offset :: nat

definition overrun :: app_core_error where
  "overrun = Internal ''Sui BCS value ended early''"

definition reader_new :: "bytes \<Rightarrow> reader" where
  "reader_new bs = \<lparr> rd_bytes = bs, rd_offset = 0 \<rparr>"

definition reader_take :: "reader \<Rightarrow> nat \<Rightarrow> (bytes \<times> reader) res" where
  "reader_take r len =
     (let stop = rd_offset r + len in
      if usize_max < stop then Inl overrun
      else if length (rd_bytes r) < stop then Inl overrun
      else Inr (slice (rd_offset r) stop (rd_bytes r), r\<lparr>rd_offset := stop\<rparr>))"

text \<open>The loop of \<open>uleb128\<close>; \<open>checked_shl\<close> refuses a shift of the width or more.\<close>

function reader_uleb128_loop :: "reader \<Rightarrow> u64 \<Rightarrow> nat \<Rightarrow> (u64 \<times> reader) res" where
  "reader_uleb128_loop r acc shift =
     (case reader_take r 1 of
        Inl e \<Rightarrow> Inl e
      | Inr (taken, r') \<Rightarrow>
          (case taken of
             [] \<Rightarrow> Inl overrun
           | byte # _ \<Rightarrow>
               if 64 \<le> shift then Inl (Internal ''Sui BCS ULEB overflow'')
               else let acc' = acc OR push_bit shift (ucast (byte AND 0x7f)) in
                 if byte AND 0x80 = 0 then Inr (acc', r')
                 else reader_uleb128_loop r' acc' (shift + 7)))"
  by pat_completeness auto
termination
  by (relation "measure (\<lambda>(r, acc, shift). length (rd_bytes r) - rd_offset r)")
    (auto simp: reader_take_def Let_def split: if_splits)

declare reader_uleb128_loop.simps [simp del]

definition reader_uleb128 :: "reader \<Rightarrow> (u64 \<times> reader) res" where
  "reader_uleb128 r = reader_uleb128_loop r 0 0"

definition reader_u64_le :: "reader \<Rightarrow> (u64 \<times> reader) res" where
  "reader_u64_le r = map_ok (\<lambda>(bs, r'). (u64_from_le bs, r')) (reader_take r 8)"

definition reader_address :: "reader \<Rightarrow> (bytes \<times> reader) res" where
  "reader_address r = reader_take r 32"

fun reader_addresses :: "nat \<Rightarrow> reader \<Rightarrow> (bytes list \<times> reader) res" where
  "reader_addresses 0 r = Inr ([], r)"
| "reader_addresses (Suc n) r =
     and_then (reader_address r) (\<lambda>(address, r').
     and_then (reader_addresses n r') (\<lambda>(rest, r''). Inr (address # rest, r'')))"

definition reader_address_vec :: "reader \<Rightarrow> (bytes list \<times> reader) res" where
  "reader_address_vec r = and_then (reader_uleb128 r) (\<lambda>(len, r'). reader_addresses (unat len) r')"

definition decode_sui_u8 :: "bytes \<Rightarrow> byte res" where
  "decode_sui_u8 bs =
     (case bs of [v] \<Rightarrow> Inr v
      | _ \<Rightarrow> Inl (Internal (''expected one BCS u8, got '' @ show_nat (length bs) @ '' bytes'')))"

definition decode_sui_u64 :: "bytes \<Rightarrow> u64 res" where
  "decode_sui_u64 bs =
     and_then (reader_u64_le (reader_new bs)) (\<lambda>(v, r).
       if rd_offset r \<noteq> length bs then Inl (Internal ''trailing bytes after BCS u64'') else Inr v)"

definition decode_sui_address :: "bytes \<Rightarrow> bytes res" where
  "decode_sui_address bs =
     and_then (reader_address (reader_new bs)) (\<lambda>(v, r).
       if rd_offset r \<noteq> length bs then Inl (Internal ''trailing bytes after BCS address'') else Inr v)"

definition decode_sui_uln_config :: "bytes \<Rightarrow> sui_uln_config res" where
  "decode_sui_uln_config bs =
     and_then (reader_u64_le (reader_new bs)) (\<lambda>(c, r).
     and_then (reader_address_vec r) (\<lambda>(required, r).
     and_then (reader_address_vec r) (\<lambda>(optional, r).
     and_then (reader_take r 1) (\<lambda>(taken, r).
       case taken of
         [] \<Rightarrow> Inl overrun
       | threshold # _ \<Rightarrow>
           if rd_offset r \<noteq> length bs then Inl (Internal ''trailing bytes after BCS UlnConfig'')
           else Inr \<lparr> sui_confirmations = c, required_dvns = required, optional_dvns = optional,
                      optional_dvn_threshold = threshold \<rparr>))))"

section \<open>A transaction is determined by its bytes\<close>

definition enc_string :: "string \<Rightarrow> bytes" where
  "enc_string s = uleb_seq (\<lambda>b. [b]) (string_bytes s)"

fun enc_call_arg :: "sui_call_arg \<Rightarrow> bytes" where
  "enc_call_arg (Pure bs) = uleb128 0 @ uleb_seq (\<lambda>b. [b]) bs"
| "enc_call_arg (Shared object) = uleb128 1 @ uleb128 1 @ object_id object
     @ u64_to_le (initial_shared_version object) @ [byte_of_bool (mutable object)]"

fun enc_argument :: "sui_argument \<Rightarrow> bytes" where
  "enc_argument (Input index) = uleb128 1 @ u16_to_le index"
| "enc_argument (Result index) = uleb128 2 @ u16_to_le index"

definition enc_move_call :: "sui_move_call \<Rightarrow> bytes" where
  "enc_move_call c = uleb128 0 @ mc_package c @ enc_string (mc_module c) @ enc_string (mc_function c)
     @ uleb128 0 @ uleb_seq enc_argument (mc_arguments c)"

lemma foldl_append: "(\<And>out x. f out x = out @ g x) \<Longrightarrow> foldl f out xs = out @ concat (map g xs)"
  by (induction xs arbitrary: out) auto

lemma concat_singletons: "concat (map (\<lambda>b. [b]) bs) = bs"
  by (induction bs) auto

lemma length_string_bytes [simp]: "length (string_bytes s) = length s"
  by (simp add: string_bytes_def)

lemma write_eqs:
  "write_string out s = out @ enc_string s"
  "write_call_arg out a = out @ enc_call_arg a"
  "write_argument out b = out @ enc_argument b"
  subgoal by (simp add: write_string_def enc_string_def uleb_seq_def write_uleb128_eq concat_singletons)
  subgoal by (cases a) (simp_all add: write_uleb128_eq uleb_seq_def concat_singletons)
  subgoal by (cases b) (simp_all add: write_uleb128_eq)
  done

lemma write_command_eq: "write_command out c = out @ enc_move_call c"
  by (simp add: write_command_def Let_def foldl_append [where f = write_argument, OF write_eqs(3)]
      enc_move_call_def uleb_seq_def write_eqs write_uleb128_eq)

lemma encode_kind_eq:
  "encode_sui_transaction_kind inputs commands =
     uleb128 0 @ uleb_seq enc_call_arg inputs @ uleb_seq enc_move_call commands"
  by (simp add: encode_sui_transaction_kind_def Let_def write_uleb128_eq uleb_seq_def
      foldl_append [where f = write_call_arg, OF write_eqs(2)] foldl_append [where f = write_command, OF write_command_eq])

interpretation byte_code: prefix_code "\<lambda>b. [b]" "\<lambda>_. True"
  by unfold_locales simp

lemma string_bytes_inject: "string_bytes s = string_bytes t \<longleftrightarrow> s = t"
proof
  assume "string_bytes s = string_bytes t"
  then have "map (char_of \<circ> unat) (string_bytes s) = map (char_of \<circ> unat) (string_bytes t)" by simp
  moreover have "map (char_of \<circ> unat) (string_bytes u) = u" for u
    by (induction u) (simp_all add: string_bytes_def unat_of_nat)
  ultimately show "s = t" by simp
qed simp

interpretation string_code: prefix_code enc_string vec_sized
proof (unfold_locales, goal_cases)
  case (1 a b xs ys)
  then have "string_bytes a = string_bytes b \<and> xs = ys"
    unfolding enc_string_def by (intro byte_code.uleb_seq_prefix) (simp_all add: vec_sized_def string_bytes_def list_all_iff)
  then show ?case by (simp add: string_bytes_inject)
qed

text \<open>The values Rust's types admit.\<close>

fun call_arg_ok :: "sui_call_arg \<Rightarrow> bool" where
  "call_arg_ok (Pure bs) = vec_sized bs"
| "call_arg_ok (Shared object) = (length (object_id object) = 32)"

definition move_call_ok :: "sui_move_call \<Rightarrow> bool" where
  "move_call_ok c \<longleftrightarrow> length (mc_package c) = 32 \<and> vec_sized (mc_module c) \<and> vec_sized (mc_function c) \<and>
     vec_sized (mc_arguments c)"

lemma uleb128_small: "unat (v :: u64) < 128 \<Longrightarrow> uleb128 v = [ucast v]"
proof -
  assume v: "unat v < 128"
  then have "drop_bit 7 v = 0" using unat_drop_bit7 [of v] by (simp add: unat_eq_zero)
  moreover have "(ucast (v AND 0x7f) :: byte) = ucast v"
    using uleb128_split [of v] v calculation by (simp add: word_unat_eq_iff unsigned_ucast_eq take_bit_eq_mod)
  ultimately show ?thesis by (simp add: uleb128.simps [of v] Let_def)
qed

lemma uleb128_tags: "uleb128 0 = [0]" "uleb128 1 = [1]" "uleb128 2 = [2]"
  by (simp_all add: uleb128_small)

interpretation call_arg_code: prefix_code enc_call_arg call_arg_ok
proof (unfold_locales, goal_cases)
  case (1 a b xs ys)
  show ?case
  proof (cases a)
    case (Pure as)
    with 1 obtain bs where b: "b = Pure bs" by (cases b) (auto simp: uleb128_tags)
    have "as = bs \<and> xs = ys"
      using 1 Pure b by (intro byte_code.uleb_seq_prefix) (simp_all add: list_all_iff uleb128_tags)
    with Pure b show ?thesis by simp
  next
    case (Shared object)
    with 1 obtain other where b: "b = Shared other" by (cases b) (auto simp: uleb128_tags)
    have "object_id object = object_id other \<and> initial_shared_version object = initial_shared_version other \<and>
        mutable object = mutable other \<and> xs = ys"
      using 1 Shared b by (auto simp: append_eq_append_conv u64_le.enc_inject byte_of_bool_def split: if_splits)
    with Shared b show ?thesis by (auto intro: sui_shared_object.equality)
  qed
qed

interpretation argument_code: prefix_code enc_argument "\<lambda>_. True"
proof (unfold_locales, goal_cases)
  case (1 a b xs ys)
  then show ?case
    by (cases a; cases b) (auto simp: uleb128_tags append_eq_append_conv u16_le.enc_inject)
qed

interpretation move_call_code: prefix_code enc_move_call move_call_ok
proof (unfold_locales, goal_cases)
  case (1 a b xs ys)
  then have "mc_package a = mc_package b" and
    s: "enc_string (mc_module a) @ enc_string (mc_function a) @ uleb128 0 @ uleb_seq enc_argument (mc_arguments a) @ xs =
        enc_string (mc_module b) @ enc_string (mc_function b) @ uleb128 0 @ uleb_seq enc_argument (mc_arguments b) @ ys"
    by (simp_all add: enc_move_call_def move_call_ok_def append_eq_append_conv)
  from string_code.prefix_eq [OF _ _ s] 1 have m: "mc_module a = mc_module b" and
    f: "enc_string (mc_function a) @ uleb128 0 @ uleb_seq enc_argument (mc_arguments a) @ xs =
        enc_string (mc_function b) @ uleb128 0 @ uleb_seq enc_argument (mc_arguments b) @ ys"
    by (simp_all add: move_call_ok_def)
  from string_code.prefix_eq [OF _ _ f] 1 have "mc_function a = mc_function b" and
    r: "uleb_seq enc_argument (mc_arguments a) @ xs = uleb_seq enc_argument (mc_arguments b) @ ys"
    by (simp_all add: move_call_ok_def)
  moreover from argument_code.uleb_seq_prefix [OF _ _ r] 1 have "mc_arguments a = mc_arguments b \<and> xs = ys"
    by (simp add: move_call_ok_def list_all_iff)
  ultimately show ?case using m \<open>mc_package a = mc_package b\<close> by (auto intro: sui_move_call.equality)
qed

text \<open>
  C19: the bytes sent to a Sui node determine the call. Two programmable transactions whose inputs and
  commands are values of the source's types have the same BCS bytes only if their inputs and commands
  are the same, so no two different calls are confused on the wire.
\<close>

theorem sui_transaction_kind_injective:
  assumes "vec_sized inputs \<and> list_all call_arg_ok inputs" "vec_sized inputs' \<and> list_all call_arg_ok inputs'"
    and "vec_sized commands \<and> list_all move_call_ok commands" "vec_sized commands' \<and> list_all move_call_ok commands'"
    and eq: "encode_sui_transaction_kind inputs commands = encode_sui_transaction_kind inputs' commands'"
  shows "inputs = inputs' \<and> commands = commands'"
proof -
  from eq have "uleb_seq enc_call_arg inputs @ uleb_seq enc_move_call commands =
      uleb_seq enc_call_arg inputs' @ uleb_seq enc_move_call commands'" by (simp add: encode_kind_eq)
  then have "inputs = inputs'" and c: "uleb_seq enc_move_call commands @ [] = uleb_seq enc_move_call commands' @ []"
    using call_arg_code.uleb_seq_prefix [OF assms(1,2)] by auto
  then show ?thesis using move_call_code.uleb_seq_prefix [OF assms(3,4) c] by simp
qed

definition sample_call :: sui_move_call where
  "sample_call = \<lparr> mc_package = replicate 32 1, mc_module = ''uln_302'', mc_function = ''verifiable'',
     mc_arguments = [Input 0, Input 1] \<rparr>"

theorem sui_transaction_kind_injective_witness:
  "encode_sui_transaction_kind [Pure (sui_pure_u32 30101)] [sample_call]
     = encode_sui_transaction_kind [Pure (sui_pure_u32 30101)] [sample_call] \<and>
   encode_sui_transaction_kind [Pure [1]] [sample_call] \<noteq> encode_sui_transaction_kind [Pure [1, 0]] [sample_call]"
proof -
  have ok: "vec_sized [sample_call] \<and> list_all move_call_ok [sample_call]"
    by (simp add: vec_sized_def move_call_ok_def sample_call_def)
  have "vec_sized [Pure bs] \<and> list_all call_arg_ok [Pure bs]" if "length bs < 3" for bs
    using that by (simp add: vec_sized_def)
  from sui_transaction_kind_injective [OF this [of "[1]"] this [of "[1, 0]"] ok ok] show ?thesis by auto
qed

section \<open>Reading back what was written\<close>

definition reader_at :: "bytes \<Rightarrow> bytes \<Rightarrow> reader" where
  "reader_at consumed rest = \<lparr> rd_bytes = consumed @ rest, rd_offset = length consumed \<rparr>"

lemma reader_new_at: "reader_new bs = reader_at [] bs"
  by (simp add: reader_new_def reader_at_def)

lemma reader_take_at:
  assumes "length (pre @ xs @ rest) < 2 ^ 63" "n = length xs"
  shows "reader_take (reader_at pre (xs @ rest)) n = Inr (xs, reader_at (pre @ xs) rest)"
  using assms by (simp add: reader_take_def reader_at_def slice_def usize_max_def Let_def)

lemma reader_uleb128_step:
  assumes "length (pre @ b # rest) < 2 ^ 63"
  shows "reader_uleb128_loop (reader_at pre (b # rest)) acc shift =
     (if 64 \<le> shift then Inl (Internal ''Sui BCS ULEB overflow'')
      else let acc' = acc OR push_bit shift (ucast (b AND 0x7f)); r = reader_at (pre @ [b]) rest in
        if b AND 0x80 = 0 then Inr (acc', r) else reader_uleb128_loop r acc' (shift + 7))"
proof -
  have "reader_take (reader_at pre ([b] @ rest)) 1 = Inr ([b], reader_at (pre @ [b]) rest)"
    using assms by (intro reader_take_at) simp_all
  then show ?thesis by (subst reader_uleb128_loop.simps) (simp add: Let_def)
qed

lemma group_join: "(v AND 0x7f) OR push_bit 7 (drop_bit 7 v) = (v :: u64)"
proof (rule bit_word_eqI)
  fix n
  assume "n < LENGTH(64)"
  then show "bit ((v AND 0x7f) OR push_bit 7 (drop_bit 7 v)) n = bit v n"
    by (cases "n < 7") (auto simp: bit_simps bit_group)
qed

lemma ucast_group: "ucast (ucast (v AND 0x7f :: u64) :: byte) = v AND 0x7f"
  by (rule bit_word_eqI) (auto simp: bit_simps bit_group)

lemma reader_uleb128_loop_at:
  assumes "length (pre @ uleb128 v @ rest) < 2 ^ 63" "shift < 64" "unat v < 2 ^ (64 - shift)"
  shows "reader_uleb128_loop (reader_at pre (uleb128 v @ rest)) acc shift =
     Inr (acc OR push_bit shift v, reader_at (pre @ uleb128 v) rest)"
  using assms
proof (induction v arbitrary: pre acc shift rule: uleb128.induct)
  case (1 v)
  define b where "b = (ucast (v AND 0x7f) :: byte)"
  let ?v = "drop_bit 7 v"
  have m: "b AND 0x80 = 0" "(b OR 0x80) AND 0x80 = 0x80" "b AND 0x7f = b" "(b OR 0x80) AND 0x7f = b"
    "ucast b = v AND 0x7f" unfolding b_def by (rule byte_more_bit ucast_group)+
  have e: "uleb128 v = (if ?v \<noteq> 0 then (b OR 0x80) # uleb128 ?v else [b])"
    by (simp add: uleb128.simps [of v] b_def Let_def)
  show ?case
  proof (cases "?v = 0")
    case True
    then have "v AND 0x7f = v" using group_join [of v] by simp
    with True e m 1(2,3) reader_uleb128_step [of pre b rest acc shift] show ?thesis by (simp add: Let_def)
  next
    case False
    have "unat ?v \<noteq> 0" using False by (simp add: unat_eq_zero)
    then have big: "128 \<le> unat v" by (simp add: unat_drop_bit7)
    have shift: "shift + 7 < 64"
    proof (rule ccontr)
      assume "\<not> shift + 7 < 64"
      then have "(2 :: nat) ^ (64 - shift) \<le> 2 ^ 7" by (intro power_increasing) auto
      with big 1(4) show False by simp
    qed
    have "(2 :: nat) ^ (64 - shift) = 2 ^ (64 - (shift + 7)) * 128"
    proof -
      have "64 - shift = 64 - (shift + 7) + 7" using shift by simp
      then have "(2 :: nat) ^ (64 - shift) = 2 ^ (64 - (shift + 7)) * 2 ^ 7" by (simp only: power_add)
      then show ?thesis by simp
    qed
    then have small: "unat ?v < 2 ^ (64 - (shift + 7))"
      using 1(4) unat_drop_bit7 [of v] by (simp add: less_mult_imp_div_less)
    have ih: "reader_uleb128_loop (reader_at (pre @ [b OR 0x80]) (uleb128 ?v @ rest)) acc' (shift + 7) =
        Inr (acc' OR push_bit (shift + 7) ?v, reader_at ((pre @ [b OR 0x80]) @ uleb128 ?v) rest)" for acc'
      using 1(2) e False shift small by (intro 1(1) [OF refl refl]) simp_all
    have "push_bit shift (v AND 0x7f) OR push_bit (shift + 7) ?v = push_bit shift v"
      by (metis group_join push_bit_or push_bit_push_bit)
    then have join: "(acc OR push_bit shift (v AND 0x7f)) OR push_bit (shift + 7) ?v = acc OR push_bit shift v"
      by (simp only: or.assoc)
    have "reader_uleb128_loop (reader_at pre (uleb128 v @ rest)) acc shift =
        reader_uleb128_loop (reader_at (pre @ [b OR 0x80]) (uleb128 ?v @ rest)) (acc OR push_bit shift (v AND 0x7f)) (shift + 7)"
      using reader_uleb128_step [of pre "b OR 0x80" "uleb128 ?v @ rest" acc shift] 1(2,3) False e m by (simp add: Let_def)
    then show ?thesis using False e by (simp only: ih join) simp
  qed
qed

lemma reader_uleb128_at:
  assumes "length (pre @ uleb128 v @ rest) < 2 ^ 63"
  shows "reader_uleb128 (reader_at pre (uleb128 v @ rest)) = Inr (v, reader_at (pre @ uleb128 v) rest)"
  using reader_uleb128_loop_at [OF assms, of 0 0] unsigned_less [of v, where ?'a = nat]
  by (simp add: reader_uleb128_def)

lemma reader_addresses_at:
  assumes "list_all (\<lambda>a. length a = 32) as" "length (pre @ concat as @ rest) < 2 ^ 63"
  shows "reader_addresses (length as) (reader_at pre (concat as @ rest)) = Inr (as, reader_at (pre @ concat as) rest)"
  using assms
proof (induction as arbitrary: pre)
  case (Cons a as)
  then have "reader_address (reader_at pre (a @ concat as @ rest)) = Inr (a, reader_at (pre @ a) (concat as @ rest))"
    unfolding reader_address_def by (intro reader_take_at) simp_all
  with Cons show ?case by simp
qed simp

lemma reader_address_vec_at:
  assumes "list_all (\<lambda>a. length a = 32) as" "vec_sized as" "length (pre @ uleb_seq (\<lambda>a. a) as @ rest) < 2 ^ 63"
  shows "reader_address_vec (reader_at pre (uleb_seq (\<lambda>a. a) as @ rest)) =
     Inr (as, reader_at (pre @ uleb_seq (\<lambda>a. a) as) rest)"
proof -
  let ?n = "word_of_nat (length as) :: u64"
  have n: "unat ?n = length as" using assms(2) by (intro unat_of_small_nat) (simp add: vec_sized_def)
  have "reader_uleb128 (reader_at pre (uleb128 ?n @ concat as @ rest)) =
      Inr (?n, reader_at (pre @ uleb128 ?n) (concat as @ rest))"
    using assms(3) by (intro reader_uleb128_at) (simp add: uleb_seq_def)
  then show ?thesis
    using reader_addresses_at [OF assms(1), of "pre @ uleb128 ?n" rest] assms(3) n
    by (simp add: reader_address_vec_def uleb_seq_def)
qed

text \<open>The BCS layout of a \<open>UlnConfig\<close>, as the schema has it.\<close>

definition encode_uln_config :: "sui_uln_config \<Rightarrow> bytes" where
  "encode_uln_config c = u64_to_le (sui_confirmations c) @ uleb_seq (\<lambda>a. a) (required_dvns c)
     @ uleb_seq (\<lambda>a. a) (optional_dvns c) @ [optional_dvn_threshold c]"

text \<open>
  The decoder of a \<open>UlnConfig\<close> reads back every configuration the schema can carry, and refuses the
  same bytes with anything after them.
\<close>

theorem sui_uln_config_roundtrip:
  assumes "list_all (\<lambda>a. length a = 32) (required_dvns c)" "list_all (\<lambda>a. length a = 32) (optional_dvns c)"
    and size: "length (encode_uln_config c @ extra) < 2 ^ 63"
  shows "decode_sui_uln_config (encode_uln_config c @ extra) =
     (if extra = [] then Inr c else Inl (Internal ''trailing bytes after BCS UlnConfig''))"
proof -
  let ?e = "\<lambda>as. uleb_seq (\<lambda>a. a) as"
  let ?c = "u64_to_le (sui_confirmations c)" and ?r = "?e (required_dvns c)" and ?o = "?e (optional_dvns c)"
  let ?t = "[optional_dvn_threshold c]"
  have len: "length as \<le> length (?e as)" if "list_all (\<lambda>a. length a = 32) as" for as :: "bytes list"
  proof -
    have "length as \<le> length (concat as)" using that by (induction as) auto
    then show ?thesis by (simp add: uleb_seq_def)
  qed
  have sized: "vec_sized (required_dvns c)" "vec_sized (optional_dvns c)"
    using len [OF assms(1)] len [OF assms(2)] size by (simp_all add: vec_sized_def encode_uln_config_def)
  have "reader_take (reader_at [] (?c @ ?r @ ?o @ ?t @ extra)) 8 = Inr (?c, reader_at ([] @ ?c) (?r @ ?o @ ?t @ extra))"
    using size by (intro reader_take_at) (simp_all add: encode_uln_config_def)
  then have "reader_u64_le (reader_at [] (?c @ ?r @ ?o @ ?t @ extra)) = Inr (sui_confirmations c, reader_at ?c (?r @ ?o @ ?t @ extra))"
    by (simp only: reader_u64_le_def map_ok.simps prod.case le_roundtrips append_Nil)
  moreover have "reader_address_vec (reader_at ?c (?r @ ?o @ ?t @ extra)) =
      Inr (required_dvns c, reader_at (?c @ ?r) (?o @ ?t @ extra))"
    using size by (intro reader_address_vec_at [OF assms(1) sized(1)]) (simp add: encode_uln_config_def)
  moreover have "reader_address_vec (reader_at (?c @ ?r) (?o @ ?t @ extra)) =
      Inr (optional_dvns c, reader_at ((?c @ ?r) @ ?o) (?t @ extra))"
    using size by (intro reader_address_vec_at [OF assms(2) sized(2)]) (simp add: encode_uln_config_def)
  moreover have "reader_take (reader_at ((?c @ ?r) @ ?o) (?t @ extra)) 1 = Inr (?t, reader_at (((?c @ ?r) @ ?o) @ ?t) extra)"
    using size by (intro reader_take_at) (simp_all add: encode_uln_config_def)
  moreover have "rd_offset (reader_at (((?c @ ?r) @ ?o) @ ?t) extra) \<noteq> length (encode_uln_config c @ extra) \<longleftrightarrow> extra \<noteq> []"
    by (simp add: reader_at_def encode_uln_config_def)
  ultimately show ?thesis
    by (simp only: decode_sui_uln_config_def reader_new_at encode_uln_config_def append_assoc and_then.simps
        prod.case list.case if_not_P not_True_eq_False) simp
qed

definition sample_uln_config :: sui_uln_config where
  "sample_uln_config = \<lparr> sui_confirmations = 15, required_dvns = [replicate 32 170],
     optional_dvns = [replicate 32 187, replicate 32 204], optional_dvn_threshold = 1 \<rparr>"

theorem sui_uln_config_roundtrip_witness:
  "decode_sui_uln_config (encode_uln_config sample_uln_config) = Inr sample_uln_config"
proof -
  have "length (encode_uln_config sample_uln_config @ []) < 2 ^ 63"
    by (simp add: encode_uln_config_def sample_uln_config_def uleb_seq_def uleb128_small)
  then show ?thesis
    using sui_uln_config_roundtrip [of sample_uln_config "[]"] by (simp add: sample_uln_config_def)
qed

section \<open>Lengths that are too long\<close>

text \<open>The number a sequence of groups stands for.\<close>

fun groups_value :: "bytes \<Rightarrow> nat" where
  "groups_value [] = 0"
| "groups_value (b # bs) = unat (b AND 0x7f) + 128 * groups_value bs"

lemma group_word: "word_of_nat (unat (b AND 0x7f :: byte) + 128 * k) = (ucast (b AND 0x7f) OR push_bit 7 (word_of_nat k) :: u64)"
proof -
  have "ucast (b AND 0x7f :: byte) AND push_bit 7 (word_of_nat k) = (0 :: u64)"
    by (rule bit_word_eqI) (auto simp: bit_simps bit_group)
  then have "ucast (b AND 0x7f :: byte) OR push_bit 7 (word_of_nat k) = (ucast (b AND 0x7f) + push_bit 7 (word_of_nat k) :: u64)"
    by (simp only: disjunctive_add_eq_or)
  also have "\<dots> = word_of_nat (unat (b AND 0x7f)) + word_of_nat (128 * k)"
    by (simp add: push_bit_eq_mult mult.commute)
  finally show ?thesis by simp
qed

lemma reader_uleb128_groups:
  assumes "length (pre @ bs @ b # rest) < 2 ^ 63" "list_all (\<lambda>b. b AND 0x80 \<noteq> 0) bs" "b AND 0x80 = 0"
  shows "reader_uleb128_loop (reader_at pre (bs @ b # rest)) acc shift =
     (if shift + 7 * length bs < 64
      then Inr (acc OR push_bit shift (word_of_nat (groups_value (bs @ [b]))), reader_at (pre @ bs @ [b]) rest)
      else Inl (Internal ''Sui BCS ULEB overflow''))"
  using assms
proof (induction bs arbitrary: pre acc shift)
  case Nil
  then show ?case using reader_uleb128_step [of pre b rest acc shift] by (simp add: Let_def)
next
  case (Cons c bs)
  let ?v = "word_of_nat (groups_value (bs @ [b])) :: u64"
  have "(acc OR push_bit shift (ucast (c AND 0x7f))) OR push_bit (shift + 7) ?v =
      acc OR push_bit shift (ucast (c AND 0x7f) OR push_bit 7 ?v)"
    by (simp only: push_bit_or push_bit_push_bit or.assoc)
  then have join: "(acc OR push_bit shift (ucast (c AND 0x7f))) OR push_bit (shift + 7) ?v =
      acc OR push_bit shift (word_of_nat (groups_value ((c # bs) @ [b])))"
    by (simp only: group_word groups_value.simps append_Cons)
  show ?case
  proof (cases "64 \<le> shift")
    case True
    then show ?thesis using Cons.prems reader_uleb128_step [of pre c "bs @ b # rest" acc shift] by simp
  next
    case False
    then have "reader_uleb128_loop (reader_at pre ((c # bs) @ b # rest)) acc shift =
        reader_uleb128_loop (reader_at (pre @ [c]) (bs @ b # rest)) (acc OR push_bit shift (ucast (c AND 0x7f))) (shift + 7)"
      using Cons.prems reader_uleb128_step [of pre c "bs @ b # rest" acc shift] by (simp add: Let_def)
    also have "\<dots> = (if shift + 7 + 7 * length bs < 64
        then Inr ((acc OR push_bit shift (ucast (c AND 0x7f))) OR push_bit (shift + 7) ?v, reader_at ((pre @ [c]) @ bs @ [b]) rest)
        else Inl (Internal ''Sui BCS ULEB overflow''))"
      using Cons.prems by (intro Cons.IH) simp_all
    finally show ?thesis by (simp only: join) simp
  qed
qed

text \<open>
  C37: what a BCS length that is too long does. Up to ten groups are read and the number they stand for is
  taken modulo \<open>2 ^ 64\<close>; eleven or more are refused. So the refusal of an overflow is not complete: the
  tenth group is shifted by 63, which the checked shift admits, and all its bits but the lowest are
  lost without an error.
\<close>

theorem uleb128_overflow_behaviour:
  assumes "length (bs @ b # rest) < 2 ^ 63" "list_all (\<lambda>b. b AND 0x80 \<noteq> 0) bs" "b AND 0x80 = 0"
  shows "reader_uleb128 (reader_new (bs @ b # rest)) =
     (if length bs < 10 then Inr (word_of_nat (groups_value (bs @ [b])), reader_at (bs @ [b]) rest)
      else Inl (Internal ''Sui BCS ULEB overflow''))"
proof -
  have "7 * length bs < 64 \<longleftrightarrow> length bs < 10" by linarith
  then show ?thesis
    using reader_uleb128_groups [of "[]" bs b rest 0 0] assms by (simp add: reader_uleb128_def reader_new_at)
qed

theorem uleb128_overflow_behaviour_witness:
  "groups_value ([128, 128, 128, 128, 128, 128, 128, 128, 128] @ [2]) = 2 ^ 64 \<and>
   reader_uleb128 (reader_new ([128, 128, 128, 128, 128, 128, 128, 128, 128] @ [2])) =
     Inr (0, reader_at ([128, 128, 128, 128, 128, 128, 128, 128, 128] @ [2]) [])"
proof -
  let ?bs = "[128, 128, 128, 128, 128, 128, 128, 128, 128] :: bytes"
  have v: "groups_value (?bs @ [2]) = 2 ^ 64" by simp
  have "(word_of_nat (2 ^ 64) :: u64) = 0" by (simp add: word_unat_eq_iff unat_of_nat)
  with v have "(word_of_nat (groups_value (?bs @ [2])) :: u64) = 0" by (simp only:)
  moreover have "reader_uleb128 (reader_new (?bs @ [2])) =
      Inr (word_of_nat (groups_value (?bs @ [2])), reader_at (?bs @ [2]) [])"
    using uleb128_overflow_behaviour [of ?bs 2 "[]"] by (simp del: groups_value.simps of_nat_power)
  ultimately show ?thesis using v by (simp only:)
qed

end
