(* ===== verification/Move_Builders.thy ===== *)
theory Move_Builders
  imports Digest_Preimage
begin

text \<open>
  \<^verbatim>\<open>pillar-layerzero/src/aptos.rs\<close>, \<^verbatim>\<open>aptos/hash.rs\<close> and \<^verbatim>\<open>sui.rs\<close>: the payload builders of the Move
  destinations, which hash a function tag and fixed-width members.
\<close>

section \<open>Hashes (aptos/hash.rs)\<close>

definition aptos_function_signature_hash :: "external \<Rightarrow> string \<Rightarrow> bytes" where
  "aptos_function_signature_hash X function_name =
     take 4 (keccak256 X (uleb128 (word_of_nat (length function_name)) @ string_bytes function_name))"

text \<open>The bytes \<open>aptos_hash_propose\<close> and \<open>aptos_hash_verify\<close> assemble before they hash them.\<close>

definition aptos_propose_bytes :: "external \<Rightarrow> string \<Rightarrow> u64 \<Rightarrow> u64 \<Rightarrow> bytes res" where
  "aptos_propose_bytes X lookup_text block_confirmation expiration =
     and_then (decode_hex_bytes X lookup_text) (\<lambda>lookup_hash_bytes.
       if length lookup_hash_bytes \<noteq> 32
       then Inl (Internal (''lookupHash must be 32 bytes, got '' @ show_nat (length lookup_hash_bytes)))
       else Inr (aptos_function_signature_hash X ''propose'' @ lookup_hash_bytes
              @ u64_to_be block_confirmation @ u64_to_be expiration))"

definition aptos_hash_propose :: "external \<Rightarrow> string \<Rightarrow> u64 \<Rightarrow> u64 \<Rightarrow> string res" where
  "aptos_hash_propose X lookup_text block_confirmation expiration =
     map_ok (keccak256_hex_unprefixed X) (aptos_propose_bytes X lookup_text block_confirmation expiration)"

definition aptos_verify_bytes ::
    "external \<Rightarrow> string \<Rightarrow> string \<Rightarrow> u64 \<Rightarrow> string \<Rightarrow> u32 \<Rightarrow> u64 \<Rightarrow> bytes res" where
  "aptos_verify_bytes X header_text hash_text block_confirmation target v_id expiration =
     and_then (decode_hex_bytes X header_text) (\<lambda>header.
     and_then (decode_hex_bytes X hash_text) (\<lambda>hash.
     and_then (decode_hex_bytes X target) (\<lambda>target_bytes.
       Inr (aptos_function_signature_hash X ''verify'' @ header @ hash @ u64_to_be block_confirmation
            @ target_bytes @ u32_to_be v_id @ u64_to_be expiration))))"

definition aptos_hash_verify ::
    "external \<Rightarrow> string \<Rightarrow> string \<Rightarrow> u64 \<Rightarrow> string \<Rightarrow> u32 \<Rightarrow> u64 \<Rightarrow> string res" where
  "aptos_hash_verify X header_text hash_text block_confirmation target v_id expiration =
     map_ok (keccak256_hex_unprefixed X)
       (aptos_verify_bytes X header_text hash_text block_confirmation target v_id expiration)"

section \<open>Aptos (aptos.rs)\<close>

record aptos_receive_contracts =
  v1_oracle :: string
  v1_uln_301 :: string
  aptos_uln_302 :: string

type_synonym aptos_builder = "string \<rightharpoonup> aptos_receive_contracts"

definition VID_NOT_SUPPORTED :: app_core_error where
  "VID_NOT_SUPPORTED = Internal ''VId is not supported on aptos yet''"

definition aptos_contracts_for_event :: "aptos_builder \<Rightarrow> lz_sent_event \<Rightarrow> aptos_receive_contracts res" where
  "aptos_contracts_for_event contracts_by_chain ev =
     ok_or (Internal (''No Aptos receive contracts for '' @ event_dst ev)) (contracts_by_chain (event_dst ev))"

definition aptos_target_contract_for_event :: "aptos_builder \<Rightarrow> lz_sent_event \<Rightarrow> string res" where
  "aptos_target_contract_for_event contracts_by_chain ev =
     and_then (extra_u64 ev ''dstEid'') (\<lambda>dst_eid.
     and_then (uln_send_version_string (uln_send_version (ev_lz_message_id ev))) (\<lambda>version.
     and_then (aptos_contracts_for_event contracts_by_chain ev) (\<lambda>contracts.
       let receive = evm_receive_version_from_dst_eid dst_eid version in
       if receive = ULN_VERSION_V301 then Inr (v1_uln_301 contracts)
       else if receive = ULN_VERSION_V302 then Inr (aptos_uln_302 contracts)
       else Inl (Internal ''Unsupported UlnVersion''))))"

definition aptos_v2_from_hash_info ::
    "external \<Rightarrow> aptos_builder \<Rightarrow> lz_sent_event \<Rightarrow> uln_v2_hash_info \<Rightarrow> int \<Rightarrow> int \<Rightarrow> string
     \<Rightarrow> hash_call_data_result res" where
  "aptos_v2_from_hash_info X contracts_by_chain ev info block_confirmation expiration v_id =
     (if v_id \<noteq> [] then Inl VID_NOT_SUPPORTED
      else
        and_then (u64_from_i64 block_confirmation ''blockConfirmation'') (\<lambda>bc.
        and_then (u64_from_i64 expiration ''expiration'') (\<lambda>e.
        and_then (aptos_contracts_for_event contracts_by_chain ev) (\<lambda>contracts.
        and_then (aptos_hash_propose X (lookup_hash info) bc e) (\<lambda>digest.
          Inr \<lparr> hash_call_data = digest,
                hc_details = builder_details ''unknown in aptos'' (JNumber (PosInt e)) v_id (v1_oracle contracts)
                  ''unknown in aptos'' ''hashPropose''
                  [(''lookupHash'', JString (lookup_hash info)), (''blockData'', JString (block_data info))]
                  (JNumber (PosInt bc)) ev \<rparr>)))))"

definition aptos_v3_from_proof ::
    "external \<Rightarrow> aptos_builder \<Rightarrow> lz_sent_event \<Rightarrow> evm_uln_proof \<Rightarrow> int \<Rightarrow> int \<Rightarrow> string
     \<Rightarrow> hash_call_data_result res" where
  "aptos_v3_from_proof X contracts_by_chain ev proof block_confirmation expiration v_id =
     and_then (parse_vid v_id) (\<lambda>v_id_u32.
     and_then (u64_from_i64 block_confirmation ''blockConfirmation'') (\<lambda>bc.
     and_then (u64_from_i64 expiration ''expiration'') (\<lambda>e.
     and_then (aptos_target_contract_for_event contracts_by_chain ev) (\<lambda>target_contract.
     and_then (bytes32_hex_string X target_contract) (\<lambda>target.
     and_then (aptos_hash_verify X (packet_header proof) (payload_hash proof) bc target v_id_u32 e) (\<lambda>digest.
       Inr \<lparr> hash_call_data = digest,
             hc_details = builder_details
               (json_to_string X (JArray [JString (packet_header proof), JString (payload_hash proof),
                  JNumber (PosInt bc), JString target, JNumber (PosInt (ucast v_id_u32)), JNumber (PosInt e)]))
               (JNumber (PosInt e)) v_id target ''unknown in aptos'' ''hashPropose'' (proof_members proof)
               (JNumber (PosInt bc)) ev \<rparr>))))))"

definition APTOS_ULN_V2_ORACLES :: "(string \<times> u64) list" where
  "APTOS_ULN_V2_ORACLES =
     [(''0xc2846ea05319c339b3b52186ceae40b43d4e9cf6c7350336c3eb0b351d9394eb'', 108),
      (''0x8ab85d94bf34808386b3ce0f9516db74d2b6d2f1166aa48f75ca641f3adb6c63'', 10108)]"

definition aptos_refuse :: "string \<Rightarrow> app_core_error" where
  "aptos_refuse reason =
     BadRequest (''ULN V2 verification without a vId is served only for an EVM-sent ULN V2 packet to the pinned Aptos oracle: ''
       @ reason)"

definition aptos_build_uln_v2 :: "external \<Rightarrow> aptos_builder \<Rightarrow> uln_v2_payload_builder" where
  "aptos_build_uln_v2 X contracts_by_chain ev block_confirmation expiration v_id =
     (if v_id \<noteq> [] then Inl VID_NOT_SUPPORTED
      else if event_dst ev \<noteq> ''aptos'' then Inl (aptos_refuse ''the destination is not aptos'')
      else
        and_then (uln_send_version_string (uln_send_version (ev_lz_message_id ev))) (\<lambda>version.
        if version \<noteq> ''V2'' then Inl (aptos_refuse ''the packet was not sent on ULN V2'')
        else
        and_then (aptos_contracts_for_event contracts_by_chain ev) (\<lambda>contracts.
        and_then (ok_or (aptos_refuse ''the configured oracle is not a pinned one'')
                    (map_option snd (find (\<lambda>(pinned, _). eq_ignore_ascii_case pinned (v1_oracle contracts))
                       APTOS_ULN_V2_ORACLES))) (\<lambda>endpoint_v1_id.
        and_then (extra_u64 ev ''dstEid'') (\<lambda>dst_eid.
        if dst_eid \<noteq> endpoint_v1_id
        then Inl (aptos_refuse ''the packet does not name this oracle's Aptos EndpointV1 id'')
        else
        and_then (and_then (pathway_extra_string ev ''receiver'') (decode_hex_bytes X)) (\<lambda>receiver.
        if length receiver \<noteq> 32 then Inl (aptos_refuse ''the receiver is not a 32-byte Aptos account'')
        else
        and_then (and_then (pathway_extra_string ev ''sender'') (decode_hex_bytes X)) (\<lambda>sender.
        if length sender \<noteq> 20 then Inl (aptos_refuse ''the sender is not a 20-byte EVM address'')
        else
        and_then (build_evm_lz_v1_packet_payload_v2_from_event X ev) (\<lambda>packet.
        and_then (native_hash_by_chain_name X packet ''aptos'') (\<lambda>hash.
          aptos_v2_from_hash_info X contracts_by_chain ev \<lparr> lookup_hash = hash, block_data = hash \<rparr>
            block_confirmation expiration v_id)))))))))"

definition aptos_build_uln_v3 :: "external \<Rightarrow> aptos_builder \<Rightarrow> uln_v3_payload_builder" where
  "aptos_build_uln_v3 X contracts_by_chain ev block_confirmation expiration v_id dvn_address =
     and_then (proof_from_event X ev) (\<lambda>proof.
       aptos_v3_from_proof X contracts_by_chain ev proof block_confirmation expiration v_id)"

definition aptos_build_uln_read_v1 :: "uln_read_v1_payload_builder" where
  "aptos_build_uln_read_v1 ev resolved_payload expiration v_id dvn_address =
     Inl (Internal (''Unsupported LayerZero read destination chain type for '' @ event_dst ev))"

section \<open>Sui (sui.rs)\<close>

type_synonym sui_builder = "string \<rightharpoonup> string"

text \<open>\<open>SuiReceiveContracts\<close> has the one member \<open>uln_302_package\<close>.\<close>

definition sui_contracts_for_event :: "sui_builder \<Rightarrow> lz_sent_event \<Rightarrow> string res" where
  "sui_contracts_for_event contracts_by_chain ev =
     ok_or (Internal (''No Sui receive contracts for '' @ event_dst ev)) (contracts_by_chain (event_dst ev))"

definition SUI_ONLY_V302 :: app_core_error where
  "SUI_ONLY_V302 = Internal ''SUI only supports ULN V302''"

definition sui_build_uln_v2 :: "uln_v2_payload_builder" where
  "sui_build_uln_v2 ev block_confirmation expiration v_id = Inl SUI_ONLY_V302"

definition sui_build_uln_v3 :: "external \<Rightarrow> sui_builder \<Rightarrow> uln_v3_payload_builder" where
  "sui_build_uln_v3 X contracts_by_chain ev block_confirmation expiration v_id dvn_address =
     and_then (proof_from_event X ev) (\<lambda>proof.
     and_then (parse_vid v_id) (\<lambda>v_id_u32.
     and_then (u64_from_i64 block_confirmation ''blockConfirmation'') (\<lambda>bc.
     and_then (u64_from_i64 expiration ''expiration'') (\<lambda>e.
     and_then (and_then (sui_contracts_for_event contracts_by_chain ev) (bytes32_hex_string X)) (\<lambda>target.
     and_then (aptos_hash_verify X (packet_header proof) (payload_hash proof) bc target v_id_u32 e) (\<lambda>digest.
       Inr \<lparr> hash_call_data = digest,
             hc_details = builder_details
               (json_to_string X (JArray [JString (packet_header proof), JString (payload_hash proof),
                  JNumber (PosInt bc), JString target, JNumber (PosInt (ucast v_id_u32)), JNumber (PosInt e)]))
               (JNumber (PosInt e)) v_id target ''unknown in sui'' ''hashPropose'' (proof_members proof)
               (JNumber (PosInt bc)) ev \<rparr>))))))"

definition sui_build_uln_read_v1 :: "uln_read_v1_payload_builder" where
  "sui_build_uln_read_v1 ev resolved_payload expiration v_id dvn_address = Inl SUI_ONLY_V302"

section \<open>What a Move digest commits to\<close>

definition aptos_v3_preimage ::
    "external \<Rightarrow> aptos_builder \<Rightarrow> lz_sent_event \<times> int \<times> int \<times> string \<times> string option \<Rightarrow> bytes res" where
  "aptos_v3_preimage X contracts_by_chain = (\<lambda>(ev, block_confirmation, expiration, v_id, dvn_address).
     and_then (proof_from_event X ev) (\<lambda>proof.
     and_then (parse_vid v_id) (\<lambda>v_id_u32.
     and_then (u64_from_i64 block_confirmation ''blockConfirmation'') (\<lambda>bc.
     and_then (u64_from_i64 expiration ''expiration'') (\<lambda>e.
     and_then (aptos_target_contract_for_event contracts_by_chain ev) (\<lambda>target_contract.
     and_then (bytes32_hex_string X target_contract) (\<lambda>target.
       aptos_verify_bytes X (packet_header proof) (payload_hash proof) bc target v_id_u32 e)))))))"

definition sui_v3_preimage ::
    "external \<Rightarrow> sui_builder \<Rightarrow> lz_sent_event \<times> int \<times> int \<times> string \<times> string option \<Rightarrow> bytes res" where
  "sui_v3_preimage X contracts_by_chain = (\<lambda>(ev, block_confirmation, expiration, v_id, dvn_address).
     and_then (proof_from_event X ev) (\<lambda>proof.
     and_then (parse_vid v_id) (\<lambda>v_id_u32.
     and_then (u64_from_i64 block_confirmation ''blockConfirmation'') (\<lambda>bc.
     and_then (u64_from_i64 expiration ''expiration'') (\<lambda>e.
     and_then (and_then (sui_contracts_for_event contracts_by_chain ev) (bytes32_hex_string X)) (\<lambda>target.
       aptos_verify_bytes X (packet_header proof) (payload_hash proof) bc target v_id_u32 e))))))"

lemma map_ok_and_then: "map_ok f (and_then r g) = and_then r (\<lambda>x. map_ok f (g x))"
  by (cases r) auto

lemma and_then_map_ok: "and_then (map_ok f r) g = and_then r (\<lambda>x. g (f x))"
  by (cases r) auto

lemma map_ok_comp: "map_ok f (map_ok g r) = map_ok (\<lambda>x. f (g x)) r"
  by (cases r) auto

lemma and_then_Inr: "and_then r (\<lambda>x. Inr (f x)) = map_ok f r"
  by (cases r) auto

lemmas run_builder = map_ok_and_then and_then_map_ok map_ok_comp and_then_Inr map_ok.simps

interpretation aptos_v3: preimage_builder X
  "\<lambda>(ev, bc, e, v, dvn). aptos_build_uln_v3 X contracts ev bc e v dvn"
  "aptos_v3_preimage X contracts" "hex_encode X" for X contracts
  by unfold_locales
    (auto simp: aptos_build_uln_v3_def aptos_v3_from_proof_def aptos_v3_preimage_def aptos_hash_verify_def
      run_builder keccak256_hex_unprefixed_def hex_encode_inject)

interpretation sui_v3: preimage_builder X
  "\<lambda>(ev, bc, e, v, dvn). sui_build_uln_v3 X contracts ev bc e v dvn"
  "sui_v3_preimage X contracts" "hex_encode X" for X contracts
  by unfold_locales
    (auto simp: sui_build_uln_v3_def sui_v3_preimage_def aptos_hash_verify_def
      run_builder keccak256_hex_unprefixed_def hex_encode_inject)

lemma strip_0x_hex_encode: "hex_ok X \<Longrightarrow> strip_0x (hex_encode X bs) = hex_encode X bs"
proof -
  assume "hex_ok X"
  then have "CHR ''x'' \<notin> set (hex_encode X bs)" using hex_okD(4) [of X bs] by auto
  then show ?thesis by (cases "hex_encode X bs" rule: strip_0x.cases) auto
qed

lemma decode_hex_bytes_hex_encode [simp]: "hex_ok X \<Longrightarrow> decode_hex_bytes X (hex_encode X bs) = Inr bs"
  by (simp add: decode_hex_bytes_def strip_0x_hex_encode hex_okD)

lemma bytes32_hex_string_eq_Inr:
  "bytes32_hex_string X s = Inr t \<longleftrightarrow> (\<exists>bs. address_to_bytes32 X s = Inr bs \<and> t = hex_encode X bs)"
  by (auto simp: bytes32_hex_string_def res_simps)

text \<open>
  The members of a \<open>verify\<close> preimage have fixed widths (the header of a packet proof has 81 bytes), so the
  bytes determine them.
\<close>

lemma aptos_verify_inject:
  assumes X: "hex_ok X" "digest_ok X" and pr: "proof_from_event X ev = Inr pr" "proof_from_event X ev' = Inr pr'"
    and t: "bytes32_hex_string X t = Inr tb" "bytes32_hex_string X t' = Inr tb'"
    and b: "aptos_verify_bytes X (packet_header pr) (payload_hash pr) bc tb v e = Inr b"
      "aptos_verify_bytes X (packet_header pr') (payload_hash pr') bc' tb' v' e' = Inr b"
  shows "pr = pr' \<and> bc = bc' \<and> tb = tb' \<and> v = v' \<and> e = e'"
proof -
  from proof_from_event_shape [OF X pr(1)] obtain h k where hk: "packet_header pr = hex0x X h" "length h = 81"
    "payload_hash pr = hex0x X k" "length k = 32" by metis
  from proof_from_event_shape [OF X pr(2)] obtain h' k' where hk': "packet_header pr' = hex0x X h'" "length h' = 81"
    "payload_hash pr' = hex0x X k'" "length k' = 32" by metis
  from t obtain s s' where s: "tb = hex_encode X s" "length s = 32" and s': "tb' = hex_encode X s'" "length s' = 32"
    by (auto simp: bytes32_hex_string_eq_Inr address_to_bytes32_length)
  let ?f = "aptos_function_signature_hash X ''verify''"
  have "?f @ h @ k @ u64_to_be bc @ s @ u32_to_be v @ u64_to_be e =
      ?f @ h' @ k' @ u64_to_be bc' @ s' @ u32_to_be v' @ u64_to_be e'"
    using b X(1) hk hk' s s' by (simp add: aptos_verify_bytes_def)
  then have "h = h' \<and> k = k' \<and> u64_to_be bc = u64_to_be bc' \<and> s = s' \<and> u32_to_be v = u32_to_be v' \<and>
      u64_to_be e = u64_to_be e'"
    using hk hk' s s' by (simp add: append_eq_append_conv)
  then show ?thesis
    using hk hk' s s' by (auto simp: u64_be.enc_inject u32_be.enc_inject intro: evm_uln_proof.equality)
qed

end
