(* ===== verification/Felt_Builders.thy ===== *)
theory Felt_Builders
  imports Move_Builders "HOL-Library.List_Lexorder" "HOL-Library.Char_ord"
begin

text \<open>
  \<^verbatim>\<open>pillar-layerzero/src/other_non_evm/starknet.rs\<close> and \<^verbatim>\<open>canton.rs\<close>: the Starknet builder, which packs
  32-byte field elements, and the Canton builder and key identities. A Rust panic is \<open>None\<close>.
\<close>

section \<open>Starknet (starknet.rs)\<close>

definition STARKNET_VERIFY_SELECTOR :: string where
  "STARKNET_VERIFY_SELECTOR = ''0x027ea29384deca9928aa65088faae7fc2e5a99fd6512125ef320c18227e0f7d3''"

text \<open>\<open>out[32 - bytes.len()..]\<close> panics on more than 32 bytes.\<close>

definition felt_from_bytes :: "bytes \<Rightarrow> bytes option" where
  "felt_from_bytes bs = (if 32 < length bs then None else Some (left_pad32 bs))"

definition felt_from_hex :: "external \<Rightarrow> string \<Rightarrow> bytes res option" where
  "felt_from_hex X v =
     (case decode_hex_bytes X v of
        Inl e \<Rightarrow> Some (Inl e)
      | Inr bs \<Rightarrow> map_option Inr (felt_from_bytes bs))"

definition u256_word :: "u64 \<Rightarrow> bytes" where
  "u256_word v = replicate 24 0 @ u64_to_be v"

text \<open>\<open>slice::as_chunks\<close>: the whole chunks and what is left.\<close>

function as_chunks :: "nat \<Rightarrow> 'a list \<Rightarrow> 'a list list \<times> 'a list" where
  "as_chunks n xs =
     (if n = 0 \<or> length xs < n then ([], xs)
      else let (chunks, remainder) = as_chunks n (drop n xs) in (take n xs # chunks, remainder))"
  by pat_completeness auto
termination
  by (relation "measure (\<lambda>(n, xs). length xs)") auto

declare as_chunks.simps [simp del]

definition verify_calldata :: "external \<Rightarrow> evm_uln_proof \<Rightarrow> int \<Rightarrow> bytes list res option" where
  "verify_calldata X proof block_confirmation =
     (case and_then (decode_hex_bytes X (packet_header proof)) (\<lambda>header.
           and_then (decode_hex_32 X (payload_hash proof)) (\<lambda>hash.
           and_then (u64_from_i64 block_confirmation ''blockConfirmation'') (\<lambda>bc. Inr (header, hash, bc)))) of
        Inl e \<Rightarrow> Some (Inl e)
      | Inr (header, hash, bc) \<Rightarrow>
          let (chunks, remainder) = as_chunks 31 header in
          map_option Inr (those
            ([Some (u256_word (word_of_nat (length chunks)))] @ map felt_from_bytes chunks @
             [felt_from_bytes remainder, Some (u256_word (word_of_nat (length remainder))),
              felt_from_bytes (drop 16 hash), felt_from_bytes (take 16 hash), Some (u256_word bc)])))"

text \<open>The \<open>?\<close> operator over a computation that may also panic.\<close>

definition try_or_panic :: "'a res option \<Rightarrow> ('a \<Rightarrow> 'b res option) \<Rightarrow> 'b res option" where
  "try_or_panic r f = (case r of None \<Rightarrow> None | Some (Inl e) \<Rightarrow> Some (Inl e) | Some (Inr x) \<Rightarrow> f x)"

definition starknet_pack_dvn_call :: "external \<Rightarrow> string \<Rightarrow> int \<Rightarrow> string \<Rightarrow> bytes list \<Rightarrow> bytes res option" where
  "starknet_pack_dvn_call X v_id expiration uln_302 calldata =
     try_or_panic (Some (parse_vid v_id)) (\<lambda>vid.
     try_or_panic (Some (u64_from_i64 expiration ''expiration'')) (\<lambda>e.
     try_or_panic (felt_from_hex X uln_302) (\<lambda>target.
     try_or_panic (felt_from_hex X STARKNET_VERIFY_SELECTOR) (\<lambda>selector.
       Some (Inr (u32_to_be vid @ target @ u256_word e @ selector @ concat calldata))))))"

fun join_with :: "string \<Rightarrow> string list \<Rightarrow> string" where
  "join_with sep [] = []"
| "join_with sep [s] = s"
| "join_with sep (s # t # ts) = s @ sep @ join_with sep (t # ts)"

definition starknet_build_uln_v3 ::
    "external \<Rightarrow> string \<Rightarrow> lz_sent_event \<Rightarrow> int \<Rightarrow> int \<Rightarrow> string \<Rightarrow> string option \<Rightarrow> hash_call_data_result res option" where
  "starknet_build_uln_v3 X uln_302 ev block_confirmation expiration v_id dvn_address =
     try_or_panic (Some (proof_from_event X ev)) (\<lambda>proof.
     try_or_panic (verify_calldata X proof block_confirmation) (\<lambda>calldata.
     try_or_panic (starknet_pack_dvn_call X v_id expiration uln_302 calldata) (\<lambda>dvn_call_data.
       Some (Inr \<lparr> hash_call_data = keccak0x X dvn_call_data,
             hc_details = builder_details (hex_encode X dvn_call_data) (json_i64 expiration) v_id uln_302
               (join_with '','' (map (\<lambda>felt. with_0x (hex_encode X felt)) calldata)) ''verify'' (proof_members proof)
               (json_i64 block_confirmation) ev \<rparr>))))"

definition starknet_build_uln_v2 :: "uln_v2_payload_builder" where
  "starknet_build_uln_v2 ev block_confirmation expiration v_id = Inl (Internal ''Starknet only supports EndpointV2'')"

definition starknet_build_uln_read_v1 :: "uln_read_v1_payload_builder" where
  "starknet_build_uln_read_v1 ev resolved_payload expiration v_id dvn_address =
     Inl (Internal ''FIXME STARKNET-READ: Read DVN is not available on Starknet'')"

section \<open>Canton (canton.rs)\<close>

definition SECP256K1_SPKI_DER_HEADER :: bytes where
  "SECP256K1_SPKI_DER_HEADER =
     [0x30, 0x56, 0x30, 0x10, 0x06, 0x07, 0x2a, 0x86, 0x48, 0xce, 0x3d, 0x02, 0x01, 0x06, 0x05, 0x2b,
      0x81, 0x04, 0x00, 0x0a, 0x03, 0x42, 0x00]"

record canton_verify_digest_input =
  ci_dvn :: bytes
  ci_packet_header :: bytes
  ci_payload_hash :: bytes
  ci_confirmations :: u64
  ci_target :: bytes
  ci_vid :: u32
  ci_expiration :: u64

text \<open>The bytes the hasher of \<open>canton_hash_verify\<close> absorbs.\<close>

definition canton_verify_bytes :: "external \<Rightarrow> canton_verify_digest_input \<Rightarrow> bytes" where
  "canton_verify_bytes X input =
     take 4 (keccak256 X (string_bytes ''Verify'')) @ ci_dvn input @ ci_packet_header input @ ci_payload_hash input
     @ u64_to_be (ci_confirmations input) @ ci_target input @ u32_to_be (ci_vid input) @ u64_to_be (ci_expiration input)"

definition canton_hash_verify :: "external \<Rightarrow> canton_verify_digest_input \<Rightarrow> bytes" where
  "canton_hash_verify X input = keccak256 X (canton_verify_bytes X input)"

definition canton_multihash :: "external \<Rightarrow> u32 \<Rightarrow> bytes \<Rightarrow> string" where
  "canton_multihash X purpose data = ''1220'' @ hex_encode X (sha256 X (u32_to_be purpose @ data))"

definition canton_key_fingerprint :: "external \<Rightarrow> bytes \<Rightarrow> string + string" where
  "canton_key_fingerprint X uncompressed_public_key =
     (if length uncompressed_public_key \<noteq> 65 \<or> uncompressed_public_key ! 0 \<noteq> 0x04
      then Inl ''invalid uncompressed SEC1 secp256k1 public key''
      else Inr (canton_multihash X 12 (SECP256K1_SPKI_DER_HEADER @ uncompressed_public_key)))"

definition canton_gasolina_signer_address :: "external \<Rightarrow> bytes \<Rightarrow> string + string" where
  "canton_gasolina_signer_address X public_key =
     (case public_key of
        [] \<Rightarrow> Inl ''empty Canton signer public key''
      | _ # rest \<Rightarrow> Inr (with_0x (hex_encode X rest)))"

definition canton_party_namespace :: "external \<Rightarrow> string list \<Rightarrow> string" where
  "canton_party_namespace X owner_fingerprints =
     ''1220'' @ hex_encode X (sha256 X (u32_to_be 37 @
       concat (map (\<lambda>owner. u32_to_be (word_of_nat (length owner)) @ string_bytes owner)
         (sort (map trim_start_0x owner_fingerprints)))))"

definition only_v302 :: app_core_error where
  "only_v302 = Internal ''Canton only supports ULN V302''"

definition is_ascii_hexdigit :: "char \<Rightarrow> bool" where
  "is_ascii_hexdigit c \<longleftrightarrow>
     (let n = of_char c :: nat in 48 \<le> n \<and> n \<le> 57 \<or> 65 \<le> n \<and> n \<le> 70 \<or> 97 \<le> n \<and> n \<le> 102)"

definition bytes32_hex_preserving_case :: "string \<Rightarrow> string res" where
  "bytes32_hex_preserving_case address =
     (let invalid = Inl (Internal (''Invalid input for address '' @ address)) in
      if take 2 address = ''0x'' \<and> list_all is_ascii_hexdigit (drop 2 address)
      then let digits = drop 2 address in
        if 64 < length digits then invalid
        else Inr (with_0x (replicate (64 - length digits) CHR ''0'' @ digits))
      else invalid)"

definition canton_build_uln_v2 :: "uln_v2_payload_builder" where
  "canton_build_uln_v2 ev block_confirmation expiration v_id = Inl only_v302"

definition canton_build_uln_read_v1 :: "uln_read_v1_payload_builder" where
  "canton_build_uln_read_v1 ev resolved_payload expiration v_id dvn_address = Inl only_v302"

text \<open>\<open>dvn_address.filter(|address| !address.is_empty()).ok_or_else(\<dots>)\<close>.\<close>

definition required_dvn :: "string \<Rightarrow> string option \<Rightarrow> string res" where
  "required_dvn message dvn_address =
     (case dvn_address of
        None \<Rightarrow> Inl (Internal message)
      | Some address \<Rightarrow> if address = [] then Inl (Internal message) else Inr address)"

definition CANTON_DVN_REQUIRED :: string where
  "CANTON_DVN_REQUIRED =
     ''Canton buildULNV3VerifyPayload requires the dvnAddress: it is part of the signed verify digest''"

definition canton_build_uln_v3 :: "external \<Rightarrow> string \<Rightarrow> uln_v3_payload_builder" where
  "canton_build_uln_v3 X uln_302 ev block_confirmation expiration v_id dvn_address =
     and_then (required_dvn CANTON_DVN_REQUIRED dvn_address) (\<lambda>dvn_address.
     and_then (proof_from_event X ev) (\<lambda>proof.
     and_then (bytes32_hex_preserving_case dvn_address) (\<lambda>dvn.
     and_then (bytes32_hex_preserving_case uln_302) (\<lambda>uln.
     and_then (parse_vid v_id) (\<lambda>vid.
     and_then (u64_from_i64 block_confirmation ''blockConfirmation'') (\<lambda>bc.
     and_then (u64_from_i64 expiration ''expiration'') (\<lambda>e.
     and_then (decode_hex_32 X dvn) (\<lambda>dvn_bytes.
     and_then (decode_hex_bytes X (packet_header proof)) (\<lambda>header.
     and_then (decode_hex_32 X (payload_hash proof)) (\<lambda>hash.
     and_then (decode_hex_32 X uln) (\<lambda>target.
       let digest = canton_hash_verify X
         \<lparr> ci_dvn = dvn_bytes, ci_packet_header = header, ci_payload_hash = hash, ci_confirmations = bc,
           ci_target = target, ci_vid = vid, ci_expiration = e \<rparr> in
       Inr \<lparr> hash_call_data = with_0x (hex_encode X digest),
             hc_details = builder_details
               (json_to_string X (JArray [JString dvn, JString (packet_header proof), JString (payload_hash proof),
                  json_i64 block_confirmation, JString uln, JNumber (PosInt (ucast vid)), json_i64 expiration]))
               (json_i64 expiration) v_id uln ''unknown in canton'' ''verify'' (proof_members proof)
               (json_i64 block_confirmation) ev \<rparr>)))))))))))"

section \<open>What the digests commit to\<close>

text \<open>A panic counted as a failure, for the statements that only speak of what is returned.\<close>

definition settle :: "'a res option \<Rightarrow> 'a res" where
  "settle r = (case r of None \<Rightarrow> Inl (Internal ''panicked'') | Some x \<Rightarrow> x)"

lemma settle_simps [simp]: "settle (Some r) = r" "settle None = Inl (Internal ''panicked'')"
  by (simp_all add: settle_def)

lemma settle_eq_Inr: "settle r = Inr x \<longleftrightarrow> r = Some (Inr x)"
  by (simp add: settle_def split: option.splits)

lemma try_or_panic_eq_Some_Inr:
  "try_or_panic r f = Some (Inr y) \<longleftrightarrow> (\<exists>x. r = Some (Inr x) \<and> f x = Some (Inr y))"
  by (auto simp: try_or_panic_def split: option.splits sum.splits)

lemma try_or_panic_Some_Inr [simp]: "try_or_panic (Some (Inr x)) f = f x"
  by (simp add: try_or_panic_def)

lemma try_or_panic_eq_None:
  "try_or_panic r f = None \<longleftrightarrow> r = None \<or> (\<exists>x. r = Some (Inr x) \<and> f x = None)"
  by (auto simp: try_or_panic_def split: option.splits sum.splits)

subsection \<open>Starknet\<close>

definition starknet_v3_preimage ::
    "external \<Rightarrow> string \<Rightarrow> lz_sent_event \<times> int \<times> int \<times> string \<times> string option \<Rightarrow> bytes res" where
  "starknet_v3_preimage X uln_302 = (\<lambda>(ev, block_confirmation, expiration, v_id, dvn_address).
     settle (try_or_panic (Some (proof_from_event X ev)) (\<lambda>proof.
       try_or_panic (verify_calldata X proof block_confirmation) (\<lambda>calldata.
         starknet_pack_dvn_call X v_id expiration uln_302 calldata))))"

interpretation starknet_v3: preimage_builder X
  "\<lambda>(ev, bc, e, v, dvn). settle (starknet_build_uln_v3 X uln_302 ev bc e v dvn)"
  "starknet_v3_preimage X uln_302" "hex0x X" for X uln_302
proof (unfold_locales, goal_cases)
  case (1 r)
  show ?case
    by (cases r) (auto simp: starknet_build_uln_v3_def starknet_v3_preimage_def try_or_panic_def keccak0x_eq
        split: option.splits sum.splits)
qed (simp add: hex0x_inject)

lemma as_chunks_81:
  assumes "length h = 81"
  shows "as_chunks 31 h = ([take 31 h, take 31 (drop 31 h)], drop 62 h)"
  using assms by (simp add: as_chunks.simps [of 31] Let_def)

lemma verify_calldata_81:
  assumes X: "hex_ok X" and pr: "packet_header pr = hex0x X h" "length h = 81" "payload_hash pr = hex0x X k" "length k = 32"
    and bc: "u64_from_i64 bc ''blockConfirmation'' = Inr n"
  shows "verify_calldata X pr bc = Some (Inr [u256_word 2, left_pad32 (take 31 h), left_pad32 (take 31 (drop 31 h)),
     left_pad32 (drop 62 h), u256_word 19, left_pad32 (drop 16 k), left_pad32 (take 16 k), u256_word n])"
  using assms by (simp add: verify_calldata_def as_chunks_81 felt_from_bytes_def)

lemma verify_calldata_Inr:
  assumes X: "hex_ok X" and pr: "packet_header pr = hex0x X h" "payload_hash pr = hex0x X k" "length k = 32"
    and cd: "verify_calldata X pr bc = Some (Inr cd)"
  obtains n where "u64_from_i64 bc ''blockConfirmation'' = Inr n"
  using assms by (auto simp: verify_calldata_def res_simps split: sum.splits prod.splits)

lemma left_pad32_inject: "length as = length bs \<Longrightarrow> left_pad32 as = left_pad32 bs \<longleftrightarrow> as = bs"
  by (simp add: left_pad32_def)

lemma u256_word_inject: "u256_word v = u256_word w \<longleftrightarrow> v = w"
  by (simp add: u256_word_def u64_be.enc_inject)

lemma length_u256_word [simp]: "length (u256_word v) = 32"
  by (simp add: u256_word_def)

lemma felt_from_hex_length: "felt_from_hex X s = Some (Inr t) \<Longrightarrow> length t = 32"
  by (auto simp: felt_from_hex_def felt_from_bytes_def length_left_pad32 split: sum.splits if_splits)

lemma split_81: "length h = 81 \<Longrightarrow> take 31 h @ take 31 (drop 31 h) @ drop 62 h = h"
proof -
  have "drop 62 h = drop 31 (drop 31 h)" by simp
  then show ?thesis by (simp only: append_take_drop_id)
qed

lemma starknet_inject:
  assumes X: "hex_ok X" "digest_ok X"
    and b: "starknet_v3_preimage X uln (ev, bc, e, v, dvn) = Inr b"
      "starknet_v3_preimage X uln (ev', bc', e', v', dvn') = Inr b"
  shows "proof_from_event X ev = proof_from_event X ev' \<and> parse_u32 v = parse_u32 v' \<and>
    (\<exists>n x. u64_from_i64 bc ''blockConfirmation'' = Inr n \<and> u64_from_i64 bc' ''blockConfirmation'' = Inr n \<and>
       u64_from_i64 e ''expiration'' = Inr x \<and> u64_from_i64 e' ''expiration'' = Inr x)"
proof -
  from b(1) obtain pr cd where pr: "proof_from_event X ev = Inr pr" "verify_calldata X pr bc = Some (Inr cd)"
    "starknet_pack_dvn_call X v e uln cd = Some (Inr b)"
    by (auto simp: starknet_v3_preimage_def settle_eq_Inr try_or_panic_eq_Some_Inr)
  from b(2) obtain pr' cd' where pr': "proof_from_event X ev' = Inr pr'" "verify_calldata X pr' bc' = Some (Inr cd')"
    "starknet_pack_dvn_call X v' e' uln cd' = Some (Inr b)"
    by (auto simp: starknet_v3_preimage_def settle_eq_Inr try_or_panic_eq_Some_Inr)
  from pr(3) obtain w x t sel where p: "parse_vid v = Inr w" "u64_from_i64 e ''expiration'' = Inr x" "felt_from_hex X uln = Some (Inr t)"
    "felt_from_hex X STARKNET_VERIFY_SELECTOR = Some (Inr sel)" "b = u32_to_be w @ t @ u256_word x @ sel @ concat cd"
    by (auto simp: starknet_pack_dvn_call_def try_or_panic_eq_Some_Inr)
  from pr'(3) p(3,4) obtain w' x' where p': "parse_vid v' = Inr w'" "u64_from_i64 e' ''expiration'' = Inr x'"
    "b = u32_to_be w' @ t @ u256_word x' @ sel @ concat cd'"
    by (auto simp: starknet_pack_dvn_call_def try_or_panic_eq_Some_Inr)
  have "u32_to_be w = u32_to_be w' \<and> u256_word x = u256_word x' \<and> concat cd = concat cd'"
    using p(5) p'(3) by (simp add: append_eq_append_conv)
  then have eq: "w = w'" "x = x'" "concat cd = concat cd'" by (simp_all add: u32_be.enc_inject u256_word_inject)
  from proof_from_event_shape [OF X pr(1)] obtain h k where hk: "packet_header pr = hex0x X h" "length h = 81"
    "payload_hash pr = hex0x X k" "length k = 32" by metis
  from proof_from_event_shape [OF X pr'(1)] obtain h' k' where hk': "packet_header pr' = hex0x X h'" "length h' = 81"
    "payload_hash pr' = hex0x X k'" "length k' = 32" by metis
  from verify_calldata_Inr [OF X(1) hk(1,3,4) pr(2)] obtain n where n: "u64_from_i64 bc ''blockConfirmation'' = Inr n" .
  from verify_calldata_Inr [OF X(1) hk'(1,3,4) pr'(2)] obtain n' where n': "u64_from_i64 bc' ''blockConfirmation'' = Inr n'" .
  have "cd = [u256_word 2, left_pad32 (take 31 h), left_pad32 (take 31 (drop 31 h)),
     left_pad32 (drop 62 h), u256_word 19, left_pad32 (drop 16 k), left_pad32 (take 16 k), u256_word n]"
    "cd' = [u256_word 2, left_pad32 (take 31 h'), left_pad32 (take 31 (drop 31 h')),
     left_pad32 (drop 62 h'), u256_word 19, left_pad32 (drop 16 k'), left_pad32 (take 16 k'), u256_word n']"
    using verify_calldata_81 [OF X(1) hk n] verify_calldata_81 [OF X(1) hk' n'] pr(2) pr'(2) by simp_all
  with eq(3) have "take 31 h = take 31 h' \<and> take 31 (drop 31 h) = take 31 (drop 31 h') \<and> drop 62 h = drop 62 h' \<and>
      drop 16 k = drop 16 k' \<and> take 16 k = take 16 k' \<and> n = n'"
    using hk(2,4) hk'(2,4) by (simp add: append_eq_append_conv length_left_pad32 left_pad32_inject u256_word_inject)
  then have "h = h'" "k = k'" "n = n'" by (metis split_81 hk(2) hk'(2), metis append_take_drop_id, simp)
  then have "pr = pr'" using hk hk' by (auto intro: evm_uln_proof.equality)
  then show ?thesis using pr(1) pr'(1) p(1,2) p'(1,2) n n' eq \<open>n = n'\<close> parse_vid_inject by metis
qed

text \<open>The one panic of the builder is a configured contract of more than 32 bytes.\<close>

lemma starknet_no_panic:
  assumes X: "hex_ok X" "digest_ok X" and small: "decode_hex_bytes X uln = Inr bs" "length bs \<le> 32"
  shows "starknet_build_uln_v3 X uln ev bc e v dvn \<noteq> None"
proof -
  have sel: "felt_from_hex X STARKNET_VERIFY_SELECTOR \<noteq> None"
    by (auto simp: felt_from_hex_def felt_from_bytes_def decode_hex_bytes_def STARKNET_VERIFY_SELECTOR_def res_simps
        split: sum.splits dest!: hex_okD(3) [OF X(1)])
  have uln: "felt_from_hex X uln \<noteq> None" using small by (simp add: felt_from_hex_def felt_from_bytes_def)
  have "verify_calldata X pr bc \<noteq> None" if pr: "proof_from_event X ev = Inr pr" for pr
  proof -
    from proof_from_event_shape [OF X pr] obtain h k where hk: "packet_header pr = hex0x X h" "length h = 81"
      "payload_hash pr = hex0x X k" "length k = 32" by metis
    show ?thesis
    proof (cases "u64_from_i64 bc ''blockConfirmation''")
      case (Inl a)
      then show ?thesis using X hk by (simp add: verify_calldata_def)
    next
      case (Inr n)
      then show ?thesis using verify_calldata_81 [OF X(1) hk] by simp
    qed
  qed
  with sel uln show ?thesis
    unfolding starknet_build_uln_v3_def starknet_pack_dvn_call_def by (auto simp: try_or_panic_eq_None)
qed

subsection \<open>Canton\<close>

definition canton_v3_preimage ::
    "external \<Rightarrow> string \<Rightarrow> lz_sent_event \<times> int \<times> int \<times> string \<times> string option \<Rightarrow> bytes res" where
  "canton_v3_preimage X uln_302 = (\<lambda>(ev, block_confirmation, expiration, v_id, dvn_address).
     and_then (required_dvn CANTON_DVN_REQUIRED dvn_address) (\<lambda>dvn_address.
     and_then (proof_from_event X ev) (\<lambda>proof.
     and_then (bytes32_hex_preserving_case dvn_address) (\<lambda>dvn.
     and_then (bytes32_hex_preserving_case uln_302) (\<lambda>uln.
     and_then (parse_vid v_id) (\<lambda>vid.
     and_then (u64_from_i64 block_confirmation ''blockConfirmation'') (\<lambda>bc.
     and_then (u64_from_i64 expiration ''expiration'') (\<lambda>e.
     and_then (decode_hex_32 X dvn) (\<lambda>dvn_bytes.
     and_then (decode_hex_bytes X (packet_header proof)) (\<lambda>header.
     and_then (decode_hex_32 X (payload_hash proof)) (\<lambda>hash.
     and_then (decode_hex_32 X uln) (\<lambda>target.
       Inr (canton_verify_bytes X
         \<lparr> ci_dvn = dvn_bytes, ci_packet_header = header, ci_payload_hash = hash, ci_confirmations = bc,
           ci_target = target, ci_vid = vid, ci_expiration = e \<rparr>)))))))))))))"

interpretation canton_v3: preimage_builder X
  "\<lambda>(ev, bc, e, v, dvn). canton_build_uln_v3 X uln_302 ev bc e v dvn"
  "canton_v3_preimage X uln_302" "hex0x X" for X uln_302
  by unfold_locales
    (auto simp: canton_build_uln_v3_def canton_v3_preimage_def run_builder canton_hash_verify_def hex0x_def
      Let_def hex_encode_inject)

lemma canton_inject:
  assumes X: "hex_ok X" "digest_ok X"
    and b: "canton_v3_preimage X uln (ev, bc, e, v, dvn) = Inr b"
      "canton_v3_preimage X uln (ev', bc', e', v', dvn') = Inr b"
  shows "proof_from_event X ev = proof_from_event X ev' \<and> parse_u32 v = parse_u32 v' \<and>
    (\<exists>n x. u64_from_i64 bc ''blockConfirmation'' = Inr n \<and> u64_from_i64 bc' ''blockConfirmation'' = Inr n \<and>
       u64_from_i64 e ''expiration'' = Inr x \<and> u64_from_i64 e' ''expiration'' = Inr x)"
proof -
  from b(1) obtain pr d w n x db h k t where p: "proof_from_event X ev = Inr pr" "parse_vid v = Inr w"
    "u64_from_i64 bc ''blockConfirmation'' = Inr n" "u64_from_i64 e ''expiration'' = Inr x" "decode_hex_32 X d = Inr db"
    "decode_hex_bytes X (packet_header pr) = Inr h" "decode_hex_32 X (payload_hash pr) = Inr k"
    "b = canton_verify_bytes X \<lparr> ci_dvn = db, ci_packet_header = h, ci_payload_hash = k, ci_confirmations = n,
           ci_target = t, ci_vid = w, ci_expiration = x \<rparr>" "length t = 32"
    by (auto simp: canton_v3_preimage_def res_simps dest: decode_hex_32_length)
  from b(2) obtain pr' d' w' n' x' db' h' k' t' where p': "proof_from_event X ev' = Inr pr'" "parse_vid v' = Inr w'"
    "u64_from_i64 bc' ''blockConfirmation'' = Inr n'" "u64_from_i64 e' ''expiration'' = Inr x'" "decode_hex_32 X d' = Inr db'"
    "decode_hex_bytes X (packet_header pr') = Inr h'" "decode_hex_32 X (payload_hash pr') = Inr k'"
    "b = canton_verify_bytes X \<lparr> ci_dvn = db', ci_packet_header = h', ci_payload_hash = k', ci_confirmations = n',
           ci_target = t', ci_vid = w', ci_expiration = x' \<rparr>" "length t' = 32"
    by (auto simp: canton_v3_preimage_def res_simps dest: decode_hex_32_length)
  from proof_from_event_shape [OF X p(1)] p(6,7) X(1) have hk: "packet_header pr = hex0x X h" "length h = 81"
    "payload_hash pr = hex0x X k" by (metis decode_hex_bytes_hex0x decode_hex_32_hex0x sum.inject(2))+
  from proof_from_event_shape [OF X p'(1)] p'(6,7) X(1) have hk': "packet_header pr' = hex0x X h'" "length h' = 81"
    "payload_hash pr' = hex0x X k'" by (metis decode_hex_bytes_hex0x decode_hex_32_hex0x sum.inject(2))+
  have len: "length db = 32" "length db' = 32" "length k = 32" "length k' = 32"
    using p(5,7) p'(5,7) decode_hex_32_length by auto
  from p(8) p'(8) have "h = h' \<and> k = k' \<and> u64_to_be n = u64_to_be n' \<and> u32_to_be w = u32_to_be w' \<and> u64_to_be x = u64_to_be x'"
    using hk(2) hk'(2) len p(9) p'(9) by (simp add: canton_verify_bytes_def append_eq_append_conv)
  then have "h = h'" "k = k'" "n = n'" "w = w'" "x = x'" by (simp_all add: u64_be.enc_inject u32_be.enc_inject)
  moreover from this have "pr = pr'" using hk hk' by (auto intro: evm_uln_proof.equality)
  ultimately show ?thesis using p(1-4) p'(1-4) parse_vid_inject by metis
qed

end
