(* ===== verification/Stellar_Builder.thy ===== *)
theory Stellar_Builder
  imports Felt_Builders
begin

text \<open>
  \<^verbatim>\<open>pillar-layerzero/src/other_non_evm/stellar.rs\<close>: the decoder of Stellar strkeys (base 32 with a CRC-16),
  the XDR encoding of the calls a DVN authorises, and the payload builder.
\<close>

section \<open>Strkeys\<close>

definition STELLAR_CONTRACT_VERSION :: byte where
  "STELLAR_CONTRACT_VERSION = 0x10"

definition STELLAR_STRKEY_LENGTH :: nat where
  "STELLAR_STRKEY_LENGTH = 56"

definition base32_digit :: "char \<Rightarrow> nat option" where
  "base32_digit c =
     (let n = of_char c :: nat in
      if 65 \<le> n \<and> n \<le> 90 then Some (n - 65)
      else if 50 \<le> n \<and> n \<le> 55 then Some (n - 50 + 26)
      else None)"

text \<open>The inner loop: whole bytes leave the bit buffer; \<open>decoded\<close> holds the bytes written so far.\<close>

function strkey_drain :: "u32 \<Rightarrow> nat \<Rightarrow> bytes \<Rightarrow> (u32 \<times> nat \<times> bytes) res" where
  "strkey_drain buffer bits decoded =
     (if bits < 8 then Inr (buffer, bits, decoded)
      else let bits' = bits - 8 in
        if 35 \<le> length decoded then Inl (Internal ''Stellar contract strkey decoded length exceeds 35 bytes'')
        else strkey_drain (if bits' = 0 then 0 else buffer AND (push_bit bits' 1 - 1)) bits'
               (decoded @ [ucast (drop_bit bits' buffer)]))"
  by pat_completeness auto
termination
  by (relation "measure (\<lambda>(buffer, bits, decoded). bits)") auto

declare strkey_drain.simps [simp del]

fun strkey_loop :: "u32 \<Rightarrow> nat \<Rightarrow> bytes \<Rightarrow> string \<Rightarrow> bytes res" where
  "strkey_loop buffer bits decoded [] = Inr decoded"
| "strkey_loop buffer bits decoded (c # cs) =
     (case base32_digit c of
        None \<Rightarrow> Inl (Internal (''Stellar contract strkey contains non-base32 character: '' @ show_nat (of_char c)))
      | Some digit \<Rightarrow>
          and_then (strkey_drain (push_bit 5 buffer OR word_of_nat digit) (bits + 5) decoded) (\<lambda>(buffer, bits, decoded).
            strkey_loop buffer bits decoded cs))"

definition crc_shift :: "u16 \<Rightarrow> u16" where
  "crc_shift crc = (if crc AND 0x8000 \<noteq> 0 then push_bit 1 crc XOR 0x1021 else push_bit 1 crc)"

definition crc_byte :: "u16 \<Rightarrow> byte \<Rightarrow> u16" where
  "crc_byte crc byte = (crc_shift ^^ 8) (crc XOR push_bit 8 (ucast byte))"

definition strkey_crc :: "bytes \<Rightarrow> u16" where
  "strkey_crc bs = foldl crc_byte 0 bs"

text \<open>\<open>{:02x}\<close> and \<open>{:04x}\<close>.\<close>

fun hex_padded :: "nat \<Rightarrow> nat \<Rightarrow> string" where
  "hex_padded 0 k = []"
| "hex_padded (Suc n) k = hex_padded n (k div 16) @ [hex_digit (k mod 16)]"

definition stellar_strkey_payload :: "string \<Rightarrow> byte \<Rightarrow> bytes res" where
  "stellar_strkey_payload v version =
     (if length v \<noteq> STELLAR_STRKEY_LENGTH
      then Inl (Internal (''Stellar contract strkey must be 56 characters, got '' @ show_nat (length v)))
      else and_then (strkey_loop 0 0 [] v) (\<lambda>decoded.
        if length decoded \<noteq> 35
        then Inl (Internal (''Stellar contract strkey decoded to '' @ show_nat (length decoded) @ '' bytes, expected 35''))
        else if decoded ! 0 \<noteq> version
        then Inl (Internal (''Stellar strkey has unsupported version byte 0x'' @ hex_padded 2 (unat (decoded ! 0))
               @ '', expected 0x'' @ hex_padded 2 (unat version)))
        else let crc = strkey_crc (take 33 decoded);
                 expected_crc = ucast (decoded ! 33) OR push_bit 8 (ucast (decoded ! 34)) in
          if crc \<noteq> expected_crc
          then Inl (Internal (''Stellar contract strkey checksum mismatch: expected 0x''
                 @ hex_padded 4 (unat expected_crc) @ '', calculated 0x'' @ hex_padded 4 (unat crc)))
          else Inr (slice 1 33 decoded)))"

definition stellar_contract_id_from_strkey :: "string \<Rightarrow> bytes res" where
  "stellar_contract_id_from_strkey v = stellar_strkey_payload v STELLAR_CONTRACT_VERSION"

definition stellar_account_id_from_strkey :: "string \<Rightarrow> bytes res" where
  "stellar_account_id_from_strkey v = stellar_strkey_payload v 0x30"

section \<open>XDR\<close>

definition opaque_xdr :: "bytes \<Rightarrow> bytes" where
  "opaque_xdr bs = u32_to_be (word_of_nat (length bs)) @ bs @ replicate ((4 - length bs mod 4) mod 4) 0"

definition address_xdr :: "bytes \<Rightarrow> bytes" where
  "address_xdr address = u32_to_be 18 @ u32_to_be 1 @ address"

definition bytes_xdr :: "bytes \<Rightarrow> bytes" where
  "bytes_xdr bs = u32_to_be 13 @ opaque_xdr bs"

definition u64_xdr :: "u64 \<Rightarrow> bytes" where
  "u64_xdr v = u32_to_be 5 @ u64_to_be v"

definition symbol_xdr :: "string \<Rightarrow> bytes" where
  "symbol_xdr v = u32_to_be 15 @ opaque_xdr (string_bytes v)"

definition vec_xdr :: "bytes list \<Rightarrow> bytes" where
  "vec_xdr items = u32_to_be 16 @ u32_to_be 1 @ u32_to_be (word_of_nat (length items)) @ concat items"

definition map_xdr :: "(bytes \<times> bytes) list \<Rightarrow> bytes" where
  "map_xdr entries = u32_to_be 17 @ u32_to_be 1 @ u32_to_be (word_of_nat (length entries))
     @ concat (map (\<lambda>(key, v). key @ v) entries)"

definition call_xdr :: "bytes \<Rightarrow> string \<Rightarrow> bytes list \<Rightarrow> bytes" where
  "call_xdr to func args =
     map_xdr [(symbol_xdr ''args'', vec_xdr args), (symbol_xdr ''func'', symbol_xdr func), (symbol_xdr ''to'', to)]"

definition stellar_dvn_address_xdr :: "external \<Rightarrow> string \<Rightarrow> bytes res" where
  "stellar_dvn_address_xdr X v =
     (if take 1 v = ''G''
      then map_ok (\<lambda>key. u32_to_be 18 @ u32_to_be 0 @ u32_to_be 0 @ key) (stellar_account_id_from_strkey v)
      else if take 1 v = ''C''
      then map_ok address_xdr (stellar_strkey_payload v STELLAR_CONTRACT_VERSION)
      else map_ok address_xdr (address_to_bytes32 X v))"

definition calls_xdr :: "external \<Rightarrow> evm_uln_proof \<Rightarrow> string \<Rightarrow> u64 \<Rightarrow> bytes \<Rightarrow> bytes res" where
  "calls_xdr X proof dvn_address block_confirmation uln_302_id =
     and_then (decode_hex_bytes X (packet_header proof)) (\<lambda>header.
     and_then (decode_hex_bytes X (payload_hash proof)) (\<lambda>hash.
     and_then (stellar_dvn_address_xdr X dvn_address) (\<lambda>dvn.
       let verify_call = call_xdr (address_xdr uln_302_id) ''verify''
             [dvn, bytes_xdr header, bytes_xdr hash, u64_xdr block_confirmation];
           inner = vec_xdr [verify_call];
           execute = call_xdr dvn ''execute_transaction'' [inner] in
       Inr (vec_xdr [execute]))))"

definition stellar_pack_dvn_call ::
    "external \<Rightarrow> u32 \<Rightarrow> u64 \<Rightarrow> evm_uln_proof \<Rightarrow> string \<Rightarrow> u64 \<Rightarrow> bytes \<Rightarrow> bytes res" where
  "stellar_pack_dvn_call X vid expiration proof dvn_address block_confirmation uln_302_id =
     map_ok (\<lambda>calls. u32_to_be vid @ u64_to_be expiration @ calls)
       (calls_xdr X proof dvn_address block_confirmation uln_302_id)"

section \<open>The builder\<close>

record stellar_builder =
  st_uln_302 :: string
  st_uln_302_id :: bytes

definition stellar_builder_new :: "string \<Rightarrow> stellar_builder res" where
  "stellar_builder_new uln_302 =
     map_ok (\<lambda>contract_id. \<lparr> st_uln_302 = uln_302, st_uln_302_id = contract_id \<rparr>) (stellar_contract_id_from_strkey uln_302)"

definition stellar_build_uln_v2 :: "uln_v2_payload_builder" where
  "stellar_build_uln_v2 ev block_confirmation expiration v_id = Inl (Internal ''Stellar only supports EndpointV2'')"

definition stellar_build_uln_v3 :: "external \<Rightarrow> stellar_builder \<Rightarrow> uln_v3_payload_builder" where
  "stellar_build_uln_v3 X builder ev block_confirmation expiration v_id dvn_address =
     and_then (required_dvn ''Stellar: DVN Address is required for verify payload'' dvn_address) (\<lambda>dvn.
     and_then (proof_from_event X ev) (\<lambda>proof.
     and_then (parse_vid v_id) (\<lambda>vid.
     and_then (u64_from_i64 expiration ''expiration'') (\<lambda>e.
     and_then (u64_from_i64 block_confirmation ''blockConfirmation'') (\<lambda>bc.
     and_then (stellar_pack_dvn_call X vid e proof dvn bc (st_uln_302_id builder)) (\<lambda>dvn_call_data.
       Inr \<lparr> hash_call_data = keccak0x X dvn_call_data,
             hc_details = builder_details (hex_encode X dvn_call_data) (JNumber (PosInt e)) v_id (st_uln_302 builder)
               (''execute_transaction([{ to: '' @ st_uln_302 builder @ '', func: verify, args: ['' @ dvn @ '', ''
                  @ packet_header proof @ '', '' @ payload_hash proof @ '', '' @ show_nat (unat bc) @ ''] }])'')
               ''verify'' (proof_members proof) (JNumber (PosInt bc)) ev \<rparr>))))))"

definition stellar_build_uln_read_v1 :: "uln_read_v1_payload_builder" where
  "stellar_build_uln_read_v1 ev resolved_payload expiration v_id dvn_address =
     Inl (Internal ''Read DVN is not available on Stellar'')"

section \<open>What a Stellar digest commits to\<close>

definition stellar_v3_preimage ::
    "external \<Rightarrow> stellar_builder \<Rightarrow> lz_sent_event \<times> int \<times> int \<times> string \<times> string option \<Rightarrow> bytes res" where
  "stellar_v3_preimage X builder = (\<lambda>(ev, block_confirmation, expiration, v_id, dvn_address).
     and_then (required_dvn ''Stellar: DVN Address is required for verify payload'' dvn_address) (\<lambda>dvn.
     and_then (proof_from_event X ev) (\<lambda>proof.
     and_then (parse_vid v_id) (\<lambda>vid.
     and_then (u64_from_i64 expiration ''expiration'') (\<lambda>e.
     and_then (u64_from_i64 block_confirmation ''blockConfirmation'') (\<lambda>bc.
       stellar_pack_dvn_call X vid e proof dvn bc (st_uln_302_id builder)))))))"

interpretation stellar_v3: preimage_builder X
  "\<lambda>(ev, bc, e, v, dvn). stellar_build_uln_v3 X builder ev bc e v dvn"
  "stellar_v3_preimage X builder" "hex0x X" for X builder
  by unfold_locales (auto simp: stellar_build_uln_v3_def stellar_v3_preimage_def run_builder keccak0x_eq hex0x_inject)

lemma strkey_payload_length: "stellar_strkey_payload s version = Inr bs \<Longrightarrow> length bs = 32"
  by (auto simp: stellar_strkey_payload_def res_simps Let_def split: if_splits)

text \<open>The two shapes of a DVN address, told apart by their discriminant.\<close>

lemma dvn_address_xdr_shape:
  assumes "stellar_dvn_address_xdr X s = Inr d"
  obtains (account) key where "length key = 32" "d = u32_to_be 18 @ u32_to_be 0 @ u32_to_be 0 @ key"
  | (contract) address where "length address = 32" "d = u32_to_be 18 @ u32_to_be 1 @ address"
  using assms
  by (auto simp: stellar_dvn_address_xdr_def stellar_account_id_from_strkey_def address_xdr_def res_simps
      dest: strkey_payload_length address_to_bytes32_length split: if_splits)

lemma dvn_address_xdr_prefix:
  assumes "stellar_dvn_address_xdr X s = Inr d" "stellar_dvn_address_xdr X s' = Inr d'" "d @ xs = d' @ ys"
  shows "d = d' \<and> xs = ys"
  using assms(3)
  by (cases rule: dvn_address_xdr_shape [OF assms(1)]; cases rule: dvn_address_xdr_shape [OF assms(2)])
    (auto simp: append_eq_append_conv u32_be.enc_inject)

lemma stellar_inject:
  assumes X: "hex_ok X" "digest_ok X"
    and b: "stellar_v3_preimage X builder (ev, bc, e, v, dvn) = Inr b"
      "stellar_v3_preimage X builder (ev', bc', e', v', dvn') = Inr b"
  shows "proof_from_event X ev = proof_from_event X ev' \<and> parse_u32 v = parse_u32 v' \<and>
    (\<exists>n x. u64_from_i64 bc ''blockConfirmation'' = Inr n \<and> u64_from_i64 bc' ''blockConfirmation'' = Inr n \<and>
       u64_from_i64 e ''expiration'' = Inr x \<and> u64_from_i64 e' ''expiration'' = Inr x)"
proof -
  from b(1) obtain pr s w n x d h k where p: "proof_from_event X ev = Inr pr" "parse_vid v = Inr w"
    "u64_from_i64 bc ''blockConfirmation'' = Inr n" "u64_from_i64 e ''expiration'' = Inr x" "stellar_dvn_address_xdr X s = Inr d"
    "decode_hex_bytes X (packet_header pr) = Inr h" "decode_hex_bytes X (payload_hash pr) = Inr k"
    "b = u32_to_be w @ u64_to_be x @ vec_xdr [call_xdr d ''execute_transaction'' [vec_xdr [call_xdr (address_xdr (st_uln_302_id builder))
       ''verify'' [d, bytes_xdr h, bytes_xdr k, u64_xdr n]]]]"
    by (auto simp: stellar_v3_preimage_def stellar_pack_dvn_call_def calls_xdr_def res_simps Let_def)
  from b(2) obtain pr' s' w' n' x' d' h' k' where p': "proof_from_event X ev' = Inr pr'" "parse_vid v' = Inr w'"
    "u64_from_i64 bc' ''blockConfirmation'' = Inr n'" "u64_from_i64 e' ''expiration'' = Inr x'" "stellar_dvn_address_xdr X s' = Inr d'"
    "decode_hex_bytes X (packet_header pr') = Inr h'" "decode_hex_bytes X (payload_hash pr') = Inr k'"
    "b = u32_to_be w' @ u64_to_be x' @ vec_xdr [call_xdr d' ''execute_transaction'' [vec_xdr [call_xdr (address_xdr (st_uln_302_id builder))
       ''verify'' [d', bytes_xdr h', bytes_xdr k', u64_xdr n']]]]"
    by (auto simp: stellar_v3_preimage_def stellar_pack_dvn_call_def calls_xdr_def res_simps Let_def)
  from proof_from_event_shape [OF X p(1)] p(6,7) X(1) have hk: "packet_header pr = hex0x X h" "length h = 81"
    "payload_hash pr = hex0x X k" "length k = 32" by (metis decode_hex_bytes_hex0x sum.inject(2))+
  from proof_from_event_shape [OF X p'(1)] p'(6,7) X(1) have hk': "packet_header pr' = hex0x X h'" "length h' = 81"
    "payload_hash pr' = hex0x X k'" "length k' = 32" by (metis decode_hex_bytes_hex0x sum.inject(2))+
  let ?t = "\<lambda>d. symbol_xdr ''func'' @ symbol_xdr ''verify'' @ symbol_xdr ''to'' @ address_xdr (st_uln_302_id builder)
    @ symbol_xdr ''func'' @ symbol_xdr ''execute_transaction'' @ symbol_xdr ''to'' @ d"
  have "u32_to_be w = u32_to_be w'" "u64_to_be x = u64_to_be x'"
    and body: "d @ bytes_xdr h @ bytes_xdr k @ u64_xdr n @ ?t d = d' @ bytes_xdr h' @ bytes_xdr k' @ u64_xdr n' @ ?t d'"
    using trans [OF p(8) [symmetric] p'(8)] by (simp_all add: vec_xdr_def call_xdr_def map_xdr_def append_eq_append_conv)
  then have wx: "w = w'" "x = x'" by (simp_all add: u64_be.enc_inject u32_be.enc_inject)
  from dvn_address_xdr_prefix [OF p(5) p'(5) body]
  have "h = h' \<and> k = k' \<and> u64_to_be n = u64_to_be n'"
    using hk(2,4) hk'(2,4) by (simp add: bytes_xdr_def opaque_xdr_def u64_xdr_def append_eq_append_conv)
  then have "h = h'" "k = k'" "n = n'" by (simp_all add: u64_be.enc_inject)
  moreover from this have "pr = pr'" using hk hk' by (auto intro: evm_uln_proof.equality)
  ultimately show ?thesis using p(1-4) p'(1-4) wx parse_vid_inject by metis
qed

section \<open>A strkey is the base-32 text of its bytes\<close>

text \<open>The reference: the base-32 digits of the number the bytes are, most significant first.\<close>

definition base32_char :: "nat \<Rightarrow> char" where
  "base32_char d = (if d < 26 then char_of (65 + d) else char_of (24 + d))"

fun base32_text :: "nat \<Rightarrow> nat \<Rightarrow> string" where
  "base32_text 0 k = []"
| "base32_text (Suc n) k = base32_text n (k div 32) @ [base32_char (k mod 32)]"

definition strkey :: "byte \<Rightarrow> bytes \<Rightarrow> string" where
  "strkey version payload =
     base32_text 56 (be_decode (version # payload @ u16_to_le (strkey_crc (version # payload))))"

fun base32_value :: "nat \<Rightarrow> string \<Rightarrow> nat option" where
  "base32_value acc [] = Some acc"
| "base32_value acc (c # cs) = (case base32_digit c of None \<Rightarrow> None | Some d \<Rightarrow> base32_value (acc * 32 + d) cs)"

lemma base32_digit_char: "d < 32 \<Longrightarrow> base32_digit (base32_char d) = Some d"
  by (auto simp: base32_digit_def base32_char_def Let_def)

lemma base32_digit_less: "base32_digit c = Some d \<Longrightarrow> d < 32"
  by (auto simp: base32_digit_def Let_def split: if_splits)

lemma base32_char_digit:
  assumes "base32_digit c = Some d"
  shows "base32_char d = c"
proof -
  have "d < 26 \<and> 65 + d = of_char c \<or> \<not> d < 26 \<and> 24 + d = of_char c"
    using assms by (auto simp: base32_digit_def Let_def split: if_splits)
  then show ?thesis unfolding base32_char_def by (metis char_of_char)
qed

lemma base32_value_snoc:
  "base32_value acc (cs @ [c]) =
     (case base32_value acc cs of None \<Rightarrow> None
      | Some k \<Rightarrow> map_option (\<lambda>d. k * 32 + d) (base32_digit c))"
  by (induction cs arbitrary: acc) (auto split: option.splits)

lemma length_base32_text [simp]: "length (base32_text n k) = n"
  by (induction n arbitrary: k) auto

lemma base32_value_text: "k < 32 ^ n \<Longrightarrow> base32_value 0 (base32_text n k) = Some k"
proof (induction n arbitrary: k)
  case (Suc n)
  then have "k div 32 < 32 ^ n" by (simp add: less_mult_imp_div_less mult.commute)
  with Suc.IH show ?case by (simp add: base32_value_snoc base32_digit_char)
qed simp

lemma base32_text_value:
  "base32_value 0 s = Some k \<Longrightarrow> base32_text (length s) k = s \<and> k < 32 ^ length s"
proof (induction s arbitrary: k rule: rev_induct)
  case (snoc c s)
  then obtain q d where q: "base32_value 0 s = Some q" "base32_digit c = Some d" "k = q * 32 + d"
    by (auto simp: base32_value_snoc split: option.splits)
  have d: "d < 32" "base32_char d = c" using q(2) base32_digit_less base32_char_digit by auto
  have IH: "base32_text (length s) q = s" "q < 32 ^ length s" using snoc.IH [OF q(1)] by auto
  have "k < (q + 1) * 32" using q(3) d(1) by simp
  also have "\<dots> \<le> 32 ^ length s * 32" using IH(2) by (intro mult_le_mono1) simp
  finally show ?case using IH d q(3) by simp
qed simp

subsection \<open>The bit buffer\<close>

lemma buffer_shift:
  assumes "unat (b :: u32) < 2 ^ 8" "d < 32"
  shows "unat (push_bit 5 b OR word_of_nat d) = unat b * 32 + d"
proof -
  have d: "unat (word_of_nat d :: u32) = d" using assms(2) by (intro unat_of_small_nat) simp
  have "word_of_nat d = (take_bit 5 (word_of_nat d) :: u32)"
    using assms(2) d by (simp add: word_unat_eq_iff unsigned_take_bit_eq take_bit_nat_eq_self)
  then have "push_bit 5 b AND word_of_nat d = 0"
    by (metis (no_types) bit_eq_iff bit_and_iff bit_push_bit_iff bit_take_bit_iff not_less bit_0_eq bot_apply bot_bool_def)
  then have "push_bit 5 b OR word_of_nat d = push_bit 5 b + (word_of_nat d :: u32)"
    by (simp only: disjunctive_add_eq_or)
  moreover have "unat (push_bit 5 b) = unat b * 32"
    using assms(1) by (subst unsigned_push_bit_eq) (simp add: push_bit_eq_mult take_bit_nat_eq_self)
  ultimately show ?thesis
    using assms d by (simp add: unat_word_ariths)
qed

lemma buffer_split:
  assumes "unat (b :: u32) < 2 ^ (k + 8)" "k < 8"
  shows "unat (ucast (drop_bit k b) :: byte) = unat b div 2 ^ k"
    and "unat (if k = 0 then 0 else b AND (push_bit k 1 - 1)) = unat b mod 2 ^ k"
proof -
  have "unat b div 2 ^ k < 2 ^ 8" using assms(1) by (simp add: less_mult_imp_div_less power_add mult.commute)
  moreover have "unat (drop_bit k b) = unat b div 2 ^ k"
    by (subst unsigned_drop_bit_eq) (simp add: drop_bit_eq_div take_bit_nat_eq_self unsigned_less [of b, where ?'a = nat, simplified])
  ultimately show "unat (ucast (drop_bit k b) :: byte) = unat b div 2 ^ k"
    by (simp add: unsigned_ucast_eq take_bit_nat_eq_self)
  have "push_bit k 1 - 1 = (mask k :: u32)" by (simp add: mask_eq_exp_minus_1 push_bit_eq_mult)
  then have "b AND (push_bit k 1 - 1) = take_bit k b" by (simp only: take_bit_eq_mask)
  moreover have "unat (take_bit k b) = unat b mod 2 ^ k" by (subst unsigned_take_bit_eq) (rule take_bit_eq_mod)
  ultimately have "unat (b AND (push_bit k 1 - 1)) = unat b mod 2 ^ k" by (simp only:)
  then show "unat (if k = 0 then 0 else b AND (push_bit k 1 - 1)) = unat b mod 2 ^ k" by (cases "k = 0") simp_all
qed

text \<open>
  What the loop keeps: the number read so far is the bytes written, followed by the bits in the
  buffer.
\<close>

definition strkey_inv :: "nat \<Rightarrow> nat \<Rightarrow> u32 \<Rightarrow> nat \<Rightarrow> bytes \<Rightarrow> bool" where
  "strkey_inv k n buffer bits decoded \<longleftrightarrow>
     k = be_decode decoded * 2 ^ bits + unat buffer \<and> unat buffer < 2 ^ bits \<and> bits < 8 \<and>
     8 * length decoded + bits = 5 * n"

lemma strkey_drain_once:
  assumes "length decoded < 35" "r < 8"
  shows "strkey_drain b (r + 8) decoded =
     Inr (if r = 0 then 0 else b AND (push_bit r 1 - 1), r, decoded @ [ucast (drop_bit r b)])"
  using assms by (subst strkey_drain.simps, subst strkey_drain.simps) (simp add: Let_def)

lemma strkey_drain_step:
  assumes inv: "strkey_inv k n buffer bits decoded" and d: "d < 32" and n: "n < 56"
  obtains buffer' bits' decoded' where
    "strkey_drain (push_bit 5 buffer OR word_of_nat d) (bits + 5) decoded = Inr (buffer', bits', decoded')"
    "strkey_inv (k * 32 + d) (Suc n) buffer' bits' decoded'"
proof -
  let ?b = "push_bit 5 buffer OR word_of_nat d"
  have small: "unat buffer < 2 ^ bits" "bits < 8" and len: "8 * length decoded + bits = 5 * n"
    using inv by (simp_all add: strkey_inv_def)
  have "(2 :: nat) ^ bits \<le> 2 ^ 8" using small(2) by (intro power_increasing) auto
  then have b: "unat ?b = unat buffer * 32 + d" using small d by (intro buffer_shift) auto
  have "unat buffer * 32 + d < (unat buffer + 1) * 32" using d by simp
  also have "\<dots> \<le> 2 ^ bits * 32" using small(1) by (intro mult_le_mono1) simp
  also have "\<dots> = 2 ^ (bits + 5)" by (simp add: power_add)
  finally have bound: "unat ?b < 2 ^ (bits + 5)" using b by simp
  have total: "k * 32 + d = be_decode decoded * 2 ^ (bits + 5) + unat ?b"
    using inv b by (simp add: strkey_inv_def power_add algebra_simps)
  show ?thesis
  proof (cases "bits + 5 < 8")
    case True
    then show ?thesis
      using that [of ?b "bits + 5" decoded] total bound len by (simp add: strkey_drain.simps strkey_inv_def)
  next
    case False
    define r where "r = bits - 3"
    have r: "bits + 5 = r + 8" "r < 8" using False small(2) by (simp_all add: r_def)
    note sp = buffer_split [OF bound [unfolded r(1)] r(2)]
    let ?d = "decoded @ [ucast (drop_bit r ?b)]"
    have "length decoded < 35" using len n by linarith
    then have "strkey_drain ?b (bits + 5) decoded = Inr (if r = 0 then 0 else ?b AND (push_bit r 1 - 1), r, ?d)"
      unfolding r(1) by (rule strkey_drain_once [OF _ r(2)])
    moreover have "strkey_inv (k * 32 + d) (Suc n) (if r = 0 then 0 else ?b AND (push_bit r 1 - 1)) r ?d"
    proof -
      have "be_decode ?d * 2 ^ r + unat ?b mod 2 ^ r = be_decode decoded * 2 ^ (r + 8) + (unat ?b div 2 ^ r * 2 ^ r + unat ?b mod 2 ^ r)"
        using sp(1) by (simp add: power_add algebra_simps)
      also have "\<dots> = k * 32 + d" using total unfolding r(1) by (simp only: div_mult_mod_eq)
      finally show ?thesis using sp(2) r len by (simp add: strkey_inv_def)
    qed
    ultimately show ?thesis by (rule that)
  qed
qed

lemma strkey_loop_reads:
  assumes "strkey_inv k n buffer bits decoded" "n + length cs \<le> 56"
  shows "(\<exists>out. strkey_loop buffer bits decoded cs = Inr out) = (\<exists>v. base32_value k cs = Some v)"
    and "strkey_loop buffer bits decoded cs = Inr out \<Longrightarrow> base32_value k cs = Some v \<Longrightarrow>
      \<exists>buffer' bits'. strkey_inv v (n + length cs) buffer' bits' out"
  using assms
proof (induction cs arbitrary: k n buffer bits decoded)
  case (Cons c cs)
  { case 1
    show ?case
    proof (cases "base32_digit c")
      case (Some d)
      from strkey_drain_step [OF 1(1) base32_digit_less [OF Some]] 1(2) obtain buffer' bits' decoded' where
        "strkey_drain (push_bit 5 buffer OR word_of_nat d) (bits + 5) decoded = Inr (buffer', bits', decoded')"
        "strkey_inv (k * 32 + d) (Suc n) buffer' bits' decoded'" by auto
      with Some Cons.IH(1) [of "k * 32 + d" "Suc n" buffer' bits' decoded'] 1(2) show ?thesis by simp
    qed simp
  next
    case 2
    show ?case
    proof (cases "base32_digit c")
      case (Some d)
      from strkey_drain_step [OF 2(3) base32_digit_less [OF Some]] 2(4) obtain buffer' bits' decoded' where
        "strkey_drain (push_bit 5 buffer OR word_of_nat d) (bits + 5) decoded = Inr (buffer', bits', decoded')"
        "strkey_inv (k * 32 + d) (Suc n) buffer' bits' decoded'" by auto
      with Some Cons.IH(2) [of buffer' bits' decoded' "k * 32 + d" "Suc n"] 2 show ?thesis by simp
    qed (use 2 in simp)
  }
qed auto

lemma strkey_loop_exact:
  assumes "length s = 56"
  shows "strkey_loop 0 0 [] s = Inr out \<longleftrightarrow> length out = 35 \<and> s = base32_text 56 (be_decode out)"
proof -
  have init: "strkey_inv 0 0 0 0 []" by (simp add: strkey_inv_def)
  have pow: "(32 :: nat) ^ 56 = 256 ^ 35" by simp
  show ?thesis
  proof
    assume r: "strkey_loop 0 0 [] s = Inr out"
    with strkey_loop_reads(1) [OF init, of s] assms obtain v where v: "base32_value 0 s = Some v" by auto
    from strkey_loop_reads(2) [OF init _ r v] assms obtain b bits where "strkey_inv v 56 b bits out" by auto
    then have i: "v = be_decode out * 2 ^ bits + unat b" "unat b < 2 ^ bits" "bits < 8" "8 * length out + bits = 280"
      by (simp_all add: strkey_inv_def)
    have "length out = 35" "bits = 0" using i(3,4) by presburger+
    with i base32_text_value [OF v] assms show "length out = 35 \<and> s = base32_text 56 (be_decode out)" by simp
  next
    assume out: "length out = 35 \<and> s = base32_text 56 (be_decode out)"
    have "be_decode out < 32 ^ 56" using be_decode_less [of out] out pow by simp
    then have v: "base32_value 0 s = Some (be_decode out)" using out base32_value_text by simp
    with strkey_loop_reads(1) [OF init, of s] assms obtain out' where o: "strkey_loop 0 0 [] s = Inr out'" by auto
    from strkey_loop_reads(2) [OF init _ o v] assms obtain b bits where "strkey_inv (be_decode out) 56 b bits out'" by auto
    then have i: "be_decode out = be_decode out' * 2 ^ bits + unat b" "unat b < 2 ^ bits" "bits < 8" "8 * length out' + bits = 280"
      by (simp_all add: strkey_inv_def)
    have "length out' = 35" "bits = 0" using i(3,4) by presburger+
    then have "out' = out" using i out by (metis be_encode_decode add_0_right less_one mult_1_right power_0)
    then show "strkey_loop 0 0 [] s = Inr out" using o by simp
  qed
qed

lemma crc_bytes: "ucast lo OR push_bit 8 (ucast hi) = u16_from_le [lo, hi]"
proof -
  have "ucast lo AND push_bit 8 (ucast hi) = (0 :: u16)"
    by (rule bit_word_eqI) (auto simp: bit_simps dest: bit_imp_le_length)
  then have "ucast lo OR push_bit 8 (ucast hi) = (ucast lo + push_bit 8 (ucast hi) :: u16)"
    by (simp only: disjunctive_add_eq_or)
  also have "\<dots> = word_of_nat (unat lo) + word_of_nat (unat hi * 256)"
    by (simp add: push_bit_eq_mult)
  also have "\<dots> = u16_from_le [lo, hi]"
    by (simp add: u16_from_le_def u16_from_be_def be_decode_Cons)
  finally show ?thesis .
qed

lemma split_35: "length out = 35 \<Longrightarrow> out = (out ! 0) # slice 1 33 out @ [out ! 33, out ! 34]"
proof -
  assume len: "length out = 35"
  have "out = take 1 out @ slice 1 33 out @ drop 33 out" using slice_drop_join [of 1 33 out] by (metis append_take_drop_id one_le_numeral)
  moreover have "take 1 out = [out ! 0]" using len by (cases out) simp_all
  moreover have "drop 33 out = [out ! 33, out ! 34]"
    using len by (simp add: Cons_nth_drop_Suc [symmetric])
  ultimately show ?thesis by simp
qed

text \<open>
  C13: the strkey decoder, a bit buffer over base-32 characters with a version byte and a checksum,
  accepts exactly the texts of the reference encoding. It answers a payload if and only if the
  payload has 32 bytes and the text is the base-32 text of the version, the payload and their CRC-16.
\<close>

theorem stellar_strkey_exact:
  "stellar_strkey_payload s version = Inr payload \<longleftrightarrow> length payload = 32 \<and> s = strkey version payload"
proof
  assume r: "stellar_strkey_payload s version = Inr payload"
  then obtain out where len: "length s = 56" and out: "strkey_loop 0 0 [] s = Inr out" "length out = 35" "out ! 0 = version"
    "strkey_crc (take 33 out) = ucast (out ! 33) OR push_bit 8 (ucast (out ! 34))" "payload = slice 1 33 out"
    by (auto simp: stellar_strkey_payload_def STELLAR_STRKEY_LENGTH_def res_simps Let_def split: if_splits)
  have parts: "out = version # payload @ [out ! 33, out ! 34]" using split_35 [OF out(2)] out(3,5) by simp
  moreover have p: "length payload = 32" using out(2,5) by simp
  ultimately have "take 33 out = version # payload" by (metis append_Cons append_eq_conv_conj length_Cons numeral_eq_Suc pred_numeral_simps(3))
  then have "u16_to_le (strkey_crc (version # payload)) = [out ! 33, out ! 34]"
    using out(4) by (simp add: crc_bytes u16_le.enc_dec)
  then have "s = strkey version payload" using strkey_loop_exact [OF len] out(1) parts by (simp add: strkey_def)
  then show "length payload = 32 \<and> s = strkey version payload" using p by simp
next
  assume "length payload = 32 \<and> s = strkey version payload"
  then have p: "length payload = 32" and s: "s = strkey version payload" by simp_all
  define crc where "crc = strkey_crc (version # payload)"
  obtain lo hi where c: "u16_to_le crc = [lo, hi]"
  proof -
    have "length (u16_to_le crc) = Suc (Suc 0)" by simp
    then show ?thesis using that by (auto simp: length_Suc_conv simp del: le_lengths)
  qed
  define out where "out = version # payload @ [lo, hi]"
  have len: "length s = 56" using s by (simp add: strkey_def)
  have "strkey_loop 0 0 [] s = Inr out"
    using strkey_loop_exact [OF len, of out] p s c by (simp add: strkey_def out_def crc_def)
  moreover have "length out = 35" "out ! 0 = version" "take 33 out = version # payload" "slice 1 33 out = payload"
    "out ! 33 = lo" "out ! 34 = hi"
    using p by (simp_all add: out_def slice_def nth_Cons' nth_append)
  moreover have "ucast lo OR push_bit 8 (ucast hi) = crc"
    using c by (simp add: crc_bytes flip: c)
  ultimately show "stellar_strkey_payload s version = Inr payload"
    using len by (simp add: stellar_strkey_payload_def STELLAR_STRKEY_LENGTH_def Let_def crc_def)
qed

end
