(* ===== verification/Solana_Builder.thy ===== *)
theory Solana_Builder
  imports Felt_Builders
begin

text \<open>
  \<^verbatim>\<open>pillar-layerzero/src/solana.rs\<close>: program derived addresses, the instruction and the digest of a Solana
  verify, and the decision, from the accounts of the ULN and the endpoint, whether a packet is already
  signed and whether the ULN is a valid receive library.
\<close>

section \<open>Addresses\<close>

definition SOLANA_ULN_PROGRAM_ID :: string where
  "SOLANA_ULN_PROGRAM_ID = ''7a4WjyR8VZ7yZz5XJAKm39BUGn5iT9CKcv2pmG9tdXVH''"

definition SOLANA_ENDPOINT_PROGRAM_ID :: string where
  "SOLANA_ENDPOINT_PROGRAM_ID = ''76y77prsiCMvXMjuoZ5VRrhG5qYBrUMYTE5WgHqgjEn6''"

definition VERIFY_DISCRIMINATOR :: bytes where
  "VERIFY_DISCRIMINATOR = [133, 161, 141, 48, 120, 198, 88, 150]"

definition PDA_MARKER :: string where
  "PDA_MARKER = ''ProgramDerivedAddress''"

definition public_key_bytes :: "external \<Rightarrow> string \<Rightarrow> bytes res" where
  "public_key_bytes X v =
     (if \<not> (32 \<le> length v \<and> length v \<le> 44) then Inl (BadRequest ''Invalid Solana public key length'')
      else and_then (map_err (\<lambda>error. BadRequest (''Invalid Solana public key: '' @ error)) (bs58_decode_onto32 X v)) (\<lambda>out.
        if length out \<noteq> 32 then Inl (BadRequest ''Invalid Solana public key length'') else Inr out))"

text \<open>The search for a bump whose digest is not a curve point, from 255 down.\<close>

fun search_bumps :: "external \<Rightarrow> bytes \<Rightarrow> bytes \<Rightarrow> nat list \<Rightarrow> bytes res" where
  "search_bumps X seeds program_id [] = Inl (Internal ''unable to find Solana program address'')"
| "search_bumps X seeds program_id (bump # bumps) =
     (let candidate = sha256 X (seeds @ [word_of_nat bump] @ program_id @ string_bytes PDA_MARKER) in
      if \<not> ed25519_point X candidate then Inr candidate
      else search_bumps X seeds program_id bumps)"

definition find_program_address :: "external \<Rightarrow> bytes list \<Rightarrow> bytes \<Rightarrow> bytes res" where
  "find_program_address X seeds program_id = search_bumps X (concat seeds) program_id (rev [0..<256])"

definition solana_message_library_address :: "external \<Rightarrow> string \<Rightarrow> string res" where
  "solana_message_library_address X program_id =
     and_then (public_key_bytes X program_id) (\<lambda>program.
     and_then (find_program_address X [string_bytes ''MessageLib''] program) (\<lambda>address.
       Inr (bs58_encode X address)))"

section \<open>The verify instruction and its digest\<close>

record transaction_account =
  ta_pubkey :: bytes
  ta_is_signer :: bool
  ta_is_writable :: bool

definition solana_verify_instruction_data :: "external \<Rightarrow> evm_uln_proof \<Rightarrow> u64 \<Rightarrow> bytes res" where
  "solana_verify_instruction_data X proof block_confirmation =
     and_then (decode_hex_bytes X (packet_header proof)) (\<lambda>header.
       if length header \<noteq> 81
       then Inl (Internal (''invalid Solana packet header length: '' @ show_nat (length header)))
       else and_then (decode_hex_32 X (payload_hash proof)) (\<lambda>hash.
         Inr (VERIFY_DISCRIMINATOR @ header @ hash @ u64_to_le block_confirmation)))"

definition account_bytes :: "transaction_account \<Rightarrow> bytes" where
  "account_bytes account =
     ta_pubkey account @ [if ta_is_signer account then 1 else 0, if ta_is_writable account then 1 else 0]"

definition execute_transaction_digest_bytes ::
    "u32 \<Rightarrow> bytes \<Rightarrow> transaction_account list \<Rightarrow> bytes \<Rightarrow> int \<Rightarrow> bytes" where
  "execute_transaction_digest_bytes vid program_id accounts data expiration =
     u32_to_le vid @ program_id @ u32_to_le (word_of_nat (length accounts)) @ concat (map account_bytes accounts)
     @ u32_to_le (word_of_nat (length data)) @ data @ i64_to_le expiration"

definition solana_header_and_payload_hash :: "external \<Rightarrow> evm_uln_proof \<Rightarrow> (bytes \<times> bytes) res" where
  "solana_header_and_payload_hash X proof =
     and_then (decode_hex_bytes X (packet_header proof)) (\<lambda>header.
     and_then (decode_hex_32 X (payload_hash proof)) (\<lambda>hash. Inr (keccak256 X header, hash)))"

definition solana_verify_accounts ::
    "external \<Rightarrow> evm_uln_proof \<Rightarrow> bytes \<Rightarrow> bytes \<Rightarrow> transaction_account list res" where
  "solana_verify_accounts X proof dvn program_id =
     and_then (solana_header_and_payload_hash X proof) (\<lambda>(header_hash, hash).
     and_then (find_program_address X [string_bytes ''Confirmations'', header_hash, hash, dvn] program_id) (\<lambda>pda.
     and_then (find_program_address X [string_bytes ''__event_authority''] program_id) (\<lambda>authority.
       Inr [\<lparr> ta_pubkey = dvn, ta_is_signer = True, ta_is_writable = False \<rparr>,
            \<lparr> ta_pubkey = pda, ta_is_signer = False, ta_is_writable = True \<rparr>,
            \<lparr> ta_pubkey = authority, ta_is_signer = False, ta_is_writable = False \<rparr>,
            \<lparr> ta_pubkey = program_id, ta_is_signer = False, ta_is_writable = False \<rparr>])))"

definition solana_v3_from_proof ::
    "external \<Rightarrow> lz_sent_event \<Rightarrow> evm_uln_proof \<Rightarrow> int \<Rightarrow> int \<Rightarrow> string \<Rightarrow> string option \<Rightarrow> hash_call_data_result res" where
  "solana_v3_from_proof X ev proof block_confirmation expiration v_id dvn_address =
     and_then (required_dvn ''Solana: DVN Address is required for verify payload'' dvn_address) (\<lambda>dvn_address.
     and_then (extra_u64 ev ''dstEid'') (\<lambda>dst_eid.
     and_then (uln_send_version_string (uln_send_version (ev_lz_message_id ev))) (\<lambda>version.
     if evm_receive_version_from_dst_eid dst_eid version \<noteq> ULN_VERSION_V302
     then Inl (Internal ''Solana only supports EndpointV2'')
     else
     and_then (parse_vid v_id) (\<lambda>vid.
     and_then (u64_from_i64 block_confirmation ''blockConfirmation'') (\<lambda>bc.
     and_then (public_key_bytes X SOLANA_ULN_PROGRAM_ID) (\<lambda>program_id.
     and_then (public_key_bytes X dvn_address) (\<lambda>dvn.
     and_then (solana_verify_instruction_data X proof bc) (\<lambda>uln_call_data.
     and_then (solana_verify_accounts X proof dvn program_id) (\<lambda>accounts.
       let digest_bytes = execute_transaction_digest_bytes vid program_id accounts uln_call_data expiration in
       Inr \<lparr> hash_call_data = hex_encode X (keccak256 X digest_bytes),
             hc_details = builder_details (hex_encode X digest_bytes) (json_i64 expiration) v_id SOLANA_ULN_PROGRAM_ID
               (hex_encode X uln_call_data) ''verify'' (proof_members proof) (JNumber (PosInt bc)) ev \<rparr>)))))))))"

definition solana_build_uln_v2 :: "uln_v2_payload_builder" where
  "solana_build_uln_v2 ev block_confirmation expiration v_id =
     Inl (Internal ''Not implemented: Solana only supports EndpointV2'')"

definition solana_build_uln_v3 :: "external \<Rightarrow> uln_v3_payload_builder" where
  "solana_build_uln_v3 X ev block_confirmation expiration v_id dvn_address =
     and_then (proof_from_event X ev) (\<lambda>proof.
       solana_v3_from_proof X ev proof block_confirmation expiration v_id dvn_address)"

definition solana_build_uln_read_v1 :: "uln_read_v1_payload_builder" where
  "solana_build_uln_read_v1 ev resolved_payload expiration v_id dvn_address = Inl (Internal ''Not implemented'')"

section \<open>Accounts\<close>

definition NONCE_ACCOUNT_DISCRIMINATOR :: bytes where
  "NONCE_ACCOUNT_DISCRIMINATOR = [143, 197, 147, 95, 106, 165, 50, 43]"
definition PENDING_INBOUND_NONCE_ACCOUNT_DISCRIMINATOR :: bytes where
  "PENDING_INBOUND_NONCE_ACCOUNT_DISCRIMINATOR = [170, 176, 95, 240, 120, 231, 241, 218]"
definition RECEIVE_CONFIG_ACCOUNT_DISCRIMINATOR :: bytes where
  "RECEIVE_CONFIG_ACCOUNT_DISCRIMINATOR = [162, 159, 153, 188, 56, 65, 245, 58]"
definition CONFIRMATIONS_ACCOUNT_DISCRIMINATOR :: bytes where
  "CONFIRMATIONS_ACCOUNT_DISCRIMINATOR = [206, 57, 50, 8, 124, 133, 138, 112]"
definition RECEIVE_LIBRARY_CONFIG_ACCOUNT_DISCRIMINATOR :: bytes where
  "RECEIVE_LIBRARY_CONFIG_ACCOUNT_DISCRIMINATOR = [142, 226, 251, 138, 1, 206, 91, 193]"
definition DEFAULT_MESSAGE_LIB :: bytes where
  "DEFAULT_MESSAGE_LIB = replicate 32 0"
definition NIL_CONFIRMATIONS :: u64 where
  "NIL_CONFIRMATIONS = 0xffffffffffffffff"

record solana_payload_signed_request =
  sr_receiver :: bytes
  sr_sender :: bytes
  sr_src_eid :: u32
  sr_nonce :: u64
  sr_header_hash :: bytes
  sr_payload_hash :: bytes
  sr_dvn :: bytes

record solana_payload_signed_accounts =
  nonce_pda :: bytes
  pending_nonce_pda :: bytes
  receive_config_pda :: bytes
  default_receive_config_pda :: bytes
  confirmations_pda :: bytes
  library_config_pda :: bytes
  default_library_config_pda :: bytes

record solana_fetched_accounts =
  fa_nonce :: "bytes option"
  fa_pending_nonce :: "bytes option"
  fa_receive_config :: "bytes option"
  fa_default_receive_config :: "bytes option"
  fa_confirmations :: "bytes option"

definition or_else :: "'a res \<Rightarrow> 'a res \<Rightarrow> 'a res" where
  "or_else r s = (case r of Inr x \<Rightarrow> Inr x | Inl _ \<Rightarrow> s)"

definition solana_payload_signed_request :: "external \<Rightarrow> lz_sent_event \<Rightarrow> string \<Rightarrow> solana_payload_signed_request res" where
  "solana_payload_signed_request X ev dvn_address =
     and_then (pathway_extra_string ev ''receiver'') (\<lambda>receiver_raw.
     and_then (or_else (address_to_bytes32 X receiver_raw) (public_key_bytes X receiver_raw)) (\<lambda>receiver.
     and_then (pathway_extra_string ev ''sender'') (\<lambda>sender_raw.
     and_then (or_else (address_to_bytes32 X sender_raw) (public_key_bytes X sender_raw)) (\<lambda>sender.
     and_then (extra_u64 ev ''srcEid'') (\<lambda>src_eid.
     if 2 ^ 32 \<le> unat src_eid then Inl (Internal ''srcEid exceeds u32'')
     else
     and_then (public_key_bytes X dvn_address) (\<lambda>dvn.
     and_then (proof_from_event X ev) (\<lambda>proof.
     and_then (solana_header_and_payload_hash X proof) (\<lambda>(header_hash, hash).
       Inr \<lparr> sr_receiver = receiver, sr_sender = sender, sr_src_eid = ucast src_eid,
             sr_nonce = msg_nonce (ev_lz_message_id ev), sr_header_hash = header_hash, sr_payload_hash = hash,
             sr_dvn = dvn \<rparr>))))))))"

definition solana_payload_signed_accounts ::
    "external \<Rightarrow> solana_payload_signed_request \<Rightarrow> solana_payload_signed_accounts res" where
  "solana_payload_signed_accounts X rq =
     and_then (public_key_bytes X SOLANA_ENDPOINT_PROGRAM_ID) (\<lambda>endpoint.
     and_then (public_key_bytes X SOLANA_ULN_PROGRAM_ID) (\<lambda>uln.
       let src_eid_be = u32_to_be (sr_src_eid rq) in
     and_then (find_program_address X [string_bytes ''Nonce'', sr_receiver rq, src_eid_be, sr_sender rq] endpoint) (\<lambda>nonce.
     and_then (find_program_address X [string_bytes ''PendingNonce'', sr_receiver rq, src_eid_be, sr_sender rq] endpoint) (\<lambda>pending.
     and_then (find_program_address X [string_bytes ''ReceiveConfig'', src_eid_be, sr_receiver rq] uln) (\<lambda>config.
     and_then (find_program_address X [string_bytes ''ReceiveConfig'', src_eid_be] uln) (\<lambda>default_config.
     and_then (find_program_address X [string_bytes ''Confirmations'', sr_header_hash rq, sr_payload_hash rq, sr_dvn rq] uln) (\<lambda>conf.
     and_then (find_program_address X [string_bytes ''ReceiveLibraryConfig'', sr_receiver rq, src_eid_be] endpoint) (\<lambda>library.
     and_then (find_program_address X [string_bytes ''ReceiveLibraryConfig'', src_eid_be] endpoint) (\<lambda>default_library.
       Inr \<lparr> nonce_pda = nonce, pending_nonce_pda = pending, receive_config_pda = config,
             default_receive_config_pda = default_config, confirmations_pda = conf,
             library_config_pda = library, default_library_config_pda = default_library \<rparr>)))))))))"

text \<open>\<open>data.get(offset..offset + n)\<close>.\<close>

definition get_range :: "bytes \<Rightarrow> nat \<Rightarrow> nat \<Rightarrow> bytes option" where
  "get_range data offset n = (if offset + n \<le> length data then Some (slice offset (offset + n) data) else None)"

definition too_short :: "string \<Rightarrow> app_core_error" where
  "too_short field = Internal (field @ '': account data too short'')"

definition read_u64_le :: "bytes \<Rightarrow> nat \<Rightarrow> string \<Rightarrow> u64 res" where
  "read_u64_le data offset field = map_ok u64_from_le (ok_or (too_short field) (get_range data offset 8))"

definition read_u32_le :: "bytes \<Rightarrow> nat \<Rightarrow> string \<Rightarrow> u32 res" where
  "read_u32_le data offset field = map_ok u32_from_le (ok_or (too_short field) (get_range data offset 4))"

definition read_pubkey :: "bytes \<Rightarrow> nat \<Rightarrow> string \<Rightarrow> bytes res" where
  "read_pubkey data offset field = ok_or (too_short field) (get_range data offset 32)"

definition check_account_discriminator :: "bytes \<Rightarrow> bytes \<Rightarrow> string \<Rightarrow> unit res" where
  "check_account_discriminator data expected account_name =
     and_then (ok_or (Internal (account_name @ '' account data too short'')) (get_range data 0 8)) (\<lambda>actual.
       if actual \<noteq> expected then Inl (Internal (account_name @ '' account discriminator mismatch'')) else Inr ())"

definition decode_solana_nonce_account :: "bytes \<Rightarrow> u64 res" where
  "decode_solana_nonce_account data =
     and_then (check_account_discriminator data NONCE_ACCOUNT_DISCRIMINATOR ''Nonce'') (\<lambda>_.
       read_u64_le data 17 ''Nonce.inboundNonce'')"

definition decode_solana_pending_inbound_nonce_account :: "bytes \<Rightarrow> u64 list res" where
  "decode_solana_pending_inbound_nonce_account data =
     and_then (check_account_discriminator data PENDING_INBOUND_NONCE_ACCOUNT_DISCRIMINATOR ''PendingInboundNonce'') (\<lambda>_.
     and_then (read_u32_le data 8 ''PendingInboundNonce.nonces.len'') (\<lambda>len.
       map_res (\<lambda>index. read_u64_le data (12 + index * 8) ''PendingInboundNonce.nonces[i]'') [0..<unat len]))"

definition decode_solana_receive_config_account :: "bytes \<Rightarrow> u64 res" where
  "decode_solana_receive_config_account data =
     and_then (check_account_discriminator data RECEIVE_CONFIG_ACCOUNT_DISCRIMINATOR ''ReceiveConfig'') (\<lambda>_.
       read_u64_le data 9 ''ReceiveConfig.uln.confirmations'')"

definition decode_solana_confirmations_account :: "bytes \<Rightarrow> u64 option res" where
  "decode_solana_confirmations_account data =
     and_then (check_account_discriminator data CONFIRMATIONS_ACCOUNT_DISCRIMINATOR ''Confirmations'') (\<lambda>_.
       if length data \<le> 8 then Inl (Internal ''Confirmations account data too short'')
       else if data ! 8 = 0 then Inr None
       else map_ok Some (read_u64_le data 9 ''Confirmations.value''))"

text \<open>\<open>Option::map(decode).transpose()\<close>.\<close>

definition transpose_res :: "('a \<Rightarrow> 'b res) \<Rightarrow> 'a option \<Rightarrow> 'b option res" where
  "transpose_res f x = (case x of None \<Rightarrow> Inr None | Some a \<Rightarrow> map_ok Some (f a))"

definition required_confirmations :: "u64 \<Rightarrow> u64 option \<Rightarrow> u64" where
  "required_confirmations default_confirmations custom =
     (case custom of
        None \<Rightarrow> default_confirmations
      | Some c \<Rightarrow> if c = 0 then default_confirmations else if c = NIL_CONFIRMATIONS then 0 else c)"

definition nonce_delivered :: "solana_payload_signed_request \<Rightarrow> bytes option \<Rightarrow> bool res" where
  "nonce_delivered rq account =
     (case account of
        None \<Rightarrow> Inr False
      | Some data \<Rightarrow> map_ok (\<lambda>inbound. sr_nonce rq \<le> inbound) (decode_solana_nonce_account data))"

definition nonce_pending :: "solana_payload_signed_request \<Rightarrow> bytes option \<Rightarrow> bool res" where
  "nonce_pending rq account =
     (case account of
        None \<Rightarrow> Inr False
      | Some data \<Rightarrow> map_ok (\<lambda>nonces. sr_nonce rq \<in> set nonces) (decode_solana_pending_inbound_nonce_account data))"

definition solana_payload_is_signed :: "solana_payload_signed_request \<Rightarrow> solana_fetched_accounts \<Rightarrow> bool res" where
  "solana_payload_is_signed rq accounts =
     and_then (nonce_delivered rq (fa_nonce accounts)) (\<lambda>delivered.
     if delivered then Inr True
     else
     and_then (nonce_pending rq (fa_pending_nonce accounts)) (\<lambda>pending.
     if pending then Inr True
     else
     and_then (and_then (ok_or (Internal ''Default Solana ULN receive config not found'') (fa_default_receive_config accounts))
                 decode_solana_receive_config_account) (\<lambda>default_confirmations.
     and_then (transpose_res decode_solana_receive_config_account (fa_receive_config accounts)) (\<lambda>custom.
     case fa_confirmations accounts of
       None \<Rightarrow> Inr False
     | Some data \<Rightarrow>
         map_ok (\<lambda>recorded. case recorded of
             None \<Rightarrow> False
           | Some v \<Rightarrow> v \<noteq> 0 \<and> required_confirmations default_confirmations custom \<le> v)
           (decode_solana_confirmations_account data)))))"

record solana_receive_library_config =
  lc_message_lib :: bytes
  lc_timeout :: "(bytes \<times> u64) option"

definition decode_solana_receive_library_config :: "bytes \<Rightarrow> solana_receive_library_config res" where
  "decode_solana_receive_library_config data =
     and_then (check_account_discriminator data RECEIVE_LIBRARY_CONFIG_ACCOUNT_DISCRIMINATOR ''ReceiveLibraryConfig'') (\<lambda>_.
     and_then (read_pubkey data 8 ''ReceiveLibraryConfig.message_lib'') (\<lambda>message_lib.
     and_then
       (if length data \<le> 40 \<or> data ! 40 \<notin> {0, 1} then Inl (Internal ''ReceiveLibraryConfig timeout tag is invalid'')
        else if data ! 40 = 0 then Inr None
        else
          and_then (read_pubkey data 41 ''ReceiveLibraryConfig.timeout.message_lib'') (\<lambda>old.
          and_then (read_u64_le data 73 ''ReceiveLibraryConfig.timeout.expiry'') (\<lambda>expiry.
            Inr (Some (old, expiry))))) (\<lambda>timeout.
       Inr \<lparr> lc_message_lib = message_lib, lc_timeout = timeout \<rparr>)))"

definition solana_uln_is_valid_receive_library ::
    "external \<Rightarrow> bytes option \<Rightarrow> bytes option \<Rightarrow> u64 \<Rightarrow> bool res" where
  "solana_uln_is_valid_receive_library X library_config default_library_config slot =
     (case (library_config, default_library_config) of
        (Some library_data, Some default_data) \<Rightarrow>
          and_then (and_then (public_key_bytes X SOLANA_ULN_PROGRAM_ID)
                      (find_program_address X [string_bytes ''MessageLib''])) (\<lambda>uln.
          and_then (decode_solana_receive_library_config library_data) (\<lambda>config.
          and_then (decode_solana_receive_library_config default_data) (\<lambda>default_config.
            let effective = (if lc_message_lib config = DEFAULT_MESSAGE_LIB then default_config else config) in
            Inr (lc_message_lib effective = uln \<or>
                 (case lc_timeout effective of
                    None \<Rightarrow> False
                  | Some (message_lib, expiry) \<Rightarrow> message_lib = uln \<and> slot < expiry)))))
      | _ \<Rightarrow> Inr False)"

section \<open>What a Solana digest commits to\<close>

definition solana_v3_preimage ::
    "external \<Rightarrow> lz_sent_event \<times> int \<times> int \<times> string \<times> string option \<Rightarrow> bytes res" where
  "solana_v3_preimage X = (\<lambda>(ev, block_confirmation, expiration, v_id, dvn_address).
     and_then (proof_from_event X ev) (\<lambda>proof.
     and_then (required_dvn ''Solana: DVN Address is required for verify payload'' dvn_address) (\<lambda>dvn_address.
     and_then (extra_u64 ev ''dstEid'') (\<lambda>dst_eid.
     and_then (uln_send_version_string (uln_send_version (ev_lz_message_id ev))) (\<lambda>version.
     if evm_receive_version_from_dst_eid dst_eid version \<noteq> ULN_VERSION_V302
     then Inl (Internal ''Solana only supports EndpointV2'')
     else
     and_then (parse_vid v_id) (\<lambda>vid.
     and_then (u64_from_i64 block_confirmation ''blockConfirmation'') (\<lambda>bc.
     and_then (public_key_bytes X SOLANA_ULN_PROGRAM_ID) (\<lambda>program_id.
     and_then (public_key_bytes X dvn_address) (\<lambda>dvn.
     and_then (solana_verify_instruction_data X proof bc) (\<lambda>uln_call_data.
     and_then (solana_verify_accounts X proof dvn program_id) (\<lambda>accounts.
       Inr (execute_transaction_digest_bytes vid program_id accounts uln_call_data expiration))))))))))))"

interpretation solana_v3: preimage_builder X
  "\<lambda>(ev, bc, e, v, dvn). solana_build_uln_v3 X ev bc e v dvn"
  "solana_v3_preimage X" "hex_encode X" for X
  by unfold_locales
    (auto simp: solana_build_uln_v3_def solana_v3_from_proof_def solana_v3_preimage_def run_builder Let_def
      hex_encode_inject if_distrib cong: if_cong)

lemma search_bumps_Inr:
  "search_bumps X seeds pid bumps = Inr a \<Longrightarrow>
     \<exists>bump \<in> set bumps. a = sha256 X (seeds @ [word_of_nat bump] @ pid @ string_bytes PDA_MARKER) \<and> \<not> ed25519_point X a"
  by (induction bumps) (auto simp: Let_def split: if_splits)

lemma find_program_address_length:
  "digest_ok X \<Longrightarrow> find_program_address X seeds pid = Inr a \<Longrightarrow> length a = 32"
  by (auto simp: find_program_address_def digest_okD dest!: search_bumps_Inr)

lemma public_key_bytes_length: "public_key_bytes X s = Inr k \<Longrightarrow> length k = 32"
  by (auto simp: public_key_bytes_def res_simps split: if_splits)

lemma verify_accounts_shape:
  assumes "digest_ok X" "solana_verify_accounts X pr dvn pid = Inr accounts" "length dvn = 32" "length pid = 32"
  shows "length accounts = 4" "length (concat (map account_bytes accounts)) = 136"
  using assms(2-4)
  by (auto simp: solana_verify_accounts_def res_simps account_bytes_def split: prod.splits
      dest!: find_program_address_length [OF assms(1)])

lemma solana_preimage_Inr:
  assumes X: "hex_ok X" "digest_ok X" and b: "solana_v3_preimage X (ev, bc, e, v, dvn) = Inr b"
  obtains pr h k w n pid acc where "proof_from_event X ev = Inr pr" "packet_header pr = hex0x X h" "length h = 81"
    "payload_hash pr = hex0x X k" "length k = 32" "parse_vid v = Inr w" "u64_from_i64 bc ''blockConfirmation'' = Inr n"
    "length pid = 32" "length acc = 136"
    "b = u32_to_le w @ pid @ u32_to_le 4 @ acc @ u32_to_le 129 @ VERIFY_DISCRIMINATOR @ h @ k @ u64_to_le n @ i64_to_le e"
proof -
  from b obtain pr d w n pid accounts data s where p: "proof_from_event X ev = Inr pr" "parse_vid v = Inr w"
    "u64_from_i64 bc ''blockConfirmation'' = Inr n" "public_key_bytes X SOLANA_ULN_PROGRAM_ID = Inr pid"
    "public_key_bytes X s = Inr d" "solana_verify_instruction_data X pr n = Inr data" "solana_verify_accounts X pr d pid = Inr accounts"
    "b = execute_transaction_digest_bytes w pid accounts data e"
    by (auto simp: solana_v3_preimage_def res_simps split: if_splits)
  have len: "length pid = 32" "length d = 32" using p(4,5) public_key_bytes_length by auto
  from proof_from_event_shape [OF X p(1)] obtain h k where hk: "packet_header pr = hex0x X h" "length h = 81"
    "payload_hash pr = hex0x X k" "length k = 32" by metis
  have "data = VERIFY_DISCRIMINATOR @ h @ k @ u64_to_le n"
    using p(6) hk X(1) by (simp add: solana_verify_instruction_data_def)
  then have "length data = 129" using hk by (simp add: VERIFY_DISCRIMINATOR_def)
  with p(8) verify_accounts_shape [OF X(2) p(7) len(2,1)] have
    "b = u32_to_le w @ pid @ u32_to_le 4 @ concat (map account_bytes accounts) @ u32_to_le 129 @ data @ i64_to_le e"
    by (simp add: execute_transaction_digest_bytes_def)
  with that p hk len verify_accounts_shape [OF X(2) p(7) len(2,1)] \<open>data = _\<close> show ?thesis by simp
qed

lemma solana_inject:
  assumes X: "hex_ok X" "digest_ok X"
    and b: "solana_v3_preimage X (ev, bc, e, v, dvn) = Inr b" "solana_v3_preimage X (ev', bc', e', v', dvn') = Inr b"
  shows "proof_from_event X ev = proof_from_event X ev' \<and> parse_u32 v = parse_u32 v' \<and>
    (\<exists>n. u64_from_i64 bc ''blockConfirmation'' = Inr n \<and> u64_from_i64 bc' ''blockConfirmation'' = Inr n) \<and>
    i64_to_le e = i64_to_le e'"
proof -
  from solana_preimage_Inr [OF X b(1)] obtain pr h k w n pid acc where p: "proof_from_event X ev = Inr pr" "packet_header pr = hex0x X h" "length h = 81"
    "payload_hash pr = hex0x X k" "length k = 32" "parse_vid v = Inr w" "u64_from_i64 bc ''blockConfirmation'' = Inr n"
    "length pid = 32" "length acc = 136"
    "b = u32_to_le w @ pid @ u32_to_le 4 @ acc @ u32_to_le 129 @ VERIFY_DISCRIMINATOR @ h @ k @ u64_to_le n @ i64_to_le e"
    by metis
  from solana_preimage_Inr [OF X b(2)] obtain pr' h' k' w' n' pid' acc' where p': "proof_from_event X ev' = Inr pr'" "packet_header pr' = hex0x X h'" "length h' = 81"
    "payload_hash pr' = hex0x X k'" "length k' = 32" "parse_vid v' = Inr w'" "u64_from_i64 bc' ''blockConfirmation'' = Inr n'"
    "length pid' = 32" "length acc' = 136"
    "b = u32_to_le w' @ pid' @ u32_to_le 4 @ acc' @ u32_to_le 129 @ VERIFY_DISCRIMINATOR @ h' @ k' @ u64_to_le n' @ i64_to_le e'"
    by metis
  have "w = w' \<and> h = h' \<and> k = k' \<and> n = n' \<and> i64_to_le e = i64_to_le e'"
    using trans [OF p(10) [symmetric] p'(10)] p(3,5,8,9) p'(3,5,8,9)
    by (simp add: append_eq_append_conv u32_le.enc_inject u64_le.enc_inject)
  moreover from this have "pr = pr'" using p(2,4) p'(2,4) by (auto intro: evm_uln_proof.equality)
  ultimately show ?thesis using p(1,6,7) p'(1,6,7) parse_vid_inject by metis
qed

section \<open>What the accounts say\<close>

text \<open>
  The accounts as the programs lay them out, and the verdict the verifier is meant to reach from what
  they hold: the packet was delivered, or committed, or this DVN recorded enough confirmations.
\<close>

record chain_state =
  cs_inbound :: "u64 option"
  cs_pending :: "u64 list option"
  cs_default_confirmations :: u64
  cs_custom_confirmations :: "u64 option"
  cs_recorded :: "u64 option option"

definition nonce_account :: "byte \<Rightarrow> u64 \<Rightarrow> u64 \<Rightarrow> bytes" where
  "nonce_account bump outbound inbound = NONCE_ACCOUNT_DISCRIMINATOR @ [bump] @ u64_to_le outbound @ u64_to_le inbound"

definition pending_account :: "byte \<Rightarrow> u64 list \<Rightarrow> bytes" where
  "pending_account bump nonces = PENDING_INBOUND_NONCE_ACCOUNT_DISCRIMINATOR
     @ u32_to_le (word_of_nat (length nonces)) @ concat (map u64_to_le nonces) @ [bump]"

definition receive_config_account :: "byte \<Rightarrow> bytes \<Rightarrow> u64 \<Rightarrow> bytes" where
  "receive_config_account bump others c = RECEIVE_CONFIG_ACCOUNT_DISCRIMINATOR @ [bump] @ u64_to_le c @ others"

definition confirmations_account :: "byte \<Rightarrow> u64 option \<Rightarrow> bytes" where
  "confirmations_account bump recorded = CONFIRMATIONS_ACCOUNT_DISCRIMINATOR @
     (case recorded of None \<Rightarrow> [0] | Some c \<Rightarrow> [1] @ u64_to_le c) @ [bump]"

definition fetched :: "byte \<Rightarrow> u64 \<Rightarrow> bytes \<Rightarrow> chain_state \<Rightarrow> solana_fetched_accounts" where
  "fetched bump outbound others c =
     \<lparr> fa_nonce = map_option (nonce_account bump outbound) (cs_inbound c),
       fa_pending_nonce = map_option (pending_account bump) (cs_pending c),
       fa_receive_config = map_option (receive_config_account bump others) (cs_custom_confirmations c),
       fa_default_receive_config = Some (receive_config_account bump others (cs_default_confirmations c)),
       fa_confirmations = map_option (confirmations_account bump) (cs_recorded c) \<rparr>"

definition already_verified :: "u64 \<Rightarrow> chain_state \<Rightarrow> bool" where
  "already_verified nonce c \<longleftrightarrow>
     (\<exists>inbound. cs_inbound c = Some inbound \<and> nonce \<le> inbound) \<or>
     (\<exists>pending. cs_pending c = Some pending \<and> nonce \<in> set pending) \<or>
     (\<exists>v. cs_recorded c = Some (Some v) \<and> v \<noteq> 0 \<and>
        required_confirmations (cs_default_confirmations c) (cs_custom_confirmations c) \<le> v)"

lemma get_range_at: "length pre = offset \<Longrightarrow> length mid = n \<Longrightarrow> get_range (pre @ mid @ rest) offset n = Some mid"
  by (auto simp: get_range_def slice_def)

lemma read_u64_at: "length pre = offset \<Longrightarrow> read_u64_le (pre @ u64_to_le v @ rest) offset field = Inr v"
  by (simp add: read_u64_le_def get_range_at)

lemma discriminator_at:
  "length disc = 8 \<Longrightarrow> check_account_discriminator (disc @ rest) disc name = Inr ()"
  using get_range_at [of "[]" 0 disc 8 rest] by (simp add: check_account_discriminator_def)

lemmas discriminators = NONCE_ACCOUNT_DISCRIMINATOR_def PENDING_INBOUND_NONCE_ACCOUNT_DISCRIMINATOR_def
  RECEIVE_CONFIG_ACCOUNT_DISCRIMINATOR_def CONFIRMATIONS_ACCOUNT_DISCRIMINATOR_def

lemma discriminator_lengths [simp]:
  "length NONCE_ACCOUNT_DISCRIMINATOR = 8" "length PENDING_INBOUND_NONCE_ACCOUNT_DISCRIMINATOR = 8"
  "length RECEIVE_CONFIG_ACCOUNT_DISCRIMINATOR = 8" "length CONFIRMATIONS_ACCOUNT_DISCRIMINATOR = 8"
  by (simp_all add: discriminators)

lemma decode_nonce_account: "decode_solana_nonce_account (nonce_account bump outbound inbound) = Inr inbound"
  using read_u64_at [of "NONCE_ACCOUNT_DISCRIMINATOR @ [bump] @ u64_to_le outbound" 17 inbound "[]"]
  by (simp add: decode_solana_nonce_account_def nonce_account_def discriminator_at)

lemma decode_receive_config_account: "decode_solana_receive_config_account (receive_config_account bump others c) = Inr c"
  using read_u64_at [of "RECEIVE_CONFIG_ACCOUNT_DISCRIMINATOR @ [bump]" 9 c others]
  by (simp add: decode_solana_receive_config_account_def receive_config_account_def discriminator_at)

lemma decode_confirmations_account: "decode_solana_confirmations_account (confirmations_account bump r) = Inr r"
proof (cases r)
  case (Some c)
  then show ?thesis
    using read_u64_at [of "CONFIRMATIONS_ACCOUNT_DISCRIMINATOR @ [1]" 9 c "[bump]"]
    by (simp add: decode_solana_confirmations_account_def confirmations_account_def discriminator_at nth_append)
qed (simp add: decode_solana_confirmations_account_def confirmations_account_def discriminator_at nth_append)

lemma nonces_at:
  assumes "i < length nonces"
  shows "read_u64_le (pre @ concat (map u64_to_le nonces) @ rest) (length pre + i * 8) field = Inr (nonces ! i)"
proof -
  have "nonces = take i nonces @ nonces ! i # drop (Suc i) nonces" using assms by (rule id_take_nth_drop)
  then have "concat (map u64_to_le nonces) =
      concat (map u64_to_le (take i nonces)) @ u64_to_le (nonces ! i) @ concat (map u64_to_le (drop (Suc i) nonces))"
    by (metis concat.simps(2) concat_append list.simps(9) map_append)
  moreover have "length (concat (map u64_to_le (take i nonces))) = i * 8"
    using assms by (simp add: length_concat comp_def sum_list_triv)
  ultimately show ?thesis
    using read_u64_at [of "pre @ concat (map u64_to_le (take i nonces))"] by simp
qed

lemma decode_pending_account:
  assumes "length nonces < 2 ^ 32"
  shows "decode_solana_pending_inbound_nonce_account (pending_account bump nonces) = Inr nonces"
proof -
  let ?n = "word_of_nat (length nonces) :: u32"
  let ?pre = "PENDING_INBOUND_NONCE_ACCOUNT_DISCRIMINATOR @ u32_to_le ?n"
  have n: "unat ?n = length nonces" by (rule unat_of_small_nat(2) [OF assms])
  have "get_range (pending_account bump nonces) 8 4 = Some (u32_to_le ?n)"
    unfolding pending_account_def by (rule get_range_at) simp_all
  then have "read_u32_le (pending_account bump nonces) 8 field = Inr ?n" for field by (simp add: read_u32_le_def)
  moreover have "map_res (\<lambda>i. read_u64_le (pending_account bump nonces) (12 + i * 8) field) [0..<length nonces] =
      Inr (map ((!) nonces) [0..<length nonces])" for field
    using nonces_at [where pre = ?pre and rest = "[bump]" and nonces = nonces and field = field]
    by (intro map_res_Inr) (simp add: pending_account_def)
  ultimately show ?thesis
    using n by (simp add: decode_solana_pending_inbound_nonce_account_def map_nth)
      (simp add: pending_account_def discriminator_at)
qed

text \<open>
  C20: from accounts laid out as the endpoint and ULN programs lay them out, the verifier reaches the
  intended verdict and no error: a packet counts as signed exactly when its nonce was delivered, is
  among the committed ones, or this DVN recorded a non-zero number of confirmations that reaches the
  receiver's threshold (the default's when the receiver sets none, zero when it opts out).
\<close>

theorem solana_signed_refines:
  assumes "case cs_pending c of None \<Rightarrow> True | Some pending \<Rightarrow> length pending < 2 ^ 32"
  shows "solana_payload_is_signed rq (fetched bump outbound others c) = Inr (already_verified (sr_nonce rq) c)"
proof -
  have "nonce_delivered rq (fa_nonce (fetched bump outbound others c)) =
      Inr (\<exists>inbound. cs_inbound c = Some inbound \<and> sr_nonce rq \<le> inbound)"
    by (cases "cs_inbound c") (simp_all add: nonce_delivered_def fetched_def decode_nonce_account)
  moreover have "nonce_pending rq (fa_pending_nonce (fetched bump outbound others c)) =
      Inr (\<exists>pending. cs_pending c = Some pending \<and> sr_nonce rq \<in> set pending)"
    using assms by (cases "cs_pending c") (simp_all add: nonce_pending_def fetched_def decode_pending_account)
  moreover have "transpose_res decode_solana_receive_config_account (fa_receive_config (fetched bump outbound others c)) =
      Inr (cs_custom_confirmations c)"
    by (cases "cs_custom_confirmations c") (simp_all add: transpose_res_def fetched_def decode_receive_config_account)
  moreover have "fa_default_receive_config (fetched bump outbound others c) =
      Some (receive_config_account bump others (cs_default_confirmations c))"
    "fa_confirmations (fetched bump outbound others c) = map_option (confirmations_account bump) (cs_recorded c)"
    by (simp_all add: fetched_def)
  ultimately show ?thesis
    by (cases "cs_recorded c")
      (auto simp: solana_payload_is_signed_def already_verified_def decode_receive_config_account
        decode_confirmations_account split: option.splits)
qed

definition sample_chain_state :: chain_state where
  "sample_chain_state = \<lparr> cs_inbound = Some 4, cs_pending = Some [7, 9], cs_default_confirmations = 15,
     cs_custom_confirmations = None, cs_recorded = Some (Some 15) \<rparr>"

definition sample_signed_request :: solana_payload_signed_request where
  "sample_signed_request = \<lparr> sr_receiver = replicate 32 1, sr_sender = replicate 32 2, sr_src_eid = 30101, sr_nonce = 9,
     sr_header_hash = replicate 32 3, sr_payload_hash = replicate 32 4, sr_dvn = replicate 32 5 \<rparr>"

theorem solana_signed_refines_witness:
  "solana_payload_is_signed sample_signed_request (fetched 255 0 [] sample_chain_state) = Inr True"
  using solana_signed_refines [of sample_chain_state sample_signed_request 255 0 "[]"]
  by (simp add: sample_chain_state_def sample_signed_request_def already_verified_def)

end
