(* ===== verification/Non_Evm_Digests.thy ===== *)
theory Non_Evm_Digests
  imports Stellar_Builder Solana_Builder
begin

text \<open>
  The six families of non-EVM payload builders behind one \<open>UlnV3PayloadBuilder\<close> trait object, and what
  their digests commit to.
\<close>

section \<open>The trait object\<close>

datatype non_evm_builder =
    AptosBuilder aptos_builder
  | SuiBuilder sui_builder
  | StarknetBuilder string
  | CantonBuilder string
  | StellarBuilder stellar_builder
  | SolanaBuilder

fun non_evm_build_v3 ::
    "external \<Rightarrow> non_evm_builder \<Rightarrow> lz_sent_event \<Rightarrow> int \<Rightarrow> int \<Rightarrow> string \<Rightarrow> string option \<Rightarrow> hash_call_data_result res option" where
  "non_evm_build_v3 X (AptosBuilder contracts) ev bc e v dvn = Some (aptos_build_uln_v3 X contracts ev bc e v dvn)"
| "non_evm_build_v3 X (SuiBuilder contracts) ev bc e v dvn = Some (sui_build_uln_v3 X contracts ev bc e v dvn)"
| "non_evm_build_v3 X (StarknetBuilder uln) ev bc e v dvn = starknet_build_uln_v3 X uln ev bc e v dvn"
| "non_evm_build_v3 X (CantonBuilder uln) ev bc e v dvn = Some (canton_build_uln_v3 X uln ev bc e v dvn)"
| "non_evm_build_v3 X (StellarBuilder builder) ev bc e v dvn = Some (stellar_build_uln_v3 X builder ev bc e v dvn)"
| "non_evm_build_v3 X SolanaBuilder ev bc e v dvn = Some (solana_build_uln_v3 X ev bc e v dvn)"

fun non_evm_preimage ::
    "external \<Rightarrow> non_evm_builder \<Rightarrow> lz_sent_event \<times> int \<times> int \<times> string \<times> string option \<Rightarrow> bytes res" where
  "non_evm_preimage X (AptosBuilder contracts) = aptos_v3_preimage X contracts"
| "non_evm_preimage X (SuiBuilder contracts) = sui_v3_preimage X contracts"
| "non_evm_preimage X (StarknetBuilder uln) = starknet_v3_preimage X uln"
| "non_evm_preimage X (CantonBuilder uln) = canton_v3_preimage X uln"
| "non_evm_preimage X (StellarBuilder builder) = stellar_v3_preimage X builder"
| "non_evm_preimage X SolanaBuilder = solana_v3_preimage X"

text \<open>The texts of a digest: with the \<open>0x\<close> prefix or without.\<close>

fun non_evm_render :: "external \<Rightarrow> non_evm_builder \<Rightarrow> bytes \<Rightarrow> string" where
  "non_evm_render X (AptosBuilder contracts) = hex_encode X"
| "non_evm_render X (SuiBuilder contracts) = hex_encode X"
| "non_evm_render X SolanaBuilder = hex_encode X"
| "non_evm_render X _ = hex0x X"

interpretation non_evm_v3: preimage_builder X
  "\<lambda>(ev, bc, e, v, dvn). settle (non_evm_build_v3 X B ev bc e v dvn)"
  "non_evm_preimage X B" "non_evm_render X B" for X B
proof (unfold_locales, goal_cases)
  case (1 r)
  obtain ev bc e v dvn where r: "r = (ev, bc, e, v, dvn)" by (cases r) auto
  show ?case
    using aptos_v3.build_digest [where r = r] sui_v3.build_digest [where r = r] starknet_v3.build_digest [where r = r]
      canton_v3.build_digest [where r = r] stellar_v3.build_digest [where r = r] solana_v3.build_digest [where r = r]
    by (cases B) (simp_all add: r)
next
  case (2 a b)
  then show ?case by (cases B) (simp_all add: hex_encode_inject hex0x_inject)
qed

section \<open>What every digest commits to\<close>

definition numbers_agree :: "int \<Rightarrow> int \<Rightarrow> int \<Rightarrow> int \<Rightarrow> bool" where
  "numbers_agree bc bc' e e' \<longleftrightarrow>
     (\<exists>n. u64_from_i64 bc ''blockConfirmation'' = Inr n \<and> u64_from_i64 bc' ''blockConfirmation'' = Inr n) \<and>
     ((\<exists>x. u64_from_i64 e ''expiration'' = Inr x \<and> u64_from_i64 e' ''expiration'' = Inr x) \<or> i64_to_le e = i64_to_le e')"

lemma verify_bytes_agree:
  assumes X: "hex_ok X" "digest_ok X"
    and p: "proof_from_event X ev = Inr pr" "parse_vid v = Inr w" "u64_from_i64 bc ''blockConfirmation'' = Inr n"
      "u64_from_i64 e ''expiration'' = Inr x" "bytes32_hex_string X t = Inr tb"
      "aptos_verify_bytes X (packet_header pr) (payload_hash pr) n tb w x = Inr b"
    and p': "proof_from_event X ev' = Inr pr'" "parse_vid v' = Inr w'" "u64_from_i64 bc' ''blockConfirmation'' = Inr n'"
      "u64_from_i64 e' ''expiration'' = Inr x'" "bytes32_hex_string X t' = Inr tb'"
      "aptos_verify_bytes X (packet_header pr') (payload_hash pr') n' tb' w' x' = Inr b"
  shows "proof_from_event X ev = proof_from_event X ev' \<and> parse_u32 v = parse_u32 v' \<and> numbers_agree bc bc' e e'"
proof -
  have eq: "pr = pr'" "n = n'" "w = w'" "x = x'"
    using aptos_verify_inject [OF X p(1) p'(1) p(5) p'(5) p(6) p'(6)] by simp_all
  have "parse_u32 v = parse_u32 v'" using p(2) p'(2) eq(3) by (intro parse_vid_inject [of v w v']) simp_all
  with p p' eq show ?thesis unfolding numbers_agree_def by simp
qed

lemma aptos_inject:
  assumes X: "hex_ok X" "digest_ok X"
    and b: "aptos_v3_preimage X c (ev, bc, e, v, dvn) = Inr b" "aptos_v3_preimage X c (ev', bc', e', v', dvn') = Inr b"
  shows "proof_from_event X ev = proof_from_event X ev' \<and> parse_u32 v = parse_u32 v' \<and> numbers_agree bc bc' e e'"
proof -
  have *: "\<exists>pr w n x t tb. proof_from_event X ev = Inr pr \<and> parse_vid v = Inr w \<and> u64_from_i64 bc ''blockConfirmation'' = Inr n \<and>
      u64_from_i64 e ''expiration'' = Inr x \<and> bytes32_hex_string X t = Inr tb \<and>
      aptos_verify_bytes X (packet_header pr) (payload_hash pr) n tb w x = Inr b"
    if "aptos_v3_preimage X c (ev, bc, e, v, dvn) = Inr b" for ev bc e v dvn
    using that by (auto simp: aptos_v3_preimage_def res_simps) metis
  from * [OF b(1)] * [OF b(2)] show ?thesis by (elim exE conjE) (rule verify_bytes_agree [OF X])
qed

lemma sui_inject:
  assumes X: "hex_ok X" "digest_ok X"
    and b: "sui_v3_preimage X c (ev, bc, e, v, dvn) = Inr b" "sui_v3_preimage X c (ev', bc', e', v', dvn') = Inr b"
  shows "proof_from_event X ev = proof_from_event X ev' \<and> parse_u32 v = parse_u32 v' \<and> numbers_agree bc bc' e e'"
proof -
  have *: "\<exists>pr w n x t tb. proof_from_event X ev = Inr pr \<and> parse_vid v = Inr w \<and> u64_from_i64 bc ''blockConfirmation'' = Inr n \<and>
      u64_from_i64 e ''expiration'' = Inr x \<and> bytes32_hex_string X t = Inr tb \<and>
      aptos_verify_bytes X (packet_header pr) (payload_hash pr) n tb w x = Inr b"
    if "sui_v3_preimage X c (ev, bc, e, v, dvn) = Inr b" for ev bc e v dvn
    using that by (auto simp: sui_v3_preimage_def res_simps) metis
  from * [OF b(1)] * [OF b(2)] show ?thesis by (elim exE conjE) (rule verify_bytes_agree [OF X])
qed

lemma preimage_inject:
  assumes X: "hex_ok X" "digest_ok X"
    and b: "non_evm_preimage X B (ev, bc, e, v, dvn) = Inr b" "non_evm_preimage X B (ev', bc', e', v', dvn') = Inr b"
  shows "proof_from_event X ev = proof_from_event X ev' \<and> parse_u32 v = parse_u32 v' \<and> numbers_agree bc bc' e e'"
proof (cases B)
  case (AptosBuilder c)
  with b show ?thesis by (intro aptos_inject [OF X, of c ev bc e v dvn b ev' bc' e' v' dvn']) simp_all
next
  case (SuiBuilder c)
  with b show ?thesis by (intro sui_inject [OF X, of c ev bc e v dvn b ev' bc' e' v' dvn']) simp_all
next
  case (StarknetBuilder uln)
  from b have "starknet_v3_preimage X uln (ev, bc, e, v, dvn) = Inr b" "starknet_v3_preimage X uln (ev', bc', e', v', dvn') = Inr b"
    by (simp_all add: StarknetBuilder)
  from starknet_inject [OF X this] show ?thesis unfolding numbers_agree_def by blast
next
  case (CantonBuilder uln)
  from b have "canton_v3_preimage X uln (ev, bc, e, v, dvn) = Inr b" "canton_v3_preimage X uln (ev', bc', e', v', dvn') = Inr b"
    by (simp_all add: CantonBuilder)
  from canton_inject [OF X this] show ?thesis unfolding numbers_agree_def by blast
next
  case (StellarBuilder builder)
  from b have "stellar_v3_preimage X builder (ev, bc, e, v, dvn) = Inr b" "stellar_v3_preimage X builder (ev', bc', e', v', dvn') = Inr b"
    by (simp_all add: StellarBuilder)
  from stellar_inject [OF X this] show ?thesis unfolding numbers_agree_def by blast
next
  case SolanaBuilder
  from b have "solana_v3_preimage X (ev, bc, e, v, dvn) = Inr b" "solana_v3_preimage X (ev', bc', e', v', dvn') = Inr b"
    by (simp_all add: SolanaBuilder)
  from solana_inject [OF X this] show ?thesis unfolding numbers_agree_def by blast
qed

text \<open>
  C5: the digest every non-EVM destination signs commits to the statement it attests. If two V3 verify
  payloads of one builder (Aptos and the other Move chains, Sui and IOTA, Starknet, Canton, Stellar or
  Solana) have the same digest, and Keccak does not collide on their two preimages, they attest the same
  packet header and payload hash with the same confirmations, expiration and vId.
\<close>

theorem non_evm_digest_binds:
  assumes X: "hex_ok X" "digest_ok X"
    and b: "non_evm_build_v3 X B ev bc e v dvn = Some (Inr out)"
      "non_evm_build_v3 X B ev' bc' e' v' dvn' = Some (Inr out')"
    and hash: "hash_call_data out = hash_call_data out'"
    and i64: "{bc, bc', e, e'} \<subseteq> {- (2 ^ 63)..<2 ^ 63}"
    and nc: "no_collision X (non_evm_preimage X B (ev, bc, e, v, dvn)) (non_evm_preimage X B (ev', bc', e', v', dvn'))"
  shows "proof_from_event X ev = proof_from_event X ev' \<and> bc = bc' \<and> e = e' \<and> parse_u32 v = parse_u32 v'"
proof -
  obtain pre where pre: "non_evm_preimage X B (ev, bc, e, v, dvn) = Inr pre" "non_evm_preimage X B (ev', bc', e', v', dvn') = Inr pre"
    by (rule non_evm_v3.equal_preimages [where r = "(ev, bc, e, v, dvn)" and r' = "(ev', bc', e', v', dvn')", OF X(1) _ _ hash nc])
      (simp_all add: b)
  from preimage_inject [OF X pre] have eq: "proof_from_event X ev = proof_from_event X ev'" "parse_u32 v = parse_u32 v'"
    "numbers_agree bc bc' e e'" by simp_all
  then have "bc = bc'" using i64 unfolding numbers_agree_def by (auto intro: u64_from_i64_inject)
  moreover have "e = e'"
    using eq(3) i64 unfolding numbers_agree_def by (auto intro: u64_from_i64_inject dest: i64_to_le_inject)
  ultimately show ?thesis using eq by simp
qed

definition sample_sui :: sui_builder where
  "sample_sui = [''bsc'' \<mapsto> hex0x ref_external (replicate 32 13)]"

lemma sample_sui_build:
  "\<exists>out. non_evm_build_v3 ref_external (SuiBuilder sample_sui) sample_event 15 1000 ''7'' dvn = Some (Inr out)"
proof -
  obtain pr where pr: "proof_from_event ref_external sample_event = Inr pr" using sample_proof by blast
  from proof_from_event_shape [OF ref_external_hex_ok ref_external_digest_ok pr]
  obtain h k where hk: "packet_header pr = hex0x ref_external h" "payload_hash pr = hex0x ref_external k" by metis
  have vid: "parse_vid ''7'' = Inr 7"
    by (simp add: parse_vid_def parse_u32_def parse_unsigned_def to_digit10_def)
  have dst: "event_dst sample_event = ''bsc''" by (simp add: event_dst_def ev_pathway_def sample_event_def)
  have target: "and_then (sui_contracts_for_event sample_sui sample_event) (bytes32_hex_string ref_external) =
      Inr (hex_encode ref_external (replicate 32 13))"
    using ref_external_hex_ok
    by (simp add: sui_contracts_for_event_def sample_sui_def dst bytes32_hex_string_def address_to_bytes32_def left_pad32_id)
  have "is_ok (sui_v3_preimage ref_external sample_sui (sample_event, 15, 1000, ''7'', dvn))"
    using ref_external_hex_ok pr hk vid target
    by (simp add: sui_v3_preimage_def u64_from_i64_def aptos_verify_bytes_def)
  then show ?thesis
    using sui_v3.builds_iff [of ref_external sample_sui "(sample_event, 15, 1000, ''7'', dvn)"] by (simp add: is_ok_iff)
qed

theorem non_evm_digest_binds_witness:
  "\<exists>out. non_evm_build_v3 ref_external (SuiBuilder sample_sui) sample_event 15 1000 ''7'' None = Some (Inr out) \<and>
     parse_u32 ''7'' = parse_u32 ''7''"
proof -
  obtain out out' where o:
    "non_evm_build_v3 ref_external (SuiBuilder sample_sui) sample_event 15 1000 ''7'' None = Some (Inr out)"
    "non_evm_build_v3 ref_external (SuiBuilder sample_sui) sample_event 15 1000 ''7'' (Some ''0xdvn'') = Some (Inr out')"
    using sample_sui_build by blast
  then have "hash_call_data out = hash_call_data out'" by (simp add: sui_build_uln_v3_def)
  moreover have "no_collision ref_external (non_evm_preimage ref_external (SuiBuilder sample_sui) (sample_event, 15, 1000, ''7'', None))
      (non_evm_preimage ref_external (SuiBuilder sample_sui) (sample_event, 15, 1000, ''7'', Some ''0xdvn''))"
    by (simp add: no_collision_def sui_v3_preimage_def)
  ultimately show ?thesis
    using non_evm_digest_binds [OF ref_external_hex_ok ref_external_digest_ok o] o(1) by simp
qed

end
