(* ===== verification/Ton_Boc.thy ===== *)
theory Ton_Boc
  imports Digest_Preimage
begin

text \<open>
  Bags of cells of the TON destination, \<^verbatim>\<open>pillar-layerzero/src/other_non_evm/ton/cell.rs\<close>: the two checks that
  untrusted bytes pass before the parser of another crate builds cells from them, and the writer of the bytes that
  are sent and recorded. A \<open>usize\<close> is a natural number below \<open>2^64\<close>, checked where the code checks. A cell of
  the other crate is its accessors: data bits, references, kind and level mask.
\<close>

section \<open>Reading integers\<close>

definition MAX_MESSAGE_CELLS :: nat where "MAX_MESSAGE_CELLS = 8192"
definition MAX_ACCOUNT_STATE_CELLS :: nat where "MAX_ACCOUNT_STATE_CELLS = 65536"
definition MAX_CELL_DEPTH :: nat where "MAX_CELL_DEPTH = 1024"

definition BOC_MAGIC :: bytes where
  "BOC_MAGIC = [0xb5, 0xee, 0x9c, 0x72]"

definition checked :: "nat \<Rightarrow> nat option" where
  "checked n = (if n < 2 ^ 64 then Some n else None)"

fun boc_uint :: "nat \<Rightarrow> bytes \<Rightarrow> nat option" where
  "boc_uint n [] = Some n"
| "boc_uint n (b # bs) =
     Option.bind (checked (n * 256)) (\<lambda>m. Option.bind (checked (m + unat b)) (\<lambda>m. boc_uint m bs))"

text \<open>The value and the cursor behind it.\<close>

definition read_boc_uint :: "bytes \<Rightarrow> nat \<Rightarrow> nat \<Rightarrow> (nat \<times> nat) option" where
  "read_boc_uint bs cursor width =
     Option.bind (checked (cursor + width)) (\<lambda>stop.
       if stop \<le> length bs then map_option (\<lambda>v. (v, stop)) (boc_uint 0 (slice cursor stop bs)) else None)"

section \<open>The header\<close>

record boc_counts =
  bc_cells :: nat
  bc_roots :: nat
  bc_absent :: nat
  bc_data_size :: nat

definition read_counts :: "bytes \<Rightarrow> nat \<Rightarrow> nat \<Rightarrow> (boc_counts \<times> nat) option" where
  "read_counts bs size_bytes offset_bytes =
     Option.bind (read_boc_uint bs 6 size_bytes) (\<lambda>(cells, cursor).
     Option.bind (read_boc_uint bs cursor size_bytes) (\<lambda>(roots, cursor).
     Option.bind (read_boc_uint bs cursor size_bytes) (\<lambda>(absent, cursor).
     Option.bind (read_boc_uint bs cursor offset_bytes) (\<lambda>(data_size, cursor).
       Some (\<lparr> bc_cells = cells, bc_roots = roots, bc_absent = absent, bc_data_size = data_size \<rparr>, cursor)))))"

fun read_roots :: "nat \<Rightarrow> bytes \<Rightarrow> nat \<Rightarrow> nat \<Rightarrow> nat \<Rightarrow> nat option" where
  "read_roots 0 bs size_bytes cells cursor = Some cursor"
| "read_roots (Suc n) bs size_bytes cells cursor =
     Option.bind (read_boc_uint bs cursor size_bytes) (\<lambda>(root, cursor).
       if cells \<le> root then None else read_roots n bs size_bytes cells cursor)"

definition index_size :: "bool \<Rightarrow> nat \<Rightarrow> nat \<Rightarrow> nat option" where
  "index_size has_idx cells offset_bytes = (if has_idx then checked (cells * offset_bytes) else Some 0)"

definition has_idx :: "byte \<Rightarrow> bool" where "has_idx flags \<longleftrightarrow> flags AND 0x80 \<noteq> 0"
definition has_crc32c :: "byte \<Rightarrow> bool" where "has_crc32c flags \<longleftrightarrow> flags AND 0x40 \<noteq> 0"

definition boc_header_is_safe :: "bytes \<Rightarrow> nat \<Rightarrow> bool" where
  "boc_header_is_safe bs max_cells \<longleftrightarrow>
     (if length bs < 10 \<or> take 4 bs \<noteq> BOC_MAGIC then False
      else
        let flags = bs ! 4; size_bytes = unat (flags AND 7); offset_bytes = unat (bs ! 5) in
        if size_bytes = 0 \<or> 4 < size_bytes \<or> offset_bytes = 0 \<or> 8 < offset_bytes then False
        else
          (case read_counts bs size_bytes offset_bytes of
             None \<Rightarrow> False
           | Some (counts, cursor) \<Rightarrow>
               let cells = bc_cells counts; roots = bc_roots counts in
               if cells = 0 \<or> max_cells < cells \<or> bc_data_size counts div 2 < cells \<or> roots = 0 \<or>
                  (case checked (roots + bc_absent counts) of None \<Rightarrow> True | Some n \<Rightarrow> cells < n)
               then False
               else
                 Option.bind (read_roots roots bs size_bytes cells cursor) (\<lambda>cursor.
                 Option.bind (index_size (has_idx flags) cells offset_bytes) (\<lambda>index.
                 Option.bind (checked (cursor + index)) (\<lambda>data_start.
                 Option.bind (checked (data_start + bc_data_size counts)) (\<lambda>data_end.
                 Option.bind (checked (data_end + (if has_crc32c flags then 4 else 0))) (\<lambda>stop.
                   if stop \<le> length bs then Some () else None))))) \<noteq> None))"

section \<open>Cells and their depth\<close>

definition count_ones :: "byte \<Rightarrow> nat" where
  "count_ones w = length (filter (bit w) [0..<8])"

fun read_refs :: "nat \<Rightarrow> bytes \<Rightarrow> nat \<Rightarrow> nat \<Rightarrow> nat \<Rightarrow> nat \<Rightarrow> (nat list \<times> nat) option" where
  "read_refs 0 bs size_bytes cells index cursor = Some ([], cursor)"
| "read_refs (Suc n) bs size_bytes cells index cursor =
     Option.bind (read_boc_uint bs cursor size_bytes) (\<lambda>(reference, cursor).
       if reference \<le> index \<or> cells \<le> reference then None
       else map_option (\<lambda>(refs, cursor). (reference # refs, cursor)) (read_refs n bs size_bytes cells index cursor))"

definition read_cell :: "bytes \<Rightarrow> nat \<Rightarrow> nat \<Rightarrow> nat \<Rightarrow> nat \<Rightarrow> (nat list \<times> nat) option" where
  "read_cell bs size_bytes cells index cursor =
     (if cursor + 1 < length bs then
        (let d1 = bs ! cursor; d2 = bs ! (cursor + 1) in
         Option.bind (if d1 AND 0x10 \<noteq> 0
                      then checked (cursor + 2 + (count_ones (drop_bit 5 d1) + 1) * (32 + 2))
                      else Some (cursor + 2)) (\<lambda>cursor.
         Option.bind (checked (cursor + (unat d2 div 2 + unat d2 mod 2))) (\<lambda>cursor.
           read_refs (unat (d1 AND 7)) bs size_bytes cells index cursor)))
      else None)"

fun read_cells :: "bytes \<Rightarrow> nat \<Rightarrow> nat \<Rightarrow> nat list \<Rightarrow> nat \<Rightarrow> (nat list list \<times> nat) option" where
  "read_cells bs size_bytes cells [] cursor = Some ([], cursor)"
| "read_cells bs size_bytes cells (index # rest) cursor =
     Option.bind (read_cell bs size_bytes cells index cursor) (\<lambda>(refs, cursor).
       map_option (\<lambda>(table, cursor). (refs # table, cursor)) (read_cells bs size_bytes cells rest cursor))"

text \<open>
  The declared cells, the width of a reference and the range of the cell data, then the references of every
  declared cell: the first half of \<open>boc_max_depth\<close>.
\<close>

definition boc_data :: "bytes \<Rightarrow> (nat \<times> nat \<times> nat \<times> nat) option" where
  "boc_data bs =
     (if length bs \<le> 5 then None
      else
        let flags = bs ! 4; size_bytes = unat (flags AND 7); offset_bytes = unat (bs ! 5) in
        Option.bind (read_counts bs size_bytes offset_bytes) (\<lambda>(counts, cursor).
        if bc_roots counts \<noteq> 1 then None
        else
          Option.bind (read_boc_uint bs cursor size_bytes) (\<lambda>(root, cursor).
          if bc_cells counts \<le> root then None
          else
            Option.bind (index_size (has_idx flags) (bc_cells counts) offset_bytes) (\<lambda>index.
            Option.bind (checked (cursor + index)) (\<lambda>cursor.
            Option.bind (checked (cursor + bc_data_size counts)) (\<lambda>data_end.
            if length bs < data_end then None else Some (bc_cells counts, size_bytes, cursor, data_end)))))))"

definition boc_refs :: "bytes \<Rightarrow> nat list list option" where
  "boc_refs bs =
     Option.bind (boc_data bs) (\<lambda>(cells, size_bytes, cursor, data_end).
     Option.bind (read_cells bs size_bytes cells [0..<cells] cursor) (\<lambda>(table, cursor).
       if cursor \<noteq> data_end then None else Some table))"

fun raise_depth :: "nat \<Rightarrow> nat list \<Rightarrow> nat list \<Rightarrow> nat list option" where
  "raise_depth index [] depths = Some depths"
| "raise_depth index (reference # rest) depths =
     Option.bind (checked (depths ! reference + 1)) (\<lambda>d.
       raise_depth index rest (depths[index := max (depths ! index) d]))"

fun depth_loop :: "nat list list \<Rightarrow> nat list \<Rightarrow> nat list \<Rightarrow> nat list option" where
  "depth_loop table [] depths = Some depths"
| "depth_loop table (index # rest) depths =
     Option.bind (raise_depth index (table ! index) depths) (depth_loop table rest)"

fun maximum :: "nat list \<Rightarrow> nat option" where
  "maximum [] = None"
| "maximum (x # xs) = Some (fold max xs x)"

definition boc_max_depth :: "bytes \<Rightarrow> nat option" where
  "boc_max_depth bs =
     Option.bind (boc_refs bs) (\<lambda>table.
     Option.bind (depth_loop table (rev [0..<length table]) (replicate (length table) 0)) maximum)"

section \<open>The gate\<close>

datatype ton_cell = TonCell (tc_bits: "bool list") (tc_refs: "ton_cell list") (tc_exotic: bool) (tc_level: nat)

definition ton_map_err :: "string \<Rightarrow> app_core_error" where
  "ton_map_err e = Internal (''TON cell error: '' @ e)"

definition require_ordinary :: "ton_cell \<Rightarrow> unit res" where
  "require_ordinary cell =
     (if tc_exotic cell \<or> tc_level cell \<noteq> 0
      then Inl (ton_map_err ''consumed TON cell must be ordinary and level zero'') else Inr ())"

text \<open>
  Every cell below the root is visited; the code remembers the addresses of shared ones so as to visit them
  once, which does not change the outcome.
\<close>

fun all_ordinary :: "ton_cell \<Rightarrow> bool" where
  "all_ordinary (TonCell bits refs exotic level) \<longleftrightarrow> \<not> exotic \<and> level = 0 \<and> list_all all_ordinary refs"

text \<open>\<open>parse\<close> is the parser of the other crate with its hash and depth computations; \<open>None\<close> is a panic, which is caught.\<close>

definition boc_from_bytes_with_limits ::
    "(bytes \<Rightarrow> (string + ton_cell) option) \<Rightarrow> bytes \<Rightarrow> nat \<Rightarrow> bool \<Rightarrow> ton_cell res" where
  "boc_from_bytes_with_limits parse bs max_cells reject_exotic =
     (if \<not> boc_header_is_safe bs max_cells then Inl (ton_map_err ''invalid BOC header'')
      else if (case boc_max_depth bs of None \<Rightarrow> True | Some depth \<Rightarrow> MAX_CELL_DEPTH < depth)
      then Inl (ton_map_err ''TON cell depth exceeds protocol limit'')
      else
        (case parse bs of
           None \<Rightarrow> Inl (ton_map_err ''BOC parser panicked'')
         | Some (Inl e) \<Rightarrow> Inl (ton_map_err e)
         | Some (Inr root) \<Rightarrow>
             if reject_exotic \<and> \<not> all_ordinary root then Inl (ton_map_err ''exotic TON cells are not supported'')
             else Inr root))"

definition boc_from_bytes :: "(bytes \<Rightarrow> (string + ton_cell) option) \<Rightarrow> bytes \<Rightarrow> ton_cell res" where
  "boc_from_bytes parse bs = boc_from_bytes_with_limits parse bs MAX_MESSAGE_CELLS True"

section \<open>What the depth check computes\<close>

text \<open>A chain of references of length \<open>k\<close> below a cell.\<close>

inductive ref_chain :: "nat list list \<Rightarrow> nat \<Rightarrow> nat \<Rightarrow> bool" for table where
  stop: "i < length table \<Longrightarrow> ref_chain table i 0"
| follow: "i < length table \<Longrightarrow> j \<in> set (table ! i) \<Longrightarrow> ref_chain table j k \<Longrightarrow> ref_chain table i (Suc k)"

inductive_simps ref_chain_0: "ref_chain table i 0"
inductive_simps ref_chain_Suc: "ref_chain table i (Suc k)"

definition forward :: "nat list list \<Rightarrow> bool" where
  "forward table \<longleftrightarrow> (\<forall>i < length table. \<forall>j \<in> set (table ! i). i < j \<and> j < length table)"

text \<open>The depth of a cell: the longest chain below it.\<close>

definition depth_of :: "nat list list \<Rightarrow> nat \<Rightarrow> nat \<Rightarrow> bool" where
  "depth_of table i d \<longleftrightarrow> ref_chain table i d \<and> (\<forall>k. ref_chain table i k \<longrightarrow> k \<le> d)"

lemma bind_Some [res_simps]: "Option.bind x f = Some y \<longleftrightarrow> (\<exists>a. x = Some a \<and> f a = Some y)"
  by (cases x) auto

lemma checked_Some [res_simps]: "checked n = Some m \<longleftrightarrow> m = n \<and> n < 2 ^ 64"
  by (auto simp: checked_def)

lemma boc_uint_less: "boc_uint n bs = Some v \<Longrightarrow> n < 2 ^ 64 \<Longrightarrow> v < 2 ^ 64"
proof (induction n bs rule: boc_uint.induct)
  case (2 n b bs)
  then show ?case by (auto simp: res_simps)
qed simp

lemma read_boc_uint_less: "read_boc_uint bs cursor width = Some (v, stop) \<Longrightarrow> v < 2 ^ 64"
  using boc_uint_less [of 0] by (auto simp: read_boc_uint_def res_simps simp del: power_numeral split: if_splits)

lemma read_refs_range:
  "read_refs n bs size_bytes cells index cursor = Some (refs, stop) \<Longrightarrow> \<forall>r \<in> set refs. index < r \<and> r < cells"
proof (induction n arbitrary: cursor refs)
  case (Suc n)
  then show ?case by (fastforce simp: res_simps split: if_splits)
qed simp

lemma read_cells_range:
  assumes "read_cells bs size_bytes cells indices cursor = Some (table, stop)"
  shows "length table = length indices"
    "k < length indices \<Longrightarrow> r \<in> set (table ! k) \<Longrightarrow> indices ! k < r \<and> r < cells"
  using assms
proof (induction indices arbitrary: cursor table k)
  case (Cons index rest)
  { case 1 then show ?case using Cons.IH(1) by (auto simp: res_simps) }
  { case 2
    then obtain refs c table' where t: "read_cell bs size_bytes cells index cursor = Some (refs, c)"
      "read_cells bs size_bytes cells rest c = Some (table', stop)" "table = refs # table'" by (auto simp: res_simps)
    from t(1) have "\<forall>r \<in> set refs. index < r \<and> r < cells"
      by (auto simp: read_cell_def Let_def res_simps dest: read_refs_range split: if_splits)
    with 2 t Cons.IH(2) [of "k - 1" table' c] show ?case by (cases k) auto }
qed simp_all

lemma read_counts_cells: "read_counts bs size_bytes offset_bytes = Some (counts, cursor) \<Longrightarrow> bc_cells counts < 2 ^ 64"
  by (clarsimp simp: read_counts_def res_simps) (drule read_boc_uint_less, simp)

lemma boc_data_cells:
  assumes "boc_data bs = Some (cells, size_bytes, cursor, data_end)"
  shows "0 < cells \<and> cells < 2 ^ 64"
proof -
  let ?size = "unat (bs ! 4 AND 7)"
  obtain counts c where r: "read_counts bs ?size (unat (bs ! 5)) = Some (counts, c)"
    using assms unfolding boc_data_def Let_def by (cases "read_counts bs ?size (unat (bs ! 5))") (auto split: if_splits)
  obtain root c' where root: "read_boc_uint bs c ?size = Some (root, c')"
    using assms unfolding boc_data_def Let_def by (cases "read_boc_uint bs c ?size") (auto simp: r split: if_splits)
  have "bc_cells counts = cells \<and> \<not> bc_cells counts \<le> root"
    using assms unfolding boc_data_def Let_def
    by (simp add: r root bind_Some split: if_splits) blast
  with read_counts_cells [OF r] show ?thesis by auto
qed

lemma boc_refs_forward:
  assumes "boc_refs bs = Some table"
  shows "forward table" "table \<noteq> []" "length table < 2 ^ 64"
proof -
  from assms obtain cells size_bytes cursor data_end c where d: "boc_data bs = Some (cells, size_bytes, cursor, data_end)"
    and t: "read_cells bs size_bytes cells [0..<cells] cursor = Some (table, c)"
    unfolding boc_refs_def by (clarsimp simp: bind_Some split: if_splits prod.splits)
  note range = read_cells_range [OF t]
  show "forward table"
    unfolding forward_def
  proof (intro allI impI ballI)
    fix i j assume "i < length table" "j \<in> set (table ! i)"
    then show "i < j \<and> j < length table" using range(2) [of i j] range(1) by simp
  qed
  show "table \<noteq> []" "length table < 2 ^ 64" using range(1) boc_data_cells [OF d] by auto
qed

lemma forwardD: "forward table \<Longrightarrow> i < length table \<Longrightarrow> j \<in> set (table ! i) \<Longrightarrow> i < j \<and> j < length table"
  unfolding forward_def by blast

lemma chain_bound: "ref_chain table i k \<Longrightarrow> forward table \<Longrightarrow> i + k < length table"
proof (induction rule: ref_chain.induct)
  case (follow i j k)
  then have "i < j" using forwardD by blast
  with follow show ?case by simp
qed simp

lemma depth_less: "depth_of table i d \<Longrightarrow> forward table \<Longrightarrow> i + d < length table"
  by (auto simp: depth_of_def intro: chain_bound)

lemma fold_max: "fold max xs a = Max (insert (a :: nat) (set xs))"
  using Max.set_eq_fold [of a xs] by simp

lemma depth_of_step:
  assumes "i < length table" "\<And>j. j \<in> set (table ! i) \<Longrightarrow> depth_of table j (f j)"
  shows "depth_of table i (fold max (map (\<lambda>j. f j + 1) (table ! i)) 0)"
proof -
  let ?S = "insert 0 ((\<lambda>j. f j + 1) ` set (table ! i))"
  have max: "fold max (map (\<lambda>j. f j + 1) (table ! i)) 0 = Max ?S" by (simp add: fold_max)
  have "ref_chain table i k" if "k \<in> ?S" for k
    using that assms by (auto simp: depth_of_def intro: ref_chain.intros)
  then have "ref_chain table i (Max ?S)" using Max_in [of ?S] by blast
  moreover have "k \<le> Max ?S" if "ref_chain table i k" for k
  proof (cases k)
    case (Suc n)
    with that obtain j where j: "j \<in> set (table ! i)" "ref_chain table j n" by (auto simp: ref_chain_Suc)
    with assms(2) have "n \<le> f j" by (auto simp: depth_of_def)
    moreover have "f j + 1 \<le> Max ?S" using j(1) by (intro Max_ge) auto
    ultimately show ?thesis using Suc by simp
  qed simp
  ultimately show ?thesis unfolding max depth_of_def by blast
qed

lemma raise_depth_eq:
  assumes "\<forall>r \<in> set refs. r \<noteq> index \<and> depths ! r + 1 < 2 ^ 64" "index < length depths"
  shows "raise_depth index refs depths = Some (depths[index := fold max (map (\<lambda>r. depths ! r + 1) refs) (depths ! index)])"
  using assms
proof (induction refs arbitrary: depths)
  case (Cons r refs)
  let ?d = "depths[index := max (depths ! index) (depths ! r + 1)]"
  have "raise_depth index refs ?d = Some (?d[index := fold max (map (\<lambda>r. ?d ! r + 1) refs) (?d ! index)])"
    using Cons.prems by (intro Cons.IH) auto
  moreover have "map (\<lambda>r. ?d ! r + 1) refs = map (\<lambda>r. depths ! r + 1) refs"
    using Cons.prems by (intro map_cong) auto
  moreover have "raise_depth index (r # refs) depths = raise_depth index refs ?d"
    using Cons.prems by (simp add: checked_def)
  ultimately show ?case using Cons.prems(2) by (simp only: nth_list_update_eq list_update_overwrite list.map fold_simps max.commute)
qed simp

text \<open>The loop from the last cell to the first: the cells from \<open>m\<close> on have their depth.\<close>

definition depths_from :: "nat list list \<Rightarrow> nat \<Rightarrow> nat list \<Rightarrow> bool" where
  "depths_from table m depths \<longleftrightarrow> length depths = length table \<and> (\<forall>i < m. depths ! i = 0) \<and>
     (\<forall>i. m \<le> i \<and> i < length table \<longrightarrow> depth_of table i (depths ! i))"

lemma depth_loop_eq:
  assumes "forward table" "length table < 2 ^ 64" "m \<le> length table" "depths_from table m depths"
  shows "\<exists>depths'. depth_loop table (rev [0..<m]) depths = Some depths' \<and> depths_from table 0 depths'"
  using assms(3,4)
proof (induction m arbitrary: depths)
  case (Suc m)
  have fw: "\<forall>r \<in> set (table ! m). m < r \<and> r < length table"
    using forwardD [OF assms(1)] Suc.prems(1) by (metis Suc_le_eq)
  with Suc.prems have known: "depth_of table r (depths ! r)" if "r \<in> set (table ! m)" for r
    using that by (auto simp: depths_from_def)
  have "depths ! r + 1 < 2 ^ 64" if "r \<in> set (table ! m)" for r
    using depth_less [OF known [OF that] assms(1)] fw that assms(2) by fastforce
  then have "raise_depth m (table ! m) depths =
      Some (depths[m := fold max (map (\<lambda>r. depths ! r + 1) (table ! m)) (depths ! m)])"
    using fw Suc.prems by (intro raise_depth_eq) (auto simp: depths_from_def)
  moreover have "depths_from table m (depths[m := fold max (map (\<lambda>r. depths ! r + 1) (table ! m)) (depths ! m)])"
    using Suc.prems depth_of_step [of m table "\<lambda>r. depths ! r"] known
    by (auto simp: depths_from_def nth_list_update)
  ultimately show ?case using Suc.IH Suc.prems(1) by simp
qed auto

lemma maximum_eq: "xs \<noteq> [] \<Longrightarrow> maximum xs = Some (Max (set xs))"
  by (cases xs) (simp_all add: fold_max)

lemma max_depth_of_refs:
  assumes "boc_refs bs = Some table"
  shows "\<exists>d. boc_max_depth bs = Some d \<and> (\<exists>i. ref_chain table i d) \<and> (\<forall>i k. ref_chain table i k \<longrightarrow> k \<le> d)"
proof -
  note f = boc_refs_forward [OF assms]
  have start: "depths_from table (length table) (replicate (length table) 0)" by (auto simp: depths_from_def)
  from depth_loop_eq [OF f(1,3) le_refl start] obtain depths where
    loop: "depth_loop table (rev [0..<length table]) (replicate (length table) 0) = Some depths" and d: "depths_from table 0 depths"
    by blast
  have ne: "depths \<noteq> []" "length depths = length table" using d f(2) by (auto simp: depths_from_def)
  then obtain i where i: "i < length table" "depths ! i = Max (set depths)"
    using Max_in [of "set depths"] by (auto simp: in_set_conv_nth)
  have "ref_chain table i (Max (set depths))" using d i by (auto simp: depths_from_def depth_of_def)
  moreover have "k \<le> Max (set depths)" if "ref_chain table j k" for j k
  proof -
    have "j < length table" using that by (auto elim: ref_chain.cases)
    then have "k \<le> depths ! j" "depths ! j \<in> set depths" using d that ne by (auto simp: depths_from_def depth_of_def)
    then show ?thesis by (meson List.finite_set Max_ge order_trans)
  qed
  ultimately show ?thesis using maximum_eq [OF ne(1)] assms loop by (auto simp: boc_max_depth_def)
qed

end
