(* ===== verification/Ton_Order.thy ===== *)
theory Ton_Order
  imports Main
begin

text \<open>
  The order in which \<^verbatim>\<open>serialize_boc\<close> of \<^verbatim>\<open>ton/cell.rs\<close> writes cells: a postorder of the references with an
  explicit stack, last reference first, from each cell that is not yet visited; the cells are written in the
  reverse of it. Cells are numbers, \<open>refs\<close> their references. An index out of range is a panic, \<open>None\<close>.
\<close>

section \<open>The two loops\<close>

lemma unvisited_less:
  assumes "child < length visited" "\<not> visited ! child"
  shows "card {i. i < length visited \<and> \<not> visited[child := True] ! i} < card {i. i < length visited \<and> \<not> visited ! i}"
  using assms by (intro psubset_card_mono) (auto simp: nth_list_update)

text \<open>
  The top of the stack is the head of the list. An entry is a cell with the number of its references still to be
  looked at.
\<close>

function dfs_stack :: "nat list list \<Rightarrow> bool list \<Rightarrow> nat list \<Rightarrow> (nat \<times> nat) list \<Rightarrow> (bool list \<times> nat list) option" where
  "dfs_stack refs visited postorder [] = Some (visited, postorder)"
| "dfs_stack refs visited postorder ((node, 0) # stack) = dfs_stack refs visited (postorder @ [node]) stack"
| "dfs_stack refs visited postorder ((node, Suc remaining) # stack) =
     (let child = refs ! node ! remaining in
      if length visited \<le> child then None
      else if visited ! child then dfs_stack refs visited postorder ((node, remaining) # stack)
      else dfs_stack refs (visited[child := True]) postorder ((child, length (refs ! child)) # (node, remaining) # stack))"
  by pat_completeness auto

termination
  by (relation "measures [\<lambda>(refs, visited, postorder, stack). card {i. i < length visited \<and> \<not> visited ! i},
      \<lambda>(refs, visited, postorder, stack). sum_list (map (\<lambda>(_, n). n + 1) stack)]") (auto intro: unvisited_less)

fun dfs_starts :: "nat list list \<Rightarrow> nat list \<Rightarrow> bool list \<Rightarrow> nat list \<Rightarrow> (bool list \<times> nat list) option" where
  "dfs_starts refs [] visited postorder = Some (visited, postorder)"
| "dfs_starts refs (start # rest) visited postorder =
     (if visited ! start then dfs_starts refs rest visited postorder
      else Option.bind (dfs_stack refs (visited[start := True]) postorder [(start, length (refs ! start))])
             (\<lambda>(visited, postorder). dfs_starts refs rest visited postorder))"

definition cell_postorder :: "nat list list \<Rightarrow> nat list option" where
  "cell_postorder refs =
     map_option snd (dfs_starts refs [0..<length refs] (replicate (length refs) False) [])"

section \<open>References in range are enough for an order\<close>

definition in_table :: "nat list list \<Rightarrow> bool" where
  "in_table refs \<longleftrightarrow> (\<forall>row \<in> set refs. set row \<subseteq> {..<length refs})"

lemma in_tableD: "in_table refs \<Longrightarrow> node < length refs \<Longrightarrow> k < length (refs ! node) \<Longrightarrow> refs ! node ! k < length refs"
  unfolding in_table_def by (metis lessThan_iff nth_mem subsetD)

lemma dfs_stack_total:
  assumes "in_table refs" "length visited = length refs" "\<forall>(node, k) \<in> set stack. node < length refs \<and> k \<le> length (refs ! node)"
  shows "\<exists>visited' post'. dfs_stack refs visited post stack = Some (visited', post') \<and> length visited' = length refs"
  using assms
proof (induction refs visited post stack rule: dfs_stack.induct)
  case (3 refs visited post node remaining stack)
  have node: "node < length refs" "remaining < length (refs ! node)" using 3(5) by auto
  then have child: "refs ! node ! remaining < length refs" by (rule in_tableD [OF 3(3)])
  then have c: "\<not> length visited \<le> refs ! node ! remaining" using 3(4) by simp
  show ?case
  proof (cases "visited ! (refs ! node ! remaining)")
    case True
    from 3(1) [OF refl c True 3(3,4)] 3(5) True c show ?thesis by (simp add: Let_def)
  next
    case False
    from 3(2) [OF refl c False 3(3)] 3(4,5) child False c show ?thesis by (simp add: Let_def)
  qed
qed auto

lemma dfs_starts_total:
  assumes "in_table refs"
  shows "length visited = length refs \<Longrightarrow> set starts \<subseteq> {..<length refs} \<Longrightarrow> \<exists>r. dfs_starts refs starts visited post = Some r"
proof (induction starts arbitrary: visited post)
  case (Cons start rest)
  obtain v p where "dfs_stack refs (visited[start := True]) post [(start, length (refs ! start))] = Some (v, p)" "length v = length refs"
    using dfs_stack_total [OF assms, of "visited[start := True]" "[(start, length (refs ! start))]" post] Cons.prems by auto
  with Cons show ?case by auto
qed simp

lemma postorder_total:
  assumes "in_table refs"
  shows "\<exists>post. cell_postorder refs = Some post"
proof -
  obtain r where "dfs_starts refs [0..<length refs] (replicate (length refs) False) [] = Some r"
    using dfs_starts_total [OF assms, of "replicate (length refs) False" "[0..<length refs]" "[]"] by (auto simp: atLeast0LessThan)
  then show ?thesis by (simp add: cell_postorder_def)
qed

section \<open>The contract of a reference table\<close>

text \<open>References point to cells of the table, and a rank decreases along them.\<close>

locale ranked_refs =
  fixes refs :: "nat list list" and rank :: "nat \<Rightarrow> nat"
  assumes in_range: "i < length refs \<Longrightarrow> j \<in> set (refs ! i) \<Longrightarrow> j < length refs"
    and descends: "i < length refs \<Longrightarrow> j \<in> set (refs ! i) \<Longrightarrow> rank j < rank i"
begin

text \<open>Every cell of a list comes behind its references.\<close>

definition children_first :: "nat list \<Rightarrow> bool" where
  "children_first post \<longleftrightarrow> (\<forall>k < length post. set (refs ! (post ! k)) \<subseteq> set (take k post))"

text \<open>
  The references of a stack entry that have been looked at are in the postorder, but for the one the entry above
  stands for.
\<close>

fun stack_ok :: "nat set \<Rightarrow> nat option \<Rightarrow> (nat \<times> nat) list \<Rightarrow> bool" where
  "stack_ok written up [] \<longleftrightarrow> True"
| "stack_ok written up ((node, remaining) # stack) \<longleftrightarrow>
     remaining \<le> length (refs ! node) \<and>
     (\<forall>child. up = Some child \<longrightarrow> remaining < length (refs ! node) \<and> refs ! node ! remaining = child) \<and>
     (\<forall>k. remaining \<le> k \<and> k < length (refs ! node) \<longrightarrow>
        refs ! node ! k \<in> written \<or> k = remaining \<and> up = Some (refs ! node ! k)) \<and>
     stack_ok written (Some node) stack"

definition dfs_inv :: "bool list \<Rightarrow> nat list \<Rightarrow> (nat \<times> nat) list \<Rightarrow> bool" where
  "dfs_inv visited post stack \<longleftrightarrow> length visited = length refs \<and> distinct (post @ map fst stack) \<and>
     set (post @ map fst stack) = {i. i < length refs \<and> visited ! i} \<and> children_first post \<and>
     stack_ok (set post) None stack"

lemma stack_ok_weaken:
  assumes "stack_ok written up stack" "written \<subseteq> written'"
  shows "stack_ok written' up stack"
  using assms by (induction written up stack rule: stack_ok.induct) auto

lemma stack_ok_pop:
  assumes "stack_ok written (Some node) stack"
  shows "stack_ok (insert node written) None stack"
proof (cases stack)
  case (Cons e rest)
  obtain n r where e: "e = (n, r)" by force
  have "stack_ok (insert node written) (Some n) rest" using assms by (auto simp: Cons e intro: stack_ok_weaken)
  with assms show ?thesis by (auto simp: Cons e)
qed simp

lemma stack_ranks:
  assumes "stack_ok written (Some upper) stack" "fst ` set stack \<subseteq> {..<length refs}" "node \<in> fst ` set stack"
  shows "rank upper < rank node"
  using assms
proof (induction stack arbitrary: upper)
  case (Cons e rest)
  obtain n r where e: "e = (n, r)" by force
  have "upper \<in> set (refs ! n)" using Cons.prems(1) by (auto simp: e)
  then have upper: "rank upper < rank n" using Cons.prems(2) by (intro descends) (auto simp: e)
  show ?case
  proof (cases "node = n")
    case False
    then have "rank n < rank node" using Cons.prems by (intro Cons.IH) (auto simp: e)
    with upper show ?thesis by simp
  qed (use upper in simp)
qed simp

lemma children_first_snoc:
  "children_first post \<Longrightarrow> set (refs ! node) \<subseteq> set post \<Longrightarrow> children_first (post @ [node])"
  unfolding children_first_def by (auto simp: nth_append less_Suc_eq)

lemma inv_pop:
  assumes "dfs_inv visited post ((node, 0) # stack)"
  shows "dfs_inv visited (post @ [node]) stack"
proof -
  have "set (refs ! node) \<subseteq> set post" using assms by (auto simp: dfs_inv_def in_set_conv_nth)
  then have "children_first (post @ [node])" using assms by (intro children_first_snoc) (auto simp: dfs_inv_def)
  moreover have "stack_ok (set (post @ [node])) None stack" using assms stack_ok_pop [of "set post" node stack]
    by (simp add: dfs_inv_def)
  ultimately show ?thesis using assms by (auto simp: dfs_inv_def)
qed

lemma inv_child:
  assumes "dfs_inv visited post ((node, Suc remaining) # stack)"
  shows "refs ! node ! remaining \<in> set (refs ! node)" "refs ! node ! remaining < length visited" "node < length refs"
    "refs ! node ! remaining \<notin> fst ` set ((node, remaining) # stack)"
proof -
  show child: "refs ! node ! remaining \<in> set (refs ! node)" using assms by (simp add: dfs_inv_def)
  have sub: "set (map fst ((node, remaining) # stack)) \<subseteq> {..<length refs}" using assms by (auto simp: dfs_inv_def)
  then show node: "node < length refs" by auto
  show "refs ! node ! remaining < length visited" using in_range [OF node child] assms by (simp add: dfs_inv_def)
  have "rank (refs ! node ! remaining) < rank n" if "n \<in> fst ` set ((node, remaining) # stack)" for n
  proof (cases "n = node")
    case False
    have "stack_ok (set post) (Some node) stack" using assms by (simp add: dfs_inv_def)
    then have "rank node < rank n" using that False sub by (intro stack_ranks) auto
    with descends [OF node child] show ?thesis by simp
  qed (use descends [OF node child] in simp)
  then show "refs ! node ! remaining \<notin> fst ` set ((node, remaining) # stack)" by blast
qed

lemma stack_ok_fresh: "stack_ok written None ((node, length (refs ! node)) # stack) \<longleftrightarrow> stack_ok written (Some node) stack"
  by auto

lemma visit_set:
  "child < length visited \<Longrightarrow>
   {i. i < length visited \<and> visited[child := True] ! i} = insert child {i. i < length visited \<and> visited ! i}"
  by (auto simp: nth_list_update)

lemma stack_ok_next:
  assumes "stack_ok written None ((node, Suc r) # stack)"
    "up = Some (refs ! node ! r) \<or> up = None \<and> refs ! node ! r \<in> written"
  shows "stack_ok written up ((node, r) # stack)"
proof -
  have "refs ! node ! k \<in> written" if "r \<le> k" "k < length (refs ! node)" "k \<noteq> r" for k
    using that assms(1) by simp
  with assms show ?thesis by auto
qed

lemma inv_skip:
  assumes "dfs_inv visited post ((node, Suc remaining) # stack)" "visited ! (refs ! node ! remaining)"
  shows "dfs_inv visited post ((node, remaining) # stack)"
proof -
  let ?child = "refs ! node ! remaining"
  note c = inv_child [OF assms(1)]
  have "?child \<in> set (post @ map fst ((node, Suc remaining) # stack))"
    using assms c(2) unfolding dfs_inv_def by simp
  with c(4) have "?child \<in> set post" by auto
  then have "stack_ok (set post) None ((node, remaining) # stack)"
    by (intro stack_ok_next [of "set post" node remaining stack None]) (use assms(1) in \<open>simp_all add: dfs_inv_def\<close>)
  then show ?thesis using assms(1) by (simp add: dfs_inv_def)
qed

lemma inv_push:
  assumes "dfs_inv visited post ((node, Suc remaining) # stack)" "\<not> visited ! (refs ! node ! remaining)"
  shows "dfs_inv (visited[refs ! node ! remaining := True]) post
    ((refs ! node ! remaining, length (refs ! (refs ! node ! remaining))) # (node, remaining) # stack)"
proof -
  let ?child = "refs ! node ! remaining"
  note c = inv_child [OF assms(1)]
  have old: "set (post @ map fst ((node, Suc remaining) # stack)) = {i. i < length refs \<and> visited ! i}"
    and len: "length visited = length refs" and ok: "stack_ok (set post) None ((node, Suc remaining) # stack)"
    using assms(1) by (simp_all only: dfs_inv_def)
  then have new: "?child \<notin> set (post @ map fst ((node, Suc remaining) # stack))" using assms(2) by blast
  have dist: "distinct (post @ map fst ((?child, m) # (node, remaining) # stack))" for m
    using assms(1) new by (auto simp: dfs_inv_def)
  have "set (post @ map fst ((?child, m) # (node, remaining) # stack)) =
      {i. i < length refs \<and> visited[?child := True] ! i}" for m
    using old visit_set [OF c(2)] by (auto simp: len)
  moreover have "stack_ok (set post) (Some ?child) ((node, remaining) # stack)"
    by (rule stack_ok_next [OF ok]) simp
  moreover have "stack_ok (set post) None ((?child, length (refs ! ?child)) # (node, remaining) # stack)"
    using calculation(2) by (simp only: stack_ok_fresh)
  ultimately show ?thesis
    using dist assms(1) len unfolding dfs_inv_def by (simp only: length_list_update)
qed

lemma dfs_stack_loop:
  assumes "r = refs" "dfs_inv visited post stack"
  shows "\<exists>visited' added. dfs_stack r visited post stack = Some (visited', post @ added) \<and>
    dfs_inv visited' (post @ added) [] \<and> (stack \<noteq> [] \<longrightarrow> added \<noteq> [] \<and> last added = fst (last stack))"
  using assms
proof (induction r visited post stack rule: dfs_stack.induct)
  case (1 r visited post)
  then show ?case by auto
next
  case (2 r visited post node stack)
  from 2(1) [OF 2(2) inv_pop [OF 2(3)]] obtain visited' added where
    "dfs_stack r visited (post @ [node]) stack = Some (visited', post @ node # added)"
    "dfs_inv visited' (post @ node # added) []" "stack \<noteq> [] \<longrightarrow> added \<noteq> [] \<and> last added = fst (last stack)" by auto
  then show ?case by (intro exI [of _ visited'] exI [of _ "node # added"]) auto
next
  case (3 r visited post node remaining stack)
  have child: "\<not> length visited \<le> r ! node ! remaining" using inv_child(2) [OF 3(4)] by (simp add: 3(3))
  show ?case
  proof (cases "visited ! (r ! node ! remaining)")
    case True
    have inv: "dfs_inv visited post ((node, remaining) # stack)"
      by (rule inv_skip [OF 3(4)]) (use True 3(3) in simp)
    from 3(1) [OF refl child True 3(3) inv] show ?thesis using True child by (cases "stack = []") (simp_all add: Let_def)
  next
    case False
    have inv: "dfs_inv (visited[r ! node ! remaining := True]) post
        ((r ! node ! remaining, length (r ! (r ! node ! remaining))) # (node, remaining) # stack)"
      unfolding 3(3) by (rule inv_push [OF 3(4)]) (use False 3(3) in simp)
    from 3(2) [OF refl child False 3(3) inv] show ?thesis using False child by (cases "stack = []") (simp_all add: Let_def)
  qed
qed

lemmas dfs_stack_result = dfs_stack_loop [OF refl]

lemma inv_start:
  assumes "dfs_inv visited post []" "start < length refs" "\<not> visited ! start"
  shows "dfs_inv (visited[start := True]) post [(start, length (refs ! start))]"
proof -
  have len: "length visited = length refs" and set: "set post = {i. i < length visited \<and> visited ! i}"
    using assms(1) by (auto simp: dfs_inv_def)
  then have "start \<notin> set post" using assms(3) by simp
  moreover have "insert start (set post) = {i. i < length refs \<and> visited[start := True] ! i}"
    using visit_set [of start visited] assms(2) by (simp add: set len)
  moreover have "stack_ok (set post) None [(start, length (refs ! start))]" unfolding stack_ok_fresh by simp
  ultimately show ?thesis using assms(1) len by (simp add: dfs_inv_def del: stack_ok.simps)
qed

lemma dfs_starts_result:
  assumes "dfs_inv visited post []" "set starts \<subseteq> {..<length refs}"
  shows "\<exists>visited' added. dfs_starts refs starts visited post = Some (visited', post @ added) \<and>
    dfs_inv visited' (post @ added) [] \<and> set starts \<subseteq> set (post @ added)"
  using assms
proof (induction starts arbitrary: visited post)
  case (Cons start rest)
  have written: "visited ! i \<longleftrightarrow> i \<in> set post" if "i < length refs" for i
    using Cons.prems(1) that by (auto simp: dfs_inv_def)
  show ?case
  proof (cases "visited ! start")
    case True
    with Cons.prems Cons.IH [OF Cons.prems(1)] written [of start] show ?thesis by auto
  next
    case False
    from dfs_stack_result [OF inv_start [OF Cons.prems(1) _ False]] Cons.prems(2) obtain v added where
      d: "dfs_stack refs (visited[start := True]) post [(start, length (refs ! start))] = Some (v, post @ added)"
      "dfs_inv v (post @ added) []" "added \<noteq> []" "last added = start" by auto
    then have "start \<in> set added" using last_in_set by blast
    with Cons.IH [OF d(2)] Cons.prems(2) False d(1) show ?thesis by fastforce
  qed
qed auto

lemma inv_empty: "dfs_inv (replicate (length refs) False) [] []"
  by (auto simp: dfs_inv_def children_first_def)

text \<open>The postorder lists every cell once, behind its references.\<close>

lemma postorder_result:
  "\<exists>post. cell_postorder refs = Some post \<and> distinct post \<and> set post = {..<length refs} \<and> children_first post"
proof -
  from dfs_starts_result [OF inv_empty, of "[0..<length refs]"] obtain visited post where
    "dfs_starts refs [0..<length refs] (replicate (length refs) False) [] = Some (visited, post)"
    "dfs_inv visited post []" "{..<length refs} \<subseteq> set post" by fastforce
  then show ?thesis by (auto simp: cell_postorder_def dfs_inv_def)
qed

text \<open>If every cell is below the first one, the first one comes last.\<close>

definition below_first :: bool where
  "below_first \<longleftrightarrow> (\<forall>S. 0 \<in> S \<and> (\<forall>i \<in> S. i < length refs \<longrightarrow> set (refs ! i) \<subseteq> S) \<longrightarrow> {..<length refs} \<subseteq> S)"

lemma dfs_starts_done:
  assumes "dfs_inv visited post []" "{..<length refs} \<subseteq> set post" "set starts \<subseteq> {..<length refs}"
  shows "dfs_starts refs starts visited post = Some (visited, post)"
  using assms(3)
proof (induction starts)
  case (Cons start rest)
  then have "visited ! start" using assms(1,2) by (auto simp: dfs_inv_def)
  with Cons show ?case by simp
qed simp

lemma postorder_last:
  assumes "below_first" "refs \<noteq> []" "cell_postorder refs = Some post"
  shows "post \<noteq> [] \<and> last post = 0"
proof -
  let ?start = "replicate (length refs) False"
  have "dfs_inv (?start[0 := True]) [] [(0, length (refs ! 0))]" by (rule inv_start [OF inv_empty]) (use assms(2) in simp_all)
  from dfs_stack_result [OF this] obtain v added where
    d: "dfs_stack refs (?start[0 := True]) [] [(0, length (refs ! 0))] = Some (v, added)"
    "dfs_inv v added []" "added \<noteq> []" "last added = 0" by auto
  have "set (refs ! i) \<subseteq> set added" if i: "i \<in> set added" for i
  proof -
    obtain k where "k < length added" "added ! k = i" using i by (auto simp: in_set_conv_nth)
    with d(2) have "set (refs ! i) \<subseteq> set (take k added)" by (auto simp: dfs_inv_def children_first_def)
    also have "\<dots> \<subseteq> set added" by (rule set_take_subset)
    finally show ?thesis .
  qed
  moreover have "0 \<in> set added" using d(3,4) last_in_set by metis
  ultimately have "{..<length refs} \<subseteq> set added" using assms(1) unfolding below_first_def by blast
  note rest = dfs_starts_done [OF d(2) this, of "[1..<length refs]"]
  have "[0..<length refs] = 0 # [1..<length refs]" using assms(2) by (simp add: upt_rec)
  moreover have "dfs_starts refs [1..<length refs] v added = Some (v, added)" by (rule rest) auto
  ultimately have "post = added" using assms(2,3) d(1) by (auto simp: cell_postorder_def)
  with d(3,4) show ?thesis by simp
qed

end

end
