(* ===== verification/Ton_Serialize.thy ===== *)
theory Ton_Serialize
  imports Ton_Boc Ton_Order
begin

text \<open>
  The writer of bags of cells, \<open>serialize_boc\<close> of \<^verbatim>\<open>ton/cell.rs\<close>. The representation hash of a cell and the
  CRC-32C are computed by other crates and are arguments here; a hash may fail. Fallible steps keep an error of the
  code apart from a panic.
\<close>

section \<open>Collecting the cells\<close>

datatype ton_fault = TonError app_core_error | TonPanic

type_synonym cell_hash = "ton_cell \<Rightarrow> string + bytes"

definition hash_of :: "cell_hash \<Rightarrow> ton_cell \<Rightarrow> ton_fault + bytes" where
  "hash_of H cell = map_err (\<lambda>e. TonError (ton_map_err e)) (H cell)"

text \<open>One level of the breadth-first search, then all levels.\<close>

fun bfs_level ::
    "cell_hash \<Rightarrow> ton_cell list \<Rightarrow> ton_cell list \<Rightarrow> (bytes \<rightharpoonup> nat) \<Rightarrow> ton_cell list \<Rightarrow> ton_fault + ton_cell list \<times> (bytes \<rightharpoonup> nat) \<times> ton_cell list" where
  "bfs_level H [] cells ids below = Inr (cells, ids, below)"
| "bfs_level H (cell # level) cells ids below =
     and_then (hash_of H cell) (\<lambda>hash.
       if ids hash \<noteq> None then bfs_level H level cells ids below
       else bfs_level H level (cells @ [cell]) (ids(hash \<mapsto> length cells)) (below @ tc_refs cell))"

fun cells_in :: "ton_cell \<Rightarrow> nat" where
  "cells_in (TonCell bits refs exotic level) = Suc (sum_list (map cells_in refs))"

lemma cells_in_eq: "cells_in cell = Suc (sum_list (map cells_in (tc_refs cell)))"
  by (cases cell) simp

lemma bfs_level_size:
  "bfs_level H level cells ids below = Inr (cells', ids', below') \<Longrightarrow>
   sum_list (map cells_in below') + length level \<le> sum_list (map cells_in below) + sum_list (map cells_in level)"
proof (induction H level cells ids below rule: bfs_level.induct)
  case (2 H cell level cells ids below)
  from 2(3) obtain hash where h: "hash_of H cell = Inr hash" by (auto simp: res_simps)
  show ?case
  proof (cases "ids hash = None")
    case True
    with 2(3) h have "bfs_level H level (cells @ [cell]) (ids(hash \<mapsto> length cells)) (below @ tc_refs cell) =
        Inr (cells', ids', below')" by simp
    from 2(2) [of hash, OF _ this] True show ?thesis by (simp add: cells_in_eq [of cell])
  next
    case False
    with 2(3) h have "bfs_level H level cells ids below = Inr (cells', ids', below')" by simp
    from 2(1) [OF False this] False show ?thesis by (simp add: cells_in_eq [of cell])
  qed
qed simp

function bfs_levels :: "cell_hash \<Rightarrow> ton_cell list \<Rightarrow> ton_cell list \<Rightarrow> (bytes \<rightharpoonup> nat) \<Rightarrow> ton_fault + ton_cell list \<times> (bytes \<rightharpoonup> nat)" where
  "bfs_levels H level cells ids =
     (if level = [] then Inr (cells, ids)
      else case bfs_level H level cells ids [] of
             Inl e \<Rightarrow> Inl e
           | Inr (cells, ids, below) \<Rightarrow> bfs_levels H below cells ids)"
  by pat_completeness auto

termination
  by (relation "measure (\<lambda>(H, level, cells, ids). sum_list (map cells_in level))")
    (auto simp: neq_Nil_conv dest!: bfs_level_size)

definition child_ids :: "cell_hash \<Rightarrow> (bytes \<rightharpoonup> nat) \<Rightarrow> ton_cell \<Rightarrow> ton_fault + nat list" where
  "child_ids H ids cell =
     map_res (\<lambda>child. and_then (hash_of H child) (\<lambda>hash. ok_or TonPanic (ids hash))) (tc_refs cell)"

section \<open>Writing\<close>

definition cell_positions :: "nat \<Rightarrow> nat list \<Rightarrow> nat list" where
  "cell_positions n order = fold (\<lambda>(index, node) positions. positions[node := index]) (enumerate 0 order) (replicate n 0)"

fun bit_length :: "nat \<Rightarrow> nat" where
  "bit_length n = (if n = 0 then 0 else Suc (bit_length (n div 2)))"

declare bit_length.simps [simp del]

definition byte_width :: "nat \<Rightarrow> nat" where
  "byte_width n = max 1 ((bit_length n + 7) div 8)"

definition cell_bytes_size :: "nat \<Rightarrow> ton_cell \<Rightarrow> nat" where
  "cell_bytes_size size_bytes cell = 2 + (length (tc_bits cell) + 7) div 8 + length (tc_refs cell) * size_bytes"

text \<open>The data bits, most significant first, the last byte filled with zeros.\<close>

fun pack_bits :: "bool list \<Rightarrow> bytes" where
  "pack_bits [] = []"
| "pack_bits (b # bs) =
     word_of_nat (foldl (\<lambda>acc bit. 2 * acc + of_bool bit) 0 (take 8 (b # bs @ replicate 7 False))) # pack_bits (drop 7 bs)"

definition cell_data :: "bool list \<Rightarrow> bytes" where
  "cell_data bits =
     (let n = length bits; data = pack_bits bits in
      if n mod 8 \<noteq> 0 then data[n div 8 := (data ! (n div 8)) OR drop_bit (n mod 8) 0x80] else data)"

definition cell_record :: "nat \<Rightarrow> (nat \<Rightarrow> nat) \<Rightarrow> nat list \<Rightarrow> ton_cell \<Rightarrow> bytes" where
  "cell_record size_bytes position refs cell =
     [word_of_nat (length refs) + (if tc_exotic cell then 8 else 0) + word_of_nat (tc_level cell) * 32,
      word_of_nat (length (tc_bits cell) div 8 + (length (tc_bits cell) + 7) div 8)] @
     cell_data (tc_bits cell) @ concat (map (\<lambda>child. be_encode size_bytes (position child)) refs)"

definition boc_bytes :: "ton_cell list \<Rightarrow> nat list list \<Rightarrow> nat list \<Rightarrow> bytes" where
  "boc_bytes cells refs postorder =
     (let positions = cell_positions (length cells) (rev postorder);
          size_bytes = byte_width (length cells);
          total = sum_list (map (cell_bytes_size size_bytes) cells);
          offset_bytes = byte_width total in
      BOC_MAGIC @ [0x40 OR word_of_nat size_bytes, word_of_nat offset_bytes] @
      be_encode size_bytes (length cells) @ be_encode size_bytes 1 @ be_encode size_bytes 0 @
      be_encode offset_bytes total @ be_encode size_bytes 0 @
      concat (map (\<lambda>node. cell_record size_bytes ((!) positions) (refs ! node) (cells ! node)) (rev postorder)))"

definition serialize_boc :: "cell_hash \<Rightarrow> (bytes \<Rightarrow> u32) \<Rightarrow> ton_cell \<Rightarrow> ton_fault + bytes" where
  "serialize_boc H crc root =
     and_then (bfs_levels H [root] [] Map.empty) (\<lambda>(cells, ids).
     and_then (map_res (child_ids H ids) cells) (\<lambda>refs.
     and_then (ok_or TonPanic (cell_postorder refs)) (\<lambda>postorder.
       (let out = boc_bytes cells refs postorder in Inr (out @ u32_to_le (crc out))))))"

section \<open>The cells of a bag\<close>

fun subcells :: "ton_cell \<Rightarrow> ton_cell set" where
  "subcells (TonCell bits refs exotic level) =
     insert (TonCell bits refs exotic level) (\<Union>cell \<in> set refs. subcells cell)"

lemma subcells_eq: "subcells cell = insert cell (\<Union>c \<in> set (tc_refs cell). subcells c)"
  by (cases cell) simp

lemma self_subcell [simp]: "cell \<in> subcells cell"
  by (subst subcells_eq) simp

lemma child_subcell: "d \<in> subcells root \<Longrightarrow> c \<in> set (tc_refs d) \<Longrightarrow> c \<in> subcells root"
proof (induction root rule: subcells.induct)
  case (1 bits refs exotic level)
  then show ?case by (auto intro: self_subcell)
qed

lemma subcells_least:
  assumes "root \<in> S" "\<And>d c. d \<in> S \<Longrightarrow> c \<in> set (tc_refs d) \<Longrightarrow> c \<in> S"
  shows "subcells root \<subseteq> S"
  using assms(1)
proof (induction root rule: subcells.induct)
  case (1 bits refs exotic level)
  then show ?case using assms(2) [OF 1(2)] by fastforce
qed

lemma child_smaller: "c \<in> set (tc_refs cell) \<Longrightarrow> cells_in c < cells_in cell"
  unfolding cells_in_eq [of cell] less_Suc_eq_le by (auto intro!: member_le_sum_list)

text \<open>
  Hashes of the cells below a root succeed and do not collide, the documented behaviour of the representation
  hash.
\<close>

definition hashes_ok :: "cell_hash \<Rightarrow> ton_cell \<Rightarrow> bool" where
  "hashes_ok H root \<longleftrightarrow> (\<forall>c \<in> subcells root. is_ok (H c)) \<and> inj_on H (subcells root)"

definition ids_ok :: "cell_hash \<Rightarrow> ton_cell list \<Rightarrow> (bytes \<rightharpoonup> nat) \<Rightarrow> bool" where
  "ids_ok H cells ids \<longleftrightarrow> distinct cells \<and> (\<forall>h i. ids h = Some i \<longleftrightarrow> i < length cells \<and> H (cells ! i) = Inr h)"

definition bfs_inv :: "cell_hash \<Rightarrow> ton_cell \<Rightarrow> ton_cell list \<Rightarrow> ton_cell list \<Rightarrow> ton_cell list \<Rightarrow> (bytes \<rightharpoonup> nat) \<Rightarrow> bool" where
  "bfs_inv H root level below cells ids \<longleftrightarrow> ids_ok H cells ids \<and> set level \<union> set below \<union> set cells \<subseteq> subcells root \<and>
     (\<forall>c \<in> set cells. set (tc_refs c) \<subseteq> set cells \<union> set level \<union> set below) \<and>
     (if cells = [] then level = [root] \<and> below = [] else cells ! 0 = root)"

lemma hash_of_cell: "hashes_ok H root \<Longrightarrow> c \<in> subcells root \<Longrightarrow> \<exists>h. H c = Inr h \<and> hash_of H c = Inr h"
  by (auto simp: hashes_ok_def hash_of_def is_ok_iff)

lemma ids_known:
  assumes "hashes_ok H root" "bfs_inv H root level below cells ids" "c \<in> subcells root" "H c = Inr h"
  shows "ids h \<noteq> None \<longleftrightarrow> c \<in> set cells"
proof
  assume "ids h \<noteq> None"
  then obtain i where i: "i < length cells" "H (cells ! i) = Inr h" using assms(2) by (auto simp: bfs_inv_def ids_ok_def)
  moreover have "cells ! i \<in> subcells root" using assms(2) i(1) by (auto simp: bfs_inv_def)
  ultimately have "cells ! i = c" using assms(1,3,4) unfolding hashes_ok_def by (metis inj_onD)
  with i(1) show "c \<in> set cells" by auto
next
  assume "c \<in> set cells"
  then obtain i where "i < length cells" "cells ! i = c" by (auto simp: in_set_conv_nth)
  with assms(2,4) have "ids h = Some i" by (auto simp: bfs_inv_def ids_ok_def)
  then show "ids h \<noteq> None" by simp
qed

lemma ids_ok_snoc:
  assumes "ids_ok H cells ids" "c \<notin> set cells" "H c = Inr h" "ids h = None"
  shows "ids_ok H (cells @ [c]) (ids(h \<mapsto> length cells))"
proof -
  have old: "ids g = Some i \<longleftrightarrow> i < length cells \<and> H (cells ! i) = Inr g" for g i using assms(1) by (simp add: ids_ok_def)
  have "(ids(h \<mapsto> length cells)) g = Some i \<longleftrightarrow> i < length (cells @ [c]) \<and> H ((cells @ [c]) ! i) = Inr g" for g i
    using old [of g i] old [of h i] assms(3,4) by (cases "i < length cells") (auto simp: nth_append)
  with assms(1,2) show ?thesis unfolding ids_ok_def by simp
qed

lemma bfs_seen:
  assumes "bfs_inv H root (c # level) below cells ids" "c \<in> set cells"
  shows "bfs_inv H root level below cells ids"
  using assms by (auto simp: bfs_inv_def split: if_splits)

lemma bfs_new:
  assumes "bfs_inv H root (c # level) below cells ids" "c \<notin> set cells" "H c = Inr h" "ids h = None"
  shows "bfs_inv H root level (below @ tc_refs c) (cells @ [c]) (ids(h \<mapsto> length cells))"
proof -
  have sub: "set (tc_refs c) \<subseteq> subcells root" using assms(1) child_subcell by (auto simp: bfs_inv_def)
  have "ids_ok H (cells @ [c]) (ids(h \<mapsto> length cells))" using assms ids_ok_snoc by (simp add: bfs_inv_def)
  moreover have "(cells @ [c]) ! 0 = root" using assms(1) by (cases cells) (auto simp: bfs_inv_def)
  ultimately show ?thesis using assms(1) sub by (auto simp: bfs_inv_def)
qed

lemma bfs_level_result:
  assumes "hashes_ok H root" "bfs_inv H root level below cells ids"
  shows "\<exists>cells' ids' below'. bfs_level H level cells ids below = Inr (cells', ids', below') \<and>
    bfs_inv H root [] below' cells' ids' \<and> cells' \<noteq> []"
  using assms(2)
proof (induction level arbitrary: below cells ids)
  case Nil
  then show ?case by (auto simp: bfs_inv_def split: if_splits)
next
  case (Cons c level)
  have c: "c \<in> subcells root" using Cons.prems by (simp add: bfs_inv_def)
  from hash_of_cell [OF assms(1) c] obtain h where h: "H c = Inr h" "hash_of H c = Inr h" by blast
  note known = ids_known [OF assms(1) Cons.prems c h(1)]
  show ?case
  proof (cases "c \<in> set cells")
    case True
    with known Cons.IH [OF bfs_seen [OF Cons.prems True]] h(2) show ?thesis by simp
  next
    case False
    with known have none: "ids h = None" by simp
    have "bfs_level H (c # level) cells ids below =
        bfs_level H level (cells @ [c]) (ids(h \<mapsto> length cells)) (below @ tc_refs c)" using h(2) none by simp
    with Cons.IH [OF bfs_new [OF Cons.prems False h(1) none]] show ?thesis by (simp only:)
  qed
qed

text \<open>The search lists every cell below the root once, the root first.\<close>

definition cells_of :: "cell_hash \<Rightarrow> ton_cell \<Rightarrow> ton_cell list \<Rightarrow> (bytes \<rightharpoonup> nat) \<Rightarrow> bool" where
  "cells_of H root cells ids \<longleftrightarrow> ids_ok H cells ids \<and> set cells = subcells root \<and> cells \<noteq> [] \<and> cells ! 0 = root"

lemma bfs_levels_result:
  assumes "hashes_ok H root" "bfs_inv H root level [] cells ids"
  shows "\<exists>cells' ids'. bfs_levels H level cells ids = Inr (cells', ids') \<and> cells_of H root cells' ids'"
  using assms
proof (induction H level cells ids rule: bfs_levels.induct)
  case (1 H level cells ids)
  show ?case
  proof (cases "level = []")
    case True
    then have ne: "cells \<noteq> []" "cells ! 0 = root" using 1(3) by (auto simp: bfs_inv_def split: if_splits)
    then have "root \<in> set cells" by (metis length_greater_0_conv nth_mem)
    moreover have "c \<in> set cells" if "d \<in> set cells" "c \<in> set (tc_refs d)" for c d
      using that 1(3) True by (auto simp: bfs_inv_def)
    ultimately have "subcells root \<subseteq> set cells" by (rule subcells_least)
    with ne 1(3) True show ?thesis by (subst bfs_levels.simps) (auto simp: bfs_inv_def cells_of_def)
  next
    case False
    from bfs_level_result [OF 1(2,3)] obtain cells' ids' below' where b: "bfs_level H level cells ids [] = Inr (cells', ids', below')"
      "bfs_inv H root [] below' cells' ids'" "cells' \<noteq> []" by blast
    then have "bfs_inv H root below' [] cells' ids'" by (auto simp: bfs_inv_def)
    from 1(1) [OF False b(1) refl refl 1(2) this] False b(1) show ?thesis by (subst bfs_levels.simps) simp
  qed
qed

lemma bfs_start: "bfs_inv H root [root] [] [] Map.empty"
  by (simp add: bfs_inv_def ids_ok_def)

section \<open>The writer returns, whatever the hashes\<close>

text \<open>
  When the hashes of the cells below a root succeed, a bag is written: two cells with one hash share an entry, so the
  references stay in the table and no lookup or index fails.
\<close>

definition bfs_total :: "cell_hash \<Rightarrow> ton_cell \<Rightarrow> ton_cell list \<Rightarrow> ton_cell list \<Rightarrow> ton_cell list \<Rightarrow> (bytes \<rightharpoonup> nat) \<Rightarrow> bool" where
  "bfs_total H root level below cells ids \<longleftrightarrow>
     set level \<union> set below \<union> set cells \<subseteq> subcells root \<and> ran ids \<subseteq> {..<length cells} \<and>
     (\<forall>c \<in> set cells. \<forall>child \<in> set (tc_refs c). child \<in> set level \<union> set below \<or> (\<exists>h i. H child = Inr h \<and> ids h = Some i))"

lemma bfs_total_level:
  assumes H: "\<forall>c \<in> subcells root. is_ok (H c)"
  shows "bfs_total H root level below cells ids \<Longrightarrow> \<exists>cells' ids' below'. bfs_level H level cells ids below = Inr (cells', ids', below') \<and>
    bfs_total H root [] below' cells' ids'"
proof (induction level arbitrary: below cells ids)
  case (Cons c level)
  have c: "c \<in> subcells root" using Cons.prems by (simp add: bfs_total_def)
  with H obtain h where h: "H c = Inr h" by (auto simp: is_ok_iff)
  then have hash: "hash_of H c = Inr h" by (simp add: hash_of_def)
  show ?case
  proof (cases "ids h = None")
    case True
    have "bfs_total H root level (below @ tc_refs c) (cells @ [c]) (ids(h \<mapsto> length cells))"
      unfolding bfs_total_def
    proof (intro conjI ballI)
      show "set level \<union> set (below @ tc_refs c) \<union> set (cells @ [c]) \<subseteq> subcells root"
        using Cons.prems child_subcell [OF c] by (auto simp: bfs_total_def)
      show "ran (ids(h \<mapsto> length cells)) \<subseteq> {..<length (cells @ [c])}"
        using Cons.prems True by (auto simp: bfs_total_def ran_map_upd less_Suc_eq)
    next
      fix d child
      assume d: "d \<in> set (cells @ [c])" and child: "child \<in> set (tc_refs d)"
      consider "child \<in> set (tc_refs c)" | "child = c" | "child \<in> set level \<union> set below" | g i where "H child = Inr g" "ids g = Some i"
        using Cons.prems d child unfolding bfs_total_def by (cases "d \<in> set cells") fastforce+
      then show "child \<in> set level \<union> set (below @ tc_refs c) \<or> (\<exists>g i. H child = Inr g \<and> (ids(h \<mapsto> length cells)) g = Some i)"
        using h by cases (auto simp: True)
    qed
    moreover have "bfs_level H (c # level) cells ids below = bfs_level H level (cells @ [c]) (ids(h \<mapsto> length cells)) (below @ tc_refs c)"
      using hash True by simp
    ultimately show ?thesis using Cons.IH by (simp only:)
  next
    case False
    have "bfs_total H root level below cells ids"
      unfolding bfs_total_def
    proof (intro conjI ballI)
      fix d child
      assume "d \<in> set cells" "child \<in> set (tc_refs d)"
      then consider "child = c" | "child \<in> set level \<union> set below" | g i where "H child = Inr g" "ids g = Some i"
        using Cons.prems unfolding bfs_total_def by fastforce
      then show "child \<in> set level \<union> set below \<or> (\<exists>g i. H child = Inr g \<and> ids g = Some i)"
        using h False by cases auto
    qed (use Cons.prems in \<open>simp_all add: bfs_total_def\<close>)
    from Cons.IH [OF this] hash False show ?thesis by simp
  qed
qed auto

lemma bfs_total_levels:
  assumes "\<forall>c \<in> subcells root. is_ok (H c)" "bfs_total H root level [] cells ids"
  shows "\<exists>cells' ids'. bfs_levels H level cells ids = Inr (cells', ids') \<and> bfs_total H root [] [] cells' ids'"
  using assms
proof (induction H level cells ids rule: bfs_levels.induct)
  case (1 H level cells ids)
  show ?case
  proof (cases "level = []")
    case True
    with 1(3) show ?thesis by (subst bfs_levels.simps) simp
  next
    case False
    from bfs_total_level [OF 1(2,3)] obtain cells' ids' below' where b: "bfs_level H level cells ids [] = Inr (cells', ids', below')"
      "bfs_total H root [] below' cells' ids'" by blast
    then have "bfs_total H root below' [] cells' ids'" by (auto simp: bfs_total_def)
    from 1(1) [OF False b(1) refl refl 1(2) this] False b(1) show ?thesis by (subst bfs_levels.simps) simp
  qed
qed

lemma map_res_each:
  assumes "\<And>x. x \<in> set xs \<Longrightarrow> \<exists>y. f x = Inr y \<and> P y"
  shows "\<exists>ys. map_res f xs = Inr ys \<and> length ys = length xs \<and> (\<forall>y \<in> set ys. P y)"
  using assms
proof (induction xs)
  case (Cons x xs)
  from Cons.prems [of x] obtain y where "f x = Inr y" "P y" by auto
  with Cons.IH [OF Cons.prems] show ?case by auto
qed simp

lemma child_ids_total:
  assumes "bfs_total H root [] [] cells ids" "cell \<in> set cells"
  shows "\<exists>row. child_ids H ids cell = Inr row \<and> set row \<subseteq> {..<length cells}"
proof -
  have "\<exists>i. and_then (hash_of H child) (\<lambda>hash. ok_or TonPanic (ids hash)) = Inr i \<and> i < length cells" if child: "child \<in> set (tc_refs cell)" for child
  proof -
    have "\<forall>c \<in> set cells. \<forall>child \<in> set (tc_refs c). \<exists>h i. H child = Inr h \<and> ids h = Some i" using assms(1) by (simp add: bfs_total_def)
    then obtain h i where h: "H child = Inr h" "ids h = Some i" using assms(2) child by blast
    moreover have "i < length cells" using assms(1) h(2) by (auto simp: bfs_total_def ran_def)
    ultimately show ?thesis by (simp add: hash_of_def)
  qed
  note each = map_res_each [of "tc_refs cell" "\<lambda>child. and_then (hash_of H child) (\<lambda>hash. ok_or TonPanic (ids hash))" "\<lambda>i. i < length cells", OF this]
  then obtain row where "map_res (\<lambda>child. and_then (hash_of H child) (\<lambda>hash. ok_or TonPanic (ids hash))) (tc_refs cell) = Inr row"
    "\<forall>i \<in> set row. i < length cells" by blast
  then show ?thesis unfolding child_ids_def by blast
qed

lemma serialize_total:
  assumes "\<forall>c \<in> subcells root. is_ok (H c)"
  shows "\<exists>bs. serialize_boc H crc root = Inr bs"
proof -
  have "bfs_total H root [root] [] [] Map.empty" by (simp add: bfs_total_def)
  from bfs_total_levels [OF assms this] obtain cells ids where b: "bfs_levels H [root] [] Map.empty = Inr (cells, ids)"
    "bfs_total H root [] [] cells ids" by blast
  obtain refs where r: "map_res (child_ids H ids) cells = Inr refs" "length refs = length cells" "\<forall>row \<in> set refs. set row \<subseteq> {..<length cells}"
    using map_res_each [of cells "child_ids H ids", OF child_ids_total [OF b(2)]] by blast
  then have "in_table refs" by (simp add: in_table_def)
  then obtain post where "cell_postorder refs = Some post" using postorder_total by blast
  with b(1) r(1) show ?thesis by (simp add: serialize_boc_def Let_def)
qed

section \<open>The reference table\<close>

definition index_in :: "ton_cell list \<Rightarrow> ton_cell \<Rightarrow> nat" where
  "index_in cells cell = length (takeWhile (\<lambda>c. c \<noteq> cell) cells)"

definition ref_table :: "ton_cell list \<Rightarrow> nat list list" where
  "ref_table cells = map (\<lambda>cell. map (index_in cells) (filter (\<lambda>c. c \<in> set cells) (tc_refs cell))) cells"

lemma index_in_member: "c \<in> set cells \<Longrightarrow> index_in cells c < length cells \<and> cells ! index_in cells c = c"
  unfolding index_in_def by (induction cells) auto

lemma index_in_nth:
  assumes "distinct cells" "i < length cells"
  shows "index_in cells (cells ! i) = i"
proof -
  note m = index_in_member [of "cells ! i" cells]
  show ?thesis using m assms by (metis nth_eq_iff_index_eq nth_mem)
qed

interpretation table: ranked_refs "ref_table cells" "\<lambda>i. cells_in (cells ! i)" for cells
proof
  fix i j assume i: "i < length (ref_table cells)" and j: "j \<in> set (ref_table cells ! i)"
  then obtain c where c: "c \<in> set cells" "c \<in> set (tc_refs (cells ! i))" "j = index_in cells c"
    by (auto simp: ref_table_def)
  note m = index_in_member [OF c(1)]
  show "j < length (ref_table cells)" using m by (simp add: ref_table_def c(3))
  show "cells_in (cells ! j) < cells_in (cells ! i)" using m child_smaller [OF c(2)] by (simp add: c(3))
qed

lemma cells_closed: "cells_of H root cells ids \<Longrightarrow> d \<in> set cells \<Longrightarrow> c \<in> set (tc_refs d) \<Longrightarrow> c \<in> set cells"
  unfolding cells_of_def using child_subcell by metis

lemma table_closed:
  assumes "cells_of H root cells ids"
  shows "ref_table cells = map (\<lambda>cell. map (index_in cells) (tc_refs cell)) cells"
proof -
  have "filter (\<lambda>c. c \<in> set cells) (tc_refs cell) = tc_refs cell" if "cell \<in> set cells" for cell
    using cells_closed [OF assms that] by (simp add: filter_id_conv)
  then show ?thesis by (simp add: ref_table_def)
qed

lemma child_ids_eq:
  assumes "hashes_ok H root" "cells_of H root cells ids" "cell \<in> set cells"
  shows "child_ids H ids cell = Inr (map (index_in cells) (tc_refs cell))"
  unfolding child_ids_def
proof (rule map_res_Inr)
  fix c assume c: "c \<in> set (tc_refs cell)"
  have sub: "c \<in> set cells" by (rule cells_closed [OF assms(2,3) c])
  then obtain h where h: "H c = Inr h" "hash_of H c = Inr h" using hash_of_cell [OF assms(1)] assms(2) by (auto simp: cells_of_def)
  have "ids h = Some (index_in cells c)"
    using assms(2) index_in_member [OF sub] h(1) by (auto simp: cells_of_def ids_ok_def)
  with h(2) show "and_then (hash_of H c) (\<lambda>hash. ok_or TonPanic (ids hash)) = Inr (index_in cells c)" by simp
qed

lemma child_table_eq:
  assumes "hashes_ok H root" "cells_of H root cells ids"
  shows "map_res (child_ids H ids) cells = Inr (ref_table cells)"
  unfolding table_closed [OF assms(2)] by (rule map_res_Inr) (rule child_ids_eq [OF assms])

lemma table_below_first:
  assumes "cells_of H root cells ids"
  shows "table.below_first cells"
  unfolding table.below_first_def
proof (intro allI impI)
  fix S assume S: "0 \<in> S \<and> (\<forall>i \<in> S. i < length (ref_table cells) \<longrightarrow> set (ref_table cells ! i) \<subseteq> S)"
  let ?T = "{cells ! i |i. i \<in> S \<and> i < length cells}"
  have all: "subcells root \<subseteq> ?T"
  proof (rule subcells_least)
    show "root \<in> ?T" using assms S by (auto simp: cells_of_def)
    fix d c assume d: "d \<in> ?T" and c: "c \<in> set (tc_refs d)"
    then obtain i where i: "i \<in> S" "i < length cells" "d = cells ! i" by blast
    have mem: "c \<in> set cells" using cells_closed [OF assms, of d c] i c by simp
    have "index_in cells c \<in> set (ref_table cells ! i)" using i c by (simp add: table_closed [OF assms])
    with S i have "index_in cells c \<in> S" by (auto simp: ref_table_def)
    with index_in_member [OF mem] show "c \<in> ?T" by force
  qed
  have cells: "distinct cells" "set cells = subcells root" using assms by (auto simp: cells_of_def ids_ok_def)
  have "j \<in> S" if j: "j < length cells" for j
  proof -
    have "cells ! j \<in> ?T" using all cells(2) nth_mem [OF j] by blast
    then show ?thesis using j cells(1) by (auto simp: nth_eq_iff_index_eq)
  qed
  then show "{..<length (ref_table cells)} \<subseteq> S" by (auto simp: ref_table_def)
qed

section \<open>Positions\<close>

lemma positions_kept:
  "node \<notin> set order \<Longrightarrow> fold (\<lambda>(index, node) positions. positions[node := index]) (enumerate s order) ps ! node = ps ! node"
  by (induction order arbitrary: s ps) auto

lemma positions_nth:
  assumes "distinct order" "set order \<subseteq> {..<length ps}" "k < length order"
  shows "fold (\<lambda>(index, node) positions. positions[node := index]) (enumerate s order) ps ! (order ! k) = s + k"
  using assms
proof (induction order arbitrary: s ps k)
  case (Cons x order)
  show ?case
  proof (cases k)
    case 0
    with Cons.prems show ?thesis by (simp add: positions_kept)
  next
    case (Suc m)
    with Cons.prems Cons.IH [of "ps[x := s]" m "Suc s"] show ?thesis by simp
  qed
qed simp

lemma cell_positions_nth:
  "distinct order \<Longrightarrow> set order \<subseteq> {..<n} \<Longrightarrow> k < length order \<Longrightarrow> cell_positions n order ! (order ! k) = k"
  unfolding cell_positions_def by (subst positions_nth) simp_all

text \<open>What the writer is given: the cells in an order in which references point forward, the root first.\<close>

definition write_order :: "ton_cell list \<Rightarrow> nat list \<Rightarrow> bool" where
  "write_order cells order \<longleftrightarrow> distinct order \<and> set order = {..<length cells} \<and> order \<noteq> [] \<and> order ! 0 = 0 \<and>
     (\<forall>k < length order. \<forall>child \<in> set (ref_table cells ! (order ! k)). k < cell_positions (length cells) order ! child \<and>
        cell_positions (length cells) order ! child < length cells)"

lemma postorder_write_order:
  assumes "cells_of H root cells ids"
  shows "\<exists>post. cell_postorder (ref_table cells) = Some post \<and> write_order cells (rev post)"
proof -
  have len: "length (ref_table cells) = length cells" by (simp add: ref_table_def)
  have ne: "ref_table cells \<noteq> []" using assms by (simp add: cells_of_def ref_table_def)
  from table.postorder_result [of cells] obtain post where post: "cell_postorder (ref_table cells) = Some post"
    "distinct post" "set post = {..<length cells}" "table.children_first cells post" unfolding len by blast
  have last: "post \<noteq> [] \<and> last post = 0" by (rule table.postorder_last [OF table_below_first [OF assms] ne post(1)])
  have n: "length post = length cells" using post(2,3) by (metis card_lessThan distinct_card)
  let ?n = "length cells"
  have "k < cell_positions ?n (rev post) ! child \<and> cell_positions ?n (rev post) ! child < ?n"
    if k: "k < ?n" and child: "child \<in> set (ref_table cells ! (rev post ! k))" for k child
  proof -
    let ?i = "?n - Suc k"
    have "rev post ! k = post ! ?i" using k n by (simp add: rev_nth)
    moreover have "set (ref_table cells ! (post ! ?i)) \<subseteq> set (take ?i post)"
      using post(4) k n unfolding table.children_first_def by (metis diff_Suc_less gr_implies_not0 neq0_conv)
    ultimately have "child \<in> set (take ?i post)" using child by auto
    then obtain m where m: "m < ?i" "m < length post" "post ! m = child" by (auto simp: in_set_conv_nth)
    have "cell_positions ?n (rev post) ! (rev post ! (?n - Suc m)) = ?n - Suc m"
      using post(2,3) m n by (intro cell_positions_nth) auto
    moreover have "rev post ! (?n - Suc m) = child" using m n by (simp add: rev_nth)
    moreover have "k < ?n - Suc m \<and> ?n - Suc m < ?n" using m n k by linarith
    ultimately show ?thesis by simp
  qed
  moreover have "rev post ! 0 = 0" using last last_conv_nth [of post] by (simp add: rev_nth)
  ultimately show ?thesis using post last n by (auto simp: write_order_def)
qed

lemma serialize_boc_eq:
  assumes "hashes_ok H root"
  shows "\<exists>cells ids post. cells_of H root cells ids \<and> write_order cells (rev post) \<and>
    serialize_boc H crc root = Inr (boc_bytes cells (ref_table cells) post @ u32_to_le (crc (boc_bytes cells (ref_table cells) post)))"
proof -
  from bfs_levels_result [OF assms bfs_start] obtain cells ids where
    c: "bfs_levels H [root] [] Map.empty = Inr (cells, ids)" "cells_of H root cells ids" by blast
  from postorder_write_order [OF c(2)] obtain post where "cell_postorder (ref_table cells) = Some post"
    "write_order cells (rev post)" by blast
  with c child_table_eq [OF assms c(2)] show ?thesis
    by (intro exI [of _ cells] exI [of _ ids] exI [of _ post])
      (simp add: serialize_boc_def Let_def del: bfs_levels.simps)
qed

end
