(* ===== verification/Ton_Gate.thy ===== *)
theory Ton_Gate
  imports Ton_Serialize
begin

text \<open>
  What the checks on incoming bags of cells and the writer of outgoing ones have to do with each other: the
  depth check is exact on arbitrary bytes, and the bytes the writer produces pass both checks with the depth of the
  cell they encode.
\<close>

section \<open>Reading what was written\<close>

lemma boc_uint_eq: "n * 256 ^ length bs + be_decode bs < 2 ^ 64 \<Longrightarrow> boc_uint n bs = Some (n * 256 ^ length bs + be_decode bs)"
proof (induction bs arbitrary: n)
  case (Cons b bs)
  have eq: "(n * 256 + unat b) * 256 ^ length bs + be_decode bs = n * 256 ^ length (b # bs) + be_decode (b # bs)"
    by (simp add: be_decode_Cons algebra_simps)
  have "n * 256 + unat b \<le> (n * 256 + unat b) * 256 ^ length bs" by simp
  also have "\<dots> \<le> n * 256 ^ length (b # bs) + be_decode (b # bs)" unfolding eq [symmetric] by simp
  finally have "n * 256 + unat b < 2 ^ 64" using Cons.prems by (rule le_less_trans)
  then have "checked (n * 256) = Some (n * 256)" "checked (n * 256 + unat b) = Some (n * 256 + unat b)"
    by (simp_all add: checked_def)
  moreover have "boc_uint (n * 256 + unat b) bs = Some (n * 256 ^ length (b # bs) + be_decode (b # bs))"
    using Cons.IH [of "n * 256 + unat b"] Cons.prems unfolding eq by blast
  ultimately show ?case by simp
qed simp

lemma read_written:
  assumes "bs = pre @ be_encode w v @ rest" "v < 256 ^ w" "w \<le> 8" "length bs < 2 ^ 64" "cursor = length pre"
  shows "read_boc_uint bs cursor w = Some (v, cursor + w)"
proof -
  have "(256 :: nat) ^ w \<le> 256 ^ 8" using assms(3) by (intro power_increasing) simp_all
  then have "v < 2 ^ 64" using assms(2) by simp
  then have "boc_uint 0 (be_encode w v) = Some v"
    using boc_uint_eq [of 0 "be_encode w v"] by (simp add: be_decode_encode_id [OF assms(2)])
  moreover have "slice cursor (cursor + w) bs = be_encode w v" by (simp add: assms(1,5) slice_def)
  moreover have "cursor + w \<le> length bs" by (simp add: assms(1,5))
  then have "checked (cursor + w) = Some (cursor + w)" using assms(4) by (simp add: checked_def)
  ultimately show ?thesis using \<open>cursor + w \<le> length bs\<close> by (simp add: read_boc_uint_def)
qed

lemma counts_written:
  assumes bs: "bs = pre @ be_encode s n @ be_encode s r @ be_encode s a @ be_encode w t @ rest"
    and bounds: "n < 256 ^ s" "r < 256 ^ s" "a < 256 ^ s" "t < 256 ^ w" "s \<le> 8" "w \<le> 8" "length bs < 2 ^ 64" "length pre = 6"
  shows "read_counts bs s w = Some (\<lparr> bc_cells = n, bc_roots = r, bc_absent = a, bc_data_size = t \<rparr>, 6 + s + s + s + w)"
proof -
  have "read_boc_uint bs 6 s = Some (n, 6 + s)" by (rule read_written [of bs pre]) (use bs bounds in simp_all)
  moreover have "read_boc_uint bs (6 + s) s = Some (r, 6 + s + s)"
    by (rule read_written [of bs "pre @ be_encode s n"]) (use bs bounds in simp_all)
  moreover have "read_boc_uint bs (6 + s + s) s = Some (a, 6 + s + s + s)"
    by (rule read_written [of bs "pre @ be_encode s n @ be_encode s r"]) (use bs bounds in simp_all)
  moreover have "read_boc_uint bs (6 + s + s + s) w = Some (t, 6 + s + s + s + w)"
    by (rule read_written [of bs "pre @ be_encode s n @ be_encode s r @ be_encode s a"]) (use bs bounds in simp_all)
  ultimately show ?thesis by (simp add: read_counts_def)
qed

lemma refs_written:
  assumes "bs = pre @ concat (map (\<lambda>c. be_encode s (position c)) refs) @ rest" "s \<le> 8" "length bs < 2 ^ 64" "cursor = length pre"
    "\<forall>c \<in> set refs. index < position c \<and> position c < n" "n \<le> 256 ^ s"
  shows "read_refs (length refs) bs s n index cursor = Some (map position refs, cursor + length refs * s)"
  using assms
proof (induction refs arbitrary: pre cursor)
  case (Cons c refs)
  have "read_boc_uint bs cursor s = Some (position c, cursor + s)"
    by (rule read_written [of bs pre]) (use Cons.prems in auto)
  moreover have "read_refs (length refs) bs s n index (cursor + s) = Some (map position refs, cursor + s + length refs * s)"
    by (rule Cons.IH [of "pre @ be_encode s (position c)"]) (use Cons.prems in auto)
  ultimately show ?case using Cons.prems(5) by simp
qed simp

section \<open>Cell records\<close>

definition cell_limits :: "ton_cell \<Rightarrow> bool" where
  "cell_limits cell \<longleftrightarrow> length (tc_bits cell) \<le> 1023 \<and> length (tc_refs cell) \<le> 4 \<and> tc_level cell \<le> 7"

lemma d1_all: "list_all (\<lambda>(r, l). list_all (\<lambda>e. unat ((word_of_nat r + (if e then 8 else 0) + word_of_nat l * 32 :: byte) AND 7) = r \<and>
    (word_of_nat r + (if e then 8 else 0) + word_of_nat l * 32 :: byte) AND 0x10 = 0) [True, False]) (List.product [0..<5] [0..<8])"
  by (simp add: upt_rec)
lemma d1_fields:
  assumes "r \<le> 4" "l \<le> 7"
  shows "unat ((word_of_nat r + (if e then 8 else 0) + word_of_nat l * 32 :: byte) AND 7) = r"
    "(word_of_nat r + (if e then 8 else 0) + word_of_nat l * 32 :: byte) AND 0x10 = 0"
proof -
  have "(r, l) \<in> set (List.product [0..<5] [0..<8])" "e \<in> set [True, False]" using assms by auto
  with d1_all have "unat ((word_of_nat r + (if e then 8 else 0) + word_of_nat l * 32 :: byte) AND 7) = r \<and>
    (word_of_nat r + (if e then 8 else 0) + word_of_nat l * 32 :: byte) AND 0x10 = 0"
    unfolding list_all_iff by blast
  then show "unat ((word_of_nat r + (if e then 8 else 0) + word_of_nat l * 32 :: byte) AND 7) = r"
    "(word_of_nat r + (if e then 8 else 0) + word_of_nat l * 32 :: byte) AND 0x10 = 0" by blast+
qed

lemma d2_field:
  assumes "b \<le> 1023"
  shows "unat (word_of_nat (b div 8 + (b + 7) div 8) :: byte) div 2 + unat (word_of_nat (b div 8 + (b + 7) div 8) :: byte) mod 2 =
    (b + 7) div 8"
proof -
  have "b div 8 \<le> 127" "(b + 7) div 8 \<le> 128" using assms by presburger+
  then have "b div 8 + (b + 7) div 8 < 2 ^ 8" by simp
  then have u: "unat (word_of_nat (b div 8 + (b + 7) div 8) :: byte) = b div 8 + (b + 7) div 8" by (rule unat_of_small_nat)
  have "(b + 7) div 8 = (if b mod 8 = 0 then b div 8 else b div 8 + 1)" by presburger
  moreover have "(q + q) div 2 + (q + q) mod 2 = q" "(q + (q + 1)) div 2 + (q + (q + 1)) mod 2 = q + 1" for q :: nat
    by presburger+
  ultimately show ?thesis unfolding u by (cases "b mod 8 = 0") (simp_all only: if_True if_False refl)
qed

lemma length_pack_bits: "length (pack_bits bits) = (length bits + 7) div 8"
proof (induction bits rule: pack_bits.induct)
  case (2 b bs)
  then show ?case by (cases "length bs \<le> 7") auto
qed simp

lemma length_cell_data [simp]: "length (cell_data bits) = (length bits + 7) div 8"
  by (simp add: cell_data_def Let_def length_pack_bits)

lemma concat_width: "length (concat (map (\<lambda>c. be_encode s (position c)) refs)) = length refs * s"
  by (induction refs) simp_all

lemma length_cell_record:
  "length refs = length (tc_refs cell) \<Longrightarrow> length (cell_record s position refs cell) = cell_bytes_size s cell"
  by (simp add: cell_record_def cell_bytes_size_def concat_width)

lemma cell_written:
  assumes bs: "bs = pre @ cell_record s position refs cell @ rest" and cursor: "cursor = length pre"
    and limits: "cell_limits cell" "length refs = length (tc_refs cell)" "s \<le> 8" "length bs < 2 ^ 64"
    and refs: "\<forall>c \<in> set refs. index < position c \<and> position c < n" "n \<le> 256 ^ s"
  shows "read_cell bs s n index cursor = Some (map position refs, cursor + cell_bytes_size s cell)"
proof -
  let ?b = "length (tc_bits cell)"
  let ?d1 = "word_of_nat (length refs) + (if tc_exotic cell then 8 else 0) + word_of_nat (tc_level cell) * 32 :: byte"
  let ?d2 = "word_of_nat (?b div 8 + (?b + 7) div 8) :: byte"
  have d: "bs ! cursor = ?d1" "bs ! (cursor + 1) = ?d2" "cursor + 1 < length bs"
    by (simp_all add: bs cursor cell_record_def nth_append)
  have lim: "?b \<le> 1023" "length refs \<le> 4" "tc_level cell \<le> 7" using limits by (simp_all add: cell_limits_def)
  note d1 = d1_fields [OF lim(2,3), of "tc_exotic cell"]
  note d2 = d2_field [OF lim(1)]
  have "cursor + 2 + (?b + 7) div 8 \<le> length bs" by (simp add: bs cursor cell_record_def)
  then have c: "checked (cursor + 2 + (?b + 7) div 8) = Some (cursor + 2 + (?b + 7) div 8)"
    using limits(4) by (simp add: checked_def)
  have "read_refs (length refs) bs s n index (cursor + 2 + (?b + 7) div 8) =
      Some (map position refs, cursor + 2 + (?b + 7) div 8 + length refs * s)"
    by (rule refs_written [of bs "pre @ [?d1, ?d2] @ cell_data (tc_bits cell)"])
      (use bs cursor limits refs in \<open>simp_all add: cell_record_def\<close>)
  then show ?thesis
    unfolding read_cell_def Let_def d(1,2) d1 d2
    using d(3) c limits(2) by (simp add: cell_bytes_size_def)
qed

lemma cells_written:
  assumes "bs = pre @ concat (map (\<lambda>node. cell_record s position (refs node) (cell node)) nodes) @ rest" "cursor = length pre"
    "s \<le> 8" "length bs < 2 ^ 64" "n \<le> 256 ^ s" "length indices = length nodes"
    "\<forall>node \<in> set nodes. cell_limits (cell node) \<and> length (refs node) = length (tc_refs (cell node))"
    "\<forall>m < length nodes. \<forall>c \<in> set (refs (nodes ! m)). indices ! m < position c \<and> position c < n"
  shows "read_cells bs s n indices cursor =
    Some (map (\<lambda>node. map position (refs node)) nodes, cursor + sum_list (map (\<lambda>node. cell_bytes_size s (cell node)) nodes))"
  using assms
proof (induction nodes arbitrary: pre cursor indices)
  case (Cons node nodes)
  from Cons.prems(6) obtain index rest' where i: "indices = index # rest'" "length rest' = length nodes"
    by (cases indices) auto
  have size: "length (cell_record s position (refs node) (cell node)) = cell_bytes_size s (cell node)"
    using Cons.prems(7) by (intro length_cell_record) simp
  have "read_cell bs s n index cursor = Some (map position (refs node), cursor + cell_bytes_size s (cell node))"
  proof (rule cell_written [of bs pre])
    show "\<forall>c \<in> set (refs node). index < position c \<and> position c < n" using Cons.prems(8) i by fastforce
  qed (use Cons.prems in simp_all)
  moreover have "read_cells bs s n rest' (cursor + cell_bytes_size s (cell node)) =
      Some (map (\<lambda>node. map position (refs node)) nodes,
        cursor + cell_bytes_size s (cell node) + sum_list (map (\<lambda>node. cell_bytes_size s (cell node)) nodes))"
  proof (rule Cons.IH [of "pre @ cell_record s position (refs node) (cell node)"])
    show "\<forall>m < length nodes. \<forall>c \<in> set (refs (nodes ! m)). rest' ! m < position c \<and> position c < n"
      using Cons.prems(8) i by (metis Suc_less_eq length_Cons nth_Cons_Suc)
  qed (use Cons.prems i size in simp_all)
  ultimately show ?case by (simp add: i)
qed simp

section \<open>Widths\<close>

lemma bit_length_power: "n < 2 ^ bit_length n"
proof (induction n rule: bit_length.induct)
  case (1 n)
  show ?case
  proof (cases "n = 0")
    case False
    then have "n div 2 < 2 ^ bit_length (n div 2)" using 1 by simp
    then show ?thesis using False by (subst bit_length.simps) simp
  qed (simp add: bit_length.simps)
qed

lemma bit_length_le: "n < 2 ^ k \<Longrightarrow> bit_length n \<le> k"
proof (induction k arbitrary: n)
  case (Suc k)
  have "n div 2 < 2 ^ k" using Suc.prems by simp
  from Suc.IH [OF this] show ?case by (subst bit_length.simps) simp
qed (simp add: bit_length.simps)

lemma byte_width_power: "n < 256 ^ byte_width n"
proof -
  have "bit_length n \<le> 8 * byte_width n" by (auto simp: byte_width_def max_def)
  then have "(2 :: nat) ^ bit_length n \<le> 2 ^ (8 * byte_width n)" by (intro power_increasing) simp_all
  also have "\<dots> = 256 ^ byte_width n" by (simp add: power_mult)
  finally show ?thesis using bit_length_power [of n] by simp
qed

lemma byte_width_bounds: "n < 2 ^ 24 \<Longrightarrow> byte_width n \<in> {1, 2, 3}"
proof -
  assume "n < 2 ^ 24"
  then have "bit_length n \<le> 24" by (rule bit_length_le)
  then show ?thesis by (auto simp: byte_width_def max_def)
qed

lemma flags_fields:
  assumes "s \<in> {1, 2, 3 :: nat}"
  shows "unat ((0x40 OR word_of_nat s :: byte) AND 7) = s" "\<not> has_idx (0x40 OR word_of_nat s)" "has_crc32c (0x40 OR word_of_nat s)"
  using assms by (auto simp: has_idx_def has_crc32c_def)

section \<open>Depth of a cell\<close>

fun cell_depth :: "ton_cell \<Rightarrow> nat" where
  "cell_depth (TonCell bits refs exotic level) = fold max (map (\<lambda>c. Suc (cell_depth c)) refs) 0"

lemma cell_depth_eq: "cell_depth cell = Max (insert 0 ((\<lambda>c. Suc (cell_depth c)) ` set (tc_refs cell)))"
  by (cases cell) (simp add: fold_max)

lemma child_depth: "c \<in> set (tc_refs cell) \<Longrightarrow> Suc (cell_depth c) \<le> cell_depth cell"
  unfolding cell_depth_eq [of cell] by (rule Max_ge) auto

lemma subcell_depth: "c \<in> subcells root \<Longrightarrow> cell_depth c \<le> cell_depth root"
proof (induction root rule: subcells.induct)
  case (1 bits refs exotic level)
  show ?case
  proof (cases "c = TonCell bits refs exotic level")
    case False
    then obtain d where d: "d \<in> set refs" "c \<in> subcells d" using 1(2) by auto
    have "Suc (cell_depth d) \<le> cell_depth (TonCell bits refs exotic level)" by (rule child_depth) (simp add: d(1))
    with 1(1) [OF d] show ?thesis by linarith
  qed simp
qed

text \<open>Chains in the table that was written are chains of cells.\<close>

lemma written_table_depth:
  assumes cells: "cells_of H root cells ids" and order: "write_order cells order" and n: "length order = length cells"
    and table: "table = map (\<lambda>node. map ((!) (cell_positions (length cells) order)) (ref_table cells ! node)) order"
  shows "ref_chain table k d \<Longrightarrow> d \<le> cell_depth (cells ! (order ! k))"
    and "k < length cells \<Longrightarrow> ref_chain table k (cell_depth (cells ! (order ! k)))"
proof -
  let ?pos = "cell_positions (length cells) order"
  have node: "order ! k < length cells" if "k < length cells" for k
    using order n that nth_mem [of k order] by (auto simp: write_order_def)
  have pos: "?pos ! c < length cells \<and> order ! (?pos ! c) = c" if c: "c < length cells" for c
  proof -
    obtain m where m: "m < length order" "order ! m = c" using order c by (metis in_set_conv_nth lessThan_iff write_order_def)
    then have "?pos ! c = m" using cell_positions_nth [of order "length cells" m] order by (auto simp: write_order_def)
    with m n show ?thesis by simp
  qed
  have kids: "set (table ! k) = (\<lambda>c. ?pos ! index_in cells c) ` set (tc_refs (cells ! (order ! k)))" if "k < length cells" for k
    using that n node [OF that] by (auto simp: table table_closed [OF cells])
  have kid: "index_in cells c < length cells \<and> cells ! index_in cells c = c"
    if "k < length cells" "c \<in> set (tc_refs (cells ! (order ! k)))" for k c
    using that cells_closed [OF cells _ that(2)] node [OF that(1)] index_in_member by simp
  show "d \<le> cell_depth (cells ! (order ! k))" if "ref_chain table k d"
    using that
  proof (induction rule: ref_chain.induct)
    case (follow i j d)
    have i: "i < length cells" using follow(1) n by (simp add: table)
    with follow(2) kids obtain c where c: "c \<in> set (tc_refs (cells ! (order ! i)))" "j = ?pos ! index_in cells c" by auto
    have "cells ! (order ! j) = c" using pos kid [OF i c(1)] c(2) by simp
    with follow(4) child_depth [OF c(1)] show ?case by simp
  qed simp
  show "ref_chain table k (cell_depth (cells ! (order ! k)))" if "k < length cells"
    using that
  proof (induction "cells_in (cells ! (order ! k))" arbitrary: k rule: less_induct)
    case less
    let ?cell = "cells ! (order ! k)"
    let ?S = "insert 0 ((\<lambda>c. Suc (cell_depth c)) ` set (tc_refs ?cell))"
    have len: "k < length table" using less.prems n by (simp add: table)
    have "ref_chain table k (Suc (cell_depth c))" if c: "c \<in> set (tc_refs ?cell)" for c
    proof (rule ref_chain.follow [OF len])
      let ?j = "?pos ! index_in cells c"
      note m = kid [OF less.prems c]
      have j: "?j < length cells" "cells ! (order ! ?j) = c" using pos m by auto
      show "?j \<in> set (table ! k)" using kids [OF less.prems] c by blast
      show "ref_chain table ?j (cell_depth c)"
        using less.hyps [of ?j] j child_smaller [OF c] by simp
    qed
    then have "ref_chain table k m" if "m \<in> ?S" for m using that len by (auto intro: ref_chain.stop)
    moreover have "Max ?S \<in> ?S" by (rule Max_in) auto
    ultimately show ?case unfolding cell_depth_eq [of ?cell] by blast
  qed
qed

section \<open>The layout that is written\<close>

lemma order_sum:
  assumes "distinct order" "set order = {..<length cells}"
  shows "sum_list (map (\<lambda>node. f (cells ! node)) order) = (sum_list (map f cells) :: nat)"
proof -
  have "sum_list (map (\<lambda>node. f (cells ! node)) order) = sum (\<lambda>node. f (cells ! node)) (set [0..<length cells])"
    using assms by (simp add: sum_list_distinct_conv_sum_set atLeast0LessThan)
  also have "\<dots> = sum_list (map (\<lambda>node. f (cells ! node)) [0..<length cells])"
    by (rule sum_list_distinct_conv_sum_set [symmetric]) simp
  also have "map (\<lambda>node. f (cells ! node)) [0..<length cells] = map f cells"
    by (rule nth_equalityI) simp_all
  finally show ?thesis .
qed

lemma total_bounds:
  assumes "\<forall>c \<in> set cells. cell_limits c" "s \<le> 4"
  shows "2 * length cells \<le> sum_list (map (cell_bytes_size s) cells) \<and> sum_list (map (cell_bytes_size s) cells) \<le> 146 * length cells"
  using assms
proof (induction cells)
  case (Cons c cells)
  have lim: "length (tc_bits c) \<le> 1023" "length (tc_refs c) \<le> 4" using Cons.prems by (simp_all add: cell_limits_def)
  have "(length (tc_bits c) + 7) div 8 \<le> 128" using lim(1) by presburger
  moreover have "length (tc_refs c) * s \<le> 4 * 4" using lim(2) Cons.prems(2) by (rule mult_le_mono)
  ultimately have "2 \<le> cell_bytes_size s c" "cell_bytes_size s c \<le> 146" by (simp_all add: cell_bytes_size_def)
  with Cons show ?case by simp
qed simp

lemma records_length:
  assumes "\<forall>node \<in> set nodes. length (refs node) = length (tc_refs (cell node))"
  shows "length (concat (map (\<lambda>node. cell_record s position (refs node) (cell node)) nodes)) =
    sum_list (map (\<lambda>node. cell_bytes_size s (cell node)) nodes)"
  using assms by (induction nodes) (simp_all add: length_cell_record)

text \<open>The written bytes as the reader meets them.\<close>

definition boc_parts :: "ton_cell list \<Rightarrow> nat list \<Rightarrow> bytes \<Rightarrow> nat \<Rightarrow> nat \<Rightarrow> nat \<Rightarrow> bytes \<Rightarrow> bool" where
  "boc_parts cells order bs s w dsize data \<longleftrightarrow>
     s = byte_width (length cells) \<and> w = byte_width dsize \<and> dsize = sum_list (map (cell_bytes_size s) cells) \<and>
     data = concat (map (\<lambda>node. cell_record s ((!) (cell_positions (length cells) order)) (ref_table cells ! node) (cells ! node)) order) \<and>
     (\<exists>tail. length tail = 4 \<and>
        bs = BOC_MAGIC @ [0x40 OR word_of_nat s, word_of_nat w] @ be_encode s (length cells) @ be_encode s 1 @ be_encode s 0 @
          be_encode w dsize @ be_encode s 0 @ data @ tail)"

lemma written_parts:
  "length tail = 4 \<Longrightarrow> \<exists>s w dsize data. boc_parts cells (rev post) (boc_bytes cells (ref_table cells) post @ tail) s w dsize data"
  unfolding boc_parts_def boc_bytes_def Let_def by simp

text \<open>What is assumed of the cells, and the sizes that follow.\<close>

definition writable :: "cell_hash \<Rightarrow> ton_cell \<Rightarrow> ton_cell list \<Rightarrow> nat list \<Rightarrow> bool" where
  "writable H root cells order \<longleftrightarrow> (\<exists>ids. cells_of H root cells ids) \<and> write_order cells order \<and>
     (\<forall>c \<in> subcells root. cell_limits c) \<and> length cells \<le> 65536"

lemma writable_refs:
  assumes "writable H root cells order" "node < length cells"
  shows "cell_limits (cells ! node)" "length (ref_table cells ! node) = length (tc_refs (cells ! node))"
proof -
  obtain ids where c: "cells_of H root cells ids" using assms(1) by (auto simp: writable_def)
  then show "length (ref_table cells ! node) = length (tc_refs (cells ! node))"
    using assms(2) by (simp add: table_closed [OF c])
  show "cell_limits (cells ! node)" using assms c nth_mem [OF assms(2)] by (auto simp: writable_def cells_of_def)
qed

lemma writable_order:
  assumes "writable H root cells order"
  shows "distinct order" "set order = {..<length cells}" "length order = length cells" "cells \<noteq> []"
proof -
  show "distinct order" and set: "set order = {..<length cells}" and "cells \<noteq> []"
    using assms by (auto simp: writable_def write_order_def cells_of_def)
  then show "length order = length cells" by (metis card_lessThan distinct_card)
qed

lemma writable_sizes:
  assumes "writable H root cells order" "boc_parts cells order bs s w dsize data"
  shows "s \<in> {1, 2, 3}" "w \<in> {1, 2, 3}" "length cells < 256 ^ s" "dsize < 256 ^ w" "length data = dsize"
    "2 * length cells \<le> dsize" "length bs = 10 + 4 * s + w + dsize" "length bs < 2 ^ 64"
proof -
  note order = writable_order [OF assms(1)]
  have sw: "s = byte_width (length cells)" "w = byte_width dsize" "dsize = sum_list (map (cell_bytes_size s) cells)"
    using assms(2) by (simp_all add: boc_parts_def)
  have few: "length cells \<le> 65536" and lim: "\<forall>c \<in> set cells. cell_limits c"
    using assms(1) by (auto simp: writable_def cells_of_def)
  show s: "s \<in> {1, 2, 3}" unfolding sw(1) using few by (intro byte_width_bounds) simp
  then have "s \<le> 4" by auto
  note size = total_bounds [OF lim this, folded sw(3)]
  show "w \<in> {1, 2, 3}" unfolding sw(2) using few size by (intro byte_width_bounds) simp
  then have w: "w \<le> 3" by auto
  show "length cells < 256 ^ s" "dsize < 256 ^ w" unfolding sw(1,2) by (rule byte_width_power)+
  show data: "length data = dsize"
  proof -
    have "length data = sum_list (map (\<lambda>node. cell_bytes_size s (cells ! node)) order)"
      using assms(2) order(2) writable_refs(2) [OF assms(1)] unfolding boc_parts_def by (simp add: records_length)
    then show ?thesis using order_sum [OF order(1,2), of "cell_bytes_size s"] by (simp add: sw(3))
  qed
  show "2 * length cells \<le> dsize" using size by simp
  show len: "length bs = 10 + 4 * s + w + dsize" using assms(2) data by (auto simp: boc_parts_def BOC_MAGIC_def)
  show "length bs < 2 ^ 64" using len \<open>s \<le> 4\<close> w size few by simp
qed

lemma written_header:
  assumes "writable H root cells order" "boc_parts cells order bs s w dsize data"
  shows "take 4 bs = BOC_MAGIC" "unat (bs ! 4 AND 7) = s" "\<not> has_idx (bs ! 4)" "has_crc32c (bs ! 4)" "unat (bs ! 5) = w"
    "read_counts bs s w = Some (\<lparr> bc_cells = length cells, bc_roots = 1, bc_absent = 0, bc_data_size = dsize \<rparr>, 6 + s + s + s + w)"
    "read_boc_uint bs (6 + s + s + s + w) s = Some (0, 6 + s + s + s + w + s)"
proof -
  note size = writable_sizes [OF assms]
  obtain tail where bs: "bs = BOC_MAGIC @ [0x40 OR word_of_nat s, word_of_nat w] @ be_encode s (length cells) @
      be_encode s 1 @ be_encode s 0 @ be_encode w dsize @ be_encode s 0 @ data @ tail"
    using assms(2) by (auto simp: boc_parts_def)
  let ?M = "BOC_MAGIC @ [0x40 OR word_of_nat s, word_of_nat w]"
  have w: "w \<le> 8" "s \<le> 8" "w < 2 ^ 8" using size(1,2) by auto
  have one: "1 < (256 :: nat) ^ s" using size(1) by auto
  show "take 4 bs = BOC_MAGIC" by (simp add: bs BOC_MAGIC_def)
  have b4: "bs ! 4 = 0x40 OR word_of_nat s" and b5: "bs ! 5 = word_of_nat w" by (simp_all add: bs BOC_MAGIC_def nth_append)
  show "unat (bs ! 4 AND 7) = s" "\<not> has_idx (bs ! 4)" "has_crc32c (bs ! 4)"
    unfolding b4 by (rule flags_fields [OF size(1)])+
  show "unat (bs ! 5) = w" unfolding b5 by (rule unat_of_small_nat(4) [OF w(3)])
  show "read_counts bs s w = Some (\<lparr> bc_cells = length cells, bc_roots = 1, bc_absent = 0, bc_data_size = dsize \<rparr>, 6 + s + s + s + w)"
    by (rule counts_written [of bs ?M]) (use bs size w one in \<open>simp_all add: BOC_MAGIC_def\<close>)
  show "read_boc_uint bs (6 + s + s + s + w) s = Some (0, 6 + s + s + s + w + s)"
    by (rule read_written [of bs "?M @ be_encode s (length cells) @ be_encode s 1 @ be_encode s 0 @ be_encode w dsize"])
      (use bs size w in \<open>simp_all add: BOC_MAGIC_def\<close>)
qed

definition written_table :: "ton_cell list \<Rightarrow> nat list \<Rightarrow> nat list list" where
  "written_table cells order = map (\<lambda>node. map ((!) (cell_positions (length cells) order)) (ref_table cells ! node)) order"

lemma written_cells:
  assumes "writable H root cells order" "boc_parts cells order bs s w dsize data"
  shows "read_cells bs s (length cells) [0..<length cells] (6 + s + s + s + w + s) =
    Some (written_table cells order, 6 + s + s + s + w + s + dsize)"
proof -
  note size = writable_sizes [OF assms] and order = writable_order [OF assms(1)] and refs = writable_refs [OF assms(1)]
  obtain tail where bs: "bs = BOC_MAGIC @ [0x40 OR word_of_nat s, word_of_nat w] @ be_encode s (length cells) @
      be_encode s 1 @ be_encode s 0 @ be_encode w dsize @ be_encode s 0 @ data @ tail"
    and data: "data = concat (map (\<lambda>node. cell_record s ((!) (cell_positions (length cells) order)) (ref_table cells ! node) (cells ! node)) order)"
    and d: "dsize = sum_list (map (cell_bytes_size s) cells)"
    using assms(2) by (auto simp: boc_parts_def)
  let ?pre = "BOC_MAGIC @ [0x40 OR word_of_nat s, word_of_nat w] @ be_encode s (length cells) @
      be_encode s 1 @ be_encode s 0 @ be_encode w dsize @ be_encode s 0"
  have forward: "\<forall>m < length order. \<forall>c \<in> set (ref_table cells ! (order ! m)).
      [0..<length cells] ! m < cell_positions (length cells) order ! c \<and> cell_positions (length cells) order ! c < length cells"
    using assms(1) order(3) by (simp add: writable_def write_order_def)
  have "read_cells bs s (length cells) [0..<length cells] (6 + s + s + s + w + s) =
    Some (written_table cells order, 6 + s + s + s + w + s + sum_list (map (\<lambda>node. cell_bytes_size s (cells ! node)) order))"
    unfolding written_table_def
    by (rule cells_written [of bs ?pre, OF _ _ _ size(8) _ _ _ forward])
      (use bs data size order refs in \<open>auto simp: BOC_MAGIC_def\<close>)
  then show ?thesis using order_sum [OF order(1,2), of "cell_bytes_size s"] by (simp add: d)
qed

lemma written_refs:
  assumes "writable H root cells order" "boc_parts cells order bs s w dsize data"
  shows "boc_refs bs = Some (written_table cells order)"
proof -
  note size = writable_sizes [OF assms] and head = written_header [OF assms]
  let ?c = "6 + s + s + s + w + s"
  have bound: "?c + dsize \<le> length bs" unfolding size(7) by simp
  then have checks: "checked ?c = Some ?c" "checked (?c + dsize) = Some (?c + dsize)"
    using size(8) by (simp_all add: checked_def)
  have "cells \<noteq> []" by (rule writable_order(4) [OF assms(1)])
  then have "boc_data bs = Some (length cells, s, ?c, ?c + dsize)"
    unfolding boc_data_def Let_def head(2,5)
    using head(3,6,7) bound checks size(7) by (simp add: index_size_def)
  then show ?thesis using written_cells [OF assms] by (simp add: boc_refs_def)
qed

lemma written_safe:
  assumes "writable H root cells order" "boc_parts cells order bs s w dsize data" "length cells \<le> max_cells"
  shows "boc_header_is_safe bs max_cells"
proof -
  note size = writable_sizes [OF assms(1,2)] and head = written_header [OF assms(1,2)]
  let ?c = "6 + s + s + s + w + s"
  have len: "length bs = ?c + dsize + 4" unfolding size(7) by simp
  then have checks: "checked ?c = Some ?c" "checked (?c + dsize) = Some (?c + dsize)" "checked (?c + dsize + 4) = Some (?c + dsize + 4)"
    using size(8) by (simp_all add: checked_def)
  have sw: "s \<noteq> 0" "s \<le> 4" "w \<noteq> 0" "w \<le> 8" "10 \<le> length bs" using size(1,2,7) by auto
  have "cells \<noteq> []" by (rule writable_order(4) [OF assms(1)])
  then have few: "length cells \<noteq> 0" "length cells \<le> dsize div 2" "Suc 0 \<le> length cells" using size(6) by (auto simp: Suc_le_eq)
  have root: "read_roots 1 bs s (length cells) (6 + s + s + s + w) = Some ?c"
    using head(7) few(1) by simp
  show ?thesis
    unfolding boc_header_is_safe_def Let_def head(2,5,6) option.case prod.case
    using head(1,3,4) checks len sw few assms(3) root
    by (simp add: index_size_def checked_def [of "Suc 0"])
qed

section \<open>Properties\<close>

text \<open>A chain of declared cells of the greatest length, wherever it starts.\<close>

definition longest_chain :: "nat list list \<Rightarrow> nat \<Rightarrow> bool" where
  "longest_chain table d \<longleftrightarrow> (\<exists>i. ref_chain table i d) \<and> (\<forall>i k. ref_chain table i k \<longrightarrow> k \<le> d)"

text \<open>
  C29: the depth check on a bag of cells is exact, for arbitrary bytes. If the declared cells can be read, their
  references point forward and stay in the table, so they have no cycle, and the number returned is the length of
  the longest chain of references among all declared cells, reachable from the root or not; if they
  cannot be read nothing is returned.
\<close>

theorem boc_depth_exact:
  "case boc_refs bs of
     None \<Rightarrow> boc_max_depth bs = None
   | Some table \<Rightarrow> forward table \<and> table \<noteq> [] \<and> (\<exists>d. boc_max_depth bs = Some d \<and> longest_chain table d)"
proof (cases "boc_refs bs")
  case None
  then show ?thesis by (simp add: boc_max_depth_def)
next
  case (Some table)
  with boc_refs_forward [OF Some] max_depth_of_refs [OF Some] show ?thesis by (auto simp: longest_chain_def)
qed

text \<open>
  C28: the writer of bags of cells agrees with the checks of the reader. For a root whose cells are within the
  limits of a TON cell and number at most \<open>max_cells\<close>, serialising neither fails nor panics, and the bytes
  pass the header check and have the depth of the root, whatever the bytes of the hashes, as long as they
  do not collide, and of the checksum.
\<close>

theorem serialized_boc_accepted:
  assumes hashes: "hashes_ok H root" and limits: "\<forall>c \<in> subcells root. cell_limits c"
    and few: "card (subcells root) \<le> max_cells" "max_cells \<le> MAX_ACCOUNT_STATE_CELLS"
  shows "\<exists>bs. serialize_boc H crc root = Inr bs \<and> boc_header_is_safe bs max_cells \<and> boc_max_depth bs = Some (cell_depth root)"
proof -
  from serialize_boc_eq [OF hashes, of crc] obtain cells ids post where c: "cells_of H root cells ids" "write_order cells (rev post)"
    and out: "serialize_boc H crc root = Inr (boc_bytes cells (ref_table cells) post @ u32_to_le (crc (boc_bytes cells (ref_table cells) post)))"
      (is "_ = Inr ?bs") by blast
  have n: "length cells \<le> max_cells" using c(1) few(1) by (metis cells_of_def distinct_card ids_ok_def)
  have w: "writable H root cells (rev post)"
    using c limits n few(2) by (auto simp: writable_def MAX_ACCOUNT_STATE_CELLS_def)
  obtain s w dsize data where p: "boc_parts cells (rev post) ?bs s w dsize data"
    using written_parts [of "u32_to_le (crc (boc_bytes cells (ref_table cells) post))" cells post] by auto
  note order = writable_order [OF w]
  note table = written_table_depth [OF c order(3) written_table_def]
  from max_depth_of_refs [OF written_refs [OF w p]] obtain d i where d: "boc_max_depth ?bs = Some d"
    "ref_chain (written_table cells (rev post)) i d" "\<And>i k. ref_chain (written_table cells (rev post)) i k \<Longrightarrow> k \<le> d" by blast
  have i: "i < length cells" using d(2) order(3) by (auto simp: written_table_def elim: ref_chain.cases)
  have "d \<le> cell_depth (cells ! (rev post ! i))" by (rule table(1) [OF d(2)])
  also have "\<dots> \<le> cell_depth root"
  proof (rule subcell_depth)
    have "rev post ! i < length cells" using order(2,3) i nth_mem [of i "rev post"] by auto
    then show "cells ! (rev post ! i) \<in> subcells root" using c(1) nth_mem by (auto simp: cells_of_def)
  qed
  finally have "d \<le> cell_depth root" .
  moreover have "cell_depth root \<le> d"
    using d(3) [OF table(2) [of 0]] c order(4) by (auto simp: cells_of_def write_order_def)
  ultimately have "d = cell_depth root" by simp
  with out d(1) written_safe [OF w p n] show ?thesis by blast
qed


definition sample_leaf :: ton_cell where "sample_leaf = TonCell [True, False, True] [] False 0"
definition sample_root :: ton_cell where "sample_root = TonCell [] [sample_leaf, sample_leaf] False 0"
definition sample_hash :: cell_hash where "sample_hash c = Inr (replicate (length (tc_refs c)) 1)"

theorem serialized_boc_accepted_witness:
  "\<exists>bs. serialize_boc sample_hash (\<lambda>_. 0) sample_root = Inr bs \<and> boc_header_is_safe bs 2 \<and> boc_max_depth bs = Some 1"
proof -
  have sub: "subcells sample_root = {sample_root, sample_leaf}" by (auto simp: sample_root_def sample_leaf_def)
  have "sample_root \<noteq> sample_leaf" by (simp add: sample_root_def sample_leaf_def)
  then have "hashes_ok sample_hash sample_root" "\<forall>c \<in> subcells sample_root. cell_limits c" "card (subcells sample_root) \<le> 2"
    unfolding hashes_ok_def sub by (auto simp: sample_hash_def sample_root_def sample_leaf_def cell_limits_def)
  moreover have "2 \<le> MAX_ACCOUNT_STATE_CELLS" by (simp add: MAX_ACCOUNT_STATE_CELLS_def)
  moreover have "cell_depth sample_root = 1" by (simp add: sample_root_def sample_leaf_def)
  ultimately show ?thesis using serialized_boc_accepted [of sample_hash sample_root 2 "\<lambda>_. 0"] by simp
qed

end
