(* ===== verification/Ton_Cells.thy ===== *)
theory Ton_Cells
  imports Ton_Gate
begin

text \<open>
  Reading and writing TON cells. The cell parser and builder, the representation hash and the address type belong to
  the \<^verbatim>\<open>ton_core\<close> crate: a parser is what is left to read, a builder what has been written, and
  their operations, with the number parser of \<^verbatim>\<open>num_bigint\<close>, are the fields of \<open>ton_core\<close>, an
  argument of everything that uses them. What the code relies on is \<open>parser_ok\<close>, \<open>builder_ok\<close>
  and \<open>hash_ok\<close>; \<open>ref_ton_core\<close> is an instance that satisfies them.
\<close>

section \<open>Numbers as bits\<close>

text \<open>Most significant bit first.\<close>

fun num_bits :: "nat \<Rightarrow> nat \<Rightarrow> bool list" where
  "num_bits 0 v = []"
| "num_bits (Suc n) v = num_bits n (v div 2) @ [odd v]"

definition bits_num :: "bool list \<Rightarrow> nat" where
  "bits_num bs = foldl (\<lambda>acc b. 2 * acc + of_bool b) 0 bs"

lemma length_num_bits [simp]: "length (num_bits n v) = n"
  by (induction n arbitrary: v) auto

lemma bits_num_snoc [simp]: "bits_num (bs @ [b]) = 2 * bits_num bs + of_bool b"
  by (simp add: bits_num_def)

lemma bits_num_Nil [simp]: "bits_num [] = 0"
  by (simp add: bits_num_def)

lemma bits_num_less: "bits_num bs < 2 ^ length bs"
proof (induction bs rule: rev_induct)
  case (snoc b bs)
  then show ?case by (cases b) auto
qed simp

lemma bits_num_bits: "v < 2 ^ n \<Longrightarrow> bits_num (num_bits n v) = v"
proof (induction n arbitrary: v)
  case (Suc n)
  then have "bits_num (num_bits n (v div 2)) = v div 2" by auto
  then show ?case using odd_two_times_div_two_succ [of v] by auto
qed simp

lemma num_bits_num: "n = length bs \<Longrightarrow> num_bits n (bits_num bs) = bs"
  by (induction bs arbitrary: n rule: rev_induct) auto

lemma num_bits_inject: "v < 2 ^ n \<Longrightarrow> w < 2 ^ n \<Longrightarrow> num_bits n v = num_bits n w \<longleftrightarrow> v = w"
  by (metis bits_num_bits)

section \<open>The cell library\<close>

record cell_parser =
  cp_bits :: "bool list"
  cp_refs :: "ton_cell list"

record cell_builder =
  cb_bits :: "bool list"
  cb_refs :: "ton_cell list"

record ton_address =
  addr_workchain :: int
  addr_hash :: bytes

record ton_core =
  core_read_bit :: "cell_parser \<Rightarrow> string + bool \<times> cell_parser"
  core_read_bits :: "nat \<Rightarrow> cell_parser \<Rightarrow> string + bool list \<times> cell_parser"
  core_read_num :: "nat \<Rightarrow> cell_parser \<Rightarrow> string + nat \<times> cell_parser"
  core_read_next_ref :: "cell_parser \<Rightarrow> string + ton_cell \<times> cell_parser"
  core_data_bits_left :: "cell_parser \<Rightarrow> string + nat"
  core_write_bit :: "bool \<Rightarrow> cell_builder \<Rightarrow> string + cell_builder"
  core_write_bits :: "bool list \<Rightarrow> cell_builder \<Rightarrow> string + cell_builder"
  core_write_num :: "nat \<Rightarrow> nat \<Rightarrow> cell_builder \<Rightarrow> string + cell_builder"
  core_write_ref :: "ton_cell \<Rightarrow> cell_builder \<Rightarrow> string + cell_builder"
  core_write_cell :: "ton_cell \<Rightarrow> cell_builder \<Rightarrow> string + cell_builder"
  core_build :: "cell_builder \<Rightarrow> string + ton_cell"
  core_hash :: cell_hash
  core_parse_boc :: "bytes \<Rightarrow> (string + ton_cell) option"
  core_parse_address :: "string \<Rightarrow> string + ton_address"
  core_show_address :: "ton_address \<Rightarrow> string"
  core_hash_to_hex :: "bytes \<Rightarrow> string"
  core_parse_biguint16 :: "string \<Rightarrow> nat option"

definition cell_parser_of :: "ton_cell \<Rightarrow> cell_parser" where
  "cell_parser_of cell = \<lparr>cp_bits = tc_bits cell, cp_refs = tc_refs cell\<rparr>"

definition new_builder :: cell_builder where
  "new_builder = \<lparr>cb_bits = [], cb_refs = []\<rparr>"

text \<open>A call of the library from the code: its error is wrapped by \<open>map_err\<close>.\<close>

abbreviation core_call :: "string + 'a \<Rightarrow> ton_fault + 'a" where
  "core_call \<equiv> map_err (\<lambda>e. TonError (ton_map_err e))"

definition ton_build :: "ton_core \<Rightarrow> cell_builder \<Rightarrow> ton_fault + ton_cell" where
  "ton_build T b = core_call (core_build T b)"

abbreviation lift_err :: "'a res \<Rightarrow> ton_fault + 'a" where
  "lift_err \<equiv> map_err TonError"

section \<open>What the code relies on\<close>

text \<open>A call that succeeds with a known result exactly under a condition.\<close>

definition yields :: "bool \<Rightarrow> 'a \<Rightarrow> string + 'a \<Rightarrow> bool" where
  "yields c x r \<longleftrightarrow> (if c then r = Inr x else \<exists>e. r = Inl e)"

definition parser_ok :: "ton_core \<Rightarrow> bool" where
  "parser_ok T \<longleftrightarrow>
     (\<forall>p. yields (cp_bits p \<noteq> []) (hd (cp_bits p), p\<lparr>cp_bits := tl (cp_bits p)\<rparr>) (core_read_bit T p)) \<and>
     (\<forall>n p. yields (n \<le> length (cp_bits p)) (take n (cp_bits p), p\<lparr>cp_bits := drop n (cp_bits p)\<rparr>) (core_read_bits T n p)) \<and>
     (\<forall>n p. 0 < n \<longrightarrow> yields (n \<le> length (cp_bits p)) (bits_num (take n (cp_bits p)), p\<lparr>cp_bits := drop n (cp_bits p)\<rparr>) (core_read_num T n p)) \<and>
     (\<forall>p. yields (cp_refs p \<noteq> []) (hd (cp_refs p), p\<lparr>cp_refs := tl (cp_refs p)\<rparr>) (core_read_next_ref T p)) \<and>
     (\<forall>p. core_data_bits_left T p = Inr (length (cp_bits p)))"

text \<open>
  Writing fails when a value does not fit the width or the cell has no room. A finished cell is ordinary and holds what
  was written; it has level zero when its references do, and can be finished when they are not too deep.
\<close>

definition MAX_CELL_BITS :: nat where "MAX_CELL_BITS = 1023"
definition MAX_CELL_REFS :: nat where "MAX_CELL_REFS = 4"

definition builder_ok :: "ton_core \<Rightarrow> bool" where
  "builder_ok T \<longleftrightarrow>
     (\<forall>x b. yields (length (cb_bits b) < MAX_CELL_BITS) (b\<lparr>cb_bits := cb_bits b @ [x]\<rparr>) (core_write_bit T x b)) \<and>
     (\<forall>xs b. yields (length (cb_bits b) + length xs \<le> MAX_CELL_BITS) (b\<lparr>cb_bits := cb_bits b @ xs\<rparr>) (core_write_bits T xs b)) \<and>
     (\<forall>v n b. 0 < n \<longrightarrow> yields (v < 2 ^ n \<and> length (cb_bits b) + n \<le> MAX_CELL_BITS) (b\<lparr>cb_bits := cb_bits b @ num_bits n v\<rparr>) (core_write_num T v n b)) \<and>
     (\<forall>c b. yields (length (cb_refs b) < MAX_CELL_REFS) (b\<lparr>cb_refs := cb_refs b @ [c]\<rparr>) (core_write_ref T c b)) \<and>
     (\<forall>c b. yields (length (cb_bits b) + length (tc_bits c) \<le> MAX_CELL_BITS \<and> length (cb_refs b) + length (tc_refs c) \<le> MAX_CELL_REFS)
        (b\<lparr>cb_bits := cb_bits b @ tc_bits c, cb_refs := cb_refs b @ tc_refs c\<rparr>) (core_write_cell T c b)) \<and>
     (\<forall>b c. core_build T b = Inr c \<longrightarrow> tc_bits c = cb_bits b \<and> tc_refs c = cb_refs b \<and> \<not> tc_exotic c \<and>
        ((\<forall>r \<in> set (cb_refs b). tc_level r = 0) \<longrightarrow> tc_level c = 0)) \<and>
     (\<forall>b. (\<forall>r \<in> set (cb_refs b). tc_level r = 0 \<and> cell_depth r < MAX_CELL_DEPTH) \<longrightarrow> (\<exists>c. core_build T b = Inr c))"

text \<open>Representation hashes have 32 bytes and are rendered in hexadecimal.\<close>

definition hash_ok :: "external \<Rightarrow> ton_core \<Rightarrow> bool" where
  "hash_ok X T \<longleftrightarrow> (\<forall>c h. core_hash T c = Inr h \<longrightarrow> length h = 32) \<and> (\<forall>h. core_hash_to_hex T h = hex_encode X h)"

definition ref_ton_core :: ton_core where
  "ref_ton_core =
     \<lparr>core_read_bit = (\<lambda>p. case cp_bits p of [] \<Rightarrow> Inl ''eof'' | b # bs \<Rightarrow> Inr (b, p\<lparr>cp_bits := bs\<rparr>)),
      core_read_bits = (\<lambda>n p. if n \<le> length (cp_bits p) then Inr (take n (cp_bits p), p\<lparr>cp_bits := drop n (cp_bits p)\<rparr>) else Inl ''eof''),
      core_read_num = (\<lambda>n p. if n \<le> length (cp_bits p) then Inr (bits_num (take n (cp_bits p)), p\<lparr>cp_bits := drop n (cp_bits p)\<rparr>) else Inl ''eof''),
      core_read_next_ref = (\<lambda>p. case cp_refs p of [] \<Rightarrow> Inl ''no ref'' | c # cs \<Rightarrow> Inr (c, p\<lparr>cp_refs := cs\<rparr>)),
      core_data_bits_left = (\<lambda>p. Inr (length (cp_bits p))),
      core_write_bit = (\<lambda>x b. if length (cb_bits b) < MAX_CELL_BITS then Inr (b\<lparr>cb_bits := cb_bits b @ [x]\<rparr>) else Inl ''full''),
      core_write_bits = (\<lambda>xs b. if length (cb_bits b) + length xs \<le> MAX_CELL_BITS then Inr (b\<lparr>cb_bits := cb_bits b @ xs\<rparr>) else Inl ''full''),
      core_write_num = (\<lambda>v n b. if v < 2 ^ n \<and> length (cb_bits b) + n \<le> MAX_CELL_BITS then Inr (b\<lparr>cb_bits := cb_bits b @ num_bits n v\<rparr>) else Inl ''full''),
      core_write_ref = (\<lambda>c b. if length (cb_refs b) < MAX_CELL_REFS then Inr (b\<lparr>cb_refs := cb_refs b @ [c]\<rparr>) else Inl ''full''),
      core_write_cell = (\<lambda>c b. if length (cb_bits b) + length (tc_bits c) \<le> MAX_CELL_BITS \<and> length (cb_refs b) + length (tc_refs c) \<le> MAX_CELL_REFS
         then Inr (b\<lparr>cb_bits := cb_bits b @ tc_bits c, cb_refs := cb_refs b @ tc_refs c\<rparr>) else Inl ''full''),
      core_build = (\<lambda>b. Inr (TonCell (cb_bits b) (cb_refs b) False (foldr (\<lambda>c. max (tc_level c)) (cb_refs b) 0))),
      core_hash = (\<lambda>c. Inr (be_encode 32 (length (tc_bits c) + bits_num (tc_bits c)))),
      core_parse_boc = (\<lambda>bs. Some (Inr (TonCell (num_bits 8 (length bs)) [] False 0))),
      core_parse_address = (\<lambda>_. Inl ''no address''),
      core_show_address = (\<lambda>_. []),
      core_hash_to_hex = hex_encode ref_external,
      core_parse_biguint16 = (\<lambda>s. case hex_decode ref_external s of Inl _ \<Rightarrow> None | Inr bs \<Rightarrow> Some (be_decode bs))\<rparr>"

lemma foldr_level: "\<forall>c \<in> set cs. tc_level c = 0 \<Longrightarrow> foldr (\<lambda>c. max (tc_level c)) cs 0 = 0"
  by (induction cs) auto

lemma ref_parser_ok: "parser_ok ref_ton_core"
  by (auto simp: parser_ok_def yields_def ref_ton_core_def split: list.splits)

lemma ref_builder_ok: "builder_ok ref_ton_core"
  by (auto simp: builder_ok_def yields_def ref_ton_core_def foldr_level)

lemma ref_hash_ok: "hash_ok ref_external ref_ton_core"
  by (simp add: hash_ok_def ref_ton_core_def)

section \<open>Using the library\<close>

lemma parser_okD:
  assumes "parser_ok T"
  shows "yields (cp_bits p \<noteq> []) (hd (cp_bits p), p\<lparr>cp_bits := tl (cp_bits p)\<rparr>) (core_read_bit T p)"
    and "yields (n \<le> length (cp_bits p)) (take n (cp_bits p), p\<lparr>cp_bits := drop n (cp_bits p)\<rparr>) (core_read_bits T n p)"
    and "0 < n \<Longrightarrow> yields (n \<le> length (cp_bits p)) (bits_num (take n (cp_bits p)), p\<lparr>cp_bits := drop n (cp_bits p)\<rparr>) (core_read_num T n p)"
    and "yields (cp_refs p \<noteq> []) (hd (cp_refs p), p\<lparr>cp_refs := tl (cp_refs p)\<rparr>) (core_read_next_ref T p)"
    and "core_data_bits_left T p = Inr (length (cp_bits p))"
  using assms unfolding parser_ok_def by blast+

lemma read_steps:
  assumes T: "parser_ok T"
  shows "core_read_bit T \<lparr>cp_bits = x # bs, cp_refs = rs\<rparr> = Inr (x, \<lparr>cp_bits = bs, cp_refs = rs\<rparr>)"
    and "n \<le> length bs \<Longrightarrow> core_read_bits T n \<lparr>cp_bits = bs, cp_refs = rs\<rparr> = Inr (take n bs, \<lparr>cp_bits = drop n bs, cp_refs = rs\<rparr>)"
    and "0 < n \<Longrightarrow> n \<le> length bs \<Longrightarrow> core_read_num T n \<lparr>cp_bits = bs, cp_refs = rs\<rparr> = Inr (bits_num (take n bs), \<lparr>cp_bits = drop n bs, cp_refs = rs\<rparr>)"
    and "core_read_next_ref T \<lparr>cp_bits = bs, cp_refs = c # rs\<rparr> = Inr (c, \<lparr>cp_bits = bs, cp_refs = rs\<rparr>)"
    and "core_data_bits_left T \<lparr>cp_bits = bs, cp_refs = rs\<rparr> = Inr (length bs)"
  using parser_okD(1) [OF T, of "\<lparr>cp_bits = x # bs, cp_refs = rs\<rparr>"] parser_okD(2) [OF T, of n "\<lparr>cp_bits = bs, cp_refs = rs\<rparr>"]
    parser_okD(3) [OF T, of n "\<lparr>cp_bits = bs, cp_refs = rs\<rparr>"] parser_okD(4) [OF T, of "\<lparr>cp_bits = bs, cp_refs = c # rs\<rparr>"]
    parser_okD(5) [OF T, of "\<lparr>cp_bits = bs, cp_refs = rs\<rparr>"]
  by (simp_all add: yields_def)

lemma read_num_app:
  assumes "parser_ok T" "v < 2 ^ n" "0 < n"
  shows "core_read_num T n \<lparr>cp_bits = num_bits n v @ bs, cp_refs = rs\<rparr> = Inr (v, \<lparr>cp_bits = bs, cp_refs = rs\<rparr>)"
  using read_steps(3) [OF assms(1,3), of "num_bits n v @ bs" rs] assms(2) by (simp add: bits_num_bits)

lemma read_fails:
  assumes T: "parser_ok T"
  shows "\<exists>e. core_read_bit T \<lparr>cp_bits = [], cp_refs = rs\<rparr> = Inl e"
    and "length bs < n \<Longrightarrow> \<exists>e. core_read_bits T n \<lparr>cp_bits = bs, cp_refs = rs\<rparr> = Inl e"
    and "\<exists>e. core_read_next_ref T \<lparr>cp_bits = bs, cp_refs = []\<rparr> = Inl e"
  using parser_okD(1) [OF T, of "\<lparr>cp_bits = [], cp_refs = rs\<rparr>"] parser_okD(2) [OF T, of n "\<lparr>cp_bits = bs, cp_refs = rs\<rparr>"]
    parser_okD(4) [OF T, of "\<lparr>cp_bits = bs, cp_refs = []\<rparr>"]
  by (simp_all add: yields_def)

lemma core_call_no_panic [simp]: "core_call r \<noteq> Inl TonPanic"
  by (cases r) auto

end
