(* ===== verification/Ton_Dict.thy ===== *)
theory Ton_Dict
  imports Ton_Cells
begin

text \<open>
  Lookup in a TON dictionary with 256-bit keys and cell values, \<^verbatim>\<open>ton/dict.rs\<close>. The reading of a unary length is a loop
  over calls of another crate, which need not end for an arbitrary instance of it: \<open>None\<close> is a
  lookup that does not return. The dictionaries themselves are \<open>dict_of\<close>: a tree of labels in any of the three encodings
  with the bindings it holds.
\<close>

section \<open>Lookup\<close>

definition DICT_KEY_BITS :: nat where "DICT_KEY_BITS = 256"

definition bounded_uint_bits :: "nat \<Rightarrow> nat" where
  "bounded_uint_bits m = bit_length m"

text \<open>An index past the key panics.\<close>

definition key_bit :: "bytes \<Rightarrow> nat \<Rightarrow> ton_fault + bool" where
  "key_bit key_be index =
     (if index div 8 < length key_be then Inr (drop_bit (7 - index mod 8) (key_be ! (index div 8)) AND 1 = 1)
      else Inl TonPanic)"

datatype descent = Value ton_cell | Node ton_cell | Absent

partial_function (option) read_unary :: "ton_core \<Rightarrow> cell_parser \<Rightarrow> nat \<Rightarrow> (ton_fault + nat \<times> cell_parser) option" where
  "read_unary T parser len =
     (case core_read_bit T parser of
        Inl e \<Rightarrow> Some (Inl (TonError (ton_map_err e)))
      | Inr (b, parser) \<Rightarrow> if b then read_unary T parser (len + 1) else Some (Inr (len, parser)))"

text \<open>The length of the label and, for a run of one bit, that bit.\<close>

definition read_label :: "ton_core \<Rightarrow> nat \<Rightarrow> cell_parser \<Rightarrow> (ton_fault + (nat \<times> bool option) \<times> cell_parser) option" where
  "read_label T remaining parser =
     (case core_call (core_read_bit T parser) of
        Inl e \<Rightarrow> Some (Inl e)
      | Inr (False, parser) \<Rightarrow> map_option (map_ok (\<lambda>(len, parser). ((len, None), parser))) (read_unary T parser 0)
      | Inr (True, parser) \<Rightarrow> Some (
          and_then (core_call (core_read_bit T parser)) (\<lambda>(same, parser).
          if \<not> same then
            map_ok (\<lambda>(len, parser). ((len, None), parser)) (core_call (core_read_num T (bounded_uint_bits remaining) parser))
          else
            and_then (core_call (core_read_bit T parser)) (\<lambda>(b, parser).
            map_ok (\<lambda>(len, parser). ((len, Some b), parser)) (core_call (core_read_num T (bounded_uint_bits remaining) parser))))))"

text \<open>Compare the label with the key; \<open>None\<close> is a label that diverges.\<close>

fun match_label :: "ton_core \<Rightarrow> bytes \<Rightarrow> nat \<Rightarrow> bool option \<Rightarrow> nat list \<Rightarrow> cell_parser \<Rightarrow> ton_fault + cell_parser option" where
  "match_label T key_be consumed same_bit [] parser = Inr (Some parser)"
| "match_label T key_be consumed same_bit (offset # offsets) parser =
     and_then (case same_bit of Some b \<Rightarrow> Inr (b, parser) | None \<Rightarrow> core_call (core_read_bit T parser)) (\<lambda>(label_bit, parser).
     and_then (key_bit key_be (consumed + offset)) (\<lambda>b.
       if label_bit \<noteq> b then Inr None
       else match_label T key_be consumed same_bit offsets parser))"

definition descend :: "ton_core \<Rightarrow> ton_cell \<Rightarrow> bytes \<Rightarrow> nat \<Rightarrow> nat \<Rightarrow> (ton_fault + descent \<times> nat \<times> nat) option" where
  "descend T node key_be remaining consumed =
     (case lift_err (require_ordinary node) of
        Inl e \<Rightarrow> Some (Inl e)
      | Inr _ \<Rightarrow>
     (case read_label T remaining (cell_parser_of node) of
        None \<Rightarrow> None
      | Some label \<Rightarrow> Some (
          and_then label (\<lambda>((label_len, same_bit), parser).
          if remaining < label_len then Inl (TonError (Internal ''TON dictionary label is longer than the remaining key''))
          else and_then (match_label T key_be consumed same_bit [0..<label_len] parser) (\<lambda>matched.
          case matched of
            None \<Rightarrow> Inr (Absent, remaining, consumed)
          | Some parser \<Rightarrow>
              let consumed = consumed + label_len; remaining = remaining - label_len in
              if remaining = 0
              then map_ok (\<lambda>(leaf, _). (Value leaf, remaining, consumed)) (core_call (core_read_next_ref T parser))
              else and_then (key_bit key_be consumed) (\<lambda>branch.
                   and_then (core_call (core_read_next_ref T parser)) (\<lambda>(left, parser).
                   and_then (core_call (core_read_next_ref T parser)) (\<lambda>(right, parser).
                     Inr (Node (if branch then right else left), remaining - 1, consumed + 1)))))))))"

text \<open>Going down to a branch leaves fewer key bits, which is why the loop ends.\<close>

lemma descend_remaining: "descend T node key remaining consumed = Some (Inr (Node next, remaining', consumed')) \<Longrightarrow> remaining' < remaining"
  unfolding descend_def Let_def
  by (auto simp: res_simps split: sum.splits option.splits if_splits)

function dict_loop :: "ton_core \<Rightarrow> bytes \<Rightarrow> ton_cell \<Rightarrow> nat \<Rightarrow> nat \<Rightarrow> (ton_fault + ton_cell option) option" where
  "dict_loop T key_be node remaining consumed =
     (case descend T node key_be remaining consumed of
        None \<Rightarrow> None
      | Some (Inl e) \<Rightarrow> Some (Inl e)
      | Some (Inr (Value leaf, _)) \<Rightarrow> Some (Inr (Some leaf))
      | Some (Inr (Absent, _)) \<Rightarrow> Some (Inr None)
      | Some (Inr (Node next, remaining, consumed)) \<Rightarrow> dict_loop T key_be next remaining consumed)"
  by pat_completeness auto

termination
  by (relation "measure (\<lambda>(T, key, node, remaining, consumed). remaining)") (auto dest: descend_remaining)

declare dict_loop.simps [simp del]

definition dict256_get_ref :: "ton_core \<Rightarrow> ton_cell \<Rightarrow> bytes \<Rightarrow> (ton_fault + ton_cell option) option" where
  "dict256_get_ref T root key_be =
     (case lift_err (require_ordinary root) of
        Inl e \<Rightarrow> Some (Inl e)
      | Inr _ \<Rightarrow> if tc_bits root = [] then Some (Inr None) else dict_loop T key_be root DICT_KEY_BITS 0)"

section \<open>Dictionaries\<close>

definition key_bits :: "bytes \<Rightarrow> bool list" where
  "key_bits key = map (\<lambda>i. bit (key ! (i div 8)) (7 - i mod 8)) [0..<8 * length key]"

text \<open>The three encodings of a label, \<open>hml_short\<close>, \<open>hml_long\<close> and \<open>hml_same\<close>, where \<open>m\<close> key bits are left.\<close>

definition label_code :: "nat \<Rightarrow> bool list \<Rightarrow> bool list \<Rightarrow> bool" where
  "label_code m label code \<longleftrightarrow>
     code = False # replicate (length label) True @ False # label \<or>
     0 < m \<and> code = True # False # num_bits (bit_length m) (length label) @ label \<or>
     0 < m \<and> (\<exists>b. label = replicate (length label) b \<and> code = True # True # b # num_bits (bit_length m) (length label))"

definition under :: "bool list \<Rightarrow> (bool list \<times> ton_cell) list \<Rightarrow> (bool list \<times> ton_cell) list" where
  "under prefix bindings = map (\<lambda>(key, leaf). (prefix @ key, leaf)) bindings"

text \<open>
  A cell is the tree of some bindings for keys of \<open>m\<close> bits: a leaf has a label for the rest of its key and its value as
  the first reference, a fork has a label and its branches for a zero and for a one as the first two references.
\<close>

inductive dict_of :: "nat \<Rightarrow> (bool list \<times> ton_cell) list \<Rightarrow> ton_cell \<Rightarrow> bool" where
  leaf: "label_code m label code \<Longrightarrow> length label = m \<Longrightarrow>
    dict_of m [(label, leaf)] (TonCell (code @ rest) (leaf # refs) False 0)"
| fork: "label_code m label code \<Longrightarrow> m = length label + 1 + k \<Longrightarrow> dict_of k zeros left \<Longrightarrow> dict_of k ones right \<Longrightarrow>
    dict_of m (under (label @ [False]) zeros @ under (label @ [True]) ones) (TonCell (code @ rest) (left # right # refs) False 0)"

text \<open>A dictionary cell: an ordinary empty cell has no keys.\<close>

definition is_dict256 :: "(bool list \<times> ton_cell) list \<Rightarrow> ton_cell \<Rightarrow> bool" where
  "is_dict256 bindings root \<longleftrightarrow>
     bindings = [] \<and> tc_bits root = [] \<and> \<not> tc_exotic root \<and> tc_level root = 0 \<or> dict_of DICT_KEY_BITS bindings root"

section \<open>Reading labels\<close>

lemma length_key_bits [simp]: "length (key_bits key) = 8 * length key"
  by (simp add: key_bits_def)

lemma key_bit_eq: "i < 8 * length key \<Longrightarrow> key_bit key i = Inr (key_bits key ! i)"
  by (auto simp: key_bit_def key_bits_def bit_iff_and_drop_bit_eq_1)

lemma read_unary_code:
  assumes "parser_ok T"
  shows "read_unary T \<lparr>cp_bits = replicate n True @ False # rest, cp_refs = rs\<rparr> len = Some (Inr (len + n, \<lparr>cp_bits = rest, cp_refs = rs\<rparr>))"
proof (induction n arbitrary: len)
  case 0
  then show ?case by (subst read_unary.simps) (simp add: read_steps [OF assms])
next
  case (Suc n)
  then show ?case by (subst read_unary.simps) (simp add: read_steps [OF assms])
qed

lemma bit_length_pos: "0 < m \<Longrightarrow> 0 < bit_length m"
  by (subst bit_length.simps) simp

lemma read_label_code:
  assumes T: "parser_ok T" and code: "label_code m label code" and len: "length label \<le> m"
  obtains same body where "read_label T m \<lparr>cp_bits = code @ rest, cp_refs = rs\<rparr> = Some (Inr ((length label, same), \<lparr>cp_bits = body @ rest, cp_refs = rs\<rparr>))"
    "case same of None \<Rightarrow> body = label | Some b \<Rightarrow> body = [] \<and> label = replicate (length label) b"
proof -
  have fits: "length label < 2 ^ bit_length m" using len bit_length_power [of m] by simp
  note num = read_num_app [OF T fits bit_length_pos]
  from code consider "code = False # replicate (length label) True @ False # label"
    | "0 < m" "code = True # False # num_bits (bit_length m) (length label) @ label"
    | b where "0 < m" "label = replicate (length label) b" "code = True # True # b # num_bits (bit_length m) (length label)"
    by (auto simp: label_code_def)
  then show thesis
  proof cases
    case 1
    then show thesis using that [of None label] by (simp add: read_label_def read_steps [OF T] read_unary_code [OF T])
  next
    case 2
    then show thesis using that [of None label] num by (simp add: read_label_def read_steps [OF T] bounded_uint_bits_def)
  next
    case 3
    then show thesis using that [of "Some b" "[]"] num by (simp add: read_label_def read_steps [OF T] bounded_uint_bits_def)
  qed
qed

lemma match_spelled:
  assumes T: "parser_ok T"
  shows "consumed \<le> c \<Longrightarrow> c + length label \<le> 8 * length key \<Longrightarrow>
    match_label T key consumed None (map (\<lambda>i. i - consumed) [c..<c + length label]) \<lparr>cp_bits = label @ rest, cp_refs = rs\<rparr> =
      Inr (if take (length label) (drop c (key_bits key)) = label then Some \<lparr>cp_bits = rest, cp_refs = rs\<rparr> else None)"
proof (induction label arbitrary: c)
  case (Cons b label)
  have c: "c < 8 * length key" using Cons.prems by simp
  have steps: "[c..<c + length (b # label)] = c # [Suc c..<Suc c + length label]" by (simp add: upt_rec)
  have cut: "drop c (key_bits key) = key_bits key ! c # drop (Suc c) (key_bits key)" using c by (simp add: Cons_nth_drop_Suc)
  show ?case
    using Cons.IH [of "Suc c"] Cons.prems
    unfolding steps cut by (simp add: read_steps [OF T] key_bit_eq [OF c])
qed simp

lemma match_run:
  shows "c + n \<le> 8 * length key \<Longrightarrow> consumed \<le> c \<Longrightarrow>
    match_label T key consumed (Some b) (map (\<lambda>i. i - consumed) [c..<c + n]) p =
      Inr (if take n (drop c (key_bits key)) = replicate n b then Some p else None)"
proof (induction n arbitrary: c)
  case (Suc n)
  have c: "c < 8 * length key" using Suc.prems by simp
  have steps: "[c..<c + Suc n] = c # [Suc c..<Suc c + n]" by (simp add: upt_rec)
  have cut: "drop c (key_bits key) = key_bits key ! c # drop (Suc c) (key_bits key)" using c by (simp add: Cons_nth_drop_Suc)
  show ?case
    using Suc.IH [of "Suc c"] Suc.prems
    unfolding steps cut by (auto simp del: upt_Suc simp: key_bit_eq [OF c])
qed simp

lemma upt_shift: "map (\<lambda>i. i - c) [c..<c + n] = [0..<n]"
  by (intro nth_equalityI) auto

lemma match_label_code:
  assumes T: "parser_ok T" and body: "case same of None \<Rightarrow> body = label | Some b \<Rightarrow> body = [] \<and> label = replicate (length label) b"
    and "consumed + length label \<le> 8 * length key"
  shows "match_label T key consumed same [0..<length label] \<lparr>cp_bits = body @ rest, cp_refs = rs\<rparr> =
      Inr (if take (length label) (drop consumed (key_bits key)) = label then Some \<lparr>cp_bits = rest, cp_refs = rs\<rparr> else None)"
proof (cases same)
  case None
  then show ?thesis using match_spelled [OF T order_refl assms(3), of rest rs] body by (simp add: upt_shift)
next
  case (Some b)
  then show ?thesis
    using match_run [OF assms(3) order_refl, of T b "\<lparr>cp_bits = rest, cp_refs = rs\<rparr>"] body by (simp add: upt_shift)
qed

section \<open>Walking the tree\<close>

lemma descend_code:
  assumes T: "parser_ok T" and code: "label_code m label code" and len: "length label \<le> m" and key: "consumed + m = 8 * length key"
  shows "descend T (TonCell (code @ rest) refs False 0) key m consumed =
    (if take (length label) (drop consumed (key_bits key)) \<noteq> label then Some (Inr (Absent, m, consumed))
     else Some (if m = length label
       then map_ok (\<lambda>(leaf, _). (Value leaf, 0, consumed + m)) (core_call (core_read_next_ref T \<lparr>cp_bits = rest, cp_refs = refs\<rparr>))
       else and_then (core_call (core_read_next_ref T \<lparr>cp_bits = rest, cp_refs = refs\<rparr>)) (\<lambda>(left, parser).
         and_then (core_call (core_read_next_ref T parser)) (\<lambda>(right, parser).
           Inr (Node (if key_bits key ! (consumed + length label) then right else left), m - length label - 1, consumed + length label + 1)))))"
proof -
  obtain same body where label: "read_label T m \<lparr>cp_bits = code @ rest, cp_refs = refs\<rparr> = Some (Inr ((length label, same), \<lparr>cp_bits = body @ rest, cp_refs = refs\<rparr>))"
    and body: "case same of None \<Rightarrow> body = label | Some b \<Rightarrow> body = [] \<and> label = replicate (length label) b"
    by (rule read_label_code [OF T code len])
  note matched = match_label_code [OF T body, of consumed key rest refs]
  have bit: "m \<noteq> length label \<Longrightarrow> key_bit key (consumed + length label) = Inr (key_bits key ! (consumed + length label))"
    using len key by (intro key_bit_eq) simp
  show ?thesis
    using len key matched bit label
    by (auto simp: descend_def require_ordinary_def cell_parser_of_def Let_def)
qed

lemma map_of_under: "map_of (under p bindings) key = (if take (length p) key = p then map_of bindings (drop (length p) key) else None)"
proof (induction bindings)
  case (Cons binding bindings)
  obtain k leaf where "binding = (k, leaf)" by force
  with Cons show ?case by (auto simp: under_def append_eq_conv_conj) (metis append_take_drop_id)
qed (simp add: under_def)

lemma take_snoc_nth: "n < length xs \<Longrightarrow> take (Suc n) xs = ys @ [y] \<longleftrightarrow> take n xs = ys \<and> xs ! n = y"
  by (simp add: take_Suc_conv_app_nth)

lemma dict_of_lookup:
  assumes T: "parser_ok T"
  shows "dict_of m bindings cell \<Longrightarrow> consumed + m = 8 * length key \<Longrightarrow>
    dict_loop T key cell m consumed = Some (Inr (map_of bindings (drop consumed (key_bits key))))"
proof (induction m bindings cell arbitrary: consumed rule: dict_of.induct)
  case (leaf m label code leaf rest refs)
  have "take m (drop consumed (key_bits key)) = drop consumed (key_bits key)" using leaf by simp
  with leaf show ?case
    by (subst dict_loop.simps) (auto simp: descend_code [OF T leaf(1)] read_steps [OF T])
next
  case (fork m label code k zeros left ones right rest refs)
  let ?key = "drop consumed (key_bits key)"
  have len: "length label < length ?key" using fork by simp
  have nth: "?key ! length label = key_bits key ! (consumed + length label)" using fork by simp
  have m: "consumed + length label + 1 + k = 8 * length key" "length label \<le> m" "m - length label - 1 = k" "m \<noteq> length label"
    using fork by auto
  have tails: "drop (length label + 1) ?key = drop (consumed + length label + 1) (key_bits key)" by (simp add: ac_simps)
  show ?case
    using fork.IH(1,2) [OF m(1)] fork.prems m len
    by (subst dict_loop.simps)
      (auto simp: descend_code [OF T fork(1)] read_steps [OF T] map_of_under map_add_def take_snoc_nth nth tails
        add.commute [of "length label" consumed] split: option.splits)
qed

lemma dict_of_shape: "dict_of m bindings cell \<Longrightarrow> tc_bits cell \<noteq> [] \<and> \<not> tc_exotic cell \<and> tc_level cell = 0"
  by (induction rule: dict_of.induct) (auto simp: label_code_def)

section \<open>The lookup always returns\<close>

lemma read_unary_returns: "parser_ok T \<Longrightarrow> \<exists>r. read_unary T p len = Some r \<and> r \<noteq> Inl TonPanic"
proof (induction "length (cp_bits p)" arbitrary: p len)
  case 0
  then show ?case using parser_okD(1) [of T p] by (subst read_unary.simps) (auto simp: yields_def)
next
  case (Suc n)
  then obtain b bs where bits: "cp_bits p = b # bs" by (cases "cp_bits p") auto
  have "core_read_bit T p = Inr (b, p\<lparr>cp_bits := bs\<rparr>)" using parser_okD(1) [OF Suc.prems, of p] bits by (simp add: yields_def)
  then show ?case using Suc bits by (subst read_unary.simps) auto
qed

lemma read_label_returns: "parser_ok T \<Longrightarrow> \<exists>r. read_label T m p = Some r \<and> r \<noteq> Inl TonPanic"
  using read_unary_returns [of T]
  by (auto simp: read_label_def res_simps split: sum.splits bool.splits prod.splits if_splits) (metis map_ok_eq_Inl)+

lemma match_label_no_panic:
  "\<forall>offset \<in> set offsets. consumed + offset < 8 * length key \<Longrightarrow> match_label T key consumed same offsets p \<noteq> Inl TonPanic"
proof (induction offsets arbitrary: p)
  case (Cons offset offsets)
  then show ?case by (auto simp: key_bit_eq res_simps split: option.splits)
qed simp

lemma descend_returns:
  assumes T: "parser_ok T" and key: "consumed + remaining = 8 * length key"
  obtains r where "descend T node key remaining consumed = Some r" "r \<noteq> Inl TonPanic"
    "\<And>next remaining' consumed'. r = Inr (Node next, remaining', consumed') \<Longrightarrow> consumed' + remaining' = 8 * length key"
proof -
  from read_label_returns [OF T, of remaining "cell_parser_of node"] obtain label where
    label: "read_label T remaining (cell_parser_of node) = Some label" "label \<noteq> Inl TonPanic" by blast
  have match: "match_label T key consumed same [0..<len] p \<noteq> Inl TonPanic" if "len \<le> remaining" for same len p
    using key that by (intro match_label_no_panic) simp
  have bit: "key_bit key (consumed + len) = Inr (key_bits key ! (consumed + len))" if "len < remaining" for len
    using key that by (intro key_bit_eq) simp
  show thesis
  proof (rule that)
    show "descend T node key remaining consumed = Some (the (descend T node key remaining consumed))"
      using label(1) by (auto simp: descend_def split: sum.splits)
    show "the (descend T node key remaining consumed) \<noteq> Inl TonPanic"
      using label match bit
      by (auto simp: descend_def require_ordinary_def Let_def res_simps split: option.splits if_splits)
    show "consumed' + remaining' = 8 * length key"
      if "the (descend T node key remaining consumed) = Inr (Node next, remaining', consumed')" for "next" remaining' consumed'
      using that label(1) key
      by (auto simp: descend_def require_ordinary_def Let_def res_simps split: option.splits if_splits)
  qed
qed

lemma dict_loop_returns:
  assumes T: "parser_ok T"
  shows "consumed + remaining = 8 * length key \<Longrightarrow> \<exists>r. dict_loop T key node remaining consumed = Some r \<and> r \<noteq> Inl TonPanic"
proof (induction remaining arbitrary: node consumed rule: less_induct)
  case (less remaining)
  obtain r where r: "descend T node key remaining consumed = Some r" "r \<noteq> Inl TonPanic"
    "\<And>next remaining' consumed'. r = Inr (Node next, remaining', consumed') \<Longrightarrow> consumed' + remaining' = 8 * length key"
    by (rule descend_returns [OF T less.prems]) blast
  show ?case
  proof (cases "\<exists>next remaining' consumed'. r = Inr (Node next, remaining', consumed')")
    case True
    then obtain "next" remaining' consumed' where n: "r = Inr (Node next, remaining', consumed')" by blast
    have "remaining' < remaining" using r(1) n descend_remaining by simp
    from less.IH [OF this r(3) [OF n], of "next"] r(1) n show ?thesis by (subst dict_loop.simps) auto
  next
    case False
    with r(1,2) show ?thesis by (subst dict_loop.simps) (auto split: sum.splits descent.splits)
  qed
qed

lemma dict256_returns:
  assumes T: "parser_ok T" and key: "length key = 32"
  shows "\<exists>r. dict256_get_ref T root key = Some r \<and> r \<noteq> Inl TonPanic"
proof -
  have k: "0 + DICT_KEY_BITS = 8 * length key" using key by (simp add: DICT_KEY_BITS_def)
  show ?thesis using dict_loop_returns [OF T k, of root] by (auto simp: dict256_get_ref_def require_ordinary_def)
qed

lemma dict256_finds:
  assumes T: "parser_ok T" and key: "length key = 32" and dict: "is_dict256 bindings root"
  shows "dict256_get_ref T root key = Some (Inr (map_of bindings (key_bits key)))"
proof (cases "tc_bits root = []")
  case True
  with dict dict_of_shape [of DICT_KEY_BITS bindings root] show ?thesis
    by (auto simp: is_dict256_def dict256_get_ref_def require_ordinary_def)
next
  case False
  have k: "0 + DICT_KEY_BITS = 8 * length key" using key by (simp add: DICT_KEY_BITS_def)
  from False dict have d: "dict_of DICT_KEY_BITS bindings root" by (auto simp: is_dict256_def)
  with False dict_of_shape [OF d] dict_of_lookup [OF T d k] show ?thesis
    by (auto simp: dict256_get_ref_def require_ordinary_def)
qed

text \<open>
  C27: dictionary lookup is exact. Over any cell library with the documented parser, a lookup of a 32-byte key
  returns, on every cell whatever its bits and references, and never panics; on a cell that holds a dictionary, in whatever
  mix of the three label encodings, it returns what the dictionary binds to the key, and nothing when it
  binds nothing.
\<close>

theorem dict_lookup_exact:
  assumes T: "parser_ok T" and key: "length key = 32"
  shows "(\<exists>r. dict256_get_ref T root key = Some r \<and> r \<noteq> Inl TonPanic) \<and>
    (is_dict256 bindings root \<longrightarrow> dict256_get_ref T root key = Some (Inr (map_of bindings (key_bits key))))"
  using dict256_returns [OF assms] dict256_finds [OF assms] by blast

text \<open>The keys of 32 bytes zero and of 32 bytes 255, behind a fork at the root.\<close>

definition sample_dict :: "ton_cell \<Rightarrow> ton_cell \<Rightarrow> ton_cell" where
  "sample_dict zero one =
     TonCell [False, False]
       [TonCell (True # True # False # num_bits 8 255) [zero] False 0,
        TonCell (True # True # True # num_bits 8 255) [one] False 0] False 0"

lemma sample_dict_of: "is_dict256 [(False # replicate 255 False, zero), (True # replicate 255 True, one)] (sample_dict zero one)"
proof -
  have n: "bit_length 255 = 8" by (simp add: bit_length.simps)
  have run: "dict_of 255 [(replicate 255 b, c)] (TonCell ((True # True # b # num_bits 8 255) @ []) (c # []) False 0)" for b c
    using dict_of.leaf [of 255 "replicate 255 b" "True # True # b # num_bits 8 255" c "[]" "[]"] n by (auto simp: label_code_def)
  have "label_code 256 [] [False, False]" by (simp add: label_code_def)
  from dict_of.fork [OF this, of 255 _ _ _ _ "[]" "[]", OF _ run [of False zero] run [of True one]]
  show ?thesis by (simp add: is_dict256_def sample_dict_def DICT_KEY_BITS_def under_def)
qed

lemma key_bits_replicate: "key_bits (replicate n 0) = replicate (8 * n) False" "key_bits (replicate n 255) = replicate (8 * n) True"
proof -
  show "key_bits (replicate n 0) = replicate (8 * n) False" by (auto simp: key_bits_def intro!: nth_equalityI)
  have "(255 :: byte) = - 1" by simp
  then have ones: "bit (255 :: byte) (7 - i mod 8)" for i by (simp only: bit_minus_1_iff) simp
  have "bit (replicate n (255 :: byte) ! (i div 8)) (7 - i mod 8)" if "i < 8 * n" for i
  proof -
    have "i div 8 < n" using that by simp
    then show ?thesis using ones by (simp only: nth_replicate)
  qed
  then have "key_bits (replicate n 255) = map (\<lambda>_. True) [0..<8 * n]" unfolding key_bits_def length_replicate by (intro map_cong) auto
  then show "key_bits (replicate n 255) = replicate (8 * n) True" by (simp only: map_replicate_const length_upt) simp
qed

theorem dict_lookup_exact_witness:
  "dict256_get_ref ref_ton_core (sample_dict sample_leaf sample_root) (replicate 32 255) = Some (Inr (Some sample_root))"
proof -
  have "8 * 32 = Suc 255" by simp
  with key_bits_replicate(2) [of 32] have key: "key_bits (replicate 32 255) = True # replicate 255 True" by (simp only: replicate_Suc)
  have "map_of [(False # replicate 255 False, sample_leaf), (True # replicate 255 True, sample_root)] (True # replicate 255 True) = Some sample_root"
    by simp
  with dict_lookup_exact [OF ref_parser_ok, of "replicate 32 255" "sample_dict sample_leaf sample_root"
      "[(False # replicate 255 False, sample_leaf), (True # replicate 255 True, sample_root)]"] sample_dict_of
  show ?thesis unfolding key by (metis length_replicate)
qed

end
