(* ===== verification/Ton_Class.thy ===== *)
theory Ton_Class
  imports Ton_Cells
begin

text \<open>
  The class encoding of the TON contracts, \<^verbatim>\<open>ton/cl_declare.rs\<close>: a cell with a name, a table that says where each field
  is, the numbers of the first data cell and further data cells as references. \<open>cl_declare\<close> writes it, the other
  operations read one field of it.
\<close>

section \<open>Encoding\<close>

definition T_UINT8 :: nat where "T_UINT8 = 3"
definition T_UINT16 :: nat where "T_UINT16 = 4"
definition T_UINT32 :: nat where "T_UINT32 = 5"
definition T_UINT64 :: nat where "T_UINT64 = 6"
definition T_UINT256 :: nat where "T_UINT256 = 8"
definition T_REF :: nat where "T_REF = 9"
definition NAME_WIDTH :: nat where "NAME_WIDTH = 80"
definition FIELD_TYPE_WIDTH :: nat where "FIELD_TYPE_WIDTH = 4"
definition CELL_ID_WIDTH :: nat where "CELL_ID_WIDTH = 2"
definition DATA_OFFSET_WIDTH :: nat where "DATA_OFFSET_WIDTH = 10"
definition REF_OFFSET_WIDTH :: nat where "REF_OFFSET_WIDTH = 2"
definition FIELD_INFO_WIDTH :: nat where
  "FIELD_INFO_WIDTH = FIELD_TYPE_WIDTH + CELL_ID_WIDTH + DATA_OFFSET_WIDTH + REF_OFFSET_WIDTH"
definition MAX_CLASS_FIELDS :: nat where "MAX_CLASS_FIELDS = 15"
definition BASIC_HEADER_WIDTH :: nat where "BASIC_HEADER_WIDTH = NAME_WIDTH"
definition HEADER_WIDTH :: nat where "HEADER_WIDTH = BASIC_HEADER_WIDTH + MAX_CLASS_FIELDS * FIELD_INFO_WIDTH"

lemmas cl_widths = T_UINT8_def T_UINT16_def T_UINT32_def T_UINT64_def T_UINT256_def T_REF_def NAME_WIDTH_def
  FIELD_TYPE_WIDTH_def CELL_ID_WIDTH_def DATA_OFFSET_WIDTH_def REF_OFFSET_WIDTH_def FIELD_INFO_WIDTH_def
  MAX_CLASS_FIELDS_def BASIC_HEADER_WIDTH_def HEADER_WIDTH_def MAX_CELL_BITS_def MAX_CELL_REFS_def

datatype cl_field = ClNum nat nat | ClRef ton_cell

definition cl_u256_be :: "nat \<Rightarrow> bytes \<Rightarrow> cl_field" where
  "cl_u256_be type_code be = ClNum type_code (be_decode be)"

definition type_width :: "nat \<Rightarrow> nat" where
  "type_width type_code = (if type_code \<le> T_UINT256 then 2 ^ type_code else 0)"

definition ascii_name :: "string \<Rightarrow> nat" where
  "ascii_name name = be_decode (string_bytes name)"

definition write_uint :: "ton_core \<Rightarrow> nat \<Rightarrow> nat \<Rightarrow> cell_builder \<Rightarrow> ton_fault + cell_builder" where
  "write_uint T v bits b = core_call (core_write_num T v bits b)"

text \<open>The local variables of the loop over the fields.\<close>

record class_state =
  cls_cells :: "cell_builder option list"
  cls_header :: cell_builder
  cls_data_cell :: nat
  cls_ref_cell :: nat
  cls_max_refs :: nat
  cls_data_offset :: nat
  cls_ref_offset :: nat

fun field_bits :: "cl_field \<Rightarrow> nat" where
  "field_bits (ClNum type_code v) = type_width type_code"
| "field_bits (ClRef c) = 0"

fun field_type :: "cl_field \<Rightarrow> nat" where
  "field_type (ClNum type_code v) = type_code"
| "field_type (ClRef c) = T_REF"

definition extend_cells :: "nat \<Rightarrow> cell_builder option list \<Rightarrow> cell_builder option list" where
  "extend_cells i cells = (if length cells \<le> i then cells @ [Some new_builder] else cells)"

definition next_data_cell :: "nat \<Rightarrow> class_state \<Rightarrow> class_state" where
  "next_data_cell bits st =
     (if MAX_CELL_BITS < cls_data_offset st + bits
      then st\<lparr>cls_data_cell := cls_data_cell st + 1, cls_data_offset := 0,
              cls_cells := extend_cells (cls_data_cell st + 1) (cls_cells st)\<rparr>
      else st)"

definition next_ref_cell :: "nat \<Rightarrow> class_state \<Rightarrow> class_state" where
  "next_ref_cell bits st =
     (if bits = 0 \<and> cls_max_refs st < cls_ref_offset st + 1
      then st\<lparr>cls_ref_cell := cls_ref_cell st + 1, cls_ref_offset := 0, cls_max_refs := MAX_CELL_REFS,
              cls_cells := extend_cells (cls_ref_cell st + 1) (cls_cells st)\<rparr>
      else st)"

text \<open>The cell a field goes to; an index out of range and an absent cell both panic.\<close>

definition cell_at :: "cell_builder option list \<Rightarrow> nat \<Rightarrow> ton_fault + cell_builder" where
  "cell_at cells i = ok_or TonPanic (if i < length cells then cells ! i else None)"

fun write_field :: "ton_core \<Rightarrow> cl_field \<Rightarrow> class_state \<Rightarrow> ton_fault + class_state" where
  "write_field T (ClNum type_code v) st =
     and_then (cell_at (cls_cells st) (cls_data_cell st)) (\<lambda>b.
     and_then (write_uint T v (type_width type_code) b) (\<lambda>b.
       Inr (st\<lparr>cls_cells := (cls_cells st)[cls_data_cell st := Some b]\<rparr>)))"
| "write_field T (ClRef c) st =
     and_then (cell_at (cls_cells st) (cls_ref_cell st)) (\<lambda>b.
     and_then (core_call (core_write_ref T c b)) (\<lambda>b.
       Inr (st\<lparr>cls_cells := (cls_cells st)[cls_ref_cell st := Some b]\<rparr>)))"

definition cell_id :: "nat \<Rightarrow> nat" where
  "cell_id i = (if i = 1 then 0 else i)"

definition write_info :: "ton_core \<Rightarrow> nat \<Rightarrow> nat \<Rightarrow> nat \<Rightarrow> nat \<Rightarrow> cell_builder \<Rightarrow> ton_fault + cell_builder" where
  "write_info T type i data_offset ref_offset header =
     and_then (write_uint T type FIELD_TYPE_WIDTH header) (\<lambda>header.
     and_then (write_uint T (cell_id i) CELL_ID_WIDTH header) (\<lambda>header.
     and_then (write_uint T data_offset DATA_OFFSET_WIDTH header) (\<lambda>header.
       write_uint T ref_offset REF_OFFSET_WIDTH header)))"

definition cl_step :: "ton_core \<Rightarrow> cl_field \<Rightarrow> class_state \<Rightarrow> ton_fault + class_state" where
  "cl_step T field st =
     (let bits = field_bits field in
      and_then (write_field T field (next_ref_cell bits (next_data_cell bits st))) (\<lambda>st.
      if 0 < bits
      then map_ok (\<lambda>header. st\<lparr>cls_header := header, cls_data_offset := cls_data_offset st + bits\<rparr>)
             (write_info T (field_type field) (cls_data_cell st) (cls_data_offset st) 3 (cls_header st))
      else map_ok (\<lambda>header. st\<lparr>cls_header := header, cls_ref_offset := cls_ref_offset st + 1\<rparr>)
             (write_info T (field_type field) (cls_ref_cell st) MAX_CELL_BITS (cls_ref_offset st) (cls_header st))))"

fun cl_steps :: "ton_core \<Rightarrow> cl_field list \<Rightarrow> class_state \<Rightarrow> ton_fault + class_state" where
  "cl_steps T [] st = Inr st"
| "cl_steps T (field # rest) st = and_then (cl_step T field st) (cl_steps T rest)"

text \<open>
  Empty references until the root has two. Each round adds one, so two rounds are enough, which is the bound given by
  \<open>cl_declare\<close>.
\<close>

fun pad_root :: "ton_core \<Rightarrow> nat \<Rightarrow> cell_builder \<Rightarrow> ton_fault + cell_builder" where
  "pad_root T 0 root = Inr root"
| "pad_root T (Suc rounds) root =
     (if length (cb_refs root) < 2
      then and_then (core_call (core_write_ref T (TonCell [] [] False 0) root)) (pad_root T rounds)
      else Inr root)"

fun write_ones :: "ton_core \<Rightarrow> nat \<Rightarrow> cell_builder \<Rightarrow> ton_fault + cell_builder" where
  "write_ones T 0 header = Inr header"
| "write_ones T (Suc n) header = and_then (core_call (core_write_bit T True header)) (write_ones T n)"

fun write_extras :: "ton_core \<Rightarrow> cell_builder option list \<Rightarrow> cell_builder \<Rightarrow> ton_fault + cell_builder" where
  "write_extras T [] header = Inr header"
| "write_extras T (extra # extras) header =
     and_then (ok_or TonPanic extra) (\<lambda>b.
     and_then (ton_build T b) (\<lambda>c.
     and_then (core_call (core_write_ref T c header)) (write_extras T extras)))"

definition class_start :: "cell_builder \<Rightarrow> class_state" where
  "class_start header =
     \<lparr>cls_cells = [None, Some new_builder], cls_header = header, cls_data_cell = 1, cls_ref_cell = 1,
      cls_max_refs = 2, cls_data_offset = HEADER_WIDTH, cls_ref_offset = 0\<rparr>"

definition cl_finish :: "ton_core \<Rightarrow> class_state \<Rightarrow> ton_fault + ton_cell" where
  "cl_finish T st =
     and_then (cell_at (cls_cells st) 1) (\<lambda>root.
     and_then (if 1 < length (cls_cells st) - 1 then pad_root T 2 root else Inr root) (\<lambda>root.
     and_then (write_ones T (HEADER_WIDTH - length (cb_bits (cls_header st))) (cls_header st)) (\<lambda>header.
     and_then (ton_build T root) (\<lambda>root_cell.
     and_then (core_call (core_write_cell T root_cell header)) (\<lambda>header.
     and_then (write_extras T (drop 2 (cls_cells st)) header) (\<lambda>header.
       ton_build T header))))))"

definition cl_declare :: "ton_core \<Rightarrow> string \<Rightarrow> cl_field list \<Rightarrow> ton_fault + ton_cell" where
  "cl_declare T name class_fields =
     (if MAX_CLASS_FIELDS < length class_fields then Inl (TonError (Internal ''INVALID_CLASS''))
      else
        and_then (write_uint T (ascii_name name) NAME_WIDTH new_builder) (\<lambda>header.
        and_then (cl_steps T class_fields (class_start header)) (cl_finish T)))"

section \<open>Decoding\<close>

definition field_info :: "ton_core \<Rightarrow> ton_cell \<Rightarrow> nat \<Rightarrow> ton_fault + nat \<times> nat \<times> nat" where
  "field_info T cell field_index =
     and_then (lift_err (require_ordinary cell)) (\<lambda>_.
     and_then (core_call (core_read_bits T (BASIC_HEADER_WIDTH + field_index * FIELD_INFO_WIDTH + FIELD_TYPE_WIDTH) (cell_parser_of cell))) (\<lambda>(_, parser).
     and_then (core_call (core_read_num T CELL_ID_WIDTH parser)) (\<lambda>(cell_index, parser).
     and_then (core_call (core_read_num T DATA_OFFSET_WIDTH parser)) (\<lambda>(offset, parser).
     and_then (core_call (core_read_num T REF_OFFSET_WIDTH parser)) (\<lambda>(ref_idx, parser).
       Inr (cell_index, offset, ref_idx))))))"

fun skip_refs :: "ton_core \<Rightarrow> nat \<Rightarrow> cell_parser \<Rightarrow> ton_fault + cell_parser" where
  "skip_refs T 0 parser = Inr parser"
| "skip_refs T (Suc n) parser = and_then (core_call (core_read_next_ref T parser)) (\<lambda>(_, parser). skip_refs T n parser)"

definition read_ref_at :: "ton_core \<Rightarrow> nat \<Rightarrow> ton_cell \<Rightarrow> ton_fault + ton_cell" where
  "read_ref_at T i cell =
     and_then (skip_refs T i (cell_parser_of cell)) (\<lambda>parser. map_ok fst (core_call (core_read_next_ref T parser)))"

definition read_num_at :: "ton_core \<Rightarrow> nat \<Rightarrow> nat \<Rightarrow> ton_cell \<Rightarrow> ton_fault + nat" where
  "read_num_at T offset width cell =
     and_then (core_call (core_read_bits T offset (cell_parser_of cell))) (\<lambda>(_, parser).
       map_ok fst (core_call (core_read_num T width parser)))"

text \<open>\<open>BigUint::to_bytes_be\<close>: without leading zeros, one zero byte for zero.\<close>

definition to_bytes_be :: "nat \<Rightarrow> bytes" where
  "to_bytes_be v = be_encode (byte_width v) v"

definition cl_get_uint_be :: "ton_core \<Rightarrow> ton_cell \<Rightarrow> nat \<Rightarrow> nat \<Rightarrow> ton_fault + bytes" where
  "cl_get_uint_be T cell field_index width =
     and_then (field_info T cell field_index) (\<lambda>(cell_index, offset, _).
     and_then (if cell_index = 0 then read_num_at T offset width cell
       else and_then (read_ref_at T cell_index cell) (\<lambda>target.
            and_then (lift_err (require_ordinary target)) (\<lambda>_. read_num_at T offset width target))) (\<lambda>v.
       Inr (replicate ((width + 7) div 8 - length (to_bytes_be v)) 0 @ to_bytes_be v)))"

definition utf8_tail :: "byte \<Rightarrow> bool" where
  "utf8_tail b \<longleftrightarrow> 0x80 \<le> b \<and> b \<le> 0xBF"

definition utf8_second3 :: "byte \<Rightarrow> byte \<Rightarrow> bool" where
  "utf8_second3 b c \<longleftrightarrow> utf8_tail c \<and> (b = 0xE0 \<longrightarrow> 0xA0 \<le> c) \<and> (b = 0xED \<longrightarrow> c \<le> 0x9F)"

definition utf8_second4 :: "byte \<Rightarrow> byte \<Rightarrow> bool" where
  "utf8_second4 b c \<longleftrightarrow> utf8_tail c \<and> (b = 0xF0 \<longrightarrow> 0x90 \<le> c) \<and> (b = 0xF4 \<longrightarrow> c \<le> 0x8F)"

text \<open>
  The validation of \<open>String::from_utf8\<close>: where the first bad sequence starts and how long it is, if it
  is not just cut off.
\<close>

fun utf8_error :: "nat \<Rightarrow> bytes \<Rightarrow> (nat \<times> nat option) option" where
  "utf8_error i [] = None"
| "utf8_error i (b # bs) =
     (if b < 0x80 then utf8_error (i + 1) bs
      else if 0xC2 \<le> b \<and> b \<le> 0xDF then
        (case bs of [] \<Rightarrow> Some (i, None)
         | c # cs \<Rightarrow> if utf8_tail c then utf8_error (i + 2) cs else Some (i, Some 1))
      else if 0xE0 \<le> b \<and> b \<le> 0xEF then
        (case bs of [] \<Rightarrow> Some (i, None)
         | c # cs \<Rightarrow> if \<not> utf8_second3 b c then Some (i, Some 1)
             else (case cs of [] \<Rightarrow> Some (i, None)
                   | d # ds \<Rightarrow> if utf8_tail d then utf8_error (i + 3) ds else Some (i, Some 2)))
      else if 0xF0 \<le> b \<and> b \<le> 0xF4 then
        (case bs of [] \<Rightarrow> Some (i, None)
         | c # cs \<Rightarrow> if \<not> utf8_second4 b c then Some (i, Some 1)
             else (case cs of [] \<Rightarrow> Some (i, None)
                   | d # ds \<Rightarrow> if \<not> utf8_tail d then Some (i, Some 2)
                       else (case ds of [] \<Rightarrow> Some (i, None)
                             | e # es \<Rightarrow> if utf8_tail e then utf8_error (i + 4) es else Some (i, Some 3))))
      else Some (i, Some 1))"

definition from_utf8 :: "bytes \<Rightarrow> string + string" where
  "from_utf8 bs =
     (case utf8_error 0 bs of
        None \<Rightarrow> Inr (map (\<lambda>b. char_of (unat b)) bs)
      | Some (i, Some n) \<Rightarrow> Inl (''invalid utf-8 sequence of '' @ show_nat n @ '' bytes from index '' @ show_nat i)
      | Some (i, None) \<Rightarrow> Inl (''incomplete utf-8 byte sequence from index '' @ show_nat i))"

definition cell_name :: "ton_core \<Rightarrow> ton_cell \<Rightarrow> ton_fault + string" where
  "cell_name T cell =
     and_then (lift_err (require_ordinary cell)) (\<lambda>_.
     and_then (core_call (core_read_num T NAME_WIDTH (cell_parser_of cell))) (\<lambda>(v, _).
       map_err (\<lambda>e. TonError (Internal (''TON cell name not ASCII: '' @ e))) (from_utf8 (to_bytes_be v))))"

definition cl_get_ref :: "ton_core \<Rightarrow> ton_cell \<Rightarrow> nat \<Rightarrow> ton_fault + ton_cell" where
  "cl_get_ref T cell field_index =
     and_then (field_info T cell field_index) (\<lambda>(cell_index, _, ref_idx).
     if cell_index = 0 then read_ref_at T ref_idx cell
     else and_then (read_ref_at T cell_index cell) (\<lambda>nested.
          and_then (lift_err (require_ordinary nested)) (\<lambda>_. read_ref_at T ref_idx nested)))"

section \<open>Writing a field\<close>

lemma builder_okD:
  assumes "builder_ok T"
  shows "yields (length (cb_bits b) < MAX_CELL_BITS) (b\<lparr>cb_bits := cb_bits b @ [x]\<rparr>) (core_write_bit T x b)"
    and "0 < n \<Longrightarrow> yields (v < 2 ^ n \<and> length (cb_bits b) + n \<le> MAX_CELL_BITS) (b\<lparr>cb_bits := cb_bits b @ num_bits n v\<rparr>) (core_write_num T v n b)"
    and "yields (length (cb_refs b) < MAX_CELL_REFS) (b\<lparr>cb_refs := cb_refs b @ [c]\<rparr>) (core_write_ref T c b)"
    and "yields (length (cb_bits b) + length (tc_bits c) \<le> MAX_CELL_BITS \<and> length (cb_refs b) + length (tc_refs c) \<le> MAX_CELL_REFS)
        (b\<lparr>cb_bits := cb_bits b @ tc_bits c, cb_refs := cb_refs b @ tc_refs c\<rparr>) (core_write_cell T c b)"
    and "core_build T b = Inr c \<Longrightarrow> tc_bits c = cb_bits b \<and> tc_refs c = cb_refs b \<and> \<not> tc_exotic c \<and>
        ((\<forall>r \<in> set (cb_refs b). tc_level r = 0) \<longrightarrow> tc_level c = 0)"
    and "yields (length (cb_bits b) + length xs \<le> MAX_CELL_BITS) (b\<lparr>cb_bits := cb_bits b @ xs\<rparr>) (core_write_bits T xs b)"
  using assms unfolding builder_ok_def by blast+

lemma write_uint_eq:
  assumes "builder_ok T" "0 < n"
  shows "write_uint T v n b = Inr b' \<longleftrightarrow> v < 2 ^ n \<and> length (cb_bits b) + n \<le> MAX_CELL_BITS \<and> b' = b\<lparr>cb_bits := cb_bits b @ num_bits n v\<rparr>"
  using builder_okD(2) [OF assms, of v b] by (auto simp: write_uint_def yields_def split: if_splits)

lemma write_ref_eq:
  assumes "builder_ok T"
  shows "core_call (core_write_ref T c b) = Inr b' \<longleftrightarrow> length (cb_refs b) < MAX_CELL_REFS \<and> b' = b\<lparr>cb_refs := cb_refs b @ [c]\<rparr>"
  using builder_okD(3) [OF assms, of b c] by (auto simp: yields_def split: if_splits)

text \<open>An entry of the table: type, cell, offset of the data and of the reference.\<close>

type_synonym info = "nat \<times> nat \<times> nat \<times> nat"

fun info_bits :: "info \<Rightarrow> bool list" where
  "info_bits (ty, i, off, ref) = num_bits 4 ty @ num_bits 2 (cell_id i) @ num_bits 10 off @ num_bits 2 ref"

fun info_ok :: "info \<Rightarrow> bool" where
  "info_ok (ty, i, off, ref) \<longleftrightarrow> ty < 16 \<and> cell_id i < 4 \<and> off < 1024 \<and> ref < 4"

lemma length_info_bits [simp]: "length (info_bits info) = 18"
  by (cases info) simp

lemma write_info_eq:
  assumes "builder_ok T"
  shows "write_info T ty i off ref header = Inr header' \<longleftrightarrow>
    info_ok (ty, i, off, ref) \<and> length (cb_bits header) + 18 \<le> MAX_CELL_BITS \<and> header' = header\<lparr>cb_bits := cb_bits header @ info_bits (ty, i, off, ref)\<rparr>"
  by (auto simp: write_info_def cl_widths res_simps write_uint_eq [OF assms])

text \<open>Where the bits of a cell start, counted from its offset zero, and how many references a cell takes.\<close>

definition bits_base :: "nat \<Rightarrow> nat" where "bits_base i = (if i = 1 then HEADER_WIDTH else 0)"
definition refs_cap :: "nat \<Rightarrow> nat" where "refs_cap i = (if i = 1 then 2 else MAX_CELL_REFS)"

text \<open>The field is where its entry says.\<close>

fun located :: "cell_builder option list \<Rightarrow> cl_field \<Rightarrow> info \<Rightarrow> bool" where
  "located cells (ClNum type v) (ty, i, off, ref) \<longleftrightarrow>
     1 \<le> i \<and> i < length cells \<and>
     (\<exists>b pre post. cells ! i = Some b \<and> cb_bits b = pre @ num_bits (type_width type) v @ post \<and> off = bits_base i + length pre)"
| "located cells (ClRef c) (ty, i, off, ref) \<longleftrightarrow>
     1 \<le> i \<and> i < length cells \<and> (\<exists>b pre post. cells ! i = Some b \<and> cb_refs b = pre @ c # post \<and> ref = length pre)"

definition grown :: "cell_builder option list \<Rightarrow> cell_builder option list \<Rightarrow> bool" where
  "grown cells cells' \<longleftrightarrow> length cells \<le> length cells' \<and>
     (\<forall>i b. i < length cells \<longrightarrow> cells ! i = Some b \<longrightarrow>
        (\<exists>b' xs ys. cells' ! i = Some b' \<and> cb_bits b' = cb_bits b @ xs \<and> cb_refs b' = cb_refs b @ ys))"

lemma grown_refl [simp]: "grown cells cells"
  by (auto simp: grown_def)

lemma grownD:
  assumes "grown cells cells'" "i < length cells" "cells ! i = Some b"
  obtains b' xs ys where "cells' ! i = Some b'" "cb_bits b' = cb_bits b @ xs" "cb_refs b' = cb_refs b @ ys"
  using assms unfolding grown_def by blast

lemma grown_trans:
  assumes ab: "grown a b" and bc: "grown b c"
  shows "grown a c"
proof -
  have len: "length a \<le> length b" "length b \<le> length c" using assms by (auto simp: grown_def)
  have "\<exists>b' xs ys. c ! i = Some b' \<and> cb_bits b' = cb_bits d @ xs \<and> cb_refs b' = cb_refs d @ ys"
    if d: "i < length a" "a ! i = Some d" for i d
  proof -
    obtain e xs ys where e: "b ! i = Some e" "cb_bits e = cb_bits d @ xs" "cb_refs e = cb_refs d @ ys"
      by (rule grownD [OF ab d])
    have "i < length b" using len d by simp
    then show ?thesis by (rule grownD [OF bc _ e(1)]) (simp add: e)
  qed
  with len show ?thesis unfolding grown_def by (meson le_trans)
qed

lemma located_grown: "grown cells cells' \<Longrightarrow> located cells field info \<Longrightarrow> located cells' field info"
proof (cases info)
  case (fields ty i off ref)
  assume g: "grown cells cells'" and l: "located cells field info"
  have grow: "\<exists>b' xs ys. cells' ! i = Some b' \<and> cb_bits b' = cb_bits b @ xs \<and> cb_refs b' = cb_refs b @ ys"
    if "i < length cells" "cells ! i = Some b" for b
    using g that by (auto simp: grown_def)
  have len: "length cells \<le> length cells'" using g by (simp add: grown_def)
  show ?thesis
  proof (cases field)
    case (ClNum ty' v)
    with l fields obtain b pre post where b: "1 \<le> i" "i < length cells" "cells ! i = Some b"
      "cb_bits b = pre @ num_bits (type_width ty') v @ post" "off = bits_base i + length pre" by auto
    with grow [OF b(2,3)] len ClNum fields show ?thesis by fastforce
  next
    case (ClRef c)
    with l fields obtain b pre post where b: "1 \<le> i" "i < length cells" "cells ! i = Some b"
      "cb_refs b = pre @ c # post" "ref = length pre" by auto
    with grow [OF b(2,3)] len ClRef fields show ?thesis by fastforce
  qed
qed

text \<open>The data cells: cells past the current ones are empty, and the offsets are the ends of the current ones.\<close>

definition cell_shape :: "class_state \<Rightarrow> nat \<Rightarrow> cell_builder \<Rightarrow> bool" where
  "cell_shape st i b \<longleftrightarrow>
     bits_base i + length (cb_bits b) \<le> MAX_CELL_BITS \<and> length (cb_refs b) \<le> refs_cap i \<and> (\<forall>c \<in> set (cb_refs b). tc_level c = 0) \<and>
     (cls_data_cell st < i \<longrightarrow> cb_bits b = []) \<and> (cls_ref_cell st < i \<longrightarrow> cb_refs b = []) \<and>
     (cls_data_cell st = i \<longrightarrow> cls_data_offset st = bits_base i + length (cb_bits b)) \<and>
     (cls_ref_cell st = i \<longrightarrow> cls_ref_offset st = length (cb_refs b))"

definition class_shape :: "class_state \<Rightarrow> bool" where
  "class_shape st \<longleftrightarrow>
     1 \<le> cls_data_cell st \<and> cls_data_cell st < length (cls_cells st) \<and> 1 \<le> cls_ref_cell st \<and> cls_ref_cell st < length (cls_cells st) \<and>
     cls_max_refs st = refs_cap (cls_ref_cell st) \<and>
     (\<forall>i. 1 \<le> i \<longrightarrow> i < length (cls_cells st) \<longrightarrow> (\<exists>b. cls_cells st ! i = Some b \<and> cell_shape st i b))"

lemma shape_cell: "class_shape st \<Longrightarrow> 1 \<le> i \<Longrightarrow> i < length (cls_cells st) \<Longrightarrow> \<exists>b. cls_cells st ! i = Some b \<and> cell_shape st i b"
  by (simp add: class_shape_def)

lemma shape_extra:
  assumes s: "class_shape st" and "extra \<in> set (drop 2 (cls_cells st))"
  shows "\<exists>b. extra = Some b \<and> (\<forall>r \<in> set (cb_refs b). tc_level r = 0)"
proof -
  from assms(2) obtain i where "i < length (drop 2 (cls_cells st))" "drop 2 (cls_cells st) ! i = extra" by (meson in_set_conv_nth)
  then have "2 + i < length (cls_cells st)" "cls_cells st ! (2 + i) = extra" by auto
  with shape_cell [OF s, of "2 + i"] show ?thesis by (auto simp: cell_shape_def)
qed

lemma extend_grown: "grown cells (extend_cells i cells)"
  by (auto simp: grown_def extend_cells_def nth_append)

lemma extend_nth:
  "i < length (extend_cells k cells) \<Longrightarrow> i < length cells \<and> extend_cells k cells ! i = cells ! i \<or> i = length cells \<and> extend_cells k cells ! i = Some new_builder"
  by (auto simp: extend_cells_def nth_append split: if_splits)

lemma extend_length: "k \<le> length cells \<Longrightarrow> k < length (extend_cells k cells)" "length cells \<le> length (extend_cells k cells)"
  by (auto simp: extend_cells_def)

lemma next_data_shape:
  assumes s: "class_shape st"
  shows "class_shape (next_data_cell bits st)" "grown (cls_cells st) (cls_cells (next_data_cell bits st))"
    "cls_header (next_data_cell bits st) = cls_header st"
    "bits \<le> 256 \<Longrightarrow> cls_data_offset (next_data_cell bits st) + bits \<le> MAX_CELL_BITS"
proof -
  show "grown (cls_cells st) (cls_cells (next_data_cell bits st))" "cls_header (next_data_cell bits st) = cls_header st"
    by (auto simp: next_data_cell_def extend_grown)
  show "bits \<le> 256 \<Longrightarrow> cls_data_offset (next_data_cell bits st) + bits \<le> MAX_CELL_BITS"
    by (auto simp: next_data_cell_def cl_widths)
  show "class_shape (next_data_cell bits st)"
  proof (cases "MAX_CELL_BITS < cls_data_offset st + bits")
    case True
    let ?st = "next_data_cell bits st" and ?k = "cls_data_cell st + 1"
    have eq: "?st = st\<lparr>cls_data_cell := ?k, cls_data_offset := 0, cls_cells := extend_cells ?k (cls_cells st)\<rparr>"
      using True by (simp add: next_data_cell_def)
    have bounds: "1 \<le> cls_data_cell st" "cls_data_cell st < length (cls_cells st)" using s by (auto simp: class_shape_def)
    show ?thesis
      unfolding class_shape_def
    proof (intro conjI allI impI)
      fix i
      assume i: "1 \<le> i" "i < length (cls_cells ?st)"
      show "\<exists>b. cls_cells ?st ! i = Some b \<and> cell_shape ?st i b"
      proof (cases "i < length (cls_cells st)")
        case True
        from shape_cell [OF s i(1) True] obtain b where b: "cls_cells st ! i = Some b" "cell_shape st i b" by blast
        have "cls_cells ?st ! i = Some b" using b(1) True eq by (auto simp: extend_cells_def nth_append)
        moreover have "cell_shape ?st i b" using b(2) bounds eq by (auto simp: cell_shape_def bits_base_def)
        ultimately show ?thesis by blast
      next
        case False
        with extend_nth [of i ?k "cls_cells st"] i eq have "i = length (cls_cells st)" "cls_cells ?st ! i = Some new_builder" by auto
        moreover have "cell_shape ?st (length (cls_cells st)) new_builder"
          using bounds s eq by (auto simp: cell_shape_def bits_base_def new_builder_def class_shape_def)
        ultimately show ?thesis by blast
      qed
    qed (use s eq extend_length(1) [of ?k "cls_cells st"] extend_length(2) [of "cls_cells st" ?k] in \<open>auto simp: class_shape_def\<close>)
  qed (use s in \<open>simp add: next_data_cell_def\<close>)
qed

lemma next_ref_shape:
  assumes s: "class_shape st"
  shows "class_shape (next_ref_cell bits st)" "grown (cls_cells st) (cls_cells (next_ref_cell bits st))"
    "cls_header (next_ref_cell bits st) = cls_header st" "cls_data_offset (next_ref_cell bits st) = cls_data_offset st"
    "bits = 0 \<Longrightarrow> cls_ref_offset (next_ref_cell bits st) < refs_cap (cls_ref_cell (next_ref_cell bits st))"
proof -
  have cap: "cls_max_refs st = refs_cap (cls_ref_cell st)" using s by (simp add: class_shape_def)
  show "grown (cls_cells st) (cls_cells (next_ref_cell bits st))" "cls_header (next_ref_cell bits st) = cls_header st"
    "cls_data_offset (next_ref_cell bits st) = cls_data_offset st"
    by (auto simp: next_ref_cell_def extend_grown)
  show "bits = 0 \<Longrightarrow> cls_ref_offset (next_ref_cell bits st) < refs_cap (cls_ref_cell (next_ref_cell bits st))"
    using cap by (auto simp: next_ref_cell_def refs_cap_def cl_widths)
  show "class_shape (next_ref_cell bits st)"
  proof (cases "bits = 0 \<and> cls_max_refs st < cls_ref_offset st + 1")
    case True
    let ?st = "next_ref_cell bits st" and ?k = "cls_ref_cell st + 1"
    have eq: "?st = st\<lparr>cls_ref_cell := ?k, cls_ref_offset := 0, cls_max_refs := MAX_CELL_REFS, cls_cells := extend_cells ?k (cls_cells st)\<rparr>"
      using True by (simp add: next_ref_cell_def)
    have bounds: "1 \<le> cls_ref_cell st" "cls_ref_cell st < length (cls_cells st)" using s by (auto simp: class_shape_def)
    show ?thesis
      unfolding class_shape_def
    proof (intro conjI allI impI)
      fix i
      assume i: "1 \<le> i" "i < length (cls_cells ?st)"
      show "\<exists>b. cls_cells ?st ! i = Some b \<and> cell_shape ?st i b"
      proof (cases "i < length (cls_cells st)")
        case True
        from shape_cell [OF s i(1) True] obtain b where b: "cls_cells st ! i = Some b" "cell_shape st i b" by blast
        have "cls_cells ?st ! i = Some b" using b(1) True eq by (auto simp: extend_cells_def nth_append)
        moreover have "cell_shape ?st i b" using b(2) bounds eq by (auto simp: cell_shape_def)
        ultimately show ?thesis by blast
      next
        case False
        with extend_nth [of i ?k "cls_cells st"] i eq have "i = length (cls_cells st)" "cls_cells ?st ! i = Some new_builder" by auto
        moreover have "cell_shape ?st (length (cls_cells st)) new_builder"
          using bounds s eq by (auto simp: cell_shape_def bits_base_def new_builder_def class_shape_def)
        ultimately show ?thesis by blast
      qed
    qed (use s eq extend_length(1) [of ?k "cls_cells st"] extend_length(2) [of "cls_cells st" ?k] in \<open>auto simp: class_shape_def refs_cap_def\<close>)
  qed (use s in \<open>auto simp: next_ref_cell_def\<close>)
qed

definition field_ok :: "cl_field \<Rightarrow> bool" where
  "field_ok field \<longleftrightarrow> (case field of ClNum type v \<Rightarrow> type \<le> T_UINT256 \<and> v < 2 ^ type_width type | ClRef c \<Rightarrow> tc_level c = 0)"

lemma type_width_bounds: "type \<le> T_UINT256 \<Longrightarrow> 0 < type_width type \<and> type_width type \<le> 256"
  using power_increasing [of "type" 8 "2 :: nat"] by (auto simp: type_width_def T_UINT256_def)

lemma put_grown:
  assumes "cells ! i = Some b" "cb_bits b' = cb_bits b @ xs" "cb_refs b' = cb_refs b @ ys"
  shows "grown cells (cells[i := Some b'])"
proof -
  have "\<exists>d xs ys. cells[i := Some b'] ! k = Some d \<and> cb_bits d = cb_bits c @ xs \<and> cb_refs d = cb_refs c @ ys"
    if "k < length cells" "cells ! k = Some c" for k c
    using assms that by (cases "k = i") auto
  then show ?thesis unfolding grown_def by simp
qed

lemma put_num:
  assumes s: "class_shape st" and b: "cls_cells st ! cls_data_cell st = Some b" and room: "cls_data_offset st + w \<le> MAX_CELL_BITS"
    and w: "w = length xs"
  shows "class_shape (st\<lparr>cls_cells := (cls_cells st)[cls_data_cell st := Some (b\<lparr>cb_bits := cb_bits b @ xs\<rparr>)], cls_header := header,
      cls_data_offset := cls_data_offset st + w\<rparr>)" (is "class_shape ?st")
proof -
  have i: "1 \<le> cls_data_cell st" "cls_data_cell st < length (cls_cells st)" using s by (auto simp: class_shape_def)
  have shape: "\<exists>c. cls_cells ?st ! i = Some c \<and> cell_shape ?st i c" if "1 \<le> i" "i < length (cls_cells ?st)" for i
  proof (cases "i = cls_data_cell st")
    case True
    from shape_cell [OF s i] b have "cell_shape st i b" using True by auto
    with True i room w show ?thesis by (auto simp: cell_shape_def)
  next
    case False
    from that have "i < length (cls_cells st)" by simp
    from shape_cell [OF s that(1) this] False show ?thesis by (auto simp: cell_shape_def)
  qed
  with s show ?thesis by (auto simp: class_shape_def)
qed

lemma put_ref:
  assumes s: "class_shape st" and b: "cls_cells st ! cls_ref_cell st = Some b" and room: "cls_ref_offset st < refs_cap (cls_ref_cell st)"
    and c: "tc_level c = 0"
  shows "class_shape (st\<lparr>cls_cells := (cls_cells st)[cls_ref_cell st := Some (b\<lparr>cb_refs := cb_refs b @ [c]\<rparr>)], cls_header := header,
      cls_ref_offset := Suc (cls_ref_offset st)\<rparr>)" (is "class_shape ?st")
proof -
  have i: "1 \<le> cls_ref_cell st" "cls_ref_cell st < length (cls_cells st)" using s by (auto simp: class_shape_def)
  have shape: "\<exists>c. cls_cells ?st ! i = Some c \<and> cell_shape ?st i c" if "1 \<le> i" "i < length (cls_cells ?st)" for i
  proof (cases "i = cls_ref_cell st")
    case True
    from shape_cell [OF s i] b have "cell_shape st i b" using True by auto
    with True i room c show ?thesis by (auto simp: cell_shape_def)
  next
    case False
    from that have "i < length (cls_cells st)" by simp
    from shape_cell [OF s that(1) this] False show ?thesis by (auto simp: cell_shape_def)
  qed
  with s show ?thesis by (auto simp: class_shape_def)
qed

lemma cell_at_shape:
  assumes "class_shape st" "1 \<le> i" "i < length (cls_cells st)"
  obtains b where "cell_at (cls_cells st) i = Inr b" "cls_cells st ! i = Some b" "cell_shape st i b"
  using shape_cell [OF assms] assms(3) by (auto simp: cell_at_def)

definition stepped :: "class_state \<Rightarrow> cl_field \<Rightarrow> info \<Rightarrow> class_state \<Rightarrow> bool" where
  "stepped st field info st' \<longleftrightarrow>
     class_shape st' \<and> grown (cls_cells st) (cls_cells st') \<and> located (cls_cells st') field info \<and> info_ok info \<and>
     cls_header st' = (cls_header st)\<lparr>cb_bits := cb_bits (cls_header st) @ info_bits info\<rparr>"

lemma cl_step_num:
  assumes T: "builder_ok T" and s: "class_shape st" and ty: "type \<le> T_UINT256" and step: "cl_step T (ClNum type v) st = Inr st'"
  shows "\<exists>info. stepped st (ClNum type v) info st'"
proof -
  let ?w = "type_width type"
  let ?s = "next_ref_cell ?w (next_data_cell ?w st)"
  note w = type_width_bounds [OF ty]
  note d = next_data_shape [OF s, of ?w]
  note r = next_ref_shape [OF d(1), of ?w]
  have i: "1 \<le> cls_data_cell ?s" "cls_data_cell ?s < length (cls_cells ?s)" using r(1) by (auto simp: class_shape_def)
  obtain b where b: "cell_at (cls_cells ?s) (cls_data_cell ?s) = Inr b" "cls_cells ?s ! cls_data_cell ?s = Some b" "cell_shape ?s (cls_data_cell ?s) b"
    by (rule cell_at_shape [OF r(1) i])
  let ?b = "b\<lparr>cb_bits := cb_bits b @ num_bits ?w v\<rparr>" and ?info = "(type, cls_data_cell ?s, cls_data_offset ?s, 3)"
  let ?h = "(cls_header st)\<lparr>cb_bits := cb_bits (cls_header st) @ info_bits ?info\<rparr>"
  have pos: "0 < ?w" using w by simp
  from step pos b(1) have st': "st' = ?s\<lparr>cls_cells := (cls_cells ?s)[cls_data_cell ?s := Some ?b], cls_header := ?h, cls_data_offset := cls_data_offset ?s + ?w\<rparr>"
    and info: "info_ok ?info"
    by (auto simp: cl_step_def Let_def res_simps write_uint_eq [OF T pos] write_info_eq [OF T] d(3) r(3))
  have room: "cls_data_offset ?s + ?w \<le> MAX_CELL_BITS" using d(4) r(4) w by simp
  have g: "grown (cls_cells st) (cls_cells st')"
    unfolding st' using d(2) r(2) put_grown [OF b(2), of ?b "num_bits ?w v" "[]"] by (auto intro: grown_trans)
  have l: "located (cls_cells st') (ClNum type v) ?info"
    unfolding st' located.simps using i b(3)
    by (intro conjI exI [of _ ?b] exI [of _ "cb_bits b"] exI [of _ "[]"]) (auto simp: cell_shape_def)
  have shape: "class_shape st'" unfolding st' using put_num [OF r(1) b(2) room, of "num_bits ?w v" ?h] by simp
  have "cls_header st' = ?h" unfolding st' by simp
  with shape g l info have "stepped st (ClNum type v) ?info st'" unfolding stepped_def by blast
  then show ?thesis by blast
qed

lemma cl_step_ref:
  assumes T: "builder_ok T" and s: "class_shape st" and c: "tc_level c = 0" and step: "cl_step T (ClRef c) st = Inr st'"
  shows "\<exists>info. stepped st (ClRef c) info st'"
proof -
  let ?s = "next_ref_cell 0 (next_data_cell 0 st)"
  note d = next_data_shape [OF s, of 0]
  note r = next_ref_shape [OF d(1), of 0]
  have i: "1 \<le> cls_ref_cell ?s" "cls_ref_cell ?s < length (cls_cells ?s)" using r(1) by (auto simp: class_shape_def)
  obtain b where b: "cell_at (cls_cells ?s) (cls_ref_cell ?s) = Inr b" "cls_cells ?s ! cls_ref_cell ?s = Some b" "cell_shape ?s (cls_ref_cell ?s) b"
    by (rule cell_at_shape [OF r(1) i])
  let ?b = "b\<lparr>cb_refs := cb_refs b @ [c]\<rparr>" and ?info = "(T_REF, cls_ref_cell ?s, MAX_CELL_BITS, cls_ref_offset ?s)"
  let ?h = "(cls_header st)\<lparr>cb_bits := cb_bits (cls_header st) @ info_bits ?info\<rparr>"
  from step b(1) have st': "st' = ?s\<lparr>cls_cells := (cls_cells ?s)[cls_ref_cell ?s := Some ?b], cls_header := ?h, cls_ref_offset := Suc (cls_ref_offset ?s)\<rparr>"
    and info: "info_ok ?info"
    by (auto simp: cl_step_def Let_def write_ref_eq [OF T] write_info_eq [OF T] and_then_eq_Inr map_ok_eq_Inr d(3) r(3))
  have g: "grown (cls_cells st) (cls_cells st')"
    unfolding st' using d(2) r(2) put_grown [OF b(2), of ?b "[]" "[c]"] by (auto intro: grown_trans)
  have l: "located (cls_cells st') (ClRef c) ?info"
    unfolding st' located.simps using i b(3)
    by (intro conjI exI [of _ ?b] exI [of _ "cb_refs b"] exI [of _ "[]"]) (auto simp: cell_shape_def)
  have shape: "class_shape st'" unfolding st' using put_ref [OF r(1) b(2) r(5) c, of ?h] by simp
  have "cls_header st' = ?h" unfolding st' by simp
  with shape g l info have "stepped st (ClRef c) ?info st'" unfolding stepped_def by blast
  then show ?thesis by blast
qed

lemma cl_step_stepped:
  assumes "builder_ok T" "class_shape st" "field_ok field" "cl_step T field st = Inr st'"
  shows "\<exists>info. stepped st field info st'"
  using assms cl_step_num [OF assms(1,2)] cl_step_ref [OF assms(1,2)] by (cases field) (auto simp: field_ok_def simp del: split_paired_Ex)

lemma cl_steps_result:
  assumes T: "builder_ok T"
  shows "class_shape st \<Longrightarrow> list_all field_ok fs \<Longrightarrow> cl_steps T fs st = Inr st' \<Longrightarrow>
    \<exists>infos. class_shape st' \<and> grown (cls_cells st) (cls_cells st') \<and> list_all2 (located (cls_cells st')) fs infos \<and> list_all info_ok infos \<and>
      cls_header st' = (cls_header st)\<lparr>cb_bits := cb_bits (cls_header st) @ concat (map info_bits infos)\<rparr>"
proof (induction fs arbitrary: st)
  case (Cons field fs)
  then obtain mid where mid: "cl_step T field st = Inr mid" "cl_steps T fs mid = Inr st'" by (auto simp: res_simps)
  obtain info where info: "stepped st field info mid" using cl_step_stepped [OF T Cons.prems(1) _ mid(1)] Cons.prems(2) by auto
  from Cons.IH [OF _ _ mid(2)] info Cons.prems(2) obtain infos where infos: "class_shape st'" "grown (cls_cells mid) (cls_cells st')"
    "list_all2 (located (cls_cells st')) fs infos" "list_all info_ok infos"
    "cls_header st' = (cls_header mid)\<lparr>cb_bits := cb_bits (cls_header mid) @ concat (map info_bits infos)\<rparr>"
    by (auto simp: stepped_def)
  with info located_grown [OF infos(2), of field info] grown_trans [OF _ infos(2), of "cls_cells st"] show ?case
    by (intro exI [of _ "info # infos"]) (auto simp: stepped_def)
qed simp

section \<open>The finished cell\<close>

lemma pad_root_result:
  assumes T: "builder_ok T"
  shows "pad_root T n root = Inr root' \<Longrightarrow> length (cb_refs root) \<le> 2 \<Longrightarrow> 2 \<le> length (cb_refs root) + n \<Longrightarrow>
    \<exists>k. root' = root\<lparr>cb_refs := cb_refs root @ replicate k (TonCell [] [] False 0)\<rparr> \<and> length (cb_refs root) + k = 2"
proof (induction n arbitrary: root)
  case (Suc n)
  let ?e = "TonCell [] [] False 0"
  show ?case
  proof (cases "length (cb_refs root) < 2")
    case True
    with Suc.prems(1) have "pad_root T n (root\<lparr>cb_refs := cb_refs root @ [?e]\<rparr>) = Inr root'"
      by (auto simp: and_then_eq_Inr write_ref_eq [OF T])
    from Suc.IH [OF this] True Suc.prems(3) obtain k where
      "root' = root\<lparr>cb_refs := (cb_refs root @ [?e]) @ replicate k ?e\<rparr>" "length (cb_refs root) + Suc k = 2" by auto
    then show ?thesis by (intro exI [of _ "Suc k"]) simp
  next
    case False
    with Suc.prems show ?thesis by (intro exI [of _ 0]) auto
  qed
qed (auto intro: exI [of _ 0])

lemma write_ones_result:
  assumes T: "builder_ok T"
  shows "write_ones T n header = Inr header' \<Longrightarrow> header' = header\<lparr>cb_bits := cb_bits header @ replicate n True\<rparr>"
proof (induction n arbitrary: header)
  case (Suc n)
  from Suc.prems obtain mid where mid: "core_write_bit T True header = Inr mid" "write_ones T n mid = Inr header'" by (auto simp: res_simps)
  have "mid = header\<lparr>cb_bits := cb_bits header @ [True]\<rparr>"
    using builder_okD(1) [OF T, of header True] mid(1) by (auto simp: yields_def split: if_splits)
  with Suc.IH [OF mid(2)] show ?case by simp
qed simp

definition holds :: "cell_builder \<Rightarrow> ton_cell \<Rightarrow> bool" where
  "holds b c \<longleftrightarrow> tc_bits c = cb_bits b \<and> tc_refs c = cb_refs b \<and> \<not> tc_exotic c \<and> tc_level c = 0"

lemma ton_build_holds:
  assumes "builder_ok T" "ton_build T b = Inr c" "\<forall>r \<in> set (cb_refs b). tc_level r = 0"
  shows "holds b c"
  using builder_okD(5) [OF assms(1), of b c] assms(2,3) by (auto simp: ton_build_def holds_def res_simps)

lemma write_extras_result:
  assumes T: "builder_ok T"
  shows "write_extras T extras header = Inr header' \<Longrightarrow> \<forall>extra \<in> set extras. \<exists>b. extra = Some b \<and> (\<forall>r \<in> set (cb_refs b). tc_level r = 0) \<Longrightarrow>
    \<exists>cs. header' = header\<lparr>cb_refs := cb_refs header @ cs\<rparr> \<and> list_all2 (\<lambda>extra c. holds (the extra) c) extras cs"
proof (induction extras arbitrary: header)
  case (Cons extra extras)
  then obtain b where b: "extra = Some b" "\<forall>r \<in> set (cb_refs b). tc_level r = 0" by auto
  from Cons.prems(1) b(1) obtain c where c: "ton_build T b = Inr c" "write_extras T extras (header\<lparr>cb_refs := cb_refs header @ [c]\<rparr>) = Inr header'"
    by (auto simp: and_then_eq_Inr write_ref_eq [OF T])
  from Cons.IH [OF c(2)] Cons.prems(2) obtain cs where "header' = header\<lparr>cb_refs := (cb_refs header @ [c]) @ cs\<rparr>"
    "list_all2 (\<lambda>extra c. holds (the extra) c) extras cs" by auto
  with b ton_build_holds [OF T c(1) b(2)] show ?case by (intro exI [of _ "c # cs"]) auto
qed simp

text \<open>The header and the first data cell make the root; its references from index two on are the further data cells.\<close>

definition finished :: "class_state \<Rightarrow> cell_builder \<Rightarrow> ton_cell list \<Rightarrow> ton_cell list \<Rightarrow> ton_cell \<Rightarrow> bool" where
  "finished st root pads extras cell \<longleftrightarrow>
     \<not> tc_exotic cell \<and> tc_level cell = 0 \<and> cls_cells st ! 1 = Some root \<and>
     (\<exists>ones. tc_bits cell = cb_bits (cls_header st) @ ones @ cb_bits root \<and> set ones \<subseteq> {True} \<and> length (cb_bits (cls_header st)) + length ones = HEADER_WIDTH) \<and>
     tc_refs cell = cb_refs root @ pads @ extras \<and> (2 < length (cls_cells st) \<longrightarrow> length (cb_refs root @ pads) = 2) \<and>
     set pads \<subseteq> {TonCell [] [] False 0} \<and> list_all2 (\<lambda>extra c. holds (the extra) c) (drop 2 (cls_cells st)) extras"

lemma cl_finish_result:
  assumes T: "builder_ok T" and s: "class_shape st" and h: "length (cb_bits (cls_header st)) \<le> HEADER_WIDTH" "cb_refs (cls_header st) = []"
    and f: "cl_finish T st = Inr cell"
  shows "\<exists>root pads extras. finished st root pads extras cell"
proof -
  have two: "1 < length (cls_cells st)" using s by (auto simp: class_shape_def)
  obtain root where root: "cell_at (cls_cells st) 1 = Inr root" "cls_cells st ! 1 = Some root" "cell_shape st 1 root"
    by (rule cell_at_shape [OF s order_refl two])
  let ?ones = "replicate (HEADER_WIDTH - length (cb_bits (cls_header st))) True"
  let ?h = "(cls_header st)\<lparr>cb_bits := cb_bits (cls_header st) @ ?ones\<rparr>"
  from f root(1) obtain padded header root_cell header2 header3 where
    p: "(if 1 < length (cls_cells st) - 1 then pad_root T 2 root else Inr root) = Inr padded" and
    o: "write_ones T (HEADER_WIDTH - length (cb_bits (cls_header st))) (cls_header st) = Inr header" and
    r: "ton_build T padded = Inr root_cell" and w: "core_call (core_write_cell T root_cell header) = Inr header2" and
    e: "write_extras T (drop 2 (cls_cells st)) header2 = Inr header3" and fin: "ton_build T header3 = Inr cell"
    unfolding cl_finish_def by (auto simp: and_then_eq_Inr)
  from root(3) have refs: "length (cb_refs root) \<le> 2" and lv: "\<forall>c \<in> set (cb_refs root). tc_level c = 0"
    by (auto simp: cell_shape_def refs_cap_def)
  obtain k where k: "padded = root\<lparr>cb_refs := cb_refs root @ replicate k (TonCell [] [] False 0)\<rparr>"
    "2 < length (cls_cells st) \<Longrightarrow> length (cb_refs root) + k = 2"
  proof (cases "1 < length (cls_cells st) - 1")
    case True
    with p pad_root_result [OF T, of 2 root padded] refs that show thesis by auto
  next
    case False
    with p that [of 0] show thesis by auto
  qed
  have lvp: "\<forall>c \<in> set (cb_refs padded). tc_level c = 0" using lv k(1) by auto
  note rc = ton_build_holds [OF T r lvp]
  have header: "header = ?h" by (rule write_ones_result [OF T o])
  have h2: "header2 = ?h\<lparr>cb_bits := cb_bits ?h @ tc_bits root_cell, cb_refs := tc_refs root_cell\<rparr>"
    using builder_okD(4) [OF T, of header root_cell] w h(2) header by (auto simp: yields_def split: if_splits)
  have "\<forall>extra \<in> set (drop 2 (cls_cells st)). \<exists>b. extra = Some b \<and> (\<forall>r \<in> set (cb_refs b). tc_level r = 0)"
    using shape_extra [OF s] by blast
  from write_extras_result [OF T e this] obtain extras where x: "header3 = header2\<lparr>cb_refs := cb_refs header2 @ extras\<rparr>"
    "list_all2 (\<lambda>extra c. holds (the extra) c) (drop 2 (cls_cells st)) extras" by blast
  have "\<forall>c \<in> set extras. tc_level c = 0"
    using x(2) by (auto simp: list_all2_conv_all_nth holds_def in_set_conv_nth)
  then have lvh: "\<forall>c \<in> set (cb_refs header3). tc_level c = 0" using lvp rc x(1) h2 by (auto simp: holds_def)
  have "holds header3 cell" by (rule ton_build_holds [OF T fin lvh])
  then have cell: "\<not> tc_exotic cell" "tc_level cell = 0" "tc_bits cell = cb_bits (cls_header st) @ ?ones @ cb_bits root"
    "tc_refs cell = cb_refs root @ replicate k (TonCell [] [] False 0) @ extras"
    using rc x(1) h2 k(1) by (auto simp: holds_def)
  have "length (cb_bits (cls_header st)) + length ?ones = HEADER_WIDTH" using h(1) by simp
  with cell k(2) root(2) x(2) have "finished st root (replicate k (TonCell [] [] False 0)) extras cell"
    unfolding finished_def by auto
  then show ?thesis by blast
qed

end
