(* ===== verification/Ton_Class_Laws.thy ===== *)
theory Ton_Class_Laws
  imports Ton_Class
begin

text \<open>
  What the class encoding of \<^verbatim>\<open>Ton_Class\<close> promises: every field is read back, encoding does not panic, and a class is encoded
  whenever its fields need at most three data cells.
\<close>

section \<open>Reading back\<close>

lemma infos_at:
  "i < length infos \<Longrightarrow> drop (i * 18) (concat (map info_bits infos)) = info_bits (infos ! i) @ concat (map info_bits (drop (Suc i) infos))"
proof (induction infos arbitrary: i)
  case (Cons info infos)
  then show ?case by (cases i) auto
qed simp

lemma field_info_written:
  assumes T: "parser_ok T" and cell: "\<not> tc_exotic cell" "tc_level cell = 0"
    and bits: "tc_bits cell = name @ concat (map info_bits infos) @ rest" "length name = 80"
    and i: "i < length infos" "infos ! i = (ty, c, off, ref)" "info_ok (ty, c, off, ref)"
  shows "field_info T cell i = Inr (cell_id c, off, ref)"
proof -
  let ?tail = "concat (map info_bits (drop (Suc i) infos)) @ rest"
  have skip: "drop (84 + i * 18) (tc_bits cell) = num_bits 2 (cell_id c) @ num_bits 10 off @ num_bits 2 ref @ ?tail" (is "_ = ?bits")
  proof -
    have "drop (84 + i * 18) (tc_bits cell) = drop 4 (drop (i * 18) (drop 80 (tc_bits cell)))" by (simp add: ac_simps)
    also have "drop 80 (tc_bits cell) = concat (map info_bits infos) @ rest" using bits by simp
    also have "drop (i * 18) (concat (map info_bits infos) @ rest) = drop (i * 18) (concat (map info_bits infos)) @ rest"
    proof -
      have "length (concat (map info_bits infos)) = length infos * 18" by (induction infos) auto
      then show ?thesis using i(1) by simp
    qed
    finally show ?thesis unfolding infos_at [OF i(1)] i(2) by simp
  qed
  have "84 + i * 18 \<le> length (tc_bits cell)"
  proof (rule ccontr)
    assume "\<not> 84 + i * 18 \<le> length (tc_bits cell)"
    then have "drop (84 + i * 18) (tc_bits cell) = []" by simp
    with skip show False by (metis append_is_Nil_conv length_num_bits list.size(3) zero_neq_numeral)
  qed
  then have "core_read_bits T (84 + i * 18) (cell_parser_of cell) = Inr (take (84 + i * 18) (tc_bits cell), \<lparr>cp_bits = ?bits, cp_refs = tc_refs cell\<rparr>)"
    unfolding cell_parser_of_def using read_steps(2) [OF T, of "84 + i * 18" "tc_bits cell" "tc_refs cell"] skip by simp
  moreover have "core_read_num T 2 \<lparr>cp_bits = ?bits, cp_refs = tc_refs cell\<rparr> = Inr (cell_id c, \<lparr>cp_bits = num_bits 10 off @ num_bits 2 ref @ ?tail, cp_refs = tc_refs cell\<rparr>)"
    by (rule read_num_app [OF T]) (use i(3) in auto)
  moreover have "core_read_num T 10 \<lparr>cp_bits = num_bits 10 off @ num_bits 2 ref @ ?tail, cp_refs = tc_refs cell\<rparr> = Inr (off, \<lparr>cp_bits = num_bits 2 ref @ ?tail, cp_refs = tc_refs cell\<rparr>)"
    by (rule read_num_app [OF T]) (use i(3) in auto)
  moreover have "core_read_num T 2 \<lparr>cp_bits = num_bits 2 ref @ ?tail, cp_refs = tc_refs cell\<rparr> = Inr (ref, \<lparr>cp_bits = ?tail, cp_refs = tc_refs cell\<rparr>)"
    by (rule read_num_app [OF T]) (use i(3) in auto)
  ultimately show ?thesis using cell by (simp add: field_info_def cl_widths require_ordinary_def ac_simps)
qed

lemma skip_refs_eq:
  "parser_ok T \<Longrightarrow> n \<le> length rs \<Longrightarrow> skip_refs T n \<lparr>cp_bits = bs, cp_refs = rs\<rparr> = Inr \<lparr>cp_bits = bs, cp_refs = drop n rs\<rparr>"
proof (induction n arbitrary: rs)
  case (Suc n)
  then show ?case by (cases rs) (auto simp: read_steps)
qed simp

lemma read_ref_at_eq: "parser_ok T \<Longrightarrow> i < length (tc_refs cell) \<Longrightarrow> read_ref_at T i cell = Inr (tc_refs cell ! i)"
  by (simp add: read_ref_at_def cell_parser_of_def skip_refs_eq Cons_nth_drop_Suc [symmetric] read_steps)

lemma read_num_at_eq:
  assumes T: "parser_ok T" and "tc_bits cell = pre @ num_bits w v @ post" "v < 2 ^ w" "0 < w"
  shows "read_num_at T (length pre) w cell = Inr v"
  using assms read_num_app [OF T assms(3,4)] by (simp add: read_num_at_def cell_parser_of_def read_steps [OF T])

lemma be_encode_pad: "v < 256 ^ m \<Longrightarrow> be_encode (k + m) v = replicate k 0 @ be_encode m v"
proof (induction m arbitrary: v)
  case (Suc m)
  then have "v div 256 < 256 ^ m" by (simp add: less_mult_imp_div_less)
  with Suc.IH show ?case by simp
qed simp

lemma byte_width_least: "v < 256 ^ n \<Longrightarrow> 0 < n \<Longrightarrow> byte_width v \<le> n"
proof -
  assume v: "v < 256 ^ n" and n: "0 < n"
  have "(256 :: nat) ^ n = 2 ^ (8 * n)" by (simp add: power_mult)
  with v bit_length_le [of v "8 * n"] n show ?thesis by (auto simp: byte_width_def)
qed

lemma padded_bytes:
  assumes "v < 2 ^ w" "0 < w"
  shows "replicate ((w + 7) div 8 - length (to_bytes_be v)) 0 @ to_bytes_be v = be_encode ((w + 7) div 8) v"
proof -
  let ?n = "(w + 7) div 8"
  have "(2 :: nat) ^ w \<le> 2 ^ (8 * ?n)" by (rule power_increasing) auto
  then have "v < 256 ^ ?n" using assms(1) by (simp add: power_mult)
  then have le: "byte_width v \<le> ?n" using assms(2) by (intro byte_width_least) auto
  then have "be_encode (?n - byte_width v + byte_width v) v = replicate (?n - byte_width v) 0 @ be_encode (byte_width v) v"
    by (intro be_encode_pad byte_width_power)
  then show ?thesis using le by (simp add: to_bytes_be_def)
qed

lemma target_cell:
  assumes f: "finished st root pads extras cell" and i: "2 \<le> i" "i < length (cls_cells st)" and T: "parser_ok T"
  obtains target where "read_ref_at T i cell = Inr target" "holds (the (cls_cells st ! i)) target"
proof -
  from f have r: "tc_refs cell = cb_refs root @ pads @ extras" "2 < length (cls_cells st) \<longrightarrow> length (cb_refs root @ pads) = 2"
    and h: "list_all2 (\<lambda>extra c. holds (the extra) c) (drop 2 (cls_cells st)) extras" by (auto simp: finished_def)
  have n: "length (cb_refs root @ pads) = 2" using r(2) i by simp
  have len: "i - 2 < length extras" using list_all2_lengthD [OF h] i by simp
  have at: "tc_refs cell ! i = extras ! (i - 2)" using n i r(1) nth_append [of "cb_refs root @ pads" extras i] by simp
  have "holds (the (cls_cells st ! i)) (extras ! (i - 2))"
    using list_all2_nthD2 [OF h len] i le_add_diff_inverse [OF i(1)] by simp
  moreover have "read_ref_at T i cell = Inr (extras ! (i - 2))"
    using read_ref_at_eq [OF T, of i cell] at r(1) n len i by simp
  ultimately show thesis using that by blast
qed

text \<open>Field \<open>i\<close> of the cell is read as what was written.\<close>

definition field_reads :: "ton_core \<Rightarrow> ton_cell \<Rightarrow> nat \<Rightarrow> cl_field \<Rightarrow> bool" where
  "field_reads T cell i field \<longleftrightarrow>
     (case field of
        ClNum type v \<Rightarrow> cl_get_uint_be T cell i (type_width type) = Inr (be_encode ((type_width type + 7) div 8) v)
      | ClRef c \<Rightarrow> cl_get_ref T cell i = Inr c)"

lemma located_reads:
  assumes T: "parser_ok T" and f: "finished st root pads extras cell" and l: "located (cls_cells st) field (ty, c, off, ref)"
    and info: "field_info T cell i = Inr (cell_id c, off, ref)"
    and ok: "field_ok field"
  shows "field_reads T cell i field"
proof -
  from f obtain ones where ones: "tc_bits cell = cb_bits (cls_header st) @ ones @ cb_bits root" "length (cb_bits (cls_header st)) + length ones = HEADER_WIDTH"
    by (auto simp: finished_def)
  let ?pre = "cb_bits (cls_header st) @ ones"
  from f ones have root: "cls_cells st ! 1 = Some root" "tc_bits cell = ?pre @ cb_bits root" "length ?pre = HEADER_WIDTH"
    "tc_refs cell = cb_refs root @ pads @ extras" by (auto simp: finished_def)
  have c: "1 \<le> c" "c < length (cls_cells st)" using l by (cases field; auto)+
  show ?thesis
  proof (cases field)
    case (ClNum type v)
    let ?w = "type_width type"
    from l ClNum obtain b pre post where b: "cls_cells st ! c = Some b" "cb_bits b = pre @ num_bits ?w v @ post" "off = bits_base c + length pre" by auto
    have w: "0 < ?w" "v < 2 ^ ?w" using ok ClNum type_width_bounds [of "type"] by (auto simp: field_ok_def)
    note bytes = padded_bytes [OF w(2,1)]
    show ?thesis
    proof (cases "c = 1")
      case True
      have "tc_bits cell = (?pre @ pre) @ num_bits ?w v @ post" using True b(1,2) root(1,2) by simp
      moreover have "off = length (?pre @ pre)" using True b(3) root(3) by (simp add: bits_base_def)
      ultimately have "read_num_at T off ?w cell = Inr v" using read_num_at_eq [OF T _ w(2,1)] by blast
      with True info bytes ClNum show ?thesis by (simp add: field_reads_def cl_get_uint_be_def cell_id_def)
    next
      case False
      then have c2: "2 \<le> c" using c(1) by simp
      obtain target where t: "read_ref_at T c cell = Inr target" "holds (the (cls_cells st ! c)) target" by (rule target_cell [OF f c2 c(2) T])
      then have h: "tc_bits target = pre @ num_bits ?w v @ post" "\<not> tc_exotic target" "tc_level target = 0" using b by (auto simp: holds_def)
      from read_num_at_eq [OF T h(1) w(2,1)] False b(3) have "read_num_at T off ?w target = Inr v" by (simp add: bits_base_def)
      with False c2 info bytes ClNum t(1) h show ?thesis by (simp add: field_reads_def cl_get_uint_be_def cell_id_def require_ordinary_def)
    qed
  next
    case (ClRef r)
    from l ClRef obtain b pre post where b: "cls_cells st ! c = Some b" "cb_refs b = pre @ r # post" "ref = length pre" by auto
    show ?thesis
    proof (cases "c = 1")
      case True
      then have "tc_refs cell = pre @ r # post @ pads @ extras" using b root by simp
      with read_ref_at_eq [OF T, of ref cell] b(3) have "read_ref_at T ref cell = Inr r" by simp
      with True info ClRef show ?thesis by (simp add: field_reads_def cl_get_ref_def cell_id_def)
    next
      case False
      then have c2: "2 \<le> c" using c(1) by simp
      obtain target where t: "read_ref_at T c cell = Inr target" "holds (the (cls_cells st ! c)) target" by (rule target_cell [OF f c2 c(2) T])
      then have h: "tc_refs target = pre @ r # post" "\<not> tc_exotic target" "tc_level target = 0" using b by (auto simp: holds_def)
      with read_ref_at_eq [OF T, of ref target] b(3) have "read_ref_at T ref target = Inr r" by simp
      with False c2 info ClRef t(1) h show ?thesis by (simp add: field_reads_def cl_get_ref_def cell_id_def require_ordinary_def)
    qed
  qed
qed

text \<open>A class name: at most ten ASCII characters, the first not zero.\<close>

definition name_ok :: "string \<Rightarrow> bool" where
  "name_ok name \<longleftrightarrow> name \<noteq> [] \<and> length name \<le> 10 \<and> (\<forall>c \<in> set name. (0 :: nat) < of_char c \<and> of_char c < (128 :: nat))"

lemma name_bytes:
  assumes "name_ok name"
  shows "to_bytes_be (ascii_name name) = string_bytes name" "ascii_name name < 2 ^ 80" "from_utf8 (string_bytes name) = Inr name"
proof -
  obtain c cs where name: "name = c # cs" using assms by (cases name) (auto simp: name_ok_def)
  have c: "(0 :: nat) < of_char c" "of_char c < (128 :: nat)" using assms name by (auto simp: name_ok_def)
  let ?bs = "string_bytes name"
  have len: "length ?bs = Suc (length cs)" by (simp add: name string_bytes_def)
  have low: "256 ^ length cs \<le> ascii_name name"
  proof -
    have "unat (word_of_nat (of_char c) :: byte) = of_char c" using c by (simp add: unat_of_nat)
    then show ?thesis
      using c mult_le_mono1 [of 1 "of_char c" "256 ^ length cs"] by (simp add: ascii_name_def name string_bytes_def be_decode_Cons trans_le_add1)
  qed
  have high: "ascii_name name < 256 ^ Suc (length cs)"
    using be_decode_less [of ?bs] len by (simp add: ascii_name_def)
  have "byte_width (ascii_name name) = Suc (length cs)"
  proof (rule antisym)
    show "byte_width (ascii_name name) \<le> Suc (length cs)" using high by (intro byte_width_least) auto
    show "Suc (length cs) \<le> byte_width (ascii_name name)"
    proof (rule ccontr)
      assume "\<not> Suc (length cs) \<le> byte_width (ascii_name name)"
      then have "(256 :: nat) ^ byte_width (ascii_name name) \<le> 256 ^ length cs" by (intro power_increasing) auto
      with low byte_width_power [of "ascii_name name"] show False by linarith
    qed
  qed
  then show "to_bytes_be (ascii_name name) = ?bs" using be_encode_decode [of "Suc (length cs)" ?bs] len by (simp add: to_bytes_be_def ascii_name_def)
  have "(256 :: nat) ^ Suc (length cs) \<le> 256 ^ 10" using assms name by (intro power_increasing) (auto simp: name_ok_def)
  moreover have "(256 :: nat) ^ 10 = 2 ^ 80" by (simp add: power_mult [symmetric, of 2 8 10, simplified])
  ultimately show "ascii_name name < 2 ^ 80" using high by linarith
  have valid: "utf8_error i (string_bytes s) = None" if "\<forall>c \<in> set s. of_char c < (128 :: nat)" for i s
    using that
  proof (induction s arbitrary: i)
    case (Cons d s)
    then have "(word_of_nat (of_char d) :: byte) < 0x80" by (simp add: word_less_nat_alt unat_of_nat)
    with Cons show ?case by (simp add: string_bytes_def)
  qed (simp add: string_bytes_def)
  have "map (\<lambda>b. char_of (unat b)) (string_bytes name) = name"
    unfolding string_bytes_def by (simp add: comp_def unat_of_nat)
  then show "from_utf8 ?bs = Inr name" using valid [of name 0] assms by (simp add: from_utf8_def name_ok_def)
qed

definition class_holds :: "ton_core \<Rightarrow> string \<Rightarrow> cl_field list \<Rightarrow> ton_cell \<Rightarrow> bool" where
  "class_holds T name fs cell \<longleftrightarrow>
     \<not> tc_exotic cell \<and> tc_level cell = 0 \<and> cell_name T cell = Inr name \<and> (\<forall>i. i < length fs \<longrightarrow> field_reads T cell i (fs ! i))"

lemma class_start_shape: "class_shape (class_start header)"
  by (auto simp: class_shape_def class_start_def cell_shape_def new_builder_def bits_base_def refs_cap_def cl_widths less_Suc_eq)

lemma cl_declare_holds:
  assumes T: "parser_ok T" "builder_ok T" and name: "name_ok name" and fs: "list_all field_ok fs" and c: "cl_declare T name fs = Inr cell"
  shows "class_holds T name fs cell"
proof -
  let ?h = "new_builder\<lparr>cb_bits := num_bits 80 (ascii_name name)\<rparr>"
  from c have n: "length fs \<le> 15" by (auto simp: cl_declare_def cl_widths split: if_splits)
  from c obtain st where st: "cl_steps T fs (class_start ?h) = Inr st" "cl_finish T st = Inr cell"
    by (auto simp: cl_declare_def cl_widths and_then_eq_Inr write_uint_eq [OF T(2)] new_builder_def split: if_splits)
  obtain infos where s: "class_shape st" "list_all2 (located (cls_cells st)) fs infos" "list_all info_ok infos"
    "cls_header st = ?h\<lparr>cb_bits := num_bits 80 (ascii_name name) @ concat (map info_bits infos)\<rparr>"
    using cl_steps_result [OF T(2) class_start_shape fs st(1)] by (auto simp: class_start_def)
  have len: "length (concat (map info_bits infos)) = length infos * 18" for infos :: "info list" by (induction infos) auto
  have li: "length infos = length fs" using list_all2_lengthD [OF s(2)] by simp
  obtain root pads extras where f: "finished st root pads extras cell"
    using cl_finish_result [OF T(2) s(1) _ _ st(2)] n li len [of infos] by (auto simp: s(4) new_builder_def cl_widths)
  from f obtain ones where bits: "tc_bits cell = num_bits 80 (ascii_name name) @ concat (map info_bits infos) @ ones @ cb_bits root"
    and ord: "\<not> tc_exotic cell" "tc_level cell = 0" by (auto simp: finished_def s(4))
  have reads: "field_reads T cell i (fs ! i)" if i: "i < length fs" for i
  proof -
    obtain ty c off ref where info: "infos ! i = (ty, c, off, ref)" by (cases "infos ! i")
    have ok: "info_ok (ty, c, off, ref)" "field_ok (fs ! i)" "located (cls_cells st) (fs ! i) (ty, c, off, ref)"
      using s(2,3) fs i li info by (auto simp: list_all_length list_all2_conv_all_nth)
    from field_info_written [OF T(1) ord bits _ _ info ok(1)] i li have "field_info T cell i = Inr (cell_id c, off, ref)" by simp
    from located_reads [OF T(1) f ok(3) this ok(2)] show ?thesis .
  qed
  have "core_read_num T 80 (cell_parser_of cell) = Inr (ascii_name name, \<lparr>cp_bits = concat (map info_bits infos) @ ones @ cb_bits root, cp_refs = tc_refs cell\<rparr>)"
    unfolding cell_parser_of_def bits by (rule read_num_app [OF T(1) name_bytes(2) [OF name]]) simp
  then have "cell_name T cell = Inr name" using ord name_bytes(1,3) [OF name] by (simp add: cell_name_def require_ordinary_def NAME_WIDTH_def)
  with reads ord show ?thesis by (simp add: class_holds_def)
qed

section \<open>Encoding does not panic, and small classes always encode\<close>

lemma lift_no_panic [simp]: "map_err TonError r \<noteq> Inl TonPanic" "write_uint T v n b \<noteq> Inl TonPanic" "ton_build T b \<noteq> Inl TonPanic"
  "write_info T ty i off ref h \<noteq> Inl TonPanic"
  by (auto simp: write_uint_def ton_build_def write_info_def and_then_eq_Inl map_err_eq_Inl)

lemma cl_step_no_panic:
  assumes s: "class_shape st"
  shows "cl_step T field st \<noteq> Inl TonPanic"
proof -
  let ?s = "next_ref_cell (field_bits field) (next_data_cell (field_bits field) st)"
  have sh: "class_shape ?s" by (rule next_ref_shape(1) [OF next_data_shape(1) [OF s]])
  have at: "\<exists>b. cell_at (cls_cells ?s) i = Inr b" if "1 \<le> i" "i < length (cls_cells ?s)" for i
    by (rule cell_at_shape [OF sh that]) blast
  have "\<exists>b. cell_at (cls_cells ?s) (cls_data_cell ?s) = Inr b" "\<exists>b. cell_at (cls_cells ?s) (cls_ref_cell ?s) = Inr b"
    using sh by (auto simp: class_shape_def intro!: at)
  then show ?thesis
    by (cases field) (auto simp: cl_step_def Let_def and_then_eq_Inl map_ok_eq_Inl)
qed

lemma cl_steps_no_panic:
  assumes T: "builder_ok T"
  shows "class_shape st \<Longrightarrow> list_all field_ok fs \<Longrightarrow> cl_steps T fs st \<noteq> Inl TonPanic"
proof (induction fs arbitrary: st)
  case (Cons field fs)
  have "class_shape mid" if "cl_step T field st = Inr mid" for mid
    using cl_steps_result [OF T Cons.prems(1), of "[field]" mid] Cons.prems(2) that by auto
  with Cons cl_step_no_panic [OF Cons.prems(1), of T field] show ?case by (auto simp: and_then_eq_Inl)
qed simp

lemma cl_finish_no_panic:
  assumes s: "class_shape st"
  shows "cl_finish T st \<noteq> Inl TonPanic"
proof -
  have pads: "pad_root T n root \<noteq> Inl TonPanic" for n root by (induction n arbitrary: root) (auto simp: and_then_eq_Inl)
  have ones: "write_ones T n header \<noteq> Inl TonPanic" for n header by (induction n arbitrary: header) (auto simp: and_then_eq_Inl)
  have extras: "\<forall>extra \<in> set es. extra \<noteq> None \<Longrightarrow> write_extras T es header \<noteq> Inl TonPanic" for es header
    by (induction es arbitrary: header) (auto simp: and_then_eq_Inl)
  have "\<forall>extra \<in> set (drop 2 (cls_cells st)). extra \<noteq> None" using shape_extra [OF s] by blast
  moreover have "1 < length (cls_cells st)" using s by (auto simp: class_shape_def)
  then obtain root where "cell_at (cls_cells st) 1 = Inr root" by (rule cell_at_shape [OF s order_refl])
  ultimately show ?thesis using extras pads ones by (auto simp: cl_finish_def and_then_eq_Inl)
qed

lemma cl_declare_no_panic:
  assumes T: "builder_ok T" and fs: "list_all field_ok fs"
  shows "cl_declare T name fs \<noteq> Inl TonPanic"
proof -
  have "class_shape st" if "cl_steps T fs (class_start header) = Inr st" for header st
    using cl_steps_result [OF T class_start_shape fs that] by blast
  with cl_steps_no_panic [OF T class_start_shape fs] cl_finish_no_panic [of _ T] show ?thesis
    by (auto simp: cl_declare_def and_then_eq_Inl)
qed

text \<open>
  The cursors of the loop: data cell and offset, reference cell and offset, and the references the current cell takes. Whether a class can
  be encoded depends only on where they end.
\<close>

type_synonym cursor = "nat \<times> nat \<times> nat \<times> nat \<times> nat"

definition cursor_of :: "class_state \<Rightarrow> cursor" where
  "cursor_of st = (cls_data_cell st, cls_data_offset st, cls_ref_cell st, cls_ref_offset st, cls_max_refs st)"

fun place :: "cursor \<Rightarrow> cl_field \<Rightarrow> cursor" where
  "place (dc, off, rc, roff, cap) field =
     (let w = field_bits field;
          (dc, off) = (if MAX_CELL_BITS < off + w then (dc + 1, 0) else (dc, off));
          (rc, roff, cap) = (if w = 0 \<and> cap < roff + 1 then (rc + 1, 0, MAX_CELL_REFS) else (rc, roff, cap)) in
      if 0 < w then (dc, off + w, rc, roff, cap) else (dc, off, rc, roff + 1, cap))"

definition cells_used :: "cursor \<Rightarrow> nat" where
  "cells_used = (\<lambda>(dc, off, rc, roff, cap). max dc rc)"

fun field_ref :: "cl_field \<Rightarrow> ton_cell list" where
  "field_ref (ClNum type v) = []"
| "field_ref (ClRef c) = [c]"

definition class_cells :: "cl_field list \<Rightarrow> nat" where
  "class_cells fs = cells_used (foldl place (1, HEADER_WIDTH, 1, 0, 2) fs)"

definition class_fits :: "cl_field list \<Rightarrow> bool" where
  "class_fits fs \<longleftrightarrow>
     length fs \<le> MAX_CLASS_FIELDS \<and> class_cells fs \<le> 3 \<and>
     (\<forall>c \<in> set (concat (map field_ref fs)). cell_depth c + (if class_cells fs = 1 then 0 else 1) < MAX_CELL_DEPTH)"

lemma place_mono: "cells_used cur \<le> cells_used (place cur field)"
  by (cases cur) (auto simp: cells_used_def Let_def)

lemma places_mono: "cells_used cur \<le> cells_used (foldl place cur fs)"
proof (induction fs arbitrary: cur)
  case (Cons field fs)
  show ?case using order_trans [OF place_mono Cons.IH, of cur field] by (simp del: place.simps)
qed simp

lemma step_cursor:
  assumes "cl_step T field st = Inr st'"
  shows "cursor_of st' = place (cursor_of st) field"
    and "length (cls_cells st) = cells_used (cursor_of st) + 1 \<Longrightarrow> length (cls_cells st') = cells_used (cursor_of st') + 1"
  using assms
  by (cases field; auto simp: cl_step_def Let_def and_then_eq_Inr map_ok_eq_Inr cursor_of_def cells_used_def next_data_cell_def
      next_ref_cell_def extend_cells_def split: if_splits)+

lemma step_fits:
  assumes T: "builder_ok T" and s: "class_shape st" and f: "field_ok field" and h: "length (cb_bits (cls_header st)) + 18 \<le> MAX_CELL_BITS"
    and used: "cells_used (place (cursor_of st) field) \<le> 3"
  shows "\<exists>st'. cl_step T field st = Inr st'"
proof -
  let ?w = "field_bits field"
  let ?s = "next_ref_cell ?w (next_data_cell ?w st)"
  note d = next_data_shape [OF s, of ?w] note r = next_ref_shape [OF d(1), of ?w]
  have i: "1 \<le> cls_data_cell ?s" "cls_data_cell ?s < length (cls_cells ?s)" "1 \<le> cls_ref_cell ?s" "cls_ref_cell ?s < length (cls_cells ?s)"
    using r(1) by (auto simp: class_shape_def)
  have ids: "cls_data_cell ?s \<le> 3" "cls_ref_cell ?s \<le> 3"
    using used by (auto simp: cursor_of_def cells_used_def Let_def next_data_cell_def next_ref_cell_def split: if_splits)
  show ?thesis
  proof (cases field)
    case (ClNum ty v)
    have w: "0 < ?w" "?w \<le> 256" "v < 2 ^ ?w" "ty \<le> 8" using f ClNum type_width_bounds [of ty] by (auto simp: field_ok_def T_UINT256_def)
    obtain b where b: "cell_at (cls_cells ?s) (cls_data_cell ?s) = Inr b" "cell_shape ?s (cls_data_cell ?s) b"
      by (rule cell_at_shape [OF r(1) i(1,2)])
    have room: "cls_data_offset ?s + ?w \<le> MAX_CELL_BITS" using d(4) r(4) w by simp
    with b(2) have "length (cb_bits b) + ?w \<le> MAX_CELL_BITS" by (auto simp: cell_shape_def)
    with w have "write_uint T v ?w b = Inr (b\<lparr>cb_bits := cb_bits b @ num_bits ?w v\<rparr>)" by (simp add: write_uint_eq [OF T])
    moreover have "\<exists>h. write_info T ty (cls_data_cell ?s) (cls_data_offset ?s) 3 (cls_header st) = Inr h"
      using h ids w room by (auto simp: write_info_eq [OF T] cell_id_def MAX_CELL_BITS_def)
    ultimately show ?thesis using b(1) ClNum w(1) d(3) r(3) by (auto simp: cl_step_def Let_def)
  next
    case (ClRef c)
    obtain b where b: "cell_at (cls_cells ?s) (cls_ref_cell ?s) = Inr b" "cell_shape ?s (cls_ref_cell ?s) b"
      by (rule cell_at_shape [OF r(1) i(3,4)])
    have off: "cls_ref_offset ?s < 4" "length (cb_refs b) < MAX_CELL_REFS"
      using r(5) b(2) ClRef by (auto simp: refs_cap_def MAX_CELL_REFS_def cell_shape_def split: if_splits)
    then have "core_call (core_write_ref T c b) = Inr (b\<lparr>cb_refs := cb_refs b @ [c]\<rparr>)" by (simp add: write_ref_eq [OF T])
    moreover have "\<exists>h. write_info T T_REF (cls_ref_cell ?s) MAX_CELL_BITS (cls_ref_offset ?s) (cls_header st) = Inr h"
      using h ids off by (auto simp: write_info_eq [OF T] cell_id_def MAX_CELL_BITS_def T_REF_def)
    ultimately show ?thesis using b(1) ClRef d(3) r(3) by (auto simp: cl_step_def Let_def)
  qed
qed

text \<open>The references in the cells are those of the fields.\<close>

definition refs_from :: "ton_cell set \<Rightarrow> class_state \<Rightarrow> bool" where
  "refs_from R st \<longleftrightarrow> (\<forall>b. Some b \<in> set (cls_cells st) \<longrightarrow> set (cb_refs b) \<subseteq> R)"

lemma step_refs:
  assumes T: "builder_ok T" and s: "class_shape st" and f: "field_ok field" and r: "refs_from R st" "set (field_ref field) \<subseteq> R"
    and step: "cl_step T field st = Inr st'"
  shows "refs_from R st'"
proof -
  let ?w = "field_bits field"
  let ?s = "next_ref_cell ?w (next_data_cell ?w st)"
  have rs: "refs_from R ?s"
    using r(1) by (auto simp: refs_from_def next_ref_cell_def next_data_cell_def extend_cells_def new_builder_def split: if_splits)
  have put: "set (cb_refs x) \<subseteq> R" if "Some x \<in> set ((cls_cells ?s)[i := Some b'])" "set (cb_refs b') \<subseteq> R" for x i b'
    using that rs set_update_subset_insert [of "cls_cells ?s" i "Some b'"] by (auto simp: refs_from_def)
  have at: "set (cb_refs b) \<subseteq> R" if "cell_at (cls_cells ?s) i = Inr b" for i b
  proof -
    have "i < length (cls_cells ?s)" "cls_cells ?s ! i = Some b" using that by (auto simp: cell_at_def ok_or_eq_Inr split: if_splits)
    then have "Some b \<in> set (cls_cells ?s)" by (metis nth_mem)
    with rs show ?thesis by (simp add: refs_from_def)
  qed
  show ?thesis
  proof (cases field)
    case (ClNum ty v)
    have "0 < ?w" using f ClNum type_width_bounds [of ty] by (auto simp: field_ok_def)
    with step ClNum obtain b where b: "cell_at (cls_cells ?s) (cls_data_cell ?s) = Inr b"
      "cls_cells st' = (cls_cells ?s)[cls_data_cell ?s := Some (b\<lparr>cb_bits := cb_bits b @ num_bits ?w v\<rparr>)]"
      by (auto simp: cl_step_def Let_def and_then_eq_Inr map_ok_eq_Inr write_uint_eq [OF T])
    with put at [OF b(1)] show ?thesis by (simp add: refs_from_def)
  next
    case (ClRef c)
    with step obtain b where b: "cell_at (cls_cells ?s) (cls_ref_cell ?s) = Inr b"
      "cls_cells st' = (cls_cells ?s)[cls_ref_cell ?s := Some (b\<lparr>cb_refs := cb_refs b @ [c]\<rparr>)]"
      by (auto simp: cl_step_def Let_def and_then_eq_Inr map_ok_eq_Inr write_ref_eq [OF T])
    with put at [OF b(1)] r(2) ClRef show ?thesis by (simp add: refs_from_def)
  qed
qed

lemma steps_fit:
  assumes T: "builder_ok T"
  shows "class_shape st \<Longrightarrow> list_all field_ok fs \<Longrightarrow> length (cb_bits (cls_header st)) + 18 * length fs \<le> MAX_CELL_BITS \<Longrightarrow>
    cells_used (foldl place (cursor_of st) fs) \<le> 3 \<Longrightarrow> length (cls_cells st) = cells_used (cursor_of st) + 1 \<Longrightarrow>
    refs_from R st \<Longrightarrow> set (concat (map field_ref fs)) \<subseteq> R \<Longrightarrow>
    \<exists>st'. cl_steps T fs st = Inr st' \<and> length (cls_cells st') = cells_used (foldl place (cursor_of st) fs) + 1 \<and> refs_from R st'"
proof (induction fs arbitrary: st)
  case (Cons field fs)
  have used: "cells_used (place (cursor_of st) field) \<le> 3" using Cons.prems(4) places_mono [of "place (cursor_of st) field" fs] by simp
  obtain mid where mid: "cl_step T field st = Inr mid"
    using step_fits [OF T Cons.prems(1) _ _ used] Cons.prems(2,3) by auto
  obtain info where info: "stepped st field info mid"
    using cl_step_stepped [OF T Cons.prems(1) _ mid] Cons.prems(2) by auto
  have "class_shape mid" "length (cb_bits (cls_header mid)) = length (cb_bits (cls_header st)) + 18" using info by (auto simp: stepped_def)
  with Cons.IH [of mid] Cons.prems step_cursor [OF mid] step_refs [OF T Cons.prems(1) _ Cons.prems(6) _ mid] mid show ?case by auto
qed simp

lemma write_ones_fits:
  assumes T: "builder_ok T"
  shows "length (cb_bits header) + n \<le> MAX_CELL_BITS \<Longrightarrow> write_ones T n header = Inr (header\<lparr>cb_bits := cb_bits header @ replicate n True\<rparr>)"
proof (induction n arbitrary: header)
  case (Suc n)
  then have "core_write_bit T True header = Inr (header\<lparr>cb_bits := cb_bits header @ [True]\<rparr>)"
    using builder_okD(1) [OF T, of header True] by (auto simp: yields_def)
  with Suc show ?case by simp
qed simp

lemma ton_build_fits:
  assumes T: "builder_ok T" and r: "\<forall>r \<in> set (cb_refs b). tc_level r = 0 \<and> cell_depth r < MAX_CELL_DEPTH"
  obtains c where "ton_build T b = Inr c" "holds b c"
proof -
  from T r obtain c where "core_build T b = Inr c" unfolding builder_ok_def by blast
  then have "ton_build T b = Inr c" by (simp add: ton_build_def)
  with ton_build_holds [OF T this] r that show thesis by blast
qed

lemma pad_root_fits:
  assumes T: "builder_ok T"
  shows "\<exists>root'. pad_root T n root = Inr root'"
proof (induction n arbitrary: root)
  case (Suc n)
  then show ?case
    by (cases "length (cb_refs root) < 2") (auto simp: and_then_eq_Inr write_ref_eq [OF T] MAX_CELL_REFS_def)
qed simp

lemma write_extras_fits:
  assumes T: "builder_ok T"
  shows "\<forall>extra \<in> set extras. \<exists>b. extra = Some b \<and> (\<forall>r \<in> set (cb_refs b). tc_level r = 0 \<and> cell_depth r + 1 < MAX_CELL_DEPTH) \<Longrightarrow>
    length (cb_refs header) + length extras \<le> MAX_CELL_REFS \<Longrightarrow>
    \<exists>cs. write_extras T extras header = Inr (header\<lparr>cb_refs := cb_refs header @ cs\<rparr>) \<and> (\<forall>c \<in> set cs. tc_level c = 0 \<and> cell_depth c < MAX_CELL_DEPTH)"
proof (induction extras arbitrary: header)
  case (Cons extra extras)
  then obtain b where b: "extra = Some b" "\<forall>r \<in> set (cb_refs b). tc_level r = 0 \<and> cell_depth r + 1 < MAX_CELL_DEPTH" by auto
  obtain c where c: "ton_build T b = Inr c" "holds b c" by (rule ton_build_fits [OF T, of b]) (use b(2) in auto)
  have "cell_depth c < MAX_CELL_DEPTH"
    using c(2) b(2) by (auto simp: cell_depth_eq [of c] holds_def MAX_CELL_DEPTH_def)
  moreover have "core_call (core_write_ref T c header) = Inr (header\<lparr>cb_refs := cb_refs header @ [c]\<rparr>)"
    using Cons.prems(2) by (simp add: write_ref_eq [OF T])
  moreover obtain cs where "write_extras T extras (header\<lparr>cb_refs := cb_refs header @ [c]\<rparr>) = Inr (header\<lparr>cb_refs := (cb_refs header @ [c]) @ cs\<rparr>)"
    "\<forall>c \<in> set cs. tc_level c = 0 \<and> cell_depth c < MAX_CELL_DEPTH"
    using Cons.IH [of "header\<lparr>cb_refs := cb_refs header @ [c]\<rparr>"] Cons.prems by auto
  ultimately show ?case using b(1) c by (intro exI [of _ "c # cs"]) (auto simp: holds_def)
qed (auto intro: exI [of _ "[]"])

lemma finish_fits:
  assumes T: "builder_ok T" and s: "class_shape st" and h: "length (cb_bits (cls_header st)) \<le> HEADER_WIDTH" "cb_refs (cls_header st) = []"
    and n: "length (cls_cells st) \<le> 4" and r: "refs_from R st"
    and R: "\<forall>c \<in> R. tc_level c = 0 \<and> cell_depth c + (if length (cls_cells st) = 2 then 0 else 1) < MAX_CELL_DEPTH"
  shows "\<exists>cell. cl_finish T st = Inr cell"
proof -
  have two: "1 < length (cls_cells st)" using s by (auto simp: class_shape_def)
  obtain root where root: "cell_at (cls_cells st) 1 = Inr root" "cls_cells st ! 1 = Some root" "cell_shape st 1 root"
    by (rule cell_at_shape [OF s order_refl two])
  have "Some root \<in> set (cls_cells st)" using root(2) two by (metis nth_mem)
  then have rR: "set (cb_refs root) \<subseteq> R" using r by (simp add: refs_from_def)
  have len: "length (cb_refs root) \<le> 2" "HEADER_WIDTH + length (cb_bits root) \<le> MAX_CELL_BITS"
    using root(3) by (auto simp: cell_shape_def refs_cap_def bits_base_def)
  let ?pad = "1 < length (cls_cells st) - 1"
  obtain k where k: "(if ?pad then pad_root T 2 root else Inr root) = Inr (root\<lparr>cb_refs := cb_refs root @ replicate k (TonCell [] [] False 0)\<rparr>)"
    "length (cb_refs root) + k \<le> 2"
  proof (cases ?pad)
    case True
    obtain root' where "pad_root T 2 root = Inr root'" using pad_root_fits [OF T] by blast
    with pad_root_result [OF T this] len True that show thesis by auto
  next
    case False
    with that [of 0] len show thesis by auto
  qed
  let ?root = "root\<lparr>cb_refs := cb_refs root @ replicate k (TonCell [] [] False 0)\<rparr>"
  have ok: "\<forall>c \<in> set (cb_refs ?root). tc_level c = 0 \<and> cell_depth c < MAX_CELL_DEPTH"
    using rR R by (fastforce simp: MAX_CELL_DEPTH_def)
  obtain rc where rc: "ton_build T ?root = Inr rc" "holds ?root rc" by (rule ton_build_fits [OF T ok])
  let ?n = "HEADER_WIDTH - length (cb_bits (cls_header st))"
  let ?h = "(cls_header st)\<lparr>cb_bits := cb_bits (cls_header st) @ replicate ?n True\<rparr>"
  have ones: "write_ones T ?n (cls_header st) = Inr ?h" using h(1) by (intro write_ones_fits [OF T]) (auto simp: cl_widths)
  let ?h2 = "?h\<lparr>cb_bits := cb_bits ?h @ tc_bits rc, cb_refs := tc_refs rc\<rparr>"
  have cell: "core_write_cell T rc ?h = Inr ?h2"
    using builder_okD(4) [OF T, of ?h rc] h rc(2) len k(2) by (auto simp: yields_def holds_def MAX_CELL_REFS_def)
  have extras: "\<forall>extra \<in> set (drop 2 (cls_cells st)). \<exists>b. extra = Some b \<and> (\<forall>r \<in> set (cb_refs b). tc_level r = 0 \<and> cell_depth r + 1 < MAX_CELL_DEPTH)"
  proof
    fix extra
    assume e: "extra \<in> set (drop 2 (cls_cells st))"
    then have "length (cls_cells st) \<noteq> 2" by auto
    moreover have "extra \<in> set (cls_cells st)" using e by (rule in_set_dropD)
    ultimately show "\<exists>b. extra = Some b \<and> (\<forall>r \<in> set (cb_refs b). tc_level r = 0 \<and> cell_depth r + 1 < MAX_CELL_DEPTH)"
      using shape_extra [OF s e] r R by (fastforce simp: refs_from_def)
  qed
  have room: "length (cb_refs ?h2) + length (drop 2 (cls_cells st)) \<le> MAX_CELL_REFS"
    using rc(2) k(2) n by (auto simp: holds_def MAX_CELL_REFS_def)
  obtain cs where cs: "write_extras T (drop 2 (cls_cells st)) ?h2 = Inr (?h2\<lparr>cb_refs := cb_refs ?h2 @ cs\<rparr>)"
    "\<forall>c \<in> set cs. tc_level c = 0 \<and> cell_depth c < MAX_CELL_DEPTH"
    using write_extras_fits [OF T extras room] by blast
  obtain c where "ton_build T (?h2\<lparr>cb_refs := cb_refs ?h2 @ cs\<rparr>) = Inr c"
    by (rule ton_build_fits [OF T, of "?h2\<lparr>cb_refs := cb_refs ?h2 @ cs\<rparr>"]) (use cs(2) ok rc(2) in \<open>auto simp: holds_def\<close>)
  with root(1) k(1) ones rc(1) cell cs(1) have "cl_finish T st = Inr c" by (simp add: cl_finish_def)
  then show ?thesis by blast
qed

lemma field_ref_mem: "r \<in> set (field_ref field) \<longleftrightarrow> field = ClRef r"
  by (cases field) auto

lemma cl_declare_fits:
  assumes T: "builder_ok T" and name: "name_ok name" and fs: "list_all field_ok fs" "class_fits fs"
  shows "\<exists>cell. cl_declare T name fs = Inr cell"
proof -
  let ?h = "new_builder\<lparr>cb_bits := num_bits 80 (ascii_name name)\<rparr>" and ?R = "set (concat (map field_ref fs))"
  let ?st = "class_start ?h"
  have h: "write_uint T (ascii_name name) NAME_WIDTH new_builder = Inr ?h"
    using name_bytes(2) [OF name] by (simp add: write_uint_eq [OF T] new_builder_def cl_widths)
  have cur: "cursor_of ?st = (1, HEADER_WIDTH, 1, 0, 2)" by (simp add: cursor_of_def class_start_def)
  obtain st where st: "cl_steps T fs ?st = Inr st" "length (cls_cells st) = class_cells fs + 1" "refs_from ?R st"
    using steps_fit [OF T class_start_shape fs(1), of ?h ?R] fs(2) cur
    by (auto simp: class_fits_def class_cells_def cells_used_def class_start_def refs_from_def new_builder_def cl_widths)
  from cl_steps_result [OF T class_start_shape fs(1) st(1)] obtain infos where s: "class_shape st" "list_all2 (located (cls_cells st)) fs infos"
    "cls_header st = ?h\<lparr>cb_bits := num_bits 80 (ascii_name name) @ concat (map info_bits infos)\<rparr>" by (auto simp: class_start_def)
  have "length (concat (map info_bits infos)) = length infos * 18" by (induction infos) auto
  then have len: "length (cb_bits (cls_header st)) \<le> HEADER_WIDTH" "cb_refs (cls_header st) = []"
    using list_all2_lengthD [OF s(2)] fs(2) by (auto simp: s(3) class_fits_def cl_widths new_builder_def)
  have "\<forall>c \<in> ?R. tc_level c = 0 \<and> cell_depth c + (if length (cls_cells st) = 2 then 0 else 1) < MAX_CELL_DEPTH"
  proof
    fix c
    assume c: "c \<in> ?R"
    then have "ClRef c \<in> set fs" by (auto simp: field_ref_mem)
    then have "tc_level c = 0" using fs(1) by (auto simp: list_all_iff field_ok_def)
    with c fs(2) st(2) show "tc_level c = 0 \<and> cell_depth c + (if length (cls_cells st) = 2 then 0 else 1) < MAX_CELL_DEPTH"
      by (auto simp: class_fits_def)
  qed
  with finish_fits [OF T s(1) len _ st(3)] st(2) fs(2) obtain cell where "cl_finish T st = Inr cell" by (auto simp: class_fits_def)
  with h st(1) fs(2) show ?thesis by (auto simp: cl_declare_def class_fits_def)
qed

text \<open>A class adds at most two levels to its references.\<close>

lemma steps_refs:
  assumes T: "builder_ok T"
  shows "class_shape st \<Longrightarrow> list_all field_ok fs \<Longrightarrow> refs_from R st \<Longrightarrow> set (concat (map field_ref fs)) \<subseteq> R \<Longrightarrow>
    cl_steps T fs st = Inr st' \<Longrightarrow> refs_from R st'"
proof (induction fs arbitrary: st)
  case (Cons field fs)
  then obtain mid where mid: "cl_step T field st = Inr mid" "cl_steps T fs mid = Inr st'" by (auto simp: and_then_eq_Inr)
  obtain info where "stepped st field info mid" using cl_step_stepped [OF T Cons.prems(1) _ mid(1)] Cons.prems(2) by auto
  with Cons.IH [of mid] Cons.prems mid step_refs [OF T Cons.prems(1) _ Cons.prems(3) _ mid(1)] show ?case by (auto simp: stepped_def)
qed simp

lemma depth_le: "(\<And>c. c \<in> set (tc_refs cell) \<Longrightarrow> cell_depth c \<le> d) \<Longrightarrow> cell_depth cell \<le> Suc d"
  unfolding cell_depth_eq [of cell] by (auto intro!: Max.boundedI)

text \<open>What is below a class: the references it was given, padding, and cells that only hold such references.\<close>

lemma cl_declare_below:
  assumes T: "builder_ok T" and fs: "list_all field_ok fs" and c: "cl_declare T name fs = Inr cell" and r: "r \<in> set (tc_refs cell)"
  shows "ClRef r \<in> set fs \<or> r = TonCell [] [] False 0 \<or> tc_level r = 0 \<and> (\<forall>s \<in> set (tc_refs r). ClRef s \<in> set fs)"
proof -
  let ?R = "set (concat (map field_ref fs))"
  from c obtain h st where h: "write_uint T (ascii_name name) NAME_WIDTH new_builder = Inr h"
    and st: "cl_steps T fs (class_start h) = Inr st" "cl_finish T st = Inr cell" and n: "length fs \<le> 15"
    by (auto simp: cl_declare_def and_then_eq_Inr MAX_CLASS_FIELDS_def split: if_splits)
  have h: "length (cb_bits h) = 80" "cb_refs h = []" using h by (auto simp: write_uint_eq [OF T] NAME_WIDTH_def new_builder_def)
  from cl_steps_result [OF T class_start_shape fs st(1)] obtain infos where s: "class_shape st" "list_all2 (located (cls_cells st)) fs infos"
    "cls_header st = h\<lparr>cb_bits := cb_bits h @ concat (map info_bits infos)\<rparr>" by (auto simp: class_start_def)
  have "length (concat (map info_bits infos)) = length infos * 18" by (induction infos) auto
  then have len: "length (cb_bits (cls_header st)) \<le> HEADER_WIDTH" "cb_refs (cls_header st) = []"
    using list_all2_lengthD [OF s(2)] n h by (auto simp: s(3) cl_widths)
  from cl_finish_result [OF T s(1) len st(2)] obtain root pads extras where f: "finished st root pads extras cell" by blast
  have R: "refs_from ?R st"
    by (rule steps_refs [OF T class_start_shape fs _ _ st(1)]) (auto simp: refs_from_def class_start_def new_builder_def)
  have within: "ClRef s \<in> set fs" if "Some b \<in> set (cls_cells st)" "s \<in> set (cb_refs b)" for b s
    using R that by (fastforce simp: refs_from_def field_ref_mem)
  have two: "1 < length (cls_cells st)" using s(1) by (auto simp: class_shape_def)
  have root: "Some root \<in> set (cls_cells st)" using f two by (metis finished_def nth_mem)
  have extra: "tc_level e = 0 \<and> (\<forall>s \<in> set (tc_refs e). ClRef s \<in> set fs)" if "e \<in> set extras" for e
  proof -
    from f have h: "list_all2 (\<lambda>extra c. holds (the extra) c) (drop 2 (cls_cells st)) extras" by (simp add: finished_def)
    with that obtain x where x: "x \<in> set (drop 2 (cls_cells st))" "holds (the x) e"
      by (metis in_set_conv_nth list_all2_conv_all_nth)
    from shape_extra [OF s(1) x(1)] obtain b where b: "x = Some b" by blast
    with x in_set_dropD [OF x(1)] within show ?thesis by (auto simp: holds_def)
  qed
  from r consider "r \<in> set (cb_refs root)" | "r = TonCell [] [] False 0" | "r \<in> set extras" using f by (auto simp: finished_def)
  then show ?thesis using within [OF root] extra by cases auto
qed

lemma cl_declare_depth:
  assumes T: "builder_ok T" and fs: "list_all field_ok fs" and c: "cl_declare T name fs = Inr cell"
    and d: "\<And>r. ClRef r \<in> set fs \<Longrightarrow> cell_depth r \<le> d"
  shows "cell_depth cell \<le> d + 2"
proof (rule order_trans [OF depth_le [of cell "Suc d"]])
  fix r
  assume "r \<in> set (tc_refs cell)"
  from cl_declare_below [OF T fs c this] consider "ClRef r \<in> set fs" | "r = TonCell [] [] False 0" | "\<forall>s \<in> set (tc_refs r). ClRef s \<in> set fs" by blast
  then show "cell_depth r \<le> Suc d" using d by cases (auto simp: le_SucI intro!: depth_le)
qed simp

text \<open>Cells below which every level is zero.\<close>

definition plain_cell :: "ton_cell \<Rightarrow> bool" where
  "plain_cell c \<longleftrightarrow> (\<forall>d \<in> subcells c. tc_level d = 0)"

lemma plain_cell_eq: "plain_cell c \<longleftrightarrow> tc_level c = 0 \<and> (\<forall>r \<in> set (tc_refs c). plain_cell r)"
  unfolding plain_cell_def by (subst subcells_eq) auto

lemma cl_declare_plain:
  assumes T: "builder_ok T" and fs: "list_all field_ok fs" and c: "cl_declare T name fs = Inr cell" "tc_level cell = 0"
    and p: "\<And>r. ClRef r \<in> set fs \<Longrightarrow> plain_cell r"
  shows "plain_cell cell"
  unfolding plain_cell_eq [of cell]
proof (intro conjI ballI c(2))
  fix r
  assume "r \<in> set (tc_refs cell)"
  from cl_declare_below [OF T fs c(1) this] show "plain_cell r"
    using p plain_cell_eq [of r] by (auto simp: plain_cell_def)
qed

text \<open>
  C25: the class encoding is read back. Over any cell library with the documented parser and builder, encoding a class never
  panics; when it returns a cell, whichever data cells the fields went to, the name and every
  field of the cell are read as they were given; and it does return a cell when the fields need at most three data cells
  and their references are not too deep.
\<close>

theorem class_roundtrip:
  assumes T: "parser_ok T" "builder_ok T" and name: "name_ok name" and fs: "list_all field_ok fs"
  shows "cl_declare T name fs \<noteq> Inl TonPanic \<and>
    (\<forall>cell. cl_declare T name fs = Inr cell \<longrightarrow> class_holds T name fs cell) \<and>
    (class_fits fs \<longrightarrow> (\<exists>cell. cl_declare T name fs = Inr cell))"
  using cl_declare_no_panic [OF T(2) fs] cl_declare_holds [OF T name fs] cl_declare_fits [OF T(2) name fs] by blast

text \<open>Three numbers of 256 bits need a second data cell.\<close>

definition sample_fields :: "cl_field list" where
  "sample_fields = [ClNum T_UINT256 5, ClNum T_UINT256 6, ClNum T_UINT256 7, ClRef sample_leaf]"

theorem class_roundtrip_witness:
  "class_cells sample_fields = 2 \<and>
   (\<exists>cell. cl_declare ref_ton_core ''Attest'' sample_fields = Inr cell \<and>
     cl_get_uint_be ref_ton_core cell 2 256 = Inr (replicate 31 0 @ [7]) \<and> cl_get_ref ref_ton_core cell 3 = Inr sample_leaf)"
proof -
  have w: "type_width T_UINT256 = 256" by (simp add: type_width_def cl_widths)
  have name: "name_ok ''Attest''" by (simp add: name_ok_def)
  have cells: "class_cells sample_fields = 2" by (simp add: class_cells_def sample_fields_def cells_used_def type_width_def Let_def cl_widths)
  have fs: "list_all field_ok sample_fields" "class_fits sample_fields"
    using cells by (auto simp: sample_fields_def field_ok_def class_fits_def w sample_leaf_def MAX_CELL_DEPTH_def MAX_CLASS_FIELDS_def)
  from class_roundtrip [OF ref_parser_ok ref_builder_ok name fs(1)] fs(2) obtain cell where
    cell: "cl_declare ref_ton_core ''Attest'' sample_fields = Inr cell" "class_holds ref_ton_core ''Attest'' sample_fields cell" by blast
  have reads: "field_reads ref_ton_core cell i (sample_fields ! i)" if "i < 4" for i
    using cell(2) that by (simp add: class_holds_def sample_fields_def)
  have "cl_get_uint_be ref_ton_core cell 2 256 = Inr (be_encode 32 7)" "cl_get_ref ref_ton_core cell 3 = Inr sample_leaf"
    using reads [of 2] reads [of 3] by (simp_all add: field_reads_def sample_fields_def w)
  moreover have "be_encode (31 + Suc 0) 7 = replicate 31 0 @ be_encode (Suc 0) 7" by (rule be_encode_pad) simp
  then have "be_encode 32 7 = replicate 31 0 @ [7]" by simp
  ultimately show ?thesis using cell(1) cells by auto
qed

end
