(* ===== verification/Ton_Payload.thy ===== *)
theory Ton_Payload
  imports Ton_Class
begin

text \<open>
  The DVN call of the TON destination: the classes of \<^verbatim>\<open>ton/builders.rs\<close>, the contract addresses of
  \<^verbatim>\<open>ton/address.rs\<close>, their assembly in \<^verbatim>\<open>ton/payload.rs\<close> and the payload builder of \<^verbatim>\<open>ton_v3_builder.rs\<close>. The digest
  that is signed is the representation hash of a cell that holds the call.
\<close>

section \<open>Classes\<close>

definition OP_ULN_VERIFY :: nat where "OP_ULN_VERIFY = 2571808590"

definition require_nonneg :: "int \<Rightarrow> string \<Rightarrow> u64 res" where
  "require_nonneg v field =
     (if v < 0 then Inl (Internal (''TON '' @ field @ '' must be non-negative, got '' @ show_int v)) else Inr (word_of_int v))"

definition CELL_BYTES :: nat where "CELL_BYTES = 127"

function byte_chunks :: "bytes \<Rightarrow> bytes list" where
  "byte_chunks bs = (if bs = [] then [] else take CELL_BYTES bs # byte_chunks (drop CELL_BYTES bs))"
  by pat_completeness auto

termination
  by (relation "measure length") (auto simp: CELL_BYTES_def)

declare byte_chunks.simps [simp del]

definition bytes_bits :: "bytes \<Rightarrow> bool list" where
  "bytes_bits bs = concat (map (\<lambda>b. num_bits 8 (unat b)) bs)"

text \<open>The chunks are wrapped from the last one.\<close>

fun snake_cells :: "ton_core \<Rightarrow> bytes list \<Rightarrow> ton_cell option \<Rightarrow> ton_fault + ton_cell" where
  "snake_cells T [] acc = ok_or TonPanic acc"
| "snake_cells T (chunk # chunks) acc =
     and_then (core_call (core_write_bits T (bytes_bits chunk) new_builder)) (\<lambda>b.
     and_then (case acc of None \<Rightarrow> Inr b | Some child \<Rightarrow> core_call (core_write_ref T child b)) (\<lambda>b.
     and_then (ton_build T b) (\<lambda>c. snake_cells T chunks (Some c))))"

definition hex_to_cells :: "external \<Rightarrow> ton_core \<Rightarrow> string \<Rightarrow> ton_fault + ton_cell" where
  "hex_to_cells X T hex =
     (let body = strip_0x hex; max_bytes = MAX_CELL_DEPTH * 127 in
      if max_bytes * 2 < length body
      then Inl (TonError (BadRequest (''TON message exceeds the '' @ show_nat max_bytes @ ''-byte cell-depth budget'')))
      else if length body * 4 = 0 then ton_build T new_builder
      else
        and_then (map_err (\<lambda>e. TonError (Internal (''TON message hex decode: '' @ e))) (hex_decode X body)) (\<lambda>bs.
          snake_cells T (rev (byte_chunks bs)) None))"

definition build_attestation :: "ton_core \<Rightarrow> bytes \<Rightarrow> int \<Rightarrow> ton_fault + ton_cell" where
  "build_attestation T hash_be block_confirmations =
     and_then (lift_err (require_nonneg block_confirmations ''confirmations'')) (\<lambda>n.
       cl_declare T ''Attest'' [cl_u256_be T_UINT256 hash_be, ClNum T_UINT64 (unat n)])"

definition build_uln_verification :: "ton_core \<Rightarrow> u64 \<Rightarrow> ton_cell \<Rightarrow> ton_fault + ton_cell" where
  "build_uln_verification T nonce attestation =
     cl_declare T ''UlnVerify'' [ClNum T_UINT64 (unat nonce), ClRef attestation]"

definition build_md_address :: "ton_core \<Rightarrow> ton_cell \<Rightarrow> bytes \<Rightarrow> ton_fault + ton_cell" where
  "build_md_address T md address_be = cl_declare T ''MdAddr'' [ClRef md, cl_u256_be T_UINT256 address_be]"

definition build_uln_call_data :: "ton_core \<Rightarrow> bytes \<Rightarrow> u64 \<Rightarrow> int \<Rightarrow> bytes \<Rightarrow> ton_fault + ton_cell" where
  "build_uln_call_data T uln_connection_address_be nonce block_confirmation packet_hash_be =
     and_then (build_attestation T packet_hash_be block_confirmation) (\<lambda>attestation.
     and_then (build_uln_verification T nonce attestation) (\<lambda>uln_verification.
       build_md_address T uln_verification uln_connection_address_be))"

definition build_lz_path :: "ton_core \<Rightarrow> u32 \<Rightarrow> bytes \<Rightarrow> u32 \<Rightarrow> bytes \<Rightarrow> ton_fault + ton_cell" where
  "build_lz_path T src_eid src_oapp_be dst_eid dst_oapp_be =
     cl_declare T ''path''
       [ClNum T_UINT32 (unat src_eid), cl_u256_be T_UINT256 src_oapp_be, ClNum T_UINT32 (unat dst_eid), cl_u256_be T_UINT256 dst_oapp_be]"

definition build_lz_packet :: "external \<Rightarrow> ton_core \<Rightarrow> ton_cell \<Rightarrow> string \<Rightarrow> u64 \<Rightarrow> bytes \<Rightarrow> ton_fault + ton_cell" where
  "build_lz_packet X T path message_hex nonce guid_be =
     and_then (hex_to_cells X T message_hex) (\<lambda>message.
       cl_declare T ''Packet'' [ClRef path, ClRef message, ClNum T_UINT64 (unat nonce), cl_u256_be T_UINT256 guid_be])"

definition build_execute_params :: "ton_core \<Rightarrow> bytes \<Rightarrow> ton_cell \<Rightarrow> int \<Rightarrow> nat \<Rightarrow> bytes \<Rightarrow> ton_fault + ton_cell" where
  "build_execute_params T target_be call_data expiration opcode forwarding_address_be =
     and_then (lift_err (require_nonneg expiration ''expiration'')) (\<lambda>expiration.
       cl_declare T ''execParams''
         [cl_u256_be T_UINT256 target_be, ClRef call_data, ClNum T_UINT64 (unat expiration), ClNum T_UINT32 opcode,
          cl_u256_be T_UINT256 forwarding_address_be])"

section \<open>Addresses\<close>

text \<open>\<open>str::trim\<close>: the encodings of the white space characters are removed at both ends.\<close>

definition byte_char :: "nat \<Rightarrow> char" where "byte_char n = char_of n"

definition white_spaces :: "string list" where
  "white_spaces =
     map (\<lambda>n. [byte_char n]) [9, 10, 11, 12, 13, 32] @
     map (map byte_char) ([[0xC2, 0x85], [0xC2, 0xA0], [0xE1, 0x9A, 0x80], [0xE2, 0x80, 0xA8], [0xE2, 0x80, 0xA9],
       [0xE2, 0x80, 0xAF], [0xE2, 0x81, 0x9F], [0xE3, 0x80, 0x80]] @ map (\<lambda>n. [0xE2, 0x80, n]) [0x80..<0x8B])"

lemma white_spaces_nonempty: "w \<in> set white_spaces \<Longrightarrow> w \<noteq> []"
  by (auto simp: white_spaces_def)

function strip_any :: "string list \<Rightarrow> string \<Rightarrow> string" where
  "strip_any ws s =
     (case find (\<lambda>w. w \<noteq> [] \<and> take (length w) s = w) ws of None \<Rightarrow> s | Some w \<Rightarrow> strip_any ws (drop (length w) s))"
  by pat_completeness auto

termination
proof (relation "measure (\<lambda>(ws, s). length s)")
  fix ws s w
  assume "find (\<lambda>w. w \<noteq> [] \<and> take (length w) s = w) ws = Some w"
  then have "w \<noteq> []" "take (length w) s = w" by (auto simp: find_Some_iff)
  then show "((ws, drop (length w) s), (ws, s)) \<in> measure (\<lambda>(ws, s). length s)" by (cases s) auto
qed simp

declare strip_any.simps [simp del]

definition str_trim :: "string \<Rightarrow> string" where
  "str_trim s = rev (strip_any (map rev white_spaces) (rev (strip_any white_spaces s)))"

definition strip_prefix_0x :: "string \<Rightarrow> string option" where
  "strip_prefix_0x s = (case s of a # b # rest \<Rightarrow> if a = CHR ''0'' \<and> b = CHR ''x'' then Some rest else None | _ \<Rightarrow> None)"

definition address_to_be32 :: "ton_core \<Rightarrow> string \<Rightarrow> ton_fault + bytes" where
  "address_to_be32 T v =
     (let trimmed = str_trim v in
      and_then (case strip_prefix_0x trimmed of
          Some hex_part \<Rightarrow> ok_or (TonError (Internal (''invalid hex address: '' @ v))) (core_parse_biguint16 T hex_part)
        | None \<Rightarrow> map_ok (\<lambda>addr. be_decode (addr_hash addr))
            (map_err (\<lambda>e. TonError (Internal (''invalid TON address '' @ v @ '': '' @ e))) (core_parse_address T trimmed))) (\<lambda>n.
      let raw = to_bytes_be n in
      if 32 < length raw then Inl (TonError (Internal (''address exceeds 256 bits: '' @ v)))
      else Inr (replicate (32 - length raw) 0 @ raw)))"

definition empty_cell :: "ton_core \<Rightarrow> ton_fault + ton_cell" where
  "empty_cell T = ton_build T new_builder"

definition build_base_storage :: "ton_core \<Rightarrow> bytes \<Rightarrow> ton_fault + ton_cell" where
  "build_base_storage T owner_be =
     and_then (empty_cell T) (\<lambda>empty.
       cl_declare T ''baseStore'' [cl_u256_be T_UINT256 owner_be, ClNum 0 0, ClNum 0 0, ClRef empty])"

definition build_uln_receive_config_default :: "ton_core \<Rightarrow> ton_fault + ton_cell" where
  "build_uln_receive_config_default T =
     and_then (empty_cell T) (\<lambda>required.
     and_then (empty_cell T) (\<lambda>optional.
       cl_declare T ''UlnRecvCfg''
         [ClNum 0 1, ClNum T_UINT32 0, ClNum 0 1, ClNum T_UINT64 0, ClNum 0 1, ClRef required, ClNum 0 1, ClRef optional, ClNum T_UINT8 0]))"

definition build_uln_send_config_default :: "ton_core \<Rightarrow> ton_fault + ton_cell" where
  "build_uln_send_config_default T =
     and_then (empty_cell T) (\<lambda>required.
     and_then (empty_cell T) (\<lambda>optional.
       cl_declare T ''UlnSendCfg''
         [ClNum T_UINT32 0, ClNum T_UINT32 0, ClNum 0 1, cl_u256_be T_UINT256 (replicate 32 0), ClNum 0 1, ClRef required,
          ClNum 0 1, ClRef optional, ClNum 0 1, ClNum T_UINT64 0]))"

definition build_uln_data :: "ton_core \<Rightarrow> bytes \<Rightarrow> u32 \<Rightarrow> u32 \<Rightarrow> ton_fault + ton_cell" where
  "build_uln_data T uln_manager_be contract_src_eid contract_dst_eid =
     and_then (build_base_storage T uln_manager_be) (\<lambda>base.
     and_then (build_uln_receive_config_default T) (\<lambda>receive_config.
     and_then (build_uln_send_config_default T) (\<lambda>send_config.
     and_then (empty_cell T) (\<lambda>connection_code.
     and_then (empty_cell T) (\<lambda>worker_infos.
       cl_declare T ''uln''
         [ClRef base, ClNum T_UINT32 (unat contract_src_eid), ClNum T_UINT32 (unat contract_dst_eid), ClRef receive_config,
          ClRef send_config, ClRef connection_code, ClRef worker_infos, ClNum T_UINT16 0, ClNum T_UINT16 0, ClNum T_UINT16 0])))))"

definition build_uln_connection_data :: "ton_core \<Rightarrow> bytes \<Rightarrow> u32 \<Rightarrow> bytes \<Rightarrow> u32 \<Rightarrow> bytes \<Rightarrow> bytes \<Rightarrow> ton_fault + ton_cell" where
  "build_uln_connection_data T uln_manager_be path_src_eid path_src_oapp_be path_dst_eid path_dst_oapp_be uln_address_be =
     and_then (cl_declare T ''path''
         [ClNum T_UINT32 (unat path_src_eid), cl_u256_be T_UINT256 path_src_oapp_be, ClNum T_UINT32 (unat path_dst_eid),
          cl_u256_be T_UINT256 path_dst_oapp_be]) (\<lambda>path.
     and_then (build_base_storage T uln_manager_be) (\<lambda>base.
     and_then (build_uln_send_config_default T) (\<lambda>send_config.
     and_then (build_uln_receive_config_default T) (\<lambda>receive_config.
     and_then (empty_cell T) (\<lambda>hash_lookups.
     and_then (empty_cell T) (\<lambda>commit_pooo.
       cl_declare T ''connection''
         [ClRef base, ClRef path, cl_u256_be T_UINT256 (replicate 32 0), cl_u256_be T_UINT256 (replicate 32 0), ClNum T_UINT64 1,
          cl_u256_be T_UINT256 uln_address_be, ClRef send_config, ClRef receive_config, ClRef hash_lookups, ClRef commit_pooo]))))))"

record ton_contract_code_cells =
  code_uln :: string
  code_uln_connection :: string

record ton_pathway =
  tp_src_eid :: u32
  tp_dst_eid :: u32
  tp_sender :: string
  tp_receiver :: string
  tp_uln_manager_address :: string

record derived_addresses =
  der_uln :: ton_address
  der_uln_connection :: ton_address

definition boc_from_hex :: "external \<Rightarrow> ton_core \<Rightarrow> string \<Rightarrow> ton_fault + ton_cell" where
  "boc_from_hex X T hex =
     and_then (core_call (hex_decode X (trim_start_0x hex))) (\<lambda>bs. lift_err (boc_from_bytes (core_parse_boc T) bs))"

definition state_init_address :: "ton_core \<Rightarrow> int \<Rightarrow> ton_cell \<Rightarrow> ton_cell \<Rightarrow> ton_fault + ton_address" where
  "state_init_address T workchain code data =
     and_then (core_call (core_write_bit T False new_builder)) (\<lambda>b.
     and_then (core_call (core_write_bit T False b)) (\<lambda>b.
     and_then (core_call (core_write_bit T True b)) (\<lambda>b.
     and_then (core_call (core_write_ref T code b)) (\<lambda>b.
     and_then (core_call (core_write_bit T True b)) (\<lambda>b.
     and_then (core_call (core_write_ref T data b)) (\<lambda>b.
     and_then (core_call (core_write_bit T False b)) (\<lambda>b.
     and_then (ton_build T b) (\<lambda>state_init.
     and_then (hash_of (core_hash T) state_init) (\<lambda>hash.
       Inr \<lparr>addr_workchain = workchain, addr_hash = hash\<rparr>)))))))))"

text \<open>\<open>try_into().expect("32-byte hash")\<close>.\<close>

definition hash_be32 :: "ton_address \<Rightarrow> ton_fault + bytes" where
  "hash_be32 addr = (if length (addr_hash addr) = 32 then Inr (addr_hash addr) else Inl TonPanic)"

definition derive_uln_addresses :: "external \<Rightarrow> ton_core \<Rightarrow> ton_pathway \<Rightarrow> ton_contract_code_cells \<Rightarrow> ton_fault + derived_addresses" where
  "derive_uln_addresses X T pathway code =
     and_then (address_to_be32 T (tp_uln_manager_address pathway)) (\<lambda>uln_manager_be.
     and_then (address_to_be32 T (tp_sender pathway)) (\<lambda>sender_be.
     and_then (address_to_be32 T (tp_receiver pathway)) (\<lambda>receiver_be.
       let c_src_eid = tp_dst_eid pathway; c_dst_eid = tp_src_eid pathway in
     and_then (boc_from_hex X T (code_uln code)) (\<lambda>uln_code.
     and_then (boc_from_hex X T (code_uln_connection code)) (\<lambda>uln_conn_code.
     and_then (build_uln_data T uln_manager_be c_src_eid c_dst_eid) (\<lambda>uln_data.
     and_then (state_init_address T 0 uln_code uln_data) (\<lambda>uln.
     and_then (hash_be32 uln) (\<lambda>uln_addr_be.
     and_then (build_uln_connection_data T uln_manager_be c_src_eid receiver_be c_dst_eid sender_be uln_addr_be) (\<lambda>uln_conn_data.
     and_then (state_init_address T 0 uln_conn_code uln_conn_data) (\<lambda>uln_connection.
       Inr \<lparr>der_uln = uln, der_uln_connection = uln_connection\<rparr>))))))))))"

section \<open>The call\<close>

record ton_dvn_verify_request =
  tv_src_eid :: u32
  tv_dst_eid :: u32
  tv_sender :: string
  tv_receiver :: string
  tv_guid :: string
  tv_nonce :: u64
  tv_message :: string
  tv_block_confirmation :: int
  tv_expiration :: int
  tv_uln_manager_address :: string
  tv_target :: string
  tv_code :: ton_contract_code_cells

record ton_dvn_verify_output =
  tvo_hash_call_data :: string
  tvo_dvn_call_data_boc :: string
  tvo_uln_call_data_boc :: string
  tvo_target_contract :: string
  tvo_packet_hash :: string

definition hex_to_be32 :: "external \<Rightarrow> string \<Rightarrow> ton_fault + bytes" where
  "hex_to_be32 X hex =
     and_then (map_err (\<lambda>e. TonError (Internal (''TON hex32 decode '' @ hex @ '': '' @ e))) (hex_decode X (trim_start_0x hex))) (\<lambda>bs.
       if 32 < length bs then Inl (TonError (Internal (''value exceeds 32 bytes: '' @ hex)))
       else Inr (replicate (32 - length bs) 0 @ bs))"

definition repr_hash_hex :: "ton_core \<Rightarrow> ton_cell \<Rightarrow> ton_fault + string" where
  "repr_hash_hex T cell = map_ok (core_hash_to_hex T) (hash_of (core_hash T) cell)"

definition boc_to_hex :: "external \<Rightarrow> ton_core \<Rightarrow> (bytes \<Rightarrow> u32) \<Rightarrow> ton_cell \<Rightarrow> ton_fault + string" where
  "boc_to_hex X T crc cell = map_ok (hex_encode X) (serialize_boc (core_hash T) crc cell)"

definition request_pathway :: "ton_dvn_verify_request \<Rightarrow> ton_pathway" where
  "request_pathway req =
     \<lparr>tp_src_eid = tv_src_eid req, tp_dst_eid = tv_dst_eid req, tp_sender = tv_sender req, tp_receiver = tv_receiver req,
      tp_uln_manager_address = tv_uln_manager_address req\<rparr>"

text \<open>The packet, from the pathway as the message has it.\<close>

definition ton_packet :: "external \<Rightarrow> ton_core \<Rightarrow> ton_dvn_verify_request \<Rightarrow> ton_fault + ton_cell" where
  "ton_packet X T req =
     and_then (address_to_be32 T (tv_sender req)) (\<lambda>sender_be.
     and_then (address_to_be32 T (tv_receiver req)) (\<lambda>receiver_be.
     and_then (build_lz_path T (tv_src_eid req) sender_be (tv_dst_eid req) receiver_be) (\<lambda>path.
     and_then (hex_to_be32 X (tv_guid req)) (\<lambda>guid_be.
       build_lz_packet X T path (tv_message req) (tv_nonce req) guid_be))))"

definition build_ton_dvn_verify :: "external \<Rightarrow> ton_core \<Rightarrow> (bytes \<Rightarrow> u32) \<Rightarrow> ton_dvn_verify_request \<Rightarrow> ton_fault + ton_dvn_verify_output" where
  "build_ton_dvn_verify X T crc req =
     and_then (derive_uln_addresses X T (request_pathway req) (tv_code req)) (\<lambda>derived.
     and_then (hash_be32 (der_uln derived)) (\<lambda>uln_addr_be.
     and_then (hash_be32 (der_uln_connection derived)) (\<lambda>uln_conn_addr_be.
     and_then (ton_packet X T req) (\<lambda>packet.
     and_then (repr_hash_hex T packet) (\<lambda>packet_hash.
     and_then (hex_to_be32 X packet_hash) (\<lambda>packet_hash_be.
     and_then (build_uln_call_data T uln_conn_addr_be (tv_nonce req) (tv_block_confirmation req) packet_hash_be) (\<lambda>uln_call_data.
     and_then (boc_to_hex X T crc uln_call_data) (\<lambda>uln_call_data_boc.
     and_then (address_to_be32 T (tv_target req)) (\<lambda>target_be.
     and_then (build_execute_params T target_be uln_call_data (tv_expiration req) OP_ULN_VERIFY uln_addr_be) (\<lambda>dvn_call_data.
     and_then (repr_hash_hex T dvn_call_data) (\<lambda>hash.
     and_then (boc_to_hex X T crc dvn_call_data) (\<lambda>dvn_call_data_boc.
       Inr \<lparr>tvo_hash_call_data = with_0x hash, tvo_dvn_call_data_boc = dvn_call_data_boc, tvo_uln_call_data_boc = uln_call_data_boc,
            tvo_target_contract = with_0x (hex_encode X uln_addr_be), tvo_packet_hash = packet_hash\<rparr>))))))))))))"

section \<open>The payload builder\<close>

definition DEPRECATED_ULN_OAPPS :: "string list" where
  "DEPRECATED_ULN_OAPPS =
     [''0x4b2266a1a27489d16379cba37887f3c6c6c6d1bcf6a8fba4565f1d217cfec668'',
      ''0x170725394aa56136fbd27d0ce31d8a98e0f8ae72a4d2379b5dde83e211a2d5fa'',
      ''0x90d9ff1c7814705fcc74f8b7598476d65f3b9536fc132729b0606f0be82e617f'',
      ''0x23a676145f8dee3632f722aac50392f22cf0b4be8f624e038279a6f5005fb669'',
      ''0x0f87d442a6b820e642ae9ad262f2e07b9c529cb4f070b9152ef362604c69b392'',
      ''0x9bbbaa9b874e40b94b3005062c393379cda58711b0a9873131cebb17a4f10f6b'']"

definition uses_deprecated_uln :: "string \<Rightarrow> bool" where
  "uses_deprecated_uln receiver \<longleftrightarrow> receiver \<in> set DEPRECATED_ULN_OAPPS"

text \<open>
  The configuration of the builder; \<open>tb_storage_target\<close> stands for the quorum of the provider reads of the DVN proxy,
  by chain and address.
\<close>

record runtime_ton_builder =
  tb_code :: ton_contract_code_cells
  tb_deprecated_code :: ton_contract_code_cells
  tb_uln_manager_address :: string
  tb_deprecated_uln_manager_address :: string
  tb_storage_target :: "string \<Rightarrow> string \<Rightarrow> string option res"

definition resolve_target :: "runtime_ton_builder \<Rightarrow> string \<Rightarrow> string \<Rightarrow> string res" where
  "resolve_target B chain dvn_address =
     map_ok (\<lambda>target. case target of Some t \<Rightarrow> t | None \<Rightarrow> dvn_address) (tb_storage_target B chain dvn_address)"

text \<open>The request for an event.\<close>

definition ton_request :: "runtime_ton_builder \<Rightarrow> lz_sent_event \<Rightarrow> int \<Rightarrow> int \<Rightarrow> string \<Rightarrow> ton_dvn_verify_request res" where
  "ton_request B ev block_confirmation expiration target =
     and_then (extra_u32 ev ''srcEid'') (\<lambda>src_eid.
     and_then (extra_u32 ev ''dstEid'') (\<lambda>dst_eid.
     and_then (pathway_extra_string ev ''sender'') (\<lambda>sender.
     and_then (pathway_extra_string ev ''receiver'') (\<lambda>receiver.
     and_then (extra_string ev ''guid'') (\<lambda>guid.
       let (uln_manager_address, code) =
         (if uses_deprecated_uln receiver then (tb_deprecated_uln_manager_address B, tb_deprecated_code B)
          else (tb_uln_manager_address B, tb_code B)) in
       Inr \<lparr>tv_src_eid = src_eid, tv_dst_eid = dst_eid, tv_sender = sender, tv_receiver = receiver, tv_guid = guid,
            tv_nonce = msg_nonce (ev_lz_message_id ev), tv_message = ev_message ev, tv_block_confirmation = block_confirmation,
            tv_expiration = expiration, tv_uln_manager_address = uln_manager_address, tv_target = target, tv_code = code\<rparr>)))))"

definition ton_op_verify :: string where "ton_op_verify = ''2571808590''"

definition ton_build_uln_v3 ::
    "external \<Rightarrow> ton_core \<Rightarrow> (bytes \<Rightarrow> u32) \<Rightarrow> runtime_ton_builder \<Rightarrow> lz_sent_event \<Rightarrow> int \<Rightarrow> int \<Rightarrow> string \<Rightarrow> string option \<Rightarrow>
     ton_fault + hash_call_data_result" where
  "ton_build_uln_v3 X T crc B ev block_confirmation expiration v_id dvn_address =
     and_then (lift_err (case dvn_address of
         None \<Rightarrow> Inl (Internal ''Cannot read properties of undefined (reading 'startsWith')'')
       | Some address \<Rightarrow> if address = [] then Inl (Internal ''Cannot convert 0x to a BigInt'') else Inr address)) (\<lambda>address.
     and_then (lift_err (resolve_target B (dst_chain_name (ev_pathway ev)) address)) (\<lambda>target.
     and_then (lift_err (ton_request B ev block_confirmation expiration target)) (\<lambda>req.
     and_then (build_ton_dvn_verify X T crc req) (\<lambda>output.
       Inr \<lparr>hash_call_data = tvo_hash_call_data output,
            hc_details = builder_details (tvo_dvn_call_data_boc output) (json_i64 expiration) v_id (tvo_target_contract output)
              (tvo_uln_call_data_boc output) ton_op_verify
              [(''lookupHash'', JString (tvo_packet_hash output)), (''blockData'', JString (tvo_packet_hash output))]
              (json_i64 block_confirmation) ev\<rparr>))))"

end
