(* ===== verification/Ton_Storage.thy ===== *)
theory Ton_Storage
  imports Ton_Class_Laws Ton_Payload Ton_Dict
begin

text \<open>
  Decoding of TON contract storage: the payload-signed check of \<^verbatim>\<open>ton/payload_signed.rs\<close>, the DVN proxy of \<^verbatim>\<open>ton/proxy.rs\<close>, the
  worker options of \<^verbatim>\<open>ton/options.rs\<close> and the refusing builder of \<^verbatim>\<open>ton/mod.rs\<close>. Reading an address list and a dictionary are loops
  over calls of the cell library; \<open>None\<close> is a read that does not return.
\<close>

section \<open>The payload-signed check\<close>

definition ULN_CONNECTION_HASH_LOOKUPS :: nat where "ULN_CONNECTION_HASH_LOOKUPS = 8"
definition ULN_CONNECTION_RECEIVE_CONFIG :: nat where "ULN_CONNECTION_RECEIVE_CONFIG = 7"
definition ULN_DEFAULT_RECEIVE_CONFIG :: nat where "ULN_DEFAULT_RECEIVE_CONFIG = 3"
definition ATTESTATION_HASH :: nat where "ATTESTATION_HASH = 0"
definition ATTESTATION_CONFIRMATIONS :: nat where "ATTESTATION_CONFIRMATIONS = 1"
definition RECEIVE_CONFIG_CONFIRMATIONS_NULL :: nat where "RECEIVE_CONFIG_CONFIRMATIONS_NULL = 2"
definition RECEIVE_CONFIG_CONFIRMATIONS :: nat where "RECEIVE_CONFIG_CONFIRMATIONS = 3"
definition RECEIVE_CONFIG_REQUIRED_DVNS_NULL :: nat where "RECEIVE_CONFIG_REQUIRED_DVNS_NULL = 4"
definition RECEIVE_CONFIG_REQUIRED_DVNS :: nat where "RECEIVE_CONFIG_REQUIRED_DVNS = 5"
definition RECEIVE_CONFIG_OPTIONAL_DVNS_NULL :: nat where "RECEIVE_CONFIG_OPTIONAL_DVNS_NULL = 6"
definition RECEIVE_CONFIG_OPTIONAL_DVNS :: nat where "RECEIVE_CONFIG_OPTIONAL_DVNS = 7"

lemmas storage_indices = ULN_CONNECTION_HASH_LOOKUPS_def ULN_CONNECTION_RECEIVE_CONFIG_def ULN_DEFAULT_RECEIVE_CONFIG_def
  ATTESTATION_HASH_def ATTESTATION_CONFIRMATIONS_def RECEIVE_CONFIG_CONFIRMATIONS_NULL_def RECEIVE_CONFIG_CONFIRMATIONS_def
  RECEIVE_CONFIG_REQUIRED_DVNS_NULL_def RECEIVE_CONFIG_REQUIRED_DVNS_def RECEIVE_CONFIG_OPTIONAL_DVNS_NULL_def
  RECEIVE_CONFIG_OPTIONAL_DVNS_def

record ton_payload_signed_request =
  tps_src_eid :: u32
  tps_dst_eid :: u32
  tps_sender :: string
  tps_receiver :: string
  tps_guid :: string
  tps_nonce :: u64
  tps_message :: string
  tps_uln_manager_address :: string
  tps_code :: ton_contract_code_cells

record payload_signed_targets =
  pst_uln_address :: string
  pst_uln_connection_address :: string
  pst_packet_boc_base64 :: string
  pst_packet_hash_be :: bytes

definition boc_to_base64 :: "ton_core \<Rightarrow> (bytes \<Rightarrow> u32) \<Rightarrow> (bytes \<Rightarrow> string) \<Rightarrow> ton_cell \<Rightarrow> ton_fault + string" where
  "boc_to_base64 T crc base64_encode cell = map_ok base64_encode (serialize_boc (core_hash T) crc cell)"

definition ton_payload_signed_targets ::
    "external \<Rightarrow> ton_core \<Rightarrow> (bytes \<Rightarrow> u32) \<Rightarrow> (bytes \<Rightarrow> string) \<Rightarrow> ton_payload_signed_request \<Rightarrow> ton_fault + payload_signed_targets" where
  "ton_payload_signed_targets X T crc base64_encode request =
     and_then (derive_uln_addresses X T
         \<lparr>tp_src_eid = tps_src_eid request, tp_dst_eid = tps_dst_eid request, tp_sender = tps_sender request,
          tp_receiver = tps_receiver request, tp_uln_manager_address = tps_uln_manager_address request\<rparr> (tps_code request)) (\<lambda>derived.
     and_then (address_to_be32 T (tps_sender request)) (\<lambda>sender_be.
     and_then (address_to_be32 T (tps_receiver request)) (\<lambda>receiver_be.
     and_then (build_lz_path T (tps_src_eid request) sender_be (tps_dst_eid request) receiver_be) (\<lambda>path.
     and_then (hex_to_be32 X (tps_guid request)) (\<lambda>guid_be.
     and_then (build_lz_packet X T path (tps_message request) (tps_nonce request) guid_be) (\<lambda>packet.
     and_then (boc_to_base64 T crc base64_encode packet) (\<lambda>packet_boc.
     and_then (repr_hash_hex T packet) (\<lambda>packet_hash.
     and_then (hex_to_be32 X packet_hash) (\<lambda>packet_hash_be.
       Inr \<lparr>pst_uln_address = core_show_address T (der_uln derived), pst_uln_connection_address = core_show_address T (der_uln_connection derived),
            pst_packet_boc_base64 = packet_boc, pst_packet_hash_be = packet_hash_be\<rparr>)))))))))"

definition committable_view_is_signed :: "u64 \<Rightarrow> bool" where
  "committable_view_is_signed state \<longleftrightarrow> 1 \<le> state \<and> state \<le> 3"

text \<open>A call that may not return, in a sequence.\<close>

definition ret_then :: "(ton_fault + 'a) option \<Rightarrow> ('a \<Rightarrow> (ton_fault + 'b) option) \<Rightarrow> (ton_fault + 'b) option" where
  "ret_then r f = (case r of None \<Rightarrow> None | Some (Inl e) \<Rightarrow> Some (Inl e) | Some (Inr x) \<Rightarrow> f x)"

lemma ret_then_simps [simp]: "ret_then (Some (Inr x)) f = f x" "ret_then (Some (Inl e)) f = Some (Inl e)" "ret_then None f = None"
  by (simp_all add: ret_then_def)

text \<open>The addresses of one cell, then the chain of cells.\<close>

partial_function (option) read_addresses :: "ton_core \<Rightarrow> cell_parser \<Rightarrow> bytes list \<Rightarrow> (ton_fault + bytes list \<times> cell_parser) option" where
  "read_addresses T parser addresses =
     (case core_call (core_data_bits_left T parser) of
        Inl e \<Rightarrow> Some (Inl e)
      | Inr n \<Rightarrow>
          if n < 256 then Some (Inr (addresses, parser))
          else (case core_call (core_read_bits T 256 parser) of
                  Inl e \<Rightarrow> Some (Inl e)
                | Inr (address, parser) \<Rightarrow> read_addresses T parser (addresses @ [pack_bits address])))"

partial_function (option) address_nodes :: "ton_core \<Rightarrow> ton_cell \<Rightarrow> bytes list \<Rightarrow> (ton_fault + bytes list) option" where
  "address_nodes T node addresses =
     (case lift_err (require_ordinary node) of
        Inl e \<Rightarrow> Some (Inl e)
      | Inr _ \<Rightarrow>
          (case read_addresses T (cell_parser_of node) addresses of
             None \<Rightarrow> None
           | Some (Inl e) \<Rightarrow> Some (Inl e)
           | Some (Inr (addresses, parser)) \<Rightarrow>
               if 0 < length (cp_refs parser)
               then (case core_call (core_read_next_ref T parser) of
                       Inl e \<Rightarrow> Some (Inl e)
                     | Inr (node, _) \<Rightarrow> address_nodes T node addresses)
               else Some (Inr addresses)))"

definition deserialize_address_list :: "ton_core \<Rightarrow> ton_cell \<Rightarrow> (ton_fault + bytes list) option" where
  "deserialize_address_list T cell = address_nodes T cell []"

record receive_config_dvns =
  rcd_required_is_null :: bool
  rcd_required :: "bytes list"
  rcd_optional_is_null :: bool
  rcd_optional :: "bytes list"

definition read_storage_bool :: "ton_core \<Rightarrow> ton_cell \<Rightarrow> nat \<Rightarrow> ton_fault + bool" where
  "read_storage_bool T cell field_index = map_ok (\<lambda>be. case be of [] \<Rightarrow> False | b # _ \<Rightarrow> b = 1) (cl_get_uint_be T cell field_index 1)"

definition read_receive_config_dvns :: "ton_core \<Rightarrow> ton_cell \<Rightarrow> (ton_fault + receive_config_dvns) option" where
  "read_receive_config_dvns T config =
     ret_then (Some (read_storage_bool T config RECEIVE_CONFIG_REQUIRED_DVNS_NULL)) (\<lambda>required_is_null.
     ret_then (Some (cl_get_ref T config RECEIVE_CONFIG_REQUIRED_DVNS)) (\<lambda>required_cell.
     ret_then (deserialize_address_list T required_cell) (\<lambda>required.
     ret_then (Some (read_storage_bool T config RECEIVE_CONFIG_OPTIONAL_DVNS_NULL)) (\<lambda>optional_is_null.
     ret_then (Some (cl_get_ref T config RECEIVE_CONFIG_OPTIONAL_DVNS)) (\<lambda>optional_cell.
     ret_then (deserialize_address_list T optional_cell) (\<lambda>optional.
       Some (Inr \<lparr>rcd_required_is_null = required_is_null, rcd_required = required,
                  rcd_optional_is_null = optional_is_null, rcd_optional = optional\<rparr>)))))))"

text \<open>One half of the merge: the own list unless it is null, then the default one.\<close>

definition merge_dvns :: "string \<Rightarrow> bool \<Rightarrow> bytes list \<Rightarrow> bool \<Rightarrow> bytes list \<Rightarrow> ton_fault + bytes list" where
  "merge_dvns half custom_is_null custom default_is_null default_list =
     (if custom_is_null then
        if default_is_null then Inl (TonError (Internal (''ULN Config is invalid: '' @ half @ '' missing''))) else Inr default_list
      else Inr custom)"

definition effective_receive_dvns :: "ton_core \<Rightarrow> ton_cell \<Rightarrow> ton_cell \<Rightarrow> (ton_fault + bytes list) option" where
  "effective_receive_dvns T custom_config default_config =
     ret_then (read_receive_config_dvns T custom_config) (\<lambda>custom.
     ret_then (read_receive_config_dvns T default_config) (\<lambda>dflt.
     ret_then (Some (merge_dvns ''requiredDVNs'' (rcd_required_is_null custom) (rcd_required custom) (rcd_required_is_null dflt) (rcd_required dflt))) (\<lambda>required.
     ret_then (Some (merge_dvns ''optionalDVNs'' (rcd_optional_is_null custom) (rcd_optional custom) (rcd_optional_is_null dflt) (rcd_optional dflt))) (\<lambda>optional.
       Some (Inr (optional @ required))))))"

definition uln_default_receive_config :: "ton_core \<Rightarrow> ton_cell \<Rightarrow> ton_fault + ton_cell" where
  "uln_default_receive_config T uln_storage = cl_get_ref T uln_storage ULN_DEFAULT_RECEIVE_CONFIG"

definition uln_connection_receive_config :: "ton_core \<Rightarrow> ton_cell \<Rightarrow> ton_fault + ton_cell" where
  "uln_connection_receive_config T connection_storage = cl_get_ref T connection_storage ULN_CONNECTION_RECEIVE_CONFIG"

datatype dvn_attestation_outcome = Matches | AttestationAbsent | InsufficientConfirmations | NotInReceiveConfig

definition read_storage_u64 :: "ton_core \<Rightarrow> ton_cell \<Rightarrow> nat \<Rightarrow> ton_fault + u64" where
  "read_storage_u64 T cell field_index =
     and_then (cl_get_uint_be T cell field_index 64) (\<lambda>be.
       if length be = 8 then Inr (word_of_nat (be_decode be)) else Inl (TonError (Internal ''TON uint64 field is not 8 bytes'')))"

definition effective_receive_confirmations :: "ton_core \<Rightarrow> ton_cell \<Rightarrow> ton_cell \<Rightarrow> ton_fault + u64" where
  "effective_receive_confirmations T custom_config default_config =
     and_then (read_storage_bool T custom_config RECEIVE_CONFIG_CONFIRMATIONS_NULL) (\<lambda>null.
       read_storage_u64 T (if null then default_config else custom_config) RECEIVE_CONFIG_CONFIRMATIONS)"

definition required_receive_confirmations :: "ton_core \<Rightarrow> ton_cell \<Rightarrow> ton_cell \<Rightarrow> ton_fault + u64" where
  "required_receive_confirmations T connection_storage default_receive_config =
     and_then (uln_connection_receive_config T connection_storage) (\<lambda>custom_config.
       effective_receive_confirmations T custom_config default_receive_config)"

definition nonce_key :: "u64 \<Rightarrow> bytes" where
  "nonce_key nonce = replicate 24 0 @ be_encode 8 (unat nonce)"

definition dvn_attestation ::
    "ton_core \<Rightarrow> ton_cell \<Rightarrow> ton_cell \<Rightarrow> u64 \<Rightarrow> bytes \<Rightarrow> bytes \<Rightarrow> (ton_fault + dvn_attestation_outcome) option" where
  "dvn_attestation T connection_storage default_receive_config nonce verifier_be packet_hash_be =
     ret_then (Some (cl_get_ref T connection_storage ULN_CONNECTION_HASH_LOOKUPS)) (\<lambda>hash_lookups.
     ret_then (dict256_get_ref T hash_lookups (nonce_key nonce)) (\<lambda>found.
     case found of
       None \<Rightarrow> Some (Inr AttestationAbsent)
     | Some per_verifier \<Rightarrow>
         ret_then (Some (uln_connection_receive_config T connection_storage)) (\<lambda>custom_receive_config.
         ret_then (effective_receive_dvns T custom_receive_config default_receive_config) (\<lambda>configured.
         if verifier_be \<notin> set configured then Some (Inr NotInReceiveConfig)
         else
           ret_then (dict256_get_ref T per_verifier verifier_be) (\<lambda>attested.
           case attested of
             None \<Rightarrow> Some (Inr AttestationAbsent)
           | Some attestation \<Rightarrow> Some (
               and_then (cl_get_uint_be T attestation ATTESTATION_HASH 256) (\<lambda>attested_hash.
               if attested_hash \<noteq> packet_hash_be then Inr AttestationAbsent
               else
                 and_then (effective_receive_confirmations T custom_receive_config default_receive_config) (\<lambda>required.
                 and_then (read_storage_u64 T attestation ATTESTATION_CONFIRMATIONS) (\<lambda>n.
                   Inr (if required \<le> n then Matches else InsufficientConfirmations)))))))))) "

section \<open>The DVN proxy\<close>

definition PROXY_NAME :: string where "PROXY_NAME = ''pfProxy''"
definition MAX_ADDRESS_LIST_HOPS :: nat where "MAX_ADDRESS_LIST_HOPS = 4"

fun list_head :: "nat \<Rightarrow> ton_cell \<Rightarrow> ton_cell" where
  "list_head 0 admins = admins"
| "list_head (Suc hops) admins =
     (case tc_refs admins of [inner] \<Rightarrow> if tc_bits admins = [] then list_head hops inner else admins | _ \<Rightarrow> admins)"

definition boc_from_base64_with_limits ::
    "ton_core \<Rightarrow> (string \<Rightarrow> string + bytes) \<Rightarrow> string \<Rightarrow> nat \<Rightarrow> bool \<Rightarrow> ton_fault + ton_cell" where
  "boc_from_base64_with_limits T base64_decode data max_cells reject_exotic =
     and_then (core_call (base64_decode data)) (\<lambda>bs. lift_err (boc_from_bytes_with_limits (core_parse_boc T) bs max_cells reject_exotic))"

definition decode_proxy_admin_target ::
    "external \<Rightarrow> ton_core \<Rightarrow> (string \<Rightarrow> string + bytes) \<Rightarrow> string \<Rightarrow> ton_fault + string option" where
  "decode_proxy_admin_target X T base64_decode storage =
     and_then (boc_from_base64_with_limits T base64_decode storage MAX_ACCOUNT_STATE_CELLS True) (\<lambda>cell.
     and_then (cell_name T cell) (\<lambda>name.
     if name \<noteq> PROXY_NAME then Inr None
     else
       and_then (cl_get_ref T cell 0) (\<lambda>worker_core_storage.
       and_then (cl_get_ref T worker_core_storage 0) (\<lambda>admins.
       and_then (core_call (core_read_num T 256 (cell_parser_of (list_head MAX_ADDRESS_LIST_HOPS admins)))) (\<lambda>(admin, _).
         let raw = to_bytes_be admin in
         if 32 < length raw then Inl TonPanic
         else Inr (Some (''0:'' @ hex_encode X (replicate (32 - length raw) 0 @ raw))))))))"

section \<open>Worker options\<close>

record decoded_options =
  do_lz_receive_gas :: nat
  do_lz_receive_value :: nat
  do_lz_compose_gas :: nat
  do_lz_compose_value :: nat
  do_native_drop_address :: nat
  do_native_drop_amount :: nat

definition default_options :: decoded_options where
  "default_options = \<lparr>do_lz_receive_gas = 0, do_lz_receive_value = 0, do_lz_compose_gas = 0, do_lz_compose_value = 0,
     do_native_drop_address = 0, do_native_drop_amount = 0\<rparr>"

definition expected_info :: "nat \<Rightarrow> nat \<Rightarrow> nat" where
  "expected_info count index =
     (if count \<le> index then 2 ^ 18 - 1
      else
        let (target, offset) = (if index < 2 then (0, 350 + index * 256) else (2 + (index - 2) div 3, (index - 2) mod 3 * 256)) in
        8 * 2 ^ 14 + target * 2 ^ 12 + offset * 4 + 3)"

fun check_infos :: "ton_core \<Rightarrow> nat \<Rightarrow> nat list \<Rightarrow> cell_parser \<Rightarrow> ton_fault + unit" where
  "check_infos T count [] parser = Inr ()"
| "check_infos T count (index # rest) parser =
     and_then (core_call (core_read_num T 18 parser)) (\<lambda>(info, parser).
       if info \<noteq> expected_info count index then Inl (TonError (Internal ''Noncanonical TON options field metadata''))
       else check_infos T count rest parser)"

definition validate_options_layout :: "ton_core \<Rightarrow> ton_cell \<Rightarrow> nat \<Rightarrow> ton_fault + unit" where
  "validate_options_layout T cell count =
     and_then (core_call (core_read_bits T 80 (cell_parser_of cell))) (\<lambda>(_, parser). check_infos T count [0..<15] parser)"

definition read_option :: "ton_core \<Rightarrow> ton_cell \<Rightarrow> nat \<Rightarrow> ton_fault + nat" where
  "read_option T cell index = map_ok be_decode (cl_get_uint_be T cell index 256)"

definition decode_options :: "ton_core \<Rightarrow> ton_cell \<Rightarrow> ton_fault + decoded_options" where
  "decode_options T cell =
     and_then (lift_err (require_ordinary cell)) (\<lambda>_.
     and_then (core_call (core_data_bits_left T (cell_parser_of cell))) (\<lambda>n.
     if n = 0 then Inr default_options
     else
       and_then (cell_name T cell) (\<lambda>name.
       if name = ''NULL'' then Inr default_options
       else if name = ''OptionsV1'' then
         and_then (validate_options_layout T cell 4) (\<lambda>_.
         and_then (read_option T cell 0) (\<lambda>receive_gas.
         and_then (read_option T cell 1) (\<lambda>receive_value.
         and_then (read_option T cell 2) (\<lambda>address.
         and_then (read_option T cell 3) (\<lambda>amount.
           Inr (default_options\<lparr>do_lz_receive_gas := receive_gas, do_lz_receive_value := receive_value,
                do_native_drop_address := address, do_native_drop_amount := amount\<rparr>))))))
       else if name = ''OptionsV2'' then
         and_then (validate_options_layout T cell 6) (\<lambda>_.
         and_then (read_option T cell 0) (\<lambda>receive_gas.
         and_then (read_option T cell 1) (\<lambda>receive_value.
         and_then (read_option T cell 2) (\<lambda>compose_gas.
         and_then (read_option T cell 3) (\<lambda>compose_value.
         and_then (read_option T cell 4) (\<lambda>address.
         and_then (read_option T cell 5) (\<lambda>amount.
           Inr \<lparr>do_lz_receive_gas = receive_gas, do_lz_receive_value = receive_value, do_lz_compose_gas = compose_gas,
                do_lz_compose_value = compose_value, do_native_drop_address = address, do_native_drop_amount = amount\<rparr>)))))))
       else Inl (TonError (Internal (''Unknown TON options cell '' @ name))))))"

definition left_pad_address :: "bytes \<Rightarrow> ton_fault + bytes" where
  "left_pad_address bs =
     (if 32 < length bs then Inl (TonError (Internal ''TON native-drop address exceeds 32 bytes''))
      else Inr (replicate (32 - length bs) 0 @ bs))"

definition encode_address_by_chain :: "external \<Rightarrow> string \<Rightarrow> bytes \<Rightarrow> string" where
  "encode_address_by_chain X chain_name address =
     (if chain_name = ''solana'' then bs58_encode X address
      else if chain_name \<in> {''aptos'', ''movement'', ''initia'', ''ton'', ''sui'', ''iotal1'', ''starknet'', ''stellar'', ''canton''}
      then with_0x (hex_encode X address)
      else with_0x (hex_encode X (drop 12 address)))"

fun add_drop :: "string \<Rightarrow> nat \<Rightarrow> (string \<times> nat) list \<Rightarrow> (string \<times> nat) list" where
  "add_drop receiver amount [] = [(receiver, amount)]"
| "add_drop receiver amount ((r, a) # drops) = (if r = receiver then (r, a + amount) # drops else (r, a) # add_drop receiver amount drops)"

fun native_drops :: "external \<Rightarrow> string \<Rightarrow> decoded_options list \<Rightarrow> (string \<times> nat) list \<Rightarrow> ton_fault + (string \<times> nat) list" where
  "native_drops X chain [] drops = Inr drops"
| "native_drops X chain (opts # rest) drops =
     (if do_native_drop_address opts \<noteq> 0 \<and> do_native_drop_amount opts \<noteq> 0
      then and_then (left_pad_address (to_bytes_be (do_native_drop_address opts))) (\<lambda>address.
             native_drops X chain rest (add_drop (encode_address_by_chain X chain address) (do_native_drop_amount opts) drops))
      else native_drops X chain rest drops)"

definition decode_ton_relayer_options :: "external \<Rightarrow> ton_core \<Rightarrow> ton_cell \<Rightarrow> ton_cell \<Rightarrow> string \<Rightarrow> ton_fault + json" where
  "decode_ton_relayer_options X T extra_options enforced_options dst_chain =
     and_then (decode_options T extra_options) (\<lambda>extra.
     and_then (decode_options T enforced_options) (\<lambda>enforced.
     let receive_gas = do_lz_receive_gas extra + do_lz_receive_gas enforced;
         receive_value = do_lz_receive_value extra + do_lz_receive_value enforced;
         compose_gas = do_lz_compose_gas extra + do_lz_compose_gas enforced;
         compose_value = do_lz_compose_value extra + do_lz_compose_value enforced in
     and_then (native_drops X dst_chain [extra, enforced] []) (\<lambda>drops.
       Inr (JObject (
         (if receive_gas \<noteq> 0 \<or> receive_value \<noteq> 0
          then [(''lzReceive'', JObject [(''gas'', JString (show_nat receive_gas)), (''value'', JString (show_nat receive_value))])] else []) @
         (if compose_gas \<noteq> 0 \<or> compose_value \<noteq> 0
          then [(''compose'', JArray [JObject [(''index'', JNumber (PosInt 0)), (''gas'', JString (show_nat compose_gas)),
                   (''value'', JString (show_nat compose_value))]])] else []) @
         (if drops \<noteq> []
          then [(''nativeDrop'', JArray (map (\<lambda>(receiver, amount). JObject [(''receiver'', JString receiver), (''amount'', JString (show_nat amount))]) drops))]
          else []) @
         [(''ordered'', JBool False)])))))"

section \<open>The builder of the other slots\<close>

definition ton_build_uln_v2 :: "lz_sent_event \<Rightarrow> int \<Rightarrow> int \<Rightarrow> string \<Rightarrow> hash_call_data_result res" where
  "ton_build_uln_v2 ev block_confirmation expiration v_id = Inl (Internal ''Method not implemented.'')"

definition ton_build_uln_v3_stateless :: "lz_sent_event \<Rightarrow> int \<Rightarrow> int \<Rightarrow> string \<Rightarrow> string option \<Rightarrow> hash_call_data_result res" where
  "ton_build_uln_v3_stateless ev block_confirmation expiration v_id dvn_address =
     Inl (Internal ''TON DVN verify requires the runtime on-chain quorum builder'')"

definition ton_build_uln_read_v1 :: "lz_sent_event \<Rightarrow> string \<Rightarrow> int \<Rightarrow> string \<Rightarrow> string option \<Rightarrow> hash_call_data_result res" where
  "ton_build_uln_read_v1 ev resolved_payload expiration v_id dvn_address = Inl (Internal ''FIXME TON-READ: Method not implemented.'')"

end
