(* ===== verification/Ton_Payload_Laws.thy ===== *)
theory Ton_Payload_Laws
  imports Ton_Class_Laws Ton_Payload
begin

text \<open>
  What the TON digest binds, and that every well-formed request is built. The classes of a call are read back field by field,
  so a call cell determines the values that were written; the rest follows from the hash of the packet.
\<close>

section \<open>Classes are injective\<close>

fun same_kind :: "cl_field \<Rightarrow> cl_field \<Rightarrow> bool" where
  "same_kind (ClNum t v) (ClNum u w) \<longleftrightarrow> t = u"
| "same_kind (ClRef c) (ClRef d) \<longleftrightarrow> True"
| "same_kind _ _ \<longleftrightarrow> False"

lemma field_inject:
  assumes "field_reads T cell i f" "field_reads T cell i g" "same_kind f g" "field_ok f" "field_ok g"
  shows "f = g"
proof (cases f)
  case (ClNum t v)
  then obtain w where g: "g = ClNum t w" using assms(3) by (cases g) auto
  let ?n = "(type_width t + 7) div 8"
  have b: "v < 2 ^ type_width t" "w < 2 ^ type_width t" using assms(4,5) ClNum g by (auto simp: field_ok_def)
  have "(2 :: nat) ^ type_width t \<le> 2 ^ (8 * ?n)" by (rule power_increasing) auto
  then have "v < 256 ^ ?n" "w < 256 ^ ?n" using b by (auto simp: power_mult)
  moreover have "be_encode ?n v = be_encode ?n w" using assms(1,2) ClNum g by (simp add: field_reads_def)
  ultimately have "v = w" by (rule be_encode_inj)
  then show ?thesis using ClNum g by simp
next
  case (ClRef c)
  with assms(3) obtain d where "g = ClRef d" by (cases g) auto
  with ClRef assms(1,2) show ?thesis by (simp add: field_reads_def)
qed

lemma class_inject:
  assumes T: "parser_ok T" "builder_ok T" and name: "name_ok name"
    and ok: "list_all field_ok fs" "list_all field_ok gs" "list_all2 same_kind fs gs"
    and c: "cl_declare T name fs = Inr c" "cl_declare T name gs = Inr c"
  shows "fs = gs"
proof (rule nth_equalityI)
  show len: "length fs = length gs" using ok(3) by (rule list_all2_lengthD)
  note h = cl_declare_holds [OF T name ok(1) c(1)] cl_declare_holds [OF T name ok(2) c(2)]
  show "fs ! i = gs ! i" if "i < length fs" for i
    using h ok len that by (intro field_inject [of T c i]) (auto simp: class_holds_def list_all_length list_all2_conv_all_nth)
qed

lemma class_level: "parser_ok T \<Longrightarrow> builder_ok T \<Longrightarrow> name_ok name \<Longrightarrow> list_all field_ok fs \<Longrightarrow> cl_declare T name fs = Inr c \<Longrightarrow> tc_level c = 0"
  using cl_declare_holds by (auto simp: class_holds_def)

lemma widths: "type_width T_UINT256 = 256" "type_width T_UINT64 = 64" "type_width T_UINT32 = 32" "T_UINT64 \<le> T_UINT256" "T_UINT32 \<le> T_UINT256"
  by (auto simp: type_width_def cl_widths)

lemma u256_ok: "length bs = 32 \<Longrightarrow> field_ok (cl_u256_be T_UINT256 bs)"
  using be_decode_less [of bs] by (simp add: field_ok_def cl_u256_be_def widths)

lemma u256_inject: "length bs = 32 \<Longrightarrow> length cs = 32 \<Longrightarrow> cl_u256_be T_UINT256 bs = cl_u256_be T_UINT256 cs \<longleftrightarrow> bs = cs"
  by (auto simp: cl_u256_be_def) (metis be_encode_decode)

lemma num_ok: "field_ok (ClNum T_UINT64 (unat (w :: u64)))" "field_ok (ClNum T_UINT32 (unat (e :: u32)))" "field_ok (ClNum T_UINT32 OP_ULN_VERIFY)"
  using unsigned_less [of w, where ?'a = nat] unsigned_less [of e, where ?'a = nat] by (simp_all add: field_ok_def widths OP_ULN_VERIFY_def)

lemma ref_ok: "field_ok (ClRef c) \<longleftrightarrow> tc_level c = 0"
  by (simp add: field_ok_def)

lemma kinds: "same_kind (cl_u256_be T_UINT256 bs) (cl_u256_be T_UINT256 cs)"
  by (simp add: cl_u256_be_def)

lemma u256_no_ref: "ClRef r \<noteq> cl_u256_be ty bs" "cl_u256_be ty bs \<noteq> ClRef r"
  by (simp_all add: cl_u256_be_def)

lemma names: "name_ok ''Attest''" "name_ok ''UlnVerify''" "name_ok ''MdAddr''" "name_ok ''path''" "name_ok ''Packet''" "name_ok ''execParams''"
  by (simp_all add: name_ok_def)

lemmas class_facts = u256_ok num_ok ref_ok kinds names u256_inject

section \<open>The message snake\<close>

fun snake_data :: "ton_cell \<Rightarrow> bool list" where
  "snake_data (TonCell bits refs exotic level) = bits @ concat (map snake_data refs)"

lemma snake_data_eq: "snake_data c = tc_bits c @ concat (map snake_data (tc_refs c))"
  by (cases c) simp

lemma snake_cells_data:
  assumes T: "builder_ok T"
  shows "snake_cells T chunks acc = Inr c \<Longrightarrow> (\<And>d. acc = Some d \<Longrightarrow> tc_level d = 0) \<Longrightarrow>
    tc_level c = 0 \<and> snake_data c = bytes_bits (concat (rev chunks)) @ (case acc of None \<Rightarrow> [] | Some d \<Rightarrow> snake_data d)"
proof (induction chunks arbitrary: acc)
  case Nil
  then show ?case by (cases acc) (auto simp: bytes_bits_def)
next
  case (Cons chunk chunks)
  from Cons.prems(1) obtain b b' d where b: "core_write_bits T (bytes_bits chunk) new_builder = Inr b"
    "(case acc of None \<Rightarrow> Inr b | Some child \<Rightarrow> core_call (core_write_ref T child b)) = Inr b'"
    and d: "ton_build T b' = Inr d" "snake_cells T chunks (Some d) = Inr c" by (auto simp: and_then_eq_Inr map_err_eq_Inr)
  have "b = \<lparr>cb_bits = bytes_bits chunk, cb_refs = []\<rparr>"
    using builder_okD(6) [OF T, of new_builder "bytes_bits chunk"] b(1) by (auto simp: yields_def new_builder_def split: if_splits)
  with b(2) have b': "b' = \<lparr>cb_bits = bytes_bits chunk, cb_refs = (case acc of None \<Rightarrow> [] | Some e \<Rightarrow> [e])\<rparr>"
    by (auto simp: write_ref_eq [OF T] split: option.splits)
  have "\<forall>r \<in> set (cb_refs b'). tc_level r = 0" using b' Cons.prems(2) by (auto split: option.splits)
  from ton_build_holds [OF T d(1) this] b' have h: "tc_level d = 0"
    "snake_data d = bytes_bits chunk @ (case acc of None \<Rightarrow> [] | Some e \<Rightarrow> snake_data e)"
    by (auto simp: holds_def snake_data_eq [of d] split: option.splits)
  from Cons.IH [OF d(2)] h show ?case by (auto simp: bytes_bits_def)
qed

lemma concat_byte_chunks: "concat (byte_chunks bs) = bs"
proof (induction bs rule: byte_chunks.induct)
  case (1 bs)
  then show ?case by (subst byte_chunks.simps) simp
qed

lemma bytes_bits_inject: "bytes_bits bs = bytes_bits cs \<longleftrightarrow> bs = cs"
proof
  show "bytes_bits bs = bytes_bits cs \<Longrightarrow> bs = cs"
  proof (induction bs arbitrary: cs)
    case Nil
    then show ?case by (cases cs) (auto simp: bytes_bits_def simp del: num_bits.simps dest: arg_cong [where f = length])
  next
    case (Cons b bs)
    then obtain c cs' where cs: "cs = c # cs'" by (cases cs) (auto simp: bytes_bits_def dest: arg_cong [where f = length])
    have "num_bits 8 (unat b) @ bytes_bits bs = num_bits 8 (unat c) @ bytes_bits cs'" using Cons.prems cs by (simp add: bytes_bits_def)
    then have "num_bits 8 (unat b) = num_bits 8 (unat c)" "bytes_bits bs = bytes_bits cs'" by (simp_all add: append_eq_append_conv)
    moreover have "unat b < 2 ^ 8" "unat c < 2 ^ 8" using unat_byte_less by auto
    ultimately show ?case using Cons.IH cs by (simp add: num_bits_inject word_unat_eq_iff)
  qed
qed simp

lemma hex_to_cells_data:
  assumes T: "builder_ok T" and X: "hex_ok X" and c: "hex_to_cells X T hex = Inr c"
  shows "tc_level c = 0 \<and> (\<exists>bs. hex_decode X (strip_0x hex) = Inr bs \<and> snake_data c = bytes_bits bs)"
proof (cases "strip_0x hex = []")
  case True
  with c have "ton_build T new_builder = Inr c" by (auto simp: hex_to_cells_def Let_def split: if_splits)
  from ton_build_holds [OF T this] have h: "tc_level c = 0" "snake_data c = bytes_bits []"
    by (auto simp: new_builder_def holds_def snake_data_eq [of c] bytes_bits_def)
  have "hex_encode X [] = []" using X by (metis hex_ok_def length_0_conv list.size(3) mult_0_right)
  then have "hex_decode X [] = Inr []" using X by (metis hex_ok_def)
  with h True show ?thesis by auto
next
  case False
  with c obtain bs where bs: "hex_decode X (strip_0x hex) = Inr bs" "snake_cells T (rev (byte_chunks bs)) None = Inr c"
    by (auto simp: hex_to_cells_def Let_def and_then_eq_Inr map_err_eq_Inr split: if_splits)
  from snake_cells_data [OF T bs(2)] bs(1) show ?thesis by (auto simp: concat_byte_chunks)
qed

section \<open>What the digest binds\<close>

text \<open>
  The cell whose hash is signed, as the statements below speak of it: the steps of \<open>build_ton_dvn_verify\<close> without the two
  serializations, which do not change it. That the builder takes these steps is \<open>build_signs_call\<close>; that it also returns is
  \<open>build_result\<close>.
\<close>

definition ton_call :: "external \<Rightarrow> ton_core \<Rightarrow> ton_dvn_verify_request \<Rightarrow> ton_fault + ton_cell" where
  "ton_call X T req =
     and_then (derive_uln_addresses X T (request_pathway req) (tv_code req)) (\<lambda>derived.
     and_then (hash_be32 (der_uln derived)) (\<lambda>uln_addr_be.
     and_then (hash_be32 (der_uln_connection derived)) (\<lambda>uln_conn_addr_be.
     and_then (ton_packet X T req) (\<lambda>packet.
     and_then (repr_hash_hex T packet) (\<lambda>packet_hash.
     and_then (hex_to_be32 X packet_hash) (\<lambda>packet_hash_be.
     and_then (build_uln_call_data T uln_conn_addr_be (tv_nonce req) (tv_block_confirmation req) packet_hash_be) (\<lambda>call.
     and_then (address_to_be32 T (tv_target req)) (\<lambda>target_be.
       build_execute_params T target_be call (tv_expiration req) OP_ULN_VERIFY uln_addr_be))))))))"

text \<open>What a call attests: packet, confirmations, expiration, target and the contract addresses it is sent through.\<close>

definition ton_statement :: "external \<Rightarrow> ton_core \<Rightarrow> ton_dvn_verify_request \<Rightarrow>
    ((u32 \<times> u32 \<times> u64) \<times> (ton_fault + bytes) \<times> (ton_fault + bytes) \<times> (ton_fault + bytes) \<times> (string + bytes)) \<times>
    int \<times> int \<times> (ton_fault + bytes) \<times> (ton_fault + bytes \<times> bytes)" where
  "ton_statement X T req =
     (((tv_src_eid req, tv_dst_eid req, tv_nonce req), address_to_be32 T (tv_sender req), address_to_be32 T (tv_receiver req),
       hex_to_be32 X (tv_guid req), hex_decode X (strip_0x (tv_message req))),
      tv_block_confirmation req, tv_expiration req, address_to_be32 T (tv_target req),
      map_ok (\<lambda>derived. (addr_hash (der_uln derived), addr_hash (der_uln_connection derived)))
        (derive_uln_addresses X T (request_pathway req) (tv_code req)))"

definition no_hash_collision :: "ton_core \<Rightarrow> ton_fault + ton_cell \<Rightarrow> ton_fault + ton_cell \<Rightarrow> bool" where
  "no_hash_collision T a b \<longleftrightarrow> (\<forall>c d. a = Inr c \<longrightarrow> b = Inr d \<longrightarrow> core_hash T c = core_hash T d \<longrightarrow> c = d)"

lemma address_length: "address_to_be32 T v = Inr bs \<Longrightarrow> length bs = 32"
  by (auto simp: address_to_be32_def Let_def and_then_eq_Inr split: if_splits)

lemma hex32_length: "hex_to_be32 X v = Inr bs \<Longrightarrow> length bs = 32"
  by (auto simp: hex_to_be32_def and_then_eq_Inr split: if_splits)

lemma be32_length: "hash_be32 a = Inr bs \<Longrightarrow> length bs = 32 \<and> bs = addr_hash a"
  by (auto simp: hash_be32_def split: if_splits)

lemmas be_lengths = address_length hex32_length be32_length

lemma trim_hex: "hex_ok X \<Longrightarrow> trim_start_0x (hex_encode X h) = hex_encode X h"
proof -
  assume "hex_ok X"
  then have x: "CHR ''x'' \<notin> set (hex_encode X h)" by (auto simp: hex_ok_def)
  show ?thesis
  proof (cases "hex_encode X h")
    case (Cons a s)
    with x show ?thesis by (cases s) auto
  qed simp
qed

lemma repr_hash_be32:
  assumes X: "hex_ok X" and T: "hash_ok X T" and r: "repr_hash_hex T c = Inr hx" and b: "hex_to_be32 X hx = Inr bs"
  shows "core_hash T c = Inr bs"
proof -
  from r obtain h where h: "core_hash T c = Inr h" "hx = core_hash_to_hex T h" by (auto simp: repr_hash_hex_def hash_of_def map_ok_eq_Inr map_err_eq_Inr)
  have "length h = 32" "hx = hex_encode X h" using T h by (auto simp: hash_ok_def)
  moreover have "hex_decode X (hex_encode X h) = Inr h" using X by (simp add: hex_ok_def)
  ultimately show ?thesis using b h trim_hex [OF X, of h] by (simp add: hex_to_be32_def)
qed

lemma i64_inject:
  assumes "require_nonneg v f = Inr w" "require_nonneg v' f = Inr w" "v < 2 ^ 63" "v' < 2 ^ 63"
  shows "v = v'"
proof -
  have "u64_from_i64 v f = Inr w" "u64_from_i64 v' f = Inr w"
    using assms(1,2) by (auto simp: require_nonneg_def u64_from_i64_def split: if_splits)
  with assms(3,4) show ?thesis by (intro u64_from_i64_inject)
qed

lemma execute_inject:
  assumes T: "parser_ok T" "builder_ok T"
    and x: "build_execute_params T t c e OP_ULN_VERIFY u = Inr x" "build_execute_params T t' c' e' OP_ULN_VERIFY u' = Inr x"
    and ok: "length t = 32" "length t' = 32" "length u = 32" "length u' = 32" "tc_level c = 0" "tc_level c' = 0" "e < 2 ^ 63" "e' < 2 ^ 63"
  shows "t = t' \<and> c = c' \<and> e = e' \<and> u = u'"
proof -
  from x obtain n n' where n: "require_nonneg e ''expiration'' = Inr n" "require_nonneg e' ''expiration'' = Inr n'"
    and d: "cl_declare T ''execParams'' [cl_u256_be T_UINT256 t, ClRef c, ClNum T_UINT64 (unat n), ClNum T_UINT32 OP_ULN_VERIFY, cl_u256_be T_UINT256 u] = Inr x"
      "cl_declare T ''execParams'' [cl_u256_be T_UINT256 t', ClRef c', ClNum T_UINT64 (unat n'), ClNum T_UINT32 OP_ULN_VERIFY, cl_u256_be T_UINT256 u'] = Inr x"
    by (auto simp: build_execute_params_def and_then_eq_Inr map_err_eq_Inr)
  from class_inject [OF T _ _ _ _ d] ok have "t = t' \<and> c = c' \<and> n = n' \<and> u = u'"
    by (simp add: class_facts word_unat_eq_iff)
  with i64_inject [OF n(1)] n(2) ok show ?thesis by blast
qed

lemma call_data_inject:
  assumes T: "parser_ok T" "builder_ok T"
    and x: "build_uln_call_data T a n bc p = Inr x" "build_uln_call_data T a' n' bc' p' = Inr x"
    and ok: "length a = 32" "length a' = 32" "length p = 32" "length p' = 32" "bc < 2 ^ 63" "bc' < 2 ^ 63"
  shows "a = a' \<and> n = n' \<and> bc = bc' \<and> p = p'"
proof -
  from x obtain m m' at at' v v' where m: "require_nonneg bc ''confirmations'' = Inr m" "require_nonneg bc' ''confirmations'' = Inr m'"
    and at: "cl_declare T ''Attest'' [cl_u256_be T_UINT256 p, ClNum T_UINT64 (unat m)] = Inr at"
      "cl_declare T ''Attest'' [cl_u256_be T_UINT256 p', ClNum T_UINT64 (unat m')] = Inr at'"
    and v: "cl_declare T ''UlnVerify'' [ClNum T_UINT64 (unat n), ClRef at] = Inr v" "cl_declare T ''UlnVerify'' [ClNum T_UINT64 (unat n'), ClRef at'] = Inr v'"
    and d: "cl_declare T ''MdAddr'' [ClRef v, cl_u256_be T_UINT256 a] = Inr x" "cl_declare T ''MdAddr'' [ClRef v', cl_u256_be T_UINT256 a'] = Inr x"
    unfolding build_uln_call_data_def build_attestation_def build_uln_verification_def build_md_address_def
    by (auto simp: and_then_eq_Inr map_err_eq_Inr)
  note level = class_level [OF T]
  have la: "tc_level at = 0" "tc_level at' = 0" using level [OF _ _ at(1)] level [OF _ _ at(2)] ok by (simp_all add: class_facts)
  have lv: "tc_level v = 0" "tc_level v' = 0" using level [OF _ _ v(1)] level [OF _ _ v(2)] la by (simp_all add: class_facts)
  from class_inject [OF T _ _ _ _ d] ok lv have e1: "v = v' \<and> a = a'" by (simp add: class_facts)
  from class_inject [OF T _ _ _ _ v(1), of "[ClNum T_UINT64 (unat n'), ClRef at']"] v(2) e1 la have e2: "n = n' \<and> at = at'"
    by (simp add: class_facts word_unat_eq_iff)
  from class_inject [OF T _ _ _ _ at(1), of "[cl_u256_be T_UINT256 p', ClNum T_UINT64 (unat m')]"] at(2) e2 ok have "p = p' \<and> m = m'"
    by (simp add: class_facts word_unat_eq_iff)
  with e1 e2 i64_inject [OF m(1)] m(2) ok show ?thesis by blast
qed

lemma call_data_level:
  assumes T: "parser_ok T" "builder_ok T" and x: "build_uln_call_data T a n bc p = Inr x" and ok: "length a = 32" "length p = 32"
  shows "tc_level x = 0"
proof -
  from x obtain m at v where at: "cl_declare T ''Attest'' [cl_u256_be T_UINT256 p, ClNum T_UINT64 (unat (m :: u64))] = Inr at"
    and v: "cl_declare T ''UlnVerify'' [ClNum T_UINT64 (unat n), ClRef at] = Inr v" and d: "cl_declare T ''MdAddr'' [ClRef v, cl_u256_be T_UINT256 a] = Inr x"
    unfolding build_uln_call_data_def build_attestation_def build_uln_verification_def build_md_address_def
    by (auto simp: and_then_eq_Inr map_err_eq_Inr)
  have "tc_level at = 0" using class_level [OF T _ _ at] ok by (simp add: class_facts)
  then have "tc_level v = 0" using class_level [OF T _ _ v] by (simp add: class_facts)
  then show ?thesis using class_level [OF T _ _ d] ok by (simp add: class_facts)
qed

text \<open>What a packet cell is made of.\<close>

definition path_fields :: "ton_dvn_verify_request \<Rightarrow> bytes \<Rightarrow> bytes \<Rightarrow> cl_field list" where
  "path_fields req s r =
     [ClNum T_UINT32 (unat (tv_src_eid req)), cl_u256_be T_UINT256 s, ClNum T_UINT32 (unat (tv_dst_eid req)), cl_u256_be T_UINT256 r]"

definition packet_parts ::
    "external \<Rightarrow> ton_core \<Rightarrow> ton_dvn_verify_request \<Rightarrow> ton_cell \<Rightarrow> bytes \<Rightarrow> bytes \<Rightarrow> bytes \<Rightarrow> ton_cell \<Rightarrow> ton_cell \<Rightarrow> bytes \<Rightarrow> bool" where
  "packet_parts X T req packet s r g path m bs \<longleftrightarrow>
     (address_to_be32 T (tv_sender req) = Inr s \<and> address_to_be32 T (tv_receiver req) = Inr r \<and> hex_to_be32 X (tv_guid req) = Inr g \<and>
      hex_decode X (strip_0x (tv_message req)) = Inr bs) \<and>
     (length s = 32 \<and> length r = 32 \<and> length g = 32 \<and> tc_level path = 0 \<and> tc_level m = 0 \<and> snake_data m = bytes_bits bs) \<and>
     cl_declare T ''path'' (path_fields req s r) = Inr path \<and>
     cl_declare T ''Packet'' [ClRef path, ClRef m, ClNum T_UINT64 (unat (tv_nonce req)), cl_u256_be T_UINT256 g] = Inr packet"

lemma path_fields_ok: "length s = 32 \<Longrightarrow> length r = 32 \<Longrightarrow> list_all field_ok (path_fields req s r)"
  by (simp add: path_fields_def class_facts)

lemma ton_packet_parts:
  assumes T: "parser_ok T" "builder_ok T" and X: "hex_ok X" and p: "ton_packet X T req = Inr packet"
  obtains s r g path m bs where "packet_parts X T req packet s r g path m bs"
proof -
  from p obtain s r g path m where q: "address_to_be32 T (tv_sender req) = Inr s" "address_to_be32 T (tv_receiver req) = Inr r" "hex_to_be32 X (tv_guid req) = Inr g"
    and path: "cl_declare T ''path'' (path_fields req s r) = Inr path" and m: "hex_to_cells X T (tv_message req) = Inr m"
    and k: "cl_declare T ''Packet'' [ClRef path, ClRef m, ClNum T_UINT64 (unat (tv_nonce req)), cl_u256_be T_UINT256 g] = Inr packet"
    unfolding ton_packet_def build_lz_path_def build_lz_packet_def path_fields_def by (auto simp: and_then_eq_Inr)
  note len = address_length [OF q(1)] address_length [OF q(2)] hex32_length [OF q(3)]
  have "tc_level path = 0" by (rule class_level [OF T names(4) path_fields_ok [OF len(1,2)] path])
  with q path k len hex_to_cells_data [OF T(2) X m] that show thesis unfolding packet_parts_def by blast
qed

lemma packet_inject:
  assumes T: "parser_ok T" "builder_ok T" and X: "hex_ok X" and p: "ton_packet X T req = Inr packet" "ton_packet X T req' = Inr packet"
  shows "fst (ton_statement X T req) = fst (ton_statement X T req')"
proof -
  obtain s r g path m bs where a: "packet_parts X T req packet s r g path m bs" by (rule ton_packet_parts [OF T X p(1)])
  obtain s' r' g' path' m' bs' where b: "packet_parts X T req' packet s' r' g' path' m' bs'" by (rule ton_packet_parts [OF T X p(2)])
  note ab = a [unfolded packet_parts_def] b [unfolded packet_parts_def]
  have e: "path = path' \<and> m = m' \<and> tv_nonce req = tv_nonce req' \<and> g = g'"
    using class_inject [OF T names(5), of "[ClRef path, ClRef m, ClNum T_UINT64 (unat (tv_nonce req)), cl_u256_be T_UINT256 g]"
        "[ClRef path', ClRef m', ClNum T_UINT64 (unat (tv_nonce req')), cl_u256_be T_UINT256 g']" packet] ab
    by (simp add: class_facts word_unat_eq_iff)
  have "path_fields req s r = path_fields req' s' r'"
    using ab e by (intro class_inject [OF T names(4), of _ _ path] path_fields_ok) (auto simp: path_fields_def kinds)
  then have "tv_src_eid req = tv_src_eid req' \<and> s = s' \<and> tv_dst_eid req = tv_dst_eid req' \<and> r = r'"
    using ab by (simp add: path_fields_def class_facts word_unat_eq_iff)
  moreover have "bs = bs'" using ab e by (metis bytes_bits_inject)
  ultimately show ?thesis using e ab by (simp add: ton_statement_def)
qed

text \<open>The parts of a call.\<close>

definition call_parts :: "external \<Rightarrow> ton_core \<Rightarrow> ton_dvn_verify_request \<Rightarrow> ton_cell \<Rightarrow> bytes \<Rightarrow> bytes \<Rightarrow> ton_cell \<Rightarrow> bytes \<Rightarrow> ton_cell \<Rightarrow> bytes \<Rightarrow> bool" where
  "call_parts X T req cell uln conn packet ph call target \<longleftrightarrow>
     map_ok (\<lambda>derived. (addr_hash (der_uln derived), addr_hash (der_uln_connection derived)))
       (derive_uln_addresses X T (request_pathway req) (tv_code req)) = Inr (uln, conn) \<and>
     ton_packet X T req = Inr packet \<and> core_hash T packet = Inr ph \<and> address_to_be32 T (tv_target req) = Inr target \<and>
     length uln = 32 \<and> length conn = 32 \<and> length ph = 32 \<and> length target = 32 \<and> tc_level call = 0 \<and>
     build_uln_call_data T conn (tv_nonce req) (tv_block_confirmation req) ph = Inr call \<and>
     build_execute_params T target call (tv_expiration req) OP_ULN_VERIFY uln = Inr cell"

lemma ton_call_parts:
  assumes T: "parser_ok T" "builder_ok T" "hash_ok X T" and X: "hex_ok X" and c: "ton_call X T req = Inr cell"
  obtains uln conn packet ph call target where "call_parts X T req cell uln conn packet ph call target"
proof -
  from c obtain derived uln conn packet hx ph call target where
    d: "derive_uln_addresses X T (request_pathway req) (tv_code req) = Inr derived" "hash_be32 (der_uln derived) = Inr uln" "hash_be32 (der_uln_connection derived) = Inr conn"
    and p: "ton_packet X T req = Inr packet" "repr_hash_hex T packet = Inr hx" "hex_to_be32 X hx = Inr ph"
    and u: "build_uln_call_data T conn (tv_nonce req) (tv_block_confirmation req) ph = Inr call" and t: "address_to_be32 T (tv_target req) = Inr target"
    and e: "build_execute_params T target call (tv_expiration req) OP_ULN_VERIFY uln = Inr cell"
    unfolding ton_call_def by (auto simp: and_then_eq_Inr)
  note len = be32_length [OF d(2)] be32_length [OF d(3)] hex32_length [OF p(3)] address_length [OF t]
  have "call_parts X T req cell uln conn packet ph call target"
    unfolding call_parts_def using d p(1) u t e len call_data_level [OF T(1,2) u] repr_hash_be32 [OF X T(3) p(2,3)] by auto
  then show thesis by (rule that)
qed

lemma build_signs_call:
  assumes "build_ton_dvn_verify X T crc req = Inr out"
  obtains cell h where "ton_call X T req = Inr cell" "core_hash T cell = Inr h" "tvo_hash_call_data out = with_0x (core_hash_to_hex T h)"
  using assms that unfolding build_ton_dvn_verify_def ton_call_def
  by (auto simp: and_then_eq_Inr repr_hash_hex_def hash_of_def map_ok_eq_Inr map_err_eq_Inr)

text \<open>
  C21: a TON signature binds its statement. Two calls with the same signed hash attest the same packet (endpoint ids,
  sender, receiver, nonce, guid and message bytes) with the same confirmations and expiration, for the same
  DVN target and through the same contract addresses, over any cell library with the documented parser and builder in
  which neither the two call cells nor the two packet cells collide.
\<close>

theorem ton_digest_binds:
  assumes T: "parser_ok T" "builder_ok T" "hash_ok X T" and X: "hex_ok X"
    and b: "build_ton_dvn_verify X T crc req = Inr out" "build_ton_dvn_verify X T crc req' = Inr out'"
    and hash: "tvo_hash_call_data out = tvo_hash_call_data out'"
    and i64: "{tv_block_confirmation req, tv_block_confirmation req', tv_expiration req, tv_expiration req'} \<subseteq> {- (2 ^ 63)..<2 ^ 63}"
    and nc: "no_hash_collision T (ton_call X T req) (ton_call X T req')" "no_hash_collision T (ton_packet X T req) (ton_packet X T req')"
  shows "ton_statement X T req = ton_statement X T req'"
proof -
  obtain cell h where s: "ton_call X T req = Inr cell" "core_hash T cell = Inr h" "tvo_hash_call_data out = with_0x (core_hash_to_hex T h)"
    by (rule build_signs_call [OF b(1)])
  obtain cell' h' where s': "ton_call X T req' = Inr cell'" "core_hash T cell' = Inr h'" "tvo_hash_call_data out' = with_0x (core_hash_to_hex T h')"
    by (rule build_signs_call [OF b(2)])
  have "h = h'" using hash s(3) s'(3) T(3) X by (simp add: hash_ok_def hex_encode_inject)
  with nc(1) s s' have cell: "cell' = cell" unfolding no_hash_collision_def by metis
  obtain uln conn packet ph call target where a: "call_parts X T req cell uln conn packet ph call target" by (rule ton_call_parts [OF T X s(1)])
  obtain uln' conn' packet' ph' call' target' where a': "call_parts X T req' cell uln' conn' packet' ph' call' target'"
    by (rule ton_call_parts [OF T X s'(1) [unfolded cell]])
  note aa = a [unfolded call_parts_def] a' [unfolded call_parts_def]
  have e: "target = target' \<and> call = call' \<and> tv_expiration req = tv_expiration req' \<and> uln = uln'"
    using aa i64 by (intro execute_inject [OF T(1,2), of _ _ _ _ cell]) auto
  then have c: "conn = conn' \<and> tv_nonce req = tv_nonce req' \<and> tv_block_confirmation req = tv_block_confirmation req' \<and> ph = ph'"
    using aa i64 by (intro call_data_inject [OF T(1,2), of _ _ _ _ call]) auto
  then have "packet = packet'" using aa nc(2) unfolding no_hash_collision_def by metis
  with aa have "fst (ton_statement X T req) = fst (ton_statement X T req')" by (intro packet_inject [OF T(1,2) X, of _ packet]) auto
  with e c aa show ?thesis by (simp add: ton_statement_def)
qed

section \<open>Every well-formed request has a call\<close>

text \<open>A class whose fields fit is built, at level zero, and at most two levels deeper than its references.\<close>

definition built :: "nat \<Rightarrow> ton_fault + ton_cell \<Rightarrow> bool" where
  "built d r \<longleftrightarrow> (\<exists>c. r = Inr c \<and> tc_level c = 0 \<and> cell_depth c \<le> d)"

lemma class_built:
  assumes T: "parser_ok T" "builder_ok T" and name: "name_ok name" and fs: "list_all field_ok fs" "length fs \<le> MAX_CLASS_FIELDS"
    and cells: "class_cells fs = n" "n \<le> 3"
    and d: "\<forall>r. ClRef r \<in> set fs \<longrightarrow> cell_depth r \<le> d" "d + (if n = 1 then 0 else 1) < MAX_CELL_DEPTH"
  shows "built (d + 2) (cl_declare T name fs)"
proof -
  have "class_fits fs" using fs(2) cells d by (fastforce simp: class_fits_def field_ref_mem)
  from cl_declare_fits [OF T(2) name fs(1) this] obtain c where c: "cl_declare T name fs = Inr c" by blast
  with class_level [OF T name fs(1) c] cl_declare_depth [OF T(2) fs(1) c] d(1) show ?thesis by (auto simp: built_def)
qed

lemma built_then: "built d r \<Longrightarrow> (\<And>c. tc_level c = 0 \<Longrightarrow> cell_depth c \<le> d \<Longrightarrow> built e (f c)) \<Longrightarrow> built e (and_then r f)"
  by (auto simp: built_def)

lemma built_mono: "built d r \<Longrightarrow> d \<le> e \<Longrightarrow> built e r"
  by (auto simp: built_def)

lemma empty_built: "parser_ok T \<Longrightarrow> builder_ok T \<Longrightarrow> built 0 (empty_cell T)"
proof -
  assume T: "builder_ok T"
  obtain c where "ton_build T new_builder = Inr c" "holds new_builder c" by (rule ton_build_fits [OF T, of new_builder]) (auto simp: new_builder_def)
  then show ?thesis by (auto simp: built_def empty_cell_def holds_def new_builder_def cell_depth_eq [of c])
qed

lemma more_names: "name_ok ''baseStore''" "name_ok ''UlnRecvCfg''" "name_ok ''UlnSendCfg''" "name_ok ''uln''" "name_ok ''connection''"
  by (simp_all add: name_ok_def)

lemma flag_ok: "field_ok (ClNum 0 0)" "field_ok (ClNum 0 1)" "field_ok (ClNum T_UINT8 0)" "field_ok (ClNum T_UINT16 0)" "field_ok (ClNum T_UINT32 0)"
    "field_ok (ClNum T_UINT64 0)" "field_ok (ClNum T_UINT64 1)" "field_ok (ClNum 0 (Suc 0))" "field_ok (ClNum T_UINT64 (Suc 0))"
  by (simp_all add: field_ok_def type_width_def cl_widths)

text \<open>The layout of a class, computed.\<close>

lemmas layout = class_cells_def cells_used_def type_width_def Let_def cl_widths cl_u256_be_def

lemma base_storage_built:
  assumes T: "parser_ok T" "builder_ok T" and o: "length owner = 32"
  shows "built 2 (build_base_storage T owner)"
  unfolding build_base_storage_def
proof (rule built_then [OF empty_built [OF T]])
  fix c
  assume c: "tc_level c = 0" "cell_depth c \<le> 0"
  let ?fs = "[cl_u256_be T_UINT256 owner, ClNum 0 0, ClNum 0 0, ClRef c]"
  have ok: "list_all field_ok ?fs" using c o by (simp add: class_facts flag_ok)
  show "built 2 (cl_declare T ''baseStore'' ?fs)"
    by (rule built_mono [OF class_built [OF T more_names(1) ok, where n = 1 and d = 0]]) (use c in \<open>simp_all add: layout MAX_CELL_DEPTH_def\<close>)
qed

lemma receive_config_built:
  assumes T: "parser_ok T" "builder_ok T"
  shows "built 2 (build_uln_receive_config_default T)"
  unfolding build_uln_receive_config_default_def
proof (rule built_then [OF empty_built [OF T]], rule built_then [OF empty_built [OF T]])
  fix r c
  assume c: "tc_level r = 0" "cell_depth r \<le> 0" "tc_level c = 0" "cell_depth c \<le> 0"
  let ?fs = "[ClNum 0 1, ClNum T_UINT32 0, ClNum 0 1, ClNum T_UINT64 0, ClNum 0 1, ClRef r, ClNum 0 1, ClRef c, ClNum T_UINT8 0]"
  have ok: "list_all field_ok ?fs" using c by (simp add: class_facts flag_ok)
  show "built 2 (cl_declare T ''UlnRecvCfg'' ?fs)"
    by (rule built_mono [OF class_built [OF T more_names(2) ok, where n = 1 and d = 0]]) (use c in \<open>auto simp: layout MAX_CELL_DEPTH_def\<close>)
qed

lemma send_config_built:
  assumes T: "parser_ok T" "builder_ok T"
  shows "built 2 (build_uln_send_config_default T)"
  unfolding build_uln_send_config_default_def
proof (rule built_then [OF empty_built [OF T]], rule built_then [OF empty_built [OF T]])
  fix r c
  assume c: "tc_level r = 0" "cell_depth r \<le> 0" "tc_level c = 0" "cell_depth c \<le> 0"
  let ?fs = "[ClNum T_UINT32 0, ClNum T_UINT32 0, ClNum 0 1, cl_u256_be T_UINT256 (replicate 32 0), ClNum 0 1, ClRef r, ClNum 0 1, ClRef c, ClNum 0 1, ClNum T_UINT64 0]"
  have ok: "list_all field_ok ?fs" using c by (simp add: class_facts flag_ok)
  show "built 2 (cl_declare T ''UlnSendCfg'' ?fs)"
    by (rule built_mono [OF class_built [OF T more_names(3) ok, where n = 1 and d = 0]]) (use c in \<open>auto simp: layout MAX_CELL_DEPTH_def\<close>)
qed

lemma uln_data_built:
  assumes T: "parser_ok T" "builder_ok T" and o: "length owner = 32"
  shows "built 4 (build_uln_data T owner src dst)"
  unfolding build_uln_data_def
proof (rule built_then [OF base_storage_built [OF T o]], rule built_then [OF receive_config_built [OF T]],
    rule built_then [OF send_config_built [OF T]], rule built_then [OF empty_built [OF T]], rule built_then [OF empty_built [OF T]])
  fix b r s c w
  assume c: "tc_level b = 0" "cell_depth b \<le> 2" "tc_level r = 0" "cell_depth r \<le> 2" "tc_level s = 0" "cell_depth s \<le> 2"
    "tc_level c = 0" "cell_depth c \<le> 0" "tc_level w = 0" "cell_depth w \<le> 0"
  let ?fs = "[ClRef b, ClNum T_UINT32 (unat src), ClNum T_UINT32 (unat dst), ClRef r, ClRef s, ClRef c, ClRef w, ClNum T_UINT16 0, ClNum T_UINT16 0, ClNum T_UINT16 0]"
  have ok: "list_all field_ok ?fs" using c by (simp add: class_facts flag_ok)
  show "built 4 (cl_declare T ''uln'' ?fs)"
    by (rule built_mono [OF class_built [OF T more_names(4) ok, where n = 2 and d = 2]]) (use c in \<open>auto simp: layout MAX_CELL_DEPTH_def\<close>)
qed

lemma path_built:
  assumes T: "parser_ok T" "builder_ok T" and o: "length s = 32" "length r = 32"
  shows "built 2 (cl_declare T ''path'' [ClNum T_UINT32 (unat (src :: u32)), cl_u256_be T_UINT256 s, ClNum T_UINT32 (unat (dst :: u32)), cl_u256_be T_UINT256 r])"
    (is "built 2 (cl_declare T ''path'' ?fs)")
proof -
  have ok: "list_all field_ok ?fs" using o by (simp add: class_facts)
  show ?thesis
    by (rule built_mono [OF class_built [OF T names(4) ok, where n = 1 and d = 0]]) (auto simp: layout MAX_CELL_DEPTH_def)
qed

lemma connection_built:
  assumes T: "parser_ok T" "builder_ok T" and o: "length owner = 32" "length x = 32" "length y = 32" "length u = 32"
  shows "built 4 (build_uln_connection_data T owner src x dst y u)"
  unfolding build_uln_connection_data_def
proof (rule built_then [OF path_built [OF T o(2,3)]], rule built_then [OF base_storage_built [OF T o(1)]],
    rule built_then [OF send_config_built [OF T]], rule built_then [OF receive_config_built [OF T]],
    rule built_then [OF empty_built [OF T]], rule built_then [OF empty_built [OF T]])
  fix p b s r h c
  assume c: "tc_level p = 0" "cell_depth p \<le> 2" "tc_level b = 0" "cell_depth b \<le> 2" "tc_level s = 0" "cell_depth s \<le> 2"
    "tc_level r = 0" "cell_depth r \<le> 2" "tc_level h = 0" "cell_depth h \<le> 0" "tc_level c = 0" "cell_depth c \<le> 0"
  let ?z = "cl_u256_be T_UINT256 (replicate 32 0)"
  let ?fs = "[ClRef b, ClRef p, ?z, ?z, ClNum T_UINT64 1, cl_u256_be T_UINT256 u, ClRef s, ClRef r, ClRef h, ClRef c]"
  have ok: "list_all field_ok ?fs" using c o by (simp add: class_facts flag_ok)
  show "built 4 (cl_declare T ''connection'' ?fs)"
    by (rule built_mono [OF class_built [OF T more_names(5) ok, where n = 2 and d = 2]]) (use c in \<open>auto simp: layout MAX_CELL_DEPTH_def\<close>)
qed

lemma call_data_built:
  assumes T: "parser_ok T" "builder_ok T" and o: "length a = 32" "length p = 32" and bc: "0 \<le> bc"
  shows "built 6 (build_uln_call_data T a nonce bc p)"
  unfolding build_uln_call_data_def build_attestation_def build_uln_verification_def build_md_address_def
proof (rule built_then [of 2], goal_cases)
  case 1
  have ok: "list_all field_ok [cl_u256_be T_UINT256 p, ClNum T_UINT64 (unat (w :: u64))]" for w using o by (simp add: class_facts)
  have "built 2 (cl_declare T ''Attest'' [cl_u256_be T_UINT256 p, ClNum T_UINT64 (unat (w :: u64))])" for w
    by (rule built_mono [OF class_built [OF T names(1) ok, where n = 1 and d = 0]]) (auto simp: layout MAX_CELL_DEPTH_def)
  with bc show ?case by (simp add: require_nonneg_def)
next
  case (2 at)
  have v: "built 4 (cl_declare T ''UlnVerify'' [ClNum T_UINT64 (unat nonce), ClRef at])"
  proof -
    have ok: "list_all field_ok [ClNum T_UINT64 (unat nonce), ClRef at]" using 2 by (simp add: class_facts)
    show ?thesis by (rule built_mono [OF class_built [OF T names(2) ok, where n = 1 and d = 2]]) (use 2 in \<open>auto simp: layout MAX_CELL_DEPTH_def\<close>)
  qed
  show ?case
  proof (rule built_then [OF v])
    fix c
    assume c: "tc_level c = 0" "cell_depth c \<le> 4"
    have ok: "list_all field_ok [ClRef c, cl_u256_be T_UINT256 a]" using c o by (simp add: class_facts)
    show "built 6 (cl_declare T ''MdAddr'' [ClRef c, cl_u256_be T_UINT256 a])"
      by (rule built_mono [OF class_built [OF T names(3) ok, where n = 1 and d = 4]]) (use c in \<open>auto simp: layout MAX_CELL_DEPTH_def\<close>)
  qed
qed

lemma execute_built:
  assumes T: "parser_ok T" "builder_ok T" and o: "length t = 32" "length u = 32" and e: "0 \<le> e" and c: "tc_level c = 0" "cell_depth c \<le> 6"
  shows "built 8 (build_execute_params T t c e OP_ULN_VERIFY u)"
proof -
  let ?fs = "\<lambda>w :: u64. [cl_u256_be T_UINT256 t, ClRef c, ClNum T_UINT64 (unat w), ClNum T_UINT32 OP_ULN_VERIFY, cl_u256_be T_UINT256 u]"
  have ok: "list_all field_ok (?fs w)" for w using o c by (simp add: class_facts)
  have "built 8 (cl_declare T ''execParams'' (?fs w))" for w
    by (rule built_mono [OF class_built [OF T names(6) ok, where n = 1 and d = 6]]) (use c in \<open>auto simp: layout MAX_CELL_DEPTH_def\<close>)
  with e show ?thesis by (simp add: build_execute_params_def require_nonneg_def)
qed

lemma snake_built:
  assumes T: "builder_ok T"
  shows "\<forall>chunk \<in> set chunks. length chunk \<le> CELL_BYTES \<Longrightarrow> (\<And>d. acc = Some d \<Longrightarrow> tc_level d = 0) \<Longrightarrow> chunks \<noteq> [] \<or> acc \<noteq> None \<Longrightarrow>
    (case acc of None \<Rightarrow> 0 | Some d \<Rightarrow> Suc (cell_depth d)) + length chunks \<le> levels \<Longrightarrow> levels \<le> MAX_CELL_DEPTH \<Longrightarrow>
    \<exists>c. snake_cells T chunks acc = Inr c \<and> tc_level c = 0 \<and> cell_depth c < levels"
proof (induction chunks arbitrary: acc)
  case (Cons chunk chunks)
  have len: "length (bytes_bits chunk) \<le> MAX_CELL_BITS"
  proof -
    have "length (bytes_bits chunk) = 8 * length chunk" by (induction chunk) (auto simp: bytes_bits_def)
    then show ?thesis using Cons.prems(1) by (simp add: CELL_BYTES_def MAX_CELL_BITS_def)
  qed
  let ?b = "\<lparr>cb_bits = bytes_bits chunk, cb_refs = (case acc of None \<Rightarrow> [] | Some d \<Rightarrow> [d])\<rparr>"
  have w: "core_write_bits T (bytes_bits chunk) new_builder = Inr \<lparr>cb_bits = bytes_bits chunk, cb_refs = []\<rparr>"
    using builder_okD(6) [OF T, of new_builder "bytes_bits chunk"] len by (simp add: yields_def new_builder_def)
  have r: "(case acc of None \<Rightarrow> Inr \<lparr>cb_bits = bytes_bits chunk, cb_refs = []\<rparr> | Some child \<Rightarrow> core_call (core_write_ref T child \<lparr>cb_bits = bytes_bits chunk, cb_refs = []\<rparr>)) = Inr ?b"
    by (auto simp: write_ref_eq [OF T] MAX_CELL_REFS_def split: option.splits)
  have refs: "\<forall>r \<in> set (cb_refs ?b). tc_level r = 0 \<and> cell_depth r < MAX_CELL_DEPTH"
    using Cons.prems(2,4,5) by (auto split: option.splits)
  obtain c where c: "ton_build T ?b = Inr c" "holds ?b c" by (rule ton_build_fits [OF T refs])
  have "cell_depth c \<le> (case acc of None \<Rightarrow> 0 | Some d \<Rightarrow> Suc (cell_depth d))"
    using c(2) by (auto simp: holds_def cell_depth_eq [of c] split: option.splits)
  then have "\<exists>c'. snake_cells T chunks (Some c) = Inr c' \<and> tc_level c' = 0 \<and> cell_depth c' < levels"
    using Cons.prems c(2) by (intro Cons.IH) (auto simp: holds_def)
  with w r c(1) show ?case by auto
qed auto

lemma byte_chunks_bounds: "length (byte_chunks bs) * CELL_BYTES < length bs + CELL_BYTES" "chunk \<in> set (byte_chunks bs) \<Longrightarrow> length chunk \<le> CELL_BYTES"
  "byte_chunks bs = [] \<longleftrightarrow> bs = []"
proof (induction bs rule: byte_chunks.induct)
  case (1 bs)
  {
    case 1
    show ?case
    proof (cases "length bs \<le> CELL_BYTES")
      case True
      then show ?thesis using byte_chunks.simps [of "[]"] by (subst byte_chunks.simps) (simp add: CELL_BYTES_def)
    next
      case False
      then have "bs \<noteq> []" by auto
      with False "1.IH"(1) show ?thesis by (subst byte_chunks.simps) simp
    qed
  next
    case 2
    then show ?case using "1.IH"(2) by (subst (asm) byte_chunks.simps) (auto split: if_splits)
  next
    case 3
    show ?case by (subst byte_chunks.simps) simp
  }
qed

lemma message_built:
  assumes T: "parser_ok T" "builder_ok T" and X: "hex_ok X" and m: "hex_decode X (strip_0x hex) = Inr bs" "length bs \<le> MAX_CELL_DEPTH * CELL_BYTES"
  shows "built 1023 (hex_to_cells X T hex)"
proof -
  have len: "length (strip_0x hex) = 2 * length bs" using X m(1) by (auto simp: hex_ok_def)
  show ?thesis
  proof (cases "bs = []")
    case True
    have "built 1023 (empty_cell T)" by (rule built_mono [OF empty_built [OF T]]) simp
    then show ?thesis using True len by (simp add: hex_to_cells_def empty_cell_def)
  next
    case False
    have "length (byte_chunks bs) \<le> MAX_CELL_DEPTH" using byte_chunks_bounds(1) [of bs] m(2) by (simp add: CELL_BYTES_def MAX_CELL_DEPTH_def)
    moreover have "\<forall>chunk \<in> set (rev (byte_chunks bs)). length chunk \<le> CELL_BYTES" using byte_chunks_bounds(2) by auto
    ultimately obtain c where "snake_cells T (rev (byte_chunks bs)) None = Inr c" "tc_level c = 0" "cell_depth c < MAX_CELL_DEPTH"
      using snake_built [OF T(2), of "rev (byte_chunks bs)" None MAX_CELL_DEPTH] False byte_chunks_bounds(3) [of bs] by auto
    moreover have "\<not> MAX_CELL_DEPTH * 127 * 2 < length (strip_0x hex)" "strip_0x hex \<noteq> []" using len m(2) False by (auto simp: CELL_BYTES_def)
    ultimately show ?thesis using m(1) by (auto simp: hex_to_cells_def Let_def built_def MAX_CELL_DEPTH_def)
  qed
qed

text \<open>The values a request gives: addresses and texts that parse, code cells that are not too deep, and times that are not negative.\<close>

definition code_ok :: "external \<Rightarrow> ton_core \<Rightarrow> string \<Rightarrow> bool" where
  "code_ok X T hex \<longleftrightarrow> built 1023 (boc_from_hex X T hex)"

definition request_ok :: "external \<Rightarrow> ton_core \<Rightarrow> ton_dvn_verify_request \<Rightarrow> bool" where
  "request_ok X T req \<longleftrightarrow>
     list_all (\<lambda>address. is_ok (address_to_be32 T address)) [tv_sender req, tv_receiver req, tv_uln_manager_address req, tv_target req] \<and>
     is_ok (hex_to_be32 X (tv_guid req)) \<and>
     (\<exists>bs. hex_decode X (strip_0x (tv_message req)) = Inr bs \<and> length bs \<le> MAX_CELL_DEPTH * CELL_BYTES) \<and>
     code_ok X T (code_uln (tv_code req)) \<and> code_ok X T (code_uln_connection (tv_code req)) \<and>
     0 \<le> tv_block_confirmation req \<and> 0 \<le> tv_expiration req"

definition hashes_total :: "ton_core \<Rightarrow> bool" where
  "hashes_total T \<longleftrightarrow> (\<forall>c. tc_level c = 0 \<longrightarrow> cell_depth c \<le> MAX_CELL_DEPTH + 1 \<longrightarrow> (\<exists>h. core_hash T c = Inr h))"

lemma hash_total: "hashes_total T \<Longrightarrow> tc_level c = 0 \<Longrightarrow> cell_depth c \<le> 1025 \<Longrightarrow> \<exists>h. core_hash T c = Inr h"
  by (simp add: hashes_total_def MAX_CELL_DEPTH_def)

lemma state_init_ok:
  assumes T: "builder_ok T" "hash_ok X T" "hashes_total T" and c: "tc_level code = 0" "cell_depth code \<le> 1023" "tc_level data = 0" "cell_depth data \<le> 1023"
  obtains addr where "state_init_address T w code data = Inr addr" "length (addr_hash addr) = 32"
proof -
  let ?b = "\<lparr>cb_bits = [False, False, True, True, False], cb_refs = [code, data]\<rparr>"
  obtain s where s: "ton_build T ?b = Inr s" "holds ?b s" by (rule ton_build_fits [OF T(1), of ?b]) (use c in \<open>auto simp: MAX_CELL_DEPTH_def\<close>)
  have "cell_depth s \<le> Suc 1023" using s(2) c by (intro depth_le) (auto simp: holds_def)
  then obtain h where h: "core_hash T s = Inr h" using hash_total [OF T(3), of s] s(2) by (auto simp: holds_def)
  have bit: "core_write_bit T x b = Inr (b\<lparr>cb_bits := cb_bits b @ [x]\<rparr>)" if "length (cb_bits b) < 10" for x b
    using builder_okD(1) [OF T(1), of b x] that by (auto simp: yields_def MAX_CELL_BITS_def)
  have ref: "core_write_ref T x b = Inr (b\<lparr>cb_refs := cb_refs b @ [x]\<rparr>)" if "length (cb_refs b) < 4" for x b
    using builder_okD(3) [OF T(1), of b x] that by (auto simp: yields_def MAX_CELL_REFS_def)
  have "state_init_address T w code data = Inr \<lparr>addr_workchain = w, addr_hash = h\<rparr>"
    using s(1) h by (simp add: state_init_address_def new_builder_def bit ref hash_of_def)
  with that h T(2) show thesis by (auto simp: hash_ok_def)
qed

lemma derive_ok:
  assumes T: "parser_ok T" "builder_ok T" "hash_ok X T" "hashes_total T" and r: "request_ok X T req"
  obtains derived where "derive_uln_addresses X T (request_pathway req) (tv_code req) = Inr derived"
    "length (addr_hash (der_uln derived)) = 32" "length (addr_hash (der_uln_connection derived)) = 32"
proof -
  from r obtain m s v c1 c2 where a: "address_to_be32 T (tv_uln_manager_address req) = Inr m" "address_to_be32 T (tv_sender req) = Inr s" "address_to_be32 T (tv_receiver req) = Inr v"
    and c: "boc_from_hex X T (code_uln (tv_code req)) = Inr c1" "tc_level c1 = 0" "cell_depth c1 \<le> 1023"
      "boc_from_hex X T (code_uln_connection (tv_code req)) = Inr c2" "tc_level c2 = 0" "cell_depth c2 \<le> 1023"
    by (auto simp: request_ok_def is_ok_iff code_ok_def built_def)
  note len = a [THEN address_length]
  obtain d1 where d1: "build_uln_data T m (tv_dst_eid req) (tv_src_eid req) = Inr d1" "tc_level d1 = 0" "cell_depth d1 \<le> 4"
    using uln_data_built [OF T(1,2) len(1), of "tv_dst_eid req" "tv_src_eid req"] by (auto simp: built_def)
  obtain u where u: "state_init_address T 0 c1 d1 = Inr u" "length (addr_hash u) = 32"
    by (rule state_init_ok [OF T(2,3,4) c(2,3) d1(2)]) (use d1 in auto)
  obtain d2 where d2: "build_uln_connection_data T m (tv_dst_eid req) v (tv_src_eid req) s (addr_hash u) = Inr d2" "tc_level d2 = 0" "cell_depth d2 \<le> 4"
    using connection_built [OF T(1,2) len(1,3,2) u(2), of "tv_dst_eid req" "tv_src_eid req"] by (auto simp: built_def)
  obtain w where w: "state_init_address T 0 c2 d2 = Inr w" "length (addr_hash w) = 32"
    by (rule state_init_ok [OF T(2,3,4) c(5,6) d2(2)]) (use d2 in auto)
  have "derive_uln_addresses X T (request_pathway req) (tv_code req) = Inr \<lparr>der_uln = u, der_uln_connection = w\<rparr>"
    using a c d1(1) u d2(1) w(1) by (simp add: derive_uln_addresses_def request_pathway_def hash_be32_def Let_def)
  with that u w show thesis by simp
qed

lemma packet_built:
  assumes T: "parser_ok T" "builder_ok T" and X: "hex_ok X" and r: "request_ok X T req"
  shows "built 1025 (ton_packet X T req)"
proof -
  from r obtain s v g bs where a: "address_to_be32 T (tv_sender req) = Inr s" "address_to_be32 T (tv_receiver req) = Inr v" "hex_to_be32 X (tv_guid req) = Inr g"
    and m: "hex_decode X (strip_0x (tv_message req)) = Inr bs" "length bs \<le> MAX_CELL_DEPTH * CELL_BYTES" by (auto simp: request_ok_def is_ok_iff)
  note len = address_length [OF a(1)] address_length [OF a(2)] hex32_length [OF a(3)]
  have "built 1025 (and_then (build_lz_path T (tv_src_eid req) s (tv_dst_eid req) v) (\<lambda>path. build_lz_packet X T path (tv_message req) (tv_nonce req) g))"
    unfolding build_lz_path_def build_lz_packet_def
  proof (rule built_then [OF path_built [OF T len(1,2)]], rule built_then [OF message_built [OF T X m]])
    fix path message
    assume c: "tc_level path = 0" "cell_depth path \<le> 2" "tc_level message = 0" "cell_depth message \<le> 1023"
    let ?fs = "[ClRef path, ClRef message, ClNum T_UINT64 (unat (tv_nonce req)), cl_u256_be T_UINT256 g]"
    have ok: "list_all field_ok ?fs" using c len by (simp add: class_facts)
    show "built 1025 (cl_declare T ''Packet'' ?fs)"
      by (rule built_mono [OF class_built [OF T names(5) ok, where n = 1 and d = 1023]]) (use c in \<open>auto simp: layout MAX_CELL_DEPTH_def\<close>)
  qed
  then show ?thesis by (simp add: ton_packet_def a)
qed

lemma ton_call_built:
  assumes T: "parser_ok T" "builder_ok T" "hash_ok X T" "hashes_total T" and X: "hex_ok X" and r: "request_ok X T req"
  shows "built 8 (ton_call X T req)"
proof -
  obtain derived where d: "derive_uln_addresses X T (request_pathway req) (tv_code req) = Inr derived"
    "length (addr_hash (der_uln derived)) = 32" "length (addr_hash (der_uln_connection derived)) = 32" by (rule derive_ok [OF T r])
  from packet_built [OF T(1,2) X r] obtain p where p: "ton_packet X T req = Inr p" "tc_level p = 0" "cell_depth p \<le> 1025" by (auto simp: built_def)
  then obtain h where h: "core_hash T p = Inr h" "length h = 32" using hash_total [OF T(4), of p] T(3) by (auto simp: hash_ok_def)
  have hx: "repr_hash_hex T p = Inr (hex_encode X h)" "hex_to_be32 X (hex_encode X h) = Inr h"
    using h T(3) X trim_hex [OF X, of h] by (auto simp: repr_hash_hex_def hash_of_def hash_ok_def hex_to_be32_def hex_ok_def)
  from r obtain t where t: "address_to_be32 T (tv_target req) = Inr t" "0 \<le> tv_block_confirmation req" "0 \<le> tv_expiration req" by (auto simp: request_ok_def is_ok_iff)
  from call_data_built [OF T(1,2) d(3) h(2) t(2), of "tv_nonce req"] obtain c where
    c: "build_uln_call_data T (addr_hash (der_uln_connection derived)) (tv_nonce req) (tv_block_confirmation req) h = Inr c" "tc_level c = 0" "cell_depth c \<le> 6"
    by (auto simp: built_def)
  from execute_built [OF T(1,2) address_length [OF t(1)] d(2) t(3) c(2,3)] show ?thesis
    using d p(1) hx c(1) t(1) by (simp add: ton_call_def hash_be32_def)
qed

section \<open>A cell library whose hash is constant\<close>

lemma constant_level: "(\<And>c. H c = Inr h) \<Longrightarrow> ids h \<noteq> None \<Longrightarrow> bfs_level H level cells ids [] = Inr (cells, ids, [])"
  by (induction level) (auto simp: hash_of_def)

lemma constant_stack: "k \<le> n \<Longrightarrow> dfs_stack [replicate n 0] [True] [] [(0, k)] = Some ([True], [0])"
  by (induction k) auto

lemma constant_postorder: "cell_postorder [replicate n 0] = Some [0]"
  using constant_stack [of n n] by (simp add: cell_postorder_def)

lemma constant_refs:
  assumes "\<And>c. H c = Inr h"
  shows "child_ids H [h \<mapsto> 0] root = Inr (replicate (length (tc_refs root)) 0)"
proof -
  have "map_res (\<lambda>child. and_then (hash_of H child) (\<lambda>hash. ok_or TonPanic ([h \<mapsto> (0 :: nat)] hash))) cs = Inr (replicate (length cs) 0)" for cs
    by (induction cs) (auto simp: hash_of_def assms)
  then show ?thesis by (simp add: child_ids_def)
qed

lemma constant_serialized:
  assumes H: "\<And>c. H c = Inr h"
  shows "\<exists>bs. serialize_boc H crc root = Inr bs"
proof -
  have "bfs_levels H [root] [] Map.empty = bfs_levels H (tc_refs root) [root] [h \<mapsto> 0]"
    by (subst bfs_levels.simps) (simp add: hash_of_def H)
  also have "\<dots> = Inr ([root], [h \<mapsto> 0])"
  proof (cases "tc_refs root = []")
    case True
    then show ?thesis by (subst bfs_levels.simps) simp
  next
    case False
    then show ?thesis
      using constant_level [of H h "[h \<mapsto> 0]" "tc_refs root" "[root]", OF H]
      by (subst bfs_levels.simps) (simp add: bfs_levels.simps [of H "[]"])
  qed
  finally show ?thesis using constant_refs [of H h, OF H] constant_postorder by (simp add: serialize_boc_def Let_def)
qed

definition sample_ton_core :: ton_core where
  "sample_ton_core = ref_ton_core\<lparr>core_hash := \<lambda>_. Inr (replicate 32 1)\<rparr>"

definition sample_code :: string where "sample_code = ''b5ee9c72010101010002000000''"

definition sample_ton_call :: "string \<Rightarrow> ton_dvn_verify_request" where
  "sample_ton_call address =
     \<lparr>tv_src_eid = 30101, tv_dst_eid = 30343, tv_sender = ''0x02'', tv_receiver = ''0x03'', tv_guid = ''0x04'', tv_nonce = 1, tv_message = [],
      tv_block_confirmation = 15, tv_expiration = 1000, tv_uln_manager_address = ''0x05'', tv_target = address,
      tv_code = \<lparr>code_uln = sample_code, code_uln_connection = sample_code\<rparr>\<rparr>"

lemma sample_core_ok: "parser_ok sample_ton_core" "builder_ok sample_ton_core" "hash_ok ref_external sample_ton_core" "hashes_total sample_ton_core"
proof -
  show "parser_ok sample_ton_core" using ref_parser_ok by (simp add: parser_ok_def sample_ton_core_def)
  show "builder_ok sample_ton_core" using ref_builder_ok by (simp add: builder_ok_def sample_ton_core_def)
  show "hash_ok ref_external sample_ton_core" by (simp add: hash_ok_def sample_ton_core_def ref_ton_core_def)
  show "hashes_total sample_ton_core" by (simp add: hashes_total_def sample_ton_core_def)
qed

lemma white_space_ends: "w \<in> set white_spaces \<Longrightarrow> w \<noteq> [] \<and> of_char (hd w) \<notin> {33..<128 :: nat} \<and> of_char (last w) \<notin> {33..<128 :: nat}"
  by (auto simp: white_spaces_def byte_char_def of_char_of)

lemma strip_none:
  assumes "s \<noteq> []" "\<And>w. w \<in> set ws \<Longrightarrow> w = [] \<or> hd w \<noteq> hd s"
  shows "strip_any ws s = s"
proof -
  have "\<not> (w \<noteq> [] \<and> take (length w) s = w)" if "w \<in> set ws" for w
    using assms(1) assms(2) [OF that] by (cases w; cases s) auto
  then have "find (\<lambda>w. w \<noteq> [] \<and> take (length w) s = w) ws = None" unfolding find_None_iff by blast
  then show ?thesis by (subst strip_any.simps) simp
qed

lemma trim_plain:
  assumes "s \<noteq> []" "of_char (hd s) \<in> {33..<128 :: nat}" "of_char (last s) \<in> {33..<128 :: nat}"
  shows "str_trim s = s"
proof -
  have "hd w \<noteq> hd s" "hd (rev w) \<noteq> hd (rev s)" if "w \<in> set white_spaces" for w
    using white_space_ends [OF that] assms by (auto simp: hd_rev)
  then have "strip_any white_spaces s = s" using assms(1) by (intro strip_none) auto
  moreover have "strip_any (map rev white_spaces) (rev s) = rev s"
    using assms(1) \<open>\<And>w. w \<in> set white_spaces \<Longrightarrow> hd (rev w) \<noteq> hd (rev s)\<close> by (intro strip_none) auto
  ultimately show ?thesis by (simp add: str_trim_def)
qed

lemma sample_address:
  assumes "hex_decode ref_external s = Inr bs" "s \<noteq> []" "of_char (last s) \<in> {33..<128 :: nat}" "be_decode bs < 256" "0 < be_decode bs"
  shows "address_to_be32 sample_ton_core (''0x'' @ s) = Inr (replicate 31 0 @ be_encode 1 (be_decode bs))"
proof -
  have "bit_length (be_decode bs) \<le> 8" using assms(4) by (intro bit_length_le) simp
  then have w: "byte_width (be_decode bs) = 1" by (simp add: byte_width_def)
  have "str_trim (''0x'' @ s) = ''0x'' @ s" using assms(2,3) by (intro trim_plain) auto
  then show ?thesis using assms(1,4,5) by (simp add: address_to_be32_def strip_prefix_0x_def sample_ton_core_def ref_ton_core_def Let_def to_bytes_be_def w)
qed

lemma sample_targets:
  "address_to_be32 sample_ton_core ''0x01'' = Inr (replicate 31 0 @ be_encode 1 1)"
  "address_to_be32 sample_ton_core ''0x0001'' = Inr (replicate 31 0 @ be_encode 1 1)"
proof -
  have num: "be_decode [b] = unat b" "be_decode [0, b] = unat b" for b by (simp_all add: be_decode_def)
  have d: "hex_decode ref_external ''01'' = Inr [1]" "hex_decode ref_external ''0001'' = Inr [0, 1]"
    by (simp_all add: ref_external_def ref_hex_decode_def hex_value_def)
  show "address_to_be32 sample_ton_core ''0x01'' = Inr (replicate 31 0 @ be_encode 1 1)"
    using sample_address [OF d(1)] num by simp
  show "address_to_be32 sample_ton_core ''0x0001'' = Inr (replicate 31 0 @ be_encode 1 1)"
    using sample_address [OF d(2)] num by simp
qed

lemma sample_others:
  "is_ok (address_to_be32 sample_ton_core ''0x02'')" "is_ok (address_to_be32 sample_ton_core ''0x03'')" "is_ok (address_to_be32 sample_ton_core ''0x05'')"
proof -
  have num: "be_decode [b] = unat b" "be_decode [0, b] = unat b" for b by (simp_all add: be_decode_def)
  have d: "hex_decode ref_external ''02'' = Inr [2]" "hex_decode ref_external ''03'' = Inr [3]" "hex_decode ref_external ''05'' = Inr [5]"
    by (simp_all add: ref_external_def ref_hex_decode_def hex_value_def)
  show "is_ok (address_to_be32 sample_ton_core ''0x02'')" using sample_address [OF d(1)] num by (simp add: is_ok_iff)
  show "is_ok (address_to_be32 sample_ton_core ''0x03'')" using sample_address [OF d(2)] num by (simp add: is_ok_iff)
  show "is_ok (address_to_be32 sample_ton_core ''0x05'')" using sample_address [OF d(3)] num by (simp add: is_ok_iff)
qed

lemma read_one_byte: "k < length bs \<Longrightarrow> length bs < 2 ^ 32 \<Longrightarrow> read_boc_uint bs k 1 = Some (unat (bs ! k), Suc k)"
proof -
  have "unat (bs ! k) < 2 ^ 64" by (rule less_le_trans [OF unat_byte_less]) simp
  then show "k < length bs \<Longrightarrow> length bs < 2 ^ 32 \<Longrightarrow> ?thesis"
    by (simp add: read_boc_uint_def slice_def checked_def take_Suc_conv_app_nth)
qed

definition sample_bytes :: bytes where "sample_bytes = [0xb5, 0xee, 0x9c, 0x72, 1, 1, 1, 1, 0, 2, 0, 0, 0]"

lemma sample_code_bytes: "hex_decode ref_external (trim_start_0x sample_code) = Inr sample_bytes"
  by (simp add: sample_bytes_def sample_code_def ref_external_def ref_hex_decode_def hex_value_def)

lemma sample_reads: "read_boc_uint sample_bytes 6 1 = Some (1, 7)" "read_boc_uint sample_bytes 7 1 = Some (1, 8)" "read_boc_uint sample_bytes 8 1 = Some (0, 9)"
  "read_boc_uint sample_bytes 9 1 = Some (2, 10)" "read_boc_uint sample_bytes 10 1 = Some (0, 11)"
  using read_one_byte [of 6 sample_bytes] read_one_byte [of 7 sample_bytes] read_one_byte [of 8 sample_bytes] read_one_byte [of 9 sample_bytes]
    read_one_byte [of 10 sample_bytes] by (simp_all add: sample_bytes_def)

lemma sample_counts: "read_counts sample_bytes 1 1 = Some (\<lparr>bc_cells = 1, bc_roots = 1, bc_absent = 0, bc_data_size = 2\<rparr>, 10)"
  by (simp add: read_counts_def sample_reads [simplified])

lemma sample_fields: "sample_bytes ! 4 = 1" "sample_bytes ! 5 = 1" "sample_bytes ! 11 = 0" "sample_bytes ! 12 = 0" "length sample_bytes = 13" "take 4 sample_bytes = BOC_MAGIC"
  by (simp_all add: sample_bytes_def BOC_MAGIC_def)

lemma sample_boc: "boc_from_bytes (core_parse_boc sample_ton_core) sample_bytes = Inr (TonCell (num_bits 8 13) [] False 0)"
proof -
  note facts = sample_counts [simplified] sample_reads [simplified] sample_fields
  have "boc_header_is_safe sample_bytes MAX_MESSAGE_CELLS"
    by (simp add: boc_header_is_safe_def Let_def facts checked_def index_size_def has_idx_def has_crc32c_def MAX_MESSAGE_CELLS_def)
  moreover have "boc_refs sample_bytes = Some [[]]"
    by (simp add: boc_refs_def boc_data_def Let_def facts checked_def index_size_def has_idx_def read_cell_def)
  ultimately show ?thesis
    by (simp add: boc_from_bytes_def boc_from_bytes_with_limits_def boc_max_depth_def sample_ton_core_def ref_ton_core_def facts del: num_bits.simps)
qed

lemma sample_request_ok:
  assumes "is_ok (address_to_be32 sample_ton_core address)"
  shows "request_ok ref_external sample_ton_core (sample_ton_call address)"
proof -
  have "is_ok (hex_to_be32 ref_external ''0x04'')"
    by (simp add: hex_to_be32_def ref_external_def ref_hex_decode_def hex_value_def is_ok_iff)
  moreover have "hex_decode ref_external (strip_0x []) = Inr []" by (simp add: ref_external_def ref_hex_decode_def)
  moreover have "code_ok ref_external sample_ton_core sample_code"
    by (simp add: code_ok_def built_def boc_from_hex_def sample_code_bytes sample_boc)
  ultimately show ?thesis using assms sample_others by (simp add: request_ok_def sample_ton_call_def)
qed

lemma build_from_call:
  assumes "ton_call X T req = Inr cell" "\<And>c. core_hash T c = Inr h"
  shows "\<exists>out. build_ton_dvn_verify X T crc req = Inr out \<and> tvo_hash_call_data out = with_0x (core_hash_to_hex T h)"
proof -
  have s: "\<exists>s. boc_to_hex X T crc c = Inr s" for c
    using constant_serialized [of "core_hash T" h crc c] assms(2) by (auto simp: boc_to_hex_def)
  have h: "repr_hash_hex T c = Inr (core_hash_to_hex T h)" for c by (simp add: repr_hash_hex_def hash_of_def assms(2))
  from assms(1) obtain derived uln conn packet hx ph call target where
    "derive_uln_addresses X T (request_pathway req) (tv_code req) = Inr derived" "hash_be32 (der_uln derived) = Inr uln" "hash_be32 (der_uln_connection derived) = Inr conn"
    "ton_packet X T req = Inr packet" "repr_hash_hex T packet = Inr hx" "hex_to_be32 X hx = Inr ph"
    "build_uln_call_data T conn (tv_nonce req) (tv_block_confirmation req) ph = Inr call" "address_to_be32 T (tv_target req) = Inr target"
    "build_execute_params T target call (tv_expiration req) OP_ULN_VERIFY uln = Inr cell"
    unfolding ton_call_def by (auto simp: and_then_eq_Inr)
  with s [of call] s [of cell] h [of cell] show ?thesis by (auto simp: build_ton_dvn_verify_def)
qed

theorem ton_digest_binds_witness:
  "ton_statement ref_external sample_ton_core (sample_ton_call ''0x01'') = ton_statement ref_external sample_ton_core (sample_ton_call ''0x0001'')"
proof -
  let ?a = "sample_ton_call ''0x01''" and ?b = "sample_ton_call ''0x0001''"
  note T = sample_core_ok and X = ref_external_hex_ok
  have r: "request_ok ref_external sample_ton_core ?a" "request_ok ref_external sample_ton_core ?b"
    by (simp_all add: sample_request_ok sample_targets is_ok_iff)
  obtain c where c: "ton_call ref_external sample_ton_core ?a = Inr c" using ton_call_built [OF T X r(1)] by (auto simp: built_def)
  have same: "ton_packet ref_external sample_ton_core ?b = ton_packet ref_external sample_ton_core ?a"
    "ton_call ref_external sample_ton_core ?b = ton_call ref_external sample_ton_core ?a"
    unfolding ton_packet_def ton_call_def by (simp_all add: sample_ton_call_def request_pathway_def sample_targets)
  have h: "\<And>c. core_hash sample_ton_core c = Inr (replicate 32 1)" by (simp add: sample_ton_core_def)
  obtain out where out: "build_ton_dvn_verify ref_external sample_ton_core (\<lambda>_. 0) ?a = Inr out"
      "tvo_hash_call_data out = with_0x (core_hash_to_hex sample_ton_core (replicate 32 1))"
    using build_from_call [OF c h] by blast
  obtain out' where out': "build_ton_dvn_verify ref_external sample_ton_core (\<lambda>_. 0) ?b = Inr out'"
      "tvo_hash_call_data out' = with_0x (core_hash_to_hex sample_ton_core (replicate 32 1))"
    using build_from_call [OF c [folded same(2)] h] by blast
  have nc: "no_hash_collision sample_ton_core r r" for r by (auto simp: no_hash_collision_def)
  show ?thesis
    by (rule ton_digest_binds [OF T(1-3) X out(1) out'(1)]) (simp_all add: out(2) out'(2) same nc, simp_all add: sample_ton_call_def)
qed

section \<open>Every well-formed request is built\<close>

text \<open>The cells of a call are plain, so they have hashes and are serialized.\<close>

lemma call_data_plain:
  assumes T: "parser_ok T" "builder_ok T" and x: "build_uln_call_data T a n bc p = Inr x" and o: "length a = 32" "length p = 32"
  shows "plain_cell x"
proof -
  from x obtain m at v where at: "cl_declare T ''Attest'' [cl_u256_be T_UINT256 p, ClNum T_UINT64 (unat (m :: u64))] = Inr at"
    and v: "cl_declare T ''UlnVerify'' [ClNum T_UINT64 (unat n), ClRef at] = Inr v" and d: "cl_declare T ''MdAddr'' [ClRef v, cl_u256_be T_UINT256 a] = Inr x"
    unfolding build_uln_call_data_def build_attestation_def build_uln_verification_def build_md_address_def
    by (auto simp: and_then_eq_Inr map_err_eq_Inr)
  note level = class_level [OF T] and plain = cl_declare_plain [OF T(2)]
  have l: "tc_level at = 0" using level [OF _ _ at] o by (simp add: class_facts)
  have "plain_cell at" using plain [OF _ at l] o by (simp add: class_facts u256_no_ref)
  moreover have lv: "tc_level v = 0" using level [OF _ _ v] l by (simp add: class_facts)
  ultimately have "plain_cell v" using plain [OF _ v lv] l by (simp add: class_facts)
  moreover have lx: "tc_level x = 0" using level [OF _ _ d] lv o by (simp add: class_facts)
  ultimately show ?thesis using plain [OF _ d lx] lv o by (simp add: class_facts u256_no_ref)
qed

lemma execute_plain:
  assumes T: "parser_ok T" "builder_ok T" and x: "build_execute_params T t c e OP_ULN_VERIFY u = Inr x" and o: "length t = 32" "length u = 32" "plain_cell c"
  shows "plain_cell x"
proof -
  from x obtain m :: u64 where d: "cl_declare T ''execParams'' [cl_u256_be T_UINT256 t, ClRef c, ClNum T_UINT64 (unat m), ClNum T_UINT32 OP_ULN_VERIFY, cl_u256_be T_UINT256 u] = Inr x"
    by (auto simp: build_execute_params_def and_then_eq_Inr map_err_eq_Inr)
  have l: "tc_level c = 0" using o(3) plain_cell_eq by blast
  have lx: "tc_level x = 0" using class_level [OF T _ _ d] l o by (simp add: class_facts)
  show ?thesis using cl_declare_plain [OF T(2) _ d lx] l o by (simp add: class_facts u256_no_ref)
qed

lemma boc_total:
  assumes "hashes_total T" "plain_cell c" "cell_depth c \<le> 1025"
  shows "\<exists>s. boc_to_hex X T crc c = Inr s"
proof -
  have "\<forall>d \<in> subcells c. is_ok (core_hash T d)"
    using assms hash_total [OF assms(1)] by (fastforce simp: plain_cell_def is_ok_iff dest: subcell_depth)
  from serialize_total [OF this, of crc] show ?thesis by (auto simp: boc_to_hex_def)
qed

lemma build_result:
  assumes T: "parser_ok T" "builder_ok T" "hash_ok X T" "hashes_total T" and X: "hex_ok X" and r: "request_ok X T req"
  obtains cell h out where "ton_call X T req = Inr cell" "cell_depth cell \<le> 8" "repr_hash_hex T cell = Inr h" "build_ton_dvn_verify X T crc req = Inr out"
    "tvo_hash_call_data out = with_0x h" "boc_to_hex X T crc cell = Inr (tvo_dvn_call_data_boc out)"
proof -
  obtain cell where c: "ton_call X T req = Inr cell" "tc_level cell = 0" "cell_depth cell \<le> 8" using ton_call_built [OF T X r] by (auto simp: built_def)
  from c(1) obtain derived uln conn packet hx ph call target where
    d: "derive_uln_addresses X T (request_pathway req) (tv_code req) = Inr derived" "hash_be32 (der_uln derived) = Inr uln" "hash_be32 (der_uln_connection derived) = Inr conn"
    and p: "ton_packet X T req = Inr packet" "repr_hash_hex T packet = Inr hx" "hex_to_be32 X hx = Inr ph"
    and u: "build_uln_call_data T conn (tv_nonce req) (tv_block_confirmation req) ph = Inr call" and t: "address_to_be32 T (tv_target req) = Inr target"
    and e: "build_execute_params T target call (tv_expiration req) OP_ULN_VERIFY uln = Inr cell"
    unfolding ton_call_def by (auto simp: and_then_eq_Inr)
  note len = be32_length [OF d(2)] be32_length [OF d(3)] hex32_length [OF p(3)] address_length [OF t]
  have bc: "0 \<le> tv_block_confirmation req" using r by (simp add: request_ok_def)
  have call: "plain_cell call" by (rule call_data_plain [OF T(1,2) u]) (use len in auto)
  have "cell_depth call \<le> 6" using call_data_built [OF T(1,2) _ _ bc, of conn ph "tv_nonce req"] u len by (auto simp: built_def)
  then obtain ub where ub: "boc_to_hex X T crc call = Inr ub" using boc_total [OF T(4) call] by fastforce
  have cell: "plain_cell cell" by (rule execute_plain [OF T(1,2) e]) (use len call in auto)
  then obtain cb where cb: "boc_to_hex X T crc cell = Inr cb" using boc_total [OF T(4) cell] c(3) by fastforce
  obtain h where h: "repr_hash_hex T cell = Inr h"
    using hash_total [OF T(4) c(2)] c(3) by (fastforce simp: repr_hash_hex_def hash_of_def)
  from d p u t e ub cb h obtain out where "build_ton_dvn_verify X T crc req = Inr out" "tvo_hash_call_data out = with_0x h" "tvo_dvn_call_data_boc out = cb"
    by (simp add: build_ton_dvn_verify_def)
  with that c h cb show thesis by blast
qed

text \<open>
  C22: every well-formed TON request is built, whatever the parsed addresses and however long the message within the budget of
  a cell chain: the contract addresses, the packet and its hash, the call data, both serialized bags and the hash to sign
  are produced without an error or a panic; the hash and the serialized call of the output are those of one cell, the call.
\<close>

theorem ton_build_total:
  assumes "parser_ok T" "builder_ok T" "hash_ok X T" "hashes_total T" "hex_ok X" "request_ok X T req"
  shows "\<exists>out cell h. build_ton_dvn_verify X T crc req = Inr out \<and> ton_call X T req = Inr cell \<and> cell_depth cell \<le> 8 \<and>
    repr_hash_hex T cell = Inr h \<and> tvo_hash_call_data out = with_0x h \<and> boc_to_hex X T crc cell = Inr (tvo_dvn_call_data_boc out)"
  by (rule build_result [OF assms]) blast

theorem ton_build_total_witness:
  "\<exists>out cell h. build_ton_dvn_verify ref_external sample_ton_core (\<lambda>_. 0) (sample_ton_call ''0x01'') = Inr out \<and>
    ton_call ref_external sample_ton_core (sample_ton_call ''0x01'') = Inr cell \<and> cell_depth cell \<le> 8 \<and>
    repr_hash_hex sample_ton_core cell = Inr h \<and> tvo_hash_call_data out = with_0x h \<and>
    boc_to_hex ref_external sample_ton_core (\<lambda>_. 0) cell = Inr (tvo_dvn_call_data_boc out)"
  by (rule ton_build_total [OF sample_core_ok ref_external_hex_ok sample_request_ok]) (simp add: sample_targets is_ok_iff)

end
