(* ===== verification/Ton_Storage_Laws.thy ===== *)
theory Ton_Storage_Laws
  imports Ton_Storage Ton_Payload_Laws
begin

text \<open>
  What the readers of TON contract storage return: every read ends, an address list is read whole, the payload-signed
  check implements its specification over the maps the storage encodes, and options are read from their canonical places only.
\<close>

section \<open>Address lists\<close>

lemma pack_bits_byte: "length xs = 8 \<Longrightarrow> pack_bits (xs @ ys) = word_of_nat (bits_num xs) # pack_bits ys"
  by (cases xs) (auto simp: bits_num_def)

lemma pack_bytes_bits [simp]: "pack_bits (bytes_bits bs) = bs"
proof (induction bs)
  case Nil
  then show ?case by (simp add: bytes_bits_def)
next
  case (Cons b bs)
  have "unat b < 2 ^ 8" using unat_byte_less [of b] by simp
  then have "bits_num (num_bits 8 (unat b)) = unat b" by (rule bits_num_bits)
  with Cons pack_bits_byte [of "num_bits 8 (unat b)" "bytes_bits bs"] show ?case by (simp add: bytes_bits_def del: num_bits.simps)
qed

lemma length_bytes_bits [simp]: "length (bytes_bits bs) = 8 * length bs"
  by (induction bs) (auto simp: bytes_bits_def)

lemma bytes_bits_append: "bytes_bits (xs @ ys) = bytes_bits xs @ bytes_bits ys"
  by (simp add: bytes_bits_def)

lemma read_addresses_all:
  assumes T: "parser_ok T"
  shows "\<forall>a \<in> set as. length a = 32 \<Longrightarrow> length rest < 256 \<Longrightarrow>
    read_addresses T \<lparr>cp_bits = bytes_bits (concat as) @ rest, cp_refs = rs\<rparr> acc = Some (Inr (acc @ as, \<lparr>cp_bits = rest, cp_refs = rs\<rparr>))"
proof (induction as arbitrary: acc)
  case Nil
  then show ?case by (subst read_addresses.simps) (simp add: read_steps [OF T] bytes_bits_def)
next
  case (Cons a as)
  let ?bits = "bytes_bits (concat (a # as)) @ rest"
  have len: "length (bytes_bits a) = 256" using Cons.prems by simp
  have "core_read_bits T 256 \<lparr>cp_bits = ?bits, cp_refs = rs\<rparr> = Inr (bytes_bits a, \<lparr>cp_bits = bytes_bits (concat as) @ rest, cp_refs = rs\<rparr>)"
    using read_steps(2) [OF T, of 256 ?bits rs] len by (simp add: bytes_bits_append)
  then show ?case using Cons len by (subst read_addresses.simps) (simp add: read_steps [OF T] bytes_bits_append)
qed

text \<open>A list of addresses in a chain of cells, each with whole addresses and less than one more.\<close>

inductive address_chain :: "bytes list \<Rightarrow> ton_cell \<Rightarrow> bool" where
  final: "\<forall>a \<in> set as. length a = 32 \<Longrightarrow> length rest < 256 \<Longrightarrow> address_chain as (TonCell (bytes_bits (concat as) @ rest) [] False 0)"
| further: "\<forall>a \<in> set as. length a = 32 \<Longrightarrow> length rest < 256 \<Longrightarrow> address_chain bs node \<Longrightarrow>
    address_chain (as @ bs) (TonCell (bytes_bits (concat as) @ rest) (node # others) False 0)"

lemma address_chain_read:
  assumes T: "parser_ok T"
  shows "address_chain as cell \<Longrightarrow> address_nodes T cell acc = Some (Inr (acc @ as))"
proof (induction as cell arbitrary: acc rule: address_chain.induct)
  case (final as rest)
  then show ?case by (subst address_nodes.simps) (simp add: require_ordinary_def cell_parser_of_def read_addresses_all [OF T])
next
  case (further as rest bs node others)
  then show ?case
    by (subst address_nodes.simps) (simp add: require_ordinary_def cell_parser_of_def read_addresses_all [OF T] read_steps [OF T])
qed

section \<open>Every read ends\<close>

lemma read_addresses_returns:
  assumes T: "parser_ok T"
  shows "\<exists>r. read_addresses T p acc = Some r \<and> r \<noteq> Inl TonPanic \<and> (\<forall>as q. r = Inr (as, q) \<longrightarrow> cp_refs q = cp_refs p)"
proof (induction "length (cp_bits p)" arbitrary: p acc rule: less_induct)
  case less
  obtain bits refs where p: "p = \<lparr>cp_bits = bits, cp_refs = refs\<rparr>" by (cases p) simp
  show ?case
  proof (cases "length bits < 256")
    case True
    then show ?thesis by (subst read_addresses.simps) (simp add: p read_steps [OF T])
  next
    case False
    let ?q = "\<lparr>cp_bits = drop 256 bits, cp_refs = refs\<rparr>"
    have "length (cp_bits ?q) < length (cp_bits p)" using False by (simp add: p)
    from less [OF this, of "acc @ [pack_bits (take 256 bits)]"] False show ?thesis
      by (subst read_addresses.simps) (simp add: p read_steps [OF T])
  qed
qed

lemma address_nodes_return:
  assumes T: "parser_ok T"
  shows "\<exists>r. address_nodes T cell acc = Some r \<and> r \<noteq> Inl TonPanic"
proof (induction "cells_in cell" arbitrary: cell acc rule: less_induct)
  case less
  show ?case
  proof (cases "require_ordinary cell")
    case (Inl e)
    then show ?thesis by (subst address_nodes.simps) simp
  next
    case (Inr u)
    obtain r where r: "read_addresses T (cell_parser_of cell) acc = Some r" "r \<noteq> Inl TonPanic"
      "\<And>as q. r = Inr (as, q) \<Longrightarrow> cp_refs q = tc_refs cell"
      using read_addresses_returns [OF T, of "cell_parser_of cell" acc] by (auto simp: cell_parser_of_def)
    show ?thesis
    proof (cases r)
      case (Inl e)
      with r Inr show ?thesis by (subst address_nodes.simps) simp
    next
      case (Inr x)
      obtain as q where x: "x = (as, q)" by force
      have q: "cp_refs q = tc_refs cell" using r(3) Inr x by simp
      show ?thesis
      proof (cases "tc_refs cell")
        case Nil
        with r(1) Inr x q \<open>require_ordinary cell = Inr u\<close> show ?thesis by (subst address_nodes.simps) simp
      next
        case (Cons node others)
        then have "cells_in node < cells_in cell" by (intro child_smaller) simp
        from less [OF this, of as] obtain s where s: "address_nodes T node as = Some s" "s \<noteq> Inl TonPanic" by blast
        have "core_read_next_ref T q = Inr (node, q\<lparr>cp_refs := others\<rparr>)"
          using read_steps(4) [OF T, of "cp_bits q" node others] q Cons by (cases q) simp
        with r(1) Inr x q Cons s \<open>require_ordinary cell = Inr u\<close> show ?thesis by (subst address_nodes.simps) simp
      qed
    qed
  qed
qed

lemma and_then_panic: "and_then r f = Inl TonPanic \<longleftrightarrow> r = Inl TonPanic \<or> (\<exists>x. r = Inr x \<and> f x = Inl TonPanic)"
  by (cases r) auto

lemma map_ok_panic: "map_ok f r = Inl TonPanic \<longleftrightarrow> r = Inl TonPanic"
  by (cases r) auto

lemmas panic_simps = and_then_panic map_ok_panic

lemma field_info_no_panic: "field_info T cell i \<noteq> Inl TonPanic"
  unfolding field_info_def by (auto simp: panic_simps)

lemma skip_refs_no_panic: "skip_refs T n p \<noteq> Inl TonPanic"
  by (induction n arbitrary: p) (auto simp: panic_simps)

lemma read_at_no_panic: "read_ref_at T i cell \<noteq> Inl TonPanic" "read_num_at T off w cell \<noteq> Inl TonPanic"
  unfolding read_ref_at_def read_num_at_def by (auto simp: panic_simps skip_refs_no_panic)

lemma getters_no_panic [simp]: "cl_get_uint_be T cell i w \<noteq> Inl TonPanic" "cl_get_ref T cell i \<noteq> Inl TonPanic"
  unfolding cl_get_uint_be_def cl_get_ref_def by (auto simp: panic_simps field_info_no_panic read_at_no_panic split: if_splits)

definition returns :: "(ton_fault + 'a) option \<Rightarrow> bool" where
  "returns r \<longleftrightarrow> (\<exists>x. r = Some x \<and> x \<noteq> Inl TonPanic)"

lemma returns_then: "returns r \<Longrightarrow> (\<And>x. returns (f x)) \<Longrightarrow> returns (ret_then r f)"
  by (auto simp: returns_def ret_then_def split: sum.splits)

lemma returns_Some [simp]: "returns (Some r) \<longleftrightarrow> r \<noteq> Inl TonPanic"
  by (auto simp: returns_def)

lemma read_scalars_no_panic [simp]: "read_storage_bool T cell i \<noteq> Inl TonPanic" "read_storage_u64 T cell i \<noteq> Inl TonPanic"
    "effective_receive_confirmations T c d \<noteq> Inl TonPanic"
  unfolding read_storage_bool_def read_storage_u64_def effective_receive_confirmations_def by (auto simp: panic_simps split: if_splits)

lemma config_dvns_return: "parser_ok T \<Longrightarrow> returns (read_receive_config_dvns T c)"
  unfolding read_receive_config_dvns_def deserialize_address_list_def
  by (intro returns_then) (auto simp: returns_def address_nodes_return)

lemma effective_dvns_return: "parser_ok T \<Longrightarrow> returns (effective_receive_dvns T c d)"
  unfolding effective_receive_dvns_def
  by (intro returns_then config_dvns_return) (auto simp: merge_dvns_def)

lemma nonce_key_length [simp]: "length (nonce_key nonce) = 32"
  by (simp add: nonce_key_def)

lemma attestation_returns:
  assumes T: "parser_ok T" and v: "length verifier = 32"
  shows "returns (dvn_attestation T storage dflt nonce verifier hash)"
  unfolding dvn_attestation_def uln_connection_receive_config_def
proof (rule returns_then, simp, rule returns_then)
  show "returns (dict256_get_ref T c (nonce_key nonce))" for c using dict256_returns [OF T nonce_key_length] by (simp add: returns_def)
  have d: "returns (dict256_get_ref T c verifier)" for c using dict256_returns [OF T v] by (simp add: returns_def)
  fix found :: "ton_cell option"
  show "returns (case found of None \<Rightarrow> Some (Inr AttestationAbsent)
     | Some per_verifier \<Rightarrow>
         ret_then (Some (cl_get_ref T storage ULN_CONNECTION_RECEIVE_CONFIG)) (\<lambda>custom.
         ret_then (effective_receive_dvns T custom dflt) (\<lambda>configured.
         if verifier \<notin> set configured then Some (Inr NotInReceiveConfig)
         else
           ret_then (dict256_get_ref T per_verifier verifier) (\<lambda>attested.
           case attested of
             None \<Rightarrow> Some (Inr AttestationAbsent)
           | Some attestation \<Rightarrow> Some (
               and_then (cl_get_uint_be T attestation ATTESTATION_HASH 256) (\<lambda>attested_hash.
               if attested_hash \<noteq> hash then Inr AttestationAbsent
               else
                 and_then (effective_receive_confirmations T custom dflt) (\<lambda>required.
                 and_then (read_storage_u64 T attestation ATTESTATION_CONFIRMATIONS) (\<lambda>n.
                   Inr (if required \<le> n then Matches else InsufficientConfirmations)))))))))"
    by (auto intro!: returns_then effective_dvns_return T d simp: panic_simps split: option.splits if_splits)
qed

section \<open>What storage encodes\<close>

text \<open>
  A receive configuration, an attestation and a connection as the class encoding writes them. The lookups of a connection are a
  dictionary from nonces to dictionaries from DVNs to attestations.
\<close>

record receive_config =
  cf_confirmations_null :: bool
  cf_confirmations :: u64
  cf_required_null :: bool
  cf_required :: "bytes list"
  cf_optional_null :: bool
  cf_optional :: "bytes list"

definition is_receive_config :: "ton_core \<Rightarrow> receive_config \<Rightarrow> ton_cell \<Rightarrow> bool" where
  "is_receive_config T cf cell \<longleftrightarrow>
     (\<exists>gas_null gas required optional threshold.
        list_all field_ok [ClNum 0 gas_null, ClNum T_UINT32 gas, ClNum T_UINT8 threshold, ClRef required, ClRef optional] \<and>
        cl_declare T ''UlnRecvCfg''
          [ClNum 0 gas_null, ClNum T_UINT32 gas, ClNum 0 (of_bool (cf_confirmations_null cf)), ClNum T_UINT64 (unat (cf_confirmations cf)),
           ClNum 0 (of_bool (cf_required_null cf)), ClRef required, ClNum 0 (of_bool (cf_optional_null cf)), ClRef optional, ClNum T_UINT8 threshold] = Inr cell \<and>
        address_chain (cf_required cf) required \<and> address_chain (cf_optional cf) optional)"

type_synonym attestation = "bytes \<times> u64"

definition is_attestation :: "ton_core \<Rightarrow> attestation \<Rightarrow> ton_cell \<Rightarrow> bool" where
  "is_attestation T a cell \<longleftrightarrow> length (fst a) = 32 \<and> cl_declare T ''Attest'' [cl_u256_be T_UINT256 (fst a), ClNum T_UINT64 (unat (snd a))] = Inr cell"

definition is_verifiers :: "ton_core \<Rightarrow> (bytes \<rightharpoonup> attestation) \<Rightarrow> ton_cell \<Rightarrow> bool" where
  "is_verifiers T attestations cell \<longleftrightarrow>
     (\<exists>bindings. is_dict256 bindings cell \<and>
        (\<forall>dvn. length dvn = 32 \<longrightarrow> rel_option (is_attestation T) (attestations dvn) (map_of bindings (key_bits dvn))))"

definition is_lookups :: "ton_core \<Rightarrow> (u64 \<rightharpoonup> bytes \<rightharpoonup> attestation) \<Rightarrow> ton_cell \<Rightarrow> bool" where
  "is_lookups T lookups cell \<longleftrightarrow>
     (\<exists>bindings. is_dict256 bindings cell \<and> (\<forall>nonce. rel_option (is_verifiers T) (lookups nonce) (map_of bindings (key_bits (nonce_key nonce)))))"

definition is_connection :: "ton_core \<Rightarrow> receive_config \<Rightarrow> (u64 \<rightharpoonup> bytes \<rightharpoonup> attestation) \<Rightarrow> ton_cell \<Rightarrow> bool" where
  "is_connection T cf lookups cell \<longleftrightarrow>
     (\<exists>fs config dict. cl_declare T ''connection'' fs = Inr cell \<and> list_all field_ok fs \<and> 8 < length fs \<and> fs ! 7 = ClRef config \<and> fs ! 8 = ClRef dict \<and>
        is_receive_config T cf config \<and> is_lookups T lookups dict)"

text \<open>The check over what is encoded.\<close>

definition configured_dvns :: "receive_config \<Rightarrow> receive_config \<Rightarrow> ton_fault + bytes list" where
  "configured_dvns custom dflt =
     and_then (merge_dvns ''requiredDVNs'' (cf_required_null custom) (cf_required custom) (cf_required_null dflt) (cf_required dflt)) (\<lambda>required.
     and_then (merge_dvns ''optionalDVNs'' (cf_optional_null custom) (cf_optional custom) (cf_optional_null dflt) (cf_optional dflt)) (\<lambda>optional.
       Inr (optional @ required)))"

definition needed_confirmations :: "receive_config \<Rightarrow> receive_config \<Rightarrow> u64" where
  "needed_confirmations custom dflt = cf_confirmations (if cf_confirmations_null custom then dflt else custom)"

definition attestation_spec ::
    "receive_config \<Rightarrow> receive_config \<Rightarrow> (u64 \<rightharpoonup> bytes \<rightharpoonup> attestation) \<Rightarrow> u64 \<Rightarrow> bytes \<Rightarrow> bytes \<Rightarrow> ton_fault + dvn_attestation_outcome" where
  "attestation_spec custom dflt lookups nonce dvn hash =
     (case lookups nonce of
        None \<Rightarrow> Inr AttestationAbsent
      | Some attestations \<Rightarrow>
          and_then (configured_dvns custom dflt) (\<lambda>dvns.
          if dvn \<notin> set dvns then Inr NotInReceiveConfig
          else (case attestations dvn of
                  None \<Rightarrow> Inr AttestationAbsent
                | Some (attested, n) \<Rightarrow>
                    Inr (if attested \<noteq> hash then AttestationAbsent
                         else if needed_confirmations custom dflt \<le> n then Matches else InsufficientConfirmations))))"

lemma declared_reads:
  assumes "parser_ok T" "builder_ok T" "name_ok name" "list_all field_ok fs" "cl_declare T name fs = Inr cell" "i < length fs"
  shows "field_reads T cell i (fs ! i)"
  using cl_declare_holds [OF assms(1-5)] assms(6) by (simp add: class_holds_def)

lemma declared_ref:
  "parser_ok T \<Longrightarrow> builder_ok T \<Longrightarrow> name_ok name \<Longrightarrow> list_all field_ok fs \<Longrightarrow> cl_declare T name fs = Inr cell \<Longrightarrow> i < length fs \<Longrightarrow> fs ! i = ClRef c \<Longrightarrow>
    cl_get_ref T cell i = Inr c"
  using declared_reads [of T name fs cell i] by (simp add: field_reads_def)

lemma declared_num:
  "parser_ok T \<Longrightarrow> builder_ok T \<Longrightarrow> name_ok name \<Longrightarrow> list_all field_ok fs \<Longrightarrow> cl_declare T name fs = Inr cell \<Longrightarrow> i < length fs \<Longrightarrow> fs ! i = ClNum ty v \<Longrightarrow>
    cl_get_uint_be T cell i (type_width ty) = Inr (be_encode ((type_width ty + 7) div 8) v)"
  using declared_reads [of T name fs cell i] by (simp add: field_reads_def)

lemma declared_bool:
  assumes "parser_ok T" "builder_ok T" "name_ok name" "list_all field_ok fs" "cl_declare T name fs = Inr cell" "i < length fs" "fs ! i = ClNum 0 (of_bool b)"
  shows "read_storage_bool T cell i = Inr b"
  using declared_num [OF assms] by (cases b) (simp_all add: read_storage_bool_def type_width_def cl_widths)

lemma declared_u64:
  assumes "parser_ok T" "builder_ok T" "name_ok name" "list_all field_ok fs" "cl_declare T name fs = Inr cell" "i < length fs" "fs ! i = ClNum T_UINT64 (unat (w :: u64))"
  shows "read_storage_u64 T cell i = Inr w"
proof -
  have "cl_get_uint_be T cell i 64 = Inr (be_encode 8 (unat w))" using declared_num [OF assms] by (simp add: widths)
  moreover have "be_decode (be_encode 8 (unat w)) = unat w" using unsigned_less [of w, where ?'a = nat] by (intro be_decode_encode_id) simp
  ultimately show ?thesis by (simp add: read_storage_u64_def)
qed

lemma bool_field_ok: "field_ok (ClNum 0 (of_bool b))"
  by (simp add: field_ok_def type_width_def cl_widths)

lemma receive_config_read:
  assumes T: "parser_ok T" "builder_ok T" and c: "is_receive_config T cf cell"
  shows "read_storage_bool T cell RECEIVE_CONFIG_CONFIRMATIONS_NULL = Inr (cf_confirmations_null cf)"
    and "read_storage_u64 T cell RECEIVE_CONFIG_CONFIRMATIONS = Inr (cf_confirmations cf)"
    and "read_receive_config_dvns T cell = Some (Inr \<lparr>rcd_required_is_null = cf_required_null cf, rcd_required = cf_required cf,
      rcd_optional_is_null = cf_optional_null cf, rcd_optional = cf_optional cf\<rparr>)"
proof -
  from c obtain gas_null gas required optional threshold where
    f: "list_all field_ok [ClNum 0 gas_null, ClNum T_UINT32 gas, ClNum T_UINT8 threshold, ClRef required, ClRef optional]"
    and d: "cl_declare T ''UlnRecvCfg''
          [ClNum 0 gas_null, ClNum T_UINT32 gas, ClNum 0 (of_bool (cf_confirmations_null cf)), ClNum T_UINT64 (unat (cf_confirmations cf)),
           ClNum 0 (of_bool (cf_required_null cf)), ClRef required, ClNum 0 (of_bool (cf_optional_null cf)), ClRef optional, ClNum T_UINT8 threshold] = Inr cell"
    and a: "address_chain (cf_required cf) required" "address_chain (cf_optional cf) optional"
    unfolding is_receive_config_def by blast
  have ok: "list_all field_ok [ClNum 0 gas_null, ClNum T_UINT32 gas, ClNum 0 (of_bool (cf_confirmations_null cf)), ClNum T_UINT64 (unat (cf_confirmations cf)),
           ClNum 0 (of_bool (cf_required_null cf)), ClRef required, ClNum 0 (of_bool (cf_optional_null cf)), ClRef optional, ClNum T_UINT8 threshold]"
    using f by (simp add: bool_field_ok num_ok)
  note read = declared_bool [OF T more_names(2) ok d] declared_u64 [OF T more_names(2) ok d] declared_ref [OF T more_names(2) ok d]
  show "read_storage_bool T cell RECEIVE_CONFIG_CONFIRMATIONS_NULL = Inr (cf_confirmations_null cf)" by (rule read(1)) (simp_all add: storage_indices)
  show "read_storage_u64 T cell RECEIVE_CONFIG_CONFIRMATIONS = Inr (cf_confirmations cf)" by (rule read(2)) (simp_all add: storage_indices)
  have "read_storage_bool T cell 4 = Inr (cf_required_null cf)" "read_storage_bool T cell 6 = Inr (cf_optional_null cf)" by (rule read(1); simp)+
  moreover have "cl_get_ref T cell 5 = Inr required" "cl_get_ref T cell 7 = Inr optional" by (rule read(3); simp)+
  ultimately show "read_receive_config_dvns T cell = Some (Inr \<lparr>rcd_required_is_null = cf_required_null cf, rcd_required = cf_required cf,
      rcd_optional_is_null = cf_optional_null cf, rcd_optional = cf_optional cf\<rparr>)"
    using address_chain_read [OF T(1) a(1)] address_chain_read [OF T(1) a(2)]
    by (simp add: read_receive_config_dvns_def storage_indices deserialize_address_list_def)
qed

lemma effective_dvns_read:
  assumes "parser_ok T" "builder_ok T" "is_receive_config T custom c" "is_receive_config T dflt d"
  shows "effective_receive_dvns T c d = Some (configured_dvns custom dflt)"
    and "effective_receive_confirmations T c d = Inr (needed_confirmations custom dflt)"
  using receive_config_read [OF assms(1,2,3)] receive_config_read [OF assms(1,2,4)]
  by (simp_all add: effective_receive_dvns_def configured_dvns_def effective_receive_confirmations_def needed_confirmations_def merge_dvns_def)

lemma attestation_read:
  assumes T: "parser_ok T" "builder_ok T" and a: "is_attestation T (attested, n) cell"
  shows "cl_get_uint_be T cell ATTESTATION_HASH 256 = Inr attested" "read_storage_u64 T cell ATTESTATION_CONFIRMATIONS = Inr n"
proof -
  from a have d: "cl_declare T ''Attest'' [cl_u256_be T_UINT256 attested, ClNum T_UINT64 (unat n)] = Inr cell" and len: "length attested = 32"
    by (auto simp: is_attestation_def)
  have ok: "list_all field_ok [cl_u256_be T_UINT256 attested, ClNum T_UINT64 (unat n)]" using len by (simp add: class_facts)
  have "cl_get_uint_be T cell 0 (type_width T_UINT256) = Inr (be_encode ((type_width T_UINT256 + 7) div 8) (be_decode attested))"
    by (rule declared_num [OF T names(1) ok d]) (simp_all add: cl_u256_be_def)
  then show "cl_get_uint_be T cell ATTESTATION_HASH 256 = Inr attested" using be_encode_decode [of 32 attested] len by (simp add: widths storage_indices)
  show "read_storage_u64 T cell ATTESTATION_CONFIRMATIONS = Inr n" by (rule declared_u64 [OF T names(1) ok d]) (simp_all add: storage_indices)
qed

lemma attestation_implements:
  assumes T: "parser_ok T" "builder_ok T" and dvn: "length dvn = 32"
    and s: "is_connection T custom lookups storage" and d: "is_receive_config T dflt default_config"
  shows "dvn_attestation T storage default_config nonce dvn hash = Some (attestation_spec custom dflt lookups nonce dvn hash)"
proof -
  from s obtain fs config dict where c: "cl_declare T ''connection'' fs = Inr storage" "list_all field_ok fs" "8 < length fs" "fs ! 7 = ClRef config" "fs ! 8 = ClRef dict"
    and cf: "is_receive_config T custom config" and l: "is_lookups T lookups dict" unfolding is_connection_def by blast
  have refs: "cl_get_ref T storage ULN_CONNECTION_HASH_LOOKUPS = Inr dict" "cl_get_ref T storage ULN_CONNECTION_RECEIVE_CONFIG = Inr config"
    using declared_ref [OF T more_names(5) c(2,1)] c(3-5) by (simp_all add: storage_indices)
  from l obtain bindings where b: "is_dict256 bindings dict" "rel_option (is_verifiers T) (lookups nonce) (map_of bindings (key_bits (nonce_key nonce)))"
    unfolding is_lookups_def by blast
  note look = dict256_finds [OF T(1) nonce_key_length b(1), of nonce]
  note conf = effective_dvns_read [OF T cf d]
  show ?thesis
  proof (cases "lookups nonce")
    case None
    with b(2) look refs(1) show ?thesis by (simp add: dvn_attestation_def attestation_spec_def)
  next
    case (Some attestations)
    with b(2) obtain per_verifier where p: "map_of bindings (key_bits (nonce_key nonce)) = Some per_verifier" "is_verifiers T attestations per_verifier"
      by (cases "map_of bindings (key_bits (nonce_key nonce))") auto
    from p(2) dvn obtain inner where i: "is_dict256 inner per_verifier" "rel_option (is_attestation T) (attestations dvn) (map_of inner (key_bits dvn))"
      unfolding is_verifiers_def by blast
    note found = dict256_finds [OF T(1) dvn i(1)]
    show ?thesis
    proof (cases "configured_dvns custom dflt")
      case (Inl e)
      with Some p look refs conf(1) show ?thesis
        by (simp add: dvn_attestation_def attestation_spec_def uln_connection_receive_config_def)
    next
      case (Inr dvns)
      show ?thesis
      proof (cases "dvn \<in> set dvns")
        case False
        with Inr Some p look refs conf(1) show ?thesis
          by (simp add: dvn_attestation_def attestation_spec_def uln_connection_receive_config_def)
      next
        case True
        show ?thesis
        proof (cases "attestations dvn")
          case None
          with i(2) True Inr Some p look found refs conf(1) show ?thesis
            by (simp add: dvn_attestation_def attestation_spec_def uln_connection_receive_config_def)
        next
          case (Some a)
          with i(2) obtain att where att: "map_of inner (key_bits dvn) = Some att" "is_attestation T (fst a, snd a) att"
            by (cases "map_of inner (key_bits dvn)") auto
          from attestation_read [OF T att(2)] att(1) Some \<open>lookups nonce = Some attestations\<close> True Inr p look found refs conf show ?thesis
            by (simp add: dvn_attestation_def attestation_spec_def uln_connection_receive_config_def split: prod.splits)
        qed
      qed
    qed
  qed
qed

text \<open>
  C23: the attestation half of the TON payload-signed check. Over any cell library with the documented parser and builder, on
  whatever storage, it returns and does not panic; on storage that encodes a connection with its lookups and receive
  configurations, it answers by the encoded maps: no attestation at the nonce is absent, a DVN outside the merged receive
  configuration is reported as such, and an attestation of the packet matches exactly with enough confirmations.
\<close>

theorem ton_attestation_exact:
  assumes T: "parser_ok T" "builder_ok T" and dvn: "length dvn = 32"
  shows "(\<exists>r. dvn_attestation T storage default_config nonce dvn hash = Some r \<and> r \<noteq> Inl TonPanic) \<and>
    (is_connection T custom lookups storage \<and> is_receive_config T dflt default_config \<longrightarrow>
       dvn_attestation T storage default_config nonce dvn hash = Some (attestation_spec custom dflt lookups nonce dvn hash))"
  using attestation_returns [OF T(1) dvn] attestation_implements [OF T dvn] unfolding returns_def by blast

definition sample_dvn :: bytes where "sample_dvn = replicate 32 255"

definition sample_custom :: receive_config where
  "sample_custom = \<lparr>cf_confirmations_null = True, cf_confirmations = 0, cf_required_null = True, cf_required = [], cf_optional_null = True, cf_optional = []\<rparr>"

definition sample_default :: receive_config where
  "sample_default = \<lparr>cf_confirmations_null = False, cf_confirmations = 15, cf_required_null = False, cf_required = [sample_dvn],
     cf_optional_null = False, cf_optional = []\<rparr>"

lemma sample_chain: "\<exists>c. address_chain [] c \<and> tc_level c = 0 \<and> cell_depth c = 0" "\<exists>c. address_chain [sample_dvn] c \<and> tc_level c = 0 \<and> cell_depth c = 0"
proof -
  have c: "\<exists>c. address_chain as c \<and> tc_level c = 0 \<and> cell_depth c = 0" if "\<forall>a \<in> set as. length a = 32" for as
    using address_chain.final [OF that, of "[]"] by (intro exI [of _ "TonCell (bytes_bits (concat as) @ []) [] False 0"]) simp
  show "\<exists>c. address_chain [] c \<and> tc_level c = 0 \<and> cell_depth c = 0" "\<exists>c. address_chain [sample_dvn] c \<and> tc_level c = 0 \<and> cell_depth c = 0"
    using c [of "[]"] c [of "[sample_dvn]"] by (simp_all add: sample_dvn_def)
qed

lemma receive_config_exists:
  assumes T: "parser_ok T" "builder_ok T" and r: "address_chain (cf_required cf) r" "tc_level r = 0" "cell_depth r = 0"
    and o: "address_chain (cf_optional cf) o'" "tc_level o' = 0" "cell_depth o' = 0"
  shows "\<exists>c. is_receive_config T cf c \<and> tc_level c = 0 \<and> cell_depth c \<le> 2"
proof -
  let ?fs = "[ClNum 0 0, ClNum T_UINT32 0, ClNum 0 (of_bool (cf_confirmations_null cf)), ClNum T_UINT64 (unat (cf_confirmations cf)),
     ClNum 0 (of_bool (cf_required_null cf)), ClRef r, ClNum 0 (of_bool (cf_optional_null cf)), ClRef o', ClNum T_UINT8 0]"
  have ok: "list_all field_ok ?fs" using r o by (simp add: bool_field_ok flag_ok class_facts)
  have "built 2 (cl_declare T ''UlnRecvCfg'' ?fs)"
    by (rule built_mono [OF class_built [OF T more_names(2) ok, where n = 1 and d = 0]]) (use r o in \<open>auto simp: layout MAX_CELL_DEPTH_def\<close>)
  then obtain c where "cl_declare T ''UlnRecvCfg'' ?fs = Inr c" "tc_level c = 0" "cell_depth c \<le> 2" by (auto simp: built_def)
  moreover have "list_all field_ok [ClNum 0 0, ClNum T_UINT32 0, ClNum T_UINT8 0, ClRef r, ClRef o']" using ok by simp
  ultimately show ?thesis using r(1) o(1) unfolding is_receive_config_def by blast
qed

lemma sample_dict_lookup: "\<exists>bindings. is_dict256 bindings (sample_dict c c) \<and> (\<forall>key d. map_of bindings key = Some d \<longrightarrow> d = c) \<and>
    map_of bindings (replicate 256 False) = Some c \<and> map_of bindings (replicate 256 True) = Some c"
proof -
  let ?bs = "[(False # replicate 255 False, c), (True # replicate 255 True, c)]"
  have "replicate 256 b = b # replicate 255 b" for b :: bool using replicate_Suc [of 255 b] by (simp del: replicate_Suc)
  then have "map_of ?bs (replicate 256 False) = Some c" "map_of ?bs (replicate 256 True) = Some c" by simp_all
  moreover have "map_of ?bs key = Some d \<longrightarrow> d = c" for key d by simp
  ultimately show ?thesis using sample_dict_of [of c c] by blast
qed

lemma nonce_key_0: "nonce_key 0 = replicate 32 0"
proof -
  have "be_encode (8 + 0) 0 = replicate 8 0 @ be_encode 0 0" by (rule be_encode_pad) simp
  then have "be_encode 8 0 = replicate 8 (0 :: byte)" by simp
  then show ?thesis unfolding nonce_key_def by (simp only: unsigned_0 replicate_add [symmetric]) simp
qed

lemma sample_keys: "key_bits (nonce_key 0) = replicate 256 False" "key_bits sample_dvn = replicate 256 True"
  unfolding nonce_key_0 sample_dvn_def using key_bits_replicate [of 32] by (simp_all only: mult_numeral_left_semiring_numeral) simp_all

lemma verifiers_exist:
  assumes "is_attestation T a att"
  shows "\<exists>vs. is_verifiers T vs (sample_dict att att) \<and> vs sample_dvn = Some a"
proof -
  obtain bs where bs: "is_dict256 bs (sample_dict att att)" "\<And>key d. map_of bs key = Some d \<Longrightarrow> d = att" "map_of bs (replicate 256 True) = Some att"
    using sample_dict_lookup [of att] by blast
  let ?vs = "\<lambda>dvn. map_option (\<lambda>_. a) (map_of bs (key_bits dvn))"
  have "rel_option (is_attestation T) (?vs dvn) (map_of bs (key_bits dvn))" for dvn
    using bs(2) [of "key_bits dvn"] assms by (cases "map_of bs (key_bits dvn)") auto
  then have "is_verifiers T ?vs (sample_dict att att)" using bs(1) unfolding is_verifiers_def by blast
  moreover have "?vs sample_dvn = Some a" by (simp add: sample_keys bs(3))
  ultimately show ?thesis by blast
qed

lemma lookups_exist:
  assumes "is_verifiers T vs per"
  shows "\<exists>ls. is_lookups T ls (sample_dict per per) \<and> ls 0 = Some vs"
proof -
  obtain bs where bs: "is_dict256 bs (sample_dict per per)" "\<And>key d. map_of bs key = Some d \<Longrightarrow> d = per" "map_of bs (replicate 256 False) = Some per"
    using sample_dict_lookup [of per] by blast
  let ?ls = "\<lambda>nonce. map_option (\<lambda>_. vs) (map_of bs (key_bits (nonce_key nonce)))"
  have "rel_option (is_verifiers T) (?ls nonce) (map_of bs (key_bits (nonce_key nonce)))" for nonce
    using bs(2) [of "key_bits (nonce_key nonce)"] assms by (cases "map_of bs (key_bits (nonce_key nonce))") auto
  then have "is_lookups T ?ls (sample_dict per per)" using bs(1) unfolding is_lookups_def by blast
  moreover have "?ls 0 = Some vs" by (simp add: sample_keys bs(3))
  ultimately show ?thesis by blast
qed

lemma sample_dict_depth: "cell_depth (sample_dict c c) = cell_depth c + 2" "tc_level (sample_dict c c) = 0"
  by (simp_all add: sample_dict_def)

lemma connection_exists:
  assumes T: "parser_ok T" "builder_ok T" and c: "is_receive_config T cf config" "tc_level config = 0" "cell_depth config \<le> 2"
    and l: "is_lookups T ls dict" "tc_level dict = 0" "cell_depth dict \<le> 6"
  shows "\<exists>storage. is_connection T cf ls storage"
proof -
  let ?e = "ClRef (TonCell [] [] False 0)"
  let ?fs = "[?e, ?e, ClNum 0 0, ClNum 0 0, ClNum 0 0, ClNum 0 0, ?e, ClRef config, ClRef dict, ?e]"
  have ok: "list_all field_ok ?fs" using c l by (simp add: flag_ok class_facts)
  have "built 8 (cl_declare T ''connection'' ?fs)"
    by (rule built_mono [OF class_built [OF T more_names(5) ok, where n = 2 and d = 6]]) (use c l in \<open>auto simp: layout MAX_CELL_DEPTH_def\<close>)
  then obtain storage where s: "cl_declare T ''connection'' ?fs = Inr storage" by (auto simp: built_def)
  have at: "8 < length ?fs" "?fs ! 7 = ClRef config" "?fs ! 8 = ClRef dict" by simp_all
  show ?thesis unfolding is_connection_def
    using s ok at c(1) l(1) by blast
qed

theorem ton_attestation_exact_witness:
  "\<exists>storage default_config. dvn_attestation ref_ton_core storage default_config 0 sample_dvn (replicate 32 7) = Some (Inr Matches)"
proof -
  note T = ref_parser_ok ref_builder_ok
  have "list_all field_ok [cl_u256_be T_UINT256 (replicate 32 7), ClNum T_UINT64 (unat (20 :: u64))]" by (simp add: class_facts) (simp add: field_ok_def widths)
  from class_built [OF T names(1) this, where n = 1 and d = 0] obtain att where
    att: "is_attestation ref_ton_core (replicate 32 7, 20) att" "tc_level att = 0" "cell_depth att \<le> 2"
    by (auto simp: built_def is_attestation_def layout MAX_CELL_DEPTH_def)
  obtain vs where vs: "is_verifiers ref_ton_core vs (sample_dict att att)" "vs sample_dvn = Some (replicate 32 7, 20)" using verifiers_exist [OF att(1)] by blast
  obtain ls where ls: "is_lookups ref_ton_core ls (sample_dict (sample_dict att att) (sample_dict att att))" "ls 0 = Some vs" using lookups_exist [OF vs(1)] by blast
  obtain e r where chains: "address_chain [] e" "tc_level e = 0" "cell_depth e = 0" "address_chain [sample_dvn] r" "tc_level r = 0" "cell_depth r = 0"
    using sample_chain by blast
  obtain config where config: "is_receive_config ref_ton_core sample_custom config" "tc_level config = 0" "cell_depth config \<le> 2"
    using receive_config_exists [OF T, of sample_custom e e] chains by (auto simp: sample_custom_def)
  obtain dc where dc: "is_receive_config ref_ton_core sample_default dc"
    using receive_config_exists [OF T, of sample_default r e] chains by (auto simp: sample_default_def)
  obtain storage where s: "is_connection ref_ton_core sample_custom ls storage"
    using connection_exists [OF T config ls(1)] att by (auto simp: sample_dict_depth)
  have "length sample_dvn = 32" by (simp add: sample_dvn_def)
  from ton_attestation_exact [OF T this, of storage dc 0 "replicate 32 7" sample_custom ls sample_default] s dc
  have "dvn_attestation ref_ton_core storage dc 0 sample_dvn (replicate 32 7) =
      Some (attestation_spec sample_custom sample_default ls 0 sample_dvn (replicate 32 7))" by blast
  moreover have "attestation_spec sample_custom sample_default ls 0 sample_dvn (replicate 32 7) = Inr Matches"
    using ls(2) vs(2) by (simp add: attestation_spec_def configured_dvns_def merge_dvns_def needed_confirmations_def sample_custom_def sample_default_def)
  ultimately show ?thesis by metis
qed

section \<open>Options\<close>

text \<open>The table of an options class, bit for bit.\<close>

definition options_header :: "nat \<Rightarrow> bool list" where
  "options_header count = concat (map (\<lambda>i. num_bits 18 (expected_info count i)) [0..<15])"

lemma check_infos_iff:
  assumes T: "parser_ok T"
  shows "\<forall>i \<in> set idx. expected_info count i < 2 ^ 18 \<Longrightarrow>
    check_infos T count idx \<lparr>cp_bits = bits, cp_refs = rs\<rparr> = Inr () \<longleftrightarrow>
    take (18 * length idx) bits = concat (map (\<lambda>i. num_bits 18 (expected_info count i)) idx)"
proof (induction idx arbitrary: bits)
  case (Cons i idx)
  let ?e = "expected_info count i"
  show ?case
  proof (cases "18 \<le> length bits")
    case True
    have "bits_num (take 18 bits) = ?e \<longleftrightarrow> take 18 bits = num_bits 18 ?e"
      using num_bits_num [of 18 "take 18 bits"] bits_num_bits [of ?e 18] Cons.prems True by auto
    moreover have "take (18 * length (i # idx)) bits = take 18 bits @ take (18 * length idx) (drop 18 bits)"
      by (simp add: take_add [symmetric] add.commute)
    ultimately show ?thesis using Cons True read_steps(3) [OF T, of 18 bits rs]
      by (auto simp: append_eq_append_conv simp del: num_bits.simps)
  next
    case False
    have "\<exists>e. core_read_num T 18 \<lparr>cp_bits = bits, cp_refs = rs\<rparr> = Inl e"
      using parser_okD(3) [OF T, of 18 "\<lparr>cp_bits = bits, cp_refs = rs\<rparr>"] False by (simp add: yields_def)
    moreover have "take (18 * length (i # idx)) bits \<noteq> concat (map (\<lambda>i. num_bits 18 (expected_info count i)) (i # idx))"
    proof
      assume "take (18 * length (i # idx)) bits = concat (map (\<lambda>i. num_bits 18 (expected_info count i)) (i # idx))"
      then have "length (take (18 * length (i # idx)) bits) = 18 + length (concat (map (\<lambda>i. num_bits 18 (expected_info count i)) idx))" by simp
      with False show False by simp
    qed
    ultimately show ?thesis by auto
  qed
qed simp

lemma layout_iff:
  assumes T: "parser_ok T" and e: "\<forall>i < 15. expected_info count i < 2 ^ 18"
  shows "validate_options_layout T cell count = Inr () \<longleftrightarrow> 80 \<le> length (tc_bits cell) \<and> take 270 (drop 80 (tc_bits cell)) = options_header count"
proof (cases "80 \<le> length (tc_bits cell)")
  case True
  then have "core_read_bits T 80 (cell_parser_of cell) = Inr (take 80 (tc_bits cell), \<lparr>cp_bits = drop 80 (tc_bits cell), cp_refs = tc_refs cell\<rparr>)"
    unfolding cell_parser_of_def by (rule read_steps(2) [OF T])
  with True e check_infos_iff [OF T, of "[0..<15]" count "drop 80 (tc_bits cell)" "tc_refs cell"] show ?thesis
    by (simp add: validate_options_layout_def options_header_def del: upt_conv_Cons_Cons)
next
  case False
  then have "\<exists>e. core_read_bits T 80 (cell_parser_of cell) = Inl e"
    unfolding cell_parser_of_def using read_fails(2) [OF T] by simp
  with False show ?thesis by (auto simp: validate_options_layout_def)
qed

lemma upt_15: "[0..<15] = [0, 1, 2, 3, 4, 5, 6, 7, 8, 9, 10, 11, 12, 13, 14 :: nat]"
  by (simp add: upt_rec)

lemma expected_small: "count \<in> {4, 6} \<Longrightarrow> \<forall>i < 15. expected_info count i < 2 ^ 18"
proof -
  assume c: "count \<in> {4, 6}"
  have "\<forall>i \<in> set [0..<15]. expected_info count i < 2 ^ 18" unfolding upt_15 using c by (auto simp: expected_info_def)
  then show ?thesis by simp
qed

definition option_infos :: "nat \<Rightarrow> info list" where
  "option_infos count = map (\<lambda>i. if i < 2 then (8, 1, 350 + i * 256, 3) else (8, 2 + (i - 2) div 3, (i - 2) mod 3 * 256, 3)) [0..<count]"

lemma length_option_infos [simp]: "length (option_infos count) = count"
  by (simp add: option_infos_def)

lemma num_bits_join: "v < 2 ^ b \<Longrightarrow> num_bits (a + b) (u * 2 ^ b + v) = num_bits a u @ num_bits b v"
proof (induction b arbitrary: v)
  case (Suc b)
  have "v div 2 < 2 ^ b" using Suc.prems by auto
  moreover have "(u * 2 ^ Suc b + v) div 2 = u * 2 ^ b + v div 2" "odd (u * 2 ^ Suc b + v) = odd v" by auto
  ultimately show ?case using Suc.IH [of "v div 2"] by simp
qed simp

lemma num_bits_ones: "num_bits n (2 ^ n - 1) = replicate n True"
proof (induction n)
  case (Suc n)
  have "(2 ^ Suc n - 1) div 2 = (2 ^ n - 1 :: nat)" "odd (2 ^ Suc n - 1 :: nat)" by (auto simp: Suc_leI)
  then show ?case using Suc by (simp add: replicate_append_same)
qed simp

lemma info_code:
  assumes "t < 4" "off < 1024"
  shows "num_bits 18 (8 * 2 ^ 14 + t * 2 ^ 12 + off * 4 + 3) = num_bits 4 8 @ num_bits 2 t @ num_bits 10 off @ num_bits 2 3"
proof -
  have "num_bits (4 + 14) (8 * 2 ^ 14 + (t * 2 ^ 12 + (off * 4 + 3))) = num_bits 4 8 @ num_bits 14 (t * 2 ^ 12 + (off * 4 + 3))"
    by (rule num_bits_join) (use assms in simp)
  moreover have "num_bits (2 + 12) (t * 2 ^ 12 + (off * 4 + 3)) = num_bits 2 t @ num_bits 12 (off * 4 + 3)"
    by (rule num_bits_join) (use assms in simp)
  moreover have "num_bits (10 + 2) (off * 2 ^ 2 + 3) = num_bits 10 off @ num_bits 2 3" by (rule num_bits_join) simp
  ultimately show ?thesis by (simp add: add.assoc del: num_bits.simps)
qed

lemma expected_bits:
  assumes "i < count" "count \<in> {4, 6}"
  shows "num_bits 18 (expected_info count i) = info_bits (option_infos count ! i)"
proof -
  have div: "(i - 2) div 3 < 2" "(i - 2) mod 3 < 3" using assms by auto
  show ?thesis
  proof (cases "i < 2")
    case True
    then show ?thesis using assms(1) info_code [of 0 "350 + i * 256"] by (simp add: expected_info_def option_infos_def cell_id_def del: num_bits.simps)
  next
    case False
    then show ?thesis using assms(1) div info_code [of "2 + (i - 2) div 3" "(i - 2) mod 3 * 256"]
      by (simp add: expected_info_def option_infos_def cell_id_def del: num_bits.simps)
  qed
qed

lemma options_header_infos:
  assumes "count \<in> {4, 6}"
  shows "options_header count = concat (map info_bits (option_infos count)) @ replicate (18 * (15 - count)) True"
proof -
  have split: "[0..<15] = [0..<count] @ [count..<15]" using assms upt_add_eq_append [of 0 count "15 - count"] by auto
  have "map (\<lambda>i. num_bits 18 (expected_info count i)) [0..<count] = map info_bits (option_infos count)"
    using assms by (intro nth_equalityI) (auto simp: expected_bits simp del: num_bits.simps)
  moreover have "map (\<lambda>i. num_bits 18 (expected_info count i)) [count..<15] = replicate (15 - count) (replicate 18 True)"
    using num_bits_ones [of 18] by (intro nth_equalityI) (auto simp: expected_info_def simp del: num_bits.simps)
  moreover have "concat (replicate n (replicate 18 True)) = replicate (18 * n) True" for n
    by (induction n) (auto simp: replicate_add [symmetric])
  ultimately show ?thesis unfolding options_header_def split map_append concat_append by simp
qed

text \<open>The value of an option is at a fixed place of the cell or of its third or fourth reference.\<close>

definition option_value :: "ton_cell \<Rightarrow> nat \<Rightarrow> nat" where
  "option_value cell i =
     (if i < 2 then bits_num (take 256 (drop (350 + i * 256) (tc_bits cell)))
      else bits_num (take 256 (drop ((i - 2) mod 3 * 256) (tc_bits (tc_refs cell ! (2 + (i - 2) div 3))))))"

lemma decode_padded: "be_decode (replicate n 0 @ bs) = be_decode bs"
proof -
  have "be_decode (replicate n 0 @ bs) = foldl (\<lambda>acc b. acc * 256 + unat b) (foldl (\<lambda>acc b. acc * 256 + unat b) 0 (replicate n (0 :: byte))) bs"
    by (simp add: be_decode_def)
  moreover have "foldl (\<lambda>acc b. acc * 256 + unat b) 0 (replicate n (0 :: byte)) = 0" by (induction n) auto
  ultimately show ?thesis by (simp add: be_decode_def)
qed

lemma decode_to_bytes: "be_decode (to_bytes_be v) = v"
  unfolding to_bytes_be_def by (rule be_decode_encode_id [OF byte_width_power])

lemma read_num_result:
  assumes T: "parser_ok T" and r: "read_num_at T off 256 cell = Inr v"
  shows "v = bits_num (take 256 (drop off (tc_bits cell)))"
  using r parser_okD(2) [OF T, of off "cell_parser_of cell"] parser_okD(3) [OF T, of 256 "cell_parser_of cell\<lparr>cp_bits := drop off (tc_bits cell)\<rparr>"]
  by (auto simp: read_num_at_def res_simps yields_def cell_parser_of_def split: if_splits)

lemma next_ref_result: "parser_ok T \<Longrightarrow> core_read_next_ref T p = Inr (c, q) \<longleftrightarrow> cp_refs p \<noteq> [] \<and> c = hd (cp_refs p) \<and> q = p\<lparr>cp_refs := tl (cp_refs p)\<rparr>"
  using parser_okD(4) [of T p] by (auto simp: yields_def split: if_splits)

lemma skip_refs_result: "parser_ok T \<Longrightarrow> skip_refs T n p = Inr q \<Longrightarrow> n \<le> length (cp_refs p) \<and> q = p\<lparr>cp_refs := drop n (cp_refs p)\<rparr>"
proof (induction n arbitrary: p)
  case (Suc n)
  from Suc.prems obtain c p' where c: "core_read_next_ref T p = Inr (c, p')" "skip_refs T n p' = Inr q" by (auto simp: res_simps)
  from Suc.IH [OF Suc.prems(1) c(2)] c(1) next_ref_result [OF Suc.prems(1), of p c p'] show ?case by (cases "cp_refs p") auto
qed simp

lemma read_ref_result:
  assumes T: "parser_ok T" and r: "read_ref_at T i cell = Inr c"
  shows "c = tc_refs cell ! i"
  using r by (auto simp: read_ref_at_def res_simps next_ref_result [OF T] cell_parser_of_def hd_drop_conv_nth dest!: skip_refs_result [OF T])

lemma option_read:
  assumes T: "parser_ok T" and info: "field_info T cell i = Inr (if i < 2 then 0 else 2 + (i - 2) div 3, if i < 2 then 350 + i * 256 else (i - 2) mod 3 * 256, 3)"
    and r: "read_option T cell i = Inr v"
  shows "v = option_value cell i"
  using r info
  by (auto simp: read_option_def cl_get_uint_be_def option_value_def res_simps decode_padded decode_to_bytes dest!: read_num_result [OF T] read_ref_result [OF T] split: if_splits)

text \<open>A cell with a canonical table.\<close>

lemma canonical_info:
  assumes T: "parser_ok T" and cell: "\<not> tc_exotic cell" "tc_level cell = 0" and c: "count \<in> {4, 6}"
    and head: "80 \<le> length (tc_bits cell)" "take 270 (drop 80 (tc_bits cell)) = options_header count" and i: "i < count"
  shows "field_info T cell i = Inr (if i < 2 then 0 else 2 + (i - 2) div 3, if i < 2 then 350 + i * 256 else (i - 2) mod 3 * 256, 3)"
proof -
  have bits: "tc_bits cell = take 80 (tc_bits cell) @ concat (map info_bits (option_infos count)) @ replicate (18 * (15 - count)) True @ drop 350 (tc_bits cell)"
  proof -
    have "tc_bits cell = take 80 (tc_bits cell) @ take 270 (drop 80 (tc_bits cell)) @ drop 270 (drop 80 (tc_bits cell))" by (simp only: append_take_drop_id)
    also have "drop 270 (drop 80 (tc_bits cell)) = drop 350 (tc_bits cell)" by simp
    finally show ?thesis unfolding head(2) options_header_infos [OF c] by simp
  qed
  have infos: "option_infos count ! i = (8, if i < 2 then 1 else 2 + (i - 2) div 3, if i < 2 then 350 + i * 256 else (i - 2) mod 3 * 256, 3)" "i < length (option_infos count)"
    using i by (simp_all add: option_infos_def)
  have "(i - 2) div 3 < 2" "(i - 2) mod 3 < 3" "i < 6" using i c by auto
  then have "info_ok (8, if i < 2 then 1 else 2 + (i - 2) div 3, if i < 2 then 350 + i * 256 else (i - 2) mod 3 * 256, 3)" by (auto simp: cell_id_def)
  from field_info_written [OF T cell bits _ infos(2,1) this] head(1) show ?thesis by (auto simp: cell_id_def)
qed

lemma decode_named:
  assumes T: "parser_ok T" and n: "cell_name T cell = Inr name" "name \<noteq> ''NULL''" and d: "decode_options T cell = Inr d"
  shows "\<not> tc_exotic cell" "tc_level cell = 0" "name = ''OptionsV1'' \<or> name = ''OptionsV2''"
    "name = ''OptionsV1'' \<Longrightarrow> validate_options_layout T cell 4 = Inr () \<and>
       map (read_option T cell) [0..<4] = map Inr [do_lz_receive_gas d, do_lz_receive_value d, do_native_drop_address d, do_native_drop_amount d] \<and>
       do_lz_compose_gas d = 0 \<and> do_lz_compose_value d = 0"
    "name = ''OptionsV2'' \<Longrightarrow> validate_options_layout T cell 6 = Inr () \<and>
       map (read_option T cell) [0..<6] = map Inr [do_lz_receive_gas d, do_lz_receive_value d, do_lz_compose_gas d, do_lz_compose_value d,
         do_native_drop_address d, do_native_drop_amount d]"
proof -
  have bits: "tc_bits cell \<noteq> []"
  proof
    assume "tc_bits cell = []"
    then have "\<exists>e. core_read_num T 80 (cell_parser_of cell) = Inl e"
      using parser_okD(3) [OF T, of 80 "cell_parser_of cell"] by (auto simp: yields_def cell_parser_of_def)
    with n(1) show False by (auto simp: cell_name_def res_simps NAME_WIDTH_def)
  qed
  have left: "core_data_bits_left T (cell_parser_of cell) = Inr (length (tc_bits cell))" by (simp add: cell_parser_of_def read_steps [OF T])
  have ord: "require_ordinary cell = Inr ()" using d by (auto simp: decode_options_def res_simps)
  then show "\<not> tc_exotic cell" "tc_level cell = 0" by (auto simp: require_ordinary_def split: if_splits)
  note use = d [unfolded decode_options_def ord left n(1), simplified] bits n(2)
  show "name = ''OptionsV1'' \<or> name = ''OptionsV2''" using use by (auto split: if_splits)
  have upt: "[0..<4] = [0, 1, 2, 3 :: nat]" "[0..<6] = [0, 1, 2, 3, 4, 5 :: nat]" by (simp_all add: upt_rec)
  show "name = ''OptionsV1'' \<Longrightarrow> validate_options_layout T cell 4 = Inr () \<and>
       map (read_option T cell) [0..<4] = map Inr [do_lz_receive_gas d, do_lz_receive_value d, do_native_drop_address d, do_native_drop_amount d] \<and>
       do_lz_compose_gas d = 0 \<and> do_lz_compose_value d = 0"
    unfolding upt using use by (auto simp: and_then_eq_Inr default_options_def)
  show "name = ''OptionsV2'' \<Longrightarrow> validate_options_layout T cell 6 = Inr () \<and>
       map (read_option T cell) [0..<6] = map Inr [do_lz_receive_gas d, do_lz_receive_value d, do_lz_compose_gas d, do_lz_compose_value d,
         do_native_drop_address d, do_native_drop_amount d]"
    unfolding upt using use by (auto simp: and_then_eq_Inr)
qed

lemma canonical_values:
  assumes T: "parser_ok T" and cell: "\<not> tc_exotic cell" "tc_level cell = 0" and c: "count \<in> {4, 6}"
    and v: "validate_options_layout T cell count = Inr ()" and r: "map (read_option T cell) [0..<count] = map Inr vs"
  shows "vs = map (option_value cell) [0..<count]"
proof -
  have len: "length vs = count" using arg_cong [OF r, of length] by simp
  have head: "80 \<le> length (tc_bits cell)" "take 270 (drop 80 (tc_bits cell)) = options_header count"
    using v layout_iff [OF T expected_small [OF c]] by auto
  have "vs ! i = option_value cell i" if "i < count" for i
  proof (rule option_read [OF T canonical_info [OF T cell c head that]])
    have "map (read_option T cell) [0..<count] ! i = map Inr vs ! i" using r by simp
    then show "read_option T cell i = Inr (vs ! i)" using that len by simp
  qed
  then show ?thesis using len by (intro nth_equalityI) auto
qed

text \<open>What an accepted options cell says, by its canonical places.\<close>

definition options_at :: "ton_cell \<Rightarrow> string \<Rightarrow> decoded_options \<Rightarrow> bool" where
  "options_at cell name d \<longleftrightarrow>
     (name = ''OptionsV1'' \<and>
      [do_lz_receive_gas d, do_lz_receive_value d, do_native_drop_address d, do_native_drop_amount d] = map (option_value cell) [0..<4] \<and>
      do_lz_compose_gas d = 0 \<and> do_lz_compose_value d = 0) \<or>
     (name = ''OptionsV2'' \<and>
      [do_lz_receive_gas d, do_lz_receive_value d, do_lz_compose_gas d, do_lz_compose_value d, do_native_drop_address d, do_native_drop_amount d] =
        map (option_value cell) [0..<6])"

lemma options_canonical:
  assumes T: "parser_ok T" and n: "cell_name T cell = Inr name" "name \<noteq> ''NULL''" and d: "decode_options T cell = Inr d"
  shows "options_at cell name d"
proof -
  note f = decode_named [OF T n d]
  from f(3) show ?thesis
  proof
    assume v1: "name = ''OptionsV1''"
    with canonical_values [OF T f(1,2), of 4] f(4) show ?thesis unfolding options_at_def by blast
  next
    assume v2: "name = ''OptionsV2''"
    with canonical_values [OF T f(1,2), of 6] f(5) show ?thesis unfolding options_at_def by blast
  qed
qed

text \<open>The table that \<open>cl_declare\<close> writes, by the positions of the fields.\<close>

fun place_info :: "cursor \<Rightarrow> cl_field \<Rightarrow> info" where
  "place_info (dc, off, rc, roff, cap) field =
     (let w = field_bits field;
          (dc, off) = (if MAX_CELL_BITS < off + w then (dc + 1, 0) else (dc, off));
          (rc, roff) = (if w = 0 \<and> cap < roff + 1 then (rc + 1, 0) else (rc, roff)) in
      if 0 < w then (field_type field, dc, off, 3) else (field_type field, rc, MAX_CELL_BITS, roff))"

fun place_infos :: "cursor \<Rightarrow> cl_field list \<Rightarrow> info list" where
  "place_infos cur [] = []"
| "place_infos cur (field # fs) = place_info cur field # place_infos (place cur field) fs"

lemma step_info:
  assumes T: "builder_ok T" and s: "cl_step T field st = Inr st'"
  shows "cls_header st' = (cls_header st)\<lparr>cb_bits := cb_bits (cls_header st) @ info_bits (place_info (cursor_of st) field)\<rparr>"
  using s
  by (cases field; auto simp: cl_step_def Let_def and_then_eq_Inr map_ok_eq_Inr cursor_of_def next_data_cell_def next_ref_cell_def
      write_info_eq [OF T] simp del: info_bits.simps split: if_splits)

lemma steps_header:
  assumes T: "builder_ok T"
  shows "cl_steps T fs st = Inr st' \<Longrightarrow>
    cls_header st' = (cls_header st)\<lparr>cb_bits := cb_bits (cls_header st) @ concat (map info_bits (place_infos (cursor_of st) fs))\<rparr>"
proof (induction fs arbitrary: st)
  case (Cons field fs)
  from Cons.prems obtain mid where m: "cl_step T field st = Inr mid" "cl_steps T fs mid = Inr st'" by (auto simp: res_simps)
  from Cons.IH [OF m(2)] step_info [OF T m(1)] step_cursor(1) [OF m(1)] show ?case by (simp del: info_bits.simps place_info.simps)
qed simp

lemma length_place_infos [simp]: "length (place_infos cur fs) = length fs"
  by (induction fs arbitrary: cur) auto

lemma length_infos: "length (concat (map info_bits infos)) = 18 * length infos"
  by (induction infos) auto

lemma declared_table:
  assumes T: "parser_ok T" "builder_ok T" and name: "name_ok name" and fs: "list_all field_ok fs" and c: "cl_declare T name fs = Inr cell"
  shows "\<exists>body. tc_bits cell = num_bits 80 (ascii_name name) @ concat (map info_bits (place_infos (1, HEADER_WIDTH, 1, 0, 2) fs)) @
    replicate (18 * (15 - length fs)) True @ body"
proof -
  let ?h = "new_builder\<lparr>cb_bits := num_bits 80 (ascii_name name)\<rparr>"
  let ?table = "concat (map info_bits (place_infos (1, HEADER_WIDTH, 1, 0, 2) fs))"
  from c have n: "length fs \<le> 15" by (auto simp: cl_declare_def cl_widths split: if_splits)
  from c obtain st where st: "cl_steps T fs (class_start ?h) = Inr st" "cl_finish T st = Inr cell"
    by (auto simp: cl_declare_def cl_widths and_then_eq_Inr write_uint_eq [OF T(2)] new_builder_def split: if_splits)
  have header: "cb_bits (cls_header st) = num_bits 80 (ascii_name name) @ ?table" "cb_refs (cls_header st) = []"
    using steps_header [OF T(2) st(1)] by (simp_all add: class_start_def cursor_of_def new_builder_def)
  have len: "length (cb_bits (cls_header st)) = 80 + 18 * length fs" unfolding header by (simp add: length_infos)
  have shape: "class_shape st" using cl_steps_result [OF T(2) class_start_shape fs st(1)] by blast
  have "length (cb_bits (cls_header st)) \<le> HEADER_WIDTH" using len n by (simp add: cl_widths)
  from cl_finish_result [OF T(2) shape this header(2) st(2)] obtain root pads extras where "finished st root pads extras cell" by blast
  then obtain ones where
    f: "tc_bits cell = cb_bits (cls_header st) @ ones @ cb_bits root" "set ones \<subseteq> {True}" "length (cb_bits (cls_header st)) + length ones = HEADER_WIDTH"
    by (auto simp: finished_def)
  have "ones = replicate (18 * (15 - length fs)) True"
    using f(2,3) len n by (intro replicate_eqI) (auto simp: cl_widths)
  then show ?thesis using f(1) header(1) by auto
qed

lemma place_options:
  assumes "length vs \<in> {4, 6}"
  shows "place_infos (1, HEADER_WIDTH, 1, 0, 2) (map (ClNum T_UINT256) vs) = option_infos (length vs)"
proof -
  have upt: "[0..<4] = [0, 1, 2, 3 :: nat]" "[0..<6] = [0, 1, 2, 3, 4, 5 :: nat]" by (simp_all add: upt_rec)
  from assms consider a b c d where "vs = [a, b, c, d]" | a b c d e f where "vs = [a, b, c, d, e, f]"
    by (auto simp: length_Suc_conv numeral_eq_Suc)
  then show ?thesis
  proof cases
    case 1
    have "option_infos 4 = place_infos (1, HEADER_WIDTH, 1, 0, 2) (map (ClNum T_UINT256) vs)"
      unfolding option_infos_def upt 1 by (simp add: layout)
    moreover have "length vs = 4" using 1 by simp
    ultimately show ?thesis by (simp only:)
  next
    case 2
    have "option_infos 6 = place_infos (1, HEADER_WIDTH, 1, 0, 2) (map (ClNum T_UINT256) vs)"
      unfolding option_infos_def upt 2 by (simp add: layout)
    moreover have "length vs = 6" using 2 by simp
    ultimately show ?thesis by (simp only:)
  qed
qed

lemma declared_options:
  assumes T: "parser_ok T" "builder_ok T" and name: "name_ok name" and vs: "length vs \<in> {4, 6}" "\<forall>v \<in> set vs. v < 2 ^ 256"
    and c: "cl_declare T name (map (ClNum T_UINT256) vs) = Inr cell"
  shows "validate_options_layout T cell (length vs) = Inr ()" "\<And>i. i < length vs \<Longrightarrow> read_option T cell i = Inr (vs ! i)"
    "cell_name T cell = Inr name" "require_ordinary cell = Inr ()" "tc_bits cell \<noteq> []"
proof -
  have fs: "list_all field_ok (map (ClNum T_UINT256) vs)" using vs(2) by (auto simp: list_all_iff field_ok_def widths)
  obtain body where bits: "tc_bits cell = num_bits 80 (ascii_name name) @ options_header (length vs) @ body"
    using declared_table [OF T name fs c] place_options [OF vs(1)] options_header_infos [OF vs(1)] by auto
  have len: "length (options_header (length vs)) = 270"
    using options_header_infos [OF vs(1)] vs(1) by (auto simp: length_infos)
  show "validate_options_layout T cell (length vs) = Inr ()"
    unfolding layout_iff [OF T(1) expected_small [OF vs(1)]] using len by (simp add: bits)
  show "tc_bits cell \<noteq> []" using len by (auto simp: bits simp del: num_bits.simps)
  show "read_option T cell i = Inr (vs ! i)" if "i < length vs" for i
  proof -
    have "cl_get_uint_be T cell i 256 = Inr (be_encode 32 (vs ! i))"
      using declared_num [OF T name fs c, of i T_UINT256 "vs ! i"] that by (simp add: widths)
    moreover have "be_decode (be_encode 32 (vs ! i)) = vs ! i" using vs(2) that by (intro be_decode_encode_id) simp
    ultimately show ?thesis by (simp add: read_option_def)
  qed
  from cl_declare_holds [OF T name fs c] show "cell_name T cell = Inr name" "require_ordinary cell = Inr ()"
    by (auto simp: class_holds_def require_ordinary_def)
qed

lemma option_names: "name_ok ''OptionsV1''" "name_ok ''OptionsV2''"
  by (simp_all add: name_ok_def)

lemma options_v1_decoded:
  assumes T: "parser_ok T" "builder_ok T" and c: "cl_declare T ''OptionsV1'' (map (ClNum T_UINT256) [gas, v, address, amount]) = Inr cell"
    and small: "\<forall>n \<in> {gas, v, address, amount}. n < 2 ^ 256"
  shows "decode_options T cell = Inr \<lparr>do_lz_receive_gas = gas, do_lz_receive_value = v, do_lz_compose_gas = 0, do_lz_compose_value = 0,
    do_native_drop_address = address, do_native_drop_amount = amount\<rparr>"
proof -
  let ?vs = "[gas, v, address, amount]"
  have a: "length ?vs \<in> {4, 6}" "\<forall>n \<in> set ?vs. n < 2 ^ 256" using small by simp_all
  have l: "length ?vs = 4" by simp
  note f = declared_options [OF T option_names(1) a c, unfolded l]
  have "read_option T cell 0 = Inr gas" "read_option T cell 1 = Inr v" "read_option T cell 2 = Inr address" "read_option T cell 3 = Inr amount"
    using f(2) [of 0] f(2) [of 1] f(2) [of 2] f(2) [of 3] by simp_all
  with f(1,3,4,5) show ?thesis by (simp add: decode_options_def cell_parser_of_def read_steps [OF T(1)] default_options_def)
qed

lemma options_v2_decoded:
  assumes T: "parser_ok T" "builder_ok T" and c: "cl_declare T ''OptionsV2'' (map (ClNum T_UINT256) [gas, v, cgas, cv, address, amount]) = Inr cell"
    and small: "\<forall>n \<in> {gas, v, cgas, cv, address, amount}. n < 2 ^ 256"
  shows "decode_options T cell = Inr \<lparr>do_lz_receive_gas = gas, do_lz_receive_value = v, do_lz_compose_gas = cgas, do_lz_compose_value = cv,
    do_native_drop_address = address, do_native_drop_amount = amount\<rparr>"
proof -
  let ?vs = "[gas, v, cgas, cv, address, amount]"
  have a: "length ?vs \<in> {4, 6}" "\<forall>n \<in> set ?vs. n < 2 ^ 256" using small by simp_all
  have l: "length ?vs = 6" by simp
  note f = declared_options [OF T option_names(2) a c, unfolded l]
  have "read_option T cell 0 = Inr gas" "read_option T cell 1 = Inr v" "read_option T cell 2 = Inr cgas" "read_option T cell 3 = Inr cv"
    "read_option T cell 4 = Inr address" "read_option T cell 5 = Inr amount"
    using f(2) [of 0] f(2) [of 1] f(2) [of 2] f(2) [of 3] f(2) [of 4] f(2) [of 5] by simp_all
  with f(1,3,4,5) show ?thesis by (simp add: decode_options_def cell_parser_of_def read_steps [OF T(1)])
qed

text \<open>The cells that carry options: empty, the class of no options, or one of the two versions.\<close>

definition is_options :: "ton_core \<Rightarrow> decoded_options \<Rightarrow> ton_cell \<Rightarrow> bool" where
  "is_options T d cell \<longleftrightarrow>
     (d = default_options \<and> (cell = TonCell [] [] False 0 \<or> cl_declare T ''NULL'' [] = Inr cell)) \<or>
     (\<forall>n \<in> {do_lz_receive_gas d, do_lz_receive_value d, do_lz_compose_gas d, do_lz_compose_value d, do_native_drop_address d, do_native_drop_amount d}. n < 2 ^ 256) \<and>
     (do_lz_compose_gas d = 0 \<and> do_lz_compose_value d = 0 \<and>
        cl_declare T ''OptionsV1'' (map (ClNum T_UINT256) [do_lz_receive_gas d, do_lz_receive_value d, do_native_drop_address d, do_native_drop_amount d]) = Inr cell \<or>
      cl_declare T ''OptionsV2'' (map (ClNum T_UINT256) [do_lz_receive_gas d, do_lz_receive_value d, do_lz_compose_gas d, do_lz_compose_value d,
        do_native_drop_address d, do_native_drop_amount d]) = Inr cell)"

lemma null_decoded:
  assumes T: "parser_ok T" "builder_ok T" and c: "cl_declare T ''NULL'' [] = Inr cell"
  shows "decode_options T cell = Inr default_options"
proof -
  have name: "name_ok ''NULL''" by (simp add: name_ok_def)
  obtain body where "tc_bits cell = num_bits 80 (ascii_name ''NULL'') @ body" using declared_table [OF T name _ c] by auto
  then have "length (tc_bits cell) \<noteq> 0" by simp
  with cl_declare_holds [OF T name _ c] show ?thesis
    by (simp add: class_holds_def decode_options_def require_ordinary_def cell_parser_of_def read_steps [OF T(1)])
qed

lemma options_decoded:
  assumes T: "parser_ok T" "builder_ok T" and o: "is_options T d cell"
  shows "decode_options T cell = Inr d"
  using o unfolding is_options_def
proof (elim disjE conjE, goal_cases)
  case 1
  then show ?case by (simp add: decode_options_def require_ordinary_def cell_parser_of_def read_steps [OF T(1)])
next
  case 2
  with null_decoded [OF T] show ?case by simp
next
  case 3
  have "\<forall>n \<in> {do_lz_receive_gas d, do_lz_receive_value d, do_native_drop_address d, do_native_drop_amount d}. n < 2 ^ 256" using 3(1) by blast
  from options_v1_decoded [OF T 3(4) this] 3(2,3) show ?case by simp
next
  case 4
  from options_v2_decoded [OF T 4(2,1)] show ?case by simp
qed

text \<open>
  C26: TON worker options are read exactly. A cell that carries options, of either version, of none or empty, is decoded to
  them; and whatever the bits of a named options cell, if it is decoded then every amount is the number at the
  place fixed for its field, so that its field table cannot redirect one field to another or to other data.
\<close>

theorem ton_options_exact:
  assumes T: "parser_ok T" "builder_ok T"
  shows "(is_options T d cell \<longrightarrow> decode_options T cell = Inr d) \<and>
    (cell_name T cell = Inr name \<and> name \<noteq> ''NULL'' \<and> decode_options T cell = Inr d \<longrightarrow> options_at cell name d)"
  using options_decoded [OF T] options_canonical [OF T(1)] by blast

definition sample_options :: decoded_options where
  "sample_options = \<lparr>do_lz_receive_gas = 10, do_lz_receive_value = 2, do_lz_compose_gas = 9, do_lz_compose_value = 1, do_native_drop_address = 17, do_native_drop_amount = 6\<rparr>"

theorem ton_options_exact_witness:
  "\<exists>cell. decode_options ref_ton_core cell = Inr sample_options \<and> option_value cell 2 = 9"
proof -
  note T = ref_parser_ok ref_builder_ok
  let ?fs = "map (ClNum T_UINT256) [10, 2, 9, 1, 17, 6]"
  have ok: "list_all field_ok ?fs" by (simp add: field_ok_def widths)
  from class_built [OF T option_names(2) ok, where n = 3 and d = 0] obtain cell where c: "cl_declare ref_ton_core ''OptionsV2'' ?fs = Inr cell"
    by (auto simp: built_def layout MAX_CELL_DEPTH_def)
  then have o: "is_options ref_ton_core sample_options cell" by (simp add: is_options_def sample_options_def)
  have name: "cell_name ref_ton_core cell = Inr ''OptionsV2''" using cl_declare_holds [OF T option_names(2) ok c] by (simp add: class_holds_def)
  note exact = ton_options_exact [OF T, of sample_options cell "''OptionsV2''"]
  from exact o have d: "decode_options ref_ton_core cell = Inr sample_options" by blast
  with exact name have "options_at cell ''OptionsV2'' sample_options" by simp
  then have "option_value cell (Suc (Suc 0)) = 9" by (simp add: options_at_def sample_options_def upt_rec)
  then have "option_value cell 2 = 9" by (simp add: numeral_2_eq_2)
  with d show ?thesis by blast
qed

definition signed_check_of :: "ton_dvn_verify_request \<Rightarrow> ton_payload_signed_request" where
  "signed_check_of req =
     \<lparr>tps_src_eid = tv_src_eid req, tps_dst_eid = tv_dst_eid req, tps_sender = tv_sender req, tps_receiver = tv_receiver req, tps_guid = tv_guid req,
      tps_nonce = tv_nonce req, tps_message = tv_message req, tps_uln_manager_address = tv_uln_manager_address req, tps_code = tv_code req\<rparr>"

text \<open>
  C24: the payload-signed check looks for the attestation that a signature would make. When the check and the builder are
  given the same pathway and message, the packet hash the check compares with the chain is the hash the signed call attests,
  and both address the same connection.
\<close>

theorem ton_check_matches_signature:
  assumes X: "hex_ok X" and h: "hash_ok X T" and b: "build_ton_dvn_verify X T crc req = Inr out"
    and t: "ton_payload_signed_targets X T crc base64 (signed_check_of req) = Inr targets"
  shows "\<exists>derived call. derive_uln_addresses X T (request_pathway req) (tv_code req) = Inr derived \<and>
    pst_uln_connection_address targets = core_show_address T (der_uln_connection derived) \<and>
    build_uln_call_data T (addr_hash (der_uln_connection derived)) (tv_nonce req) (tv_block_confirmation req) (pst_packet_hash_be targets) = Inr call \<and>
    boc_to_hex X T crc call = Inr (tvo_uln_call_data_boc out) \<and> tvo_packet_hash out = hex_encode X (pst_packet_hash_be targets)"
proof -
  from b obtain derived uln conn packet hx ph call where
    d: "derive_uln_addresses X T (request_pathway req) (tv_code req) = Inr derived" "hash_be32 (der_uln_connection derived) = Inr conn"
    and p: "ton_packet X T req = Inr packet" "repr_hash_hex T packet = Inr hx" "hex_to_be32 X hx = Inr ph"
    and u: "build_uln_call_data T conn (tv_nonce req) (tv_block_confirmation req) ph = Inr call" "boc_to_hex X T crc call = Inr (tvo_uln_call_data_boc out)"
    and o: "tvo_packet_hash out = hx"
    unfolding build_ton_dvn_verify_def by (auto simp: and_then_eq_Inr)
  from t p(1) d(1) obtain hx' ph' where t': "repr_hash_hex T packet = Inr hx'" "hex_to_be32 X hx' = Inr ph'"
    "pst_packet_hash_be targets = ph'" "pst_uln_connection_address targets = core_show_address T (der_uln_connection derived)"
    unfolding ton_payload_signed_targets_def ton_packet_def request_pathway_def signed_check_of_def by (auto simp: and_then_eq_Inr)
  have ph: "ph' = ph" "hx' = hx" using t'(1,2) p(2,3) by auto
  have "core_hash T packet = Inr ph" by (rule repr_hash_be32 [OF X h p(2,3)])
  then have "hx = hex_encode X ph" using p(2) h by (auto simp: repr_hash_hex_def hash_of_def hash_ok_def)
  with d u o t' ph be32_length [OF d(2)] show ?thesis by auto
qed

theorem ton_check_matches_signature_witness:
  "\<exists>out targets. build_ton_dvn_verify ref_external sample_ton_core (\<lambda>_. 0) (sample_ton_call ''0x01'') = Inr out \<and>
     ton_payload_signed_targets ref_external sample_ton_core (\<lambda>_. 0) (\<lambda>_. []) (signed_check_of (sample_ton_call ''0x01'')) = Inr targets \<and>
     tvo_packet_hash out = hex_encode ref_external (pst_packet_hash_be targets)"
proof -
  let ?a = "sample_ton_call ''0x01''"
  note T = sample_core_ok and X = ref_external_hex_ok
  have r: "request_ok ref_external sample_ton_core ?a" by (simp add: sample_request_ok sample_targets is_ok_iff)
  obtain c where c: "ton_call ref_external sample_ton_core ?a = Inr c" using ton_call_built [OF T X r] by (auto simp: built_def)
  have h: "\<And>c. core_hash sample_ton_core c = Inr (replicate 32 1)" by (simp add: sample_ton_core_def)
  obtain out where out: "build_ton_dvn_verify ref_external sample_ton_core (\<lambda>_. 0) ?a = Inr out" using build_from_call [OF c h] by blast
  from c obtain derived packet hx ph where
    p: "derive_uln_addresses ref_external sample_ton_core (request_pathway ?a) (tv_code ?a) = Inr derived" "ton_packet ref_external sample_ton_core ?a = Inr packet"
      "repr_hash_hex sample_ton_core packet = Inr hx" "hex_to_be32 ref_external hx = Inr ph"
    unfolding ton_call_def by (auto simp: and_then_eq_Inr)
  obtain bs where "serialize_boc (core_hash sample_ton_core) (\<lambda>_. 0) packet = Inr bs" using constant_serialized [of "core_hash sample_ton_core", OF h] by blast
  then obtain targets where t: "ton_payload_signed_targets ref_external sample_ton_core (\<lambda>_. 0) (\<lambda>_. []) (signed_check_of ?a) = Inr targets"
    using p unfolding ton_payload_signed_targets_def ton_packet_def request_pathway_def signed_check_of_def boc_to_base64_def
    by (auto simp: and_then_eq_Inr)
  from ton_check_matches_signature [OF X T(3) out t] out t show ?thesis by blast
qed

end
