(* ===== verification/Signer_Types.thy ===== *)
theory Signer_Types
  imports Abi_Codec
begin

text \<open>
  The data and the pure parts of \<^verbatim>\<open>pillar-signer\<close>: \<^verbatim>\<open>types.rs\<close> (requests, wallets, errors),
  \<^verbatim>\<open>kms_signature.rs\<close> (a KMS signature turned into a recoverable one) and \<^verbatim>\<open>chain_address/hash.rs\<close>. The
  cryptography of other crates (\<open>k256\<close>, \<open>bip32\<close>, \<open>bip39\<close>, \<open>ed25519_dalek\<close>, \<open>hmac\<close>, \<open>pbkdf2\<close>,
  \<open>blake2\<close>, \<open>ripemd\<close>, \<open>bech32\<close>, \<open>spki\<close>, \<open>pem_rfc7468\<close>, \<open>url\<close>) is the record \<open>crypto\<close>, of which
  the properties assume nothing.
\<close>

section \<open>Requests, wallets and errors (types.rs)\<close>

datatype signature_type = Ecdsa | Ed25519

datatype seed_kind = Bip39 | TonSeed

datatype chain_type =
    ChainAptos | ChainEvm | ChainTron | ChainInitia | ChainSolana | ChainIotaMove | ChainSui | ChainTon
  | ChainStarknet | ChainStellar | ChainCanton

record sign_input =
  si_data :: bytes
  si_signature_type :: signature_type
  si_private_key_type :: signature_type
  si_transform_recovery_id :: bool
  si_seed_kind :: seed_kind

record public_key_input =
  pi_signature_type :: signature_type
  pi_private_key_type :: signature_type
  pi_seed_kind :: seed_kind

record local_mnemonic =
  lm_mnemonic :: string
  lm_path :: string

datatype kms_provider = Aws | Gcp | Azure

datatype wallet_signer_kind = MnemonicWallet | KmsWallet kms_provider | UnsupportedWallet string

record chain_type_wallet =
  cw_secret_name :: string
  cw_signer_kind :: "wallet_signer_kind option"

record wallet_definition =
  wd_name :: string
  wd_by_chain_type :: "chain_type \<rightharpoonup> chain_type_wallet"

datatype signer_error =
    SgMessage string
  | SgAdmission budget_error
  | SgAudit string
  | SgUnsupportedChainType chain_type
  | SgDuplicateWallet string
  | SgWalletNotFound string
  | SgChainWalletNotFound chain_type
  | SgGcpCredentials
  | SgAzureCredentials
  | SgUnsupportedKms kms_provider
  | SgUnsupportedSigner string

type_synonym 'a sg = "signer_error + 'a"

fun show_chain_type :: "chain_type \<Rightarrow> string" where
  "show_chain_type ChainAptos = ''Aptos''"
| "show_chain_type ChainEvm = ''Evm''"
| "show_chain_type ChainTron = ''Tron''"
| "show_chain_type ChainInitia = ''Initia''"
| "show_chain_type ChainSolana = ''Solana''"
| "show_chain_type ChainIotaMove = ''IotaMove''"
| "show_chain_type ChainSui = ''Sui''"
| "show_chain_type ChainTon = ''Ton''"
| "show_chain_type ChainStarknet = ''Starknet''"
| "show_chain_type ChainStellar = ''Stellar''"
| "show_chain_type ChainCanton = ''Canton''"

fun show_kms_provider :: "kms_provider \<Rightarrow> string" where
  "show_kms_provider Aws = ''Aws''"
| "show_kms_provider Gcp = ''Gcp''"
| "show_kms_provider Azure = ''Azure''"

fun show_signature_type :: "signature_type \<Rightarrow> string" where
  "show_signature_type Ecdsa = ''Ecdsa''"
| "show_signature_type Ed25519 = ''Ed25519''"

fun show_signer_error :: "signer_error \<Rightarrow> string" where
  "show_signer_error (SgMessage s) = s"
| "show_signer_error (SgAdmission b) = show_budget_error b"
| "show_signer_error (SgAudit s) = s"
| "show_signer_error (SgUnsupportedChainType c) = ''Unsupported chain type: '' @ show_chain_type c"
| "show_signer_error (SgDuplicateWallet n) = ''SignerAdapter: Duplicate wallet definition found for '' @ n"
| "show_signer_error (SgWalletNotFound n) = ''Wallet definition not found for '' @ n"
| "show_signer_error (SgChainWalletNotFound c) =
     ''Chain type wallet definition not found for '' @ show_chain_type c"
| "show_signer_error SgGcpCredentials = ''GCP credentials are not set''"
| "show_signer_error SgAzureCredentials = ''Azure credentials are not set''"
| "show_signer_error (SgUnsupportedKms p) = ''Unsupported KMS provider: '' @ show_kms_provider p"
| "show_signer_error (SgUnsupportedSigner s) = ''Unsupported signer type for '' @ s"

fun chain_type_ts_name :: "chain_type \<Rightarrow> string" where
  "chain_type_ts_name ChainAptos = ''APTOS''"
| "chain_type_ts_name ChainEvm = ''EVM''"
| "chain_type_ts_name ChainTron = ''TRON''"
| "chain_type_ts_name ChainInitia = ''INITIA''"
| "chain_type_ts_name ChainSolana = ''SOLANA''"
| "chain_type_ts_name ChainIotaMove = ''IOTAMOVE''"
| "chain_type_ts_name ChainSui = ''SUI''"
| "chain_type_ts_name ChainTon = ''TON''"
| "chain_type_ts_name ChainStarknet = ''STARKNET''"
| "chain_type_ts_name ChainStellar = ''STELLAR''"
| "chain_type_ts_name ChainCanton = ''CANTON''"

section \<open>Cryptography of other crates\<close>

text \<open>
  \<open>'s\<close> is an ECDSA signature, \<open>'k\<close> a secp256k1 signing key and \<open>'p\<close> a parsed BIP-32 path.
  \<open>recover_sec1 d s i\<close> is \<open>VerifyingKey::recover_from_prehash(d, s, i)\<close> as its uncompressed point;
  \<open>spki_point\<close> is \<open>PublicKey::from_public_key_der\<close> as its uncompressed point; \<open>spki_bits\<close> the raw bits of a
  subject public key; \<open>sec1_point\<close> says \<open>PublicKey::from_sec1_bytes\<close> succeeds; \<open>bip39_seed\<close> is
  \<open>Mnemonic::parse_in_normalized\<close> followed by \<open>to_seed("")\<close>; \<open>pbkdf2_sha512 p s n\<close> fills 64 bytes;
  \<open>url_origin\<close> is the scheme and the serialized origin of \<open>Url::parse\<close>.
\<close>

record ('s, 'k, 'p) crypto =
  sig_from_der :: "bytes \<Rightarrow> string + 's"
  sig_from_slice :: "bytes \<Rightarrow> string + 's"
  sig_normalize :: "'s \<Rightarrow> 's"
  sig_to_bytes :: "'s \<Rightarrow> bytes"
  recover_sec1 :: "bytes \<Rightarrow> 's \<Rightarrow> nat \<Rightarrow> bytes option"
  spki_point :: "bytes \<Rightarrow> string + bytes"
  spki_bits :: "bytes \<Rightarrow> string + bytes"
  pem_decode :: "bytes \<Rightarrow> string + string \<times> bytes"
  sec1_point :: "bytes \<Rightarrow> bool"
  key_from_slice :: "bytes \<Rightarrow> string + 'k"
  verifying_sec1 :: "'k \<Rightarrow> bytes"
  sign_prehash :: "'k \<Rightarrow> bytes \<Rightarrow> 's \<times> nat"
  bip39_seed_of :: "string \<Rightarrow> string + bytes"
  path_parse :: "string \<Rightarrow> string + 'p"
  derive_key :: "bytes \<Rightarrow> 'p \<Rightarrow> string + 'k"
  ed_public :: "bytes \<Rightarrow> bytes"
  ed_sign :: "bytes \<Rightarrow> bytes \<Rightarrow> bytes"
  hmac_sha512 :: "bytes \<Rightarrow> bytes \<Rightarrow> bytes"
  pbkdf2_sha512 :: "bytes \<Rightarrow> bytes \<Rightarrow> nat \<Rightarrow> bytes"
  blake2b_32 :: "bytes \<Rightarrow> bytes"
  ripemd160 :: "bytes \<Rightarrow> bytes"
  bech32_encode :: "string \<Rightarrow> bytes \<Rightarrow> string + string"
  url_origin :: "string \<Rightarrow> (string \<times> string) option"

section \<open>Recoverable signatures (kms_signature.rs)\<close>

datatype kms_encoding = Der | RawForm

definition recovery_id_byte :: "nat \<Rightarrow> bool \<Rightarrow> nat sg" where
  "recovery_id_byte i transform =
     (if transform \<and> 1 < i then Inl (SgMessage ''Ethereum-style recovery ID must be 0 or 1'')
      else Inr (if transform then i + 27 else i))"

definition raw_ecdsa_public_key :: "bytes \<Rightarrow> bytes sg" where
  "raw_ecdsa_public_key pk =
     (if length pk = 65 \<and> pk ! 0 = 4 then Inr (drop 1 pk)
      else if length pk = 64 then Inr pk
      else Inl (SgMessage (''ECDSA public key must be 64 raw bytes or 65 uncompressed bytes, got ''
                           @ show_nat (length pk))))"

fun search_recovery_id :: "('s, 'k, 'p) crypto \<Rightarrow> 's \<Rightarrow> bytes \<Rightarrow> bytes \<Rightarrow> nat list \<Rightarrow> nat sg" where
  "search_recovery_id C s digest expected [] = Inl (SgMessage ''Could not find recoveryId'')"
| "search_recovery_id C s digest expected (i # ids) =
     (case recover_sec1 C digest s i of
        None \<Rightarrow> search_recovery_id C s digest expected ids
      | Some point \<Rightarrow>
          if drop 1 point = expected then Inr i else search_recovery_id C s digest expected ids)"

definition recover_ecdsa_recovery_id ::
    "('s, 'k, 'p) crypto \<Rightarrow> 's \<Rightarrow> bytes \<Rightarrow> bytes \<Rightarrow> nat sg" where
  "recover_ecdsa_recovery_id C s digest pk =
     and_then (raw_ecdsa_public_key pk) (\<lambda>expected. search_recovery_id C s digest expected [0, 1, 2, 3])"

definition parse_signature :: "('s, 'k, 'p) crypto \<Rightarrow> kms_encoding \<Rightarrow> bytes \<Rightarrow> 's sg" where
  "parse_signature C encoding sig =
     map_err SgMessage (case encoding of Der \<Rightarrow> sig_from_der C sig | RawForm \<Rightarrow> sig_from_slice C sig)"

definition kms_ecdsa_signature_to_recoverable ::
    "('s, 'k, 'p) crypto \<Rightarrow> bytes \<Rightarrow> kms_encoding \<Rightarrow> bytes \<Rightarrow> bytes \<Rightarrow> bool \<Rightarrow> bytes sg" where
  "kms_ecdsa_signature_to_recoverable C sig encoding digest pk transform =
     and_then (parse_signature C encoding sig) (\<lambda>parsed.
       let s = sig_normalize C parsed in
       and_then (recover_ecdsa_recovery_id C s digest pk) (\<lambda>i.
       and_then (recovery_id_byte i transform) (\<lambda>b.
         Inr (sig_to_bytes C s @ [word_of_nat b]))))"

definition kms_signature_of_either_encoding ::
    "('s, 'k, 'p) crypto \<Rightarrow> bytes \<Rightarrow> bytes \<Rightarrow> bytes \<Rightarrow> bool \<Rightarrow> bytes sg" where
  "kms_signature_of_either_encoding C sig digest pk transform =
     (let der = kms_ecdsa_signature_to_recoverable C sig Der digest pk transform in
      if length sig = 64
      then (case kms_ecdsa_signature_to_recoverable C sig RawForm digest pk transform of
              Inr recovered \<Rightarrow> Inr recovered
            | Inl _ \<Rightarrow> der)
      else der)"

definition ecdsa_public_key_from_spki_der :: "('s, 'k, 'p) crypto \<Rightarrow> bytes \<Rightarrow> bytes sg" where
  "ecdsa_public_key_from_spki_der C der = map_err SgMessage (spki_point C der)"

definition ecdsa_public_key_from_pem :: "('s, 'k, 'p) crypto \<Rightarrow> string \<Rightarrow> bytes sg" where
  "ecdsa_public_key_from_pem C pem =
     and_then (map_err SgMessage (pem_decode C (string_bytes pem))) (\<lambda>(label, der).
       if label \<noteq> ''PUBLIC KEY'' then Inl (SgMessage (''Expected PUBLIC KEY PEM, got '' @ label))
       else ecdsa_public_key_from_spki_der C der)"

definition ed25519_public_key_from_spki_der :: "('s, 'k, 'p) crypto \<Rightarrow> bytes \<Rightarrow> bytes sg" where
  "ed25519_public_key_from_spki_der C der =
     and_then (map_err SgMessage (spki_bits C der)) (\<lambda>pk.
       if length pk \<noteq> 32
       then Inl (SgMessage (''Ed25519 public key must be 32 bytes, got '' @ show_nat (length pk)))
       else Inr pk)"

section \<open>Key forms and digests (chain_address/hash.rs)\<close>

fun bytes_to_hex :: "bytes \<Rightarrow> string" where
  "bytes_to_hex [] = []"
| "bytes_to_hex (b # bs) = hex_digit (unat b div 16) # hex_digit (unat b mod 16) # bytes_to_hex bs"

definition ethers_hash_message :: "external \<Rightarrow> bytes \<Rightarrow> bytes" where
  "ethers_hash_message X message =
     keccak256 X ([0x19] @ string_bytes ''Ethereum Signed Message:'' @ [0x0a]
                  @ string_bytes (show_nat (length message)) @ message)"

fun evm_tagged_body :: "bytes \<Rightarrow> bytes option" where
  "evm_tagged_body (a # b # body) = (if a = 0x04 \<and> b = 0xca \<and> length body = 64 then Some body else None)"
| "evm_tagged_body _ = None"

definition evm_public_key_body :: "bytes \<Rightarrow> bytes sg" where
  "evm_public_key_body pk =
     (case evm_tagged_body pk of Some body \<Rightarrow> Inr body | None \<Rightarrow> raw_ecdsa_public_key pk)"

definition strip_public_key_prefix :: "bytes \<Rightarrow> bytes" where
  "strip_public_key_prefix pk = (if 32 < length pk then drop 1 pk else pk)"

definition evm_signer_info_public_key :: "bytes \<Rightarrow> bool \<Rightarrow> bytes" where
  "evm_signer_info_public_key pk is_kms =
     (case evm_tagged_body pk of
        Some body \<Rightarrow> body
      | None \<Rightarrow>
          (case pk of
             a # body \<Rightarrow> if a = 0x04 \<and> is_kms \<and> length body = 64 then body else strip_public_key_prefix pk
           | [] \<Rightarrow> strip_public_key_prefix pk))"

definition is_hex_letter :: "char \<Rightarrow> bool" where
  "is_hex_letter c =
     (let n = of_char c :: nat in (97 \<le> n \<and> n \<le> 102) \<or> (65 \<le> n \<and> n \<le> 70))"

definition checksum_nibble :: "bytes \<Rightarrow> nat \<Rightarrow> byte" where
  "checksum_nibble hash index =
     (let b = hash ! (index div 2) in if even index then drop_bit 4 b AND 0x0f else b AND 0x0f)"

definition checksum_char :: "bytes \<Rightarrow> nat \<Rightarrow> char \<Rightarrow> char" where
  "checksum_char hash index c =
     (if is_hex_letter c \<and> 8 \<le> checksum_nibble hash index then ascii_upper c else c)"

definition to_checksum_address :: "external \<Rightarrow> bytes \<Rightarrow> string" where
  "to_checksum_address X address =
     (let lower = bytes_to_hex address; hash = keccak256 X (string_bytes lower) in
      ''0x'' @ map (\<lambda>(i, c). checksum_char hash i c) (zip [0..<length lower] lower))"

definition evm_address_from_public_key :: "external \<Rightarrow> bytes \<Rightarrow> string sg" where
  "evm_address_from_public_key X pk =
     and_then (evm_public_key_body pk) (\<lambda>key. Inr (to_checksum_address X (drop 12 (keccak256 X key))))"

definition compress_ecdsa_public_key :: "bytes \<Rightarrow> bytes sg" where
  "compress_ecdsa_public_key pk =
     (let compress = (\<lambda>key. (if unat (key ! 63) mod 2 = 0 then 0x02 else 0x03) # take 32 key) in
      if length pk = 65 \<and> pk ! 0 = 0x04 then Inr (compress (drop 1 pk))
      else if length pk = 64 then Inr (compress pk)
      else if length pk = 33 \<and> (pk ! 0 = 0x02 \<or> pk ! 0 = 0x03) then Inr pk
      else Inl (SgMessage (''ECDSA public key must be 64 raw, 65 uncompressed, or 33 compressed bytes, got ''
                           @ show_nat (length pk))))"

definition ton_public_key_cell_hash :: "external \<Rightarrow> bytes \<Rightarrow> bytes sg" where
  "ton_public_key_cell_hash X pk =
     (if length pk \<noteq> 64
      then Inl (SgMessage (''TON public key cell stores exactly 64 bytes, got '' @ show_nat (length pk)))
      else Inr (sha256 X ([0, 128] @ pk)))"

end
