(* ===== verification/Signer_Chains.thy ===== *)
theory Signer_Chains
  imports Signer_Types
begin

text \<open>
  \<^verbatim>\<open>pillar-signer/src/chain_address/chains.rs\<close>, the defaults of the trait in \<^verbatim>\<open>base.rs\<close> and the choice of
  \<^verbatim>\<open>kind.rs\<close>: which address a chain shows for a public key, which private key signs and which one the
  address is taken from; and \<^verbatim>\<open>azure/key_id.rs\<close>. A value of \<open>chain_address_kind\<close> is one of the unit structs that
  implement \<open>ChainAddress\<close>.
\<close>

section \<open>Chains (chains.rs)\<close>

datatype chain_address_kind =
    EvmChain | EvmAddressChain | CantonChain | AptosChain | SolanaChain | SuiChain | TonChain | InitiaChain
  | PlainChain chain_type

definition canton_address :: "bytes \<Rightarrow> string sg" where
  "canton_address pk =
     (case pk of [] \<Rightarrow> Inl (SgMessage ''empty Canton signer public key'')
      | _ # rest \<Rightarrow> Inr (with_0x (bytes_to_hex rest)))"

definition aptos_address :: "external \<Rightarrow> bytes \<Rightarrow> string sg" where
  "aptos_address X pk =
     (if length pk = 65 \<and> pk ! 0 = 0x04
      then Inr (with_0x (bytes_to_hex (sha3_256 X ([0x01] @ [word_of_nat (length pk)] @ pk @ [0x02]))))
      else Inl (SgMessage (''Aptos secp256k1 public key must be 65 uncompressed bytes, got ''
                           @ show_nat (length pk))))"

definition solana_sec1_public_key :: "bytes \<Rightarrow> bytes sg" where
  "solana_sec1_public_key pk =
     (if length pk = 65 \<and> pk ! 0 = 0x04 then Inr pk
      else if length pk = 64 then Inr (0x04 # pk)
      else Inl (SgMessage (''Solana signer public key must be a 65-byte SEC1 or 64-byte X||Y secp256k1 key, got ''
                           @ show_nat (length pk) @ '' bytes'')))"

definition solana_address :: "external \<Rightarrow> bytes \<Rightarrow> kms_provider option \<Rightarrow> string sg" where
  "solana_address X pk provider =
     and_then (solana_sec1_public_key pk) (\<lambda>sec1.
       let start = (if provider = Some Azure then 1 else 0) in
       Inr (bs58_encode X (slice start (start + 32) sec1)))"

definition sui_address :: "('s, 'k, 'p) crypto \<Rightarrow> bytes \<Rightarrow> string sg" where
  "sui_address C pk =
     and_then (compress_ecdsa_public_key pk) (\<lambda>compressed.
       Inr (with_0x (bytes_to_hex (blake2b_32 C ([1] @ compressed)))))"

definition ton_signer_address :: "external \<Rightarrow> bytes \<Rightarrow> string sg" where
  "ton_signer_address X pk =
     and_then
       (if length pk = 65 \<and> pk ! 0 = 0x04 then Inr (drop 1 pk)
        else if length pk = 64 then Inr pk
        else Inl (SgMessage (''TON ECDSA public key must be 64 raw bytes or 65 uncompressed bytes, got ''
                             @ show_nat (length pk)))) (\<lambda>key.
     and_then (ton_public_key_cell_hash X key) (\<lambda>hash. Inr (with_0x (bytes_to_hex hash))))"

definition initia_address :: "external \<Rightarrow> ('s, 'k, 'p) crypto \<Rightarrow> bytes \<Rightarrow> string sg" where
  "initia_address X C pk =
     and_then (compress_ecdsa_public_key pk) (\<lambda>compressed.
       map_err SgMessage (bech32_encode C ''init'' (ripemd160 C (sha256 X compressed))))"

fun signer_address :: "external \<Rightarrow> ('s, 'k, 'p) crypto \<Rightarrow> chain_address_kind \<Rightarrow> bytes \<Rightarrow> string sg" where
  "signer_address X C EvmChain pk = evm_address_from_public_key X pk"
| "signer_address X C EvmAddressChain pk = evm_address_from_public_key X pk"
| "signer_address X C CantonChain pk = canton_address pk"
| "signer_address X C AptosChain pk = aptos_address X pk"
| "signer_address X C SolanaChain pk = solana_address X pk None"
| "signer_address X C SuiChain pk = sui_address C pk"
| "signer_address X C TonChain pk = ton_signer_address X pk"
| "signer_address X C InitiaChain pk = initia_address X C pk"
| "signer_address X C (PlainChain t) pk = Inr (show_chain_type t @ '':'' @ bytes_to_hex pk)"

fun signer_address_for_provider ::
    "external \<Rightarrow> ('s, 'k, 'p) crypto \<Rightarrow> chain_address_kind \<Rightarrow> bytes \<Rightarrow> kms_provider option \<Rightarrow> string sg" where
  "signer_address_for_provider X C SolanaChain pk provider = solana_address X pk provider"
| "signer_address_for_provider X C chain pk provider = signer_address X C chain pk"

fun private_key_signature_type :: "chain_address_kind \<Rightarrow> bool \<Rightarrow> signature_type" where
  "private_key_signature_type AptosChain is_kms = (if is_kms then Ecdsa else Ed25519)"
| "private_key_signature_type SolanaChain is_kms = (if is_kms then Ecdsa else Ed25519)"
| "private_key_signature_type SuiChain is_kms = (if is_kms then Ecdsa else Ed25519)"
| "private_key_signature_type TonChain is_kms = (if is_kms then Ecdsa else Ed25519)"
| "private_key_signature_type _ is_kms = Ecdsa"

fun address_private_key_signature_type :: "chain_address_kind \<Rightarrow> bool \<Rightarrow> signature_type" where
  "address_private_key_signature_type AptosChain is_kms = Ecdsa"
| "address_private_key_signature_type SuiChain is_kms = Ecdsa"
| "address_private_key_signature_type chain is_kms = private_key_signature_type chain is_kms"

fun transform_recovery_id :: "chain_address_kind \<Rightarrow> bool" where
  "transform_recovery_id EvmChain = True"
| "transform_recovery_id _ = False"

fun chain_seed_kind :: "chain_address_kind \<Rightarrow> seed_kind" where
  "chain_seed_kind TonChain = TonSeed"
| "chain_seed_kind _ = Bip39"

fun prepare_data :: "external \<Rightarrow> chain_address_kind \<Rightarrow> bytes \<Rightarrow> bytes" where
  "prepare_data X EvmChain message = ethers_hash_message X message"
| "prepare_data X _ message = message"

definition solana_info_key :: "bytes \<Rightarrow> bytes" where
  "solana_info_key pk =
     (case pk of a # body \<Rightarrow> if a = 0x04 \<and> length body = 64 then body else pk | [] \<Rightarrow> pk)"

fun signer_info_public_key :: "chain_address_kind \<Rightarrow> bytes \<Rightarrow> bool \<Rightarrow> bytes" where
  "signer_info_public_key EvmChain pk is_kms = evm_signer_info_public_key pk is_kms"
| "signer_info_public_key EvmAddressChain pk is_kms = evm_signer_info_public_key pk is_kms"
| "signer_info_public_key CantonChain pk is_kms = drop 1 pk"
| "signer_info_public_key SolanaChain pk is_kms = solana_info_key pk"
| "signer_info_public_key _ pk is_kms = strip_public_key_prefix pk"

text \<open>\<open>PillarSignerAdapterKind::for_chain_type\<close>: the chain every chain type signs as.\<close>

fun kind_for_chain_type :: "chain_type \<Rightarrow> chain_address_kind" where
  "kind_for_chain_type ChainAptos = AptosChain"
| "kind_for_chain_type ChainEvm = EvmChain"
| "kind_for_chain_type ChainTron = EvmChain"
| "kind_for_chain_type ChainInitia = InitiaChain"
| "kind_for_chain_type ChainSolana = SolanaChain"
| "kind_for_chain_type ChainIotaMove = SuiChain"
| "kind_for_chain_type ChainSui = SuiChain"
| "kind_for_chain_type ChainTon = TonChain"
| "kind_for_chain_type ChainStarknet = EvmAddressChain"
| "kind_for_chain_type ChainStellar = EvmAddressChain"
| "kind_for_chain_type ChainCanton = CantonChain"

section \<open>Key Vault ids (azure/key_id.rs)\<close>

record azure_key_id =
  az_name :: string
  az_version :: "string option"

definition azure_display :: "azure_key_id \<Rightarrow> string" where
  "azure_display key =
     (case az_version key of Some version \<Rightarrow> az_name key @ ''/'' @ version | None \<Rightarrow> az_name key)"

text \<open>\<open>url_origin\<close> gives the scheme and the serialized origin of a text that parses as a URL.\<close>

definition azure_key_vault_origin :: "('s, 'k, 'p) crypto \<Rightarrow> string \<Rightarrow> string option" where
  "azure_key_vault_origin C key_id =
     (case url_origin C key_id of
        None \<Rightarrow> None
      | Some (scheme, origin) \<Rightarrow> if scheme = ''http'' \<or> scheme = ''https'' then Some origin else None)"

definition starts_with :: "string \<Rightarrow> string \<Rightarrow> bool" where
  "starts_with pre s \<longleftrightarrow> take (length pre) s = pre"

text \<open>\<open>str::split\<close> on one character and \<open>split_once\<close> on a text.\<close>

fun split_char :: "char \<Rightarrow> string \<Rightarrow> string list" where
  "split_char c [] = [[]]"
| "split_char c (x # xs) =
     (if x = c then [] # split_char c xs
      else case split_char c xs of [] \<Rightarrow> [[x]] | part # parts \<Rightarrow> (x # part) # parts)"

fun split_once :: "string \<Rightarrow> string \<Rightarrow> (string \<times> string) option" where
  "split_once sep [] = (if sep = [] then Some ([], []) else None)"
| "split_once sep (x # xs) =
     (if starts_with sep (x # xs) then Some ([], drop (length sep) (x # xs))
      else case split_once sep xs of None \<Rightarrow> None | Some (a, b) \<Rightarrow> Some (x # a, b))"

definition url_path :: "string \<Rightarrow> string" where
  "url_path url =
     (case split_once ''://'' url of
        None \<Rightarrow> []
      | Some (_, rest) \<Rightarrow> (case split_once ''/'' rest of None \<Rightarrow> [] | Some (_, path) \<Rightarrow> path))"

definition nth_part :: "nat \<Rightarrow> 'a list \<Rightarrow> 'a option" where
  "nth_part n xs = (if n < length xs then Some (xs ! n) else None)"

fun keys_position :: "string list \<Rightarrow> nat option" where
  "keys_position [] = None"
| "keys_position (s # ss) =
     (if map ascii_lower s = ''keys'' then Some 0 else map_option Suc (keys_position ss))"

definition parse_azure_kms_key_id :: "string \<Rightarrow> azure_key_id sg" where
  "parse_azure_kms_key_id key_id =
     (if \<not> starts_with ''http://'' key_id \<and> \<not> starts_with ''https://'' key_id
      then Inr \<lparr>az_name = key_id, az_version = None\<rparr>
      else
        let segments = filter (\<lambda>s. s \<noteq> []) (split_char CHR ''/'' (url_path key_id));
            invalid = Inl (SgMessage (''Invalid Azure Key Vault key id: '' @ key_id)) in
        case keys_position segments of
          None \<Rightarrow> invalid
        | Some index \<Rightarrow>
            (case nth_part (index + 1) segments of
               None \<Rightarrow> invalid
             | Some name \<Rightarrow>
                 if name = [] then invalid
                 else Inr \<lparr>az_name = name, az_version = nth_part (index + 2) segments\<rparr>))"

end
