(* ===== verification/Signer_Local.thy ===== *)
theory Signer_Local
  imports Signer_Chains
begin

text \<open>
  \<^verbatim>\<open>pillar-signer/src/local_mnemonic.rs\<close>: the seed of a mnemonic, the hardened Ed25519 derivation, the
  TON seed, and which key a request is answered with. The seeds are computed once and kept in a
  \<open>OnceLock\<close>; they are functions of the mnemonic, so the model computes them at every use. Signing, which
  also writes evidence, is in \<open>Signer_Adapters\<close>.
\<close>

definition invalid_path :: "'a sg" where
  "invalid_path = Inl (SgMessage ''Invalid derivation path'')"

definition is_ascii_digit :: "char \<Rightarrow> bool" where
  "is_ascii_digit c = (let n = of_char c :: nat in 48 \<le> n \<and> n \<le> 57)"

definition strip_quote :: "string \<Rightarrow> string option" where
  "strip_quote segment =
     (if segment \<noteq> [] \<and> last segment = CHR 0x27 then Some (butlast segment) else None)"

definition parse_segment :: "string \<Rightarrow> nat sg" where
  "parse_segment segment =
     (case strip_quote segment of
        None \<Rightarrow> invalid_path
      | Some number \<Rightarrow>
          if number = [] \<or> \<not> list_all is_ascii_digit number then invalid_path
          else (case parse_u32 number of Inl _ \<Rightarrow> invalid_path | Inr n \<Rightarrow> Inr n))"

definition parse_hardened_ed25519_path :: "string \<Rightarrow> nat list sg" where
  "parse_hardened_ed25519_path path =
     (if \<not> starts_with ''m/'' path then invalid_path
      else let rest = drop 2 path in
        if rest = [] then invalid_path else map_res parse_segment (split_char CHR ''/'' rest))"

definition slice_to_32 :: "bytes \<Rightarrow> bytes sg" where
  "slice_to_32 bs = (if length bs = 32 then Inr bs else Inl (SgMessage ''Expected 32 bytes''))"

definition split_mac :: "bytes \<Rightarrow> (bytes \<times> bytes) sg" where
  "split_mac mac =
     and_then (slice_to_32 (take 32 mac)) (\<lambda>key.
     and_then (slice_to_32 (drop 32 mac)) (\<lambda>chain_code. Inr (key, chain_code)))"

definition hardened_index :: "nat \<Rightarrow> nat sg" where
  "hardened_index segment =
     (if segment + 0x80000000 < 2 ^ 32 then Inr (segment + 0x80000000) else invalid_path)"

fun derive_children :: "('s, 'k, 'p) crypto \<Rightarrow> bytes \<Rightarrow> bytes \<Rightarrow> nat list \<Rightarrow> bytes sg" where
  "derive_children C key chain_code [] = Inr key"
| "derive_children C key chain_code (segment # segments) =
     and_then (hardened_index segment) (\<lambda>index.
     and_then (split_mac (hmac_sha512 C chain_code ([0] @ key @ u32_to_be (word_of_nat index))))
       (\<lambda>(key', chain_code'). derive_children C key' chain_code' segments))"

definition derive_ed25519_seed :: "('s, 'k, 'p) crypto \<Rightarrow> bytes \<Rightarrow> string \<Rightarrow> bytes sg" where
  "derive_ed25519_seed C seed path =
     and_then (split_mac (hmac_sha512 C (string_bytes ''ed25519 seed'') seed)) (\<lambda>(key, chain_code).
     and_then (parse_hardened_ed25519_path path) (\<lambda>segments.
       derive_children C key chain_code segments))"

definition ton_hd_seed :: "('s, 'k, 'p) crypto \<Rightarrow> string \<Rightarrow> string \<Rightarrow> bytes" where
  "ton_hd_seed C mnemonic password =
     pbkdf2_sha512 C (hmac_sha512 C (string_bytes mnemonic) (string_bytes password))
       (string_bytes ''TON HD Keys seed'') 100000"

definition bip39_seed :: "('s, 'k, 'p) crypto \<Rightarrow> local_mnemonic \<Rightarrow> bytes sg" where
  "bip39_seed C m = map_err SgMessage (bip39_seed_of C (lm_mnemonic m))"

definition seed_of_kind :: "('s, 'k, 'p) crypto \<Rightarrow> local_mnemonic \<Rightarrow> seed_kind \<Rightarrow> bytes sg" where
  "seed_of_kind C m kind =
     (case kind of
        Bip39 \<Rightarrow> bip39_seed C m
      | TonSeed \<Rightarrow> and_then (bip39_seed C m) (\<lambda>_. Inr (ton_hd_seed C (lm_mnemonic m) [])))"

definition ecdsa_signing_key :: "('s, 'k, 'p) crypto \<Rightarrow> local_mnemonic \<Rightarrow> seed_kind \<Rightarrow> 'k sg" where
  "ecdsa_signing_key C m kind =
     and_then (seed_of_kind C m kind) (\<lambda>seed.
     and_then (map_err SgMessage (path_parse C (lm_path m))) (\<lambda>path.
       map_err SgMessage (derive_key C seed path)))"

definition ed25519_seed :: "('s, 'k, 'p) crypto \<Rightarrow> local_mnemonic \<Rightarrow> seed_kind \<Rightarrow> bytes sg" where
  "ed25519_seed C m kind =
     and_then (seed_of_kind C m kind) (\<lambda>seed. derive_ed25519_seed C seed (lm_path m))"

definition ecdsa_signing_key_from_ed25519_seed ::
    "('s, 'k, 'p) crypto \<Rightarrow> local_mnemonic \<Rightarrow> seed_kind \<Rightarrow> 'k sg" where
  "ecdsa_signing_key_from_ed25519_seed C m kind =
     and_then (ed25519_seed C m kind) (\<lambda>seed. map_err SgMessage (key_from_slice C seed))"

text \<open>The secp256k1 key of a request for ECDSA: from the path of the mnemonic, or from its Ed25519 seed.\<close>

definition local_ecdsa_key ::
    "('s, 'k, 'p) crypto \<Rightarrow> local_mnemonic \<Rightarrow> signature_type \<Rightarrow> seed_kind \<Rightarrow> 'k sg" where
  "local_ecdsa_key C m private_type kind =
     (case private_type of
        Ecdsa \<Rightarrow> ecdsa_signing_key C m kind
      | Ed25519 \<Rightarrow> ecdsa_signing_key_from_ed25519_seed C m kind)"

definition bad_keypair :: "'a sg" where
  "bad_keypair =
     Inl (SgMessage ''Bad keypair generation: only mismatch allowed is Ed25519 pk -> ECDSA key pair'')"

definition local_public_key :: "('s, 'k, 'p) crypto \<Rightarrow> local_mnemonic \<Rightarrow> public_key_input \<Rightarrow> bytes sg" where
  "local_public_key C m request =
     (case (pi_signature_type request, pi_private_key_type request) of
        (Ecdsa, private_type) \<Rightarrow>
          map_ok (verifying_sec1 C) (local_ecdsa_key C m private_type (pi_seed_kind request))
      | (Ed25519, Ecdsa) \<Rightarrow> bad_keypair
      | (Ed25519, Ed25519) \<Rightarrow> map_ok (ed_public C) (ed25519_seed C m (pi_seed_kind request)))"

section \<open>Paths\<close>

definition render_segment :: "nat \<Rightarrow> string" where
  "render_segment n = show_nat n @ [CHR 0x27]"

fun render_path :: "nat list \<Rightarrow> string" where
  "render_path [] = []"
| "render_path [n] = render_segment n"
| "render_path (n # m # ns) = render_segment n @ CHR ''/'' # render_path (m # ns)"

text \<open>What a path means: decimal segments, each hardened, of any width with leading zeros.\<close>

definition hardened_segment :: "string \<Rightarrow> nat \<Rightarrow> bool" where
  "hardened_segment segment n \<longleftrightarrow>
     (\<exists>digits. segment = digits @ [CHR 0x27] \<and> digits \<noteq> [] \<and> list_all is_ascii_digit digits \<and>
        parse_u32 digits = Inr n)"

lemma to_digit10_iff_digit: "is_ascii_digit c \<longleftrightarrow> to_digit10 c \<noteq> None"
  by (simp add: is_ascii_digit_def to_digit10_def Let_def)

lemma digit_char_is_digit [simp]: "d < 10 \<Longrightarrow> is_ascii_digit (digit_char d)"
  by (simp add: to_digit10_iff_digit to_digit10_digit_char)

lemma show_nat_digits: "list_all is_ascii_digit (show_nat n)"
proof (induction n rule: show_nat.induct)
  case (1 n)
  then show ?case by (cases "n < 10") (simp_all add: show_nat.simps [of n])
qed

lemma strip_quote_eq_Some: "strip_quote segment = Some number \<longleftrightarrow> segment = number @ [CHR 0x27]"
  by (auto simp: strip_quote_def) (metis append_butlast_last_id)

lemma strip_quote_eq_None: "strip_quote segment = None \<Longrightarrow> segment \<noteq> number @ [CHR 0x27]"
  by (auto simp: strip_quote_def split: if_splits)

lemma invalid_path_neq [simp]: "invalid_path \<noteq> Inr x"
  by (simp add: invalid_path_def)

lemma parse_segment_exact: "parse_segment segment = Inr n \<longleftrightarrow> hardened_segment segment n"
proof (cases "strip_quote segment")
  case None
  then show ?thesis by (simp add: parse_segment_def hardened_segment_def strip_quote_eq_None)
next
  case (Some number)
  then have "segment = number @ [CHR 0x27]" by (simp add: strip_quote_eq_Some)
  with Some show ?thesis
    by (cases "parse_u32 number") (auto simp: parse_segment_def hardened_segment_def)
qed

lemma parse_render_segment: "n < 2 ^ 32 \<Longrightarrow> parse_segment (render_segment n) = Inr n"
  by (simp add: parse_segment_exact hardened_segment_def render_segment_def show_nat_digits parse_u32_show)

lemma split_char_free: "c \<notin> set s \<Longrightarrow> split_char c s = [s]"
  by (induction s) auto

lemma split_char_join: "c \<notin> set s \<Longrightarrow> split_char c (s @ c # t) = s # split_char c t"
  by (induction s) auto

lemma render_segment_free: "CHR ''/'' \<notin> set (render_segment n)"
proof -
  have "\<not> is_ascii_digit CHR ''/''" by (simp add: is_ascii_digit_def)
  then have "CHR ''/'' \<notin> set (show_nat n)" using show_nat_digits [of n] by (auto simp: list_all_iff)
  then show ?thesis by (simp add: render_segment_def)
qed

lemma split_render_path: "ns \<noteq> [] \<Longrightarrow> split_char CHR ''/'' (render_path ns) = map render_segment ns"
  by (induction ns rule: render_path.induct)
    (simp_all add: split_char_free split_char_join render_segment_free)

lemma render_path_not_Nil: "ns \<noteq> [] \<Longrightarrow> render_path ns \<noteq> []"
  by (cases ns rule: render_path.cases) (simp_all add: render_segment_def)

lemma starts_with_append: "starts_with pre (pre @ s)"
  by (simp add: starts_with_def)

lemma parse_render_path:
  assumes "ns \<noteq> []" and "\<forall>n \<in> set ns. n < 2 ^ 32"
  shows "parse_hardened_ed25519_path (''m/'' @ render_path ns) = Inr ns"
proof -
  have "map_res parse_segment (map render_segment ns) = Inr ns"
    using assms(2) by (simp add: map_res_eq_Inr list_all2_map1 list_all2_same parse_render_segment)
  with assms(1) show ?thesis
    using starts_with_append [of "''m/''" "render_path ns"]
    by (simp add: parse_hardened_ed25519_path_def render_path_not_Nil split_render_path)
qed

section \<open>Derivation\<close>

text \<open>HMAC-SHA512 gives 64 bytes.\<close>

definition mac_ok :: "('s, 'k, 'p) crypto \<Rightarrow> bool" where
  "mac_ok C \<longleftrightarrow> (\<forall>key message. length (hmac_sha512 C key message) = 64)"

lemma split_mac_ok: "length mac = 64 \<Longrightarrow> split_mac mac = Inr (take 32 mac, drop 32 mac)"
  by (simp add: split_mac_def slice_to_32_def)

text \<open>SLIP-10: the child of a hardened index, on 64-byte nodes.\<close>

definition slip10_child :: "('s, 'k, 'p) crypto \<Rightarrow> bytes \<Rightarrow> nat \<Rightarrow> bytes" where
  "slip10_child C node segment =
     hmac_sha512 C (drop 32 node) ([0] @ take 32 node @ u32_to_be (word_of_nat (2 ^ 31 + segment)))"

definition slip10_key :: "('s, 'k, 'p) crypto \<Rightarrow> bytes \<Rightarrow> nat list \<Rightarrow> bytes" where
  "slip10_key C seed segments =
     take 32 (foldl (slip10_child C) (hmac_sha512 C (string_bytes ''ed25519 seed'') seed) segments)"

lemma derive_children_exact:
  assumes "mac_ok C"
  shows "derive_children C (take 32 node) (drop 32 node) segments = Inr key \<longleftrightarrow>
    (\<forall>n \<in> set segments. n < 2 ^ 31) \<and> key = take 32 (foldl (slip10_child C) node segments)"
proof (induction segments arbitrary: node)
  case Nil
  then show ?case by auto
next
  case (Cons n segments)
  have child: "length (slip10_child C node n) = 64"
    using assms by (simp add: mac_ok_def slip10_child_def)
  show ?case
  proof (cases "n < 2 ^ 31")
    case True
    then have "hardened_index n = Inr (2 ^ 31 + n)" by (simp add: hardened_index_def add.commute)
    with True Cons [of "slip10_child C node n"] split_mac_ok [OF child] show ?thesis
      by (simp add: slip10_child_def)
  next
    case False
    then have "hardened_index n = invalid_path" by (simp add: hardened_index_def)
    with False show ?thesis by (auto simp: invalid_path_def)
  qed
qed

lemma derive_ed25519_seed_Inr:
  assumes "mac_ok C"
  shows "derive_ed25519_seed C seed path = Inr key \<longleftrightarrow>
    (\<exists>segments. parse_hardened_ed25519_path path = Inr segments \<and>
       (\<forall>n \<in> set segments. n < 2 ^ 31) \<and> key = slip10_key C seed segments)"
proof -
  have "length (hmac_sha512 C (string_bytes ''ed25519 seed'') seed) = 64"
    using assms by (simp add: mac_ok_def)
  then show ?thesis
    using derive_children_exact [OF assms]
    by (simp add: derive_ed25519_seed_def split_mac_ok slip10_key_def res_simps)
qed

text \<open>
  The Ed25519 derivation of a local mnemonic is SLIP-10 on exactly the hardened paths. A key is derived
  precisely when the path is \<open>m/\<close> followed by one or more \<open>/\<close>-separated segments, each a decimal number
  below \<open>2^31\<close> with a closing quote (so adding the hardened bit never overflows), and the key is
  then the left half of the SLIP-10 node of those indices.
\<close>
lemma ed25519_seed_is_slip10:
  assumes "mac_ok C"
  shows "derive_ed25519_seed C seed path = Inr key \<longleftrightarrow>
    (\<exists>parts segments. path = ''m/'' @ parts \<and> parts \<noteq> [] \<and>
       list_all2 hardened_segment (split_char CHR ''/'' parts) segments \<and>
       list_all (\<lambda>n. n < 2 ^ 31) segments \<and> key = slip10_key C seed segments)"
proof -
  have path: "parse_hardened_ed25519_path path = Inr segments \<longleftrightarrow>
      (\<exists>parts. path = ''m/'' @ parts \<and> parts \<noteq> [] \<and>
         list_all2 hardened_segment (split_char CHR ''/'' parts) segments)" for segments
  proof (cases "starts_with ''m/'' path")
    case True
    then have "path = ''m/'' @ drop 2 path"
      unfolding starts_with_def by (metis append_take_drop_id list.size(3) list.size(4) One_nat_def Suc_1 add_Suc_right add_0_right)
    then obtain rest where rest: "path = ''m/'' @ rest" by blast
    then show ?thesis
      using True by (auto simp: parse_hardened_ed25519_path_def map_res_eq_Inr parse_segment_exact)
  next
    case False
    then have "\<And>parts. path \<noteq> ''m/'' @ parts" by (auto simp: starts_with_def)
    with False show ?thesis by (simp add: parse_hardened_ed25519_path_def)
  qed
  show ?thesis
    by (subst derive_ed25519_seed_Inr [OF assms]) (auto simp: path list_all_iff)
qed

end
