(* ===== verification/Signer_Laws.thy ===== *)
theory Signer_Laws
  imports Signer_Local
begin

text \<open>
  Laws of the pure parts of \<^verbatim>\<open>pillar-signer\<close>: which recoverable signature a KMS answer becomes, the
  EIP-55 address of a public key in any of the forms the providers give it, and the Key Vault ids.
\<close>

section \<open>Recoverable signatures\<close>

definition recovers :: "('s, 'k, 'p) crypto \<Rightarrow> 's \<Rightarrow> bytes \<Rightarrow> bytes \<Rightarrow> nat \<Rightarrow> bool" where
  "recovers C s digest expected i \<longleftrightarrow>
     (\<exists>point. recover_sec1 C digest s i = Some point \<and> drop 1 point = expected)"

lemma search_recovery_id_Inr:
  "search_recovery_id C s digest expected [n..<m] = Inr i \<longleftrightarrow>
     n \<le> i \<and> i < m \<and> recovers C s digest expected i \<and> (\<forall>j \<in> {n..<i}. \<not> recovers C s digest expected j)"
proof (induction "m - n" arbitrary: n)
  case 0
  then show ?case by auto
next
  case (Suc d)
  then have n: "[n..<m] = n # [Suc n..<m]" "d = m - Suc n" "n < m"
    by (auto simp: upt_conv_Cons)
  have step: "search_recovery_id C s digest expected [n..<m] =
      (if recovers C s digest expected n then Inr n
       else search_recovery_id C s digest expected [Suc n..<m])"
    unfolding n(1) by (auto simp: recovers_def split: option.splits)
  show ?case
  proof (cases "recovers C s digest expected n")
    case True
    then show ?thesis using n(3) by (auto simp: step not_less_eq_eq le_less_Suc_eq intro: le_antisym)
  next
    case False
    then have "(\<forall>j \<in> {n..<i}. \<not> recovers C s digest expected j) \<longleftrightarrow>
        (\<forall>j \<in> {Suc n..<i}. \<not> recovers C s digest expected j)"
      by (metis Suc_leD Suc_leI atLeastLessThan_iff le_neq_implies_less)
    moreover have "n \<le> i \<and> recovers C s digest expected i \<longleftrightarrow> Suc n \<le> i \<and> recovers C s digest expected i"
      using False by (metis Suc_leD Suc_leI le_neq_implies_less)
    ultimately show ?thesis using False Suc.hyps(1) [OF n(2)] by (auto simp: step)
  qed
qed

text \<open>
  The recoverable form of a signature under an encoding: its normalised \<open>r || s\<close>, and the least recovery
  id that gives the expected key, shifted by 27 for an Ethereum signature, which has only the ids 0 and 1.
\<close>

definition recoverable_form ::
    "('s, 'k, 'p) crypto \<Rightarrow> kms_encoding \<Rightarrow> bytes \<Rightarrow> bytes \<Rightarrow> bytes \<Rightarrow> bool \<Rightarrow> bytes \<Rightarrow> bool" where
  "recoverable_form C encoding sig digest pk transform out \<longleftrightarrow>
     (\<exists>parsed expected i.
        parse_signature C encoding sig = Inr parsed \<and>
        (pk = 0x04 # expected \<and> length expected = 64 \<or> pk = expected \<and> length expected = 64) \<and>
        i < (if transform then 2 else 4) \<and>
        recovers C (sig_normalize C parsed) digest expected i \<and>
        (\<forall>j < i. \<not> recovers C (sig_normalize C parsed) digest expected j) \<and>
        out = sig_to_bytes C (sig_normalize C parsed) @ [word_of_nat (if transform then i + 27 else i)])"

lemma raw_ecdsa_public_key_Inr:
  "raw_ecdsa_public_key pk = Inr body \<longleftrightarrow>
     length body = 64 \<and> (pk = 0x04 # body \<or> pk = body)"
proof (cases pk)
  case Nil
  then show ?thesis by (auto simp: raw_ecdsa_public_key_def)
next
  case (Cons a rest)
  then show ?thesis by (auto simp: raw_ecdsa_public_key_def)
qed

lemma recovery_id_byte_Inr:
  "recovery_id_byte i transform = Inr b \<longleftrightarrow> (transform \<longrightarrow> i < 2) \<and> b = (if transform then i + 27 else i)"
  by (auto simp: recovery_id_byte_def)

lemma search_ids: "search_recovery_id C s digest expected [0, 1, 2, 3] = Inr i \<longleftrightarrow>
    i < 4 \<and> recovers C s digest expected i \<and> (\<forall>j < i. \<not> recovers C s digest expected j)"
proof -
  have "[0, 1, 2, 3] = [0..<4]" by (simp add: upt_rec)
  then show ?thesis by (simp only: search_recovery_id_Inr) auto
qed

lemma recover_ecdsa_recovery_id_Inr:
  "recover_ecdsa_recovery_id C s digest pk = Inr i \<longleftrightarrow>
     (\<exists>expected. length expected = 64 \<and> (pk = 0x04 # expected \<or> pk = expected) \<and>
        i < 4 \<and> recovers C s digest expected i \<and> (\<forall>j < i. \<not> recovers C s digest expected j))"
  unfolding recover_ecdsa_recovery_id_def and_then_eq_Inr raw_ecdsa_public_key_Inr search_ids by blast

lemma kms_recoverable_exact:
  "kms_ecdsa_signature_to_recoverable C sig encoding digest pk transform = Inr out \<longleftrightarrow>
     recoverable_form C encoding sig digest pk transform out"
proof
  assume "kms_ecdsa_signature_to_recoverable C sig encoding digest pk transform = Inr out"
  then obtain parsed i b where step: "parse_signature C encoding sig = Inr parsed"
      "recover_ecdsa_recovery_id C (sig_normalize C parsed) digest pk = Inr i"
      "recovery_id_byte i transform = Inr b"
      "out = sig_to_bytes C (sig_normalize C parsed) @ [word_of_nat b]"
    unfolding kms_ecdsa_signature_to_recoverable_def Let_def and_then_eq_Inr by blast
  have "i < 4" using step(2) unfolding recover_ecdsa_recovery_id_Inr by blast
  then have "i < (if transform then 2 else 4)" "b = (if transform then i + 27 else i)"
    using step(3) by (simp_all add: recovery_id_byte_Inr)
  with step(1,2,4) show "recoverable_form C encoding sig digest pk transform out"
    unfolding recover_ecdsa_recovery_id_Inr recoverable_form_def by blast
next
  assume "recoverable_form C encoding sig digest pk transform out"
  then obtain parsed expected i where form: "parse_signature C encoding sig = Inr parsed"
      "pk = 0x04 # expected \<and> length expected = 64 \<or> pk = expected \<and> length expected = 64"
      "i < (if transform then 2 else 4)" "recovers C (sig_normalize C parsed) digest expected i"
      "\<forall>j < i. \<not> recovers C (sig_normalize C parsed) digest expected j"
      "out = sig_to_bytes C (sig_normalize C parsed) @ [word_of_nat (if transform then i + 27 else i)]"
    unfolding recoverable_form_def by blast
  have "i < 4" using form(3) by (simp split: if_splits)
  with form(2,4,5) have "recover_ecdsa_recovery_id C (sig_normalize C parsed) digest pk = Inr i"
    unfolding recover_ecdsa_recovery_id_Inr by blast
  moreover have "recovery_id_byte i transform = Inr (if transform then i + 27 else i)"
    using form(3) by (simp add: recovery_id_byte_Inr split: if_splits)
  ultimately show "kms_ecdsa_signature_to_recoverable C sig encoding digest pk transform = Inr out"
    using form(1,6) by (simp add: kms_ecdsa_signature_to_recoverable_def)
qed

text \<open>
  A KMS signature of unknown encoding becomes exactly the recoverable form of one reading of it. The raw
  reading of a 64-byte signature is taken when it recovers the expected key, the DER reading in every
  other case; the result carries the normalised \<open>r || s\<close> and the least recovery id whose recovered point
  is the expected public key (27 or 28 for an Ethereum signature, 0 to 3 otherwise), and there is an error
  precisely when that reading has no such id.
\<close>
theorem kms_signature_exact:
  "kms_signature_of_either_encoding C sig digest pk transform = Inr out \<longleftrightarrow>
     (if length sig = 64 \<and> (\<exists>r. recoverable_form C RawForm sig digest pk transform r)
      then recoverable_form C RawForm sig digest pk transform out
      else recoverable_form C Der sig digest pk transform out)"
proof (cases "kms_ecdsa_signature_to_recoverable C sig RawForm digest pk transform")
  case (Inl e)
  then have "\<nexists>r. recoverable_form C RawForm sig digest pk transform r"
    unfolding kms_recoverable_exact [symmetric] by simp
  moreover have "kms_signature_of_either_encoding C sig digest pk transform =
      kms_ecdsa_signature_to_recoverable C sig Der digest pk transform"
    by (simp add: kms_signature_of_either_encoding_def Inl Let_def)
  ultimately show ?thesis by (simp only: kms_recoverable_exact simp_thms if_False)
next
  case (Inr recovered)
  then have raw: "recoverable_form C RawForm sig digest pk transform r \<longleftrightarrow> r = recovered" for r
    unfolding kms_recoverable_exact [symmetric] by auto
  show ?thesis
  proof (cases "length sig = 64")
    case True
    then show ?thesis by (auto simp: kms_signature_of_either_encoding_def Inr raw)
  next
    case False
    then have "kms_signature_of_either_encoding C sig digest pk transform =
        kms_ecdsa_signature_to_recoverable C sig Der digest pk transform"
      by (simp add: kms_signature_of_either_encoding_def)
    with False show ?thesis by (simp only: kms_recoverable_exact simp_thms if_False)
  qed
qed

section \<open>Addresses\<close>

lemma bytes_to_hex_length [simp]: "length (bytes_to_hex bs) = 2 * length bs"
  by (induction bs) auto

lemma bytes_to_hex_nth:
  "i < 2 * length bs \<Longrightarrow>
   bytes_to_hex bs ! i =
     hex_digit (if even i then unat (bs ! (i div 2)) div 16 else unat (bs ! (i div 2)) mod 16)"
proof (induction bs arbitrary: i)
  case (Cons b bs)
  show ?case
  proof (cases "i < 2")
    case True
    then have "i = 0 \<or> i = 1" by auto
    then show ?thesis by auto
  next
    case False
    then obtain j where j: "i = j + 2" by (metis add.commute le_Suc_ex linorder_not_less)
    with Cons.prems Cons.IH [of j] show ?thesis by simp
  qed
qed simp

lemma checksum_nibble_value:
  "unat (checksum_nibble hash i) =
     (if even i then unat (hash ! (i div 2)) div 16 else unat (hash ! (i div 2)) mod 16)"
proof -
  have low: "unat (b AND 0x0f) = unat b mod 16" for b :: byte
  proof -
    have "b AND 0x0f = take_bit 4 b" by (simp add: take_bit_eq_mask mask_eq_exp_minus_1)
    then have "unat (b AND 0x0f) = take_bit 4 (unat b)" by (simp only: unsigned_take_bit_eq)
    then show ?thesis by (simp add: take_bit_eq_mod)
  qed
  have "unat (drop_bit 4 b AND 0x0f) = unat b div 16" for b :: byte
  proof -
    have "unat (drop_bit 4 b) = drop_bit 4 (unat b)" by (rule unat_drop_bit_eq)
    then have "unat (drop_bit 4 b) = unat b div 16" by (simp only: drop_bit_eq_div) simp
    moreover have "unat b div 16 < 16" using unat_byte_less [of b] by (simp add: less_mult_imp_div_less)
    ultimately show ?thesis by (simp only: low mod_less)
  qed
  with low show ?thesis by (simp add: checksum_nibble_def Let_def)
qed

lemma hex_digit_high: "d < 16 \<Longrightarrow> hex_digit d \<in> set ''89abcdef'' \<longleftrightarrow> 8 \<le> d"
proof -
  have "\<forall>d \<in> set [0..<16]. hex_digit d \<in> set ''89abcdef'' \<longleftrightarrow> 8 \<le> d" by code_simp
  then show "d < 16 \<Longrightarrow> hex_digit d \<in> set ''89abcdef'' \<longleftrightarrow> 8 \<le> d" by simp
qed

text \<open>
  EIP-55: the lower-case digits of an address, a letter in upper case where the digest of that text has
  a hexadecimal digit from 8 on.
\<close>

definition eip55 :: "string \<Rightarrow> string \<Rightarrow> string" where
  "eip55 lower digest =
     ''0x'' @ map2 (\<lambda>c h. if is_hex_letter c \<and> h \<in> set ''89abcdef'' then ascii_upper c else c) lower digest"

lemma checksum_char_eip55:
  assumes "i < 2 * length hash"
  shows "checksum_char hash i c =
    (if is_hex_letter c \<and> bytes_to_hex hash ! i \<in> set ''89abcdef'' then ascii_upper c else c)"
proof -
  have "unat (checksum_nibble hash i) < 16"
    using unat_byte_less [of "hash ! (i div 2)"] by (simp add: checksum_nibble_value less_mult_imp_div_less)
  then have "bytes_to_hex hash ! i \<in> set ''89abcdef'' \<longleftrightarrow> 8 \<le> unat (checksum_nibble hash i)"
    unfolding bytes_to_hex_nth [OF assms] checksum_nibble_value [symmetric] by (rule hex_digit_high)
  then have "bytes_to_hex hash ! i \<in> set ''89abcdef'' \<longleftrightarrow> 8 \<le> checksum_nibble hash i"
    by (simp add: word_le_nat_alt)
  then show ?thesis by (simp add: checksum_char_def)
qed

lemma checksum_eip55:
  assumes "digest_ok X" and "length address \<le> 32"
  shows "to_checksum_address X address =
    eip55 (bytes_to_hex address) (bytes_to_hex (keccak256 X (string_bytes (bytes_to_hex address))))"
proof -
  let ?lower = "bytes_to_hex address"
  let ?hash = "keccak256 X (string_bytes ?lower)"
  have "length ?hash = 32" using digest_okD(1) [OF assms(1)] .
  then have "map (\<lambda>(i, c). checksum_char ?hash i c) (zip [0..<length ?lower] ?lower) =
      map2 (\<lambda>c h. if is_hex_letter c \<and> h \<in> set ''89abcdef'' then ascii_upper c else c) ?lower (bytes_to_hex ?hash)"
    using assms(2) by (intro nth_equalityI) (auto simp: checksum_char_eip55)
  then show ?thesis by (simp add: to_checksum_address_def eip55_def Let_def)
qed

lemma evm_public_key_body_Inr:
  "evm_public_key_body pk = Inr body \<longleftrightarrow>
     length body = 64 \<and> pk \<in> {body, 0x04 # body, 0x04 # 0xca # body}"
proof (cases "evm_tagged_body pk")
  case None
  then have "\<not> (length body = 64 \<and> pk = 0x04 # 0xca # body)" by auto
  with None show ?thesis by (auto simp: evm_public_key_body_def raw_ecdsa_public_key_Inr)
next
  case (Some tagged)
  then have "pk = 0x04 # 0xca # tagged" "length tagged = 64"
    by (cases pk rule: evm_tagged_body.cases; simp split: if_splits)+
  with Some show ?thesis by (auto simp: evm_public_key_body_def)
qed

text \<open>
  The EVM address of a signer is the EIP-55 text of the last 20 bytes of the Keccak digest of the 64-byte
  point, whatever form the provider gives the key in: the bare point, the SEC1 form with its \<open>04\<close>, or the
  form with \<open>04 ca\<close> in front. Any other key is refused.
\<close>
lemma evm_address_exact:
  assumes "digest_ok X"
  shows "evm_address_from_public_key X pk = Inr a \<longleftrightarrow>
    (\<exists>body lower. length body = 64 \<and> pk \<in> {body, 0x04 # body, 0x04 # 0xca # body} \<and>
       lower = bytes_to_hex (drop 12 (keccak256 X body)) \<and>
       a = eip55 lower (bytes_to_hex (keccak256 X (string_bytes lower))))"
proof -
  have "to_checksum_address X (drop 12 (keccak256 X body)) =
      (let lower = bytes_to_hex (drop 12 (keccak256 X body)) in
       eip55 lower (bytes_to_hex (keccak256 X (string_bytes lower))))" for body
    using assms by (simp add: checksum_eip55 digest_okD Let_def)
  then show ?thesis
    by (auto simp: evm_address_from_public_key_def res_simps evm_public_key_body_Inr Let_def)
qed

end
