(* ===== verification/Signing_Audit.thy ===== *)
theory Signing_Audit
  imports Signer_Types Fair_Budget Sign_Workflow
begin

text \<open>
  \<^verbatim>\<open>pillar-core/src/audit.rs\<close> and \<^verbatim>\<open>pillar-signer/src/effects.rs\<close>: the durable evidence of signing. A
  wallet signs inside a scope; every external signature is announced to the audit store before it is asked
  for, and what became of it is recorded afterwards.

  The state is the history of what was done, newest first, and the attempts of the wallet scope. What the
  surroundings answer (the store, the admission budget, the external signer, the deadline, the caller that
  may go away) is the record \<open>audit_world\<close>, read at the length of the history, so a property holds for
  every sequence of answers. \<open>Signing_Evidence\<close> states the contract and proves it of these operations.
\<close>

section \<open>Evidence (audit.rs)\<close>

definition fingerprint :: "external \<Rightarrow> bytes \<Rightarrow> string" where
  "fingerprint X bs = hex_encode X (keccak256 X bs)"

record validated_intent =
  vi_request_hash :: string
  vi_validation_hash :: string
  vi_source_chain :: string
  vi_destination_chain :: string
  vi_expiration :: int
  vi_provider_generation :: nat

record effective_key =
  ek_backend :: string
  ek_reference :: string
  ek_version :: string
  ek_public_key_hash :: string

record attempt_intent =
  at_validated :: validated_intent
  at_key :: effective_key
  at_wallet_hash :: string
  at_signed_digest :: string
  at_algorithm :: string

datatype evidence_kind = ExternalReturned | OutcomeUnknown | WalletReturned

fun evidence_str :: "evidence_kind \<Rightarrow> string" where
  "evidence_str ExternalReturned = ''external_returned''"
| "evidence_str OutcomeUnknown = ''outcome_unknown''"
| "evidence_str WalletReturned = ''wallet_returned''"

section \<open>Scopes\<close>

text \<open>The task locals \<open>ROOT\<close>, \<open>INTENT\<close>, \<open>WALLET\<close> and \<open>EFFECT_GENERATION\<close>.\<close>

record audit_root =
  ar_store :: bool
  ar_workers :: bool
  ar_generation :: nat

record wallet_scope =
  ws_intent :: validated_intent
  ws_wallet_hash :: string

record audit_locals =
  al_root :: "audit_root option"
  al_intent :: "validated_intent option"
  al_wallet :: "wallet_scope option"
  al_effect_generation :: "nat option"

definition audit_enabled :: "audit_locals \<Rightarrow> bool" where
  "audit_enabled L \<longleftrightarrow>
     (case al_root L of Some root \<Rightarrow> ar_store root | None \<Rightarrow> False) \<or> al_effect_generation L \<noteq> None"

definition provider_generation :: "audit_locals \<Rightarrow> nat" where
  "provider_generation L =
     (case al_root L of
        Some root \<Rightarrow> ar_generation root
      | None \<Rightarrow> (case al_effect_generation L of Some generation \<Rightarrow> generation | None \<Rightarrow> 0))"

definition scope_root :: "bool \<Rightarrow> bool \<Rightarrow> nat \<Rightarrow> audit_locals \<Rightarrow> audit_locals" where
  "scope_root store workers generation L =
     L\<lparr>al_root := Some \<lparr>ar_store = store, ar_workers = workers, ar_generation = generation\<rparr>\<rparr>"

definition current_workers :: "audit_locals \<Rightarrow> string + unit" where
  "current_workers L =
     (case al_root L of
        Some root \<Rightarrow> if ar_workers root then Inr ()
                     else Inl ''durable audit: completion worker ownership unavailable''
      | None \<Rightarrow> Inl ''durable audit: completion worker ownership unavailable'')"

definition scope_intent :: "validated_intent \<Rightarrow> audit_locals \<Rightarrow> audit_locals" where
  "scope_intent intent L =
     (case al_root L of
        Some root \<Rightarrow> if ar_store root then L\<lparr>al_intent := Some intent\<rparr> else L
      | None \<Rightarrow> L)"

definition scope_prepared :: "validated_intent option \<Rightarrow> audit_locals \<Rightarrow> audit_locals" where
  "scope_prepared intent L = (case intent of Some i \<Rightarrow> scope_intent i L | None \<Rightarrow> L)"

text \<open>
  \<open>canonical_request\<close> and \<open>canonical_validation\<close> stand for the bytes of the derived \<open>serde\<close>
  serializations, with their object keys sorted, and their failure.
\<close>

definition audit_prepare ::
    "external \<Rightarrow> (pillar_request_v2 \<Rightarrow> bytes option) \<Rightarrow>
     (lz_sent_event \<Rightarrow> source_evidence option \<Rightarrow> (string \<times> u64 \<times> string) list \<Rightarrow> string \<Rightarrow> bytes option) \<Rightarrow>
     audit_locals \<Rightarrow> pillar_request_v2 \<Rightarrow> lz_sent_event \<Rightarrow> string \<Rightarrow> validated_intent option res" where
  "audit_prepare X canonical_request canonical_validation L request event call_hash =
     (if \<not> audit_enabled L then Inr None
      else
        let failed = Internal ''durable audit: intent serialization failed'';
            pins = map (\<lambda>pin. (pin_chain_name pin, pin_block_number pin, pin_block_hash pin))
                     (ev_read_block_pins event) in
        and_then (ok_or failed (canonical_request request)) (\<lambda>request_bytes.
        and_then (ok_or failed (canonical_validation event (ev_source_evidence event) pins call_hash))
          (\<lambda>validation_bytes.
          Inr (Some \<lparr>vi_request_hash = fingerprint X request_bytes,
                     vi_validation_hash = fingerprint X validation_bytes,
                     vi_source_chain = src_chain_name (rq_pathway request),
                     vi_destination_chain = dst_chain_name (rq_pathway request),
                     vi_expiration = ctx_expiration (rq_signing_context request),
                     vi_provider_generation = provider_generation L\<rparr>))))"

section \<open>The surroundings\<close>

text \<open>A call of an external signer (or of the local key): which key, on which data, by which algorithm.\<close>

record external_call =
  xc_backend :: string
  xc_key :: string
  xc_data :: bytes
  xc_algorithm :: string

text \<open>
  A call that is never polled because the deadline has passed, one that is polled and does not answer in
  time, and one that answers.
\<close>

datatype call_outcome = Unpolled | Stalled | Answered "bytes sg"

text \<open>
  Where the caller of a completion worker is: it waits for the answer; it is gone before the worker starts,
  before the external call is first polled, while the call runs, or when the answer is sent; or it reaches
  its deadline with the answer already sent.
\<close>

datatype caller_fate =
    CallerWaits | GoneBeforeStart | GoneBeforePoll | GoneDuringCall | GoneBeforeSend | MissesAnswer

datatype audit_event =
    Acquired string "budget_error + bool"
  | PermitFinished outcome
  | Reserved bool
  | Begun attempt_intent "string + int"
  | Called external_call
  | Recorded int evidence_kind "string option" "string + unit"
  | KeyRead string

record audit_state =
  au_trace :: "audit_event list"
  au_attempts :: "(int \<times> bool) list"

text \<open>
  \<open>aw_acquire\<close> is the admission of the request's resources and says whether a permit was taken, \<open>Inr
  False\<close> when the request has no resources; \<open>aw_try_acquire\<close> has in addition \<open>None\<close> for no room now.
\<close>

record audit_world =
  aw_begin :: "attempt_intent \<Rightarrow> nat \<Rightarrow> string + int"
  aw_record :: "nat \<Rightarrow> string + unit"
  aw_acquire :: "string \<Rightarrow> nat \<Rightarrow> budget_error + bool"
  aw_try_acquire :: "string \<Rightarrow> nat \<Rightarrow> budget_error + bool option"
  aw_reserve :: "nat \<Rightarrow> bool"
  aw_call :: "external_call \<Rightarrow> nat \<Rightarrow> call_outcome"
  aw_fate :: "nat \<Rightarrow> caller_fate"
  aw_guard_runs :: "nat \<Rightarrow> bool"

type_synonym ('z, 'e, 'a) act = "'z audit_state_scheme \<Rightarrow> ('e + 'a) \<times> 'z audit_state_scheme"

definition moment :: "'z audit_state_scheme \<Rightarrow> nat" where
  "moment s = length (au_trace s)"

definition note_event :: "audit_event \<Rightarrow> 'z audit_state_scheme \<Rightarrow> 'z audit_state_scheme" where
  "note_event e s = s\<lparr>au_trace := e # au_trace s\<rparr>"

definition ret :: "'a \<Rightarrow> ('z, 'e, 'a) act" where
  "ret x s = (Inr x, s)"

definition fail :: "'e \<Rightarrow> ('z, 'e, 'a) act" where
  "fail e s = (Inl e, s)"

definition bind_act :: "('z, 'e, 'a) act \<Rightarrow> ('a \<Rightarrow> ('z, 'e, 'b) act) \<Rightarrow> ('z, 'e, 'b) act" where
  "bind_act m f s = (case m s of (Inl e, s') \<Rightarrow> (Inl e, s') | (Inr x, s') \<Rightarrow> f x s')"

definition lift_sum :: "'e + 'a \<Rightarrow> ('z, 'e, 'a) act" where
  "lift_sum r s = (r, s)"

definition map_act_err :: "('e \<Rightarrow> 'f) \<Rightarrow> ('z, 'e, 'a) act \<Rightarrow> ('z, 'f, 'a) act" where
  "map_act_err f m s = (case m s of (r, s') \<Rightarrow> (map_err f r, s'))"

section \<open>The store (audit.rs)\<close>

text \<open>\<open>store.begin\<close>, then the new attempt is pushed.\<close>

definition store_begin :: "audit_world \<Rightarrow> attempt_intent \<Rightarrow> ('z, string, int) act" where
  "store_begin W intent s =
     (let r = aw_begin W intent (moment s); s' = note_event (Begun intent r) s in
      (r, case r of Inr i \<Rightarrow> s'\<lparr>au_attempts := au_attempts s' @ [(i, False)]\<rparr> | Inl _ \<Rightarrow> s'))"

fun mark_recorded :: "int \<Rightarrow> (int \<times> bool) list \<Rightarrow> (int \<times> bool) list" where
  "mark_recorded i [] = []"
| "mark_recorded i ((j, recorded) # rest) =
     (if j = i then (j, True) # rest else (j, recorded) # mark_recorded i rest)"

text \<open>\<open>store.record\<close>, then \<open>WalletScope::recorded\<close> when it was stored.\<close>

definition store_record :: "audit_world \<Rightarrow> int \<Rightarrow> evidence_kind \<Rightarrow> string option \<Rightarrow> ('z, string, unit) act" where
  "store_record W i kind hash s =
     (let r = aw_record W (moment s); s' = note_event (Recorded i kind hash r) s in
      (r, case r of Inr _ \<Rightarrow> s'\<lparr>au_attempts := mark_recorded i (au_attempts s')\<rparr> | Inl _ \<Rightarrow> s'))"

definition open_attempts :: "(int \<times> bool) list \<Rightarrow> int list" where
  "open_attempts attempts = map fst (filter (\<lambda>(_, recorded). \<not> recorded) attempts)"

text \<open>
  \<open>AttemptGuard::drop\<close>: an unknown outcome for every open attempt, on a worker or on the runtime;
  \<open>aw_guard_runs\<close> is false when there is neither.
\<close>

definition guard_record :: "audit_world \<Rightarrow> int \<Rightarrow> 'z audit_state_scheme \<Rightarrow> 'z audit_state_scheme" where
  "guard_record W i s = note_event (Recorded i OutcomeUnknown None (aw_record W (moment s))) s"

definition attempt_guard :: "audit_world \<Rightarrow> 'z audit_state_scheme \<Rightarrow> 'z audit_state_scheme" where
  "attempt_guard W s =
     (if open_attempts (au_attempts s) = [] then s
      else if aw_guard_runs W (moment s) then fold (guard_record W) (open_attempts (au_attempts s)) s
      else s)"

definition record_returned :: "external \<Rightarrow> audit_world \<Rightarrow> int \<Rightarrow> bytes \<Rightarrow> ('z, string, unit) act" where
  "record_returned X W i signature = store_record W i ExternalReturned (Some (fingerprint X signature))"

definition record_unknown :: "audit_world \<Rightarrow> int \<Rightarrow> ('z, string, unit) act" where
  "record_unknown W i = store_record W i OutcomeUnknown None"

definition is_hex_char :: "char \<Rightarrow> bool" where
  "is_hex_char c \<longleftrightarrow> hex_value c \<noteq> None"

definition unresolved_key :: "effective_key \<Rightarrow> bytes \<Rightarrow> string \<Rightarrow> bool" where
  "unresolved_key key payload algorithm \<longleftrightarrow>
     ek_reference key = [] \<or> 4096 < length (ek_reference key) \<or>
     ek_version key = [] \<or> 512 < length (ek_version key) \<or>
     length (ek_public_key_hash key) \<noteq> 64 \<or> \<not> list_all is_hex_char (ek_public_key_hash key) \<or>
     length payload \<noteq> 32 \<or> algorithm \<notin> {''ecdsa'', ''ed25519''}"

definition begin_effect ::
    "external \<Rightarrow> audit_world \<Rightarrow> audit_locals \<Rightarrow> effective_key \<Rightarrow> bytes \<Rightarrow> string \<Rightarrow> ('z, string, int option) act" where
  "begin_effect X W L key payload algorithm =
     (if \<not> audit_enabled L then ret None
      else case al_wallet L of
        None \<Rightarrow> fail ''durable audit: external signing attempted outside validated wallet scope''
      | Some scope \<Rightarrow>
          if unresolved_key key payload algorithm
          then fail ''durable audit: unresolved effective key identity or unsupported signing input''
          else
            bind_act (store_begin W
                \<lparr>at_validated = ws_intent scope, at_key = key, at_wallet_hash = ws_wallet_hash scope,
                 at_signed_digest = hex_encode X payload, at_algorithm = algorithm\<rparr>)
              (\<lambda>i. ret (Some i)))"

fun record_all :: "audit_world \<Rightarrow> evidence_kind \<Rightarrow> string option \<Rightarrow> int list \<Rightarrow> ('z, string, unit) act" where
  "record_all W kind hash [] = ret ()"
| "record_all W kind hash (i # is) =
     bind_act (store_record W i kind hash) (\<lambda>_. record_all W kind hash is)"

definition enter_wallet :: "external \<Rightarrow> validated_intent \<Rightarrow> string \<Rightarrow> audit_locals \<Rightarrow> audit_locals" where
  "enter_wallet X intent wallet L =
     L\<lparr>al_wallet := Some \<lparr>ws_intent = intent, ws_wallet_hash = fingerprint X (string_bytes wallet)\<rparr>\<rparr>"

text \<open>The evidence of the whole wallet, for every attempt of its scope.\<close>

definition wallet_evidence ::
    "external \<Rightarrow> audit_world \<Rightarrow> signature res \<Rightarrow> ('z, app_core_error, signature) act" where
  "wallet_evidence X W result s =
     (let ids = map fst (au_attempts s) in
      case result of
        Inr signature \<Rightarrow>
          if ids = [] then fail (Internal ''durable audit: signer emitted no auditable wallet attempt'') s
          else bind_act
            (map_act_err Internal (record_all W WalletReturned
               (Some (fingerprint X (string_bytes (sig_signature signature)))) ids))
            (\<lambda>_. ret signature) s
      | Inl e \<Rightarrow>
          bind_act (map_act_err Internal (record_all W OutcomeUnknown None ids)) (\<lambda>_. fail e) s)"

definition sign_wallet ::
    "external \<Rightarrow> audit_world \<Rightarrow> audit_locals \<Rightarrow> string \<Rightarrow>
     (audit_locals \<Rightarrow> ('z, app_core_error, signature) act) \<Rightarrow> ('z, app_core_error, signature) act" where
  "sign_wallet X W L wallet future s =
     (case al_intent L of
        None \<Rightarrow> future L s
      | Some intent \<Rightarrow>
          (case future (enter_wallet X intent wallet L) (s\<lparr>au_attempts := []\<rparr>) of
             (result, s1) \<Rightarrow>
               (case wallet_evidence X W result s1 of (answer, s2) \<Rightarrow> (answer, attempt_guard W s2))))"

section \<open>Effects (effects.rs)\<close>

definition finish_permit :: "bool \<Rightarrow> outcome \<Rightarrow> 'z audit_state_scheme \<Rightarrow> 'z audit_state_scheme" where
  "finish_permit permit out s = (if permit then note_event (PermitFinished out) s else s)"

definition acquire :: "audit_world \<Rightarrow> string \<Rightarrow> ('z, signer_error, bool) act" where
  "acquire W reference s =
     (let r = aw_acquire W reference (moment s) in
      (map_err SgAdmission r, note_event (Acquired reference r) s))"

text \<open>\<open>kms_operation\<close> around a read of a key; \<open>None\<close> is the deadline.\<close>

definition kms_operation :: "audit_world \<Rightarrow> string \<Rightarrow> 'a sg option \<Rightarrow> ('z, signer_error, 'a) act" where
  "kms_operation W reference future =
     bind_act (acquire W reference) (\<lambda>permit s.
       let s1 = note_event (KeyRead reference) s in
       (case future of
          None \<Rightarrow> (Inl (SgAdmission Deadline), finish_permit permit OutTimedOut s1)
        | Some (Inl e) \<Rightarrow> (Inl e, finish_permit permit OutError s1)
        | Some (Inr x) \<Rightarrow> (Inr x, finish_permit permit OutSuccess s1)))"

definition key_identity ::
    "external \<Rightarrow> audit_locals \<Rightarrow> string \<Rightarrow> string \<Rightarrow> string \<Rightarrow> bytes \<Rightarrow> effective_key option" where
  "key_identity X L backend reference version pk =
     (if audit_enabled L
      then Some \<lparr>ek_backend = backend, ek_reference = reference, ek_version = version,
                 ek_public_key_hash = fingerprint X pk\<rparr>
      else None)"

text \<open>
  The external future under its deadline. When it is first polled the permit is marked unknown, whatever
  follows: the signature may exist.
\<close>

definition run_call :: "audit_world \<Rightarrow> bool \<Rightarrow> external_call \<Rightarrow> 'z audit_state_scheme \<Rightarrow> call_outcome \<times> 'z audit_state_scheme" where
  "run_call W permit target s =
     (let answer = aw_call W target (moment s) in
      case answer of
        Unpolled \<Rightarrow> (answer, finish_permit permit OutTimedOut s)
      | Stalled \<Rightarrow>
          (answer, finish_permit permit OutUnknown (note_event (Called target) (finish_permit permit OutUnknown s)))
      | Answered (Inl _) \<Rightarrow>
          (answer, finish_permit permit OutUnknown (note_event (Called target) (finish_permit permit OutUnknown s)))
      | Answered (Inr _) \<Rightarrow>
          (answer, finish_permit permit OutSuccess (note_event (Called target) (finish_permit permit OutUnknown s))))"

definition settle_record ::
    "external \<Rightarrow> audit_world \<Rightarrow> int option \<Rightarrow> call_outcome \<Rightarrow> ('z, signer_error, bytes) act" where
  "settle_record X W record answer =
     (case answer of
        Unpolled \<Rightarrow> fail (SgAdmission Deadline)
      | Stalled \<Rightarrow> fail (SgAdmission Deadline)
      | Answered result \<Rightarrow>
          (case record of
             None \<Rightarrow> lift_sum result
           | Some i \<Rightarrow>
               bind_act (map_act_err SgAudit
                 (case result of Inr signature \<Rightarrow> record_returned X W i signature
                  | Inl _ \<Rightarrow> record_unknown W i)) (\<lambda>_. lift_sum result)))"

definition begin_record ::
    "external \<Rightarrow> audit_world \<Rightarrow> audit_locals \<Rightarrow> bool \<Rightarrow> effective_key option \<Rightarrow> bytes \<Rightarrow> string
     \<Rightarrow> ('z, signer_error, int option) act" where
  "begin_record X W L permit identity payload algorithm s =
     (case identity of
        Some key \<Rightarrow>
          (case begin_effect X W L key payload algorithm s of
             (Inr record, s1) \<Rightarrow> (Inr record, s1)
           | (Inl e, s1) \<Rightarrow> (Inl (SgAudit e), finish_permit permit OutError s1))
      | None \<Rightarrow>
          if audit_enabled L
          then (Inl (SgAudit ''durable audit: unresolved effective key identity''), finish_permit permit OutError s)
          else (Inr None, s))"

definition run_sign ::
    "external \<Rightarrow> audit_world \<Rightarrow> audit_locals \<Rightarrow> bool \<Rightarrow> effective_key option \<Rightarrow> bytes \<Rightarrow> string \<Rightarrow> external_call
     \<Rightarrow> ('z, signer_error, bytes) act" where
  "run_sign X W L permit identity payload algorithm target =
     bind_act (begin_record X W L permit identity payload algorithm) (\<lambda>record s.
       case run_call W permit target s of (answer, s1) \<Rightarrow> settle_record X W record answer s1)"

definition owned_digest :: "bytes \<Rightarrow> bytes sg" where
  "owned_digest digest =
     (if length digest = 32 then Inr digest
      else Inl (SgAudit ''durable audit: expected a 32-byte transformed signing input''))"

text \<open>
  The completion worker of an owned effect. It runs to its end whether or not its caller still waits, and
  answers \<open>None\<close> to a caller that has gone. A worker that is stopped, at shutdown, leaves a part of this
  history.
\<close>

definition unrecorded :: "audit_world \<Rightarrow> int \<Rightarrow> 'z audit_state_scheme \<Rightarrow> 'z audit_state_scheme" where
  "unrecorded W i s = snd (record_unknown W i s)"

definition worker_result ::
    "external \<Rightarrow> audit_world \<Rightarrow> int \<Rightarrow> bool \<Rightarrow> call_outcome \<Rightarrow> ('z, signer_error, bytes) act" where
  "worker_result X W i caller_lost answer =
     (let failed = (\<lambda>e. if caller_lost then fail e
                        else bind_act (map_act_err SgAudit (record_unknown W i)) (\<lambda>_. fail e)) in
      case answer of
        Answered (Inr signature) \<Rightarrow>
          bind_act (map_act_err SgAudit (record_returned X W i signature)) (\<lambda>_. ret signature)
      | Answered (Inl e) \<Rightarrow> failed e
      | _ \<Rightarrow> failed (SgAdmission Deadline))"

text \<open>The timer of the worker is looked at after the future, so the future is always polled.\<close>

definition worker_call :: "audit_world \<Rightarrow> bool \<Rightarrow> external_call \<Rightarrow> 'z audit_state_scheme \<Rightarrow> call_outcome \<times> 'z audit_state_scheme" where
  "worker_call W permit target s =
     (aw_call W target (moment s), note_event (Called target) (finish_permit permit OutUnknown s))"

definition worker_lost :: "caller_fate \<Rightarrow> bool" where
  "worker_lost fate \<longleftrightarrow> fate = GoneBeforePoll \<or> fate = GoneDuringCall"

definition worker_runs ::
    "audit_world \<Rightarrow> int \<Rightarrow> bool \<Rightarrow> external_call \<Rightarrow> caller_fate \<Rightarrow> 'z audit_state_scheme \<Rightarrow> call_outcome \<times> 'z audit_state_scheme" where
  "worker_runs W i permit target fate s =
     (case worker_call W permit target (if fate = GoneBeforePoll then unrecorded W i s else s) of
        (answer, s1) \<Rightarrow> (answer, if fate = GoneDuringCall then unrecorded W i s1 else s1))"

definition worker_outcome :: "call_outcome \<Rightarrow> outcome" where
  "worker_outcome answer = (case answer of Answered (Inr _) \<Rightarrow> OutSuccess | _ \<Rightarrow> OutUnknown)"

definition completion_worker ::
    "external \<Rightarrow> audit_world \<Rightarrow> int \<Rightarrow> bool \<Rightarrow> external_call \<Rightarrow> 'z audit_state_scheme \<Rightarrow> bytes sg option \<times> 'z audit_state_scheme" where
  "completion_worker X W i permit target s =
     (let fate = aw_fate W (moment s) in
      if fate = GoneBeforeStart then (None, unrecorded W i s)
      else
        (case worker_runs W i permit target fate s of (answer, s1) \<Rightarrow>
        (case worker_result X W i (worker_lost fate) answer s1 of (result, s2) \<Rightarrow>
           (case fate of
              CallerWaits \<Rightarrow> (Some result, finish_permit permit (worker_outcome answer) s2)
            | MissesAnswer \<Rightarrow> (None, finish_permit permit (worker_outcome answer) s2)
            | GoneBeforeSend \<Rightarrow> (None, unrecorded W i s2)
            | _ \<Rightarrow> (None, s2)))))"

text \<open>A caller that has gone sees the deadline, the only answer it can still have.\<close>

definition sign_owned_effect ::
    "external \<Rightarrow> audit_world \<Rightarrow> audit_locals \<Rightarrow> string \<Rightarrow> effective_key option \<Rightarrow> bytes \<Rightarrow> string \<Rightarrow> external_call
     \<Rightarrow> ('z, signer_error, bytes) act" where
  "sign_owned_effect X W L reference identity payload algorithm target =
     bind_act (lift_sum (map_err SgAudit (current_workers L))) (\<lambda>_.
     bind_act (acquire W reference) (\<lambda>permit s.
       let room = aw_reserve W (moment s); s1 = note_event (Reserved room) s in
       if \<not> room then (Inl (SgAdmission Overloaded), finish_permit permit OutOverloaded s1)
       else case identity of
         None \<Rightarrow> (Inl (SgAudit ''durable audit: unresolved effective key identity''),
                  finish_permit permit OutError s1)
       | Some key \<Rightarrow>
           (case begin_effect X W L key payload algorithm s1 of
              (Inl e, s2) \<Rightarrow> (Inl (SgAudit e), finish_permit permit OutError s2)
            | (Inr None, s2) \<Rightarrow> (Inl (SgAudit ''durable audit: validated scope unavailable''),
                                 finish_permit permit OutError s2)
            | (Inr (Some i), s2) \<Rightarrow>
                (case completion_worker X W i permit target (finish_permit permit OutError s2) of
                   (Some result, s3) \<Rightarrow> (result, s3)
                 | (None, s3) \<Rightarrow> (Inl (SgAdmission Deadline), s3)))))"

definition sign_effect ::
    "external \<Rightarrow> audit_world \<Rightarrow> audit_locals \<Rightarrow> string \<Rightarrow> effective_key option \<Rightarrow> bytes \<Rightarrow> string \<Rightarrow> external_call
     \<Rightarrow> ('z, signer_error, bytes) act" where
  "sign_effect X W L reference identity payload algorithm target =
     bind_act (acquire W reference) (\<lambda>permit. run_sign X W L permit identity payload algorithm target)"

definition try_sign_effect ::
    "external \<Rightarrow> audit_world \<Rightarrow> audit_locals \<Rightarrow> string \<Rightarrow> bytes \<Rightarrow> external_call
     \<Rightarrow> ('z, signer_error, bytes option) act" where
  "try_sign_effect X W L reference payload target s =
     (let r = aw_try_acquire W reference (moment s);
          s1 = note_event (Acquired reference (map_ok (\<lambda>p. p = Some True) r)) s in
      case r of
        Inl e \<Rightarrow> (Inl (SgAdmission e), s1)
      | Inr None \<Rightarrow> (Inr None, s1)
      | Inr (Some permit) \<Rightarrow>
          bind_act (run_sign X W L permit None payload ''ecdsa'' target) (\<lambda>signature. ret (Some signature)) s1)"

definition local_begin ::
    "external \<Rightarrow> audit_world \<Rightarrow> audit_locals \<Rightarrow> bytes \<Rightarrow> bytes \<Rightarrow> string \<Rightarrow> ('z, signer_error, int option) act" where
  "local_begin X W L pk digest algorithm =
     (if \<not> audit_enabled L then ret None
      else let hash = fingerprint X pk in
        map_act_err SgAudit (begin_effect X W L
          \<lparr>ek_backend = ''local'', ek_reference = hash, ek_version = hash, ek_public_key_hash = hash\<rparr>
          digest algorithm))"

definition local_returned :: "external \<Rightarrow> audit_world \<Rightarrow> int option \<Rightarrow> bytes \<Rightarrow> ('z, signer_error, unit) act" where
  "local_returned X W record signature =
     (case record of
        None \<Rightarrow> ret ()
      | Some i \<Rightarrow> map_act_err SgAudit (record_returned X W i signature))"

end
