(* ===== verification/Signing_Evidence.thy ===== *)
theory Signing_Evidence
  imports Signing_Audit
begin

text \<open>
  The contract of the signing audit, as a step relation over the history and the attempts of a wallet
  scope, and the proof that the operations of \<open>Signing_Audit\<close> are runs of it: an external signature is
  asked for only after an attempt on the same key, digest and algorithm has been stored, evidence is
  written only about attempts that were stored, and the attempts of the scope are what the history says
  they are. This holds for every sequence of answers of the surroundings; a future dropped between two awaits
  leaves the part of such a run that was done.
\<close>

named_theorems evidence_runs \<open>operations that are runs of the audit contract\<close>

section \<open>The contract\<close>

text \<open>
  An attempt covers a call when it names the key (by its reference, or by a name and the version), the
  digest and the algorithm of the call.
\<close>

definition names_key :: "effective_key \<Rightarrow> external_call \<Rightarrow> bool" where
  "names_key key target \<longleftrightarrow>
     ek_backend key = xc_backend target \<and>
     (ek_reference key = xc_key target \<or> (\<exists>name. xc_key target = name @ ''/'' @ ek_version key))"

definition attempt_covers :: "external \<Rightarrow> wallet_scope option \<Rightarrow> attempt_intent \<Rightarrow> external_call \<Rightarrow> bool" where
  "attempt_covers X scope i target \<longleftrightarrow>
     scope = Some \<lparr>ws_intent = at_validated i, ws_wallet_hash = at_wallet_hash i\<rparr> \<and>
     names_key (at_key i) target \<and> length (xc_data target) = 32 \<and>
     at_signed_digest i = hex_encode X (xc_data target) \<and> at_algorithm i = xc_algorithm target"

definition covered :: "external \<Rightarrow> wallet_scope option \<Rightarrow> external_call \<Rightarrow> audit_event list \<Rightarrow> bool" where
  "covered X scope target trace \<longleftrightarrow> (\<exists>i a. Begun i (Inr a) \<in> set trace \<and> attempt_covers X scope i target)"

fun quiet :: "audit_event \<Rightarrow> bool" where
  "quiet (Acquired _ _) = True"
| "quiet (PermitFinished _) = True"
| "quiet (Reserved _) = True"
| "quiet (KeyRead _) = True"
| "quiet _ = False"

inductive evidence_step :: "external \<Rightarrow> audit_locals \<Rightarrow> 'z audit_state_scheme \<Rightarrow> 'z audit_state_scheme \<Rightarrow> bool"
  for X :: external and L :: audit_locals where
  quiet: "quiet e \<Longrightarrow> evidence_step X L s (note_event e s)"
| begun: "audit_enabled L \<Longrightarrow>
    evidence_step X L s (s\<lparr>au_trace := Begun i (Inr a) # au_trace s, au_attempts := au_attempts s @ [(a, False)]\<rparr>)"
| refused: "audit_enabled L \<Longrightarrow> evidence_step X L s (note_event (Begun i (Inl e)) s)"
| called: "audit_enabled L \<longrightarrow> covered X (al_wallet L) target (au_trace s) \<Longrightarrow>
    evidence_step X L s (note_event (Called target) s)"
| stored: "a \<in> fst ` set (au_attempts s) \<Longrightarrow>
    evidence_step X L s (s\<lparr>au_trace := Recorded a kind hash (Inr ()) # au_trace s,
                           au_attempts := mark_recorded a (au_attempts s)\<rparr>)"
| unstored: "a \<in> fst ` set (au_attempts s) \<Longrightarrow>
    evidence_step X L s (note_event (Recorded a kind hash (Inl e)) s)"
| guarded: "a \<in> fst ` set (au_attempts s) \<Longrightarrow>
    evidence_step X L s (note_event (Recorded a OutcomeUnknown None r) s)"

abbreviation evidence_run :: "external \<Rightarrow> audit_locals \<Rightarrow> 'z audit_state_scheme \<Rightarrow> 'z audit_state_scheme \<Rightarrow> bool" where
  "evidence_run X L \<equiv> (evidence_step X L)\<^sup>*\<^sup>*"

lemma attempts_note [simp]: "au_attempts (note_event e s) = au_attempts s"
  and trace_note [simp]: "au_trace (note_event e s) = e # au_trace s"
  by (simp_all add: note_event_def)

lemma mark_recorded_ids [simp]: "map fst (mark_recorded a attempts) = map fst attempts"
  by (induction a attempts rule: mark_recorded.induct) auto

lemma mark_recorded_ids_set [simp]: "fst ` set (mark_recorded a attempts) = fst ` set attempts"
  by (metis list.set_map mark_recorded_ids)

section \<open>Invariants of the contract\<close>

text \<open>Every call in a history is covered by an attempt stored before it.\<close>

fun announced :: "external \<Rightarrow> wallet_scope option \<Rightarrow> audit_event list \<Rightarrow> bool" where
  "announced X scope [] \<longleftrightarrow> True"
| "announced X scope (Called target # trace) \<longleftrightarrow> covered X scope target trace \<and> announced X scope trace"
| "announced X scope (_ # trace) \<longleftrightarrow> announced X scope trace"

lemma announced_quiet [simp]: "\<forall>target. e \<noteq> Called target \<Longrightarrow> announced X scope (e # trace) = announced X scope trace"
  by (cases e) auto

lemma quiet_not_called [simp]: "quiet e \<Longrightarrow> e \<noteq> Called target"
  by auto

lemma step_announced:
  assumes "evidence_step X L s s'" and "audit_enabled L" and "announced X (al_wallet L) (au_trace s)"
  shows "announced X (al_wallet L) (au_trace s')"
  using assms by (induction rule: evidence_step.induct) auto

lemma run_announced:
  assumes "evidence_run X L s s'" and "audit_enabled L" and "announced X (al_wallet L) (au_trace s)"
  shows "announced X (al_wallet L) (au_trace s')"
  using assms by (induction rule: rtranclp_induct) (auto dest: step_announced)

text \<open>What a history since \<open>t0\<close> says of the attempts of the scope.\<close>

fun begun_ids :: "audit_event list \<Rightarrow> int list" where
  "begun_ids [] = []"
| "begun_ids (Begun i (Inr a) # trace) = begun_ids trace @ [a]"
| "begun_ids (_ # trace) = begun_ids trace"

definition has_evidence :: "int \<Rightarrow> audit_event list \<Rightarrow> bool" where
  "has_evidence a trace \<longleftrightarrow> (\<exists>kind hash. Recorded a kind hash (Inr ()) \<in> set trace)"

definition scope_inv :: "audit_event list \<Rightarrow> 'z audit_state_scheme \<Rightarrow> bool" where
  "scope_inv t0 s \<longleftrightarrow>
     (\<exists>new. au_trace s = new @ t0 \<and> map fst (au_attempts s) = begun_ids new \<and>
        (\<forall>a. (a, True) \<in> set (au_attempts s) \<longrightarrow> has_evidence a new))"

lemma begun_ids_quiet [simp]: "\<forall>i a. e \<noteq> Begun i (Inr a) \<Longrightarrow> begun_ids (e # trace) = begun_ids trace"
proof (cases e)
  case (Begun i r)
  then show "\<forall>i a. e \<noteq> Begun i (Inr a) \<Longrightarrow> ?thesis" by (cases r) auto
qed auto

lemma begun_ids_member: "a \<in> set (begun_ids trace) \<longleftrightarrow> (\<exists>i. Begun i (Inr a) \<in> set trace)"
proof (induction trace)
  case (Cons e trace)
  then show ?case
  proof (cases e)
    case (Begun i r)
    with Cons show ?thesis by (cases r) auto
  qed auto
qed simp

lemma has_evidence_Cons: "has_evidence a trace \<Longrightarrow> has_evidence a (e # trace)"
  unfolding has_evidence_def by auto

lemma has_evidence_Recorded [simp]: "has_evidence a (Recorded a kind hash (Inr ()) # trace)"
  unfolding has_evidence_def by auto

lemma mark_recorded_evidence:
  "(b, True) \<in> set (mark_recorded a attempts) \<Longrightarrow> b = a \<or> (b, True) \<in> set attempts"
  by (induction a attempts rule: mark_recorded.induct) (auto split: if_splits)

lemma scope_inv_extend:
  assumes "scope_inv t0 s" and "au_trace s' = e # au_trace s"
    and "\<And>new. map fst (au_attempts s) = begun_ids new \<Longrightarrow> map fst (au_attempts s') = begun_ids (e # new)"
    and "\<And>a. (a, True) \<in> set (au_attempts s') \<Longrightarrow>
      (a, True) \<in> set (au_attempts s) \<or> (\<exists>kind hash. e = Recorded a kind hash (Inr ()))"
  shows "scope_inv t0 s'"
proof -
  from assms(1) obtain new where new: "au_trace s = new @ t0" "map fst (au_attempts s) = begun_ids new"
      "\<And>a. (a, True) \<in> set (au_attempts s) \<Longrightarrow> has_evidence a new"
    unfolding scope_inv_def by blast
  have "has_evidence a (e # new)" if "(a, True) \<in> set (au_attempts s')" for a
    using assms(4) [OF that] new(3) has_evidence_Cons has_evidence_Recorded by metis
  moreover have "au_trace s' = (e # new) @ t0" using assms(2) new(1) by simp
  ultimately show ?thesis using assms(3) [OF new(2)] unfolding scope_inv_def by blast
qed

lemma scope_inv_note: "scope_inv t0 s \<Longrightarrow> \<forall>i a. e \<noteq> Begun i (Inr a) \<Longrightarrow> scope_inv t0 (note_event e s)"
  by (erule scope_inv_extend [where e = e]) simp_all

lemma step_scope_inv:
  assumes "evidence_step X L s s'" and "scope_inv t0 s"
  shows "scope_inv t0 s'"
  using assms
proof (cases rule: evidence_step.cases)
  case (quiet e)
  then have "\<forall>i a. e \<noteq> Begun i (Inr a)" by auto
  with quiet assms(2) show ?thesis by (simp add: scope_inv_note)
next
  case (begun a i)
  show ?thesis by (rule scope_inv_extend [OF assms(2), of _ "Begun i (Inr a)"]) (auto simp: begun)
next
  case (stored a kind hash)
  show ?thesis
    by (rule scope_inv_extend [OF assms(2), of _ "Recorded a kind hash (Inr ())"])
      (simp_all add: stored, metis mark_recorded_evidence)
qed (use assms(2) in \<open>simp_all add: scope_inv_note\<close>)

lemma run_scope_inv: "evidence_run X L s s' \<Longrightarrow> scope_inv t0 s \<Longrightarrow> scope_inv t0 s'"
  by (induction rule: rtranclp_induct) (auto intro: step_scope_inv)

lemma scope_inv_start: "au_attempts s = [] \<Longrightarrow> scope_inv (au_trace s) s"
  unfolding scope_inv_def by (intro exI [of _ "[]"]) simp

lemma step_attempts_grow: "evidence_step X L s s' \<Longrightarrow> fst ` set (au_attempts s) \<subseteq> fst ` set (au_attempts s')"
  by (induction rule: evidence_step.induct) auto

lemma run_attempts_grow: "evidence_run X L s s' \<Longrightarrow> fst ` set (au_attempts s) \<subseteq> fst ` set (au_attempts s')"
  by (induction rule: rtranclp_induct) (use step_attempts_grow in blast)+

lemma step_trace_grows: "evidence_step X L s s' \<Longrightarrow> \<exists>new. au_trace s' = new @ au_trace s"
  by (induction rule: evidence_step.induct) auto

lemma run_trace_grows: "evidence_run X L s s' \<Longrightarrow> set (au_trace s) \<subseteq> set (au_trace s')"
  by (induction rule: rtranclp_induct) (use step_trace_grows in fastforce)+

text \<open>What is kept beside the audit state is not touched.\<close>

lemma run_more: "evidence_run X L s s' \<Longrightarrow> audit_state.more s' = audit_state.more s"
proof (induction rule: rtranclp_induct)
  case (step s' s'')
  from step.hyps(2) have "audit_state.more s'' = audit_state.more s'"
    by (induction rule: evidence_step.induct) (simp_all add: note_event_def)
  with step.IH show ?case by simp
qed simp

section \<open>The operations are runs\<close>

text \<open>For any step relation: a sequence of actions is a run when each of them is.\<close>

lemma run_bind:
  assumes "R\<^sup>*\<^sup>* s (snd (m s))"
    and "\<And>x s'. m s = (Inr x, s') \<Longrightarrow> R\<^sup>*\<^sup>* s' (snd (f x s'))"
  shows "R\<^sup>*\<^sup>* s (snd (bind_act m f s))"
proof (cases "m s")
  case (Pair r s')
  with assms show ?thesis
    by (cases r) (auto simp: bind_act_def intro: rtranclp_trans)
qed

lemma snd_map_act_err [simp]: "snd (map_act_err f m s) = snd (m s)"
  by (simp add: map_act_err_def split: prod.split)

lemma snd_units [simp]: "snd (ret x s) = s" "snd (fail e s) = s" "snd (lift_sum r s) = s"
  by (simp_all add: ret_def fail_def lift_sum_def)

lemma run_quiet [evidence_runs]: "quiet e \<Longrightarrow> evidence_run X L s (note_event e s)"
  by (blast intro: evidence_step.quiet)

lemma run_finish [evidence_runs]: "evidence_run X L s (finish_permit permit out s)"
  by (simp add: finish_permit_def run_quiet)

lemma run_acquire [evidence_runs]: "evidence_run X L s (snd (acquire W reference s))"
  by (simp add: acquire_def Let_def run_quiet)

lemma run_store_record [evidence_runs]:
  assumes "a \<in> fst ` set (au_attempts s)"
  shows "evidence_run X L s (snd (store_record W a kind hash s))"
proof (cases "aw_record W (moment s)")
  case (Inl e)
  with assms show ?thesis by (auto simp: store_record_def Let_def intro: evidence_step.unstored)
next
  case (Inr u)
  then have "snd (store_record W a kind hash s) =
      s\<lparr>au_trace := Recorded a kind hash (Inr ()) # au_trace s, au_attempts := mark_recorded a (au_attempts s)\<rparr>"
    by (simp add: store_record_def Let_def note_event_def)
  with assms show ?thesis by (auto intro: evidence_step.stored)
qed

lemma run_record_unknown: "a \<in> fst ` set (au_attempts s) \<Longrightarrow> evidence_run X L s (snd (record_unknown W a s))"
  unfolding record_unknown_def by (rule run_store_record)

lemma run_record_returned:
  "a \<in> fst ` set (au_attempts s) \<Longrightarrow> evidence_run X L s (snd (record_returned X W a signature s))"
  unfolding record_returned_def by (rule run_store_record)

lemma run_unrecorded: "a \<in> fst ` set (au_attempts s) \<Longrightarrow> evidence_run X L s (unrecorded W a s)"
  unfolding unrecorded_def by (rule run_record_unknown)

lemma store_record_attempts [simp]: "fst ` set (au_attempts (snd (store_record W a kind hash s))) = fst ` set (au_attempts s)"
  by (simp add: store_record_def Let_def split: sum.split)

lemma unrecorded_attempts [simp]: "fst ` set (au_attempts (unrecorded W a s)) = fst ` set (au_attempts s)"
  by (simp add: unrecorded_def record_unknown_def)

lemma finish_attempts [simp]: "au_attempts (finish_permit permit out s) = au_attempts s"
  by (simp add: finish_permit_def)

lemma run_record_all:
  "set is \<subseteq> fst ` set (au_attempts s) \<Longrightarrow> evidence_run X L s (snd (record_all W kind hash is s))"
proof (induction "is" arbitrary: s)
  case Nil
  then show ?case by simp
next
  case (Cons a rest)
  show ?case unfolding record_all.simps
  proof (rule run_bind)
    show "evidence_run X L s (snd (store_record W a kind hash s))"
      using Cons.prems by (simp add: run_store_record)
  next
    fix x s'
    assume "store_record W a kind hash s = (Inr x, s')"
    then have "fst ` set (au_attempts s') = fst ` set (au_attempts s)"
      by (metis snd_conv store_record_attempts)
    with Cons show "evidence_run X L s' (snd (record_all W kind hash rest s'))" by simp
  qed
qed

lemma run_guard:
  assumes "set is \<subseteq> fst ` set (au_attempts s)"
  shows "evidence_run X L s (fold (guard_record W) is s)"
  using assms
proof (induction "is" arbitrary: s)
  case (Cons a rest)
  have "evidence_run X L s (guard_record W a s)"
    using Cons.prems by (auto simp: guard_record_def intro: evidence_step.guarded)
  moreover have "evidence_run X L (guard_record W a s) (fold (guard_record W) rest (guard_record W a s))"
    using Cons.prems by (intro Cons.IH) (simp add: guard_record_def)
  ultimately show ?case by simp
qed simp

lemma open_attempts_subset: "set (open_attempts attempts) \<subseteq> fst ` set attempts"
  by (auto simp: open_attempts_def)

lemma run_attempt_guard: "evidence_run X L s (attempt_guard W s)"
  by (simp add: attempt_guard_def run_guard open_attempts_subset)

lemma run_wallet_evidence:
  fixes s :: "'z audit_state_scheme"
  shows "evidence_run X L s (snd (wallet_evidence X W result s))"
proof -
  have "evidence_run X L s (snd (bind_act (map_act_err Internal (record_all W kind hash (map fst (au_attempts s)))) f s))"
    if "\<And>x s'. snd (f x s') = s'" for kind hash and f :: "unit \<Rightarrow> ('z, app_core_error, signature) act"
    by (rule run_bind) (simp_all add: that run_record_all)
  then show ?thesis by (auto simp: wallet_evidence_def Let_def split: sum.split)
qed

text \<open>A call made for the key, the input and the algorithm an effect was announced with.\<close>

definition call_of :: "effective_key \<Rightarrow> bytes \<Rightarrow> string \<Rightarrow> external_call \<Rightarrow> bool" where
  "call_of key payload algorithm target \<longleftrightarrow>
     names_key key target \<and> xc_data target = payload \<and> xc_algorithm target = algorithm"

lemma covered_mono: "covered X scope target trace \<Longrightarrow> set trace \<subseteq> set trace' \<Longrightarrow> covered X scope target trace'"
  unfolding covered_def by blast

lemma trace_finish: "set (au_trace s) \<subseteq> set (au_trace (finish_permit permit out s))"
  by (auto simp: finish_permit_def)

lemma begin_effect_cases:
  obtains (off) "\<not> audit_enabled L" "begin_effect X W L key payload algorithm s = (Inr None, s)"
  | (refused) e where "audit_enabled L" "begin_effect X W L key payload algorithm s = (Inl e, s)"
  | (unstored) i e where "audit_enabled L"
      "begin_effect X W L key payload algorithm s = (Inl e, note_event (Begun i (Inl e)) s)"
  | (stored) i a scope where "audit_enabled L" "al_wallet L = Some scope"
      "i = \<lparr>at_validated = ws_intent scope, at_key = key, at_wallet_hash = ws_wallet_hash scope,
            at_signed_digest = hex_encode X payload, at_algorithm = algorithm\<rparr>"
      "length payload = 32"
      "begin_effect X W L key payload algorithm s =
        (Inr (Some a), s\<lparr>au_trace := Begun i (Inr a) # au_trace s, au_attempts := au_attempts s @ [(a, False)]\<rparr>)"
proof (cases "audit_enabled L")
  case False
  then show ?thesis by (intro off) (simp_all add: begin_effect_def ret_def)
next
  case on: True
  show ?thesis
  proof (cases "al_wallet L")
    case None
    with on show ?thesis by (intro refused) (simp_all add: begin_effect_def fail_def)
  next
    case (Some scope)
    show ?thesis
    proof (cases "unresolved_key key payload algorithm")
      case True
      with on Some show ?thesis by (intro refused) (simp_all add: begin_effect_def fail_def)
    next
      case False
      define i where "i = \<lparr>at_validated = ws_intent scope, at_key = key, at_wallet_hash = ws_wallet_hash scope,
            at_signed_digest = hex_encode X payload, at_algorithm = algorithm\<rparr>"
      have begin_eq: "begin_effect X W L key payload algorithm s = bind_act (store_begin W i) (\<lambda>a. ret (Some a)) s"
        using on Some False by (simp add: begin_effect_def i_def)
      show ?thesis
      proof (cases "aw_begin W i (moment s)")
        case (Inl e)
        with on begin_eq show ?thesis
          by (intro unstored) (simp_all add: bind_act_def store_begin_def Let_def)
      next
        case (Inr a)
        have "length payload = 32" using False by (simp add: unresolved_key_def)
        with on Some i_def show ?thesis
          by (rule stored) (simp add: begin_eq Inr bind_act_def store_begin_def ret_def note_event_def Let_def)
      qed
    qed
  qed
qed

lemma run_begin_effect [evidence_runs]: "evidence_run X L s (snd (begin_effect X W L key payload algorithm s))"
proof (cases X W L key payload algorithm s rule: begin_effect_cases)
  case (stored i a scope)
  then have "evidence_step X L s (snd (begin_effect X W L key payload algorithm s))"
    by (simp add: evidence_step.begun)
  then show ?thesis by blast
next
  case (unstored i e)
  then have "evidence_step X L s (snd (begin_effect X W L key payload algorithm s))"
    by (simp add: evidence_step.refused)
  then show ?thesis by blast
qed simp_all

lemma begin_effect_Some:
  assumes "begin_effect X W L key payload algorithm s = (Inr (Some a), s')"
  shows "a \<in> fst ` set (au_attempts s')"
    and "call_of key payload algorithm target \<Longrightarrow> covered X (al_wallet L) target (au_trace s')"
proof -
  from assms obtain i scope where stored: "al_wallet L = Some scope" "length payload = 32"
      "i = \<lparr>at_validated = ws_intent scope, at_key = key, at_wallet_hash = ws_wallet_hash scope,
            at_signed_digest = hex_encode X payload, at_algorithm = algorithm\<rparr>"
      "s' = s\<lparr>au_trace := Begun i (Inr a) # au_trace s, au_attempts := au_attempts s @ [(a, False)]\<rparr>"
    by (cases X W L key payload algorithm s rule: begin_effect_cases) auto
  show "a \<in> fst ` set (au_attempts s')" by (simp add: stored(4))
  assume "call_of key payload algorithm target"
  with stored have "attempt_covers X (al_wallet L) i target" by (simp add: attempt_covers_def call_of_def)
  then show "covered X (al_wallet L) target (au_trace s')" unfolding covered_def stored(4) by fastforce
qed

lemma begin_effect_None:
  "begin_effect X W L key payload algorithm s = (Inr None, s') \<Longrightarrow> \<not> audit_enabled L \<and> s' = s"
  by (cases X W L key payload algorithm s rule: begin_effect_cases) auto

lemma run_called:
  assumes "audit_enabled L \<longrightarrow> covered X (al_wallet L) target (au_trace s)"
  shows "evidence_run X L s (note_event (Called target) (finish_permit permit out s))"
proof -
  have "audit_enabled L \<longrightarrow> covered X (al_wallet L) target (au_trace (finish_permit permit out s))"
    using assms covered_mono trace_finish by blast
  then have "evidence_step X L (finish_permit permit out s) (note_event (Called target) (finish_permit permit out s))"
    by (rule evidence_step.called)
  with run_finish show ?thesis by (rule rtranclp.rtrancl_into_rtrancl)
qed

lemma run_run_call:
  assumes "audit_enabled L \<longrightarrow> covered X (al_wallet L) target (au_trace s)"
  shows "evidence_run X L s (snd (run_call W permit target s))"
  using rtranclp_trans [OF run_called [OF assms] run_finish]
  by (auto simp: run_call_def Let_def run_finish split: call_outcome.split sum.split)

lemma run_call_attempts [simp]: "au_attempts (snd (run_call W permit target s)) = au_attempts s"
  by (simp add: run_call_def Let_def split: call_outcome.split sum.split)

lemma run_settle:
  assumes "\<And>a. entry = Some a \<Longrightarrow> a \<in> fst ` set (au_attempts s)"
  shows "evidence_run X L s (snd (settle_record X W entry answer s))"
proof (cases entry)
  case None
  then show ?thesis by (simp add: settle_record_def split: call_outcome.split)
next
  case (Some a)
  note a = assms [OF Some]
  have "evidence_run X L s (snd (bind_act (map_act_err SgAudit
      (case result of Inr signature \<Rightarrow> record_returned X W a signature | Inl _ \<Rightarrow> record_unknown W a))
      (\<lambda>_. lift_sum result) s))" for result :: "bytes sg"
    by (rule run_bind)
      (simp_all add: run_record_returned run_record_unknown a split: sum.split)
  with Some show ?thesis by (simp add: settle_record_def split: call_outcome.split)
qed

lemma begin_record_cases:
  assumes "\<And>key. identity = Some key \<Longrightarrow> call_of key payload algorithm target"
  shows "evidence_run X L s (snd (begin_record X W L permit identity payload algorithm s))"
    and "begin_record X W L permit identity payload algorithm s = (Inr entry, s') \<Longrightarrow>
      (audit_enabled L \<longrightarrow> covered X (al_wallet L) target (au_trace s')) \<and>
      (\<forall>a. entry = Some a \<longrightarrow> a \<in> fst ` set (au_attempts s'))"
proof -
  show "evidence_run X L s (snd (begin_record X W L permit identity payload algorithm s))"
  proof (cases identity)
    case None
    then show ?thesis by (simp add: begin_record_def run_finish)
  next
    case (Some key)
    have run: "evidence_run X L s (snd (begin_effect X W L key payload algorithm s))" by (rule run_begin_effect)
    then show ?thesis
      using Some rtranclp_trans [OF run run_finish]
      by (cases "begin_effect X W L key payload algorithm s") (auto simp: begin_record_def split: sum.split)
  qed
  assume effect: "begin_record X W L permit identity payload algorithm s = (Inr entry, s')"
  show "(audit_enabled L \<longrightarrow> covered X (al_wallet L) target (au_trace s')) \<and>
      (\<forall>a. entry = Some a \<longrightarrow> a \<in> fst ` set (au_attempts s'))"
  proof (cases identity)
    case None
    with effect show ?thesis by (auto simp: begin_record_def split: if_splits)
  next
    case (Some key)
    with effect have effect': "begin_effect X W L key payload algorithm s = (Inr entry, s')"
      by (auto simp: begin_record_def split: prod.splits sum.splits)
    show ?thesis
    proof (cases entry)
      case None
      with effect' begin_effect_None show ?thesis by blast
    next
      case entry: (Some a)
      with effect' assms [OF Some] begin_effect_Some show ?thesis by blast
    qed
  qed
qed

lemma run_run_sign:
  assumes "\<And>key. identity = Some key \<Longrightarrow> call_of key payload algorithm target"
  shows "evidence_run X L s (snd (run_sign X W L permit identity payload algorithm target s))"
  unfolding run_sign_def
proof (rule run_bind)
  show "evidence_run X L s (snd (begin_record X W L permit identity payload algorithm s))"
    using assms by (rule begin_record_cases(1))
next
  fix entry s1
  assume "begin_record X W L permit identity payload algorithm s = (Inr entry, s1)"
  note facts = begin_record_cases(2) [OF assms this]
  obtain answer s2 where run: "run_call W permit target s1 = (answer, s2)" by (metis surj_pair)
  have "evidence_run X L s1 s2" using run_run_call [of L X target s1 W permit] facts run by simp
  moreover have "evidence_run X L s2 (snd (settle_record X W entry answer s2))"
    using facts run run_call_attempts [of W permit target s1] by (intro run_settle) simp
  ultimately show "evidence_run X L s1 (snd (case run_call W permit target s1 of
      (answer, s1) \<Rightarrow> settle_record X W entry answer s1))"
    by (simp add: run)
qed

lemma run_kms_operation [evidence_runs]: "evidence_run X L s (snd (kms_operation W reference future s))"
  unfolding kms_operation_def
proof (rule run_bind)
  fix permit s1
  have read: "evidence_run X L s1 (note_event (KeyRead reference) s1)" by (simp add: run_quiet)
  show "evidence_run X L s1 (snd (let s1 = note_event (KeyRead reference) s1 in
      case future of
        None \<Rightarrow> (Inl (SgAdmission Deadline), finish_permit permit OutTimedOut s1)
      | Some (Inl e) \<Rightarrow> (Inl e, finish_permit permit OutError s1)
      | Some (Inr x) \<Rightarrow> (Inr x, finish_permit permit OutSuccess s1)))"
    using rtranclp_trans [OF read run_finish]
    by (auto simp: Let_def split: option.split sum.split)
qed (rule run_acquire)

lemma run_sign_effect:
  assumes "\<And>key. identity = Some key \<Longrightarrow> call_of key payload algorithm target"
  shows "evidence_run X L s (snd (sign_effect X W L reference identity payload algorithm target s))"
  unfolding sign_effect_def
  by (rule run_bind) (rule run_acquire, rule run_run_sign, rule assms)

lemma run_try_sign_effect: "evidence_run X L s (snd (try_sign_effect X W L reference payload target s))"
proof -
  have quiet: "evidence_run X L s (note_event (Acquired reference r) s)" for r by (rule run_quiet) simp
  have "evidence_run X L s1 (snd (bind_act (run_sign X W L permit None payload ''ecdsa'' target)
      (\<lambda>signature. ret (Some signature)) s1))" for permit s1
  proof (rule run_bind)
    show "evidence_run X L s1 (snd (run_sign X W L permit None payload ''ecdsa'' target s1))"
      by (rule run_run_sign) simp
  qed simp
  note rest = rtranclp_trans [OF quiet this]
  show ?thesis
  proof (cases "aw_try_acquire W reference (moment s)")
    case (Inr admitted)
    then show ?thesis by (cases admitted) (simp_all add: try_sign_effect_def Let_def quiet rest)
  qed (simp add: try_sign_effect_def Let_def quiet)
qed

subsection \<open>The completion worker\<close>

lemma worker_call_run:
  assumes "audit_enabled L \<longrightarrow> covered X (al_wallet L) target (au_trace s)"
  shows "evidence_run X L s (snd (worker_call W permit target s))"
  using run_called [OF assms] by (simp add: worker_call_def)

lemma unrecorded_trace: "set (au_trace s) \<subseteq> set (au_trace (unrecorded W a s))"
  by (auto simp: unrecorded_def record_unknown_def store_record_def Let_def split: sum.split)

lemma run_worker_runs:
  assumes "a \<in> fst ` set (au_attempts s)"
    and "audit_enabled L \<longrightarrow> covered X (al_wallet L) target (au_trace s)"
  shows "evidence_run X L s (snd (worker_runs W a permit target fate s))"
    and "fst ` set (au_attempts (snd (worker_runs W a permit target fate s))) = fst ` set (au_attempts s)"
proof -
  define s0 where "s0 = (if fate = GoneBeforePoll then unrecorded W a s else s)"
  define s1 where "s1 = snd (worker_call W permit target s0)"
  have s0: "evidence_run X L s s0" "fst ` set (au_attempts s0) = fst ` set (au_attempts s)"
    using assms(1) by (simp_all add: s0_def run_unrecorded)
  have "set (au_trace s) \<subseteq> set (au_trace s0)" by (simp add: s0_def unrecorded_trace)
  with assms(2) have "audit_enabled L \<longrightarrow> covered X (al_wallet L) target (au_trace s0)"
    using covered_mono by blast
  then have "evidence_run X L s0 s1" unfolding s1_def by (rule worker_call_run)
  with s0(1) have s1: "evidence_run X L s s1" by (rule rtranclp_trans)
  have ids: "fst ` set (au_attempts s1) = fst ` set (au_attempts s)"
    using s0(2) by (simp add: s1_def worker_call_def)
  have final: "snd (worker_runs W a permit target fate s) = (if fate = GoneDuringCall then unrecorded W a s1 else s1)"
    by (simp add: worker_runs_def s0_def s1_def split: prod.split)
  show "fst ` set (au_attempts (snd (worker_runs W a permit target fate s))) = fst ` set (au_attempts s)"
    using ids by (simp add: final)
  have "evidence_run X L s1 (unrecorded W a s1)" using assms(1) ids by (simp add: run_unrecorded)
  with s1 show "evidence_run X L s (snd (worker_runs W a permit target fate s))"
    using rtranclp_trans [OF s1] by (simp add: final)
qed

lemma run_worker_result:
  fixes s :: "'z audit_state_scheme"
  assumes "a \<in> fst ` set (au_attempts s)"
  shows "evidence_run X L s (snd (worker_result X W a lost answer s))"
proof -
  have failed: "evidence_run X L s (snd (bind_act (map_act_err SgAudit (record_unknown W a))
      (\<lambda>_. fail e :: ('z, signer_error, bytes) act) s))" for e
    using assms by (intro run_bind) (simp_all add: run_record_unknown)
  have returned: "evidence_run X L s (snd (bind_act (map_act_err SgAudit (record_returned X W a signature))
      (\<lambda>_. ret signature) s))" for signature
    using assms by (intro run_bind) (simp_all add: run_record_returned)
  show ?thesis
    using failed returned by (simp add: worker_result_def Let_def split: call_outcome.split sum.split)
qed

lemma record_attempts [simp]:
  "fst ` set (au_attempts (snd (record_unknown W a s))) = fst ` set (au_attempts s)"
  "fst ` set (au_attempts (snd (record_returned X W a signature s))) = fst ` set (au_attempts s)"
  by (simp_all add: record_unknown_def record_returned_def)

lemma worker_result_attempts [simp]:
  fixes s :: "'z audit_state_scheme"
  shows "fst ` set (au_attempts (snd (worker_result X W a lost answer s))) = fst ` set (au_attempts s)"
proof -
  have "fst ` set (au_attempts (snd (bind_act m f s))) = fst ` set (au_attempts s)"
    if "fst ` set (au_attempts (snd (m s))) = fst ` set (au_attempts s)" and "\<And>x s'. snd (f x s') = s'"
    for m :: "('z, signer_error, unit) act" and f :: "unit \<Rightarrow> ('z, signer_error, bytes) act"
    using that by (cases "m s") (auto simp: bind_act_def split: sum.split)
  then show ?thesis
    by (simp add: worker_result_def Let_def split: call_outcome.split sum.split)
qed

lemma run_completion_worker:
  assumes "a \<in> fst ` set (au_attempts s)"
    and "audit_enabled L \<longrightarrow> covered X (al_wallet L) target (au_trace s)"
  shows "evidence_run X L s (snd (completion_worker X W a permit target s))"
proof (cases "aw_fate W (moment s) = GoneBeforeStart")
  case True
  with assms(1) show ?thesis by (simp add: completion_worker_def run_unrecorded)
next
  case False
  let ?fate = "aw_fate W (moment s)"
  obtain answer s1 where one: "worker_runs W a permit target ?fate s = (answer, s1)" by (metis surj_pair)
  obtain result s2 where two: "worker_result X W a (worker_lost ?fate) answer s1 = (result, s2)" by (metis surj_pair)
  have run1: "evidence_run X L s s1" and ids1: "fst ` set (au_attempts s1) = fst ` set (au_attempts s)"
    using run_worker_runs [OF assms, of W permit ?fate] by (simp_all add: one)
  have run2: "evidence_run X L s1 s2" and ids2: "fst ` set (au_attempts s2) = fst ` set (au_attempts s)"
    using run_worker_result [of a s1 X L W "worker_lost ?fate" answer]
      worker_result_attempts [of X W a "worker_lost ?fate" answer s1] assms(1) ids1
    by (simp_all add: two)
  have run: "evidence_run X L s s2" using run1 run2 by (rule rtranclp_trans)
  have "evidence_run X L s (finish_permit permit out s2)" for out by (rule rtranclp_trans [OF run run_finish])
  moreover have "evidence_run X L s (unrecorded W a s2)"
    using assms(1) ids2 by (intro rtranclp_trans [OF run run_unrecorded]) simp
  ultimately show ?thesis
    using False run by (simp add: completion_worker_def Let_def one two split: caller_fate.split)
qed

lemma run_sign_owned_effect:
  assumes "\<And>key. identity = Some key \<Longrightarrow> call_of key payload algorithm target"
  shows "evidence_run X L s (snd (sign_owned_effect X W L reference identity payload algorithm target s))"
  unfolding sign_owned_effect_def
proof (rule run_bind, simp, rule run_bind, rule run_acquire, goal_cases)
  case (1 u s0 permit s)
  define s1 where "s1 = note_event (Reserved True) s"
  have quiet: "evidence_run X L s (note_event (Reserved room) s)" for room by (rule run_quiet) simp
  then have one: "evidence_run X L s s1" unfolding s1_def .
  note finish = rtranclp_trans [OF quiet run_finish] rtranclp_trans [OF one run_finish]
  show ?case
  proof (cases "aw_reserve W (moment s)")
    case False
    then show ?thesis by (simp add: finish)
  next
    case room: True
    show ?thesis
    proof (cases identity)
      case None
      with room show ?thesis by (simp add: Let_def finish)
    next
      case (Some key)
      obtain r s2 where begun: "begin_effect X W L key payload algorithm s1 = (r, s2)" by (metis surj_pair)
      have two: "evidence_run X L s s2"
        using rtranclp_trans [OF one run_begin_effect [of X L s1 W key payload algorithm]] by (simp add: begun)
      have worker: "evidence_run X L s (snd (completion_worker X W a permit target (finish_permit permit OutError s2)))"
        if "r = Inr (Some a)" for a
      proof -
        have ids: "a \<in> fst ` set (au_attempts s2)" and cov: "covered X (al_wallet L) target (au_trace s2)"
          using begin_effect_Some begun that assms [OF Some] by blast+
        have "evidence_run X L (finish_permit permit OutError s2)
            (snd (completion_worker X W a permit target (finish_permit permit OutError s2)))"
          using ids covered_mono [OF cov trace_finish] by (intro run_completion_worker) simp_all
        then show ?thesis by (rule rtranclp_trans [OF rtranclp_trans [OF two run_finish]])
      qed
      have "evidence_run X L s (snd (case completion_worker X W a permit target (finish_permit permit OutError s2) of
          (Some result, s3) \<Rightarrow> (result, s3) | (None, s3) \<Rightarrow> (Inl (SgAdmission Deadline), s3)))"
        if "r = Inr (Some a)" for a
        using worker [OF that]
        by (cases "completion_worker X W a permit target (finish_permit permit OutError s2)")
          (simp split: option.split)
      then show ?thesis
        using room Some rtranclp_trans [OF two run_finish] begun
        by (simp add: Let_def s1_def split: sum.split option.split)
    qed
  qed
qed

lemma run_local_begin: "evidence_run X L s (snd (local_begin X W L pk digest algorithm s))"
  by (simp add: local_begin_def Let_def run_begin_effect)

lemma run_local_returned:
  "(\<And>a. entry = Some a \<Longrightarrow> a \<in> fst ` set (au_attempts s)) \<Longrightarrow>
   evidence_run X L s (snd (local_returned X W entry signature s))"
  by (simp add: local_returned_def run_record_returned split: option.split)

section \<open>A returned signature has its evidence\<close>

definition returned_evidence :: "external \<Rightarrow> bytes \<Rightarrow> audit_event list \<Rightarrow> bool" where
  "returned_evidence X signature trace \<longleftrightarrow>
     (\<exists>a. Recorded a ExternalReturned (Some (fingerprint X signature)) (Inr ()) \<in> set trace)"

lemma bind_act_Inr: "bind_act m f s = (Inr y, s2) \<longleftrightarrow> (\<exists>x s1. m s = (Inr x, s1) \<and> f x s1 = (Inr y, s2))"
  by (auto simp: bind_act_def split: prod.split sum.split)

lemma map_act_err_Inr: "map_act_err f m s = (Inr x, s1) \<longleftrightarrow> m s = (Inr x, s1)"
  by (auto simp: map_act_err_def res_simps split: prod.split)

lemma unit_acts_Inr:
  "ret x s = (Inr y, s1) \<longleftrightarrow> y = x \<and> s1 = s"
  "\<not> fail e s = (Inr y, s1)"
  "lift_sum r s = (Inr y, s1) \<longleftrightarrow> r = Inr y \<and> s1 = s"
  by (auto simp: ret_def fail_def lift_sum_def)

lemmas act_Inr = bind_act_Inr map_act_err_Inr unit_acts_Inr

lemma record_returned_Inr:
  "record_returned X W a signature s = (Inr u, s1) \<Longrightarrow> returned_evidence X signature (au_trace s1)"
  by (auto simp: record_returned_def store_record_def Let_def returned_evidence_def split: sum.splits)

lemma worker_result_Inr:
  assumes "worker_result X W a lost answer s = (Inr signature, s1)"
  shows "answer = Answered (Inr signature) \<and> returned_evidence X signature (au_trace s1)"
proof (cases answer)
  case (Answered r)
  then show ?thesis
    using assms
    by (cases r) (auto simp: worker_result_def Let_def act_Inr split: if_splits dest: record_returned_Inr)
qed (use assms in \<open>auto simp: worker_result_def Let_def act_Inr split: if_splits\<close>)

lemma returned_finish: "returned_evidence X signature (au_trace s) \<Longrightarrow>
    returned_evidence X signature (au_trace (finish_permit permit out s))"
  using trace_finish [of s permit out] unfolding returned_evidence_def by blast

lemma completion_worker_Inr:
  assumes "completion_worker X W a permit target s = (Some (Inr signature), s1)"
  shows "returned_evidence X signature (au_trace s1)"
proof -
  obtain answer s2 where one: "worker_runs W a permit target (aw_fate W (moment s)) s = (answer, s2)"
    by (metis surj_pair)
  obtain result s3 where two: "worker_result X W a (worker_lost (aw_fate W (moment s))) answer s2 = (result, s3)"
    by (metis surj_pair)
  from assms one two have "result = Inr signature" and s1: "s1 = finish_permit permit (worker_outcome answer) s3"
    by (auto simp: completion_worker_def Let_def split: if_splits caller_fate.splits)
  then show ?thesis using worker_result_Inr two returned_finish s1 by metis
qed

lemma sign_owned_effect_Inr:
  assumes "sign_owned_effect X W L reference identity payload algorithm target s = (Inr signature, s1)"
  shows "returned_evidence X signature (au_trace s1)"
  using assms unfolding sign_owned_effect_def act_Inr
  by (auto simp: Let_def split: if_splits option.splits prod.splits sum.splits dest: completion_worker_Inr)

end
