(* ===== verification/Signer_Adapters.thy ===== *)
theory Signer_Adapters
  imports Signer_Laws Signing_Evidence
begin

text \<open>
  The signers: \<^verbatim>\<open>local_mnemonic.rs\<close> (signing), \<^verbatim>\<open>aws.rs\<close>, \<^verbatim>\<open>gcp.rs\<close>, \<^verbatim>\<open>azure/adapter.rs\<close>,
  \<^verbatim>\<open>azure/client.rs\<close>, \<^verbatim>\<open>factory.rs\<close>, \<^verbatim>\<open>chain_address/base.rs\<close> and the getters of
  \<^verbatim>\<open>pillar-runtime/src/signer_runtime/getters.rs\<close>, which put them together. The state is the audit state
  with the adapter at hand and the adapters the factory keeps, so a key that an adapter resolves stays
  resolved. What a KMS client answers is a parameter, read at the length of the history.
\<close>

section \<open>State\<close>

record resolved_aws_key =
  rak_id :: string
  rak_public_key :: bytes

record aws_adapter =
  aa_key_id :: string
  aa_keys :: "(signature_type \<times> resolved_aws_key) list"

record gcp_options =
  go_project_id :: string
  go_location_id :: string
  go_key_ring_id :: string
  go_key_version :: string

record gcp_adapter =
  ga_version_name :: string
  ga_public_key :: "bytes option"

record resolved_azure_key =
  rzk_id :: azure_key_id
  rzk_reference :: string
  rzk_public_key :: bytes

record azure_adapter =
  za_original_key_id :: string
  za_parsed_key_id :: azure_key_id
  za_vault :: "string option"
  za_public_key :: "resolved_azure_key option"

datatype raw_signer =
    LocalSigner local_mnemonic
  | AwsSigner aws_adapter
  | GcpSigner gcp_adapter
  | AzureSigner azure_adapter

record signing_state = audit_state +
  ss_signer :: raw_signer
  ss_cache :: "chain_type \<Rightarrow> string \<rightharpoonup> raw_signer"

type_synonym 'a signing = "signing_state \<Rightarrow> 'a sg \<times> signing_state"

record aws_public_key =
  apk_key_id :: string
  apk_der :: bytes

record azure_ec_public_key =
  zpk_key_id :: azure_key_id
  zpk_reference :: string
  zpk_x :: bytes
  zpk_y :: bytes

text \<open>
  The reads of the KMS clients, \<open>None\<close> for no answer before the deadline; \<open>aws_any_key\<close> is the key a
  \<open>HashMap\<close> gives first, and \<open>hedge\<close> says how the two requests of a hedged signature race.
\<close>

datatype hedge_race = PrimaryInTime | PrimaryFirst | HedgeFirst

record kms_clients =
  aws_get_public_key :: "string \<Rightarrow> nat \<Rightarrow> aws_public_key sg option"
  aws_any_key :: "(signature_type \<times> resolved_aws_key) list \<Rightarrow> resolved_aws_key option"
  gcp_get_public_key_pem :: "string \<Rightarrow> nat \<Rightarrow> string sg option"
  azure_get_coordinates :: "azure_key_id \<Rightarrow> nat \<Rightarrow> azure_ec_public_key sg option"
  azure_client_vault :: "string option"
  azure_hedge :: "nat \<Rightarrow> hedge_race"

definition put_signer :: "raw_signer \<Rightarrow> unit signing" where
  "put_signer r s = (Inr (), s\<lparr>ss_signer := r\<rparr>)"

section \<open>Local mnemonics (local_mnemonic.rs)\<close>

text \<open>The verifying key, the recoverable signature and its evidence, on a secp256k1 key.\<close>

definition local_ecdsa_sign ::
    "external \<Rightarrow> ('s, 'k, 'p) crypto \<Rightarrow> audit_world \<Rightarrow> audit_locals \<Rightarrow> 'k \<Rightarrow> sign_input \<Rightarrow> bytes signing" where
  "local_ecdsa_sign X C W L key request =
     bind_act (local_begin X W L (verifying_sec1 C key) (si_data request) ''ecdsa'') (\<lambda>entry s.
       let s1 = note_event (Called \<lparr>xc_backend = ''local'', xc_key = fingerprint X (verifying_sec1 C key),
                                    xc_data = si_data request, xc_algorithm = ''ecdsa''\<rparr>) s in
       (case sign_prehash C key (si_data request) of (signature, i) \<Rightarrow>
          bind_act (lift_sum (recovery_id_byte i (si_transform_recovery_id request))) (\<lambda>b.
            let result = sig_to_bytes C signature @ [word_of_nat b] in
            bind_act (local_returned X W entry result) (\<lambda>_. ret result)) s1))"

definition local_ed25519_sign ::
    "external \<Rightarrow> ('s, 'k, 'p) crypto \<Rightarrow> audit_world \<Rightarrow> audit_locals \<Rightarrow> bytes \<Rightarrow> sign_input \<Rightarrow> bytes signing" where
  "local_ed25519_sign X C W L seed request =
     bind_act (local_begin X W L (ed_public C seed) (si_data request) ''ed25519'') (\<lambda>entry s.
       let s1 = note_event (Called \<lparr>xc_backend = ''local'', xc_key = fingerprint X (ed_public C seed),
                                    xc_data = si_data request, xc_algorithm = ''ed25519''\<rparr>) s;
           result = ed_sign C seed (si_data request) in
       bind_act (local_returned X W entry result) (\<lambda>_. ret result) s1)"

definition local_sign ::
    "external \<Rightarrow> ('s, 'k, 'p) crypto \<Rightarrow> audit_world \<Rightarrow> audit_locals \<Rightarrow> local_mnemonic \<Rightarrow> sign_input \<Rightarrow> bytes signing" where
  "local_sign X C W L m request =
     (case (si_signature_type request, si_private_key_type request) of
        (Ecdsa, private_type) \<Rightarrow>
          bind_act (lift_sum (local_ecdsa_key C m private_type (si_seed_kind request)))
            (\<lambda>key. local_ecdsa_sign X C W L key request)
      | (Ed25519, Ecdsa) \<Rightarrow> lift_sum bad_keypair
      | (Ed25519, Ed25519) \<Rightarrow>
          bind_act (lift_sum (ed25519_seed C m (si_seed_kind request)))
            (\<lambda>seed. local_ed25519_sign X C W L seed request))"

section \<open>AWS (aws.rs)\<close>

definition immutable_key_id :: "string \<Rightarrow> bool" where
  "immutable_key_id key_id \<longleftrightarrow>
     starts_with ''arn:'' key_id \<and> nth_part 2 (split_char CHR '':'' key_id) = Some ''kms'' \<and>
     (case nth_part 5 (split_char CHR '':'' key_id) of
        None \<Rightarrow> False | Some part \<Rightarrow> starts_with ''key/'' part \<and> 4 < length part)"

text \<open>The answers of the SDK client: a response carries the key it used and, when it has one, the bytes.\<close>

definition aws_sign_answer :: "string \<Rightarrow> string + string option \<times> bytes option \<Rightarrow> bytes sg" where
  "aws_sign_answer key_id response =
     and_then (map_err SgMessage response) (\<lambda>(used, signature).
       if immutable_key_id key_id \<and> used \<noteq> Some key_id
       then Inl (SgMessage ''AWS KMS: signing key identity changed'')
       else ok_or (SgMessage ''AWS KMS: sign() failed'') signature)"

definition aws_public_key_answer :: "string \<Rightarrow> string + string option \<times> bytes option \<Rightarrow> aws_public_key sg" where
  "aws_public_key_answer key_id response =
     and_then (map_err SgMessage response) (\<lambda>(used, public_key).
     and_then (ok_or (SgMessage ''AWS KMS: immutable key identity missing'')
                 (case used of None \<Rightarrow> None | Some i \<Rightarrow> if immutable_key_id i then Some i else None)) (\<lambda>resolved.
     and_then (ok_or (SgMessage (''AWS KMS: getPublicKey() failed, public key is undefined, keyId: '' @ key_id))
                 public_key) (\<lambda>der. Inr \<lparr>apk_key_id = resolved, apk_der = der\<rparr>)))"

definition aws_identity :: "external \<Rightarrow> audit_locals \<Rightarrow> resolved_aws_key \<Rightarrow> effective_key option" where
  "aws_identity X L key =
     key_identity X L ''aws'' (rak_id key) (fingerprint X (rak_public_key key)) (rak_public_key key)"

definition aws_reference :: "kms_clients \<Rightarrow> aws_adapter \<Rightarrow> string" where
  "aws_reference K a = (case aws_any_key K (aa_keys a) of Some key \<Rightarrow> rak_id key | None \<Rightarrow> aa_key_id a)"

definition aws_resolved_key ::
    "('s, 'k, 'p) crypto \<Rightarrow> kms_clients \<Rightarrow> audit_world \<Rightarrow> aws_adapter \<Rightarrow> signature_type \<Rightarrow> resolved_aws_key signing" where
  "aws_resolved_key C K W a t s =
     (case map_of (aa_keys a) t of
        Some key \<Rightarrow> (Inr key, s)
      | None \<Rightarrow>
          bind_act (kms_operation W (aws_reference K a) (aws_get_public_key K (aws_reference K a) (moment s))) (\<lambda>answer.
          bind_act (lift_sum
            (if \<not> immutable_key_id (apk_key_id answer)
             then Inl (SgMessage ''AWS KMS: unresolved mutable key identity'')
             else (case t of Ecdsa \<Rightarrow> ecdsa_public_key_from_spki_der C (apk_der answer)
                   | Ed25519 \<Rightarrow> ed25519_public_key_from_spki_der C (apk_der answer)))) (\<lambda>pk.
          let key = \<lparr>rak_id = apk_key_id answer, rak_public_key = pk\<rparr> in
          bind_act (put_signer (AwsSigner (a\<lparr>aa_keys := (t, key) # aa_keys a\<rparr>))) (\<lambda>_. ret key))) s)"

text \<open>With audit the effect is owned by a worker and needs a 32-byte input; without it, it is the caller's.\<close>

definition kms_sign_effect ::
    "external \<Rightarrow> audit_world \<Rightarrow> audit_locals \<Rightarrow> string \<Rightarrow> effective_key option \<Rightarrow> external_call \<Rightarrow> bytes signing" where
  "kms_sign_effect X W L reference identity target =
     (if audit_enabled L
      then bind_act (lift_sum (owned_digest (xc_data target))) (\<lambda>_.
             sign_owned_effect X W L reference identity (xc_data target) (xc_algorithm target) target)
      else sign_effect X W L reference None (xc_data target) (xc_algorithm target) target)"

definition aws_call :: "resolved_aws_key \<Rightarrow> sign_input \<Rightarrow> string \<Rightarrow> external_call" where
  "aws_call key request algorithm =
     \<lparr>xc_backend = ''aws'', xc_key = rak_id key, xc_data = si_data request, xc_algorithm = algorithm\<rparr>"

definition aws_sign ::
    "external \<Rightarrow> ('s, 'k, 'p) crypto \<Rightarrow> kms_clients \<Rightarrow> audit_world \<Rightarrow> audit_locals \<Rightarrow> aws_adapter \<Rightarrow> sign_input
     \<Rightarrow> bytes signing" where
  "aws_sign X C K W L a request =
     (case si_signature_type request of
        Ecdsa \<Rightarrow>
          bind_act (aws_resolved_key C K W a Ecdsa) (\<lambda>key.
          bind_act (kms_sign_effect X W L (rak_id key) (aws_identity X L key) (aws_call key request ''ecdsa'')) (\<lambda>sig.
            lift_sum (kms_ecdsa_signature_to_recoverable C sig Der (si_data request) (rak_public_key key)
                        (si_transform_recovery_id request))))
      | Ed25519 \<Rightarrow>
          if si_private_key_type request \<noteq> Ed25519
          then fail (SgMessage ''AWS KMS Ed25519 signing requires an Ed25519 key'')
          else
          bind_act (aws_resolved_key C K W a Ed25519) (\<lambda>key.
          bind_act (kms_sign_effect X W L (rak_id key) (aws_identity X L key) (aws_call key request ''ed25519'')) (\<lambda>sig.
            if length sig \<noteq> 64 then fail (SgMessage ''AWS KMS: unexpected Ed25519 signature length'')
            else ret sig)))"

definition aws_public_key ::
    "('s, 'k, 'p) crypto \<Rightarrow> kms_clients \<Rightarrow> audit_world \<Rightarrow> aws_adapter \<Rightarrow> public_key_input \<Rightarrow> bytes signing" where
  "aws_public_key C K W a request =
     bind_act (aws_resolved_key C K W a (pi_signature_type request)) (\<lambda>key. ret (rak_public_key key))"

section \<open>GCP (gcp.rs)\<close>

definition gcp_version_name :: "gcp_options \<Rightarrow> string \<Rightarrow> string" where
  "gcp_version_name options key_id =
     ''projects/'' @ go_project_id options @ ''/locations/'' @ go_location_id options
     @ ''/keyRings/'' @ go_key_ring_id options @ ''/cryptoKeys/'' @ key_id
     @ ''/cryptoKeyVersions/'' @ go_key_version options"

definition rsplit_once :: "string \<Rightarrow> string \<Rightarrow> (string \<times> string) option" where
  "rsplit_once sep s =
     (case split_once (rev sep) (rev s) of None \<Rightarrow> None | Some (a, b) \<Rightarrow> Some (rev b, rev a))"

text \<open>The numbered version a name ends in, when it has one.\<close>

definition gcp_pinned_version :: "string \<Rightarrow> string option" where
  "gcp_pinned_version version_name =
     (case rsplit_once ''/cryptoKeyVersions/'' version_name of
        None \<Rightarrow> None
      | Some (_, version) \<Rightarrow>
          (case parse_unsigned (2 ^ 64) version of
             Inr n \<Rightarrow> if 0 < n then Some version else None
           | Inl _ \<Rightarrow> None))"

definition response_identity_matches :: "audit_locals \<Rightarrow> string \<Rightarrow> string \<Rightarrow> bool" where
  "response_identity_matches L name expected \<longleftrightarrow> (name = [] \<and> \<not> audit_enabled L) \<or> name = expected"

definition gcp_sign_answer :: "audit_locals \<Rightarrow> string \<Rightarrow> string \<times> bytes \<Rightarrow> bytes sg" where
  "gcp_sign_answer L version_name response =
     (case response of (name, signature) \<Rightarrow>
        if \<not> response_identity_matches L name version_name
        then Inl (SgMessage ''GCP KMS: signing key identity changed'')
        else if signature = [] then Inl (SgMessage ''GCP KMS: asymmetricSign() failed'')
        else Inr signature)"

definition gcp_public_key_answer :: "audit_locals \<Rightarrow> string \<Rightarrow> string \<times> string \<Rightarrow> string sg" where
  "gcp_public_key_answer L version_name response =
     (case response of (name, pem) \<Rightarrow>
        if \<not> response_identity_matches L name version_name
        then Inl (SgMessage ''GCP KMS: public key identity changed'')
        else if pem = [] then Inl (SgMessage (''Cannot find public key: '' @ version_name))
        else Inr pem)"

definition unsupported_signature_type :: "signature_type \<Rightarrow> signer_error" where
  "unsupported_signature_type t = SgMessage (''Unsupported signature type: '' @ show_signature_type t)"

definition gcp_public_key ::
    "('s, 'k, 'p) crypto \<Rightarrow> kms_clients \<Rightarrow> audit_world \<Rightarrow> audit_locals \<Rightarrow> gcp_adapter \<Rightarrow> public_key_input
     \<Rightarrow> bytes signing" where
  "gcp_public_key C K W L g request s =
     (if pi_signature_type request \<noteq> Ecdsa
      then fail (unsupported_signature_type (pi_signature_type request)) s
      else if audit_enabled L \<and> gcp_pinned_version (ga_version_name g) = None
      then fail (SgMessage ''durable audit: unresolved GCP key version'') s
      else case ga_public_key g of
        Some pk \<Rightarrow> (Inr pk, s)
      | None \<Rightarrow>
          bind_act (kms_operation W (ga_version_name g) (gcp_get_public_key_pem K (ga_version_name g) (moment s))) (\<lambda>pem.
          bind_act (lift_sum (ecdsa_public_key_from_pem C pem)) (\<lambda>pk.
          bind_act (put_signer (GcpSigner (g\<lparr>ga_public_key := Some pk\<rparr>))) (\<lambda>_. ret pk))) s)"

definition gcp_sign ::
    "external \<Rightarrow> ('s, 'k, 'p) crypto \<Rightarrow> kms_clients \<Rightarrow> audit_world \<Rightarrow> audit_locals \<Rightarrow> gcp_adapter \<Rightarrow> sign_input
     \<Rightarrow> bytes signing" where
  "gcp_sign X C K W L g request =
     (if si_signature_type request \<noteq> Ecdsa then fail (unsupported_signature_type (si_signature_type request))
      else
        bind_act (gcp_public_key C K W L g \<lparr>pi_signature_type = Ecdsa, pi_private_key_type = Ecdsa,
                                           pi_seed_kind = si_seed_kind request\<rparr>) (\<lambda>pk.
        let version = (case gcp_pinned_version (ga_version_name g) of Some v \<Rightarrow> v | None \<Rightarrow> []) in
        bind_act (kms_sign_effect X W L (ga_version_name g)
            (key_identity X L ''gcp'' (ga_version_name g) version pk)
            \<lparr>xc_backend = ''gcp'', xc_key = ga_version_name g, xc_data = si_data request,
             xc_algorithm = ''ecdsa''\<rparr>) (\<lambda>sig.
          lift_sum (kms_ecdsa_signature_to_recoverable C sig Der (si_data request) pk
                      (si_transform_recovery_id request)))))"

section \<open>Azure (azure/adapter.rs, azure/client.rs)\<close>

definition left_pad_ec_coordinate :: "bytes \<Rightarrow> bytes sg" where
  "left_pad_ec_coordinate coordinate =
     (if coordinate = []
      then Inl (SgMessage ''Azure Key Vault: P-256K public key coordinate must not be empty'')
      else if 32 < length coordinate
      then Inl (SgMessage (''Azure Key Vault: P-256K public key coordinate must be at most 32 bytes, got ''
                           @ show_nat (length coordinate)))
      else Inr (replicate (32 - length coordinate) 0 @ coordinate))"

text \<open>A resolved key has a version, the configured name and, when one is configured, that version.\<close>

definition azure_pins :: "azure_key_id \<Rightarrow> azure_key_id \<Rightarrow> bool" where
  "azure_pins configured resolved \<longleftrightarrow>
     az_version resolved \<noteq> None \<and> az_name resolved = az_name configured \<and>
     (az_version configured = None \<or> az_version configured = az_version resolved)"

definition in_this_vault :: "('s, 'k, 'p) crypto \<Rightarrow> string option \<Rightarrow> string \<Rightarrow> bool" where
  "in_this_vault C own reference \<longleftrightarrow>
     (case azure_key_vault_origin C reference of
        None \<Rightarrow> True | Some origin \<Rightarrow> (case own of None \<Rightarrow> True | Some vault \<Rightarrow> origin = vault))"

text \<open>The answer of the Key Vault client to a signature: the key it names must be the one asked for.\<close>

definition azure_sign_answer ::
    "('s, 'k, 'p) crypto \<Rightarrow> audit_locals \<Rightarrow> string option \<Rightarrow> azure_key_id \<Rightarrow> string option \<times> bytes option \<Rightarrow> bytes sg" where
  "azure_sign_answer C L own key_id response =
     (case response of (kid, result) \<Rightarrow>
        and_then
          (case kid of
             Some reference \<Rightarrow>
               and_then (parse_azure_kms_key_id reference) (\<lambda>named.
                 if named \<noteq> key_id \<or> \<not> in_this_vault C own reference
                 then Inl (SgMessage ''Azure Key Vault: signing key identity changed'') else Inr ())
           | None \<Rightarrow>
               if audit_enabled L then Inl (SgMessage ''durable audit: Azure signing key identity missing'')
               else Inr ())
          (\<lambda>_. ok_or (SgMessage ''Azure Key Vault: sign() failed'') result))"

text \<open>\<open>jwk_ec\<close> and \<open>jwk_p256k\<close> say that the key is of an elliptic-curve type and on P-256K.\<close>

record azure_jwk =
  jwk_kid :: "string option"
  jwk_ec :: bool
  jwk_p256k :: bool
  jwk_x :: "bytes option"
  jwk_y :: "bytes option"

definition azure_coordinates_missing :: "azure_key_id \<Rightarrow> signer_error" where
  "azure_coordinates_missing key_id =
     SgMessage (''Azure Key Vault: cannot find P-256K public key coordinates for '' @ azure_display key_id)"

definition azure_key_answer ::
    "('s, 'k, 'p) crypto \<Rightarrow> string option \<Rightarrow> azure_key_id \<Rightarrow> azure_jwk option \<Rightarrow> azure_ec_public_key sg" where
  "azure_key_answer C own key_id jwk =
     and_then (ok_or (azure_coordinates_missing key_id) jwk) (\<lambda>key.
     and_then (ok_or (SgMessage ''Azure Key Vault: effective key version missing'') (jwk_kid key)) (\<lambda>reference.
     and_then (parse_azure_kms_key_id reference) (\<lambda>resolved.
       if \<not> azure_pins key_id resolved \<or> \<not> in_this_vault C own reference
       then Inl (SgMessage ''Azure Key Vault: public key identity changed'')
       else if \<not> jwk_ec key \<or> \<not> jwk_p256k key
       then Inl (SgMessage (''Azure Key Vault: '' @ azure_display key_id @ '' is not an EC P-256K key''))
       else
         and_then (ok_or (azure_coordinates_missing key_id) (jwk_x key)) (\<lambda>x.
         and_then (ok_or (azure_coordinates_missing key_id) (jwk_y key)) (\<lambda>y.
           Inr \<lparr>zpk_key_id = resolved, zpk_reference = reference, zpk_x = x, zpk_y = y\<rparr>)))))"

definition azure_new :: "('s, 'k, 'p) crypto \<Rightarrow> string \<Rightarrow> azure_adapter sg" where
  "azure_new C key_id =
     and_then (parse_azure_kms_key_id key_id) (\<lambda>parsed.
       Inr \<lparr>za_original_key_id = key_id, za_parsed_key_id = parsed,
            za_vault = azure_key_vault_origin C key_id, za_public_key = None\<rparr>)"

definition azure_check_key ::
    "('s, 'k, 'p) crypto \<Rightarrow> azure_key_id \<Rightarrow> azure_ec_public_key \<Rightarrow> resolved_azure_key sg" where
  "azure_check_key C configured key =
     (if \<not> azure_pins configured (zpk_key_id key)
      then Inl (SgMessage ''Azure Key Vault: unresolved effective key version'')
      else
        and_then (left_pad_ec_coordinate (zpk_x key)) (\<lambda>x.
        and_then (left_pad_ec_coordinate (zpk_y key)) (\<lambda>y.
          let pk = 0x04 # x @ y in
          if \<not> sec1_point C pk
          then Inl (SgMessage ''Azure Key Vault: public key is not a secp256k1 point'')
          else Inr \<lparr>rzk_id = zpk_key_id key, rzk_reference = zpk_reference key, rzk_public_key = pk\<rparr>)))"

definition azure_resolved_key ::
    "('s, 'k, 'p) crypto \<Rightarrow> kms_clients \<Rightarrow> audit_world \<Rightarrow> azure_adapter \<Rightarrow> resolved_azure_key signing" where
  "azure_resolved_key C K W z s =
     (case za_public_key z of
        Some key \<Rightarrow> (Inr key, s)
      | None \<Rightarrow>
          if (case (za_vault z, azure_client_vault K) of
                (Some named, Some serving) \<Rightarrow> named \<noteq> serving | _ \<Rightarrow> False)
          then fail (SgMessage
                 ''Azure Key Vault: the key URL names a different vault than the one configured'') s
          else
            bind_act (kms_operation W (za_original_key_id z)
                        (azure_get_coordinates K (za_parsed_key_id z) (moment s))) (\<lambda>answer.
            bind_act (lift_sum (azure_check_key C (za_parsed_key_id z) answer)) (\<lambda>key.
            bind_act (put_signer (AzureSigner (z\<lparr>za_public_key := Some key\<rparr>))) (\<lambda>_. ret key))) s)"

text \<open>
  The hedged signature, used without audit. The primary request is asked for first; a second one is
  started when the primary fails, or after a delay, in which case either may answer first. The histories
  of two requests that overlap are written one after the other.
\<close>

definition passes_through :: "signer_error \<Rightarrow> bool" where
  "passes_through e = (case e of SgAdmission _ \<Rightarrow> True | SgAudit _ \<Rightarrow> True | _ \<Rightarrow> False)"

fun hedged_answer :: "bytes sg \<Rightarrow> bytes option sg \<Rightarrow> bytes sg" where
  "hedged_answer primary (Inr (Some signature)) = Inr signature"
| "hedged_answer primary (Inr None) = primary"
| "hedged_answer primary (Inl e) = (case primary of Inr signature \<Rightarrow> Inr signature | Inl _ \<Rightarrow> Inl e)"

definition sign_azure_with_hedge ::
    "external \<Rightarrow> audit_world \<Rightarrow> audit_locals \<Rightarrow> hedge_race \<Rightarrow> string \<Rightarrow> external_call \<Rightarrow> bytes signing" where
  "sign_azure_with_hedge X W L race reference target s =
     (case sign_effect X W L reference None (xc_data target) ''ecdsa'' target s of
        (Inr signature, s1) \<Rightarrow>
          (if race = HedgeFirst
           then (case try_sign_effect X W L reference (xc_data target) target s1 of
                   (hedge, s2) \<Rightarrow> (hedged_answer (Inr signature) hedge, s2))
           else (Inr signature, s1))
      | (Inl e, s1) \<Rightarrow>
          if race = PrimaryInTime \<and> passes_through e then (Inl e, s1)
          else (case try_sign_effect X W L reference (xc_data target) target s1 of
                  (hedge, s2) \<Rightarrow> (hedged_answer (Inl e) hedge, s2)))"

definition azure_call :: "resolved_azure_key \<Rightarrow> sign_input \<Rightarrow> external_call" where
  "azure_call key request =
     \<lparr>xc_backend = ''azure'', xc_key = azure_display (rzk_id key), xc_data = si_data request,
      xc_algorithm = ''ecdsa''\<rparr>"

definition azure_identity :: "external \<Rightarrow> audit_locals \<Rightarrow> resolved_azure_key \<Rightarrow> effective_key option" where
  "azure_identity X L key =
     key_identity X L ''azure'' (rzk_reference key)
       (case az_version (rzk_id key) of Some v \<Rightarrow> v | None \<Rightarrow> []) (rzk_public_key key)"

definition azure_sign ::
    "external \<Rightarrow> ('s, 'k, 'p) crypto \<Rightarrow> kms_clients \<Rightarrow> audit_world \<Rightarrow> audit_locals \<Rightarrow> azure_adapter \<Rightarrow> sign_input
     \<Rightarrow> bytes signing" where
  "azure_sign X C K W L z request =
     (if si_signature_type request \<noteq> Ecdsa then fail (unsupported_signature_type (si_signature_type request))
      else
        bind_act (azure_resolved_key C K W z) (\<lambda>key.
        bind_act
          (if audit_enabled L
           then kms_sign_effect X W L (rzk_reference key) (azure_identity X L key) (azure_call key request)
           else (\<lambda>s. sign_azure_with_hedge X W L (azure_hedge K (moment s)) (rzk_reference key)
                   (azure_call key request) s)) (\<lambda>sig.
          lift_sum (kms_signature_of_either_encoding C sig (si_data request) (rzk_public_key key)
                      (si_transform_recovery_id request)))))"

definition azure_public_key ::
    "('s, 'k, 'p) crypto \<Rightarrow> kms_clients \<Rightarrow> audit_world \<Rightarrow> azure_adapter \<Rightarrow> public_key_input \<Rightarrow> bytes signing" where
  "azure_public_key C K W z request =
     (if pi_signature_type request \<noteq> Ecdsa then fail (unsupported_signature_type (pi_signature_type request))
      else bind_act (azure_resolved_key C K W z) (\<lambda>key. ret (rzk_public_key key)))"

end
