(* ===== verification/Signer_Getters.thy ===== *)
theory Signer_Getters
  imports Signer_Adapters
begin

text \<open>
  \<^verbatim>\<open>pillar-signer/src/factory.rs\<close>, \<^verbatim>\<open>chain_address/base.rs\<close> and
  \<^verbatim>\<open>pillar-runtime/src/signer_runtime/getters.rs\<close>: from the name of a wallet to its signature. An adapter is
  shared by everyone who asks for the same chain type and wallet, so what it has resolved is written back
  to the cache. Two callers that miss the cache at the same time both build an adapter and the later one is
  kept; they are built from the same definition.
\<close>

section \<open>Any adapter\<close>

definition raw_supports_durable_audit :: "raw_signer \<Rightarrow> bool" where
  "raw_supports_durable_audit r =
     (case r of LocalSigner _ \<Rightarrow> True | AwsSigner _ \<Rightarrow> True | GcpSigner _ \<Rightarrow> True | AzureSigner _ \<Rightarrow> True)"

definition raw_kms_provider :: "raw_signer \<Rightarrow> kms_provider option" where
  "raw_kms_provider r =
     (case r of LocalSigner _ \<Rightarrow> None | AwsSigner _ \<Rightarrow> Some Aws | GcpSigner _ \<Rightarrow> Some Gcp | AzureSigner _ \<Rightarrow> Some Azure)"

definition raw_sign ::
    "external \<Rightarrow> ('s, 'k, 'p) crypto \<Rightarrow> kms_clients \<Rightarrow> audit_world \<Rightarrow> audit_locals \<Rightarrow> sign_input \<Rightarrow> bytes signing" where
  "raw_sign X C K W L request s =
     (case ss_signer s of
        LocalSigner m \<Rightarrow> local_sign X C W L m request s
      | AwsSigner a \<Rightarrow> aws_sign X C K W L a request s
      | GcpSigner g \<Rightarrow> gcp_sign X C K W L g request s
      | AzureSigner z \<Rightarrow> azure_sign X C K W L z request s)"

definition raw_public_key ::
    "('s, 'k, 'p) crypto \<Rightarrow> kms_clients \<Rightarrow> audit_world \<Rightarrow> audit_locals \<Rightarrow> public_key_input \<Rightarrow> bytes signing" where
  "raw_public_key C K W L request s =
     (case ss_signer s of
        LocalSigner m \<Rightarrow> (local_public_key C m request, s)
      | AwsSigner a \<Rightarrow> aws_public_key C K W a request s
      | GcpSigner g \<Rightarrow> gcp_public_key C K W L g request s
      | AzureSigner z \<Rightarrow> azure_public_key C K W z request s)"

section \<open>Signatures and signer information (base.rs)\<close>

definition ensure_0x_prefixed :: "string \<Rightarrow> string" where
  "ensure_0x_prefixed s = (if starts_with ''0x'' s then s else with_0x s)"

definition address_key_input :: "chain_address_kind \<Rightarrow> bool \<Rightarrow> public_key_input" where
  "address_key_input chain is_kms =
     \<lparr>pi_signature_type = Ecdsa, pi_private_key_type = address_private_key_signature_type chain is_kms,
      pi_seed_kind = chain_seed_kind chain\<rparr>"

definition signing_key_input :: "chain_address_kind \<Rightarrow> bool \<Rightarrow> public_key_input" where
  "signing_key_input chain is_kms =
     \<lparr>pi_signature_type = Ecdsa, pi_private_key_type = private_key_signature_type chain is_kms,
      pi_seed_kind = chain_seed_kind chain\<rparr>"

text \<open>The address is computed once per adapter of a chain; \<open>cached\<close> is the one already known.\<close>

definition cached_address ::
    "external \<Rightarrow> ('s, 'k, 'p) crypto \<Rightarrow> kms_clients \<Rightarrow> audit_world \<Rightarrow> audit_locals \<Rightarrow> chain_address_kind \<Rightarrow> bool
     \<Rightarrow> string option \<Rightarrow> string signing" where
  "cached_address X C K W L chain is_kms cached =
     (case cached of
        Some address \<Rightarrow> ret address
      | None \<Rightarrow>
          bind_act (raw_public_key C K W L (address_key_input chain is_kms)) (\<lambda>pk s.
            (signer_address_for_provider X C chain pk (raw_kms_provider (ss_signer s)), s)))"

definition chain_sign_input :: "external \<Rightarrow> chain_address_kind \<Rightarrow> bool \<Rightarrow> bytes \<Rightarrow> sign_input" where
  "chain_sign_input X chain is_kms message =
     \<lparr>si_data = prepare_data X chain message, si_signature_type = Ecdsa,
      si_private_key_type = private_key_signature_type chain is_kms,
      si_transform_recovery_id = transform_recovery_id chain, si_seed_kind = chain_seed_kind chain\<rparr>"

definition signer_pillar_sign ::
    "external \<Rightarrow> ('s, 'k, 'p) crypto \<Rightarrow> kms_clients \<Rightarrow> audit_world \<Rightarrow> audit_locals \<Rightarrow> chain_address_kind \<Rightarrow> bool
     \<Rightarrow> string option \<Rightarrow> bytes \<Rightarrow> signature signing" where
  "signer_pillar_sign X C K W L chain is_kms cached message s =
     (if audit_enabled L \<and> \<not> raw_supports_durable_audit (ss_signer s)
      then (Inl (SgAudit ''durable audit: signer does not support write-ahead evidence''), s)
      else
        bind_act (raw_sign X C K W L (chain_sign_input X chain is_kms message)) (\<lambda>sig.
        bind_act (cached_address X C K W L chain is_kms cached) (\<lambda>address.
          ret \<lparr>sig_signature = ensure_0x_prefixed (bytes_to_hex sig), sig_address = address\<rparr>)) s)"

record signer_info =
  sinfo_address :: string
  sinfo_public_key :: string

definition signer_get_info ::
    "external \<Rightarrow> ('s, 'k, 'p) crypto \<Rightarrow> kms_clients \<Rightarrow> audit_world \<Rightarrow> audit_locals \<Rightarrow> chain_address_kind \<Rightarrow> bool
     \<Rightarrow> string option \<Rightarrow> signer_info signing" where
  "signer_get_info X C K W L chain is_kms cached =
     bind_act (cached_address X C K W L chain is_kms cached) (\<lambda>address.
     bind_act (raw_public_key C K W L (signing_key_input chain is_kms)) (\<lambda>pk.
       ret \<lparr>sinfo_address = address,
            sinfo_public_key = with_0x (bytes_to_hex (signer_info_public_key chain pk is_kms))\<rparr>))"

section \<open>The factory (factory.rs)\<close>

datatype raw_factory =
    LocalFactory "string \<rightharpoonup> local_mnemonic"
  | AwsFactory
  | GcpFactory gcp_options
  | AzureFactory

record signer_factory =
  sf_definitions :: "string \<rightharpoonup> wallet_definition"
  sf_raw :: raw_factory
  sf_gcp_set :: bool
  sf_azure_set :: bool

fun index_wallets :: "wallet_definition list \<Rightarrow> (string \<rightharpoonup> wallet_definition) \<Rightarrow> (string \<rightharpoonup> wallet_definition) sg" where
  "index_wallets [] known = Inr known"
| "index_wallets (d # ds) known =
     (if known (wd_name d) \<noteq> None then Inl (SgDuplicateWallet (wd_name d))
      else index_wallets ds (known(wd_name d \<mapsto> d)))"

definition factory_new :: "wallet_definition list \<Rightarrow> raw_factory \<Rightarrow> bool \<Rightarrow> bool \<Rightarrow> signer_factory sg" where
  "factory_new definitions raw gcp_set azure_set =
     and_then (index_wallets definitions Map.empty) (\<lambda>index.
       Inr \<lparr>sf_definitions = index, sf_raw = raw, sf_gcp_set = gcp_set, sf_azure_set = azure_set\<rparr>)"

definition mapping_key :: "string \<Rightarrow> chain_type \<Rightarrow> string" where
  "mapping_key wallet t = wallet @ ''-'' @ chain_type_ts_name t"

fun raw_mnemonic :: "raw_factory \<Rightarrow> string \<Rightarrow> chain_type \<Rightarrow> raw_signer sg" where
  "raw_mnemonic (LocalFactory mnemonics) wallet t =
     map_ok LocalSigner (ok_or (SgMessage ''No mapping found'') (mnemonics (mapping_key wallet t)))"
| "raw_mnemonic _ wallet t = Inl (SgUnsupportedSigner ''MNEMONIC'')"

fun raw_kms :: "('s, 'k, 'p) crypto \<Rightarrow> raw_factory \<Rightarrow> kms_provider \<Rightarrow> chain_type_wallet \<Rightarrow> raw_signer sg" where
  "raw_kms C (LocalFactory _) provider d = Inl (SgUnsupportedKms provider)"
| "raw_kms C AwsFactory provider d =
     (if provider \<noteq> Aws then Inl (SgUnsupportedKms provider)
      else Inr (AwsSigner \<lparr>aa_key_id = cw_secret_name d, aa_keys = []\<rparr>))"
| "raw_kms C (GcpFactory options) provider d =
     (if provider \<noteq> Gcp then Inl (SgUnsupportedKms provider)
      else Inr (GcpSigner \<lparr>ga_version_name = gcp_version_name options (cw_secret_name d), ga_public_key = None\<rparr>))"
| "raw_kms C AzureFactory provider d =
     (if provider \<noteq> Azure then Inl (SgUnsupportedKms provider)
      else map_ok AzureSigner (azure_new C (cw_secret_name d)))"

definition create_signer_adapter ::
    "('s, 'k, 'p) crypto \<Rightarrow> signer_factory \<Rightarrow> chain_type \<Rightarrow> string \<Rightarrow> wallet_definition \<Rightarrow> raw_signer sg" where
  "create_signer_adapter C F t wallet definition =
     and_then (ok_or (SgChainWalletNotFound t) (wd_by_chain_type definition t)) (\<lambda>d.
       case cw_signer_kind d of
         None \<Rightarrow> raw_mnemonic (sf_raw F) wallet t
       | Some MnemonicWallet \<Rightarrow> raw_mnemonic (sf_raw F) wallet t
       | Some (KmsWallet Aws) \<Rightarrow> raw_kms C (sf_raw F) Aws d
       | Some (KmsWallet Gcp) \<Rightarrow>
           if \<not> sf_gcp_set F then Inl SgGcpCredentials else raw_kms C (sf_raw F) Gcp d
       | Some (KmsWallet Azure) \<Rightarrow>
           if \<not> sf_azure_set F then Inl SgAzureCredentials else raw_kms C (sf_raw F) Azure d
       | Some (UnsupportedWallet kind) \<Rightarrow> Inl (SgUnsupportedSigner kind))"

definition keep_signer :: "chain_type \<Rightarrow> string \<Rightarrow> signing_state \<Rightarrow> signing_state" where
  "keep_signer t wallet s = s\<lparr>ss_cache := (ss_cache s)(t := (ss_cache s t)(wallet \<mapsto> ss_signer s))\<rparr>"

text \<open>The adapter becomes the one at hand.\<close>

definition get_adapter :: "('s, 'k, 'p) crypto \<Rightarrow> signer_factory \<Rightarrow> chain_type \<Rightarrow> string \<Rightarrow> unit signing" where
  "get_adapter C F t wallet s =
     (case sf_definitions F wallet of
        None \<Rightarrow> (Inl (SgWalletNotFound wallet), s)
      | Some definition \<Rightarrow>
          (case ss_cache s t wallet of
             Some r \<Rightarrow> (Inr (), s\<lparr>ss_signer := r\<rparr>)
           | None \<Rightarrow>
               (case create_signer_adapter C F t wallet definition of
                  Inl e \<Rightarrow> (Inl e, s)
                | Inr r \<Rightarrow> (Inr (), keep_signer t wallet (s\<lparr>ss_signer := r\<rparr>)))))"

section \<open>The getters (getters.rs)\<close>

record signer_getter =
  sg_chain_types :: "string \<rightharpoonup> chain_type"
  sg_factory :: signer_factory
  sg_is_kms :: bool

fun signer_failure :: "signer_error \<Rightarrow> app_core_error" where
  "signer_failure (SgAdmission e) = Admission e"
| "signer_failure (SgMessage _) = Internal ''Signer operation failed''"
| "signer_failure e = Internal (show_signer_error e)"

definition decode_hex_data :: "external \<Rightarrow> string \<Rightarrow> bytes res" where
  "decode_hex_data X s = map_err Internal (hex_decode X (strip_0x s))"

definition with_adapter :: "chain_type \<Rightarrow> string \<Rightarrow> 'a signing \<Rightarrow> 'a signing" where
  "with_adapter t wallet m s = (case m s of (r, s') \<Rightarrow> (r, keep_signer t wallet s'))"

definition getter_pillar_sign ::
    "external \<Rightarrow> ('s, 'k, 'p) crypto \<Rightarrow> kms_clients \<Rightarrow> audit_world \<Rightarrow> signer_getter \<Rightarrow> string \<Rightarrow> string \<Rightarrow> string
     \<Rightarrow> audit_locals \<Rightarrow> signing_state \<Rightarrow> signature res \<times> signing_state" where
  "getter_pillar_sign X C K W G chain wallet data_hex L =
     bind_act (lift_sum (ok_or (Internal (''No chain type for '' @ chain)) (sg_chain_types G chain))) (\<lambda>t.
     bind_act (map_act_err signer_failure (get_adapter C (sg_factory G) t wallet)) (\<lambda>_.
     bind_act (lift_sum (decode_hex_data X data_hex)) (\<lambda>message.
       map_act_err signer_failure (with_adapter t wallet
         (signer_pillar_sign X C K W L (kind_for_chain_type t) (sg_is_kms G) None message)))))"

definition getter_signer_info ::
    "external \<Rightarrow> ('s, 'k, 'p) crypto \<Rightarrow> kms_clients \<Rightarrow> audit_world \<Rightarrow> signer_getter \<Rightarrow> string \<Rightarrow> string
     \<Rightarrow> audit_locals \<Rightarrow> signing_state \<Rightarrow> (string + signer_info) \<times> signing_state" where
  "getter_signer_info X C K W G chain wallet L =
     bind_act (lift_sum (ok_or (''No chain type for '' @ chain) (sg_chain_types G chain))) (\<lambda>t.
     bind_act (map_act_err show_signer_error (get_adapter C (sg_factory G) t wallet)) (\<lambda>_.
       map_act_err show_signer_error (with_adapter t wallet
         (signer_get_info X C K W L (kind_for_chain_type t) (sg_is_kms G) None))))"

text \<open>One wallet of a request, as \<open>sign_request_v2\<close> signs with it: the getter inside the wallet scope.\<close>

definition audited_wallet_sign ::
    "external \<Rightarrow> ('s, 'k, 'p) crypto \<Rightarrow> kms_clients \<Rightarrow> audit_world \<Rightarrow> signer_getter \<Rightarrow> audit_locals
     \<Rightarrow> validated_intent option \<Rightarrow> string \<Rightarrow> string \<Rightarrow> string \<Rightarrow> signing_state \<Rightarrow> signature res \<times> signing_state" where
  "audited_wallet_sign X C K W G L intent chain wallet data_hex =
     sign_wallet X W (scope_prepared intent L) wallet
       (getter_pillar_sign X C K W G chain wallet data_hex)"

end
