(* ===== verification/Signer_Runs.thy ===== *)
theory Signer_Runs
  imports Signer_Getters
begin

text \<open>
  The adapters and the getters as runs: every operation does only what the audit contract allows, and
  replaces an adapter only by one of the same source whose resolved keys are pinned.
\<close>

section \<open>Pinned keys\<close>

text \<open>
  What an adapter may hold: an AWS key under an immutable ARN, an Azure key with a version of the
  configured name.
\<close>

fun signer_ok :: "raw_signer \<Rightarrow> bool" where
  "signer_ok (AwsSigner a) \<longleftrightarrow> list_all (\<lambda>(_, key). immutable_key_id (rak_id key)) (aa_keys a)"
| "signer_ok (AzureSigner z) \<longleftrightarrow>
     (case za_public_key z of None \<Rightarrow> True | Some key \<Rightarrow> azure_pins (za_parsed_key_id z) (rzk_id key))"
| "signer_ok (LocalSigner m) \<longleftrightarrow> True"
| "signer_ok (GcpSigner g) \<longleftrightarrow> True"

fun same_source :: "raw_signer \<Rightarrow> raw_signer \<Rightarrow> bool" where
  "same_source (LocalSigner m) (LocalSigner m') \<longleftrightarrow> m' = m"
| "same_source (AwsSigner a) (AwsSigner a') \<longleftrightarrow> aa_key_id a' = aa_key_id a"
| "same_source (GcpSigner g) (GcpSigner g') \<longleftrightarrow> ga_version_name g' = ga_version_name g"
| "same_source (AzureSigner z) (AzureSigner z') \<longleftrightarrow>
     za_original_key_id z' = za_original_key_id z \<and> za_parsed_key_id z' = za_parsed_key_id z"
| "same_source _ _ \<longleftrightarrow> False"

text \<open>
  An adapter made from the definition of a wallet for a chain type: its mnemonic or its key, of the
  provider that the definition names, whose credentials are set.
\<close>

fun built_from :: "signer_factory \<Rightarrow> chain_type \<Rightarrow> string \<Rightarrow> chain_type_wallet \<Rightarrow> raw_signer \<Rightarrow> bool" where
  "built_from F t wallet d (LocalSigner m) \<longleftrightarrow>
     cw_signer_kind d \<in> {None, Some MnemonicWallet} \<and>
     (case sf_raw F of LocalFactory mnemonics \<Rightarrow> mnemonics (mapping_key wallet t) = Some m | _ \<Rightarrow> False)"
| "built_from F t wallet d (AwsSigner a) \<longleftrightarrow>
     cw_signer_kind d = Some (KmsWallet Aws) \<and> sf_raw F = AwsFactory \<and> aa_key_id a = cw_secret_name d"
| "built_from F t wallet d (GcpSigner g) \<longleftrightarrow>
     cw_signer_kind d = Some (KmsWallet Gcp) \<and> sf_gcp_set F \<and>
     (case sf_raw F of GcpFactory options \<Rightarrow> ga_version_name g = gcp_version_name options (cw_secret_name d) | _ \<Rightarrow> False)"
| "built_from F t wallet d (AzureSigner z) \<longleftrightarrow>
     cw_signer_kind d = Some (KmsWallet Azure) \<and> sf_azure_set F \<and> sf_raw F = AzureFactory \<and>
     za_original_key_id z = cw_secret_name d \<and> parse_azure_kms_key_id (cw_secret_name d) = Inr (za_parsed_key_id z)"

definition made_for :: "signer_factory \<Rightarrow> chain_type \<Rightarrow> string \<Rightarrow> raw_signer \<Rightarrow> bool" where
  "made_for F t wallet r \<longleftrightarrow>
     (case sf_definitions F wallet of
        None \<Rightarrow> False
      | Some definition \<Rightarrow>
          (case wd_by_chain_type definition t of None \<Rightarrow> False | Some d \<Rightarrow> built_from F t wallet d r))"

definition cache_ok :: "signer_factory \<Rightarrow> (chain_type \<Rightarrow> string \<rightharpoonup> raw_signer) \<Rightarrow> bool" where
  "cache_ok F cache \<longleftrightarrow> (\<forall>t wallet r. cache t wallet = Some r \<longrightarrow> made_for F t wallet r \<and> signer_ok r)"

lemma same_source_built: "same_source r r' \<Longrightarrow> built_from F t wallet d r \<Longrightarrow> built_from F t wallet d r'"
  by (cases "(r, r')" rule: same_source.cases) (auto split: raw_factory.splits)

lemma same_source_made: "same_source r r' \<Longrightarrow> made_for F t wallet r \<Longrightarrow> made_for F t wallet r'"
  by (auto simp: made_for_def split: option.splits intro: same_source_built)

lemma create_built:
  assumes "create_signer_adapter C F t wallet definition = Inr r"
    and "sf_definitions F wallet = Some definition"
  shows "made_for F t wallet r \<and> signer_ok r"
proof -
  from assms(1) obtain d where d: "wd_by_chain_type definition t = Some d"
    by (auto simp: create_signer_adapter_def res_simps)
  have local: "built_from F t wallet d r \<and> signer_ok r"
    if "raw_mnemonic (sf_raw F) wallet t = Inr r" "cw_signer_kind d \<in> {None, Some MnemonicWallet}"
    using that by (cases "sf_raw F") (auto simp: res_simps)
  have kms: "built_from F t wallet d r \<and> signer_ok r"
    if "raw_kms C (sf_raw F) provider d = Inr r" "cw_signer_kind d = Some (KmsWallet provider)"
      "provider = Gcp \<longrightarrow> sf_gcp_set F" "provider = Azure \<longrightarrow> sf_azure_set F" for provider
    using that by (cases "sf_raw F") (auto simp: res_simps azure_new_def split: if_splits)
  from assms(1) d have "built_from F t wallet d r \<and> signer_ok r"
    by (auto simp: create_signer_adapter_def local kms split: option.splits wallet_signer_kind.splits
        kms_provider.splits if_splits)
  with assms(2) d show ?thesis by (simp add: made_for_def)
qed

section \<open>Runs of a signer\<close>

text \<open>\<open>P\<close> is what is known of the adapter at hand and of the cache; a step may change them and keep it.\<close>

inductive signing_step ::
    "external \<Rightarrow> audit_locals \<Rightarrow> (raw_signer \<Rightarrow> (chain_type \<Rightarrow> string \<rightharpoonup> raw_signer) \<Rightarrow> bool)
     \<Rightarrow> signing_state \<Rightarrow> signing_state \<Rightarrow> bool"
  for X :: external and L :: audit_locals and P :: "raw_signer \<Rightarrow> (chain_type \<Rightarrow> string \<rightharpoonup> raw_signer) \<Rightarrow> bool" where
  audit: "evidence_step X L s s' \<Longrightarrow> signing_step X L P s s'"
| adapters: "P (ss_signer s) (ss_cache s) \<longrightarrow> P r c \<Longrightarrow> signing_step X L P s (s\<lparr>ss_signer := r, ss_cache := c\<rparr>)"

abbreviation signing_run where
  "signing_run X L P \<equiv> (signing_step X L P)\<^sup>*\<^sup>*"

lemma evidence_signing: "evidence_run X L s s' \<Longrightarrow> signing_run X L P s s'"
  by (rule mono_rtranclp [rule_format]) (simp_all add: signing_step.audit)

lemma evidence_same:
  assumes "evidence_run X L s s'"
  shows "ss_signer s' = ss_signer s" "ss_cache s' = ss_cache s"
  using run_more [OF assms] by (cases s; cases s'; simp)+

lemma signing_run_keeps:
  assumes "signing_run X L P s s'" and "P (ss_signer s) (ss_cache s)"
  shows "P (ss_signer s') (ss_cache s')"
  using assms
proof (induction rule: rtranclp_induct)
  case (step s' s'')
  from step.hyps(2) show ?case
  proof (cases rule: signing_step.cases)
    case audit
    then have "evidence_run X L s' s''" by (rule r_into_rtranclp)
    from evidence_same [OF this] step show ?thesis by simp
  qed (use step in auto)
qed

lemma signing_run_announced:
  assumes "signing_run X L P s s'" and "audit_enabled L" and "announced X (al_wallet L) (au_trace s)"
  shows "announced X (al_wallet L) (au_trace s')"
  using assms
  by (induction rule: rtranclp_induct) (auto elim!: signing_step.cases dest: step_announced)

lemma signing_run_scope_inv: "signing_run X L P s s' \<Longrightarrow> scope_inv t0 s \<Longrightarrow> scope_inv t0 s'"
proof (induction rule: rtranclp_induct)
  case (step s' s'')
  from step.hyps(2) show ?case
    by (cases rule: signing_step.cases) (use step in \<open>auto simp: scope_inv_def intro: step_scope_inv [unfolded scope_inv_def]\<close>)
qed

definition closed_under_source :: "(raw_signer \<Rightarrow> (chain_type \<Rightarrow> string \<rightharpoonup> raw_signer) \<Rightarrow> bool) \<Rightarrow> bool" where
  "closed_under_source P \<longleftrightarrow>
     (\<forall>r r' c. P r c \<and> same_source r r' \<and> (signer_ok r \<longrightarrow> signer_ok r') \<longrightarrow> P r' c)"

lemma run_put_signer:
  assumes "closed_under_source P" and "same_source (ss_signer s) r" and "signer_ok (ss_signer s) \<longrightarrow> signer_ok r"
  shows "signing_run X L P s (snd (put_signer r s))"
proof -
  have "P (ss_signer s) (ss_cache s) \<longrightarrow> P r (ss_cache s)" using assms unfolding closed_under_source_def by blast
  then have "signing_step X L P s (s\<lparr>ss_signer := r, ss_cache := ss_cache s\<rparr>)" by (rule signing_step.adapters)
  then show ?thesis by (simp add: put_signer_def r_into_rtranclp)
qed

subsection \<open>Effects\<close>

lemmas run_put = run_put_signer
lemmas run_effects = evidence_signing [OF run_kms_operation] evidence_signing [OF run_acquire]

lemma run_kms_sign_effect:
  assumes "\<And>key. identity = Some key \<Longrightarrow> names_key key target"
  shows "signing_run X L P s (snd (kms_sign_effect X W L reference identity target s))"
proof -
  have "call_of key (xc_data target) (xc_algorithm target) target" if "identity = Some key" for key
    using assms [OF that] by (simp add: call_of_def)
  then show ?thesis
    unfolding kms_sign_effect_def
    by (auto intro!: run_bind evidence_signing [OF run_sign_owned_effect] evidence_signing [OF run_sign_effect])
qed

lemma names_by_reference:
  "key_identity X L backend reference version pk = Some key \<Longrightarrow>
   xc_backend target = backend \<Longrightarrow> xc_key target = reference \<Longrightarrow> names_key key target"
  by (auto simp: key_identity_def names_key_def split: if_splits)

subsection \<open>Local mnemonics\<close>

lemma local_begin_Inr:
  assumes "local_begin X W L pk digest algorithm s = (Inr entry, s1)"
  shows "(audit_enabled L \<longrightarrow> covered X (al_wallet L)
      \<lparr>xc_backend = ''local'', xc_key = fingerprint X pk, xc_data = digest, xc_algorithm = algorithm\<rparr> (au_trace s1))
    \<and> (\<forall>a. entry = Some a \<longrightarrow> a \<in> fst ` set (au_attempts s1))
    \<and> (audit_enabled L \<longrightarrow> entry \<noteq> None)"
proof (cases "audit_enabled L")
  case False
  with assms show ?thesis by (simp add: local_begin_def unit_acts_Inr)
next
  case True
  define key where "key = \<lparr>ek_backend = ''local'', ek_reference = fingerprint X pk, ek_version = fingerprint X pk,
      ek_public_key_hash = fingerprint X pk\<rparr>"
  with True assms have begun: "begin_effect X W L key digest algorithm s = (Inr entry, s1)"
    by (simp add: local_begin_def Let_def map_act_err_Inr)
  with True begin_effect_None obtain a where a: "entry = Some a" by (cases entry) blast+
  have "call_of key digest algorithm
      \<lparr>xc_backend = ''local'', xc_key = fingerprint X pk, xc_data = digest, xc_algorithm = algorithm\<rparr>"
    by (simp add: call_of_def names_key_def key_def)
  with begin_effect_Some begun a show ?thesis by blast
qed

lemma run_local_tail:
  fixes s :: signing_state
  assumes "\<And>a. entry = Some a \<Longrightarrow> a \<in> fst ` set (au_attempts s)"
  shows "signing_run X L P s (snd (bind_act (local_returned X W entry result) (\<lambda>_. ret result) s))"
  using assms by (intro run_bind evidence_signing [OF run_local_returned]) simp_all

lemma run_local_called:
  fixes s :: signing_state
  assumes "audit_enabled L \<longrightarrow> covered X (al_wallet L) target (au_trace s)"
  shows "signing_run X L P s (note_event (Called target) s)"
  using assms by (intro evidence_signing r_into_rtranclp evidence_step.called)

lemma run_local_ecdsa_sign: "signing_run X L P s (snd (local_ecdsa_sign X C W L key request s))"
  unfolding local_ecdsa_sign_def
proof (rule run_bind)
  fix entry s1
  assume "local_begin X W L (verifying_sec1 C key) (si_data request) ''ecdsa'' s = (Inr entry, s1)"
  note facts = local_begin_Inr [OF this]
  obtain signature i where signed: "sign_prehash C key (si_data request) = (signature, i)" by (metis surj_pair)
  define s2 where "s2 = note_event (Called \<lparr>xc_backend = ''local'', xc_key = fingerprint X (verifying_sec1 C key),
      xc_data = si_data request, xc_algorithm = ''ecdsa''\<rparr>) s1"
  have called: "signing_run X L P s1 s2" unfolding s2_def using facts by (intro run_local_called) blast
  have "signing_run X L P s2 (snd (bind_act (lift_sum (recovery_id_byte i (si_transform_recovery_id request))) (\<lambda>b.
      let result = sig_to_bytes C signature @ [word_of_nat b] in
      bind_act (local_returned X W entry result) (\<lambda>_. ret result)) s2))"
  proof (rule run_bind, simp, unfold Let_def, rule run_local_tail)
    fix b s3 a
    assume "lift_sum (recovery_id_byte i (si_transform_recovery_id request)) s2 = (Inr b, s3)" "entry = Some a"
    with facts show "a \<in> fst ` set (au_attempts s3)" by (auto simp: unit_acts_Inr s2_def)
  qed
  with called show "signing_run X L P s1 (snd (let s1 = note_event (Called \<lparr>xc_backend = ''local'',
        xc_key = fingerprint X (verifying_sec1 C key), xc_data = si_data request, xc_algorithm = ''ecdsa''\<rparr>) s1
      in case sign_prehash C key (si_data request) of (signature, i) \<Rightarrow>
        bind_act (lift_sum (recovery_id_byte i (si_transform_recovery_id request))) (\<lambda>b.
          let result = sig_to_bytes C signature @ [word_of_nat b] in
          bind_act (local_returned X W entry result) (\<lambda>_. ret result)) s1))"
    by (simp add: Let_def signed s2_def)
qed (rule evidence_signing [OF run_local_begin])

lemma run_local_ed25519_sign: "signing_run X L P s (snd (local_ed25519_sign X C W L seed request s))"
  unfolding local_ed25519_sign_def
proof (rule run_bind)
  fix entry s1
  assume "local_begin X W L (ed_public C seed) (si_data request) ''ed25519'' s = (Inr entry, s1)"
  note facts = local_begin_Inr [OF this]
  define s2 where "s2 = note_event (Called \<lparr>xc_backend = ''local'', xc_key = fingerprint X (ed_public C seed),
      xc_data = si_data request, xc_algorithm = ''ed25519''\<rparr>) s1"
  have called: "signing_run X L P s1 s2" unfolding s2_def using facts by (intro run_local_called) blast
  have "signing_run X L P s2 (snd (bind_act (local_returned X W entry (ed_sign C seed (si_data request)))
      (\<lambda>_. ret (ed_sign C seed (si_data request))) s2))"
    using facts by (intro run_local_tail) (simp add: s2_def)
  with called show "signing_run X L P s1 (snd (let s1 = note_event (Called \<lparr>xc_backend = ''local'',
        xc_key = fingerprint X (ed_public C seed), xc_data = si_data request, xc_algorithm = ''ed25519''\<rparr>) s1;
        result = ed_sign C seed (si_data request)
      in bind_act (local_returned X W entry result) (\<lambda>_. ret result) s1))"
    by (simp add: Let_def s2_def)
qed (rule evidence_signing [OF run_local_begin])

lemma run_local_sign: "signing_run X L P s (snd (local_sign X C W L m request s))"
  unfolding local_sign_def
  by (auto split: signature_type.split intro!: run_bind run_local_ecdsa_sign run_local_ed25519_sign)

subsection \<open>KMS adapters\<close>

lemma kms_operation_same:
  fixes s :: signing_state
  assumes "kms_operation W reference future s = (r, s1)"
  shows "ss_signer s1 = ss_signer s"
proof -
  have "evidence_run X L s s1" for X L
    using run_kms_operation [of X L s W reference future] assms by simp
  then show ?thesis by (rule evidence_same)
qed

lemma run_resolve:
  fixes s :: signing_state
  assumes "closed_under_source P" and "ss_signer s = r"
    and "\<And>answer x. check answer = Inr x \<Longrightarrow> same_source r (update answer x) \<and> (signer_ok r \<longrightarrow> signer_ok (update answer x))"
  shows "signing_run X L P s (snd (bind_act (kms_operation W reference future) (\<lambda>answer.
      bind_act (lift_sum (check answer)) (\<lambda>x. bind_act (put_signer (update answer x)) (\<lambda>_. ret (result answer x)))) s))"
proof (rule run_bind)
  fix answer s1
  assume "kms_operation W reference future s = (Inr answer, s1)"
  then have same: "ss_signer s1 = r" using kms_operation_same assms(2) by blast
  show "signing_run X L P s1 (snd (bind_act (lift_sum (check answer)) (\<lambda>x.
      bind_act (put_signer (update answer x)) (\<lambda>_. ret (result answer x))) s1))"
  proof (rule run_bind, simp)
    fix x s2
    assume "lift_sum (check answer) s1 = (Inr x, s2)"
    then have "check answer = Inr x" and s2: "s2 = s1" by (simp_all add: unit_acts_Inr)
    with assms(3) same have "signing_run X L P s2 (snd (put_signer (update answer x) s2))"
      by (intro run_put_signer [OF assms(1)]) simp_all
    then show "signing_run X L P s2 (snd (bind_act (put_signer (update answer x)) (\<lambda>_. ret (result answer x)) s2))"
      by (rule run_bind) simp
  qed
qed (rule run_effects)

lemma run_aws_resolved_key:
  assumes "closed_under_source P" and "ss_signer s = AwsSigner a"
  shows "signing_run X L P s (snd (aws_resolved_key C K W a t s))"
proof (cases "map_of (aa_keys a) t")
  case None
  show ?thesis
    unfolding aws_resolved_key_def Let_def None option.case
    by (rule run_resolve [OF assms]) (auto split: if_splits)
qed (simp add: aws_resolved_key_def)

lemma run_aws_sign:
  assumes "closed_under_source P" and "ss_signer s = AwsSigner a"
  shows "signing_run X L P s (snd (aws_sign X C K W L a request s))"
proof -
  have effect: "signing_run X L P s1 (snd (kms_sign_effect X W L (rak_id key) (aws_identity X L key)
      (aws_call key request algorithm) s1))" for key algorithm s1
    by (rule run_kms_sign_effect) (auto simp: aws_identity_def aws_call_def intro: names_by_reference)
  show ?thesis
    unfolding aws_sign_def
    by (auto split: signature_type.split intro!: run_bind run_aws_resolved_key [OF assms] effect)
qed

lemma run_gcp_public_key:
  assumes "closed_under_source P" and "ss_signer s = GcpSigner g"
  shows "signing_run X L P s (snd (gcp_public_key C K W L g request s))"
proof (cases "ga_public_key g")
  case None
  have "signing_run X L P s (snd (bind_act
      (kms_operation W (ga_version_name g) (gcp_get_public_key_pem K (ga_version_name g) (moment s))) (\<lambda>pem.
      bind_act (lift_sum (ecdsa_public_key_from_pem C pem)) (\<lambda>pk.
      bind_act (put_signer (GcpSigner (g\<lparr>ga_public_key := Some pk\<rparr>))) (\<lambda>_. ret pk))) s))"
    by (rule run_resolve [OF assms]) simp
  then show ?thesis unfolding gcp_public_key_def None by simp
qed (simp add: gcp_public_key_def)

lemma run_gcp_sign:
  assumes "closed_under_source P" and "ss_signer s = GcpSigner g"
  shows "signing_run X L P s (snd (gcp_sign X C K W L g request s))"
proof -
  have effect: "signing_run X L P s1 (snd (kms_sign_effect X W L (ga_version_name g)
      (key_identity X L ''gcp'' (ga_version_name g) version pk)
      \<lparr>xc_backend = ''gcp'', xc_key = ga_version_name g, xc_data = si_data request, xc_algorithm = ''ecdsa''\<rparr> s1))"
    for version pk s1
    by (rule run_kms_sign_effect) (auto intro: names_by_reference)
  show ?thesis
    unfolding gcp_sign_def Let_def
    by (auto intro!: run_bind run_gcp_public_key [OF assms] effect)
qed

lemma azure_check_pins: "azure_check_key C configured answer = Inr key \<Longrightarrow> azure_pins configured (rzk_id key)"
  by (auto simp: azure_check_key_def res_simps Let_def split: if_splits)

lemma run_azure_resolved_key:
  assumes "closed_under_source P" and "ss_signer s = AzureSigner z"
  shows "signing_run X L P s (snd (azure_resolved_key C K W z s))"
proof (cases "za_public_key z")
  case None
  have "signing_run X L P s (snd (bind_act
      (kms_operation W (za_original_key_id z) (azure_get_coordinates K (za_parsed_key_id z) (moment s))) (\<lambda>answer.
      bind_act (lift_sum (azure_check_key C (za_parsed_key_id z) answer)) (\<lambda>key.
      bind_act (put_signer (AzureSigner (z\<lparr>za_public_key := Some key\<rparr>))) (\<lambda>_. ret key))) s))"
    by (rule run_resolve [OF assms]) (auto dest: azure_check_pins)
  then show ?thesis unfolding azure_resolved_key_def None by simp
qed (simp add: azure_resolved_key_def)

lemma azure_resolved_pins:
  assumes "azure_resolved_key C K W z s = (Inr key, s1)" and "signer_ok (AzureSigner z)"
  shows "azure_pins (za_parsed_key_id z) (rzk_id key)"
proof (cases "za_public_key z")
  case None
  with assms(1) show ?thesis
    by (auto simp: azure_resolved_key_def act_Inr dest: azure_check_pins split: if_splits)
next
  case (Some known)
  with assms show ?thesis by (simp add: azure_resolved_key_def)
qed

lemma run_azure_hedge:
  fixes s :: signing_state
  shows "signing_run X L P s (snd (sign_azure_with_hedge X W L race reference target s))"
proof -
  obtain r s1 where one: "sign_effect X W L reference None (xc_data target) ''ecdsa'' target s = (r, s1)"
    by (metis surj_pair)
  obtain h s2 where two: "try_sign_effect X W L reference (xc_data target) target s1 = (h, s2)"
    by (metis surj_pair)
  have first: "signing_run X L P s s1"
    using evidence_signing [OF run_sign_effect [of None _ _ target X L s W reference]] one
    by (metis option.distinct(1) snd_conv)
  have "signing_run X L P s1 s2"
    using evidence_signing [OF run_try_sign_effect [of X L s1 W reference "xc_data target" target]] two by simp
  with first have "signing_run X L P s s2" by (rule rtranclp_trans)
  with first show ?thesis by (simp add: sign_azure_with_hedge_def one two split: sum.split)
qed

lemma run_azure_sign:
  assumes "closed_under_source P" and "ss_signer s = AzureSigner z" and "signer_ok (AzureSigner z)"
  shows "signing_run X L P s (snd (azure_sign X C K W L z request s))"
proof (cases "si_signature_type request = Ecdsa")
  case True
  have effect: "signing_run X L P s1 (snd (kms_sign_effect X W L (rzk_reference key) (azure_identity X L key)
      (azure_call key request) s1))" if "azure_pins (za_parsed_key_id z) (rzk_id key)" for key s1
  proof (rule run_kms_sign_effect)
    fix known
    assume known: "azure_identity X L key = Some known"
    from that obtain v where "az_version (rzk_id key) = Some v" by (auto simp: azure_pins_def)
    with known show "names_key known (azure_call key request)"
      by (auto simp: azure_identity_def azure_call_def key_identity_def names_key_def azure_display_def split: if_splits)
  qed
  show ?thesis
    unfolding azure_sign_def
    using True
    by (auto intro!: run_bind run_azure_resolved_key [OF assms(1,2)] effect run_azure_hedge
        dest!: azure_resolved_pins [OF _ assms(3)])
qed (simp add: azure_sign_def)

lemma run_raw_sign:
  assumes "closed_under_source P" and "signer_ok (ss_signer s)"
  shows "signing_run X L P s (snd (raw_sign X C K W L request s))"
  using assms
  by (cases "ss_signer s")
    (simp_all add: raw_sign_def run_local_sign run_aws_sign run_gcp_sign run_azure_sign)

lemma run_raw_public_key:
  assumes "closed_under_source P"
  shows "signing_run X L P s (snd (raw_public_key C K W L request s))"
proof (cases "ss_signer s")
  case (AwsSigner a)
  then show ?thesis
    using assms by (auto simp: raw_public_key_def aws_public_key_def intro!: run_bind run_aws_resolved_key)
next
  case (AzureSigner z)
  then show ?thesis
    using assms by (auto simp: raw_public_key_def azure_public_key_def intro!: run_bind run_azure_resolved_key)
qed (use assms in \<open>simp_all add: raw_public_key_def run_gcp_public_key\<close>)

end
