(* ===== verification/Signer_Properties.thy ===== *)
theory Signer_Properties
  imports Signer_Runs
begin

text \<open>
  What the signers promise: evidence before and after every external signature, keys that stay pinned,
  and a signature that recovers to the key whose address is shown.
\<close>

section \<open>The getters\<close>

lemma cache_ok_closed: "closed_under_source (\<lambda>_ c. cache_ok F c)"
  by (simp add: closed_under_source_def)

lemma handle_closed: "closed_under_source (\<lambda>r c. made_for F t wallet r \<and> signer_ok r \<and> cache_ok F c)"
  unfolding closed_under_source_def using same_source_made by blast

lemma run_cached_address:
  assumes "closed_under_source P"
  shows "signing_run X L P s (snd (cached_address X C K W L chain is_kms cached s))"
  using assms
  by (auto simp: cached_address_def split: option.split intro!: run_bind run_raw_public_key)

lemma run_signer_pillar_sign:
  assumes "closed_under_source P" and "signer_ok (ss_signer s)"
  shows "signing_run X L P s (snd (signer_pillar_sign X C K W L chain is_kms cached message s))"
proof (cases "audit_enabled L \<and> \<not> raw_supports_durable_audit (ss_signer s)")
  case True
  then show ?thesis by (simp add: signer_pillar_sign_def)
next
  case False
  have "signing_run X L P s (snd (bind_act (raw_sign X C K W L (chain_sign_input X chain is_kms message)) (\<lambda>sig.
      bind_act (cached_address X C K W L chain is_kms cached) (\<lambda>address.
        ret \<lparr>sig_signature = ensure_0x_prefixed (bytes_to_hex sig), sig_address = address\<rparr>)) s))"
    using assms by (auto intro!: run_bind run_raw_sign run_cached_address)
  with False show ?thesis unfolding signer_pillar_sign_def by simp
qed

lemma run_signer_get_info:
  assumes "closed_under_source P"
  shows "signing_run X L P s (snd (signer_get_info X C K W L chain is_kms cached s))"
  unfolding signer_get_info_def
  using assms by (auto intro!: run_bind run_cached_address run_raw_public_key)

lemma cache_ok_update:
  "cache_ok F c \<Longrightarrow> made_for F t wallet r \<Longrightarrow> signer_ok r \<Longrightarrow> cache_ok F (c(t := (c t)(wallet \<mapsto> r)))"
  by (auto simp: cache_ok_def)

lemma run_keep_signer:
  assumes "made_for F t wallet (ss_signer s)" and "signer_ok (ss_signer s)"
  shows "signing_run X L (\<lambda>_ c. cache_ok F c) s (keep_signer t wallet s)"
proof -
  have "cache_ok F (ss_cache s) \<longrightarrow> cache_ok F ((ss_cache s)(t := (ss_cache s t)(wallet \<mapsto> ss_signer s)))"
    using cache_ok_update assms by blast
  then have "signing_step X L (\<lambda>_ c. cache_ok F c) s
      (s\<lparr>ss_signer := ss_signer s, ss_cache := (ss_cache s)(t := (ss_cache s t)(wallet \<mapsto> ss_signer s))\<rparr>)"
    by (rule signing_step.adapters)
  then show ?thesis by (simp add: keep_signer_def r_into_rtranclp)
qed

lemma run_with_adapter:
  assumes "\<And>P. closed_under_source P \<Longrightarrow> signing_run X L P s (snd (m s))"
    and "made_for F t wallet (ss_signer s)" and "signer_ok (ss_signer s)" and "cache_ok F (ss_cache s)"
  shows "signing_run X L (\<lambda>_ c. cache_ok F c) s (snd (with_adapter t wallet m s))"
proof -
  obtain r s1 where m: "m s = (r, s1)" by (metis surj_pair)
  have "signing_run X L (\<lambda>r c. made_for F t wallet r \<and> signer_ok r \<and> cache_ok F c) s s1"
    using assms(1) [OF handle_closed [of F t wallet]] m by simp
  from signing_run_keeps [OF this] assms(2-4)
  have "made_for F t wallet (ss_signer s1)" "signer_ok (ss_signer s1)" by blast+
  then have "signing_run X L (\<lambda>_ c. cache_ok F c) s1 (keep_signer t wallet s1)" by (rule run_keep_signer)
  moreover have "signing_run X L (\<lambda>_ c. cache_ok F c) s s1" using assms(1) [OF cache_ok_closed [of F]] m by simp
  ultimately have "signing_run X L (\<lambda>_ c. cache_ok F c) s (keep_signer t wallet s1)"
    by (rule rtranclp_trans [rotated])
  then show ?thesis by (simp add: with_adapter_def m)
qed

lemma get_adapter_hands:
  assumes "get_adapter C F t wallet s = (Inr u, s1)" and "cache_ok F (ss_cache s)"
  shows "made_for F t wallet (ss_signer s1) \<and> signer_ok (ss_signer s1) \<and> cache_ok F (ss_cache s1)"
proof -
  from assms(1) obtain w where d: "sf_definitions F wallet = Some w"
    by (auto simp: get_adapter_def split: option.splits)
  show ?thesis
  proof (cases "ss_cache s t wallet")
    case (Some r)
    with assms d show ?thesis by (auto simp: get_adapter_def cache_ok_def)
  next
    case None
    with assms(1) d obtain r where r: "create_signer_adapter C F t wallet w = Inr r"
        and s1: "s1 = keep_signer t wallet (s\<lparr>ss_signer := r\<rparr>)"
      by (auto simp: get_adapter_def split: sum.splits)
    from create_built [OF r d] assms(2) show ?thesis
      by (auto simp: s1 keep_signer_def intro: cache_ok_update)
  qed
qed

lemma run_get_adapter:
  assumes "cache_ok F (ss_cache s)"
  shows "signing_run X L (\<lambda>_ c. cache_ok F c) s (snd (get_adapter C F t wallet s))"
proof (cases "get_adapter C F t wallet s")
  case (Pair r s1)
  show ?thesis
  proof (cases r)
    case (Inl e)
    with Pair have "s1 = s" by (auto simp: get_adapter_def split: option.splits sum.splits)
    with Pair show ?thesis by simp
  next
    case (Inr u)
    with Pair get_adapter_hands assms have "cache_ok F (ss_cache s1)" by blast
    then have "signing_step X L (\<lambda>_ c. cache_ok F c) s (s\<lparr>ss_signer := ss_signer s1, ss_cache := ss_cache s1\<rparr>)"
      by (simp add: signing_step.adapters)
    moreover have "s1 = s\<lparr>ss_signer := ss_signer s1, ss_cache := ss_cache s1\<rparr>"
      using Pair Inr by (auto simp: get_adapter_def keep_signer_def split: option.splits sum.splits)
    ultimately show ?thesis using Pair by (simp add: r_into_rtranclp)
  qed
qed

lemma run_getter_pillar_sign:
  assumes "cache_ok (sg_factory G) (ss_cache s)"
  shows "signing_run X L (\<lambda>_ c. cache_ok (sg_factory G) c) s
    (snd (getter_pillar_sign X C K W G chain wallet data_hex L s))"
  unfolding getter_pillar_sign_def
proof (rule run_bind, simp, rule run_bind, simp, rule run_get_adapter, goal_cases)
  case (1 t s1)
  with assms show ?case by (simp add: unit_acts_Inr)
next
  case (2 t s1 u s2)
  then have hands: "made_for (sg_factory G) t wallet (ss_signer s2) \<and> signer_ok (ss_signer s2)
      \<and> cache_ok (sg_factory G) (ss_cache s2)"
    using assms get_adapter_hands by (fastforce simp: unit_acts_Inr map_act_err_Inr)
  show ?case
  proof (rule run_bind, simp, simp, rule run_with_adapter, goal_cases)
    case (1 message s3 P)
    with hands show ?case by (intro run_signer_pillar_sign) (simp_all add: unit_acts_Inr)
  qed (use hands in \<open>simp_all add: unit_acts_Inr\<close>)
qed

lemma run_getter_signer_info:
  assumes "cache_ok (sg_factory G) (ss_cache s)"
  shows "signing_run X L (\<lambda>_ c. cache_ok (sg_factory G) c) s
    (snd (getter_signer_info X C K W G chain wallet L s))"
  unfolding getter_signer_info_def
proof (rule run_bind, simp, rule run_bind, simp, rule run_get_adapter, goal_cases)
  case (1 t s1)
  with assms show ?case by (simp add: unit_acts_Inr)
next
  case (2 t s1 u s2)
  then have hands: "made_for (sg_factory G) t wallet (ss_signer s2) \<and> signer_ok (ss_signer s2)
      \<and> cache_ok (sg_factory G) (ss_cache s2)"
    using assms get_adapter_hands by (fastforce simp: unit_acts_Inr map_act_err_Inr)
  show ?case
    by (simp, rule run_with_adapter) (use hands in \<open>simp_all add: run_signer_get_info\<close>)
qed

text \<open>
  Keys stay pinned. Starting from a cache whose adapters were each built from the definition of their wallet
  for their chain type, with AWS keys under immutable ARNs and Azure keys at a version of the configured
  name, signing and reading signer information leave such a cache, whatever the KMS clients, the store and
  the admission answer: no answer makes a wallet sign with a key of another wallet, of another provider or
  of a provider whose credentials are not set.
\<close>
theorem signer_keys_stay_pinned:
  assumes "cache_ok (sg_factory G) (ss_cache s)"
  shows "cache_ok (sg_factory G) (ss_cache (snd (getter_pillar_sign X C K W G chain wallet data_hex L s))) \<and>
    cache_ok (sg_factory G) (ss_cache (snd (getter_signer_info X C K W G chain wallet L s)))"
  using signing_run_keeps [OF run_getter_pillar_sign [OF assms]]
    signing_run_keeps [OF run_getter_signer_info [OF assms]] assms
  by blast

section \<open>Wallet scopes\<close>

lemma run_sign_wallet:
  fixes s :: signing_state
  assumes "al_intent L = Some intent"
    and "signing_run X (enter_wallet X intent wallet L) P (s\<lparr>au_attempts := []\<rparr>)
      (snd (future (enter_wallet X intent wallet L) (s\<lparr>au_attempts := []\<rparr>)))"
  shows "signing_run X (enter_wallet X intent wallet L) P (s\<lparr>au_attempts := []\<rparr>)
    (snd (sign_wallet X W L wallet future s))"
proof -
  let ?L = "enter_wallet X intent wallet L"
  obtain result s1 where one: "future ?L (s\<lparr>au_attempts := []\<rparr>) = (result, s1)" by (metis surj_pair)
  obtain answer s2 where two: "wallet_evidence X W result s1 = (answer, s2)" by (metis surj_pair)
  have run1: "signing_run X ?L P (s\<lparr>au_attempts := []\<rparr>) s1" using assms(2) one by simp
  have run2: "signing_run X ?L P s1 s2"
    using evidence_signing [OF run_wallet_evidence [of X ?L s1 W result]] two by simp
  have run3: "signing_run X ?L P s2 (attempt_guard W s2)" by (rule evidence_signing [OF run_attempt_guard])
  from run1 run2 run3 have "signing_run X ?L P (s\<lparr>au_attempts := []\<rparr>) (attempt_guard W s2)" by (meson rtranclp_trans)
  with assms(1) one two show ?thesis by (simp add: sign_wallet_def)
qed

definition audited_scope :: "external \<Rightarrow> validated_intent \<Rightarrow> string \<Rightarrow> wallet_scope" where
  "audited_scope X intent wallet =
     \<lparr>ws_intent = intent, ws_wallet_hash = fingerprint X (string_bytes wallet)\<rparr>"

definition store_configured :: "audit_locals \<Rightarrow> bool" where
  "store_configured L \<longleftrightarrow> (case al_root L of None \<Rightarrow> False | Some root \<Rightarrow> ar_store root)"

lemma entered_scope:
  assumes "store_configured L"
  shows "al_intent (scope_prepared (Some intent) L) = Some intent"
    and "audit_enabled (enter_wallet X intent wallet (scope_prepared (Some intent) L))"
    and "al_wallet (enter_wallet X intent wallet (scope_prepared (Some intent) L)) = Some (audited_scope X intent wallet)"
  using assms
  by (auto simp: store_configured_def scope_prepared_def scope_intent_def enter_wallet_def audit_enabled_def
      audited_scope_def split: option.splits)

lemma run_audited_wallet:
  assumes "cache_ok (sg_factory G) (ss_cache s)" and "store_configured L"
  shows "signing_run X (enter_wallet X intent wallet (scope_prepared (Some intent) L))
    (\<lambda>_ c. cache_ok (sg_factory G) c) (s\<lparr>au_attempts := []\<rparr>)
    (snd (audited_wallet_sign X C K W G L (Some intent) chain wallet data_hex s))"
  unfolding audited_wallet_sign_def
  using assms by (intro run_sign_wallet run_getter_pillar_sign entered_scope(1)) simp_all

text \<open>
  Write-ahead evidence: every signature a wallet asks of an external signer or of its own mnemonic is preceded in the
  history by a stored attempt with the intent of the request, the hash of the wallet name, the key, the algorithm and
  the digest of that very call.
\<close>

lemma wallet_announced:
  assumes "cache_ok (sg_factory G) (ss_cache s)" and "store_configured L" and "au_trace s = []"
  shows "announced X (Some (audited_scope X intent wallet))
    (au_trace (snd (audited_wallet_sign X C K W G L (Some intent) chain wallet data_hex s)))"
  using signing_run_announced [OF run_audited_wallet [OF assms(1,2)] entered_scope(2) [OF assms(2)]] assms(3)
  by (simp add: entered_scope(3) [OF assms(2)])

subsection \<open>What is recorded of a wallet\<close>

lemma store_record_trace:
  "au_trace (snd (store_record W a kind hash s)) = Recorded a kind hash (fst (store_record W a kind hash s)) # au_trace s"
  by (simp add: store_record_def Let_def split: sum.split)

lemma record_all_grows: "set (au_trace s) \<subseteq> set (au_trace (snd (record_all W kind hash is s)))"
proof (induction "is" arbitrary: s)
  case (Cons a rest)
  obtain r s1 where one: "store_record W a kind hash s = (r, s1)" by (metis surj_pair)
  have "set (au_trace s) \<subseteq> set (au_trace s1)" using store_record_trace [of W a kind hash s] one by auto
  with Cons.IH [of s1] one show ?case by (cases r) (auto simp: bind_act_def)
qed simp

lemma record_all_Inr:
  assumes "record_all W kind hash is s = (Inr u, s1)" and "a \<in> set is"
  shows "Recorded a kind hash (Inr ()) \<in> set (au_trace s1)"
  using assms
proof (induction "is" arbitrary: s)
  case (Cons b rest)
  from Cons.prems(1) obtain v s2 where b: "store_record W b kind hash s = (Inr v, s2)"
      and rest: "record_all W kind hash rest s2 = (Inr u, s1)"
    by (auto simp: act_Inr)
  have "Recorded b kind hash (Inr ()) \<in> set (au_trace s2)" using store_record_trace [of W b kind hash s] b by simp
  then have "Recorded b kind hash (Inr ()) \<in> set (au_trace s1)"
    using record_all_grows [of s2 W kind hash rest] rest by auto
  with Cons.IH [OF rest] Cons.prems(2) show ?case by auto
qed simp

lemma guard_fold_records:
  "set (au_trace s) \<subseteq> set (au_trace (fold (guard_record W) is s)) \<and>
   (\<forall>a \<in> set is. \<exists>r. Recorded a OutcomeUnknown None r \<in> set (au_trace (fold (guard_record W) is s)))"
proof (induction "is" arbitrary: s)
  case (Cons a rest)
  have "Recorded a OutcomeUnknown None (aw_record W (moment s)) \<in> set (au_trace (guard_record W a s))"
      "set (au_trace s) \<subseteq> set (au_trace (guard_record W a s))"
    by (auto simp: guard_record_def)
  with Cons.IH [of "guard_record W a s"] show ?case by fastforce
qed simp

lemma guard_grows: "set (au_trace s) \<subseteq> set (au_trace (attempt_guard W s))"
  using guard_fold_records [of s W "open_attempts (au_attempts s)"] by (simp add: attempt_guard_def)

lemma guard_attempts: "au_attempts (attempt_guard W s) = au_attempts s"
proof -
  have "au_attempts (fold (guard_record W) is s) = au_attempts s" for "is"
    by (induction "is" arbitrary: s) (simp_all add: guard_record_def)
  then show ?thesis by (simp add: attempt_guard_def)
qed

lemma scope_begun:
  assumes "scope_inv [] s"
  shows "a \<in> fst ` set (au_attempts s) \<longleftrightarrow> (\<exists>i. Begun i (Inr a) \<in> set (au_trace s))"
proof -
  from assms have "map fst (au_attempts s) = begun_ids (au_trace s)" by (auto simp: scope_inv_def)
  then show ?thesis by (metis begun_ids_member list.set_map)
qed

text \<open>The state of a wallet scope when its evidence has been written and its guard has run.\<close>

lemma audited_wallet_scope:
  assumes "cache_ok (sg_factory G) (ss_cache s)" and "store_configured L" and "au_trace s = []"
  shows "scope_inv [] (snd (audited_wallet_sign X C K W G L (Some intent) chain wallet data_hex s))"
  using signing_run_scope_inv [OF run_audited_wallet [OF assms(1,2)] scope_inv_start] assms(3)
  by simp

lemma wallet_evidence_ids:
  fixes s :: "'z audit_state_scheme"
  shows "fst ` set (au_attempts (snd (wallet_evidence X W result s))) = fst ` set (au_attempts s)"
proof -
  have record_all: "fst ` set (au_attempts (snd (record_all W kind hash is s))) = fst ` set (au_attempts s)"
    for kind hash "is" and s :: "'z audit_state_scheme"
  proof (induction "is" arbitrary: s)
    case (Cons a rest)
    obtain r s1 where one: "store_record W a kind hash s = (r, s1)" by (metis surj_pair)
    then have "fst ` set (au_attempts s1) = fst ` set (au_attempts s)" by (metis snd_conv store_record_attempts)
    with Cons.IH [of s1] one show ?case by (cases r) (simp_all add: bind_act_def)
  qed simp
  have "fst ` set (au_attempts (snd (bind_act (map_act_err Internal (record_all W kind hash is)) f s))) =
      fst ` set (au_attempts s)"
    if "\<And>x s'. snd (f x s') = s'" for kind hash "is" and f :: "unit \<Rightarrow> ('z, app_core_error, signature) act"
    using that record_all [of kind hash "is" s]
    by (cases "record_all W kind hash is s") (auto simp: bind_act_def map_act_err_def split: sum.split)
  then show ?thesis by (simp add: wallet_evidence_def Let_def split: sum.split)
qed

lemma sign_wallet_parts:
  assumes "al_intent L = Some intent"
  obtains result s1 where
    "future (enter_wallet X intent wallet L) (s\<lparr>au_attempts := []\<rparr>) = (result, s1)"
    "sign_wallet X W L wallet future s =
      (fst (wallet_evidence X W result s1), attempt_guard W (snd (wallet_evidence X W result s1)))"
proof -
  obtain result s1 where "future (enter_wallet X intent wallet L) (s\<lparr>au_attempts := []\<rparr>) = (result, s1)"
    by (metis surj_pair)
  with assms that show ?thesis by (simp add: sign_wallet_def split: prod.split)
qed

text \<open>A signature is given out only when the store has accepted, for every attempt of its scope, that the wallet returned it.\<close>

lemma wallet_returned:
  assumes "cache_ok (sg_factory G) (ss_cache s)" and "store_configured L" and "au_trace s = []"
    and "audited_wallet_sign X C K W G L (Some intent) chain wallet data_hex s = (Inr sig, s1)"
  shows "(\<exists>i a. Begun i (Inr a) \<in> set (au_trace s1)) \<and>
    (\<forall>i a. Begun i (Inr a) \<in> set (au_trace s1) \<longrightarrow>
       Recorded a WalletReturned (Some (fingerprint X (string_bytes (sig_signature sig)))) (Inr ())
         \<in> set (au_trace s1))"
proof -
  obtain result s0 where parts:
      "audited_wallet_sign X C K W G L (Some intent) chain wallet data_hex s =
        (fst (wallet_evidence X W result s0), attempt_guard W (snd (wallet_evidence X W result s0)))"
    unfolding audited_wallet_sign_def
    by (rule sign_wallet_parts [OF entered_scope(1) [OF assms(2)], where X = X and W = W and wallet = wallet and s = s and
          future = "getter_pillar_sign X C K W G chain wallet data_hex"]) blast
  obtain answer s2 where ev: "wallet_evidence X W result s0 = (answer, s2)" by (metis surj_pair)
  with parts assms(4) have answer: "answer = Inr sig" and s1: "s1 = attempt_guard W s2" by simp_all
  define ids where "ids = map fst (au_attempts s0)"
  let ?hash = "Some (fingerprint X (string_bytes (sig_signature sig)))"
  from ev answer have result: "result = Inr sig" and ids: "ids \<noteq> []"
      and all: "record_all W WalletReturned ?hash ids s0 = (Inr (), s2)"
    by (auto simp: wallet_evidence_def Let_def act_Inr ids_def split: sum.splits if_splits)
  have "scope_inv [] s1" using audited_wallet_scope [OF assms(1-3)] assms(4) by (metis snd_conv)
  note begun = scope_begun [OF this]
  have same: "fst ` set (au_attempts s1) = set ids"
    using wallet_evidence_ids [of X W result s0] ev by (simp add: s1 guard_attempts ids_def)
  have "Recorded a WalletReturned ?hash (Inr ()) \<in> set (au_trace s1)" if "a \<in> set ids" for a
    using record_all_Inr [OF all that] guard_grows [of s2 W] s1 by auto
  moreover from ids obtain a where "a \<in> set ids" by (cases ids) auto
  ultimately show ?thesis using begun same by metis
qed

text \<open>When its guard can run, every attempt the store accepted has a record, or one of an unknown outcome was sent.\<close>

lemma wallet_guarded:
  assumes "cache_ok (sg_factory G) (ss_cache s)" and "store_configured L" and "au_trace s = []"
    and "\<forall>n. aw_guard_runs W n"
    and "Begun i (Inr a) \<in> set (au_trace (snd (audited_wallet_sign X C K W G L (Some intent) chain wallet data_hex s)))"
  shows "has_evidence a (au_trace (snd (audited_wallet_sign X C K W G L (Some intent) chain wallet data_hex s))) \<or>
    (\<exists>r. Recorded a OutcomeUnknown None r
       \<in> set (au_trace (snd (audited_wallet_sign X C K W G L (Some intent) chain wallet data_hex s))))"
proof -
  obtain result s0 where parts:
      "audited_wallet_sign X C K W G L (Some intent) chain wallet data_hex s =
        (fst (wallet_evidence X W result s0), attempt_guard W (snd (wallet_evidence X W result s0)))"
    unfolding audited_wallet_sign_def
    by (rule sign_wallet_parts [OF entered_scope(1) [OF assms(2)], where X = X and W = W and wallet = wallet and s = s and
          future = "getter_pillar_sign X C K W G chain wallet data_hex"]) blast
  define s2 where "s2 = snd (wallet_evidence X W result s0)"
  define s1 where "s1 = attempt_guard W s2"
  have final: "snd (audited_wallet_sign X C K W G L (Some intent) chain wallet data_hex s) = s1"
    by (simp add: parts s1_def s2_def)
  have inv: "scope_inv [] s1" using audited_wallet_scope [OF assms(1-3)] final by metis
  then obtain known where "(a, known) \<in> set (au_attempts s1)"
    using scope_begun [OF inv, of a] assms(5) final by auto
  then show ?thesis
  proof (cases known)
    case True
    with inv \<open>(a, known) \<in> set (au_attempts s1)\<close> show ?thesis by (auto simp: scope_inv_def final)
  next
    case False
    then have "a \<in> set (open_attempts (au_attempts s2))"
      using \<open>(a, known) \<in> set (au_attempts s1)\<close> by (force simp: s1_def guard_attempts open_attempts_def)
    then have "\<exists>r. Recorded a OutcomeUnknown None r \<in> set (au_trace s1)"
      using guard_fold_records [of s2 W "open_attempts (au_attempts s2)"] assms(4)
      by (auto simp: s1_def attempt_guard_def)
    then show ?thesis by (simp add: final)
  qed
qed

text \<open>C34:
  Durable evidence of signing. While a wallet signs to an end under a configured store, whatever the store, the admission,
  the KMS and the deadlines answer, and wherever in the work of a completion worker its caller reaches the deadline: every
  signature asked of an external signer or of the mnemonic is preceded by a stored attempt that carries the validated
  intent, the hash of the wallet name, the key, the algorithm and the digest of that call; a signature is given out only
  with at least one stored attempt, and the store has accepted for every one of them the record that the wallet returned
  exactly this signature; and when the guard of the scope can run, every stored attempt has a record, or a record of an
  unknown outcome was sent for it. The scope starts with an empty history and with a cache of adapters that were built
  from the definitions of their wallets; dropping the whole signing future is outside the statement.
\<close>

theorem signing_is_evidenced:
  assumes "cache_ok (sg_factory G) (ss_cache s)" and "store_configured L" and "au_trace s = []"
    and "audited_wallet_sign X C K W G L (Some intent) chain wallet data_hex s = (answer, s1)"
  shows "announced X (Some (audited_scope X intent wallet)) (au_trace s1) \<and>
    (\<forall>sig. answer = Inr sig \<longrightarrow> (\<exists>i a. Begun i (Inr a) \<in> set (au_trace s1)) \<and>
       (\<forall>i a. Begun i (Inr a) \<in> set (au_trace s1) \<longrightarrow>
          Recorded a WalletReturned (Some (fingerprint X (string_bytes (sig_signature sig)))) (Inr ()) \<in> set (au_trace s1))) \<and>
    ((\<forall>n. aw_guard_runs W n) \<longrightarrow> (\<forall>i a. Begun i (Inr a) \<in> set (au_trace s1) \<longrightarrow>
       has_evidence a (au_trace s1) \<or> (\<exists>r. Recorded a OutcomeUnknown None r \<in> set (au_trace s1))))"
proof (intro conjI allI impI)
  have s1: "snd (audited_wallet_sign X C K W G L (Some intent) chain wallet data_hex s) = s1" using assms(4) by simp
  show "announced X (Some (audited_scope X intent wallet)) (au_trace s1)"
    using wallet_announced [OF assms(1-3)] s1 by metis
  show "has_evidence a (au_trace s1) \<or> (\<exists>r. Recorded a OutcomeUnknown None r \<in> set (au_trace s1))"
    if "\<forall>n. aw_guard_runs W n" "Begun i (Inr a) \<in> set (au_trace s1)" for i a
    using wallet_guarded [OF assms(1-3) that(1), where X = X and C = C and K = K and chain = chain and wallet = wallet and data_hex = data_hex and intent = intent]
      that(2) s1 by metis
next
  fix sig
  assume "answer = Inr sig"
  with assms(4) have a: "audited_wallet_sign X C K W G L (Some intent) chain wallet data_hex s = (Inr sig, s1)" by simp
  show "\<exists>i a. Begun i (Inr a) \<in> set (au_trace s1)" using wallet_returned [OF assms(1-3) a] by blast
  show "Recorded a WalletReturned (Some (fingerprint X (string_bytes (sig_signature sig)))) (Inr ()) \<in> set (au_trace s1)"
    if "Begun i (Inr a) \<in> set (au_trace s1)" for i a
    using wallet_returned [OF assms(1-3) a] that by blast
qed

section \<open>A sample wallet\<close>

text \<open>A cryptography in which signing is copying, and surroundings that answer.\<close>

definition ref_crypto :: "(bytes, bytes, unit) crypto" where
  "ref_crypto =
     \<lparr>sig_from_der = (\<lambda>bs. Inl ''der''), sig_from_slice = (\<lambda>bs. Inr bs), sig_normalize = (\<lambda>s. s), sig_to_bytes = (\<lambda>s. s),
      recover_sec1 = (\<lambda>digest s i. Some (4 # s)), spki_point = (\<lambda>bs. Inr bs), spki_bits = (\<lambda>bs. Inr bs),
      pem_decode = (\<lambda>bs. Inr (''PUBLIC KEY'', bs)), sec1_point = (\<lambda>bs. True), key_from_slice = (\<lambda>bs. Inr bs),
      verifying_sec1 = (\<lambda>key. 4 # take 64 (key @ replicate 64 0)), sign_prehash = (\<lambda>key digest. (take 64 (key @ replicate 64 0), 0)),
      bip39_seed_of = (\<lambda>mnemonic. Inr (string_bytes mnemonic)), path_parse = (\<lambda>path. Inr ()), derive_key = (\<lambda>seed path. Inr seed),
      ed_public = (\<lambda>seed. seed), ed_sign = (\<lambda>seed message. take 64 (seed @ replicate 64 0)),
      hmac_sha512 = (\<lambda>key message. take 64 (key @ message @ replicate 64 0)),
      pbkdf2_sha512 = (\<lambda>password salt n. take 64 (password @ salt @ replicate 64 0)), blake2b_32 = (\<lambda>bs. take 32 (bs @ replicate 32 0)),
      ripemd160 = (\<lambda>bs. take 20 (bs @ replicate 20 0)), bech32_encode = (\<lambda>hrp bs. Inr hrp), url_origin = (\<lambda>url. None)\<rparr>"

definition sample_audit_world :: audit_world where
  "sample_audit_world =
     \<lparr>aw_begin = (\<lambda>i n. Inr (int n)), aw_record = (\<lambda>n. Inr ()), aw_acquire = (\<lambda>reference n. Inr False),
      aw_try_acquire = (\<lambda>reference n. Inr None), aw_reserve = (\<lambda>n. True), aw_call = (\<lambda>target n. Stalled),
      aw_fate = (\<lambda>n. CallerWaits), aw_guard_runs = (\<lambda>n. True)\<rparr>"

definition sample_clients :: kms_clients where
  "sample_clients =
     \<lparr>aws_get_public_key = (\<lambda>key n. None), aws_any_key = (\<lambda>keys. None), gcp_get_public_key_pem = (\<lambda>name n. None),
      azure_get_coordinates = (\<lambda>key n. None), azure_client_vault = None, azure_hedge = (\<lambda>n. PrimaryInTime)\<rparr>"

definition sample_getter :: signer_getter where
  "sample_getter =
     \<lparr>sg_chain_types = [''eth'' \<mapsto> ChainEvm],
      sg_factory = \<lparr>sf_definitions = [''w'' \<mapsto> \<lparr>wd_name = ''w'', wd_by_chain_type = [ChainEvm \<mapsto> \<lparr>cw_secret_name = ''w'', cw_signer_kind = None\<rparr>]\<rparr>],
                     sf_raw = LocalFactory [''w-EVM'' \<mapsto> \<lparr>lm_mnemonic = ''words'', lm_path = ''m''\<rparr>], sf_gcp_set = False, sf_azure_set = False\<rparr>,
      sg_is_kms = False\<rparr>"

definition sample_locals :: audit_locals where
  "sample_locals =
     \<lparr>al_root = Some \<lparr>ar_store = True, ar_workers = True, ar_generation = 1\<rparr>, al_intent = None, al_wallet = None, al_effect_generation = None\<rparr>"

definition sample_validated :: validated_intent where
  "sample_validated =
     \<lparr>vi_request_hash = ''r'', vi_validation_hash = ''v'', vi_source_chain = ''eth'', vi_destination_chain = ''base'', vi_expiration = 5,
      vi_provider_generation = 1\<rparr>"

definition sample_signing :: signing_state where
  "sample_signing =
     \<lparr>au_trace = [], au_attempts = [], ss_signer = LocalSigner \<lparr>lm_mnemonic = [], lm_path = []\<rparr>, ss_cache = (\<lambda>_. Map.empty)\<rparr>"

lemma sample_signing_start: "cache_ok (sg_factory sample_getter) (ss_cache sample_signing)" "store_configured sample_locals" "au_trace sample_signing = []"
  by (simp_all add: cache_ok_def sample_signing_def store_configured_def sample_locals_def)

lemma ref_fingerprint: "length (fingerprint ref_external bs) = 64" "list_all is_hex_char (fingerprint ref_external bs)"
proof -
  have hex: "length (ref_hex_encode cs) = 2 * length cs" "list_all is_hex_char (ref_hex_encode cs)" for cs
    by (induction cs) (auto simp: is_hex_char_def hex_value_digit less_mult_imp_div_less unat_byte_less)
  have "length (keccak256 ref_external bs) = 32" by (simp add: ref_external_def)
  with hex show "length (fingerprint ref_external bs) = 64" "list_all is_hex_char (fingerprint ref_external bs)"
    by (simp_all add: fingerprint_def) (simp_all add: ref_external_def)
qed

lemma sample_key: "\<not> unresolved_key
    \<lparr>ek_backend = b, ek_reference = fingerprint ref_external k, ek_version = fingerprint ref_external k, ek_public_key_hash = fingerprint ref_external k\<rparr>
    (ethers_hash_message ref_external m) ''ecdsa''"
proof -
  have "fingerprint ref_external k \<noteq> []" using ref_fingerprint(1) [of k] by auto
  moreover have "length (ethers_hash_message ref_external m) = 32" by (simp add: ethers_hash_message_def ref_external_def)
  ultimately show ?thesis by (simp add: unresolved_key_def ref_fingerprint)
qed

lemmas sample_run_simps = audited_wallet_sign_def sign_wallet_def scope_prepared_def scope_intent_def sample_locals_def enter_wallet_def
  getter_pillar_sign_def sample_getter_def get_adapter_def sample_signing_def create_signer_adapter_def mapping_key_def keep_signer_def
  decode_hex_data_def with_adapter_def signer_pillar_sign_def audit_enabled_def raw_supports_durable_audit_def raw_sign_def local_sign_def
  chain_sign_input_def local_ecdsa_key_def ecdsa_signing_key_def seed_of_kind_def bip39_seed_def ref_crypto_def local_ecdsa_sign_def
  local_begin_def begin_effect_def store_begin_def sample_audit_world_def note_event_def moment_def bind_act_def map_act_err_def lift_sum_def
  ret_def recovery_id_byte_def local_returned_def record_returned_def store_record_def cached_address_def raw_public_key_def address_key_input_def
  local_public_key_def evm_address_from_public_key_def wallet_evidence_def Let_def

lemma sample_run:
  "\<exists>sig s1. audited_wallet_sign ref_external ref_crypto sample_clients sample_audit_world sample_getter sample_locals (Some sample_validated)
     ''eth'' ''w'' [] sample_signing = (Inr sig, s1)"
proof -
  have hex: "hex_decode ref_external [] = Inr []" by (simp add: ref_external_def ref_hex_decode_def)
  have point: "evm_public_key_body (4 # take 64 k @ replicate (64 - length k) 0) = Inr (take 64 k @ replicate (64 - length k) 0)" for k :: bytes
    unfolding evm_public_key_body_Inr by simp
  show ?thesis by (simp add: sample_run_simps hex sample_key point)
qed

theorem signing_is_evidenced_witness:
  "\<exists>sig s1. audited_wallet_sign ref_external ref_crypto sample_clients sample_audit_world sample_getter sample_locals (Some sample_validated)
     ''eth'' ''w'' [] sample_signing = (Inr sig, s1) \<and> announced ref_external (Some (audited_scope ref_external sample_validated ''w'')) (au_trace s1) \<and>
     (\<exists>i a. Begun i (Inr a) \<in> set (au_trace s1) \<and>
        Recorded a WalletReturned (Some (fingerprint ref_external (string_bytes (sig_signature sig)))) (Inr ()) \<in> set (au_trace s1))"
proof -
  obtain sig s1 where run: "audited_wallet_sign ref_external ref_crypto sample_clients sample_audit_world sample_getter sample_locals (Some sample_validated)
     ''eth'' ''w'' [] sample_signing = (Inr sig, s1)" using sample_run by blast
  from signing_is_evidenced [OF sample_signing_start run] run show ?thesis by blast
qed

theorem signer_keys_stay_pinned_witness:
  "cache_ok (sg_factory sample_getter) (ss_cache (snd (getter_pillar_sign ref_external ref_crypto sample_clients sample_audit_world sample_getter
     ''eth'' ''w'' [] sample_locals sample_signing)))"
  using signer_keys_stay_pinned [OF sample_signing_start(1), of ref_external ref_crypto sample_clients sample_audit_world "''eth''" "''w''" "[]" sample_locals]
  by blast

end
