(* ===== verification/Spec2Isabelle.thy ===== *)
theory Spec2Isabelle
  imports Sign_Workflow Adapter_Params Fair_Budget Health_Source Sui_Bcs Non_Evm_Digests Ton_Dict Ton_Storage_Laws Signer_Properties
begin

text \<open>
  Verification library of the Pillar client, the signer of a LayerZero decentralised verifier network
  (DVN). The program receives a request to attest a cross-chain message, looks the message up on its source
  chain through a quorum of RPC providers, checks it, builds the call its DVN contract will execute on the
  destination and signs the digest of that call with each configured wallet.

  \<^bold>\<open>The parts and how they interact.\<close> \<^verbatim>\<open>pillar-core\<close> runs one request: it admits it
  (\<^verbatim>\<open>execution.rs\<close>), resolves and checks the source event, selects a hash builder and signs
  (\<^verbatim>\<open>lib.rs\<close>), with a cache of provider health (\<^verbatim>\<open>provider_health_cache.rs\<close>). \<^verbatim>\<open>pillar-layerzero\<close> is the protocol:
  packets, read commands, adapter parameters and one payload builder per chain family behind a router.
  \<^verbatim>\<open>pillar-runtime\<close> asks the providers: it plans a dispatch, collects answers and decides a quorum.
  \<^verbatim>\<open>pillar-config\<close> holds the quorum strategies and the configuration files the pools are loaded from.

  \<^bold>\<open>Where the code is.\<close> Definitions have the names of the functions and types they model; a struct is a
  record whose fields carry a short prefix, an enum a datatype, \<^verbatim>\<open>Result\<close> the sum type with the error on
  the left, \<^verbatim>\<open>Option\<close> the option type, a machine integer a word or an integer with its bound written
  out, an \<^verbatim>\<open>IndexMap\<close> or \<^verbatim>\<open>BTreeMap\<close> an association list and a panic \<^term>\<open>None\<close>. Code that
  is not part of the repository (Keccak, SHA-256, hexadecimal and base-58 codecs, the curve check, JSON
  rendering) is the record \<^typ>\<open>external\<close>, an argument of the definitions that call it; what a theorem needs
  of it is a named hypothesis, and \<^verbatim>\<open>ref_external\<close> is an instance that satisfies the hypotheses.

  \<^item> \<^verbatim>\<open>Pillar_Prelude\<close>: error monad, lists, bytes and words; the simplification collections.
  \<^item> \<^verbatim>\<open>Pillar_Types\<close>: the shared data of \<^verbatim>\<open>pillar-core\<close> (requests, pathways, events, JSON values) and
    \<^typ>\<open>external\<close>.
  \<^item> \<^verbatim>\<open>Abi_Codec\<close> (\<^verbatim>\<open>abi.rs\<close>, \<^verbatim>\<open>abi/encode.rs\<close>, \<^verbatim>\<open>abi/decode.rs\<close>): the Solidity encoders
    and decoders. Packing the signed call is injective; verify calls decode to what they were built from.
  \<^item> \<^verbatim>\<open>Lz_Packet\<close> (\<^verbatim>\<open>packet.rs\<close> and the proof functions): packet codecs, headers, guids and payload
    hashes. The codecs round-trip; a header determines its route.
  \<^item> \<^verbatim>\<open>Read_Command\<close>: the ReadV1002 command parser accepts exactly its wire format, and its time markers
    are exactly those of the command. \<^verbatim>\<open>Adapter_Params\<close>: the adapter parameter encodings.
  \<^item> \<^verbatim>\<open>Evm_Builders\<close> and \<^verbatim>\<open>Builder_Router\<close>: the EVM payload builder, the read responses hashed in
    chunks, the hash builders and the router. Equal digests attest equal statements; every payload kind of a
    destination takes the same routing decision.
  \<^item> \<^verbatim>\<open>Digest_Preimage\<close>, \<^verbatim>\<open>Move_Builders\<close>, \<^verbatim>\<open>Sui_Bcs\<close>, \<^verbatim>\<open>Felt_Builders\<close>,
    \<^verbatim>\<open>Stellar_Builder\<close>, \<^verbatim>\<open>Solana_Builder\<close>, \<^verbatim>\<open>Non_Evm_Digests\<close>: the builders of the other
    families (Aptos, Sui, Starknet, Canton, Stellar, Solana). Every family is an interpretation of the locale
    \<^verbatim>\<open>preimage_builder\<close>, from which the binding of a digest to its statement follows once for all of them.
    The strkey decoder, the Sui transaction bytes and the Solana already-signed verdict have exact
    characterisations of their own.
  \<^item> \<^verbatim>\<open>Ton_Boc\<close>, \<^verbatim>\<open>Ton_Order\<close>, \<^verbatim>\<open>Ton_Serialize\<close>, \<^verbatim>\<open>Ton_Gate\<close>
    (\<^verbatim>\<open>ton/cell.rs\<close>): the checks on a bag of cells before it is parsed and the writer of bags. The depth check
    is exact on arbitrary bytes, and what the writer produces passes the checks. \<^verbatim>\<open>Ton_Cells\<close>: the cell
    library as a parameter. \<^verbatim>\<open>Ton_Dict\<close> (\<^verbatim>\<open>ton/dict.rs\<close>): lookup in a dictionary, exact for
    every tree of labels.
  \<^item> \<^verbatim>\<open>Ton_Class\<close>, \<^verbatim>\<open>Ton_Class_Laws\<close> (\<^verbatim>\<open>ton/cl_declare.rs\<close>): the class encoding over up to three data
    cells; what is declared is read back. \<^verbatim>\<open>Ton_Payload\<close>, \<^verbatim>\<open>Ton_Payload_Laws\<close> (\<^verbatim>\<open>ton/builders.rs\<close>,
    \<^verbatim>\<open>ton/address.rs\<close>, \<^verbatim>\<open>ton/payload.rs\<close>, \<^verbatim>\<open>ton_v3_builder.rs\<close>): the TON call and its builder. Equal
    signed hashes attest equal statements, and a well-formed request is always built, its serialized bags included.
  \<^item> \<^verbatim>\<open>Ton_Storage\<close>, \<^verbatim>\<open>Ton_Storage_Laws\<close> (\<^verbatim>\<open>ton/payload_signed.rs\<close>, \<^verbatim>\<open>ton/proxy.rs\<close>,
    \<^verbatim>\<open>ton/options.rs\<close>, \<^verbatim>\<open>ton/mod.rs\<close>): decoding of contract storage. The attestation check implements its
    specification over the maps the storage encodes, and options are read from their canonical places.
  \<^item> \<^verbatim>\<open>Js_Render\<close> and \<^verbatim>\<open>Sign_Workflow\<close>: one signing request from admission to response, as a
    function to a trace of effects and a result. A wallet is asked to sign only what every check accepted.
  \<^item> \<^verbatim>\<open>Fair_Budget\<close>: the admission budget as a labelled transition system. Caps, counters and fairness
    hold in every reachable state, and a waiting registration is answered by its deadline, with the timer of the
    runtime library as an argument.
  \<^item> \<^verbatim>\<open>Provider_Snapshot\<close> (\<^verbatim>\<open>provider_snapshot.rs\<close>, \<^verbatim>\<open>config_loader.rs\<close>): the configuration now serving, pins
    and the refresh loop, with the locale \<^verbatim>\<open>generation_slot\<close> for what readers of it rely on. The roster never
    leaves the startup chains.
  \<^item> \<^verbatim>\<open>Health_Cache\<close> (\<^verbatim>\<open>provider_health_cache.rs\<close>): the provider health cache, its readers and its
    refresh task as a transition system over configuration changes, clock steps and aborts. What a reader is
    answered describes a configuration no older than the one it found. \<^verbatim>\<open>Health_Source\<close>
    (\<^verbatim>\<open>provider_health/source.rs\<close>): the verdict on a chain and the retained report.
  \<^item> \<^verbatim>\<open>Quorum_Strategy\<close>, \<^verbatim>\<open>Provider_Quorum\<close>, \<^verbatim>\<open>Provider_Dispatch\<close>, \<^verbatim>\<open>Provider_Files\<close>: the
    strategy language and its matching, the accumulation of answers, the dispatch plan and the loading of pools.
  \<^item> \<^verbatim>\<open>Signer_Types\<close>, \<^verbatim>\<open>Signer_Chains\<close>, \<^verbatim>\<open>Signer_Local\<close>, \<^verbatim>\<open>Signer_Laws\<close> (\<^verbatim>\<open>pillar-signer\<close>): the data of
    the signers, recoverable signatures, the address every chain shows for a key, Key Vault ids and mnemonics. A KMS
    signature becomes the recoverable form of exactly one of its readings, and Ed25519 seeds follow SLIP-10.
  \<^item> \<^verbatim>\<open>Signing_Audit\<close>, \<^verbatim>\<open>Signing_Evidence\<close> (\<^verbatim>\<open>audit.rs\<close>, \<^verbatim>\<open>effects.rs\<close>): the evidence of signing, as operations
    over a history and as a step relation they are runs of. \<^verbatim>\<open>Signer_Adapters\<close>, \<^verbatim>\<open>Signer_Getters\<close> (the KMS and mnemonic
    adapters, \<^verbatim>\<open>factory.rs\<close>, \<^verbatim>\<open>base.rs\<close>, \<^verbatim>\<open>getters.rs\<close>), \<^verbatim>\<open>Signer_Runs\<close>, \<^verbatim>\<open>Signer_Properties\<close>: signing with
    a wallet. Every external signature is announced before it is asked for, and a cached adapter keeps the key it was built for.
  \<^item> This theory: the properties that span components.

  \<^bold>\<open>Recursion and bounds.\<close> Every definition is total but \<^verbatim>\<open>acquire_wait\<close>, the await of a registration,
  \<^verbatim>\<open>read_unary\<close> of a dictionary label and \<^verbatim>\<open>read_addresses\<close> and
  \<^verbatim>\<open>address_nodes\<close> of an address list, which are shown to return. The loops of the code that are not structural carry a
  measure: the remaining bytes for \<^verbatim>\<open>byte_chunks\<close>, \<^verbatim>\<open>strip_any\<close>, \<^verbatim>\<open>hash_chunks\<close>, \<^verbatim>\<open>as_chunks\<close>, \<^verbatim>\<open>strkey_drain\<close> and the
  ULEB128 reader, the value itself for the ULEB128 writer, the unassigned entities for the augmenting path
  search, the unserved waiters for the dispatch loop, the cells below the current level for the breadth-first
  search of a bag of cells and the unvisited cells, then the stack, for its postorder. The only fuel is that of unwinding an augmenting path, the
  length of the path, which the search shows to be enough, and of padding the root of a class with
  references, two, after which it is padded. Words keep the width of the code wherever wrap-around
  can be observed.

  \<^bold>\<open>Not modelled.\<close> The network transports and provider probes, the packet resolvers and validators of the
  runtime (they interpret third-party chain client types and JSON documents field by field), the Canton
  sequencer, the HTTP requests of the key management clients and the audit database, the HTTP and command line layers, metrics and benchmarks: they are
  input and output around the parts above. The deployment tables are data. \<^verbatim>\<open>serde\<close> decoding of requests is
  outside the model: the workflow starts from the decoded request.
\<close>

section \<open>What a signature attests\<close>

lemma pins_keep_event:
  "ev_pathway (ev\<lparr>ev_read_block_pins := pins\<rparr>) = ev_pathway ev"
  "event_dst (ev\<lparr>ev_read_block_pins := pins\<rparr>) = event_dst ev"
  "ev_lz_message_id (ev\<lparr>ev_read_block_pins := pins\<rparr>) = ev_lz_message_id ev"
  "proof_from_event X (ev\<lparr>ev_read_block_pins := pins\<rparr>) = proof_from_event X ev"
  "extra_u64 (ev\<lparr>ev_read_block_pins := pins\<rparr>) key = extra_u64 ev key"
  by (simp_all add: ev_pathway_def event_dst_def proof_from_event_def compute_lz_packet_v1_proof_from_event_def
      packet_from_event_def extra_u32_def extra_u64_def pathway_extra_string_def extra_string_def optional_extra_string_def)

text \<open>
  The statement a V3 digest stands for: the packet proof of the event, with the confirmations and the
  expiration, for the receive contract and the vId of a chain.
\<close>

definition attests_v3 ::
    "external \<Rightarrow> evm_uln_payload_builder \<Rightarrow> (string \<rightharpoonup> string) \<Rightarrow> lz_sent_event \<Rightarrow> string \<Rightarrow> int \<Rightarrow> int \<Rightarrow> string \<Rightarrow> bool" where
  "attests_v3 X contracts v_ids ev chain bc expiration digest \<longleftrightarrow>
     (\<exists>pr n x call cs eid ver target v bytes.
        proof_from_event X ev = Inr pr \<and> u64_from_i64 bc ''blockConfirmation'' = Inr n \<and>
        u64_from_i64 expiration ''expiration'' = Inr x \<and>
        encode_verify_bytes_bytes32_u64 X RECEIVE_ULN_302_VERIFY_SELECTOR (packet_header pr) (payload_hash pr) n = Inr call \<and>
        contracts chain = Some cs \<and> extra_u64 ev ''dstEid'' = Inr eid \<and>
        as_str (uln_send_version (ev_lz_message_id ev)) = Some ver \<and>
        receive_target cs chain (evm_receive_version_from_dst_eid eid ver) = Inr target \<and> v_ids chain = Some v \<and>
        pack_dvn_call_data X target call x v = Inr bytes \<and> digest = keccak256_hex X bytes)"

lemma evm_v3_attests:
  assumes "evm_build_uln_v3_verify_payload X contracts ev bc e v dvn = Inr out" "v_ids (event_dst ev) = Some v"
  shows "attests_v3 X contracts v_ids ev (event_dst ev) bc e (hash_call_data out)"
proof -
  have "(\<lambda>(ev, bc, e, v, dvn). evm_build_uln_v3_verify_payload X contracts ev bc e v dvn) (ev, bc, e, v, dvn) = Inr out"
    using assms(1) by simp
  from evm_v3.digest [OF this] obtain p b where p: "evm_v3_plan X contracts (ev, bc, e, v, dvn) = Inr p" "pack_plan X p = Inr b"
    "hash_call_data out = keccak256_hex X b" by metis
  then show ?thesis
    using assms(2) unfolding attests_v3_def evm_v3_plan_eq_Inr pack_plan_def event_dst_def by fastforce
qed

lemma v3_resolution:
  assumes "cleared X app J rq rv routed ev pins" "rq_version rq = JString ver" "ver \<in> {''V301'', ''V302''}"
  shows "routed = None \<and> get_lz_sent_event app (rq_src_tx_hash rq) (rq_lz_message_id rq) = Inr ev \<and>
    dst_chain_name (ev_pathway ev) = dst_chain_name (rq_pathway rq) \<and> ctx_skip_v_id (rq_signing_context rq) \<noteq> Some True"
proof -
  have route: "routed = None" using assms by (auto simp: cleared_def route_receive_version_def run_simps)
  have "ctx_skip_v_id (rq_signing_context rq) \<noteq> Some True"
    using assms by (auto simp: cleared_def check_skip_v_id_def split: if_splits)
  moreover have "get_lz_sent_event app (rq_src_tx_hash rq) (rq_lz_message_id rq) = Inr ev \<and> check_resolved_event rq ev = Inr ()"
    using assms(1) route by (auto simp: cleared_def resolve_sent_event_def run_simps res_simps)
  ultimately show ?thesis using route by (auto simp: check_resolved_event_def Let_def split: if_splits)
qed

section \<open>Properties across components\<close>

text \<open>
  C1: what is signed for a V3 message is what the request and the chain say. When the workflow runs
  with the installed hash builders over a router whose EVM builder serves the destination, a
  wallet asked to sign for a V301 or V302 request is asked for the Keccak digest of the DVN call that
  attests, with the confirmations and the expiration of the request, the packet proof of the very event that
  was resolved for it, on the receive contract and with the vId of the requested destination.
\<close>

theorem signed_v3_end_to_end:
  assumes builders: "hash_call_data_builders app = build_hash_call_data_builders v2 (router_build_uln_v3 r) read rr v_ids"
    and route: "default_v3 r = evm_build_uln_v3_verify_payload X contracts" "v3_by_dst_chain r chain = None"
    and version: "rq_version rq = JString ver" "ver \<in> {''V301'', ''V302''}"
    and signs: "Sign chain wallet digest \<in> set (fst (sign_request_v2 X app J sch adm rq))"
  shows "\<exists>ev expiration skip dvn bc. chain = dst_chain_name (rq_pathway rq) \<and>
    rq_signing_context rq = Message expiration skip dvn bc \<and>
    get_lz_sent_event app (rq_src_tx_hash rq) (rq_lz_message_id rq) = Inr ev \<and>
    attests_v3 X contracts v_ids ev chain bc expiration digest"
proof -
  from outer_trace [OF signs] obtain rv routed builder ev pins built where c: "cleared X app J rq rv routed ev pins"
    and b: "select_builder app J rq routed = Inr builder"
    "builder (ev\<lparr>ev_read_block_pins := pins\<rparr>) (rq_signing_context rq) = Inr built"
    and d: "digest = hash_call_data built" and chain: "chain = dst_chain_name (rq_pathway rq)"
    by (auto simp: inner_signs build_and_sign_signs)
  note res = v3_resolution [OF c version]
  let ?ev = "ev\<lparr>ev_read_block_pins := pins\<rparr>"
  have dst: "event_dst ?ev = chain" using res chain by (simp add: pins_keep_event event_dst_def)
  have "builder = uln_v3_hash_builder (router_build_uln_v3 r) v_ids"
    using b(1) res version by (auto simp: select_builder_def builders hash_builders_lookup res_simps)
  with b(2) obtain e skip dvn bc v where m: "rq_signing_context rq = Message e skip dvn bc"
    "get_v_id skip ?ev v_ids = Inr v" "router_build_uln_v3 r ?ev bc e v dvn = Inr built"
    by (auto simp: uln_v3_hash_builder_def res_simps split: signing_context.splits)
  have "evm_build_uln_v3_verify_payload X contracts ?ev bc e v dvn = Inr built"
    using m(3) route dst by (auto simp: router_build_uln_v3_def unwrap_or_def res_simps)
  moreover have "v_ids (event_dst ?ev) = Some v" using m(1,2) res by (auto simp: get_v_id_eq_Inr)
  ultimately have "attests_v3 X contracts v_ids ?ev chain bc e (hash_call_data built)"
    using evm_v3_attests [of X contracts ?ev bc e v dvn built v_ids] dst by simp
  then have "attests_v3 X contracts v_ids ev chain bc e digest" by (simp add: attests_v3_def pins_keep_event d)
  with m(1) res chain show ?thesis by blast
qed

definition sample_router :: destination_router where
  "sample_router = router_new (unavailable_v2 []) sample_v3 (unavailable_read [])"

theorem signed_v3_end_to_end_witness:
  "\<exists>digest. Sign ''bsc'' ''w1'' digest \<in>
      set (fst (sign_request_v2 ref_external sample_app sample_js sample_schedule None sample_request)) \<and>
    attests_v3 ref_external sample_builder [''bsc'' \<mapsto> ''7''] sample_event ''bsc'' 15 1000 digest"
proof -
  obtain d where d: "Sign ''bsc'' ''w1'' d \<in>
      set (fst (sign_request_v2 ref_external sample_app sample_js sample_schedule None sample_request))"
    using sample_signs by blast
  have r: "router_build_uln_v3 sample_router = sample_v3"
    by (intro ext) (simp add: router_build_uln_v3_def sample_router_def router_new_def
        unsupported_non_evm_destination_error_def unwrap_or_def)
  have b: "hash_call_data_builders sample_app = build_hash_call_data_builders (unavailable_v2 [])
      (router_build_uln_v3 sample_router) (unavailable_read []) (\<lambda>_ _. Inr []) [''bsc'' \<mapsto> ''7'']"
    unfolding r by (simp add: sample_app_def accepting_app_def)
  have route: "default_v3 sample_router = evm_build_uln_v3_verify_payload ref_external sample_builder"
    "v3_by_dst_chain sample_router ''bsc'' = None"
    by (simp_all add: sample_router_def router_new_def sample_v3_def)
  have v: "rq_version sample_request = JString ''V302''" "''V302'' \<in> {''V301'', ''V302''}" by (simp_all add: sample_pathway)
  have ev: "get_lz_sent_event sample_app (rq_src_tx_hash sample_request) (rq_lz_message_id sample_request) = Inr sample_event"
    by (simp add: sample_app_def accepting_app_def)
  note ev = ev [unfolded sample_pathway]
  from signed_v3_end_to_end [OF b route v d] d show ?thesis by (auto simp: sample_pathway ev)
qed

text \<open>
  C3: a quorum call over a loaded pool is sound. For a pool loaded from the configuration files, a call
  that is planned, dispatched to the providers of its plan and resolved from their answers returns a value
  only if providers whose votes meet the strategy, at least one of them, reported its fingerprint, and no
  other fingerprint had such a quorum; the answers of the plan's first wave alone can decide it.
\<close>

theorem quorum_call_sound:
  assumes loaded: "provider_configs_from_v2 known providers digest strategy minimum bound_to = Inr configs"
    and config: "(chain, config) \<in> set configs"
    and keyed: "map fst keyed = [0..<length (pc_uris config)]"
    and plan: "plan_dispatch_for_keys tracker now deadline chain config keyed = Inr entries"
    and answers: "mset (map fst responses) = mset (map de_index entries)"
    and v: "resolve_provider_quorum_for_indices config (map de_index entries) responses context = Inr v"
  shows "\<exists>fp. reported responses fp v \<and> met config (reporters responses fp) \<and> reporters responses fp \<noteq> {} \<and>
    (\<forall>fp'. reporters responses fp' \<noteq> {} \<and> met config (reporters responses fp') \<longrightarrow> fp' = fp) \<and>
    met config (de_index ` {e \<in> set entries. de_delay e = 0}) \<and> \<not> met config {}"
proof -
  note pool = loaded_pool [OF loaded config]
  have "distinct (map fst keyed)" "list_all (votable config) (map fst keyed)" using keyed pool by simp_all
  note planned = plan_complete [OF plan this]
  have "mset (map fst responses) = mset [0..<length (pc_uris config)]" using answers planned keyed by simp
  then have "distinct (map fst responses)" by (metis distinct_upt mset_eq_imp_distinct_iff)
  moreover have "set (map de_index entries) = fst ` set responses" using mset_eq_setD [OF answers] by simp
  ultimately have "case resolve_provider_quorum_for_indices config (map de_index entries) responses context of
      Inr v \<Rightarrow> \<exists>fp. agreed config responses = {fp} \<and> reported responses fp v
    | Inl e \<Rightarrow> (\<nexists>fp. agreed config responses = {fp}) \<or>
        (\<exists>i c. (i, Inl (RpcConfiguration c)) \<in> set responses \<and> e = Internal c)" by (rule resolution_exact)
  then obtain fp where fp: "agreed config responses = {fp}" "reported responses fp v" unfolding v by auto
  then have "\<forall>fp'. reporters responses fp' \<noteq> {} \<and> met config (reporters responses fp') \<longleftrightarrow> fp' = fp"
    unfolding agreed_def by blast
  with fp(2) planned pool show ?thesis by blast
qed

theorem quorum_call_sound_witness:
  "\<exists>config. provider_configs_from_v2 (\<lambda>_. True) sample_file [] sample_strategy_file (Some 1) None = Inr [(''eth'', config)] \<and>
     (\<exists>fp. reported [(0, Inr (Some (''0x1'', 7 :: nat)))] fp 7 \<and> met config (reporters [(0, Inr (Some (''0x1'', 7 :: nat)))] fp))"
proof -
  obtain config where c: "provider_configs_from_v2 (\<lambda>_. True) sample_file [] sample_strategy_file (Some 1) None = Inr [(''eth'', config)]"
    and uris: "pc_uris config = [Uri ''u0'']" using sample_load by blast
  have in_set: "(''eth'', config) \<in> set [(''eth'', config)]" by simp
  note pool = loaded_pool [OF c in_set]
  have met: "met config {0}" "\<not> met config {}" "votable config 0" using pool by (simp_all add: uris)
  have "is_met_by config [0]" using met(1) by (simp add: is_met_by_met)
  then obtain entries where e: "plan_dispatch_for_keys Map.empty 0 None ''eth'' config [(0, ''u0'')] = Inr entries"
    by (simp add: plan_dispatch_for_keys_def rank_of_def Let_def)
  have keyed: "map fst [(0, ''u0'')] = [0..<length (pc_uris config)]" by (simp add: uris)
  have m: "mset (map de_index entries) = {#0#}" using plan_complete [OF e] met(3) by simp
  have ids: "map de_index entries = [0]" using m by (simp only: mset_single_iff)
  let ?r = "[(0, Inr (Some (''0x1'', 7 :: nat)))]"
  have "resolve_provider_quorum_for_indices config [0] ?r ''block'' = Inr 7"
    using met by (simp add: resolve_provider_quorum_for_indices_def acc_new_def record_result_def acc_record_def
        unambiguous_result_def candidates_def is_met_by_met add_vote_def Let_def)
  then have v: "resolve_provider_quorum_for_indices config (map de_index entries) ?r ''block'' = Inr 7" by (simp add: ids)
  have a: "mset (map fst ?r) = mset (map de_index entries)" by (simp add: ids)
  from quorum_call_sound [OF c in_set keyed e a v] c show ?thesis by blast
qed

end
